(* ===== verification/Poker_Prelude.thy ===== *)
theory Poker_Prelude
  imports Main "HOL-Library.Word" "HOL-Library.Multiset"
begin

unbundle bit_operations_syntax

text \<open>
  Shared vocabulary of the development: the crate's error type
  (\<^verbatim>\<open>poker_l1/src/error.rs\<close>), the result monad that stands for
  \<^verbatim>\<open>PokerL1Result\<close> and the question-mark operator, the checked, saturating and wrapping
  operations of Rust's unsigned integers, and the generic list lemmas the components use.

  Amounts of chips (\<^verbatim>\<open>u64\<close>) and durations (\<^verbatim>\<open>u32\<close>, \<^verbatim>\<open>u64\<close>) are natural numbers. Every
  \<^verbatim>\<open>checked_add\<close> and \<^verbatim>\<open>checked_sub\<close> of the source is the function of the same name below,
  with the width written out; an addition the source leaves unchecked is \<open>u64_add\<close>, which
  wraps. Seat masks (\<^verbatim>\<open>u16\<close>) are 16-bit words.
\<close>

named_theorems result_simps \<open>inversion of the result monad\<close>
named_theorems money_simps \<open>chip accounting of the table operations\<close>
named_theorems mask_simps \<open>bits of seat masks\<close>

section \<open>Errors and results\<close>

text \<open>
  The variants of \<^verbatim>\<open>PokerL1Error\<close> that the modelled code constructs. A message is the fixed
  text of the source's format string; the interpolated values are left out. \<open>Panic\<close> is not
  an error of the source: it is the value the model gives to an \<^verbatim>\<open>assert!\<close>, \<^verbatim>\<open>expect\<close>,
  \<^verbatim>\<open>unreachable!\<close>, \<^verbatim>\<open>panic!\<close> or out-of-range index, so that every such path is a branch.
\<close>

datatype poker_error =
    Serialization string
  | Other string
  | ContractExecutionFailed string
  | PhaseWindowClosed string
  | UnknownScheme "8 word"
  | InvalidPubkeyLength "8 word" nat nat
  | InvalidSignature
  | StaleTxNonce nat
  | UnknownContractMethod "8 word list"
  | Panic string

type_synonym 'a res = "poker_error + 'a"

definition rbind :: "'e + 'a \<Rightarrow> ('a \<Rightarrow> 'e + 'b) \<Rightarrow> 'e + 'b" where
  "rbind m f = (case m of Inl e \<Rightarrow> Inl e | Inr x \<Rightarrow> f x)"

definition ok_or :: "'a option \<Rightarrow> 'e \<Rightarrow> 'e + 'a" where
  "ok_or x e = (case x of None \<Rightarrow> Inl e | Some y \<Rightarrow> Inr y)"

lemma rbind_simps [simp]:
  "rbind (Inl e) f = Inl e"
  "rbind (Inr x) f = f x"
  by (simp_all add: rbind_def)

lemma rbind_cong [fundef_cong]:
  "m = m' \<Longrightarrow> (\<And>x. m' = Inr x \<Longrightarrow> f x = g x) \<Longrightarrow> rbind m f = rbind m' g"
  by (auto simp: rbind_def split: sum.split)

lemma rbind_Inr_iff [result_simps]:
  "rbind m f = Inr y \<longleftrightarrow> (\<exists>x. m = Inr x \<and> f x = Inr y)"
  by (auto simp: rbind_def split: sum.split)

lemma rbind_InrE:
  assumes "rbind m f = Inr y"
  obtains x where "m = Inr x" "f x = Inr y"
  using assms by (auto simp: result_simps)

lemma rbind_Inr_right [simp]: "rbind m Inr = m"
  by (cases m) auto

lemma ok_or_simps [simp]:
  "ok_or None e = Inl e"
  "ok_or (Some x) e = Inr x"
  by (simp_all add: ok_or_def)

lemma ok_or_Inr_iff [result_simps]: "ok_or x e = Inr y \<longleftrightarrow> x = Some y"
  by (auto simp: ok_or_def split: option.split)

lemma ok_or_Inl_iff [result_simps]: "ok_or x e = Inl e' \<longleftrightarrow> x = None \<and> e' = e"
  by (auto simp: ok_or_def split: option.split)

lemma if_Inl_Inr_iff [result_simps]:
  "(if c then Inl e else m) = Inr y \<longleftrightarrow> \<not> c \<and> m = Inr y"
  "(if c then m else Inl e) = Inr y \<longleftrightarrow> c \<and> m = Inr y"
  by auto

text \<open>\<^verbatim>\<open>Iterator::try_fold\<close>: the first error stops the loop.\<close>

fun try_fold :: "('s \<Rightarrow> 'a \<Rightarrow> 'e + 's) \<Rightarrow> 's \<Rightarrow> 'a list \<Rightarrow> 'e + 's" where
  "try_fold f s [] = Inr s"
| "try_fold f s (x # xs) = rbind (f s x) (\<lambda>s'. try_fold f s' xs)"

lemma try_fold_append:
  "try_fold f s (xs @ ys) = rbind (try_fold f s xs) (\<lambda>s'. try_fold f s' ys)"
proof (induction xs arbitrary: s)
  case Nil
  then show ?case by simp
next
  case (Cons x xs)
  then show ?case by (cases "f s x") auto
qed

lemma try_fold_invariant:
  assumes "try_fold f s xs = Inr r" and "P s"
    and "\<And>s x s'. x \<in> set xs \<Longrightarrow> P s \<Longrightarrow> f s x = Inr s' \<Longrightarrow> P s'"
  shows "P r"
  using assms
proof (induction xs arbitrary: s)
  case Nil
  then show ?case by simp
next
  case (Cons x xs)
  from Cons.prems(1) obtain s' where s': "f s x = Inr s'" "try_fold f s' xs = Inr r"
    by (auto simp: result_simps)
  have "P s'" using Cons.prems(3) [OF _ Cons.prems(2) s'(1)] by simp
  then show ?case using Cons.IH [OF s'(2)] Cons.prems(3) by auto
qed

section \<open>Unsigned machine arithmetic\<close>

abbreviation u64_bound :: nat where
  "u64_bound \<equiv> 2 ^ 64"

abbreviation u32_bound :: nat where
  "u32_bound \<equiv> 2 ^ 32"

definition u64_max :: nat where
  "u64_max = u64_bound - 1"

definition checked_add :: "nat \<Rightarrow> nat \<Rightarrow> nat option" where
  "checked_add a b = (if a + b < u64_bound then Some (a + b) else None)"

definition checked_sub :: "nat \<Rightarrow> nat \<Rightarrow> nat option" where
  "checked_sub a b = (if b \<le> a then Some (a - b) else None)"

definition checked_add_u32 :: "nat \<Rightarrow> nat \<Rightarrow> nat option" where
  "checked_add_u32 a b = (if a + b < u32_bound then Some (a + b) else None)"

definition saturating_sub :: "nat \<Rightarrow> nat \<Rightarrow> nat" where
  "saturating_sub a b = a - b"

definition saturating_add_u32 :: "nat \<Rightarrow> nat \<Rightarrow> nat" where
  "saturating_add_u32 a b = min (a + b) (u32_bound - 1)"

text \<open>The unchecked addition of the source, at its width.\<close>

definition u64_add :: "nat \<Rightarrow> nat \<Rightarrow> nat" where
  "u64_add a b = (a + b) mod u64_bound"

lemma checked_add_Some_iff [result_simps]:
  "checked_add a b = Some c \<longleftrightarrow> c = a + b \<and> a + b < u64_bound"
  by (auto simp: checked_add_def)

lemma checked_add_None_iff [result_simps]:
  "checked_add a b = None \<longleftrightarrow> u64_bound \<le> a + b"
  by (auto simp: checked_add_def)

lemma checked_sub_Some_iff [result_simps]:
  "checked_sub a b = Some c \<longleftrightarrow> b \<le> a \<and> c = a - b"
  by (auto simp: checked_sub_def)

lemma checked_sub_None_iff [result_simps]:
  "checked_sub a b = None \<longleftrightarrow> a < b"
  by (auto simp: checked_sub_def)

lemma checked_add_u32_Some_iff [result_simps]:
  "checked_add_u32 a b = Some c \<longleftrightarrow> c = a + b \<and> a + b < u32_bound"
  by (auto simp: checked_add_u32_def)

lemma u64_add_exact [simp]: "a + b < u64_bound \<Longrightarrow> u64_add a b = a + b"
  by (simp add: u64_add_def)

lemma u64_add_bound: "u64_add a b < u64_bound"
  by (simp add: u64_add_def)

text \<open>A checked running sum either is the sum or reports the overflow.\<close>

lemma try_fold_checked_sum:
  "s < u64_bound \<Longrightarrow>
   try_fold (\<lambda>acc x. ok_or (checked_add acc (g x)) e) s xs =
     (if s + sum_list (map g xs) < u64_bound then Inr (s + sum_list (map g xs)) else Inl e)"
proof (induction xs arbitrary: s)
  case Nil
  then show ?case by simp
next
  case (Cons x xs)
  show ?case
  proof (cases "s + g x < u64_bound")
    case True
    with Cons.IH [OF True] show ?thesis by (simp add: checked_add_def add.assoc)
  next
    case False
    then show ?thesis by (simp add: checked_add_def)
  qed
qed

section \<open>Lists\<close>

lemma sum_list_update_nat:
  "i < length xs \<Longrightarrow> sum_list (xs[i := v]) + xs ! i = sum_list xs + (v :: nat)"
proof (induction xs arbitrary: i)
  case Nil
  then show ?case by simp
next
  case (Cons x xs)
  then show ?case by (cases i) auto
qed

lemma sum_list_map_update:
  fixes f :: "'a \<Rightarrow> nat"
  assumes "i < length xs"
  shows "sum_list (map f (xs[i := v])) + f (xs ! i) = sum_list (map f xs) + f v"
  using sum_list_update_nat [of i "map f xs" "f v"] assms by (simp add: map_update)

lemma sum_list_map_update_same:
  fixes f :: "'a \<Rightarrow> nat"
  assumes "f v = f (xs ! i)"
  shows "sum_list (map f (xs[i := v])) = sum_list (map f xs)"
proof (cases "i < length xs")
  case True
  with sum_list_map_update [OF True, of f v] assms show ?thesis by simp
next
  case False
  then show ?thesis by (simp add: list_update_beyond)
qed

lemma nth_le_sum_list:
  fixes f :: "'a \<Rightarrow> nat"
  assumes "i < length xs"
  shows "f (xs ! i) \<le> sum_list (map f xs)"
proof -
  have "f (xs ! i) \<in> set (map f xs)" using assms by auto
  then show ?thesis by (intro member_le_sum_list) auto
qed

lemma sum_list_pointwise_le:
  fixes f g :: "'a \<Rightarrow> nat"
  shows "(\<And>x. x \<in> set xs \<Longrightarrow> f x \<le> g x) \<Longrightarrow> sum_list (map f xs) \<le> sum_list (map g xs)"
  by (induction xs) (auto intro: add_mono)

text \<open>Position of the first element that satisfies a predicate (\<^verbatim>\<open>Iterator::position\<close>).\<close>

fun position :: "('a \<Rightarrow> bool) \<Rightarrow> 'a list \<Rightarrow> nat option" where
  "position P [] = None"
| "position P (x # xs) = (if P x then Some 0 else map_option Suc (position P xs))"

lemma position_Some_iff:
  "position P xs = Some i \<longleftrightarrow> i < length xs \<and> P (xs ! i) \<and> (\<forall>j<i. \<not> P (xs ! j))"
proof (induction xs arbitrary: i)
  case Nil
  then show ?case by simp
next
  case (Cons x xs)
  show ?case
  proof (cases i)
    case 0
    then show ?thesis by auto
  next
    case (Suc k)
    with Cons.IH [of k] show ?thesis by (auto simp: less_Suc_eq_0_disj)
  qed
qed

lemma position_None_iff: "position P xs = None \<longleftrightarrow> (\<forall>x\<in>set xs. \<not> P x)"
  by (induction xs) auto

text \<open>Going once around a table of \<open>n\<close> seats meets every seat exactly once.\<close>

lemma seat_circle:
  fixes b n :: nat
  shows "distinct (map (\<lambda>k. (b + k) mod n) [1..<n + 1])"
    and "set (map (\<lambda>k. (b + k) mod n) [1..<n + 1]) = {..<n}"
proof -
  let ?L = "map (\<lambda>o'. (b + o') mod n) [1..<n + 1]"
  have inj: "inj_on (\<lambda>o'. (b + o') mod n) (set [1..<n + 1])"
  proof (rule inj_onI)
    fix x y assume xy: "x \<in> set [1..<n + 1]" "y \<in> set [1..<n + 1]" "(b + x) mod n = (b + y) mod n"
    have eq: "u = v" if "u \<le> v" "v \<le> n" "1 \<le> u" "(b + v) mod n = (b + u) mod n" for u v
    proof -
      have "n dvd v - u" using that mod_eq_dvd_iff_nat [of "b + u" "b + v" n] by simp
      moreover have "v - u < n" using that by auto
      ultimately show ?thesis using that by (auto dest: nat_dvd_not_less)
    qed
    have b: "x \<le> n" "y \<le> n" "1 \<le> x" "1 \<le> y" using xy(1,2) by auto
    show "x = y"
    proof (cases "x \<le> y")
      case True
      from eq [OF this b(2,3) xy(3) [symmetric]] show ?thesis .
    next
      case False
      then have "y \<le> x" by simp
      from eq [OF this b(1,4) xy(3)] show ?thesis by simp
    qed
  qed
  then have d: "distinct ?L" by (simp add: distinct_map)
  have "set ?L \<subseteq> {..<n}" by (cases n) auto
  moreover have "card (set ?L) = card {..<n}" using distinct_card [OF d] by simp
  ultimately have "set ?L = {..<n}" by (intro card_subset_eq) auto
  then show "distinct (map (\<lambda>k. (b + k) mod n) [1..<n + 1])" "set (map (\<lambda>k. (b + k) mod n) [1..<n + 1]) = {..<n}"
    using d by simp_all
qed

end
