(* ===== verification/Poker_Masks.thy ===== *)
theory Poker_Masks
  imports Poker_Prelude
begin

text \<open>
  Seat masks of \<^verbatim>\<open>poker_l1/.../core/types.rs\<close>: a set of seats as a 16-bit word whose bit
  \<open>i\<close> stands for seat \<open>i\<close>. The interface \<open>seat_set\<close> says what the protocols rely on; the
  masks are interpreted as an implementation of it.
\<close>

section \<open>Operations\<close>

type_synonym seat_mask = "16 word"

definition MAX_SEATS :: nat where "MAX_SEATS = 9"

definition NO_SEAT :: nat where "NO_SEAT = 15"

definition seat_mask_bit :: "nat \<Rightarrow> seat_mask" where
  "seat_mask_bit i = push_bit i 1"

definition seat_mask_contains :: "seat_mask \<Rightarrow> nat \<Rightarrow> bool" where
  "seat_mask_contains m i \<longleftrightarrow> i < MAX_SEATS \<and> m AND seat_mask_bit i \<noteq> 0"

definition seat_mask_insert :: "seat_mask \<Rightarrow> nat \<Rightarrow> seat_mask res" where
  "seat_mask_insert m i =
     (if i \<ge> MAX_SEATS then Inl (Serialization ''Texas seat index exceeds mask capacity'')
      else Inr (m OR seat_mask_bit i))"

definition seat_mask_remove :: "seat_mask \<Rightarrow> nat \<Rightarrow> seat_mask" where
  "seat_mask_remove m i = (if i < MAX_SEATS then m AND NOT (seat_mask_bit i) else m)"

text \<open>\<^verbatim>\<open>u16::count_ones\<close> and \<^verbatim>\<open>u16::trailing_zeros\<close>.\<close>

definition count_ones :: "16 word \<Rightarrow> nat" where
  "count_ones m = length (filter (bit m) [0..<16])"

definition trailing_zeros :: "16 word \<Rightarrow> nat" where
  "trailing_zeros m = (case position (bit m) [0..<16] of None \<Rightarrow> 16 | Some i \<Rightarrow> i)"

definition seat_mask_count :: "seat_mask \<Rightarrow> nat" where
  "seat_mask_count m = count_ones m"

definition seat_mask_first :: "seat_mask \<Rightarrow> nat option" where
  "seat_mask_first m = (if m \<noteq> 0 then Some (trailing_zeros m) else None)"

definition seat_mask_to_indices :: "seat_mask \<Rightarrow> nat \<Rightarrow> nat list" where
  "seat_mask_to_indices m max_players = filter (seat_mask_contains m) [0..<max_players]"

definition seat_mask_from_indices :: "nat list \<Rightarrow> nat \<Rightarrow> seat_mask res" where
  "seat_mask_from_indices indices max_players =
     (if max_players > MAX_SEATS then Inl (Serialization ''max_players exceeds MAX_SEATS'')
      else try_fold (\<lambda>m i.
             if i \<ge> max_players then Inl (Serialization ''seat index outside max_players'')
             else if m AND seat_mask_bit i \<noteq> 0 then Inl (Serialization ''duplicate seat index'')
             else Inr (m OR seat_mask_bit i)) 0 indices)"

definition seat_mask_is_canonical :: "seat_mask \<Rightarrow> nat \<Rightarrow> bool" where
  "seat_mask_is_canonical m max_players \<longleftrightarrow>
     max_players \<le> MAX_SEATS \<and> (max_players = MAX_SEATS \<or> m < push_bit max_players 1)"

section \<open>Bits\<close>

lemma bit_seat_mask_bit [mask_simps]: "bit (seat_mask_bit i) j \<longleftrightarrow> i = j \<and> j < 16"
  by (auto simp: seat_mask_bit_def bit_exp_iff possible_bit_def)

lemma seat_mask_bit_0 [mask_simps]: "m AND seat_mask_bit i \<noteq> 0 \<longleftrightarrow> bit m i"
proof -
  have "bit (m AND seat_mask_bit i) n \<longleftrightarrow> n = i \<and> bit m i" for n
    by (auto simp: bit_and_iff mask_simps dest: bit_imp_le_length)
  then show ?thesis by (metis bit_eq_iff bit_0_eq bot_apply bot_bool_def)
qed

lemma bit_16 [mask_simps]: "bit (m :: 16 word) i \<Longrightarrow> i < 16"
  by (drule bit_imp_le_length) simp

lemma seat_mask_contains_iff [mask_simps]:
  "seat_mask_contains m i \<longleftrightarrow> i < 9 \<and> bit m i"
  by (simp add: seat_mask_contains_def MAX_SEATS_def mask_simps)

lemma bit_seat_mask_or [mask_simps]: "bit (m OR seat_mask_bit i) j \<longleftrightarrow> bit m j \<or> i = j \<and> j < 16"
  by (simp add: bit_or_iff mask_simps)

lemma bit_seat_mask_remove [mask_simps]:
  "bit (seat_mask_remove m i) j \<longleftrightarrow> bit m j \<and> (i = j \<longrightarrow> 9 \<le> i)"
  by (auto simp: seat_mask_remove_def MAX_SEATS_def bit_and_iff bit_not_iff mask_simps
      dest: bit_16)

lemma mask_eq_0_iff: "(m :: 16 word) = 0 \<longleftrightarrow> (\<forall>i. \<not> bit m i)"
  by (metis bit_eq_iff bit_0_eq bot_apply bot_bool_def)

lemma mask_eqI: "(\<And>i. i < 16 \<Longrightarrow> bit m i = bit m' i) \<Longrightarrow> (m :: 16 word) = m'"
  by (rule bit_word_eqI) simp

lemma seat_mask_remove_contains [simp]: "\<not> seat_mask_contains (seat_mask_remove m i) i"
  by (auto simp: mask_simps)

lemma trailing_zeros_bit:
  assumes "m \<noteq> 0"
  shows "bit m (trailing_zeros m)" and "\<And>j. j < trailing_zeros m \<Longrightarrow> \<not> bit m j"
    and "trailing_zeros m < 16"
proof -
  obtain k where "bit m k" using assms by (auto simp: mask_eq_0_iff)
  then have "k < 16" by (rule bit_16)
  have "position (bit m) [0..<16] \<noteq> None"
    using \<open>bit m k\<close> \<open>k < 16\<close> by (auto simp: position_None_iff intro: bexI [of _ k])
  then obtain i where i: "position (bit m) [0..<16] = Some i" by blast
  have tz: "trailing_zeros m = i" using i by (simp add: trailing_zeros_def)
  from i show "bit m (trailing_zeros m)" "trailing_zeros m < 16"
    unfolding tz by (auto simp: position_Some_iff)
  show "\<not> bit m j" if "j < trailing_zeros m" for j
    using that i unfolding tz by (auto simp: position_Some_iff)
qed

lemma count_ones_card: "count_ones m = card {i. bit m i}"
proof -
  have "{i. bit m i} = set (filter (bit m) [0..<16])" by (auto dest: bit_16)
  then show ?thesis
    by (simp only: count_ones_def) (simp add: distinct_card del: set_filter)
qed

lemma finite_mask [simp]: "finite {i. bit (m :: 16 word) i}"
  by (rule finite_subset [of _ "{..<16}"]) (auto dest: bit_16)

lemma bit_mask_less_iff:
  assumes "n \<le> 9"
  shows "(m :: 16 word) < push_bit n 1 \<longleftrightarrow> (\<forall>i. bit m i \<longrightarrow> i < n)"
proof -
  have u: "uint (push_bit n 1 :: 16 word) = 2 ^ n"
    using assms by (intro bit_eqI) (auto simp: bit_uint_iff bit_exp_iff possible_bit_def)
  have "m < push_bit n 1 \<longleftrightarrow> uint m < 2 ^ n" using u by (simp add: word_less_def)
  also have "\<dots> \<longleftrightarrow> take_bit n (uint m) = uint m"
    by (simp add: take_bit_int_eq_self_iff)
  also have "\<dots> \<longleftrightarrow> (\<forall>i. bit m i \<longrightarrow> i < n)"
    by (auto simp: bit_eq_iff bit_take_bit_iff bit_uint_iff dest: bit_16)
  finally show ?thesis .
qed

lemma seat_mask_is_canonical_iff:
  "n \<le> 9 \<Longrightarrow> seat_mask_is_canonical m n \<longleftrightarrow> n = 9 \<or> (\<forall>i. bit m i \<longrightarrow> i < n)"
  using bit_mask_less_iff [of n m] by (auto simp: seat_mask_is_canonical_def MAX_SEATS_def)

section \<open>The interface of a seat set\<close>

text \<open>
  What the shuffle, reveal and reconstruct protocols rely on: masks are finite sets of
  seats, with membership, insertion and removal below the table capacity, a count, and the
  lowest member, which is the seat whose turn it is.
\<close>

locale seat_set =
  fixes members :: "'s \<Rightarrow> nat set"
    and empty :: 's
    and contains :: "'s \<Rightarrow> nat \<Rightarrow> bool"
    and ins :: "'s \<Rightarrow> nat \<Rightarrow> 's res"
    and remove :: "'s \<Rightarrow> nat \<Rightarrow> 's"
    and count :: "'s \<Rightarrow> nat"
    and first :: "'s \<Rightarrow> nat option"
    and cap :: nat
  assumes finite_members: "finite (members s)"
    and members_empty: "members empty = {}"
    and contains_iff: "contains s i \<longleftrightarrow> i < cap \<and> i \<in> members s"
    and ins_ok: "i < cap \<Longrightarrow> \<exists>s'. ins s i = Inr s' \<and> members s' = insert i (members s)"
    and ins_out_of_range: "cap \<le> i \<Longrightarrow> \<exists>e. ins s i = Inl e"
    and members_remove: "i < cap \<Longrightarrow> members (remove s i) = members s - {i}"
    and count_card: "count s = card (members s)"
    and first_Min: "first s = (if members s = {} then None else Some (Min (members s)))"
begin

lemma first_Some_iff: "first s = Some i \<longleftrightarrow> members s \<noteq> {} \<and> i = Min (members s)"
  by (auto simp: first_Min)

lemma first_None_iff: "first s = None \<longleftrightarrow> members s = {}"
  by (simp add: first_Min)

text \<open>Serving the lowest member takes exactly one member away and is progress.\<close>

lemma serve_first:
  assumes "first s = Some i" and "i < cap"
  shows "i \<in> members s" and "members (remove s i) = members s - {i}"
    and "count s = Suc (count (remove s i))" and "\<And>j. j \<in> members s \<Longrightarrow> i \<le> j"
proof -
  from assms(1) have ne: "members s \<noteq> {}" and i: "i = Min (members s)"
    by (auto simp: first_Some_iff)
  show mem: "i \<in> members s" using ne i finite_members by simp
  show rem: "members (remove s i) = members s - {i}" using assms(2) by (rule members_remove)
  show "count s = Suc (count (remove s i))"
    using mem finite_members [of s]
    by (metis rem count_card card.remove)
  show "i \<le> j" if "j \<in> members s" for j using that i finite_members by simp
qed

text \<open>
  A protocol that serves the lowest member until none is left serves every member once, in
  ascending order.
\<close>

lemma serve_order:
  assumes "members s \<subseteq> {..<cap}"
  shows "\<exists>order. sorted_wrt (<) order \<and> set order = members s \<and>
           members (foldl remove s order) = {}"
proof (intro exI conjI)
  let ?order = "sorted_list_of_set (members s)"
  show "sorted_wrt (<) ?order" by (rule strict_sorted_list_of_set)
  show "set ?order = members s" using finite_members by simp
  have "set xs \<subseteq> {..<cap} \<Longrightarrow> members (foldl remove t xs) = members t - set xs" for t xs
    by (induction xs arbitrary: t) (auto simp: members_remove)
  then show "members (foldl remove s ?order) = {}"
    using assms finite_members by auto
qed

end

interpretation mask: seat_set
  "\<lambda>m. {i. bit m i}" "0 :: seat_mask" seat_mask_contains seat_mask_insert seat_mask_remove
  seat_mask_count seat_mask_first MAX_SEATS
proof unfold_locales
  fix m :: seat_mask and i :: nat
  show "finite {i. bit m i}" by simp
  show "{i. bit (0 :: seat_mask) i} = {}" by simp
  show "seat_mask_contains m i \<longleftrightarrow> i < MAX_SEATS \<and> i \<in> {i. bit m i}"
    by (simp add: mask_simps MAX_SEATS_def)
  show "i < MAX_SEATS \<Longrightarrow>
      \<exists>m'. seat_mask_insert m i = Inr m' \<and> {i. bit m' i} = insert i {i. bit m i}"
    by (auto simp: seat_mask_insert_def MAX_SEATS_def mask_simps)
  show "MAX_SEATS \<le> i \<Longrightarrow> \<exists>e. seat_mask_insert m i = Inl e"
    by (simp add: seat_mask_insert_def)
  show "i < MAX_SEATS \<Longrightarrow> {j. bit (seat_mask_remove m i) j} = {j. bit m j} - {i}"
    by (auto simp: mask_simps MAX_SEATS_def)
  show "seat_mask_count m = card {i. bit m i}"
    by (simp add: seat_mask_count_def count_ones_card)
  show "seat_mask_first m = (if {i. bit m i} = {} then None else Some (Min {i. bit m i}))"
  proof (cases "m = 0")
    case True
    then show ?thesis by (simp add: seat_mask_first_def)
  next
    case False
    note tz = trailing_zeros_bit [OF False]
    have "Min {i. bit m i} = trailing_zeros m"
      using tz by (intro Min_eqI) (auto simp: not_less [symmetric])
    moreover have "{i. bit m i} \<noteq> {}" using tz(1) by auto
    ultimately show ?thesis using False by (simp add: seat_mask_first_def)
  qed
qed

section \<open>Indices and masks\<close>

lemma set_seat_mask_to_indices:
  "n \<le> 9 \<Longrightarrow> set (seat_mask_to_indices m n) = {i. i < n \<and> bit m i}"
  by (auto simp: seat_mask_to_indices_def mask_simps)

lemma seat_mask_from_indices_Inr:
  assumes "seat_mask_from_indices is n = Inr m"
  shows "n \<le> 9 \<and> distinct is \<and> set is \<subseteq> {..<n} \<and> {i. bit m i} = set is"
proof -
  define f where "f = (\<lambda>m i.
     if i \<ge> n then Inl (Serialization ''seat index outside max_players'')
     else if m AND seat_mask_bit i \<noteq> 0 then Inl (Serialization ''duplicate seat index'')
     else Inr (m OR seat_mask_bit i))"
  have n: "n \<le> 9" and r: "try_fold f 0 is = Inr m"
    using assms by (auto simp: seat_mask_from_indices_def f_def MAX_SEATS_def split: if_splits)
  have "try_fold f a is = Inr m \<Longrightarrow>
      distinct is \<and> set is \<subseteq> {..<n} \<and> set is \<inter> {i. bit a i} = {} \<and> {i. bit m i} = {i. bit a i} \<union> set is" for a
  proof (induction "is" arbitrary: a)
    case Nil
    then show ?case by auto
  next
    case (Cons i "is")
    from Cons.prems have i: "i < n" "\<not> bit a i" "try_fold f (a OR seat_mask_bit i) is = Inr m"
      by (auto simp: f_def mask_simps split: if_splits)
    with Cons.IH [OF i(3)] n show ?case by (auto simp: mask_simps)
  qed
  with r n show ?thesis by fastforce
qed

lemma seat_mask_from_indices_ok:
  assumes "n \<le> 9" "distinct is" "set is \<subseteq> {..<n}"
  shows "\<exists>m. seat_mask_from_indices is n = Inr m"
proof -
  define f where "f = (\<lambda>m i.
     if i \<ge> n then Inl (Serialization ''seat index outside max_players'')
     else if m AND seat_mask_bit i \<noteq> 0 then Inl (Serialization ''duplicate seat index'')
     else Inr (m OR seat_mask_bit i))"
  have "distinct is \<Longrightarrow> set is \<subseteq> {..<n} \<Longrightarrow> set is \<inter> {i. bit a i} = {} \<Longrightarrow>
      \<exists>m. try_fold f a is = Inr m" for a
  proof (induction "is" arbitrary: a)
    case Nil
    then show ?case by simp
  next
    case (Cons i "is")
    have "f a i = Inr (a OR seat_mask_bit i)" using Cons.prems by (auto simp: f_def mask_simps)
    moreover have "set is \<inter> {j. bit (a OR seat_mask_bit i) j} = {}"
      using Cons.prems by (auto simp: mask_simps)
    ultimately show ?case using Cons.IH [of "a OR seat_mask_bit i"] Cons.prems by auto
  qed
  from this [of 0] assms show ?thesis
    by (auto simp: seat_mask_from_indices_def f_def MAX_SEATS_def)
qed

text \<open>
  Round trip: a list of seats that is accepted as a mask is distinct and in range, every
  such list is accepted, and expanding the mask gives the same seats in ascending order.
\<close>

theorem seat_mask_roundtrip:
  assumes "n \<le> 9"
  shows "((\<exists>m. seat_mask_from_indices is n = Inr m) \<longleftrightarrow> distinct is \<and> set is \<subseteq> {..<n}) \<and>
    (\<forall>m. seat_mask_from_indices is n = Inr m \<longrightarrow> seat_mask_to_indices m n = sort is)"
proof (intro conjI allI impI)
  show "(\<exists>m. seat_mask_from_indices is n = Inr m) \<longleftrightarrow> distinct is \<and> set is \<subseteq> {..<n}"
    using seat_mask_from_indices_Inr seat_mask_from_indices_ok [OF assms] by blast
  fix m assume "seat_mask_from_indices is n = Inr m"
  note r = seat_mask_from_indices_Inr [OF this]
  have "sorted (seat_mask_to_indices m n)" "distinct (seat_mask_to_indices m n)"
    by (auto simp: seat_mask_to_indices_def intro: sorted_wrt_filter)
  moreover have "set (seat_mask_to_indices m n) = set (sort is)"
    using r assms by (auto simp: set_seat_mask_to_indices)
  ultimately show "seat_mask_to_indices m n = sort is"
    using r by (intro sorted_distinct_set_unique) auto
qed

theorem seat_mask_roundtrip_witness:
  "(9::nat) \<le> 9 \<and> seat_mask_from_indices [5, 0, 2] 9 = Inr 37 \<and>
   seat_mask_to_indices 37 9 = [0, 2, 5]"
proof -
  have h: "(9::nat) \<le> 9" by simp
  have e: "seat_mask_from_indices [5, 0, 2] 9 = Inr 37"
    by (simp add: seat_mask_from_indices_def MAX_SEATS_def seat_mask_bit_def)
  have "seat_mask_to_indices 37 9 = sort [5, 0, 2]"
    using seat_mask_roundtrip [OF h, of "[5, 0, 2]"] e by blast
  then show ?thesis using h e by simp
qed

end
