(* ===== verification/Poker_Cards.thy ===== *)
theory Poker_Cards
  imports Poker_Prelude
begin

text \<open>
  Cards (\<^verbatim>\<open>poker_l1/.../core/card.rs\<close>): the one-byte card identifier with its suit and rank
  views, and the fixed-capacity containers for hole cards and boards. The containers keep
  their length beside an array padded with \<open>PADDING\<close>; their fields are private to the module
  and every constructor keeps the length within the capacity, so the live prefix is \<open>take\<close>.
\<close>

section \<open>Card identifiers\<close>

definition MAX_SUIT :: nat where "MAX_SUIT = 3"
definition TWO :: nat where "TWO = 2"
definition ACE :: nat where "ACE = 14"

datatype card = Card (to_index: nat)

definition PADDING :: card where "PADDING = Card 255"

definition card_new :: "nat \<Rightarrow> nat \<Rightarrow> card" where
  "card_new s r =
     (if s \<le> MAX_SUIT \<and> r \<ge> TWO \<and> r \<le> ACE then Card (s * 13 + (r - TWO))
      else if s \<le> MAX_SUIT \<and> r = 0 then Card (52 + s)
      else PADDING)"

definition card_is_valid :: "card \<Rightarrow> bool" where
  "card_is_valid c \<longleftrightarrow> to_index c < 52"

definition suit :: "card \<Rightarrow> nat" where
  "suit c = (if to_index c < 52 then to_index c div 13
             else if to_index c < 56 then to_index c - 52 else 255)"

definition rank :: "card \<Rightarrow> nat" where
  "rank c = (if to_index c < 52 then to_index c mod 13 + TWO else 0)"

lemma rank_bounds: "rank c = 0 \<or> 2 \<le> rank c \<and> rank c \<le> 14"
  by (auto simp: rank_def TWO_def)

lemma rank_valid: "card_is_valid c \<Longrightarrow> 2 \<le> rank c \<and> rank c \<le> 14"
  by (auto simp: card_is_valid_def rank_def TWO_def)

lemma suit_valid: "card_is_valid c \<Longrightarrow> suit c \<le> 3"
  by (auto simp: card_is_valid_def suit_def)

lemma card_views: "card_is_valid c \<Longrightarrow> to_index c = suit c * 13 + (rank c - 2)"
  by (auto simp: card_is_valid_def suit_def rank_def TWO_def)

lemma card_eq_views: "card_is_valid c \<Longrightarrow> card_is_valid d \<Longrightarrow> c = d \<longleftrightarrow> suit c = suit d \<and> rank c = rank d"
  using card_views by (metis card.expand)

section \<open>Hole cards and boards\<close>

record fixed_cards =
  fc_len :: nat
  fc_cards :: "card list"

type_synonym hole_cards = fixed_cards
type_synonym board_cards = fixed_cards

definition as_slice :: "fixed_cards \<Rightarrow> card list" where
  "as_slice h = take (fc_len h) (fc_cards h)"

text \<open>The two containers share their code up to the capacity and the message.\<close>

definition cards_try_push :: "nat \<Rightarrow> string \<Rightarrow> string \<Rightarrow> fixed_cards \<Rightarrow> card \<Rightarrow> string + fixed_cards" where
  "cards_try_push cap bad full h c =
     (if \<not> card_is_valid c then Inl bad
      else if fc_len h \<ge> cap then Inl full
      else Inr \<lparr>fc_len = fc_len h + 1, fc_cards = (fc_cards h)[fc_len h := c]\<rparr>)"

definition cards_validate_canonical :: "nat \<Rightarrow> string \<Rightarrow> string \<Rightarrow> string \<Rightarrow> fixed_cards \<Rightarrow> string + unit" where
  "cards_validate_canonical cap too_long bad nonpad h =
     (if fc_len h > cap then Inl too_long
      else if list_ex (\<lambda>c. \<not> card_is_valid c) (as_slice h) then Inl bad
      else if list_ex (\<lambda>c. c \<noteq> PADDING) (drop (fc_len h) (fc_cards h)) then Inl nonpad
      else Inr ())"

definition hole_empty :: hole_cards where
  "hole_empty = \<lparr>fc_len = 0, fc_cards = replicate 2 PADDING\<rparr>"

definition hole_try_push :: "hole_cards \<Rightarrow> card \<Rightarrow> string + hole_cards" where
  "hole_try_push = cards_try_push 2 ''hole card id is outside 0..52'' ''hole cards exceed capacity 2''"

definition hole_validate :: "hole_cards \<Rightarrow> string + unit" where
  "hole_validate = cards_validate_canonical 2 ''hole-card length exceeds capacity 2''
     ''hole cards contain an invalid card id'' ''hole cards contain non-canonical padding''"

definition hole_try_from :: "card list \<Rightarrow> string + hole_cards" where
  "hole_try_from cards = try_fold hole_try_push hole_empty cards"

definition board_empty :: board_cards where
  "board_empty = \<lparr>fc_len = 0, fc_cards = replicate 5 PADDING\<rparr>"

definition board_try_push :: "board_cards \<Rightarrow> card \<Rightarrow> string + board_cards" where
  "board_try_push = cards_try_push 5 ''board card id is outside 0..52'' ''board cards exceed capacity 5''"

definition board_validate :: "board_cards \<Rightarrow> string + unit" where
  "board_validate = cards_validate_canonical 5 ''board length exceeds capacity 5''
     ''board contains an invalid card id'' ''board contains non-canonical padding''"

definition board_try_from :: "card list \<Rightarrow> string + board_cards" where
  "board_try_from cards = try_fold board_try_push board_empty cards"

section \<open>The containers are bounded lists\<close>

text \<open>The padded representation of a list of cards.\<close>

definition fixed_of :: "nat \<Rightarrow> card list \<Rightarrow> fixed_cards" where
  "fixed_of cap cs = \<lparr>fc_len = length cs, fc_cards = cs @ replicate (cap - length cs) PADDING\<rparr>"

lemma as_slice_fixed_of [simp]: "as_slice (fixed_of cap cs) = cs"
  by (simp add: as_slice_def fixed_of_def)

lemma fc_len_fixed_of [simp]: "fc_len (fixed_of cap cs) = length cs"
  by (simp add: fixed_of_def)

lemma fixed_of_empty: "hole_empty = fixed_of 2 []" "board_empty = fixed_of 5 []"
  by (simp_all add: fixed_of_def hole_empty_def board_empty_def)

lemma as_slice_empty [simp]: "as_slice hole_empty = []" "as_slice board_empty = []"
  by (simp_all add: fixed_of_empty)

lemma cards_try_push_fixed_of:
  "cards_try_push cap bad full (fixed_of cap cs) c =
     (if \<not> card_is_valid c then Inl bad else if cap \<le> length cs then Inl full
      else Inr (fixed_of cap (cs @ [c])))"
proof (cases "length cs < cap")
  case True
  then obtain k where k: "cap - length cs = Suc k" "cap - Suc (length cs) = k"
    by (metis Suc_diff_Suc)
  then show ?thesis using True
    by (simp add: cards_try_push_def fixed_of_def list_update_append)
next
  case False
  then show ?thesis by (simp add: cards_try_push_def fixed_of_def)
qed

lemma cards_validate_fixed_of:
  "cards_validate_canonical cap e1 e2 e3 (fixed_of cap cs) = Inr () \<longleftrightarrow>
     length cs \<le> cap \<and> (\<forall>c\<in>set cs. card_is_valid c)"
  by (auto simp: cards_validate_canonical_def list_ex_iff)
    (auto simp: fixed_of_def)

lemma try_fold_push:
  "try_fold (cards_try_push cap bad full) (fixed_of cap cs) ds = Inr h \<longleftrightarrow>
     (\<forall>d\<in>set ds. card_is_valid d) \<and> (ds \<noteq> [] \<longrightarrow> length cs + length ds \<le> cap) \<and> h = fixed_of cap (cs @ ds)"
proof (induction ds arbitrary: cs)
  case Nil
  then show ?case by auto
next
  case (Cons d ds)
  show ?case
  proof (cases "card_is_valid d \<and> length cs < cap")
    case True
    then show ?thesis using Cons.IH [of "cs @ [d]"]
      by (auto simp: cards_try_push_fixed_of)
  next
    case False
    then show ?thesis by (auto simp: cards_try_push_fixed_of)
  qed
qed

lemma cards_validate_Inr:
  assumes "cards_validate_canonical cap e1 e2 e3 h = Inr ()" and "length (fc_cards h) = cap"
  shows "h = fixed_of cap (as_slice h)" and "length (as_slice h) \<le> cap"
    and "\<forall>c\<in>set (as_slice h). card_is_valid c"
proof -
  from assms(1) have a: "fc_len h \<le> cap" "\<forall>c\<in>set (as_slice h). card_is_valid c"
    "\<forall>c\<in>set (drop (fc_len h) (fc_cards h)). c = PADDING"
    by (auto simp: cards_validate_canonical_def list_ex_iff split: if_splits)
  have "drop (fc_len h) (fc_cards h) = replicate (cap - fc_len h) PADDING"
    using a(3) assms(2) by (intro replicate_eqI [symmetric] replicate_eqI) auto
  then have "fc_cards h = as_slice h @ replicate (cap - fc_len h) PADDING"
    by (metis append_take_drop_id as_slice_def)
  then show "h = fixed_of cap (as_slice h)"
    using a(1) assms(2) by (simp add: fixed_of_def as_slice_def)
  show "length (as_slice h) \<le> cap" "\<forall>c\<in>set (as_slice h). card_is_valid c"
    using a assms(2) by (auto simp: as_slice_def)
qed

section \<open>Properties\<close>

text \<open>
  A card and its suit and rank determine each other: building a card from the views of a
  valid card gives it back, and the views of a built card are the suit and rank it was
  built from.
\<close>

theorem card_roundtrip:
  "(card_is_valid c \<longrightarrow> card_new (suit c) (rank c) = c) \<and>
   (s \<le> MAX_SUIT \<and> TWO \<le> r \<and> r \<le> ACE \<longrightarrow>
      card_is_valid (card_new s r) \<and> suit (card_new s r) = s \<and> rank (card_new s r) = r)"
proof (intro conjI impI)
  assume v: "card_is_valid c"
  then show "card_new (suit c) (rank c) = c"
    using rank_valid [OF v] suit_valid [OF v] card_views [OF v]
    by (cases c) (simp add: card_new_def MAX_SUIT_def TWO_def ACE_def)
next
  assume "s \<le> MAX_SUIT \<and> TWO \<le> r \<and> r \<le> ACE"
  then obtain k where k: "r = k + 2" "k < 13" "s \<le> 3"
    by (auto simp: MAX_SUIT_def TWO_def ACE_def dest!: le_Suc_ex)
  then have new: "card_new s r = Card (s * 13 + k)" by (simp add: card_new_def MAX_SUIT_def TWO_def ACE_def)
  have b: "s * 13 + k < 52" using k by linarith
  with new k show "card_is_valid (card_new s r)" "suit (card_new s r) = s" "rank (card_new s r) = r"
    by (simp_all add: card_is_valid_def suit_def rank_def TWO_def)
qed

theorem card_roundtrip_witness: "card_new (suit (Card 51)) (rank (Card 51)) = Card 51 \<and> suit (card_new 2 14) = 2"
  using card_roundtrip [of "Card 51" 2 14] by (simp add: card_is_valid_def MAX_SUIT_def TWO_def ACE_def)

text \<open>
  Collecting cards into a board succeeds exactly for at most five valid cards; the board
  then lists the same cards, is canonical, and is the only canonical board that does.
\<close>

theorem board_roundtrip:
  "(board_try_from cs = Inr b \<longrightarrow> as_slice b = cs \<and> board_validate b = Inr ()) \<and>
   ((\<exists>b. board_try_from cs = Inr b) \<longleftrightarrow> length cs \<le> 5 \<and> list_all card_is_valid cs) \<and>
   (length (fc_cards b) = 5 \<and> board_validate b = Inr () \<longrightarrow> board_try_from (as_slice b) = Inr b)"
proof -
  have iff: "board_try_from cs = Inr b \<longleftrightarrow>
      (\<forall>d\<in>set cs. card_is_valid d) \<and> length cs \<le> 5 \<and> b = fixed_of 5 cs" for cs b
    unfolding board_try_from_def board_try_push_def fixed_of_empty try_fold_push by auto
  show ?thesis
  proof (intro conjI impI)
    show "as_slice b = cs" "board_validate b = Inr ()" if "board_try_from cs = Inr b"
      using that by (simp_all add: iff board_validate_def cards_validate_fixed_of)
    show "(\<exists>b. board_try_from cs = Inr b) \<longleftrightarrow> length cs \<le> 5 \<and> list_all card_is_valid cs"
      by (auto simp: iff list_all_iff)
    assume "length (fc_cards b) = 5 \<and> board_validate b = Inr ()"
    then show "board_try_from (as_slice b) = Inr b"
      using cards_validate_Inr [of 5 _ _ _ b] by (auto simp: iff board_validate_def)
  qed
qed

theorem board_roundtrip_witness:
  "\<exists>b. board_try_from [Card 0, Card 51] = Inr b \<and> as_slice b = [Card 0, Card 51]"
  using board_roundtrip [of "[Card 0, Card 51]"] by (auto simp: card_is_valid_def)

end
