(* ===== verification/Poker_Keys.thy ===== *)
theory Poker_Keys
  imports Poker_Prelude
begin

text \<open>
  Tagged public keys (\<^verbatim>\<open>poker_l1/src/signature/tagged_pubkey.rs\<close>): the tag byte that holds
  scheme and version, the byte form of a key, and the fixed-width key of a session that
  the seats store.
\<close>

section \<open>Schemes and tags\<close>

datatype signature_scheme = Secp256k1 | Ed25519 | Stark

fun raw_pubkey_len :: "signature_scheme \<Rightarrow> nat" where
  "raw_pubkey_len Secp256k1 = 33"
| "raw_pubkey_len Ed25519 = 32"
| "raw_pubkey_len Stark = 32"

fun signature_len :: "signature_scheme \<Rightarrow> nat" where
  "signature_len Secp256k1 = 65"
| "signature_len Ed25519 = 64"
| "signature_len Stark = 64"

definition from_scheme_id :: "8 word \<Rightarrow> signature_scheme option" where
  "from_scheme_id i =
     (if i = 0 then Some Secp256k1 else if i = 1 then Some Ed25519 else if i = 2 then Some Stark else None)"

fun scheme_id :: "signature_scheme \<Rightarrow> 8 word" where
  "scheme_id Secp256k1 = 0"
| "scheme_id Ed25519 = 1"
| "scheme_id Stark = 2"

definition CURRENT_VERSION :: "8 word" where "CURRENT_VERSION = 1"

definition encode_tag :: "signature_scheme \<Rightarrow> 8 word \<Rightarrow> 8 word" where
  "encode_tag scheme version = push_bit 4 (scheme_id scheme) OR (version AND 0x0F)"

definition parse_tag :: "8 word \<Rightarrow> (signature_scheme \<times> 8 word) res" where
  "parse_tag tag =
     (case from_scheme_id (drop_bit 4 tag AND 0x0F) of
        Some scheme \<Rightarrow> Inr (scheme, tag AND 0x0F)
      | None \<Rightarrow> Inl (UnknownScheme tag))"

section \<open>Tagged keys\<close>

record tagged_pubkey =
  tp_tag :: "8 word"
  tp_raw :: "8 word list"

definition tagged_new :: "signature_scheme \<Rightarrow> 8 word \<Rightarrow> 8 word list \<Rightarrow> tagged_pubkey res" where
  "tagged_new scheme version raw =
     (if length raw \<noteq> raw_pubkey_len scheme
      then Inl (InvalidPubkeyLength (encode_tag scheme version) (length raw) (raw_pubkey_len scheme))
      else Inr \<lparr>tp_tag = encode_tag scheme version, tp_raw = raw\<rparr>)"

definition tagged_from_bytes :: "8 word list \<Rightarrow> tagged_pubkey res" where
  "tagged_from_bytes bytes =
     (case bytes of
        [] \<Rightarrow> Inl (InvalidPubkeyLength 0 0 1)
      | tag # raw \<Rightarrow> rbind (parse_tag tag) (\<lambda>(scheme, version).
          if length raw \<noteq> raw_pubkey_len scheme
          then Inl (InvalidPubkeyLength tag (length raw) (raw_pubkey_len scheme))
          else if version \<noteq> CURRENT_VERSION then Inl (UnknownScheme tag)
          else Inr \<lparr>tp_tag = tag, tp_raw = raw\<rparr>))"

definition tagged_to_bytes :: "tagged_pubkey \<Rightarrow> 8 word list" where
  "tagged_to_bytes pk = tp_tag pk # tp_raw pk"

text \<open>The fixed-width session key of a seat; all zeros means that none is registered.\<close>

record stark_tx_pubkey =
  stk_tag :: "8 word"
  stk_raw :: "8 word list"

definition UNREGISTERED :: stark_tx_pubkey where
  "UNREGISTERED = \<lparr>stk_tag = encode_tag Stark CURRENT_VERSION, stk_raw = replicate 32 0\<rparr>"

definition stark_is_registered :: "stark_tx_pubkey \<Rightarrow> bool" where
  "stark_is_registered pk = list_ex (\<lambda>b. b \<noteq> 0) (take 32 (stk_raw pk))"

definition stark_from_tagged :: "tagged_pubkey \<Rightarrow> stark_tx_pubkey res" where
  "stark_from_tagged pk =
     rbind (parse_tag (tp_tag pk)) (\<lambda>(scheme, version).
       if scheme \<noteq> Stark \<or> version \<noteq> CURRENT_VERSION then Inl (UnknownScheme (tp_tag pk))
       else if length (tp_raw pk) \<noteq> 32
       then Inl (InvalidPubkeyLength (tp_tag pk) (length (tp_raw pk)) (raw_pubkey_len Stark))
       else Inr \<lparr>stk_tag = tp_tag pk, stk_raw = tp_raw pk\<rparr>)"

definition stark_to_tagged :: "stark_tx_pubkey \<Rightarrow> tagged_pubkey" where
  "stark_to_tagged pk = \<lparr>tp_tag = stk_tag pk, tp_raw = stk_raw pk\<rparr>"

definition is_well_formed_tx_pk :: "stark_tx_pubkey \<Rightarrow> bool" where
  "is_well_formed_tx_pk pk \<longleftrightarrow> stk_tag pk = encode_tag Stark CURRENT_VERSION"

definition is_registered_tx_pk :: "stark_tx_pubkey \<Rightarrow> bool" where
  "is_registered_tx_pk pk \<longleftrightarrow> is_well_formed_tx_pk pk \<and> stark_is_registered pk"

section \<open>Lemmas\<close>

lemma from_scheme_id_iff: "from_scheme_id i = Some s \<longleftrightarrow> i = scheme_id s"
  by (cases s) (auto simp: from_scheme_id_def)

text \<open>The two halves of a byte determine it.\<close>

lemma byte_halves: "push_bit 4 (drop_bit 4 t AND 0x0F) OR (t AND 0x0F) = (t :: 8 word)"
proof -
  have m: "(0x0F :: 8 word) = mask 4" by (simp add: mask_eq_exp_minus_1)
  show ?thesis
    unfolding m by (rule bit_word_eqI) (auto simp: bit_simps)
qed

lemma parse_encode_tag: "parse_tag (encode_tag s v) = Inr (s, v AND 0x0F)"
proof -
  have m: "(0x0F :: 8 word) = mask 4" by (simp add: mask_eq_exp_minus_1)
  have small: "scheme_id s AND mask 4 = scheme_id s" by (cases s) (simp_all add: mask_eq_exp_minus_1)
  have bits: "bit (scheme_id s) n \<Longrightarrow> n < 4" for n
    by (metis bit_and_iff bit_mask_iff small)
  have "drop_bit 4 (encode_tag s v) AND 0x0F = scheme_id s"
    unfolding encode_tag_def m by (rule bit_word_eqI) (auto simp: bit_simps dest: bits)
  moreover have "encode_tag s v AND 0x0F = v AND 0x0F"
    unfolding encode_tag_def m by (rule bit_word_eqI) (auto simp: bit_simps)
  ultimately show ?thesis by (simp add: parse_tag_def from_scheme_id_iff [THEN iffD2])
qed

lemma parse_tag_Inr: "parse_tag t = Inr (s, v) \<Longrightarrow> t = encode_tag s v \<and> v = v AND 0x0F"
proof -
  assume "parse_tag t = Inr (s, v)"
  then have i: "drop_bit 4 t AND 0x0F = scheme_id s" and v: "v = t AND 0x0F"
    by (auto simp: parse_tag_def from_scheme_id_iff split: option.splits)
  have "t = push_bit 4 (scheme_id s) OR (t AND 0x0F)" by (metis byte_halves i)
  with v show "t = encode_tag s v \<and> v = v AND 0x0F" by (simp add: encode_tag_def and.assoc)
qed

section \<open>Properties\<close>

text \<open>
  Byte form of a key: the bytes of a key built for the current version parse back to
  that key; bytes that parse are the bytes of the parsed key, whose tag names a known scheme
  and whose length is that of the scheme.
\<close>

theorem tagged_key_roundtrip:
  "(tagged_new s CURRENT_VERSION raw = Inr pk \<longrightarrow> tagged_from_bytes (tagged_to_bytes pk) = Inr pk) \<and>
   (tagged_from_bytes bs = Inr pk' \<longrightarrow>
      tagged_to_bytes pk' = bs \<and> (\<exists>s. tagged_new s CURRENT_VERSION (tp_raw pk') = Inr pk'))"
proof (intro conjI impI)
  assume "tagged_new s CURRENT_VERSION raw = Inr pk"
  then show "tagged_from_bytes (tagged_to_bytes pk) = Inr pk"
    by (auto simp: tagged_new_def tagged_from_bytes_def tagged_to_bytes_def parse_encode_tag
        CURRENT_VERSION_def split: if_splits)
next
  assume a: "tagged_from_bytes bs = Inr pk'"
  then show "tagged_to_bytes pk' = bs"
    by (auto simp: tagged_from_bytes_def tagged_to_bytes_def result_simps split: list.splits if_splits)
  from a show "\<exists>s. tagged_new s CURRENT_VERSION (tp_raw pk') = Inr pk'"
    by (auto simp: tagged_from_bytes_def tagged_new_def result_simps dest!: parse_tag_Inr
        split: list.splits if_splits)
qed

theorem tagged_key_roundtrip_witness:
  "\<exists>pk. tagged_new Ed25519 CURRENT_VERSION (replicate 32 7) = Inr pk \<and>
     tagged_from_bytes (tagged_to_bytes pk) = Inr pk"
proof -
  obtain pk where pk: "tagged_new Ed25519 CURRENT_VERSION (replicate 32 7) = Inr pk"
    by (simp add: tagged_new_def)
  with tagged_key_roundtrip [of Ed25519 "replicate 32 7" pk] show ?thesis by blast
qed

end
