(* ===== verification/Poker_Seats.thy ===== *)
theory Poker_Seats
  imports Poker_Masks Poker_Cards Poker_Keys
begin

text \<open>
  Seats (\<^verbatim>\<open>poker_l1/.../core/types.rs\<close>): the tagged union of a seat's life cycle with its
  accessors and transitions. The encryption key of a player is a point of the curve library,
  which is not part of the repository: it is the type parameter, and the library's identity
  test is an argument of the operations that use it.
\<close>

section \<open>Data\<close>

type_synonym address = "8 word list"

definition EMPTY_PLAYER :: address where "EMPTY_PLAYER = replicate 20 0"

definition DEFAULT_TIME_BANK_MS :: nat where "DEFAULT_TIME_BANK_MS = 30000"

datatype seat_status = Empty | Waiting | Active | Folded | AllIn | Out

record 'pt occupied_seat =
  oc_player :: address
  oc_stack :: nat
  oc_pk :: 'pt
  oc_tx_pk :: stark_tx_pubkey
  oc_pending_addon :: nat
  oc_time_bank_ms :: nat

datatype playing_seat_status = PActive | PFolded | PAllIn

record 'pt playing_seat =
  pl_occupied :: "'pt occupied_seat"
  pl_hand :: hole_cards
  pl_bet :: nat
  pl_total_bet :: nat
  pl_status :: playing_seat_status

datatype 'pt seat =
    SeatVacant nat
  | SeatWaiting "'pt occupied_seat"
  | SeatPlaying "'pt playing_seat"
  | SeatDeparted address nat nat

section \<open>Construction and life cycle\<close>

definition seat_empty :: "'pt seat" where
  "seat_empty = SeatVacant DEFAULT_TIME_BANK_MS"

definition fresh_playing :: "'pt occupied_seat \<Rightarrow> 'pt seat" where
  "fresh_playing oc = SeatPlaying \<lparr>pl_occupied = oc, pl_hand = hole_empty, pl_bet = 0,
     pl_total_bet = 0, pl_status = PActive\<rparr>"

definition seat_occupied ::
    "('pt \<Rightarrow> bool) \<Rightarrow> address \<Rightarrow> nat \<Rightarrow> 'pt \<Rightarrow> tagged_pubkey \<Rightarrow> seat_status \<Rightarrow> 'pt seat res" where
  "seat_occupied is_identity player stack pk tx_pk status =
     (if player = EMPTY_PLAYER then Inl (Serialization ''Texas occupied seat cannot use the empty player address'')
      else if \<not> (status = Waiting \<or> status = Active)
      then Inl (Serialization ''Texas newly occupied seat must be waiting or active'')
      else if is_identity pk
      then Inl (Serialization ''Texas newly occupied seat cannot use an identity public key'')
      else (case stark_from_tagged tx_pk of
          Inl _ \<Rightarrow> Inl (Serialization ''Texas join tx_pk must be a Stark-scheme 32-byte compressed point'')
        | Inr tx \<Rightarrow>
            let oc = \<lparr>oc_player = player, oc_stack = stack, oc_pk = pk, oc_tx_pk = tx,
                      oc_pending_addon = 0, oc_time_bank_ms = DEFAULT_TIME_BANK_MS\<rparr>
            in Inr (if status = Waiting then SeatWaiting oc else fresh_playing oc)))"

fun depart_this_hand :: "'pt seat \<Rightarrow> 'pt seat res" where
  "depart_this_hand (SeatWaiting oc) = Inr (SeatDeparted (oc_player oc) 0 (oc_time_bank_ms oc))"
| "depart_this_hand (SeatPlaying p) =
     Inr (SeatDeparted (oc_player (pl_occupied p)) (pl_total_bet p) (oc_time_bank_ms (pl_occupied p)))"
| "depart_this_hand (SeatVacant _) = Inl (Serialization ''Texas cannot depart a vacant seat'')"
| "depart_this_hand (SeatDeparted a t b) = Inr (SeatDeparted a t b)"

fun prepare_next_hand :: "'pt seat \<Rightarrow> 'pt seat" where
  "prepare_next_hand (SeatPlaying p) =
     SeatPlaying (p\<lparr>pl_hand := hole_empty, pl_bet := 0, pl_total_bet := 0, pl_status := PActive\<rparr>)"
| "prepare_next_hand s = s"

fun promote_waiting :: "'pt seat \<Rightarrow> 'pt seat \<times> bool" where
  "promote_waiting (SeatWaiting oc) = (fresh_playing oc, True)"
| "promote_waiting s = (s, False)"

section \<open>Views\<close>

fun seat_is_occupied :: "'pt seat \<Rightarrow> bool" where
  "seat_is_occupied (SeatWaiting _) = True"
| "seat_is_occupied (SeatPlaying _) = True"
| "seat_is_occupied _ = False"

fun seat_get_status :: "'pt seat \<Rightarrow> seat_status" where
  "seat_get_status (SeatVacant _) = Empty"
| "seat_get_status (SeatWaiting _) = Waiting"
| "seat_get_status (SeatPlaying p) =
     (case pl_status p of PActive \<Rightarrow> Active | PFolded \<Rightarrow> Folded | PAllIn \<Rightarrow> AllIn)"
| "seat_get_status (SeatDeparted _ _ _) = Out"

definition seat_is_folded :: "'pt seat \<Rightarrow> bool" where
  "seat_is_folded s \<longleftrightarrow> seat_get_status s = Folded"

definition seat_is_all_in :: "'pt seat \<Rightarrow> bool" where
  "seat_is_all_in s \<longleftrightarrow> seat_get_status s = AllIn"

fun seat_is_waiting :: "'pt seat \<Rightarrow> bool" where
  "seat_is_waiting (SeatWaiting _) = True"
| "seat_is_waiting _ = False"

fun seat_is_vacant :: "'pt seat \<Rightarrow> bool" where
  "seat_is_vacant (SeatVacant _) = True"
| "seat_is_vacant _ = False"

fun seat_has_left_hand :: "'pt seat \<Rightarrow> bool" where
  "seat_has_left_hand (SeatDeparted _ _ _) = True"
| "seat_has_left_hand _ = False"

fun seat_player :: "'pt seat \<Rightarrow> address" where
  "seat_player (SeatVacant _) = EMPTY_PLAYER"
| "seat_player (SeatWaiting oc) = oc_player oc"
| "seat_player (SeatPlaying p) = oc_player (pl_occupied p)"
| "seat_player (SeatDeparted a _ _) = a"

fun seat_stack :: "'pt seat \<Rightarrow> nat" where
  "seat_stack (SeatWaiting oc) = oc_stack oc"
| "seat_stack (SeatPlaying p) = oc_stack (pl_occupied p)"
| "seat_stack _ = 0"

fun seat_bet :: "'pt seat \<Rightarrow> nat" where
  "seat_bet (SeatPlaying p) = pl_bet p"
| "seat_bet _ = 0"

fun seat_total_bet :: "'pt seat \<Rightarrow> nat" where
  "seat_total_bet (SeatPlaying p) = pl_total_bet p"
| "seat_total_bet (SeatDeparted _ t _) = t"
| "seat_total_bet _ = 0"

fun seat_pending_addon :: "'pt seat \<Rightarrow> nat" where
  "seat_pending_addon (SeatWaiting oc) = oc_pending_addon oc"
| "seat_pending_addon (SeatPlaying p) = oc_pending_addon (pl_occupied p)"
| "seat_pending_addon _ = 0"

fun seat_time_bank_ms :: "'pt seat \<Rightarrow> nat" where
  "seat_time_bank_ms (SeatVacant b) = b"
| "seat_time_bank_ms (SeatDeparted _ _ b) = b"
| "seat_time_bank_ms (SeatWaiting oc) = oc_time_bank_ms oc"
| "seat_time_bank_ms (SeatPlaying p) = oc_time_bank_ms (pl_occupied p)"

fun seat_pk :: "'pt seat \<Rightarrow> 'pt option" where
  "seat_pk (SeatWaiting oc) = Some (oc_pk oc)"
| "seat_pk (SeatPlaying p) = Some (oc_pk (pl_occupied p))"
| "seat_pk _ = None"

fun seat_registered_tx_pk :: "'pt seat \<Rightarrow> stark_tx_pubkey option" where
  "seat_registered_tx_pk (SeatWaiting oc) =
     (if is_registered_tx_pk (oc_tx_pk oc) then Some (oc_tx_pk oc) else None)"
| "seat_registered_tx_pk (SeatPlaying p) =
     (if is_registered_tx_pk (oc_tx_pk (pl_occupied p)) then Some (oc_tx_pk (pl_occupied p)) else None)"
| "seat_registered_tx_pk _ = None"

fun seat_hand :: "'pt seat \<Rightarrow> hole_cards option" where
  "seat_hand (SeatPlaying p) = Some (pl_hand p)"
| "seat_hand _ = None"

section \<open>Updates\<close>

text \<open>The mutable borrows \<^verbatim>\<open>playing_mut\<close> and \<^verbatim>\<open>occupied_mut\<close>, as update functions.\<close>

fun playing_mut :: "('pt playing_seat \<Rightarrow> 'pt playing_seat) \<Rightarrow> 'pt seat \<Rightarrow> 'pt seat res" where
  "playing_mut f (SeatPlaying p) = Inr (SeatPlaying (f p))"
| "playing_mut f _ = Inl (Serialization ''Texas seat is not participating in the current hand'')"

fun occupied_mut :: "('pt occupied_seat \<Rightarrow> 'pt occupied_seat) \<Rightarrow> 'pt seat \<Rightarrow> 'pt seat res" where
  "occupied_mut f (SeatWaiting oc) = Inr (SeatWaiting (f oc))"
| "occupied_mut f (SeatPlaying p) = Inr (SeatPlaying (p\<lparr>pl_occupied := f (pl_occupied p)\<rparr>))"
| "occupied_mut f _ = Inl (Serialization ''Texas seat has no live occupied payload'')"

fun set_stack :: "nat \<Rightarrow> 'pt seat \<Rightarrow> 'pt seat res" where
  "set_stack v (SeatWaiting oc) = Inr (SeatWaiting (oc\<lparr>oc_stack := v\<rparr>))"
| "set_stack v (SeatPlaying p) = Inr (SeatPlaying (p\<lparr>pl_occupied := (pl_occupied p)\<lparr>oc_stack := v\<rparr>\<rparr>))"
| "set_stack v s = (if v = 0 then Inr s
     else Inl (Serialization ''Texas vacant/departed seat cannot carry a stack''))"

fun set_bet :: "nat \<Rightarrow> 'pt seat \<Rightarrow> 'pt seat res" where
  "set_bet v (SeatPlaying p) = Inr (SeatPlaying (p\<lparr>pl_bet := v\<rparr>))"
| "set_bet v s = (if v = 0 then Inr s
     else Inl (Serialization ''Texas non-playing seat cannot carry a round wager''))"

fun set_total_bet :: "nat \<Rightarrow> 'pt seat \<Rightarrow> 'pt seat res" where
  "set_total_bet v (SeatPlaying p) = Inr (SeatPlaying (p\<lparr>pl_total_bet := v\<rparr>))"
| "set_total_bet v (SeatDeparted a _ b) = Inr (SeatDeparted a v b)"
| "set_total_bet v s = (if v = 0 then Inr s
     else Inl (Serialization ''Texas non-playing seat cannot carry a hand contribution''))"

fun set_pending_addon :: "nat \<Rightarrow> 'pt seat \<Rightarrow> 'pt seat res" where
  "set_pending_addon v (SeatWaiting oc) = Inr (SeatWaiting (oc\<lparr>oc_pending_addon := v\<rparr>))"
| "set_pending_addon v (SeatPlaying p) =
     Inr (SeatPlaying (p\<lparr>pl_occupied := (pl_occupied p)\<lparr>oc_pending_addon := v\<rparr>\<rparr>))"
| "set_pending_addon v s = (if v = 0 then Inr s
     else Inl (Serialization ''Texas vacant/departed seat cannot carry a pending addon''))"

fun set_time_bank_ms :: "nat \<Rightarrow> 'pt seat \<Rightarrow> 'pt seat" where
  "set_time_bank_ms v (SeatVacant _) = SeatVacant v"
| "set_time_bank_ms v (SeatDeparted a t _) = SeatDeparted a t v"
| "set_time_bank_ms v (SeatWaiting oc) = SeatWaiting (oc\<lparr>oc_time_bank_ms := v\<rparr>)"
| "set_time_bank_ms v (SeatPlaying p) =
     SeatPlaying (p\<lparr>pl_occupied := (pl_occupied p)\<lparr>oc_time_bank_ms := v\<rparr>\<rparr>)"

definition set_hand :: "hole_cards \<Rightarrow> 'pt seat \<Rightarrow> 'pt seat res" where
  "set_hand h s =
     (case hole_validate h of
        Inl _ \<Rightarrow> Inl (Serialization ''Texas seat hand is non-canonical'')
      | Inr _ \<Rightarrow> playing_mut (\<lambda>p. p\<lparr>pl_hand := h\<rparr>) s)"

definition replace_playing ::
    "('pt \<Rightarrow> bool) \<Rightarrow> address \<Rightarrow> nat \<Rightarrow> 'pt \<Rightarrow> hole_cards \<Rightarrow> nat \<Rightarrow> nat \<Rightarrow> playing_seat_status \<Rightarrow>
     nat \<Rightarrow> nat \<Rightarrow> 'pt seat res" where
  "replace_playing is_identity player stack pk h bet total_bet status pending_addon time_bank_ms =
     (if player = EMPTY_PLAYER \<or> is_identity pk
      then Inl (Serialization ''Texas playing seat requires a live identity and key'')
      else case hole_validate h of
        Inl _ \<Rightarrow> Inl (Serialization ''Texas seat hand is non-canonical'')
      | Inr _ \<Rightarrow> Inr (SeatPlaying \<lparr>pl_occupied = \<lparr>oc_player = player, oc_stack = stack, oc_pk = pk,
            oc_tx_pk = UNREGISTERED, oc_pending_addon = pending_addon, oc_time_bank_ms = time_bank_ms\<rparr>,
          pl_hand = h, pl_bet = bet, pl_total_bet = total_bet, pl_status = status\<rparr>))"

fun set_status :: "seat_status \<Rightarrow> 'pt seat \<Rightarrow> 'pt seat res" where
  "set_status Empty s = Inr seat_empty"
| "set_status Out s = (case depart_this_hand s of
      Inl _ \<Rightarrow> Inl (Panic ''only occupied seats may transition to Out'') | Inr s' \<Rightarrow> Inr s')"
| "set_status Waiting s = (case s of
      SeatWaiting _ \<Rightarrow> Inr s
    | SeatPlaying p \<Rightarrow>
        if fc_len (pl_hand p) = 0 \<and> pl_bet p = 0 \<and> pl_total_bet p = 0 then Inr (SeatWaiting (pl_occupied p))
        else Inl (Panic ''only a clean live seat may transition to Waiting'')
    | _ \<Rightarrow> Inl (Panic ''only a clean live seat may transition to Waiting''))"
| "set_status Active s = (case s of
      SeatWaiting oc \<Rightarrow> Inr (fresh_playing oc)
    | SeatPlaying p \<Rightarrow> Inr (SeatPlaying (p\<lparr>pl_status := PActive\<rparr>))
    | _ \<Rightarrow> Inl (Panic ''only a live occupied seat may transition to Active''))"
| "set_status Folded s = (case s of
      SeatPlaying p \<Rightarrow> Inr (SeatPlaying (p\<lparr>pl_status := PFolded\<rparr>))
    | _ \<Rightarrow> Inl (Panic ''only an in-hand seat may fold or become all-in''))"
| "set_status AllIn s = (case s of
      SeatPlaying p \<Rightarrow> Inr (SeatPlaying (p\<lparr>pl_status := PAllIn\<rparr>))
    | _ \<Rightarrow> Inl (Panic ''only an in-hand seat may fold or become all-in''))"

definition validate_occupied_seat :: "('pt \<Rightarrow> bool) \<Rightarrow> 'pt occupied_seat \<Rightarrow> unit res" where
  "validate_occupied_seat is_identity oc =
     (if oc_player oc = EMPTY_PLAYER
      then Inl (Serialization ''Texas occupied seat cannot use the empty player address'')
      else if is_identity (oc_pk oc)
      then Inl (Serialization ''Texas occupied seat cannot use an identity public key'')
      else Inr ())"

fun seat_validate_canonical :: "('pt \<Rightarrow> bool) \<Rightarrow> 'pt seat \<Rightarrow> unit res" where
  "seat_validate_canonical is_identity (SeatVacant _) = Inr ()"
| "seat_validate_canonical is_identity (SeatWaiting oc) = validate_occupied_seat is_identity oc"
| "seat_validate_canonical is_identity (SeatPlaying p) =
     rbind (validate_occupied_seat is_identity (pl_occupied p)) (\<lambda>_.
       case hole_validate (pl_hand p) of
         Inl _ \<Rightarrow> Inl (Serialization ''Texas seat hand is non-canonical'')
       | Inr _ \<Rightarrow> Inr ())"
| "seat_validate_canonical is_identity (SeatDeparted a _ _) =
     (if a = EMPTY_PLAYER then Inl (Serialization ''Texas departed seat cannot use the empty player address'')
      else Inr ())"

section \<open>Views after updates\<close>

text \<open>
  Each successful update changes the view it names and no other: the facts the chip
  accounting of the table rests on.
\<close>

lemma set_stack_views:
  "set_stack v s = Inr s' \<Longrightarrow> seat_stack s' = v \<and> seat_bet s' = seat_bet s \<and>
     seat_total_bet s' = seat_total_bet s \<and> seat_pending_addon s' = seat_pending_addon s \<and>
     seat_get_status s' = seat_get_status s \<and> seat_player s' = seat_player s \<and>
     seat_is_occupied s' = seat_is_occupied s \<and> seat_time_bank_ms s' = seat_time_bank_ms s \<and>
     seat_pk s' = seat_pk s \<and> seat_hand s' = seat_hand s"
  by (cases s) (auto split: if_splits)

lemma set_bet_views:
  "set_bet v s = Inr s' \<Longrightarrow> seat_bet s' = v \<and> seat_stack s' = seat_stack s \<and>
     seat_total_bet s' = seat_total_bet s \<and> seat_pending_addon s' = seat_pending_addon s \<and>
     seat_get_status s' = seat_get_status s \<and> seat_player s' = seat_player s \<and>
     seat_is_occupied s' = seat_is_occupied s \<and> seat_time_bank_ms s' = seat_time_bank_ms s \<and>
     seat_pk s' = seat_pk s \<and> seat_hand s' = seat_hand s"
  by (cases s) (auto split: if_splits)

lemma set_total_bet_views:
  "set_total_bet v s = Inr s' \<Longrightarrow> seat_total_bet s' = v \<and> seat_stack s' = seat_stack s \<and>
     seat_bet s' = seat_bet s \<and> seat_pending_addon s' = seat_pending_addon s \<and>
     seat_get_status s' = seat_get_status s \<and> seat_player s' = seat_player s \<and>
     seat_is_occupied s' = seat_is_occupied s \<and> seat_time_bank_ms s' = seat_time_bank_ms s \<and>
     seat_pk s' = seat_pk s \<and> seat_hand s' = seat_hand s"
  by (cases s) (auto split: if_splits)

lemma set_pending_addon_views:
  "set_pending_addon v s = Inr s' \<Longrightarrow> seat_pending_addon s' = v \<and> seat_stack s' = seat_stack s \<and>
     seat_bet s' = seat_bet s \<and> seat_total_bet s' = seat_total_bet s \<and>
     seat_get_status s' = seat_get_status s \<and> seat_player s' = seat_player s \<and>
     seat_is_occupied s' = seat_is_occupied s \<and> seat_time_bank_ms s' = seat_time_bank_ms s \<and>
     seat_pk s' = seat_pk s \<and> seat_hand s' = seat_hand s"
  by (cases s) (auto split: if_splits)

lemma set_status_in_hand_views:
  "set_status st s = Inr s' \<Longrightarrow> st = Folded \<or> st = AllIn \<Longrightarrow>
     seat_get_status s' = st \<and> seat_stack s' = seat_stack s \<and> seat_bet s' = seat_bet s \<and>
     seat_total_bet s' = seat_total_bet s \<and> seat_pending_addon s' = seat_pending_addon s \<and>
     seat_player s' = seat_player s \<and> seat_is_occupied s' = seat_is_occupied s \<and>
     seat_pk s' = seat_pk s \<and> seat_hand s' = seat_hand s"
  by (cases s) auto

lemma set_time_bank_views [simp]:
  "seat_stack (set_time_bank_ms v s) = seat_stack s" "seat_bet (set_time_bank_ms v s) = seat_bet s"
  "seat_total_bet (set_time_bank_ms v s) = seat_total_bet s"
  "seat_pending_addon (set_time_bank_ms v s) = seat_pending_addon s"
  "seat_get_status (set_time_bank_ms v s) = seat_get_status s"
  "seat_player (set_time_bank_ms v s) = seat_player s"
  "seat_is_occupied (set_time_bank_ms v s) = seat_is_occupied s"
  "seat_time_bank_ms (set_time_bank_ms v s) = v"
  "seat_pk (set_time_bank_ms v s) = seat_pk s"
  by (cases s; simp)+

lemma seat_occupied_views:
  "seat_occupied is_identity a v pk tx st = Inr s' \<Longrightarrow>
     seat_stack s' = v \<and> seat_bet s' = 0 \<and> seat_total_bet s' = 0 \<and> seat_pending_addon s' = 0 \<and>
     seat_get_status s' = st \<and> seat_player s' = a \<and> seat_is_occupied s' \<and> seat_pk s' = Some pk"
  by (auto simp: seat_occupied_def fresh_playing_def Let_def split: if_splits sum.splits)

lemma vacant_money [simp]:
  "seat_is_vacant s \<Longrightarrow> seat_stack s = 0" "seat_is_vacant s \<Longrightarrow> seat_bet s = 0"
  "seat_is_vacant s \<Longrightarrow> seat_total_bet s = 0" "seat_is_vacant s \<Longrightarrow> seat_pending_addon s = 0"
  by (cases s; simp)+

lemma seat_empty_views [simp]:
  "seat_stack seat_empty = 0" "seat_bet seat_empty = 0" "seat_total_bet seat_empty = 0"
  "seat_pending_addon seat_empty = 0" "seat_is_vacant seat_empty" "\<not> seat_is_occupied seat_empty"
  "seat_get_status seat_empty = Empty" "seat_player seat_empty = EMPTY_PLAYER"
  by (simp_all add: seat_empty_def)

lemma depart_views:
  "depart_this_hand s = Inr s' \<Longrightarrow>
     seat_stack s' = 0 \<and> seat_bet s' = 0 \<and> seat_pending_addon s' = 0 \<and>
     seat_total_bet s' = seat_total_bet s \<and> seat_player s' = seat_player s \<and>
     seat_get_status s' = Out \<and> seat_time_bank_ms s' = seat_time_bank_ms s"
  by (cases s) auto

lemma prepare_next_hand_views [simp]:
  "seat_stack (prepare_next_hand s) = seat_stack s"
  "seat_pending_addon (prepare_next_hand s) = seat_pending_addon s"
  "seat_bet (prepare_next_hand s) = 0" "seat_player (prepare_next_hand s) = seat_player s"
  "seat_is_occupied (prepare_next_hand s) = seat_is_occupied s"
  "\<not> seat_has_left_hand s \<Longrightarrow> seat_total_bet (prepare_next_hand s) = 0"
  by (cases s; simp)+

lemma promote_waiting_views [simp]:
  "seat_stack (fst (promote_waiting s)) = seat_stack s" "seat_bet (fst (promote_waiting s)) = seat_bet s"
  "seat_total_bet (fst (promote_waiting s)) = seat_total_bet s"
  "seat_pending_addon (fst (promote_waiting s)) = seat_pending_addon s"
  "seat_player (fst (promote_waiting s)) = seat_player s"
  by (cases s; simp add: fresh_playing_def)+

lemma occupied_iff_status:
  "seat_is_occupied s \<longleftrightarrow> seat_get_status s \<notin> {Empty, Out}"
  by (cases s) (auto split: playing_seat_status.splits)

section \<open>Properties\<close>

text \<open>
  Life cycle of a seat: a status change either panics or reaches the status asked for;
  folding and going all-in only succeed for a seat in the hand and leave its chips alone,
  and leaving the hand keeps the contribution to the pot and nothing else.
\<close>

theorem set_status_lifecycle:
  assumes "set_status st s = Inr s'"
  shows "seat_get_status s' = st \<and>
    (st = Folded \<or> st = AllIn \<longrightarrow> (\<exists>p. s = SeatPlaying p) \<and> seat_stack s' = seat_stack s \<and>
       seat_bet s' = seat_bet s \<and> seat_total_bet s' = seat_total_bet s) \<and>
    (st = Out \<longrightarrow> seat_total_bet s' = seat_total_bet s \<and> seat_stack s' = 0 \<and> seat_bet s' = 0)"
  using assms by (cases st; cases s) (auto simp: fresh_playing_def split: if_splits)

theorem set_status_lifecycle_witness:
  "\<exists>s'. set_status AllIn (fresh_playing \<lparr>oc_player = [1], oc_stack = 0, oc_pk = (), oc_tx_pk = UNREGISTERED,
      oc_pending_addon = 0, oc_time_bank_ms = 0\<rparr>) = Inr s' \<and> seat_get_status s' = AllIn"
proof -
  let ?s = "fresh_playing \<lparr>oc_player = [1], oc_stack = 0, oc_pk = (), oc_tx_pk = UNREGISTERED,
      oc_pending_addon = 0, oc_time_bank_ms = 0\<rparr>"
  obtain s' where s': "set_status AllIn ?s = Inr s'" by (simp add: fresh_playing_def)
  with set_status_lifecycle [OF s'] show ?thesis by blast
qed

end
