(* ===== verification/Poker_Betting.thy ===== *)
theory Poker_Betting
  imports Poker_Prelude
begin

text \<open>
  The betting round of \<^verbatim>\<open>poker_l1/.../core/betting.rs\<close>: the price of a call, which actions a
  seat has, and the rule of a raise with its minimum and its short all-in exception.
\<close>

section \<open>Constants\<close>

text \<open>The action bits of \<^verbatim>\<open>core/constants.rs\<close>.\<close>

definition ACTION_FOLD :: "8 word" where "ACTION_FOLD = 1"
definition ACTION_CHECK :: "8 word" where "ACTION_CHECK = 2"
definition ACTION_CALL :: "8 word" where "ACTION_CALL = 4"
definition ACTION_RAISE :: "8 word" where "ACTION_RAISE = 8"

lemmas action_bits = ACTION_FOLD_def ACTION_CHECK_def ACTION_CALL_def ACTION_RAISE_def

section \<open>State and operations\<close>

record betting_round =
  current_bet :: nat
  min_raise :: nat

datatype betting_error = InvalidRaiseAmount | CannotRaise

text \<open>\<^verbatim>\<open>BettingRound::new\<close> asserts a positive big blind.\<close>

definition betting_round_new :: "nat \<Rightarrow> nat \<Rightarrow> betting_round res" where
  "betting_round_new big_blind cb =
     (if big_blind > 0 then Inr \<lparr>current_bet = cb, min_raise = big_blind\<rparr>
      else Inl (Panic ''big_blind must be positive''))"

definition chips_to_call :: "betting_round \<Rightarrow> nat \<Rightarrow> nat" where
  "chips_to_call r seat_bet = saturating_sub (current_bet r) seat_bet"

definition can_check :: "betting_round \<Rightarrow> nat \<Rightarrow> bool" where
  "can_check r seat_bet \<longleftrightarrow> chips_to_call r seat_bet = 0"

definition can_call :: "betting_round \<Rightarrow> nat \<Rightarrow> nat \<Rightarrow> bool" where
  "can_call r seat_bet stack \<longleftrightarrow> chips_to_call r seat_bet > 0 \<and> stack > 0"

definition can_raise :: "betting_round \<Rightarrow> nat \<Rightarrow> nat \<Rightarrow> bool" where
  "can_raise r seat_bet stack \<longleftrightarrow> stack > chips_to_call r seat_bet"

definition available_actions :: "betting_round \<Rightarrow> nat \<Rightarrow> nat \<Rightarrow> 8 word" where
  "available_actions r seat_bet stack =
     (let mask = ACTION_FOLD;
          mask = (if can_check r seat_bet then mask OR ACTION_CHECK else mask);
          mask = (if can_call r seat_bet stack then mask OR ACTION_CALL else mask);
          mask = (if can_raise r seat_bet stack then mask OR ACTION_RAISE else mask)
      in mask)"

definition process_call :: "betting_round \<Rightarrow> nat \<Rightarrow> nat \<Rightarrow> nat" where
  "process_call r seat_bet stack = min (chips_to_call r seat_bet) stack"

text \<open>
  \<^verbatim>\<open>process_raise\<close> mutates the round only on success, so the new round is part of the
  successful result.
\<close>

definition process_raise ::
    "betting_round \<Rightarrow> nat \<Rightarrow> nat \<Rightarrow> nat \<Rightarrow> betting_error + (nat \<times> betting_round)" where
  "process_raise r total_bet seat_bet stack =
     (if total_bet \<le> current_bet r \<or> total_bet \<le> seat_bet then Inl InvalidRaiseAmount
      else
        let raise_amount = total_bet - current_bet r;
            needed = total_bet - seat_bet
        in if needed > stack then Inl CannotRaise
           else
             let is_all_in = (needed = stack)
             in if raise_amount \<ge> min_raise r then
                  Inr (needed, \<lparr>current_bet = total_bet, min_raise = raise_amount\<rparr>)
                else if \<not> is_all_in then Inl InvalidRaiseAmount
                else Inr (needed, r\<lparr>current_bet := total_bet\<rparr>))"

lemmas betting_defs =
  chips_to_call_def can_check_def can_call_def can_raise_def process_call_def
  saturating_sub_def

section \<open>Correctness\<close>

lemma process_raise_InrE:
  assumes "process_raise r tb seat_bet stack = Inr (needed, r')"
  obtains "current_bet r < tb" "seat_bet < tb" "needed = tb - seat_bet"
    "needed \<le> stack" "current_bet r' = tb"
    "min_raise r' = max (min_raise r) (tb - current_bet r)"
    "tb - current_bet r \<ge> min_raise r \<or> needed = stack"
proof -
  have pre: "current_bet r < tb" "seat_bet < tb" "tb - seat_bet \<le> stack"
    using assms by (auto simp: process_raise_def Let_def split: if_splits)
  show thesis
  proof (cases "min_raise r \<le> tb - current_bet r")
    case True
    with assms pre show ?thesis
      by (intro that) (auto simp: process_raise_def Let_def split: if_splits)
  next
    case False
    with assms pre show ?thesis
      by (intro that) (auto simp: process_raise_def Let_def split: if_splits)
  qed
qed

lemma process_raise_all_in:
  assumes "can_raise r seat_bet stack"
  shows "\<exists>r'. process_raise r (seat_bet + stack) seat_bet stack = Inr (stack, r')"
  using assms by (auto simp: process_raise_def betting_defs Let_def)

text \<open>
  A raise that is accepted raises the price of the round strictly, costs exactly the
  difference to the seat's own bet and never more than its stack, and never lowers the
  minimum raise; below the minimum it is accepted only as an all-in.
\<close>

theorem process_raise_sound:
  assumes "process_raise r tb seat_bet stack = Inr (needed, r')"
  shows "current_bet r < current_bet r' \<and> current_bet r' = seat_bet + needed \<and>
     0 < needed \<and> needed \<le> stack \<and> min_raise r \<le> min_raise r' \<and>
     (current_bet r' - current_bet r < min_raise r \<longrightarrow> needed = stack \<and> min_raise r' = min_raise r)"
  using assms by (elim process_raise_InrE) auto

theorem process_raise_sound_witness:
  "process_raise \<lparr>current_bet = 300, min_raise = 200\<rparr> 400 0 400 =
     Inr (400, \<lparr>current_bet = 400, min_raise = 200\<rparr>) \<and>
   current_bet \<lparr>current_bet = 300, min_raise = 200\<rparr> < current_bet \<lparr>current_bet = 400, min_raise = 200\<rparr>"
proof -
  have h: "process_raise \<lparr>current_bet = 300, min_raise = 200\<rparr> 400 0 400 =
     Inr (400, \<lparr>current_bet = 400, min_raise = 200\<rparr>)"
    by (simp add: process_raise_def)
  show ?thesis using h process_raise_sound [OF h] by simp
qed

text \<open>
  The actions offered to a seat are exactly the ones the rules accept: fold always;
  check when nothing is owed; call when something is owed and the seat has chips; raise
  when some total bet would be accepted by the raise rule.
\<close>

theorem available_actions_exact:
  "available_actions r b s AND ACTION_FOLD \<noteq> 0 \<and>
   (available_actions r b s AND ACTION_CHECK \<noteq> 0 \<longleftrightarrow> current_bet r \<le> b) \<and>
   (available_actions r b s AND ACTION_CALL \<noteq> 0 \<longleftrightarrow> 0 < process_call r b s) \<and>
   (available_actions r b s AND ACTION_RAISE \<noteq> 0 \<longleftrightarrow>
      (\<exists>tb needed r'. process_raise r tb b s = Inr (needed, r')))"
proof -
  have raise: "can_raise r b s \<longleftrightarrow> (\<exists>tb needed r'. process_raise r tb b s = Inr (needed, r'))"
  proof
    assume "can_raise r b s"
    then show "\<exists>tb needed r'. process_raise r tb b s = Inr (needed, r')"
      using process_raise_all_in by blast
  next
    assume "\<exists>tb needed r'. process_raise r tb b s = Inr (needed, r')"
    then show "can_raise r b s"
      by (auto simp: betting_defs elim!: process_raise_InrE)
  qed
  have bits: "available_actions r b s AND ACTION_FOLD \<noteq> 0"
    "available_actions r b s AND ACTION_CHECK \<noteq> 0 \<longleftrightarrow> can_check r b"
    "available_actions r b s AND ACTION_CALL \<noteq> 0 \<longleftrightarrow> can_call r b s"
    "available_actions r b s AND ACTION_RAISE \<noteq> 0 \<longleftrightarrow> can_raise r b s"
    by (simp_all add: available_actions_def action_bits)
  have "can_check r b \<longleftrightarrow> current_bet r \<le> b" "can_call r b s \<longleftrightarrow> 0 < process_call r b s"
    by (auto simp: betting_defs)
  with bits raise show ?thesis by simp
qed

end
