(* ===== verification/Poker_Phases.thy ===== *)
theory Poker_Phases
  imports Poker_Seats Poker_Betting "HOL-Library.Product_Lexorder"
begin

text \<open>
  Hand phases (\<^verbatim>\<open>poker_l1/.../core/types.rs\<close>): shuffle, reveal, run-it-twice, reconstruct and
  betting payloads, the tagged union of the active phase, and the ledger of partially
  decrypted hole cards. Curve points are the type parameter \<open>'pt\<close>; a ciphertext is the
  library's pair of points.
\<close>

section \<open>Streets and phase codes\<close>

definition ROUND_WAITING :: nat where "ROUND_WAITING = 0"
definition ROUND_PREFLOP :: nat where "ROUND_PREFLOP = 2"
definition ROUND_FLOP :: nat where "ROUND_FLOP = 3"
definition ROUND_TURN :: nat where "ROUND_TURN = 4"
definition ROUND_RIVER :: nat where "ROUND_RIVER = 5"
definition ROUND_SHOWDOWN :: nat where "ROUND_SHOWDOWN = 6"

definition SHUFFLE_PHASE_NONE :: nat where "SHUFFLE_PHASE_NONE = 0"
definition SHUFFLE_PHASE_RECONSTRUCT :: nat where "SHUFFLE_PHASE_RECONSTRUCT = 2"
definition SHUFFLE_PHASE_BEFORE_PREFLOP :: nat where "SHUFFLE_PHASE_BEFORE_PREFLOP = 3"

definition REVEAL_PHASE_NONE :: nat where "REVEAL_PHASE_NONE = 0"
definition REVEAL_PHASE_PREFLOP :: nat where "REVEAL_PHASE_PREFLOP = 1"
definition REVEAL_PHASE_FLOP :: nat where "REVEAL_PHASE_FLOP = 3"
definition REVEAL_PHASE_TURN :: nat where "REVEAL_PHASE_TURN = 4"
definition REVEAL_PHASE_RIVER :: nat where "REVEAL_PHASE_RIVER = 5"
definition REVEAL_PHASE_SHOWDOWN :: nat where "REVEAL_PHASE_SHOWDOWN = 6"

lemmas street_defs = ROUND_WAITING_def ROUND_PREFLOP_def ROUND_FLOP_def ROUND_TURN_def
  ROUND_RIVER_def ROUND_SHOWDOWN_def

lemmas reveal_phase_defs = REVEAL_PHASE_NONE_def REVEAL_PHASE_PREFLOP_def REVEAL_PHASE_FLOP_def
  REVEAL_PHASE_TURN_def REVEAL_PHASE_RIVER_def REVEAL_PHASE_SHOWDOWN_def

section \<open>Shuffle\<close>

datatype shuffling_purpose = PurposeInitial | PurposeReconstruct

fun shuffling_legacy_phase :: "shuffling_purpose \<Rightarrow> nat" where
  "shuffling_legacy_phase PurposeInitial = SHUFFLE_PHASE_BEFORE_PREFLOP"
| "shuffling_legacy_phase PurposeReconstruct = SHUFFLE_PHASE_RECONSTRUCT"

record shuffle_progress =
  sh_pending_mask :: seat_mask
  sh_completed_mask :: seat_mask

definition shuffle_default :: shuffle_progress where
  "shuffle_default = \<lparr>sh_pending_mask = 0, sh_completed_mask = 0\<rparr>"

definition derived_current_shuffler :: "shuffle_progress \<Rightarrow> nat" where
  "derived_current_shuffler s = (case seat_mask_first (sh_pending_mask s) of None \<Rightarrow> NO_SEAT | Some i \<Rightarrow> i)"

section \<open>Reveal\<close>

datatype reveal_target = Hole (hole_seat: nat) (hole_slot: nat) | Board (runout: nat) (board_position: nat)

fun canonical_key :: "reveal_target \<Rightarrow> nat \<times> nat \<times> nat" where
  "canonical_key (Hole s c) = (0, s, c)"
| "canonical_key (Board r p) = (1, r, p)"

record 'pt reveal_assignment =
  ra_index :: nat
  ra_target :: reveal_target
  ra_pending_mask :: seat_mask
  ra_submitted_mask :: seat_mask
  ra_tokens :: "'pt list"

definition ra_is_ready :: "'pt reveal_assignment \<Rightarrow> bool" where
  "ra_is_ready a \<longleftrightarrow> ra_pending_mask a = 0"

datatype reveal_purpose = DealHole | RevealBoard | ShowdownOwner

definition reveal_legacy_phase :: "reveal_purpose \<Rightarrow> nat \<Rightarrow> nat" where
  "reveal_legacy_phase p street =
     (if p = DealHole \<and> street = ROUND_PREFLOP then REVEAL_PHASE_PREFLOP
      else if p = RevealBoard \<and> street = ROUND_FLOP then REVEAL_PHASE_FLOP
      else if p = RevealBoard \<and> street = ROUND_TURN then REVEAL_PHASE_TURN
      else if p = RevealBoard \<and> street = ROUND_RIVER then REVEAL_PHASE_RIVER
      else if p = ShowdownOwner \<and> street = ROUND_SHOWDOWN then REVEAL_PHASE_SHOWDOWN
      else REVEAL_PHASE_NONE)"

record 'pt reveal_token_state =
  rt_purpose :: reveal_purpose
  rt_assignments :: "'pt reveal_assignment list"

fun target_matches :: "reveal_purpose \<Rightarrow> reveal_target \<Rightarrow> bool" where
  "target_matches DealHole (Hole _ c) = (c < 2)"
| "target_matches ShowdownOwner (Hole _ c) = (c < 2)"
| "target_matches RevealBoard (Board r p) = (r < 2 \<and> p < 5)"
| "target_matches _ _ = False"

text \<open>The loop state: the previous key and the array of indices already seen.\<close>

definition validate_for_street :: "'pt reveal_token_state \<Rightarrow> nat \<Rightarrow> unit res" where
  "validate_for_street st street =
     (if reveal_legacy_phase (rt_purpose st) street = REVEAL_PHASE_NONE
      then Inl (Serialization ''Texas reveal purpose is incompatible with street'')
      else rbind (try_fold (\<lambda>(prior, seen) a.
          if \<not> target_matches (rt_purpose st) (ra_target a)
          then Inl (Serialization ''Texas reveal assignment target is incompatible with purpose'')
          else if (case prior of None \<Rightarrow> False | Some k \<Rightarrow> k \<ge> canonical_key (ra_target a))
          then Inl (Serialization ''Texas reveal assignment target order is not canonical'')
          else if ra_index a \<ge> 52 \<or> seen ! ra_index a
          then Inl (Serialization ''Texas reveal assignment has duplicate/out-of-range encrypted card index'')
          else Inr (Some (canonical_key (ra_target a)), seen[ra_index a := True]))
        (None, replicate 52 False) (rt_assignments st)) (\<lambda>_. Inr ()))"

section \<open>Run it twice\<close>

datatype rit_start_street = RitPreflop | RitFlop | RitTurn

fun rit_shared_board_len :: "rit_start_street \<Rightarrow> nat" where
  "rit_shared_board_len RitPreflop = 0"
| "rit_shared_board_len RitFlop = 3"
| "rit_shared_board_len RitTurn = 4"

definition rit_from_shared_board_len :: "nat \<Rightarrow> rit_start_street res" where
  "rit_from_shared_board_len n =
     (if n = 0 then Inr RitPreflop else if n = 3 then Inr RitFlop else if n = 4 then Inr RitTurn
      else Inl (Serialization ''Texas RIT shared prefix has no canonical start street''))"

datatype run_it_twice_state = Single | Twice rit_start_street board_cards

fun rit_is_active :: "run_it_twice_state \<Rightarrow> bool" where
  "rit_is_active Single = False"
| "rit_is_active (Twice _ _) = True"

fun rit_shared_len :: "run_it_twice_state \<Rightarrow> nat" where
  "rit_shared_len Single = 0"
| "rit_shared_len (Twice s _) = rit_shared_board_len s"

fun second_board_suffix :: "run_it_twice_state \<Rightarrow> card list" where
  "second_board_suffix Single = []"
| "second_board_suffix (Twice _ b) = as_slice b"

definition second_board_len :: "run_it_twice_state \<Rightarrow> nat" where
  "second_board_len r = rit_shared_len r + length (second_board_suffix r)"

definition full_second_board :: "run_it_twice_state \<Rightarrow> board_cards \<Rightarrow> card list res" where
  "full_second_board r first_board =
     (if rit_shared_len r > length (as_slice first_board)
      then Inl (Serialization ''Texas RIT shared prefix exceeds first board'')
      else Inr (take (rit_shared_len r) (as_slice first_board) @ second_board_suffix r))"

fun rit_validate_canonical :: "run_it_twice_state \<Rightarrow> board_cards \<Rightarrow> unit res" where
  "rit_validate_canonical Single _ = Inr ()"
| "rit_validate_canonical (Twice start suffix) first_board =
     (case board_validate suffix of
        Inl _ \<Rightarrow> Inl (Serialization ''Texas RIT second-board suffix is non-canonical'')
      | Inr _ \<Rightarrow>
          let shared = rit_shared_board_len start in
          if shared > 4 \<or> shared > length (as_slice first_board)
          then Inl (Serialization ''Texas RIT shared prefix is outside the first board'')
          else if shared + length (as_slice suffix) > 5
          then Inl (Serialization ''Texas RIT second board exceeds five cards'')
          else Inr ())"

section \<open>Timeouts and the active phase\<close>

record timeout_config =
  shuffle_timeout_ms :: nat
  reveal_timeout_ms :: nat
  betting_timeout_ms :: nat
  reconstruct_timeout_ms :: nat
  showdown_display_ms :: nat

definition timeout_default :: timeout_config where
  "timeout_default = \<lparr>shuffle_timeout_ms = 10000, reveal_timeout_ms = 10000, betting_timeout_ms = 30000,
     reconstruct_timeout_ms = 10000, showdown_display_ms = 3000\<rparr>"

datatype 'pt shuffling_phase =
    ShufflingInitial shuffle_progress nat
  | ShufflingReconstruct nat shuffle_progress "'pt reveal_token_state" nat

fun shuffling_get_purpose :: "'pt shuffling_phase \<Rightarrow> shuffling_purpose" where
  "shuffling_get_purpose (ShufflingInitial _ _) = PurposeInitial"
| "shuffling_get_purpose (ShufflingReconstruct _ _ _ _) = PurposeReconstruct"

fun shuffling_street :: "'pt shuffling_phase \<Rightarrow> nat" where
  "shuffling_street (ShufflingInitial _ _) = ROUND_WAITING"
| "shuffling_street (ShufflingReconstruct street _ _ _) = street"

fun shuffling_state :: "'pt shuffling_phase \<Rightarrow> shuffle_progress" where
  "shuffling_state (ShufflingInitial st _) = st"
| "shuffling_state (ShufflingReconstruct _ st _ _) = st"

fun shuffling_state_mut :: "(shuffle_progress \<Rightarrow> shuffle_progress) \<Rightarrow> 'pt shuffling_phase \<Rightarrow> 'pt shuffling_phase" where
  "shuffling_state_mut f (ShufflingInitial st d) = ShufflingInitial (f st) d"
| "shuffling_state_mut f (ShufflingReconstruct street st r d) = ShufflingReconstruct street (f st) r d"

fun shuffling_deadline_ms :: "'pt shuffling_phase \<Rightarrow> nat" where
  "shuffling_deadline_ms (ShufflingInitial _ d) = d"
| "shuffling_deadline_ms (ShufflingReconstruct _ _ _ d) = d"

fun shuffling_set_deadline :: "nat \<Rightarrow> 'pt shuffling_phase \<Rightarrow> 'pt shuffling_phase" where
  "shuffling_set_deadline v (ShufflingInitial st _) = ShufflingInitial st v"
| "shuffling_set_deadline v (ShufflingReconstruct street st r _) = ShufflingReconstruct street st r v"

text \<open>
  The phases; the fields in the order of the source. The reconstruct payload of the source
  has one field, the mask of the seats that still owe a contribution.
\<close>

datatype 'pt hand_phase =
    PhaseWaiting
  | PhaseShuffling "'pt shuffling_phase"
  | PhaseRevealing nat "'pt reveal_token_state" nat
  | PhaseReconstructing nat seat_mask "'pt reveal_token_state" nat nat
  | PhaseBetting nat betting_round nat nat
  | PhaseShowdownDisplay nat

datatype hand_phase_tag = TagWaiting | TagShuffling | TagRevealing | TagReconstructing | TagBetting | TagShowdownDisplay

fun phase_tag :: "'pt hand_phase \<Rightarrow> hand_phase_tag" where
  "phase_tag PhaseWaiting = TagWaiting"
| "phase_tag (PhaseShuffling _) = TagShuffling"
| "phase_tag (PhaseRevealing _ _ _) = TagRevealing"
| "phase_tag (PhaseReconstructing _ _ _ _ _) = TagReconstructing"
| "phase_tag (PhaseBetting _ _ _ _) = TagBetting"
| "phase_tag (PhaseShowdownDisplay _) = TagShowdownDisplay"

definition canonical_absolute_deadline :: "nat \<Rightarrow> nat \<Rightarrow> nat res" where
  "canonical_absolute_deadline started_at timeout_ms =
     (if started_at = 0 then Inr 0
      else ok_or (checked_add started_at timeout_ms) (Serialization ''Texas deadline overflows u64''))"

section \<open>Ledger of partially decrypted hole cards\<close>

definition HOLE_CARD_SLOTS :: nat where "HOLE_CARD_SLOTS = 2"

definition CIPHER_DECK_SIZE :: nat where "CIPHER_DECK_SIZE = 52"

record 'pt ciphertext =
  ct_c1 :: 'pt
  ct_c2 :: 'pt

record 'pt partial_hole_card =
  ph_index :: nat
  ph_ciphertext :: "'pt ciphertext"
  ph_full_ciphertext :: "'pt ciphertext"

type_synonym 'pt ledger = "'pt partial_hole_card option list list"

definition ledger_default :: "'pt ledger" where
  "ledger_default = replicate MAX_SEATS (replicate HOLE_CARD_SLOTS None)"

definition ledger_get :: "'pt ledger \<Rightarrow> nat \<Rightarrow> nat \<Rightarrow> 'pt partial_hole_card option" where
  "ledger_get l seat slot =
     (if seat < length l then if slot < length (l ! seat) then l ! seat ! slot else None else None)"

definition ledger_iter :: "'pt ledger \<Rightarrow> (nat \<times> nat \<times> 'pt partial_hole_card) list" where
  "ledger_iter l = concat (map (\<lambda>i. concat (map (\<lambda>c.
     case l ! i ! c of None \<Rightarrow> [] | Some h \<Rightarrow> [(i, c, h)]) [0..<length (l ! i)])) [0..<length l])"

definition ledger_iter_for_seat :: "'pt ledger \<Rightarrow> nat \<Rightarrow> (nat \<times> 'pt partial_hole_card) list" where
  "ledger_iter_for_seat l seat =
     (if seat < length l then
        concat (map (\<lambda>c. case l ! seat ! c of None \<Rightarrow> [] | Some h \<Rightarrow> [(c, h)]) [0..<length (l ! seat)])
      else [])"

definition ledger_insert :: "'pt ledger \<Rightarrow> nat \<Rightarrow> nat \<Rightarrow> 'pt partial_hole_card \<Rightarrow> 'pt ledger res" where
  "ledger_insert l seat slot h =
     (if seat \<ge> MAX_SEATS \<or> slot \<ge> HOLE_CARD_SLOTS
      then Inl (Serialization ''Texas partial hole-card position is out of range'')
      else if ph_index h \<ge> CIPHER_DECK_SIZE
      then Inl (Serialization ''Texas partial hole card has out-of-range deck index'')
      else if list_ex (\<lambda>(_, _, p). ph_index p = ph_index h) (ledger_iter l)
      then Inl (Serialization ''Texas partial hole-card ledger duplicates deck index'')
      else if l ! seat ! slot \<noteq> None
      then Inl (Serialization ''Texas partial hole-card slot is already occupied'')
      else Inr (l[seat := (l ! seat)[slot := Some h]]))"

definition ledger_remove :: "'pt ledger \<Rightarrow> nat \<Rightarrow> nat \<Rightarrow> ('pt ledger \<times> 'pt partial_hole_card) res" where
  "ledger_remove l seat slot =
     (if seat < length l \<and> slot < length (l ! seat) then
        (case l ! seat ! slot of
           None \<Rightarrow> Inl (Serialization ''Texas partial hole-card slot is empty'')
         | Some h \<Rightarrow> Inr (l[seat := (l ! seat)[slot := None]], h))
      else Inl (Serialization ''Texas partial hole-card position is out of range''))"

definition ledger_is_empty :: "'pt ledger \<Rightarrow> bool" where
  "ledger_is_empty l \<longleftrightarrow> ledger_iter l = []"

section \<open>Encrypted deck\<close>

datatype 'pt cipher_deck = DeckAbsent | DeckActive "'pt ciphertext list"

fun deck_as_slice :: "'pt cipher_deck \<Rightarrow> 'pt ciphertext list" where
  "deck_as_slice DeckAbsent = []"
| "deck_as_slice (DeckActive cs) = cs"

definition deck_try_from :: "'pt ciphertext list \<Rightarrow> 'pt cipher_deck res" where
  "deck_try_from cs =
     (if cs = [] then Inr DeckAbsent
      else if length cs \<noteq> CIPHER_DECK_SIZE then Inl (Serialization ''Texas encrypted deck has wrong number of cards'')
      else Inr (DeckActive cs))"

record 'pt deck_state =
  ds_encrypted :: "'pt cipher_deck"
  ds_contributor_mask :: seat_mask
  ds_cards_dealt :: nat
  ds_ledger :: "'pt ledger"
  ds_reconstruct_accumulated :: "'pt ciphertext list option"

definition deck_default :: "'pt deck_state" where
  "deck_default = \<lparr>ds_encrypted = DeckAbsent, ds_contributor_mask = 0, ds_cards_dealt = 0,
     ds_ledger = ledger_default, ds_reconstruct_accumulated = None\<rparr>"

section \<open>Reveal payloads that validate\<close>

lemma validate_fold:
  assumes "try_fold (\<lambda>(prior, seen) a.
          if \<not> target_matches p (ra_target a)
          then Inl (Serialization ''Texas reveal assignment target is incompatible with purpose'')
          else if (case prior of None \<Rightarrow> False | Some k \<Rightarrow> k \<ge> canonical_key (ra_target a))
          then Inl (Serialization ''Texas reveal assignment target order is not canonical'')
          else if ra_index a \<ge> 52 \<or> seen ! ra_index a
          then Inl (Serialization ''Texas reveal assignment has duplicate/out-of-range encrypted card index'')
          else Inr (Some (canonical_key (ra_target a)), seen[ra_index a := True])) (prior, seen) as = Inr r"
    and "length seen = 52"
  shows "(\<forall>a\<in>set as. target_matches p (ra_target a) \<and> ra_index a < 52 \<and> \<not> seen ! ra_index a \<and>
      (\<forall>k. prior = Some k \<longrightarrow> k < canonical_key (ra_target a))) \<and>
    sorted_wrt (<) (map (canonical_key \<circ> ra_target) as) \<and> distinct (map ra_index as)"
  using assms
proof (induction as arbitrary: prior seen)
  case Nil
  then show ?case by simp
next
  case (Cons a as)
  from Cons.prems have a: "target_matches p (ra_target a)" "ra_index a < 52" "\<not> seen ! ra_index a"
    "\<And>k. prior = Some k \<Longrightarrow> k < canonical_key (ra_target a)"
    by (auto simp: result_simps not_le split: option.splits if_splits)
  note IH = Cons.IH [of "Some (canonical_key (ra_target a))" "seen[ra_index a := True]"]
  have IH': "(\<forall>b\<in>set as. target_matches p (ra_target b) \<and> ra_index b < 52 \<and> \<not> seen[ra_index a := True] ! ra_index b \<and>
      (\<forall>k. Some (canonical_key (ra_target a)) = Some k \<longrightarrow> k < canonical_key (ra_target b))) \<and>
    sorted_wrt (<) (map (canonical_key \<circ> ra_target) as) \<and> distinct (map ra_index as)"
    using Cons.prems a by (intro IH) (auto simp: result_simps not_le split: option.splits if_splits)
  then show ?case using a Cons.prems(2)
    by (auto simp: nth_list_update comp_def split: if_splits intro: less_trans)
qed

lemma validate_for_street_Inr:
  assumes "validate_for_street st street = Inr ()"
  shows "reveal_legacy_phase (rt_purpose st) street \<noteq> REVEAL_PHASE_NONE"
    and "list_all (\<lambda>a. target_matches (rt_purpose st) (ra_target a) \<and> ra_index a < 52) (rt_assignments st)"
    and "sorted_wrt (<) (map (canonical_key \<circ> ra_target) (rt_assignments st))"
    and "distinct (map ra_index (rt_assignments st))"
  using assms validate_fold [of "rt_purpose st" None "replicate 52 False" "rt_assignments st"]
  by (auto simp: validate_for_street_def result_simps list_all_iff split: if_splits)

section \<open>The ledger as a store of slots\<close>

text \<open>
  What the deal and the showdown rely on: a finite set of positions, each empty or holding
  one record; insertion refuses an occupied position and removal an empty one.
\<close>

locale slot_store =
  fixes inv :: "'s \<Rightarrow> bool"
    and get :: "'s \<Rightarrow> nat \<Rightarrow> nat \<Rightarrow> 'v option"
    and ins :: "'s \<Rightarrow> nat \<Rightarrow> nat \<Rightarrow> 'v \<Rightarrow> 's res"
    and rem :: "'s \<Rightarrow> nat \<Rightarrow> nat \<Rightarrow> ('s \<times> 'v) res"
  assumes ins_inv: "inv s \<Longrightarrow> ins s i c v = Inr s' \<Longrightarrow> inv s'"
    and rem_inv: "inv s \<Longrightarrow> rem s i c = Inr (s', v) \<Longrightarrow> inv s'"
    and ins_free: "inv s \<Longrightarrow> ins s i c v = Inr s' \<Longrightarrow> get s i c = None"
    and get_ins: "inv s \<Longrightarrow> ins s i c v = Inr s' \<Longrightarrow>
        get s' j d = (if j = i \<and> d = c then Some v else get s j d)"
    and rem_get: "inv s \<Longrightarrow> rem s i c = Inr (s', v) \<Longrightarrow> get s i c = Some v"
    and rem_some: "inv s \<Longrightarrow> get s i c = Some v \<Longrightarrow> \<exists>s'. rem s i c = Inr (s', v)"
    and get_rem: "inv s \<Longrightarrow> rem s i c = Inr (s', v) \<Longrightarrow>
        get s' j d = (if j = i \<and> d = c then None else get s j d)"
begin

text \<open>A record that was put in can be taken out, and everything else is as before.\<close>

lemma insert_remove:
  assumes "inv s" "ins s i c v = Inr s'"
  shows "\<exists>s''. rem s' i c = Inr (s'', v) \<and> inv s'' \<and> (\<forall>j d. get s'' j d = get s j d)"
proof -
  have inv': "inv s'" using assms by (rule ins_inv)
  have "get s' i c = Some v" using get_ins [OF assms] by simp
  from rem_some [OF inv' this] obtain s'' where s'': "rem s' i c = Inr (s'', v)" by blast
  have "get s'' j d = get s j d" for j d
    using get_rem [OF inv' s''] get_ins [OF assms] ins_free [OF assms] by auto
  with s'' rem_inv [OF inv' s''] show ?thesis by blast
qed

end

definition ledger_inv :: "'pt ledger \<Rightarrow> bool" where
  "ledger_inv l \<longleftrightarrow> length l = MAX_SEATS \<and> list_all (\<lambda>s. length s = HOLE_CARD_SLOTS) l"

lemma ledger_iter_iff:
  "(i, c, h) \<in> set (ledger_iter l) \<longleftrightarrow> i < length l \<and> c < length (l ! i) \<and> l ! i ! c = Some h"
  by (auto simp: ledger_iter_def split: option.splits)

lemma ledger_iter_get: "(i, c, h) \<in> set (ledger_iter l) \<longleftrightarrow> ledger_get l i c = Some h"
  by (auto simp: ledger_iter_iff ledger_get_def)

lemma ledger_default_inv: "ledger_inv ledger_default"
  by (simp add: ledger_inv_def ledger_default_def list_all_iff)

lemma ledger_inv_update:
  "ledger_inv l \<Longrightarrow> i < length l \<Longrightarrow> ledger_inv (l[i := (l ! i)[c := v]])"
  by (auto simp: ledger_inv_def list_all_iff dest!: in_set_conv_nth [THEN iffD1])
    (auto simp: nth_list_update)

lemma ledger_get_update:
  assumes "ledger_inv l" "i < MAX_SEATS" "c < HOLE_CARD_SLOTS"
  shows "ledger_get (l[i := (l ! i)[c := v]]) j d = (if j = i \<and> d = c then v else ledger_get l j d)"
  using assms by (auto simp: ledger_get_def ledger_inv_def list_all_length nth_list_update)

interpretation ledger: slot_store ledger_inv ledger_get ledger_insert ledger_remove
proof unfold_locales
  fix l l' :: "'a ledger" and i c j d v
  assume inv: "ledger_inv l"
  note d = inv [unfolded ledger_inv_def list_all_length]
  {
    assume ok: "ledger_insert l i c v = Inr l'"
    then have r: "i < MAX_SEATS" "c < HOLE_CARD_SLOTS" "l ! i ! c = None" "l' = l[i := (l ! i)[c := Some v]]"
      by (auto simp: ledger_insert_def split: if_splits)
    show "ledger_inv l'" using r inv d by (simp add: ledger_inv_update)
    show "ledger_get l i c = None" using r d by (auto simp: ledger_get_def)
    show "ledger_get l' j d = (if j = i \<and> d = c then Some v else ledger_get l j d)"
      using r inv by (simp add: ledger_get_update)
  }
  {
    assume ok: "ledger_remove l i c = Inr (l', v)"
    then have r: "i < length l" "c < length (l ! i)" "l ! i ! c = Some v" "l' = l[i := (l ! i)[c := None]]"
      by (auto simp: ledger_remove_def split: if_splits option.splits)
    show "ledger_inv l'" using r inv by (simp add: ledger_inv_update)
    show "ledger_get l i c = Some v" using r by (simp add: ledger_get_def)
    show "ledger_get l' j d = (if j = i \<and> d = c then None else ledger_get l j d)"
      using r inv d by (simp add: ledger_get_update)
  }
  show "ledger_get l i c = Some v \<Longrightarrow> \<exists>l'. ledger_remove l i c = Inr (l', v)"
    by (auto simp: ledger_remove_def ledger_get_def split: if_splits option.splits)
qed

section \<open>Properties\<close>

text \<open>
  Ledger of partial hole cards: an accepted insertion fills an empty slot in range with a
  deck index no other slot has; removing it returns the same record and restores every slot.
\<close>

theorem ledger_insert_remove:
  assumes "ledger_inv l" "ledger_insert l i c h = Inr l'"
  shows "ledger_get l i c = None \<and> ledger_get l' i c = Some h \<and> i < MAX_SEATS \<and> c < HOLE_CARD_SLOTS \<and>
    (\<forall>j d h'. ledger_get l j d = Some h' \<longrightarrow> ph_index h' \<noteq> ph_index h) \<and>
    (\<exists>l''. ledger_remove l' i c = Inr (l'', h) \<and> (\<forall>j d. ledger_get l'' j d = ledger_get l j d))"
proof -
  have r: "i < MAX_SEATS" "c < HOLE_CARD_SLOTS" "\<not> list_ex (\<lambda>(_, _, p). ph_index p = ph_index h) (ledger_iter l)"
    using assms(2) by (auto simp: ledger_insert_def split: if_splits)
  have "ph_index h' \<noteq> ph_index h" if "ledger_get l j d = Some h'" for j d h'
    using r(3) that ledger_iter_get [of j d h' l] by (auto simp: list_ex_iff)
  then show ?thesis
    using r ledger.ins_free [OF assms] ledger.get_ins [OF assms] ledger.insert_remove [OF assms] by auto
qed

theorem ledger_insert_remove_witness:
  "\<exists>l'. ledger_insert ledger_default 3 1 \<lparr>ph_index = 7, ph_ciphertext = \<lparr>ct_c1 = (), ct_c2 = ()\<rparr>,
      ph_full_ciphertext = \<lparr>ct_c1 = (), ct_c2 = ()\<rparr>\<rparr> = Inr l' \<and>
     (\<exists>l'' h. ledger_remove l' 3 1 = Inr (l'', h) \<and> ph_index h = 7)"
proof -
  let ?h = "\<lparr>ph_index = 7, ph_ciphertext = \<lparr>ct_c1 = (), ct_c2 = ()\<rparr>, ph_full_ciphertext = \<lparr>ct_c1 = (), ct_c2 = ()\<rparr>\<rparr>"
  have empty: "ledger_iter (ledger_default :: unit ledger) = []"
    by (simp add: ledger_iter_def ledger_default_def MAX_SEATS_def HOLE_CARD_SLOTS_def)
  obtain l' where l': "ledger_insert ledger_default 3 1 ?h = Inr l'"
    using empty by (simp add: ledger_insert_def MAX_SEATS_def HOLE_CARD_SLOTS_def CIPHER_DECK_SIZE_def ledger_default_def)
  from ledger_insert_remove [OF ledger_default_inv l'] obtain l'' where
    "ledger_remove l' 3 1 = Inr (l'', ?h)" by blast
  then show ?thesis using l' by (intro exI [of _ l'] conjI exI [of _ l''] exI [of _ ?h]) simp_all
qed

text \<open>
  A reveal payload that passes validation fits its street, lists its targets in strictly
  ascending order, so that no hole or board position is revealed twice, and never opens the
  same encrypted card twice.
\<close>

theorem validated_reveal_canonical:
  assumes "validate_for_street st street = Inr ()"
  shows "reveal_legacy_phase (rt_purpose st) street \<noteq> REVEAL_PHASE_NONE \<and>
    sorted_wrt (<) (map (canonical_key \<circ> ra_target) (rt_assignments st)) \<and>
    distinct (map ra_index (rt_assignments st)) \<and> length (rt_assignments st) \<le> 52 \<and>
    list_all (\<lambda>a. ra_index a < 52 \<and> target_matches (rt_purpose st) (ra_target a)) (rt_assignments st)"
proof -
  note v = validate_for_street_Inr [OF assms]
  have "set (map ra_index (rt_assignments st)) \<subseteq> {..<52}" using v(2) by (auto simp: list_all_iff)
  then have "card (set (map ra_index (rt_assignments st))) \<le> 52"
    by (metis card_lessThan card_mono finite_lessThan)
  then have "length (rt_assignments st) \<le> 52" using v(4) by (metis distinct_card length_map)
  then show ?thesis using v by (auto simp: list_all_iff)
qed

theorem validated_reveal_canonical_witness:
  "validate_for_street \<lparr>rt_purpose = RevealBoard, rt_assignments = ([] :: unit reveal_assignment list)\<rparr> ROUND_TURN = Inr () \<and>
   reveal_legacy_phase RevealBoard ROUND_TURN \<noteq> REVEAL_PHASE_NONE"
proof -
  have v: "validate_for_street \<lparr>rt_purpose = RevealBoard, rt_assignments = ([] :: unit reveal_assignment list)\<rparr> ROUND_TURN = Inr ()"
    by (simp add: validate_for_street_def reveal_legacy_phase_def street_defs reveal_phase_defs)
  then show ?thesis using validated_reveal_canonical [OF v] by simp
qed

end
