(* ===== verification/Poker_Table.thy ===== *)
theory Poker_Table
  imports Poker_Phases
begin

text \<open>
  The table (\<^verbatim>\<open>poker_l1/.../core/types.rs\<close>): rules, the table record, its projections, the
  deadlines of the active phase, the phase transitions, the key lineage of the deck, and the
  schema validation. Seats are always nine slots; the group operations of the curve library
  are the argument \<open>G\<close>.
\<close>

section \<open>Rules\<close>

definition ANTE_MODE_NONE :: nat where "ANTE_MODE_NONE = 0"
definition ANTE_MODE_NORMAL :: nat where "ANTE_MODE_NORMAL = 1"
definition ANTE_MODE_BBA :: nat where "ANTE_MODE_BBA = 2"
definition RAKE_MODE_NONE :: nat where "RAKE_MODE_NONE = 0"
definition RAKE_MODE_PERCENTAGE :: nat where "RAKE_MODE_PERCENTAGE = 1"
definition RIT_MODE_DISABLED :: nat where "RIT_MODE_DISABLED = 0"
definition RIT_MODE_TWICE :: nat where "RIT_MODE_TWICE = 1"
definition DEFAULT_RAKE_BPS :: nat where "DEFAULT_RAKE_BPS = 500"
definition DEFAULT_RAKE_CAP :: nat where "DEFAULT_RAKE_CAP = 1000"

record table_rules =
  r_max_players :: nat
  r_small_blind :: nat
  r_big_blind :: nat
  r_timeout_config :: timeout_config
  r_ante_mode :: nat
  r_ante_amount :: nat
  r_rake_mode :: nat
  r_rake_bps :: nat
  r_rake_cap :: nat
  r_rit_mode :: nat

definition rules_new :: "nat \<Rightarrow> nat \<Rightarrow> nat \<Rightarrow> table_rules" where
  "rules_new max_players small_blind big_blind =
     \<lparr>r_max_players = max_players, r_small_blind = small_blind, r_big_blind = big_blind,
      r_timeout_config = timeout_default, r_ante_mode = ANTE_MODE_NONE, r_ante_amount = 0,
      r_rake_mode = RAKE_MODE_NONE, r_rake_bps = DEFAULT_RAKE_BPS, r_rake_cap = DEFAULT_RAKE_CAP,
      r_rit_mode = RIT_MODE_DISABLED\<rparr>"

definition rules_validate :: "table_rules \<Rightarrow> unit res" where
  "rules_validate r =
     (if \<not> (2 \<le> r_max_players r \<and> r_max_players r \<le> MAX_SEATS)
      then Inl (Serialization ''Texas max_players is outside 2..=9'')
      else if r_big_blind r = 0 \<or> r_small_blind r > r_big_blind r
      then Inl (Serialization ''Texas blind configuration is not canonical'')
      else if \<not> (r_ante_mode r = ANTE_MODE_NONE \<or> r_ante_mode r = ANTE_MODE_NORMAL \<or> r_ante_mode r = ANTE_MODE_BBA)
      then Inl (Serialization ''Texas ante mode is not canonical'')
      else if \<not> (r_rake_mode r = RAKE_MODE_NONE \<or> r_rake_mode r = RAKE_MODE_PERCENTAGE) \<or> r_rake_bps r > 10000
      then Inl (Serialization ''Texas rake configuration is not canonical'')
      else if \<not> (r_rit_mode r = RIT_MODE_DISABLED \<or> r_rit_mode r = RIT_MODE_TWICE)
      then Inl (Serialization ''Texas RIT mode is not canonical'')
      else Inr ())"

section \<open>Table\<close>

record 'pt table =
  t_id :: "8 word list"
  t_creator :: address
  t_rules :: table_rules
  t_seats :: "'pt seat list"
  t_acted_mask :: seat_mask
  t_leave_after_hand_mask :: seat_mask
  t_button :: nat
  t_last_bb_seat :: nat
  t_pot :: nat
  t_community_cards :: board_cards
  t_hand_phase :: "'pt hand_phase"
  t_deck_state :: "'pt deck_state"
  t_chip_pool :: nat
  t_run_it_twice_state :: run_it_twice_state
  t_hand_id :: nat
  t_call_seq :: nat

abbreviation max_players :: "'pt table \<Rightarrow> nat" where
  "max_players t \<equiv> r_max_players (t_rules t)"

abbreviation timeouts :: "'pt table \<Rightarrow> timeout_config" where
  "timeouts t \<equiv> r_timeout_config (t_rules t)"

text \<open>The operations of the curve library the table itself uses.\<close>

record 'pt group_ops =
  g1_add :: "'pt \<Rightarrow> 'pt \<Rightarrow> 'pt"
  g1_is_identity :: "'pt \<Rightarrow> bool"

definition table_new :: "8 word list \<Rightarrow> address \<Rightarrow> nat \<Rightarrow> nat \<Rightarrow> nat \<Rightarrow> 'pt table res" where
  "table_new i creator mp small_blind big_blind =
     (if \<not> (mp \<ge> 2 \<and> mp \<le> 9) then Inl (Panic ''max_players must be 2..=9'')
      else if \<not> big_blind > 0 then Inl (Panic ''big_blind must be > 0'')
      else if \<not> small_blind \<le> big_blind then Inl (Panic ''small_blind must be <= big_blind'')
      else Inr \<lparr>t_id = i, t_creator = creator, t_rules = rules_new mp small_blind big_blind,
        t_seats = replicate 9 seat_empty, t_acted_mask = 0, t_leave_after_hand_mask = 0, t_button = 0,
        t_last_bb_seat = NO_SEAT, t_pot = 0, t_community_cards = board_empty, t_hand_phase = PhaseWaiting,
        t_deck_state = deck_default, t_chip_pool = 0, t_run_it_twice_state = Single,
        t_hand_id = 0, t_call_seq = 0\<rparr>)"

definition padding_seats_are_vacant :: "'pt table \<Rightarrow> bool" where
  "padding_seats_are_vacant t = list_all seat_is_vacant (drop (max_players t) (t_seats t))"

section \<open>Projections of the phase\<close>

definition round_state :: "'pt table \<Rightarrow> nat" where
  "round_state t = (case t_hand_phase t of
      PhaseWaiting \<Rightarrow> ROUND_WAITING
    | PhaseShuffling ph \<Rightarrow> shuffling_street ph
    | PhaseRevealing street _ _ \<Rightarrow> street
    | PhaseReconstructing street _ _ _ _ \<Rightarrow> street
    | PhaseBetting street _ _ _ \<Rightarrow> street
    | PhaseShowdownDisplay _ \<Rightarrow> ROUND_SHOWDOWN)"

definition table_betting_round :: "'pt table \<Rightarrow> betting_round option" where
  "table_betting_round t = (case t_hand_phase t of PhaseBetting _ r _ _ \<Rightarrow> Some r | _ \<Rightarrow> None)"

definition current_turn :: "'pt table \<Rightarrow> nat" where
  "current_turn t = (case t_hand_phase t of PhaseBetting _ _ c _ \<Rightarrow> c | _ \<Rightarrow> NO_SEAT)"

definition current_turn_option :: "'pt table \<Rightarrow> nat option" where
  "current_turn_option t = (if current_turn t \<noteq> NO_SEAT then Some (current_turn t) else None)"

definition table_shuffle_state :: "'pt table \<Rightarrow> shuffle_progress" where
  "table_shuffle_state t = (case t_hand_phase t of PhaseShuffling ph \<Rightarrow> shuffling_state ph | _ \<Rightarrow> shuffle_default)"

definition table_shuffling_purpose :: "'pt table \<Rightarrow> shuffling_purpose option" where
  "table_shuffling_purpose t =
     (case t_hand_phase t of PhaseShuffling ph \<Rightarrow> Some (shuffling_get_purpose ph) | _ \<Rightarrow> None)"

definition shuffle_phase :: "'pt table \<Rightarrow> nat" where
  "shuffle_phase t = (case table_shuffling_purpose t of
     Some p \<Rightarrow> shuffling_legacy_phase p | None \<Rightarrow> SHUFFLE_PHASE_NONE)"

definition reveal_token_state :: "'pt table \<Rightarrow> 'pt reveal_token_state option" where
  "reveal_token_state t = (case t_hand_phase t of
      PhaseRevealing _ st _ \<Rightarrow> Some st
    | PhaseReconstructing _ _ susp _ _ \<Rightarrow> Some susp
    | PhaseShuffling (ShufflingReconstruct _ _ susp _) \<Rightarrow> Some susp
    | _ \<Rightarrow> None)"

definition reveal_phase :: "'pt table \<Rightarrow> nat" where
  "reveal_phase t = (case t_hand_phase t of
      PhaseRevealing street st _ \<Rightarrow> reveal_legacy_phase (rt_purpose st) street
    | PhaseReconstructing street _ susp _ _ \<Rightarrow> reveal_legacy_phase (rt_purpose susp) street
    | PhaseShuffling (ShufflingReconstruct street _ susp _) \<Rightarrow> reveal_legacy_phase (rt_purpose susp) street
    | _ \<Rightarrow> REVEAL_PHASE_NONE)"

definition reveal_assignments :: "'pt table \<Rightarrow> 'pt reveal_assignment list" where
  "reveal_assignments t = (case reveal_token_state t of None \<Rightarrow> [] | Some st \<Rightarrow> rt_assignments st)"

definition reconstruct_pending :: "'pt table \<Rightarrow> seat_mask" where
  "reconstruct_pending t = (case t_hand_phase t of PhaseReconstructing _ m _ _ _ \<Rightarrow> m | _ \<Rightarrow> 0)"

definition is_reconstructing :: "'pt table \<Rightarrow> bool" where
  "is_reconstructing t = (case t_hand_phase t of PhaseReconstructing _ _ _ _ _ \<Rightarrow> True | _ \<Rightarrow> False)"

definition take_reveal_payload :: "'pt table \<Rightarrow> ('pt table \<times> 'pt reveal_token_state) res" where
  "take_reveal_payload t = (case reveal_token_state t of
      Some st \<Rightarrow> Inr (t\<lparr>t_hand_phase := PhaseWaiting\<rparr>, st)
    | None \<Rightarrow> Inl (Serialization ''Texas phase has no active or suspended reveal payload''))"

text \<open>The mutable borrows of a phase payload, as update functions.\<close>

definition active_shuffle_state_mut ::
    "(shuffle_progress \<Rightarrow> shuffle_progress) \<Rightarrow> 'pt table \<Rightarrow> 'pt table res" where
  "active_shuffle_state_mut f t = (case t_hand_phase t of
      PhaseShuffling ph \<Rightarrow> Inr (t\<lparr>t_hand_phase := PhaseShuffling (shuffling_state_mut f ph)\<rparr>)
    | _ \<Rightarrow> Inl (Serialization ''Texas table is not in an active shuffle phase''))"

definition active_reveal_state_mut ::
    "('pt reveal_token_state \<Rightarrow> 'pt reveal_token_state) \<Rightarrow> 'pt table \<Rightarrow> 'pt table res" where
  "active_reveal_state_mut f t = (case t_hand_phase t of
      PhaseRevealing street st d \<Rightarrow> Inr (t\<lparr>t_hand_phase := PhaseRevealing street (f st) d\<rparr>)
    | _ \<Rightarrow> Inl (Serialization ''Texas table is not in an active reveal phase''))"

definition active_reconstruct_state_mut :: "(seat_mask \<Rightarrow> seat_mask) \<Rightarrow> 'pt table \<Rightarrow> 'pt table res" where
  "active_reconstruct_state_mut f t = (case t_hand_phase t of
      PhaseReconstructing street m susp ep d \<Rightarrow>
        Inr (t\<lparr>t_hand_phase := PhaseReconstructing street (f m) susp ep d\<rparr>)
    | _ \<Rightarrow> Inl (Serialization ''Texas table is not in an active reconstruct phase''))"

definition active_betting_round_mut :: "(betting_round \<Rightarrow> betting_round) \<Rightarrow> 'pt table \<Rightarrow> 'pt table res" where
  "active_betting_round_mut f t = (case t_hand_phase t of
      PhaseBetting street r c d \<Rightarrow> Inr (t\<lparr>t_hand_phase := PhaseBetting street (f r) c d\<rparr>)
    | _ \<Rightarrow> Inl (Serialization ''Texas table is not in an active betting phase''))"

section \<open>Deadlines\<close>

definition reconstruct_deadline_ms :: "'pt table \<Rightarrow> nat option res" where
  "reconstruct_deadline_ms t = (case t_hand_phase t of
      PhaseReconstructing _ _ _ ep d \<Rightarrow>
        rbind (canonical_absolute_deadline ep (reconstruct_timeout_ms (timeouts t))) (\<lambda>expected.
          if d \<noteq> expected then Inl (Serialization ''Texas reconstruct deadline mismatch'') else Inr (Some d))
    | _ \<Rightarrow> Inr None)"

definition arm_reconstruct_deadline :: "nat \<Rightarrow> 'pt table \<Rightarrow> 'pt table res" where
  "arm_reconstruct_deadline now t =
     rbind (canonical_absolute_deadline now (reconstruct_timeout_ms (timeouts t))) (\<lambda>d.
       case t_hand_phase t of
         PhaseReconstructing street m susp _ _ \<Rightarrow> Inr (t\<lparr>t_hand_phase := PhaseReconstructing street m susp now d\<rparr>)
       | _ \<Rightarrow> Inl (Serialization ''cannot arm reconstruct deadline outside phase''))"

definition shuffle_deadline_ms :: "'pt table \<Rightarrow> nat option" where
  "shuffle_deadline_ms t = (case t_hand_phase t of PhaseShuffling ph \<Rightarrow> Some (shuffling_deadline_ms ph) | _ \<Rightarrow> None)"

definition arm_shuffle_deadline :: "nat \<Rightarrow> 'pt table \<Rightarrow> 'pt table res" where
  "arm_shuffle_deadline now t =
     rbind (canonical_absolute_deadline now (shuffle_timeout_ms (timeouts t))) (\<lambda>d.
       case t_hand_phase t of
         PhaseShuffling ph \<Rightarrow> Inr (t\<lparr>t_hand_phase := PhaseShuffling (shuffling_set_deadline d ph)\<rparr>)
       | _ \<Rightarrow> Inl (Serialization ''cannot arm shuffle deadline outside phase''))"

definition disarm_shuffle_deadline :: "'pt table \<Rightarrow> 'pt table res" where
  "disarm_shuffle_deadline t = (case t_hand_phase t of
      PhaseShuffling ph \<Rightarrow> Inr (t\<lparr>t_hand_phase := PhaseShuffling (shuffling_set_deadline 0 ph)\<rparr>)
    | _ \<Rightarrow> Inl (Serialization ''cannot disarm shuffle deadline outside phase''))"

definition reveal_deadline_ms :: "'pt table \<Rightarrow> nat option" where
  "reveal_deadline_ms t = (case t_hand_phase t of PhaseRevealing _ _ d \<Rightarrow> Some d | _ \<Rightarrow> None)"

definition arm_reveal_deadline :: "nat \<Rightarrow> 'pt table \<Rightarrow> 'pt table res" where
  "arm_reveal_deadline now t =
     (if reveal_deadline_ms t = None then Inl (Serialization ''cannot arm reveal deadline outside phase'')
      else rbind (canonical_absolute_deadline now (reveal_timeout_ms (timeouts t))) (\<lambda>d.
       case t_hand_phase t of
         PhaseRevealing street st _ \<Rightarrow> Inr (t\<lparr>t_hand_phase := PhaseRevealing street st d\<rparr>)
       | _ \<Rightarrow> Inl (Serialization ''cannot arm reveal deadline outside phase'')))"

definition betting_deadline_ms :: "'pt table \<Rightarrow> nat option" where
  "betting_deadline_ms t = (case t_hand_phase t of PhaseBetting _ _ _ d \<Rightarrow> Some d | _ \<Rightarrow> None)"

definition arm_betting_deadline :: "nat \<Rightarrow> 'pt table \<Rightarrow> 'pt table res" where
  "arm_betting_deadline now t =
     rbind (canonical_absolute_deadline now (betting_timeout_ms (timeouts t))) (\<lambda>d.
       case t_hand_phase t of
         PhaseBetting street r c _ \<Rightarrow> Inr (t\<lparr>t_hand_phase := PhaseBetting street r c d\<rparr>)
       | _ \<Rightarrow> Inl (Serialization ''cannot arm betting deadline outside phase''))"

definition extend_betting_deadline :: "nat \<Rightarrow> 'pt table \<Rightarrow> ('pt table \<times> nat) res" where
  "extend_betting_deadline extension t = (case t_hand_phase t of
      PhaseBetting street r c d \<Rightarrow>
        if d \<noteq> 0 then
          rbind (ok_or (checked_add d extension) (Serialization ''Texas betting deadline extension overflows u64''))
            (\<lambda>d'. Inr (t\<lparr>t_hand_phase := PhaseBetting street r c d'\<rparr>, d'))
        else Inl (Serialization ''cannot extend an unarmed betting deadline'')
    | _ \<Rightarrow> Inl (Serialization ''cannot extend an unarmed betting deadline''))"

definition showdown_deadline_ms :: "'pt table \<Rightarrow> nat option" where
  "showdown_deadline_ms t = (case t_hand_phase t of PhaseShowdownDisplay d \<Rightarrow> Some d | _ \<Rightarrow> None)"

definition arm_showdown_deadline :: "nat \<Rightarrow> 'pt table \<Rightarrow> 'pt table res" where
  "arm_showdown_deadline now t =
     (if showdown_deadline_ms t = None then Inl (Serialization ''cannot arm showdown deadline outside display phase'')
      else rbind (ok_or (checked_add now (showdown_display_ms (timeouts t)))
              (Serialization ''Texas showdown deadline overflows u64'')) (\<lambda>d.
           Inr (t\<lparr>t_hand_phase := PhaseShowdownDisplay d\<rparr>)))"

definition arm_active_deadline_if_needed :: "nat \<Rightarrow> 'pt table \<Rightarrow> ('pt table \<times> bool) res" where
  "arm_active_deadline_if_needed now t =
     (if now = 0 then Inl (Serialization ''Texas active phase requires a non-zero consensus timestamp'')
      else let armed = (\<lambda>m. rbind m (\<lambda>t'. Inr (t', True))) in
        case t_hand_phase t of
          PhaseWaiting \<Rightarrow> Inr (t, False)
        | PhaseShuffling ph \<Rightarrow>
            if shuffling_deadline_ms ph = 0 then armed (arm_shuffle_deadline now t) else Inr (t, False)
        | PhaseRevealing _ _ d \<Rightarrow> if d = 0 then armed (arm_reveal_deadline now t) else Inr (t, False)
        | PhaseReconstructing _ _ _ ep d \<Rightarrow>
            if ep = 0 \<and> d = 0 then armed (arm_reconstruct_deadline now t)
            else if ep = 0 \<or> d = 0
            then Inl (Serialization ''Texas reconstruct epoch/deadline must both be zero or both be armed'')
            else Inr (t, False)
        | PhaseBetting _ _ _ d \<Rightarrow> if d = 0 then armed (arm_betting_deadline now t) else Inr (t, False)
        | PhaseShowdownDisplay d \<Rightarrow> if d = 0 then armed (arm_showdown_deadline now t) else Inr (t, False))"

section \<open>Phase transitions\<close>

definition set_betting_turn :: "nat \<Rightarrow> 'pt table \<Rightarrow> 'pt table res" where
  "set_betting_turn turn t =
     (if turn \<noteq> NO_SEAT \<and> turn \<ge> max_players t then Inl (Serialization ''Texas current turn is outside max_players'')
      else case t_hand_phase t of
        PhaseBetting street r _ _ \<Rightarrow> Inr (t\<lparr>t_hand_phase := PhaseBetting street r turn 0\<rparr>)
      | _ \<Rightarrow> Inl (Serialization ''cannot set current turn outside betting''))"

definition disarm_betting_deadline :: "'pt table \<Rightarrow> 'pt table res" where
  "disarm_betting_deadline t = (case t_hand_phase t of
      PhaseBetting street r c _ \<Rightarrow> Inr (t\<lparr>t_hand_phase := PhaseBetting street r c 0\<rparr>)
    | _ \<Rightarrow> Inl (Serialization ''cannot disarm betting deadline outside betting''))"

definition scrub_reveal :: "nat \<Rightarrow> 'pt reveal_token_state \<Rightarrow> 'pt reveal_token_state" where
  "scrub_reveal i st = st\<lparr>rt_assignments :=
     map (\<lambda>a. a\<lparr>ra_pending_mask := seat_mask_remove (ra_pending_mask a) i\<rparr>) (rt_assignments st)\<rparr>"

definition scrub_shuffle :: "nat \<Rightarrow> shuffle_progress \<Rightarrow> shuffle_progress" where
  "scrub_shuffle i st = \<lparr>sh_pending_mask = seat_mask_remove (sh_pending_mask st) i,
     sh_completed_mask = seat_mask_remove (sh_completed_mask st) i\<rparr>"

definition remove_seat_from_active_phase :: "nat \<Rightarrow> 'pt table \<Rightarrow> 'pt table res" where
  "remove_seat_from_active_phase i t =
     (if i \<ge> max_players t then Inl (Serialization ''cannot remove out-of-range seat from Texas phase'')
      else Inr (t\<lparr>t_hand_phase := (case t_hand_phase t of
          PhaseReconstructing street m susp ep d \<Rightarrow>
            PhaseReconstructing street (seat_mask_remove m i) (scrub_reveal i susp) ep d
        | PhaseShuffling (ShufflingInitial st d) \<Rightarrow> PhaseShuffling (ShufflingInitial (scrub_shuffle i st) d)
        | PhaseShuffling (ShufflingReconstruct street st susp d) \<Rightarrow>
            PhaseShuffling (ShufflingReconstruct street (scrub_shuffle i st) (scrub_reveal i susp) d)
        | PhaseRevealing street st d \<Rightarrow> PhaseRevealing street (scrub_reveal i st) d
        | ph \<Rightarrow> ph)\<rparr>))"

definition enter_waiting :: "'pt table \<Rightarrow> 'pt table" where
  "enter_waiting t = t\<lparr>t_hand_phase := PhaseWaiting\<rparr>"

definition enter_initial_shuffling :: "shuffle_progress \<Rightarrow> nat \<Rightarrow> 'pt table \<Rightarrow> 'pt table res" where
  "enter_initial_shuffling st started t =
     rbind (canonical_absolute_deadline started (shuffle_timeout_ms (timeouts t))) (\<lambda>d.
       Inr (t\<lparr>t_hand_phase := PhaseShuffling (ShufflingInitial st d)\<rparr>))"

definition is_live_street :: "nat \<Rightarrow> bool" where
  "is_live_street s \<longleftrightarrow> s = ROUND_PREFLOP \<or> s = ROUND_FLOP \<or> s = ROUND_TURN \<or> s = ROUND_RIVER \<or> s = ROUND_SHOWDOWN"

definition enter_reconstruct_shuffling ::
    "nat \<Rightarrow> shuffle_progress \<Rightarrow> 'pt reveal_token_state \<Rightarrow> nat \<Rightarrow> 'pt table \<Rightarrow> 'pt table res" where
  "enter_reconstruct_shuffling street st susp started t =
     (if \<not> is_live_street street then Inl (Serialization ''Texas reconstruct shuffle is outside a live street'')
      else rbind (validate_for_street susp street) (\<lambda>_.
        rbind (canonical_absolute_deadline started (shuffle_timeout_ms (timeouts t))) (\<lambda>d.
          Inr (t\<lparr>t_hand_phase := PhaseShuffling (ShufflingReconstruct street st susp d)\<rparr>))))"

definition enter_revealing :: "nat \<Rightarrow> 'pt reveal_token_state \<Rightarrow> nat \<Rightarrow> 'pt table \<Rightarrow> 'pt table res" where
  "enter_revealing street st started t =
     rbind (validate_for_street st street) (\<lambda>_.
       rbind (canonical_absolute_deadline started (reveal_timeout_ms (timeouts t))) (\<lambda>d.
         Inr (t\<lparr>t_hand_phase := PhaseRevealing street st d\<rparr>)))"

definition enter_reconstructing ::
    "nat \<Rightarrow> seat_mask \<Rightarrow> 'pt reveal_token_state \<Rightarrow> nat \<Rightarrow> 'pt table \<Rightarrow> 'pt table res" where
  "enter_reconstructing street pending susp epoch t =
     rbind (validate_for_street susp street) (\<lambda>_.
       rbind (canonical_absolute_deadline epoch (reconstruct_timeout_ms (timeouts t))) (\<lambda>d.
         Inr (t\<lparr>t_hand_phase := PhaseReconstructing street pending susp epoch d\<rparr>)))"

definition enter_betting :: "nat \<Rightarrow> betting_round \<Rightarrow> nat \<Rightarrow> nat \<Rightarrow> 'pt table \<Rightarrow> 'pt table res" where
  "enter_betting street r turn started t =
     (if turn \<noteq> NO_SEAT \<and> turn \<ge> max_players t then Inl (Serialization ''Texas current turn is outside max_players'')
      else rbind (canonical_absolute_deadline started (betting_timeout_ms (timeouts t))) (\<lambda>d.
        Inr (t\<lparr>t_hand_phase := PhaseBetting street r turn d\<rparr>)))"

definition enter_showdown_display :: "nat \<Rightarrow> 'pt table \<Rightarrow> 'pt table" where
  "enter_showdown_display d t = t\<lparr>t_hand_phase := PhaseShowdownDisplay d\<rparr>"

section \<open>Key lineage of the deck\<close>

definition aggregated_pk_for_contributor_mask ::
    "'pt group_ops \<Rightarrow> 'pt table \<Rightarrow> seat_mask \<Rightarrow> 'pt option res" where
  "aggregated_pk_for_contributor_mask G t m =
     (if \<not> seat_mask_is_canonical m (max_players t)
      then Inl (Serialization ''Texas deck contributor mask contains out-of-range bits'')
      else rbind (try_fold (\<lambda>agg i.
          if \<not> seat_mask_contains m i then Inr agg
          else case seat_pk (t_seats t ! i) of
            None \<Rightarrow> Inl (Serialization ''Texas deck contributor seat has no live key'')
          | Some pk \<Rightarrow>
              if \<not> seat_is_occupied (t_seats t ! i) \<or> g1_is_identity G pk
              then Inl (Serialization ''Texas deck contributor seat is empty, out, or has identity pk'')
              else Inr (Some (case agg of None \<Rightarrow> pk | Some cur \<Rightarrow> g1_add G cur pk)))
        None [0..<max_players t]) (\<lambda>agg.
        if (case agg of None \<Rightarrow> False | Some p \<Rightarrow> g1_is_identity G p)
        then Inl (Serialization ''Texas non-empty contributor set has identity aggregate pk'')
        else Inr agg))"

definition derived_aggregated_pk :: "'pt group_ops \<Rightarrow> 'pt table \<Rightarrow> 'pt option res" where
  "derived_aggregated_pk G t = aggregated_pk_for_contributor_mask G t (ds_contributor_mask (t_deck_state t))"

definition set_contributor_mask :: "seat_mask \<Rightarrow> 'pt table \<Rightarrow> 'pt table" where
  "set_contributor_mask m t = t\<lparr>t_deck_state := (t_deck_state t)\<lparr>ds_contributor_mask := m\<rparr>\<rparr>"

definition add_deck_contributor :: "'pt group_ops \<Rightarrow> nat \<Rightarrow> 'pt table \<Rightarrow> 'pt table res" where
  "add_deck_contributor G i t =
     (if i \<ge> max_players t then Inl (Serialization ''Texas contributor seat is out of range'')
      else let m = ds_contributor_mask (t_deck_state t) OR seat_mask_bit i in
        rbind (aggregated_pk_for_contributor_mask G t m) (\<lambda>_. Inr (set_contributor_mask m t)))"

definition remove_deck_contributor :: "'pt group_ops \<Rightarrow> nat \<Rightarrow> 'pt table \<Rightarrow> 'pt table res" where
  "remove_deck_contributor G i t =
     (let m = seat_mask_remove (ds_contributor_mask (t_deck_state t)) i in
        rbind (aggregated_pk_for_contributor_mask G t m) (\<lambda>_. Inr (set_contributor_mask m t)))"

section \<open>Seats of the table\<close>

definition active_count :: "'pt table \<Rightarrow> nat" where
  "active_count t = length (filter (\<lambda>s. seat_is_occupied s \<and> \<not> seat_is_folded s) (t_seats t))"

definition occupied_count :: "'pt table \<Rightarrow> nat" where
  "occupied_count t = length (filter seat_is_occupied (t_seats t))"

definition find_seat :: "'pt table \<Rightarrow> address \<Rightarrow> nat option" where
  "find_seat t a = position (\<lambda>s. seat_player s = a) (t_seats t)"

definition registered_tx_pk_of :: "'pt table \<Rightarrow> address \<Rightarrow> stark_tx_pubkey option" where
  "registered_tx_pk_of t a = (case find_seat t a of None \<Rightarrow> None | Some i \<Rightarrow> seat_registered_tx_pk (t_seats t ! i))"

definition find_empty_seat :: "'pt table \<Rightarrow> nat option" where
  "find_empty_seat t = position seat_is_vacant (t_seats t)"

definition seat_acted_this_round :: "'pt table \<Rightarrow> nat \<Rightarrow> bool" where
  "seat_acted_this_round t i = seat_mask_contains (t_acted_mask t) i"

definition set_seat_acted_this_round :: "nat \<Rightarrow> bool \<Rightarrow> 'pt table \<Rightarrow> 'pt table" where
  "set_seat_acted_this_round i v t = t\<lparr>t_acted_mask :=
     (if v then t_acted_mask t OR seat_mask_bit i else seat_mask_remove (t_acted_mask t) i)\<rparr>"

definition seat_wants_leave :: "'pt table \<Rightarrow> nat \<Rightarrow> bool" where
  "seat_wants_leave t i = seat_mask_contains (t_leave_after_hand_mask t) i"

definition set_seat_wants_leave :: "nat \<Rightarrow> bool \<Rightarrow> 'pt table \<Rightarrow> 'pt table" where
  "set_seat_wants_leave i v t = t\<lparr>t_leave_after_hand_mask :=
     (if v then t_leave_after_hand_mask t OR seat_mask_bit i
      else seat_mask_remove (t_leave_after_hand_mask t) i)\<rparr>"

section \<open>Validation\<close>

definition validate_deadline :: "nat \<Rightarrow> nat \<Rightarrow> unit res" where
  "validate_deadline d timeout =
     (if d = 0 then Inl (Serialization ''Texas active deadline is not armed'')
      else if d < timeout then Inl (Serialization ''Texas deadline is smaller than timeout'')
      else Inr ())"

definition validate_reveal :: "'pt table \<Rightarrow> nat \<Rightarrow> 'pt reveal_token_state \<Rightarrow> unit res" where
  "validate_reveal t street st =
     rbind (validate_for_street st street) (\<lambda>_.
       if list_ex (\<lambda>a. case ra_target a of Hole i _ \<Rightarrow> i \<ge> max_players t | _ \<Rightarrow> False) (rt_assignments st)
       then Inl (Serialization ''Texas reveal assignment targets out-of-range seat'')
       else Inr ())"

definition validate_hand_phase :: "'pt table \<Rightarrow> unit res" where
  "validate_hand_phase t = (case t_hand_phase t of
      PhaseWaiting \<Rightarrow> Inr ()
    | PhaseShuffling ph \<Rightarrow>
        rbind (case ph of
            ShufflingReconstruct street _ susp _ \<Rightarrow>
              if \<not> is_live_street street then Inl (Serialization ''Texas reconstruct shuffle is outside a live street'')
              else validate_reveal t street susp
          | _ \<Rightarrow> Inr ()) (\<lambda>_.
          validate_deadline (shuffling_deadline_ms ph) (shuffle_timeout_ms (timeouts t)))
    | PhaseRevealing street st d \<Rightarrow>
        if \<not> is_live_street street then Inl (Serialization ''Texas reveal phase is outside a live street'')
        else rbind (validate_reveal t street st) (\<lambda>_. validate_deadline d (reveal_timeout_ms (timeouts t)))
    | PhaseReconstructing street _ susp ep d \<Rightarrow>
        if \<not> is_live_street street then Inl (Serialization ''Texas reconstruct phase is not active on a live street'')
        else rbind (validate_reveal t street susp) (\<lambda>_.
          if ep = 0 \<or> d = 0 then Inl (Serialization ''Texas active reconstruct epoch/deadline is not armed'')
          else rbind (canonical_absolute_deadline ep (reconstruct_timeout_ms (timeouts t))) (\<lambda>expected.
            if d \<noteq> expected then Inl (Serialization ''Texas reconstruct deadline mismatch'') else Inr ()))
    | PhaseBetting street _ turn d \<Rightarrow>
        if \<not> (street = ROUND_PREFLOP \<or> street = ROUND_FLOP \<or> street = ROUND_TURN \<or> street = ROUND_RIVER)
        then Inl (Serialization ''Texas betting phase is outside a live street'')
        else if turn \<noteq> NO_SEAT \<and> turn \<ge> max_players t
        then Inl (Serialization ''Texas current_turn is outside max_players'')
        else validate_deadline d (betting_timeout_ms (timeouts t))
    | PhaseShowdownDisplay d \<Rightarrow>
        if d = 0 then Inl (Serialization ''Texas active showdown deadline is not armed'') else Inr ())"

definition canonical_hand_phase :: "'pt table \<Rightarrow> 'pt hand_phase res" where
  "canonical_hand_phase t = rbind (validate_hand_phase t) (\<lambda>_. Inr (t_hand_phase t))"

definition validate_seat_at :: "'pt group_ops \<Rightarrow> 'pt table \<Rightarrow> nat \<Rightarrow> unit res" where
  "validate_seat_at G t i =
     (let s = t_seats t ! i in
      rbind (seat_validate_canonical (g1_is_identity G) s) (\<lambda>_.
        if seat_is_occupied s \<and>
           list_ex (\<lambda>q. seat_is_occupied q \<and> seat_player q = seat_player s) (take i (t_seats t))
        then Inl (Serialization ''Texas player occupies more than one seat'')
        else if seat_is_vacant s \<and>
           (seat_mask_contains (t_acted_mask t) i \<or> seat_mask_contains (t_leave_after_hand_mask t) i)
        then Inl (Serialization ''Texas empty seat contains live table flags'')
        else Inr ()))"

definition table_cards :: "'pt table \<Rightarrow> card list" where
  "table_cards t = as_slice (t_community_cards t) @ second_board_suffix (t_run_it_twice_state t) @
     concat (map (\<lambda>s. case seat_hand s of None \<Rightarrow> [] | Some h \<Rightarrow> as_slice h) (t_seats t))"

definition validate_cards :: "card list \<Rightarrow> unit res" where
  "validate_cards cs =
     rbind (try_fold (\<lambda>seen c.
         if to_index c \<ge> 52 \<or> seen ! to_index c
         then Inl (Serialization ''Texas table contains an invalid or duplicate materialized card'')
         else Inr (seen[to_index c := True])) (replicate 52 False) cs) (\<lambda>_. Inr ())"

definition validate_ledger :: "'pt table \<Rightarrow> unit res" where
  "validate_ledger t =
     rbind (try_fold (\<lambda>seen (i, c, h).
         if ph_index h \<ge> 52 then Inl (Serialization ''Texas partial hole card has out-of-range deck index'')
         else if i \<ge> max_players t
         then Inl (Serialization ''Texas partial hole-card ledger has out-of-range owner seat'')
         else if seen ! ph_index h
         then Inl (Serialization ''Texas partial hole-card ledger contains duplicate deck index'')
         else if (case seat_hand (t_seats t ! i) of None \<Rightarrow> False | Some hand \<Rightarrow> c < fc_len hand)
         then Inl (Serialization ''Texas partial hole-card ledger overlaps materialized hand'')
         else Inr (seen[ph_index h := True]))
       (replicate CIPHER_DECK_SIZE False) (ledger_iter (ds_ledger (t_deck_state t)))) (\<lambda>_. Inr ())"

definition validate_mask :: "'pt table \<Rightarrow> seat_mask \<Rightarrow> unit res" where
  "validate_mask t m =
     (if seat_mask_is_canonical m (max_players t) then Inr ()
      else Inl (Serialization ''Texas mask contains out-of-range seat bits''))"

definition validate_assignment_masks :: "'pt table \<Rightarrow> 'pt reveal_assignment \<Rightarrow> unit res" where
  "validate_assignment_masks t a =
     rbind (validate_mask t (ra_pending_mask a)) (\<lambda>_.
     rbind (validate_mask t (ra_submitted_mask a)) (\<lambda>_.
       if ra_pending_mask a AND ra_submitted_mask a \<noteq> 0
       then Inl (Serialization ''Texas reveal pending/submitted masks overlap'')
       else if count_ones (ra_submitted_mask a) \<noteq> length (ra_tokens a)
       then Inl (Serialization ''Texas reveal submitted mask/token vector length mismatch'')
       else Inr ()))"

definition validate_state_schema :: "'pt group_ops \<Rightarrow> 'pt table \<Rightarrow> unit res" where
  "validate_state_schema G t =
     rbind (rules_validate (t_rules t)) (\<lambda>_.
     if \<not> padding_seats_are_vacant t
     then Inl (Serialization ''Texas seat padding beyond max_players must be vacant'')
     else if \<not> seat_mask_is_canonical (t_acted_mask t) (max_players t) \<or>
             \<not> seat_mask_is_canonical (t_leave_after_hand_mask t) (max_players t)
     then Inl (Serialization ''Texas table contains out-of-range seat flag bits'')
     else if t_button t \<ge> max_players t \<or> (t_last_bb_seat t \<noteq> NO_SEAT \<and> t_last_bb_seat t \<ge> max_players t)
     then Inl (Serialization ''Texas table button/last_bb_seat is outside the seat domain'')
     else rbind (validate_hand_phase t) (\<lambda>_.
     rbind (try_fold (\<lambda>_ i. validate_seat_at G t i) () [0..<length (t_seats t)]) (\<lambda>_.
     rbind (derived_aggregated_pk G t) (\<lambda>_.
     rbind (case board_validate (t_community_cards t) of
              Inl _ \<Rightarrow> Inl (Serialization ''Texas first board is non-canonical'') | Inr _ \<Rightarrow> Inr ()) (\<lambda>_.
     rbind (rit_validate_canonical (t_run_it_twice_state t) (t_community_cards t)) (\<lambda>_.
     rbind (validate_cards (table_cards t)) (\<lambda>_.
     rbind (validate_ledger t) (\<lambda>_.
     rbind (validate_mask t (sh_pending_mask (table_shuffle_state t))) (\<lambda>_.
     rbind (validate_mask t (sh_completed_mask (table_shuffle_state t))) (\<lambda>_.
     if sh_pending_mask (table_shuffle_state t) AND sh_completed_mask (table_shuffle_state t) \<noteq> 0
     then Inl (Serialization ''Texas shuffle pending/completed masks overlap'')
     else rbind (try_fold (\<lambda>_ a. validate_assignment_masks t a) () (reveal_assignments t)) (\<lambda>_.
     rbind (validate_mask t (reconstruct_pending t)) (\<lambda>_.
     case ds_reconstruct_accumulated (t_deck_state t) of
       Some deck \<Rightarrow> if length deck \<noteq> 52 then Inl (Serialization ''Texas reconstruct accumulator has wrong length'')
                    else Inr ()
     | None \<Rightarrow> Inr ()))))))))))))"

section \<open>What validation establishes\<close>

lemma validate_cards_Inr:
  assumes "validate_cards cs = Inr ()"
  shows "distinct cs \<and> list_all card_is_valid cs"
proof -
  define f where "f = (\<lambda>seen c. if to_index c \<ge> 52 \<or> seen ! to_index c
         then Inl (Serialization ''Texas table contains an invalid or duplicate materialized card'')
         else Inr (seen[to_index c := True]))"
  have "try_fold f seen cs = Inr r \<Longrightarrow> length seen = 52 \<Longrightarrow>
      distinct cs \<and> (\<forall>c\<in>set cs. to_index c < 52 \<and> \<not> seen ! to_index c)" for seen r
  proof (induction cs arbitrary: seen)
    case Nil
    then show ?case by simp
  next
    case (Cons c cs)
    from Cons.prems have c: "to_index c < 52" "\<not> seen ! to_index c"
      "try_fold f (seen[to_index c := True]) cs = Inr r"
      by (auto simp: f_def split: if_splits)
    have "distinct cs \<and> (\<forall>d\<in>set cs. to_index d < 52 \<and> \<not> seen[to_index c := True] ! to_index d)"
      using Cons.IH [OF c(3)] Cons.prems(2) by simp
    moreover have "\<not> seen ! to_index d" if "\<not> seen[to_index c := True] ! to_index d" "to_index d < 52" for d
      using that Cons.prems(2) c(1) by (cases "to_index c = to_index d") auto
    ultimately show ?case using c Cons.prems(2) by force
  qed
  moreover obtain r where "try_fold f (replicate 52 False) cs = Inr r"
    using assms unfolding validate_cards_def f_def by (auto simp: result_simps)
  ultimately show ?thesis by (fastforce simp: list_all_iff card_is_valid_def)
qed

lemma try_fold_unit_Inr:
  "try_fold (\<lambda>_ x. f x) () xs = Inr () \<longleftrightarrow> (\<forall>x\<in>set xs. f x = Inr ())"
  by (induction xs) (auto simp: result_simps)

lemma validate_state_schema_Inr:
  assumes "validate_state_schema G t = Inr ()"
  shows "rules_validate (t_rules t) = Inr ()" "padding_seats_are_vacant t" "validate_hand_phase t = Inr ()"
    "\<And>i. i < length (t_seats t) \<Longrightarrow> validate_seat_at G t i = Inr ()"
    "validate_cards (table_cards t) = Inr ()" "t_button t < max_players t"
  using assms
  by (auto simp: validate_state_schema_def result_simps try_fold_unit_Inr not_le split: if_splits)

text \<open>The deadline of the active phase and the configured duration of that phase.\<close>

definition phase_deadline :: "'pt table \<Rightarrow> nat option" where
  "phase_deadline t = (case t_hand_phase t of
      PhaseWaiting \<Rightarrow> None
    | PhaseShuffling ph \<Rightarrow> Some (shuffling_deadline_ms ph)
    | PhaseRevealing _ _ d \<Rightarrow> Some d
    | PhaseReconstructing _ _ _ _ d \<Rightarrow> Some d
    | PhaseBetting _ _ _ d \<Rightarrow> Some d
    | PhaseShowdownDisplay d \<Rightarrow> Some d)"

definition phase_timeout :: "'pt table \<Rightarrow> nat" where
  "phase_timeout t = (case t_hand_phase t of
      PhaseWaiting \<Rightarrow> 0
    | PhaseShuffling _ \<Rightarrow> shuffle_timeout_ms (timeouts t)
    | PhaseRevealing _ _ _ \<Rightarrow> reveal_timeout_ms (timeouts t)
    | PhaseReconstructing _ _ _ _ _ \<Rightarrow> reconstruct_timeout_ms (timeouts t)
    | PhaseBetting _ _ _ _ \<Rightarrow> betting_timeout_ms (timeouts t)
    | PhaseShowdownDisplay _ \<Rightarrow> showdown_display_ms (timeouts t))"

lemma canonical_absolute_deadline_Inr:
  "canonical_absolute_deadline now d = Inr r \<longleftrightarrow> (if now = 0 then r = 0 else r = now + d \<and> now + d < u64_bound)"
  by (auto simp: canonical_absolute_deadline_def result_simps)

lemma shuffling_set_deadline_eq [simp]: "shuffling_deadline_ms (shuffling_set_deadline d ph) = d"
  by (cases ph) auto

lemma arm_active_cases:
  assumes "arm_active_deadline_if_needed now t = Inr (t', armed)"
  shows "now \<noteq> 0" and "\<not> armed \<Longrightarrow> t' = t \<and> phase_deadline t \<noteq> Some 0"
    and "armed \<Longrightarrow> phase_deadline t = Some 0 \<and> phase_deadline t' = Some (now + phase_timeout t) \<and>
      now + phase_timeout t < u64_bound \<and> phase_tag (t_hand_phase t') = phase_tag (t_hand_phase t) \<and>
      t' = t\<lparr>t_hand_phase := t_hand_phase t'\<rparr>"
  using assms
  by (auto simp: arm_active_deadline_if_needed_def phase_deadline_def phase_timeout_def
      arm_shuffle_deadline_def arm_reveal_deadline_def arm_reconstruct_deadline_def
      arm_betting_deadline_def arm_showdown_deadline_def canonical_absolute_deadline_Inr
      result_simps Let_def split: hand_phase.splits if_splits)

section \<open>Properties\<close>

text \<open>
  A table that passes schema validation is sound: no card is materialised twice and all
  are real cards, no player occupies two seats, empty seats carry no flags, and the button is
  one of the seats in play.
\<close>

theorem validated_table_sound:
  assumes "validate_state_schema G t = Inr ()"
  shows "distinct (table_cards t) \<and> list_all card_is_valid (table_cards t) \<and> t_button t < max_players t \<and>
    2 \<le> max_players t \<and> max_players t \<le> MAX_SEATS \<and>
    (\<forall>i<length (t_seats t). \<forall>j<length (t_seats t).
       seat_is_occupied (t_seats t ! i) \<and> seat_is_occupied (t_seats t ! j) \<and>
       seat_player (t_seats t ! i) = seat_player (t_seats t ! j) \<longrightarrow> i = j) \<and>
    (\<forall>i<length (t_seats t). seat_is_vacant (t_seats t ! i) \<longrightarrow>
       \<not> seat_acted_this_round t i \<and> \<not> seat_wants_leave t i)"
proof -
  note v = validate_state_schema_Inr [OF assms]
  have lt: False if "i < j" "j < length (t_seats t)" "seat_is_occupied (t_seats t ! i)"
    "seat_is_occupied (t_seats t ! j)" "seat_player (t_seats t ! i) = seat_player (t_seats t ! j)" for i j
  proof -
    have "t_seats t ! i \<in> set (take j (t_seats t))" using that by (auto simp: in_set_conv_nth)
    then have "list_ex (\<lambda>q. seat_is_occupied q \<and> seat_player q = seat_player (t_seats t ! j)) (take j (t_seats t))"
      using that by (auto simp: list_ex_iff)
    with v(4) [OF that(2)] that show False by (auto simp: validate_seat_at_def Let_def result_simps split: if_splits)
  qed
  have rules: "2 \<le> max_players t \<and> max_players t \<le> MAX_SEATS"
    using v(1) by (auto simp: rules_validate_def split: if_splits)
  have flags: "\<not> seat_acted_this_round t i \<and> \<not> seat_wants_leave t i"
    if "i < length (t_seats t)" "seat_is_vacant (t_seats t ! i)" for i
    using v(4) [OF that(1)] that(2)
    by (auto simp: validate_seat_at_def Let_def result_simps seat_acted_this_round_def seat_wants_leave_def
        split: if_splits)
  show ?thesis
    using validate_cards_Inr [OF v(5)] v(6) rules flags lt by (metis linorder_neqE_nat)
qed

text \<open>A new table is the simplest valid one.\<close>

abbreviation demo_group :: "unit group_ops" where
  "demo_group \<equiv> \<lparr>g1_add = (\<lambda>_ _. ()), g1_is_identity = (\<lambda>_. False)\<rparr>"

lemma replicate_9_nth: "i < 9 \<Longrightarrow> replicate 9 x ! i = x"
  by simp

lemma ledger_iter_default: "ledger_iter ledger_default = []"
  by (simp add: ledger_iter_def ledger_default_def)

lemma table_new_valid:
  assumes "table_new i creator mp sb bb = Inr t"
  shows "validate_state_schema G t = Inr ()"
proof -
  from assms have b: "2 \<le> mp" "mp \<le> 9" "0 < bb" "sb \<le> bb"
    and t: "t = \<lparr>t_id = i, t_creator = creator, t_rules = rules_new mp sb bb,
        t_seats = replicate 9 seat_empty, t_acted_mask = 0, t_leave_after_hand_mask = 0, t_button = 0,
        t_last_bb_seat = NO_SEAT, t_pot = 0, t_community_cards = board_empty, t_hand_phase = PhaseWaiting,
        t_deck_state = deck_default, t_chip_pool = 0, t_run_it_twice_state = Single,
        t_hand_id = 0, t_call_seq = 0\<rparr>"
    by (auto simp: table_new_def split: if_splits)
  have zero: "seat_mask_is_canonical 0 mp" using b by (simp add: seat_mask_is_canonical_iff)
  have rules: "rules_validate (t_rules t) = Inr ()"
    using b by (simp add: t rules_validate_def rules_new_def MAX_SEATS_def ANTE_MODE_NONE_def RAKE_MODE_NONE_def
        RIT_MODE_DISABLED_def DEFAULT_RAKE_BPS_def)
  have mp: "max_players t = mp" by (simp add: t rules_new_def)
  have seats: "\<forall>k\<in>set [0..<length (t_seats t)]. validate_seat_at G t k = Inr ()"
    by (auto simp: t validate_seat_at_def Let_def seat_empty_def mask_simps)
  have agg: "derived_aggregated_pk G t = Inr None"
  proof -
    have "try_fold (\<lambda>agg k. if \<not> seat_mask_contains 0 k then Inr agg else h agg k) None ks = Inr None"
      for h :: "'a option \<Rightarrow> nat \<Rightarrow> 'a option res" and ks
      by (induction ks) (auto simp: mask_simps)
    then show ?thesis
      using zero mp by (simp add: derived_aggregated_pk_def aggregated_pk_for_contributor_mask_def t deck_default_def)
  qed
  have board: "board_validate (t_community_cards t) = Inr ()"
    by (simp add: t board_validate_def fixed_of_empty cards_validate_fixed_of)
  have cards: "table_cards t = []" by (simp add: t table_cards_def seat_empty_def)
  have ledger: "validate_ledger t = Inr ()"
    by (simp add: validate_ledger_def t deck_default_def ledger_iter_default)
  have fold: "try_fold (\<lambda>_ k. validate_seat_at G t k) () [0..<length (t_seats t)] = Inr ()"
    using seats by (simp only: try_fold_unit_Inr)
  have proj: "t_acted_mask t = 0" "t_leave_after_hand_mask t = 0" "t_button t = 0" "t_last_bb_seat t = NO_SEAT"
    "t_hand_phase t = PhaseWaiting" "t_run_it_twice_state t = Single"
    "ds_reconstruct_accumulated (t_deck_state t) = None" "padding_seats_are_vacant t"
    by (simp_all add: t deck_default_def padding_seats_are_vacant_def list_all_iff)
  show ?thesis
    unfolding validate_state_schema_def using rules zero mp agg board ledger b fold proj
    by (simp add: cards validate_cards_def validate_hand_phase_def table_shuffle_state_def shuffle_default_def
        validate_mask_def reveal_assignments_def reveal_token_state_def reconstruct_pending_def)
qed

theorem validated_table_sound_witness:
  "\<exists>t. table_new [] [1] 6 1 2 = Inr t \<and> validate_state_schema demo_group t = Inr () \<and> t_button t < max_players t"
proof -
  obtain t :: "unit table" where t: "table_new [] [1] 6 1 2 = Inr t" by (simp add: table_new_def)
  from validated_table_sound [OF table_new_valid [OF t, of demo_group]] table_new_valid [OF t] t
  show ?thesis by blast
qed

text \<open>
  Arming deadlines: normalisation arms exactly the phases whose deadline is still the
  placeholder zero, with the current time plus the configured duration, without overflow, and
  changes nothing else; afterwards no active phase has an unarmed deadline.
\<close>

theorem arm_deadline_exact:
  assumes "arm_active_deadline_if_needed now t = Inr (t', armed)"
  shows "armed = (phase_deadline t = Some 0) \<and> phase_deadline t' \<noteq> Some 0 \<and>
    (armed \<longrightarrow> phase_deadline t' = Some (now + phase_timeout t) \<and> now + phase_timeout t < 2 ^ 64) \<and>
    t' = t\<lparr>t_hand_phase := t_hand_phase t'\<rparr> \<and> phase_tag (t_hand_phase t') = phase_tag (t_hand_phase t)"
  using arm_active_cases [OF assms] by (cases armed) auto

theorem arm_deadline_exact_witness:
  "\<exists>t t'. table_new [] [1] 6 1 2 = Inr (t :: unit table) \<and>
     arm_active_deadline_if_needed 5 (t\<lparr>t_hand_phase := PhaseShowdownDisplay 0\<rparr>) = Inr (t', True) \<and>
     phase_deadline t' = Some 3005"
proof -
  obtain t :: "unit table" where t: "table_new [] [1] 6 1 2 = Inr t" by (simp add: table_new_def)
  have to: "timeouts t = timeout_default" using t by (auto simp: table_new_def rules_new_def)
  let ?t = "t\<lparr>t_hand_phase := PhaseShowdownDisplay 0\<rparr>"
  obtain t' where t': "arm_active_deadline_if_needed 5 ?t = Inr (t', True)"
    using to by (simp add: arm_active_deadline_if_needed_def arm_showdown_deadline_def showdown_deadline_ms_def
        checked_add_def timeout_default_def)
  have "phase_timeout ?t = 3000" using to by (simp add: phase_timeout_def timeout_default_def)
  with arm_deadline_exact [OF t'] t t' show ?thesis by (intro exI [of _ t] exI [of _ t']) simp
qed

end
