(* ===== verification/Poker_Events.thy ===== *)
theory Poker_Events
  imports Poker_Table
begin

text \<open>
  Events (\<^verbatim>\<open>poker_l1/.../core/events.rs\<close>) and the action types of the state machine. An operation
  of the state machine appends to a list of events, which the model threads beside the table.
\<close>

section \<open>Reasons and causes\<close>

datatype kick_cause = KickTimeout | KickAdmin | KickReconstructTimeout

definition REFUND_TYPE_STACK_ONLY :: nat where "REFUND_TYPE_STACK_ONLY = 0"
definition REFUND_TYPE_BET_ONLY :: nat where "REFUND_TYPE_BET_ONLY = 2"
definition RESET_REASON_TIMEOUT :: nat where "RESET_REASON_TIMEOUT = 0"
definition RESET_REASON_RECONSTRUCT_FAIL :: nat where "RESET_REASON_RECONSTRUCT_FAIL = 2"
definition FOLD_REASON_MANUAL :: nat where "FOLD_REASON_MANUAL = 0"
definition FOLD_REASON_AUTO_TIMEOUT :: nat where "FOLD_REASON_AUTO_TIMEOUT = 1"
definition FOLD_REASON_FORCE_ADMIN :: nat where "FOLD_REASON_FORCE_ADMIN = 2"
definition DECK_REBUILT_REASON_SHUFFLE_TIMEOUT :: nat where "DECK_REBUILT_REASON_SHUFFLE_TIMEOUT = 0"
definition DECK_REBUILT_REASON_RECONSTRUCT_COMPLETE :: nat where "DECK_REBUILT_REASON_RECONSTRUCT_COMPLETE = 1"
definition TRIGGER_ACTION_CALL_ALL_IN :: nat where "TRIGGER_ACTION_CALL_ALL_IN = 0"
definition TRIGGER_ACTION_RAISE_ALL_IN :: nat where "TRIGGER_ACTION_RAISE_ALL_IN = 1"
definition POT_TYPE_MAIN :: nat where "POT_TYPE_MAIN = 0"
definition POT_TYPE_SIDE :: nat where "POT_TYPE_SIDE = 1"

definition MIN_PLAYERS_TO_START :: nat where "MIN_PLAYERS_TO_START = 2"
definition CARDS_PER_PLAYER :: nat where "CARDS_PER_PLAYER = 2"
definition TIME_BANK_REFILL_PER_HAND_MS :: nat where "TIME_BANK_REFILL_PER_HAND_MS = 10000"

section \<open>Events\<close>

type_synonym table_id = "8 word list"

text \<open>Every event starts with the identity of its table; the fields keep the source's order.\<close>

datatype (plugins only: code size) texas_event =
    TableCreated table_id
  | PlayerJoined table_id nat address nat bool nat
  | PlayerLeft table_id nat address
  | LeaveRequested table_id nat address bool
  | HandStarted table_id nat nat nat seat_mask
  | BlindsPosted table_id nat nat nat nat nat
  | BettingRoundStarted table_id nat nat nat nat nat
  | RoundAdvanced table_id nat nat nat nat
  | PotCollected table_id nat nat seat_mask
  | WinnerAwarded table_id nat address nat nat "nat option"
  | HandSettled table_id nat seat_mask
  | HandEndedWithoutShowdown table_id nat address nat
  | HandReset table_id nat nat
  | PlayerFolded table_id nat nat nat
  | PlayerChecked table_id nat nat
  | PlayerCalled table_id nat nat nat
  | PlayerRaised table_id nat nat nat nat
  | PlayerAllIn table_id nat nat nat nat
  | ShuffleVerified table_id nat address
  | ShuffleTurn table_id nat nat nat
  | ShuffleComplete table_id nat nat nat
  | ShuffleTimeout table_id nat nat nat nat
  | RevealPhase table_id nat
  | RevealTokenSubmitted table_id nat nat nat
  | RevealPhaseComplete table_id nat
  | RevealTimeout table_id nat seat_mask
  | CommunityCardRevealed table_id nat "nat list" "nat list" "nat list" nat
  | ShowdownHoleCardsRevealed table_id nat address "nat list" "nat list" "nat list"
  | ReconstructInitiated table_id seat_mask nat
  | ReconstructDeckSubmitted table_id nat
  | ReconstructComplete table_id
  | ReconstructTimeout table_id seat_mask
  | PlayerKicked table_id nat address kick_cause
  | PlayerRefund table_id nat address nat nat
  | DeckRebuilt table_id nat nat
  | CurrentTurnChanged table_id "nat option" "nat option" nat
  | AddonRequested table_id nat address nat nat
  | AddonCredited table_id nat address nat nat
  | RebuyProcessed table_id nat address nat nat
  | PlayerBet table_id nat nat nat
  | TimeBankConsumed table_id nat nat nat
  | AntePosted table_id nat nat nat
  | RakeCollected table_id nat nat nat nat
  | RunItTwiceTriggered table_id nat nat
  | SettlementPlanCommitted table_id "8 word list" nat nat nat nat

type_synonym events = "texas_event list"

definition emit_event :: "texas_event \<Rightarrow> events \<Rightarrow> events" where
  "emit_event e es = es @ [e]"

lemma emit_event_simps [simp]: "set (emit_event e es) = insert e (set es)" "length (emit_event e es) = Suc (length es)"
  by (auto simp: emit_event_def)

section \<open>Actions\<close>

datatype player_action = Fold nat | MatchBet | RaiseTo nat

datatype fund_timing = NextHand | Immediate

datatype normalization_step =
  NCompleteReconstruct | NAdvanceShuffle | NCompleteReveal | NEndWithoutShowdown | NAdvanceBettingRound

definition MAX_NORMALIZATION_STEPS :: nat where "MAX_NORMALIZATION_STEPS = 32"

datatype deadline_kind = DeadReconstruct | DeadShuffle | DeadReveal | DeadBetting | DeadShowdownDisplay

datatype deadline_outcome =
    NoDeadline
  | NotDue deadline_kind nat nat
  | TimeBankExtended nat nat
  | Advanced deadline_kind nat

end
