(* ===== verification/Poker_SidePot.thy ===== *)
theory Poker_SidePot
  imports Poker_Masks "HOL-Library.Product_Lexorder"
begin

text \<open>
  Side pots (\<^verbatim>\<open>poker_l1/.../core/side_pot.rs\<close>): the bets of a hand are cut into layers at the
  all-in levels. The code finds the levels without sorting, by counting the rank of each
  all-in bet and writing it into a fixed slot; the result is a fixed array of nine pots.
  Arrays are lists of length nine. An index out of range, a panic in the source, is the
  error \<open>IndexPanic\<close>, which is proved never to happen.
\<close>

section \<open>Data and operations\<close>

definition MAX_TOTAL_BET :: nat where "MAX_TOTAL_BET = 1000000000000000000"

definition MAX_SIDE_POTS :: nat where "MAX_SIDE_POTS = 9"

definition is_eligible :: "16 word \<Rightarrow> nat \<Rightarrow> bool" where
  "is_eligible m seat \<longleftrightarrow> m AND seat_mask_bit seat \<noteq> 0"

record side_pot =
  sp_amount :: nat
  sp_eligible :: "16 word"

definition side_pot_new :: "nat \<Rightarrow> 16 word \<Rightarrow> side_pot" where
  "side_pot_new a e = \<lparr>sp_amount = a, sp_eligible = e\<rparr>"

datatype side_pot_error = BetOverflow | LengthMismatch | IndexPanic

record side_pot_result =
  spr_pots :: "side_pot list"
  spr_count :: nat

definition spr_active :: "side_pot_result \<Rightarrow> side_pot list" where
  "spr_active r = take (spr_count r) (spr_pots r)"

definition spr_total :: "side_pot_result \<Rightarrow> nat" where
  "spr_total r = fold (\<lambda>p s. u64_add s (sp_amount p)) (spr_pots r) 0"

definition sum_bets :: "nat list \<Rightarrow> side_pot_error + nat" where
  "sum_bets bets =
     try_fold (\<lambda>acc bet. rbind (ok_or (checked_add acc bet) BetOverflow) (\<lambda>acc'.
        if acc' > MAX_TOTAL_BET then Inl BetOverflow else Inr acc')) 0 bets"

text \<open>The rank of an all-in bet: the smaller ones, and the equal ones of lower seats.\<close>

definition level_rank :: "nat list \<Rightarrow> bool list \<Rightarrow> nat \<Rightarrow> nat" where
  "level_rank bets all_in j =
     fold (\<lambda>k rank.
        if k = j \<or> \<not> all_in ! k \<or> bets ! k = 0 then rank
        else if bets ! k < bets ! j \<or> (bets ! k = bets ! j \<and> k < j) then Suc rank
        else rank) [0..<length bets] 0"

definition place_levels :: "nat list \<Rightarrow> bool list \<Rightarrow> nat list" where
  "place_levels bets all_in =
     fold (\<lambda>j levels.
        if \<not> all_in ! j \<or> bets ! j = 0 then levels
        else levels[level_rank bets all_in j := bets ! j])
       [0..<length bets] (replicate MAX_SIDE_POTS 0)"

definition slice_layer :: "nat list \<Rightarrow> bool list \<Rightarrow> nat \<Rightarrow> nat \<Rightarrow> nat \<times> 16 word" where
  "slice_layer bets folded prev_level level =
     fold (\<lambda>j (amount, eligible).
        if bets ! j > prev_level then
          let cap = (if bets ! j < level then bets ! j else level)
          in (u64_add amount (cap - prev_level),
              if \<not> folded ! j then eligible OR seat_mask_bit j else eligible)
        else (amount, eligible)) [0..<length bets] (0, 0)"

definition record_layer ::
    "side_pot list \<times> nat \<Rightarrow> nat \<Rightarrow> 16 word \<Rightarrow> side_pot_error + (side_pot list \<times> nat)" where
  "record_layer ps amount eligible =
     (let (pots, count) = ps in
      if amount = 0 then Inr (pots, count)
      else if eligible = 0 \<and> count > 0 then
        Inr (pots[count - 1 := (pots ! (count - 1))\<lparr>sp_amount := u64_add (sp_amount (pots ! (count - 1))) amount\<rparr>], count)
      else if count \<ge> length pots then Inl IndexPanic
      else Inr (pots[count := side_pot_new amount eligible], count + 1))"

text \<open>One pass of the slicing loop: empty and repeated levels are skipped.\<close>

definition slice_step ::
    "nat list \<Rightarrow> bool list \<Rightarrow> (side_pot list \<times> nat) \<times> nat \<Rightarrow> nat \<Rightarrow>
     side_pot_error + ((side_pot list \<times> nat) \<times> nat)" where
  "slice_step bets folded st level =
     (let (ps, prev_level) = st in
      if level = 0 \<or> level \<le> prev_level then Inr (ps, prev_level)
      else let (amount, eligible) = slice_layer bets folded prev_level level
           in rbind (record_layer ps amount eligible) (\<lambda>ps'. Inr (ps', level)))"

definition calculate_side_pots ::
    "nat list \<Rightarrow> bool list \<Rightarrow> bool list \<Rightarrow> side_pot_error + side_pot_result" where
  "calculate_side_pots bets folded all_in =
     (let n = length bets in
      if length folded \<noteq> n \<or> length all_in \<noteq> n then Inl LengthMismatch
      else if n > MAX_SIDE_POTS then Inl LengthMismatch
      else rbind (sum_bets bets) (\<lambda>total_pot.
        let levels = place_levels bets all_in in
        rbind (try_fold (slice_step bets folded)
                 ((replicate MAX_SIDE_POTS (side_pot_new 0 0), 0), 0) levels) (\<lambda>(ps, prev_level).
        rbind (if prev_level < total_pot then
                 (let (amount, eligible) = slice_layer bets folded prev_level u64_max
                  in record_layer ps amount eligible)
               else Inr ps) (\<lambda>(pots, pot_count).
        if pot_count = 0 then
          Inr \<lparr>spr_pots = pots[0 := side_pot_new total_pot 0], spr_count = 1\<rparr>
        else Inr \<lparr>spr_pots = pots, spr_count = pot_count\<rparr>))))"

text \<open>
  The reference of the module's own differential test: collect, sort, cut, with a growing
  vector of pots.
\<close>

definition push_or_merge :: "side_pot list \<Rightarrow> nat \<Rightarrow> 16 word \<Rightarrow> side_pot list" where
  "push_or_merge pots amount eligible =
     (if amount = 0 then pots
      else if eligible = 0 \<and> pots \<noteq> [] then
        butlast pots @ [(last pots)\<lparr>sp_amount := u64_add (sp_amount (last pots)) amount\<rparr>]
      else pots @ [side_pot_new amount eligible])"

definition reference_levels :: "nat list \<Rightarrow> bool list \<Rightarrow> nat list" where
  "reference_levels bets all_in =
     sort (map (\<lambda>j. bets ! j) (filter (\<lambda>j. all_in ! j \<and> bets ! j > 0) [0..<length bets]))"

definition reference_step ::
    "nat list \<Rightarrow> bool list \<Rightarrow> side_pot list \<times> nat \<Rightarrow> nat \<Rightarrow> side_pot list \<times> nat" where
  "reference_step bets folded st level =
     (let (pots, prev_level) = st in
      if level \<le> prev_level then (pots, prev_level)
      else let (amount, eligible) = slice_layer bets folded prev_level level
           in (push_or_merge pots amount eligible, level))"

definition reference_side_pots :: "nat list \<Rightarrow> bool list \<Rightarrow> bool list \<Rightarrow> side_pot_result" where
  "reference_side_pots bets folded all_in =
     (let total_pot = sum_list bets;
          (pots, prev_level) = foldl (reference_step bets folded) ([], 0) (reference_levels bets all_in);
          pots = (if prev_level < total_pot then
                    (let (amount, eligible) = slice_layer bets folded prev_level u64_max
                     in push_or_merge pots amount eligible)
                  else pots);
          pots = (if pots = [] then [side_pot_new total_pot 0] else pots)
      in \<lparr>spr_pots = pots @ replicate (MAX_SIDE_POTS - length pots) (side_pot_new 0 0),
          spr_count = length pots\<rparr>)"

section \<open>The levels are the sorted all-in bets\<close>

text \<open>The all-in seats with a bet, as keys of the order that breaks ties by seat.\<close>

definition level_keys :: "nat list \<Rightarrow> bool list \<Rightarrow> (nat \<times> nat) set" where
  "level_keys bets all_in = {(bets ! j, j) | j. j < length bets \<and> all_in ! j \<and> bets ! j \<noteq> 0}"

lemma finite_level_keys [simp]: "finite (level_keys bets all_in)"
proof -
  have "level_keys bets all_in \<subseteq> (\<lambda>j. (bets ! j, j)) ` {..<length bets}"
    by (auto simp: level_keys_def)
  then show ?thesis by (rule finite_subset) simp
qed

lemma fold_count:
  "fold (\<lambda>k (rank::nat). if P k then Suc rank else rank) xs r = r + length (filter P xs)"
  by (induction xs arbitrary: r) auto

lemma level_rank_card:
  "level_rank bets all_in j = card {x \<in> level_keys bets all_in. x < (bets ! j, j)}"
proof -
  let ?P = "\<lambda>k. all_in ! k \<and> bets ! k \<noteq> 0 \<and> (bets ! k < bets ! j \<or> bets ! k = bets ! j \<and> k < j)"
  have "level_rank bets all_in j = fold (\<lambda>k rank. if ?P k then Suc rank else rank) [0..<length bets] 0"
    unfolding level_rank_def by (rule fold_cong) (auto intro!: ext)
  also have "\<dots> = card (set (filter ?P [0..<length bets]))"
    by (simp add: fold_count distinct_card del: set_filter)
  also have "\<dots> = card ((\<lambda>k. (bets ! k, k)) ` set (filter ?P [0..<length bets]))"
    by (rule card_image [symmetric]) (auto simp: inj_on_def)
  also have "(\<lambda>k. (bets ! k, k)) ` set (filter ?P [0..<length bets]) =
      {x \<in> level_keys bets all_in. x < (bets ! j, j)}"
    by (auto simp: level_keys_def less_prod_def image_iff)
  finally show ?thesis .
qed

lemma strict_sorted_nth_rank:
  assumes "sorted_wrt (<) xs" and "i < length xs"
  shows "card {x \<in> set xs. x < (xs ! i :: 'a :: linorder)} = i"
proof -
  have "{x \<in> set xs. x < xs ! i} = (\<lambda>k. xs ! k) ` {..<i}"
  proof (intro equalityI subsetI)
    fix x assume "x \<in> {x \<in> set xs. x < xs ! i}"
    then obtain k where k: "k < length xs" "x = xs ! k" "xs ! k < xs ! i"
      by (auto simp: in_set_conv_nth)
    then have "k < i" using assms
      by (metis less_asym nat_neq_iff less_irrefl sorted_wrt_nth_less)
    with k show "x \<in> (\<lambda>k. xs ! k) ` {..<i}" by auto
  next
    fix x assume "x \<in> (\<lambda>k. xs ! k) ` {..<i}"
    with assms show "x \<in> {x \<in> set xs. x < xs ! i}"
      by (auto intro: sorted_wrt_nth_less)
  qed
  moreover have "inj_on (\<lambda>k. xs ! k) {..<i}"
    using assms by (intro inj_on_nth) (auto simp: strict_sorted_iff)
  ultimately show ?thesis by (simp add: card_image)
qed

text \<open>The sorted keys: their first components are the sorted all-in bets.\<close>

abbreviation level_list :: "nat list \<Rightarrow> bool list \<Rightarrow> (nat \<times> nat) list" where
  "level_list bets all_in \<equiv> sorted_list_of_set (level_keys bets all_in)"

lemma reference_levels_eq: "reference_levels bets all_in = map fst (level_list bets all_in)"
proof -
  let ?js = "filter (\<lambda>j. all_in ! j \<and> bets ! j > 0) [0..<length bets]"
  let ?ks = "map (\<lambda>j. (bets ! j, j)) ?js"
  have keys: "set ?ks = level_keys bets all_in" by (auto simp: level_keys_def)
  have "distinct ?ks" by (auto simp: distinct_map inj_on_def)
  then have m: "mset ?ks = mset (level_list bets all_in)"
    using keys by (intro iffD1 [OF set_eq_iff_mset_eq_distinct]) auto
  have "sorted (map fst (level_list bets all_in))"
  proof -
    have "sorted_wrt (\<le>) (level_list bets all_in)" by (rule sorted_sorted_list_of_set)
    then have "sorted_wrt (\<lambda>x y. fst x \<le> fst y) (level_list bets all_in)"
      by (rule sorted_wrt_mono_rel [rotated]) (auto simp: less_eq_prod_def)
    then show ?thesis by (simp only: sorted_wrt_map)
  qed
  moreover have "mset (map fst (level_list bets all_in)) = mset (map (\<lambda>j. bets ! j) ?js)"
  proof -
    have "mset (map fst (level_list bets all_in)) = mset (map fst ?ks)"
      using m by (simp only: mset_map)
    also have "map fst ?ks = map (\<lambda>j. bets ! j) ?js" by simp
    finally show ?thesis .
  qed
  ultimately show ?thesis
    unfolding reference_levels_def by (metis properties_for_sort mset_sort)
qed

lemma length_level_list: "length (level_list bets all_in) \<le> length bets"
proof -
  have "card (level_keys bets all_in) \<le> card ((\<lambda>j. (bets ! j, j)) ` {..<length bets})"
    by (rule card_mono) (auto simp: level_keys_def)
  also have "\<dots> \<le> length bets" using card_image_le [of "{..<length bets}"] by fastforce
  finally show ?thesis by simp
qed

lemma nth_level_rank:
  assumes "j < length bets" "all_in ! j" "bets ! j \<noteq> 0"
  shows "level_rank bets all_in j < length (level_list bets all_in)"
    and "level_list bets all_in ! level_rank bets all_in j = (bets ! j, j)"
proof -
  have "(bets ! j, j) \<in> set (level_list bets all_in)" using assms by (auto simp: level_keys_def)
  then obtain p where p: "p < length (level_list bets all_in)" "level_list bets all_in ! p = (bets ! j, j)"
    by (metis in_set_conv_nth)
  have "card {x \<in> set (level_list bets all_in). x < level_list bets all_in ! p} = p"
    by (rule strict_sorted_nth_rank) (use p in auto)
  then have "level_rank bets all_in j = p" using p by (simp add: level_rank_card)
  with p show "level_rank bets all_in j < length (level_list bets all_in)"
    "level_list bets all_in ! level_rank bets all_in j = (bets ! j, j)" by auto
qed

lemma length_place_levels [simp]: "length (place_levels bets all_in) = 9"
proof -
  have "length (fold (\<lambda>j ls. if \<not> all_in ! j \<or> bets ! j = 0 then ls else ls[f j := bets ! j]) js ls) = length ls"
    for f js and ls :: "nat list"
    by (induction js arbitrary: ls) auto
  then show ?thesis by (simp add: place_levels_def MAX_SIDE_POTS_def)
qed

lemma fold_place:
  assumes "p < length ls" and "\<And>j. j \<in> set js \<Longrightarrow> \<not> Q j \<Longrightarrow> r j = p \<Longrightarrow> b j = v"
  shows "fold (\<lambda>j ls. if Q j then ls else ls[r j := b j]) js ls ! p =
    (if \<exists>j\<in>set js. \<not> Q j \<and> r j = p then v else ls ! p)"
  using assms
proof (induction js arbitrary: ls)
  case Nil
  then show ?case by simp
next
  case (Cons j js)
  show ?case
  proof (cases "Q j")
    case True
    then show ?thesis using Cons.IH [of ls] Cons.prems by auto
  next
    case False
    then have IH: "fold (\<lambda>j ls. if Q j then ls else ls[r j := b j]) js (ls[r j := b j]) ! p =
        (if \<exists>j\<in>set js. \<not> Q j \<and> r j = p then v else ls[r j := b j] ! p)"
      using Cons.prems by (intro Cons.IH) auto
    show ?thesis
      using False Cons.prems by (simp add: IH) (auto simp: nth_list_update)
  qed
qed

lemma place_levels_eq:
  assumes "length bets \<le> 9"
  shows "place_levels bets all_in =
    reference_levels bets all_in @ replicate (9 - length (reference_levels bets all_in)) 0"
proof (rule nth_equalityI)
  let ?L = "level_list bets all_in"
  have len: "length ?L \<le> 9" using length_level_list [of bets all_in] assms by linarith
  then show "length (place_levels bets all_in) = length (reference_levels bets all_in @
      replicate (9 - length (reference_levels bets all_in)) 0)"
    by (simp add: reference_levels_eq)
  fix p assume "p < length (place_levels bets all_in)"
  then have p: "p < 9" by simp
  let ?v = "if p < length ?L then fst (?L ! p) else 0"
  have uniq: "bets ! j = ?v" if "j < length bets" "\<not> (\<not> all_in ! j \<or> bets ! j = 0)" "level_rank bets all_in j = p" for j
    using nth_level_rank [of j bets all_in] that by auto
  have "place_levels bets all_in ! p =
      (if \<exists>j\<in>set [0..<length bets]. \<not> (\<not> all_in ! j \<or> bets ! j = 0) \<and> level_rank bets all_in j = p
       then ?v else replicate MAX_SIDE_POTS 0 ! p)"
    unfolding place_levels_def
    by (rule fold_place) (use p uniq in \<open>auto simp: MAX_SIDE_POTS_def\<close>)
  moreover have "\<exists>j\<in>set [0..<length bets]. \<not> (\<not> all_in ! j \<or> bets ! j = 0) \<and> level_rank bets all_in j = p"
    if pl: "p < length ?L"
  proof -
    have "?L ! p \<in> set ?L" using pl by (rule nth_mem)
    then obtain j where j: "?L ! p = (bets ! j, j)" "j < length bets" "all_in ! j" "bets ! j \<noteq> 0"
      by (auto simp: level_keys_def)
    have "card {x \<in> set ?L. x < ?L ! p} = p"
      by (rule strict_sorted_nth_rank [OF strict_sorted_list_of_set pl])
    then have "level_rank bets all_in j = p" using j by (simp add: level_rank_card)
    with j show ?thesis by auto
  qed
  ultimately have "place_levels bets all_in ! p = ?v" using p by (auto simp: MAX_SIDE_POTS_def)
  then show "place_levels bets all_in ! p = (reference_levels bets all_in @
      replicate (9 - length (reference_levels bets all_in)) 0) ! p"
    using p len by (auto simp: reference_levels_eq nth_append)
qed

section \<open>One layer\<close>

text \<open>What the bets hold below a level.\<close>

definition contrib :: "nat list \<Rightarrow> nat \<Rightarrow> nat" where
  "contrib bets l = sum_list (map (\<lambda>b. min b l) bets)"

definition layer_members :: "nat list \<Rightarrow> bool list \<Rightarrow> nat \<Rightarrow> nat set" where
  "layer_members bets folded prev = {j. j < length bets \<and> bets ! j > prev \<and> \<not> folded ! j}"

lemma contrib_0 [simp]: "contrib bets 0 = 0"
  by (simp add: contrib_def)

lemma contrib_le_sum: "contrib bets l \<le> sum_list bets"
  using sum_list_pointwise_le [of bets "\<lambda>b. min b l" "\<lambda>b. b"] by (simp add: contrib_def)

lemma contrib_all: "(\<And>b. b \<in> set bets \<Longrightarrow> b \<le> l) \<Longrightarrow> contrib bets l = sum_list bets"
  by (induction bets) (auto simp: contrib_def)

lemma contrib_mono: "l \<le> l' \<Longrightarrow> contrib bets l \<le> contrib bets l'"
  unfolding contrib_def by (rule sum_list_pointwise_le) auto

lemma contrib_strict:
  "l < l' \<Longrightarrow> b \<in> set bets \<Longrightarrow> l < b \<Longrightarrow> contrib bets l < contrib bets l'"
proof (induction bets)
  case (Cons c bets)
  have mono: "contrib bets l \<le> contrib bets l'" using Cons.prems by (intro contrib_mono) simp
  show ?case
  proof (cases "b = c")
    case True
    with Cons.prems mono show ?thesis unfolding contrib_def by (simp add: min_def split: if_splits)
  next
    case False
    with Cons have "contrib bets l < contrib bets l'" by auto
    then show ?thesis using Cons.prems unfolding contrib_def by (auto intro!: add_le_less_mono)
  qed
qed simp

lemma contrib_eq_0_iff: "contrib bets l = 0 \<longleftrightarrow> l = 0 \<or> sum_list bets = 0"
  by (induction bets) (auto simp: contrib_def)

lemma slice_layer_fold:
  assumes "prev \<le> level" and "a + sum_list (map (\<lambda>j. min (bets ! j) level - min (bets ! j) prev) js) < u64_bound"
  shows "fold (\<lambda>j (amount, eligible).
        if bets ! j > prev then
          let cap = (if bets ! j < level then bets ! j else level)
          in (u64_add amount (cap - prev),
              if \<not> folded ! j then eligible OR seat_mask_bit j else eligible)
        else (amount, eligible)) js (a, e) =
    (a + sum_list (map (\<lambda>j. min (bets ! j) level - min (bets ! j) prev) js),
     fold (\<lambda>j e. if bets ! j > prev \<and> \<not> folded ! j then e OR seat_mask_bit j else e) js e)"
  using assms(2)
proof (induction js arbitrary: a e)
  case Nil
  then show ?case by simp
next
  case (Cons j js)
  show ?case
  proof (cases "bets ! j > prev")
    case True
    let ?c = "(if bets ! j < level then bets ! j else level) - prev"
    have c: "min (bets ! j) level - min (bets ! j) prev = ?c" using True by auto
    have "u64_add a ?c = a + ?c" using Cons.prems c by (intro u64_add_exact) auto
    then show ?thesis using True Cons.IH [of "a + ?c"] Cons.prems c by (simp add: Let_def)
  next
    case False
    then show ?thesis using Cons.IH [of a] Cons.prems assms(1) by (simp add: min_def)
  qed
qed

lemma bit_fold_or:
  "bit (fold (\<lambda>j e. if P j then e OR seat_mask_bit j else e) js e) i \<longleftrightarrow>
     bit e i \<or> i \<in> set js \<and> P i \<and> i < 16"
  by (induction js arbitrary: e) (auto simp: mask_simps)

lemma slice_layer_eq:
  assumes "prev \<le> level" and "sum_list bets < u64_bound" and "length bets \<le> 9"
  shows "fst (slice_layer bets folded prev level) = contrib bets level - contrib bets prev"
    and "{i. bit (snd (slice_layer bets folded prev level)) i} = layer_members bets folded prev"
proof -
  have "sum_list (map (\<lambda>b. min b level - min b prev) bets) = contrib bets level - contrib bets prev"
    if "sum_list (map (\<lambda>b. min b prev) bets) \<le> sum_list (map (\<lambda>b. min b level) bets)" for bets
  proof -
    have "sum_list (map (\<lambda>b. min b level - min b prev) bets) + contrib bets prev = contrib bets level"
      using assms(1) by (induction bets) (auto simp: contrib_def)
    then show ?thesis by linarith
  qed
  moreover have "map (\<lambda>j. min (bets ! j) level - min (bets ! j) prev) [0..<length bets] =
      map (\<lambda>b. min b level - min b prev) bets"
    by (rule nth_equalityI) auto
  ultimately have s: "sum_list (map (\<lambda>j. min (bets ! j) level - min (bets ! j) prev) [0..<length bets]) =
      contrib bets level - contrib bets prev"
    using contrib_mono [OF assms(1), of bets] unfolding contrib_def by simp
  have "slice_layer bets folded prev level = (contrib bets level - contrib bets prev,
      fold (\<lambda>j e. if bets ! j > prev \<and> \<not> folded ! j then e OR seat_mask_bit j else e) [0..<length bets] 0)"
    unfolding slice_layer_def
    using slice_layer_fold [OF assms(1), of 0 bets "[0..<length bets]" folded 0] s
      contrib_le_sum [of bets level] assms(2) by (simp cong: if_cong)
  then show "fst (slice_layer bets folded prev level) = contrib bets level - contrib bets prev"
    "{i. bit (snd (slice_layer bets folded prev level)) i} = layer_members bets folded prev"
    using assms(3) by (auto simp: bit_fold_or layer_members_def)
qed

section \<open>The fixed array refines the growing vector\<close>

definition pad_pots :: "side_pot list \<Rightarrow> side_pot list" where
  "pad_pots ps = ps @ replicate (9 - length ps) (side_pot_new 0 0)"

lemma pad_pots_append:
  assumes "length ps < 9"
  shows "(pad_pots ps)[length ps := q] = pad_pots (ps @ [q])"
proof -
  obtain k where k: "9 - length ps = Suc k" "9 - Suc (length ps) = k"
    using assms by (metis Suc_diff_Suc)
  then show ?thesis by (simp add: pad_pots_def list_update_append)
qed

lemma pad_pots_update_last:
  assumes "ps \<noteq> []"
  shows "(pad_pots ps)[length ps - 1 := q] = pad_pots (butlast ps @ [q])"
    and "pad_pots ps ! (length ps - 1) = last ps"
  using assms
  by (cases ps rule: rev_cases; simp add: pad_pots_def list_update_append nth_append)+

lemma record_layer_refines:
  assumes "length ps < 9 \<or> amount = 0 \<or> eligible = 0" and "length ps \<le> 9"
  shows "record_layer (pad_pots ps, length ps) amount eligible =
    Inr (pad_pots (push_or_merge ps amount eligible), length (push_or_merge ps amount eligible))"
proof -
  have len: "length (pad_pots ps) = 9" using assms(2) by (simp add: pad_pots_def)
  show ?thesis
    using assms pad_pots_update_last [of ps] pad_pots_append [of ps]
    by (auto simp: record_layer_def push_or_merge_def len)
qed

lemma length_push_or_merge: "length (push_or_merge ps a e) \<le> Suc (length ps)"
  by (auto simp: push_or_merge_def)

lemma slice_refines:
  assumes "length ps + length ls \<le> 9" and "0 \<notin> set ls"
  shows "try_fold (slice_step bets folded) ((pad_pots ps, length ps), prev) ls =
    (let (ps', prev') = foldl (reference_step bets folded) (ps, prev) ls
     in Inr ((pad_pots ps', length ps'), prev')) \<and>
    length (fst (foldl (reference_step bets folded) (ps, prev) ls)) \<le> length ps + length ls"
  using assms
proof (induction ls arbitrary: ps prev)
  case Nil
  then show ?case by simp
next
  case (Cons l ls)
  show ?case
  proof (cases "l \<le> prev")
    case True
    then show ?thesis using Cons.IH [of ps prev] Cons.prems
      by (auto simp: slice_step_def reference_step_def)
  next
    case False
    obtain a e where ae: "slice_layer bets folded prev l = (a, e)" by fastforce
    let ?ps = "push_or_merge ps a e"
    have st: "slice_step bets folded ((pad_pots ps, length ps), prev) l = Inr ((pad_pots ?ps, length ?ps), l)"
      using Cons.prems False record_layer_refines [of ps a e] by (simp add: slice_step_def ae)
    have "length ?ps + length ls \<le> 9" "0 \<notin> set ls"
      using Cons.prems length_push_or_merge [of ps a e] by auto
    note IH = Cons.IH [OF this, of l]
    have rf: "reference_step bets folded (ps, prev) l = (?ps, l)"
      using False by (simp add: reference_step_def ae)
    show ?thesis
      using IH length_push_or_merge [of ps a e] by (simp add: st rf)
  qed
qed

lemma slice_zeros:
  "try_fold (slice_step bets folded) st (replicate k 0) = Inr st"
  by (induction k) (auto simp: slice_step_def split: prod.splits)

lemma snd_reference_fold: "snd (foldl (reference_step bets folded) (ps, prev) ls) = foldl max prev ls"
proof (induction ls arbitrary: ps prev)
  case Nil
  then show ?case by simp
next
  case (Cons l ls)
  have "snd (reference_step bets folded (ps, prev) l) = max prev l"
    by (auto simp: reference_step_def max_def split: prod.splits)
  then show ?case using Cons [of "fst (reference_step bets folded (ps, prev) l)" "max prev l"]
    by (metis foldl_Cons prod.collapse)
qed

lemma le_foldl_max: "prev \<le> foldl max prev ls \<and> (\<forall>l\<in>set ls. l \<le> foldl max (prev :: nat) ls)"
proof (induction ls arbitrary: prev)
  case (Cons l ls)
  from Cons [of "max prev l"] show ?case by auto
qed simp

lemma sum_bets_eq:
  "sum_bets bets = (if sum_list bets \<le> MAX_TOTAL_BET then Inr (sum_list bets) else Inl BetOverflow)"
proof -
  have "a \<le> MAX_TOTAL_BET \<Longrightarrow> try_fold (\<lambda>acc bet. rbind (ok_or (checked_add acc bet) BetOverflow) (\<lambda>acc'.
        if acc' > MAX_TOTAL_BET then Inl BetOverflow else Inr acc')) a bets =
      (if a + sum_list bets \<le> MAX_TOTAL_BET then Inr (a + sum_list bets) else Inl BetOverflow)" for a
  proof (induction bets arbitrary: a)
    case Nil
    then show ?case by simp
  next
    case (Cons b bets)
    then show ?case by (auto simp: checked_add_def MAX_TOTAL_BET_def)
  qed
  from this [of 0] show ?thesis by (simp add: sum_bets_def)
qed

lemma reference_levels_facts:
  "0 \<notin> set (reference_levels bets all_in)"
  "sorted (reference_levels bets all_in)"
  "set (reference_levels bets all_in) = {bets ! j | j. j < length bets \<and> all_in ! j \<and> bets ! j > 0}"
  "length (reference_levels bets all_in) \<le> length bets"
  by (auto simp: reference_levels_def intro: order_trans [OF length_filter_le])

lemma full_levels:
  assumes "length (reference_levels bets all_in) = length bets" and "b \<in> set bets"
  shows "b \<in> set (reference_levels bets all_in)"
proof -
  obtain j where j: "j < length bets" "b = bets ! j" using assms(2) by (auto simp: in_set_conv_nth)
  have "length (filter (\<lambda>j. all_in ! j \<and> bets ! j > 0) [0..<length bets]) = length [0..<length bets]"
    using assms(1) by (simp add: reference_levels_def)
  then have "\<forall>j \<in> set [0..<length bets]. all_in ! j \<and> bets ! j > 0"
    by (metis (no_types, lifting) length_filter_less nat_neq_iff)
  with j show ?thesis by (auto simp: reference_levels_facts)
qed

lemma slice_layer_0:
  assumes "\<And>b. b \<in> set bets \<Longrightarrow> b \<le> prev"
  shows "slice_layer bets folded prev level = (0, 0)"
proof -
  have "fold (\<lambda>j (amount, eligible).
        if bets ! j > prev then
          let cap = (if bets ! j < level then bets ! j else level)
          in (u64_add amount (cap - prev),
              if \<not> folded ! j then eligible OR seat_mask_bit j else eligible)
        else (amount, eligible)) js (a, e) = (a, e)" if "\<forall>j\<in>set js. \<not> bets ! j > prev" for js a e
    using that by (induction js arbitrary: a e) auto
  moreover have "\<forall>j\<in>set [0..<length bets]. \<not> bets ! j > prev" using assms by (auto simp: not_less)
  ultimately show ?thesis by (simp add: slice_layer_def)
qed

lemma reference_levels_all:
  "length (reference_levels bets all_in) \<ge> length bets \<Longrightarrow> b \<in> set bets \<Longrightarrow>
   b \<le> foldl max 0 (reference_levels bets all_in)"
  using full_levels [of bets all_in b] le_foldl_max [of 0] reference_levels_facts(4) [of bets all_in]
  by auto

lemma calculate_eq:
  assumes "length folded = length bets" "length all_in = length bets" "length bets \<le> 9"
    and "sum_list bets \<le> MAX_TOTAL_BET"
  shows "calculate_side_pots bets folded all_in = Inr (reference_side_pots bets folded all_in)"
proof -
  let ?L = "reference_levels bets all_in"
  obtain ps prev where fl: "foldl (reference_step bets folded) ([], 0) ?L = (ps, prev)" by fastforce
  have prev: "prev = foldl max 0 ?L" using snd_reference_fold [of bets folded "[]" 0 ?L] fl by simp
  have lenL: "length ?L \<le> 9" using reference_levels_facts(4) [of bets all_in] assms(3) by linarith
  have sr: "try_fold (slice_step bets folded) ((pad_pots [], 0), 0) ?L = Inr ((pad_pots ps, length ps), prev)"
    and len: "length ps \<le> length ?L"
    using slice_refines [of "[]" ?L bets folded 0] lenL reference_levels_facts(1) [of bets all_in] fl by auto
  have tf: "try_fold (slice_step bets folded) ((replicate MAX_SIDE_POTS (side_pot_new 0 0), 0), 0)
      (place_levels bets all_in) = Inr ((pad_pots ps, length ps), prev)"
    using sr by (simp add: place_levels_eq assms(3) try_fold_append slice_zeros)
      (simp add: pad_pots_def MAX_SIDE_POTS_def)
  define q where "q = (if prev < sum_list bets then
      (let (a, e) = slice_layer bets folded prev u64_max in push_or_merge ps a e) else ps)"
  have outer: "(if prev < sum_list bets then
      (let (a, e) = slice_layer bets folded prev u64_max in record_layer (pad_pots ps, length ps) a e)
      else Inr (pad_pots ps, length ps)) = Inr (pad_pots q, length q)"
  proof (cases "length ps < 9")
    case True
    then show ?thesis by (auto simp: q_def record_layer_refines split: prod.split)
  next
    case False
    then have "slice_layer bets folded prev u64_max = (0, 0)"
      using len lenL assms(3) reference_levels_all [of bets all_in] reference_levels_facts(4) [of bets all_in]
      by (intro slice_layer_0) (simp add: prev)
    then show ?thesis using len lenL by (simp add: q_def record_layer_refines)
  qed
  have "(pad_pots [])[0 := x] = pad_pots [x]" for x by (simp add: pad_pots_def eval_nat_numeral)
  then show ?thesis
    using assms
    by (auto simp: calculate_side_pots_def reference_side_pots_def sum_bets_eq
        tf [unfolded MAX_SIDE_POTS_def] fl outer MAX_SIDE_POTS_def simp flip: q_def pad_pots_def)
qed

section \<open>What the pots hold and who may win them\<close>

abbreviation pots_sum :: "side_pot list \<Rightarrow> nat" where
  "pots_sum ps \<equiv> sum_list (map sp_amount ps)"

abbreviation eligible_sum :: "nat \<Rightarrow> side_pot list \<Rightarrow> nat" where
  "eligible_sum i ps \<equiv> pots_sum (filter (\<lambda>p. is_eligible (sp_eligible p) i) ps)"

lemma is_eligible_iff [mask_simps]: "is_eligible m i \<longleftrightarrow> bit m i"
  by (simp add: is_eligible_def mask_simps)

lemma side_pot_new_simps [simp]:
  "sp_amount (side_pot_new a e) = a" "sp_eligible (side_pot_new a e) = e"
  by (simp_all add: side_pot_new_def)

lemma pots_sum_push:
  assumes "pots_sum ps + a < u64_bound"
  shows "pots_sum (push_or_merge ps a e) = pots_sum ps + a"
  using assms by (cases ps rule: rev_cases) (auto simp: push_or_merge_def)

text \<open>
  The invariant of the slicing loop: the pots hold what the bets hold below the level
  reached, each pot has a positive amount, and the eligible sets are the members of strictly
  ascending layers.
\<close>

definition layered :: "nat list \<Rightarrow> bool list \<Rightarrow> side_pot list \<times> nat \<Rightarrow> bool" where
  "layered bets folded st \<longleftrightarrow> (case st of (ps, prev) \<Rightarrow>
     pots_sum ps = contrib bets prev \<and> (\<forall>p\<in>set ps. sp_amount p > 0) \<and>
     (\<exists>bs. sorted_wrt (<) bs \<and> (\<forall>b\<in>set bs. b < prev) \<and> (bs \<noteq> [] \<longrightarrow> hd bs = 0) \<and>
       list_all2 (\<lambda>p b. {i. bit (sp_eligible p) i} = layer_members bets folded b) ps bs))"

lemma layered_init: "layered bets folded ([], 0)"
  by (simp add: layered_def)

lemma layer_members_mono: "l \<le> l' \<Longrightarrow> layer_members bets folded l' \<subseteq> layer_members bets folded l"
  by (auto simp: layer_members_def)

lemma layered_step:
  assumes inv: "layered bets folded (ps, prev)" and lt: "prev < l"
    and fits: "sum_list bets < u64_bound" "length bets \<le> 9"
    and sl: "slice_layer bets folded prev l = (a, e)"
  shows "layered bets folded (push_or_merge ps a e, l)"
proof -
  from inv obtain bs where sum: "pots_sum ps = contrib bets prev" and pos: "\<forall>p\<in>set ps. sp_amount p > 0"
    and bs: "sorted_wrt (<) bs" "\<forall>b\<in>set bs. b < prev" "bs \<noteq> [] \<longrightarrow> hd bs = 0"
      "list_all2 (\<lambda>p b. {i. bit (sp_eligible p) i} = layer_members bets folded b) ps bs"
    by (auto simp: layered_def)
  have a: "a = contrib bets l - contrib bets prev"
    and e: "{i. bit e i} = layer_members bets folded prev"
    using slice_layer_eq [of prev l bets folded] lt fits sl by auto
  have le: "contrib bets prev \<le> contrib bets l" using lt by (intro contrib_mono) simp
  have fit: "pots_sum ps + a < u64_bound" using a le contrib_le_sum [of bets l] sum fits by linarith
  have sum': "pots_sum (push_or_merge ps a e) = contrib bets l"
    using pots_sum_push [OF fit] sum a le by simp
  have prev: "\<forall>b\<in>set bs. b < l" using bs lt by auto
  consider (none) "a = 0" | (merge) qs q where "a > 0" "e = 0" "ps = qs @ [q]"
    | (push) "a > 0" "e \<noteq> 0 \<or> ps = []"
    by (cases ps rule: rev_cases) auto
  then show ?thesis
  proof cases
    case none
    then show ?thesis using bs pos sum' prev by (auto simp: layered_def push_or_merge_def)
  next
    case merge
    then have "u64_add (sp_amount q) a > 0" using fit by simp
    moreover have "push_or_merge ps a e = qs @ [q\<lparr>sp_amount := u64_add (sp_amount q) a\<rparr>]"
      using merge by (simp add: push_or_merge_def)
    moreover have "list_all2 (\<lambda>p b. {i. bit (sp_eligible p) i} = layer_members bets folded b)
        (qs @ [q\<lparr>sp_amount := u64_add (sp_amount q) a\<rparr>]) bs"
    proof -
      have "list_all2 (\<lambda>m b. {i. bit m i} = layer_members bets folded b) (map sp_eligible ps) bs"
        using bs(4) by (simp add: list_all2_map1)
      moreover have "map sp_eligible ps = map sp_eligible (qs @ [q\<lparr>sp_amount := u64_add (sp_amount q) a\<rparr>])"
        using merge by simp
      ultimately show ?thesis by (simp only: list_all2_map1)
    qed
    ultimately show ?thesis using merge bs pos sum' prev by (auto simp: layered_def)
  next
    case push
    have "sum_list bets \<noteq> 0" using a push contrib_le_sum [of bets l] by linarith
    then have "ps = [] \<Longrightarrow> prev = 0"
      using sum contrib_eq_0_iff [of bets prev] by auto
    then have "hd (bs @ [prev]) = 0" using bs by (cases bs) auto
    then have "list_all2 (\<lambda>p b. {i. bit (sp_eligible p) i} = layer_members bets folded b)
        (push_or_merge ps a e) (bs @ [prev]) \<and> hd (bs @ [prev]) = 0 \<and> sorted_wrt (<) (bs @ [prev]) \<and>
        (\<forall>b\<in>set (bs @ [prev]). b < l) \<and> (\<forall>p\<in>set (push_or_merge ps a e). sp_amount p > 0)"
      using push bs pos e lt prev by (auto simp: push_or_merge_def sorted_wrt_append list_all2_appendI)
    then show ?thesis using sum' by (auto simp: layered_def intro!: exI [of _ "bs @ [prev]"])
  qed
qed

lemma layered_fold:
  assumes "layered bets folded st" "sum_list bets < u64_bound" "length bets \<le> 9"
  shows "layered bets folded (foldl (reference_step bets folded) st ls)"
  using assms
proof (induction ls arbitrary: st)
  case Nil
  then show ?case by simp
next
  case (Cons l ls)
  have "layered bets folded (reference_step bets folded st l)"
    using Cons.prems layered_step [of bets folded]
    by (auto simp: reference_step_def split: prod.splits)
  then show ?case using Cons by simp
qed

text \<open>The vector of pots after the last layer.\<close>

definition reference_pots :: "nat list \<Rightarrow> bool list \<Rightarrow> bool list \<Rightarrow> side_pot list" where
  "reference_pots bets folded all_in =
     (let (pots, prev_level) = foldl (reference_step bets folded) ([], 0) (reference_levels bets all_in)
      in if prev_level < sum_list bets then
           (let (amount, eligible) = slice_layer bets folded prev_level u64_max
            in push_or_merge pots amount eligible)
         else pots)"

lemma reference_side_pots_eq:
  "reference_side_pots bets folded all_in =
     (let ps = reference_pots bets folded all_in;
          ps = (if ps = [] then [side_pot_new (sum_list bets) 0] else ps)
      in \<lparr>spr_pots = pad_pots ps, spr_count = length ps\<rparr>)"
  by (simp add: reference_side_pots_def reference_pots_def pad_pots_def MAX_SIDE_POTS_def Let_def
      split: prod.split)

lemma le_sum_list_nat: "b \<in> set bets \<Longrightarrow> b \<le> sum_list (bets :: nat list)"
  by (rule member_le_sum_list) auto

lemma layered_reference_pots:
  assumes "sum_list bets < u64_max" "length bets \<le> 9"
  shows "layered bets folded (reference_pots bets folded all_in, u64_max)"
proof -
  let ?L = "reference_levels bets all_in"
  obtain ps prev where fl: "foldl (reference_step bets folded) ([], 0) ?L = (ps, prev)" by fastforce
  have fits: "sum_list bets < u64_bound" using assms by (simp add: u64_max_def)
  have inv: "layered bets folded (ps, prev)"
    using layered_fold [OF layered_init fits assms(2), of folded ?L] fl by simp
  show ?thesis
  proof (cases "prev < sum_list bets")
    case True
    then have "prev < u64_max" using assms by simp
    from layered_step [OF inv this fits assms(2)] True show ?thesis
      by (auto simp: reference_pots_def fl split: prod.split)
  next
    case False
    have lt: "prev \<le> sum_list bets"
    proof -
      have "foldl max p ls \<in> insert p (set ls)" for p and ls :: "nat list"
        by (induction ls arbitrary: p) (fastforce simp: max_def split: if_splits)+
      from this [of 0 ?L] have "prev \<in> insert 0 (set ?L)"
        using snd_reference_fold [of bets folded "[]" 0 ?L] fl by simp
      then show ?thesis using le_sum_list_nat [of _ bets] by (auto simp: reference_levels_facts)
    qed
    have "contrib bets prev = sum_list bets" "contrib bets u64_max = sum_list bets"
      using False assms le_sum_list_nat by (auto intro!: contrib_all dest!: le_sum_list_nat)
    then show ?thesis using inv False lt assms
      by (force simp: reference_pots_def fl layered_def)
  qed
qed

text \<open>
  The second invariant follows one unfolded bettor \<open>i\<close> through the layers: up to its own bet
  it contests every pot; above it, either somebody unfolded bet more, and it contests exactly
  what lies below its bet, or nobody did, and the excess of the folded seats is merged down.
\<close>

definition outbid :: "nat list \<Rightarrow> bool list \<Rightarrow> nat \<Rightarrow> bool" where
  "outbid bets folded i \<longleftrightarrow> (\<exists>k<length bets. \<not> folded ! k \<and> bets ! i < bets ! k)"

definition share_inv :: "nat list \<Rightarrow> bool list \<Rightarrow> nat \<Rightarrow> side_pot list \<times> nat \<Rightarrow> bool" where
  "share_inv bets folded i st \<longleftrightarrow> (case st of (ps, prev) \<Rightarrow>
     if prev \<le> bets ! i \<or> \<not> outbid bets folded i then \<forall>p\<in>set ps. bit (sp_eligible p) i
     else eligible_sum i ps = contrib bets (bets ! i) \<and> ps \<noteq> [] \<and> \<not> bit (sp_eligible (last ps)) i)"

lemma share_inv_step:
  assumes inv: "share_inv bets folded i (ps, prev)" "layered bets folded (ps, prev)"
    and lt: "prev < l" "prev < bets ! i \<Longrightarrow> l \<le> bets ! i"
    and seat: "i < length bets" "\<not> folded ! i" "0 < bets ! i"
    and fits: "sum_list bets < u64_bound" "length bets \<le> 9"
    and sl: "slice_layer bets folded prev l = (a, e)"
  shows "share_inv bets folded i (push_or_merge ps a e, l)"
proof -
  have a: "a = contrib bets l - contrib bets prev"
    and e: "{i. bit e i} = layer_members bets folded prev"
    using slice_layer_eq [of prev l bets folded] lt fits sl by auto
  have i: "bets ! i \<in> set bets" using seat by simp
  have bit_e: "bit e j \<longleftrightarrow> j \<in> layer_members bets folded prev" for j using e by blast
  consider (below) "prev < bets ! i" | (above) "bets ! i \<le> prev" "\<not> outbid bets folded i"
    | (out) "bets ! i \<le> prev" "outbid bets folded i" by linarith
  then show ?thesis
  proof cases
    case below
    then have "bit e i" using below seat by (simp add: bit_e layer_members_def)
    then have "e \<noteq> 0" by auto
    then show ?thesis using inv below lt \<open>bit e i\<close>
      by (auto simp: share_inv_def push_or_merge_def)
  next
    case above
    then have "layer_members bets folded prev = {}"
      by (force simp: layer_members_def outbid_def not_less)
    then have "e = 0" by (simp add: mask_eq_0_iff bit_e)
    moreover have "ps \<noteq> []"
    proof
      assume "ps = []"
      then have "contrib bets prev = 0" using inv by (simp add: layered_def)
      then have "prev = 0 \<or> sum_list bets = 0" by (simp only: contrib_eq_0_iff)
      moreover have "0 < sum_list bets" using le_sum_list_nat [OF i] seat(3) by (rule order_less_le_trans [rotated])
      ultimately show False using above seat by linarith
    qed
    ultimately show ?thesis using inv above lt
      by (cases ps rule: rev_cases) (auto simp: share_inv_def push_or_merge_def)
  next
    case out
    then obtain k where k: "k < length bets" "\<not> folded ! k" "bets ! i < bets ! k"
      by (auto simp: outbid_def)
    have ni: "\<not> bit e i" using out by (simp add: bit_e layer_members_def)
    show ?thesis
    proof (cases "prev = bets ! i")
      case True
      have "bit e k" using k True by (simp add: bit_e layer_members_def)
      moreover have "contrib bets prev < contrib bets l"
        using lt k True by (intro contrib_strict [of _ _ "bets ! k"]) auto
      ultimately have "push_or_merge ps a e = ps @ [side_pot_new a e]"
        using a by (auto simp: push_or_merge_def)
      moreover have "eligible_sum i ps = contrib bets prev"
        using inv True by (auto simp: share_inv_def layered_def mask_simps filter_id_conv
            intro!: arg_cong [of _ _ pots_sum] simp: filter_True)
      ultimately show ?thesis using True lt out ni by (simp add: share_inv_def mask_simps)
    next
      case False
      then have "eligible_sum i ps = contrib bets (bets ! i) \<and> ps \<noteq> [] \<and> \<not> bit (sp_eligible (last ps)) i"
        using inv out by (simp add: share_inv_def)
      then show ?thesis using out lt ni
        by (cases ps rule: rev_cases) (auto simp: share_inv_def push_or_merge_def mask_simps)
    qed
  qed
qed

lemma share_inv_fold:
  assumes "share_inv bets folded i (ps, prev)" "layered bets folded (ps, prev)"
    and "sorted ls" "prev < bets ! i \<Longrightarrow> bets ! i \<in> set ls"
    and seat: "i < length bets" "\<not> folded ! i" "0 < bets ! i"
    and fits: "sum_list bets < u64_bound" "length bets \<le> 9"
  shows "share_inv bets folded i (foldl (reference_step bets folded) (ps, prev) ls)"
  using assms(1-4)
proof (induction ls arbitrary: ps prev)
  case Nil
  then show ?case by simp
next
  case (Cons l ls)
  show ?case
  proof (cases "l \<le> prev")
    case True
    then show ?thesis using Cons by (auto simp: reference_step_def)
  next
    case False
    obtain a e where ae: "slice_layer bets folded prev l = (a, e)" by fastforce
    have le: "prev < bets ! i \<Longrightarrow> l \<le> bets ! i" using Cons.prems by auto
    have "share_inv bets folded i (push_or_merge ps a e, l)"
      using share_inv_step [OF Cons.prems(1,2) _ le seat fits ae] False by simp
    moreover have "layered bets folded (push_or_merge ps a e, l)"
      using layered_step [OF Cons.prems(2) _ fits ae] False by simp
    moreover have "l < bets ! i \<Longrightarrow> bets ! i \<in> set ls" using Cons.prems(4) False by auto
    ultimately show ?thesis using Cons.IH Cons.prems(3) False by (simp add: reference_step_def ae)
  qed
qed

lemma reference_share:
  assumes "sum_list bets < u64_max" "length bets \<le> 9"
    and seat: "i < length bets" "\<not> folded ! i" "0 < bets ! i" "all_in ! i"
  shows "eligible_sum i (reference_pots bets folded all_in) =
    (if outbid bets folded i then contrib bets (bets ! i) else sum_list bets)"
proof -
  let ?L = "reference_levels bets all_in" and ?ps = "reference_pots bets folded all_in"
  obtain ps prev where fl: "foldl (reference_step bets folded) ([], 0) ?L = (ps, prev)" by fastforce
  have fits: "sum_list bets < u64_bound" using assms by (simp add: u64_max_def)
  have lay: "layered bets folded (ps, prev)"
    using layered_fold [OF layered_init fits assms(2), of folded ?L] fl by simp
  have mem: "bets ! i \<in> set ?L" using seat by (auto simp: reference_levels_facts)
  have "share_inv bets folded i (foldl (reference_step bets folded) ([], 0) ?L)"
    by (rule share_inv_fold) (use mem seat fits assms in \<open>auto simp: share_inv_def layered_init reference_levels_facts\<close>)
  then have sh: "share_inv bets folded i (ps, prev)" using fl by simp
  have top: "bets ! i \<le> prev"
    using le_foldl_max [of 0 ?L] mem snd_reference_fold [of bets folded "[]" 0 ?L] fl by auto
  have big: "bets ! i < u64_max" using le_sum_list_nat [OF nth_mem [OF seat(1)]] assms by simp
  have final: "share_inv bets folded i (?ps, u64_max)"
  proof (cases "prev < sum_list bets")
    case True
    then have "prev < u64_max" using assms by simp
    then show ?thesis using share_inv_step [OF sh lay _ _ seat(1-3) fits assms(2)] top True
      by (auto simp: reference_pots_def fl split: prod.split)
  next
    case False
    have "prev = bets ! i \<Longrightarrow> \<not> outbid bets folded i"
      using False le_sum_list_nat [of _ bets] by (fastforce simp: outbid_def not_less dest: nth_mem)
    with sh top False big show ?thesis by (auto simp: reference_pots_def fl share_inv_def split: if_splits)
  qed
  have tot: "pots_sum ?ps = sum_list bets"
    using layered_reference_pots [OF assms(1,2), of folded all_in] contrib_all [of bets u64_max]
      le_sum_list_nat [of _ bets] assms(1)
    by (fastforce simp: layered_def intro: order_trans less_imp_le)
  show ?thesis
  proof (cases "outbid bets folded i")
    case True
    then show ?thesis using final big by (simp add: share_inv_def)
  next
    case False
    then have "filter (\<lambda>p. is_eligible (sp_eligible p) i) ?ps = ?ps"
      using final by (auto simp: share_inv_def mask_simps filter_id_conv)
    then show ?thesis using False tot by simp
  qed
qed

text \<open>
  Everything the properties need of a successful result, in terms of the vector of pots.
\<close>

lemma calculate_cases:
  "calculate_side_pots bets folded all_in =
    (if length folded \<noteq> length bets \<or> length all_in \<noteq> length bets \<or> 9 < length bets then Inl LengthMismatch
     else if MAX_TOTAL_BET < sum_list bets then Inl BetOverflow
     else Inr (reference_side_pots bets folded all_in))"
proof (cases "length folded \<noteq> length bets \<or> length all_in \<noteq> length bets \<or> 9 < length bets")
  case True
  then show ?thesis by (auto simp: calculate_side_pots_def MAX_SIDE_POTS_def Let_def)
next
  case False
  show ?thesis
  proof (cases "MAX_TOTAL_BET < sum_list bets")
    case True
    with False show ?thesis by (auto simp: calculate_side_pots_def MAX_SIDE_POTS_def Let_def sum_bets_eq)
  next
    case noflow: False
    with False calculate_eq [of folded bets all_in] show ?thesis by auto
  qed
qed

lemma calculate_InrD:
  assumes "calculate_side_pots bets folded all_in = Inr r"
  shows "length folded = length bets" "length all_in = length bets" "length bets \<le> 9"
    and "sum_list bets \<le> MAX_TOTAL_BET" "sum_list bets < u64_max"
    and "r = reference_side_pots bets folded all_in"
  using assms by (auto simp: calculate_cases MAX_TOTAL_BET_def u64_max_def split: if_splits)

lemma reference_pots_bounds:
  assumes "sum_list bets < u64_max" "length bets \<le> 9"
  shows "pots_sum (reference_pots bets folded all_in) = sum_list bets"
    and "length (reference_pots bets folded all_in) \<le> 9"
proof -
  let ?ps = "reference_pots bets folded all_in"
  note lay = layered_reference_pots [OF assms, of folded all_in]
  have "contrib bets u64_max = sum_list bets"
    using le_sum_list_nat [of _ bets] assms(1) by (intro contrib_all) fastforce
  then show "pots_sum ?ps = sum_list bets" using lay by (simp add: layered_def)
  obtain ps prev where fl: "foldl (reference_step bets folded) ([], 0) (reference_levels bets all_in) = (ps, prev)"
    by fastforce
  have len: "length ps \<le> length (reference_levels bets all_in)"
    using slice_refines [of "[]" "reference_levels bets all_in" bets folded 0] fl
      reference_levels_facts [of bets all_in] assms(2) by auto
  have prev: "prev = foldl max 0 (reference_levels bets all_in)"
    using snd_reference_fold [of bets folded "[]" 0] fl by (metis snd_conv)
  show "length ?ps \<le> 9"
  proof (cases "length ps < 9")
    case True
    have "length (push_or_merge ps x y) \<le> 9" for x y
      using length_push_or_merge [of ps x y] True by linarith
    then show ?thesis using True by (auto simp: reference_pots_def fl split: prod.split)
  next
    case False
    then have "slice_layer bets folded prev u64_max = (0, 0)"
      using len assms(2) reference_levels_all [of bets all_in] reference_levels_facts(4) [of bets all_in]
      by (intro slice_layer_0) (simp add: prev)
    then show ?thesis using len assms(2) reference_levels_facts(4) [of bets all_in]
      by (simp add: reference_pots_def fl push_or_merge_def)
  qed
qed

lemma spr_total_eq: "pots_sum (spr_pots r) < u64_bound \<Longrightarrow> spr_total r = pots_sum (spr_pots r)"
proof -
  have "s + pots_sum ps < u64_bound \<Longrightarrow> fold (\<lambda>p s. u64_add s (sp_amount p)) ps s = s + pots_sum ps" for s ps
    by (induction ps arbitrary: s) auto
  from this [of 0] show "pots_sum (spr_pots r) < u64_bound \<Longrightarrow> spr_total r = pots_sum (spr_pots r)"
    by (simp add: spr_total_def)
qed

lemma pots_sum_pad [simp]: "pots_sum (pad_pots ps) = pots_sum ps"
  by (simp add: pad_pots_def sum_list_replicate)

lemma reference_active:
  assumes "sum_list bets < u64_max" "length bets \<le> 9"
  shows "spr_active (reference_side_pots bets folded all_in) =
      (if reference_pots bets folded all_in = [] then [side_pot_new (sum_list bets) 0]
       else reference_pots bets folded all_in)"
  using reference_pots_bounds [OF assms, of folded all_in]
  by (simp add: spr_active_def reference_side_pots_eq pad_pots_def Let_def)

lemma calculate_totals:
  assumes "calculate_side_pots bets folded all_in = Inr r"
  shows "spr_total r = sum_list bets \<and> sum_list (map sp_amount (spr_active r)) = sum_list bets \<and>
    length (spr_pots r) = MAX_SIDE_POTS \<and> 1 \<le> spr_count r \<and> spr_count r \<le> MAX_SIDE_POTS \<and>
    (\<forall>p\<in>set (drop (spr_count r) (spr_pots r)). p = side_pot_new 0 0) \<and>
    (\<forall>p\<in>set (spr_active r). 0 < sp_amount p \<or> sum_list bets = 0)"
proof -
  note d = calculate_InrD [OF assms]
  let ?ps = "reference_pots bets folded all_in"
  let ?qs = "if ?ps = [] then [side_pot_new (sum_list bets) 0] else ?ps"
  note b = reference_pots_bounds [OF d(5,3), of folded all_in]
  have r: "spr_pots r = pad_pots ?qs" "spr_count r = length ?qs" "spr_active r = ?qs"
    using d(6) reference_active [OF d(5,3), of folded all_in] by (simp_all add: reference_side_pots_eq Let_def)
  have sum: "pots_sum ?qs = sum_list bets" and len: "length ?qs \<le> 9" "1 \<le> length ?qs"
    using b by (auto simp: Suc_le_eq)
  have pos: "\<forall>p\<in>set ?qs. 0 < sp_amount p \<or> sum_list bets = 0"
    using layered_reference_pots [OF d(5,3), of folded all_in] by (auto simp: layered_def)
  have "spr_total r = sum_list bets"
    using spr_total_eq [of r] sum d(5) by (simp add: r u64_max_def)
  then show ?thesis
    using sum len pos unfolding r MAX_SIDE_POTS_def by (simp add: pad_pots_def)
qed

lemma calculate_eligibility:
  assumes "calculate_side_pots bets folded all_in = Inr r"
  shows "(\<forall>p\<in>set (spr_active r). \<forall>i. is_eligible (sp_eligible p) i \<longrightarrow>
           i < length bets \<and> \<not> folded ! i \<and> 0 < bets ! i) \<and>
    (\<forall>i<length bets. \<not> folded ! i \<and> 0 < bets ! i \<longrightarrow> is_eligible (sp_eligible (spr_active r ! 0)) i) \<and>
    (\<forall>k<length (spr_active r). \<forall>j\<le>k. \<forall>i. is_eligible (sp_eligible (spr_active r ! k)) i \<longrightarrow>
           is_eligible (sp_eligible (spr_active r ! j)) i)"
proof -
  note d = calculate_InrD [OF assms]
  let ?ps = "reference_pots bets folded all_in"
  have act: "spr_active r = (if ?ps = [] then [side_pot_new (sum_list bets) 0] else ?ps)"
    using d(6) reference_active [OF d(5,3)] by simp
  note lay = layered_reference_pots [OF d(5,3), of folded all_in]
  show ?thesis
  proof (cases "?ps = []")
    case True
    then have "contrib bets u64_max = 0" using lay by (simp add: layered_def)
    then have "sum_list bets = 0" using contrib_eq_0_iff [of bets u64_max] by (simp add: u64_max_def)
    then show ?thesis using True act by (auto simp: mask_simps)
  next
    case False
    from lay obtain bs where bs: "sorted_wrt (<) bs" "bs \<noteq> [] \<longrightarrow> hd bs = 0"
      "list_all2 (\<lambda>p b. {i. bit (sp_eligible p) i} = layer_members bets folded b) ?ps bs"
      by (auto simp: layered_def)
    have len: "length bs = length ?ps" and bits: "\<And>k. k < length ?ps \<Longrightarrow>
        {i. bit (sp_eligible (?ps ! k)) i} = layer_members bets folded (bs ! k)"
      using bs(3) by (auto simp: list_all2_conv_all_nth)
    have iff: "is_eligible (sp_eligible (?ps ! k)) i \<longleftrightarrow> i \<in> layer_members bets folded (bs ! k)"
      if "k < length ?ps" for k i
      using bits [OF that] by (auto simp: mask_simps)
    have main: "bs ! 0 = 0" using bs(2) len False by (cases bs) auto
    have mono: "bs ! j \<le> bs ! k" if "j \<le> k" "k < length ?ps" for j k
      using that bs(1) len sorted_wrt_nth_less [of "(<)" bs j k] by (cases "j = k") auto
    show ?thesis
    proof (intro conjI ballI allI impI, goal_cases)
      case (4 i)
      then show ?case using False act iff [of 0 i] main by (simp add: layer_members_def)
    next
      case (5 k j i)
      then show ?case using False act iff [of k i] iff [of j i] mono [of j k]
          layer_members_mono [of "bs ! j" "bs ! k" bets folded] by auto
    qed (use False act iff in \<open>fastforce simp: in_set_conv_nth layer_members_def\<close>)+
  qed
qed

text \<open>A pot that nobody can win is never opened after the first.\<close>

lemma tail_push:
  "\<forall>p\<in>set (tl ps). sp_eligible p \<noteq> 0 \<Longrightarrow> \<forall>p\<in>set (tl (push_or_merge ps a e)). sp_eligible p \<noteq> 0"
proof (cases "e = 0 \<and> ps \<noteq> []")
  case True
  assume h: "\<forall>p\<in>set (tl ps). sp_eligible p \<noteq> 0"
  let ?q = "(last ps)\<lparr>sp_amount := u64_add (sp_amount (last ps)) a\<rparr>"
  obtain x xs where ps: "ps = x # xs" using True by (cases ps) auto
  have "sp_eligible p \<noteq> 0" if "p \<in> set (tl (butlast ps @ [?q]))" for p
    using that h last_in_set [of xs] by (auto simp: ps split: if_splits dest: in_set_butlastD)
  then show ?thesis using True h by (auto simp: push_or_merge_def)
next
  case False
  assume "\<forall>p\<in>set (tl ps). sp_eligible p \<noteq> 0"
  with False show ?thesis by (cases ps) (auto simp: push_or_merge_def)
qed

lemma tail_fold:
  "\<forall>p\<in>set (tl (fst st)). sp_eligible p \<noteq> 0 \<Longrightarrow>
   \<forall>p\<in>set (tl (fst (foldl (reference_step bets folded) st ls))). sp_eligible p \<noteq> 0"
proof (induction ls arbitrary: st)
  case (Cons l ls)
  have "\<forall>p\<in>set (tl (fst (reference_step bets folded st l))). sp_eligible p \<noteq> 0"
    using Cons.prems tail_push [of "fst st"] by (auto simp: reference_step_def Let_def split: prod.splits)
  then show ?case using Cons.IH by simp
qed simp

lemma calculate_all_eligible:
  assumes "calculate_side_pots bets folded all_in = Inr r"
    and "\<exists>i<length bets. \<not> folded ! i \<and> 0 < bets ! i" "p \<in> set (spr_active r)"
  shows "sp_eligible p \<noteq> 0"
proof -
  note d = calculate_InrD [OF assms(1)]
  let ?ps = "reference_pots bets folded all_in"
  have act: "spr_active r = (if ?ps = [] then [side_pot_new (sum_list bets) 0] else ?ps)"
    using d(6) reference_active [OF d(5,3)] by simp
  have main: "sp_eligible (spr_active r ! 0) \<noteq> 0"
    using calculate_eligibility [OF assms(1)] assms(2) by (auto simp: mask_simps mask_eq_0_iff)
  have "\<forall>p\<in>set (tl ?ps). sp_eligible p \<noteq> 0"
    using tail_fold [of "([], 0)" bets folded "reference_levels bets all_in"] tail_push
    by (auto simp: reference_pots_def Let_def split: prod.splits)
  then have "\<forall>p\<in>set (tl (spr_active r)). sp_eligible p \<noteq> 0" by (simp add: act)
  with main assms(3) show ?thesis by (cases "spr_active r") auto
qed

section \<open>Properties\<close>

text \<open>A hand with one short all-in, two callers and a fold, for the witnesses below.\<close>

definition side_pots_example :: "side_pot_error + side_pot_result" where
  "side_pots_example = calculate_side_pots [100, 300, 300, 50] [False, False, False, True] [True, False, False, False]"

lemma replicate_9: "replicate 9 x = [x, x, x, x, x, x, x, x, x]"
  by (simp add: eval_nat_numeral)

lemma side_pots_example_eq:
  "side_pots_example = Inr \<lparr>spr_pots =
     [side_pot_new 350 7, side_pot_new 400 6, side_pot_new 0 0, side_pot_new 0 0,
      side_pot_new 0 0, side_pot_new 0 0, side_pot_new 0 0, side_pot_new 0 0, side_pot_new 0 0], spr_count = 2\<rparr>"
  by (simp add: side_pots_example_def calculate_side_pots_def sum_bets_def place_levels_def
      level_rank_def slice_step_def slice_layer_def record_layer_def side_pot_new_def
      MAX_SIDE_POTS_def MAX_TOTAL_BET_def checked_add_def u64_add_def u64_max_def seat_mask_bit_def
      upt_rec replicate_9)


text \<open>
  C39. The rank-and-slot computation of the side pots, with its fixed arrays, is the sorted
  reference algorithm on every input: the only errors are the two the code reports, for
  mismatched or too long vectors and for bets above the limit, and no index is ever out of
  range.
\<close>

theorem side_pots_equal_reference:
  "calculate_side_pots bets folded all_in =
    (if length folded = length bets \<and> length all_in = length bets \<and> length bets \<le> MAX_SIDE_POTS then
       if sum_list bets \<le> MAX_TOTAL_BET then Inr (reference_side_pots bets folded all_in)
       else Inl BetOverflow
     else Inl LengthMismatch)"
  by (auto simp: calculate_cases MAX_SIDE_POTS_def)

text \<open>
  Conservation and canonical form: the pots hold exactly the bets; there is at least one
  pot and at most nine; the unused slots are the empty pot; every pot in use has chips
  unless nobody bet at all.
\<close>

theorem side_pots_conserve:
  assumes "calculate_side_pots bets folded all_in = Inr r"
  shows "spr_total r = sum_list bets \<and> sum_list (map sp_amount (spr_active r)) = sum_list bets \<and>
    length (spr_pots r) = MAX_SIDE_POTS \<and> 1 \<le> spr_count r \<and> spr_count r \<le> MAX_SIDE_POTS \<and>
    (\<forall>p\<in>set (drop (spr_count r) (spr_pots r)). p = side_pot_new 0 0) \<and>
    (\<forall>p\<in>set (spr_active r). 0 < sp_amount p \<or> sum_list bets = 0)"
  using assms by (rule calculate_totals)

theorem side_pots_conserve_witness:
  "\<exists>r. side_pots_example = Inr r \<and> spr_total r = 750 \<and> spr_count r \<le> MAX_SIDE_POTS"
  using side_pots_conserve [of "[100, 300, 300, 50]" "[False, False, False, True]" "[True, False, False, False]"]
    side_pots_example_eq unfolding side_pots_example_def by simp

text \<open>
  Eligibility: nobody who folded or bet nothing is eligible for any pot, every other
  bettor is eligible for the main pot, and the eligible seats of a later pot are eligible
  for the earlier ones.
\<close>

theorem side_pots_eligibility:
  assumes "calculate_side_pots bets folded all_in = Inr r"
  shows "(\<forall>p\<in>set (spr_active r). \<forall>i. is_eligible (sp_eligible p) i \<longrightarrow>
           i < length bets \<and> \<not> folded ! i \<and> 0 < bets ! i) \<and>
    (\<forall>i<length bets. \<not> folded ! i \<and> 0 < bets ! i \<longrightarrow> is_eligible (sp_eligible (spr_active r ! 0)) i) \<and>
    (\<forall>k<length (spr_active r). \<forall>j\<le>k. \<forall>i. is_eligible (sp_eligible (spr_active r ! k)) i \<longrightarrow>
           is_eligible (sp_eligible (spr_active r ! j)) i)"
  using assms by (rule calculate_eligibility)

theorem side_pots_eligibility_witness:
  "\<exists>r. side_pots_example = Inr r \<and> is_eligible (sp_eligible (spr_active r ! 0)) 0"
  using side_pots_eligibility [of "[100, 300, 300, 50]" "[False, False, False, True]" "[True, False, False, False]"]
    side_pots_example_eq unfolding side_pots_example_def by simp

text \<open>
  What an all-in player can win: an unfolded all-in seat contests exactly the part of
  every bet that its own bet covers, or, when no unfolded seat bet more, the whole pot.
\<close>

theorem side_pots_all_in_share:
  assumes "calculate_side_pots bets folded all_in = Inr r"
    and "i < length bets" "all_in ! i" "\<not> folded ! i" "0 < bets ! i"
  shows "sum_list (map sp_amount (filter (\<lambda>p. is_eligible (sp_eligible p) i) (spr_active r))) =
    (if \<exists>k<length bets. \<not> folded ! k \<and> bets ! i < bets ! k
     then sum_list (map (\<lambda>b. min b (bets ! i)) bets) else sum_list bets)"
proof -
  note d = calculate_InrD [OF assms(1)]
  have "0 < sum_list bets" using le_sum_list_nat [OF nth_mem [OF assms(2)]] assms(5) by linarith
  then have "pots_sum (reference_pots bets folded all_in) \<noteq> 0"
    using reference_pots_bounds(1) [OF d(5,3), of folded all_in] by linarith
  then have "reference_pots bets folded all_in \<noteq> []" by auto
  then have "spr_active r = reference_pots bets folded all_in"
    using d(6) reference_active [OF d(5,3)] by simp
  then show ?thesis
    using reference_share [OF d(5,3) assms(2,4,5,3)] by (simp only: outbid_def contrib_def)
qed

theorem side_pots_all_in_share_witness:
  "\<exists>r. side_pots_example = Inr r \<and>
     sum_list (map sp_amount (filter (\<lambda>p. is_eligible (sp_eligible p) 0) (spr_active r))) = 350"
proof -
  obtain r where r: "side_pots_example = Inr r" using side_pots_example_eq by blast
  have "\<exists>k<length [100, 300, 300, 50 :: nat]. \<not> [False, False, False, True] ! k \<and>
      [100, 300, 300, 50] ! 0 < [100, 300, 300, 50 :: nat] ! k"
    by (rule exI [of _ 1]) simp
  then show ?thesis
    using side_pots_all_in_share [OF r [unfolded side_pots_example_def], of 0] r
    by (intro exI [of _ r]) simp
qed

end
