(* ===== verification/Poker_Networks.thy ===== *)
theory Poker_Networks
  imports Poker_Prelude "HOL-Library.Product_Lexorder"
begin

text \<open>
  The two comparator networks of the hand evaluator
  (\<^verbatim>\<open>poker_l1/.../core/hand_evaluator.rs\<close>: \<^verbatim>\<open>sort_five_desc\<close>, \<^verbatim>\<open>sort_groups_desc\<close> with
  \<^verbatim>\<open>sort_network_range\<close> and \<^verbatim>\<open>odd_even_merge\<close>). Both are shown to run a list of
  comparators that does not depend on the data, so the zero-one principle applies: a
  network that sorts every list of truth values sorts every list.
\<close>

section \<open>The code\<close>

text \<open>The comparator of the source: swap when the earlier entry is the smaller one.\<close>

definition cmp_exch :: "nat \<Rightarrow> nat \<Rightarrow> 'a :: linorder list \<Rightarrow> 'a list" where
  "cmp_exch i j a = (if a ! i < a ! j then a[i := a ! j, j := a ! i] else a)"

definition sort_five_desc :: "'a :: linorder list \<Rightarrow> 'a list" where
  "sort_five_desc ranks =
     fold (\<lambda>j. fold (\<lambda>i. cmp_exch i (i + 1)) (rev [0..<j])) [1..<5] ranks"

text \<open>The stride loop of the merge: positions from \<open>i\<close> in steps of \<open>step\<close>.\<close>

function merge_loop :: "nat \<Rightarrow> nat \<Rightarrow> nat \<Rightarrow> nat \<Rightarrow> 'a :: linorder list \<Rightarrow> 'a list" where
  "merge_loop r step hi i a =
     (if i + r < hi \<and> 0 < step then merge_loop r step hi (i + step) (cmp_exch i (i + r) a) else a)"
  by auto
termination by (relation "measure (\<lambda>(r, step, hi, i, a). hi - i)") auto

function odd_even_merge :: "nat \<Rightarrow> nat \<Rightarrow> nat \<Rightarrow> 'a :: linorder list \<Rightarrow> 'a list" where
  "odd_even_merge lo n r a =
     (let step = r * 2 in
      if step < n \<and> 0 < r then
        merge_loop r step (lo + n) (lo + r)
          (odd_even_merge (lo + r) n step (odd_even_merge lo n step a))
      else cmp_exch lo (lo + r) a)"
  by auto
termination by (relation "measure (\<lambda>(lo, n, r, a). n - r)") auto

fun sort_network_range :: "nat \<Rightarrow> nat \<Rightarrow> 'a :: linorder list \<Rightarrow> 'a list" where
  "sort_network_range lo n a =
     (if n \<le> 1 then a
      else let mid = n div 2
           in odd_even_merge lo n 1 (sort_network_range (lo + mid) mid (sort_network_range lo mid a)))"

definition sort_groups_desc :: "'a :: linorder list \<Rightarrow> 'a list" where
  "sort_groups_desc groups = sort_network_range 0 16 groups"

declare merge_loop.simps [simp del] odd_even_merge.simps [simp del] sort_network_range.simps [simp del]

section \<open>Networks as lists of comparators\<close>

type_synonym network = "(nat \<times> nat) list"

definition run :: "network \<Rightarrow> 'a :: linorder list \<Rightarrow> 'a list" where
  "run net a = fold (\<lambda>(i, j). cmp_exch i j) net a"

lemma run_simps [simp]:
  "run [] a = a" "run ((i, j) # net) a = run net (cmp_exch i j a)"
  "run (net @ net') a = run net' (run net a)"
  by (simp_all add: run_def)

lemma length_cmp_exch [simp]: "length (cmp_exch i j a) = length a"
  by (simp add: cmp_exch_def)

lemma length_run [simp]: "length (run net a) = length a"
  by (induction net arbitrary: a) auto

lemma mset_cmp_exch: "i < length a \<Longrightarrow> j < length a \<Longrightarrow> mset (cmp_exch i j a) = mset a"
  by (simp add: cmp_exch_def mset_swap)

definition net_bounded :: "nat \<Rightarrow> network \<Rightarrow> bool" where
  "net_bounded n net = list_all (\<lambda>(i, j). i < n \<and> j < n) net"

lemma mset_run: "net_bounded (length a) net \<Longrightarrow> mset (run net a) = mset a"
  by (induction net arbitrary: a) (auto simp: net_bounded_def mset_cmp_exch)

text \<open>A comparator commutes with every monotone map: the zero-one principle.\<close>

lemma cmp_exch_map:
  assumes "mono f" "i < length a" "j < length a"
  shows "cmp_exch i j (map f a) = map f (cmp_exch i j a)"
proof (cases "a ! i < a ! j")
  case True
  then have "f (a ! i) \<le> f (a ! j)" using assms(1) by (auto dest: monoD less_imp_le)
  then show ?thesis using True assms
    by (cases "f (a ! i) = f (a ! j)")
      (auto simp: cmp_exch_def map_update list_update_same_conv nth_list_update intro!: nth_equalityI)
next
  case False
  then have "\<not> f (a ! i) < f (a ! j)" using assms(1) by (auto dest: monoD simp: not_less)
  then show ?thesis using False assms by (simp add: cmp_exch_def)
qed

lemma run_map: "mono f \<Longrightarrow> net_bounded (length a) net \<Longrightarrow> run net (map f a) = map f (run net a)"
  by (induction net arbitrary: a) (auto simp: net_bounded_def cmp_exch_map)

abbreviation sorted_desc :: "'a :: linorder list \<Rightarrow> bool" where
  "sorted_desc \<equiv> sorted_wrt (\<ge>)"

lemma zero_one:
  assumes "net_bounded (length a) net"
    and "\<And>bs :: bool list. length bs = length a \<Longrightarrow> sorted_desc (run net bs)"
  shows "sorted_desc (run net a)"
proof (rule ccontr)
  assume "\<not> sorted_desc (run net a)"
  then obtain i j where ij: "i < j" "j < length a" "run net a ! i < run net a ! j"
    by (auto simp: sorted_wrt_iff_nth_less not_le)
  define f where "f x \<longleftrightarrow> run net a ! i < x" for x
  have "mono f" by (auto simp: mono_def f_def)
  then have "run net (map f a) = map f (run net a)" using assms(1) by (rule run_map)
  moreover have "sorted_desc (run net (map f a))" by (rule assms(2)) simp
  ultimately have "map f (run net a) ! i \<ge> map f (run net a) ! j"
    using ij by (metis sorted_wrt_nth_less length_map length_run)
  with ij show False by (auto simp: f_def)
qed

lemma run_eq_rev_sort:
  assumes "net_bounded (length a) net" and "sorted_desc (run net a)"
  shows "run net a = rev (sort a)"
proof -
  have "sorted (rev (run net a))" using assms(2) by (simp add: sorted_wrt_rev)
  moreover have "mset (rev (run net a)) = mset a" using mset_run [OF assms(1)] by simp
  ultimately have "rev (run net a) = sort a" by (metis properties_for_sort)
  then show ?thesis by (metis rev_rev_ident)
qed

section \<open>The networks the code runs\<close>

function net_loop :: "nat \<Rightarrow> nat \<Rightarrow> nat \<Rightarrow> nat \<Rightarrow> network" where
  "net_loop r step hi i =
     (if i + r < hi \<and> 0 < step then (i, i + r) # net_loop r step hi (i + step) else [])"
  by auto
termination by (relation "measure (\<lambda>(r, step, hi, i). hi - i)") auto

function net_merge :: "nat \<Rightarrow> nat \<Rightarrow> nat \<Rightarrow> network" where
  "net_merge lo n r =
     (if r * 2 < n \<and> 0 < r then
        net_merge lo n (r * 2) @ net_merge (lo + r) n (r * 2) @ net_loop r (r * 2) (lo + n) (lo + r)
      else [(lo, lo + r)])"
  by auto
termination by (relation "measure (\<lambda>(lo, n, r). n - r)") auto

fun net_range :: "nat \<Rightarrow> nat \<Rightarrow> network" where
  "net_range lo n =
     (if n \<le> 1 then []
      else net_range lo (n div 2) @ net_range (lo + n div 2) (n div 2) @ net_merge lo n 1)"

declare net_loop.simps [simp del] net_merge.simps [simp del] net_range.simps [simp del]

lemma merge_loop_run: "merge_loop r step hi i a = run (net_loop r step hi i) a"
  by (induction r step hi i a rule: merge_loop.induct)
    (subst merge_loop.simps, subst net_loop.simps, simp)

lemma odd_even_merge_run: "odd_even_merge lo n r a = run (net_merge lo n r) a"
  by (induction lo n r a rule: odd_even_merge.induct)
    (subst odd_even_merge.simps, subst net_merge.simps, simp add: merge_loop_run Let_def)

lemma sort_network_range_run: "sort_network_range lo n a = run (net_range lo n) a"
  by (induction lo n a rule: sort_network_range.induct)
    (subst sort_network_range.simps, subst net_range.simps, simp add: odd_even_merge_run Let_def)

text \<open>The network of an upper half is the network of the lower half, moved.\<close>

abbreviation shift_net :: "nat \<Rightarrow> network \<Rightarrow> network" where
  "shift_net d \<equiv> map (\<lambda>(i, j). (d + i, d + j))"

lemma net_loop_shift: "net_loop r step (d + hi) (d + i) = shift_net d (net_loop r step hi i)"
  by (induction r step hi i rule: net_loop.induct)
    (subst (1 2) net_loop.simps, simp add: add.assoc)

lemma net_merge_shift: "net_merge (d + lo) n r = shift_net d (net_merge lo n r)"
proof (induction lo n r rule: net_merge.induct)
  case (1 lo n r)
  then show ?case
    by (subst (1 2) net_merge.simps)
      (simp add: add.assoc net_loop_shift [of r "r * 2" d "lo + n" "lo + r", simplified add.assoc])
qed

lemma net_range_shift: "net_range (d + lo) n = shift_net d (net_range lo n)"
proof (induction lo n rule: net_range.induct)
  case (1 lo n)
  then show ?case
    by (subst (1 2) net_range.simps) (simp add: add.assoc net_merge_shift)
qed

lemma cmp_exch_shift:
  "i < length xs \<Longrightarrow> j < length xs \<Longrightarrow>
   cmp_exch (length pre + i) (length pre + j) (pre @ xs @ post) = pre @ cmp_exch i j xs @ post"
  by (simp add: cmp_exch_def nth_append list_update_append)

lemma run_shift:
  "net_bounded (length xs) net \<Longrightarrow> run (shift_net (length pre) net) (pre @ xs @ post) = pre @ run net xs @ post"
  by (induction net arbitrary: xs) (auto simp: net_bounded_def cmp_exch_shift)

section \<open>Sorting truth values\<close>

definition block :: "nat \<Rightarrow> nat \<Rightarrow> bool list" where
  "block k n = replicate k True @ replicate (n - k) False"

lemma sorted_block: "sorted_desc (block k n)"
  by (auto simp: block_def sorted_wrt_iff_nth_less nth_append split: if_splits)

lemma length_block: "k \<le> n \<Longrightarrow> length (block k n) = n"
  by (simp add: block_def)

definition merges :: "nat \<Rightarrow> bool" where
  "merges h \<longleftrightarrow> (\<forall>k\<le>h. \<forall>l\<le>h.
     run (net_merge 0 (2 * h) 1) (block k h @ block l h) = block (k + l) (2 * h))"

definition sorts :: "nat \<Rightarrow> bool" where
  "sorts n \<longleftrightarrow> net_bounded n (net_range 0 n) \<and>
     (\<forall>bs :: bool list. length bs = n \<longrightarrow> (\<exists>k\<le>n. run (net_range 0 n) bs = block k n))"

lemma net_bounded_mono: "net_bounded n net \<Longrightarrow> n \<le> m \<Longrightarrow> net_bounded m net"
  by (auto simp: net_bounded_def list_all_iff)

lemma sorts_1: "sorts 1"
proof -
  have "\<exists>k\<le>1. bs = block k 1" if "length bs = 1" for bs
  proof -
    from that obtain b where "bs = [b]" by (auto simp: length_Suc_conv One_nat_def)
    then have "bs = block (of_bool b) 1" by (cases b) (simp_all add: block_def)
    then show ?thesis by (intro exI [of _ "of_bool b"]) simp
  qed
  then show ?thesis by (auto simp: sorts_def net_range.simps net_bounded_def)
qed

lemma sorts_double:
  assumes s: "sorts h" and m: "merges h" and b: "net_bounded (2 * h) (net_merge 0 (2 * h) 1)" and "0 < h"
  shows "sorts (2 * h)"
proof -
  let ?N = "net_range 0 h"
  have net: "net_range 0 (2 * h) = ?N @ shift_net h ?N @ net_merge 0 (2 * h) 1"
    using \<open>0 < h\<close> net_range_shift [of h 0 h] by (subst net_range.simps) simp
  have bN: "net_bounded h ?N" using s by (simp add: sorts_def)
  then have "net_bounded (2 * h) (shift_net h ?N)"
    by (auto simp: net_bounded_def list_all_iff)
  then have bounded: "net_bounded (2 * h) (net_range 0 (2 * h))"
    using b net_bounded_mono [OF bN, of "2 * h"] by (simp add: net net_bounded_def)
  have "\<exists>k\<le>2 * h. run (net_range 0 (2 * h)) bs = block k (2 * h)" if "length bs = 2 * h" for bs
  proof -
    define xs ys where "xs = take h bs" and "ys = drop h bs"
    have len: "length xs = h" "length ys = h" and bs: "bs = xs @ ys"
      using that by (simp_all add: xs_def ys_def)
    obtain k where k: "k \<le> h" "run ?N xs = block k h" using s len by (auto simp: sorts_def)
    obtain l where l: "l \<le> h" "run ?N ys = block l h" using s len by (auto simp: sorts_def)
    have "run ?N (xs @ ys) = run ?N xs @ ys"
      using run_shift [of xs ?N "[]" ys] bN len by (simp add: case_prod_unfold)
    moreover have "run (shift_net h ?N) (run ?N xs @ ys) = run ?N xs @ run ?N ys"
      using run_shift [of ys ?N "run ?N xs" "[]"] bN len by simp
    ultimately have "run (net_range 0 (2 * h)) bs = run (net_merge 0 (2 * h) 1) (block k h @ block l h)"
      by (simp add: net bs k l)
    also have "\<dots> = block (k + l) (2 * h)" using m k l by (simp add: merges_def)
    finally show ?thesis using k l by (intro exI [of _ "k + l"]) simp
  qed
  with bounded show ?thesis by (simp add: sorts_def)
qed

text \<open>On truth values the comparator moves a true entry to the front.\<close>

lemma cmp_exch_bool: "cmp_exch i j (a :: bool list) = (if a ! i then a else a[i := a ! j, j := False])"
proof (cases "a ! i \<or> a ! j")
  case False
  then have "a[i := False] = a" "a[j := False] = a" by (metis list_update_id)+
  then show ?thesis using False by (simp add: cmp_exch_def)
qed (auto simp: cmp_exch_def less_bool_def)

lemma replicate_small:
  "replicate 2 x = [x, x]" "replicate 3 x = [x, x, x]" "replicate 4 x = [x, x, x, x]"
  "replicate 5 x = x # replicate 4 x" "replicate 6 x = x # x # replicate 4 x"
  "replicate 7 x = x # x # x # replicate 4 x" "replicate 8 x = x # x # x # x # replicate 4 x"
  "replicate 9 x = x # replicate 8 x" "replicate 10 x = x # x # replicate 8 x"
  "replicate 11 x = x # x # x # replicate 8 x" "replicate 12 x = replicate 4 x @ replicate 8 x"
  "replicate 13 x = x # replicate 4 x @ replicate 8 x"
  "replicate 14 x = x # x # replicate 4 x @ replicate 8 x"
  "replicate 15 x = x # x # x # replicate 4 x @ replicate 8 x"
  "replicate 16 x = replicate 8 x @ replicate 8 x"
  by (simp_all add: eval_nat_numeral)

lemma le_cases:
  "k \<le> 2 \<Longrightarrow> k = 0 \<or> k = 1 \<or> k = (2::nat)"
  "k \<le> 4 \<Longrightarrow> k = 0 \<or> k = 1 \<or> k = 2 \<or> k = 3 \<or> k = (4::nat)"
  "k \<le> 8 \<Longrightarrow> k = 0 \<or> k = 1 \<or> k = 2 \<or> k = 3 \<or> k = 4 \<or> k = 5 \<or> k = 6 \<or> k = 7 \<or> k = (8::nat)"
  by auto

lemma net_merge_eqs:
  "net_merge 0 2 1 = [(0, 1)]"
  "net_merge 0 4 1 = [(0, 2), (1, 3), (1, 2)]"
  "net_merge 0 8 1 = [(0, 4), (2, 6), (2, 4), (1, 5), (3, 7), (3, 5), (1, 2), (3, 4), (5, 6)]"
  "net_merge 0 16 1 = [(0, 8), (4, 12), (4, 8), (2, 10), (6, 14), (6, 10), (2, 4), (6, 8), (10, 12),
     (1, 9), (5, 13), (5, 9), (3, 11), (7, 15), (7, 11), (3, 5), (7, 9), (11, 13),
     (1, 2), (3, 4), (5, 6), (7, 8), (9, 10), (11, 12), (13, 14)]"
  by (simp_all add: net_merge.simps net_loop.simps)

lemma merge_blocks_2:
  assumes "k \<le> 2" "l \<le> 2" shows "run (net_merge 0 4 1) (block k 2 @ block l 2) = block (k + l) 4"
  unfolding net_merge_eqs using assms [THEN le_cases(1)]
  by (elim disjE; hypsubst; simp add: cmp_exch_bool block_def replicate_small)

lemma merge_blocks_4:
  assumes "k \<le> 4" "l \<le> 4" shows "run (net_merge 0 8 1) (block k 4 @ block l 4) = block (k + l) 8"
  unfolding net_merge_eqs using assms [THEN le_cases(2)]
  by (elim disjE; hypsubst; simp add: cmp_exch_bool block_def replicate_small)

lemma merge_blocks_8:
  assumes "k \<le> 8" "l \<le> 8" shows "run (net_merge 0 16 1) (block k 8 @ block l 8) = block (k + l) 16"
  unfolding net_merge_eqs using assms [THEN le_cases(3)]
  by (elim disjE; hypsubst; simp add: cmp_exch_bool block_def replicate_small)

lemma merges_1: "merges 1"
proof -
  have "k = 0 \<or> k = 1" if "k \<le> 1" for k :: nat using that by auto
  then show ?thesis
    unfolding merges_def using net_merge_eqs(1)
    by (auto simp: cmp_exch_bool block_def le_Suc_eq One_nat_def numeral_2_eq_2)
qed

lemma merges_powers: "merges 2" "merges 4" "merges 8"
  using merge_blocks_2 merge_blocks_4 merge_blocks_8 by (simp_all add: merges_def)

lemma sorts_16: "sorts 16"
proof -
  have 2: "sorts 2" using sorts_double [OF sorts_1 merges_1] net_merge_eqs by (simp add: net_bounded_def)
  have 4: "sorts 4" using sorts_double [OF 2 merges_powers(1)] net_merge_eqs by (simp add: net_bounded_def)
  have 8: "sorts 8" using sorts_double [OF 4 merges_powers(2)] net_merge_eqs by (simp add: net_bounded_def)
  show ?thesis using sorts_double [OF 8 merges_powers(3)] net_merge_eqs by (simp add: net_bounded_def)
qed

definition net_five :: network where
  "net_five = [(0, 1), (1, 2), (0, 1), (2, 3), (1, 2), (0, 1), (3, 4), (2, 3), (1, 2), (0, 1)]"

lemma sort_five_run: "sort_five_desc a = run net_five a"
  by (simp add: sort_five_desc_def net_five_def run_def upt_rec numeral_eq_Suc)

lemma sort_five_bools: "sorted_desc (run net_five [a, b, c, d, e :: bool])"
  by (cases a; cases b; cases c; cases d; cases e; simp add: net_five_def cmp_exch_bool)

lemma length_5: "length xs = 5 \<longleftrightarrow> (\<exists>a b c d e. xs = [a, b, c, d, e])"
  by (auto simp: length_Suc_conv eval_nat_numeral)

lemma sort_five_eq:
  assumes len: "length a = 5"
  shows "sort_five_desc a = rev (sort a)"
proof -
  have b: "net_bounded (length a) net_five" using len by (simp add: net_bounded_def net_five_def)
  have "sorted_desc (run net_five a)"
  proof (rule zero_one [OF b])
    fix bs :: "bool list" assume "length bs = length a"
    then show "sorted_desc (run net_five bs)"
      using len sort_five_bools by (auto simp: length_5)
  qed
  then show ?thesis using run_eq_rev_sort [OF b] by (simp add: sort_five_run)
qed

lemma sort_groups_eq:
  assumes len: "length a = 16"
  shows "sort_groups_desc a = rev (sort a)"
proof -
  have b: "net_bounded (length a) (net_range 0 16)" using len sorts_16 by (simp add: sorts_def)
  have "sorted_desc (run (net_range 0 16) a)"
  proof (rule zero_one [OF b])
    fix bs :: "bool list" assume "length bs = length a"
    then show "sorted_desc (run (net_range 0 16) bs)"
      using len sorts_16 sorted_block by (metis sorts_def)
  qed
  then show ?thesis
    using run_eq_rev_sort [OF b] by (simp add: sort_groups_desc_def sort_network_range_run)
qed

section \<open>Properties\<close>

text \<open>
  Both fixed networks sort: the ten comparators of \<^verbatim>\<open>sort_five_desc\<close> and the 63 of the
  Batcher odd-even network turn every list of their width into its descending sort.
\<close>

theorem networks_sort:
  fixes a :: "'a :: linorder list"
  shows "(length a = 5 \<longrightarrow> sort_five_desc a = rev (sort a)) \<and>
    (length a = 16 \<longrightarrow> sort_groups_desc a = rev (sort a))"
  using sort_five_eq sort_groups_eq by blast

theorem networks_sort_witness:
  "length [3, 9, 1, 7, 7 :: nat] = 5 \<and> sort_five_desc [3, 9, 1, 7, 7 :: nat] = [9, 7, 7, 3, 1]"
  using networks_sort [of "[3, 9, 1, 7, 7 :: nat]"] by simp

end
