(* ===== verification/Poker_HandEval.thy ===== *)
theory Poker_HandEval
  imports Poker_Cards Poker_Networks "HOL-Library.List_Lexorder" "HOL-Library.Sublist"
begin

text \<open>
  Hand evaluation (\<^verbatim>\<open>poker_l1/.../core/hand_evaluator.rs\<close>): the rank of five cards, the best
  five of up to seven, and the winners among several hands. Arrays are lists; ranks and
  counts are bytes that never exceed 14 and 5.
\<close>

section \<open>Ranks of hands\<close>

definition HIGH_CARD :: nat where "HIGH_CARD = 0"
definition ONE_PAIR :: nat where "ONE_PAIR = 1"
definition TWO_PAIR :: nat where "TWO_PAIR = 2"
definition THREE_OF_A_KIND :: nat where "THREE_OF_A_KIND = 3"
definition STRAIGHT :: nat where "STRAIGHT = 4"
definition FLUSH :: nat where "FLUSH = 5"
definition FULL_HOUSE :: nat where "FULL_HOUSE = 6"
definition FOUR_OF_A_KIND :: nat where "FOUR_OF_A_KIND = 7"
definition STRAIGHT_FLUSH :: nat where "STRAIGHT_FLUSH = 8"
definition ROYAL_FLUSH :: nat where "ROYAL_FLUSH = 9"

lemmas category_defs =
  HIGH_CARD_def ONE_PAIR_def TWO_PAIR_def THREE_OF_A_KIND_def STRAIGHT_def FLUSH_def FULL_HOUSE_def
  FOUR_OF_A_KIND_def STRAIGHT_FLUSH_def ROYAL_FLUSH_def

datatype hand_rank = HandRank (hr_category: nat) (hr_kickers: "nat list")

definition hand_rank_new :: "nat \<Rightarrow> nat list \<Rightarrow> hand_rank" where
  "hand_rank_new category kickers =
     HandRank category (take 5 kickers @ replicate (5 - length kickers) 0)"

text \<open>The order of the source: category first, then the kickers lexicographically.\<close>

definition hand_rank_key :: "hand_rank \<Rightarrow> nat \<times> nat list" where
  "hand_rank_key r = (hr_category r, hr_kickers r)"

instantiation hand_rank :: linorder
begin

definition less_eq_hand_rank :: "hand_rank \<Rightarrow> hand_rank \<Rightarrow> bool" where
  "less_eq_hand_rank a b \<longleftrightarrow> hand_rank_key a \<le> hand_rank_key b"

definition less_hand_rank :: "hand_rank \<Rightarrow> hand_rank \<Rightarrow> bool" where
  "less_hand_rank a b \<longleftrightarrow> hand_rank_key a < hand_rank_key b"

instance
  by standard (auto simp: less_eq_hand_rank_def less_hand_rank_def hand_rank_key_def hand_rank.expand intro: order_trans)

end

section \<open>Five cards\<close>

definition rank_counts :: "card list \<Rightarrow> nat list" where
  "rank_counts cards =
     fold (\<lambda>c counts. if rank c \<ge> 2 \<and> rank c \<le> 14
                       then counts[rank c - 2 := counts ! (rank c - 2) + 1] else counts)
       cards (replicate 13 0)"

definition straight_high :: "nat list \<Rightarrow> nat option" where
  "straight_high ranks_desc =
     (if ranks_desc = [14, 5, 4, 3, 2] then Some 5
      else if list_all (\<lambda>i. ranks_desc ! i = ranks_desc ! (i + 1) + 1) [0..<4] then Some (ranks_desc ! 0)
      else None)"

definition rank_groups :: "card list \<Rightarrow> (nat \<times> nat) list" where
  "rank_groups cards =
     sort_groups_desc (map (\<lambda>slot. (rank_counts cards ! slot, slot + 2)) [0..<13] @ replicate 3 (0, 0))"

definition is_flush :: "card list \<Rightarrow> bool" where
  "is_flush cards \<longleftrightarrow> suit (cards ! 0) = suit (cards ! 1) \<and> suit (cards ! 1) = suit (cards ! 2) \<and>
     suit (cards ! 2) = suit (cards ! 3) \<and> suit (cards ! 3) = suit (cards ! 4)"

definition evaluate_five :: "card list \<Rightarrow> hand_rank" where
  "evaluate_five cards =
     (let flush = is_flush cards;
          ranks = sort_five_desc (map rank cards);
          straight = straight_high ranks;
          groups = rank_groups cards;
          cnt = (\<lambda>i. fst (groups ! i));
          rk = (\<lambda>i. snd (groups ! i))
      in if flush \<and> straight \<noteq> None then
           (if the straight = 14 then hand_rank_new ROYAL_FLUSH [14]
            else hand_rank_new STRAIGHT_FLUSH [the straight])
         else if cnt 0 = 4 then hand_rank_new FOUR_OF_A_KIND [rk 0, rk 1]
         else if cnt 0 = 3 \<and> cnt 1 \<ge> 2 then hand_rank_new FULL_HOUSE [rk 0, rk 1]
         else if flush then hand_rank_new FLUSH ranks
         else if straight \<noteq> None then hand_rank_new STRAIGHT [the straight]
         else if cnt 0 = 3 then hand_rank_new THREE_OF_A_KIND [rk 0, rk 1, rk 2]
         else if cnt 0 = 2 \<and> cnt 1 = 2 then
           (if rk 0 > rk 1 then hand_rank_new TWO_PAIR [rk 0, rk 1, rk 2]
            else hand_rank_new TWO_PAIR [rk 1, rk 0, rk 2])
         else if cnt 0 = 2 then hand_rank_new ONE_PAIR [rk 0, rk 1, rk 2, rk 3]
         else hand_rank_new HIGH_CARD ranks)"

section \<open>The best five of several cards\<close>

definition suit_counts :: "card list \<Rightarrow> nat list" where
  "suit_counts cards =
     fold (\<lambda>c counts. if suit c < 4 then counts[suit c := counts ! suit c + 1] else counts)
       cards (replicate 4 0)"

text \<open>\<^verbatim>\<open>min_by_key\<close> keeps the first of several minima.\<close>

definition min_suit :: "card list \<Rightarrow> nat" where
  "min_suit cards =
     foldl (\<lambda>b s. if suit_counts cards ! s < suit_counts cards ! b then s else b) 0 [1, 2, 3]"

function pad_to_five :: "card list \<Rightarrow> card list" where
  "pad_to_five padded =
     (if length padded < 5 then pad_to_five (padded @ [card_new (min_suit padded) 0]) else padded)"
  by auto
termination by (relation "measure (\<lambda>cs. 5 - length cs)") auto

declare pad_to_five.simps [simp del]

definition five_combinations :: "card list \<Rightarrow> card list list" where
  "five_combinations cards =
     (let n = length cards in
      [[cards ! i, cards ! j, cards ! k, cards ! l, cards ! m].
        i \<leftarrow> [0..<n], j \<leftarrow> [i+1..<n], k \<leftarrow> [j+1..<n], l \<leftarrow> [k+1..<n], m \<leftarrow> [l+1..<n]])"

definition evaluate_best :: "card list \<Rightarrow> hand_rank" where
  "evaluate_best cards =
     (if length cards < 5 then evaluate_five (take 5 (pad_to_five cards))
      else foldl (\<lambda>best five. if evaluate_five five > best then evaluate_five five else best)
             (hand_rank_new HIGH_CARD (replicate 5 0)) (five_combinations cards))"

definition hand_find_winners :: "(nat \<times> card list) list \<Rightarrow> nat list res" where
  "hand_find_winners hands =
     (if hands = [] then Inl (Panic ''find_winners requires at least one player'')
      else Inr (snd (foldl (\<lambda>(best_rank, best_seats) (seat, cards).
             let r = evaluate_best cards in
             if r > best_rank then (r, [seat])
             else if r = best_rank then (best_rank, best_seats @ [seat])
             else (best_rank, best_seats))
           (hand_rank_new HIGH_CARD (replicate 5 0), []) hands)))"

section \<open>Order and permutation\<close>

lemma sort_mset_cong: "mset xs = mset ys \<Longrightarrow> sort xs = sort ys"
  by (rule properties_for_sort) simp_all

lemma rank_counts_fold:
  assumes "length counts = 13" "r < 13"
  shows "fold (\<lambda>c counts. if rank c \<ge> 2 \<and> rank c \<le> 14
                       then counts[rank c - 2 := counts ! (rank c - 2) + 1] else counts) cs counts ! r =
    counts ! r + length (filter (\<lambda>c. rank c = r + 2) cs)"
  using assms
proof (induction cs arbitrary: counts)
  case (Cons c cs)
  then show ?case using rank_bounds [of c] by (auto simp: nth_list_update)
qed simp

lemma rank_counts_nth: "r < 13 \<Longrightarrow> rank_counts cs ! r = length (filter (\<lambda>c. rank c = r + 2) cs)"
  unfolding rank_counts_def by (subst rank_counts_fold) auto

definition rank_mult :: "card list \<Rightarrow> nat \<Rightarrow> nat" where
  "rank_mult cs r = length (filter (\<lambda>c. rank c = r) cs)"

definition group_list :: "card list \<Rightarrow> (nat \<times> nat) list" where
  "group_list cs = map (\<lambda>s. (rank_mult cs (s + 2), s + 2)) [0..<13] @ replicate 3 (0, 0)"

lemma rank_groups_eq: "rank_groups cs = rev (sort (group_list cs))"
proof -
  have "map (\<lambda>slot. (rank_counts cs ! slot, slot + 2)) [0..<13] = map (\<lambda>s. (rank_mult cs (s + 2), s + 2)) [0..<13]"
    by (simp add: rank_counts_nth rank_mult_def)
  then have "rank_groups cs = sort_groups_desc (group_list cs)"
    by (simp only: rank_groups_def group_list_def)
  also have "\<dots> = rev (sort (group_list cs))" by (rule sort_groups_eq) (simp add: group_list_def)
  finally show ?thesis .
qed

lemma is_flush_iff:
  assumes "length cs = 5"
  shows "is_flush cs \<longleftrightarrow> (\<forall>c\<in>set cs. \<forall>d\<in>set cs. suit c = suit d)"
proof -
  obtain a b c d e where cs: "cs = [a, b, c, d, e]" using assms by (auto simp: length_5)
  show ?thesis
  proof
    assume "is_flush cs"
    then show "\<forall>c\<in>set cs. \<forall>d\<in>set cs. suit c = suit d" by (simp add: cs is_flush_def)
  next
    assume "\<forall>c\<in>set cs. \<forall>d\<in>set cs. suit c = suit d"
    then have "suit (cs ! i) = suit (cs ! j)" if "i < 5" "j < 5" for i j
      using that assms nth_mem by metis
    then show "is_flush cs" by (auto simp: is_flush_def)
  qed
qed

lemma rank_mult_perm: "mset cs = mset ds \<Longrightarrow> rank_mult cs = rank_mult ds"
  by (metis (no_types, lifting) ext mset_filter rank_mult_def size_mset)

lemma evaluate_five_perm:
  assumes "mset cs = mset ds" "length cs = 5"
  shows "evaluate_five cs = evaluate_five ds"
proof -
  have len: "length ds = 5" using assms by (metis size_mset)
  have "is_flush cs = is_flush ds"
    using assms len mset_eq_setD [OF assms(1)] by (simp add: is_flush_iff)
  moreover have "sort (map rank cs) = sort (map rank ds)"
    using assms(1) by (intro sort_mset_cong) simp
  then have "sort_five_desc (map rank cs) = sort_five_desc (map rank ds)"
    using assms len by (simp add: sort_five_eq)
  moreover have "rank_groups cs = rank_groups ds"
    using rank_mult_perm [OF assms(1)] by (simp add: rank_groups_eq group_list_def)
  ultimately show ?thesis by (simp add: evaluate_five_def)
qed

section \<open>The best five\<close>

lemma subseq_indices:
  "subseq ys xs \<Longrightarrow> \<exists>is. sorted_wrt (<) is \<and> set is \<subseteq> {..<length xs} \<and> ys = map ((!) xs) is"
proof (induction rule: list_emb.induct)
  case (list_emb_Nil ys)
  then show ?case by (intro exI [of _ "[]"]) simp
next
  case (list_emb_Cons xs ys y)
  then obtain "is" where "sorted_wrt (<) is" "set is \<subseteq> {..<length ys}" "xs = map ((!) ys) is" by blast
  then show ?case by (intro exI [of _ "map Suc is"]) (auto simp: sorted_wrt_map)
next
  case (list_emb_Cons2 x y xs ys)
  then obtain "is" where "sorted_wrt (<) is" "set is \<subseteq> {..<length ys}" "xs = map ((!) ys) is" by blast
  then show ?case using list_emb_Cons2.hyps
    by (intro exI [of _ "0 # map Suc is"]) (auto simp: sorted_wrt_map)
qed

lemma indices_subset:
  assumes "sorted_wrt (<) is" "set is \<subseteq> {..<length xs}"
  shows "mset (map ((!) xs) is) \<subseteq># mset xs"
proof -
  have "mset is = mset_set (set is)" using assms by (simp add: mset_set_set strict_sorted_iff)
  moreover have "mset_set (set is) \<subseteq># mset_set {0..<length xs}"
    using assms by (intro subset_imp_msubset_mset_set) auto
  ultimately have "mset is \<subseteq># mset [0..<length xs]" by simp
  then have "image_mset ((!) xs) (mset is) \<subseteq># image_mset ((!) xs) (mset [0..<length xs])"
    by (rule image_mset_subseteq_mono)
  then show ?thesis by (simp add: map_nth flip: mset_map del: mset_upt)
qed

lemma submultiset_subseq: "M \<subseteq># mset xs \<Longrightarrow> \<exists>ys. subseq ys xs \<and> mset ys = M"
proof (induction xs arbitrary: M)
  case Nil
  then show ?case by (intro exI [of _ "[]"]) simp
next
  case (Cons x xs)
  show ?case
  proof (cases "x \<in># M")
    case True
    then have "M - {#x#} \<subseteq># mset xs" using Cons.prems
      by (metis add_mset_remove_trivial mset.simps(2) subset_eq_diff_conv union_mset_add_mset_right
          add.right_neutral)
    from Cons.IH [OF this] obtain ys where "subseq ys xs" "mset ys = M - {#x#}" by blast
    then show ?thesis using True by (intro exI [of _ "x # ys"]) simp
  next
    case False
    then have "M \<subseteq># mset xs" using Cons.prems
      by (metis diff_single_trivial mset.simps(2) subset_eq_diff_conv add.right_neutral
          union_mset_add_mset_right)
    from Cons.IH [OF this] obtain ys where "subseq ys xs" "mset ys = M" by blast
    then show ?thesis by (intro exI [of _ ys]) auto
  qed
qed

lemma five_combinations_iff:
  "five \<in> set (five_combinations cs) \<longleftrightarrow>
     (\<exists>is. length is = 5 \<and> sorted_wrt (<) is \<and> set is \<subseteq> {..<length cs} \<and> five = map ((!) cs) is)"
  (is "?L \<longleftrightarrow> ?R")
proof
  assume ?L
  then obtain i j k l m where ix: "i < j" "j < k" "k < l" "l < m" "m < length cs"
    and five: "five = [cs ! i, cs ! j, cs ! k, cs ! l, cs ! m]"
    by (clarsimp simp: five_combinations_def Let_def Suc_le_eq)
  then show ?R by (intro exI [of _ "[i, j, k, l, m]"]) auto
next
  assume ?R
  then obtain i j k l m where "sorted_wrt (<) [i, j, k, l, m]" "set [i, j, k, l, m] \<subseteq> {..<length cs}"
    "five = map ((!) cs) [i, j, k, l, m]" by (auto simp: length_5)
  then show ?L by (force simp: five_combinations_def Let_def)
qed

lemma five_combinations_msets:
  "mset ` set (five_combinations cs) = {M. M \<subseteq># mset cs \<and> size M = 5}"
proof (intro equalityI subsetI)
  fix M assume "M \<in> mset ` set (five_combinations cs)"
  then show "M \<in> {M. M \<subseteq># mset cs \<and> size M = 5}"
  proof -
    from \<open>M \<in> mset ` set (five_combinations cs)\<close> obtain "is" where i: "length is = 5" "sorted_wrt (<) is"
      "set is \<subseteq> {..<length cs}" "M = mset (map ((!) cs) is)"
      by (auto simp: five_combinations_iff simp del: mset_map)
    with indices_subset [OF i(2,3)] show ?thesis by simp
  qed
next
  fix M assume "M \<in> {M. M \<subseteq># mset cs \<and> size M = 5}"
  then obtain ys where ys: "subseq ys cs" "mset ys = M" "length ys = 5"
  proof -
    have M: "M \<subseteq># mset cs" "size M = 5" using \<open>M \<in> {M. M \<subseteq># mset cs \<and> size M = 5}\<close> by auto
    from submultiset_subseq [OF M(1)] obtain ys where ys: "subseq ys cs" "mset ys = M" by blast
    moreover have "length ys = 5" using ys(2) M(2) by (metis size_mset)
    ultimately show thesis using that by blast
  qed
  from subseq_indices [OF ys(1)] obtain "is" where "sorted_wrt (<) is" "set is \<subseteq> {..<length cs}"
    "ys = map ((!) cs) is" by blast
  with ys have "ys \<in> set (five_combinations cs)" by (auto simp: five_combinations_iff)
  with ys(2) show "M \<in> mset ` set (five_combinations cs)" by blast
qed

lemma length_combination: "five \<in> set (five_combinations cs) \<Longrightarrow> length five = 5"
  by (auto simp: five_combinations_iff)

text \<open>The order starts at the initial value of the loops.\<close>

abbreviation rank_bottom :: hand_rank where
  "rank_bottom \<equiv> hand_rank_new HIGH_CARD (replicate 5 0)"

lemma zeros_le: "length ks = n \<Longrightarrow> replicate n 0 \<le> (ks :: nat list)"
  by (induction ks arbitrary: n) auto

lemma length_hand_rank_new: "length (hr_kickers (hand_rank_new c ks)) = 5"
  by (simp add: hand_rank_new_def)

lemma rank_bottom_le: "length (hr_kickers h) = 5 \<Longrightarrow> rank_bottom \<le> h"
  using zeros_le [of "hr_kickers h" 5]
  by (auto simp: less_eq_hand_rank_def hand_rank_key_def less_eq_prod_def hand_rank_new_def HIGH_CARD_def)

lemma length_evaluate_five [simp]: "length (hr_kickers (evaluate_five cs)) = 5"
  by (simp add: evaluate_five_def Let_def length_hand_rank_new)

lemma foldl_max:
  "foldl (\<lambda>best x. if f x > best then f x else best) b xs = Max (insert b (f ` set xs))"
proof (induction xs arbitrary: b)
  case Nil
  then show ?case by simp
next
  case (Cons x xs)
  have "(if f x > b then f x else b) = max b (f x)" by (auto simp: max_def)
  then have "foldl (\<lambda>best x. if f x > best then f x else best) b (x # xs) =
      Max (insert (max b (f x)) (f ` set xs))" using Cons by simp
  also have "\<dots> = Max (insert b (f ` set (x # xs)))"
    by (cases "xs = []") (simp_all add: max.assoc)
  finally show ?case .
qed

lemma evaluate_best_Max:
  assumes "5 \<le> length cs"
  shows "evaluate_best cs = Max (evaluate_five ` set (five_combinations cs))"
    and "set (five_combinations cs) \<noteq> {}"
proof -
  have "\<exists>M. M \<subseteq># mset cs \<and> size M = 5"
    using assms mset_subset_eq_add_left [of "mset (take 5 cs)" "mset (drop 5 cs)"]
    by (intro exI [of _ "mset (take 5 cs)"]) (simp flip: mset_append)
  then have "mset ` set (five_combinations cs) \<noteq> {}" unfolding five_combinations_msets by blast
  then show ne: "set (five_combinations cs) \<noteq> {}" by simp
  let ?S = "evaluate_five ` set (five_combinations cs)"
  have "evaluate_best cs = Max (insert rank_bottom ?S)"
    using assms by (simp add: evaluate_best_def foldl_max)
  also have "\<dots> = max rank_bottom (Max ?S)" using ne by simp
  also have "\<dots> = Max ?S"
  proof -
    have "Max ?S \<in> ?S" using ne by (intro Max_in) auto
    then have "rank_bottom \<le> Max ?S" by (auto intro: rank_bottom_le)
    then show ?thesis by (simp add: max_def)
  qed
  finally show "evaluate_best cs = Max ?S" .
qed

lemma evaluate_best_perm:
  assumes "mset cs = mset ds" "5 \<le> length cs"
  shows "evaluate_best cs = evaluate_best ds"
proof -
  have len: "5 \<le> length ds" using assms by (metis size_mset)
  have "evaluate_five ` set (five_combinations as) \<subseteq> evaluate_five ` set (five_combinations bs)"
    if "mset as = mset bs" for as bs
  proof
    fix h assume "h \<in> evaluate_five ` set (five_combinations as)"
    then obtain f where f: "f \<in> set (five_combinations as)" "h = evaluate_five f" by auto
    then have "mset f \<in> mset ` set (five_combinations as)" by blast
    then have "mset f \<in> mset ` set (five_combinations bs)"
      using that by (simp only: five_combinations_msets)
    then obtain g where "g \<in> set (five_combinations bs)" "mset g = mset f" by auto
    moreover have "length f = 5" using f length_combination by blast
    ultimately show "h \<in> evaluate_five ` set (five_combinations bs)"
      using f evaluate_five_perm [of f g] by (metis image_eqI)
  qed
  from this [OF assms(1)] this [OF assms(1) [symmetric]] show ?thesis
    using evaluate_best_Max(1) [OF assms(2)] evaluate_best_Max(1) [OF len] by simp
qed

section \<open>What the rank of five cards means\<close>

text \<open>
  The declarative rank: the distinct ranks of the hand with their multiplicities, the more
  frequent and then the higher first. The multiplicities decide the category and the ranks
  in this order are the kickers, except for straights, which only their highest card ranks.
\<close>

definition rank_profile :: "card list \<Rightarrow> (nat \<times> nat) list" where
  "rank_profile cs = rev (sort (map (\<lambda>r. (rank_mult cs r, r)) (remdups (map rank cs))))"

definition straight_spec :: "card list \<Rightarrow> nat option" where
  "straight_spec cs =
     (let R = rank ` set cs; h = Max R
      in if R = {2, 3, 4, 5, 14} then Some 5 else if R = {h - 4..h} then Some h else None)"

definition hand_spec :: "card list \<Rightarrow> hand_rank" where
  "hand_spec cs =
     (let shape = map fst (rank_profile cs); ks = map snd (rank_profile cs);
          flush = (\<forall>c\<in>set cs. \<forall>d\<in>set cs. suit c = suit d)
      in case (flush, straight_spec cs) of
           (True, Some h) \<Rightarrow>
             if h = 14 then hand_rank_new ROYAL_FLUSH [14] else hand_rank_new STRAIGHT_FLUSH [h]
         | (True, None) \<Rightarrow> hand_rank_new FLUSH ks
         | (False, Some h) \<Rightarrow> hand_rank_new STRAIGHT [h]
         | (False, None) \<Rightarrow> hand_rank_new
             (if shape = [4, 1] then FOUR_OF_A_KIND else if shape = [3, 2] then FULL_HOUSE
              else if shape = [3, 1, 1] then THREE_OF_A_KIND else if shape = [2, 2, 1] then TWO_PAIR
              else if shape = [2, 1, 1, 1] then ONE_PAIR else HIGH_CARD) ks)"

lemma sum_rank_mult:
  "finite R \<Longrightarrow> rank ` set cs \<subseteq> R \<Longrightarrow> (\<Sum>r\<in>R. rank_mult cs r) = length cs"
proof (induction cs)
  case Nil
  then show ?case by (simp add: rank_mult_def)
next
  case (Cons c cs)
  have "(\<Sum>r\<in>R. rank_mult (c # cs) r) = (\<Sum>r\<in>R. rank_mult cs r + (if rank c = r then 1 else 0))"
    by (rule sum.cong) (auto simp: rank_mult_def)
  also have "\<dots> = (\<Sum>r\<in>R. rank_mult cs r) + 1" using Cons.prems by (simp add: sum.distrib)
  finally show ?case using Cons by simp
qed

lemma rank_mult_pos: "0 < rank_mult cs r \<longleftrightarrow> r \<in> rank ` set cs"
  by (auto simp: rank_mult_def filter_empty_conv)

lemma rank_mult_le_4:
  assumes "distinct cs" "list_all card_is_valid cs"
  shows "rank_mult cs r \<le> 4"
proof -
  have "inj_on suit (set (filter (\<lambda>c. rank c = r) cs))"
    using assms card_eq_views by (force simp: inj_on_def list_all_iff)
  moreover have "suit ` set (filter (\<lambda>c. rank c = r) cs) \<subseteq> {..3}"
    using assms suit_valid by (auto simp: list_all_iff)
  ultimately have "card (set (filter (\<lambda>c. rank c = r) cs)) \<le> 4"
    using card_inj_on_le [of suit _ "{..3}"] by fastforce
  then show ?thesis using assms(1) by (simp add: rank_mult_def distinct_card del: set_filter)
qed

text \<open>The sorted groups of the code are the profile followed by the empty groups.\<close>

lemma sort_split:
  fixes xs :: "('a :: linorder) list"
  assumes "\<And>x y. x \<in> set xs \<Longrightarrow> y \<in> set xs \<Longrightarrow> P x \<Longrightarrow> \<not> P y \<Longrightarrow> y \<le> x"
  shows "rev (sort xs) = rev (sort (filter P xs)) @ rev (sort (filter (Not \<circ> P) xs))"
proof -
  let ?s = "sort (filter (Not \<circ> P) xs) @ sort (filter P xs)"
  have "sorted ?s" using assms by (auto simp: sorted_append)
  moreover have "mset ?s = mset xs" by (simp add: mset_filter comp_def flip: multiset_partition)
  ultimately have "sort xs = ?s" by (metis properties_for_sort)
  then show ?thesis by simp
qed

lemma rank_groups_profile:
  assumes "list_all card_is_valid cs"
  shows "\<exists>zs. rank_groups cs = rank_profile cs @ zs \<and> (\<forall>z\<in>set zs. fst z = 0) \<and>
    length (rank_profile cs) + length zs = 16"
proof -
  let ?P = "\<lambda>g :: nat \<times> nat. 0 < fst g"
  have split: "rank_groups cs = rev (sort (filter ?P (group_list cs))) @ rev (sort (filter (Not \<circ> ?P) (group_list cs)))"
    unfolding rank_groups_eq by (rule sort_split) (auto simp: less_eq_prod_def)
  have "mset (filter ?P (group_list cs)) = mset (map (\<lambda>r. (rank_mult cs r, r)) (remdups (map rank cs)))"
  proof -
    have "distinct (filter ?P (group_list cs))"
      by (auto simp: group_list_def distinct_map inj_on_def intro!: distinct_filter)
    moreover have "distinct (map (\<lambda>r. (rank_mult cs r, r)) (remdups (map rank cs)))"
      by (auto simp: distinct_map inj_on_def)
    moreover have "set (filter ?P (group_list cs)) = set (map (\<lambda>r. (rank_mult cs r, r)) (remdups (map rank cs)))"
    proof (intro equalityI subsetI)
      fix g assume "g \<in> set (filter ?P (group_list cs))"
      then obtain s where "g = (rank_mult cs (s + 2), s + 2)" "0 < rank_mult cs (s + 2)"
        by (auto simp: group_list_def)
      then show "g \<in> set (map (\<lambda>r. (rank_mult cs r, r)) (remdups (map rank cs)))"
        by (simp add: rank_mult_pos)
    next
      fix g assume "g \<in> set (map (\<lambda>r. (rank_mult cs r, r)) (remdups (map rank cs)))"
      then obtain r where r: "g = (rank_mult cs r, r)" "r \<in> rank ` set cs" by auto
      then have "2 \<le> r \<and> r \<le> 14" using assms rank_valid by (auto simp: list_all_iff)
      then have "\<exists>s. s < 13 \<and> r = s + 2" by (intro exI [of _ "r - 2"]) auto
      then obtain s where "s < 13" "r = s + 2" by blast
      then show "g \<in> set (filter ?P (group_list cs))"
        using r rank_mult_pos [of cs r] by (simp add: group_list_def)
    qed
    ultimately show ?thesis using set_eq_iff_mset_eq_distinct by blast
  qed
  then have prof: "rev (sort (filter ?P (group_list cs))) = rank_profile cs"
    unfolding rank_profile_def by (intro arg_cong [of _ _ rev] sort_mset_cong)
  have "length (rank_groups cs) = 16" by (simp add: rank_groups_eq group_list_def)
  then show ?thesis using split prof
    by (intro exI [of _ "rev (sort (filter (Not \<circ> ?P) (group_list cs)))"]) auto
qed

text \<open>The profile is one of the six partitions of five into at most four.\<close>

lemma desc_partition_5:
  assumes "sorted_desc qs" "\<forall>q\<in>set qs. 0 < q \<and> q \<le> 4" "sum_list qs = (5 :: nat)"
  shows "qs \<in> {[4, 1], [3, 2], [3, 1, 1], [2, 2, 1], [2, 1, 1, 1], [1, 1, 1, 1, 1]}"
proof -
  consider "qs = []" | a where "qs = [a]" | a b where "qs = [a, b]" | a b c where "qs = [a, b, c]"
    | a b c d where "qs = [a, b, c, d]" | a b c d e rs where "qs = a # b # c # d # e # rs"
    by (metis list.exhaust)
  then show ?thesis
  proof cases
    case (6 a b c d e rs)
    then have "rs = []" using assms by (cases rs) auto
    then show ?thesis using 6 assms by auto
  qed (use assms in auto)
qed

lemma profile_facts:
  assumes "length cs = 5" "distinct cs" "list_all card_is_valid cs"
  shows "map fst (rank_profile cs) \<in> {[4, 1], [3, 2], [3, 1, 1], [2, 2, 1], [2, 1, 1, 1], [1, 1, 1, 1, 1]}"
proof (rule desc_partition_5)
  have "sorted_wrt (\<ge>) (rank_profile cs)"
    by (simp add: rank_profile_def sorted_wrt_rev)
  then show "sorted_desc (map fst (rank_profile cs))"
    unfolding sorted_wrt_map by (rule sorted_wrt_mono_rel [rotated]) (auto simp: less_eq_prod_def)
  show "\<forall>q\<in>set (map fst (rank_profile cs)). 0 < q \<and> q \<le> 4"
    using assms rank_mult_le_4 [of cs] rank_mult_pos [of cs] by (auto simp: rank_profile_def)
  have "sum_list (map fst (rank_profile cs)) = sum_list (map (rank_mult cs) (remdups (map rank cs)))"
  proof -
    have "mset (map fst (rank_profile cs)) = mset (map (rank_mult cs) (remdups (map rank cs)))"
      by (simp add: rank_profile_def image_mset.compositionality comp_def)
    then show ?thesis by (metis sum_mset_sum_list)
  qed
  also have "\<dots> = (\<Sum>r\<in>rank ` set cs. rank_mult cs r)" by (simp add: sum_list_distinct_conv_sum_set)
  finally show "sum_list (map fst (rank_profile cs)) = 5" using sum_rank_mult [of "rank ` set cs" cs] assms by simp
qed

lemma profile_distinct:
  assumes "distinct (map rank cs)"
  shows "rank_profile cs = map (\<lambda>r. (1, r)) (rev (sort (map rank cs)))"
proof -
  have one: "rank_mult cs r = 1" if "r \<in> set (map rank cs)" for r
  proof -
    have "distinct (filter (\<lambda>c. rank c = r) cs)" "inj_on rank (set cs)"
      using assms by (auto simp: distinct_map)
    moreover from that obtain c where c: "c \<in> set cs" "rank c = r" by auto
    ultimately have "set (filter (\<lambda>c. rank c = r) cs) = {c}" by (auto dest: inj_onD)
    then have "card (set (filter (\<lambda>c. rank c = r) cs)) = 1" by simp
    then show ?thesis using \<open>distinct (filter _ cs)\<close> by (simp add: rank_mult_def distinct_card del: set_filter)
  qed
  have "map (\<lambda>r. (rank_mult cs r, r)) (remdups (map rank cs)) = map (\<lambda>r. (1, r)) (map rank cs)"
    using assms one by (simp add: distinct_remdups_id)
  moreover have "sort (map (\<lambda>r. (1 :: nat, r)) xs) = map (\<lambda>r. (1, r)) (sort xs)" for xs :: "nat list"
    by (rule properties_for_sort) (auto simp: sorted_wrt_map less_eq_prod_def)
  ultimately show ?thesis by (simp only: rank_profile_def rev_map)
qed

lemma shape_ones_distinct:
  assumes "length cs = 5" "map fst (rank_profile cs) = [1, 1, 1, 1, 1]"
  shows "distinct (map rank cs)"
proof -
  have "length (rank_profile cs) = length (remdups (map rank cs))" by (simp add: rank_profile_def)
  moreover have "length (rank_profile cs) = 5" using arg_cong [OF assms(2), of length] by simp
  ultimately have "length (remdups (map rank cs)) = length (map rank cs)" using assms by simp
  then show ?thesis by (metis length_remdups_card_conv card_distinct)
qed

lemma straight_high_spec:
  assumes "length cs = 5" "list_all card_is_valid cs"
  shows "straight_high (sort_five_desc (map rank cs)) = straight_spec cs"
    and "straight_spec cs \<noteq> None \<Longrightarrow> distinct (map rank cs)"
proof -
  obtain a b c d e where s: "rev (sort (map rank cs)) = [a, b, c, d, e]"
    using assms(1) length_5 [of "rev (sort (map rank cs))"] by auto
  have "sorted (rev [a, b, c, d, e])" using s by (metis rev_rev_ident sorted_sort)
  then have ord: "e \<le> d" "d \<le> c" "c \<le> b" "b \<le> a" by auto
  have R: "rank ` set cs = {a, b, c, d, e}" using arg_cong [OF s, of set] by auto
  have R2: "\<forall>r \<in> rank ` set cs. 2 \<le> r \<and> r \<le> 14" using assms(2) rank_valid by (auto simp: list_all_iff)
  then have b: "2 \<le> e" "a \<le> 14" by (simp_all add: R)
  have card5: "card (rank ` set cs) = 5" if eq: "rank ` set cs = {a - 4..a}"
  proof -
    have "a - 4 \<in> rank ` set cs" by (simp add: eq)
    then have "2 \<le> a - 4" using R2 by blast
    then show ?thesis by (simp add: eq)
  qed
  have top: "Max (rank ` set cs) = a" unfolding R using ord by (intro Max_eqI) auto
  have dist: "distinct (map rank cs)" if "card (rank ` set cs) = 5"
    using that assms(1) by (metis card_distinct length_map list.set_map)
  have strict: "e < d \<and> d < c \<and> c < b \<and> b < a" if "card (rank ` set cs) = 5"
  proof -
    have "distinct (rev (sort (map rank cs)))" using dist [OF that] by simp
    then show ?thesis unfolding s using ord by auto
  qed
  have wheel: "[a, b, c, d, e] = [14, 5, 4, 3, 2] \<longleftrightarrow> rank ` set cs = {2, 3, 4, 5, 14}"
  proof
    assume "rank ` set cs = {2, 3, 4, 5, 14}"
    then have eq: "{a, b, c, d, e} = {2, 3, 4, 5, 14}" and "card (rank ` set cs) = 5" using R by auto
    then have st: "e < d" "d < c" "c < b" "b < a" using strict by auto
    have "sorted (rev [a, b, c, d, e]) \<and> distinct (rev [a, b, c, d, e])" using st by auto
    moreover have "set (rev [a, b, c, d, e]) = set [2, 3, 4, 5, 14]" using eq by auto
    ultimately have "rev [a, b, c, d, e] = [2, 3, 4, 5, 14]"
      by (intro sorted_distinct_set_unique) auto
    then show "[a, b, c, d, e] = [14, 5, 4, 3, 2]" by simp
  qed (use R in auto)
  have run: "(a = b + 1 \<and> b = c + 1 \<and> c = d + 1 \<and> d = e + 1) \<longleftrightarrow> rank ` set cs = {a - 4..a}"
  proof
    assume eq: "rank ` set cs = {a - 4..a}"
    then have "e < d" "d < c" "c < b" "b < a" "a - 4 \<le> e" using strict card5 R by auto
    then show "a = b + 1 \<and> b = c + 1 \<and> c = d + 1 \<and> d = e + 1" by auto
  next
    assume "a = b + 1 \<and> b = c + 1 \<and> c = d + 1 \<and> d = e + 1"
    then have eqs: "d = e + 1" "c = e + 2" "b = e + 3" "a = e + 4" by auto
    show "rank ` set cs = {a - 4..a}" unfolding R eqs by (rule set_eqI) (simp; presburger)
  qed
  have "list_all (\<lambda>i. [a, b, c, d, e] ! i = [a, b, c, d, e] ! (i + 1) + 1) [0..<4] \<longleftrightarrow>
      a = b + 1 \<and> b = c + 1 \<and> c = d + 1 \<and> d = e + 1"
    by (simp add: upt_rec numeral_eq_Suc)
  then show "straight_high (sort_five_desc (map rank cs)) = straight_spec cs"
    using assms(1) wheel run top by (simp add: sort_five_eq s straight_high_def straight_spec_def)
  show "distinct (map rank cs)" if "straight_spec cs \<noteq> None"
  proof (rule dist)
    from that have "rank ` set cs = {2, 3, 4, 5, 14} \<or> rank ` set cs = {a - 4..a}"
      using top by (auto simp: straight_spec_def Let_def split: if_splits)
    then show "card (rank ` set cs) = 5" using card5 by auto
  qed
qed

lemma profile_nth:
  assumes "list_all card_is_valid cs" "length (rank_profile cs) \<le> 5"
  shows "i < length (rank_profile cs) \<Longrightarrow> rank_groups cs ! i = rank_profile cs ! i"
    and "length (rank_profile cs) \<le> i \<Longrightarrow> i < 16 \<Longrightarrow> fst (rank_groups cs ! i) = 0"
  using rank_groups_profile [OF assms(1)] by (auto simp: nth_append)

lemma evaluate_five_distinct:
  assumes "length cs = 5" "list_all card_is_valid cs" "distinct (map rank cs)"
  shows "evaluate_five cs = hand_spec cs"
proof -
  let ?rs = "rev (sort (map rank cs))"
  have ranks: "sort_five_desc (map rank cs) = ?rs" using assms(1) by (simp add: sort_five_eq)
  have prof: "rank_profile cs = map (\<lambda>r. (1, r)) ?rs" using assms(3) by (rule profile_distinct)
  then have shape: "map fst (rank_profile cs) = [1, 1, 1, 1, 1]" and ks: "map snd (rank_profile cs) = ?rs"
    using assms(1) length_5 [of ?rs] by (auto simp: comp_def)
  have g0: "fst (rank_groups cs ! 0) = 1"
    using profile_nth(1) [OF assms(2), of 0] prof assms(1) by (simp add: nth_append rev_nth)
  have straight: "straight_high ?rs = straight_spec cs"
    using straight_high_spec(1) [OF assms(1,2)] by (simp only: ranks)
  show ?thesis
    unfolding evaluate_five_def hand_spec_def shape ks ranks straight Let_def
      is_flush_iff [OF assms(1), symmetric]
    by (cases "is_flush cs"; cases "straight_spec cs"; simp add: g0)
qed

lemma evaluate_five_spec:
  assumes "length cs = 5" "distinct cs" "list_all card_is_valid cs"
  shows "evaluate_five cs = hand_spec cs"
proof (cases "distinct (map rank cs)")
  case True
  with assms show ?thesis by (intro evaluate_five_distinct)
next
  case False
  have straight: "straight_spec cs = None" using straight_high_spec(2) [OF assms(1,3)] False by blast
  have flush: "\<not> is_flush cs"
  proof
    assume "is_flush cs"
    then have suits: "suit c = suit d" if "c \<in> set cs" "d \<in> set cs" for c d
      using that is_flush_iff [OF assms(1)] by blast
    have "inj_on rank (set cs)"
    proof (rule inj_onI)
      fix c d assume "c \<in> set cs" "d \<in> set cs" "rank c = rank d"
      then show "c = d" using suits [of c d] card_eq_views [of c d] assms(3) by (simp add: list_all_iff)
    qed
    with assms(2) False show False by (simp add: distinct_map)
  qed
  obtain g where g: "rank_profile cs = g" by simp
  have shape: "map fst g \<in> {[4, 1], [3, 2], [3, 1, 1], [2, 2, 1], [2, 1, 1, 1]}"
    using profile_facts [OF assms] shape_ones_distinct [OF assms(1)] False g by auto
  then have len: "length (rank_profile cs) \<le> 5" using g by (auto dest: arg_cong [of _ _ length])
  have ord: "sorted_wrt (\<ge>) g" unfolding g [symmetric] by (simp add: rank_profile_def sorted_wrt_rev)
  have dist: "distinct g" unfolding g [symmetric] by (auto simp: rank_profile_def distinct_map inj_on_def)
  have ev: "evaluate_five cs =
     (let cnt = (\<lambda>i. fst (rank_groups cs ! i)); rk = (\<lambda>i. snd (rank_groups cs ! i))
      in if cnt 0 = 4 then hand_rank_new FOUR_OF_A_KIND [rk 0, rk 1]
         else if cnt 0 = 3 \<and> cnt 1 \<ge> 2 then hand_rank_new FULL_HOUSE [rk 0, rk 1]
         else if cnt 0 = 3 then hand_rank_new THREE_OF_A_KIND [rk 0, rk 1, rk 2]
         else if cnt 0 = 2 \<and> cnt 1 = 2 then
           (if rk 0 > rk 1 then hand_rank_new TWO_PAIR [rk 0, rk 1, rk 2]
            else hand_rank_new TWO_PAIR [rk 1, rk 0, rk 2])
         else if cnt 0 = 2 then hand_rank_new ONE_PAIR [rk 0, rk 1, rk 2, rk 3]
         else hand_rank_new HIGH_CARD (sort_five_desc (map rank cs)))"
    unfolding evaluate_five_def Let_def
    using straight_high_spec(1) [OF assms(1,3)] straight flush by simp
  have nth: "i < length g \<Longrightarrow> rank_groups cs ! i = g ! i" for i
    using profile_nth(1) [OF assms(3) len] g by auto
  consider a b where "g = [(4, a), (1, b)]" | a b where "g = [(3, a), (2, b)]"
    | a b c where "g = [(3, a), (1, b), (1, c)]" | a b c where "g = [(2, a), (2, b), (1, c)]"
    | a b c d where "g = [(2, a), (1, b), (1, c), (1, d)]"
    using shape by (auto simp: map_eq_Cons_conv)
  then show ?thesis
    unfolding ev hand_spec_def g straight is_flush_iff [OF assms(1), symmetric] using flush nth ord dist
    by cases (auto simp: Let_def less_eq_prod_def)
qed

section \<open>Winners\<close>

text \<open>A running-best loop collects the entries that reach the maximum, in order.\<close>

lemma best_loop:
  fixes f :: "'a \<Rightarrow> 'b :: linorder"
  shows "foldl (\<lambda>(best, acc) x. if f x > best then (f x, [g x])
            else if f x = best then (best, acc @ [g x]) else (best, acc)) (b, acc) xs =
     (Max (insert b (f ` set xs)),
      (if Max (insert b (f ` set xs)) = b then acc else []) @
      map g (filter (\<lambda>x. f x = Max (insert b (f ` set xs))) xs))"
proof (induction xs arbitrary: b acc)
  case Nil
  then show ?case by simp
next
  case (Cons x xs)
  define M where "M = Max (insert b (f ` set (x # xs)))"
  have M: "Max (insert (max b (f x)) (f ` set xs)) = M"
    unfolding M_def by (cases "xs = []") (simp_all add: max.assoc)
  then have ge: "max b (f x) \<le> M" by (metis Max_ge finite_imageI finite_insert finite_set insertI1)
  note IH = Cons.IH [of "max b (f x)", unfolded M]
  consider "f x > b" | "f x = b" | "f x < b" by force
  then show ?case
  proof cases
    case 1
    then have mx: "max b (f x) = f x" by simp
    show ?thesis using 1 IH [of "[g x]"] ge unfolding mx M_def [symmetric] by auto
  next
    case 2
    then have mx: "max b (f x) = b" by simp
    show ?thesis using 2 IH [of "acc @ [g x]"] ge unfolding mx M_def [symmetric] by auto
  next
    case 3
    then have mx: "max b (f x) = b" by simp
    show ?thesis using 3 IH [of acc] ge unfolding mx M_def [symmetric] by auto
  qed
qed

lemma length_evaluate_best: "length (hr_kickers (evaluate_best cs)) = 5"
proof (cases "length cs < 5")
  case True
  then show ?thesis by (simp add: evaluate_best_def)
next
  case False
  then have "evaluate_best cs \<in> evaluate_five ` set (five_combinations cs)"
    using evaluate_best_Max [of cs] by (simp add: Max_in)
  then show ?thesis by auto
qed

lemma hand_find_winners_eq:
  assumes "hands \<noteq> []"
  shows "hand_find_winners hands =
    Inr (map fst (filter (\<lambda>h. evaluate_best (snd h) = Max ((\<lambda>h. evaluate_best (snd h)) ` set hands)) hands))"
proof -
  let ?f = "\<lambda>h :: nat \<times> card list. evaluate_best (snd h)"
  have "Max (?f ` set hands) \<in> ?f ` set hands" using assms by (intro Max_in) auto
  then have "rank_bottom \<le> Max (?f ` set hands)"
    using rank_bottom_le length_evaluate_best by (metis (no_types, lifting) image_iff)
  then have M: "Max (insert rank_bottom (?f ` set hands)) = Max (?f ` set hands)"
    using assms by (simp add: max_def)
  have "foldl (\<lambda>(best_rank, best_seats) (seat, cards).
             let r = evaluate_best cards in
             if r > best_rank then (r, [seat])
             else if r = best_rank then (best_rank, best_seats @ [seat])
             else (best_rank, best_seats)) (rank_bottom, []) hands =
      foldl (\<lambda>(best, acc) h. if ?f h > best then (?f h, [fst h])
            else if ?f h = best then (best, acc @ [fst h]) else (best, acc)) (rank_bottom, []) hands"
    by (rule foldl_cong) (auto simp: Let_def)
  then show ?thesis using assms M by (simp add: hand_find_winners_def best_loop)
qed

section \<open>Properties\<close>

text \<open>
  C40. The rank the code computes for five distinct cards, through histogram, sorting
  networks and group comparisons, is the declarative rank of the hand: category and kickers.
\<close>

theorem evaluate_five_correct:
  assumes "length cs = 5" "distinct cs" "list_all card_is_valid cs"
  shows "evaluate_five cs = hand_spec cs"
  using assms by (rule evaluate_five_spec)

theorem evaluate_five_correct_witness:
  "length [Card 0, Card 13, Card 26, Card 5, Card 18] = 5 \<and>
   evaluate_five [Card 0, Card 13, Card 26, Card 5, Card 18] =
   hand_spec [Card 0, Card 13, Card 26, Card 5, Card 18]"
  using evaluate_five_correct [of "[Card 0, Card 13, Card 26, Card 5, Card 18]"]
  by (simp add: card_is_valid_def)

text \<open>
  The best hand of five or more cards is the greatest rank of any five of them, and so
  does not depend on the order in which hole and board cards are listed.
\<close>

theorem evaluate_best_correct:
  assumes "5 \<le> length cs"
  shows "(\<exists>five. mset five \<subseteq># mset cs \<and> length five = 5 \<and> evaluate_best cs = evaluate_five five) \<and>
    (\<forall>five. mset five \<subseteq># mset cs \<and> length five = 5 \<longrightarrow> evaluate_five five \<le> evaluate_best cs) \<and>
    (\<forall>ds. mset ds = mset cs \<longrightarrow> evaluate_best ds = evaluate_best cs)"
proof (intro conjI allI impI)
  let ?S = "evaluate_five ` set (five_combinations cs)"
  note M = evaluate_best_Max [OF assms]
  have "Max ?S \<in> ?S" using M(2) by (intro Max_in) auto
  then obtain five where five: "five \<in> set (five_combinations cs)" "evaluate_best cs = evaluate_five five"
    using M(1) by auto
  moreover have "mset five \<in> {M. M \<subseteq># mset cs \<and> size M = 5}"
    unfolding five_combinations_msets [symmetric] using five(1) by blast
  ultimately show "\<exists>five. mset five \<subseteq># mset cs \<and> length five = 5 \<and> evaluate_best cs = evaluate_five five"
    by auto
next
  fix five assume f: "mset five \<subseteq># mset cs \<and> length five = 5"
  then have "mset five \<in> mset ` set (five_combinations cs)"
    unfolding five_combinations_msets by simp
  then obtain g where g: "g \<in> set (five_combinations cs)" "mset five = mset g" by auto
  have "evaluate_five five = evaluate_five g" using g(2) f by (intro evaluate_five_perm) auto
  also have "\<dots> \<le> Max (evaluate_five ` set (five_combinations cs))" using g(1) by (intro Max_ge) auto
  finally show "evaluate_five five \<le> evaluate_best cs" using evaluate_best_Max(1) [OF assms] by simp
next
  fix ds assume "mset ds = mset cs"
  then show "evaluate_best ds = evaluate_best cs"
    using assms evaluate_best_perm [of cs ds] by simp
qed

theorem evaluate_best_correct_witness:
  "5 \<le> length [Card 0, Card 1, Card 2, Card 3, Card 4, Card 50] \<and>
   evaluate_best [Card 50, Card 4, Card 3, Card 2, Card 1, Card 0] =
   evaluate_best [Card 0, Card 1, Card 2, Card 3, Card 4, Card 50]"
proof -
  have h: "5 \<le> length [Card 0, Card 1, Card 2, Card 3, Card 4, Card 50]" by simp
  have p: "mset [Card 50, Card 4, Card 3, Card 2, Card 1, Card 0] =
      mset [Card 0, Card 1, Card 2, Card 3, Card 4, Card 50]" by simp
  show ?thesis using h evaluate_best_correct [OF h] p by blast
qed

text \<open>
  The winners of a showdown are, in the order of the hands, exactly the seats whose best
  hand is the greatest; there is always at least one.
\<close>

theorem hand_winners_correct:
  assumes "hands \<noteq> []"
  shows "\<exists>best winners. hand_find_winners hands = Inr winners \<and> winners \<noteq> [] \<and>
    (\<forall>h\<in>set hands. evaluate_best (snd h) \<le> best) \<and>
    winners = map fst (filter (\<lambda>h. evaluate_best (snd h) = best) hands)"
proof -
  let ?f = "\<lambda>h :: nat \<times> card list. evaluate_best (snd h)" and ?M = "Max ((\<lambda>h. evaluate_best (snd h)) ` set hands)"
  have "?M \<in> ?f ` set hands" using assms by (intro Max_in) auto
  then obtain h where "h \<in> set hands" "?f h = ?M" by (metis (no_types, lifting) imageE)
  then have "filter (\<lambda>h. ?f h = ?M) hands \<noteq> []" unfolding filter_empty_conv by blast
  moreover have "\<forall>h\<in>set hands. ?f h \<le> ?M" by simp
  ultimately show ?thesis
    using hand_find_winners_eq [OF assms] by (intro exI [of _ ?M] exI conjI) simp_all
qed

theorem hand_winners_correct_witness:
  "[(3, [Card 0]), (7, [Card 0])] \<noteq> ([] :: (nat \<times> card list) list) \<and>
   (\<exists>winners. hand_find_winners [(3, [Card 0]), (7, [Card 0])] = Inr winners \<and> winners \<noteq> [])"
  using hand_winners_correct [of "[(3, [Card 0]), (7, [Card 0])]"] by blast

text \<open>
  With fewer than five cards the code pads the hand with blank cards, but reads the
  missing kickers from empty rank groups: a bare pair of kings is ranked with the kickers
  ace, queen and jack, which nobody holds, instead of zeros.
\<close>

theorem padded_pair_kickers:
  "evaluate_best [card_new 0 13, card_new 1 13] = HandRank ONE_PAIR [13, 14, 12, 11, 0]"
proof -
  have pad: "pad_to_five [card_new 0 13, card_new 1 13] = [Card 11, Card 24, Card 54, Card 55, Card 52]"
    by (simp add: pad_to_five.simps card_new_def min_suit_def suit_counts_def suit_def MAX_SUIT_def
        TWO_def ACE_def replicate_small)
  let ?cs = "[Card 11, Card 24, Card 54, Card 55, Card 52]"
  have mult: "rank_mult ?cs r = (if r = 13 then 2 else if r = 0 then 3 else 0)" for r
    by (auto simp: rank_mult_def rank_def TWO_def)
  have up: "[0..<13] = [0, 1, 2, 3, 4, 5, 6, 7, 8, 9, 10, 11, 12 :: nat]" by (simp add: upt_rec)
  have groups: "rank_groups ?cs = rev (sort (group_list ?cs))" by (rule rank_groups_eq)
  have gl: "group_list ?cs = [(0, 2), (0, 3), (0, 4), (0, 5), (0, 6), (0, 7), (0, 8), (0, 9), (0, 10), (0, 11),
      (0, 12), (2, 13), (0, 14), (0, 0), (0, 0), (0, 0)]"
    by (simp add: group_list_def mult up replicate_small)
  have srt: "sort_five_desc (map rank ?cs) = [13, 13, 0, 0, 0]"
    by (subst sort_five_eq) (simp_all add: rank_def TWO_def)
  have gs: "rank_groups ?cs = [(2, 13), (0, 14), (0, 12), (0, 11), (0, 10), (0, 9), (0, 8), (0, 7), (0, 6), (0, 5),
      (0, 4), (0, 3), (0, 2), (0, 0), (0, 0), (0, 0)]"
    by (simp add: groups gl)
  have "evaluate_five ?cs = HandRank ONE_PAIR [13, 14, 12, 11, 0]"
    unfolding evaluate_five_def srt gs
    by (simp add: straight_high_def is_flush_def suit_def hand_rank_new_def upt_rec)
  then show ?thesis using pad by (simp add: evaluate_best_def)
qed

end
