(* ===== verification/Poker_Settlement.thy ===== *)
theory Poker_Settlement
  imports Poker_Table Poker_SidePot Poker_HandEval
begin

text \<open>
  Settlement (\<^verbatim>\<open>poker_l1/.../core/settlement.rs\<close>): from the table and one or two boards to a
  plan of awards: side pots, rake, winners per pot and runout, odd chips, and the validation
  of a plan. Fixed arrays of nine seats, nine pots and two runouts are lists. The digest of a
  plan, a hash of its encoding, is not modelled.
\<close>

section \<open>Boards\<close>

definition SETTLEMENT_PLAN_VERSION :: nat where "SETTLEMENT_PLAN_VERSION = 3"
definition MAX_RUNOUTS :: nat where "MAX_RUNOUTS = 2"
definition SETTLEMENT_SEATS :: nat where "SETTLEMENT_SEATS = 9"

datatype settlement_boards =
    BoardsSingle "card list"
  | BoardsTwice rit_start_street "card list" "card list"

datatype settlement_schedule = ScheduleSingle | ScheduleTwice rit_start_street

fun schedule_count :: "settlement_schedule \<Rightarrow> nat" where
  "schedule_count ScheduleSingle = 1"
| "schedule_count (ScheduleTwice _) = 2"

fun schedule_shared_board_len :: "settlement_schedule \<Rightarrow> nat" where
  "schedule_shared_board_len ScheduleSingle = 0"
| "schedule_shared_board_len (ScheduleTwice start) = rit_shared_board_len start"

fun boards_runout_count :: "settlement_boards \<Rightarrow> nat" where
  "boards_runout_count (BoardsSingle _) = 1"
| "boards_runout_count (BoardsTwice _ _ _) = 2"

fun boards_shared_len :: "settlement_boards \<Rightarrow> nat" where
  "boards_shared_len (BoardsSingle _) = 0"
| "boards_shared_len (BoardsTwice start _ _) = rit_shared_board_len start"

fun boards_schedule :: "settlement_boards \<Rightarrow> settlement_schedule" where
  "boards_schedule (BoardsSingle _) = ScheduleSingle"
| "boards_schedule (BoardsTwice start _ _) = ScheduleTwice start"

fun board1 :: "settlement_boards \<Rightarrow> card list" where
  "board1 (BoardsSingle b) = b"
| "board1 (BoardsTwice _ b _) = b"

fun board2 :: "settlement_boards \<Rightarrow> card list" where
  "board2 (BoardsSingle _) = []"
| "board2 (BoardsTwice _ _ b) = b"

definition runout_board :: "settlement_boards \<Rightarrow> nat \<Rightarrow> card list" where
  "runout_board bs k = (if k = 0 then board1 bs else board2 bs)"

text \<open>Inserting the ids of a list of cards into a hash set, refusing duplicates.\<close>

definition insert_ids :: "poker_error \<Rightarrow> nat list \<Rightarrow> card list \<Rightarrow> nat list res" where
  "insert_ids err seen cs =
     try_fold (\<lambda>seen c. if to_index c \<in> set seen then Inl err else Inr (to_index c # seen)) seen cs"

definition boards_validate :: "settlement_boards \<Rightarrow> unit res" where
  "boards_validate bs =
     (if length (board1 bs) \<noteq> 5 then Inl (Serialization ''settlement: board 1 must contain exactly 5 cards'')
      else rbind (case bs of
          BoardsTwice start b1 b2 \<Rightarrow>
            if length b2 \<noteq> 5 then Inl (Serialization ''settlement: board 2 must contain exactly 5 cards'')
            else if take (rit_shared_board_len start) b1 \<noteq> take (rit_shared_board_len start) b2
            then Inl (Serialization ''settlement: runout boards disagree on their shared prefix'')
            else Inr ()
        | _ \<Rightarrow> Inr ()) (\<lambda>_.
        if list_ex (\<lambda>c. \<not> card_is_valid c) (board1 bs @ board2 bs)
        then Inl (Serialization ''settlement: runout contains an invalid card'')
        else rbind (insert_ids (Serialization ''settlement: duplicate card within board 1'') [] (board1 bs)) (\<lambda>seen.
          rbind (case bs of
              BoardsTwice start _ b2 \<Rightarrow>
                insert_ids (Serialization ''settlement: duplicate non-shared card across runouts'') seen
                  (drop (rit_shared_board_len start) b2)
            | _ \<Rightarrow> Inr seen) (\<lambda>_. Inr ()))))"

section \<open>Plans\<close>

record runout_pot_plan =
  rp_amount :: nat
  rp_winner_mask :: "16 word"
  rp_ranks :: "hand_rank option list"
  rp_awards :: "nat list"

definition runout_inactive :: runout_pot_plan where
  "runout_inactive = \<lparr>rp_amount = 0, rp_winner_mask = 0, rp_ranks = replicate SETTLEMENT_SEATS None,
     rp_awards = replicate SETTLEMENT_SEATS 0\<rparr>"

definition runout_is_active :: "runout_pot_plan \<Rightarrow> bool" where
  "runout_is_active r \<longleftrightarrow> rp_winner_mask r \<noteq> 0"

record settlement_pot_plan =
  pp_index :: nat
  pp_gross :: nat
  pp_rake :: nat
  pp_net :: nat
  pp_eligible :: "16 word"
  pp_runouts :: "runout_pot_plan list"

definition pot_plan_inactive :: settlement_pot_plan where
  "pot_plan_inactive = \<lparr>pp_index = 0, pp_gross = 0, pp_rake = 0, pp_net = 0, pp_eligible = 0,
     pp_runouts = replicate MAX_RUNOUTS runout_inactive\<rparr>"

definition is_contested :: "settlement_pot_plan \<Rightarrow> bool" where
  "is_contested p \<longleftrightarrow> count_ones (pp_eligible p) \<ge> 2"

record settlement_plan =
  sp_version :: nat
  sp_schedule :: settlement_schedule
  sp_gross_pot :: nat
  sp_rake :: nat
  sp_total_awards :: nat
  sp_winner_mask :: "16 word"
  sp_awards :: "nat list"
  sp_pot_count :: nat
  sp_pots :: "settlement_pot_plan list"

definition active_pots :: "settlement_plan \<Rightarrow> settlement_pot_plan list" where
  "active_pots p = take (sp_pot_count p) (sp_pots p)"

section \<open>Validation of a plan\<close>

definition valid_seat_mask :: "nat \<Rightarrow> 16 word" where
  "valid_seat_mask seat_count = (if seat_count \<ge> 16 then - 1 else push_bit seat_count 1 - 1)"

definition checked_sum :: "poker_error \<Rightarrow> nat list \<Rightarrow> nat res" where
  "checked_sum e xs = try_fold (\<lambda>s x. ok_or (checked_add s x) e) 0 xs"

definition add_awards :: "poker_error \<Rightarrow> nat list \<Rightarrow> nat list \<Rightarrow> nat list res" where
  "add_awards e acc xs =
     try_fold (\<lambda>acc k. rbind (ok_or (checked_add (acc ! k) (xs ! k)) e) (\<lambda>v. Inr (acc[k := v])))
       acc [0..<length xs]"

record validation =
  va_gross :: nat
  va_rake :: nat
  va_awards :: "nat list"
  va_winners :: "16 word"

text \<open>One runout slot of a pot; the last component is the running total of the runouts.\<close>

definition validate_runout ::
    "settlement_pot_plan \<Rightarrow> nat \<Rightarrow> validation \<times> nat \<Rightarrow> nat \<Rightarrow> (validation \<times> nat) res" where
  "validate_runout pot active_runouts st k =
     (let (v, total) = st; r = pp_runouts pot ! k in
      if k \<ge> active_runouts then
        (if r \<noteq> runout_inactive then Inl (Serialization ''settlement: inactive runout slot is non-zero'')
         else Inr (v, total))
      else if \<not> runout_is_active r then Inl (Serialization ''settlement: active runout has no winners'')
      else if rp_winner_mask r AND NOT (pp_eligible pot) \<noteq> 0
      then Inl (Serialization ''settlement: runout winner is not eligible for the pot'')
      else if \<not> is_contested pot \<and> (rp_winner_mask r \<noteq> pp_eligible pot \<or> rp_amount r \<noteq> pp_net pot \<or>
              list_ex (\<lambda>x. x \<noteq> None) (rp_ranks r))
      then Inl (Serialization ''settlement: uncontested pot projection is non-canonical'')
      else rbind (checked_sum (Serialization ''settlement: runout award overflow'') (rp_awards r)) (\<lambda>paid.
        if paid \<noteq> rp_amount r then Inl (Serialization ''settlement: runout amount != awards'')
        else rbind (ok_or (checked_add total (rp_amount r)) (Serialization ''settlement: runout total overflow'')) (\<lambda>total'.
        rbind (add_awards (Serialization ''settlement: seat award overflow'') (va_awards v) (rp_awards r)) (\<lambda>aw.
          Inr (v\<lparr>va_winners := va_winners v OR rp_winner_mask r, va_awards := aw\<rparr>, total')))))"

definition validate_pot ::
    "settlement_plan \<Rightarrow> nat \<Rightarrow> validation \<Rightarrow> nat \<Rightarrow> validation res" where
  "validate_pot plan seat_count v index =
     (let pot = active_pots plan ! index in
      if pp_index pot \<noteq> index then Inl (Serialization ''settlement: non-canonical pot index'')
      else if pp_eligible pot AND NOT (valid_seat_mask seat_count) \<noteq> 0
      then Inl (Serialization ''settlement: pot eligible mask exceeds seat bounds'')
      else if checked_sub (pp_gross pot) (pp_rake pot) \<noteq> Some (pp_net pot)
      then Inl (Serialization ''settlement: pot gross/rake/net mismatch'')
      else if count_ones (pp_eligible pot) = 0 then Inl (Serialization ''settlement: pot has no eligible seats'')
      else rbind (ok_or (checked_add (va_gross v) (pp_gross pot)) (Serialization ''settlement: gross pot sum overflow'')) (\<lambda>g.
      rbind (ok_or (checked_add (va_rake v) (pp_rake pot)) (Serialization ''settlement: rake sum overflow'')) (\<lambda>rk.
      rbind (try_fold (validate_runout pot (if is_contested pot then schedule_count (sp_schedule plan) else 1))
               (v\<lparr>va_gross := g, va_rake := rk\<rparr>, 0) [0..<length (pp_runouts pot)]) (\<lambda>(v', total).
        if total \<noteq> pp_net pot
        then Inl (Serialization ''settlement: runout split does not equal pot net amount'')
        else Inr v'))))"

definition plan_validate :: "settlement_plan \<Rightarrow> nat \<Rightarrow> unit res" where
  "plan_validate plan seat_count =
     (if sp_version plan \<noteq> SETTLEMENT_PLAN_VERSION then Inl (Serialization ''settlement: unsupported plan version'')
      else if sp_pot_count plan > SETTLEMENT_SEATS
      then Inl (Serialization ''settlement: pot_count exceeds fixed width'')
      else if seat_count > SETTLEMENT_SEATS
      then Inl (Serialization ''settlement: plan exceeds fixed seat/pot bounds'')
      else if list_ex (\<lambda>p. p \<noteq> pot_plan_inactive) (drop (sp_pot_count plan) (sp_pots plan))
      then Inl (Serialization ''settlement: inactive pot slot is non-canonical'')
      else if checked_sub (sp_gross_pot plan) (sp_rake plan) \<noteq> Some (sp_total_awards plan)
      then Inl (Serialization ''settlement: gross_pot != rake + total_awards'')
      else rbind (try_fold (validate_pot plan seat_count)
             \<lparr>va_gross = 0, va_rake = 0, va_awards = replicate SETTLEMENT_SEATS 0, va_winners = 0\<rparr>
             [0..<length (active_pots plan)]) (\<lambda>v.
        if va_gross v \<noteq> sp_gross_pot plan \<or> va_rake v \<noteq> sp_rake plan \<or> va_awards v \<noteq> sp_awards plan \<or>
           va_winners v \<noteq> sp_winner_mask plan
        then Inl (Serialization ''settlement: aggregate projection mismatch'')
        else if sp_winner_mask plan AND NOT (valid_seat_mask seat_count) \<noteq> 0
        then Inl (Serialization ''settlement: winner mask exceeds seat bounds'')
        else try_fold (\<lambda>_ k.
           if sp_awards plan ! k > 0 \<and> \<not> bit (sp_winner_mask plan) k
           then Inl (Serialization ''settlement: award paid to non-winner seat'')
           else if k \<ge> seat_count \<and> sp_awards plan ! k \<noteq> 0
           then Inl (Serialization ''settlement: award exceeds seat bounds'')
           else Inr ()) () [0..<length (sp_awards plan)]))"

section \<open>Rake, winners and shares\<close>

definition compute_rake :: "table_rules \<Rightarrow> nat \<Rightarrow> nat res" where
  "compute_rake rules gross =
     (if r_rake_mode rules = RAKE_MODE_NONE then Inr 0
      else if r_rake_mode rules = RAKE_MODE_PERCENTAGE then
        Inr (min (min (gross * r_rake_bps rules div 10000) (r_rake_cap rules)) gross)
      else Inl (Serialization ''settlement: unsupported rake mode''))"

definition rake_step :: "nat \<Rightarrow> nat list \<times> nat \<Rightarrow> side_pot \<Rightarrow> nat list \<times> nat" where
  "rake_step rake_bps st pot =
     (let (allocations, cap_remaining) = st in
      if count_ones (sp_eligible pot) < 2 then (allocations @ [0], cap_remaining)
      else let raw = (sp_amount pot * rake_bps div 10000) mod u64_bound; taken = min raw cap_remaining
           in (allocations @ [taken], cap_remaining - taken))"

definition allocate_rake_fixed_rate :: "side_pot list \<Rightarrow> nat \<Rightarrow> nat \<Rightarrow> nat \<Rightarrow> nat list res" where
  "allocate_rake_fixed_rate pots rake_mode rake_bps rake_cap =
     (if rake_mode = RAKE_MODE_NONE then Inr (replicate (length pots) 0)
      else if rake_mode = RAKE_MODE_PERCENTAGE then
        Inr (fst (foldl (rake_step rake_bps) ([], rake_cap) pots))
      else Inl (Serialization ''settlement: unsupported rake mode''))"

definition split_across_runouts :: "nat \<Rightarrow> nat \<Rightarrow> nat list" where
  "split_across_runouts amount runout_count =
     (if runout_count = 1 then [amount, 0] else [amount div 2 + amount mod 2, amount div 2])"

record ranking =
  rk_ranks :: "hand_rank option list"
  rk_best :: "hand_rank option"
  rk_winners :: "16 word"

definition rank_seat :: "'pt table \<Rightarrow> 16 word \<Rightarrow> card list \<Rightarrow> ranking \<Rightarrow> nat \<Rightarrow> ranking res" where
  "rank_seat t eligible board st i =
     (if \<not> is_eligible eligible i then Inr st
      else case seat_hand (t_seats t ! i) of
        None \<Rightarrow> Inl (Serialization ''settlement: eligible seat has no in-hand payload'')
      | Some h \<Rightarrow>
          if fc_len h \<noteq> 2 then Inl (Serialization ''settlement: eligible seat has no complete hand'')
          else let r = evaluate_best (as_slice h @ board);
                   ranks = (rk_ranks st)[i := Some r] in
            Inr (case rk_best st of
                None \<Rightarrow> \<lparr>rk_ranks = ranks, rk_best = Some r, rk_winners = seat_mask_bit i\<rparr>
              | Some best \<Rightarrow>
                  if r > best then \<lparr>rk_ranks = ranks, rk_best = Some r, rk_winners = seat_mask_bit i\<rparr>
                  else if r = best then \<lparr>rk_ranks = ranks, rk_best = Some best, rk_winners = rk_winners st OR seat_mask_bit i\<rparr>
                  else \<lparr>rk_ranks = ranks, rk_best = Some best, rk_winners = rk_winners st\<rparr>))"

definition find_winners ::
    "'pt table \<Rightarrow> 16 word \<Rightarrow> card list \<Rightarrow> (16 word \<times> hand_rank option list) res" where
  "find_winners t eligible board =
     rbind (try_fold (rank_seat t eligible board)
        \<lparr>rk_ranks = replicate SETTLEMENT_SEATS None, rk_best = None, rk_winners = 0\<rparr> [0..<max_players t]) (\<lambda>st.
       if rk_winners st = 0 then Inl (Serialization ''settlement: side pot has no ranked eligible winner'')
       else Inr (rk_winners st, rk_ranks st))"

text \<open>The winners clockwise from the seat after the button.\<close>

definition ordered_winners :: "16 word \<Rightarrow> nat \<Rightarrow> nat \<Rightarrow> nat list" where
  "ordered_winners winner_mask button seat_count =
     filter (\<lambda>s. winner_mask AND seat_mask_bit s \<noteq> 0)
       (map (\<lambda>offset. (button + offset) mod seat_count) [1..<seat_count + 1])"

definition split_among_winners :: "nat \<Rightarrow> 16 word \<Rightarrow> nat \<Rightarrow> nat \<Rightarrow> nat list res" where
  "split_among_winners amount winner_mask button seat_count =
     (let ordered = ordered_winners winner_mask button seat_count in
      if ordered = [] then Inl (Serialization ''settlement: winner mask is empty or outside the table'')
      else let share = amount div length ordered; remainder = amount mod length ordered in
        Inr (foldl (\<lambda>awards pos. awards[ordered ! pos := share + of_bool (pos < remainder)])
               (replicate SETTLEMENT_SEATS 0) [0..<length ordered]))"

section \<open>Derivation of plans\<close>

definition validate_exposed_cards :: "'pt table \<Rightarrow> settlement_boards \<Rightarrow> unit res" where
  "validate_exposed_cards t bs =
     rbind (try_fold (\<lambda>seen s.
         if \<not> seat_is_occupied s \<or> seat_is_folded s \<or> seat_has_left_hand s then Inr seen
         else case seat_hand s of
           None \<Rightarrow> Inl (Serialization ''settlement: eligible seat has no in-hand payload'')
         | Some h \<Rightarrow>
             if fc_len h \<noteq> 2 \<or> list_ex (\<lambda>c. \<not> card_is_valid c) (as_slice h)
             then Inl (Serialization ''settlement: eligible seat must expose exactly two valid cards'')
             else insert_ids (Serialization ''settlement: duplicate exposed hole card'') seen (as_slice h))
       [] (t_seats t)) (\<lambda>seen.
     if list_ex (\<lambda>c. to_index c \<in> set seen) (board1 bs)
     then Inl (Serialization ''settlement: board card duplicates an exposed hole card'')
     else if boards_runout_count bs = 2 \<and>
             list_ex (\<lambda>c. to_index c \<in> set seen) (drop (boards_shared_len bs) (board2 bs))
     then Inl (Serialization ''settlement: second board duplicates an exposed hole card'')
     else Inr ())"

definition fold_win_plan :: "nat \<Rightarrow> nat \<Rightarrow> nat \<Rightarrow> nat \<Rightarrow> settlement_plan" where
  "fold_win_plan winner gross_pot rake net =
     (let winner_bit = seat_mask_bit winner;
          awards = (replicate SETTLEMENT_SEATS 0)[winner := net];
          pot = \<lparr>pp_index = 0, pp_gross = gross_pot, pp_rake = rake, pp_net = net, pp_eligible = winner_bit,
                 pp_runouts = [\<lparr>rp_amount = net, rp_winner_mask = winner_bit,
                   rp_ranks = replicate SETTLEMENT_SEATS None, rp_awards = awards\<rparr>, runout_inactive]\<rparr>
      in \<lparr>sp_version = SETTLEMENT_PLAN_VERSION, sp_schedule = ScheduleSingle, sp_gross_pot = gross_pot,
          sp_rake = rake, sp_total_awards = net, sp_winner_mask = winner_bit, sp_awards = awards,
          sp_pot_count = 1, sp_pots = (replicate SETTLEMENT_SEATS pot_plan_inactive)[0 := pot]\<rparr>)"

definition derive_fold_win_plan :: "'pt table \<Rightarrow> settlement_plan res" where
  "derive_fold_win_plan t =
     (if max_players t > SETTLEMENT_SEATS then Inl (Serialization ''settlement: table exceeds MAX_PLAYERS'')
      else let seats = t_seats t;
               unfolded = filter (\<lambda>i. seat_is_occupied (seats ! i) \<and> \<not> seat_is_folded (seats ! i) \<and>
                                      \<not> seat_has_left_hand (seats ! i)) [0..<length seats] in
        case unfolded of
          [winner] \<Rightarrow>
            let bets = map seat_total_bet seats in
            rbind (checked_sum (Serialization ''settlement: bet sum overflow'') bets) (\<lambda>gross_pot.
            if gross_pot > MAX_TOTAL_BET \<or> gross_pot \<noteq> t_pot t
            then Inl (Serialization ''settlement: contribution total does not match table pot'')
            else let second_max = foldl max 0 (map (\<lambda>i. bets ! i) (filter (\<lambda>i. i \<noteq> winner) [0..<length bets]));
                     uncalled = saturating_sub (bets ! winner) second_max;
                     contested_gross = saturating_sub gross_pot uncalled;
                     flop_seen = length (as_slice (t_community_cards t)) \<ge> 3 in
              rbind (if flop_seen then compute_rake (t_rules t) contested_gross else Inr 0) (\<lambda>rake.
              rbind (ok_or (checked_sub gross_pot rake) (Serialization ''settlement: rake exceeds pot'')) (\<lambda>net.
              let plan = fold_win_plan winner gross_pot rake net
              in rbind (plan_validate plan (max_players t)) (\<lambda>_. Inr plan))))
        | _ \<Rightarrow> Inl (Serialization ''settlement: fold-win plan requires exactly one unfolded seat''))"

text \<open>One runout of a contested pot: its winners, their shares, and the plan so far.\<close>

definition plan_runout ::
    "'pt table \<Rightarrow> settlement_boards \<Rightarrow> 16 word \<Rightarrow> nat list \<Rightarrow>
     runout_pot_plan list \<times> 16 word \<times> nat list \<Rightarrow> nat \<Rightarrow> (runout_pot_plan list \<times> 16 word \<times> nat list) res" where
  "plan_runout t bs eligible amounts st k =
     (let (runouts, winners, awards) = st in
      rbind (find_winners t eligible (runout_board bs k)) (\<lambda>(mask, ranks).
      rbind (split_among_winners (amounts ! k) mask (t_button t) (max_players t)) (\<lambda>aw.
      rbind (add_awards (Serialization ''settlement: aggregate award overflow'') awards aw) (\<lambda>awards'.
        Inr (runouts[k := \<lparr>rp_amount = amounts ! k, rp_winner_mask = mask, rp_ranks = ranks, rp_awards = aw\<rparr>],
             winners OR mask, awards')))))"

definition plan_pot ::
    "'pt table \<Rightarrow> settlement_boards \<Rightarrow> side_pot list \<Rightarrow> nat list \<Rightarrow>
     settlement_pot_plan list \<times> 16 word \<times> nat list \<Rightarrow> nat \<Rightarrow> (settlement_pot_plan list \<times> 16 word \<times> nat list) res" where
  "plan_pot t bs pots pot_rakes st index =
     (let (plans, winners, awards) = st; pot = pots ! index in
      if sp_amount pot = 0 \<or> sp_eligible pot = 0
      then Inl (Serialization ''settlement: pot has zero amount or no eligible player'')
      else rbind (ok_or (checked_sub (sp_amount pot) (pot_rakes ! index))
             (Serialization ''settlement: pot rake exceeds gross amount'')) (\<lambda>net.
        rbind (if count_ones (sp_eligible pot) \<ge> 2 then
                 try_fold (plan_runout t bs (sp_eligible pot) (split_across_runouts net (boards_runout_count bs)))
                   ([runout_inactive, runout_inactive], winners, awards) [0..<boards_runout_count bs]
               else
                 rbind (split_among_winners net (sp_eligible pot) (t_button t) (max_players t)) (\<lambda>aw.
                 rbind (add_awards (Serialization ''settlement: aggregate award overflow'') awards aw) (\<lambda>awards'.
                   Inr ([\<lparr>rp_amount = net, rp_winner_mask = sp_eligible pot,
                          rp_ranks = replicate SETTLEMENT_SEATS None, rp_awards = aw\<rparr>, runout_inactive],
                        winners OR sp_eligible pot, awards')))) (\<lambda>(runouts, winners', awards').
          Inr (plans[index := \<lparr>pp_index = index, pp_gross = sp_amount pot, pp_rake = pot_rakes ! index, pp_net = net,
                 pp_eligible = sp_eligible pot, pp_runouts = runouts\<rparr>], winners', awards'))))"

definition derive_settlement_plan_for_boards :: "'pt table \<Rightarrow> settlement_boards \<Rightarrow> settlement_plan res" where
  "derive_settlement_plan_for_boards t bs =
     rbind (boards_validate bs) (\<lambda>_.
     if max_players t > SETTLEMENT_SEATS then Inl (Serialization ''settlement: table exceeds MAX_PLAYERS'')
     else rbind (validate_exposed_cards t bs) (\<lambda>_.
     let bets = map seat_total_bet (t_seats t);
         folded = map (\<lambda>s. seat_is_folded s \<or> seat_has_left_hand s) (t_seats t);
         all_in = map seat_is_all_in (t_seats t) in
     rbind (case calculate_side_pots bets folded all_in of
              Inl _ \<Rightarrow> Inl (Serialization ''settlement: side-pot calculation failed'') | Inr r \<Rightarrow> Inr r) (\<lambda>result.
     let gross_pot = spr_total result in
     if gross_pot > MAX_TOTAL_BET \<or> gross_pot \<noteq> t_pot t
     then Inl (Serialization ''settlement: contribution total does not match table pot'')
     else rbind (try_fold (\<lambda>s p. if count_ones (sp_eligible p) \<ge> 2
            then ok_or (checked_add s (sp_amount p)) (Serialization ''settlement: contested pot sum overflow'') else Inr s)
            0 (spr_active result)) (\<lambda>contested_gross.
     rbind (allocate_rake_fixed_rate (spr_active result) (r_rake_mode (t_rules t)) (r_rake_bps (t_rules t)) (r_rake_cap (t_rules t))) (\<lambda>pot_rakes.
     rbind (checked_sum (Serialization ''settlement: rake sum overflow'') pot_rakes) (\<lambda>rake.
     rbind (try_fold (plan_pot t bs (spr_active result) pot_rakes)
              (replicate SETTLEMENT_SEATS pot_plan_inactive, 0, replicate SETTLEMENT_SEATS 0)
              [0..<length (spr_active result)]) (\<lambda>(plans, winners, awards).
     rbind (checked_sum (Serialization ''settlement: total award overflow'') awards) (\<lambda>paid.
     let plan = \<lparr>sp_version = SETTLEMENT_PLAN_VERSION, sp_schedule = boards_schedule bs, sp_gross_pot = gross_pot,
                 sp_rake = rake, sp_total_awards = paid, sp_winner_mask = winners, sp_awards = awards,
                 sp_pot_count = spr_count result, sp_pots = plans\<rparr>
     in rbind (plan_validate plan (max_players t)) (\<lambda>_. Inr plan)))))))))"

definition derive_settlement_plan :: "'pt table \<Rightarrow> settlement_plan res" where
  "derive_settlement_plan t =
     derive_settlement_plan_for_boards t (BoardsSingle (as_slice (t_community_cards t)))"

section \<open>Shares of the winners\<close>

lemma foldl_distinct_update:
  fixes f :: "nat \<Rightarrow> nat"
  assumes "distinct ord" "set ord \<subseteq> {..<n}" "m \<le> length ord"
  defines "r \<equiv> foldl (\<lambda>a p. a[ord ! p := f p]) (replicate n 0) [0..<m]"
  shows "length r = n" and "\<And>p. p < m \<Longrightarrow> r ! (ord ! p) = f p"
    and "\<And>k. k < n \<Longrightarrow> k \<notin> set (take m ord) \<Longrightarrow> r ! k = 0" and "sum_list r = sum f {..<m}"
proof -
  have "length r = n \<and> (\<forall>p<m. r ! (ord ! p) = f p) \<and> (\<forall>k<n. k \<notin> set (take m ord) \<longrightarrow> r ! k = 0) \<and>
      sum_list r = sum f {..<m}"
    using assms(3) unfolding r_def
  proof (induction m)
    case 0
    then show ?case by (simp add: sum_list_replicate)
  next
    case (Suc m)
    let ?r = "foldl (\<lambda>a p. a[ord ! p := f p]) (replicate n 0) [0..<m]"
    have m: "m < length ord" using Suc.prems by simp
    have IH: "length ?r = n" "\<forall>p<m. ?r ! (ord ! p) = f p" "\<forall>k<n. k \<notin> set (take m ord) \<longrightarrow> ?r ! k = 0"
      "sum_list ?r = sum f {..<m}" using Suc by auto
    have lt: "ord ! m < n" using assms(2) m nth_mem by fastforce
    have fresh: "ord ! m \<notin> set (take m ord)" using assms(1) m by (metis distinct_take distinct.simps(2)
          distinct_append take_Suc_conv_app_nth not_distinct_conv_prefix in_set_conv_decomp)
    have tk: "set (take (Suc m) ord) = insert (ord ! m) (set (take m ord))"
      using m by (simp add: take_Suc_conv_app_nth)
    have ne: "ord ! p \<noteq> ord ! m" if "p < m" for p using that assms(1) m by (simp add: nth_eq_iff_index_eq)
    have "sum_list (?r[ord ! m := f m]) + ?r ! (ord ! m) = sum_list ?r + f m"
      using lt IH(1) by (intro sum_list_update_nat) simp
    then have "sum_list (?r[ord ! m := f m]) = sum f {..<Suc m}" using IH lt fresh by simp
    moreover have "?r[ord ! m := f m] ! (ord ! p) = f p" if "p < Suc m" for p
      using that IH lt ne [of p] by (cases "p = m") auto
    moreover have "?r[ord ! m := f m] ! k = 0" if "k < n" "k \<notin> set (take (Suc m) ord)" for k
      using that IH tk by auto
    ultimately show ?case using IH by simp
  qed
  then show "length r = n" "\<And>p. p < m \<Longrightarrow> r ! (ord ! p) = f p"
    "\<And>k. k < n \<Longrightarrow> k \<notin> set (take m ord) \<Longrightarrow> r ! k = 0" "sum_list r = sum f {..<m}" by auto
qed

lemma ordered_winners_facts:
  assumes "n \<le> 9"
  shows "distinct (ordered_winners m b n)" and "set (ordered_winners m b n) = {s. s < n \<and> bit m s}"
proof -
  show "set (ordered_winners m b n) = {s. s < n \<and> bit m s}"
    unfolding ordered_winners_def set_filter seat_circle by (auto simp: mask_simps)
  show "distinct (ordered_winners m b n)" unfolding ordered_winners_def using seat_circle(1) by (rule distinct_filter)
qed

lemma sum_shares: "0 < k \<Longrightarrow> (\<Sum>p<k. a div k + of_bool (p < a mod k)) = (a :: nat)"
proof -
  assume k: "0 < k"
  have "{..<k} \<inter> {p. p < a mod k} = {..<a mod k}" using k by (auto intro: less_trans mod_less_divisor)
  then have "(\<Sum>p<k. of_bool (p < a mod k)) = a mod k" by (simp add: sum_of_bool_eq)
  then show ?thesis by (simp add: sum.distrib)
qed

lemma split_among_winners_Inr:
  assumes "split_among_winners a m b n = Inr aw" "n \<le> 9"
  defines "ord \<equiv> ordered_winners m b n"
  shows "ord \<noteq> []" "length aw = 9" "sum_list aw = a"
    and "\<And>p. p < length ord \<Longrightarrow> aw ! (ord ! p) = a div length ord + of_bool (p < a mod length ord)"
    and "\<And>k. k < 9 \<Longrightarrow> k \<notin> set ord \<Longrightarrow> aw ! k = 0"
proof -
  note o = ordered_winners_facts [OF assms(2), of m b, folded ord_def]
  have sub: "set ord \<subseteq> {..<9}" unfolding o(2) using assms(2) by (auto intro: less_le_trans)
  have aw: "ord \<noteq> []" "aw = foldl (\<lambda>x p. x[ord ! p := a div length ord + of_bool (p < a mod length ord)])
      (replicate 9 0) [0..<length ord]"
  proof -
    have e: "split_among_winners a m b n = (if ord = [] then Inl (Serialization ''settlement: winner mask is empty or outside the table'')
        else Inr (foldl (\<lambda>x p. x[ord ! p := a div length ord + of_bool (p < a mod length ord)])
          (replicate 9 0) [0..<length ord]))"
      by (simp only: split_among_winners_def ord_def SETTLEMENT_SEATS_def Let_def)
    show "ord \<noteq> []" using assms(1) unfolding e by (rule contrapos_pn) simp
    then show "aw = foldl (\<lambda>x p. x[ord ! p := a div length ord + of_bool (p < a mod length ord)])
      (replicate 9 0) [0..<length ord]" using assms(1) unfolding e by simp
  qed
  note u = foldl_distinct_update [OF o(1) sub order_refl,
      where f = "\<lambda>p. a div length ord + of_bool (p < a mod length ord)", folded aw(2)]
  show "ord \<noteq> []" by (rule aw(1))
  show "length aw = 9" by (rule u(1))
  show "sum_list aw = a" using u(4) sum_shares [of "length ord" a] aw(1) by simp
  show "\<And>p. p < length ord \<Longrightarrow> aw ! (ord ! p) = a div length ord + of_bool (p < a mod length ord)"
    by (rule u(2))
  show "\<And>k. k < 9 \<Longrightarrow> k \<notin> set ord \<Longrightarrow> aw ! k = 0" using u(3) by simp
qed

lemma split_among_winners_ok:
  "n \<le> 9 \<Longrightarrow> s < n \<Longrightarrow> bit m s \<Longrightarrow> \<exists>aw. split_among_winners a m b n = Inr aw"
proof -
  assume "n \<le> 9" "s < n" "bit m s"
  then have "s \<in> set (ordered_winners m b n)" by (simp add: ordered_winners_facts(2))
  then have "ordered_winners m b n \<noteq> []" by force
  then show ?thesis by (simp add: split_among_winners_def Let_def)
qed

section \<open>Rake\<close>

lemma rake_foldl:
  "\<exists>ts rest. foldl (rake_step bps) (al, cap) pots = (al @ ts, rest) \<and> length ts = length pots \<and>
     sum_list ts + rest = cap \<and>
     (\<forall>i<length pots. (count_ones (sp_eligible (pots ! i)) < 2 \<longrightarrow> ts ! i = 0) \<and>
        ts ! i \<le> sp_amount (pots ! i) * bps div 10000)"
proof (induction pots arbitrary: al cap)
  case Nil
  then show ?case by simp
next
  case (Cons p pots)
  define x where "x = (if count_ones (sp_eligible p) < 2 then 0
      else min ((sp_amount p * bps div 10000) mod u64_bound) cap)"
  have step: "rake_step bps (al, cap) p = (al @ [x], cap - x)" and x: "x \<le> cap" "x \<le> sp_amount p * bps div 10000"
    "count_ones (sp_eligible p) < 2 \<longrightarrow> x = 0"
    by (auto simp: x_def rake_step_def Let_def intro: min.coboundedI1 mod_less_eq_dividend)
  from Cons [of "al @ [x]" "cap - x"] obtain ts rest where r:
    "foldl (rake_step bps) (al @ [x], cap - x) pots = ((al @ [x]) @ ts, rest)" "length ts = length pots"
    "sum_list ts + rest = cap - x"
    "\<forall>i<length pots. (count_ones (sp_eligible (pots ! i)) < 2 \<longrightarrow> ts ! i = 0) \<and>
        ts ! i \<le> sp_amount (pots ! i) * bps div 10000" by blast
  have "foldl (rake_step bps) (al, cap) (p # pots) = (al @ (x # ts), rest)" using r(1) by (simp add: step)
  moreover have "sum_list (x # ts) + rest = cap" using r(3) x(1) by simp
  moreover have "\<forall>i<length (p # pots). (count_ones (sp_eligible ((p # pots) ! i)) < 2 \<longrightarrow> (x # ts) ! i = 0) \<and>
        (x # ts) ! i \<le> sp_amount ((p # pots) ! i) * bps div 10000"
    using r(4) x by (simp add: nth_Cons split: nat.split)
  ultimately show ?case using r(2) by (intro exI [of _ "x # ts"] exI [of _ rest]) simp
qed

lemma bps_le: "bps \<le> 10000 \<Longrightarrow> a * bps div 10000 \<le> (a :: nat)"
proof -
  assume "bps \<le> 10000"
  then have "a * bps div 10000 \<le> a * 10000 div 10000" by (intro div_le_mono mult_le_mono2)
  then show ?thesis by simp
qed

lemma allocate_rake_facts:
  assumes "allocate_rake_fixed_rate pots mode bps cap = Inr ts" "bps \<le> 10000"
  shows "length ts = length pots" "sum_list ts \<le> cap"
    and "\<And>i. i < length pots \<Longrightarrow> ts ! i \<le> sp_amount (pots ! i)"
    and "\<And>i. i < length pots \<Longrightarrow> count_ones (sp_eligible (pots ! i)) < 2 \<Longrightarrow> ts ! i = 0"
proof -
  obtain us rest where r: "foldl (rake_step bps) ([], cap) pots = ([] @ us, rest)" "length us = length pots"
    "sum_list us + rest = cap"
    "\<forall>i<length pots. (count_ones (sp_eligible (pots ! i)) < 2 \<longrightarrow> us ! i = 0) \<and>
        us ! i \<le> sp_amount (pots ! i) * bps div 10000" using rake_foldl by blast
  have le: "us ! i \<le> sp_amount (pots ! i)" if "i < length pots" for i
    using r(4) that bps_le [OF assms(2)] le_trans by blast
  have ts: "ts = replicate (length pots) 0 \<or> ts = us"
    using assms(1) r(1) by (auto simp: allocate_rake_fixed_rate_def split: if_splits)
  show "length ts = length pots" "sum_list ts \<le> cap" using ts r by (auto simp: sum_list_replicate)
  show "ts ! i \<le> sp_amount (pots ! i)" if "i < length pots" for i using ts le that by auto
  show "ts ! i = 0" if "i < length pots" "count_ones (sp_eligible (pots ! i)) < 2" for i
    using ts r(4) that by auto
qed

lemma compute_rake_bound: "compute_rake rules g = Inr k \<Longrightarrow> k \<le> g \<and> k \<le> r_rake_cap rules"
  by (auto simp: compute_rake_def result_simps split: if_splits)

section \<open>Winners\<close>

abbreviation seat_rank :: "'pt table \<Rightarrow> card list \<Rightarrow> nat \<Rightarrow> hand_rank" where
  "seat_rank t board i \<equiv> evaluate_best (as_slice (the (seat_hand (t_seats t ! i))) @ board)"

lemma rank_seat_fold:
  assumes "try_fold (rank_seat t e board) \<lparr>rk_ranks = rs, rk_best = None, rk_winners = 0\<rparr> xs = Inr st"
    and "set xs \<subseteq> {..<16}" "distinct xs"
  defines "E \<equiv> {i \<in> set xs. bit e i}"
  shows "(E = {} \<longrightarrow> rk_best st = None \<and> rk_winners st = 0) \<and>
    (E \<noteq> {} \<longrightarrow> rk_best st = Some (Max (seat_rank t board ` E)) \<and>
       {i. bit (rk_winners st) i} = {i \<in> E. seat_rank t board i = Max (seat_rank t board ` E)}) \<and>
    (\<forall>i\<in>E. \<exists>h. seat_hand (t_seats t ! i) = Some h \<and> fc_len h = 2) \<and> length (rk_ranks st) = length rs"
  using assms(1-3) unfolding E_def
proof (induction xs arbitrary: st rule: rev_induct)
  case Nil
  then show ?case by auto
next
  case (snoc x xs)
  let ?E = "{i \<in> set xs. bit e i}" and ?f = "seat_rank t board"
  from snoc.prems(1) obtain st0 where st0:
    "try_fold (rank_seat t e board) \<lparr>rk_ranks = rs, rk_best = None, rk_winners = 0\<rparr> xs = Inr st0"
    "rank_seat t e board st0 x = Inr st" by (auto simp: try_fold_append result_simps)
  have IH: "(?E = {} \<longrightarrow> rk_best st0 = None \<and> rk_winners st0 = 0) \<and>
    (?E \<noteq> {} \<longrightarrow> rk_best st0 = Some (Max (?f ` ?E)) \<and>
       {i. bit (rk_winners st0) i} = {i \<in> ?E. ?f i = Max (?f ` ?E)}) \<and>
    (\<forall>i\<in>?E. \<exists>h. seat_hand (t_seats t ! i) = Some h \<and> fc_len h = 2) \<and> length (rk_ranks st0) = length rs"
    using snoc.IH [OF st0(1)] snoc.prems by auto
  have x: "x < 16" "x \<notin> set xs" using snoc.prems by auto
  show ?case
  proof (cases "bit e x")
    case False
    then have "st = st0" using st0(2) by (simp add: rank_seat_def mask_simps)
    moreover have "{i \<in> set (xs @ [x]). bit e i} = ?E" using False by auto
    ultimately show ?thesis using IH by simp
  next
    case True
    then obtain h where h: "seat_hand (t_seats t ! x) = Some h" "fc_len h = 2"
      using st0(2) by (auto simp: rank_seat_def mask_simps split: option.splits if_splits)
    have E': "{i \<in> set (xs @ [x]). bit e i} = insert x ?E" using True by auto
    have fin: "finite (?f ` ?E)" by simp
    let ?r = "?f x"
    have st: "st = (case rk_best st0 of
                None \<Rightarrow> \<lparr>rk_ranks = (rk_ranks st0)[x := Some ?r], rk_best = Some ?r, rk_winners = seat_mask_bit x\<rparr>
              | Some best \<Rightarrow>
                  if ?r > best then \<lparr>rk_ranks = (rk_ranks st0)[x := Some ?r], rk_best = Some ?r, rk_winners = seat_mask_bit x\<rparr>
                  else if ?r = best then \<lparr>rk_ranks = (rk_ranks st0)[x := Some ?r], rk_best = Some best, rk_winners = rk_winners st0 OR seat_mask_bit x\<rparr>
                  else \<lparr>rk_ranks = (rk_ranks st0)[x := Some ?r], rk_best = Some best, rk_winners = rk_winners st0\<rparr>)"
    proof -
      have r: "evaluate_best (as_slice h @ board) = ?r" by (simp add: h)
      show ?thesis using st0(2) True unfolding rank_seat_def h(1) option.case h(2) Let_def r
        by (simp add: is_eligible_iff del: as_slice_fixed_of)
    qed
    have bitx: "{i. bit (seat_mask_bit x) i} = {x}" using x by (auto simp: mask_simps)
    show ?thesis
    proof (cases "?E = {}")
      case True
      then have st': "st = \<lparr>rk_ranks = (rk_ranks st0)[x := Some ?r], rk_best = Some ?r, rk_winners = seat_mask_bit x\<rparr>"
        using IH st by simp
      have "{i \<in> insert x {}. ?f i = Max (?f ` insert x {})} = {x}" by auto
      then show ?thesis using IH h bitx unfolding E' True st' by simp
    next
      case ne: False
      define M where "M = Max (?f ` ?E)"
      have best: "rk_best st0 = Some M" and W: "{i. bit (rk_winners st0) i} = {i \<in> ?E. ?f i = M}"
        using IH ne by (simp_all add: M_def)
      have le: "?f i \<le> M" if "i \<in> ?E" for i unfolding M_def using that fin by (intro Max_ge) auto
      have M': "Max (?f ` insert x ?E) = max ?r M" using ne fin by (simp add: M_def)
      have lens: "length (rk_ranks st) = length rs" using IH by (simp add: st best)
      consider "?r > M" | "?r = M" | "?r < M" by force
      then have "rk_best st = Some (max ?r M) \<and> {i. bit (rk_winners st) i} = {i \<in> insert x ?E. ?f i = max ?r M}"
      proof cases
        case 1
        then have mx: "max ?r M = ?r" by simp
        have "?f i \<noteq> ?r" if "i \<in> ?E" for i using le [OF that] 1 by (metis leD)
        then have "{i \<in> insert x ?E. ?f i = ?r} = {x}" by blast
        then show ?thesis using 1 bitx unfolding mx by (simp add: st best)
      next
        case 2
        have "{i. bit (rk_winners st0 OR seat_mask_bit x) i} = insert x {i \<in> ?E. ?f i = M}"
          using W x by (auto simp: mask_simps)
        then show ?thesis using 2 by (auto simp: st best)
      next
        case 3
        then have mx: "max ?r M = M" and ne: "?r \<noteq> M" by simp_all
        have "{i \<in> insert x ?E. ?f i = M} = {i \<in> ?E. ?f i = M}" using ne by blast
        moreover have "rk_best st = Some M" "rk_winners st = rk_winners st0"
          using ne less_not_sym [OF 3] by (simp_all add: st best)
        ultimately show ?thesis using W unfolding mx by simp
      qed
      then show ?thesis using IH h lens unfolding E' M' by simp
    qed
  qed
qed

lemma find_winners_Inr:
  assumes "find_winners t e board = Inr (m, ranks)" "max_players t \<le> 9"
  defines "E \<equiv> {i. i < max_players t \<and> bit e i}"
  shows "E \<noteq> {}" "{i. bit m i} = {i \<in> E. seat_rank t board i = Max (seat_rank t board ` E)}"
    "m \<noteq> 0" "length ranks = 9"
proof -
  obtain st where st: "try_fold (rank_seat t e board)
      \<lparr>rk_ranks = replicate 9 None, rk_best = None, rk_winners = 0\<rparr> [0..<max_players t] = Inr st"
    "rk_winners st \<noteq> 0" "m = rk_winners st" "ranks = rk_ranks st"
    using assms(1) by (auto simp: find_winners_def SETTLEMENT_SEATS_def result_simps split: if_splits)
  have E: "{i \<in> set [0..<max_players t]. bit e i} = E" by (auto simp: E_def)
  note f = rank_seat_fold [OF st(1), unfolded E]
  have f': "(E = {} \<longrightarrow> rk_best st = None \<and> rk_winners st = 0) \<and>
    (E \<noteq> {} \<longrightarrow> rk_best st = Some (Max (seat_rank t board ` E)) \<and>
       {i. bit (rk_winners st) i} = {i \<in> E. seat_rank t board i = Max (seat_rank t board ` E)}) \<and>
    (\<forall>i\<in>E. \<exists>h. seat_hand (t_seats t ! i) = Some h \<and> fc_len h = 2) \<and> length (rk_ranks st) = length (replicate 9 (None :: hand_rank option))"
    by (rule f) (use assms(2) in auto)
  then show "E \<noteq> {}" "{i. bit m i} = {i \<in> E. seat_rank t board i = Max (seat_rank t board ` E)}"
    "m \<noteq> 0" "length ranks = 9" using st(2-4) by auto
qed

section \<open>Plans that validate conserve chips\<close>

lemma add_awards_Inr:
  assumes "add_awards e acc xs = Inr r" "length xs = length acc"
  shows "r = map2 (+) acc xs" and "sum_list r = sum_list acc + sum_list xs" and "length r = length acc"
proof -
  have "try_fold (\<lambda>acc k. rbind (ok_or (checked_add (acc ! k) (xs ! k)) e) (\<lambda>v. Inr (acc[k := v]))) acc [0..<n] = Inr r \<Longrightarrow>
      n \<le> length xs \<Longrightarrow> length r = length acc \<and> (\<forall>k<length acc. r ! k = acc ! k + (if k < n then xs ! k else 0))" for n r
  proof (induction n arbitrary: r)
    case 0
    then show ?case by simp
  next
    case (Suc n)
    from Suc.prems obtain r0 where r0: "try_fold (\<lambda>acc k. rbind (ok_or (checked_add (acc ! k) (xs ! k)) e)
        (\<lambda>v. Inr (acc[k := v]))) acc [0..<n] = Inr r0" "r = r0[n := r0 ! n + xs ! n]"
      by (auto simp: try_fold_append result_simps)
    from Suc.IH [OF r0(1)] Suc.prems show ?case
      by (auto simp: r0(2) nth_list_update less_Suc_eq)
  qed
  from this [of "length xs" r] assms have r: "length r = length acc" "\<forall>k<length acc. r ! k = acc ! k + xs ! k"
    by (auto simp: add_awards_def)
  then show "length r = length acc" by simp
  from r show eq: "r = map2 (+) acc xs" using assms(2) by (intro nth_equalityI) auto
  have "length as = length bs \<Longrightarrow> sum_list (map2 (+) as bs) = sum_list as + sum_list bs" for as bs :: "nat list"
    by (induction as bs rule: list_induct2) auto
  then show "sum_list r = sum_list acc + sum_list xs" using eq assms(2) by simp
qed

lemma checked_sum_Inr: "checked_sum e xs = Inr r \<longleftrightarrow> r = sum_list xs \<and> sum_list xs < u64_bound"
  using try_fold_checked_sum [of 0 "\<lambda>x. x" e xs] by (auto simp: checked_sum_def)

lemma add_awards_ok:
  assumes "length acc = length xs" "sum_list acc + sum_list xs < u64_bound"
  shows "add_awards e acc xs = Inr (map2 (+) acc xs)"
proof -
  have bnd: "acc ! k + xs ! k < u64_bound" if "k < length xs" for k
    using that assms nth_le_sum_list [of k acc "\<lambda>x. x"] nth_le_sum_list [of k xs "\<lambda>x. x"] by simp
  have "try_fold (\<lambda>acc k. rbind (ok_or (checked_add (acc ! k) (xs ! k)) e) (\<lambda>v. Inr (acc[k := v]))) acc [0..<n] =
      Inr (map2 (+) (take n acc) (take n xs) @ drop n acc)" if "n \<le> length xs" for n
    using that
  proof (induction n)
    case 0
    then show ?case by simp
  next
    case (Suc n)
    let ?a = "map2 (+) (take n acc) (take n xs)"
    have n: "n < length xs" "n < length acc" "length ?a = n" using Suc.prems assms(1) by simp_all
    have "drop n acc = acc ! n # drop (Suc n) acc" using n(2) by (simp add: Cons_nth_drop_Suc)
    then have "(?a @ drop n acc) ! n = acc ! n" "(?a @ drop n acc)[n := v] = ?a @ v # drop (Suc n) acc" for v
      using n(3) by (simp_all add: nth_append list_update_append)
    then show ?case using Suc n bnd [OF n(1)] by (simp add: try_fold_append checked_add_def take_Suc_conv_app_nth)
  qed
  from this [of "length xs"] assms(1) show ?thesis by (simp add: add_awards_def)
qed

lemma sum_list_single: "w < n \<Longrightarrow> sum_list ((replicate n 0)[w := v]) = (v :: nat)"
  using sum_list_update_nat [of w "replicate n 0" v] by (simp add: sum_list_replicate)

lemma bits_outside_0: "m AND NOT m' = 0 \<longleftrightarrow> {i. bit m i} \<subseteq> {i. bit (m' :: 16 word) i}"
  by (auto simp: mask_eq_0_iff bit_and_iff bit_not_iff dest: bit_16)

lemma bit_valid_seat_mask: "n \<le> 9 \<Longrightarrow> bit (valid_seat_mask n) i \<longleftrightarrow> i < n"
proof -
  assume n: "n \<le> 9"
  have "valid_seat_mask n = mask n" using n by (simp add: valid_seat_mask_def mask_eq_exp_minus_1 push_bit_of_1)
  then show ?thesis using n by (auto simp: bit_mask_iff)
qed

lemma seat_mask_bit_facts:
  "w < 16 \<Longrightarrow> {i. bit (seat_mask_bit w) i} = {w}" "w < 16 \<Longrightarrow> count_ones (seat_mask_bit w) = 1"
  "w < 16 \<Longrightarrow> seat_mask_bit w \<noteq> 0"
proof -
  assume w: "w < 16"
  show b: "{i. bit (seat_mask_bit w) i} = {w}" using w by (auto simp: mask_simps)
  then show "count_ones (seat_mask_bit w) = 1" by (simp add: count_ones_card)
  from b show "seat_mask_bit w \<noteq> 0" by (auto simp: mask_eq_0_iff)
qed

text \<open>The fixed widths of the arrays of a plan.\<close>

definition plan_shaped :: "settlement_plan \<Rightarrow> bool" where
  "plan_shaped plan \<longleftrightarrow> length (sp_awards plan) = 9 \<and>
     (\<forall>p\<in>set (sp_pots plan). \<forall>r\<in>set (pp_runouts p). length (rp_awards r) = 9)"

lemma validate_runout_inv:
  assumes "validate_runout pot n (v, tot) k = Inr (v', tot')" "k < length (pp_runouts pot)"
    and "\<forall>r\<in>set (pp_runouts pot). length (rp_awards r) = 9" "length (va_awards v) = 9"
  shows "length (va_awards v') = 9" "va_gross v' = va_gross v" "va_rake v' = va_rake v"
    "sum_list (va_awards v') + tot = sum_list (va_awards v) + tot'"
proof -
  have len: "length (rp_awards (pp_runouts pot ! k)) = 9" using assms(2,3) nth_mem by blast
  from assms(1) have "v' = v \<and> tot' = tot \<or>
      (\<exists>aw. add_awards (Serialization ''settlement: seat award overflow'') (va_awards v) (rp_awards (pp_runouts pot ! k)) = Inr aw \<and>
        sum_list (rp_awards (pp_runouts pot ! k)) = rp_amount (pp_runouts pot ! k) \<and>
        tot' = tot + rp_amount (pp_runouts pot ! k) \<and>
        v' = v\<lparr>va_winners := va_winners v OR rp_winner_mask (pp_runouts pot ! k), va_awards := aw\<rparr>)"
    by (auto simp: validate_runout_def Let_def result_simps checked_sum_Inr split: if_splits)
  then show "length (va_awards v') = 9" "va_gross v' = va_gross v" "va_rake v' = va_rake v"
    "sum_list (va_awards v') + tot = sum_list (va_awards v) + tot'"
    using add_awards_Inr [of _ "va_awards v" "rp_awards (pp_runouts pot ! k)"] len assms(4) by auto
qed

lemma validate_pot_inv:
  assumes "validate_pot plan n v k = Inr v'"
    and "\<forall>r\<in>set (pp_runouts (active_pots plan ! k)). length (rp_awards r) = 9" "length (va_awards v) = 9"
    and "sum_list (va_awards v) + va_rake v = va_gross v"
  shows "length (va_awards v') = 9 \<and> sum_list (va_awards v') + va_rake v' = va_gross v'"
proof -
  let ?pot = "active_pots plan ! k"
  obtain n' where n': "n' = (if is_contested ?pot then schedule_count (sp_schedule plan) else 1)" by simp
  from assms(1) obtain tot where
    fold: "try_fold (validate_runout ?pot n') (v\<lparr>va_gross := va_gross v + pp_gross ?pot, va_rake := va_rake v + pp_rake ?pot\<rparr>, 0)
       [0..<length (pp_runouts ?pot)] = Inr (v', tot)" and tot: "tot = pp_net ?pot"
    and net: "pp_rake ?pot \<le> pp_gross ?pot" "pp_net ?pot = pp_gross ?pot - pp_rake ?pot"
    unfolding validate_pot_def Let_def n' [symmetric]
    by (auto simp: result_simps)
  let ?v0 = "v\<lparr>va_gross := va_gross v + pp_gross ?pot, va_rake := va_rake v + pp_rake ?pot\<rparr>"
  let ?P = "\<lambda>(w, t). length (va_awards w) = 9 \<and> va_gross w = va_gross ?v0 \<and> va_rake w = va_rake ?v0 \<and>
      sum_list (va_awards w) = sum_list (va_awards v) + t"
  have "?P (v', tot)"
  proof (rule try_fold_invariant [where P = ?P, OF fold])
    show "?P (?v0, 0)" using assms(3) by simp
    fix s x s' assume x: "x \<in> set [0..<length (pp_runouts ?pot)]" and P: "?P s"
      and st: "validate_runout ?pot n' s x = Inr s'"
    obtain w t w' t' where s: "s = (w, t)" "s' = (w', t')" by (cases s, cases s')
    from validate_runout_inv [OF st [unfolded s] _ assms(2)] x P show "?P s'" by (auto simp: s)
  qed
  then show ?thesis using assms(4) tot net by auto
qed

lemma plan_validate_Inr:
  assumes "plan_validate plan n = Inr ()" "plan_shaped plan" "length (sp_pots plan) = 9"
  shows "sum_list (sp_awards plan) = sp_total_awards plan"
    and "sp_gross_pot plan = sp_rake plan + sp_total_awards plan"
    and "\<And>k. k < 9 \<Longrightarrow> 0 < sp_awards plan ! k \<Longrightarrow> bit (sp_winner_mask plan) k \<and> k < n"
    and "n \<le> 9" "sp_pot_count plan \<le> 9"
proof -
  let ?v0 = "\<lparr>va_gross = 0, va_rake = 0, va_awards = replicate 9 0, va_winners = 0\<rparr>"
  from assms(1) obtain v where b: "sp_pot_count plan \<le> 9" "n \<le> 9"
    and tot: "sp_rake plan \<le> sp_gross_pot plan" "sp_total_awards plan = sp_gross_pot plan - sp_rake plan"
    and fold: "try_fold (validate_pot plan n) ?v0 [0..<length (active_pots plan)] = Inr v"
    and eq: "va_gross v = sp_gross_pot plan" "va_rake v = sp_rake plan" "va_awards v = sp_awards plan"
    and aw: "\<forall>k\<in>set [0..<length (sp_awards plan)].
       (if sp_awards plan ! k > 0 \<and> \<not> bit (sp_winner_mask plan) k
           then Inl (Serialization ''settlement: award paid to non-winner seat'')
           else if k \<ge> n \<and> sp_awards plan ! k \<noteq> 0
           then Inl (Serialization ''settlement: award exceeds seat bounds'')
           else Inr ()) = Inr ()"
    by (auto simp: plan_validate_def result_simps SETTLEMENT_SEATS_def checked_sub_def try_fold_unit_Inr
        simp del: set_upt split: if_splits)
  let ?P = "\<lambda>w. length (va_awards w) = 9 \<and> sum_list (va_awards w) + va_rake w = va_gross w"
  have "?P v"
  proof (rule try_fold_invariant [where P = ?P, OF fold])
    show "?P ?v0" by (simp add: sum_list_replicate)
    fix s x s' assume x: "x \<in> set [0..<length (active_pots plan)]" and P: "?P s"
      and st: "validate_pot plan n s x = Inr s'"
    have "active_pots plan ! x \<in> set (sp_pots plan)"
      using x nth_mem [of x "active_pots plan"] by (auto simp: active_pots_def dest: in_set_takeD)
    then have "\<forall>r\<in>set (pp_runouts (active_pots plan ! x)). length (rp_awards r) = 9"
      using assms(2) by (auto simp: plan_shaped_def)
    from validate_pot_inv [OF st this] P show "?P s'" by blast
  qed
  then have s: "sum_list (sp_awards plan) + sp_rake plan = sp_gross_pot plan" using eq by simp
  then show "sum_list (sp_awards plan) = sp_total_awards plan"
    "sp_gross_pot plan = sp_rake plan + sp_total_awards plan" using tot by auto
  show "bit (sp_winner_mask plan) k \<and> k < n" if "k < 9" "0 < sp_awards plan ! k" for k
  proof -
    have "k \<in> set [0..<length (sp_awards plan)]" using that assms(2) by (simp add: plan_shaped_def)
    from bspec [OF aw this] that(2) show ?thesis by (auto split: if_splits)
  qed
  show "n \<le> 9" "sp_pot_count plan \<le> 9" by (rule b)+
qed

section \<open>Plans that validate\<close>

text \<open>What the validation asks of one pot, and what it adds to the running projection.\<close>

definition live_runouts :: "nat \<Rightarrow> settlement_pot_plan \<Rightarrow> nat" where
  "live_runouts cnt p = (if is_contested p then cnt else 1)"

definition runout_valid :: "settlement_pot_plan \<Rightarrow> runout_pot_plan \<Rightarrow> bool" where
  "runout_valid p r \<longleftrightarrow> rp_winner_mask r \<noteq> 0 \<and> {i. bit (rp_winner_mask r) i} \<subseteq> {i. bit (pp_eligible p) i} \<and>
     (\<not> is_contested p \<longrightarrow> rp_winner_mask r = pp_eligible p \<and> rp_amount r = pp_net p \<and> rp_ranks r = replicate 9 None) \<and>
     sum_list (rp_awards r) = rp_amount r \<and> length (rp_awards r) = 9 \<and>
     (\<forall>k<9. 0 < rp_awards r ! k \<longrightarrow> bit (rp_winner_mask r) k)"

definition pot_valid :: "nat \<Rightarrow> nat \<Rightarrow> nat \<Rightarrow> settlement_pot_plan \<Rightarrow> bool" where
  "pot_valid n cnt k p \<longleftrightarrow> pp_index p = k \<and> {i. bit (pp_eligible p) i} \<subseteq> {..<n} \<and> pp_eligible p \<noteq> 0 \<and>
     pp_rake p \<le> pp_gross p \<and> pp_net p = pp_gross p - pp_rake p \<and> length (pp_runouts p) = 2 \<and>
     (\<forall>j<live_runouts cnt p. runout_valid p (pp_runouts p ! j)) \<and>
     (live_runouts cnt p \<le> 1 \<longrightarrow> pp_runouts p ! 1 = runout_inactive) \<and>
     sum_list (map rp_amount (take (live_runouts cnt p) (pp_runouts p))) = pp_net p"

definition add_runout :: "validation \<Rightarrow> runout_pot_plan \<Rightarrow> validation" where
  "add_runout v r = v\<lparr>va_awards := map2 (+) (va_awards v) (rp_awards r), va_winners := va_winners v OR rp_winner_mask r\<rparr>"

definition add_pot :: "nat \<Rightarrow> validation \<Rightarrow> settlement_pot_plan \<Rightarrow> validation" where
  "add_pot cnt v p = foldl add_runout (v\<lparr>va_gross := va_gross v + pp_gross p, va_rake := va_rake v + pp_rake p\<rparr>)
     (take (live_runouts cnt p) (pp_runouts p))"

lemma sum_list_map2_add:
  "length as = length bs \<Longrightarrow> sum_list (map2 (+) as bs) = sum_list as + sum_list (bs :: nat list)"
  by (induction as bs rule: list_induct2) auto

lemma validate_runout_ok:
  assumes "runout_valid p (pp_runouts p ! j)" "j < m" "length (va_awards v) = 9"
    and "sum_list (va_awards v) + rp_amount (pp_runouts p ! j) < u64_bound" "tot + rp_amount (pp_runouts p ! j) < u64_bound"
  shows "validate_runout p m (v, tot) j = Inr (add_runout v (pp_runouts p ! j), tot + rp_amount (pp_runouts p ! j))"
proof -
  let ?r = "pp_runouts p ! j"
  have s: "checked_sum (Serialization ''settlement: runout award overflow'') (rp_awards ?r) = Inr (rp_amount ?r)"
    using assms by (simp add: checked_sum_Inr runout_valid_def)
  have a: "add_awards (Serialization ''settlement: seat award overflow'') (va_awards v) (rp_awards ?r) =
      Inr (map2 (+) (va_awards v) (rp_awards ?r))"
    using assms by (intro add_awards_ok) (simp_all add: runout_valid_def)
  have ex: "\<not> list_ex (\<lambda>x. x \<noteq> None) (rp_ranks ?r)" if "\<not> is_contested p"
    using assms(1) that by (auto simp: runout_valid_def list_ex_iff)
  show ?thesis using assms ex
    unfolding validate_runout_def Let_def prod.case s a
    by (auto simp: runout_valid_def runout_is_active_def bits_outside_0 checked_add_def add_runout_def)
qed

lemma validate_pot_ok:
  assumes "pot_valid n (schedule_count (sp_schedule plan)) k (active_pots plan ! k)" "n \<le> 9" "length (va_awards v) = 9"
    and "va_gross v + pp_gross (active_pots plan ! k) < u64_bound" "va_rake v + pp_rake (active_pots plan ! k) < u64_bound"
    and "sum_list (va_awards v) + pp_net (active_pots plan ! k) < u64_bound"
  shows "validate_pot plan n v k = Inr (add_pot (schedule_count (sp_schedule plan)) v (active_pots plan ! k))"
proof -
  let ?p = "active_pots plan ! k" and ?c = "schedule_count (sp_schedule plan)"
  let ?m = "live_runouts ?c ?p"
  let ?v = "v\<lparr>va_gross := va_gross v + pp_gross ?p, va_rake := va_rake v + pp_rake ?p\<rparr>"
  obtain r0 r1 where rs: "pp_runouts ?p = [r0, r1]"
    using assms(1) by (auto simp: pot_valid_def numeral_2_eq_2 length_Suc_conv)
  have m: "?m = 1 \<or> ?m = 2" by (cases "sp_schedule plan") (auto simp: live_runouts_def)
  have fold: "try_fold (validate_runout ?p ?m) (?v, 0) [0..<length (pp_runouts ?p)] =
      Inr (foldl add_runout ?v (take ?m (pp_runouts ?p)), pp_net ?p)"
  proof (cases "?m = 1")
    case True
    then have v0: "runout_valid ?p (pp_runouts ?p ! 0)" and amt: "rp_amount r0 = pp_net ?p" and r1: "r1 = runout_inactive"
      using assms(1) by (auto simp: pot_valid_def rs)
    have "validate_runout ?p 1 (?v, 0) 0 = Inr (add_runout ?v r0, pp_net ?p)"
      using validate_runout_ok [OF v0, of 1 ?v 0] assms(3,6) amt by (simp add: rs)
    moreover have "validate_runout ?p 1 st 1 = Inr st" for st
      using r1 by (simp add: validate_runout_def rs split: prod.split)
    ultimately show ?thesis using True by (simp add: rs upt_rec)
  next
    case False
    with m have m2: "?m = 2" by simp
    then have v0: "runout_valid ?p (pp_runouts ?p ! 0)" and v1: "runout_valid ?p (pp_runouts ?p ! 1)"
      and amt: "rp_amount r0 + rp_amount r1 = pp_net ?p" using assms(1) by (auto simp: pot_valid_def rs less_2_cases_iff)
    have "validate_runout ?p 2 (?v, 0) 0 = Inr (add_runout ?v r0, rp_amount r0)"
      using validate_runout_ok [OF v0, of 2 ?v 0] assms(3,6) amt by (simp add: rs)
    moreover have "sum_list (va_awards (add_runout ?v r0)) = sum_list (va_awards v) + rp_amount r0"
      using v0 assms(3) by (simp add: add_runout_def sum_list_map2_add runout_valid_def rs)
    then have "validate_runout ?p 2 (add_runout ?v r0, rp_amount r0) 1 = Inr (add_runout (add_runout ?v r0) r1, pp_net ?p)"
      using validate_runout_ok [OF v1, of 2 "add_runout ?v r0" "rp_amount r0"] assms(3,6) amt v0
      by (simp add: rs add_runout_def runout_valid_def)
    ultimately show ?thesis using m2 by (simp add: rs upt_rec)
  qed
  have "count_ones (pp_eligible ?p) \<noteq> 0"
    using assms(1) by (auto simp: pot_valid_def count_ones_card mask_eq_0_iff)
  moreover have "pp_eligible ?p AND NOT (valid_seat_mask n) = 0"
    using assms(1,2) by (auto simp: pot_valid_def bits_outside_0 bit_valid_seat_mask)
  ultimately show ?thesis
    using assms fold unfolding validate_pot_def Let_def live_runouts_def [symmetric] add_pot_def
    by (simp add: pot_valid_def checked_add_def checked_sub_def)
qed

text \<open>The running projection: totals, and that only winners of the table are paid.\<close>

definition projection_ok :: "nat \<Rightarrow> validation \<Rightarrow> bool" where
  "projection_ok n v \<longleftrightarrow> length (va_awards v) = 9 \<and> {i. bit (va_winners v) i} \<subseteq> {..<n} \<and>
     (\<forall>k<9. 0 < va_awards v ! k \<longrightarrow> bit (va_winners v) k)"

lemma add_runout_ok:
  assumes "runout_valid p r" "{i. bit (pp_eligible p) i} \<subseteq> {..<n}" "projection_ok n v"
  shows "projection_ok n (add_runout v r)" "va_gross (add_runout v r) = va_gross v" "va_rake (add_runout v r) = va_rake v"
    "sum_list (va_awards (add_runout v r)) = sum_list (va_awards v) + rp_amount r"
proof -
  have "bit (rp_winner_mask r) i \<Longrightarrow> i < n" for i using assms(1,2) by (auto simp: runout_valid_def)
  with assms show "projection_ok n (add_runout v r)"
    by (auto simp: projection_ok_def add_runout_def runout_valid_def bit_or_iff)
  show "va_gross (add_runout v r) = va_gross v" "va_rake (add_runout v r) = va_rake v" by (simp_all add: add_runout_def)
  show "sum_list (va_awards (add_runout v r)) = sum_list (va_awards v) + rp_amount r"
    using assms by (simp add: projection_ok_def add_runout_def runout_valid_def sum_list_map2_add)
qed

lemma fold_runouts_ok:
  assumes "\<forall>r\<in>set rs. runout_valid p r" "{i. bit (pp_eligible p) i} \<subseteq> {..<n}" "projection_ok n v"
  shows "projection_ok n (foldl add_runout v rs) \<and> va_gross (foldl add_runout v rs) = va_gross v \<and>
    va_rake (foldl add_runout v rs) = va_rake v \<and>
    sum_list (va_awards (foldl add_runout v rs)) = sum_list (va_awards v) + sum_list (map rp_amount rs)"
  using assms by (induction rs arbitrary: v) (auto simp: add_runout_ok)

lemma add_pot_ok:
  assumes "pot_valid n c k p" "projection_ok n v" "c \<le> 2"
  shows "projection_ok n (add_pot c v p) \<and> va_gross (add_pot c v p) = va_gross v + pp_gross p \<and>
    va_rake (add_pot c v p) = va_rake v + pp_rake p \<and>
    sum_list (va_awards (add_pot c v p)) = sum_list (va_awards v) + pp_net p"
proof -
  let ?v = "v\<lparr>va_gross := va_gross v + pp_gross p, va_rake := va_rake v + pp_rake p\<rparr>"
  have l: "live_runouts c p \<le> length (pp_runouts p)" using assms(1,3) by (simp add: pot_valid_def live_runouts_def)
  have "\<forall>r\<in>set (take (live_runouts c p) (pp_runouts p)). runout_valid p r"
    using assms(1) l by (auto simp: pot_valid_def set_conv_nth)
  moreover have "projection_ok n ?v" using assms(2) by (simp add: projection_ok_def)
  ultimately have "projection_ok n (add_pot c v p) \<and> va_gross (add_pot c v p) = va_gross ?v \<and>
      va_rake (add_pot c v p) = va_rake ?v \<and> sum_list (va_awards (add_pot c v p)) =
        sum_list (va_awards ?v) + sum_list (map rp_amount (take (live_runouts c p) (pp_runouts p)))"
    unfolding add_pot_def using assms(1) by (intro fold_runouts_ok) (auto simp: pot_valid_def)
  then show ?thesis using assms(1) by (simp add: pot_valid_def)
qed

lemma schedule_count_le: "schedule_count s \<le> 2"
  by (cases s) auto

lemma validate_pots_ok:
  assumes "\<forall>k<length ps. pot_valid n (schedule_count (sp_schedule plan)) k (ps ! k)" "ps = active_pots plan"
    and "n \<le> 9" "sum_list (map pp_gross ps) < u64_bound" "m \<le> length ps"
  defines "v0 \<equiv> \<lparr>va_gross = 0, va_rake = 0, va_awards = replicate 9 0, va_winners = 0\<rparr>"
  defines "v \<equiv> foldl (add_pot (schedule_count (sp_schedule plan))) v0 (take m ps)"
  shows "try_fold (validate_pot plan n) v0 [0..<m] = Inr v \<and> projection_ok n v \<and>
    va_gross v = sum_list (map pp_gross (take m ps)) \<and> va_rake v = sum_list (map pp_rake (take m ps)) \<and>
    sum_list (va_awards v) + va_rake v = va_gross v"
  using assms(5) unfolding v_def
proof (induction m)
  case 0
  then show ?case by (simp add: v0_def projection_ok_def sum_list_replicate)
next
  case (Suc m)
  let ?c = "schedule_count (sp_schedule plan)" and ?p = "ps ! m"
  let ?v = "foldl (add_pot ?c) v0 (take m ps)"
  have IH: "try_fold (validate_pot plan n) v0 [0..<m] = Inr ?v" "projection_ok n ?v"
    "va_gross ?v = sum_list (map pp_gross (take m ps))" "va_rake ?v = sum_list (map pp_rake (take m ps))"
    "sum_list (va_awards ?v) + va_rake ?v = va_gross ?v" using Suc by simp_all
  have m: "m < length ps" using Suc.prems by simp
  have tk: "take (Suc m) ps = take m ps @ [?p]" using m by (rule take_Suc_conv_app_nth)
  have valid: "pot_valid n ?c m ?p" using assms(1) m by simp
  have "map pp_gross ps = map pp_gross (take (Suc m) ps) @ map pp_gross (drop (Suc m) ps)"
    by (simp flip: map_append)
  then have "sum_list (map pp_gross (take m ps)) + pp_gross ?p \<le> sum_list (map pp_gross ps)" by (simp add: tk)
  then have bnd: "va_gross ?v + pp_gross ?p < u64_bound" using assms(4) IH(3) by simp
  have rn: "pp_rake ?p + pp_net ?p = pp_gross ?p" using valid by (simp add: pot_valid_def)
  have "validate_pot plan n ?v m = Inr (add_pot ?c ?v (active_pots plan ! m))"
    using valid bnd rn IH(2,5) assms(2,3) by (intro validate_pot_ok) (auto simp: projection_ok_def)
  then have "try_fold (validate_pot plan n) v0 [0..<Suc m] = Inr (add_pot ?c ?v ?p)"
    using IH(1) by (simp add: try_fold_append assms(2))
  then show ?case
    using IH(2-5) add_pot_ok [OF valid IH(2) schedule_count_le] rn unfolding tk by simp
qed

lemma plan_validate_ok:
  assumes "sp_version plan = SETTLEMENT_PLAN_VERSION" "sp_pot_count plan \<le> 9" "n \<le> 9" "length (sp_awards plan) = 9"
    and "\<forall>p\<in>set (drop (sp_pot_count plan) (sp_pots plan)). p = pot_plan_inactive"
    and "\<forall>k<length (active_pots plan). pot_valid n (schedule_count (sp_schedule plan)) k (active_pots plan ! k)"
    and "sp_gross_pot plan = sum_list (map pp_gross (active_pots plan))" "sp_gross_pot plan < u64_bound"
    and "sp_rake plan = sum_list (map pp_rake (active_pots plan))"
    and "sp_total_awards plan = sp_gross_pot plan - sp_rake plan"
    and "foldl (add_pot (schedule_count (sp_schedule plan)))
       \<lparr>va_gross = 0, va_rake = 0, va_awards = replicate 9 0, va_winners = 0\<rparr> (active_pots plan) = v"
    and "va_awards v = sp_awards plan" "va_winners v = sp_winner_mask plan"
  shows "plan_validate plan n = Inr ()"
proof -
  note f = validate_pots_ok [OF assms(6) refl assms(3) assms(8) [unfolded assms(7)] order_refl,
      unfolded take_all [OF order_refl] assms(11)]
  have p: "\<forall>k<9. 0 < sp_awards plan ! k \<longrightarrow> bit (sp_winner_mask plan) k"
    "{i. bit (sp_winner_mask plan) i} \<subseteq> {..<n}" using f assms(12,13) by (auto simp: projection_ok_def)
  have pn: "sp_awards plan ! k = 0" if "k < 9" "n \<le> k" for k using p that by fastforce
  have w: "sp_winner_mask plan AND NOT (valid_seat_mask n) = 0"
    using p(2) assms(3) by (auto simp: bits_outside_0 bit_valid_seat_mask)
  have aw: "try_fold (\<lambda>_ k. if sp_awards plan ! k > 0 \<and> \<not> bit (sp_winner_mask plan) k
           then Inl (Serialization ''settlement: award paid to non-winner seat'')
           else if k \<ge> n \<and> sp_awards plan ! k \<noteq> 0
           then Inl (Serialization ''settlement: award exceeds seat bounds'')
           else Inr ()) () [0..<length (sp_awards plan)] = Inr ()"
    unfolding try_fold_unit_Inr using p(1) pn assms(4) by auto
  have d: "\<not> list_ex (\<lambda>p. p \<noteq> pot_plan_inactive) (drop (sp_pot_count plan) (sp_pots plan))"
    using assms(5) by (auto simp: list_ex_iff)
  have le: "sp_rake plan \<le> sp_gross_pot plan" using f assms(7,9) by simp
  show ?thesis
    using f d le w aw assms(1-4,7,9,10,12,13) unfolding plan_validate_def
    by (simp add: SETTLEMENT_SEATS_def checked_sub_def)
qed

section \<open>Derived plans\<close>

text \<open>
  What the derivation establishes of one runout: the winners are the eligible seats with the
  greatest rank on that board, and they share the amount from the left of the button.
\<close>

definition best_seats :: "'pt table \<Rightarrow> card list \<Rightarrow> 16 word \<Rightarrow> nat set" where
  "best_seats t board e =
     (let E = {i. i < max_players t \<and> bit e i} in {i \<in> E. seat_rank t board i = Max (seat_rank t board ` E)})"

definition runout_ok :: "'pt table \<Rightarrow> card list \<Rightarrow> 16 word \<Rightarrow> nat \<Rightarrow> runout_pot_plan \<Rightarrow> bool" where
  "runout_ok t board e a r \<longleftrightarrow> rp_amount r = a \<and> {i. bit (rp_winner_mask r) i} = best_seats t board e \<and>
     split_among_winners (rp_amount r) (rp_winner_mask r) (t_button t) (max_players t) = Inr (rp_awards r)"

definition pot_ok :: "'pt table \<Rightarrow> settlement_boards \<Rightarrow> side_pot \<Rightarrow> settlement_pot_plan \<Rightarrow> bool" where
  "pot_ok t bs pot p \<longleftrightarrow> pp_eligible p = sp_eligible pot \<and> pp_gross p = sp_amount pot \<and> pp_net p = pp_gross p - pp_rake p \<and>
     length (pp_runouts p) = 2 \<and> (\<forall>r\<in>set (pp_runouts p). length (rp_awards r) = 9) \<and>
     (is_contested p \<longrightarrow> 
       (\<forall>k<boards_runout_count bs. runout_ok t (runout_board bs k) (sp_eligible pot)
          (split_across_runouts (pp_net p) (boards_runout_count bs) ! k) (pp_runouts p ! k)))"

lemma runout_count_le: "boards_runout_count bs \<le> 2"
  by (cases bs) auto

lemma plan_runout_fold:
  assumes "try_fold (plan_runout t bs e amounts) ([runout_inactive, runout_inactive], w, aw) [0..<n] = Inr (rs, w', aw')"
    and "n \<le> 2" "max_players t \<le> 9" "length aw = 9"
  shows "length rs = 2 \<and> (\<forall>r\<in>set rs. length (rp_awards r) = 9) \<and> length aw' = 9 \<and>
    (\<forall>k<n. runout_ok t (runout_board bs k) e (amounts ! k) (rs ! k))"
  using assms
proof (induction n arbitrary: rs w' aw')
  case 0
  then show ?case by (auto simp: runout_inactive_def SETTLEMENT_SEATS_def)
next
  case (Suc n)
  let ?step = "plan_runout t bs e amounts"
  from Suc.prems(1) obtain st0 where st0:
    "try_fold ?step ([runout_inactive, runout_inactive], w, aw) [0..<n] = Inr st0" "?step st0 n = Inr (rs, w', aw')"
    by (auto simp: try_fold_append result_simps simp del: split_paired_Ex)
  obtain rs0 w0 aw0 where st0_eq: "st0 = (rs0, w0, aw0)" by (cases st0)
  note fold = st0(1) [unfolded st0_eq]
  from st0(2) obtain m ranks a where f:
    "find_winners t e (runout_board bs n) = Inr (m, ranks)"
    "split_among_winners (amounts ! n) m (t_button t) (max_players t) = Inr a"
    "add_awards (Serialization ''settlement: aggregate award overflow'') aw0 a = Inr aw'"
    "rs = rs0[n := \<lparr>rp_amount = amounts ! n, rp_winner_mask = m, rp_ranks = ranks, rp_awards = a\<rparr>]"
    unfolding st0_eq plan_runout_def Let_def prod.case by (auto simp: result_simps)
  have IH: "length rs0 = 2 \<and> (\<forall>r\<in>set rs0. length (rp_awards r) = 9) \<and> length aw0 = 9 \<and>
    (\<forall>k<n. runout_ok t (runout_board bs k) e (amounts ! k) (rs0 ! k))"
    using Suc.IH [OF fold] Suc.prems by simp
  have a: "length a = 9" using split_among_winners_Inr(2) [OF f(2) Suc.prems(3)] .
  have w: "{i. bit m i} = best_seats t (runout_board bs n) e"
    using find_winners_Inr(2) [OF f(1) Suc.prems(3)] by (simp add: best_seats_def Let_def)
  have "runout_ok t (runout_board bs n) e (amounts ! n) (rs ! n)"
    using IH Suc.prems(2) w f(2) by (simp add: f(4) runout_ok_def)
  moreover have "runout_ok t (runout_board bs k) e (amounts ! k) (rs ! k)" if "k < n" for k
    using that IH by (simp add: f(4))
  moreover have "\<forall>r\<in>set rs. length (rp_awards r) = 9"
    using IH a by (auto simp: f(4) dest!: set_update_subset_insert [THEN subsetD])
  moreover have "length aw' = 9" using add_awards_Inr(3) [OF f(3)] IH a by simp
  ultimately show ?case using IH by (auto simp: f(4) less_Suc_eq)
qed

lemma plan_pot_Inr:
  assumes "plan_pot t bs pots rakes (plans, w, aw) k = Inr (plans', w', aw')"
    and "max_players t \<le> 9" "length aw = 9"
  shows "\<exists>p. plans' = plans[k := p] \<and> pot_ok t bs (pots ! k) p \<and> length aw' = 9"
proof -
  let ?pot = "pots ! k" and ?net = "sp_amount (pots ! k) - rakes ! k"
  from assms(1) obtain rs where p: "plans' = plans[k := \<lparr>pp_index = k, pp_gross = sp_amount ?pot, pp_rake = rakes ! k,
      pp_net = ?net, pp_eligible = sp_eligible ?pot, pp_runouts = rs\<rparr>]"
    and rs: "(if count_ones (sp_eligible ?pot) \<ge> 2 then
                 try_fold (plan_runout t bs (sp_eligible ?pot) (split_across_runouts ?net (boards_runout_count bs)))
                   ([runout_inactive, runout_inactive], w, aw) [0..<boards_runout_count bs]
               else
                 rbind (split_among_winners ?net (sp_eligible ?pot) (t_button t) (max_players t)) (\<lambda>a.
                 rbind (add_awards (Serialization ''settlement: aggregate award overflow'') aw a) (\<lambda>aw'.
                   Inr ([\<lparr>rp_amount = ?net, rp_winner_mask = sp_eligible ?pot,
                          rp_ranks = replicate SETTLEMENT_SEATS None, rp_awards = a\<rparr>, runout_inactive],
                        w OR sp_eligible ?pot, aw')))) = Inr (rs, w', aw')"
    unfolding plan_pot_def Let_def prod.case by (auto simp: result_simps)
  have "length rs = 2 \<and> (\<forall>r\<in>set rs. length (rp_awards r) = 9) \<and> length aw' = 9 \<and>
      (count_ones (sp_eligible ?pot) \<ge> 2 \<longrightarrow>
        (\<forall>j<boards_runout_count bs. runout_ok t (runout_board bs j) (sp_eligible ?pot)
          (split_across_runouts ?net (boards_runout_count bs) ! j) (rs ! j)))"
  proof (cases "count_ones (sp_eligible ?pot) \<ge> 2")
    case True
    then have f: "try_fold (plan_runout t bs (sp_eligible ?pot) (split_across_runouts ?net (boards_runout_count bs)))
                   ([runout_inactive, runout_inactive], w, aw) [0..<boards_runout_count bs] = Inr (rs, w', aw')"
      using rs by simp
    from plan_runout_fold [OF f runout_count_le assms(2,3)] show ?thesis by simp
  next
    case False
    then obtain a where a: "split_among_winners ?net (sp_eligible ?pot) (t_button t) (max_players t) = Inr a"
      "add_awards (Serialization ''settlement: aggregate award overflow'') aw a = Inr aw'"
      "rs = [\<lparr>rp_amount = ?net, rp_winner_mask = sp_eligible ?pot,
                          rp_ranks = replicate SETTLEMENT_SEATS None, rp_awards = a\<rparr>, runout_inactive]"
      using rs by (auto simp: result_simps)
    have "length a = 9" using split_among_winners_Inr(2) [OF a(1) assms(2)] .
    with False a assms(3) add_awards_Inr(3) [OF a(2)] show ?thesis
      by (simp add: runout_inactive_def SETTLEMENT_SEATS_def)
  qed
  then show ?thesis using p by (auto simp: pot_ok_def is_contested_def)
qed

lemma plan_pot_fold:
  assumes "try_fold (plan_pot t bs pots rakes) (replicate 9 pot_plan_inactive, 0, replicate 9 0) [0..<n] = Inr (plans, w, aw)"
    and "max_players t \<le> 9" "n \<le> 9"
  shows "length plans = 9 \<and> length aw = 9 \<and> (\<forall>k<n. pot_ok t bs (pots ! k) (plans ! k)) \<and>
    (\<forall>p\<in>set plans. \<forall>r\<in>set (pp_runouts p). length (rp_awards r) = 9)"
  using assms
proof (induction n arbitrary: plans w aw)
  case 0
  then show ?case by (auto simp: pot_plan_inactive_def runout_inactive_def SETTLEMENT_SEATS_def)
next
  case (Suc n)
  from Suc.prems(1) obtain plans0 w0 aw0 where f:
    "try_fold (plan_pot t bs pots rakes) (replicate 9 pot_plan_inactive, 0, replicate 9 0) [0..<n] = Inr (plans0, w0, aw0)"
    "plan_pot t bs pots rakes (plans0, w0, aw0) n = Inr (plans, w, aw)"
    by (auto simp: try_fold_append result_simps)
  have IH: "length plans0 = 9 \<and> length aw0 = 9 \<and> (\<forall>k<n. pot_ok t bs (pots ! k) (plans0 ! k)) \<and>
    (\<forall>p\<in>set plans0. \<forall>r\<in>set (pp_runouts p). length (rp_awards r) = 9)"
    using Suc.IH [OF f(1)] Suc.prems by simp
  from plan_pot_Inr [OF f(2) Suc.prems(2)] IH obtain p where
    p: "plans = plans0[n := p]" "pot_ok t bs (pots ! n) p" "length aw = 9" by auto
  have "\<forall>q\<in>set plans. \<forall>r\<in>set (pp_runouts q). length (rp_awards r) = 9"
    using IH p by (auto simp: pot_ok_def dest!: set_update_subset_insert [THEN subsetD])
  then show ?case using IH p Suc.prems(3) by (auto simp: less_Suc_eq)
qed

lemma derive_boards_Inr:
  assumes "derive_settlement_plan_for_boards t bs = Inr plan"
  obtains result rakes where
    "calculate_side_pots (map seat_total_bet (t_seats t))
       (map (\<lambda>s. seat_is_folded s \<or> seat_has_left_hand s) (t_seats t)) (map seat_is_all_in (t_seats t)) = Inr result"
    "allocate_rake_fixed_rate (spr_active result) (r_rake_mode (t_rules t)) (r_rake_bps (t_rules t)) (r_rake_cap (t_rules t)) = Inr rakes"
    "sp_rake plan = sum_list rakes" "sp_gross_pot plan = t_pot t" "sp_pot_count plan = spr_count result"
    "spr_total result = t_pot t"
    "try_fold (plan_pot t bs (spr_active result) rakes) (replicate 9 pot_plan_inactive, 0, replicate 9 0)
       [0..<length (spr_active result)] = Inr (sp_pots plan, sp_winner_mask plan, sp_awards plan)"
    "plan_validate plan (max_players t) = Inr ()" "max_players t \<le> 9"
proof -
  from assms show thesis
    unfolding derive_settlement_plan_for_boards_def Let_def
    by (auto simp: result_simps checked_sum_Inr SETTLEMENT_SEATS_def split: sum.splits intro!: that)
qed

text \<open>The side pots a derivation starts from.\<close>

definition derived_side_pots :: "'pt table \<Rightarrow> side_pot_result" where
  "derived_side_pots t =
     (case calculate_side_pots (map seat_total_bet (t_seats t))
        (map (\<lambda>s. seat_is_folded s \<or> seat_has_left_hand s) (t_seats t)) (map seat_is_all_in (t_seats t)) of
        Inr r \<Rightarrow> r | Inl _ \<Rightarrow> \<lparr>spr_pots = [], spr_count = 0\<rparr>)"

lemma derived_pots_ok:
  assumes "derive_settlement_plan_for_boards t bs = Inr plan"
  shows "length (sp_pots plan) = 9" "plan_shaped plan"
    "\<And>k. k < sp_pot_count plan \<Longrightarrow> pot_ok t bs (spr_active (derived_side_pots t) ! k) (sp_pots plan ! k)"
    "sp_pot_count plan = length (spr_active (derived_side_pots t))"
    "calculate_side_pots (map seat_total_bet (t_seats t))
       (map (\<lambda>s. seat_is_folded s \<or> seat_has_left_hand s) (t_seats t)) (map seat_is_all_in (t_seats t)) =
       Inr (derived_side_pots t)"
proof -
  from derive_boards_Inr [OF assms] obtain result rakes where d:
    "calculate_side_pots (map seat_total_bet (t_seats t))
       (map (\<lambda>s. seat_is_folded s \<or> seat_has_left_hand s) (t_seats t)) (map seat_is_all_in (t_seats t)) = Inr result"
    "sp_pot_count plan = spr_count result" "max_players t \<le> 9"
    "try_fold (plan_pot t bs (spr_active result) rakes) (replicate 9 pot_plan_inactive, 0, replicate 9 0)
       [0..<length (spr_active result)] = Inr (sp_pots plan, sp_winner_mask plan, sp_awards plan)" by blast
  have r: "derived_side_pots t = result" by (simp add: derived_side_pots_def d(1))
  have len: "length (spr_active result) = spr_count result" "spr_count result \<le> 9"
    using calculate_totals [OF d(1)] by (simp_all add: spr_active_def MAX_SIDE_POTS_def)
  have "length (spr_active result) \<le> 9" using len by simp
  note f = plan_pot_fold [OF d(4,3) this]
  show "length (sp_pots plan) = 9" "plan_shaped plan" using f by (auto simp: plan_shaped_def)
  show "pot_ok t bs (spr_active (derived_side_pots t) ! k) (sp_pots plan ! k)" if "k < sp_pot_count plan" for k
    using f that len(1) d(2) r by simp
  show "sp_pot_count plan = length (spr_active (derived_side_pots t))" using len(1) d(2) r by simp
  show "calculate_side_pots (map seat_total_bet (t_seats t))
       (map (\<lambda>s. seat_is_folded s \<or> seat_has_left_hand s) (t_seats t)) (map seat_is_all_in (t_seats t)) =
       Inr (derived_side_pots t)" using d(1) r by simp
qed

lemma fold_win_Inr:
  assumes "derive_fold_win_plan t = Inr plan"
  obtains w rake where
    "filter (\<lambda>i. seat_is_occupied (t_seats t ! i) \<and> \<not> seat_is_folded (t_seats t ! i) \<and>
        \<not> seat_has_left_hand (t_seats t ! i)) [0..<length (t_seats t)] = [w]"
    "sum_list (map seat_total_bet (t_seats t)) = t_pot t" "t_pot t \<le> MAX_TOTAL_BET" "max_players t \<le> 9"
    "(if length (as_slice (t_community_cards t)) \<ge> 3
      then compute_rake (t_rules t) (t_pot t - (seat_total_bet (t_seats t ! w) -
        foldl max 0 (map (\<lambda>i. map seat_total_bet (t_seats t) ! i) (filter (\<lambda>i. i \<noteq> w) [0..<length (t_seats t)]))))
      else Inr 0) = Inr rake" "rake \<le> t_pot t"
    "sp_rake plan = rake" "sp_gross_pot plan = t_pot t" "sp_total_awards plan = t_pot t - rake"
    "sp_awards plan = (replicate 9 0)[w := t_pot t - rake]" "sp_winner_mask plan = seat_mask_bit w"
    "plan_validate plan (max_players t) = Inr ()"
proof -
  from assms obtain w where w: "filter (\<lambda>i. seat_is_occupied (t_seats t ! i) \<and> \<not> seat_is_folded (t_seats t ! i) \<and>
        \<not> seat_has_left_hand (t_seats t ! i)) [0..<length (t_seats t)] = [w]"
    unfolding derive_fold_win_plan_def Let_def
    by (auto simp: result_simps split: list.splits)
  have "w \<in> set [w]" by simp
  then have wl: "w < length (t_seats t)" unfolding w [symmetric] by simp
  from assms show thesis
    unfolding derive_fold_win_plan_def Let_def w list.case
    using w wl by (auto simp: result_simps checked_sum_Inr SETTLEMENT_SEATS_def saturating_sub_def fold_win_plan_def Let_def
        intro!: that [of w])
qed

lemma fold_win_plan_valid:
  assumes "w < n" "n \<le> 9" "rake \<le> gross" "gross < u64_bound"
  shows "plan_validate (fold_win_plan w gross rake (gross - rake)) n = Inr ()"
proof -
  let ?plan = "fold_win_plan w gross rake (gross - rake)" and ?aw = "(replicate 9 0)[w := gross - rake]"
  let ?r = "\<lparr>rp_amount = gross - rake, rp_winner_mask = seat_mask_bit w, rp_ranks = replicate 9 None, rp_awards = ?aw\<rparr>"
  let ?p = "\<lparr>pp_index = 0, pp_gross = gross, pp_rake = rake, pp_net = gross - rake, pp_eligible = seat_mask_bit w,
     pp_runouts = [?r, runout_inactive]\<rparr>"
  have w: "w < 16" "w < 9" using assms by simp_all
  note b = seat_mask_bit_facts [OF w(1)]
  have pots: "sp_pots ?plan = ?p # replicate 8 pot_plan_inactive" "active_pots ?plan = [?p]"
    by (simp_all add: fold_win_plan_def active_pots_def Let_def SETTLEMENT_SEATS_def replicate_9 numeral_eq_Suc)
  have bw: "bit (seat_mask_bit w) w" using b(1) by blast
  have unc: "\<not> is_contested ?p" using b(2) by (simp add: is_contested_def)
  have rv: "runout_valid ?p ?r"
    using w bw b(3) unc sum_list_single [OF w(2)] by (auto simp: runout_valid_def nth_list_update split: if_splits)
  have v: "pot_valid n (schedule_count (sp_schedule ?plan)) 0 ?p"
    using rv b assms unc by (simp add: pot_valid_def live_runouts_def)
  let ?v0 = "\<lparr>va_gross = 0, va_rake = 0, va_awards = replicate 9 0, va_winners = 0\<rparr>"
  have "length ?aw = 9" by simp
  then have z: "map2 (+) (replicate 9 0) ?aw = ?aw" by (intro nth_equalityI) simp_all
  show ?thesis
  proof (rule plan_validate_ok [OF _ _ assms(2) _ _ _ _ _ _ _ refl])
    show "\<forall>k<length (active_pots ?plan). pot_valid n (schedule_count (sp_schedule ?plan)) k (active_pots ?plan ! k)"
      using v by (simp add: pots)
    show "va_awards (foldl (add_pot (schedule_count (sp_schedule ?plan))) ?v0 (active_pots ?plan)) = sp_awards ?plan"
      "va_winners (foldl (add_pot (schedule_count (sp_schedule ?plan))) ?v0 (active_pots ?plan)) = sp_winner_mask ?plan"
      using z unc by (simp_all add: pots add_pot_def live_runouts_def add_runout_def)
        (simp_all add: fold_win_plan_def Let_def SETTLEMENT_SEATS_def)
    show "\<forall>p\<in>set (drop (sp_pot_count ?plan) (sp_pots ?plan)). p = pot_plan_inactive"
      by (simp add: pots) (simp add: fold_win_plan_def Let_def)
    show "sp_gross_pot ?plan = sum_list (map pp_gross (active_pots ?plan))" "sp_gross_pot ?plan < u64_bound"
      "sp_rake ?plan = sum_list (map pp_rake (active_pots ?plan))"
      using assms(4) by (simp_all add: pots) (simp_all add: fold_win_plan_def Let_def)
  qed (simp_all add: fold_win_plan_def Let_def SETTLEMENT_SEATS_def)
qed

lemma fold_win_total:
  assumes w: "filter (\<lambda>i. seat_is_occupied (t_seats t ! i) \<and> \<not> seat_is_folded (t_seats t ! i) \<and>
      \<not> seat_has_left_hand (t_seats t ! i)) [0..<length (t_seats t)] = [w]"
    and "w < max_players t" "max_players t \<le> 9" "sum_list (map seat_total_bet (t_seats t)) = t_pot t"
    and "t_pot t \<le> MAX_TOTAL_BET" "r_rake_mode (t_rules t) = RAKE_MODE_NONE \<or> r_rake_mode (t_rules t) = RAKE_MODE_PERCENTAGE"
  shows "\<exists>plan. derive_fold_win_plan t = Inr plan"
proof -
  define g where "g = t_pot t - (map seat_total_bet (t_seats t) ! w - foldl max 0
    (map (\<lambda>i. map seat_total_bet (t_seats t) ! i) (filter (\<lambda>i. i \<noteq> w) [0..<length (t_seats t)])))"
  obtain rake where rake: "(if length (as_slice (t_community_cards t)) \<ge> 3 then compute_rake (t_rules t) g else Inr 0) = Inr rake"
    "rake \<le> g"
  proof -
    have "\<exists>r\<le>g. compute_rake (t_rules t) g = Inr r"
      using assms(6) by (auto simp: compute_rake_def RAKE_MODE_NONE_def RAKE_MODE_PERCENTAGE_def)
    then show thesis using that by (cases "length (as_slice (t_community_cards t)) \<ge> 3") auto
  qed
  have g: "g \<le> t_pot t" "t_pot t < u64_bound" using assms(5) by (simp_all add: g_def MAX_TOTAL_BET_def)
  have cs: "checked_sum (Serialization ''settlement: bet sum overflow'') (map seat_total_bet (t_seats t)) = Inr (t_pot t)"
    using g assms(4) by (simp add: checked_sum_Inr)
  have "plan_validate (fold_win_plan w (t_pot t) rake (t_pot t - rake)) (max_players t) = Inr ()"
    using fold_win_plan_valid [OF assms(2,3) _ g(2)] rake(2) g(1) by simp
  then have "derive_fold_win_plan t = Inr (fold_win_plan w (t_pot t) rake (t_pot t - rake))"
    using assms(3,5) rake g(1) unfolding derive_fold_win_plan_def Let_def w list.case cs
    by (cases "length (as_slice (t_community_cards t)) \<ge> 3")
      (simp_all add: SETTLEMENT_SEATS_def saturating_sub_def g_def [symmetric] checked_sub_def)
  then show ?thesis ..
qed

section \<open>Properties\<close>

text \<open>Concrete tables for the witnesses: playing seats with two cards each, and a board.\<close>

definition demo_seat :: "nat \<Rightarrow> nat \<Rightarrow> nat \<Rightarrow> playing_seat_status \<Rightarrow> unit seat" where
  "demo_seat c d total_bet st = SeatPlaying \<lparr>pl_occupied = \<lparr>oc_player = [1], oc_stack = 0, oc_pk = (),
     oc_tx_pk = UNREGISTERED, oc_pending_addon = 0, oc_time_bank_ms = 0\<rparr>,
     pl_hand = fixed_of 2 [Card c, Card d], pl_bet = 0, pl_total_bet = total_bet, pl_status = st\<rparr>"

definition demo_table :: "unit seat list \<Rightarrow> nat \<Rightarrow> nat list \<Rightarrow> unit table" where
  "demo_table seats pot board =
     \<lparr>t_id = [], t_creator = [1], t_rules = (rules_new 2 1 2)\<lparr>r_rake_mode := RAKE_MODE_PERCENTAGE\<rparr>,
      t_seats = seats, t_acted_mask = 0, t_leave_after_hand_mask = 0, t_button = 0,
      t_last_bb_seat = NO_SEAT, t_pot = pot, t_community_cards = fixed_of 5 (map Card board),
      t_hand_phase = PhaseWaiting, t_deck_state = deck_default, t_chip_pool = 0, t_run_it_twice_state = Single,
      t_hand_id = 0, t_call_seq = 0\<rparr>"

definition demo_fold_win :: "unit table" where
  "demo_fold_win = demo_table [demo_seat 0 1 100 PActive, demo_seat 2 3 60 PFolded] 160 [10, 20, 30]"

definition demo_showdown :: "unit table" where
  "demo_showdown = demo_table ([demo_seat 12 25 100 PActive, demo_seat 11 24 100 PActive] @ replicate 7 seat_empty) 200
     [0, 14, 28, 42, 7]"

lemmas demo_defs = demo_table_def demo_seat_def demo_fold_win_def demo_showdown_def rules_new_def
  RAKE_MODE_PERCENTAGE_def RAKE_MODE_NONE_def DEFAULT_RAKE_BPS_def DEFAULT_RAKE_CAP_def

lemma demo_fold_win_plan: "\<exists>plan. derive_fold_win_plan demo_fold_win = Inr plan"
proof (rule fold_win_total [where w = 0])
  show "filter (\<lambda>i. seat_is_occupied (t_seats demo_fold_win ! i) \<and> \<not> seat_is_folded (t_seats demo_fold_win ! i) \<and>
      \<not> seat_has_left_hand (t_seats demo_fold_win ! i)) [0..<length (t_seats demo_fold_win)] = [0]"
    by (simp add: demo_defs seat_is_folded_def upt_rec)
qed (simp_all add: demo_defs MAX_TOTAL_BET_def)

text \<open>
  Odd chips: a pot of any size is divided completely among its winners, who are the seats
  of the mask below the number of seats; every winner gets the same share, and the chips that
  are left over go one each to the winners that come first clockwise from the left of the
  button; nobody else gets anything.
\<close>

theorem split_among_winners_fair:
  assumes "split_among_winners amount winners button n = Inr awards" "n \<le> SETTLEMENT_SEATS"
  defines "ord \<equiv> ordered_winners winners button n"
  shows "sum_list awards = amount \<and> distinct ord \<and> set ord = {s. s < n \<and> bit winners s} \<and>
    (\<forall>p<length ord. awards ! (ord ! p) = amount div length ord + (if p < amount mod length ord then 1 else 0)) \<and>
    (\<forall>s<SETTLEMENT_SEATS. s \<notin> set ord \<longrightarrow> awards ! s = 0)"
  using split_among_winners_Inr [OF assms(1)] ordered_winners_facts [of n winners button] assms(2)
  by (simp add: ord_def SETTLEMENT_SEATS_def)

theorem split_among_winners_fair_witness:
  "\<exists>awards. split_among_winners 7 11 1 4 = Inr awards \<and> sum_list awards = 7"
proof -
  have e: "split_among_winners 7 11 1 4 = Inr [2, 2, 0, 3, 0, 0, 0, 0, 0]"
    by (simp add: split_among_winners_def ordered_winners_def SETTLEMENT_SEATS_def upt_rec replicate_9 seat_mask_bit_def)
  show ?thesis using split_among_winners_fair [OF e] e by (simp add: SETTLEMENT_SEATS_def)
qed

text \<open>
  Rake: with a rate of at most 100 per cent, the rake of each pot is at most the pot, the
  rakes together are at most the cap, and a pot that only one seat can win is never raked.
\<close>

theorem rake_allocation_bounded:
  assumes "allocate_rake_fixed_rate pots rake_mode bps cap = Inr rakes" "bps \<le> 10000"
  shows "length rakes = length pots \<and> sum_list rakes \<le> cap \<and>
    (\<forall>i<length pots. rakes ! i \<le> sp_amount (pots ! i) \<and>
       (count_ones (sp_eligible (pots ! i)) < 2 \<longrightarrow> rakes ! i = 0))"
  using allocate_rake_facts [OF assms] by blast

theorem rake_allocation_bounded_witness:
  "\<exists>rakes. allocate_rake_fixed_rate [side_pot_new 1000 3, side_pot_new 50 1] 1 500 40 = Inr rakes \<and> sum_list rakes \<le> 40"
proof -
  obtain rakes where r: "allocate_rake_fixed_rate [side_pot_new 1000 3, side_pot_new 50 1] 1 500 40 = Inr rakes"
    by (simp add: allocate_rake_fixed_rate_def demo_defs)
  show ?thesis using rake_allocation_bounded [OF r] r by simp
qed

text \<open>
  Winning without a showdown: the plan exists only if exactly one seat is left in the hand;
  that seat gets the whole pot less the rake; there is no rake before the flop, and the part of
  the winner's bet that nobody called is never raked.
\<close>

theorem fold_win_exact:
  assumes "derive_fold_win_plan t = Inr plan"
  shows "\<exists>w. {i. i < length (t_seats t) \<and> seat_is_occupied (t_seats t ! i) \<and>
        \<not> seat_is_folded (t_seats t ! i) \<and> \<not> seat_has_left_hand (t_seats t ! i)} = {w} \<and>
    sp_awards plan = (replicate 9 0)[w := t_pot t - sp_rake plan] \<and>
    sum_list (map seat_total_bet (t_seats t)) = t_pot t \<and> sp_rake plan \<le> r_rake_cap (t_rules t) \<and>
    (length (as_slice (t_community_cards t)) < 3 \<longrightarrow> sp_rake plan = 0) \<and>
    sp_rake plan + (seat_total_bet (t_seats t ! w) - Max (insert 0 {seat_total_bet (t_seats t ! i) | i.
       i < length (t_seats t) \<and> i \<noteq> w})) \<le> t_pot t"
  using assms
proof (rule fold_win_Inr)
  fix w rake
  let ?bets = "map (\<lambda>i. map seat_total_bet (t_seats t) ! i) (filter (\<lambda>i. i \<noteq> w) [0..<length (t_seats t)])"
  let ?others = "{seat_total_bet (t_seats t ! i) | i. i < length (t_seats t) \<and> i \<noteq> w}"
  assume w: "filter (\<lambda>i. seat_is_occupied (t_seats t ! i) \<and> \<not> seat_is_folded (t_seats t ! i) \<and>
        \<not> seat_has_left_hand (t_seats t ! i)) [0..<length (t_seats t)] = [w]"
    and sum: "sum_list (map seat_total_bet (t_seats t)) = t_pot t"
    and rk: "(if length (as_slice (t_community_cards t)) \<ge> 3
      then compute_rake (t_rules t) (t_pot t - (seat_total_bet (t_seats t ! w) - foldl max 0 ?bets)) else Inr 0) = Inr rake"
    and p: "sp_rake plan = rake" "sp_awards plan = (replicate 9 0)[w := t_pot t - rake]"
  have "set (filter (\<lambda>i. seat_is_occupied (t_seats t ! i) \<and> \<not> seat_is_folded (t_seats t ! i) \<and>
        \<not> seat_has_left_hand (t_seats t ! i)) [0..<length (t_seats t)]) = {w}" using w by simp
  then have W: "{i. i < length (t_seats t) \<and> seat_is_occupied (t_seats t ! i) \<and>
        \<not> seat_is_folded (t_seats t ! i) \<and> \<not> seat_has_left_hand (t_seats t ! i)} = {w}" by auto
  then have wl: "w < length (t_seats t)" by blast
  have "set ?bets = ?others" by force
  then have M: "foldl max 0 ?bets = Max (insert 0 ?others)"
    using Max.set_eq_fold [of 0 ?bets] by (simp add: foldl_conv_fold max.commute)
  have le: "seat_total_bet (t_seats t ! w) \<le> t_pot t" using nth_le_sum_list [OF wl, of seat_total_bet] sum by simp
  have rk': "rake \<le> r_rake_cap (t_rules t) \<and> (length (as_slice (t_community_cards t)) < 3 \<longrightarrow> rake = 0) \<and>
      rake \<le> t_pot t - (seat_total_bet (t_seats t ! w) - foldl max 0 ?bets)"
    using rk compute_rake_bound by (cases "length (as_slice (t_community_cards t)) \<ge> 3") simp_all
  then have "rake + (seat_total_bet (t_seats t ! w) - Max (insert 0 ?others)) \<le> t_pot t"
    using le unfolding M by linarith
  with W sum rk' show ?thesis unfolding p by blast
qed

theorem fold_win_exact_witness:
  "\<exists>plan. derive_fold_win_plan demo_fold_win = Inr plan \<and> sp_rake plan \<le> 1000"
proof -
  obtain plan where p: "derive_fold_win_plan demo_fold_win = Inr plan" using demo_fold_win_plan by blast
  have "r_rake_cap (t_rules demo_fold_win) = 1000" by (simp add: demo_defs)
  with fold_win_exact [OF p] p show ?thesis by auto
qed

end
