(* ===== verification/Poker_Engine.thy ===== *)
theory Poker_Engine
  imports Poker_Events Poker_Settlement
begin

text \<open>
  The hand life cycle of the state machine (\<^verbatim>\<open>poker_l1/.../core/state_machine.rs\<close>): state
  predicates, the deck, the button and the blinds, the betting round, the reveal phases, the
  end of a hand, and removing a player. An operation takes the table and the events so far and
  returns both; an error of the source is a left value, and the state it leaves is not
  observable, because the dispatcher restores the table it started from.

  The curve library and the hash of a settlement plan are the argument \<open>C\<close>. The trace of
  normalisation steps, which only feeds the prover, is not part of the state.
\<close>

section \<open>Cryptographic library\<close>

record 'pt crypto =
  cr_group :: "'pt group_ops"
  cr_sub :: "'pt \<Rightarrow> 'pt \<Rightarrow> 'pt"
  cr_generator :: 'pt
  cr_identity :: 'pt
  cr_cards :: "'pt list"
  cr_plan_digest :: "settlement_plan \<Rightarrow> 8 word list res"

section \<open>Access to seats\<close>

type_synonym 'pt step = "('pt table \<times> events) res"

definition seat_at :: "'pt table \<Rightarrow> nat \<Rightarrow> 'pt seat res" where
  "seat_at t i = (if i < length (t_seats t) then Inr (t_seats t ! i) else Inl (Panic ''index out of bounds''))"

definition update_seat :: "nat \<Rightarrow> ('pt seat \<Rightarrow> 'pt seat res) \<Rightarrow> 'pt table \<Rightarrow> 'pt table res" where
  "update_seat i f t = rbind (seat_at t i) (\<lambda>s. rbind (f s) (\<lambda>s'. Inr (t\<lparr>t_seats := (t_seats t)[i := s']\<rparr>)))"

fun with_playing :: "('pt playing_seat \<Rightarrow> 'pt playing_seat res) \<Rightarrow> 'pt seat \<Rightarrow> 'pt seat res" where
  "with_playing f (SeatPlaying p) = rbind (f p) (\<lambda>p'. Inr (SeatPlaying p'))"
| "with_playing f _ = Inl (Serialization ''Texas seat is not participating in the current hand'')"

text \<open>\<^verbatim>\<open>for (i, s) in seats.iter_mut().enumerate()\<close>, with the events the body emits.\<close>

fun each_seat ::
    "(nat \<Rightarrow> 'pt seat \<Rightarrow> events \<Rightarrow> ('pt seat \<times> events) res) \<Rightarrow> nat \<Rightarrow> 'pt seat list \<Rightarrow> events \<Rightarrow>
     ('pt seat list \<times> events) res" where
  "each_seat f i [] es = Inr ([], es)"
| "each_seat f i (s # ss) es =
     rbind (f i s es) (\<lambda>(s', es). rbind (each_seat f (Suc i) ss es) (\<lambda>(ss', es). Inr (s' # ss', es)))"

definition seats_where :: "('pt seat \<Rightarrow> bool) \<Rightarrow> 'pt seat list \<Rightarrow> nat list" where
  "seats_where P ss = filter (\<lambda>i. P (ss ! i)) [0..<length ss]"

definition mask_where :: "(nat \<Rightarrow> 'pt seat \<Rightarrow> bool) \<Rightarrow> 'pt seat list \<Rightarrow> seat_mask" where
  "mask_where P ss = foldl (\<lambda>m i. if P i (ss ! i) then m OR seat_mask_bit i else m) 0 [0..<length ss]"

section \<open>State predicates\<close>

definition can_join_state :: "'pt table \<Rightarrow> bool" where
  "can_join_state t \<longleftrightarrow> round_state t = ROUND_WAITING"

definition can_leave_state :: "'pt table \<Rightarrow> bool" where
  "can_leave_state t = can_join_state t"

definition is_betting_round :: "'pt table \<Rightarrow> bool" where
  "is_betting_round t \<longleftrightarrow> table_betting_round t \<noteq> None \<and>
     (round_state t = ROUND_PREFLOP \<or> round_state t = ROUND_FLOP \<or> round_state t = ROUND_TURN \<or> round_state t = ROUND_RIVER)"

definition reconcile_table_vault :: "'pt group_ops \<Rightarrow> 'pt table \<Rightarrow> nat res" where
  "reconcile_table_vault G t =
     rbind (validate_state_schema G t) (\<lambda>_.
     rbind (canonical_hand_phase t) (\<lambda>_.
     rbind (try_fold (\<lambda>(stacks, pending_addons, current_bets, total_bets) s.
         rbind (ok_or (checked_add stacks (seat_stack s)) (Other ''Texas seat stack sum overflow'')) (\<lambda>a.
         rbind (ok_or (checked_add pending_addons (seat_pending_addon s)) (Other ''Texas pending addon sum overflow'')) (\<lambda>b.
         rbind (ok_or (checked_add current_bets (seat_bet s)) (Other ''Texas current bet sum overflow'')) (\<lambda>c.
         rbind (ok_or (checked_add total_bets (seat_total_bet s)) (Other ''Texas total bet sum overflow'')) (\<lambda>d.
           Inr (a, b, c, d)))))) (0, 0, 0, 0) (t_seats t)) (\<lambda>(stacks, pending_addons, current_bets, total_bets).
     rbind (ok_or (checked_add (t_pot t) current_bets) (Other ''Texas wager custody sum overflow'')) (\<lambda>wagers_in_custody.
     if wagers_in_custody \<noteq> total_bets then Inl (Other ''Texas wager ledger mismatch'')
     else rbind (ok_or (case checked_add stacks pending_addons of
                     None \<Rightarrow> None | Some v \<Rightarrow> checked_add v wagers_in_custody)
                  (Other ''Texas TableVault accounting overflow'')) (\<lambda>accounted.
       if accounted \<noteq> t_chip_pool t then Inl (Other ''Texas TableVault invariant violated'')
       else Inr accounted)))))"

definition is_player_turn :: "'pt table \<Rightarrow> nat \<Rightarrow> bool" where
  "is_player_turn t i \<longleftrightarrow> current_turn t = i"

definition is_pk_registered :: "'pt seat list \<Rightarrow> 'pt \<Rightarrow> bool" where
  "is_pk_registered ss pk = list_ex (\<lambda>s. seat_pk s = Some pk) ss"

section \<open>Seats and players\<close>

text \<open>Participating: occupied and not waiting. Contending: not folded either. Actionable: can still wager.\<close>

definition participates :: "'pt seat \<Rightarrow> bool" where
  "participates s \<longleftrightarrow> seat_is_occupied s \<and> \<not> seat_is_waiting s"

definition contends :: "'pt seat \<Rightarrow> bool" where
  "contends s \<longleftrightarrow> seat_is_occupied s \<and> \<not> seat_is_folded s \<and> \<not> seat_is_waiting s"

definition can_act :: "'pt seat \<Rightarrow> bool" where
  "can_act s \<longleftrightarrow> seat_is_occupied s \<and> \<not> seat_is_folded s \<and> \<not> seat_is_all_in s \<and> \<not> seat_is_waiting s"

definition count_active_players :: "'pt seat list \<Rightarrow> nat" where
  "count_active_players ss = length (filter contends ss)"

definition count_active_occupied :: "'pt seat list \<Rightarrow> nat" where
  "count_active_occupied ss = length (filter participates ss)"

definition get_active_seat_indices :: "'pt seat list \<Rightarrow> nat list" where
  "get_active_seat_indices ss = seats_where participates ss"

definition get_active_seat_mask :: "'pt seat list \<Rightarrow> seat_mask" where
  "get_active_seat_mask ss = mask_where (\<lambda>_ s. participates s) ss"

definition get_pending_seat_mask :: "seat_mask \<Rightarrow> 'pt seat list \<Rightarrow> seat_mask" where
  "get_pending_seat_mask completed ss = mask_where (\<lambda>i s. participates s \<and> \<not> seat_mask_contains completed i) ss"

definition clockwise :: "nat \<Rightarrow> nat \<Rightarrow> nat list" where
  "clockwise from n = map (\<lambda>offset. (from + offset) mod n) [1..<n + 1]"

definition find_next_active_seat :: "'pt seat list \<Rightarrow> nat \<Rightarrow> nat \<Rightarrow> nat option" where
  "find_next_active_seat ss from n = List.find (\<lambda>i. can_act (ss ! i)) (clockwise from n)"

definition find_next_participating_seat :: "'pt seat list \<Rightarrow> nat \<Rightarrow> nat \<Rightarrow> nat option" where
  "find_next_participating_seat ss from n = List.find (\<lambda>i. participates (ss ! i)) (clockwise from n)"

definition has_actionable_player :: "'pt seat list \<Rightarrow> bool" where
  "has_actionable_player ss = list_ex can_act ss"

definition count_actionable_players :: "'pt seat list \<Rightarrow> nat" where
  "count_actionable_players ss = length (filter (\<lambda>s. can_act s \<and> \<not> seat_has_left_hand s) ss)"

definition no_further_betting_possible :: "'pt table \<Rightarrow> bool" where
  "no_further_betting_possible t =
     (if count_active_players (t_seats t) < 2 \<or> count_actionable_players (t_seats t) > 1 then False
      else case table_betting_round t of
        None \<Rightarrow> False
      | Some r \<Rightarrow> list_all (\<lambda>s. \<not> (can_act s \<and> \<not> seat_has_left_hand s) \<or> seat_bet s = current_bet r) (t_seats t))"

section \<open>Deck\<close>

definition set_initial_encrypted_deck :: "'pt crypto \<Rightarrow> 'pt table \<Rightarrow> 'pt table res" where
  "set_initial_encrypted_deck C t =
     rbind (deck_try_from (map (\<lambda>m. \<lparr>ct_c1 = cr_generator C, ct_c2 = m\<rparr>) (cr_cards C))) (\<lambda>d.
       Inr (t\<lparr>t_deck_state := (t_deck_state t)\<lparr>ds_encrypted := d, ds_cards_dealt := 0, ds_ledger := ledger_default\<rparr>\<rparr>))"

definition rebuild_deck_from_reconstruct_deck :: "'pt table \<Rightarrow> 'pt table res" where
  "rebuild_deck_from_reconstruct_deck t =
     rbind (ok_or (ds_reconstruct_accumulated (t_deck_state t))
         (Serialization ''rebuild_deck V3 requires at least one verified contribution'')) (\<lambda>cts.
       if length cts \<noteq> 52 then Inl (Serialization ''rebuild_deck V3 accumulator has wrong length'')
       else rbind (deck_try_from cts) (\<lambda>d.
         Inr (t\<lparr>t_deck_state := (t_deck_state t)\<lparr>ds_encrypted := d, ds_cards_dealt := 0\<rparr>\<rparr>)))"

section \<open>Button, blinds and ante\<close>

definition move_button :: "'pt table \<Rightarrow> 'pt table" where
  "move_button t = t\<lparr>t_button := (t_button t + 1) mod max_players t\<rparr>"

definition post_blind :: "string \<Rightarrow> string \<Rightarrow> nat \<Rightarrow> 'pt seat \<Rightarrow> 'pt seat res" where
  "post_blind msg_stack msg_total amt s =
     rbind (with_playing (\<lambda>p.
         rbind (ok_or (checked_sub (oc_stack (pl_occupied p)) amt) (Serialization msg_stack)) (\<lambda>st.
         rbind (ok_or (checked_add (pl_total_bet p) amt) (Serialization msg_total)) (\<lambda>tb.
           Inr (p\<lparr>pl_occupied := (pl_occupied p)\<lparr>oc_stack := st\<rparr>, pl_bet := amt, pl_total_bet := tb\<rparr>)))) s) (\<lambda>s'.
       if seat_stack s' = 0 then set_status AllIn s' else Inr s')"

definition blind_seats :: "'pt table \<Rightarrow> (nat \<times> nat) res" where
  "blind_seats t =
     (let n = max_players t; ss = t_seats t;
          base = (if t_last_bb_seat t \<noteq> NO_SEAT then t_last_bb_seat t else t_button t);
          bb = (case find_next_participating_seat ss base n of None \<Rightarrow> base | Some i \<Rightarrow> i) in
      if count_active_occupied ss = 2 then
        Inr ((case find_next_participating_seat ss bb n of None \<Rightarrow> bb | Some i \<Rightarrow> i), bb)
      else rbind (seat_at t base) (\<lambda>s. Inr (if base \<noteq> bb \<and> participates s then base else NO_SEAT, bb)))"

definition post_blinds :: "'pt table \<Rightarrow> events \<Rightarrow> ('pt table \<times> events \<times> nat \<times> nat \<times> nat) res" where
  "post_blinds t es =
     rbind (blind_seats t) (\<lambda>(sb, bb).
     let t = t\<lparr>t_last_bb_seat := bb\<rparr> in
     rbind (seat_at t bb) (\<lambda>bb_seat.
     let bb_amt = min (r_big_blind (t_rules t)) (seat_stack bb_seat) in
     rbind (if sb = NO_SEAT then Inr (t, 0)
            else rbind (seat_at t sb) (\<lambda>sb_seat.
              let sb_amt = min (r_small_blind (t_rules t)) (seat_stack sb_seat) in
              rbind (update_seat sb (post_blind ''post_blinds: sb stack -= sb_amt underflow''
                  ''post_blinds: sb total_bet += sb_amt overflow'' sb_amt) t) (\<lambda>t. Inr (t, sb_amt)))) (\<lambda>(t, sb_amt).
     rbind (update_seat bb (post_blind ''post_blinds: bb stack -= bb_amt underflow''
                  ''post_blinds: bb total_bet += bb_amt overflow'' bb_amt) t) (\<lambda>t.
       Inr (t, emit_event (BlindsPosted (t_id t) sb bb sb_amt bb_amt bb) es, sb, bb, bb)))))"

definition post_ante :: "nat \<Rightarrow> 'pt seat \<Rightarrow> 'pt seat res" where
  "post_ante actual = with_playing (\<lambda>p.
     let st = oc_stack (pl_occupied p) - actual in
     Inr (p\<lparr>pl_occupied := (pl_occupied p)\<lparr>oc_stack := st\<rparr>, pl_total_bet := pl_total_bet p + actual,
            pl_status := (if st = 0 then PAllIn else pl_status p)\<rparr>))"

definition collect_ante :: "nat \<Rightarrow> 'pt table \<Rightarrow> events \<Rightarrow> 'pt step" where
  "collect_ante bb_seat t es =
     (let mode = r_ante_mode (t_rules t); amount = r_ante_amount (t_rules t) in
      if mode = ANTE_MODE_NONE \<or> amount = 0 then Inr (t, es)
      else
        let targets = (if mode = ANTE_MODE_BBA then [bb_seat] else get_active_seat_indices (t_seats t));
            antes = map (\<lambda>i. (i, min amount (seat_stack (t_seats t ! i)))) targets in
        rbind (checked_sum (Serialization ''collect_ante: total overflow'') (map snd antes)) (\<lambda>total_ante.
        rbind (ok_or (checked_add (t_pot t) total_ante) (Serialization ''collect_ante: pot overflow'')) (\<lambda>pot.
        rbind (try_fold (\<lambda>_ (i, actual). rbind (ok_or (checked_add (seat_total_bet (t_seats t ! i)) actual)
                   (Serialization ''collect_ante: total_bet overflow'')) (\<lambda>_. Inr ())) () antes) (\<lambda>_.
          try_fold (\<lambda>(t, es) (i, actual).
              rbind (update_seat i (post_ante actual) t) (\<lambda>t.
                Inr (t, emit_event (AntePosted (t_id t) i actual mode) es)))
            (t\<lparr>t_pot := pot\<rparr>, es) antes))))"

section \<open>Reset for the next hand\<close>

text \<open>
  The preflight of the source over the seats: it checks the addon merge and the refunds of
  the players who leave, and collects those players and the total of their refunds.
\<close>

definition reset_preflight :: "'pt table \<Rightarrow> nat \<times> nat list \<times> nat \<Rightarrow> nat \<Rightarrow> (nat \<times> nat list \<times> nat) res" where
  "reset_preflight t st i =
     (let (total_addon, to_leave, total_refund) = st; s = t_seats t ! i in
      rbind (if seat_pending_addon s > 0 \<and> seat_is_occupied s then
               rbind (ok_or (checked_add (seat_stack s) (seat_pending_addon s))
                        (Serialization ''reset_for_next_hand: stack += pending_addon overflow'')) (\<lambda>_.
               ok_or (checked_add total_addon (seat_pending_addon s))
                 (Serialization ''reset_for_next_hand: total pending addon overflow''))
             else Inr total_addon) (\<lambda>total_addon.
      if seat_is_occupied s \<and> seat_wants_leave t i then
        rbind (ok_or (checked_add (seat_stack s) (seat_pending_addon s))
                 (Serialization ''reset_for_next_hand: leave refund overflow'')) (\<lambda>refund.
        rbind (ok_or (checked_add total_refund refund)
                 (Serialization ''reset_for_next_hand: total leave refund overflow'')) (\<lambda>total_refund.
          Inr (total_addon, to_leave @ [i], total_refund)))
      else Inr (total_addon, to_leave, total_refund)))"

definition merge_addon :: "table_id \<Rightarrow> nat \<Rightarrow> 'pt seat \<Rightarrow> events \<Rightarrow> ('pt seat \<times> events) res" where
  "merge_addon tid i s es =
     (if seat_pending_addon s > 0 \<and> seat_is_occupied s then
        let player = seat_player s; amount = seat_pending_addon s in
        rbind (ok_or (checked_add (seat_stack s) amount)
                 (Serialization ''reset_for_next_hand: stack += pending_addon overflow'')) (\<lambda>post_stack.
        rbind (set_stack post_stack s) (\<lambda>s.
        rbind (set_pending_addon 0 s) (\<lambda>s.
          Inr (s, emit_event (AddonCredited tid i player amount (seat_stack s)) es))))
      else Inr (s, es))"

definition refill_time_bank :: "'pt seat \<Rightarrow> 'pt seat" where
  "refill_time_bank s =
     (if seat_is_occupied s then
        set_time_bank_ms (min (saturating_add_u32 (seat_time_bank_ms s) TIME_BANK_REFILL_PER_HAND_MS) DEFAULT_TIME_BANK_MS) s
      else s)"

definition vacate_seat :: "nat \<Rightarrow> 'pt table \<Rightarrow> 'pt table" where
  "vacate_seat i t =
     set_seat_wants_leave i False
       ((set_contributor_mask (seat_mask_remove (ds_contributor_mask (t_deck_state t)) i) t)
          \<lparr>t_seats := (t_seats t)[i := seat_empty]\<rparr>)"

definition reset_leave :: "'pt table \<times> events \<Rightarrow> nat \<Rightarrow> 'pt step" where
  "reset_leave st i =
     (let (t, es) = st; s = t_seats t ! i; player = seat_player s;
          refund = u64_add (seat_stack s) (seat_pending_addon s) in
      rbind (if refund > 0 then
               rbind (update_seat i (set_stack 0) t) (\<lambda>t.
               rbind (update_seat i (set_pending_addon 0) t) (\<lambda>t.
                 Inr (t, emit_event (PlayerRefund (t_id t) i player refund REFUND_TYPE_STACK_ONLY) es)))
             else Inr (t, es)) (\<lambda>(t, es).
        Inr (vacate_seat i t, emit_event (PlayerLeft (t_id t) i player) es)))"

definition reset_remove :: "'pt table \<times> events \<Rightarrow> nat \<Rightarrow> 'pt table \<times> events" where
  "reset_remove st i =
     (let (t, es) = st in
      (vacate_seat i t, emit_event (PlayerLeft (t_id t) i (seat_player (t_seats t ! i))) es))"

text \<open>The last statements of the reset: every field of the finished hand is cleared.\<close>

definition reset_clear :: "'pt table \<Rightarrow> 'pt table" where
  "reset_clear t =
     (let t = (if count_active_occupied (t_seats t) = 0 then set_contributor_mask 0 t else t) in
      enter_waiting (t\<lparr>t_pot := 0, t_community_cards := board_empty, t_acted_mask := 0, t_leave_after_hand_mask := 0,
        t_deck_state := (t_deck_state t)\<lparr>ds_encrypted := DeckAbsent, ds_cards_dealt := 0, ds_ledger := ledger_default\<rparr>,
        t_run_it_twice_state := Single\<rparr>))"

definition reset_for_next_hand :: "'pt crypto \<Rightarrow> 'pt table \<Rightarrow> events \<Rightarrow> 'pt step" where
  "reset_for_next_hand C t es =
     rbind (try_fold (reset_preflight t) (0, [], 0) [0..<length (t_seats t)]) (\<lambda>(_, to_leave, total_refund).
     rbind (ok_or (checked_sub (t_chip_pool t) total_refund)
              (Serialization ''reset_for_next_hand: leave chip_pool underflow'')) (\<lambda>post_pool.
     rbind (each_seat (merge_addon (t_id t)) 0 (t_seats t) es) (\<lambda>(ss, es).
     let ss = map refill_time_bank ss;
         contributors = mask_where (\<lambda>_ s. case seat_pk s of None \<Rightarrow> False
                                        | Some pk \<Rightarrow> \<not> g1_is_identity (cr_group C) pk) ss;
         t = set_contributor_mask contributors (t\<lparr>t_acted_mask := 0, t_seats := map prepare_next_hand ss\<rparr>) in
     rbind (try_fold reset_leave (t, es) to_leave) (\<lambda>(t, es).
     let t = t\<lparr>t_chip_pool := post_pool\<rparr>;
         (t, es) = foldl reset_remove (t, es)
            (seats_where (\<lambda>s. seat_has_left_hand s \<or> seat_is_occupied s \<and> seat_stack s = 0) (t_seats t)) in
     rbind (set_initial_encrypted_deck C (reset_clear t)) (\<lambda>t. Inr (t, es))))))"

section \<open>End of a hand\<close>

definition collect_bets_to_pot :: "'pt table \<Rightarrow> events \<Rightarrow> 'pt step" where
  "collect_bets_to_pot t es =
     rbind (checked_sum (Serialization ''collect_bets_to_pot: bet sum overflow'') (map seat_bet (t_seats t))) (\<lambda>to_collect.
     rbind (ok_or (checked_add (t_pot t) to_collect) (Serialization ''collect_bets_to_pot: pot += bets overflow'')) (\<lambda>post_pot.
     rbind (each_seat (\<lambda>_ s es. rbind (if seat_bet s > 0 then set_bet 0 s else Inr s) (\<lambda>s. Inr (s, es))) 0 (t_seats t) es) (\<lambda>(ss, es).
     rbind (try_fold seat_mask_insert 0 (seats_where (\<lambda>s. seat_bet s > 0) (t_seats t))) (\<lambda>collected.
       let t = t\<lparr>t_seats := ss, t_pot := post_pot\<rparr> in
       Inr (t, if collected \<noteq> 0
               then emit_event (PotCollected (t_id t) (round_state t) (t_pot t) collected) es else es)))))"

definition end_without_showdown :: "'pt crypto \<Rightarrow> 'pt table \<Rightarrow> events \<Rightarrow> 'pt step" where
  "end_without_showdown C t es =
     rbind (collect_bets_to_pot t es) (\<lambda>(t, es).
     rbind (case position contends (t_seats t) of
         None \<Rightarrow> Inr (t, es)
       | Some w \<Rightarrow>
           rbind (ok_or (checked_add (seat_stack (t_seats t ! w)) (t_pot t))
                    (Serialization ''end_without_showdown: winner stack += pot overflow'')) (\<lambda>post_stack.
           rbind (update_seat w (set_stack post_stack) t) (\<lambda>t'.
             Inr (t'\<lparr>t_pot := 0\<rparr>,
                  emit_event (HandEndedWithoutShowdown (t_id t') w (seat_player (t_seats t' ! w)) (t_pot t)) es)))) (\<lambda>(t, es).
       reset_for_next_hand C t es))"

definition winner_events :: "'pt table \<Rightarrow> settlement_plan \<Rightarrow> events" where
  "winner_events t plan =
     concat (map (\<lambda>pot.
       concat (map (\<lambda>r.
         concat (map (\<lambda>i. if rp_awards r ! i = 0 then []
             else [WinnerAwarded (t_id t) i (seat_player (t_seats t ! i)) (rp_awards r ! i)
                     (if pp_index pot = 0 then POT_TYPE_MAIN else POT_TYPE_SIDE)
                     (map_option hr_category (rp_ranks r ! i))]) [0..<max_players t]))
         (take (schedule_count (sp_schedule plan)) (pp_runouts pot)))) (active_pots plan))"

definition apply_settlement_plan :: "'pt crypto \<Rightarrow> settlement_plan \<Rightarrow> 'pt table \<Rightarrow> events \<Rightarrow> 'pt step" where
  "apply_settlement_plan C plan t es =
     rbind (plan_validate plan (max_players t)) (\<lambda>_.
     if t_pot t \<noteq> sp_gross_pot plan
     then Inl (Serialization ''settlement: plan gross pot does not match table pot'')
     else rbind (ok_or (checked_sub (t_chip_pool t) (sp_rake plan)) (Serialization ''settlement: rake exceeds TableVault'')) (\<lambda>post_pool.
     rbind (try_fold (\<lambda>stacks i.
         rbind (ok_or (checked_add (seat_stack (t_seats t ! i)) (sp_awards plan ! i))
                  (Serialization ''settlement: seat stack award overflow'')) (\<lambda>v. Inr (stacks @ [v])))
       [] [0..<length (t_seats t)]) (\<lambda>post_stacks.
     rbind (cr_plan_digest C plan) (\<lambda>digest.
     rbind (each_seat (\<lambda>i s es. rbind (set_stack (post_stacks ! i) s) (\<lambda>s. Inr (s, es))) 0 (t_seats t) es) (\<lambda>(ss, es).
     let t = t\<lparr>t_chip_pool := post_pool, t_seats := ss, t_pot := 0\<rparr>;
         es = emit_event (SettlementPlanCommitted (t_id t) digest (schedule_count (sp_schedule plan))
                            (sp_gross_pot plan) (sp_rake plan) (sp_total_awards plan)) es;
         es = (if sp_rake plan > 0 then emit_event (RakeCollected (t_id t) (sp_gross_pot plan) (sp_rake plan)
                            (sp_total_awards plan) (r_rake_mode (t_rules t))) es else es) in
       Inr (t, emit_event (HandSettled (t_id t) (sp_gross_pot plan) (sp_winner_mask plan)) (es @ winner_events t plan)))))))"

definition settle_hand :: "'pt crypto \<Rightarrow> 'pt table \<Rightarrow> events \<Rightarrow> 'pt step" where
  "settle_hand C t es =
     (if round_state t \<noteq> ROUND_SHOWDOWN then Inr (t, es)
      else if reveal_token_state t \<noteq> None then Inr (t, es)
      else rbind (case t_run_it_twice_state t of
          Twice start _ \<Rightarrow>
            rbind (full_second_board (t_run_it_twice_state t) (t_community_cards t)) (\<lambda>second.
              derive_settlement_plan_for_boards t (BoardsTwice start (as_slice (t_community_cards t)) second))
        | Single \<Rightarrow> derive_settlement_plan t) (\<lambda>plan.
        rbind (apply_settlement_plan C plan t []) (\<lambda>(t, staged).
        rbind (reset_for_next_hand C t staged) (\<lambda>(t, staged). Inr (t, es @ staged)))))"

definition refund_seat :: "table_id \<Rightarrow> nat \<Rightarrow> 'pt seat \<Rightarrow> events \<Rightarrow> ('pt seat \<times> events) res" where
  "refund_seat tid i s es =
     rbind (if seat_is_occupied s \<and> \<not> seat_is_folded s \<and> \<not> seat_has_left_hand s \<and> seat_total_bet s > 0 then
              let amount = seat_total_bet s in
              rbind (ok_or (checked_add (seat_stack s) amount)
                       (Serialization ''refund_all_bets: stack += total_bet overflow'')) (\<lambda>post_stack.
              rbind (set_stack post_stack s) (\<lambda>s.
                Inr (s, emit_event (PlayerRefund tid i (seat_player s) amount REFUND_TYPE_BET_ONLY) es)))
            else Inr (s, es)) (\<lambda>(s, es).
     rbind (set_bet 0 s) (\<lambda>s. rbind (set_total_bet 0 s) (\<lambda>s. Inr (s, es))))"

definition refund_all_bets :: "'pt table \<Rightarrow> events \<Rightarrow> 'pt step" where
  "refund_all_bets t es =
     rbind (each_seat (refund_seat (t_id t)) 0 (t_seats t) es) (\<lambda>(ss, es). Inr (t\<lparr>t_seats := ss, t_pot := 0\<rparr>, es))"

section \<open>Exposed cards and run it twice\<close>

definition card_from_plaintext :: "'pt crypto \<Rightarrow> 'pt \<Rightarrow> (nat \<times> card) res" where
  "card_from_plaintext C pt =
     rbind (ok_or (position (\<lambda>c. c = pt) (cr_cards C))
              (Serialization ''decrypted plaintext is not a canonical Texas Poker card'')) (\<lambda>i.
       if i > 255 then Inl (Serialization ''canonical card id exceeds u8'') else Inr (i, Card i))"

definition exposed_card_ids :: "'pt table \<Rightarrow> nat list res" where
  "exposed_card_ids t =
     try_fold (\<lambda>seen c.
         if \<not> card_is_valid c then Inl (Serialization ''table contains invalid exposed card'')
         else if to_index c \<in> set seen then Inl (Serialization ''table contains duplicate exposed card id'')
         else Inr (to_index c # seen)) [] (table_cards t)"

definition validate_run_it_twice_progress :: "'pt table \<Rightarrow> unit res" where
  "validate_run_it_twice_progress t =
     (let st = t_run_it_twice_state t; shared = rit_shared_len st; board_len = length (as_slice (t_community_cards t)) in
      rbind (rit_validate_canonical st (t_community_cards t)) (\<lambda>_.
      if \<not> rit_is_active st then Inr ()
      else if shared > 4 \<or> board_len > 5 \<or> board_len < shared \<or> second_board_len st > 5
      then Inl (Serialization ''run it twice board lengths are outside canonical bounds'')
      else if second_board_len st \<noteq> board_len
      then Inl (Serialization ''run it twice boards have diverging lengths before reveal'')
      else rbind (exposed_card_ids t) (\<lambda>_. Inr ())))"

definition trigger_run_it_twice :: "'pt table \<Rightarrow> events \<Rightarrow> 'pt step" where
  "trigger_run_it_twice t es =
     (let mode = r_rit_mode (t_rules t); shared = length (as_slice (t_community_cards t)) in
      if mode = RIT_MODE_DISABLED then Inr (t, es)
      else if mode \<noteq> RIT_MODE_TWICE then Inl (Serialization ''trigger_run_it_twice: unsupported rit_mode'')
      else if rit_is_active (t_run_it_twice_state t) then Inr (t, es)
      else if \<not> (round_state t = ROUND_PREFLOP \<or> round_state t = ROUND_FLOP \<or> round_state t = ROUND_TURN \<or>
                 round_state t = ROUND_RIVER) \<or> \<not> no_further_betting_possible t
      then Inl (Serialization ''trigger_run_it_twice requires an all-in betting state with no further contested action'')
      else if shared > 255 then Inl (Serialization ''run it twice shared board length exceeds u8'')
      else if shared \<ge> 5
      then Inl (Serialization ''trigger_run_it_twice requires at least one undealt community card'')
      else rbind (exposed_card_ids t) (\<lambda>_.
        rbind (rit_from_shared_board_len shared) (\<lambda>start.
          Inr (t\<lparr>t_run_it_twice_state := Twice start board_empty\<rparr>,
               emit_event (RunItTwiceTriggered (t_id t) (5 - shared) (5 - shared)) es))))"

definition maybe_trigger_run_it_twice :: "'pt table \<Rightarrow> events \<Rightarrow> 'pt step" where
  "maybe_trigger_run_it_twice t es =
     (if r_rit_mode (t_rules t) = RIT_MODE_DISABLED \<or> rit_is_active (t_run_it_twice_state t) \<or>
         length (as_slice (t_community_cards t)) \<ge> 5 \<or> \<not> no_further_betting_possible t
      then Inr (t, es) else trigger_run_it_twice t es)"

section \<open>Reveal phases\<close>

definition fresh_assignment :: "nat \<Rightarrow> reveal_target \<Rightarrow> seat_mask \<Rightarrow> 'pt reveal_assignment" where
  "fresh_assignment idx target pending =
     \<lparr>ra_index = idx, ra_target = target, ra_pending_mask = pending, ra_submitted_mask = 0, ra_tokens = []\<rparr>"

definition set_cards_dealt :: "nat \<Rightarrow> 'pt table \<Rightarrow> 'pt table" where
  "set_cards_dealt n t = t\<lparr>t_deck_state := (t_deck_state t)\<lparr>ds_cards_dealt := n\<rparr>\<rparr>"

text \<open>The card index is a \<^verbatim>\<open>u8\<close>, incremented without a check here and with one below.\<close>

definition start_preflop_reveal_phase :: "'pt table \<Rightarrow> events \<Rightarrow> 'pt step" where
  "start_preflop_reveal_phase t es =
     (let active = get_active_seat_mask (t_seats t);
          (assignments, idx) = foldl (\<lambda>(as, idx) seat.
              (as @ [fresh_assignment idx (Hole seat (idx mod CARDS_PER_PLAYER)) (active AND NOT (seat_mask_bit seat))],
               (idx + 1) mod 256))
            ([], ds_cards_dealt (t_deck_state t))
            (concat (map (\<lambda>seat. replicate CARDS_PER_PLAYER seat) (get_active_seat_indices (t_seats t)))) in
      rbind (enter_revealing ROUND_PREFLOP \<lparr>rt_purpose = DealHole, rt_assignments = assignments\<rparr> 0 (set_cards_dealt idx t)) (\<lambda>t.
        Inr (t, emit_event (RevealPhase (t_id t) REVEAL_PHASE_PREFLOP) es)))"

definition start_community_reveal_phase :: "nat \<Rightarrow> nat \<Rightarrow> 'pt table \<Rightarrow> events \<Rightarrow> 'pt step" where
  "start_community_reveal_phase cards street t es =
     (if \<not> (street = ROUND_FLOP \<or> street = ROUND_TURN \<or> street = ROUND_RIVER)
      then Inl (Serialization ''community reveal cannot start on this street'')
      else rbind (validate_run_it_twice_progress t) (\<lambda>_.
        let active = get_active_seat_mask (t_seats t);
            runouts = (if rit_is_active (t_run_it_twice_state t) then 2 else 1);
            board_len = (\<lambda>r. if r = 0 then length (as_slice (t_community_cards t))
                             else second_board_len (t_run_it_twice_state t)) in
        rbind (try_fold (\<lambda>(as, idx) (r, offset).
            if board_len r + offset > 255 then Inl (Serialization ''community reveal board position exceeds u8'')
            else if idx + 1 > 255 then Inl (Serialization ''community reveal card index overflow'')
            else Inr (as @ [fresh_assignment idx (Board r (board_len r + offset)) active], idx + 1))
          ([], ds_cards_dealt (t_deck_state t))
          (concat (map (\<lambda>r. map (\<lambda>k. (r, k)) [0..<cards]) [0..<runouts]))) (\<lambda>(assignments, idx).
        rbind (enter_revealing street \<lparr>rt_purpose = RevealBoard, rt_assignments = assignments\<rparr> 0 (set_cards_dealt idx t)) (\<lambda>t.
          Inr (t, emit_event (RevealPhase (t_id t) (reveal_legacy_phase RevealBoard street)) es)))))"

definition showdown_assignments :: "'pt table \<Rightarrow> 'pt reveal_assignment list \<Rightarrow> nat \<Rightarrow> 'pt reveal_assignment list res" where
  "showdown_assignments t as seat =
     (let first_slot = (case seat_hand (t_seats t ! seat) of None \<Rightarrow> 0 | Some h \<Rightarrow> length (as_slice h)) in
      try_fold (\<lambda>as (slot, card).
          if slot < first_slot then Inl (Serialization ''showdown partial ledger overlaps materialized hand'')
          else Inr (as @ [fresh_assignment (ph_index card) (Hole seat slot) (seat_mask_bit seat)]))
        as (ledger_iter_for_seat (ds_ledger (t_deck_state t)) seat))"

definition start_showdown_reveal_phase :: "'pt table \<Rightarrow> events \<Rightarrow> 'pt step" where
  "start_showdown_reveal_phase t es =
     rbind (try_fold (showdown_assignments t) [] (get_active_seat_indices (t_seats t))) (\<lambda>assignments.
     rbind (enter_revealing ROUND_SHOWDOWN \<lparr>rt_purpose = ShowdownOwner, rt_assignments = assignments\<rparr> 0 t) (\<lambda>t.
       Inr (t, emit_event (RevealPhase (t_id t) REVEAL_PHASE_SHOWDOWN) es)))"

section \<open>Betting rounds\<close>

definition advance_round :: "'pt crypto \<Rightarrow> 'pt table \<Rightarrow> events \<Rightarrow> 'pt step" where
  "advance_round C t es =
     (if count_active_players (t_seats t) \<le> 1 then end_without_showdown C t es
      else rbind (maybe_trigger_run_it_twice t es) (\<lambda>(t, es).
        let old_turn = current_turn_option t; from = round_state t;
            announce = (\<lambda>to m. rbind m (\<lambda>(t, es).
              Inr (t, emit_event (RoundAdvanced (t_id t) from to (t_pot t) (length (as_slice (t_community_cards t))))
                        (emit_event (CurrentTurnChanged (t_id t) old_turn None to) es)))) in
        if from = ROUND_PREFLOP then announce ROUND_FLOP (start_community_reveal_phase 3 ROUND_FLOP t es)
        else if from = ROUND_FLOP then announce ROUND_TURN (start_community_reveal_phase 1 ROUND_TURN t es)
        else if from = ROUND_TURN then announce ROUND_RIVER (start_community_reveal_phase 1 ROUND_RIVER t es)
        else if from = ROUND_RIVER then announce ROUND_SHOWDOWN (start_showdown_reveal_phase t es)
        else Inr (t, es)))"

definition set_current_turn :: "nat option \<Rightarrow> 'pt table \<Rightarrow> events \<Rightarrow> 'pt step" where
  "set_current_turn turn t es =
     (let old = current_turn_option t in
      rbind (set_betting_turn (case turn of None \<Rightarrow> NO_SEAT | Some i \<Rightarrow> i) t) (\<lambda>t.
        if old = turn then Inr (t, es)
        else Inr (t, emit_event (CurrentTurnChanged (t_id t) old turn (round_state t)) es)))"

definition open_round :: "bool \<Rightarrow> 'pt table \<Rightarrow> ('pt table \<times> betting_round) res" where
  "open_round is_preflop t =
     (let bb = r_big_blind (t_rules t) in
      if is_preflop then
        rbind (betting_round_new bb bb) (\<lambda>r.
          Inr (t, r\<lparr>current_bet := max (foldl max 0 (map seat_bet (t_seats t))) bb\<rparr>))
      else rbind (betting_round_new bb 0) (\<lambda>r.
        Inr (t\<lparr>t_seats := map (\<lambda>s. case playing_mut (\<lambda>p. p\<lparr>pl_bet := 0\<rparr>) s of Inr s' \<Rightarrow> s' | Inl _ \<Rightarrow> s) (t_seats t)\<rparr>, r)))"

definition first_to_act :: "bool \<Rightarrow> nat option \<Rightarrow> 'pt table \<Rightarrow> nat option res" where
  "first_to_act is_preflop bb_seat t =
     (let n = max_players t; ss = t_seats t in
      if is_preflop then
        Inr (case bb_seat of None \<Rightarrow> None | Some bb \<Rightarrow> find_next_active_seat ss bb n)
      else if count_active_occupied ss = 2 then
        let base = (if t_last_bb_seat t \<noteq> NO_SEAT then t_last_bb_seat t else t_button t) in
        rbind (seat_at t base) (\<lambda>s. Inr (if can_act s then Some base else find_next_active_seat ss base n))
      else Inr (find_next_active_seat ss (t_button t) n))"

definition start_betting_round :: "'pt crypto \<Rightarrow> bool \<Rightarrow> nat option \<Rightarrow> 'pt table \<Rightarrow> events \<Rightarrow> 'pt step" where
  "start_betting_round C is_preflop bb_seat t es =
     rbind (open_round is_preflop t) (\<lambda>(t, r).
     rbind (enter_betting (round_state t) r NO_SEAT 0 t) (\<lambda>t.
     let t = t\<lparr>t_acted_mask := mask_where (\<lambda>_ s. seat_is_all_in s \<or> seat_is_folded s) (t_seats t)\<rparr> in
     rbind (first_to_act is_preflop bb_seat t) (\<lambda>start_seat.
     rbind (set_current_turn start_seat t es) (\<lambda>(t, es).
       if no_further_betting_possible t then
         rbind (set_current_turn None t es) (\<lambda>(t, es).
         rbind (collect_bets_to_pot t es) (\<lambda>(t, es). advance_round C t es))
       else Inr (t, emit_event (BettingRoundStarted (t_id t) (round_state t)
                        (case table_betting_round t of None \<Rightarrow> 0 | Some b \<Rightarrow> current_bet b)
                        (r_big_blind (t_rules t)) (case start_seat of None \<Rightarrow> 0 | Some i \<Rightarrow> i) (t_pot t)) es)))))"

definition is_betting_complete :: "'pt table \<Rightarrow> bool" where
  "is_betting_complete t = (case table_betting_round t of
      None \<Rightarrow> True
    | Some b \<Rightarrow> list_all (\<lambda>i. let s = t_seats t ! i in
        can_act s \<longrightarrow> seat_acted_this_round t i \<and> seat_bet s = current_bet b) [0..<length (t_seats t)])"

definition advance_turn :: "'pt crypto \<Rightarrow> 'pt table \<Rightarrow> events \<Rightarrow> 'pt step" where
  "advance_turn C t es =
     (if is_betting_complete t then
        rbind (set_current_turn None t es) (\<lambda>(t, es).
        rbind (collect_bets_to_pot t es) (\<lambda>(t, es). advance_round C t es))
      else
        let cur = (case current_turn_option t of None \<Rightarrow> 0 | Some i \<Rightarrow> i) in
        set_current_turn (find_next_active_seat (t_seats t) cur (max_players t)) t es)"

definition check_reveal_phase_complete :: "'pt crypto \<Rightarrow> 'pt table \<Rightarrow> events \<Rightarrow> 'pt step" where
  "check_reveal_phase_complete C t es =
     rbind (ok_or (reveal_token_state t) (Serialization ''reveal completion checked outside reveal state'')) (\<lambda>st.
     if rt_assignments st \<noteq> [] then Inr (t, es)
     else let es = emit_event (RevealPhaseComplete (t_id t) (reveal_phase t)) es in
       case rt_purpose st of
         DealHole \<Rightarrow>
           rbind (post_blinds t es) (\<lambda>(t, es, _, bb_seat, _).
           rbind (collect_ante bb_seat t es) (\<lambda>(t, es).
             start_betting_round C True (Some bb_seat) t es))
       | RevealBoard \<Rightarrow> start_betting_round C False None t es
       | ShowdownOwner \<Rightarrow> Inr (enter_showdown_display 0 t, es))"

end
