(* ===== verification/Poker_Protocol.thy ===== *)
theory Poker_Protocol
  imports Poker_Engine
begin

text \<open>
  The card protocol of the state machine (\<^verbatim>\<open>poker_l1/.../core/state_machine.rs\<close>): mental-poker
  shuffling, reveal tokens, reconstruction of the deck after a timeout, folding with a proof,
  and removing a player. A zero-knowledge proof submitted by a player is represented by the
  predicate its verification computes, so that the guards of the code stay visible; the
  digests of \<^verbatim>\<open>utils.rs\<close> are written out over a hash function.
\<close>

section \<open>Shuffling\<close>

definition restart_reveal_after_reconstruct :: "'pt table \<Rightarrow> events \<Rightarrow> 'pt step" where
  "restart_reveal_after_reconstruct t es =
     (let have = length (as_slice (t_community_cards t)); street = round_state t;
          deal = (\<lambda>need. if have < need then start_community_reveal_phase (need - have) street t es else Inr (t, es)) in
      rbind (validate_run_it_twice_progress t) (\<lambda>_.
      if street = ROUND_PREFLOP then
        start_preflop_reveal_phase (t\<lparr>t_deck_state := (t_deck_state t)\<lparr>ds_ledger := ledger_default\<rparr>\<rparr>) es
      else if street = ROUND_FLOP then deal 3
      else if street = ROUND_TURN then deal 4
      else if street = ROUND_RIVER then deal 5
      else if street = ROUND_SHOWDOWN then start_showdown_reveal_phase t es
      else Inr (t, es)))"

definition advance_shuffle :: "'pt table \<Rightarrow> events \<Rightarrow> 'pt step" where
  "advance_shuffle t es =
     (let phase = shuffle_phase t; st = table_shuffle_state t in
      if phase \<noteq> SHUFFLE_PHASE_RECONSTRUCT \<and> phase \<noteq> SHUFFLE_PHASE_BEFORE_PREFLOP then Inr (t, es)
      else if sh_pending_mask st = 0 then
        let es = emit_event (ShuffleComplete (t_id t) phase (seat_mask_count (sh_completed_mask st))
                   (length (deck_as_slice (ds_encrypted (t_deck_state t))))) es in
        if phase = SHUFFLE_PHASE_BEFORE_PREFLOP then start_preflop_reveal_phase t es
        else restart_reveal_after_reconstruct t es
      else
        rbind (ok_or (seat_mask_first (sh_pending_mask st))
                 (Serialization ''shuffle pending mask unexpectedly empty'')) (\<lambda>next.
        rbind (disarm_shuffle_deadline t) (\<lambda>t.
          let st = table_shuffle_state t in
          Inr (t, emit_event (ShuffleTurn (t_id t) next (seat_mask_count (sh_pending_mask st))
                    (seat_mask_count (sh_completed_mask st))) es))))"

definition rebuild_deck_and_shuffle_on_timeout :: "'pt crypto \<Rightarrow> nat \<Rightarrow> 'pt table \<Rightarrow> events \<Rightarrow> 'pt step" where
  "rebuild_deck_and_shuffle_on_timeout C phase t es =
     rbind (set_initial_encrypted_deck C t) (\<lambda>t.
     let st = \<lparr>sh_pending_mask = get_active_seat_mask (t_seats t), sh_completed_mask = 0\<rparr> in
     rbind (if phase = SHUFFLE_PHASE_RECONSTRUCT then
              let street = round_state t in
              rbind (take_reveal_payload t) (\<lambda>(t, suspended). enter_reconstruct_shuffling street st suspended 0 t)
            else enter_initial_shuffling st 0 t) (\<lambda>t.
       Inr (t, emit_event (DeckRebuilt (t_id t) DECK_REBUILT_REASON_SHUFFLE_TIMEOUT
                 (length (deck_as_slice (ds_encrypted (t_deck_state t))))) es)))"

definition add_pk_to_c2 :: "'pt group_ops \<Rightarrow> 'pt \<Rightarrow> 'pt ciphertext \<Rightarrow> 'pt ciphertext" where
  "add_pk_to_c2 G pk ct = \<lparr>ct_c1 = ct_c1 ct, ct_c2 = g1_add G (ct_c2 ct) pk\<rparr>"

definition apply_submit_shuffle_v2 ::
    "'pt crypto \<Rightarrow> nat \<Rightarrow> 'pt ciphertext list \<Rightarrow> ('pt ciphertext list \<Rightarrow> 'pt ciphertext list \<Rightarrow> 'pt \<Rightarrow> bool) \<Rightarrow>
     'pt table \<Rightarrow> events \<Rightarrow> 'pt step" where
  "apply_submit_shuffle_v2 C i output_cards verify t es =
     (if shuffle_phase t = SHUFFLE_PHASE_NONE then Inl (Serialization ''shuffle phase is NONE'')
      else rbind (seat_at t i) (\<lambda>s.
      if \<not> seat_is_occupied s then Inl (Serialization ''seat not occupied'')
      else if derived_current_shuffler (table_shuffle_state t) \<noteq> i
      then Inl (Serialization ''not shuffler's turn'')
      else if seat_mask_contains (sh_completed_mask (table_shuffle_state t)) i
      then Inl (Serialization ''already completed shuffle'')
      else rbind (derived_aggregated_pk (cr_group C) t) (\<lambda>agg.
        if \<not> verify (deck_as_slice (ds_encrypted (t_deck_state t))) output_cards
               (case agg of None \<Rightarrow> cr_identity C | Some p \<Rightarrow> p)
        then Inl (Serialization ''shuffle proof'')
        else rbind (ok_or (seat_pk s) (Serialization ''shuffle seat has no live key'')) (\<lambda>pk.
        rbind (deck_try_from (map (add_pk_to_c2 (cr_group C) pk) output_cards)) (\<lambda>d.
        rbind (active_shuffle_state_mut (\<lambda>st. \<lparr>sh_pending_mask = seat_mask_remove (sh_pending_mask st) i,
                   sh_completed_mask = sh_completed_mask st OR seat_mask_bit i\<rparr>)
                 (t\<lparr>t_deck_state := (t_deck_state t)\<lparr>ds_encrypted := d\<rparr>\<rparr>)) (\<lambda>t.
          advance_shuffle t (emit_event (ShuffleVerified (t_id t) i (seat_player s)) es)))))))"

section \<open>Reconstruction\<close>

definition start_reconstruct :: "nat \<Rightarrow> 'pt table \<Rightarrow> events \<Rightarrow> 'pt step" where
  "start_reconstruct now t es =
     rbind (ok_or (checked_add now (reconstruct_timeout_ms (timeouts t)))
              (Serialization ''reconstruct deadline overflows u64'')) (\<lambda>_.
     let active = get_active_seat_mask (t_seats t); street = round_state t in
     rbind (take_reveal_payload t) (\<lambda>(t, suspended).
     rbind (enter_reconstructing street active suspended now
              (t\<lparr>t_deck_state := (t_deck_state t)\<lparr>ds_reconstruct_accumulated := None\<rparr>\<rparr>)) (\<lambda>t.
       Inr (t, emit_event (ReconstructInitiated (t_id t) active (round_state t)) es))))"

definition on_complete_reconstruct :: "'pt table \<Rightarrow> events \<Rightarrow> 'pt step" where
  "on_complete_reconstruct t es =
     rbind (rebuild_deck_from_reconstruct_deck t) (\<lambda>t.
     let es = emit_event (DeckRebuilt (t_id t) DECK_REBUILT_REASON_RECONSTRUCT_COMPLETE
                (length (deck_as_slice (ds_encrypted (t_deck_state t))))) (emit_event (ReconstructComplete (t_id t)) es);
         active = get_active_seat_mask (t_seats t); street = round_state t in
     rbind (take_reveal_payload t) (\<lambda>(t, suspended).
     rbind (enter_reconstruct_shuffling street \<lparr>sh_pending_mask = active, sh_completed_mask = 0\<rparr> suspended 0 t) (\<lambda>t.
       advance_shuffle t es)))"

text \<open>
  The statement a player submits, and what the code recomputes to compare it with. The hash,
  the compression of points, the domain tags and the operations on contributions come from
  the protocol library.
\<close>

record 'pt reconstruction_lib =
  rl_hash :: "8 word list \<Rightarrow> 8 word list"
  rl_compress :: "'pt \<Rightarrow> 8 word list"
  rl_context_domain :: "8 word list"
  rl_prior_domain :: "8 word list"
  rl_cards_commitment :: "8 word list"
  rl_base_deck :: "'pt list \<Rightarrow> 'pt \<Rightarrow> 'pt ciphertext list res"
  rl_apply :: "'pt ciphertext list \<Rightarrow> 'pt ciphertext list \<Rightarrow> 'pt ciphertext list res"

record 'pt reconstruction_statement =
  rs_aggregate_pk :: 'pt
  rs_owner_pk :: 'pt
  rs_cards :: "'pt list"
  rs_residual_carriers :: "'pt ciphertext list"
  rs_context_digest :: "8 word list"
  rs_prior_state_digest :: "8 word list"
  rs_epoch :: nat
  rs_contributions :: "'pt ciphertext list"

definition le_bytes :: "nat \<Rightarrow> nat \<Rightarrow> 8 word list" where
  "le_bytes width n = map (\<lambda>k. word_of_nat (n div 256 ^ k)) [0..<width]"

definition reconstruction_v3_residual_carriers :: "'pt table \<Rightarrow> nat \<Rightarrow> 'pt ciphertext list" where
  "reconstruction_v3_residual_carriers t i =
     map (\<lambda>(_, h). ph_ciphertext h) (ledger_iter_for_seat (ds_ledger (t_deck_state t)) i)"

definition reconstruction_v3_context_digest :: "'pt reconstruction_lib \<Rightarrow> 'pt table \<Rightarrow> 8 word list" where
  "reconstruction_v3_context_digest L t =
     rl_hash L (rl_context_domain L @ t_id t @ le_bytes 4 (t_hand_id t) @ map of_char ''stark-curve-v1'')"

definition reconstruct_epoch_ms :: "'pt table \<Rightarrow> nat option" where
  "reconstruct_epoch_ms t = (case t_hand_phase t of PhaseReconstructing _ _ _ ep _ \<Rightarrow> Some ep | _ \<Rightarrow> None)"

definition reconstruction_v3_prior_state_digest ::
    "'pt crypto \<Rightarrow> 'pt reconstruction_lib \<Rightarrow> 'pt table \<Rightarrow> nat \<Rightarrow> 8 word list res" where
  "reconstruction_v3_prior_state_digest C L t i =
     rbind (derived_aggregated_pk (cr_group C) t) (\<lambda>agg.
     rbind (ok_or agg (Serialization ''reconstruction V3 prior state requires aggregate public key'')) (\<lambda>agg_pk.
     rbind (ok_or (reconstruct_epoch_ms t)
              (Serialization ''reconstruction V3 prior state requires an active reconstruct epoch'')) (\<lambda>epoch.
     let records = ledger_iter_for_seat (ds_ledger (t_deck_state t)) i in
     if records = [] then Inl (Serialization ''reconstruction V3 requires an authenticated previous-round readable hand'')
     else Inr (rl_hash L (rl_prior_domain L @ t_id t @ le_bytes 4 (t_hand_id t) @ [word_of_nat i] @ le_bytes 8 epoch @
            rl_compress L agg_pk @ rl_cards_commitment L @ le_bytes 4 (length records) @
            concat (map (\<lambda>(slot, h). [word_of_nat slot, word_of_nat (ph_index h)] @
              rl_compress L (ct_c1 (ph_ciphertext h)) @ rl_compress L (ct_c2 (ph_ciphertext h))) records))))))"

definition statement_matches ::
    "'pt crypto \<Rightarrow> 'pt reconstruction_lib \<Rightarrow> 'pt table \<Rightarrow> nat \<Rightarrow> 'pt \<Rightarrow> 'pt \<Rightarrow> 8 word list \<Rightarrow> nat \<Rightarrow>
     'pt reconstruction_statement \<Rightarrow> bool" where
  "statement_matches C L t i agg_pk owner_pk prior_digest epoch st \<longleftrightarrow>
     rs_aggregate_pk st = agg_pk \<and> rs_owner_pk st = owner_pk \<and> rs_cards st = cr_cards C \<and>
     rs_residual_carriers st = reconstruction_v3_residual_carriers t i \<and>
     rs_context_digest st = reconstruction_v3_context_digest L t \<and> rs_prior_state_digest st = prior_digest \<and>
     rs_epoch st = epoch"

definition apply_submit_reconstruct_deck ::
    "'pt crypto \<Rightarrow> 'pt reconstruction_lib \<Rightarrow> nat \<Rightarrow> 'pt reconstruction_statement \<Rightarrow>
     ('pt reconstruction_statement \<Rightarrow> bool) \<Rightarrow> 'pt table \<Rightarrow> events \<Rightarrow> 'pt step" where
  "apply_submit_reconstruct_deck C L i st verify t es =
     (if \<not> is_reconstructing t then Inl (Serialization ''reconstruct not in COLLECTING phase'')
      else rbind (seat_at t i) (\<lambda>s.
      if \<not> seat_is_occupied s then Inl (Serialization ''seat not occupied'')
      else if \<not> seat_mask_contains (reconstruct_pending t) i
      then Inl (Serialization ''seat not in reconstruct pending'')
      else rbind (derived_aggregated_pk (cr_group C) t) (\<lambda>agg.
      rbind (ok_or agg (Serialization ''reconstruction V3 requires aggregate public key'')) (\<lambda>agg_pk.
      rbind (ok_or (seat_pk s) (Serialization ''reconstruct seat has no live key'')) (\<lambda>owner_pk.
      rbind (reconstruction_v3_prior_state_digest C L t i) (\<lambda>prior.
      rbind (ok_or (reconstruct_epoch_ms t)
               (Serialization ''reconstruction epoch is unavailable outside phase'')) (\<lambda>epoch.
      if \<not> statement_matches C L t i agg_pk owner_pk prior epoch st
      then Inl (Serialization ''reconstruction V3 statement does not match authenticated table state'')
      else if \<not> verify st then Inl (Serialization ''reconstruction V3 proof'')
      else rbind (case ds_reconstruct_accumulated (t_deck_state t) of
               Some d \<Rightarrow> Inr d | None \<Rightarrow> rl_base_deck L (cr_cards C) agg_pk) (\<lambda>prior_deck.
      rbind (rl_apply L prior_deck (rs_contributions st)) (\<lambda>deck.
      rbind (active_reconstruct_state_mut (\<lambda>m. seat_mask_remove m i) t) (\<lambda>t.
        let t = t\<lparr>t_deck_state := (t_deck_state t)\<lparr>ds_reconstruct_accumulated := Some deck\<rparr>\<rparr>;
            es = emit_event (ReconstructDeckSubmitted (t_id t) i) es in
        if reconstruct_pending t = 0 then on_complete_reconstruct t es else Inr (t, es)))))))))))"

section \<open>Reveal tokens\<close>

definition partial_decrypt_c2 :: "'pt crypto \<Rightarrow> 'pt \<Rightarrow> 'pt list \<Rightarrow> 'pt" where
  "partial_decrypt_c2 C c2 tokens = foldl (cr_sub C) c2 tokens"

definition completed_reveal_tokens :: "'pt reveal_assignment \<Rightarrow> 'pt list res" where
  "completed_reveal_tokens a =
     (if ra_pending_mask a \<noteq> 0
      then Inl (Serialization ''reveal assignment is not a freshly completed collection'')
      else if count_ones (ra_submitted_mask a) \<noteq> length (ra_tokens a)
      then Inl (Serialization ''completed reveal assignment has a non-canonical token vector'')
      else Inr (ra_tokens a))"

definition deck_get :: "'pt table \<Rightarrow> nat \<Rightarrow> 'pt ciphertext option" where
  "deck_get t i = (let d = deck_as_slice (ds_encrypted (t_deck_state t)) in if i < length d then Some (d ! i) else None)"

text \<open>A completed deal writes the owner-readable record of one hole card.\<close>

definition materialize_hole :: "'pt crypto \<Rightarrow> 'pt table \<Rightarrow> 'pt reveal_assignment \<Rightarrow> 'pt table res" where
  "materialize_hole C t a = (case ra_target a of
      Board _ _ \<Rightarrow> Inl (Serialization ''preflop reveal completed a non-hole assignment'')
    | Hole seat slot \<Rightarrow>
        rbind (ok_or (deck_get t (ra_index a)) (Serialization ''preflop reveal card index is out of range'')) (\<lambda>ct.
        rbind (completed_reveal_tokens a) (\<lambda>tokens.
        rbind (ledger_insert (ds_ledger (t_deck_state t)) seat slot
            \<lparr>ph_index = ra_index a,
             ph_ciphertext = \<lparr>ct_c1 = ct_c1 ct, ct_c2 = partial_decrypt_c2 C (ct_c2 ct) tokens\<rparr>,
             ph_full_ciphertext = ct\<rparr>) (\<lambda>l.
          Inr (t\<lparr>t_deck_state := (t_deck_state t)\<lparr>ds_ledger := l\<rparr>\<rparr>)))))"

text \<open>Decryption of a batch of board cards: the ids seen, the next position of each board, the cards.\<close>

definition decrypt_board_card ::
    "'pt crypto \<Rightarrow> 'pt table \<Rightarrow> nat list \<times> nat list \<times> (nat \<times> nat \<times> card) list \<Rightarrow> 'pt reveal_assignment \<Rightarrow>
     (nat list \<times> nat list \<times> (nat \<times> nat \<times> card) list) res" where
  "decrypt_board_card C t st a =
     (let (seen, expected, out) = st; runouts = (if rit_is_active (t_run_it_twice_state t) then 2 else 1 :: nat) in
      case ra_target a of
        Hole _ _ \<Rightarrow> Inl (Serialization ''community reveal completed a hole assignment'')
      | Board r pos \<Rightarrow>
          if r \<ge> runouts \<or> pos \<noteq> expected ! r
          then Inl (Serialization ''community reveal target is not the canonical next position for runout'')
          else rbind (ok_or (deck_get t (ra_index a)) (Serialization ''community reveal card index is out of range'')) (\<lambda>ct.
          rbind (completed_reveal_tokens a) (\<lambda>tokens.
          rbind (card_from_plaintext C (partial_decrypt_c2 C (ct_c2 ct) tokens)) (\<lambda>(card_id, card).
            if card_id \<in> set seen
            then Inl (Serialization ''duplicate decrypted card id while writing community cards'')
            else Inr (card_id # seen, expected[r := expected ! r + 1], out @ [(ra_index a, r, card)])))))"

definition push_board_card :: "'pt table \<Rightarrow> nat \<times> nat \<times> card \<Rightarrow> 'pt table res" where
  "push_board_card t entry =
     (let (_, r, card) = entry in
      if r = 0 then
        (case board_try_push (t_community_cards t) card of
           Inl _ \<Rightarrow> Inl (Serialization ''cannot append first-board card'')
         | Inr b \<Rightarrow> Inr (t\<lparr>t_community_cards := b\<rparr>))
      else
        (case t_run_it_twice_state t of
           Single \<Rightarrow> Inl (Serialization ''Texas single runout has no second-board suffix'')
         | Twice start sfx \<Rightarrow>
             (case board_try_push sfx card of
                Inl _ \<Rightarrow> Inl (Serialization ''cannot append second-board suffix card'')
              | Inr b \<Rightarrow> Inr (t\<lparr>t_run_it_twice_state := Twice start b\<rparr>))))"

text \<open>The arrays of six entries of the event, zero beyond the cards; a seventh card is out of bounds.\<close>

definition six_bytes :: "nat list \<Rightarrow> nat list res" where
  "six_bytes xs = (if length xs \<le> 6 then Inr (xs @ replicate (6 - length xs) 0) else Inl (Panic ''index out of bounds''))"

definition materialize_completed_community_assignments ::
    "'pt crypto \<Rightarrow> nat \<Rightarrow> 'pt reveal_assignment list \<Rightarrow> 'pt table \<Rightarrow> events \<Rightarrow> 'pt step" where
  "materialize_completed_community_assignments C phase completed t es =
     rbind (exposed_card_ids t) (\<lambda>seen.
     rbind (try_fold (decrypt_board_card C t)
              (seen, [length (as_slice (t_community_cards t)), second_board_len (t_run_it_twice_state t)], []) completed)
       (\<lambda>(_, _, materialized).
     rbind (try_fold push_board_card t materialized) (\<lambda>t.
     rbind (six_bytes (map fst materialized)) (\<lambda>indices.
     rbind (six_bytes (map (\<lambda>(_, _, c). rank c) materialized)) (\<lambda>ranks.
     rbind (six_bytes (map (\<lambda>(_, _, c). suit c) materialized)) (\<lambda>suits.
       Inr (t, emit_event (CommunityCardRevealed (t_id t) phase indices ranks suits (length materialized)) es)))))))"

definition decrypt_hole_card ::
    "'pt crypto \<Rightarrow> 'pt table \<Rightarrow> nat list \<times> (nat \<times> nat \<times> nat \<times> card) list \<Rightarrow> 'pt reveal_assignment \<Rightarrow>
     (nat list \<times> (nat \<times> nat \<times> nat \<times> card) list) res" where
  "decrypt_hole_card C t st a =
     (let (seen, out) = st in
      case ra_target a of
        Board _ _ \<Rightarrow> Inl (Serialization ''showdown reveal completed a board assignment'')
      | Hole seat slot \<Rightarrow>
          rbind (ok_or (ledger_get (ds_ledger (t_deck_state t)) seat slot)
                   (Serialization ''showdown partial ledger slot is missing'')) (\<lambda>h.
          if ph_index h \<noteq> ra_index a then Inl (Serialization ''showdown assignment/ledger lineage mismatch'')
          else rbind (completed_reveal_tokens a) (\<lambda>tokens.
          rbind (card_from_plaintext C (partial_decrypt_c2 C (ct_c2 (ph_ciphertext h)) tokens)) (\<lambda>(card_id, card).
            if card_id \<in> set seen
            then Inl (Serialization ''duplicate decrypted card id while writing hole cards'')
            else Inr (card_id # seen, out @ [(seat, slot, ra_index a, card)])))))"

definition push_hole_card :: "card \<Rightarrow> 'pt seat \<Rightarrow> 'pt seat res" where
  "push_hole_card c = with_playing (\<lambda>p. case hole_try_push (pl_hand p) c of
      Inl _ \<Rightarrow> Inl (Serialization ''cannot append hole card for seat'') | Inr h \<Rightarrow> Inr (p\<lparr>pl_hand := h\<rparr>))"

definition write_hole_card ::
    "'pt table \<times> events \<times> nat list \<Rightarrow> nat \<times> nat \<times> nat \<times> card \<Rightarrow> ('pt table \<times> events \<times> nat list) res" where
  "write_hole_card st entry =
     (let (t, es, next_slot) = st; (i, slot, idx, card) = entry in
      if i \<ge> length (t_seats t) then Inl (Serialization ''showdown owner is out of range'')
      else if \<not> seat_is_occupied (t_seats t ! i) \<or> slot \<noteq> next_slot ! i
      then Inl (Serialization ''showdown hole-card slot is not canonical for seat'')
      else rbind (update_seat i (push_hole_card card) t) (\<lambda>t.
        let s = t_seats t ! i;
            es = (if seat_is_folded s then es
                  else emit_event (ShowdownHoleCardsRevealed (t_id t) i (seat_player s) [idx, 0] [rank card, 0] [suit card, 0]) es) in
        rbind (ledger_remove (ds_ledger (t_deck_state t)) i slot) (\<lambda>(l, _).
          Inr (t\<lparr>t_deck_state := (t_deck_state t)\<lparr>ds_ledger := l\<rparr>\<rparr>, es, next_slot[i := next_slot ! i + 1]))))"

definition materialize_completed_showdown_assignments ::
    "'pt crypto \<Rightarrow> 'pt reveal_assignment list \<Rightarrow> 'pt table \<Rightarrow> events \<Rightarrow> 'pt step" where
  "materialize_completed_showdown_assignments C completed t es =
     rbind (exposed_card_ids t) (\<lambda>seen.
     rbind (try_fold (decrypt_hole_card C t) (seen, []) completed) (\<lambda>(_, materialized).
     rbind (try_fold write_hole_card
              (t, es, map (\<lambda>s. case seat_hand s of None \<Rightarrow> 0 | Some h \<Rightarrow> length (as_slice h)) (t_seats t)) materialized)
       (\<lambda>(t, es, _). Inr (t, es))))"

definition materialize_completed_reveal_assignments :: "'pt crypto \<Rightarrow> 'pt table \<Rightarrow> events \<Rightarrow> 'pt step" where
  "materialize_completed_reveal_assignments C t es =
     rbind (ok_or (reveal_token_state t) (Serialization ''cannot materialize outside reveal state'')) (\<lambda>reveal.
     let completed = filter ra_is_ready (rt_assignments reveal) in
     if completed = [] then Inr (t, es)
     else rbind (case rt_purpose reveal of
         DealHole \<Rightarrow> rbind (try_fold (materialize_hole C) t completed) (\<lambda>t. Inr (t, []))
       | RevealBoard \<Rightarrow>
           if length completed \<noteq> length (reveal_assignments t)
           then Inl (Serialization ''community reveal assignments did not complete as one canonical batch'')
           else materialize_completed_community_assignments C (reveal_phase t) completed t []
       | ShowdownOwner \<Rightarrow> materialize_completed_showdown_assignments C completed t []) (\<lambda>(t, staged).
       rbind (active_reveal_state_mut (\<lambda>st. st\<lparr>rt_assignments := filter (\<lambda>a. \<not> ra_is_ready a) (rt_assignments st)\<rparr>) t) (\<lambda>t.
         Inr (t, es @ staged))))"

text \<open>The ciphertext a token is verified against: the dealt one at the showdown, the deck's otherwise.\<close>

definition reveal_ciphertext :: "nat \<Rightarrow> nat \<Rightarrow> 'pt reveal_assignment \<Rightarrow> 'pt table \<Rightarrow> 'pt ciphertext res" where
  "reveal_ciphertext phase i a t =
     (if phase = REVEAL_PHASE_SHOWDOWN then
        (case ra_target a of
           Board _ _ \<Rightarrow> Inl (Serialization ''showdown reveal assignment must target a hole-card slot'')
         | Hole owner slot \<Rightarrow>
             if owner \<noteq> i then Inl (Serialization ''showdown reveal submitter does not own target seat'')
             else rbind (ok_or (ledger_get (ds_ledger (t_deck_state t)) owner slot)
                           (Serialization ''showdown partial ciphertext is missing'')) (\<lambda>h.
               if ph_index h \<noteq> ra_index a then Inl (Serialization ''showdown assignment/ledger lineage mismatch'')
               else Inr (ph_full_ciphertext h)))
      else ok_or (deck_get t (ra_index a)) (Serialization ''card_index out of range''))"

definition add_token :: "nat \<Rightarrow> nat \<Rightarrow> 'pt \<Rightarrow> 'pt reveal_token_state \<Rightarrow> 'pt reveal_token_state" where
  "add_token i ai token st =
     (let a = rt_assignments st ! ai in
      st\<lparr>rt_assignments := (rt_assignments st)[ai := a\<lparr>ra_tokens := ra_tokens a @ [token],
        ra_pending_mask := seat_mask_remove (ra_pending_mask a) i,
        ra_submitted_mask := ra_submitted_mask a OR seat_mask_bit i\<rparr>]\<rparr>)"

text \<open>One token of a submission; a proof is the predicate on the ciphertext, the token and the key.\<close>

type_synonym 'pt token_proof = "'pt ciphertext \<Rightarrow> 'pt \<Rightarrow> 'pt \<Rightarrow> bool"

definition submit_token ::
    "nat \<Rightarrow> nat \<Rightarrow> 'pt \<Rightarrow> 'pt table \<times> events \<Rightarrow> nat \<times> 'pt \<times> 'pt token_proof \<Rightarrow> 'pt step" where
  "submit_token phase i expected_pk st entry =
     (let (t, es) = st; (ai, token, proof_ok) = entry; as = reveal_assignments t in
      if ai \<ge> length as then Inl (Serialization ''assignment_index out of range'')
      else let a = as ! ai in
        if ra_is_ready a then Inl (Serialization ''assignment already resolved'')
        else if \<not> seat_mask_contains (ra_pending_mask a) i
        then Inl (Serialization ''seat not in pending for assignment'')
        else rbind (reveal_ciphertext phase i a t) (\<lambda>ct.
        if \<not> proof_ok ct token expected_pk then Inl (Serialization ''reveal token proof'')
        else rbind (active_reveal_state_mut (add_token i ai token) t) (\<lambda>t.
          if count_ones (ra_submitted_mask a) \<noteq> length (ra_tokens a)
          then Inl (Serialization ''assignment token vector is not canonical'')
          else Inr (t, emit_event (RevealTokenSubmitted (t_id t) i (ra_index a) phase) es))))"

definition apply_submit_player_reveal_tokens ::
    "'pt crypto \<Rightarrow> nat \<Rightarrow> 'pt list \<Rightarrow> 'pt token_proof list \<Rightarrow> 'pt table \<Rightarrow> events \<Rightarrow> 'pt step" where
  "apply_submit_player_reveal_tokens C i tokens proofs t es =
     (if reveal_token_state t = None then Inl (PhaseWindowClosed ''reveal phase is NONE'')
      else if length tokens \<noteq> length proofs then Inl (Serialization ''reveal_tokens/proofs length mismatch'')
      else if tokens = [] then Inl (Serialization ''reveal token submission must not be empty'')
      else rbind (seat_at t i) (\<lambda>s.
      if \<not> seat_is_occupied s then Inl (Serialization ''seat not occupied'')
      else
        let phase = reveal_phase t; as = reveal_assignments t;
            indices = filter (\<lambda>k. seat_mask_contains (ra_pending_mask (as ! k)) i) [0..<length as] in
        if length indices \<noteq> length tokens
        then Inl (PhaseWindowClosed ''reveal submission must contain every pending assignment in canonical order'')
        else rbind (ok_or (seat_pk s) (Serialization ''reveal seat has no live key'')) (\<lambda>pk.
        rbind (try_fold (submit_token phase i pk) (t, es) (zip indices (zip tokens proofs))) (\<lambda>(t, es).
        rbind (materialize_completed_reveal_assignments C t es) (\<lambda>(t, es).
          check_reveal_phase_complete C t es)))))"

section \<open>Removing a player\<close>

definition kick_seat_in_place_raw :: "nat \<Rightarrow> kick_cause \<Rightarrow> 'pt table \<Rightarrow> events \<Rightarrow> 'pt step" where
  "kick_seat_in_place_raw i cause t es =
     (if i \<ge> max_players t then Inl (Serialization ''kick_player: seat_index out of range'')
      else let s = t_seats t ! i; player = seat_player s in
      if \<not> seat_is_occupied s then Inr (t, es)
      else rbind (ok_or (checked_add (seat_stack s) (seat_pending_addon s)) (Serialization ''kick_player: refund overflow'')) (\<lambda>refund.
      rbind (ok_or (checked_add (t_pot t) (seat_bet s)) (Serialization ''kick_player: pot overflow'')) (\<lambda>post_pot.
      rbind (ok_or (checked_sub (t_chip_pool t) refund) (Serialization ''kick_player: chip_pool underflow'')) (\<lambda>post_pool.
      rbind (update_seat i depart_this_hand (t\<lparr>t_pot := post_pot\<rparr>)) (\<lambda>t.
      let t = set_seat_wants_leave i False (set_seat_acted_this_round i False t);
          t = set_contributor_mask (seat_mask_remove (ds_contributor_mask (t_deck_state t)) i) t;
          (t, es) = (if refund > 0
             then (t\<lparr>t_chip_pool := post_pool\<rparr>, emit_event (PlayerRefund (t_id t) i player refund REFUND_TYPE_STACK_ONLY) es)
             else (t, es)) in
      rbind (remove_seat_from_active_phase i t) (\<lambda>t.
        Inr (t, emit_event (PlayerKicked (t_id t) i player cause) es)))))))"

definition kick_player_raw :: "nat \<Rightarrow> kick_cause \<Rightarrow> 'pt table \<Rightarrow> events \<Rightarrow> 'pt step" where
  "kick_player_raw i cause t es =
     rbind (kick_seat_in_place_raw i cause t []) (\<lambda>(t, staged). Inr (t, es @ staged))"

definition kick_player_internal_in_place :: "'pt crypto \<Rightarrow> nat \<Rightarrow> kick_cause \<Rightarrow> 'pt table \<Rightarrow> events \<Rightarrow> 'pt step" where
  "kick_player_internal_in_place C i cause t es =
     (let was_shuffler = (derived_current_shuffler (table_shuffle_state t) = i);
          was_turn = (current_turn t = i \<and> is_betting_round t);
          low_player_cascade = (\<lambda>t es.
            let active = count_active_players (t_seats t) in
            if active < MIN_PLAYERS_TO_START then
              if active = 1 \<and> is_betting_round t then end_without_showdown C t es else reset_for_next_hand C t es
            else Inr (t, es)) in
      rbind (kick_seat_in_place_raw i cause t es) (\<lambda>(t, es).
      rbind (if was_shuffler \<and> shuffle_phase t \<noteq> SHUFFLE_PHASE_NONE then advance_shuffle t es else Inr (t, es)) (\<lambda>(t, es).
      if was_turn \<and> is_betting_round t then
        if count_active_players (t_seats t) \<le> 1 then end_without_showdown C t es
        else rbind (advance_turn C t es) (\<lambda>(t, es). low_player_cascade t es)
      else low_player_cascade t es)))"

definition kick_player_internal :: "'pt crypto \<Rightarrow> nat \<Rightarrow> kick_cause \<Rightarrow> 'pt table \<Rightarrow> events \<Rightarrow> 'pt step" where
  "kick_player_internal C i cause t es =
     rbind (kick_player_internal_in_place C i cause t []) (\<lambda>(t, staged). Inr (t, es @ staged))"

section \<open>Folding with a proof\<close>

definition fold_seat :: "nat \<Rightarrow> nat \<Rightarrow> 'pt table \<Rightarrow> events \<Rightarrow> 'pt step" where
  "fold_seat i reason t es =
     rbind (update_seat i (set_status Folded) t) (\<lambda>t.
     rbind (disarm_betting_deadline (set_seat_acted_this_round i True t)) (\<lambda>t.
       Inr (t, emit_event (PlayerFolded (t_id t) i reason (round_state t)) es)))"

definition after_fold :: "'pt crypto \<Rightarrow> 'pt table \<Rightarrow> events \<Rightarrow> 'pt step" where
  "after_fold C t es =
     (if count_active_players (t_seats t) \<le> 1 then end_without_showdown C t es else advance_turn C t es)"

definition excluded_slots :: "nat \<Rightarrow> 'pt table \<Rightarrow> nat list" where
  "excluded_slots i t = concat (map (\<lambda>a. case ra_target a of
     Hole s _ \<Rightarrow> if s = i then [ra_index a] else [] | _ \<Rightarrow> []) (reveal_assignments t))"

definition drop_slots :: "nat list \<Rightarrow> 'a list \<Rightarrow> 'a list" where
  "drop_slots ks xs = map (\<lambda>k. xs ! k) (filter (\<lambda>k. k \<notin> set ks) [0..<length xs])"

definition apply_fold_with_proof ::
    "'pt crypto \<Rightarrow> nat \<Rightarrow> 'pt ciphertext list \<Rightarrow> ('pt ciphertext list \<Rightarrow> 'pt ciphertext list \<Rightarrow> 'pt \<Rightarrow> bool) \<Rightarrow>
     'pt table \<Rightarrow> events \<Rightarrow> 'pt step" where
  "apply_fold_with_proof C i output_cts verify t es =
     (if \<not> is_betting_round t then Inl (Serialization ''fold_with_proof: not in betting round'')
      else if \<not> is_player_turn t i then Inl (Serialization ''fold_with_proof: not this seat's turn'')
      else if i \<ge> max_players t then Inl (Serialization ''fold_with_proof: seat_index out of range'')
      else let s = t_seats t ! i; input_cts = deck_as_slice (ds_encrypted (t_deck_state t));
               excluded = excluded_slots i t in
        if \<not> seat_is_occupied s then Inl (Serialization ''fold_with_proof: seat not occupied'')
        else if seat_is_folded s then Inl (Serialization ''fold_with_proof: seat already folded'')
        else rbind (ok_or (seat_pk s) (Serialization ''fold seat has no live key'')) (\<lambda>pk.
        rbind (try_fold (\<lambda>_ k.
            if k \<ge> length output_cts then Inl (Serialization ''fold_with_proof: excluded slot out of range'')
            else if k \<ge> length input_cts then Inl (Panic ''index out of bounds'')
            else if output_cts ! k \<noteq> input_cts ! k
            then Inl (Serialization ''fold_with_proof: own hole card slot must stay unchanged (anti-reveal rule)'')
            else Inr ()) () excluded) (\<lambda>_.
        if \<not> verify (drop_slots excluded input_cts) (drop_slots excluded output_cts) pk
        then Inl (Serialization ''fold_with_proof: proof verify failed'')
        else rbind (remove_deck_contributor (cr_group C) i t) (\<lambda>t.
          rbind (deck_try_from output_cts) (\<lambda>d.
          rbind (fold_seat i FOLD_REASON_MANUAL (t\<lparr>t_deck_state := (t_deck_state t)\<lparr>ds_encrypted := d\<rparr>\<rparr>) es) (\<lambda>(t, es).
            after_fold C t es))))))"

end
