(* ===== verification/Poker_Commands.thy ===== *)
theory Poker_Commands
  imports Poker_Protocol
begin

text \<open>
  The commands of the state machine (\<^verbatim>\<open>poker_l1/.../core/state_machine.rs\<close>): betting actions,
  funding, joining and leaving, starting a hand, the timeouts, and the deterministic
  normalisation that follows every command.
\<close>

section \<open>Betting actions\<close>

definition match_seat :: "betting_round \<Rightarrow> 'pt playing_seat \<Rightarrow> ('pt playing_seat \<times> nat) res" where
  "match_seat r p =
     (let call_amt = process_call r (pl_bet p) (oc_stack (pl_occupied p)) in
      rbind (ok_or (checked_sub (oc_stack (pl_occupied p)) call_amt) (Serialization ''stack underflow on call'')) (\<lambda>stack.
      rbind (ok_or (checked_add (pl_bet p) call_amt) (Serialization ''bet overflow on call'')) (\<lambda>bet.
      rbind (ok_or (checked_add (pl_total_bet p) call_amt) (Serialization ''total_bet overflow on call'')) (\<lambda>total_bet.
        Inr (p\<lparr>pl_occupied := (pl_occupied p)\<lparr>oc_stack := stack\<rparr>, pl_bet := bet, pl_total_bet := total_bet,
               pl_status := (if stack = 0 \<and> call_amt > 0 then PAllIn else pl_status p)\<rparr>, call_amt)))))"

definition raise_seat :: "nat \<Rightarrow> nat \<Rightarrow> 'pt playing_seat \<Rightarrow> 'pt playing_seat res" where
  "raise_seat total_bet needed p =
     rbind (ok_or (checked_sub (oc_stack (pl_occupied p)) needed) (Serialization ''stack underflow on raise'')) (\<lambda>stack.
     rbind (ok_or (checked_add (pl_total_bet p) needed) (Serialization ''total_bet overflow on raise'')) (\<lambda>tb.
       Inr (p\<lparr>pl_occupied := (pl_occupied p)\<lparr>oc_stack := stack\<rparr>, pl_bet := total_bet, pl_total_bet := tb,
              pl_status := (if stack = 0 then PAllIn else pl_status p)\<rparr>)))"

text \<open>Marks the seat as having acted and clears the deadline of the turn.\<close>

definition mark_acted :: "nat \<Rightarrow> 'pt table \<Rightarrow> 'pt table res" where
  "mark_acted i t = disarm_betting_deadline (set_seat_acted_this_round i True t)"

definition match_bet :: "nat \<Rightarrow> 'pt table \<Rightarrow> events \<Rightarrow> 'pt step" where
  "match_bet i t es =
     rbind (ok_or (table_betting_round t) (Panic ''checked above'')) (\<lambda>r.
     let s = t_seats t ! i in
     if seat_is_folded s \<or> seat_is_all_in s then Inl (Serialization ''player inactive'')
     else if seat_bet s \<ge> current_bet r then
       rbind (mark_acted i t) (\<lambda>t. Inr (t, emit_event (PlayerChecked (t_id t) i (round_state t)) es))
     else case s of
       SeatPlaying p \<Rightarrow>
         rbind (match_seat r p) (\<lambda>(p', call_amt).
         rbind (mark_acted i (t\<lparr>t_seats := (t_seats t)[i := SeatPlaying p']\<rparr>)) (\<lambda>t.
           let es = emit_event (PlayerCalled (t_id t) i call_amt (round_state t)) es in
           Inr (t, if oc_stack (pl_occupied p') = 0 \<and> call_amt > 0
                   then emit_event (PlayerAllIn (t_id t) i TRIGGER_ACTION_CALL_ALL_IN call_amt (round_state t)) es
                   else es)))
     | _ \<Rightarrow> Inl (Serialization ''Texas seat is not participating in the current hand''))"

definition reopen_action :: "nat \<Rightarrow> 'pt table \<Rightarrow> 'pt table" where
  "reopen_action i t = t\<lparr>t_acted_mask := foldl (\<lambda>m k. if k \<noteq> i \<and> can_act (t_seats t ! k) then m AND NOT (seat_mask_bit k) else m)
     (t_acted_mask t) [0..<length (t_seats t)]\<rparr>"

definition raise_to :: "nat \<Rightarrow> nat \<Rightarrow> 'pt table \<Rightarrow> events \<Rightarrow> 'pt step" where
  "raise_to i total_bet t es =
     (let s = t_seats t ! i in
      rbind (ok_or (table_betting_round t) (Serialization ''Texas table is not in an active betting phase'')) (\<lambda>r.
      if seat_acted_this_round t i
      then Inl (ContractExecutionFailed ''betting error: action not reopened for acted seat (call or fold only)'')
      else rbind (case process_raise r total_bet (seat_bet s) (seat_stack s) of
               Inl _ \<Rightarrow> Inl (ContractExecutionFailed ''betting error'') | Inr x \<Rightarrow> Inr x) (\<lambda>(needed, r').
      rbind (active_betting_round_mut (\<lambda>_. r') t) (\<lambda>t.
      rbind (update_seat i (with_playing (raise_seat total_bet needed)) t) (\<lambda>t.
      rbind (mark_acted i t) (\<lambda>t.
        let t = (if total_bet - current_bet r \<ge> min_raise r then reopen_action i t else t);
            es = emit_event (PlayerRaised (t_id t) i needed total_bet (round_state t)) es in
        Inr (t, if seat_stack (t_seats t ! i) = 0
                then emit_event (PlayerAllIn (t_id t) i TRIGGER_ACTION_RAISE_ALL_IN needed (round_state t)) es
                else es)))))))"

definition apply_player_action :: "'pt crypto \<Rightarrow> nat \<Rightarrow> player_action \<Rightarrow> 'pt table \<Rightarrow> events \<Rightarrow> 'pt step" where
  "apply_player_action C i action t es =
     (if i \<ge> max_players t then Inl (Serialization ''player action seat_index out of range'')
      else if \<not> is_betting_round t then Inl (Serialization ''not in betting round'')
      else if \<not> is_player_turn t i then Inl (Serialization ''not player's turn'')
      else case action of
        Fold reason \<Rightarrow>
          if seat_is_folded (t_seats t ! i) then Inl (Serialization ''already folded'')
          else rbind (fold_seat i reason t es) (\<lambda>(t, es). after_fold C t es)
      | MatchBet \<Rightarrow> rbind (match_bet i t es) (\<lambda>(t, es). advance_turn C t es)
      | RaiseTo total_bet \<Rightarrow> rbind (raise_to i total_bet t es) (\<lambda>(t, es). advance_turn C t es))"

definition apply_fold_internal :: "'pt crypto \<Rightarrow> nat \<Rightarrow> nat \<Rightarrow> 'pt table \<Rightarrow> events \<Rightarrow> 'pt step" where
  "apply_fold_internal C i reason t es = apply_player_action C i (Fold reason) t es"

definition apply_fold :: "'pt crypto \<Rightarrow> nat \<Rightarrow> 'pt table \<Rightarrow> events \<Rightarrow> 'pt step" where
  "apply_fold C i t es = apply_fold_internal C i FOLD_REASON_MANUAL t es"

definition apply_check :: "'pt crypto \<Rightarrow> nat \<Rightarrow> 'pt table \<Rightarrow> events \<Rightarrow> 'pt step" where
  "apply_check C i t es =
     rbind (ok_or (table_betting_round t) (Serialization ''not in betting round'')) (\<lambda>r.
     if i \<ge> length (t_seats t) then Inl (Serialization ''seat index out of range'')
     else if seat_bet (t_seats t ! i) < current_bet r then Inl (Serialization ''cannot check: bet < current_bet'')
     else apply_player_action C i MatchBet t es)"

definition apply_call :: "'pt crypto \<Rightarrow> nat \<Rightarrow> 'pt table \<Rightarrow> events \<Rightarrow> 'pt step" where
  "apply_call C i t es =
     rbind (ok_or (table_betting_round t) (Serialization ''not in betting round'')) (\<lambda>r.
     if i \<ge> length (t_seats t) then Inl (Serialization ''seat index out of range'')
     else if seat_bet (t_seats t ! i) \<ge> current_bet r
     then Inl (Serialization ''cannot call when no chips are owed; use check'')
     else apply_player_action C i MatchBet t es)"

definition apply_raise :: "'pt crypto \<Rightarrow> nat \<Rightarrow> nat \<Rightarrow> 'pt table \<Rightarrow> events \<Rightarrow> 'pt step" where
  "apply_raise C i total_bet t es = apply_player_action C i (RaiseTo total_bet) t es"

definition apply_bet :: "'pt crypto \<Rightarrow> nat \<Rightarrow> nat \<Rightarrow> 'pt table \<Rightarrow> events \<Rightarrow> 'pt step" where
  "apply_bet C i amount t es =
     (if \<not> is_betting_round t then Inl (Serialization ''bet: not in betting round'')
      else if \<not> is_player_turn t i then Inl (Serialization ''bet: not player's turn'')
      else if amount = 0 then Inl (Serialization ''bet: amount must > 0'')
      else if round_state t = ROUND_PREFLOP
      then Inl (Serialization ''bet: not allowed in preflop, use raise instead'')
      else rbind (ok_or (table_betting_round t) (Panic ''checked above'')) (\<lambda>r.
      rbind (seat_at t i) (\<lambda>s.
        if current_bet r > seat_bet s then Inl (Serialization ''bet: current_bet > seat_bet'')
        else rbind (ok_or (checked_add (seat_bet s) amount) (Serialization ''bet: total_bet overflow'')) (\<lambda>total_bet.
        rbind (apply_raise C i total_bet t es) (\<lambda>(t, es).
          Inr (t, emit_event (PlayerBet (t_id t) i amount (round_state t)) es))))))"

section \<open>Funding and leaving\<close>

fun fund_label :: "fund_timing \<Rightarrow> string" where
  "fund_label NextHand = ''addon''"
| "fund_label Immediate = ''rebuy''"

definition apply_fund_seat :: "nat \<Rightarrow> nat \<Rightarrow> fund_timing \<Rightarrow> 'pt table \<Rightarrow> events \<Rightarrow> 'pt step" where
  "apply_fund_seat i amount timing t es =
     (if i \<ge> max_players t then Inl (Serialization (fund_label timing @ '': seat_index out of range''))
      else if amount = 0 then Inl (Serialization (fund_label timing @ '': amount must > 0''))
      else let s = t_seats t ! i; player = seat_player s in
      if \<not> seat_is_occupied s then Inl (Serialization (fund_label timing @ '': seat not occupied''))
      else rbind (ok_or (checked_add (t_chip_pool t) amount) (Serialization (fund_label timing @ '': total chips overflow''))) (\<lambda>total_chips.
      if total_chips > MAX_TOTAL_BET then Inl (Serialization (fund_label timing @ '': total chips exceeds MAX_TOTAL_BET''))
      else case timing of
        NextHand \<Rightarrow>
          rbind (ok_or (checked_add (seat_pending_addon s) amount) (Serialization ''addon: pending_addon overflow'')) (\<lambda>pending.
          rbind (update_seat i (set_pending_addon pending) t) (\<lambda>t.
            Inr (t\<lparr>t_chip_pool := total_chips\<rparr>, emit_event (AddonRequested (t_id t) i player amount pending) es)))
      | Immediate \<Rightarrow>
          rbind (ok_or (checked_add (seat_stack s) amount) (Serialization ''rebuy: stack overflow'')) (\<lambda>stack.
          rbind (update_seat i (set_stack stack) t) (\<lambda>t.
            Inr (t\<lparr>t_chip_pool := total_chips\<rparr>, emit_event (RebuyProcessed (t_id t) i player amount stack) es)))))"

definition apply_addon :: "nat \<Rightarrow> nat \<Rightarrow> 'pt table \<Rightarrow> events \<Rightarrow> 'pt step" where
  "apply_addon i amount t es = apply_fund_seat i amount NextHand t es"

definition apply_rebuy :: "nat \<Rightarrow> nat \<Rightarrow> 'pt table \<Rightarrow> events \<Rightarrow> 'pt step" where
  "apply_rebuy i amount t es = apply_fund_seat i amount Immediate t es"

definition apply_set_leave_after_hand ::
    "nat \<Rightarrow> bool \<Rightarrow> 'pt table \<Rightarrow> events \<Rightarrow> ('pt table \<times> events \<times> bool) res" where
  "apply_set_leave_after_hand i want_leave t es =
     (if i \<ge> max_players t then Inl (Serialization ''set_leave_after_hand: seat_index out of range'')
      else let s = t_seats t ! i in
      if \<not> seat_is_occupied s then Inl (Serialization ''set_leave_after_hand: seat not occupied'')
      else if seat_wants_leave t i = want_leave then Inr (t, es, False)
      else Inr (set_seat_wants_leave i want_leave t,
                emit_event (LeaveRequested (t_id t) i (seat_player s) want_leave) es, True))"

definition consume_time_bank :: "nat \<Rightarrow> nat \<Rightarrow> 'pt table \<Rightarrow> events \<Rightarrow> 'pt step" where
  "consume_time_bank i consumed t es =
     (if i \<ge> max_players t then Inl (Serialization ''consume_time_bank: seat_index out of range'')
      else let s = t_seats t ! i in
      if \<not> seat_is_occupied s then Inl (Serialization ''consume_time_bank: seat not occupied'')
      else if seat_time_bank_ms s < consumed then Inl (Serialization ''consume_time_bank: time_bank_ms < consumed_ms'')
      else let remaining = seat_time_bank_ms s - consumed in
        Inr (t\<lparr>t_seats := (t_seats t)[i := set_time_bank_ms remaining s]\<rparr>,
             emit_event (TimeBankConsumed (t_id t) i consumed remaining) es))"

section \<open>Starting a hand\<close>

definition promote_at :: "nat \<Rightarrow> 'pt table \<Rightarrow> 'pt table" where
  "promote_at i t = t\<lparr>t_seats := (t_seats t)[i := fst (promote_waiting (t_seats t ! i))]\<rparr>"

fun promote_until :: "nat list \<Rightarrow> nat \<Rightarrow> 'pt table \<Rightarrow> 'pt table" where
  "promote_until [] players t = t"
| "promote_until (i # is) players t =
     (if seat_is_waiting (t_seats t ! i) then
        if players + 1 \<ge> MIN_PLAYERS_TO_START then promote_at i t else promote_until is (players + 1) (promote_at i t)
      else promote_until is players t)"

definition promote_waiting_for_big_blind :: "'pt table \<Rightarrow> 'pt table" where
  "promote_waiting_for_big_blind t =
     (let n = max_players t in
      if count_active_occupied (t_seats t) = 0
      then t\<lparr>t_seats := map (\<lambda>s. fst (promote_waiting s)) (t_seats t)\<rparr>
      else
        let base = (if t_last_bb_seat t \<noteq> NO_SEAT then t_last_bb_seat t else t_button t);
            t = (case List.find (\<lambda>i. seat_is_occupied (t_seats t ! i)) (clockwise base n) of
                   None \<Rightarrow> t
                 | Some i \<Rightarrow> if seat_is_waiting (t_seats t ! i) then promote_at i t else t);
            players = count_active_occupied (t_seats t) in
        if players < MIN_PLAYERS_TO_START then promote_until (clockwise (t_button t) n) players t else t)"

definition start_hand :: "'pt crypto \<Rightarrow> 'pt table \<Rightarrow> events \<Rightarrow> 'pt step" where
  "start_hand C t es =
     (if round_state t \<noteq> ROUND_WAITING then Inl (Serialization ''not in WAITING state'')
      else let t = promote_waiting_for_big_blind (move_button t) in
        if count_active_occupied (t_seats t) < MIN_PLAYERS_TO_START
        then Inl (Serialization ''active players < MIN_PLAYERS_TO_START'')
        else rbind (set_initial_encrypted_deck C t) (\<lambda>t.
        rbind (enter_initial_shuffling
                 \<lparr>sh_pending_mask = get_pending_seat_mask 0 (t_seats t), sh_completed_mask = 0\<rparr> 0 t) (\<lambda>t.
        rbind (try_fold seat_mask_insert 0 (get_active_seat_indices (t_seats t))) (\<lambda>active.
          advance_shuffle t (emit_event (HandStarted (t_id t) (t_button t) (r_small_blind (t_rules t))
                               (r_big_blind (t_rules t)) active) es)))))"

section \<open>Normalisation\<close>

definition next_normalization_step :: "'pt table \<Rightarrow> normalization_step option res" where
  "next_normalization_step t =
     (if is_reconstructing t then
        if reconstruct_pending t \<noteq> 0 then Inr None
        else if ds_reconstruct_accumulated (t_deck_state t) = None
        then Inl (Serialization ''normalize: completed reconstruct has no player contribution'')
        else Inr (Some NCompleteReconstruct)
      else if shuffle_phase t = SHUFFLE_PHASE_RECONSTRUCT \<or> shuffle_phase t = SHUFFLE_PHASE_BEFORE_PREFLOP then
        Inr (if sh_pending_mask (table_shuffle_state t) = 0 then Some NAdvanceShuffle else None)
      else if reveal_token_state t \<noteq> None then
        let all_pending_empty = list_all (\<lambda>a. ra_pending_mask a = 0) (reveal_assignments t);
            all_ready = list_all ra_is_ready (reveal_assignments t) in
        if all_pending_empty \<and> \<not> all_ready
        then Inl (Serialization ''normalize: reveal assignment has no pending seat but is not resolved'')
        else Inr (if all_ready then Some NCompleteReveal else None)
      else if is_betting_round t then
        Inr (if count_active_players (t_seats t) \<le> 1 then Some NEndWithoutShowdown
             else if current_turn t = NO_SEAT \<or> is_betting_complete t \<or> no_further_betting_possible t
             then Some NAdvanceBettingRound else None)
      else if round_state t = ROUND_SHOWDOWN then Inr None
      else if round_state t = ROUND_PREFLOP \<or> round_state t = ROUND_FLOP \<or> round_state t = ROUND_TURN \<or>
              round_state t = ROUND_RIVER
      then Inl (Serialization ''normalize: round has no betting, reveal, shuffle, or reconstruct phase'')
      else Inr None)"

fun run_normalization_step :: "'pt crypto \<Rightarrow> normalization_step \<Rightarrow> 'pt table \<Rightarrow> events \<Rightarrow> 'pt step" where
  "run_normalization_step C NCompleteReconstruct t es = on_complete_reconstruct t es"
| "run_normalization_step C NAdvanceShuffle t es = advance_shuffle t es"
| "run_normalization_step C NCompleteReveal t es = check_reveal_phase_complete C t es"
| "run_normalization_step C NEndWithoutShowdown t es = end_without_showdown C t es"
| "run_normalization_step C NAdvanceBettingRound t es =
     rbind (collect_bets_to_pot t es) (\<lambda>(t, es). advance_round C t es)"

type_synonym 'pt reported = "('pt table \<times> events \<times> normalization_step list) res"

text \<open>The bounded loop of the source; the first argument is the number of iterations left.\<close>

fun normalize_loop ::
    "nat \<Rightarrow> 'pt crypto \<Rightarrow> nat \<Rightarrow> 'pt table \<Rightarrow> events \<Rightarrow> normalization_step list \<Rightarrow> 'pt reported" where
  "normalize_loop 0 C now t es steps = Inl (Serialization ''normalize: exceeded deterministic stages'')"
| "normalize_loop (Suc n) C now t es steps =
     rbind (next_normalization_step t) (\<lambda>step. case step of
       None \<Rightarrow> Inr (t, es, steps)
     | Some st \<Rightarrow>
         rbind (run_normalization_step C st t es) (\<lambda>(t', es').
         if t' = t then Inl (Serialization ''normalize: stage made no progress'')
         else rbind (arm_active_deadline_if_needed now t') (\<lambda>(t', _).
         rbind (validate_state_schema (cr_group C) t') (\<lambda>_.
         rbind (canonical_hand_phase t') (\<lambda>_. normalize_loop n C now t' es' (steps @ [st]))))))"

definition normalize_until_blocked_in_place :: "'pt crypto \<Rightarrow> nat \<Rightarrow> 'pt table \<Rightarrow> events \<Rightarrow> 'pt reported" where
  "normalize_until_blocked_in_place C now t es =
     rbind (arm_active_deadline_if_needed now t) (\<lambda>(t, _).
     rbind (validate_state_schema (cr_group C) t) (\<lambda>_.
       normalize_loop MAX_NORMALIZATION_STEPS C now t es []))"

definition normalize_until_blocked :: "'pt crypto \<Rightarrow> nat \<Rightarrow> 'pt table \<Rightarrow> events \<Rightarrow> 'pt reported" where
  "normalize_until_blocked C now t es =
     rbind (normalize_until_blocked_in_place C now t []) (\<lambda>(t, staged, steps). Inr (t, es @ staged, steps))"

section \<open>Timeouts\<close>

definition on_reconstruct_timeout :: "'pt crypto \<Rightarrow> 'pt table \<Rightarrow> events \<Rightarrow> 'pt step" where
  "on_reconstruct_timeout C t es =
     (let pending = reconstruct_pending t in
      rbind (try_fold (\<lambda>(t, es) i. kick_player_internal C i KickReconstructTimeout t es)
               (t, emit_event (ReconstructTimeout (t_id t) pending) es) (seat_mask_to_indices pending (max_players t))) (\<lambda>(t, es).
      let active = count_active_players (t_seats t) in
      if active = 0 then rbind (refund_all_bets t es) (\<lambda>(t, es). reset_for_next_hand C t es)
      else if active = 1 then end_without_showdown C t es
      else if ds_reconstruct_accumulated (t_deck_state t) \<noteq> None then on_complete_reconstruct t es
      else rbind (refund_all_bets t es) (\<lambda>(t, es).
        rbind (reset_for_next_hand C t es) (\<lambda>(t, es).
          Inr (t, emit_event (HandReset (t_id t) RESET_REASON_RECONSTRUCT_FAIL (round_state t)) es)))))"

definition on_shuffle_timeout :: "'pt crypto \<Rightarrow> 'pt table \<Rightarrow> events \<Rightarrow> 'pt step" where
  "on_shuffle_timeout C t es =
     (let i = derived_current_shuffler (table_shuffle_state t); phase = shuffle_phase t;
          timeout = shuffle_timeout_ms (timeouts t) in
      rbind (ok_or (shuffle_deadline_ms t) (Serialization ''shuffle timeout requires an active deadline'')) (\<lambda>deadline.
      rbind (ok_or (checked_sub deadline timeout)
               (Serialization ''shuffle deadline is earlier than its configured timeout'')) (\<lambda>started_at.
      rbind (kick_player_internal C i KickTimeout t
               (emit_event (ShuffleTimeout (t_id t) i phase started_at timeout) es)) (\<lambda>(t, es).
      let active = count_active_players (t_seats t) in
      if active = 0 then rbind (refund_all_bets t es) (\<lambda>(t, es). reset_for_next_hand C t es)
      else if active = 1 then end_without_showdown C t es
      else if shuffle_phase t = SHUFFLE_PHASE_NONE then Inr (t, es)
      else rbind (rebuild_deck_and_shuffle_on_timeout C phase t es) (\<lambda>(t, es). advance_shuffle t es)))))"

definition pending_reveal_mask :: "'pt table \<Rightarrow> seat_mask" where
  "pending_reveal_mask t = foldl (\<lambda>m a. m OR ra_pending_mask a) 0 (reveal_assignments t)"

definition on_reveal_timeout :: "'pt crypto \<Rightarrow> nat \<Rightarrow> 'pt table \<Rightarrow> events \<Rightarrow> 'pt step" where
  "on_reveal_timeout C now t es =
     (let phase = reveal_phase t; pending = pending_reveal_mask t;
          hand_reset = (\<lambda>m. rbind m (\<lambda>(t, es). rbind (reset_for_next_hand C t es) (\<lambda>(t, es).
            Inr (t, emit_event (HandReset (t_id t) RESET_REASON_TIMEOUT (round_state t)) es)))) in
      rbind (try_fold (\<lambda>(t, es) i. kick_player_raw i KickTimeout t es)
               (t, emit_event (RevealTimeout (t_id t) phase pending) es) (seat_mask_to_indices pending (max_players t))) (\<lambda>(t, es).
      let active = count_active_players (t_seats t) in
      if active = 0 then hand_reset (refund_all_bets t es)
      else if active = 1 then end_without_showdown C t es
      else if phase = REVEAL_PHASE_PREFLOP then hand_reset (Inr (t, es))
      else start_reconstruct now t es))"

definition on_betting_timeout :: "'pt crypto \<Rightarrow> 'pt table \<Rightarrow> events \<Rightarrow> 'pt step" where
  "on_betting_timeout C t es = apply_fold_internal C (current_turn t) FOLD_REASON_AUTO_TIMEOUT t es"

section \<open>Deadlines\<close>

record deadline_execution =
  de_pre :: "normalization_step list"
  de_outcome :: deadline_outcome
  de_post :: "normalization_step list"

type_synonym 'pt deadline_result = "('pt table \<times> events \<times> deadline_execution) res"

definition execution :: "normalization_step list \<Rightarrow> deadline_outcome \<Rightarrow> normalization_step list \<Rightarrow> deadline_execution" where
  "execution pre out post = \<lparr>de_pre = pre, de_outcome = out, de_post = post\<rparr>"

text \<open>The common shape of the branches: wait, or consume the deadline and normalise.\<close>

definition consume_deadline ::
    "'pt crypto \<Rightarrow> nat \<Rightarrow> deadline_kind \<Rightarrow> nat \<Rightarrow> nat \<Rightarrow> normalization_step list \<Rightarrow>
     ('pt table \<Rightarrow> events \<Rightarrow> 'pt step) \<Rightarrow> 'pt table \<Rightarrow> events \<Rightarrow> 'pt deadline_result" where
  "consume_deadline C now kind subject deadline pre on_timeout t es =
     (if now < deadline then Inr (t, es, execution pre (NotDue kind subject deadline) [])
      else rbind (on_timeout t es) (\<lambda>(t, es).
        rbind (normalize_until_blocked_in_place C now t es) (\<lambda>(t, es, post).
          Inr (t, es, execution pre (Advanced kind subject) post))))"

definition advance_betting_deadline ::
    "'pt crypto \<Rightarrow> nat \<Rightarrow> normalization_step list \<Rightarrow> 'pt table \<Rightarrow> events \<Rightarrow> 'pt deadline_result" where
  "advance_betting_deadline C now pre t es =
     (let subject = current_turn t in
      if subject = NO_SEAT \<or> subject \<ge> max_players t
      then Inl (Serialization ''advance_deadline: betting phase has no canonical current seat'')
      else rbind (ok_or (betting_deadline_ms t) (Serialization ''betting phase has no deadline projection'')) (\<lambda>deadline.
        if now \<ge> deadline \<and> seat_time_bank_ms (t_seats t ! subject) > 0 then
          let consume = min (seat_time_bank_ms (t_seats t ! subject)) (betting_timeout_ms (timeouts t)) in
          rbind (consume_time_bank subject consume t es) (\<lambda>(t, es).
          rbind (extend_betting_deadline consume t) (\<lambda>(t, d).
            Inr (t, es, execution pre (TimeBankExtended subject d) [])))
        else consume_deadline C now DeadBetting subject deadline pre (on_betting_timeout C) t es))"

definition advance_deadline_in_place :: "'pt crypto \<Rightarrow> nat \<Rightarrow> 'pt table \<Rightarrow> events \<Rightarrow> 'pt deadline_result" where
  "advance_deadline_in_place C now t es =
     rbind (validate_state_schema (cr_group C) t) (\<lambda>_.
     rbind (normalize_until_blocked_in_place C now t es) (\<lambda>(t, es, pre).
     if is_reconstructing t then
       rbind (reconstruct_deadline_ms t) (\<lambda>d.
       rbind (ok_or d (Serialization ''reconstruct phase has no deadline projection'')) (\<lambda>deadline.
         consume_deadline C now DeadReconstruct NO_SEAT deadline pre (on_reconstruct_timeout C) t es))
     else if shuffle_phase t = SHUFFLE_PHASE_RECONSTRUCT \<or> shuffle_phase t = SHUFFLE_PHASE_BEFORE_PREFLOP then
       rbind (ok_or (shuffle_deadline_ms t) (Serialization ''shuffle phase has no deadline projection'')) (\<lambda>deadline.
         consume_deadline C now DeadShuffle (derived_current_shuffler (table_shuffle_state t)) deadline pre
           (on_shuffle_timeout C) t es)
     else if reveal_token_state t \<noteq> None then
       rbind (ok_or (reveal_deadline_ms t) (Serialization ''reveal phase has no deadline projection'')) (\<lambda>deadline.
         consume_deadline C now DeadReveal
           (case seat_mask_first (pending_reveal_mask t) of None \<Rightarrow> NO_SEAT | Some i \<Rightarrow> i) deadline pre
           (on_reveal_timeout C now) t es)
     else if is_betting_round t then advance_betting_deadline C now pre t es
     else if round_state t = ROUND_SHOWDOWN then
       rbind (ok_or (showdown_deadline_ms t) (Serialization ''showdown phase has no deadline projection'')) (\<lambda>deadline.
         consume_deadline C now DeadShowdownDisplay NO_SEAT deadline pre (settle_hand C) t es)
     else Inr (t, es, execution pre NoDeadline [])))"

definition advance_deadline_with_report :: "'pt crypto \<Rightarrow> nat \<Rightarrow> 'pt table \<Rightarrow> events \<Rightarrow> 'pt deadline_result" where
  "advance_deadline_with_report C now t es =
     rbind (advance_deadline_in_place C now t []) (\<lambda>(t, staged, ex). Inr (t, es @ staged, ex))"

definition advance_deadline :: "'pt crypto \<Rightarrow> nat \<Rightarrow> 'pt table \<Rightarrow> events \<Rightarrow> ('pt table \<times> events \<times> deadline_outcome) res" where
  "advance_deadline C now t es =
     rbind (advance_deadline_with_report C now t es) (\<lambda>(t, es, ex). Inr (t, es, de_outcome ex))"

section \<open>Creating, joining and leaving a table\<close>

definition apply_create_table :: "address \<Rightarrow> nat \<Rightarrow> nat \<Rightarrow> nat \<Rightarrow> nat \<Rightarrow> 'pt table \<Rightarrow> 'pt table res" where
  "apply_create_table creator mp small_blind big_blind rit_mode t =
     (if \<not> (2 \<le> mp \<and> mp \<le> 9) then Inl (Serialization ''max_players out of range [2, 9]'')
      else if big_blind = 0 then Inl (Serialization ''big_blind must > 0'')
      else if small_blind > big_blind then Inl (Serialization ''small_blind must <= big_blind'')
      else if \<not> (rit_mode = RIT_MODE_DISABLED \<or> rit_mode = RIT_MODE_TWICE)
      then Inl (Serialization ''create_table: rit_mode is not canonical'')
      else rbind (table_new (t_id t) creator mp small_blind big_blind) (\<lambda>t.
        Inr (t\<lparr>t_rules := (t_rules t)\<lparr>r_rit_mode := rit_mode\<rparr>\<rparr>)))"

text \<open>The proof of key ownership is represented by the predicate its verification computes.\<close>

definition apply_join_table ::
    "'pt crypto \<Rightarrow> address \<Rightarrow> nat \<Rightarrow> 'pt \<Rightarrow> tagged_pubkey \<Rightarrow> ('pt \<Rightarrow> bool) \<Rightarrow> 'pt table \<Rightarrow> events \<Rightarrow> 'pt step" where
  "apply_join_table C player buy_in pk tx_pk owns t es =
     (if \<not> can_join_state t then Inl (Serialization ''not in WAITING state, cannot join_table'')
      else if g1_is_identity (cr_group C) pk then Inl (Serialization ''join_table public key cannot be identity'')
      else if \<not> owns pk then Inl (Serialization ''join_table PK ownership proof verification failed'')
      else if is_pk_registered (t_seats t) pk then Inl (Serialization ''pk already registered at this table'')
      else rbind (ok_or (checked_add (t_chip_pool t) buy_in) (Serialization ''chip_pool overflow on join_table'')) (\<lambda>post_pool.
      if post_pool > MAX_TOTAL_BET then Inl (Serialization ''join_table chip_pool exceeds MAX_TOTAL_BET'')
      else rbind (ok_or (find_empty_seat t) (Serialization ''no empty seat available'')) (\<lambda>i.
      rbind (seat_occupied (g1_is_identity (cr_group C)) player buy_in pk tx_pk Waiting) (\<lambda>s.
      let t = set_seat_wants_leave i False (set_seat_acted_this_round i False t);
          t = t\<lparr>t_seats := (t_seats t)[i := s], t_chip_pool := post_pool\<rparr> in
      rbind (add_deck_contributor (cr_group C) i t) (\<lambda>t.
        Inr (t, es @ [PlayerJoined (t_id t) i player buy_in True (count_active_occupied (t_seats t))]))))))"

definition apply_leave_table :: "'pt crypto \<Rightarrow> nat \<Rightarrow> 'pt table \<Rightarrow> events \<Rightarrow> 'pt step" where
  "apply_leave_table C i t es =
     (if \<not> can_leave_state t then Inl (Serialization ''not in WAITING state, cannot leave_table'')
      else rbind (seat_at t i) (\<lambda>s.
      if \<not> seat_is_occupied s then Inl (Serialization ''seat not occupied, cannot leave'')
      else rbind (ok_or (checked_add (seat_stack s) (seat_pending_addon s)) (Serialization ''leave_table refund overflow'')) (\<lambda>refund.
      rbind (ok_or (checked_sub (t_chip_pool t) refund) (Serialization ''leave_table chip_pool underflow'')) (\<lambda>post_pool.
      let player = seat_player s;
          t = (if refund > 0 then t\<lparr>t_chip_pool := post_pool\<rparr> else t);
          t = t\<lparr>t_seats := (t_seats t)[i := seat_empty]\<rparr> in
      rbind (remove_deck_contributor (cr_group C) i t) (\<lambda>t.
        Inr (t, es @ (if refund > 0 then [PlayerRefund (t_id t) i player refund REFUND_TYPE_STACK_ONLY] else []) @
                [PlayerLeft (t_id t) i player]))))))"

end
