(* ===== verification/Poker_Payout.thy ===== *)
theory Poker_Payout
  imports Poker_Settlement
begin

text \<open>
  The showdown derivation always succeeds: for a table whose boards and exposed cards are valid
  and whose pot is what the seats put in, every step of the derivation and the validation of the
  plan it builds go through. With it, conservation and the identity of the winners.
\<close>

section \<open>One runout and one pot\<close>

definition hands_complete :: "'pt table \<Rightarrow> 16 word \<Rightarrow> bool" where
  "hands_complete t e \<longleftrightarrow> (\<forall>i. bit e i \<longrightarrow> (\<exists>h. seat_hand (t_seats t ! i) = Some h \<and> fc_len h = 2))"

lemma rank_seat_total:
  "hands_complete t e \<Longrightarrow> \<exists>st'. rank_seat t e board st i = Inr st'"
  by (auto simp: rank_seat_def hands_complete_def is_eligible_iff Let_def split: option.split)

lemma rank_fold_total: "hands_complete t e \<Longrightarrow> \<exists>st'. try_fold (rank_seat t e board) st xs = Inr st'"
proof (induction xs arbitrary: st)
  case (Cons x xs)
  obtain st' where "rank_seat t e board st x = Inr st'" using rank_seat_total [OF Cons.prems] by blast
  then show ?case using Cons.IH [OF Cons.prems, of st'] by simp
qed simp

lemma find_winners_total:
  assumes "hands_complete t e" "max_players t \<le> 9" "i < max_players t" "bit e i"
  shows "\<exists>m ranks. find_winners t e board = Inr (m, ranks)"
proof -
  obtain st where st: "try_fold (rank_seat t e board) \<lparr>rk_ranks = replicate 9 None, rk_best = None, rk_winners = 0\<rparr>
      [0..<max_players t] = Inr st" using rank_fold_total [OF assms(1)] by blast
  let ?E = "{i \<in> set [0..<max_players t]. bit e i}"
  have ne: "?E \<noteq> {}" "set [0..<max_players t] \<subseteq> {..<16}" using assms by auto
  note f = rank_seat_fold [OF st ne(2) distinct_upt]
  have "\<exists>i\<in>?E. seat_rank t board i = Max (seat_rank t board ` ?E)"
  proof -
    have "Max (seat_rank t board ` ?E) \<in> seat_rank t board ` ?E" using ne(1) by (intro Max_in) auto
    then show ?thesis by auto
  qed
  then have "{i. bit (rk_winners st) i} \<noteq> {}" using f ne(1) by auto
  then have "rk_winners st \<noteq> 0" by (auto simp: mask_eq_0_iff)
  then show ?thesis using st by (simp add: find_winners_def SETTLEMENT_SEATS_def)
qed

lemma plan_runout_total:
  assumes "hands_complete t e" "max_players t \<le> 9" "e \<noteq> 0" "{i. bit e i} \<subseteq> {..<max_players t}"
    and "projection_ok (max_players t) v" "sum_list (va_awards v) + amounts ! j < u64_bound"
    and "pp_eligible p = e" "is_contested p"
  shows "\<exists>r. plan_runout t bs e amounts (rs, va_winners v, va_awards v) j =
      Inr (rs[j := r], va_winners (add_runout v r), va_awards (add_runout v r)) \<and>
    runout_valid p r \<and> rp_amount r = amounts ! j"
proof -
  obtain i where i: "i < max_players t" "bit e i" using assms(3,4) by (auto simp: mask_eq_0_iff)
  obtain m ranks where fw: "find_winners t e (runout_board bs j) = Inr (m, ranks)"
    using find_winners_total [OF assms(1,2) i] by blast
  note w = find_winners_Inr [OF fw assms(2)]
  have sub: "{i. bit m i} \<subseteq> {i. bit e i}" "{i. bit m i} \<subseteq> {..<max_players t}" unfolding w(2) by auto
  obtain k where k: "bit m k" using w(3) by (auto simp: mask_eq_0_iff)
  have kn: "k < max_players t" using k sub(2) by blast
  obtain aw where aw: "split_among_winners (amounts ! j) m (t_button t) (max_players t) = Inr aw"
    using split_among_winners_ok [OF assms(2) kn k] by blast
  note s = split_among_winners_Inr [OF aw assms(2)]
  let ?r = "\<lparr>rp_amount = amounts ! j, rp_winner_mask = m, rp_ranks = ranks, rp_awards = aw\<rparr>"
  have win: "\<forall>k<9. 0 < aw ! k \<longrightarrow> bit m k"
    using s(5) ordered_winners_facts(2) [OF assms(2), of m "t_button t"] by (metis mem_Collect_eq less_irrefl)
  have v: "runout_valid p ?r" using s(2,3) sub(1) w(3) win assms(7,8) by (simp add: runout_valid_def)
  have "add_awards (Serialization ''settlement: aggregate award overflow'') (va_awards v) aw = Inr (map2 (+) (va_awards v) aw)"
    using s(2,3) assms(5,6) by (intro add_awards_ok) (simp_all add: projection_ok_def)
  then have "plan_runout t bs e amounts (rs, va_winners v, va_awards v) j =
      Inr (rs[j := ?r], va_winners (add_runout v ?r), va_awards (add_runout v ?r))"
    unfolding plan_runout_def Let_def prod.case fw by (simp add: aw add_runout_def)
  with v show ?thesis by auto
qed

lemma split_across_sum: "c = 1 \<or> c = 2 \<Longrightarrow> sum_list (take c (split_across_runouts a c)) = a"
proof (elim disjE)
  assume "c = 2"
  moreover have "a div 2 + a mod 2 + a div 2 = a" by presburger
  ultimately show ?thesis by (simp add: split_across_runouts_def)
qed (simp add: split_across_runouts_def)

lemma plan_runouts_total:
  assumes "hands_complete t e" "max_players t \<le> 9" "e \<noteq> 0" "{i. bit e i} \<subseteq> {..<max_players t}"
    and "projection_ok (max_players t) v" "sum_list (va_awards v) + a < u64_bound"
    and "pp_eligible p = e" "is_contested p"
    and c_def: "c = boards_runout_count bs"
  shows "\<exists>rs. try_fold (plan_runout t bs e (split_across_runouts a c))
      ([runout_inactive, runout_inactive], va_winners v, va_awards v) [0..<c] =
      Inr (rs, va_winners (foldl add_runout v (take c rs)), va_awards (foldl add_runout v (take c rs))) \<and>
    length rs = 2 \<and> (\<forall>j<c. runout_valid p (rs ! j)) \<and> (c \<le> 1 \<longrightarrow> rs ! 1 = runout_inactive) \<and>
    sum_list (map rp_amount (take c rs)) = a"
proof -
  let ?A = "split_across_runouts a c"
  have c: "c = 1 \<or> c = 2" by (cases bs) (simp_all add: c_def)
  note sum = split_across_sum [OF c, of a]
  have b0: "sum_list (va_awards v) + ?A ! 0 < u64_bound"
    using assms(6) c by (auto simp: split_across_runouts_def intro: le_less_trans [rotated])
  from plan_runout_total [OF assms(1-5) b0 assms(7,8), of bs "[runout_inactive, runout_inactive]"] obtain r0 where
    r0: "plan_runout t bs e ?A ([runout_inactive, runout_inactive], va_winners v, va_awards v) 0 =
      Inr ([r0, runout_inactive], va_winners (add_runout v r0), va_awards (add_runout v r0))"
      "runout_valid p r0" "rp_amount r0 = ?A ! 0" by auto
  show ?thesis
  proof (cases "c = 1")
    case True
    then show ?thesis using r0 sum
      by (intro exI [of _ "[r0, runout_inactive]"]) (simp add: split_across_runouts_def)
  next
    case False
    with c have c2: "c = 2" by simp
    let ?v = "add_runout v r0"
    have el: "{i. bit (pp_eligible p) i} \<subseteq> {..<max_players t}" using assms(4,7) by simp
    note ok = add_runout_ok [OF r0(2) el assms(5)]
    have b1: "sum_list (va_awards ?v) + ?A ! 1 < u64_bound"
      using assms(6) ok(4) r0(3) sum by (simp add: c2 split_across_runouts_def)
    from plan_runout_total [OF assms(1-4) ok(1) b1 assms(7,8), of bs "[r0, runout_inactive]"] obtain r1 where
      r1: "plan_runout t bs e ?A ([r0, runout_inactive], va_winners ?v, va_awards ?v) 1 =
        Inr ([r0, r1], va_winners (add_runout ?v r1), va_awards (add_runout ?v r1))"
        "runout_valid p r1" "rp_amount r1 = ?A ! 1" by auto
    have "rp_amount r0 + rp_amount r1 = a" using r0(3) r1(3) sum by (simp add: c2 split_across_runouts_def)
    then show ?thesis using r0 r1 c2
      by (intro exI [of _ "[r0, r1]"]) (simp add: upt_rec less_2_cases_iff)
  qed
qed

lemma plan_pot_total:
  assumes "hands_complete t e" "max_players t \<le> 9" "e \<noteq> 0" "{i. bit e i} \<subseteq> {..<max_players t}"
    and "projection_ok (max_players t) v" "sum_list (va_awards v) + a < u64_bound"
    and pot: "pots ! k = \<lparr>sp_amount = a, sp_eligible = e\<rparr>" and "0 < a" "rakes ! k \<le> a"
  shows "\<exists>p. plan_pot t bs pots rakes (plans, va_winners v, va_awards v) k =
      Inr (plans[k := p], va_winners (add_pot (boards_runout_count bs) v p), va_awards (add_pot (boards_runout_count bs) v p)) \<and>
    pot_valid (max_players t) (boards_runout_count bs) k p \<and> pp_gross p = a \<and> pp_rake p = rakes ! k"
proof -
  let ?c = "boards_runout_count bs" and ?net = "a - rakes ! k"
  let ?p = "\<lambda>rs. \<lparr>pp_index = k, pp_gross = a, pp_rake = rakes ! k, pp_net = ?net, pp_eligible = e, pp_runouts = rs\<rparr>"
  have b: "sum_list (va_awards v) + ?net < u64_bound" using assms(6) by linarith
  show ?thesis
  proof (cases "2 \<le> count_ones e")
    case True
    then have con: "is_contested (?p rs)" for rs by (simp add: is_contested_def)
    have rv: "runout_valid (?p rs) r = runout_valid (?p []) r" for rs r by (simp add: runout_valid_def is_contested_def)
    from plan_runouts_total [OF assms(1-5) b _ con [of "[]"] refl, of bs] obtain rs where rs:
      "try_fold (plan_runout t bs e (split_across_runouts ?net ?c)) ([runout_inactive, runout_inactive], va_winners v, va_awards v)
         [0..<?c] = Inr (rs, va_winners (foldl add_runout v (take ?c rs)), va_awards (foldl add_runout v (take ?c rs)))"
      "length rs = 2" "\<forall>j<?c. runout_valid (?p []) (rs ! j)" "?c \<le> 1 \<longrightarrow> rs ! 1 = runout_inactive"
      "sum_list (map rp_amount (take ?c rs)) = ?net" by auto
    have "pot_valid (max_players t) ?c k (?p rs)"
      using assms(3,4,9) con [of rs] rs rv [of rs] by (simp add: pot_valid_def live_runouts_def)
    moreover have "foldl add_runout (v\<lparr>va_gross := g, va_rake := r\<rparr>) xs = (foldl add_runout v xs)\<lparr>va_gross := g, va_rake := r\<rparr>"
      for g r xs by (induction xs rule: rev_induct) (simp_all add: add_runout_def)
    then have "va_winners (add_pot ?c v (?p rs)) = va_winners (foldl add_runout v (take ?c rs))"
      "va_awards (add_pot ?c v (?p rs)) = va_awards (foldl add_runout v (take ?c rs))"
      using con [of rs] by (simp_all add: add_pot_def live_runouts_def)
    ultimately show ?thesis using True assms(3,8,9) rs(1)
      by (intro exI [of _ "?p rs"]) (simp add: plan_pot_def pot checked_sub_def)
  next
    case False
    obtain i where i: "bit e i" using assms(3) by (auto simp: mask_eq_0_iff)
    then have i': "i < max_players t" using assms(4) by blast
    obtain aw where aw: "split_among_winners ?net e (t_button t) (max_players t) = Inr aw"
      using split_among_winners_ok [OF assms(2) i' i] by blast
    note s = split_among_winners_Inr [OF aw assms(2)]
    let ?r = "\<lparr>rp_amount = ?net, rp_winner_mask = e, rp_ranks = replicate 9 None, rp_awards = aw\<rparr>"
    let ?q = "?p [?r, runout_inactive]"
    have unc: "\<not> is_contested ?q" using False by (simp add: is_contested_def)
    have win: "\<forall>k<9. 0 < aw ! k \<longrightarrow> bit e k"
      using s(5) ordered_winners_facts(2) [OF assms(2), of e "t_button t"] by (metis mem_Collect_eq less_irrefl)
    have "runout_valid ?q ?r" using s(2,3) win assms(3) by (simp add: runout_valid_def)
    then have "pot_valid (max_players t) ?c k ?q"
      using assms(3,4,9) unc by (simp add: pot_valid_def live_runouts_def)
    moreover have "add_awards (Serialization ''settlement: aggregate award overflow'') (va_awards v) aw = Inr (map2 (+) (va_awards v) aw)"
      using s(2,3) assms(5) b by (intro add_awards_ok) (simp_all add: projection_ok_def)
    ultimately show ?thesis using False unc assms(3,8,9) aw
      by (intro exI [of _ ?q]) (simp add: plan_pot_def pot checked_sub_def add_pot_def live_runouts_def add_runout_def SETTLEMENT_SEATS_def)
  qed
qed

section \<open>All pots\<close>

definition no_validation :: validation where
  "no_validation = \<lparr>va_gross = 0, va_rake = 0, va_awards = replicate 9 0, va_winners = 0\<rparr>"

lemma add_pots_ok:
  assumes "\<forall>k<length ps. pot_valid n c k (ps ! k)" "c \<le> 2"
  defines "v \<equiv> foldl (add_pot c) no_validation ps"
  shows "projection_ok n v \<and> sum_list (va_awards v) + sum_list (map pp_rake ps) = sum_list (map pp_gross ps)"
  using assms(1) unfolding v_def
proof (induction ps rule: rev_induct)
  case Nil
  then show ?case by (simp add: no_validation_def projection_ok_def sum_list_replicate)
next
  case (snoc p ps)
  have pv: "pot_valid n c (length ps) p" using snoc.prems by (metis length_append_singleton lessI nth_append_length)
  have IH: "projection_ok n (foldl (add_pot c) no_validation ps) \<and>
      sum_list (va_awards (foldl (add_pot c) no_validation ps)) + sum_list (map pp_rake ps) = sum_list (map pp_gross ps)"
    by (rule snoc.IH) (use snoc.prems in \<open>auto simp: nth_append split: if_splits\<close>)
  have "pp_rake p + pp_net p = pp_gross p" using pv by (simp add: pot_valid_def)
  with IH add_pot_ok [OF pv _ assms(2)] show ?case by simp
qed

lemma plan_pots_total:
  assumes "max_players t \<le> 9" "length pots \<le> 9" "length rakes = length pots"
    and "\<And>k. k < length pots \<Longrightarrow> hands_complete t (sp_eligible (pots ! k)) \<and> sp_eligible (pots ! k) \<noteq> 0 \<and>
      {i. bit (sp_eligible (pots ! k)) i} \<subseteq> {..<max_players t} \<and> 0 < sp_amount (pots ! k) \<and> rakes ! k \<le> sp_amount (pots ! k)"
    and "sum_list (map sp_amount pots) < u64_bound" "m \<le> length pots"
  shows "\<exists>ps. length ps = m \<and> (\<forall>k<m. pot_valid (max_players t) (boards_runout_count bs) k (ps ! k)) \<and>
    map pp_gross ps = map sp_amount (take m pots) \<and> map pp_rake ps = take m rakes \<and>
    (let v = foldl (add_pot (boards_runout_count bs)) no_validation ps in
     try_fold (plan_pot t bs pots rakes) (replicate 9 pot_plan_inactive, 0, replicate 9 0) [0..<m] =
      Inr (ps @ replicate (9 - m) pot_plan_inactive, va_winners v, va_awards v))"
  using assms(6)
proof (induction m)
  case 0
  then show ?case by (simp add: no_validation_def)
next
  case (Suc m)
  let ?c = "boards_runout_count bs"
  from Suc obtain ps where ps: "length ps = m" "\<forall>k<m. pot_valid (max_players t) ?c k (ps ! k)"
    "map pp_gross ps = map sp_amount (take m pots)" "map pp_rake ps = take m rakes"
    "try_fold (plan_pot t bs pots rakes) (replicate 9 pot_plan_inactive, 0, replicate 9 0) [0..<m] =
      Inr (ps @ replicate (9 - m) pot_plan_inactive, va_winners (foldl (add_pot ?c) no_validation ps),
        va_awards (foldl (add_pot ?c) no_validation ps))" by (auto simp: Let_def)
  let ?v = "foldl (add_pot ?c) no_validation ps"
  have m: "m < length pots" using Suc.prems by simp
  note h = assms(4) [OF m]
  have pv: "\<forall>k<length ps. pot_valid (max_players t) ?c k (ps ! k)" using ps(1,2) by simp
  note ok = add_pots_ok [OF pv runout_count_le]
  have "map sp_amount pots = map sp_amount (take m pots) @ map sp_amount (drop m pots)" by (simp flip: map_append)
  then have "sum_list (map sp_amount (take m pots)) + sp_amount (pots ! m) \<le> sum_list (map sp_amount pots)"
    using m by (simp add: Cons_nth_drop_Suc [symmetric])
  then have bnd: "sum_list (va_awards ?v) + sp_amount (pots ! m) < u64_bound" using ok assms(5) ps(3) by simp
  have pot: "pots ! m = \<lparr>sp_amount = sp_amount (pots ! m), sp_eligible = sp_eligible (pots ! m)\<rparr>" by simp
  have h': "hands_complete t (sp_eligible (pots ! m))" "sp_eligible (pots ! m) \<noteq> 0"
    "{i. bit (sp_eligible (pots ! m)) i} \<subseteq> {..<max_players t}" "0 < sp_amount (pots ! m)" "rakes ! m \<le> sp_amount (pots ! m)"
    using h by auto
  from plan_pot_total [OF h'(1) assms(1) h'(2,3) conjunct1 [OF ok] bnd pot h'(4,5), of bs
      "ps @ replicate (9 - m) pot_plan_inactive"] obtain p where p:
    "plan_pot t bs pots rakes (ps @ replicate (9 - m) pot_plan_inactive, va_winners ?v, va_awards ?v) m =
      Inr ((ps @ replicate (9 - m) pot_plan_inactive)[m := p], va_winners (add_pot ?c ?v p), va_awards (add_pot ?c ?v p))"
    "pot_valid (max_players t) ?c m p" "pp_gross p = sp_amount (pots ! m)" "pp_rake p = rakes ! m" by blast
  have "replicate (9 - m) pot_plan_inactive = pot_plan_inactive # replicate (9 - Suc m) pot_plan_inactive"
    using m assms(2) by (simp flip: replicate_Suc add: Suc_diff_Suc)
  then have "(ps @ replicate (9 - m) pot_plan_inactive)[m := p] = (ps @ [p]) @ replicate (9 - Suc m) pot_plan_inactive"
    using ps(1) by (simp add: list_update_append)
  with ps p m assms(3) show ?case
    by (intro exI [of _ "ps @ [p]"]) (auto simp: try_fold_append nth_append less_Suc_eq take_Suc_conv_app_nth)
qed

section \<open>The derivation succeeds\<close>

lemma try_fold_each: "try_fold f s xs = Inr r \<Longrightarrow> x \<in> set xs \<Longrightarrow> \<exists>s1 s2. f s1 x = Inr s2"
  by (induction xs arbitrary: s) (auto simp: result_simps)

lemma exposed_hands:
  assumes "validate_exposed_cards t bs = Inr ()" "s \<in> set (t_seats t)"
    and "seat_is_occupied s" "\<not> seat_is_folded s" "\<not> seat_has_left_hand s"
  shows "\<exists>h. seat_hand s = Some h \<and> fc_len h = 2"
proof -
  from assms(1) obtain seen where
    "try_fold (\<lambda>seen s.
         if \<not> seat_is_occupied s \<or> seat_is_folded s \<or> seat_has_left_hand s then Inr seen
         else case seat_hand s of
           None \<Rightarrow> Inl (Serialization ''settlement: eligible seat has no in-hand payload'')
         | Some h \<Rightarrow>
             if fc_len h \<noteq> 2 \<or> list_ex (\<lambda>c. \<not> card_is_valid c) (as_slice h)
             then Inl (Serialization ''settlement: eligible seat must expose exactly two valid cards'')
             else insert_ids (Serialization ''settlement: duplicate exposed hole card'') seen (as_slice h))
       [] (t_seats t) = Inr seen" unfolding validate_exposed_cards_def by (rule rbind_InrE)
  from try_fold_each [OF this assms(2)] assms(3-5) show ?thesis by (auto split: option.splits if_splits)
qed

lemma playing_iff_bet: "0 < seat_total_bet s \<Longrightarrow> \<not> seat_has_left_hand s \<Longrightarrow> seat_is_occupied s"
  by (cases s) auto

lemma contested_sum_ok:
  "s + sum_list (map sp_amount ps) < u64_bound \<Longrightarrow>
   \<exists>r. try_fold (\<lambda>s p. if count_ones (sp_eligible p) \<ge> 2 then ok_or (checked_add s (sp_amount p)) e else Inr s) s ps = Inr r"
  by (induction ps arbitrary: s) (auto simp: checked_add_def)

lemma eligible_seats:
  assumes "calculate_side_pots (map seat_total_bet (t_seats t))
       (map (\<lambda>s. seat_is_folded s \<or> seat_has_left_hand s) (t_seats t)) (map seat_is_all_in (t_seats t)) = Inr r"
    and "padding_seats_are_vacant t" "validate_exposed_cards t bs = Inr ()" "p \<in> set (spr_active r)"
  shows "hands_complete t (sp_eligible p)" "{i. bit (sp_eligible p) i} \<subseteq> {..<max_players t}"
proof -
  have e: "i < length (t_seats t) \<and> \<not> seat_is_folded (t_seats t ! i) \<and> \<not> seat_has_left_hand (t_seats t ! i) \<and>
      0 < seat_total_bet (t_seats t ! i)" if "bit (sp_eligible p) i" for i
  proof -
    have "i < length (map seat_total_bet (t_seats t)) \<and>
        \<not> map (\<lambda>s. seat_is_folded s \<or> seat_has_left_hand s) (t_seats t) ! i \<and> 0 < map seat_total_bet (t_seats t) ! i"
      using calculate_eligibility [OF assms(1)] assms(4) that unfolding is_eligible_iff by blast
    then show ?thesis by (cases "i < length (t_seats t)") auto
  qed
  show "hands_complete t (sp_eligible p)" unfolding hands_complete_def
    using e exposed_hands [OF assms(3)] playing_iff_bet nth_mem by metis
  have "i < max_players t" if "bit (sp_eligible p) i" for i
  proof (rule ccontr)
    assume "\<not> i < max_players t"
    then have "t_seats t ! i \<in> set (drop (max_players t) (t_seats t))"
      using e [OF that] by (auto simp: in_set_conv_nth intro!: exI [of _ "i - max_players t"])
    then have "seat_is_vacant (t_seats t ! i)" using assms(2) by (auto simp: padding_seats_are_vacant_def list_all_iff)
    then show False using e [OF that] by (cases "t_seats t ! i") auto
  qed
  then show "{i. bit (sp_eligible p) i} \<subseteq> {..<max_players t}" by auto
qed

lemma rules_valid_rake:
  "rules_validate rules = Inr () \<Longrightarrow> r_rake_bps rules \<le> 10000 \<and>
   (\<exists>rakes. allocate_rake_fixed_rate pots (r_rake_mode rules) (r_rake_bps rules) (r_rake_cap rules) = Inr rakes)"
  by (auto simp: rules_validate_def allocate_rake_fixed_rate_def split: if_splits)

lemma showdown_plan_valid:
  assumes pv: "\<forall>k<length ps. pot_valid n (boards_runout_count bs) k (ps ! k)"
    and v: "v = foldl (add_pot (boards_runout_count bs)) no_validation ps"
    and "n \<le> 9" "cnt \<le> 9" "cnt = length ps" "g = pot" "sum_list (map pp_gross ps) = pot"
    and "sum_list (va_awards v) + sum_list (map pp_rake ps) = pot" "pot < u64_bound"
  shows "plan_validate \<lparr>sp_version = SETTLEMENT_PLAN_VERSION, sp_schedule = boards_schedule bs, sp_gross_pot = g,
      sp_rake = sum_list (map pp_rake ps), sp_total_awards = sum_list (va_awards v), sp_winner_mask = va_winners v,
      sp_awards = va_awards v, sp_pot_count = cnt, sp_pots = ps @ replicate (9 - length ps) pot_plan_inactive\<rparr> n = Inr ()"
    (is "plan_validate ?plan n = _")
proof (rule plan_validate_ok [OF _ _ assms(3)])
  have act: "active_pots ?plan = ps" using assms(5) by (simp add: active_pots_def)
  have cnt: "schedule_count (sp_schedule ?plan) = boards_runout_count bs" by (cases bs) simp_all
  show "foldl (add_pot (schedule_count (sp_schedule ?plan)))
      \<lparr>va_gross = 0, va_rake = 0, va_awards = replicate 9 0, va_winners = 0\<rparr> (active_pots ?plan) = v"
    unfolding act cnt by (simp add: v no_validation_def)
  show "\<forall>k<length (active_pots ?plan). pot_valid n (schedule_count (sp_schedule ?plan)) k (active_pots ?plan ! k)"
    unfolding act cnt by (rule pv)
  show "sp_gross_pot ?plan = sum_list (map pp_gross (active_pots ?plan))"
    "sp_rake ?plan = sum_list (map pp_rake (active_pots ?plan))" unfolding act using assms(6,7) by simp_all
  show "length (sp_awards ?plan) = 9" using add_pots_ok [OF pv runout_count_le] by (simp add: v projection_ok_def)
qed (use assms(4-9) in simp_all)

lemma derive_showdown_total:
  assumes "boards_validate bs = Inr ()" "validate_exposed_cards t bs = Inr ()" "rules_validate (t_rules t) = Inr ()"
    and "max_players t \<le> 9" "length (t_seats t) = 9" "padding_seats_are_vacant t"
    and "sum_list (map seat_total_bet (t_seats t)) = t_pot t" "t_pot t \<le> MAX_TOTAL_BET"
    and "s \<in> set (t_seats t)" "\<not> seat_is_folded s" "\<not> seat_has_left_hand s" "0 < seat_total_bet s"
  shows "\<exists>plan. derive_settlement_plan_for_boards t bs = Inr plan"
proof -
  let ?bets = "map seat_total_bet (t_seats t)" and ?folded = "map (\<lambda>s. seat_is_folded s \<or> seat_has_left_hand s) (t_seats t)"
    and ?all_in = "map seat_is_all_in (t_seats t)"
  have "\<exists>r. calculate_side_pots ?bets ?folded ?all_in = Inr r" using assms(5,7,8) by (simp add: calculate_cases)
  then obtain r where r: "calculate_side_pots ?bets ?folded ?all_in = Inr r" ..
  let ?pots = "spr_active r"
  note tot = calculate_totals [OF r]
  obtain i where i: "i < length (t_seats t)" "t_seats t ! i = s" using assms(9) by (auto simp: in_set_conv_nth)
  have ex: "\<exists>i<length ?bets. \<not> ?folded ! i \<and> 0 < ?bets ! i" using i assms(10-12) by (intro exI [of _ i]) simp
  have pos: "0 < t_pot t" using nth_le_sum_list [OF i(1), of seat_total_bet] i(2) assms(7,12) by simp
  have len: "length ?pots = spr_count r" "length ?pots \<le> 9" using tot by (simp_all add: spr_active_def MAX_SIDE_POTS_def)
  obtain rakes where bps: "r_rake_bps (t_rules t) \<le> 10000" and rakes:
    "allocate_rake_fixed_rate ?pots (r_rake_mode (t_rules t)) (r_rake_bps (t_rules t)) (r_rake_cap (t_rules t)) = Inr rakes"
    using rules_valid_rake [OF assms(3)] by blast
  note rk = allocate_rake_facts [OF rakes bps]
  have bound: "t_pot t < u64_bound" using assms(8) by (simp add: MAX_TOTAL_BET_def)
  have sum: "sum_list (map sp_amount ?pots) = t_pot t" "spr_total r = t_pot t" using tot assms(7) by simp_all
  have sum_bound: "sum_list (map sp_amount ?pots) < u64_bound" using sum(1) bound by simp
  have "hands_complete t (sp_eligible (?pots ! k)) \<and> sp_eligible (?pots ! k) \<noteq> 0 \<and>
      {i. bit (sp_eligible (?pots ! k)) i} \<subseteq> {..<max_players t} \<and> 0 < sp_amount (?pots ! k) \<and> rakes ! k \<le> sp_amount (?pots ! k)"
    if k: "k < length ?pots" for k
    using eligible_seats [OF r assms(6,2) nth_mem [OF k]] calculate_all_eligible [OF r ex nth_mem [OF k]] rk(3) [OF k]
      tot nth_mem [OF k] pos assms(7) by auto
  from plan_pots_total [OF assms(4) len(2) rk(1) this sum_bound order_refl, of bs] obtain ps where ps: "length ps = length ?pots"
    "\<forall>k<length ?pots. pot_valid (max_players t) (boards_runout_count bs) k (ps ! k)"
    "map pp_gross ps = map sp_amount ?pots" "map pp_rake ps = rakes"
    "try_fold (plan_pot t bs ?pots rakes) (replicate 9 pot_plan_inactive, 0, replicate 9 0) [0..<length ?pots] =
      Inr (ps @ replicate (9 - length ?pots) pot_plan_inactive, va_winners (foldl (add_pot (boards_runout_count bs)) no_validation ps),
        va_awards (foldl (add_pot (boards_runout_count bs)) no_validation ps))"
    using rk(1) by (auto simp: Let_def)
  define v where "v = foldl (add_pot (boards_runout_count bs)) no_validation ps"
  have pv: "\<forall>k<length ps. pot_valid (max_players t) (boards_runout_count bs) k (ps ! k)" using ps(1,2) by simp
  have ok: "projection_ok (max_players t) v" "sum_list (va_awards v) + sum_list rakes = t_pot t"
    using add_pots_ok [OF pv runout_count_le] ps(3,4) sum(1) by (simp_all add: v_def)
  obtain cg where cg: "try_fold (\<lambda>s p. if count_ones (sp_eligible p) \<ge> 2
      then ok_or (checked_add s (sp_amount p)) (Serialization ''settlement: contested pot sum overflow'') else Inr s)
      0 ?pots = Inr cg"
    using contested_sum_ok [of 0 ?pots "Serialization ''settlement: contested pot sum overflow''"] sum_bound by auto
  have cs: "checked_sum (Serialization ''settlement: rake sum overflow'') rakes = Inr (sum_list rakes)"
    "checked_sum (Serialization ''settlement: total award overflow'') (va_awards v) = Inr (sum_list (va_awards v))"
    using ok(2) bound by (simp_all add: checked_sum_Inr)
  have "spr_count r \<le> 9" "spr_count r = length ps" using len ps(1) by simp_all
  note valid = showdown_plan_valid [OF pv v_def assms(4) this sum(2) _ _ bound, unfolded ps(3,4), OF sum(1) ok(2)]
  then show ?thesis
    using assms(1,2,4,8) sum(2) rakes cg cs ps(1,5)
    unfolding derive_settlement_plan_for_boards_def Let_def r sum.case
    by (simp add: SETTLEMENT_SEATS_def v_def [symmetric])
qed

section \<open>Properties\<close>

lemma replicate_7: "replicate 7 x = [x, x, x, x, x, x, x]"
  by (simp add: numeral_eq_Suc)

lemma demo_showdown_ok:
  "boards_validate (BoardsSingle (map Card [0, 14, 28, 42, 7])) = Inr ()"
  "validate_exposed_cards demo_showdown (BoardsSingle (map Card [0, 14, 28, 42, 7])) = Inr ()"
  "rules_validate (t_rules demo_showdown) = Inr ()"
  by (simp_all add: boards_validate_def insert_ids_def card_is_valid_def demo_defs validate_exposed_cards_def
      seat_is_folded_def rules_validate_def MAX_SEATS_def ANTE_MODE_NONE_def RIT_MODE_DISABLED_def replicate_7)

text \<open>
  C4. A showdown always settles: for valid boards, complete and distinct exposed hands, valid rules
  and a pot that is what the seats put in (at most the supply limit), with at least one player left
  who has bet, the derivation of the plan succeeds, its own validation of the plan included.
\<close>

theorem showdown_always_settles:
  assumes "boards_validate bs = Inr ()" "validate_exposed_cards t bs = Inr ()" "rules_validate (t_rules t) = Inr ()"
    and "length (t_seats t) = MAX_SEATS" "padding_seats_are_vacant t"
    and "sum_list (map seat_total_bet (t_seats t)) = t_pot t" "t_pot t \<le> MAX_TOTAL_BET"
    and "s \<in> set (t_seats t)" "\<not> seat_is_folded s" "\<not> seat_has_left_hand s" "0 < seat_total_bet s"
  shows "\<exists>plan. derive_settlement_plan_for_boards t bs = Inr plan"
proof -
  have "max_players t \<le> 9" using assms(3) by (auto simp: rules_validate_def MAX_SEATS_def split: if_splits)
  with assms show ?thesis by (intro derive_showdown_total) (simp_all add: MAX_SEATS_def)
qed

theorem showdown_always_settles_witness:
  "\<exists>plan. derive_settlement_plan_for_boards demo_showdown (BoardsSingle (map Card [0, 14, 28, 42, 7])) = Inr plan"
  by (rule showdown_always_settles [OF demo_showdown_ok, where s = "demo_seat 12 25 100 PActive"])
    (simp_all add: demo_defs MAX_SEATS_def padding_seats_are_vacant_def MAX_TOTAL_BET_def seat_is_folded_def replicate_7)

lemma demo_showdown_plan:
  "\<exists>plan. derive_settlement_plan_for_boards demo_showdown (BoardsSingle (map Card [0, 14, 28, 42, 7])) = Inr plan"
  by (rule derive_showdown_total [OF demo_showdown_ok, where s = "demo_seat 12 25 100 PActive"])
    (simp_all add: demo_defs padding_seats_are_vacant_def MAX_TOTAL_BET_def seat_is_folded_def replicate_7)

text \<open>
  C5. Conservation at the showdown: what the plan pays to the seats and the rake are together
  the pot of the table, which is the sum of what the seats put in; the rake is at most the cap;
  only seats of the table that won some pot are paid.
\<close>

theorem settlement_conserves:
  assumes "derive_settlement_plan_for_boards t bs = Inr plan" "r_rake_bps (t_rules t) \<le> 10000"
  shows "sum_list (sp_awards plan) + sp_rake plan = t_pot t \<and> t_pot t = sum_list (map seat_total_bet (t_seats t)) \<and>
    sp_rake plan \<le> r_rake_cap (t_rules t) \<and>
    (\<forall>k<SETTLEMENT_SEATS. 0 < sp_awards plan ! k \<longrightarrow> bit (sp_winner_mask plan) k \<and> k < max_players t)"
proof -
  from derive_boards_Inr [OF assms(1)] obtain result rakes where d:
    "calculate_side_pots (map seat_total_bet (t_seats t))
       (map (\<lambda>s. seat_is_folded s \<or> seat_has_left_hand s) (t_seats t)) (map seat_is_all_in (t_seats t)) = Inr result"
    "allocate_rake_fixed_rate (spr_active result) (r_rake_mode (t_rules t)) (r_rake_bps (t_rules t)) (r_rake_cap (t_rules t)) = Inr rakes"
    "sp_rake plan = sum_list rakes" "sp_gross_pot plan = t_pot t" "spr_total result = t_pot t"
    "plan_validate plan (max_players t) = Inr ()" by blast
  note v = plan_validate_Inr [OF d(6) derived_pots_ok(2,1) [OF assms(1) ]]
  show ?thesis
    using v(1-3) d(3-5) allocate_rake_facts(2) [OF d(2) assms(2)] calculate_totals [OF d(1)]
    by (simp add: SETTLEMENT_SEATS_def)
qed

theorem settlement_conserves_witness:
  "\<exists>plan. derive_settlement_plan_for_boards demo_showdown (BoardsSingle (map Card [0, 14, 28, 42, 7])) = Inr plan \<and>
     sum_list (sp_awards plan) + sp_rake plan = 200"
proof -
  obtain plan where p: "derive_settlement_plan_for_boards demo_showdown (BoardsSingle (map Card [0, 14, 28, 42, 7])) = Inr plan"
    using demo_showdown_plan by blast
  have "r_rake_bps (t_rules demo_showdown) \<le> 10000" "t_pot demo_showdown = 200" by (simp_all add: demo_defs)
  with settlement_conserves [OF p] p show ?thesis by auto
qed

text \<open>
  C6. The right players are paid: the plan has exactly the side pots of the bets, with their
  eligible seats and amounts; in every contested pot and on every board the winners are the
  eligible seats whose best hand with that board is the greatest, and they split the part of the
  pot that this board decides (half each, the odd chip on the first board) by the odd-chip rule.
\<close>

theorem settlement_pays_best_hands:
  assumes "derive_settlement_plan_for_boards t bs = Inr plan" "k < sp_pot_count plan"
  defines "pot \<equiv> spr_active (derived_side_pots t) ! k" and "p \<equiv> sp_pots plan ! k"
  shows "sp_pot_count plan = length (spr_active (derived_side_pots t)) \<and>
    pp_eligible p = sp_eligible pot \<and> pp_gross p = sp_amount pot \<and> pp_net p = pp_gross p - pp_rake p \<and>
    (2 \<le> count_ones (sp_eligible pot) \<longrightarrow> (\<forall>j<boards_runout_count bs.
       let r = pp_runouts p ! j in
       rp_amount r = split_across_runouts (pp_net p) (boards_runout_count bs) ! j \<and>
       {i. bit (rp_winner_mask r) i} = best_seats t (runout_board bs j) (sp_eligible pot) \<and>
       split_among_winners (rp_amount r) (rp_winner_mask r) (t_button t) (max_players t) = Inr (rp_awards r)))"
  using derived_pots_ok(3) [OF assms(1,2)] derived_pots_ok(4) [OF assms(1)]
  by (auto simp: pot_def p_def pot_ok_def runout_ok_def is_contested_def Let_def)

theorem settlement_pays_best_hands_witness:
  "\<exists>plan. derive_settlement_plan_for_boards demo_showdown (BoardsSingle (map Card [0, 14, 28, 42, 7])) = Inr plan \<and>
     0 < sp_pot_count plan \<and> pp_net (sp_pots plan ! 0) = pp_gross (sp_pots plan ! 0) - pp_rake (sp_pots plan ! 0)"
proof -
  obtain plan where p: "derive_settlement_plan_for_boards demo_showdown (BoardsSingle (map Card [0, 14, 28, 42, 7])) = Inr plan"
    using demo_showdown_plan by blast
  have "0 < sp_pot_count plan"
    using derived_pots_ok(4,5) [OF p] calculate_totals [OF derived_pots_ok(5) [OF p]] by (auto simp: spr_active_def)
  with settlement_pays_best_hands [OF p this] p show ?thesis by auto
qed

end
