(* ===== verification/Poker_Vault.thy ===== *)
theory Poker_Vault
  imports Poker_Commands Poker_Payout
begin

text \<open>
  Chip accounting of the state machine. The vault of a table holds \<open>t_chip_pool\<close> chips; the
  table owes the stacks, the pending addons, the pot and the bets of the current round. The
  operations either conserve the difference exactly or, on the abnormal paths that drop a
  pot, leave chips in the vault that nobody is owed; none of them ever owes more.
\<close>

section \<open>Accounts\<close>

definition stacks :: "'pt table \<Rightarrow> nat" where
  "stacks t = sum_list (map seat_stack (t_seats t))"

definition pendings :: "'pt table \<Rightarrow> nat" where
  "pendings t = sum_list (map seat_pending_addon (t_seats t))"

definition bets :: "'pt table \<Rightarrow> nat" where
  "bets t = sum_list (map seat_bet (t_seats t))"

definition wagered :: "'pt table \<Rightarrow> nat" where
  "wagered t = sum_list (map seat_total_bet (t_seats t))"

definition held :: "'pt table \<Rightarrow> nat" where
  "held t = stacks t + pendings t"

definition owed :: "'pt table \<Rightarrow> nat" where
  "owed t = held t + t_pot t + bets t"

fun in_betting :: "'pt hand_phase \<Rightarrow> bool" where
  "in_betting (PhaseBetting _ _ _ _) = True"
| "in_betting _ = False"

text \<open>Between hands, or in the shuffle that opens a hand: no chip has been wagered yet.\<close>

fun before_deal :: "'pt hand_phase \<Rightarrow> bool" where
  "before_deal PhaseWaiting = True"
| "before_deal (PhaseShuffling (ShufflingInitial _ _)) = True"
| "before_deal _ = False"

text \<open>
  The books are in order: what the players put in during the hand is the pot and the open
  bets; bets are open only during betting; and before the deal there is no pot.
\<close>

definition books :: "'pt table \<Rightarrow> bool" where
  "books t \<longleftrightarrow> length (t_seats t) = MAX_SEATS \<and> t_pot t + bets t = wagered t \<and>
     (\<not> in_betting (t_hand_phase t) \<longrightarrow> bets t = 0) \<and> (before_deal (t_hand_phase t) \<longrightarrow> t_pot t = 0)"

lemma before_deal_not_betting: "before_deal ph \<Longrightarrow> \<not> in_betting ph"
  by (cases ph rule: before_deal.cases) auto

text \<open>
  No chip comes into the vault, and what leaves it is no longer owed: exactly in \<open>conserves\<close>, at least
  in \<open>no_gain\<close>, where a claim may also be lost.
\<close>

definition conserves :: "'pt table \<Rightarrow> 'pt table \<Rightarrow> bool" where
  "conserves t t' \<longleftrightarrow> t_chip_pool t' + owed t = t_chip_pool t + owed t' \<and> t_chip_pool t' \<le> t_chip_pool t"

definition no_gain :: "'pt table \<Rightarrow> 'pt table \<Rightarrow> bool" where
  "no_gain t t' \<longleftrightarrow> t_chip_pool t + owed t' \<le> t_chip_pool t' + owed t \<and> t_chip_pool t' \<le> t_chip_pool t"

text \<open>The same with a deposit of \<open>k\<close> chips.\<close>

definition deposits :: "nat \<Rightarrow> 'pt table \<Rightarrow> 'pt table \<Rightarrow> bool" where
  "deposits k t t' \<longleftrightarrow>
     t_chip_pool t + owed t' \<le> t_chip_pool t' + owed t \<and> t_chip_pool t' \<le> t_chip_pool t + k"

definition solvent :: "'pt table \<Rightarrow> bool" where
  "solvent t \<longleftrightarrow> owed t \<le> t_chip_pool t"

lemmas account_defs = stacks_def pendings_def bets_def wagered_def held_def owed_def

lemma conserves_refl [simp]: "conserves t t" by (simp add: conserves_def)

lemma conserves_trans [trans]: "conserves t u \<Longrightarrow> conserves u v \<Longrightarrow> conserves t v"
  unfolding conserves_def by linarith

lemma no_gain_refl [simp]: "no_gain t t" by (simp add: no_gain_def)

lemma no_gain_trans [trans]: "no_gain t u \<Longrightarrow> no_gain u v \<Longrightarrow> no_gain t v"
  unfolding no_gain_def by linarith

lemma conserves_no_gain: "conserves t t' \<Longrightarrow> no_gain t t'"
  unfolding conserves_def no_gain_def by linarith

lemma no_gain_deposits: "no_gain t t' \<longleftrightarrow> deposits 0 t t'"
  by (simp add: no_gain_def deposits_def)

lemma deposits_no_gain [trans]: "deposits k t u \<Longrightarrow> no_gain u v \<Longrightarrow> deposits k t v"
  unfolding no_gain_def deposits_def by linarith

lemma deposits_solvent: "deposits k t t' \<Longrightarrow> solvent t \<Longrightarrow> solvent t'"
  unfolding deposits_def solvent_def by linarith

lemma no_gain_solvent: "no_gain t t' \<Longrightarrow> solvent t \<Longrightarrow> solvent t'"
  unfolding no_gain_def solvent_def by linarith

text \<open>Transitions that touch neither the seats nor the chips.\<close>

definition frame :: "'pt table \<Rightarrow> 'pt table \<Rightarrow> bool" where
  "frame t t' \<longleftrightarrow> t_seats t' = t_seats t \<and> t_pot t' = t_pot t \<and> t_chip_pool t' = t_chip_pool t"

lemma frame_refl [simp]: "frame t t" by (simp add: frame_def)

lemma frame_trans [trans]: "frame t u \<Longrightarrow> frame u v \<Longrightarrow> frame t v"
  by (simp add: frame_def)

lemma frame_accounts:
  assumes "frame t t'"
  shows "bets t' = bets t" "wagered t' = wagered t" "held t' = held t" "owed t' = owed t" "t_seats t' = t_seats t"
    "t_pot t' = t_pot t" "t_chip_pool t' = t_chip_pool t" "conserves t t'"
  using assms by (simp_all add: frame_def account_defs conserves_def)

lemma frame_books:
  assumes "frame t t'" "books t" "before_deal (t_hand_phase t') \<longrightarrow> before_deal (t_hand_phase t)"
    and "in_betting (t_hand_phase t') \<or> bets t = 0"
  shows "books t'"
  using assms by (auto simp: books_def frame_accounts)

section \<open>Loops over seats\<close>

lemma each_seat_list_all2:
  assumes "each_seat f i ss es = Inr (ss', es')"
    and "\<And>k s e s' e'. f k s e = Inr (s', e') \<Longrightarrow> R s s'"
  shows "list_all2 R ss ss'"
  using assms(1)
proof (induction ss arbitrary: i es ss' es')
  case Nil
  then show ?case by simp
next
  case (Cons s ss)
  then obtain s1 e1 ss1 e2 where "f i s es = Inr (s1, e1)" "each_seat f (Suc i) ss e1 = Inr (ss1, e2)" "ss' = s1 # ss1"
    by (auto simp: result_simps)
  with Cons.IH assms(2) show ?case by (metis list_all2_Cons)
qed

lemma each_seat_nth:
  assumes "each_seat f i ss es = Inr (ss', es')"
  shows "length ss' = length ss \<and> (\<forall>k<length ss. \<exists>e e'. f (i + k) (ss ! k) e = Inr (ss' ! k, e'))"
  using assms
proof (induction ss arbitrary: i es ss' es')
  case Nil
  then show ?case by simp
next
  case (Cons s ss)
  then obtain s1 e1 ss1 e2 where s: "f i s es = Inr (s1, e1)" "each_seat f (Suc i) ss e1 = Inr (ss1, e2)" "ss' = s1 # ss1"
    by (auto simp: result_simps)
  have "\<exists>e e'. f (i + k) ((s # ss) ! k) e = Inr ((s1 # ss1) ! k, e')" if "k < Suc (length ss)" for k
    using Cons.IH [OF s(2)] s(1) that by (cases k) auto
  then show ?case using Cons.IH [OF s(2)] s(3) by auto
qed

lemma list_all2_map_eq:
  "list_all2 R xs ys \<Longrightarrow> (\<And>x y. R x y \<Longrightarrow> g y = h x) \<Longrightarrow> map g ys = map h xs"
  by (induction rule: list_all2_induct) auto

lemma list_all2_sum_eq:
  "list_all2 R xs ys \<Longrightarrow> (\<And>x y. R x y \<Longrightarrow> g y = h x) \<Longrightarrow> sum_list (map g ys) = sum_list (map h xs)"
  using list_all2_map_eq [of R xs ys g h] by simp

lemma update_seat_Inr:
  "update_seat i f t = Inr t' \<longleftrightarrow>
     i < length (t_seats t) \<and> (\<exists>s'. f (t_seats t ! i) = Inr s' \<and> t' = t\<lparr>t_seats := (t_seats t)[i := s']\<rparr>)"
  by (auto simp: update_seat_def seat_at_def result_simps)

text \<open>Writing one seat moves each sum by the change of that seat.\<close>

lemma update_sums:
  assumes "i < length (t_seats t)" "t_seats t' = (t_seats t)[i := s']"
  shows "stacks t' + seat_stack (t_seats t ! i) = stacks t + seat_stack s'"
    "pendings t' + seat_pending_addon (t_seats t ! i) = pendings t + seat_pending_addon s'"
    "bets t' + seat_bet (t_seats t ! i) = bets t + seat_bet s'"
    "wagered t' + seat_total_bet (t_seats t ! i) = wagered t + seat_total_bet s'"
  using assms by (simp_all add: account_defs sum_list_map_update)

section \<open>Collecting bets and awarding a pot\<close>

lemma collect_effect:
  assumes "collect_bets_to_pot t es = Inr (t', es')"
  shows "t_pot t' = t_pot t + bets t" "bets t' = 0" "held t' = held t" "wagered t' = wagered t"
    "t_chip_pool t' = t_chip_pool t" "length (t_seats t') = length (t_seats t)" "conserves t t'"
    "t_hand_phase t' = t_hand_phase t" "t_rules t' = t_rules t"
    "list_all2 (\<lambda>s s'. contends s' = contends s \<and> seat_stack s' = seat_stack s) (t_seats t) (t_seats t')"
proof -
  define f where "f = (\<lambda>(_ :: nat) s (es :: events).
    rbind (if seat_bet s > 0 then set_bet 0 s else Inr s) (\<lambda>s'. Inr (s' :: 'a seat, es)))"
  from assms obtain ss es1 where t': "t' = t\<lparr>t_seats := ss, t_pot := t_pot t + bets t\<rparr>"
    and ss: "each_seat f 0 (t_seats t) es = Inr (ss, es1)"
    by (auto simp: collect_bets_to_pot_def f_def result_simps checked_sum_Inr bets_def Let_def)
  define R where "R = (\<lambda>(s :: 'a seat) (s' :: 'a seat). seat_bet s' = 0 \<and> seat_stack s' = seat_stack s \<and>
      seat_pending_addon s' = seat_pending_addon s \<and> seat_total_bet s' = seat_total_bet s \<and>
      contends s' = contends s)"
  have R: "list_all2 R (t_seats t) ss"
  proof (rule each_seat_list_all2 [OF ss])
    fix k s e s' e' assume "f k s e = Inr (s', e')"
    then show "R s s'"
      by (cases s) (auto simp: f_def R_def result_simps contends_def seat_is_folded_def split: if_splits)
  qed
  have m: "map seat_stack ss = map seat_stack (t_seats t)" "map seat_pending_addon ss = map seat_pending_addon (t_seats t)"
    "map seat_total_bet ss = map seat_total_bet (t_seats t)" "map seat_bet ss = map (\<lambda>_. 0) (t_seats t)"
    by (rule list_all2_map_eq [OF R]; simp add: R_def)+
  show "held t' = held t" "wagered t' = wagered t" and b: "bets t' = 0"
    by (simp_all add: t' account_defs m)
  show "t_pot t' = t_pot t + bets t" "t_chip_pool t' = t_chip_pool t" "length (t_seats t') = length (t_seats t)"
    "t_hand_phase t' = t_hand_phase t" "t_rules t' = t_rules t"
    using list_all2_lengthD [OF R] by (simp_all add: t')
  then show "conserves t t'" using b \<open>held t' = held t\<close> by (simp add: conserves_def owed_def)
  show "list_all2 (\<lambda>s s'. contends s' = contends s \<and> seat_stack s' = seat_stack s) (t_seats t) (t_seats t')"
    using R by (auto simp: t' R_def elim: list_all2_mono)
qed

section \<open>Reset\<close>

definition seat_held :: "'pt seat \<Rightarrow> nat" where
  "seat_held s = seat_stack s + seat_pending_addon s"

lemma left_hand_money: "seat_has_left_hand s \<Longrightarrow> seat_stack s = 0"
  by (cases s) auto

lemma seat_held_empty [simp]: "seat_held seat_empty = 0"
  by (simp add: seat_held_def)

lemma held_sum: "held t = sum_list (map seat_held (t_seats t))"
  by (simp add: account_defs seat_held_def [abs_def] sum_list_addf)

definition clear_seats :: "nat list \<Rightarrow> 'pt seat list \<Rightarrow> 'pt seat list" where
  "clear_seats is ss = foldl (\<lambda>ss i. ss[i := seat_empty]) ss is"

lemma clear_seats_simps [simp]:
  "clear_seats [] ss = ss" "clear_seats (i # is) ss = clear_seats is (ss[i := seat_empty])"
  by (simp_all add: clear_seats_def)

lemma clear_seats_nth:
  "length (clear_seats is ss) = length ss \<and>
   (\<forall>k<length ss. clear_seats is ss ! k = (if k \<in> set is then seat_empty else ss ! k))"
  by (induction "is" arbitrary: ss) (auto simp: nth_list_update)

lemma length_clear_seats [simp]: "length (clear_seats is ss) = length ss"
  by (simp add: clear_seats_nth)

lemma sum_clear_seats:
  assumes "distinct is" "set is \<subseteq> {..<length ss}" "g seat_empty = (0 :: nat)"
  shows "sum_list (map g (clear_seats is ss)) + sum_list (map (\<lambda>i. g (ss ! i)) is) = sum_list (map g ss)"
  using assms
proof (induction "is" arbitrary: ss)
  case Nil
  then show ?case by simp
next
  case (Cons i "is")
  let ?ss = "ss[i := seat_empty]"
  have "(\<Sum>k\<leftarrow>is. g (?ss ! k)) = (\<Sum>k\<leftarrow>is. g (ss ! k))"
    using Cons.prems by (intro arg_cong [where f = sum_list] map_cong) (auto simp: nth_list_update)
  moreover have "sum_list (map g ?ss) + g (ss ! i) = sum_list (map g ss)"
    using Cons.prems sum_list_map_update [of i ss g seat_empty] by simp
  moreover have "sum_list (map g (clear_seats is ?ss)) + sum_list (map (\<lambda>k. g (?ss ! k)) is) = sum_list (map g ?ss)"
    using Cons.prems by (intro Cons.IH) auto
  ultimately show ?case by simp
qed

lemma reset_preflight_result:
  assumes "try_fold (reset_preflight t) (0, [], 0) [0..<n] = Inr (a, leaving, refunds)"
  shows "leaving = filter (\<lambda>i. seat_is_occupied (t_seats t ! i) \<and> seat_wants_leave t i) [0..<n] \<and>
    refunds = sum_list (map (\<lambda>i. seat_held (t_seats t ! i)) leaving)"
  using assms
proof (induction n arbitrary: a leaving refunds)
  case 0
  then show ?case by simp
next
  case (Suc n)
  then obtain a1 l1 r1 where p: "try_fold (reset_preflight t) (0, [], 0) [0..<n] = Inr (a1, l1, r1)"
    and q: "reset_preflight t (a1, l1, r1) n = Inr (a, leaving, refunds)"
    by (auto simp: try_fold_append result_simps)
  show ?case using Suc.IH [OF p] q
    by (auto simp: reset_preflight_def Let_def result_simps seat_held_def split: if_splits)
qed

lemma vacate_seat_fields [simp]:
  "t_seats (vacate_seat i t) = (t_seats t)[i := seat_empty]" "t_pot (vacate_seat i t) = t_pot t"
  "t_chip_pool (vacate_seat i t) = t_chip_pool t" "t_hand_phase (vacate_seat i t) = t_hand_phase t"
  "t_rules (vacate_seat i t) = t_rules t" "t_id (vacate_seat i t) = t_id t"
  by (simp_all add: vacate_seat_def set_seat_wants_leave_def set_contributor_mask_def)

lemma reset_leave_effect:
  "reset_leave (t, es) i = Inr (t', es') \<Longrightarrow>
     t_seats t' = (t_seats t)[i := seat_empty] \<and> t_chip_pool t' = t_chip_pool t \<and> t_rules t' = t_rules t"
  by (auto simp: reset_leave_def Let_def result_simps update_seat_Inr split: if_splits)

lemma reset_leaves_effect:
  "try_fold reset_leave (t, es) is = Inr (t', es') \<Longrightarrow>
     t_seats t' = clear_seats is (t_seats t) \<and> t_chip_pool t' = t_chip_pool t \<and> t_rules t' = t_rules t"
proof (induction "is" arbitrary: t es)
  case Nil
  then show ?case by simp
next
  case (Cons i "is")
  then obtain t1 es1 where "reset_leave (t, es) i = Inr (t1, es1)" "try_fold reset_leave (t1, es1) is = Inr (t', es')"
    by (auto simp: result_simps)
  with Cons.IH reset_leave_effect show ?case by fastforce
qed

lemma reset_removes_effect:
  "foldl reset_remove (t, es) is = (t', es') \<Longrightarrow>
     t_seats t' = clear_seats is (t_seats t) \<and> t_chip_pool t' = t_chip_pool t \<and> t_rules t' = t_rules t"
proof (induction "is" arbitrary: t es)
  case Nil
  then show ?case by simp
next
  case (Cons i "is")
  obtain t1 es1 where r: "reset_remove (t, es) i = (t1, es1)" by fastforce
  then have "t_seats t1 = (t_seats t)[i := seat_empty]" "t_chip_pool t1 = t_chip_pool t" "t_rules t1 = t_rules t"
    by (auto simp: reset_remove_def)
  with Cons.IH [of t1 es1] Cons.prems r show ?case by simp
qed

lemma set_initial_deck_fields:
  assumes "set_initial_encrypted_deck C t = Inr t'"
  shows "t_seats t' = t_seats t" "t_pot t' = t_pot t" "t_chip_pool t' = t_chip_pool t"
    "t_hand_phase t' = t_hand_phase t" "t_rules t' = t_rules t" "t_button t' = t_button t"
  using assms by (auto simp: set_initial_encrypted_deck_def result_simps)

lemma reset_clear_fields [simp]:
  "t_seats (reset_clear t) = t_seats t" "t_pot (reset_clear t) = 0" "t_chip_pool (reset_clear t) = t_chip_pool t"
  "t_hand_phase (reset_clear t) = PhaseWaiting" "t_rules (reset_clear t) = t_rules t"
  by (simp_all add: reset_clear_def enter_waiting_def set_contributor_mask_def Let_def)

text \<open>What a seat looks like after the addon merge, the time bank and the end of the hand.\<close>

definition prepared :: "'pt seat \<Rightarrow> 'pt seat \<Rightarrow> bool" where
  "prepared s s' \<longleftrightarrow> seat_held s' = seat_held s \<and> seat_pending_addon s' = 0 \<and> seat_bet s' = 0 \<and>
     (seat_has_left_hand s' \<or> seat_total_bet s' = 0) \<and> seat_is_occupied s' = seat_is_occupied s"

lemma merge_addon_prepared:
  assumes "merge_addon tid k s es = Inr (s', es')"
  shows "prepared s (prepare_next_hand (refill_time_bank s'))"
proof -
  have "seat_held s' = seat_held s \<and> seat_pending_addon s' = 0 \<and> seat_is_occupied s' = seat_is_occupied s"
    using assms by (cases s) (auto simp: merge_addon_def Let_def result_simps seat_held_def split: if_splits)
  then show ?thesis
    by (cases s') (auto simp: prepared_def refill_time_bank_def seat_held_def)
qed

lemma reset_effect:
  assumes "reset_for_next_hand C t es = Inr (t', es')"
  shows "t_pot t' = 0" "bets t' = 0" "wagered t' = 0" "t_hand_phase t' = PhaseWaiting"
    "length (t_seats t') = length (t_seats t)" "t_chip_pool t' + held t = t_chip_pool t + held t'" "t_rules t' = t_rules t"
    "t_chip_pool t' \<le> t_chip_pool t"
proof -
  from assms obtain a leaving refunds ss es1 t2 es2 where
    pre: "try_fold (reset_preflight t) (0, [], 0) [0..<length (t_seats t)] = Inr (a, leaving, refunds)"
    and pool: "refunds \<le> t_chip_pool t"
    and merge: "each_seat (merge_addon (t_id t)) 0 (t_seats t) es = Inr (ss, es1)"
    and leave: "try_fold reset_leave (set_contributor_mask (mask_where (\<lambda>_ s. case seat_pk s of None \<Rightarrow> False
          | Some pk \<Rightarrow> \<not> g1_is_identity (cr_group C) pk) (map refill_time_bank ss))
          (t\<lparr>t_acted_mask := 0, t_seats := map prepare_next_hand (map refill_time_bank ss)\<rparr>), es1) leaving = Inr (t2, es2)"
    and deck0: "set_initial_encrypted_deck C (reset_clear (fst (foldl reset_remove (t2\<lparr>t_chip_pool := t_chip_pool t - refunds\<rparr>, es2)
        (seats_where (\<lambda>s. seat_has_left_hand s \<or> seat_is_occupied s \<and> seat_stack s = 0) (t_seats t2))))) = Inr t'"
    by (auto simp: reset_for_next_hand_def result_simps Let_def case_prod_beta)
  obtain t3 es3 where remove: "foldl reset_remove (t2\<lparr>t_chip_pool := t_chip_pool t - refunds\<rparr>, es2)
        (seats_where (\<lambda>s. seat_has_left_hand s \<or> seat_is_occupied s \<and> seat_stack s = 0) (t_seats t2)) = (t3, es3)"
    by fastforce
  have deck: "set_initial_encrypted_deck C (reset_clear t3) = Inr t'" using deck0 remove by simp
  define gone where "gone = seats_where (\<lambda>s. seat_has_left_hand s \<or> seat_is_occupied s \<and> seat_stack s = 0) (t_seats t2)"
  define ss2 where "ss2 = map prepare_next_hand (map refill_time_bank ss)"
  let ?n = "length (t_seats t)"
  note l = reset_preflight_result [OF pre]
  have "list_all2 (\<lambda>s s'. prepared s (prepare_next_hand (refill_time_bank s'))) (t_seats t) ss"
    by (rule each_seat_list_all2 [OF merge]) (rule merge_addon_prepared)
  then have prep: "list_all2 prepared (t_seats t) ss2"
    by (simp add: ss2_def list_all2_map2 o_def)
  have len: "length ss2 = ?n" using prep list_all2_lengthD by metis
  have s2: "t_seats t2 = clear_seats leaving ss2" and p2: "t_rules t2 = t_rules t"
    using reset_leaves_effect [OF leave] by (simp_all add: set_contributor_mask_def ss2_def)
  have s3: "t_seats t' = clear_seats gone (t_seats t2)" "t_chip_pool t' = t_chip_pool t - refunds" "t_rules t' = t_rules t"
    using reset_removes_effect [OF remove] set_initial_deck_fields [OF deck] p2 by (simp_all add: gone_def)
  have held_nth: "seat_held (ss2 ! i) = seat_held (t_seats t ! i)" if "i < ?n" for i
    using list_all2_nthD [OF prep that] by (simp add: prepared_def)
  have kept: "prepared (t_seats t ! i) (ss2 ! i)" if "i < ?n" for i using list_all2_nthD [OF prep that] .
  have leaving: "distinct leaving" "set leaving \<subseteq> {..<?n}" using l by auto
  have "sum_list (map seat_held (t_seats t2)) + sum_list (map (\<lambda>i. seat_held (ss2 ! i)) leaving) = sum_list (map seat_held ss2)"
    using leaving len by (simp add: s2 sum_clear_seats)
  moreover have "(\<Sum>i\<leftarrow>leaving. seat_held (ss2 ! i)) = refunds"
    unfolding conjunct2 [OF l] using leaving held_nth by (intro arg_cong [where f = sum_list] map_cong) auto
  moreover have "sum_list (map seat_held ss2) = held t"
    using list_all2_map_eq [OF prep, of seat_held seat_held] by (simp add: held_sum prepared_def)
  ultimately have h2: "sum_list (map seat_held (t_seats t2)) + refunds = held t" by simp
  have final: "seat_bet s = 0 \<and> seat_total_bet s = 0" if s: "s \<in> set (t_seats t')" for s
  proof -
    from s obtain i where i: "i < ?n" "s = t_seats t' ! i" by (auto simp: in_set_conv_nth s3 s2 len)
    then consider "s = seat_empty" | "i \<notin> set gone" "s = t_seats t2 ! i" "t_seats t2 ! i = ss2 ! i"
      using clear_seats_nth [of gone "t_seats t2"] clear_seats_nth [of leaving ss2] by (auto simp: s3 s2 len split: if_splits)
    then show ?thesis
    proof cases
      case 2
      then have "\<not> seat_has_left_hand s" using i by (auto simp: gone_def seats_where_def s2 len)
      with 2 kept [OF i(1)] show ?thesis by (auto simp: prepared_def)
    qed simp
  qed
  have "seat_held (t_seats t2 ! i) = 0" if "i \<in> set gone" for i
  proof -
    have "i < ?n" using that by (auto simp: gone_def seats_where_def s2 len)
    then have "t_seats t2 ! i = seat_empty \<or> t_seats t2 ! i = ss2 ! i \<and> seat_pending_addon (ss2 ! i) = 0"
      using clear_seats_nth [of leaving ss2] kept [of i] by (auto simp: s2 len prepared_def)
    with that show ?thesis by (auto simp: gone_def seats_where_def seat_held_def left_hand_money)
  qed
  then have zero: "(\<Sum>i\<leftarrow>gone. seat_held (t_seats t2 ! i)) = 0" by simp
  have gone: "distinct gone" "set gone \<subseteq> {..<length (t_seats t2)}" by (auto simp: gone_def seats_where_def)
  have "held t' = sum_list (map seat_held (t_seats t2))"
    using sum_clear_seats [of gone _ seat_held, OF gone seat_held_empty] zero by (simp add: held_sum s3)
  then show "t_chip_pool t' + held t = t_chip_pool t + held t'" using h2 s3(2) pool by simp
  show "bets t' = 0" "wagered t' = 0" using final by (auto simp: bets_def wagered_def)
  show "t_pot t' = 0" "t_hand_phase t' = PhaseWaiting" using set_initial_deck_fields [OF deck] by simp_all
  show "length (t_seats t') = ?n" "t_rules t' = t_rules t" "t_chip_pool t' \<le> t_chip_pool t" by (simp_all add: s3 s2 len)
qed

lemma reset_books:
  assumes "reset_for_next_hand C t es = Inr (t', es')" "length (t_seats t) = MAX_SEATS"
  shows "books t'" "no_gain t t'" "t_pot t + bets t = 0 \<Longrightarrow> conserves t t'"
  using reset_effect [OF assms(1)] assms(2) by (auto simp: books_def no_gain_def conserves_def owed_def)

section \<open>End of a hand\<close>

lemma position_None_count: "position contends ss = None \<longleftrightarrow> count_active_players ss = 0"
  by (simp add: position_None_iff count_active_players_def filter_empty_conv)

lemma count_active_all2:
  "list_all2 (\<lambda>s s'. contends s' = contends s \<and> P s s') ss ss' \<Longrightarrow> count_active_players ss' = count_active_players ss"
  unfolding count_active_players_def by (induction rule: list_all2_induct) auto

lemma award_effect:
  assumes "w < length (t_seats t)" "set_stack (seat_stack (t_seats t ! w) + t_pot t) (t_seats t ! w) = Inr s'"
    and t': "t' = t\<lparr>t_seats := (t_seats t)[w := s'], t_pot := 0\<rparr>"
  shows "owed t' = owed t" "bets t' = bets t" "t_chip_pool t' = t_chip_pool t" "length (t_seats t') = length (t_seats t)" "t_pot t' = 0"
proof -
  have "t_seats t' = (t_seats t)[w := s']" by (simp add: t')
  note u = update_sums [OF assms(1) this]
  have v: "seat_stack s' = seat_stack (t_seats t ! w) + t_pot t" "seat_bet s' = seat_bet (t_seats t ! w)"
    "seat_pending_addon s' = seat_pending_addon (t_seats t ! w)"
    using set_stack_views [OF assms(2)] by simp_all
  show "bets t' = bets t" using u(3) v by simp
  show "owed t' = owed t" using u v by (simp add: owed_def held_def t' split: if_splits)
qed (simp_all add: t')

lemma end_without_showdown_effect:
  assumes "end_without_showdown C t es = Inr (t', es')" "length (t_seats t) = MAX_SEATS"
  shows "books t'" "no_gain t t'" "0 < count_active_players (t_seats t) \<Longrightarrow> conserves t t'"
    "t_hand_phase t' = PhaseWaiting"
proof -
  from assms obtain t1 es1 where c: "collect_bets_to_pot t es = Inr (t1, es1)"
    by (auto simp: end_without_showdown_def result_simps)
  note ce = collect_effect [OF c]
  have len: "length (t_seats t1) = MAX_SEATS" using ce assms(2) by simp
  have "books t' \<and> no_gain t t' \<and> (0 < count_active_players (t_seats t) \<longrightarrow> conserves t t') \<and> t_hand_phase t' = PhaseWaiting"
  proof (cases "position contends (t_seats t1)")
    case None
    then have r: "reset_for_next_hand C t1 es1 = Inr (t', es')"
      using assms c by (simp add: end_without_showdown_def)
    have "count_active_players (t_seats t) = 0"
      using None count_active_all2 [OF ce(10)] by (simp add: position_None_count)
    moreover have "no_gain t t'"
      by (rule no_gain_trans [OF conserves_no_gain [OF ce(7)] reset_books(2) [OF r len]])
    ultimately show ?thesis using reset_books(1) [OF r len] reset_effect(4) [OF r] by simp
  next
    case (Some w)
    then have w: "w < length (t_seats t1)" by (auto simp: position_Some_iff)
    from assms c Some obtain s' es2 where s': "set_stack (seat_stack (t_seats t1 ! w) + t_pot t1) (t_seats t1 ! w) = Inr s'"
      and r: "reset_for_next_hand C (t1\<lparr>t_seats := (t_seats t1)[w := s'], t_pot := 0\<rparr>) es2 = Inr (t', es')"
      by (auto simp: end_without_showdown_def result_simps update_seat_Inr)
    define t2 where "t2 = t1\<lparr>t_seats := (t_seats t1)[w := s'], t_pot := 0\<rparr>"
    note a = award_effect [OF w s' t2_def] and r = r [folded t2_def]
    have l2: "length (t_seats t2) = MAX_SEATS" "t_pot t2 + bets t2 = 0" using a ce len by simp_all
    have "conserves t1 t2" using a by (simp add: conserves_def)
    then have "conserves t t'" using reset_books(3) [OF r l2] conserves_trans [OF ce(7)] conserves_trans by blast
    then show ?thesis using reset_books(1) [OF r l2(1)] reset_effect(4) [OF r] conserves_no_gain by blast
  qed
  then show "books t'" "no_gain t t'" "0 < count_active_players (t_seats t) \<Longrightarrow> conserves t t'"
    "t_hand_phase t' = PhaseWaiting" by simp_all
qed

section \<open>Refunds and settlement\<close>

lemma refund_all_effect:
  assumes "refund_all_bets t es = Inr (t', es')" "books t"
  shows "no_gain t t'" "t_pot t' = 0" "bets t' = 0" "wagered t' = 0" "length (t_seats t') = MAX_SEATS"
    "t_chip_pool t' = t_chip_pool t" "t_hand_phase t' = t_hand_phase t"
proof -
  from assms(1) obtain ss es1 where e: "each_seat (refund_seat (t_id t)) 0 (t_seats t) es = Inr (ss, es1)"
    and t': "t' = t\<lparr>t_seats := ss, t_pot := 0\<rparr>"
    by (auto simp: refund_all_bets_def result_simps)
  define R where "R = (\<lambda>(s :: 'a seat) (s' :: 'a seat). seat_bet s' = 0 \<and> seat_total_bet s' = 0 \<and>
      seat_pending_addon s' = seat_pending_addon s \<and> seat_stack s' \<le> seat_stack s + seat_total_bet s)"
  have R: "list_all2 R (t_seats t) ss"
  proof (rule each_seat_list_all2 [OF e])
    fix k x x' and s s' :: "'a seat" assume "refund_seat (t_id t) k s x = Inr (s', x')"
    then show "R s s'" by (cases s) (auto simp: refund_seat_def R_def result_simps Let_def split: if_splits)
  qed
  have m: "map seat_pending_addon ss = map seat_pending_addon (t_seats t)"
    "map seat_total_bet ss = map (\<lambda>_. 0) (t_seats t)" "map seat_bet ss = map (\<lambda>_. 0) (t_seats t)"
    by (rule list_all2_map_eq [OF R]; simp add: R_def)+
  have "sum_list (map seat_stack ss) \<le> sum_list (map (\<lambda>s. seat_stack s + seat_total_bet s) (t_seats t))"
    using R by (induction rule: list_all2_induct) (auto simp: R_def)
  then have "stacks t' \<le> stacks t + wagered t" by (simp add: t' stacks_def wagered_def sum_list_addf)
  moreover have "pendings t' = pendings t" by (simp add: t' pendings_def m)
  moreover show b: "bets t' = 0" "t_pot t' = 0" "wagered t' = 0" "t_chip_pool t' = t_chip_pool t"
    "t_hand_phase t' = t_hand_phase t" by (simp_all add: t' bets_def wagered_def m)
  ultimately show "no_gain t t'" using assms(2) by (simp add: no_gain_def owed_def held_def books_def)
  show "length (t_seats t') = MAX_SEATS" using assms(2) list_all2_lengthD [OF R] by (simp add: t' books_def)
qed

lemma refund_reset:
  assumes "refund_all_bets t es = Inr (t1, es1)" "reset_for_next_hand C t1 es1 = Inr (t', es')" "books t"
  shows "books t'" "no_gain t t'"
  using refund_all_effect [OF assms(1,3)] reset_books [OF assms(2)] no_gain_trans by blast+

lemma try_fold_collect:
  "try_fold (\<lambda>acc i. rbind (ok_or (checked_add (g i) (h i)) e) (\<lambda>v. Inr (acc @ [v]))) acc is = Inr r \<Longrightarrow>
     r = acc @ map (\<lambda>i. g i + h i) is"
proof (induction "is" arbitrary: acc)
  case (Cons i "is")
  then obtain v where "v = g i + h i"
    "try_fold (\<lambda>acc i. rbind (ok_or (checked_add (g i) (h i)) e) (\<lambda>v. Inr (acc @ [v]))) (acc @ [v]) is = Inr r"
    by (auto simp: result_simps)
  with Cons.IH show ?case by fastforce
qed simp

lemma apply_plan_effect:
  assumes "apply_settlement_plan C plan t es = Inr (t', es')" "plan_shaped plan" "length (sp_pots plan) = 9"
    and "length (t_seats t) = MAX_SEATS"
  shows "conserves t t'" "bets t' = bets t" "wagered t' = wagered t" "t_pot t' = 0" "length (t_seats t') = MAX_SEATS"
    "\<And>i. i < MAX_SEATS \<Longrightarrow> seat_stack (t_seats t' ! i) = seat_stack (t_seats t ! i) + sp_awards plan ! i"
    "t_chip_pool t' = t_chip_pool t - sp_rake plan"
proof -
  from assms(1) obtain post ss es1 where v: "plan_validate plan (max_players t) = Inr ()" "t_pot t = sp_gross_pot plan"
    and pool: "sp_rake plan \<le> t_chip_pool t"
    and post: "try_fold (\<lambda>acc i. rbind (ok_or (checked_add (seat_stack (t_seats t ! i)) (sp_awards plan ! i))
        (Serialization ''settlement: seat stack award overflow'')) (\<lambda>v. Inr (acc @ [v]))) [] [0..<length (t_seats t)] = Inr post"
    and ss: "each_seat (\<lambda>i s es. rbind (set_stack (post ! i) s) (\<lambda>s. Inr (s, es))) 0 (t_seats t) es = Inr (ss, es1)"
    and t': "t' = t\<lparr>t_chip_pool := t_chip_pool t - sp_rake plan, t_seats := ss, t_pot := 0\<rparr>"
    by (auto simp: apply_settlement_plan_def result_simps Let_def)
  note pv = plan_validate_Inr [OF v(1) assms(2,3)]
  have aw: "length (sp_awards plan) = 9" using assms(2) by (simp add: plan_shaped_def)
  have n: "length (t_seats t) = 9" "length ss = 9" using assms(4) each_seat_nth [OF ss] by (simp_all add: MAX_SEATS_def)
  have nth: "seat_stack (ss ! i) = seat_stack (t_seats t ! i) + sp_awards plan ! i \<and>
      seat_pending_addon (ss ! i) = seat_pending_addon (t_seats t ! i) \<and> seat_bet (ss ! i) = seat_bet (t_seats t ! i) \<and>
      seat_total_bet (ss ! i) = seat_total_bet (t_seats t ! i)" if "i < 9" for i
  proof -
    have "set_stack (post ! i) (t_seats t ! i) = Inr (ss ! i)" using each_seat_nth [OF ss] that n by (auto simp: result_simps)
    then show ?thesis using set_stack_views try_fold_collect [OF post] that n by fastforce
  qed
  have m: "map seat_stack ss = map2 (+) (map seat_stack (t_seats t)) (sp_awards plan)"
    "map seat_pending_addon ss = map seat_pending_addon (t_seats t)" "map seat_bet ss = map seat_bet (t_seats t)"
    "map seat_total_bet ss = map seat_total_bet (t_seats t)"
    using nth n aw by (auto intro: nth_equalityI)
  have "stacks t' = stacks t + sum_list (sp_awards plan)"
    using n aw by (simp add: t' stacks_def m sum_list_map2_add)
  moreover show "bets t' = bets t" "wagered t' = wagered t" "t_pot t' = 0" "length (t_seats t') = MAX_SEATS"
    "t_chip_pool t' = t_chip_pool t - sp_rake plan"
    using n by (simp_all add: t' bets_def wagered_def m MAX_SEATS_def)
  moreover have "pendings t' = pendings t" by (simp add: t' pendings_def m)
  ultimately show "conserves t t'" using pv(1,2) v(2) pool by (simp add: conserves_def owed_def held_def t')
  show "seat_stack (t_seats t' ! i) = seat_stack (t_seats t ! i) + sp_awards plan ! i" if "i < MAX_SEATS" for i
    using nth [of i] that by (simp add: t' MAX_SEATS_def)
qed

text \<open>The boards a settlement reads off the table.\<close>

definition settlement_boards_of :: "'pt table \<Rightarrow> settlement_boards" where
  "settlement_boards_of t = (case t_run_it_twice_state t of
      Twice start sfx \<Rightarrow> BoardsTwice start (as_slice (t_community_cards t))
        (take (rit_shared_board_len start) (as_slice (t_community_cards t)) @ as_slice sfx)
    | Single \<Rightarrow> BoardsSingle (as_slice (t_community_cards t)))"

lemma settle_hand_cases:
  assumes "settle_hand C t es = Inr (t', es')"
  obtains (skip) "t' = t"
  | (settled) plan t1 es1 where "derive_settlement_plan_for_boards t (settlement_boards_of t) = Inr plan"
      "apply_settlement_plan C plan t [] = Inr (t1, es1)" "\<exists>es2. reset_for_next_hand C t1 es1 = Inr (t', es2)"
      "round_state t = ROUND_SHOWDOWN" "reveal_token_state t = None"
proof (cases "round_state t \<noteq> ROUND_SHOWDOWN \<or> reveal_token_state t \<noteq> None")
  case True
  with assms skip show ?thesis by (auto simp: settle_hand_def split: if_splits)
next
  case False
  with assms settled show ?thesis
    by (auto simp: settle_hand_def settlement_boards_of_def result_simps full_second_board_def derive_settlement_plan_def
        split: run_it_twice_state.splits if_splits)
qed

lemma settle_hand_effect:
  assumes "settle_hand C t es = Inr (t', es')" "books t" "\<not> in_betting (t_hand_phase t)"
  shows "books t'" "conserves t t'"
proof -
  have "books t' \<and> conserves t t'"
    using assms(1)
  proof (cases rule: settle_hand_cases)
    case skip
    with assms show ?thesis by simp
  next
    case (settled plan t1 es1)
    note shaped = derived_pots_ok(1,2) [OF settled(1)]
    have len: "length (t_seats t) = MAX_SEATS" "bets t = 0" using assms by (simp_all add: books_def)
    note a = apply_plan_effect [OF settled(2) shaped(2,1) len(1)]
    obtain es2 where r: "reset_for_next_hand C t1 es1 = Inr (t', es2)" using settled(3) by blast
    have "t_pot t1 + bets t1 = 0" using a len by simp
    with reset_books [OF r a(5)] conserves_trans [OF a(1)] show ?thesis by blast
  qed
  then show "books t'" "conserves t t'" by simp_all
qed

section \<open>Phase changes\<close>

text \<open>Phases of the card protocol: neither between hands nor betting.\<close>

fun in_protocol :: "'pt hand_phase \<Rightarrow> bool" where
  "in_protocol PhaseWaiting = False"
| "in_protocol (PhaseBetting _ _ _ _) = False"
| "in_protocol _ = True"

definition enters_protocol :: "'pt table \<Rightarrow> 'pt table \<Rightarrow> bool" where
  "enters_protocol t t' \<longleftrightarrow> frame t t' \<and> in_protocol (t_hand_phase t') \<and>
     (before_deal (t_hand_phase t') \<longrightarrow> before_deal (t_hand_phase t))"

lemma in_protocol_facts: "in_protocol ph \<Longrightarrow> ph \<noteq> PhaseWaiting \<and> \<not> in_betting ph"
  by (cases ph) auto

lemma enters_protocol_effect:
  assumes "enters_protocol t t'" "books t" "bets t = 0"
  shows "books t'" "conserves t t'" "bets t' = 0"
  using assms frame_books [of t t'] in_protocol_facts frame_accounts [of t t'] by (auto simp: enters_protocol_def)

lemma frame_then_protocol:
  "frame t u \<Longrightarrow> t_hand_phase u = t_hand_phase t \<Longrightarrow> enters_protocol u v \<Longrightarrow> enters_protocol t v"
  by (auto simp: enters_protocol_def intro: frame_trans)

lemma protocol_trans [trans]: "enters_protocol t u \<Longrightarrow> enters_protocol u v \<Longrightarrow> enters_protocol t v"
  by (auto simp: enters_protocol_def intro: frame_trans)

lemma enter_phase_frames:
  "enter_revealing street st now t = Inr t' \<Longrightarrow> enters_protocol t t'"
  "enter_reconstruct_shuffling street sh st now t = Inr t' \<Longrightarrow> enters_protocol t t'"
  "enter_reconstructing street m st now t = Inr t' \<Longrightarrow> enters_protocol t t'"
  by (auto simp: enter_revealing_def enter_reconstruct_shuffling_def enter_reconstructing_def
      result_simps enters_protocol_def frame_def split: if_splits)

lemma enter_betting_frame:
  "enter_betting street r turn now t = Inr t' \<Longrightarrow> frame t t' \<and> in_betting (t_hand_phase t')"
  by (auto simp: enter_betting_def result_simps frame_def split: if_splits)

lemma set_betting_turn_frame:
  "set_betting_turn turn t = Inr t' \<Longrightarrow> frame t t' \<and> in_betting (t_hand_phase t) \<and> in_betting (t_hand_phase t')"
  by (auto simp: set_betting_turn_def frame_def split: if_splits hand_phase.splits)

lemma disarm_betting_frame:
  "disarm_betting_deadline t = Inr t' \<Longrightarrow> frame t t' \<and> in_betting (t_hand_phase t) \<and> in_betting (t_hand_phase t')"
  by (auto simp: disarm_betting_deadline_def frame_def split: hand_phase.splits)

lemma set_deadline_before_deal [simp]:
  "before_deal (PhaseShuffling (shuffling_set_deadline d ph)) = before_deal (PhaseShuffling ph)"
  "before_deal (PhaseShuffling (shuffling_state_mut f ph)) = before_deal (PhaseShuffling ph)"
  by (cases ph; simp)+

lemma disarm_shuffle_frame: "disarm_shuffle_deadline t = Inr t' \<Longrightarrow> enters_protocol t t'"
  by (auto simp: disarm_shuffle_deadline_def frame_def enters_protocol_def split: hand_phase.splits)

lemma take_reveal_frame: "take_reveal_payload t = Inr (t', st) \<Longrightarrow> frame t t'"
  by (auto simp: take_reveal_payload_def frame_def split: option.splits)

lemma set_deck_frame [simp]: "frame t (t\<lparr>t_deck_state := d\<rparr>)" "frame t (set_cards_dealt n t)"
  by (simp_all add: frame_def set_cards_dealt_def)

lemma set_cards_dealt_phase [simp]: "t_hand_phase (set_cards_dealt n t) = t_hand_phase t"
  by (simp add: set_cards_dealt_def)

lemma arm_active_frame:
  assumes "arm_active_deadline_if_needed now t = Inr (t', armed)"
  shows "frame t t'" "phase_tag (t_hand_phase t') = phase_tag (t_hand_phase t)"
proof -
  have eq: "phase_tag (t_hand_phase t') = phase_tag (t_hand_phase t)" "t' = t\<lparr>t_hand_phase := t_hand_phase t'\<rparr>"
    using arm_active_cases [OF assms] by (cases armed; auto)+
  then show "phase_tag (t_hand_phase t') = phase_tag (t_hand_phase t)" by simp
  show "frame t t'"
    using arg_cong [OF eq(2), of t_seats] arg_cong [OF eq(2), of t_pot] arg_cong [OF eq(2), of t_chip_pool]
    by (simp add: frame_def)
qed

lemma in_betting_tag: "in_betting ph \<longleftrightarrow> phase_tag ph = TagBetting"
  by (cases ph) simp_all

lemma arm_active_before_deal:
  "arm_active_deadline_if_needed now t = Inr (t', armed) \<Longrightarrow> before_deal (t_hand_phase t') = before_deal (t_hand_phase t)"
  by (auto simp: arm_active_deadline_if_needed_def arm_shuffle_deadline_def arm_reveal_deadline_def
      arm_reconstruct_deadline_def arm_betting_deadline_def arm_showdown_deadline_def result_simps Let_def
      split: hand_phase.splits if_splits)

lemma arm_active_effect:
  assumes "arm_active_deadline_if_needed now t = Inr (t', armed)" "books t"
  shows "books t'" "conserves t t'"
  using arm_active_frame [OF assms(1)] arm_active_before_deal [OF assms(1)] assms(2) frame_accounts [of t t']
  by (auto simp: books_def in_betting_tag)

lemma start_reveal_frames:
  "start_preflop_reveal_phase t es = Inr (t', es') \<Longrightarrow> enters_protocol t t'"
  "start_community_reveal_phase n street t es = Inr (t', es') \<Longrightarrow> enters_protocol t t'"
  "start_showdown_reveal_phase t es = Inr (t', es') \<Longrightarrow> enters_protocol t t'"
  by (auto simp: start_preflop_reveal_phase_def start_community_reveal_phase_def start_showdown_reveal_phase_def
      result_simps Let_def case_prod_beta split: if_splits
      dest!: enter_phase_frames(1) intro: frame_then_protocol [OF set_deck_frame(2) set_cards_dealt_phase])

lemma trigger_rit_frame:
  "maybe_trigger_run_it_twice t es = Inr (t', es') \<Longrightarrow> frame t t' \<and> t_hand_phase t' = t_hand_phase t"
  by (auto simp: maybe_trigger_run_it_twice_def trigger_run_it_twice_def Let_def result_simps frame_def split: if_splits)

lemma set_current_turn_frame:
  "set_current_turn turn t es = Inr (t', es') \<Longrightarrow> frame t t' \<and> in_betting (t_hand_phase t) \<and> in_betting (t_hand_phase t')"
  using set_betting_turn_frame by (fastforce simp: set_current_turn_def Let_def result_simps split: if_splits)

section \<open>Rounds\<close>

lemma frame_same_phase_books:
  "frame t t' \<Longrightarrow> t_hand_phase t' = t_hand_phase t \<Longrightarrow> books t \<Longrightarrow> books t'"
  by (auto simp: books_def frame_accounts)

lemma advance_round_effect:
  assumes "advance_round C t es = Inr (t', es')" "books t" "bets t = 0"
  shows "books t'" "no_gain t t'" "0 < count_active_players (t_seats t) \<Longrightarrow> conserves t t'"
proof -
  have "books t' \<and> no_gain t t' \<and> (0 < count_active_players (t_seats t) \<longrightarrow> conserves t t')"
  proof (cases "count_active_players (t_seats t) \<le> 1")
    case True
    with assms have "end_without_showdown C t es = Inr (t', es')" by (simp add: advance_round_def)
    with end_without_showdown_effect [OF this] assms(2) show ?thesis by (simp add: books_def)
  next
    case False
    with assms(1) obtain t1 es1 where t1: "maybe_trigger_run_it_twice t es = Inr (t1, es1)"
      and step: "enters_protocol t1 t' \<or> t' = t1"
      by (auto simp: advance_round_def result_simps Let_def split: if_splits dest: start_reveal_frames)
    note f = trigger_rit_frame [OF t1]
    have "books t1" "bets t1 = 0" using f frame_same_phase_books [of t t1] frame_accounts(1) [of t t1] assms by auto
    then have "books t' \<and> conserves t1 t'" using step enters_protocol_effect by auto
    then have "books t'" "conserves t t'" using f conserves_trans frame_accounts(8) by blast+
    then show ?thesis using conserves_no_gain by blast
  qed
  then show "books t'" "no_gain t t'" "0 < count_active_players (t_seats t) \<Longrightarrow> conserves t t'" by simp_all
qed

lemma collect_advance_effect:
  assumes "collect_bets_to_pot t es = Inr (t1, es1)" "advance_round C t1 es1 = Inr (t', es')" "books t"
  shows "books t'" "no_gain t t'" "0 < count_active_players (t_seats t) \<Longrightarrow> conserves t t'"
proof -
  note c = collect_effect [OF assms(1)]
  have b: "books t1" "bets t1 = 0" using c assms(3) by (auto simp: books_def dest: before_deal_not_betting)
  note a = advance_round_effect [OF assms(2) b]
  show "books t'" by (rule a(1))
  show "no_gain t t'" using no_gain_trans [OF conserves_no_gain [OF c(7)] a(2)] .
  show "conserves t t'" if "0 < count_active_players (t_seats t)"
    using conserves_trans [OF c(7) a(3)] that count_active_all2 [OF c(10)] by simp
qed

section \<open>Blinds and antes\<close>

text \<open>Moving chips from a stack into the wagers of the same seat.\<close>

definition ledger :: "'pt table \<Rightarrow> bool" where
  "ledger t \<longleftrightarrow> length (t_seats t) = MAX_SEATS \<and> t_pot t + bets t = wagered t"

lemma books_ledger: "books t \<Longrightarrow> ledger t"
  by (simp add: books_def ledger_def)

lemma ledger_books: "ledger t \<Longrightarrow> in_betting (t_hand_phase t) \<Longrightarrow> books t"
  by (auto simp: books_def ledger_def dest: before_deal_not_betting)

lemma wager_effect:
  assumes "i < length (t_seats t)" "t_seats t' = (t_seats t)[i := s']" "t_pot t' = t_pot t + dead" "t_chip_pool t' = t_chip_pool t"
    and "seat_stack s' + a = seat_stack (t_seats t ! i)" "seat_pending_addon s' = seat_pending_addon (t_seats t ! i)"
    and "seat_bet s' + dead = seat_bet (t_seats t ! i) + a" "seat_total_bet s' = seat_total_bet (t_seats t ! i) + a"
  shows "conserves t t'" "ledger t \<Longrightarrow> ledger t'"
  using update_sums [OF assms(1,2)] assms
  by (simp_all add: conserves_def owed_def held_def ledger_def)

lemma post_blind_views:
  assumes "post_blind m1 m2 amt s = Inr s'"
  shows "seat_stack s' + amt = seat_stack s" "seat_bet s' = amt" "seat_total_bet s' = seat_total_bet s + amt"
    "seat_pending_addon s' = seat_pending_addon s"
  using assms by (cases s; auto simp: post_blind_def result_simps split: if_splits)+

lemma post_blind_seat:
  assumes "update_seat i (post_blind m1 m2 amt) t = Inr t'" "seat_bet (t_seats t ! i) = 0"
  shows "conserves t t'" "ledger t \<Longrightarrow> ledger t'" "t_hand_phase t' = t_hand_phase t" "t_rules t' = t_rules t"
    "\<And>k. k \<noteq> i \<Longrightarrow> t_seats t' ! k = t_seats t ! k"
proof -
  from assms(1) obtain s' where s': "i < length (t_seats t)" "post_blind m1 m2 amt (t_seats t ! i) = Inr s'"
    "t' = t\<lparr>t_seats := (t_seats t)[i := s']\<rparr>" by (auto simp: update_seat_Inr)
  note v = post_blind_views [OF s'(2)]
  show "conserves t t'" "ledger t \<Longrightarrow> ledger t'"
    using wager_effect [of i t t' s' 0 amt] s' v assms(2) by simp_all
  show "t_hand_phase t' = t_hand_phase t" "t_rules t' = t_rules t" "\<And>k. k \<noteq> i \<Longrightarrow> t_seats t' ! k = t_seats t ! k"
    using s' by simp_all
qed

lemma set_clockwise: "set (clockwise from n) = {..<n}"
  unfolding clockwise_def by (rule seat_circle)

lemma clockwise_last:
  assumes "b < n"
  obtains xs where "clockwise b n = xs @ [b]" "set xs = {..<n} - {b}"
proof -
  have "[1..<n + 1] = [1..<n] @ [n]" "(b + n) mod n = b" using assms by simp_all
  then have e: "clockwise b n = map (\<lambda>k. (b + k) mod n) [1..<n] @ [b]"
    unfolding clockwise_def by simp
  have "distinct (clockwise b n)" unfolding clockwise_def by (rule seat_circle)
  then have "b \<notin> set (map (\<lambda>k. (b + k) mod n) [1..<n])" unfolding e by (simp only: distinct_append) simp
  moreover have "insert b (set (map (\<lambda>k. (b + k) mod n) [1..<n])) = {..<n}"
    using set_clockwise [of b n] unfolding e by simp
  ultimately have "set (map (\<lambda>k. (b + k) mod n) [1..<n]) = {..<n} - {b}" by blast
  with e that show ?thesis by blast
qed

lemma find_append: "List.find P (xs @ ys) = (case List.find P xs of None \<Rightarrow> List.find P ys | Some x \<Rightarrow> Some x)"
  by (induction xs) auto

lemma blind_seats_distinct:
  assumes "blind_seats t = Inr (sb, bb)" "padding_seats_are_vacant t"
  shows "sb \<noteq> bb \<or> sb = NO_SEAT"
proof (cases "count_active_occupied (t_seats t) = 2")
  case False
  with assms(1) show ?thesis
    by (auto simp: blind_seats_def Let_def result_simps split: if_splits)
next
  case True
  let ?n = "max_players t" and ?ss = "t_seats t"
  define base where "base = (if t_last_bb_seat t \<noteq> NO_SEAT then t_last_bb_seat t else t_button t)"
  define P where "P = (\<lambda>i. participates (?ss ! i))"
  have two: "length (filter participates ?ss) = 2" using True by (simp add: count_active_occupied_def)
  have pad: "\<not> participates (?ss ! i)" if "?n \<le> i" "i < length ?ss" for i
  proof -
    have "?ss ! i \<in> set (drop ?n ?ss)" using that nth_mem [of "i - ?n" "drop ?n ?ss"] by simp
    then have "seat_is_vacant (?ss ! i)" using assms(2) by (auto simp: padding_seats_are_vacant_def list_all_iff)
    then show ?thesis by (cases "?ss ! i") (auto simp: participates_def)
  qed
  have card2: "card {i. i < length ?ss \<and> P i} = 2" using two by (simp add: length_filter_conv_card P_def)
  then have ex: "\<exists>i j. i < ?n \<and> j < ?n \<and> i \<noteq> j \<and> P i \<and> P j"
  proof -
    from card2 obtain i j where "{i. i < length ?ss \<and> P i} = {i, j}" "i \<noteq> j" by (auto simp: card_2_iff)
    then have "i < length ?ss" "j < length ?ss" "P i" "P j" by auto
    with pad \<open>i \<noteq> j\<close> show ?thesis unfolding P_def by (meson leI)
  qed
  then obtain b where b: "List.find P (clockwise base ?n) = Some b"
    by (cases "List.find P (clockwise base ?n)") (auto simp: find_None_iff set_clockwise)
  then have bn: "b < ?n" using set_clockwise [of base ?n] by (metis find_Some_iff lessThan_iff nth_mem)
  from clockwise_last [OF bn] obtain xs where xs: "clockwise b ?n = xs @ [b]" "set xs = {..<?n} - {b}" .
  have "\<exists>k \<in> set xs. P k" using ex xs(2) by auto
  then obtain c where c: "List.find P xs = Some c" by (cases "List.find P xs") (auto simp: find_None_iff)
  then have "c \<noteq> b" using xs(2) by (auto simp: find_Some_iff dest!: nth_mem)
  moreover have "List.find P (clockwise b ?n) = Some c" by (simp add: xs find_append c)
  ultimately show ?thesis using assms(1) b True
    by (auto simp: blind_seats_def Let_def find_next_participating_seat_def P_def base_def split: if_splits)
qed

lemma bet_zero: "bets t = 0 \<Longrightarrow> i < length (t_seats t) \<Longrightarrow> seat_bet (t_seats t ! i) = 0"
  using nth_le_sum_list [of i "t_seats t" seat_bet] by (simp add: bets_def)

lemma post_blinds_effect:
  assumes "post_blinds t es = Inr (t', es', sb, bb, x)" "bets t = 0" "ledger t" "padding_seats_are_vacant t"
  shows "conserves t t'" "ledger t'" "t_hand_phase t' = t_hand_phase t" "t_rules t' = t_rules t"
proof -
  define t0 where "t0 = t\<lparr>t_last_bb_seat := bb\<rparr>"
  from assms(1) obtain t1 m1 m2 m3 m4 a1 a2 where seats: "blind_seats t = Inr (sb, bb)"
    and t1: "sb = NO_SEAT \<and> t1 = t0 \<or> sb \<noteq> NO_SEAT \<and> update_seat sb (post_blind m1 m2 a1) t0 = Inr t1"
    and bb: "update_seat bb (post_blind m3 m4 a2) t1 = Inr t'"
    by (auto simp: post_blinds_def result_simps Let_def t0_def split: if_splits)
  have t0: "conserves t t0" "ledger t0" "t_seats t0 = t_seats t" "t_hand_phase t0 = t_hand_phase t" "bets t0 = 0" "t_rules t0 = t_rules t"
    using assms(2,3) by (simp_all add: t0_def conserves_def account_defs ledger_def)
  have ne: "sb \<noteq> bb \<or> sb = NO_SEAT" by (rule blind_seats_distinct [OF seats assms(4)])
  have 1: "conserves t t1 \<and> ledger t1 \<and> t_hand_phase t1 = t_hand_phase t \<and> seat_bet (t_seats t1 ! bb) = seat_bet (t_seats t0 ! bb) \<and> t_rules t1 = t_rules t"
  proof (cases "t1 = t0")
    case True
    with t0 show ?thesis by simp
  next
    case False
    with t1 have u: "update_seat sb (post_blind m1 m2 a1) t0 = Inr t1" "sb \<noteq> NO_SEAT" by simp_all
    then have "seat_bet (t_seats t0 ! sb) = 0" using bet_zero [OF t0(5)] by (simp add: update_seat_Inr)
    note p = post_blind_seat [OF u(1) this]
    show ?thesis using conserves_trans [OF t0(1) p(1)] p t0 ne u(2) by simp
  qed
  have "bb < length (t_seats t0)" using bb t1 by (auto simp: update_seat_Inr)
  then have "seat_bet (t_seats t1 ! bb) = 0" using 1 bet_zero [OF t0(5)] by simp
  note p = post_blind_seat [OF bb this]
  show "conserves t t'" "ledger t'" "t_hand_phase t' = t_hand_phase t" "t_rules t' = t_rules t"
    using conserves_trans [OF _ p(1)] 1 p by auto
qed

lemma post_ante_views:
  assumes "post_ante a s = Inr s'" "a \<le> seat_stack s"
  shows "seat_stack s' + a = seat_stack s \<and> seat_total_bet s' = seat_total_bet s + a \<and> seat_bet s' = seat_bet s \<and>
    seat_pending_addon s' = seat_pending_addon s"
  using assms by (cases s) (auto simp: post_ante_def Let_def)

lemma antes_effect:
  assumes "try_fold (\<lambda>(t, es) (i, a). rbind (update_seat i (post_ante a) t) (\<lambda>t.
        Inr (t, emit_event (AntePosted (t_id t) i a mode) es))) (t, es) antes = Inr (t', es')"
    and "distinct (map fst antes)" "\<And>i a. (i, a) \<in> set antes \<Longrightarrow> a \<le> seat_stack (t_seats t ! i)"
  shows "stacks t' + sum_list (map snd antes) = stacks t \<and> wagered t' = wagered t + sum_list (map snd antes) \<and>
    bets t' = bets t \<and> pendings t' = pendings t \<and> t_pot t' = t_pot t \<and> t_chip_pool t' = t_chip_pool t \<and>
    length (t_seats t') = length (t_seats t) \<and> t_hand_phase t' = t_hand_phase t"
  using assms
proof (induction antes arbitrary: t es)
  case Nil
  then show ?case by simp
next
  case (Cons x antes)
  obtain i a where x: "x = (i, a)" by fastforce
  from Cons.prems(1) obtain s' es1 where i: "i < length (t_seats t)" and s': "post_ante a (t_seats t ! i) = Inr s'"
    and rest: "try_fold (\<lambda>(t, es) (i, a). rbind (update_seat i (post_ante a) t) (\<lambda>t.
        Inr (t, emit_event (AntePosted (t_id t) i a mode) es))) (t\<lparr>t_seats := (t_seats t)[i := s']\<rparr>, es1) antes = Inr (t', es')"
    by (auto simp: x result_simps update_seat_Inr)
  let ?t = "t\<lparr>t_seats := (t_seats t)[i := s']\<rparr>"
  have v: "seat_stack s' + a = seat_stack (t_seats t ! i)" "seat_total_bet s' = seat_total_bet (t_seats t ! i) + a"
    "seat_bet s' = seat_bet (t_seats t ! i)" "seat_pending_addon s' = seat_pending_addon (t_seats t ! i)"
    using post_ante_views [OF s'] Cons.prems(3) x by auto
  have others: "b \<le> seat_stack (t_seats ?t ! k)" if "(k, b) \<in> set antes" for k b
  proof -
    have "k \<noteq> i" using that Cons.prems(2) x by force
    then show ?thesis using Cons.prems(3) [of k b] that by simp
  qed
  have "distinct (map fst antes)" using Cons.prems(2) by simp
  note IH = Cons.IH [OF rest this others]
  have u: "stacks ?t + a = stacks t" "wagered ?t = wagered t + a" "bets ?t = bets t" "pendings ?t = pendings t"
    using update_sums [OF i, of ?t s'] v by simp_all
  show ?case using IH u by (simp add: x)
qed

lemma collect_ante_effect:
  assumes "collect_ante bb t es = Inr (t', es')" "ledger t"
  shows "conserves t t'" "ledger t'" "t_hand_phase t' = t_hand_phase t"
proof -
  have "conserves t t' \<and> ledger t' \<and> t_hand_phase t' = t_hand_phase t"
  proof (cases "t' = t")
    case True
    with assms show ?thesis by simp
  next
    case False
    define targets where "targets = (if r_ante_mode (t_rules t) = ANTE_MODE_BBA then [bb] else get_active_seat_indices (t_seats t))"
    define antes where "antes = map (\<lambda>i. (i, min (r_ante_amount (t_rules t)) (seat_stack (t_seats t ! i)))) targets"
    let ?t = "t\<lparr>t_pot := t_pot t + sum_list (map snd antes)\<rparr>"
    from assms(1) False have fold: "try_fold (\<lambda>(t, es) (i, a). rbind (update_seat i (post_ante a) t) (\<lambda>t'.
        Inr (t', emit_event (AntePosted (t_id t') i a (r_ante_mode (t_rules (?t)))) es))) (?t, es) antes = Inr (t', es')"
      by (auto simp: collect_ante_def Let_def result_simps checked_sum_Inr antes_def targets_def split: if_splits)
    have "map fst antes = targets" by (simp add: antes_def o_def)
    moreover have "distinct targets" by (simp add: targets_def get_active_seat_indices_def seats_where_def)
    ultimately have d: "distinct (map fst antes)" by simp
    have "a \<le> seat_stack (t_seats ?t ! i)" if "(i, a) \<in> set antes" for i a using that by (auto simp: antes_def)
    note e = antes_effect [OF fold d this]
    have "stacks ?t = stacks t" "pendings ?t = pendings t" "bets ?t = bets t" "wagered ?t = wagered t"
      by (simp_all add: account_defs)
    with e assms(2) show ?thesis by (simp add: conserves_def ledger_def owed_def held_def)
  qed
  then show "conserves t t'" "ledger t'" "t_hand_phase t' = t_hand_phase t" by simp_all
qed

section \<open>Betting rounds\<close>

lemma open_round_same:
  assumes "open_round pre t = Inr (t1, r)" "\<not> pre \<Longrightarrow> bets t = 0"
  shows "t1 = t"
proof (cases pre)
  case True
  with assms show ?thesis by (auto simp: open_round_def result_simps Let_def)
next
  case False
  have "(case playing_mut (\<lambda>p. p\<lparr>pl_bet := 0\<rparr>) s of Inr s' \<Rightarrow> s' | Inl _ \<Rightarrow> s) = s" if "s \<in> set (t_seats t)" for s
  proof -
    have "seat_bet s = 0" using that assms(2) [OF False] by (simp add: bets_def)
    then show ?thesis by (cases s) auto
  qed
  then have "map (\<lambda>s. case playing_mut (\<lambda>p. p\<lparr>pl_bet := 0\<rparr>) s of Inr s' \<Rightarrow> s' | Inl _ \<Rightarrow> s) (t_seats t) = t_seats t"
    by (simp add: map_idI)
  with assms False show ?thesis by (auto simp: open_round_def result_simps Let_def)
qed

lemma start_betting_round_effect:
  assumes "start_betting_round C pre bb t es = Inr (t', es')" "ledger t" "\<not> pre \<Longrightarrow> bets t = 0"
  shows "books t'" "conserves t t'"
proof -
  from assms(1) obtain t0 r t1 start t2 es2 where open0: "open_round pre t = Inr (t0, r)"
    and e: "enter_betting (round_state t0) r NO_SEAT 0 t0 = Inr t1"
    and turn: "set_current_turn start (t1\<lparr>t_acted_mask := mask_where (\<lambda>_ s. seat_is_all_in s \<or> seat_is_folded s) (t_seats t1)\<rparr>) es = Inr (t2, es2)"
    and final: "(if no_further_betting_possible t2 then
         rbind (set_current_turn None t2 es2) (\<lambda>(t, es). rbind (collect_bets_to_pot t es) (\<lambda>(t, es). advance_round C t es))
       else Inr (t2, emit_event (BettingRoundStarted (t_id t2) (round_state t2)
            (case table_betting_round t2 of None \<Rightarrow> 0 | Some b \<Rightarrow> current_bet b)
            (r_big_blind (t_rules t2)) (case start of None \<Rightarrow> 0 | Some i \<Rightarrow> i) (t_pot t2)) es2)) = Inr (t', es')"
    by (auto simp: start_betting_round_def result_simps Let_def)
  have t0: "t0 = t" by (rule open_round_same [OF open0 assms(3)])
  have "frame t t2" "in_betting (t_hand_phase t2)"
    using enter_betting_frame [OF e] set_current_turn_frame [OF turn] by (auto simp: t0 frame_def)
  moreover then have b: "books t2" using assms(2) by (auto simp: books_def ledger_def frame_accounts dest: before_deal_not_betting)
  moreover have "books t' \<and> conserves t2 t'"
  proof (cases "no_further_betting_possible t2")
    case False
    with final b show ?thesis by simp
  next
    case True
    with final obtain t3 es3 t4 es4 where s: "set_current_turn None t2 es2 = Inr (t3, es3)"
      "collect_bets_to_pot t3 es3 = Inr (t4, es4)" "advance_round C t4 es4 = Inr (t', es')"
      by (auto simp: result_simps)
    note f = set_current_turn_frame [OF s(1)]
    have b3: "books t3" using f b by (auto simp: books_def frame_accounts dest: before_deal_not_betting)
    have "0 < count_active_players (t_seats t3)"
      using True f by (auto simp: no_further_betting_possible_def frame_def split: if_splits)
    with collect_advance_effect [OF s(2,3) b3] f show ?thesis using conserves_trans frame_accounts(8) by blast
  qed
  ultimately show "books t'" "conserves t t'" using conserves_trans frame_accounts(8) by blast+
qed

lemma reveal_in_protocol: "reveal_token_state t = Some st \<Longrightarrow> in_protocol (t_hand_phase t)"
  by (auto simp: reveal_token_state_def split: hand_phase.splits shuffling_phase.splits)

lemma check_reveal_effect:
  assumes "check_reveal_phase_complete C t es = Inr (t', es')" "books t" "padding_seats_are_vacant t"
  shows "books t'" "conserves t t'"
proof -
  from assms(1) obtain st where st: "reveal_token_state t = Some st"
    by (auto simp: check_reveal_phase_complete_def result_simps)
  have z: "bets t = 0" "ledger t"
    using reveal_in_protocol [OF st] in_protocol_facts assms(2) by (auto simp: books_def ledger_def)
  have "books t' \<and> conserves t t'"
  proof (cases "rt_assignments st = []")
    case False
    with assms st show ?thesis by (simp add: check_reveal_phase_complete_def)
  next
    case True
    let ?es = "emit_event (RevealPhaseComplete (t_id t) (reveal_phase t)) es"
    show ?thesis
    proof (cases "rt_purpose st")
      case DealHole
      with True assms(1) st obtain t1 es1 sb bb x t2 es2 where p: "post_blinds t ?es = Inr (t1, es1, sb, bb, x)"
        "collect_ante bb t1 es1 = Inr (t2, es2)" "start_betting_round C True (Some bb) t2 es2 = Inr (t', es')"
        by (auto simp: check_reveal_phase_complete_def result_simps Let_def)
      note b = post_blinds_effect [OF p(1) z assms(3)]
      note a = collect_ante_effect [OF p(2) b(2)]
      note s = start_betting_round_effect [OF p(3) a(2)]
      show ?thesis using s conserves_trans [OF b(1) conserves_trans [OF a(1)]] by simp
    next
      case RevealBoard
      with True assms(1) st have "start_betting_round C False None t ?es = Inr (t', es')"
        by (simp add: check_reveal_phase_complete_def Let_def)
      from start_betting_round_effect [OF this z(2)] z show ?thesis by simp
    next
      case ShowdownOwner
      with True assms(1) st have "t' = enter_showdown_display 0 t"
        by (simp add: check_reveal_phase_complete_def Let_def)
      then have "enters_protocol t t'" by (simp add: enter_showdown_display_def enters_protocol_def frame_def)
      with enters_protocol_effect [OF this assms(2) z(1)] show ?thesis by simp
    qed
  qed
  then show "books t'" "conserves t t'" by simp_all
qed

lemma advance_turn_effect:
  assumes "advance_turn C t es = Inr (t', es')" "books t"
  shows "books t'" "no_gain t t'" "0 < count_active_players (t_seats t) \<Longrightarrow> conserves t t'"
proof -
  have "books t' \<and> no_gain t t' \<and> (0 < count_active_players (t_seats t) \<longrightarrow> conserves t t')"
  proof (cases "is_betting_complete t")
    case False
    with assms(1) obtain turn where "set_current_turn turn t es = Inr (t', es')" by (auto simp: advance_turn_def Let_def)
    from set_current_turn_frame [OF this] show ?thesis
      using assms(2) conserves_no_gain [OF frame_accounts(8), of t t']
      by (auto simp: books_def frame_accounts dest: before_deal_not_betting)
  next
    case True
    with assms(1) obtain t1 es1 t2 es2 where s: "set_current_turn None t es = Inr (t1, es1)"
      "collect_bets_to_pot t1 es1 = Inr (t2, es2)" "advance_round C t2 es2 = Inr (t', es')"
      by (auto simp: advance_turn_def result_simps)
    note f = set_current_turn_frame [OF s(1)]
    have b1: "books t1" using f assms(2) by (auto simp: books_def frame_accounts dest: before_deal_not_betting)
    note ca = collect_advance_effect [OF s(2,3) b1]
    have "t_seats t1 = t_seats t" "conserves t t1" using f by (simp_all add: frame_accounts)
    with ca show ?thesis using no_gain_trans [OF conserves_no_gain] conserves_trans by metis
  qed
  then show "books t'" "no_gain t t'" "0 < count_active_players (t_seats t) \<Longrightarrow> conserves t t'" by simp_all
qed

end
