(* ===== verification/Poker_Dispatch.thy ===== *)
theory Poker_Dispatch
  imports Poker_Commands
begin

text \<open>
  The dispatcher (\<^verbatim>\<open>poker_l1/.../runtime/dispatch.rs\<close>): command tags, authentication of the
  caller, one wrapper per command, and the transaction around them: run the command, restore
  the table when it fails, normalise, arm the deadline, and advance the sequence numbers.

  A call arrives decoded: Borsh decoding of the arguments, the 32-byte selectors (hashes of
  the method names) and the serialisation of the return value are not modelled.
\<close>

section \<open>Command tags\<close>

datatype canonical_command =
    CreateTable | JoinTable | LeaveTable | StartHand | AdvanceDeadline | CFold | CCheck | CCall | CRaise | ForceFold
  | KickPlayer | Addon | Rebuy | SubmitShuffleV2 | SubmitPlayerRevealTokens | SubmitReconstructDeck | CBet
  | SetLeaveAfterHand | FoldWithProof

fun command_to_u8 :: "canonical_command \<Rightarrow> nat" where
  "command_to_u8 CreateTable = 0" | "command_to_u8 JoinTable = 1" | "command_to_u8 LeaveTable = 2"
| "command_to_u8 StartHand = 3" | "command_to_u8 AdvanceDeadline = 4" | "command_to_u8 CFold = 6"
| "command_to_u8 CCheck = 7" | "command_to_u8 CCall = 8" | "command_to_u8 CRaise = 9" | "command_to_u8 ForceFold = 11"
| "command_to_u8 KickPlayer = 12" | "command_to_u8 Addon = 13" | "command_to_u8 Rebuy = 14"
| "command_to_u8 SubmitShuffleV2 = 17" | "command_to_u8 SubmitPlayerRevealTokens = 18"
| "command_to_u8 SubmitReconstructDeck = 19" | "command_to_u8 CBet = 20" | "command_to_u8 SetLeaveAfterHand = 21"
| "command_to_u8 FoldWithProof = 22"

definition command_from_u8 :: "nat \<Rightarrow> canonical_command option" where
  "command_from_u8 v =
     (if v = 0 then Some CreateTable else if v = 1 then Some JoinTable else if v = 2 then Some LeaveTable
      else if v = 3 then Some StartHand else if v = 4 then Some AdvanceDeadline else if v = 5 then None
      else if v = 6 then Some CFold else if v = 7 then Some CCheck else if v = 8 then Some CCall
      else if v = 9 then Some CRaise else if v = 10 then None else if v = 11 then Some ForceFold
      else if v = 12 then Some KickPlayer else if v = 13 then Some Addon else if v = 14 then Some Rebuy
      else if v = 15 \<or> v = 16 then None else if v = 17 then Some SubmitShuffleV2
      else if v = 18 then Some SubmitPlayerRevealTokens else if v = 19 then Some SubmitReconstructDeck
      else if v = 20 then Some CBet else if v = 21 then Some SetLeaveAfterHand else if v = 22 then Some FoldWithProof
      else None)"

datatype command_family = FamCreate | FamSeat | FamFunds | FamAction | FamCrypto | FamLifecycle

fun batch_tag :: "canonical_command \<Rightarrow> command_family \<times> nat" where
  "batch_tag CreateTable = (FamCreate, 0)" | "batch_tag JoinTable = (FamSeat, 0)"
| "batch_tag LeaveTable = (FamSeat, 1)" | "batch_tag SetLeaveAfterHand = (FamSeat, 2)"
| "batch_tag KickPlayer = (FamSeat, 3)" | "batch_tag Addon = (FamFunds, 0)" | "batch_tag Rebuy = (FamFunds, 1)"
| "batch_tag CFold = (FamAction, 0)" | "batch_tag ForceFold = (FamAction, 0)"
| "batch_tag CCheck = (FamAction, 1)" | "batch_tag CCall = (FamAction, 1)"
| "batch_tag CRaise = (FamAction, 2)" | "batch_tag CBet = (FamAction, 2)"
| "batch_tag SubmitShuffleV2 = (FamCrypto, 2)" | "batch_tag SubmitPlayerRevealTokens = (FamCrypto, 3)"
| "batch_tag SubmitReconstructDeck = (FamCrypto, 4)" | "batch_tag FoldWithProof = (FamCrypto, 5)"
| "batch_tag StartHand = (FamLifecycle, 0)" | "batch_tag AdvanceDeadline = (FamLifecycle, 1)"

section \<open>Authentication\<close>

record dispatch_context =
  dc_caller :: address
  dc_block_timestamp :: nat

definition authenticated_caller_seat :: "dispatch_context \<Rightarrow> 'pt table \<Rightarrow> nat res" where
  "authenticated_caller_seat ctx t =
     (if \<not> padding_seats_are_vacant t then Inl (Serialization ''non-canonical seat layout: padding is occupied'')
      else case seats_where (\<lambda>s. seat_is_occupied s \<and> seat_player s = dc_caller ctx) (t_seats t) of
        [] \<Rightarrow> Inl (Serialization ''caller does not occupy a seat'')
      | [i] \<Rightarrow> Inr i
      | _ \<Rightarrow> Inl (Serialization ''caller occupies multiple seats''))"

definition resolve_caller_seat :: "dispatch_context \<Rightarrow> 'pt table \<Rightarrow> nat \<Rightarrow> nat res" where
  "resolve_caller_seat ctx t claimed =
     (if claimed \<ge> max_players t then Inl (Serialization ''seat_index out of range'')
      else if \<not> padding_seats_are_vacant t then Inl (Serialization ''non-canonical seat layout: padding is occupied'')
      else rbind (authenticated_caller_seat ctx t) (\<lambda>resolved.
        if claimed \<noteq> resolved then Inl (Serialization ''legacy seat_index does not match authenticated caller seat'')
        else Inr resolved))"

definition require_caller_is_creator :: "dispatch_context \<Rightarrow> 'pt table \<Rightarrow> unit res" where
  "require_caller_is_creator ctx t =
     (if t_creator t \<noteq> dc_caller ctx then Inl (Serialization ''caller is not table creator'') else Inr ())"

section \<open>Calls\<close>

text \<open>
  A decoded call: the tag with its arguments. Proofs are the predicates their verification
  computes, as in the card protocol.
\<close>

datatype 'pt call =
    CallCreateTable nat nat nat nat
  | CallJoinTable address nat 'pt tagged_pubkey "'pt \<Rightarrow> bool"
  | CallLeaveTable nat
  | CallStartHand
  | CallAdvanceDeadline
  | CallForceFold nat
  | CallKickPlayer nat
  | CallSubmitShuffleV2 nat "'pt ciphertext list" "'pt ciphertext list \<Rightarrow> 'pt ciphertext list \<Rightarrow> 'pt \<Rightarrow> bool"
  | CallSubmitPlayerRevealTokens nat "'pt list" "'pt token_proof list"
  | CallSubmitReconstructDeck nat "'pt reconstruction_statement" "'pt reconstruction_statement \<Rightarrow> bool"
  | CallFold nat
  | CallCheck nat
  | CallCall nat
  | CallRaise nat nat
  | CallBet nat nat
  | CallAddon nat nat
  | CallRebuy nat nat
  | CallSetLeaveAfterHand nat bool
  | CallFoldWithProof nat "'pt ciphertext list" "'pt ciphertext list \<Rightarrow> 'pt ciphertext list \<Rightarrow> 'pt \<Rightarrow> bool"

text \<open>A wrapper for a player's command: resolve the caller's seat, then act for that seat.\<close>

definition as_player ::
    "dispatch_context \<Rightarrow> nat \<Rightarrow> (nat \<Rightarrow> 'pt table \<Rightarrow> events \<Rightarrow> 'pt step) \<Rightarrow> 'pt table \<Rightarrow> events \<Rightarrow> 'pt step" where
  "as_player ctx claimed f t es = rbind (resolve_caller_seat ctx t claimed) (\<lambda>i. f i t es)"

definition as_creator ::
    "dispatch_context \<Rightarrow> ('pt table \<Rightarrow> events \<Rightarrow> 'pt step) \<Rightarrow> 'pt table \<Rightarrow> events \<Rightarrow> 'pt step" where
  "as_creator ctx f t es = rbind (require_caller_is_creator ctx t) (\<lambda>_. f t es)"

fun run_call :: "'pt crypto \<Rightarrow> 'pt reconstruction_lib \<Rightarrow> dispatch_context \<Rightarrow> 'pt call \<Rightarrow> 'pt table \<Rightarrow> events \<Rightarrow> 'pt step" where
  "run_call C L ctx (CallCreateTable mp sb bb rit) t es =
     rbind (apply_create_table (dc_caller ctx) mp sb bb rit t) (\<lambda>t. Inr (t, es))"
| "run_call C L ctx (CallJoinTable player buy_in pk tx_pk owns) t es =
     (if player \<noteq> dc_caller ctx then Inl (Serialization ''join_table: caller != player'')
      else apply_join_table C player buy_in pk tx_pk owns t es)"
| "run_call C L ctx (CallLeaveTable i) t es = as_player ctx i (apply_leave_table C) t es"
| "run_call C L ctx CallStartHand t es = as_creator ctx (start_hand C) t es"
| "run_call C L ctx CallAdvanceDeadline t es =
     rbind (advance_deadline C (dc_block_timestamp ctx) t es) (\<lambda>(t, es, _). Inr (t, es))"
| "run_call C L ctx (CallForceFold i) t es = as_creator ctx (apply_fold_internal C i FOLD_REASON_FORCE_ADMIN) t es"
| "run_call C L ctx (CallKickPlayer i) t es = as_creator ctx (kick_player_internal C i KickAdmin) t es"
| "run_call C L ctx (CallSubmitShuffleV2 i cts v) t es =
     as_player ctx i (\<lambda>i. apply_submit_shuffle_v2 C i cts v) t es"
| "run_call C L ctx (CallSubmitPlayerRevealTokens i tokens proofs) t es =
     as_player ctx i (\<lambda>i. apply_submit_player_reveal_tokens C i tokens proofs) t es"
| "run_call C L ctx (CallSubmitReconstructDeck i st v) t es =
     as_player ctx i (\<lambda>i. apply_submit_reconstruct_deck C L i st v) t es"
| "run_call C L ctx (CallFold i) t es = as_player ctx i (apply_fold C) t es"
| "run_call C L ctx (CallCheck i) t es = as_player ctx i (apply_check C) t es"
| "run_call C L ctx (CallCall i) t es = as_player ctx i (apply_call C) t es"
| "run_call C L ctx (CallRaise i total_bet) t es = as_player ctx i (\<lambda>i. apply_raise C i total_bet) t es"
| "run_call C L ctx (CallBet i amount) t es = as_player ctx i (\<lambda>i. apply_bet C i amount) t es"
| "run_call C L ctx (CallAddon i amount) t es = as_player ctx i (\<lambda>i. apply_addon i amount) t es"
| "run_call C L ctx (CallRebuy i amount) t es = as_player ctx i (\<lambda>i. apply_rebuy i amount) t es"
| "run_call C L ctx (CallSetLeaveAfterHand i want) t es =
     as_player ctx i (\<lambda>i t es. rbind (apply_set_leave_after_hand i want t es) (\<lambda>(t, es, _). Inr (t, es))) t es"
| "run_call C L ctx (CallFoldWithProof i cts v) t es =
     as_player ctx i (\<lambda>i. apply_fold_with_proof C i cts v) t es"

section \<open>The transaction around a call\<close>

definition is_hand_started :: "texas_event \<Rightarrow> bool" where
  "is_hand_started e = (case e of HandStarted _ _ _ _ _ \<Rightarrow> True | _ \<Rightarrow> False)"

definition rearm_betting :: "nat \<Rightarrow> 'pt table \<Rightarrow> 'pt table res" where
  "rearm_betting now t = (case t_hand_phase t of
      PhaseBetting _ _ _ d \<Rightarrow> if d = 0 then arm_betting_deadline now t else Inr t
    | _ \<Rightarrow> Inr t)"

definition advance_counters :: "'pt table \<Rightarrow> 'pt table \<Rightarrow> events \<Rightarrow> 'pt table res" where
  "advance_counters pre t es =
     (if t = pre then Inr t
      else rbind (ok_or (checked_add_u32 (t_call_seq pre) 1) (Serialization ''texas_poker call_seq overflow'')) (\<lambda>call_seq.
      rbind (if list_ex is_hand_started es
             then ok_or (checked_add_u32 (t_hand_id pre) 1) (Serialization ''texas_poker hand_id overflow'')
             else Inr (t_hand_id pre)) (\<lambda>hand_id.
        Inr (t\<lparr>t_call_seq := call_seq, t_hand_id := hand_id\<rparr>))))"

text \<open>
  The table is a mutable argument of the source, so the model returns the table the caller
  sees together with the result, also when the result is an error.
\<close>

definition dispatch ::
    "'pt crypto \<Rightarrow> 'pt reconstruction_lib \<Rightarrow> dispatch_context \<Rightarrow> 'pt call \<Rightarrow> 'pt table \<Rightarrow> 'pt table \<times> events res" where
  "dispatch C L ctx c pre = (case run_call C L ctx c pre [] of
      Inl e \<Rightarrow> (pre, Inl e)
    | Inr (t, es) \<Rightarrow>
        (case normalize_until_blocked C (dc_block_timestamp ctx) t es of
           Inl e \<Rightarrow> (t, Inl e)
         | Inr (t, es, _) \<Rightarrow>
             (case rearm_betting (dc_block_timestamp ctx) t of
                Inl e \<Rightarrow> (pre, Inl e)
              | Inr t \<Rightarrow>
                  (case advance_counters pre t es of
                     Inl e \<Rightarrow> (t, Inl e)
                   | Inr t \<Rightarrow> (t, Inr es)))))"

end
