(* ===== verification/Poker_Custody.thy ===== *)
theory Poker_Custody
  imports Poker_Vault Poker_Dispatch
begin

text \<open>
  Custody of chips in play: the betting actions and the steps of the card protocol keep the
  books of the table in order and pay nobody out of thin air.
\<close>

section \<open>Betting actions\<close>

lemma count_active_update:
  assumes "i < length ss"
  shows "count_active_players ss \<le> Suc (count_active_players (ss[i := s']))"
    "contends s' = contends (ss ! i) \<Longrightarrow> count_active_players (ss[i := s']) = count_active_players ss"
proof -
  have "count_active_players xs = sum_list (map (\<lambda>s. of_bool (contends s)) xs)" for xs :: "'a seat list"
    unfolding count_active_players_def by (induction xs) auto
  moreover have "sum_list (map (\<lambda>s. of_bool (contends s)) (ss[i := s'])) + of_bool (contends (ss ! i)) =
      sum_list (map (\<lambda>s. of_bool (contends s)) ss) + (of_bool (contends s') :: nat)"
    by (rule sum_list_map_update [OF assms])
  ultimately show "count_active_players ss \<le> Suc (count_active_players (ss[i := s']))"
    "contends s' = contends (ss ! i) \<Longrightarrow> count_active_players (ss[i := s']) = count_active_players ss"
    by (auto simp: of_bool_def split: if_splits)
qed

lemma acted_fields [simp]:
  "t_seats (set_seat_acted_this_round i v t) = t_seats t" "t_pot (set_seat_acted_this_round i v t) = t_pot t"
  "t_chip_pool (set_seat_acted_this_round i v t) = t_chip_pool t"
  "t_hand_phase (set_seat_acted_this_round i v t) = t_hand_phase t" "t_rules (set_seat_acted_this_round i v t) = t_rules t"
  "t_seats (set_seat_wants_leave i v t) = t_seats t" "t_pot (set_seat_wants_leave i v t) = t_pot t"
  "t_chip_pool (set_seat_wants_leave i v t) = t_chip_pool t" "t_hand_phase (set_seat_wants_leave i v t) = t_hand_phase t"
  "t_rules (set_seat_wants_leave i v t) = t_rules t"
  "t_seats (set_contributor_mask m t) = t_seats t" "t_pot (set_contributor_mask m t) = t_pot t"
  "t_chip_pool (set_contributor_mask m t) = t_chip_pool t" "t_hand_phase (set_contributor_mask m t) = t_hand_phase t"
  "t_rules (set_contributor_mask m t) = t_rules t"
  "t_seats (reopen_action i t) = t_seats t" "t_pot (reopen_action i t) = t_pot t"
  "t_chip_pool (reopen_action i t) = t_chip_pool t" "t_hand_phase (reopen_action i t) = t_hand_phase t"
  by (simp_all add: set_seat_acted_this_round_def set_seat_wants_leave_def set_contributor_mask_def reopen_action_def)

text \<open>
  A betting action of one seat: it stays in the betting phase, conserves the chips, keeps the
  books, and removes at most one contender (none, unless it is a fold).
\<close>

definition seat_action :: "'pt table \<Rightarrow> 'pt table \<Rightarrow> bool" where
  "seat_action t t' \<longleftrightarrow> conserves t t' \<and> (books t \<longrightarrow> books t') \<and> in_betting (t_hand_phase t') \<and>
     count_active_players (t_seats t) \<le> Suc (count_active_players (t_seats t'))"

lemma seat_action_frame:
  assumes "frame t u" "in_betting (t_hand_phase u)" "in_betting (t_hand_phase t)" "seat_action u v"
  shows "seat_action t v"
proof -
  have "books t \<Longrightarrow> books u" using assms(1-3) by (auto simp: books_def frame_accounts dest: before_deal_not_betting)
  with assms(4) conserves_trans [OF frame_accounts(8) [OF assms(1)]] frame_accounts(5) [OF assms(1)]
  show ?thesis by (auto simp: seat_action_def)
qed

lemma fold_seat_effect:
  assumes "fold_seat i reason t es = Inr (t', es')"
  shows "seat_action t t'"
proof -
  from assms obtain t1 s' where u: "i < length (t_seats t)" "set_status Folded (t_seats t ! i) = Inr s'"
    "t1 = t\<lparr>t_seats := (t_seats t)[i := s']\<rparr>"
    and d: "disarm_betting_deadline (set_seat_acted_this_round i True t1) = Inr t'"
    by (auto simp: fold_seat_def result_simps update_seat_Inr)
  note v = set_status_in_hand_views [OF u(2)]
  have f: "frame t1 t'" "in_betting (t_hand_phase t')" "in_betting (t_hand_phase t)"
    using disarm_betting_frame [OF d] u(3) by (auto simp: frame_def)
  have "conserves t t1" "ledger t \<Longrightarrow> ledger t1"
    using wager_effect [of i t t1 s' 0 0] u v by simp_all
  then show ?thesis
    using f frame_accounts [OF f(1)] conserves_trans [OF _ frame_accounts(8) [OF f(1)]] count_active_update(1) [OF u(1), of s']
    by (auto simp: seat_action_def u(3) books_def ledger_def dest: before_deal_not_betting)
qed

lemma match_seat_views:
  assumes "match_seat r p = Inr (p', a)"
  shows "seat_stack (SeatPlaying p') + a = seat_stack (SeatPlaying p)" "seat_bet (SeatPlaying p') = seat_bet (SeatPlaying p) + a"
    "seat_total_bet (SeatPlaying p') = seat_total_bet (SeatPlaying p) + a"
    "seat_pending_addon (SeatPlaying p') = seat_pending_addon (SeatPlaying p)"
  using assms by (auto simp: match_seat_def Let_def result_simps)

lemma raise_seat_views:
  assumes "with_playing (raise_seat total_bet needed) s = Inr s'" "total_bet = seat_bet s + needed"
  shows "seat_stack s' + needed = seat_stack s" "seat_bet s' = seat_bet s + needed"
    "seat_total_bet s' = seat_total_bet s + needed" "seat_pending_addon s' = seat_pending_addon s"
  using assms by (cases s; auto simp: raise_seat_def result_simps)+

lemma mark_acted_frame:
  "mark_acted i t = Inr t' \<Longrightarrow> frame t t' \<and> in_betting (t_hand_phase t) \<and> in_betting (t_hand_phase t')"
  using disarm_betting_frame by (fastforce simp: mark_acted_def frame_def)

text \<open>A wager that is recorded in the seat and then marked as an action.\<close>

lemma wager_action:
  assumes "i < length (t_seats t)" "t_seats t1 = (t_seats t)[i := s']" "t_pot t1 = t_pot t" "t_chip_pool t1 = t_chip_pool t"
    and "seat_stack s' + a = seat_stack (t_seats t ! i)" "seat_bet s' = seat_bet (t_seats t ! i) + a"
    and "seat_total_bet s' = seat_total_bet (t_seats t ! i) + a" "seat_pending_addon s' = seat_pending_addon (t_seats t ! i)"
    and f: "frame t1 t'" "in_betting (t_hand_phase t')"
  shows "seat_action t t'"
proof -
  have "conserves t t1" "ledger t \<Longrightarrow> ledger t1" using wager_effect [of i t t1 s' 0 a] assms by simp_all
  then show ?thesis
    using f frame_accounts [OF f(1)] conserves_trans [OF _ frame_accounts(8) [OF f(1)]] count_active_update(1) [OF assms(1), of s'] assms(2)
    by (auto simp: seat_action_def books_def ledger_def dest: before_deal_not_betting)
qed

lemma match_bet_effect:
  assumes "match_bet i t es = Inr (t', es')" "i < length (t_seats t)"
  shows "seat_action t t'"
proof -
  from assms(1) obtain r where r: "table_betting_round t = Some r" by (auto simp: match_bet_def result_simps)
  show ?thesis
  proof (cases "seat_bet (t_seats t ! i) \<ge> current_bet r")
    case True
    with assms r have "mark_acted i t = Inr t'" by (auto simp: match_bet_def result_simps Let_def split: if_splits)
    from mark_acted_frame [OF this] show ?thesis
      by (intro seat_action_frame [of t t' t']) (auto simp: seat_action_def)
  next
    case False
    with assms(1) r obtain p p' a where p: "t_seats t ! i = SeatPlaying p" "match_seat r p = Inr (p', a)"
      "mark_acted i (t\<lparr>t_seats := (t_seats t)[i := SeatPlaying p']\<rparr>) = Inr t'"
      by (auto simp: match_bet_def result_simps Let_def split: if_splits seat.splits)
    show ?thesis
      using wager_action [of i t "t\<lparr>t_seats := (t_seats t)[i := SeatPlaying p']\<rparr>" "SeatPlaying p'" a t'] assms(2)
        match_seat_views [OF p(2)] mark_acted_frame [OF p(3)] p(1) by simp
  qed
qed

lemma raise_to_effect:
  assumes "raise_to i total_bet t es = Inr (t', es')"
  shows "seat_action t t'"
proof -
  from assms obtain r needed r' t1 t2 t3 where p: "process_raise r total_bet (seat_bet (t_seats t ! i)) (seat_stack (t_seats t ! i)) = Inr (needed, r')"
    and t1: "active_betting_round_mut (\<lambda>_. r') t = Inr t1"
    and t2: "update_seat i (with_playing (raise_seat total_bet needed)) t1 = Inr t2" and t3: "mark_acted i t2 = Inr t3"
    and t': "t' = t3 \<or> t' = reopen_action i t3"
    by (auto simp: raise_to_def result_simps Let_def split: if_splits sum.splits)
  have f1: "frame t t1" "in_betting (t_hand_phase t)" "in_betting (t_hand_phase t1)"
    using t1 by (auto simp: active_betting_round_mut_def frame_def split: hand_phase.splits)
  have seats: "t_seats t1 = t_seats t" using f1 by (simp add: frame_def)
  have total: "total_bet = seat_bet (t_seats t ! i) + needed"
    using p by (auto simp: process_raise_def Let_def split: if_splits)
  from t2 seats obtain s' where s': "i < length (t_seats t)" "with_playing (raise_seat total_bet needed) (t_seats t ! i) = Inr s'"
    "t2 = t1\<lparr>t_seats := (t_seats t)[i := s']\<rparr>" by (auto simp: update_seat_Inr)
  have "frame t2 t'" "in_betting (t_hand_phase t')" using mark_acted_frame [OF t3] t' by (auto simp: frame_def)
  then have "seat_action t1 t'"
    using wager_action [of i t1 t2 s' needed t'] raise_seat_views [OF s'(2) total] s' seats by simp
  then show ?thesis using seat_action_frame f1 by blast
qed

text \<open>The continuation of an action: the next turn, or the end of the hand.\<close>

lemma after_action_effect:
  assumes "seat_action t t1" "books t" "advance_turn C t1 es1 = Inr (t', es') \<or> after_fold C t1 es1 = Inr (t', es')"
  shows "books t'" "no_gain t t'" "2 \<le> count_active_players (t_seats t) \<Longrightarrow> conserves t t'"
proof -
  have b: "books t1" "conserves t t1" "count_active_players (t_seats t) \<le> Suc (count_active_players (t_seats t1))"
    using assms(1,2) by (auto simp: seat_action_def)
  have "books t' \<and> no_gain t1 t' \<and> (0 < count_active_players (t_seats t1) \<longrightarrow> conserves t1 t')"
    using assms(3) advance_turn_effect [OF _ b(1), of C es1 t' es'] end_without_showdown_effect [of C t1 es1 t' es'] b(1)
    by (auto simp: after_fold_def books_def split: if_splits)
  then show "books t'" "no_gain t t'" "2 \<le> count_active_players (t_seats t) \<Longrightarrow> conserves t t'"
    using no_gain_trans [OF conserves_no_gain [OF b(2)]] conserves_trans [OF b(2)] b(3) by auto
qed

lemma player_action_effect:
  assumes "apply_player_action C i action t es = Inr (t', es')" "books t" "max_players t \<le> MAX_SEATS"
  shows "books t'" "no_gain t t'" "2 \<le> count_active_players (t_seats t) \<Longrightarrow> conserves t t'"
proof -
  have i: "i < length (t_seats t)"
    using assms by (auto simp: apply_player_action_def books_def split: if_splits)
  obtain t1 es1 where "seat_action t t1" "advance_turn C t1 es1 = Inr (t', es') \<or> after_fold C t1 es1 = Inr (t', es')"
  proof (cases action)
    case (Fold reason)
    with assms(1) obtain t1 es1 where "fold_seat i reason t es = Inr (t1, es1)" "after_fold C t1 es1 = Inr (t', es')"
      by (auto simp: apply_player_action_def result_simps split: if_splits)
    with that fold_seat_effect show ?thesis by blast
  next
    case MatchBet
    with assms(1) obtain t1 es1 where "match_bet i t es = Inr (t1, es1)" "advance_turn C t1 es1 = Inr (t', es')"
      by (auto simp: apply_player_action_def result_simps split: if_splits)
    with that match_bet_effect [OF _ i] show ?thesis by blast
  next
    case (RaiseTo total_bet)
    with assms(1) obtain t1 es1 where "raise_to i total_bet t es = Inr (t1, es1)" "advance_turn C t1 es1 = Inr (t', es')"
      by (auto simp: apply_player_action_def result_simps split: if_splits)
    with that raise_to_effect show ?thesis by blast
  qed
  from after_action_effect [OF this(1) assms(2) this(2)]
  show "books t'" "no_gain t t'" "2 \<le> count_active_players (t_seats t) \<Longrightarrow> conserves t t'" by simp_all
qed

text \<open>Every betting command is a player action.\<close>

lemma betting_commands:
  assumes "apply_fold C i t es = Inr (t', es') \<or> apply_check C i t es = Inr (t', es') \<or> apply_call C i t es = Inr (t', es') \<or>
    apply_raise C i n t es = Inr (t', es') \<or> apply_bet C i n t es = Inr (t', es') \<or> apply_fold_internal C i n t es = Inr (t', es')"
  shows "\<exists>action es''. apply_player_action C i action t es = Inr (t', es'')"
  using assms
  by (auto simp: apply_fold_def apply_fold_internal_def apply_check_def apply_call_def apply_raise_def apply_bet_def
      result_simps split: if_splits)

section \<open>Card protocol\<close>

lemma shuffle_phase_protocol:
  "shuffle_phase t \<noteq> SHUFFLE_PHASE_NONE \<Longrightarrow> in_protocol (t_hand_phase t)"
  by (auto simp: shuffle_phase_def table_shuffling_purpose_def split: hand_phase.splits option.splits)

lemma shuffling_phase_values:
  "shuffle_phase t = SHUFFLE_PHASE_BEFORE_PREFLOP \<longleftrightarrow> (\<exists>st d. t_hand_phase t = PhaseShuffling (ShufflingInitial st d))"
  "shuffle_phase t = SHUFFLE_PHASE_RECONSTRUCT \<longleftrightarrow> (\<exists>s st r d. t_hand_phase t = PhaseShuffling (ShufflingReconstruct s st r d))"
proof -
  have "shuffling_legacy_phase (shuffling_get_purpose ph) = SHUFFLE_PHASE_BEFORE_PREFLOP \<longleftrightarrow> (\<exists>st d. ph = ShufflingInitial st d)"
    "shuffling_legacy_phase (shuffling_get_purpose ph) = SHUFFLE_PHASE_RECONSTRUCT \<longleftrightarrow> (\<exists>s st r d. ph = ShufflingReconstruct s st r d)"
    for ph :: "'a shuffling_phase"
    by (cases ph; simp add: SHUFFLE_PHASE_BEFORE_PREFLOP_def SHUFFLE_PHASE_RECONSTRUCT_def)+
  then show "shuffle_phase t = SHUFFLE_PHASE_BEFORE_PREFLOP \<longleftrightarrow> (\<exists>st d. t_hand_phase t = PhaseShuffling (ShufflingInitial st d))"
    "shuffle_phase t = SHUFFLE_PHASE_RECONSTRUCT \<longleftrightarrow> (\<exists>s st r d. t_hand_phase t = PhaseShuffling (ShufflingReconstruct s st r d))"
    by (auto simp: shuffle_phase_def table_shuffling_purpose_def SHUFFLE_PHASE_NONE_def SHUFFLE_PHASE_BEFORE_PREFLOP_def
        SHUFFLE_PHASE_RECONSTRUCT_def split: hand_phase.splits option.splits)
qed

lemma enters_protocol_refl [simp]: "in_protocol (t_hand_phase t) \<Longrightarrow> enters_protocol t t"
  by (simp add: enters_protocol_def)

lemma restart_reveal_frame:
  assumes "restart_reveal_after_reconstruct t es = Inr (t', es')" "in_protocol (t_hand_phase t)"
  shows "enters_protocol t t'"
  using assms
  by (auto simp: restart_reveal_after_reconstruct_def Let_def result_simps split: if_splits dest!: start_reveal_frames
      intro: frame_then_protocol [OF set_deck_frame(1)])

lemma advance_shuffle_frame:
  assumes "advance_shuffle t es = Inr (t', es')"
  shows "t' = t \<or> enters_protocol t t'"
proof (cases "shuffle_phase t = SHUFFLE_PHASE_RECONSTRUCT \<or> shuffle_phase t = SHUFFLE_PHASE_BEFORE_PREFLOP")
  case False
  with assms show ?thesis by (auto simp: advance_shuffle_def Let_def)
next
  case True
  then have "in_protocol (t_hand_phase t)" by (auto simp: shuffling_phase_values)
  with True assms show ?thesis
    by (auto simp: advance_shuffle_def Let_def result_simps SHUFFLE_PHASE_RECONSTRUCT_def SHUFFLE_PHASE_BEFORE_PREFLOP_def
        split: if_splits dest: start_reveal_frames restart_reveal_frame disarm_shuffle_frame)
qed

lemma submit_shuffle_frame:
  assumes "apply_submit_shuffle_v2 C i cts v t es = Inr (t', es')"
  shows "enters_protocol t t'"
proof -
  from assms obtain d t1 es1 f where t1: "active_shuffle_state_mut f (t\<lparr>t_deck_state := (t_deck_state t)\<lparr>ds_encrypted := d\<rparr>\<rparr>) = Inr t1"
    and a: "advance_shuffle t1 es1 = Inr (t', es')"
    by (auto simp: apply_submit_shuffle_v2_def result_simps split: if_splits)
  have "enters_protocol t t1"
    using t1 by (auto simp: active_shuffle_state_mut_def enters_protocol_def frame_def split: hand_phase.splits)
  with advance_shuffle_frame [OF a] show ?thesis using protocol_trans by blast
qed

lemma start_reconstruct_frame:
  assumes "start_reconstruct now t es = Inr (t', es')"
  shows "enters_protocol t t'"
proof -
  from assms obtain t1 st t2 where t1: "take_reveal_payload t = Inr (t1, st)"
    and t2: "enter_reconstructing (round_state t) (get_active_seat_mask (t_seats t)) st now
        (t1\<lparr>t_deck_state := (t_deck_state t1)\<lparr>ds_reconstruct_accumulated := None\<rparr>\<rparr>) = Inr t'"
    by (auto simp: start_reconstruct_def result_simps Let_def)
  from t2 have "t_seats t' = t_seats t1" "t_pot t' = t_pot t1" "t_chip_pool t' = t_chip_pool t1"
    "in_protocol (t_hand_phase t') \<and> \<not> before_deal (t_hand_phase t')"
    by (auto simp: enter_reconstructing_def result_simps)
  with take_reveal_frame [OF t1] show ?thesis by (simp add: enters_protocol_def frame_def)
qed

lemma on_complete_reconstruct_frame:
  assumes "on_complete_reconstruct t es = Inr (t', es')"
  shows "enters_protocol t t' \<and> in_protocol (t_hand_phase t)"
proof -
  from assms obtain t1 t2 st t3 es3 where t1: "rebuild_deck_from_reconstruct_deck t = Inr t1"
    and t2: "take_reveal_payload t1 = Inr (t2, st)"
    and t3: "enter_reconstruct_shuffling (round_state t1) \<lparr>sh_pending_mask = get_active_seat_mask (t_seats t1), sh_completed_mask = 0\<rparr> st 0 t2 = Inr t3"
    and a: "advance_shuffle t3 es3 = Inr (t', es')"
    by (auto simp: on_complete_reconstruct_def result_simps Let_def)
  have f1: "frame t t1" "t_hand_phase t1 = t_hand_phase t"
    using t1 by (auto simp: rebuild_deck_from_reconstruct_deck_def result_simps frame_def split: if_splits)
  have "in_protocol (t_hand_phase t1)"
    using t2 reveal_in_protocol by (auto simp: take_reveal_payload_def split: option.splits)
  moreover from t3 have "t_seats t3 = t_seats t2" "t_pot t3 = t_pot t2" "t_chip_pool t3 = t_chip_pool t2"
    "in_protocol (t_hand_phase t3) \<and> \<not> before_deal (t_hand_phase t3)"
    by (auto simp: enter_reconstruct_shuffling_def result_simps split: if_splits)
  then have "enters_protocol t t3" using take_reveal_frame [OF t2] f1 by (simp add: enters_protocol_def frame_def)
  ultimately show ?thesis using advance_shuffle_frame [OF a] protocol_trans f1 by metis
qed

lemma submit_reconstruct_frame:
  assumes "apply_submit_reconstruct_deck C L i st v t es = Inr (t', es')"
  shows "enters_protocol t t'"
proof -
  from assms obtain t1 deck es1 where t1: "active_reconstruct_state_mut (\<lambda>m. seat_mask_remove m i) t = Inr t1"
    and rest: "(let t = t1\<lparr>t_deck_state := (t_deck_state t1)\<lparr>ds_reconstruct_accumulated := Some deck\<rparr>\<rparr> in
        t' = t \<or> on_complete_reconstruct t es1 = Inr (t', es'))"
    by (auto simp: apply_submit_reconstruct_deck_def result_simps Let_def split: if_splits)
  have "enters_protocol t (t1\<lparr>t_deck_state := (t_deck_state t1)\<lparr>ds_reconstruct_accumulated := Some deck\<rparr>\<rparr>)"
    using t1 by (auto simp: active_reconstruct_state_mut_def enters_protocol_def frame_def split: hand_phase.splits)
  with rest show ?thesis using protocol_trans [OF _ conjunct1 [OF on_complete_reconstruct_frame]] by (auto simp: Let_def)
qed

text \<open>Steps that may write hole cards into seats, and touch no chip and no occupancy.\<close>

definition same_money :: "'pt table \<Rightarrow> 'pt table \<Rightarrow> bool" where
  "same_money t t' \<longleftrightarrow> list_all2 (\<lambda>s s'. seat_stack s' = seat_stack s \<and> seat_bet s' = seat_bet s \<and>
      seat_total_bet s' = seat_total_bet s \<and> seat_pending_addon s' = seat_pending_addon s \<and>
      seat_is_vacant s' = seat_is_vacant s) (t_seats t) (t_seats t') \<and>
     t_pot t' = t_pot t \<and> t_chip_pool t' = t_chip_pool t \<and> t_rules t' = t_rules t"

lemma same_money_refl [simp]: "same_money t t"
  by (simp add: same_money_def list_all2_conv_all_nth)

lemma same_money_trans [trans]: "same_money t u \<Longrightarrow> same_money u v \<Longrightarrow> same_money t v"
  by (auto simp: same_money_def list_all2_conv_all_nth)

lemma same_money_seats:
  "t_seats t' = t_seats t \<Longrightarrow> t_pot t' = t_pot t \<Longrightarrow> t_chip_pool t' = t_chip_pool t \<Longrightarrow> t_rules t' = t_rules t \<Longrightarrow> same_money t t'"
  by (simp add: same_money_def list_all2_conv_all_nth)

lemma same_money_effect:
  assumes "same_money t t'"
  shows "bets t' = bets t" "wagered t' = wagered t" "conserves t t'" "length (t_seats t') = length (t_seats t)"
    "t_pot t' = t_pot t" "padding_seats_are_vacant t' = padding_seats_are_vacant t"
proof -
  define R where "R = (\<lambda>(s :: 'a seat) (s' :: 'a seat). seat_stack s' = seat_stack s \<and> seat_bet s' = seat_bet s \<and>
      seat_total_bet s' = seat_total_bet s \<and> seat_pending_addon s' = seat_pending_addon s \<and>
      seat_is_vacant s' = seat_is_vacant s)"
  have R: "list_all2 R (t_seats t) (t_seats t')" using assms by (simp add: same_money_def R_def)
  have m: "map seat_stack (t_seats t') = map seat_stack (t_seats t)" "map seat_bet (t_seats t') = map seat_bet (t_seats t)"
    "map seat_total_bet (t_seats t') = map seat_total_bet (t_seats t)"
    "map seat_pending_addon (t_seats t') = map seat_pending_addon (t_seats t)"
    "map seat_is_vacant (t_seats t') = map seat_is_vacant (t_seats t)"
    by (rule list_all2_map_eq [OF R]; simp add: R_def)+
  show "bets t' = bets t" "wagered t' = wagered t" "conserves t t'" "t_pot t' = t_pot t"
    using assms by (simp_all add: conserves_def account_defs m same_money_def)
  show "length (t_seats t') = length (t_seats t)" using list_all2_lengthD [OF R] by simp
  have "list_all seat_is_vacant (drop k (t_seats u)) = list_all id (drop k (map seat_is_vacant (t_seats u)))" for k and u :: "'a table"
    by (simp add: list_all_iff drop_map)
  with m(5) assms show "padding_seats_are_vacant t' = padding_seats_are_vacant t"
    by (simp add: padding_seats_are_vacant_def same_money_def)
qed

lemma same_money_books:
  assumes "same_money t t'" "books t" "in_protocol (t_hand_phase t)" "in_protocol (t_hand_phase t')" "\<not> before_deal (t_hand_phase t')"
  shows "books t'"
  using same_money_effect [OF assms(1)] assms(2-5) in_protocol_facts by (auto simp: books_def)

definition revealing :: "'pt table \<Rightarrow> bool" where
  "revealing t \<longleftrightarrow> (\<exists>street st d. t_hand_phase t = PhaseRevealing street st d)"

lemma reveal_mut_effect:
  "active_reveal_state_mut f t = Inr t' \<Longrightarrow> same_money t t' \<and> revealing t \<and> revealing t'"
  by (auto simp: active_reveal_state_mut_def revealing_def intro: same_money_seats split: hand_phase.splits)

lemma submit_tokens_effect:
  assumes "try_fold (submit_token phase i pk) (t, es) xs = Inr (t', es')"
  shows "same_money t t' \<and> (revealing t \<longleftrightarrow> revealing t')"
proof -
  have "same_money t (fst r) \<and> (revealing t \<longleftrightarrow> revealing (fst r))"
    if "try_fold (submit_token phase i pk) (t, es) xs = Inr r" for r
  proof (rule try_fold_invariant [where P = "\<lambda>r. same_money t (fst r) \<and>
        (revealing t \<longleftrightarrow> revealing (fst r))", OF that])
    fix s x s' assume P: "same_money t (fst s) \<and> (revealing t \<longleftrightarrow> revealing (fst s))"
      and st: "submit_token phase i pk s x = Inr s'"
    obtain t1 e1 where s: "s = (t1, e1)" by fastforce
    from st obtain f where m: "active_reveal_state_mut f t1 = Inr (fst s')"
      by (auto simp: submit_token_def s Let_def result_simps case_prod_beta split: if_splits)
    then show "same_money t (fst s') \<and> (revealing t \<longleftrightarrow> revealing (fst s'))"
      using reveal_mut_effect [OF m] P s same_money_trans by auto
  qed simp
  from this [OF assms] show ?thesis by simp
qed

lemma materialize_hole_frame:
  "materialize_hole C t a = Inr t' \<Longrightarrow> same_money t t' \<and> t_hand_phase t' = t_hand_phase t"
  by (auto simp: materialize_hole_def result_simps intro: same_money_seats split: reveal_target.splits)

lemma push_board_frame:
  "push_board_card t x = Inr t' \<Longrightarrow> same_money t t' \<and> t_hand_phase t' = t_hand_phase t"
  by (auto simp: push_board_card_def Let_def intro!: same_money_seats
      split: if_splits sum.splits run_it_twice_state.splits prod.splits)

lemma push_hole_money:
  assumes "push_hole_card c s = Inr s'"
  shows "seat_stack s' = seat_stack s \<and> seat_bet s' = seat_bet s \<and> seat_total_bet s' = seat_total_bet s \<and>
    seat_pending_addon s' = seat_pending_addon s \<and> seat_is_vacant s' = seat_is_vacant s"
  using assms by (cases s) (auto simp: push_hole_card_def result_simps split: sum.splits)

lemma write_hole_frame:
  assumes "write_hole_card (t, es, ns) x = Inr (t', es', ns')"
  shows "same_money t t' \<and> t_hand_phase t' = t_hand_phase t"
proof -
  obtain i slot idx c where x: "x = (i, slot, idx, c)" by (cases x) auto
  from assms have "\<exists>t1 l. update_seat i (push_hole_card c) t = Inr t1 \<and>
      t' = t1\<lparr>t_deck_state := (t_deck_state t1)\<lparr>ds_ledger := l\<rparr>\<rparr>"
    unfolding write_hole_card_def x Let_def prod.case if_Inl_Inr_iff
    by (elim conjE rbind_InrE) (simp add: case_prod_beta, blast)
  then obtain s' l where s': "i < length (t_seats t)" "push_hole_card c (t_seats t ! i) = Inr s'"
    and t': "t' = t\<lparr>t_seats := (t_seats t)[i := s'], t_deck_state := (t_deck_state t)\<lparr>ds_ledger := l\<rparr>\<rparr>"
    unfolding update_seat_Inr by auto
  show ?thesis using push_hole_money [OF s'(2)] s'(1)
    by (auto simp: t' same_money_def list_all2_conv_all_nth nth_list_update)
qed

lemma materialize_effect:
  assumes "materialize_completed_reveal_assignments C t es = Inr (t', es')"
  shows "same_money t t' \<and> (t' = t \<or> revealing t')"
proof -
  define Q where "Q = (\<lambda>t1. same_money t t1 \<and> t_hand_phase t1 = t_hand_phase t)"
  have hole: "Q t1" if "try_fold (materialize_hole C) t xs = Inr t1" for xs t1
    by (rule try_fold_invariant [OF that]) (use materialize_hole_frame same_money_trans in \<open>fastforce simp: Q_def\<close>)+
  have board: "Q t1" if "try_fold push_board_card t xs = Inr t1" for xs t1
    by (rule try_fold_invariant [OF that]) (use push_board_frame same_money_trans in \<open>fastforce simp: Q_def\<close>)+
  have show1: "Q (fst r)" if "try_fold write_hole_card (t, es0, ns) xs = Inr r" for xs es0 ns r
    by (rule try_fold_invariant [where P = "Q \<circ> fst", simplified, OF that])
      (use write_hole_frame same_money_trans in \<open>fastforce simp: Q_def\<close>)+
  from assms consider "t' = t" | t1 f where "Q t1" "active_reveal_state_mut f t1 = Inr t'"
  proof (cases "t' = t")
    case False
    with assms obtain st where st: "reveal_token_state t = Some st" by (auto simp: materialize_completed_reveal_assignments_def result_simps)
    with assms False that show ?thesis
      using hole board show1
      by (cases "rt_purpose st")
        (fastforce simp: materialize_completed_reveal_assignments_def result_simps Let_def
          materialize_completed_community_assignments_def materialize_completed_showdown_assignments_def split: if_splits)+
  qed blast
  then show ?thesis
  proof cases
    case 2
    with reveal_mut_effect [OF 2(2)] show ?thesis using same_money_trans by (auto simp: Q_def)
  qed simp
qed

end
