(* ===== verification/Poker_Removal.thy ===== *)
theory Poker_Removal
  imports Poker_Custody
begin

text \<open>
  Custody of chips when players are removed and hands are cut short: completing a reveal,
  kicking a player, folding with a proof, and the timeouts of every phase.
\<close>

section \<open>Completing a reveal\<close>

lemma submit_token_revealing:
  "submit_token phase i pk (t, es) x = Inr (t', es') \<Longrightarrow> revealing t"
  by (auto simp: submit_token_def Let_def result_simps case_prod_beta split: if_splits dest: reveal_mut_effect)

lemma revealing_protocol: "revealing t \<Longrightarrow> in_protocol (t_hand_phase t) \<and> \<not> before_deal (t_hand_phase t)"
  by (auto simp: revealing_def)

lemma reveal_tokens_effect:
  assumes "apply_submit_player_reveal_tokens C i tokens proofs t es = Inr (t', es')" "books t" "padding_seats_are_vacant t"
  shows "books t'" "conserves t t'"
proof -
  define indices where "indices = filter (\<lambda>k. seat_mask_contains (ra_pending_mask (reveal_assignments t ! k)) i) [0..<length (reveal_assignments t)]"
  from assms(1) have "\<exists>pk t1 es1 t2 es2. tokens \<noteq> [] \<and> length indices = length tokens \<and> length tokens = length proofs \<and>
      try_fold (submit_token (reveal_phase t) i pk) (t, es) (zip indices (zip tokens proofs)) = Inr (t1, es1) \<and>
      materialize_completed_reveal_assignments C t1 es1 = Inr (t2, es2) \<and> check_reveal_phase_complete C t2 es2 = Inr (t', es')"
    unfolding apply_submit_player_reveal_tokens_def Let_def if_Inl_Inr_iff indices_def [symmetric] rbind_Inr_iff split_paired_Ex prod.case
    by blast
  then obtain pk t1 es1 t2 es2 where ne: "tokens \<noteq> []" "length indices = length tokens" "length tokens = length proofs"
    and t1: "try_fold (submit_token (reveal_phase t) i pk) (t, es) (zip indices (zip tokens proofs)) = Inr (t1, es1)"
    and t2: "materialize_completed_reveal_assignments C t1 es1 = Inr (t2, es2)"
    and t': "check_reveal_phase_complete C t2 es2 = Inr (t', es')"
    by blast
  have "zip indices (zip tokens proofs) \<noteq> []" using ne by (cases tokens; cases proofs; cases indices) auto
  then obtain x xs where "zip indices (zip tokens proofs) = x # xs" by (cases "zip indices (zip tokens proofs)") auto
  with t1 have "revealing t" using submit_token_revealing [of _ _ _ t es x] by (auto simp: result_simps)
  then have r: "revealing t1" "same_money t t1" using submit_tokens_effect [OF t1] by simp_all
  note m = materialize_effect [OF t2]
  have r2: "revealing t2" "same_money t t2" using m r same_money_trans by auto
  have b: "books t2" "padding_seats_are_vacant t2"
    using same_money_books [OF r2(2) assms(2)] revealing_protocol [OF \<open>revealing t\<close>] revealing_protocol [OF r2(1)]
      same_money_effect(6) [OF r2(2)] assms(3) by auto
  from check_reveal_effect [OF t' b] conserves_trans [OF same_money_effect(3) [OF r2(2)]]
  show "books t'" "conserves t t'" by auto
qed

section \<open>Removing players\<close>

lemma remove_seat_phase:
  assumes "remove_seat_from_active_phase i t = Inr t'"
  shows "frame t t'" "in_betting (t_hand_phase t') = in_betting (t_hand_phase t)"
    "before_deal (t_hand_phase t') = before_deal (t_hand_phase t)" "t_rules t' = t_rules t"
    "phase_tag (t_hand_phase t') = phase_tag (t_hand_phase t)"
  using assms
  by (auto simp: remove_seat_from_active_phase_def frame_def split: if_splits hand_phase.splits shuffling_phase.splits)

lemma kick_raw_effect:
  assumes "kick_seat_in_place_raw i cause t es = Inr (t', es')"
  shows "conserves t t'" "books t \<Longrightarrow> books t'" "in_betting (t_hand_phase t') = in_betting (t_hand_phase t)"
    "before_deal (t_hand_phase t') = before_deal (t_hand_phase t)" "t_rules t' = t_rules t"
    "phase_tag (t_hand_phase t') = phase_tag (t_hand_phase t)" "wagered t' = wagered t"
proof -
  let ?s = "t_seats t ! i"
  have "conserves t t' \<and> (books t \<longrightarrow> books t') \<and> in_betting (t_hand_phase t') = in_betting (t_hand_phase t) \<and>
    before_deal (t_hand_phase t') = before_deal (t_hand_phase t) \<and> t_rules t' = t_rules t \<and>
    phase_tag (t_hand_phase t') = phase_tag (t_hand_phase t) \<and> wagered t' = wagered t"
  proof (cases "seat_is_occupied ?s")
    case False
    with assms show ?thesis by (auto simp: kick_seat_in_place_raw_def Let_def split: if_splits)
  next
    case True
    define refund where "refund = seat_stack ?s + seat_pending_addon ?s"
    define v where "v = (\<lambda>t. set_contributor_mask (seat_mask_remove (ds_contributor_mask (t_deck_state t)) i)
      (set_seat_wants_leave i False (set_seat_acted_this_round i False (t :: 'a table))))"
    define u where "u = (\<lambda>s'. set_contributor_mask (seat_mask_remove (ds_contributor_mask (t_deck_state t)) i)
      (set_seat_wants_leave i False (set_seat_acted_this_round i False
        (t\<lparr>t_pot := t_pot t + seat_bet ?s, t_seats := (t_seats t)[i := s']\<rparr>))))"
    from assms True have "\<exists>s' t2 es2. refund \<le> t_chip_pool t \<and>
        update_seat i depart_this_hand (t\<lparr>t_pot := t_pot t + seat_bet ?s\<rparr>) = Inr s' \<and>
        remove_seat_from_active_phase i (fst (if refund > 0 then (v s'\<lparr>t_chip_pool := t_chip_pool t - refund\<rparr>, t2 s') else (v s', es2))) = Inr t'"
      unfolding kick_seat_in_place_raw_def Let_def if_Inl_Inr_iff rbind_Inr_iff ok_or_Inr_iff checked_add_Some_iff checked_sub_Some_iff
        refund_def v_def if_not_P not_not
      by (auto simp: case_prod_beta result_simps set_seat_wants_leave_def set_seat_acted_this_round_def)
    then have "\<exists>s' t2. i < length (t_seats t) \<and> depart_this_hand ?s = Inr s' \<and> refund \<le> t_chip_pool t \<and>
        t2 = (if refund > 0 then u s'\<lparr>t_chip_pool := t_chip_pool t - refund\<rparr> else u s') \<and> remove_seat_from_active_phase i t2 = Inr t'"
      by (auto simp: update_seat_Inr u_def v_def if_distrib [of fst] split: if_splits)
    then obtain s' t2 where s': "i < length (t_seats t)" "depart_this_hand ?s = Inr s'" and pool: "refund \<le> t_chip_pool t"
      and t2': "t2 = (if refund > 0 then u s'\<lparr>t_chip_pool := t_chip_pool t - refund\<rparr> else u s')"
      and t': "remove_seat_from_active_phase i t2 = Inr t'" by blast
    have t2: "t_seats t2 = (t_seats t)[i := s']" "t_pot t2 = t_pot t + seat_bet ?s" "t_chip_pool t2 = t_chip_pool t - refund"
        "t_hand_phase t2 = t_hand_phase t" "t_rules t2 = t_rules t"
      by (simp_all add: t2' u_def)
    note v = depart_views [OF s'(2)] and p = remove_seat_phase [OF t']
    note u = update_sums [OF s'(1) t2(1)]
    have w: "bets t2 + seat_bet ?s = bets t" "wagered t2 = wagered t" "held t2 + refund = held t"
      using u v by (simp_all add: refund_def held_def)
    have "conserves t t2" using w t2 pool by (simp add: conserves_def owed_def)
    moreover have "books t2" if "books t"
      using that w t2 v u(3) by (auto simp: books_def dest: before_deal_not_betting)
    ultimately show ?thesis
      using p t2 w(2) conserves_trans frame_accounts [OF p(1)] frame_accounts(8) [OF p(1)] by (auto simp: books_def)
  qed
  then show "conserves t t'" "books t \<Longrightarrow> books t'" "in_betting (t_hand_phase t') = in_betting (t_hand_phase t)"
    "before_deal (t_hand_phase t') = before_deal (t_hand_phase t)" "t_rules t' = t_rules t"
    "phase_tag (t_hand_phase t') = phase_tag (t_hand_phase t)" "wagered t' = wagered t" by simp_all
qed

lemma advance_shuffle_effect:
  assumes "advance_shuffle t es = Inr (t', es')" "books t"
  shows "books t'" "conserves t t'"
proof -
  have "books t' \<and> conserves t t'"
  proof (cases "t' = t")
    case True
    with assms show ?thesis by simp
  next
    case False
    with advance_shuffle_frame [OF assms(1)] have e: "enters_protocol t t'" by simp
    have "shuffle_phase t \<noteq> SHUFFLE_PHASE_NONE"
      using False assms(1) by (auto simp: advance_shuffle_def Let_def SHUFFLE_PHASE_NONE_def SHUFFLE_PHASE_RECONSTRUCT_def SHUFFLE_PHASE_BEFORE_PREFLOP_def split: if_splits)
    then have "bets t = 0" using shuffle_phase_protocol in_protocol_facts assms(2) by (auto simp: books_def)
    with enters_protocol_effect [OF e assms(2)] show ?thesis by simp
  qed
  then show "books t'" "conserves t t'" by simp_all
qed

text \<open>The cascade after a removal: a lone contender wins while betting, otherwise the hand is reset.\<close>

definition low_player_cascade :: "'pt crypto \<Rightarrow> 'pt table \<Rightarrow> events \<Rightarrow> 'pt step" where
  "low_player_cascade C t es =
     (let active = count_active_players (t_seats t) in
      if active < MIN_PLAYERS_TO_START then
        if active = 1 \<and> is_betting_round t then end_without_showdown C t es else reset_for_next_hand C t es
      else Inr (t, es))"

lemma cascade_effect:
  assumes "low_player_cascade C t es = Inr (t', es')" "books t"
  shows "books t'" "no_gain t t'"
proof -
  have len: "length (t_seats t) = MAX_SEATS" using assms(2) by (simp add: books_def)
  have "books t' \<and> no_gain t t'"
    using assms end_without_showdown_effect [of C t es t' es'] reset_books [of C t es t' es'] len
    by (auto simp: low_player_cascade_def Let_def split: if_splits)
  then show "books t'" "no_gain t t'" by simp_all
qed

lemma kick_in_place_cases:
  assumes "kick_player_internal_in_place C i cause t es = Inr (t', es')"
  obtains t1 es1 t2 es2 where "kick_seat_in_place_raw i cause t es = Inr (t1, es1)"
    "advance_shuffle t1 es1 = Inr (t2, es2) \<or> t2 = t1"
    "is_betting_round t2 \<and> end_without_showdown C t2 es2 = Inr (t', es') \<or> low_player_cascade C t2 es2 = Inr (t', es') \<or>
      (\<exists>t3 es3. is_betting_round t2 \<and> advance_turn C t2 es2 = Inr (t3, es3) \<and> low_player_cascade C t3 es3 = Inr (t', es'))"
proof -
  from assms obtain t1 es1 t2 es2 b where "kick_seat_in_place_raw i cause t es = Inr (t1, es1)"
    "(if b then advance_shuffle t1 es1 else Inr (t1, es1)) = Inr (t2, es2)"
    "(if current_turn t = i \<and> is_betting_round t \<and> is_betting_round t2
      then if count_active_players (t_seats t2) \<le> 1 then end_without_showdown C t2 es2
        else rbind (advance_turn C t2 es2) (\<lambda>(t, es). low_player_cascade C t es)
      else low_player_cascade C t2 es2) = Inr (t', es')"
    unfolding kick_player_internal_in_place_def low_player_cascade_def Let_def rbind_Inr_iff split_paired_Ex prod.case conj_assoc
    by blast
  then show ?thesis
    by (intro that [of t1 es1 t2 es2]) (auto simp: result_simps split: if_splits)
qed

lemma kick_in_place_effect:
  assumes "kick_player_internal_in_place C i cause t es = Inr (t', es')" "books t"
  shows "books t'" "no_gain t t'"
proof -
  have "books t' \<and> no_gain t t'"
    using assms(1)
  proof (rule kick_in_place_cases)
    fix t1 es1 t2 es2
    assume t1: "kick_seat_in_place_raw i cause t es = Inr (t1, es1)"
      and t2: "advance_shuffle t1 es1 = Inr (t2, es2) \<or> t2 = t1"
      and t': "is_betting_round t2 \<and> end_without_showdown C t2 es2 = Inr (t', es') \<or> low_player_cascade C t2 es2 = Inr (t', es') \<or>
        (\<exists>t3 es3. is_betting_round t2 \<and> advance_turn C t2 es2 = Inr (t3, es3) \<and> low_player_cascade C t3 es3 = Inr (t', es'))"
    note k = kick_raw_effect [OF t1]
    have b2: "books t2" "no_gain t t2"
      using t2 advance_shuffle_effect [of t1 es1 t2 es2] k assms(2) conserves_trans conserves_no_gain by blast+
    then have len: "length (t_seats t2) = MAX_SEATS" by (simp add: books_def)
    have "books t' \<and> no_gain t2 t'"
      using t'
    proof (elim disjE exE conjE)
      assume "end_without_showdown C t2 es2 = Inr (t', es')"
      from end_without_showdown_effect [OF this len] show ?thesis by simp
    next
      assume "low_player_cascade C t2 es2 = Inr (t', es')"
      from cascade_effect [OF this b2(1)] show ?thesis by simp
    next
      fix t3 es3 assume t3: "advance_turn C t2 es2 = Inr (t3, es3)" "low_player_cascade C t3 es3 = Inr (t', es')"
      note a = advance_turn_effect [OF t3(1) b2(1)]
      from cascade_effect [OF t3(2) a(1)] no_gain_trans [OF a(2)] show ?thesis by simp
    qed
    with no_gain_trans [OF b2(2)] show ?thesis by simp
  qed
  then show "books t'" "no_gain t t'" by simp_all
qed

lemma is_betting_in_betting: "is_betting_round t \<Longrightarrow> in_betting (t_hand_phase t)"
  by (auto simp: is_betting_round_def table_betting_round_def split: hand_phase.splits)

text \<open>A player removed before the deal leaves no pot behind.\<close>

lemma kick_in_place_before_deal:
  assumes "kick_player_internal_in_place C i cause t es = Inr (t', es')" "books t" "before_deal (t_hand_phase t)"
  shows "t_pot t' = 0"
  using assms(1)
proof (rule kick_in_place_cases)
  fix t1 es1 t2 es2
  assume t1: "kick_seat_in_place_raw i cause t es = Inr (t1, es1)"
    and t2: "advance_shuffle t1 es1 = Inr (t2, es2) \<or> t2 = t1"
    and t': "is_betting_round t2 \<and> end_without_showdown C t2 es2 = Inr (t', es') \<or> low_player_cascade C t2 es2 = Inr (t', es') \<or>
      (\<exists>t3 es3. is_betting_round t2 \<and> advance_turn C t2 es2 = Inr (t3, es3) \<and> low_player_cascade C t3 es3 = Inr (t', es'))"
  note k = kick_raw_effect [OF t1]
  have b1: "books t1" "before_deal (t_hand_phase t1)" using k assms(2,3) by auto
  have "t_pot t2 = t_pot t1 \<and> \<not> in_betting (t_hand_phase t2)"
    using t2 advance_shuffle_frame [of t1 es1 t2 es2] b1(2) in_protocol_facts before_deal_not_betting
    by (auto simp: enters_protocol_def frame_def)
  with t' b1 have "t_pot t2 = 0" "low_player_cascade C t2 es2 = Inr (t', es')" "\<not> is_betting_round t2"
    by (auto simp: books_def dest: is_betting_in_betting)
  then show ?thesis
    using reset_effect(1) [of C t2 es2 t' es'] by (auto simp: low_player_cascade_def Let_def split: if_splits)
qed

lemma kick_effect:
  assumes "kick_player_internal C i cause t es = Inr (t', es') \<or> kick_player_raw i cause t es = Inr (t', es')" "books t"
  shows "books t'" "no_gain t t'"
  using assms kick_in_place_effect [of C i cause t "[]"] kick_raw_effect [of i cause t "[]"] conserves_no_gain
  by (auto simp: kick_player_internal_def kick_player_raw_def result_simps)

section \<open>Folding with a proof\<close>

lemma fold_with_proof_effect:
  assumes "apply_fold_with_proof C i cts verify t es = Inr (t', es')" "books t"
  shows "books t'" "no_gain t t'" "2 \<le> count_active_players (t_seats t) \<Longrightarrow> conserves t t'"
proof -
  from assms(1) obtain m d t1 es1 where bet: "is_betting_round t"
    and t1: "fold_seat i FOLD_REASON_MANUAL (set_contributor_mask m t\<lparr>t_deck_state := (t_deck_state (set_contributor_mask m t))\<lparr>ds_encrypted := d\<rparr>\<rparr>) es = Inr (t1, es1)"
    and t': "after_fold C t1 es1 = Inr (t', es')"
    unfolding apply_fold_with_proof_def Let_def if_Inl_Inr_iff rbind_Inr_iff split_paired_Ex prod.case remove_deck_contributor_def Inr_inject
    by blast
  have "seat_action t t1"
    using seat_action_frame [OF _ _ _ fold_seat_effect [OF t1]] is_betting_in_betting [OF bet]
    by (simp add: frame_def)
  from after_action_effect [OF this assms(2) disjI2 [OF t']]
  show "books t'" "no_gain t t'" "2 \<le> count_active_players (t_seats t) \<Longrightarrow> conserves t t'" by simp_all
qed

section \<open>Timeouts\<close>

text \<open>Kicking a list of players, with or without the cascade.\<close>

lemma kicks_effect:
  assumes "try_fold (\<lambda>(t, es) i. kick_player_internal C i cause t es) (t, es) is = Inr (t', es') \<or>
      try_fold (\<lambda>(t, es) i. kick_player_raw i cause t es) (t, es) is = Inr (t', es')" "books t"
  shows "books t'" "no_gain t t'"
proof -
  define P where "P = (\<lambda>r :: 'a table \<times> events. books (fst r) \<and> no_gain t (fst r))"
  have step: "P r'" if "P r" "kick_player_internal C i cause (fst r) (snd r) = Inr r' \<or> kick_player_raw i cause (fst r) (snd r) = Inr r'" for r i r'
    using kick_effect [of C i cause "fst r" "snd r" "fst r'" "snd r'"] that no_gain_trans unfolding P_def by auto
  have "P (t, es)" using assms(2) by (simp add: P_def)
  from assms(1) have "P (t', es')"
  proof (elim disjE)
    assume "try_fold (\<lambda>(t, es) i. kick_player_internal C i cause t es) (t, es) is = Inr (t', es')"
    from this \<open>P (t, es)\<close> show ?thesis
      by (rule try_fold_invariant) (auto simp only: case_prod_beta intro: step [OF _ disjI1])
  next
    assume "try_fold (\<lambda>(t, es) i. kick_player_raw i cause t es) (t, es) is = Inr (t', es')"
    from this \<open>P (t, es)\<close> show ?thesis
      by (rule try_fold_invariant) (auto simp only: case_prod_beta intro: step [OF _ disjI2])
  qed
  then show "books t'" "no_gain t t'" by (simp_all add: P_def)
qed

lemma hand_end_effect:
  assumes "end_without_showdown C t es = Inr (t', es') \<or>
      rbind (refund_all_bets t es) (\<lambda>(t, es). reset_for_next_hand C t es) = Inr (t', es') \<or>
      reset_for_next_hand C t es = Inr (t', es')" "books t"
  shows "books t'" "no_gain t t'"
proof -
  have len: "length (t_seats t) = MAX_SEATS" using assms(2) by (simp add: books_def)
  have "books t' \<and> no_gain t t'"
    using assms(1)
  proof (elim disjE)
    assume "end_without_showdown C t es = Inr (t', es')"
    from end_without_showdown_effect [OF this len] show ?thesis by simp
  next
    assume "rbind (refund_all_bets t es) (\<lambda>(t, es). reset_for_next_hand C t es) = Inr (t', es')"
    then obtain t1 es1 where "refund_all_bets t es = Inr (t1, es1)" "reset_for_next_hand C t1 es1 = Inr (t', es')"
      by (auto simp: result_simps)
    from refund_reset [OF this assms(2)] show ?thesis by simp
  next
    assume "reset_for_next_hand C t es = Inr (t', es')"
    from reset_books [OF this len] show ?thesis by simp
  qed
  then show "books t'" "no_gain t t'" by simp_all
qed

lemma protocol_step_effect:
  assumes "enters_protocol t t'" "in_protocol (t_hand_phase t)" "books t"
  shows "books t'" "no_gain t t'"
  using enters_protocol_effect [OF assms(1,3)] in_protocol_facts [OF assms(2)] assms(3) conserves_no_gain
  by (auto simp: books_def)

lemma reconstruct_timeout_effect:
  assumes "on_reconstruct_timeout C t es = Inr (t', es')" "books t"
  shows "books t'" "no_gain t t'"
proof -
  define E where "E = emit_event (ReconstructTimeout (t_id t) (reconstruct_pending t)) es"
  from assms(1) obtain t1 es1 where t1: "try_fold (\<lambda>(t, es) i. kick_player_internal C i KickReconstructTimeout t es) (t, E)
        (seat_mask_to_indices (reconstruct_pending t) (max_players t)) = Inr (t1, es1)"
    and rest: "end_without_showdown C t1 es1 = Inr (t', es') \<or> on_complete_reconstruct t1 es1 = Inr (t', es') \<or>
      (\<exists>es2. rbind (refund_all_bets t1 es1) (\<lambda>(t, es). reset_for_next_hand C t es) = Inr (t', es2))"
    by (fastforce simp: on_reconstruct_timeout_def Let_def result_simps E_def split: if_splits)
  note k = kicks_effect [OF disjI1 [OF t1] assms(2)]
  have "books t' \<and> no_gain t1 t'"
    using rest hand_end_effect [OF _ k(1)] on_complete_reconstruct_frame [of t1 es1 t' es'] protocol_step_effect [of t1 t'] k(1)
    by blast
  with no_gain_trans [OF k(2)] show "books t'" "no_gain t t'" by simp_all
qed

lemma reveal_timeout_effect:
  assumes "on_reveal_timeout C now t es = Inr (t', es')" "books t"
  shows "books t'" "no_gain t t'"
proof -
  define E where "E = emit_event (RevealTimeout (t_id t) (reveal_phase t) (pending_reveal_mask t)) es"
  from assms(1) obtain t1 es1 where t1: "try_fold (\<lambda>(t, es) i. kick_player_raw i KickTimeout t es) (t, E)
        (seat_mask_to_indices (pending_reveal_mask t) (max_players t)) = Inr (t1, es1)"
    and rest: "end_without_showdown C t1 es1 = Inr (t', es') \<or> start_reconstruct now t1 es1 = Inr (t', es') \<or>
      (\<exists>es2. rbind (refund_all_bets t1 es1) (\<lambda>(t, es). reset_for_next_hand C t es) = Inr (t', es2)) \<or>
      (\<exists>es2. reset_for_next_hand C t1 es1 = Inr (t', es2))"
    by (fastforce simp: on_reveal_timeout_def Let_def result_simps E_def split: if_splits)
  note k = kicks_effect [OF disjI2 [OF t1] assms(2)]
  have "in_protocol (t_hand_phase t1)" if "start_reconstruct now t1 es1 = Inr (t', es')"
    using that reveal_in_protocol
    by (auto simp: start_reconstruct_def take_reveal_payload_def result_simps Let_def split: option.splits)
  then have "books t' \<and> no_gain t1 t'"
    using rest hand_end_effect [OF _ k(1)] start_reconstruct_frame [of now t1 es1 t' es'] protocol_step_effect [of t1 t'] k(1)
    by blast
  with no_gain_trans [OF k(2)] show "books t'" "no_gain t t'" by simp_all
qed

lemma rebuild_deck_effect:
  assumes "rebuild_deck_and_shuffle_on_timeout C phase t es = Inr (t', es')" "books t" "in_protocol (t_hand_phase t)"
    and "phase = SHUFFLE_PHASE_RECONSTRUCT \<or> t_pot t = 0"
  shows "books t'" "no_gain t t'" "in_protocol (t_hand_phase t')"
proof -
  from assms(1) obtain t1 where t1: "set_initial_encrypted_deck C t = Inr t1"
    and t': "(\<exists>t2 susp. phase = SHUFFLE_PHASE_RECONSTRUCT \<and> take_reveal_payload t1 = Inr (t2, susp) \<and>
        enter_reconstruct_shuffling (round_state t1) \<lparr>sh_pending_mask = get_active_seat_mask (t_seats t1), sh_completed_mask = 0\<rparr> susp 0 t2 = Inr t') \<or>
      phase \<noteq> SHUFFLE_PHASE_RECONSTRUCT \<and>
        enter_initial_shuffling \<lparr>sh_pending_mask = get_active_seat_mask (t_seats t1), sh_completed_mask = 0\<rparr> 0 t1 = Inr t'"
    by (auto simp: rebuild_deck_and_shuffle_on_timeout_def Let_def result_simps split: if_splits)
  have f: "frame t t'" "in_protocol (t_hand_phase t')" "before_deal (t_hand_phase t') \<longrightarrow> t_pot t = 0"
    using t' set_initial_deck_fields [OF t1] take_reveal_frame [of t1] assms(4)
    by (auto simp: enter_reconstruct_shuffling_def enter_initial_shuffling_def result_simps frame_def)
  have "bets t = 0" using assms(2,3) in_protocol_facts by (auto simp: books_def)
  then show "books t'" "no_gain t t'" "in_protocol (t_hand_phase t')"
    using f frame_accounts [OF f(1)] assms(2) conserves_no_gain by (auto simp: books_def)
qed

lemma shuffle_phases:
  "shuffle_phase t = SHUFFLE_PHASE_NONE \<or> shuffle_phase t = SHUFFLE_PHASE_RECONSTRUCT \<or> shuffle_phase t = SHUFFLE_PHASE_BEFORE_PREFLOP"
proof (cases "table_shuffling_purpose t")
  case (Some p)
  then show ?thesis by (cases p) (auto simp: shuffle_phase_def)
qed (simp add: shuffle_phase_def)

lemma shuffle_timeout_effect:
  assumes "on_shuffle_timeout C t es = Inr (t', es')" "books t"
  shows "books t'" "no_gain t t'"
proof -
  define i where "i = derived_current_shuffler (table_shuffle_state t)"
  from assms(1) obtain t1 es0 es1 where d: "shuffle_deadline_ms t \<noteq> None"
    and t1: "kick_player_internal C i KickTimeout t es0 = Inr (t1, es1)"
    and rest: "end_without_showdown C t1 es1 = Inr (t', es') \<or> t' = t1 \<or>
      (\<exists>es2. rbind (refund_all_bets t1 es1) (\<lambda>(t, es). reset_for_next_hand C t es) = Inr (t', es2)) \<or>
      shuffle_phase t1 \<noteq> SHUFFLE_PHASE_NONE \<and>
        (\<exists>t2 es2. rebuild_deck_and_shuffle_on_timeout C (shuffle_phase t) t1 es1 = Inr (t2, es2) \<and> advance_shuffle t2 es2 = Inr (t', es'))"
    by (fastforce simp: on_shuffle_timeout_def Let_def result_simps i_def split: if_splits)
  note k = kick_effect [OF disjI1 [OF t1] assms(2)]
  have pot: "shuffle_phase t = SHUFFLE_PHASE_RECONSTRUCT \<or> t_pot t1 = 0"
  proof (cases "shuffle_phase t = SHUFFLE_PHASE_RECONSTRUCT")
    case False
    with d have "before_deal (t_hand_phase t)"
      by (cases "t_hand_phase t" rule: before_deal.cases)
        (auto simp: shuffle_deadline_ms_def shuffle_phase_def table_shuffling_purpose_def)
    with t1 assms(2) show ?thesis
      using kick_in_place_before_deal by (fastforce simp: kick_player_internal_def result_simps)
  qed simp
  have "books t' \<and> no_gain t1 t'"
    using rest
  proof (elim disjE exE conjE)
    fix t2 es2 assume "shuffle_phase t1 \<noteq> SHUFFLE_PHASE_NONE"
      and t2: "rebuild_deck_and_shuffle_on_timeout C (shuffle_phase t) t1 es1 = Inr (t2, es2)" "advance_shuffle t2 es2 = Inr (t', es')"
    note r = rebuild_deck_effect [OF t2(1) k(1) shuffle_phase_protocol pot]
    note a = advance_shuffle_effect [OF t2(2)]
    from r a \<open>shuffle_phase t1 \<noteq> SHUFFLE_PHASE_NONE\<close> show ?thesis using no_gain_trans conserves_no_gain by blast
  qed (use hand_end_effect [OF _ k(1), of C es1 t'] k(1) in \<open>simp, blast?\<close>)+
  with no_gain_trans [OF k(2)] show "books t'" "no_gain t t'" by simp_all
qed

lemma betting_timeout_effect:
  assumes "on_betting_timeout C t es = Inr (t', es')" "books t" "max_players t \<le> MAX_SEATS"
  shows "books t'" "no_gain t t'"
proof -
  from assms(1) obtain action es1 where "apply_player_action C (current_turn t) action t es = Inr (t', es1)"
    using betting_commands [of C "current_turn t" t es t' es' FOLD_REASON_AUTO_TIMEOUT] by (auto simp: on_betting_timeout_def)
  from player_action_effect [OF this assms(2,3)] show "books t'" "no_gain t t'" by simp_all
qed

end
