(* ===== verification/Poker_Ledger.thy ===== *)
theory Poker_Ledger
  imports Poker_Removal
begin

text \<open>
  Custody of chips across the whole engine: normalisation, deadlines, funding, joining, leaving,
  starting a hand, and finally the dispatcher and every sequence of calls.
\<close>

section \<open>Normalisation\<close>

text \<open>What validation of the table gives to the accounts.\<close>

lemma valid_facts:
  assumes "validate_state_schema G t = Inr ()"
  shows "padding_seats_are_vacant t" "max_players t \<le> MAX_SEATS" "2 \<le> max_players t"
    "round_state t = ROUND_WAITING \<Longrightarrow> before_deal (t_hand_phase t)"
proof -
  note v = validate_state_schema_Inr [OF assms]
  show "padding_seats_are_vacant t" by (rule v(2))
  show "max_players t \<le> MAX_SEATS" "2 \<le> max_players t"
    using v(1) by (simp_all add: rules_validate_def split: if_splits)
  show "before_deal (t_hand_phase t)" if "round_state t = ROUND_WAITING"
    using v(3) that
    by (cases "t_hand_phase t" rule: before_deal.cases)
      (auto simp: validate_hand_phase_def round_state_def is_live_street_def result_simps
        ROUND_WAITING_def ROUND_PREFLOP_def ROUND_FLOP_def ROUND_TURN_def ROUND_RIVER_def ROUND_SHOWDOWN_def split: if_splits)
qed

lemma normalization_step_effect:
  assumes "run_normalization_step C st t es = Inr (t', es')" "books t" "padding_seats_are_vacant t"
  shows "books t'" "no_gain t t'"
proof -
  have len: "length (t_seats t) = MAX_SEATS" using assms(2) by (simp add: books_def)
  have "books t' \<and> no_gain t t'"
  proof (cases st)
    case NCompleteReconstruct
    with on_complete_reconstruct_frame [of t es t' es'] protocol_step_effect [of t t'] assms show ?thesis by simp
  next
    case NAdvanceShuffle
    with advance_shuffle_effect [of t es t' es'] assms conserves_no_gain show ?thesis by simp
  next
    case NCompleteReveal
    with check_reveal_effect [of C t es t' es'] assms conserves_no_gain show ?thesis by simp
  next
    case NEndWithoutShowdown
    with end_without_showdown_effect [of C t es t' es'] assms len show ?thesis by simp
  next
    case NAdvanceBettingRound
    with assms(1) obtain t1 es1 where "collect_bets_to_pot t es = Inr (t1, es1)" "advance_round C t1 es1 = Inr (t', es')"
      by (auto simp: result_simps)
    from collect_advance_effect [OF this assms(2)] show ?thesis by simp
  qed
  then show "books t'" "no_gain t t'" by simp_all
qed

lemma normalize_loop_effect:
  assumes "normalize_loop n C now t es steps = Inr (t', es', steps')" "books t" "validate_state_schema (cr_group C) t = Inr ()"
  shows "books t' \<and> no_gain t t' \<and> validate_state_schema (cr_group C) t' = Inr ()"
  using assms
proof (induction n arbitrary: t es steps)
  case 0
  then show ?case by simp
next
  case (Suc n)
  from Suc.prems(1) obtain st where st: "next_normalization_step t = Inr st" by (auto simp: result_simps)
  show ?case
  proof (cases st)
    case None
    with Suc.prems st show ?thesis by simp
  next
    case (Some s)
    with Suc.prems(1) st obtain t1 es1 t2 b where t1: "run_normalization_step C s t es = Inr (t1, es1)"
      and t2: "arm_active_deadline_if_needed now t1 = Inr (t2, b)" "validate_state_schema (cr_group C) t2 = Inr ()"
      and rest: "normalize_loop n C now t2 es1 (steps @ [s]) = Inr (t', es', steps')"
      by (auto simp: result_simps split: if_splits)
    note a = normalization_step_effect [OF t1 Suc.prems(2) valid_facts(1) [OF Suc.prems(3)]]
    note b = arm_active_effect [OF t2(1) a(1)]
    from Suc.IH [OF rest b(1) t2(2)] no_gain_trans [OF no_gain_trans [OF a(2) conserves_no_gain [OF b(2)]]]
    show ?thesis by simp
  qed
qed

lemma normalize_loop_valid:
  assumes "normalize_loop n C now t es steps = Inr (t', es', steps')" "validate_state_schema (cr_group C) t = Inr ()"
  shows "validate_state_schema (cr_group C) t' = Inr ()"
  using assms
proof (induction n arbitrary: t es steps)
  case (Suc n)
  from Suc.prems(1) obtain st where st: "next_normalization_step t = Inr st" by (auto simp: result_simps)
  with Suc show ?case by (cases st) (auto simp: result_simps split: if_splits)
qed simp

lemma normalize_effect:
  assumes "normalize_until_blocked_in_place C now t es = Inr (t', es', steps)" "books t"
  shows "books t'" "no_gain t t'" "validate_state_schema (cr_group C) t' = Inr ()"
proof -
  from assms(1) obtain t1 b where t1: "arm_active_deadline_if_needed now t = Inr (t1, b)" "validate_state_schema (cr_group C) t1 = Inr ()"
    and l: "normalize_loop MAX_NORMALIZATION_STEPS C now t1 es [] = Inr (t', es', steps)"
    by (auto simp: normalize_until_blocked_in_place_def result_simps)
  note a = arm_active_effect [OF t1(1) assms(2)]
  from normalize_loop_effect [OF l a(1) t1(2)] no_gain_trans [OF conserves_no_gain [OF a(2)]]
  show "books t'" "no_gain t t'" "validate_state_schema (cr_group C) t' = Inr ()" by simp_all
qed

section \<open>Deadlines\<close>

lemma consume_deadline_effect:
  assumes "consume_deadline C now kind subject deadline pre f t es = Inr (t', es', ex)" "books t"
    and "\<And>t1 es1. f t es = Inr (t1, es1) \<Longrightarrow> books t1 \<and> no_gain t t1"
  shows "books t'" "no_gain t t'"
proof -
  have "books t' \<and> no_gain t t'"
  proof (cases "now < deadline")
    case True
    with assms show ?thesis by (simp add: consume_deadline_def)
  next
    case False
    with assms(1) obtain t1 es1 post where t1: "f t es = Inr (t1, es1)"
      and n: "normalize_until_blocked_in_place C now t1 es1 = Inr (t', es', post)"
      by (auto simp: consume_deadline_def result_simps)
    from assms(3) [OF t1] normalize_effect [OF n] no_gain_trans show ?thesis by blast
  qed
  then show "books t'" "no_gain t t'" by simp_all
qed

lemma time_bank_effect:
  assumes "consume_time_bank i n t es = Inr (t', es')"
  shows "same_money t t'" "t_hand_phase t' = t_hand_phase t"
proof -
  have "seat_stack (set_time_bank_ms v s) = seat_stack s \<and> seat_bet (set_time_bank_ms v s) = seat_bet s \<and>
    seat_total_bet (set_time_bank_ms v s) = seat_total_bet s \<and> seat_pending_addon (set_time_bank_ms v s) = seat_pending_addon s \<and>
    seat_is_vacant (set_time_bank_ms v s) = seat_is_vacant s" for v and s :: "'a seat"
    by (cases s) simp_all
  with assms show "same_money t t'" "t_hand_phase t' = t_hand_phase t"
    by (cases "i < length (t_seats t)"; auto simp: consume_time_bank_def Let_def same_money_def list_all2_conv_all_nth
        nth_list_update list_update_beyond split: if_splits)+
qed

lemma extend_effect:
  "extend_betting_deadline n t = Inr (t', d) \<Longrightarrow> frame t t' \<and> in_betting (t_hand_phase t) \<and> in_betting (t_hand_phase t')"
  by (auto simp: extend_betting_deadline_def frame_def result_simps split: hand_phase.splits)

lemma betting_deadline_effect:
  assumes "advance_betting_deadline C now pre t es = Inr (t', es', ex)" "books t" "max_players t \<le> MAX_SEATS"
  shows "books t'" "no_gain t t'"
proof -
  from assms(1) consider (bank) n t1 d where "consume_time_bank (current_turn t) n t es = Inr (t1, es')" "extend_betting_deadline n t1 = Inr (t', d)"
    | (fold) deadline where "consume_deadline C now DeadBetting (current_turn t) deadline pre (on_betting_timeout C) t es = Inr (t', es', ex)"
    by (auto simp: advance_betting_deadline_def Let_def result_simps split: if_splits)
  then have "books t' \<and> no_gain t t'"
  proof cases
    case bank
    note s = time_bank_effect [OF bank(1)] and e = extend_effect [OF bank(2)]
    note m = same_money_effect [OF s(1)] and f = frame_accounts [OF conjunct1 [OF e]]
    have "books t'" using assms(2) m f e s(2) by (auto simp: books_def dest: before_deal_not_betting)
    with conserves_no_gain [OF conserves_trans [OF m(3) f(8)]] show ?thesis by simp
  next
    case fold
    from consume_deadline_effect [OF fold assms(2)] betting_timeout_effect [OF _ assms(2,3)] show ?thesis by blast
  qed
  then show "books t'" "no_gain t t'" by simp_all
qed

lemma advance_deadline_effect:
  assumes "advance_deadline_in_place C now t es = Inr (t', es', ex)" "books t"
  shows "books t'" "no_gain t t'"
proof -
  from assms(1) obtain t1 es1 pre where n: "normalize_until_blocked_in_place C now t es = Inr (t1, es1, pre)"
    and rest: "(\<exists>d. consume_deadline C now DeadReconstruct NO_SEAT d pre (on_reconstruct_timeout C) t1 es1 = Inr (t', es', ex)) \<or>
      (\<exists>i d. consume_deadline C now DeadShuffle i d pre (on_shuffle_timeout C) t1 es1 = Inr (t', es', ex)) \<or>
      (\<exists>i d. consume_deadline C now DeadReveal i d pre (on_reveal_timeout C now) t1 es1 = Inr (t', es', ex)) \<or>
      advance_betting_deadline C now pre t1 es1 = Inr (t', es', ex) \<or>
      (\<exists>d. showdown_deadline_ms t1 = Some d \<and> consume_deadline C now DeadShowdownDisplay NO_SEAT d pre (settle_hand C) t1 es1 = Inr (t', es', ex)) \<or>
      t' = t1"
  proof -
    from assms(1) obtain r where r: "normalize_until_blocked_in_place C now t es = Inr r"
      by (auto simp: advance_deadline_in_place_def result_simps)
    obtain t1 es1 pre where e: "r = (t1, es1, pre)" by (cases r) auto
    show ?thesis
      by (rule that [of t1 es1 pre], use r e in simp)
        (use assms(1) r e in \<open>auto simp: advance_deadline_in_place_def result_simps split: if_splits\<close>)
  qed
  note a = normalize_effect [OF n assms(2)]
  have "\<not> in_betting (t_hand_phase t1)" if "showdown_deadline_ms t1 = Some d" for d
    using that by (auto simp: showdown_deadline_ms_def split: hand_phase.splits)
  then have "books t' \<and> no_gain t1 t'"
    using rest
  proof (elim disjE exE conjE)
    fix d assume "consume_deadline C now DeadReconstruct NO_SEAT d pre (on_reconstruct_timeout C) t1 es1 = Inr (t', es', ex)"
    from consume_deadline_effect [OF this a(1)] reconstruct_timeout_effect [OF _ a(1)] show ?thesis by blast
  next
    fix i d assume "consume_deadline C now DeadShuffle i d pre (on_shuffle_timeout C) t1 es1 = Inr (t', es', ex)"
    from consume_deadline_effect [OF this a(1)] shuffle_timeout_effect [OF _ a(1)] show ?thesis by blast
  next
    fix i d assume "consume_deadline C now DeadReveal i d pre (on_reveal_timeout C now) t1 es1 = Inr (t', es', ex)"
    from consume_deadline_effect [OF this a(1)] reveal_timeout_effect [OF _ a(1)] show ?thesis by blast
  next
    assume "advance_betting_deadline C now pre t1 es1 = Inr (t', es', ex)"
    from betting_deadline_effect [OF this a(1) valid_facts(2) [OF a(3)]] show ?thesis by blast
  next
    fix d assume d: "showdown_deadline_ms t1 = Some d"
      and s: "consume_deadline C now DeadShowdownDisplay NO_SEAT d pre (settle_hand C) t1 es1 = Inr (t', es', ex)"
      and nb: "\<And>d. showdown_deadline_ms t1 = Some d \<Longrightarrow> \<not> in_betting (t_hand_phase t1)"
    from consume_deadline_effect [OF s a(1)] settle_hand_effect [OF _ a(1) nb [OF d]] conserves_no_gain show ?thesis by blast
  qed (use a(1) in simp)
  with no_gain_trans [OF a(2)] show "books t'" "no_gain t t'" by simp_all
qed

section \<open>Funding, joining, leaving and starting a hand\<close>

lemma set_money_views:
  "set_stack v s = Inr s' \<Longrightarrow> seat_stack s' = v \<and> seat_bet s' = seat_bet s \<and> seat_total_bet s' = seat_total_bet s \<and>
     seat_pending_addon s' = seat_pending_addon s"
  "set_pending_addon v s = Inr s' \<Longrightarrow> seat_pending_addon s' = v \<and> seat_bet s' = seat_bet s \<and> seat_total_bet s' = seat_total_bet s \<and>
     seat_stack s' = seat_stack s"
  by (cases s; auto split: if_splits)+

lemma fund_effect:
  assumes "apply_fund_seat i amount timing t es = Inr (t', es')" "books t"
  shows "books t'" "deposits amount t t'"
proof -
  let ?s = "t_seats t ! i"
  from assms(1) obtain s' where i: "i < length (t_seats t)"
    and s': "timing = NextHand \<and> set_pending_addon (seat_pending_addon ?s + amount) ?s = Inr s' \<or>
      timing = Immediate \<and> set_stack (seat_stack ?s + amount) ?s = Inr s'"
    and t': "t' = t\<lparr>t_seats := (t_seats t)[i := s'], t_chip_pool := t_chip_pool t + amount\<rparr>"
    by (cases timing) (auto simp: apply_fund_seat_def Let_def result_simps update_seat_Inr split: if_splits)
  have v: "seat_stack s' + seat_pending_addon s' = seat_stack ?s + seat_pending_addon ?s + amount"
    "seat_bet s' = seat_bet ?s" "seat_total_bet s' = seat_total_bet ?s"
    using s' set_money_views [of _ ?s s'] by auto
  have u: "bets t' = bets t" "wagered t' = wagered t" "held t' = held t + amount"
    using update_sums [of i t t' s'] i t' v by (simp_all add: held_def)
  then show "books t'" "deposits amount t t'" using assms(2) t' by (simp_all add: books_def deposits_def owed_def)
qed

lemma set_leave_effect:
  "apply_set_leave_after_hand i w t es = Inr (t', es', b) \<Longrightarrow> frame t t' \<and> t_hand_phase t' = t_hand_phase t"
  by (auto simp: apply_set_leave_after_hand_def Let_def frame_def split: if_splits)

lemma new_seat_views:
  "seat_occupied is_id player stack pk tx Waiting = Inr s \<Longrightarrow>
     seat_stack s = stack \<and> seat_bet s = 0 \<and> seat_total_bet s = 0 \<and> seat_pending_addon s = 0"
  by (auto simp: seat_occupied_def Let_def split: if_splits sum.splits)

lemma join_effect:
  assumes "apply_join_table C player buy_in pk tx owns t es = Inr (t', es')" "books t"
  shows "books t'" "deposits buy_in t t'"
proof -
  define t1 where "t1 = (\<lambda>i s. set_seat_wants_leave i False (set_seat_acted_this_round i False t)
      \<lparr>t_seats := (t_seats t)[i := s], t_chip_pool := t_chip_pool t + buy_in\<rparr>)"
  from assms(1) obtain i s m where i: "find_empty_seat t = Some i"
    and s: "seat_occupied (g1_is_identity (cr_group C)) player buy_in pk tx Waiting = Inr s"
    and t': "t' = set_contributor_mask m (t1 i s)"
    by (auto simp: apply_join_table_def add_deck_contributor_def result_simps Let_def t1_def split: if_splits)
  have t1: "t_seats (t1 i s) = (t_seats t)[i := s]" "t_chip_pool (t1 i s) = t_chip_pool t + buy_in"
    "t_pot (t1 i s) = t_pot t" "t_hand_phase (t1 i s) = t_hand_phase t" by (simp_all add: t1_def)
  from i have v: "i < length (t_seats t)" "seat_is_vacant (t_seats t ! i)"
    by (simp_all add: find_empty_seat_def position_Some_iff)
  note u = update_sums [OF v(1) t1(1)]
  have "bets t' = bets (t1 i s)" "wagered t' = wagered (t1 i s)" "held t' = held (t1 i s)" by (simp_all add: t' account_defs)
  then have "bets t' = bets t" "wagered t' = wagered t" "held t' = held t + buy_in"
    using u v(2) new_seat_views [OF s] by (simp_all add: held_def)
  then show "books t'" "deposits buy_in t t'" using assms(2) t1 by (simp_all add: t' books_def deposits_def owed_def)
qed

lemma nothing_wagered:
  assumes "books t" "before_deal (t_hand_phase t)" "i < length (t_seats t)"
  shows "seat_bet (t_seats t ! i) = 0" "seat_total_bet (t_seats t ! i) = 0"
proof -
  have "bets t = 0" "wagered t = 0" using assms(1,2) before_deal_not_betting by (auto simp: books_def)
  then show "seat_bet (t_seats t ! i) = 0" "seat_total_bet (t_seats t ! i) = 0"
    using nth_mem [OF assms(3)] by (simp_all add: bets_def wagered_def)
qed

lemma leave_effect:
  assumes "apply_leave_table C i t es = Inr (t', es')" "books t" "validate_state_schema G t = Inr ()"
  shows "books t'" "conserves t t'"
proof -
  let ?s = "t_seats t ! i"
  define refund where "refund = seat_stack ?s + seat_pending_addon ?s"
  define t1 where "t1 = (if refund > 0 then t\<lparr>t_chip_pool := t_chip_pool t - refund\<rparr> else t)\<lparr>t_seats := (t_seats t)[i := seat_empty]\<rparr>"
  from assms(1) obtain m where r: "round_state t = ROUND_WAITING" and i: "i < length (t_seats t)" and pool: "refund \<le> t_chip_pool t"
    and t': "t' = set_contributor_mask m t1"
    unfolding apply_leave_table_def remove_deck_contributor_def can_leave_state_def can_join_state_def
        seat_at_def refund_def Let_def t1_def if_Inl_Inr_iff rbind_Inr_iff ok_or_Inr_iff checked_add_Some_iff checked_sub_Some_iff
    by (auto split: if_splits)
  have t1: "t_seats t1 = (t_seats t)[i := seat_empty]" "t_chip_pool t1 = t_chip_pool t - refund" "t_pot t1 = t_pot t" "t_hand_phase t1 = t_hand_phase t"
    by (simp_all add: t1_def)
  note n = nothing_wagered [OF assms(2) valid_facts(4) [OF assms(3) r] i]
  note u = update_sums [OF i t1(1)]
  have "bets t' = bets t1" "wagered t' = wagered t1" "held t' = held t1" by (simp_all add: t' account_defs)
  then have "bets t' = bets t" "wagered t' = wagered t" "held t' + refund = held t"
    using u n by (simp_all add: held_def refund_def)
  then show "books t'" "conserves t t'" using assms(2) t1 pool by (simp_all add: t' books_def conserves_def owed_def)
qed

text \<open>Promotion changes who plays, not who owns what.\<close>

lemma promote_vacant [simp]: "seat_is_vacant (fst (promote_waiting s)) = seat_is_vacant s"
  by (cases s) (simp_all add: fresh_playing_def)

lemma promote_at_chips: "same_money t (promote_at i t) \<and> t_hand_phase (promote_at i t) = t_hand_phase t"
  by (cases "i < length (t_seats t)")
    (auto simp: promote_at_def same_money_def list_all2_conv_all_nth nth_list_update list_update_beyond)

lemma promote_until_chips: "same_money t (promote_until is n t) \<and> t_hand_phase (promote_until is n t) = t_hand_phase t"
proof (induction "is" n t rule: promote_until.induct)
  case (2 i "is" n t)
  then show ?case using promote_at_chips [of t i] same_money_trans by auto
qed simp

lemma promote_chips:
  "same_money t (promote_waiting_for_big_blind t) \<and> t_hand_phase (promote_waiting_for_big_blind t) = t_hand_phase t"
proof (cases "count_active_occupied (t_seats t) = 0")
  case True
  then show ?thesis by (simp add: promote_waiting_for_big_blind_def same_money_def list_all2_conv_all_nth)
next
  case False
  define base where "base = (if t_last_bb_seat t \<noteq> NO_SEAT then t_last_bb_seat t else t_button t)"
  define u where "u = (case List.find (\<lambda>i. seat_is_occupied (t_seats t ! i)) (clockwise base (max_players t)) of
      None \<Rightarrow> t | Some i \<Rightarrow> if seat_is_waiting (t_seats t ! i) then promote_at i t else t)"
  have u: "same_money t u \<and> t_hand_phase u = t_hand_phase t"
    by (simp add: u_def promote_at_chips split: option.split)
  then have "same_money t (promote_until is n u) \<and> t_hand_phase (promote_until is n u) = t_hand_phase t" for "is" n
    using promote_until_chips [of u "is" n] same_money_trans by auto
  moreover have "promote_waiting_for_big_blind t = (if count_active_occupied (t_seats u) < MIN_PLAYERS_TO_START
      then promote_until (clockwise (t_button u) (max_players t)) (count_active_occupied (t_seats u)) u else u)"
    using False by (simp only: promote_waiting_for_big_blind_def Let_def u_def base_def if_False)
  ultimately show ?thesis using u by simp
qed

lemma start_hand_effect:
  assumes "start_hand C t es = Inr (t', es')" "books t" "validate_state_schema G t = Inr ()"
  shows "books t'" "conserves t t'"
proof -
  define t1 where "t1 = promote_waiting_for_big_blind (move_button t)"
  from assms(1) obtain t2 st t3 es3 where r: "round_state t = ROUND_WAITING" and t2: "set_initial_encrypted_deck C t1 = Inr t2"
    and t3: "enter_initial_shuffling st 0 t2 = Inr t3" and t': "advance_shuffle t3 es3 = Inr (t', es')"
    by (auto simp: start_hand_def Let_def result_simps t1_def)
  have "before_deal (t_hand_phase t)" by (rule valid_facts(4) [OF assms(3) r])
  then have z: "bets t = 0" "t_pot t = 0" using assms(2) before_deal_not_betting by (auto simp: books_def)
  have m: "same_money t t1" "t_hand_phase t1 = t_hand_phase t"
    using promote_chips [of "move_button t"] by (auto simp: t1_def move_button_def same_money_def)
  have f: "frame t1 t3" "in_protocol (t_hand_phase t3)"
    using t3 set_initial_deck_fields [OF t2] by (auto simp: enter_initial_shuffling_def result_simps frame_def)
  note s = same_money_effect [OF m(1)] and a = frame_accounts [OF f(1)]
  have "books t3" "conserves t t3"
    using assms(2) s a z conserves_trans [OF s(3) a(8)] by (auto simp: books_def)
  with advance_shuffle_effect [OF t'] conserves_trans show "books t'" "conserves t t'" by blast+
qed

section \<open>Calls\<close>

lemma create_effect:
  assumes "apply_create_table creator mp sb bb rit t = Inr t'"
  shows "books t'" "owed t' = 0" "t_chip_pool t' = 0" "t_creator t' = creator" "t_hand_phase t' = PhaseWaiting"
proof -
  from assms obtain t1 where t1: "table_new (t_id t) creator mp sb bb = Inr t1" and t': "t' = t1\<lparr>t_rules := (t_rules t1)\<lparr>r_rit_mode := rit\<rparr>\<rparr>"
    by (auto simp: apply_create_table_def result_simps split: if_splits)
  from t1 show "books t'" "owed t' = 0" "t_chip_pool t' = 0" "t_creator t' = creator" "t_hand_phase t' = PhaseWaiting"
    by (auto simp: table_new_def t' books_def account_defs MAX_SEATS_def split: if_splits)
qed

lemma betting_call_effect:
  assumes "apply_fold C i t es = Inr (t', es') \<or> apply_check C i t es = Inr (t', es') \<or> apply_call C i t es = Inr (t', es') \<or>
    apply_raise C i n t es = Inr (t', es') \<or> apply_bet C i n t es = Inr (t', es') \<or> apply_fold_internal C i n t es = Inr (t', es')"
    and "books t" "validate_state_schema G t = Inr ()"
  shows "books t' \<and> no_gain t t'"
proof -
  from betting_commands [OF assms(1)] obtain action es1 where "apply_player_action C i action t es = Inr (t', es1)" by blast
  from player_action_effect [OF this assms(2) valid_facts(2) [OF assms(3)]] show ?thesis by simp
qed

lemma protocol_call_effect:
  assumes "apply_submit_shuffle_v2 C i cts v t es = Inr (t', es') \<or> apply_submit_reconstruct_deck C L i st w t es = Inr (t', es')" "books t"
  shows "books t' \<and> no_gain t t'"
proof -
  have "enters_protocol t t' \<and> in_protocol (t_hand_phase t)"
    using assms(1)
  proof (elim disjE)
    assume a: "apply_submit_shuffle_v2 C i cts v t es = Inr (t', es')"
    then have "shuffle_phase t \<noteq> SHUFFLE_PHASE_NONE" by (auto simp: apply_submit_shuffle_v2_def split: if_splits)
    with submit_shuffle_frame [OF a] shuffle_phase_protocol show ?thesis by blast
  next
    assume a: "apply_submit_reconstruct_deck C L i st w t es = Inr (t', es')"
    then obtain t1 where "active_reconstruct_state_mut (\<lambda>m. seat_mask_remove m i) t = Inr t1"
      by (auto simp: apply_submit_reconstruct_deck_def result_simps Let_def split: if_splits)
    with submit_reconstruct_frame [OF a] show ?thesis by (auto simp: active_reconstruct_state_mut_def split: hand_phase.splits)
  qed
  with protocol_step_effect assms(2) show ?thesis by blast
qed

text \<open>What a call puts into the vault.\<close>

definition paid_in :: "'pt call \<Rightarrow> nat" where
  "paid_in c = (case c of CallJoinTable _ buy_in _ _ _ \<Rightarrow> buy_in | CallAddon _ amount \<Rightarrow> amount
     | CallRebuy _ amount \<Rightarrow> amount | _ \<Rightarrow> 0)"

definition creates :: "'pt call \<Rightarrow> bool" where
  "creates c \<longleftrightarrow> (\<exists>mp sb bb rit. c = CallCreateTable mp sb bb rit)"

lemma creates_table [simp, intro]: "creates (CallCreateTable mp sb bb rit)"
  by (simp add: creates_def)

lemma other_call_effect:
  assumes "run_call C L ctx c t es = Inr (t', es')" "books t" "validate_state_schema (cr_group C) t = Inr ()"
    and "\<not> creates c"
    and "\<not> (\<exists>player buy_in pk tx owns i n. c = CallJoinTable player buy_in pk tx owns \<or> c = CallAddon i n \<or> c = CallRebuy i n)"
  shows "books t' \<and> no_gain t t'"
proof (cases c)
  case (CallCreateTable mp sb bb rit)
  with assms(4) show ?thesis by (auto simp: creates_def)
next
  case (CallLeaveTable i)
  with assms obtain j where "apply_leave_table C j t es = Inr (t', es')" by (auto simp: as_player_def result_simps)
  from leave_effect [OF this assms(2,3)] conserves_no_gain show ?thesis by blast
next
  case CallStartHand
  with assms have "start_hand C t es = Inr (t', es')" by (auto simp: as_creator_def result_simps)
  from start_hand_effect [OF this assms(2,3)] conserves_no_gain show ?thesis by blast
next
  case CallAdvanceDeadline
  with assms(1) obtain es1 ex where "advance_deadline_in_place C (dc_block_timestamp ctx) t [] = Inr (t', es1, ex)"
    by (auto simp: advance_deadline_def advance_deadline_with_report_def result_simps)
  from advance_deadline_effect [OF this assms(2)] show ?thesis by simp
next
  case (CallKickPlayer i)
  with assms have "kick_player_internal C i KickAdmin t es = Inr (t', es')" by (auto simp: as_creator_def result_simps)
  from kick_effect [OF disjI1 [OF this] assms(2)] show ?thesis by blast
next
  case (CallSubmitPlayerRevealTokens i tokens proofs)
  with assms obtain j where "apply_submit_player_reveal_tokens C j tokens proofs t es = Inr (t', es')" by (auto simp: as_player_def result_simps)
  from reveal_tokens_effect [OF this assms(2) valid_facts(1) [OF assms(3)]] conserves_no_gain show ?thesis by blast
next
  case (CallSetLeaveAfterHand i want)
  with assms obtain j es1 b where "apply_set_leave_after_hand j want t es = Inr (t', es1, b)"
    by (auto simp: as_player_def result_simps)
  from set_leave_effect [OF this] frame_same_phase_books frame_accounts(8) conserves_no_gain assms(2) show ?thesis by blast
next
  case (CallFoldWithProof i cts v)
  with assms obtain j where "apply_fold_with_proof C j cts v t es = Inr (t', es')" by (auto simp: as_player_def result_simps)
  from fold_with_proof_effect [OF this assms(2)] show ?thesis by blast
next
  case (CallForceFold i)
  with assms have "apply_fold_internal C i FOLD_REASON_FORCE_ADMIN t es = Inr (t', es')" by (auto simp: as_creator_def result_simps)
  with betting_call_effect [of C i t es t' es' FOLD_REASON_FORCE_ADMIN] assms(2,3) show ?thesis by blast
next
  case (CallFold i)
  with assms obtain j where "apply_fold C j t es = Inr (t', es')" by (auto simp: as_player_def result_simps)
  with betting_call_effect [of C j t es t' es' 0] assms(2,3) show ?thesis by blast
next
  case (CallCheck i)
  with assms obtain j where "apply_check C j t es = Inr (t', es')" by (auto simp: as_player_def result_simps)
  with betting_call_effect [of C j t es t' es' 0] assms(2,3) show ?thesis by blast
next
  case (CallCall i)
  with assms obtain j where "apply_call C j t es = Inr (t', es')" by (auto simp: as_player_def result_simps)
  with betting_call_effect [of C j t es t' es' 0] assms(2,3) show ?thesis by blast
next
  case (CallRaise i n)
  with assms obtain j where "apply_raise C j n t es = Inr (t', es')" by (auto simp: as_player_def result_simps)
  with betting_call_effect [of C j t es t' es' n] assms(2,3) show ?thesis by blast
next
  case (CallBet i n)
  with assms obtain j where "apply_bet C j n t es = Inr (t', es')" by (auto simp: as_player_def result_simps)
  with betting_call_effect [of C j t es t' es' n] assms(2,3) show ?thesis by blast
next
  case (CallSubmitShuffleV2 i cts v)
  with assms obtain j where "apply_submit_shuffle_v2 C j cts v t es = Inr (t', es')" by (auto simp: as_player_def result_simps)
  with protocol_call_effect assms(2) show ?thesis by blast
next
  case (CallSubmitReconstructDeck i st v)
  with assms obtain j where "apply_submit_reconstruct_deck C L j st v t es = Inr (t', es')" by (auto simp: as_player_def result_simps)
  with protocol_call_effect assms(2) show ?thesis by blast
qed (use assms(5) in blast)+

lemma run_call_effect:
  assumes "run_call C L ctx c t es = Inr (t', es')" "books t" "validate_state_schema (cr_group C) t = Inr ()"
    and "\<not> creates c"
  shows "books t' \<and> deposits (paid_in c) t t'"
proof (cases "\<exists>player buy_in pk tx owns i n. c = CallJoinTable player buy_in pk tx owns \<or> c = CallAddon i n \<or> c = CallRebuy i n")
  case True
  then consider (join) player buy_in pk tx owns where "c = CallJoinTable player buy_in pk tx owns"
    | (addon) i n where "c = CallAddon i n" | (rebuy) i n where "c = CallRebuy i n" by blast
  then show ?thesis
  proof cases
    case join
    with assms join_effect [of C player buy_in pk tx owns t es t' es'] show ?thesis
      by (auto simp: paid_in_def split: if_splits)
  next
    case addon
    with assms obtain j where "apply_fund_seat j n NextHand t es = Inr (t', es')"
      by (auto simp: as_player_def apply_addon_def result_simps)
    from fund_effect [OF this assms(2)] addon show ?thesis by (simp add: paid_in_def)
  next
    case rebuy
    with assms obtain j where "apply_fund_seat j n Immediate t es = Inr (t', es')"
      by (auto simp: as_player_def apply_rebuy_def result_simps)
    from fund_effect [OF this assms(2)] rebuy show ?thesis by (simp add: paid_in_def)
  qed
next
  case False
  then have "paid_in c = 0" by (cases c) (auto simp: paid_in_def)
  with other_call_effect [OF assms False] show ?thesis by (simp add: no_gain_deposits)
qed

section \<open>The dispatcher\<close>

text \<open>A sound table: validated, with its books in order and its chips covered.\<close>

definition sound :: "'pt crypto \<Rightarrow> 'pt table \<Rightarrow> bool" where
  "sound C t \<longleftrightarrow> books t \<and> solvent t \<and> validate_state_schema (cr_group C) t = Inr ()"

lemma run_call_sound:
  assumes "run_call C L ctx c t es = Inr (t', es')" "sound C t \<or> creates c"
  shows "books t' \<and> solvent t'"
proof (cases "creates c")
  case True
  with assms(1) obtain mp sb bb rit where "apply_create_table (dc_caller ctx) mp sb bb rit t = Inr t'" by (auto simp: creates_def result_simps)
  from create_effect [OF this] show ?thesis by (simp add: solvent_def)
next
  case False
  with assms run_call_effect [OF assms(1)] deposits_solvent show ?thesis by (auto simp: sound_def)
qed

lemma validate_counters:
  "validate_state_schema G (t\<lparr>t_call_seq := a, t_hand_id := b\<rparr>) = validate_state_schema G t"
proof -
  let ?t = "t\<lparr>t_call_seq := a, t_hand_id := b\<rparr>"
  have reveal: "validate_reveal ?t = validate_reveal t" by (simp add: validate_reveal_def [abs_def] cong: if_cong reveal_target.case_cong)
  have phase: "validate_hand_phase ?t = validate_hand_phase t"
    by (cases "t_hand_phase t") (simp_all add: validate_hand_phase_def reveal cong: shuffling_phase.case_cong if_cong)
  have views: "padding_seats_are_vacant ?t = padding_seats_are_vacant t"
    "validate_seat_at G ?t = validate_seat_at G t" "derived_aggregated_pk G ?t = derived_aggregated_pk G t"
    "table_cards ?t = table_cards t" "validate_ledger ?t = validate_ledger t" "validate_mask ?t = validate_mask t"
    "validate_assignment_masks ?t = validate_assignment_masks t" "table_shuffle_state ?t = table_shuffle_state t"
    "reveal_assignments ?t = reveal_assignments t" "reconstruct_pending ?t = reconstruct_pending t"
    by (simp_all add: padding_seats_are_vacant_def validate_seat_at_def [abs_def] derived_aggregated_pk_def
        aggregated_pk_for_contributor_mask_def table_cards_def validate_ledger_def validate_mask_def [abs_def]
        validate_assignment_masks_def [abs_def] table_shuffle_state_def reveal_assignments_def reveal_token_state_def
        reconstruct_pending_def cong: hand_phase.case_cong option.case_cong if_cong)
  show ?thesis unfolding validate_state_schema_def views phase by simp
qed

lemma valid_rearm:
  "validate_state_schema G t = Inr () \<Longrightarrow> rearm_betting now t = Inr t"
  using validate_state_schema_Inr(3) [of G t]
  by (auto simp: rearm_betting_def validate_hand_phase_def validate_deadline_def split: hand_phase.splits if_splits)

lemma dispatch_commits:
  assumes "dispatch C L ctx c pre = (t', Inr es')"
  obtains t es t1 es1 steps t2 where "run_call C L ctx c pre [] = Inr (t, es)"
    "normalize_until_blocked_in_place C (dc_block_timestamp ctx) t [] = Inr (t1, es1, steps)" "es' = es @ es1"
    "rearm_betting (dc_block_timestamp ctx) t1 = Inr t2" "advance_counters pre t2 es' = Inr t'"
  using assms
  by (auto simp: dispatch_def normalize_until_blocked_def result_simps rbind_def split: sum.splits prod.splits)

lemma advance_counters_Inr:
  assumes "advance_counters pre t es = Inr t'"
  shows "\<exists>a b. t' = t\<lparr>t_call_seq := a, t_hand_id := b\<rparr>"
proof (cases "t = pre")
  case True
  with assms have "t' = t" by (simp add: advance_counters_def)
  then have "t' = t\<lparr>t_call_seq := t_call_seq t, t_hand_id := t_hand_id t\<rparr>" by simp
  then show ?thesis by blast
next
  case False
  with assms show ?thesis by (auto simp: advance_counters_def result_simps)
qed

lemma sound_counters: "sound C (t\<lparr>t_call_seq := a, t_hand_id := b\<rparr>) = sound C t"
  by (simp add: sound_def validate_counters books_def solvent_def account_defs)

lemma dispatch_sound:
  assumes "dispatch C L ctx c pre = (t', Inr es')" "sound C pre \<or> creates c"
  shows "sound C t' \<and> (\<not> creates c \<longrightarrow> deposits (paid_in c) pre t')"
  using assms(1)
proof (rule dispatch_commits)
  fix t es t1 es1 steps t2
  assume r: "run_call C L ctx c pre [] = Inr (t, es)"
    and n: "normalize_until_blocked_in_place C (dc_block_timestamp ctx) t [] = Inr (t1, es1, steps)"
    and a: "rearm_betting (dc_block_timestamp ctx) t1 = Inr t2" "advance_counters pre t2 es' = Inr t'"
  note b = run_call_sound [OF r assms(2)]
  note e = normalize_effect [OF n conjunct1 [OF b]]
  have s1: "sound C t1" using e b no_gain_solvent by (auto simp: sound_def)
  have "deposits (paid_in c) pre t1" if "\<not> creates c"
    using run_call_effect [OF r _ _ that] assms(2) that deposits_no_gain [OF _ e(2)] by (simp add: sound_def)
  moreover have "t2 = t1" using valid_rearm [OF e(3)] a(1) by simp
  moreover from this obtain x y where "t' = t1\<lparr>t_call_seq := x, t_hand_id := y\<rparr>"
    using advance_counters_Inr [OF a(2)] by blast
  ultimately show ?thesis using s1 by (simp add: sound_counters deposits_def account_defs)
qed

section \<open>Sequences of calls\<close>

text \<open>
  The commit of a call: the table after a successful dispatch. A host that keeps the table of
  a failed dispatch is not covered; when the command itself fails that table is the old one.
\<close>

definition commit :: "'pt crypto \<Rightarrow> 'pt reconstruction_lib \<Rightarrow> dispatch_context \<times> 'pt call \<Rightarrow> 'pt table \<Rightarrow> 'pt table option" where
  "commit C L x t = (case dispatch C L (fst x) (snd x) t of (t', Inr _) \<Rightarrow> Some t' | (_, Inl _) \<Rightarrow> None)"

fun run_steps :: "('c \<Rightarrow> 's \<Rightarrow> 's option) \<Rightarrow> 'c list \<Rightarrow> 's \<Rightarrow> 's option" where
  "run_steps step [] s = Some s"
| "run_steps step (c # cs) s = (case step c s of None \<Rightarrow> None | Some s' \<Rightarrow> run_steps step cs s')"

text \<open>A system of steps with an invariant.\<close>

locale step_system =
  fixes step :: "'c \<Rightarrow> 's \<Rightarrow> 's option" and inv :: "'s \<Rightarrow> bool"
  assumes step_inv: "inv s \<Longrightarrow> step c s = Some s' \<Longrightarrow> inv s'"
begin

lemma run_inv: "inv s \<Longrightarrow> run_steps step cs s = Some s' \<Longrightarrow> inv s'"
proof (induction cs arbitrary: s)
  case (Cons c cs)
  then show ?case using step_inv by (auto split: option.splits)
qed simp

lemma run_append:
  "run_steps step (cs @ ds) s = (case run_steps step cs s of None \<Rightarrow> None | Some s' \<Rightarrow> run_steps step ds s')"
  by (induction cs arbitrary: s) (auto split: option.splits)

lemma every_prefix_inv:
  assumes "inv s" "run_steps step (cs @ ds) s = Some s'"
  obtains u where "run_steps step cs s = Some u" "inv u"
  using assms run_inv by (auto simp: run_append split: option.splits)

end

text \<open>
  A system of steps that keeps accounts: what a vault holds and what it owes. A step may take in the
  deposit of its label; what leaves the vault is no longer owed. Fresh steps start new accounts and
  are left out.
\<close>

locale account_system = step_system +
  fixes fresh :: "'c \<Rightarrow> bool" and paid :: "'c \<Rightarrow> nat" and vault :: "'s \<Rightarrow> nat" and debt :: "'s \<Rightarrow> nat"
  assumes step_account: "inv s \<Longrightarrow> step c s = Some s' \<Longrightarrow> \<not> fresh c \<Longrightarrow>
    vault s + debt s' \<le> vault s' + debt s \<and> vault s' \<le> vault s + paid c"
begin

lemma run_account:
  assumes "inv s" "run_steps step cs s = Some s'" "\<forall>c\<in>set cs. \<not> fresh c"
  shows "vault s + debt s' \<le> vault s' + debt s \<and> vault s' \<le> vault s + sum_list (map paid cs)"
  using assms
proof (induction cs arbitrary: s)
  case (Cons c cs)
  then obtain u where u: "step c s = Some u" "run_steps step cs u = Some s'" by (auto split: option.splits)
  have "vault s + debt u \<le> vault u + debt s \<and> vault u \<le> vault s + paid c"
    using step_account [OF Cons.prems(1) u(1)] Cons.prems(3) by simp
  moreover have "vault u + debt s' \<le> vault s' + debt u \<and> vault s' \<le> vault u + sum_list (map paid cs)"
    using Cons.IH [OF step_inv [OF Cons.prems(1) u(1)] u(2)] Cons.prems(3) by simp
  ultimately show ?case by simp
qed simp

text \<open>Everything owed or paid in was paid out, is still owed, or its claim was lost.\<close>

lemma run_balance:
  assumes "inv s" "run_steps step cs s = Some s'" "\<forall>c\<in>set cs. \<not> fresh c"
  obtains out lost where "vault s' + out = vault s + sum_list (map paid cs)"
    "debt s' + out + lost = debt s + sum_list (map paid cs)"
proof
  let ?in = "sum_list (map paid cs)"
  note a = run_account [OF assms]
  show "vault s' + (vault s + ?in - vault s') = vault s + ?in" using a by linarith
  then show "debt s' + (vault s + ?in - vault s') + (debt s + ?in - (debt s' + (vault s + ?in - vault s'))) = debt s + ?in"
    using a by linarith
qed

end

lemma commit_sound:
  assumes "sound C t" "commit C L x t = Some t'"
  shows "sound C t' \<and> (\<not> creates (snd x) \<longrightarrow> deposits (paid_in (snd x)) t t')"
proof -
  obtain es where "dispatch C L (fst x) (snd x) t = (t', Inr es)"
    using assms(2) by (auto simp: commit_def split: prod.splits sum.splits)
  from dispatch_sound [OF this] assms(1) show ?thesis by blast
qed

interpretation engine: step_system "commit C L" "sound C" for C :: "'pt crypto" and L
  by unfold_locales (use commit_sound in blast)

interpretation accounts: account_system "commit C L" "sound C" "\<lambda>x. creates (snd x)" "\<lambda>x. paid_in (snd x)" t_chip_pool owed
  for C :: "'pt crypto" and L
  by unfold_locales (use commit_sound [unfolded deposits_def] in blast)

text \<open>The tables a host can hold: created by a call, and changed by successful calls only.\<close>

inductive reachable :: "'pt crypto \<Rightarrow> 'pt reconstruction_lib \<Rightarrow> 'pt table \<Rightarrow> bool" for C L where
  created: "dispatch C L ctx (CallCreateTable mp sb bb rit) pre = (t, Inr es) \<Longrightarrow> reachable C L t"
| called: "reachable C L t \<Longrightarrow> dispatch C L ctx c t = (t', Inr es) \<Longrightarrow> reachable C L t'"

lemma reachable_sound: "reachable C L t \<Longrightarrow> sound C t"
  by (induction rule: reachable.induct) (use dispatch_sound creates_table in blast)+

lemma reachable_run:
  assumes "reachable C L t" "run_steps (commit C L) cs t = Some t'"
  shows "reachable C L t'"
  using assms
proof (induction cs arbitrary: t)
  case (Cons x cs)
  then obtain u where u: "commit C L x t = Some u" "run_steps (commit C L) cs u = Some t'" by (auto split: option.splits)
  from u(1) obtain es where "dispatch C L (fst x) (snd x) t = (u, Inr es)"
    by (auto simp: commit_def split: prod.splits sum.splits)
  with Cons.IH [OF _ u(2)] Cons.prems(1) reachable.called show ?case by blast
qed simp

section \<open>Creating a table\<close>

lemma validate_rit:
  assumes "t_hand_phase t = PhaseWaiting" "rules_validate ((t_rules t)\<lparr>r_rit_mode := rit\<rparr>) = Inr ()"
    and "validate_state_schema G t = Inr ()"
  shows "validate_state_schema G (t\<lparr>t_rules := (t_rules t)\<lparr>r_rit_mode := rit\<rparr>\<rparr>) = Inr ()"
proof -
  let ?t = "t\<lparr>t_rules := (t_rules t)\<lparr>r_rit_mode := rit\<rparr>\<rparr>"
  have views: "padding_seats_are_vacant ?t = padding_seats_are_vacant t" "validate_hand_phase ?t = Inr ()"
    "validate_seat_at G ?t = validate_seat_at G t" "derived_aggregated_pk G ?t = derived_aggregated_pk G t"
    "table_cards ?t = table_cards t" "validate_ledger ?t = validate_ledger t" "validate_mask ?t = validate_mask t"
    "validate_assignment_masks ?t = validate_assignment_masks t" "table_shuffle_state ?t = table_shuffle_state t"
    "reveal_assignments ?t = reveal_assignments t" "reconstruct_pending ?t = reconstruct_pending t"
    using assms(1)
    by (simp_all add: padding_seats_are_vacant_def validate_hand_phase_def validate_seat_at_def [abs_def] derived_aggregated_pk_def
        aggregated_pk_for_contributor_mask_def table_cards_def validate_ledger_def validate_mask_def [abs_def]
        validate_assignment_masks_def [abs_def] table_shuffle_state_def reveal_assignments_def reveal_token_state_def
        reconstruct_pending_def cong: hand_phase.case_cong option.case_cong if_cong)
  show ?thesis
    using assms(2,3) validate_state_schema_Inr(3) [OF assms(3)] unfolding validate_state_schema_def views
    by (simp add: result_simps)
qed

text \<open>Between hands there is nothing to normalise.\<close>

lemma waiting_normal:
  assumes "t_hand_phase t = PhaseWaiting" "validate_state_schema (cr_group C) t = Inr ()" "now \<noteq> 0"
  shows "normalize_until_blocked C now t es = Inr (t, es, [])"
  using assms
  by (simp add: normalize_until_blocked_def normalize_until_blocked_in_place_def arm_active_deadline_if_needed_def
      MAX_NORMALIZATION_STEPS_def next_normalization_step_def is_reconstructing_def shuffle_phase_def table_shuffling_purpose_def
      reveal_token_state_def is_betting_round_def table_betting_round_def round_state_def numeral_eq_Suc
      ROUND_WAITING_def ROUND_SHOWDOWN_def ROUND_PREFLOP_def ROUND_FLOP_def ROUND_TURN_def ROUND_RIVER_def
      SHUFFLE_PHASE_NONE_def SHUFFLE_PHASE_RECONSTRUCT_def SHUFFLE_PHASE_BEFORE_PREFLOP_def)

lemma create_exact:
  assumes "2 \<le> mp" "mp \<le> 9" "0 < bb" "sb \<le> bb" "rit = RIT_MODE_DISABLED \<or> rit = RIT_MODE_TWICE"
    and "dc_block_timestamp ctx \<noteq> 0" "t_call_seq (pre :: 'pt table) < 2 ^ 32 - 1"
  obtains t0 t n h where "dispatch C L ctx (CallCreateTable mp sb bb rit) pre = (t, Inr [])"
    "table_new (t_id pre) (dc_caller ctx) mp sb bb = Inr t0"
    "t = t0\<lparr>t_rules := (t_rules t0)\<lparr>r_rit_mode := rit\<rparr>, t_call_seq := n, t_hand_id := h\<rparr>"
    "apply_create_table (dc_caller ctx) mp sb bb rit pre = Inr (t0\<lparr>t_rules := (t_rules t0)\<lparr>r_rit_mode := rit\<rparr>\<rparr>)"
proof -
  obtain t0 :: "'pt table" where t0: "table_new (t_id pre) (dc_caller ctx) mp sb bb = Inr t0" using assms(1-4) by (simp add: table_new_def)
  let ?t = "t0\<lparr>t_rules := (t_rules t0)\<lparr>r_rit_mode := rit\<rparr>\<rparr>"
  have c: "apply_create_table (dc_caller ctx) mp sb bb rit pre = Inr ?t"
    using assms(1-5) t0 by (simp add: apply_create_table_def)
  note e = create_effect [OF c]
  have phase: "t_hand_phase t0 = PhaseWaiting" "\<forall>s\<in>set (t_seats t0). seat_is_vacant s"
    using t0 by (auto simp: table_new_def seat_empty_def split: if_splits)
  have "rules_validate (t_rules ?t) = Inr ()"
    using validate_state_schema_Inr(1) [OF table_new_valid [OF t0]] assms(5) by (auto simp: rules_validate_def split: if_splits)
  then have v: "validate_state_schema (cr_group C) ?t = Inr ()"
    using validate_rit [OF phase(1) _ table_new_valid [OF t0]] by simp
  have n: "normalize_until_blocked C (dc_block_timestamp ctx) ?t [] = Inr (?t, [], [])"
    using waiting_normal [OF e(5) v assms(6)] .
  obtain t where t: "advance_counters pre ?t [] = Inr t"
    using assms(7) by (cases "?t = pre") (simp_all add: advance_counters_def checked_add_u32_def)
  have "dispatch C L ctx (CallCreateTable mp sb bb rit) pre = (t, Inr [])"
    using c n t valid_rearm [OF v] by (simp add: dispatch_def)
  moreover obtain a b where "t = ?t\<lparr>t_call_seq := a, t_hand_id := b\<rparr>" using advance_counters_Inr [OF t] by blast
  ultimately show ?thesis using that t0 c by blast
qed

lemma create_commits:
  assumes "2 \<le> mp" "mp \<le> 9" "0 < bb" "sb \<le> bb" "rit = RIT_MODE_DISABLED \<or> rit = RIT_MODE_TWICE"
    and "dc_block_timestamp ctx \<noteq> 0" "t_call_seq (pre :: 'pt table) < 2 ^ 32 - 1"
  obtains t where "dispatch C L ctx (CallCreateTable mp sb bb rit) pre = (t, Inr [])" "t_creator t = dc_caller ctx"
    "t_chip_pool t = 0" "owed t = 0" "t_hand_phase t = PhaseWaiting" "\<forall>s\<in>set (t_seats t). seat_is_vacant s"
proof -
  obtain t0 t n h where d: "dispatch C L ctx (CallCreateTable mp sb bb rit) pre = (t, Inr [])"
    and t0: "table_new (t_id pre) (dc_caller ctx) mp sb bb = Inr t0"
    and t: "t = t0\<lparr>t_rules := (t_rules t0)\<lparr>r_rit_mode := rit\<rparr>, t_call_seq := n, t_hand_id := h\<rparr>"
    and c: "apply_create_table (dc_caller ctx) mp sb bb rit pre = Inr (t0\<lparr>t_rules := (t_rules t0)\<lparr>r_rit_mode := rit\<rparr>\<rparr>)"
    by (rule create_exact [OF assms, of C L])
  have "t_hand_phase t0 = PhaseWaiting" "\<forall>s\<in>set (t_seats t0). seat_is_vacant s"
    using t0 by (auto simp: table_new_def seat_empty_def split: if_splits)
  note vacant = this
  let ?t = "t0\<lparr>t_rules := (t_rules t0)\<lparr>r_rit_mode := rit\<rparr>\<rparr>"
  note e = create_effect [OF c]
  have o: "owed t = owed ?t" unfolding t by (simp add: account_defs)
  show ?thesis
  proof (rule that [OF d])
    show "t_creator t = dc_caller ctx" "t_chip_pool t = 0" "t_hand_phase t = PhaseWaiting" "owed t = 0"
      using e(2-5) o by (simp_all add: t)
    show "\<forall>s\<in>set (t_seats t). seat_is_vacant s" using vacant(2) by (simp add: t)
  qed
qed

section \<open>Blocked tables\<close>

lemma valid_no_arm:
  "validate_state_schema G t = Inr () \<Longrightarrow> now \<noteq> 0 \<Longrightarrow> arm_active_deadline_if_needed now t = Inr (t, False)"
  using validate_state_schema_Inr(3) [of G t]
  by (auto simp: arm_active_deadline_if_needed_def validate_hand_phase_def validate_deadline_def result_simps Let_def
      split: hand_phase.splits if_splits)

lemma normalize_loop_blocked:
  assumes "normalize_loop n C now t es steps = Inr (t', es', steps')"
  shows "next_normalization_step t' = Inr None \<and> length steps' < length steps + n"
  using assms
proof (induction n arbitrary: t es steps)
  case (Suc n)
  from Suc.prems obtain st where st: "next_normalization_step t = Inr st" by (auto simp: result_simps)
  show ?case
  proof (cases st)
    case None
    with Suc.prems st show ?thesis by simp
  next
    case (Some s)
    with Suc.prems st obtain t2 es1 where "normalize_loop n C now t2 es1 (steps @ [s]) = Inr (t', es', steps')"
      by (auto simp: result_simps split: if_splits)
    from Suc.IH [OF this] show ?thesis by simp
  qed
qed simp

section \<open>Acted flags\<close>

lemma clear_bits:
  "n \<le> 16 \<Longrightarrow> bit (foldl (\<lambda>m k. if P k then m AND NOT (seat_mask_bit k) else m) m [0..<n]) j \<longleftrightarrow> bit m j \<and> \<not> (j < n \<and> P j)"
  for m :: seat_mask
  by (induction n) (auto simp: mask_simps bit_simps less_Suc_eq)

lemma reopen_acted:
  assumes "length (t_seats t) = MAX_SEATS" "k < MAX_SEATS"
  shows "seat_acted_this_round (reopen_action i t) k \<longleftrightarrow> seat_acted_this_round t k \<and> \<not> (k \<noteq> i \<and> can_act (t_seats t ! k))"
  using assms by (simp add: seat_acted_this_round_def reopen_action_def mask_simps clear_bits MAX_SEATS_def)

lemma set_acted:
  assumes "i < MAX_SEATS" "k < MAX_SEATS"
  shows "seat_acted_this_round (set_seat_acted_this_round i True t) k \<longleftrightarrow> k = i \<or> seat_acted_this_round t k"
  using assms by (auto simp: seat_acted_this_round_def set_seat_acted_this_round_def mask_simps bit_simps MAX_SEATS_def)

lemma in_protocol_tag: "in_protocol ph \<longleftrightarrow> phase_tag ph \<noteq> TagWaiting \<and> phase_tag ph \<noteq> TagBetting"
  by (cases ph) simp_all

end
