(* ===== verification/Poker_Scenario.thy ===== *)
theory Poker_Scenario
  imports Poker_Ledger
begin

text \<open>
  A concrete instance for evaluation: the integers as curve points, proofs that always verify,
  and small tables in the phases the properties talk about.
\<close>

definition demo_crypto :: "int crypto" where
  "demo_crypto = \<lparr>cr_group = \<lparr>g1_add = (+), g1_is_identity = (\<lambda>x. x = 0)\<rparr>, cr_sub = (-), cr_generator = 1, cr_identity = 0,
     cr_cards = replicate 52 7, cr_plan_digest = (\<lambda>_. Inr [])\<rparr>"

definition demo_lib :: "int reconstruction_lib" where
  "demo_lib = \<lparr>rl_hash = id, rl_compress = (\<lambda>_. []), rl_context_domain = [], rl_prior_domain = [], rl_cards_commitment = [],
     rl_base_deck = (\<lambda>_ _. Inr []), rl_apply = (\<lambda>a _. Inr a)\<rparr>"

definition demo_ctx :: dispatch_context where
  "demo_ctx = \<lparr>dc_caller = [1], dc_block_timestamp = 1000\<rparr>"

definition demo_seat :: "8 word \<Rightarrow> nat \<Rightarrow> nat \<Rightarrow> nat \<Rightarrow> int seat" where
  "demo_seat b stack bet total_bet = SeatPlaying \<lparr>pl_occupied = \<lparr>oc_player = [b], oc_stack = stack, oc_pk = 3,
       oc_tx_pk = \<lparr>stk_tag = encode_tag Stark CURRENT_VERSION, stk_raw = replicate 32 9\<rparr>, oc_pending_addon = 0,
       oc_time_bank_ms = 30000\<rparr>, pl_hand = hole_empty, pl_bet = bet, pl_total_bet = total_bet, pl_status = PActive\<rparr>"

definition empty_table :: "nat \<Rightarrow> int table" where
  "empty_table mp = \<lparr>t_id = [], t_creator = [7], t_rules = rules_new mp 5 10, t_seats = replicate 9 seat_empty,
     t_acted_mask = 0, t_leave_after_hand_mask = 0, t_button = 0, t_last_bb_seat = NO_SEAT, t_pot = 0,
     t_community_cards = board_empty, t_hand_phase = PhaseWaiting, t_deck_state = deck_default, t_chip_pool = 0,
     t_run_it_twice_state = Single, t_hand_id = 0, t_call_seq = 0\<rparr>"

lemma empty_table_new: "2 \<le> mp \<Longrightarrow> mp \<le> 9 \<Longrightarrow> table_new [] [7] mp 5 10 = Inr (empty_table mp)"
  by (simp add: table_new_def empty_table_def)

text \<open>A live table: three players have called ten on the flop, with thirty in the pot.\<close>

definition flop_table :: "int table" where
  "flop_table = (empty_table 3)\<lparr>t_seats := [demo_seat 1 90 0 10, demo_seat 2 90 0 10, demo_seat 3 90 0 10, seat_empty, seat_empty, seat_empty, seat_empty, seat_empty, seat_empty],
     t_pot := 30, t_chip_pool := 300, t_hand_phase := PhaseBetting ROUND_FLOP \<lparr>current_bet = 0, min_raise = 10\<rparr> 0 9000\<rparr>"

text \<open>The same pot with two players left, on display at showdown.\<close>

definition display_table :: "int table" where
  "display_table = (empty_table 2)\<lparr>t_seats := [demo_seat 1 90 0 10, demo_seat 2 90 0 10, seat_empty, seat_empty, seat_empty, seat_empty, seat_empty, seat_empty, seat_empty],
     t_pot := 20, t_chip_pool := 200, t_hand_phase := PhaseShowdownDisplay 5000\<rparr>"

end
