(* ===== verification/Poker_Borsh.thy ===== *)
theory Poker_Borsh
  imports Poker_Prelude "HOL-Library.Word"
begin

text \<open>
  The Borsh format as the derived codecs of the repository use it: little-endian integers of a
  fixed width, strict booleans and option tags, length-prefixed vectors, fixed arrays without a
  prefix, and structs as their fields in order. A writer returns the bytes or the error of the
  stream; a reader consumes a prefix and returns the rest.

  The two locales at the end state what a codec promises: that a written value reads back, and
  that a value has one encoding only.
\<close>

section \<open>Readers and writers\<close>

type_synonym bytes = "8 word list"
type_synonym 'a writer = "'a \<Rightarrow> bytes res"
type_synonym 'a reader = "bytes \<Rightarrow> ('a \<times> bytes) res"

definition unexpected_eof :: poker_error where
  "unexpected_eof = Serialization ''borsh: unexpected length of input''"

fun put_fields :: "bytes res list \<Rightarrow> bytes res" where
  "put_fields [] = Inr []"
| "put_fields (x # xs) = rbind x (\<lambda>b. rbind (put_fields xs) (\<lambda>c. Inr (b @ c)))"

definition read_exact :: "nat \<Rightarrow> bytes reader" where
  "read_exact k bs = (if length bs < k then Inl unexpected_eof else Inr (take k bs, drop k bs))"

text \<open>\<^verbatim>\<open>borsh::from_slice\<close> reads one value and refuses bytes that are left over.\<close>

definition from_slice :: "'a reader \<Rightarrow> bytes \<Rightarrow> 'a res" where
  "from_slice g bs = rbind (g bs) (\<lambda>(x, rest).
     if rest \<noteq> [] then Inl (Serialization ''borsh: not all bytes read'') else Inr x)"

section \<open>Primitive values\<close>

fun int_bytes :: "nat \<Rightarrow> nat \<Rightarrow> bytes" where
  "int_bytes 0 n = []"
| "int_bytes (Suc k) n = word_of_nat (n mod 256) # int_bytes k (n div 256)"

fun int_value :: "bytes \<Rightarrow> nat" where
  "int_value [] = 0"
| "int_value (b # bs) = unat b + 256 * int_value bs"

definition put_uint :: "nat \<Rightarrow> nat writer" where
  "put_uint k n = Inr (int_bytes k n)"

definition get_uint :: "nat \<Rightarrow> nat reader" where
  "get_uint k bs = rbind (read_exact k bs) (\<lambda>(b, rest). Inr (int_value b, rest))"

abbreviation put_u8 :: "nat writer" where "put_u8 \<equiv> put_uint 1"
abbreviation get_u8 :: "nat reader" where "get_u8 \<equiv> get_uint 1"
abbreviation put_u16 :: "nat writer" where "put_u16 \<equiv> put_uint 2"
abbreviation get_u16 :: "nat reader" where "get_u16 \<equiv> get_uint 2"
abbreviation put_u32 :: "nat writer" where "put_u32 \<equiv> put_uint 4"
abbreviation get_u32 :: "nat reader" where "get_u32 \<equiv> get_uint 4"
abbreviation put_u64 :: "nat writer" where "put_u64 \<equiv> put_uint 8"
abbreviation get_u64 :: "nat reader" where "get_u64 \<equiv> get_uint 8"

definition put_bool :: "bool writer" where
  "put_bool b = put_u8 (if b then 1 else 0)"

definition get_bool :: "bool reader" where
  "get_bool bs = rbind (get_u8 bs) (\<lambda>(n, rest).
     if n = 0 then Inr (False, rest) else if n = 1 then Inr (True, rest)
     else Inl (Serialization ''borsh: invalid bool''))"

text \<open>An array of bytes has no length prefix.\<close>

definition put_array :: "bytes writer" where
  "put_array bs = Inr bs"

section \<open>Containers\<close>

fun get_many :: "'a reader \<Rightarrow> nat \<Rightarrow> 'a list reader" where
  "get_many g 0 bs = Inr ([], bs)"
| "get_many g (Suc n) bs =
     rbind (g bs) (\<lambda>(x, rest). rbind (get_many g n rest) (\<lambda>(xs, rest). Inr (x # xs, rest)))"

definition put_many :: "'a writer \<Rightarrow> 'a list writer" where
  "put_many p xs = put_fields (map p xs)"

definition put_vec :: "'a writer \<Rightarrow> 'a list writer" where
  "put_vec p xs =
     (if length xs \<ge> u32_bound then Inl (Serialization ''borsh: collection too long'')
      else put_fields [put_u32 (length xs), put_many p xs])"

definition get_vec :: "'a reader \<Rightarrow> 'a list reader" where
  "get_vec g bs = rbind (get_u32 bs) (\<lambda>(n, rest). get_many g n rest)"

definition put_option :: "'a writer \<Rightarrow> 'a option writer" where
  "put_option p x = (case x of None \<Rightarrow> put_u8 0 | Some y \<Rightarrow> put_fields [put_u8 1, p y])"

definition get_option :: "'a reader \<Rightarrow> 'a option reader" where
  "get_option g bs = rbind (get_u8 bs) (\<lambda>(n, rest).
     if n = 0 then Inr (None, rest)
     else if n = 1 then rbind (g rest) (\<lambda>(x, rest). Inr (Some x, rest))
     else Inl (Serialization ''borsh: invalid option tag''))"

text \<open>A byte string: a vector of bytes.\<close>

definition put_bytes :: "bytes writer" where
  "put_bytes bs =
     (if length bs \<ge> u32_bound then Inl (Serialization ''borsh: collection too long'')
      else put_fields [put_u32 (length bs), Inr bs])"

definition get_bytes :: "bytes reader" where
  "get_bytes bs = rbind (get_u32 bs) (\<lambda>(n, rest). read_exact n rest)"

section \<open>What a codec promises\<close>

locale reads_back =
  fixes ok :: "'a \<Rightarrow> bool" and put :: "'a writer" and get :: "'a reader"
  assumes get_put: "ok x \<Longrightarrow> put x = Inr bs \<Longrightarrow> get (bs @ rest) = Inr (x, rest)"
begin

lemma from_slice_put:
  assumes "ok x" "put x = Inr bs"
  shows "from_slice get bs = Inr x"
  using get_put [OF assms, of "[]"] by (simp add: from_slice_def)

lemma put_inj: "ok x \<Longrightarrow> ok y \<Longrightarrow> put x = Inr bs \<Longrightarrow> put y = Inr bs \<Longrightarrow> x = y"
  using from_slice_put [of x bs] from_slice_put [of y bs] by simp

lemma prefix_free:
  assumes "ok x" "ok y" "put x = Inr bs" "put y = Inr (bs @ cs)"
  shows "x = y \<and> cs = []"
  using get_put [OF assms(1,3), of cs] get_put [OF assms(2,4), of "[]"] by simp

lemma many_get_put:
  assumes "\<forall>x\<in>set xs. ok x" "put_many put xs = Inr bs"
  shows "get_many get (length xs) (bs @ rest) = Inr (xs, rest)"
  using assms
proof (induction xs arbitrary: bs)
  case Nil
  then show ?case by (simp add: put_many_def)
next
  case (Cons x xs)
  then obtain b c where "put x = Inr b" "put_many put xs = Inr c" "bs = b @ c"
    by (auto simp: put_many_def result_simps)
  with Cons get_put [of x b "c @ rest"] show ?case by simp
qed

end

locale one_encoding = reads_back +
  assumes put_get: "get bs = Inr (x, rest) \<Longrightarrow> ok x \<and> (\<exists>cs. put x = Inr cs \<and> bs = cs @ rest)"
begin

lemma put_from_slice: "from_slice get bs = Inr x \<Longrightarrow> put x = Inr bs"
  using put_get [of bs x "[]"] by (auto simp: from_slice_def result_simps split: if_splits)

lemma from_slice_inj: "from_slice get bs = Inr x \<Longrightarrow> from_slice get cs = Inr x \<Longrightarrow> bs = cs"
  using put_from_slice [of bs x] put_from_slice [of cs x] by simp

lemma many_put_get:
  assumes "get_many get n bs = Inr (xs, rest)"
  shows "(\<forall>x\<in>set xs. ok x) \<and> length xs = n \<and> (\<exists>cs. put_many put xs = Inr cs \<and> bs = cs @ rest)"
  using assms
proof (induction n arbitrary: bs xs)
  case 0
  then show ?case by (simp add: put_many_def)
next
  case (Suc n)
  then obtain x r ys where x: "get bs = Inr (x, r)" and ys: "get_many get n r = Inr (ys, rest)" "xs = x # ys"
    by (auto simp: result_simps)
  from put_get [OF x] Suc.IH [OF ys(1)] ys(2) show ?case by (auto simp: put_many_def)
qed

end

section \<open>The primitive codecs keep their promises\<close>

lemma length_int_bytes [simp]: "length (int_bytes k n) = k"
  by (induction k arbitrary: n) auto

lemma int_value_bytes: "int_value (int_bytes k n) = n mod 256 ^ k"
proof (induction k arbitrary: n)
  case (Suc k)
  have "unat (word_of_nat (n mod 256) :: 8 word) = n mod 256" by (simp add: unat_of_nat)
  then show ?case using Suc by (simp add: mod_mult2_eq)
qed simp

lemma int_bytes_value: "int_bytes (length bs) (int_value bs) = bs"
proof (induction bs)
  case (Cons b bs)
  have b: "unat b < 256" using unsigned_less [of b] by simp
  then have "(unat b + 256 * int_value bs) mod 256 = unat b" "(unat b + 256 * int_value bs) div 256 = int_value bs" by simp_all
  with Cons show ?case by simp
qed simp

lemma int_value_bound: "int_value bs < 256 ^ length bs"
  using int_value_bytes [of "length bs" "int_value bs"] mod_less_divisor [of "256 ^ length bs" "int_value bs"]
  by (simp add: int_bytes_value)

lemma read_exact_append [simp]: "read_exact (length bs) (bs @ rest) = Inr (bs, rest)"
  by (simp add: read_exact_def)

lemma read_exact_Inr: "read_exact k bs = Inr (x, rest) \<longleftrightarrow> bs = x @ rest \<and> length x = k"
  by (auto simp: read_exact_def)

lemma read_exact_length: "length bs = k \<Longrightarrow> read_exact k (bs @ rest) = Inr (bs, rest)"
  by (simp add: read_exact_Inr)

lemma get_uint_append [simp]: "n < 256 ^ k \<Longrightarrow> get_uint k (int_bytes k n @ rest) = Inr (n, rest)"
  by (simp add: get_uint_def read_exact_length int_value_bytes)

lemma get_uint_Inr: "get_uint k bs = Inr (n, rest) \<longleftrightarrow> n < 256 ^ k \<and> bs = int_bytes k n @ rest"
proof
  assume "get_uint k bs = Inr (n, rest)"
  then obtain b where "bs = b @ rest" "length b = k" "n = int_value b"
    by (auto simp: get_uint_def result_simps read_exact_Inr)
  then show "n < 256 ^ k \<and> bs = int_bytes k n @ rest" using int_value_bound [of b] int_bytes_value [of b] by simp
qed simp

interpretation uint: one_encoding "\<lambda>n. n < 256 ^ k" "put_uint k" "get_uint k" for k
  by unfold_locales (auto simp: put_uint_def get_uint_Inr)

lemma get_u8_Cons [simp]: "get_uint (Suc 0) (b # rest) = Inr (unat b, rest)"
  by (simp add: get_uint_def read_exact_def)

lemma get_u8_Inr: "get_uint (Suc 0) bs = Inr (n, rest) \<longleftrightarrow> (\<exists>b. bs = b # rest \<and> n = unat b)"
  by (cases bs) (auto simp: get_uint_def read_exact_def)

lemma unat_eq_01: "unat b = 0 \<longleftrightarrow> b = 0" "unat b = Suc 0 \<longleftrightarrow> b = 1" for b :: "8 word"
  using word_unat_eq_iff [of b 0] word_unat_eq_iff [of b 1] by simp_all

lemma get_bool_Inr: "get_bool bs = Inr (b, rest) \<longleftrightarrow> bs = (if b then 1 else 0) # rest"
proof
  assume "get_bool bs = Inr (b, rest)"
  then show "bs = (if b then 1 else 0) # rest"
    by (auto simp: get_bool_def result_simps get_u8_Inr unat_eq_01 unat_eq_01 [THEN eq_iff_swap] split: if_splits)
qed (simp add: get_bool_def)

interpretation boolean: one_encoding "\<lambda>_. True" put_bool get_bool
  by unfold_locales (auto simp: put_bool_def put_uint_def get_bool_Inr)

interpretation byte_array: one_encoding "\<lambda>bs. length bs = k" put_array "read_exact k" for k
  by unfold_locales (auto simp: put_array_def read_exact_Inr)

lemma put_fields_Inr [simp]:
  "put_fields (x # xs) = Inr bs \<longleftrightarrow> (\<exists>b c. x = Inr b \<and> put_fields xs = Inr c \<and> bs = b @ c)"
  by (auto simp: result_simps)

lemma put_fields_Nil [simp]: "put_fields [] = Inr bs \<longleftrightarrow> bs = []"
  by auto

declare put_fields.simps [simp del]

lemma put_u8_simp [simp]: "put_uint (Suc 0) n = Inr [word_of_nat (n mod 256)]"
  by (simp add: put_uint_def)

interpretation byte_string: one_encoding "\<lambda>_. True" put_bytes get_bytes
proof unfold_locales
  fix x bs rest :: bytes
  assume "put_bytes x = Inr bs"
  then have "length x < 256 ^ 4" "bs = int_bytes 4 (length x) @ x"
    by (auto simp: put_bytes_def put_uint_def split: if_splits)
  then show "get_bytes (bs @ rest) = Inr (x, rest)" by (simp add: get_bytes_def)
next
  fix x bs rest :: bytes
  assume "get_bytes bs = Inr (x, rest)"
  then show "True \<and> (\<exists>cs. put_bytes x = Inr cs \<and> bs = cs @ rest)"
    by (auto simp: get_bytes_def result_simps get_uint_Inr read_exact_Inr put_bytes_def put_uint_def)
qed

section \<open>Containers keep the promises of their elements\<close>

context reads_back begin

lemma vec_get_put:
  assumes "\<forall>x\<in>set xs. ok x" "put_vec put xs = Inr bs"
  shows "get_vec get (bs @ rest) = Inr (xs, rest)"
proof -
  from assms(2) have "length xs < 256 ^ 4" by (simp add: put_vec_def split: if_splits)
  moreover from assms(2) obtain c where "bs = int_bytes 4 (length xs) @ c" "put_many put xs = Inr c"
    unfolding put_vec_def if_Inl_Inr_iff put_uint_def put_fields_Inr by auto
  ultimately show ?thesis using many_get_put [OF assms(1)] by (simp add: get_vec_def)
qed

lemma option_get_put:
  assumes "\<And>y. x = Some y \<Longrightarrow> ok y" "put_option put x = Inr bs"
  shows "get_option get (bs @ rest) = Inr (x, rest)"
proof (cases x)
  case None
  with assms(2) show ?thesis by (auto simp: put_option_def put_uint_def get_option_def)
next
  case (Some y)
  with assms(2) obtain c where "bs = 1 # c" "put y = Inr c"
    by (auto simp: put_option_def put_uint_def)
  with get_put [OF assms(1) [OF Some]] show ?thesis by (simp add: get_option_def Some)
qed

end

end
