(* ===== verification/Poker_Smt.thy ===== *)
theory Poker_Smt
  imports Poker_Borsh
begin

text \<open>
  The sparse Merkle tree of the object store (\<^verbatim>\<open>poker_l1/src/object_model/smt.rs\<close>): a map of
  leaf hashes, a cache of inner nodes, and a root that updates recompute along one path of 256
  levels. Keys are 32 bytes; the hash function (Blake2b with 32 bytes of output) is an argument.

  The reference is the hash of the complete binary tree over the stored leaves. The cache never
  holds level 0, so the tree agrees with the reference only while no two stored keys differ in
  their last bit alone; both directions are proved.
\<close>

section \<open>Hashes and paths\<close>

type_synonym hash = bytes

definition TREE_DEPTH :: nat where "TREE_DEPTH = 256"

definition leaf_hash :: "(bytes \<Rightarrow> hash) \<Rightarrow> hash \<Rightarrow> bytes \<Rightarrow> hash" where
  "leaf_hash H key val = H (0 # key @ val)"

definition internal_hash :: "(bytes \<Rightarrow> hash) \<Rightarrow> hash \<Rightarrow> hash \<Rightarrow> hash" where
  "internal_hash H l r = H (1 # l @ r)"

fun empty_at :: "(bytes \<Rightarrow> hash) \<Rightarrow> nat \<Rightarrow> hash" where
  "empty_at H 0 = H [0]"
| "empty_at H (Suc h) = internal_hash H (empty_at H h) (empty_at H h)"

definition zero_lower_bits :: "hash \<Rightarrow> nat \<Rightarrow> hash" where
  "zero_lower_bits key n =
     (if n = 0 then key
      else let full_bytes = n div 8; partial_bits = n mod 8;
               path = take (32 - full_bytes) key @ replicate (min full_bytes 32) 0
           in if partial_bits > 0 \<and> full_bytes < 32
              then path[32 - full_bytes - 1 := path ! (32 - full_bytes - 1) AND NOT (push_bit partial_bits 1 - 1)]
              else path)"

definition get_bit :: "hash \<Rightarrow> nat \<Rightarrow> 8 word" where
  "get_bit key i = drop_bit (7 - i mod 8) (key ! (i div 8)) AND 1"

definition flip_bit_at :: "hash \<Rightarrow> nat \<Rightarrow> hash" where
  "flip_bit_at key i = key[i div 8 := key ! (i div 8) XOR push_bit (7 - i mod 8) 1]"

section \<open>The tree\<close>

record smt =
  smt_leaves :: "hash \<rightharpoonup> hash"
  smt_nodes :: "nat \<times> hash \<rightharpoonup> hash"
  smt_root :: hash

definition smt_new :: "(bytes \<Rightarrow> hash) \<Rightarrow> smt" where
  "smt_new H = \<lparr>smt_leaves = Map.empty, smt_nodes = Map.empty, smt_root = empty_at H TREE_DEPTH\<rparr>"

definition node_or_empty :: "(bytes \<Rightarrow> hash) \<Rightarrow> (nat \<times> hash \<rightharpoonup> hash) \<Rightarrow> nat \<Rightarrow> hash \<Rightarrow> hash" where
  "node_or_empty H nodes h path = (case nodes (h, path) of Some x \<Rightarrow> x | None \<Rightarrow> empty_at H h)"

text \<open>One level of \<^verbatim>\<open>recompute_path\<close>; the state is the cache, the current hash and its path.\<close>

definition path_step ::
    "(bytes \<Rightarrow> hash) \<Rightarrow> hash \<Rightarrow> (nat \<times> hash \<rightharpoonup> hash) \<times> hash \<times> hash \<Rightarrow> nat \<Rightarrow> (nat \<times> hash \<rightharpoonup> hash) \<times> hash \<times> hash" where
  "path_step H key st h = (case st of (nodes, current_hash, current_path) \<Rightarrow>
     let bit_idx = TREE_DEPTH - h;
         sibling_hash = node_or_empty H nodes (h - 1) (flip_bit_at current_path bit_idx);
         current_hash' = (if get_bit key bit_idx = 0 then internal_hash H current_hash sibling_hash
                          else internal_hash H sibling_hash current_hash);
         current_path' = zero_lower_bits key h
     in (nodes((h, current_path') \<mapsto> current_hash'), current_hash', current_path'))"

definition recompute_path :: "(bytes \<Rightarrow> hash) \<Rightarrow> hash \<Rightarrow> hash \<Rightarrow> smt \<Rightarrow> smt" where
  "recompute_path H key leaf t =
     (case fold (\<lambda>h st. path_step H key st h) [1..<TREE_DEPTH + 1] (smt_nodes t, leaf, key) of
       (nodes, root, _) \<Rightarrow> t\<lparr>smt_nodes := nodes, smt_root := root\<rparr>)"

definition upsert :: "(bytes \<Rightarrow> hash) \<Rightarrow> hash \<Rightarrow> bytes \<Rightarrow> smt \<Rightarrow> smt" where
  "upsert H key val t = recompute_path H key (leaf_hash H key val) (t\<lparr>smt_leaves := (smt_leaves t)(key \<mapsto> leaf_hash H key val)\<rparr>)"

definition remove_step ::
    "(bytes \<Rightarrow> hash) \<Rightarrow> hash \<Rightarrow> (nat \<times> hash \<rightharpoonup> hash) \<times> hash \<times> hash \<Rightarrow> nat \<Rightarrow> (nat \<times> hash \<rightharpoonup> hash) \<times> hash \<times> hash" where
  "remove_step H key st h = (case st of (nodes, current_hash, current_path) \<Rightarrow>
     let bit_idx = TREE_DEPTH - h;
         sibling_hash = node_or_empty H nodes (h - 1) (flip_bit_at current_path bit_idx);
         path' = zero_lower_bits key h
     in if current_hash = empty_at H (h - 1) \<and> sibling_hash = empty_at H (h - 1)
        then (nodes((h, path') := None), empty_at H h, path')
        else let current_hash' = (if get_bit key bit_idx = 0 then internal_hash H current_hash sibling_hash
                                  else internal_hash H sibling_hash current_hash)
             in (nodes((h, path') \<mapsto> current_hash'), current_hash', path'))"

definition recompute_path_remove :: "(bytes \<Rightarrow> hash) \<Rightarrow> hash \<Rightarrow> smt \<Rightarrow> smt" where
  "recompute_path_remove H key t =
     (case fold (\<lambda>h st. remove_step H key st h) [1..<TREE_DEPTH + 1] (smt_nodes t, empty_at H 0, key) of
       (nodes, root, _) \<Rightarrow> t\<lparr>smt_nodes := nodes, smt_root := root\<rparr>)"

definition smt_remove :: "(bytes \<Rightarrow> hash) \<Rightarrow> hash \<Rightarrow> smt \<Rightarrow> smt" where
  "smt_remove H key t = recompute_path_remove H key (t\<lparr>smt_leaves := (smt_leaves t)(key := None)\<rparr>)"

section \<open>Proofs\<close>

record merkle_path =
  mp_siblings :: "hash list"
  mp_is_empty_leaf :: bool

definition smt_prove :: "(bytes \<Rightarrow> hash) \<Rightarrow> smt \<Rightarrow> hash \<Rightarrow> merkle_path" where
  "smt_prove H t key =
     \<lparr>mp_siblings = map (\<lambda>h. node_or_empty H (smt_nodes t) (h - 1) (flip_bit_at (zero_lower_bits key (h - 1)) (TREE_DEPTH - h)))
        [1..<TREE_DEPTH + 1],
      mp_is_empty_leaf = (smt_leaves t key = None)\<rparr>"

definition climb :: "(bytes \<Rightarrow> hash) \<Rightarrow> hash \<Rightarrow> hash list \<Rightarrow> hash \<Rightarrow> nat \<Rightarrow> hash" where
  "climb H key siblings current h =
     (if get_bit key (TREE_DEPTH - h) = 0 then internal_hash H current (siblings ! (h - 1))
      else internal_hash H (siblings ! (h - 1)) current)"

definition smt_verify :: "(bytes \<Rightarrow> hash) \<Rightarrow> hash \<Rightarrow> hash \<Rightarrow> bytes option \<Rightarrow> merkle_path \<Rightarrow> bool" where
  "smt_verify H root key val path =
     (if length (mp_siblings path) \<noteq> TREE_DEPTH then False
      else (case (val, mp_is_empty_leaf path) of
          (Some v, False) \<Rightarrow> fold (\<lambda>h cur. climb H key (mp_siblings path) cur h) [1..<TREE_DEPTH + 1] (leaf_hash H key v) = root
        | (None, True) \<Rightarrow> fold (\<lambda>h cur. climb H key (mp_siblings path) cur h) [1..<TREE_DEPTH + 1] (empty_at H 0) = root
        | _ \<Rightarrow> False))"

section \<open>Bits of keys and paths\<close>

abbreviation key_ok :: "hash \<Rightarrow> bool" where
  "key_ok k \<equiv> length k = 32"

definition kbit :: "hash \<Rightarrow> nat \<Rightarrow> bool" where
  "kbit k i \<longleftrightarrow> bit (k ! (i div 8)) (7 - i mod 8)"

lemma get_bit_kbit: "get_bit k i = 0 \<longleftrightarrow> \<not> kbit k i"
  by (simp add: get_bit_def kbit_def and_one_eq bit_iff_odd_drop_bit odd_iff_mod_2_eq_one even_iff_mod_2_eq_zero)

lemma key_eqI:
  assumes "key_ok a" "key_ok b" "\<And>i. i < 256 \<Longrightarrow> kbit a i = kbit b i"
  shows "a = b"
proof (rule nth_equalityI)
  fix j assume j: "j < length a"
  show "a ! j = b ! j"
  proof (rule bit_word_eqI)
    fix n assume "n < LENGTH(8)"
    then obtain m where m: "m < 8" "n = 7 - m" by (intro that [of "7 - n"]) auto
    then have n: "(8 * j + m) div 8 = j" "7 - (8 * j + m) mod 8 = n" "8 * j + m < 256"
      using j assms(1) by auto
    with assms(3) [OF n(3)] show "bit (a ! j) n = bit (b ! j) n" by (simp add: kbit_def)
  qed
qed (use assms in simp)

lemma flip_ok [simp]: "key_ok (flip_bit_at k i) = key_ok k"
  by (simp add: flip_bit_at_def)

lemma zero_none [simp]: "zero_lower_bits k 0 = k"
  by (simp add: zero_lower_bits_def)

lemma zero_ok [simp]: "key_ok k \<Longrightarrow> key_ok (zero_lower_bits k n)"
  by (auto simp: zero_lower_bits_def Let_def)

lemma kbit_flip:
  assumes "key_ok k" "i < 256" "j < 256"
  shows "kbit (flip_bit_at k i) j = (if i = j then \<not> kbit k j else kbit k j)"
proof (cases "i div 8 = j div 8")
  case True
  have l: "j div 8 < length k" using assms by simp
  have "i = j \<longleftrightarrow> i mod 8 = j mod 8" using True by (metis div_mult_mod_eq)
  moreover have "i mod 8 < 8" "j mod 8 < 8" by simp_all
  ultimately have "i = j \<longleftrightarrow> 7 - i mod 8 = 7 - j mod 8" by linarith
  with l True show ?thesis
    by (auto simp: kbit_def flip_bit_at_def bit_xor_iff bit_exp_iff possible_bit_def)
next
  case False
  then show ?thesis by (auto simp: kbit_def flip_bit_at_def nth_list_update)
qed

lemma kbit_zero:
  assumes k: "key_ok k" and n: "n \<le> 256" and i: "i < 256"
  shows "kbit (zero_lower_bits k n) i \<longleftrightarrow> kbit k i \<and> i < 256 - n"
proof (cases "n = 0")
  case True
  with i show ?thesis by (simp add: zero_lower_bits_def)
next
  case False
  define f p j where "f = n div 8" and "p = n mod 8" and "j = i div 8"
  have np: "n = 8 * f + p" "p < 8" and ij: "i = 8 * j + i mod 8" "i mod 8 < 8" and j: "j < 32" and f: "f \<le> 32"
    using n i by (simp_all add: f_def p_def j_def)
  have "\<not> j < 32 - f \<Longrightarrow> j - (32 - f) < min f 32" using j f by linarith
  then have path: "(take (32 - f) k @ replicate (min f 32) 0) ! j = (if j < 32 - f then k ! j else 0)"
    using k j by (auto simp: nth_append nth_replicate)
  have m: "(push_bit p 1 - 1 :: 8 word) = mask p" by (simp add: mask_eq_exp_minus_1)
  have z: "zero_lower_bits k n ! j = (if j < 32 - f then if p > 0 \<and> j = 31 - f then (k ! j) AND NOT (mask p) else k ! j else 0)"
  proof (cases "p > 0 \<and> f < 32")
    case True
    let ?q = "take (32 - f) k @ replicate (min f 32) 0"
    have "zero_lower_bits k n = ?q[32 - f - 1 := ?q ! (32 - f - 1) AND NOT (mask p)]"
      using False True m by (simp add: zero_lower_bits_def f_def p_def Let_def)
    moreover have "j < length ?q" using k j f by simp
    ultimately show ?thesis using path True by (auto simp: nth_list_update)
  next
    case no: False
    then have "zero_lower_bits k n = take (32 - f) k @ replicate (min f 32) 0"
      using False by (auto simp: zero_lower_bits_def f_def p_def Let_def)
    with path no show ?thesis by auto
  qed
  have "bit (zero_lower_bits k n ! j) (7 - i mod 8) \<longleftrightarrow> bit (k ! j) (7 - i mod 8) \<and> i < 256 - n"
  proof (cases "j < 32 - f")
    case j2: True
    show ?thesis
    proof (cases "p > 0 \<and> j = 31 - f")
      case True
      then have "7 - i mod 8 \<ge> p \<longleftrightarrow> i < 256 - n" using np ij j2 by linarith
      moreover have "zero_lower_bits k n ! j = (k ! j) AND NOT (mask p)" using True j2 z by presburger
      moreover have "7 - i mod 8 < (8 :: nat)" by simp
      ultimately show ?thesis by (simp add: bit_and_iff bit_not_iff bit_mask_iff not_less conj_commute)
    next
      case no: False
      then have "i < 256 - n" using np ij j2 by linarith
      moreover have "zero_lower_bits k n ! j = k ! j" using no j2 z by presburger
      ultimately show ?thesis by simp
    qed
  next
    case j3: False
    then have "\<not> i < 256 - n" using np ij by linarith
    with j3 show ?thesis by (simp add: z)
  qed
  then show ?thesis by (simp add: kbit_def j_def)
qed

text \<open>The path of a key at level \<open>h\<close>, and the facts about paths the tree rests on.\<close>

lemma zero_eq_iff:
  assumes "key_ok a" "key_ok b" "h \<le> 256"
  shows "zero_lower_bits a h = zero_lower_bits b h \<longleftrightarrow> (\<forall>i<256 - h. kbit a i = kbit b i)"
proof
  assume e: "zero_lower_bits a h = zero_lower_bits b h"
  show "\<forall>i<256 - h. kbit a i = kbit b i"
  proof (intro allI impI)
    fix i assume "i < 256 - h"
    with kbit_zero [OF assms(1,3), of i] kbit_zero [OF assms(2,3), of i] e show "kbit a i = kbit b i" by simp
  qed
next
  assume "\<forall>i<256 - h. kbit a i = kbit b i"
  with assms show "zero_lower_bits a h = zero_lower_bits b h" by (intro key_eqI) (auto simp: kbit_zero)
qed

lemma zero_zero: "key_ok k \<Longrightarrow> g \<le> h \<Longrightarrow> h \<le> 256 \<Longrightarrow> zero_lower_bits (zero_lower_bits k g) h = zero_lower_bits k h"
  by (intro key_eqI) (auto simp: kbit_zero)

lemma zero_flip: "key_ok k \<Longrightarrow> i < 256 \<Longrightarrow> 256 - h \<le> i \<Longrightarrow> h \<le> 256 \<Longrightarrow> zero_lower_bits (flip_bit_at k i) h = zero_lower_bits k h"
  by (intro key_eqI) (auto simp: kbit_zero kbit_flip)

lemma flip_flip: "key_ok k \<Longrightarrow> i < 256 \<Longrightarrow> flip_bit_at (flip_bit_at k i) i = k"
  by (intro key_eqI) (auto simp: kbit_flip)

lemma twin_neq: "key_ok k \<Longrightarrow> flip_bit_at k 255 \<noteq> k"
  using kbit_flip [of k 255 255] by auto

lemma flip_other: "key_ok k \<Longrightarrow> k' ! 0 \<noteq> k ! 0 \<Longrightarrow> k' \<noteq> flip_bit_at k 255"
  by (auto simp: flip_bit_at_def)

lemma flip_self: "key_ok k \<Longrightarrow> k \<noteq> flip_bit_at k 255"
  using twin_neq [of k] by simp

section \<open>The reference tree\<close>

fun sub_hash :: "(bytes \<Rightarrow> hash) \<Rightarrow> (hash \<rightharpoonup> hash) \<Rightarrow> nat \<Rightarrow> hash \<Rightarrow> hash" where
  "sub_hash H L 0 p = (case L p of Some x \<Rightarrow> x | None \<Rightarrow> H [0])"
| "sub_hash H L (Suc h) p = internal_hash H (sub_hash H L h p) (sub_hash H L h (flip_bit_at p (255 - h)))"

definition reference_root :: "(bytes \<Rightarrow> hash) \<Rightarrow> (hash \<rightharpoonup> hash) \<Rightarrow> hash" where
  "reference_root H L = sub_hash H L 256 (replicate 32 0)"

definition join_at :: "(bytes \<Rightarrow> hash) \<Rightarrow> hash \<Rightarrow> nat \<Rightarrow> hash \<Rightarrow> hash \<Rightarrow> hash" where
  "join_at H key h cur sib = (if kbit key (255 - h) then internal_hash H sib cur else internal_hash H cur sib)"

lemma zero_Suc:
  assumes "key_ok k" "h < 256"
  shows "zero_lower_bits k (Suc h) = (if kbit k (255 - h) then flip_bit_at (zero_lower_bits k h) (255 - h) else zero_lower_bits k h)"
proof (rule key_eqI)
  fix i :: nat assume "i < 256"
  with assms show "kbit (zero_lower_bits k (Suc h)) i =
      kbit (if kbit k (255 - h) then flip_bit_at (zero_lower_bits k h) (255 - h) else zero_lower_bits k h) i"
    by (cases "i = 255 - h") (auto simp: kbit_zero kbit_flip)
qed (use assms in auto)

lemma sub_hash_path:
  assumes "key_ok k" "h < 256"
  shows "sub_hash H L (Suc h) (zero_lower_bits k (Suc h)) =
    join_at H k h (sub_hash H L h (zero_lower_bits k h)) (sub_hash H L h (flip_bit_at (zero_lower_bits k h) (255 - h)))"
  using assms by (simp add: zero_Suc join_at_def flip_flip)

lemma flip_zero:
  "key_ok k \<Longrightarrow> h < 256 \<Longrightarrow> flip_bit_at (zero_lower_bits k h) (255 - h) = zero_lower_bits (flip_bit_at k (255 - h)) h"
  by (intro key_eqI) (auto simp: kbit_zero kbit_flip)

lemma sub_hash_other:
  assumes "key_ok k" "key_ok p" "h \<le> 256" "zero_lower_bits k h \<noteq> zero_lower_bits p h"
  shows "sub_hash H (L(k := v)) h p = sub_hash H L h p"
  using assms
proof (induction h arbitrary: p)
  case 0
  then show ?case by (auto simp: zero_lower_bits_def)
next
  case (Suc h)
  then obtain i where i: "i < 255 - h" "kbit k i \<noteq> kbit p i" by (auto simp: zero_eq_iff)
  have lt: "i < 256 - h" "i < 256" "255 - h < 256" using i(1) by simp_all
  have "zero_lower_bits k h \<noteq> zero_lower_bits p h" using i(2) lt(1) Suc.prems by (simp add: zero_eq_iff) blast
  moreover have "kbit (flip_bit_at p (255 - h)) i = kbit p i" using i(1) lt Suc.prems by (simp add: kbit_flip)
  then have "zero_lower_bits k h \<noteq> zero_lower_bits (flip_bit_at p (255 - h)) h"
    using i(2) lt(1) Suc.prems by (simp add: zero_eq_iff) metis
  ultimately show ?case using Suc by simp
qed

lemma empty_at_sub: "sub_hash H Map.empty h p = empty_at H h"
  by (induction h arbitrary: p) auto

section \<open>Updating one path\<close>

text \<open>What the two recomputations have in common, one level at a time.\<close>

locale level_step =
  fixes H :: "bytes \<Rightarrow> hash" and step :: "hash \<Rightarrow> (nat \<times> hash \<rightharpoonup> hash) \<times> hash \<times> hash \<Rightarrow> nat \<Rightarrow> (nat \<times> hash \<rightharpoonup> hash) \<times> hash \<times> hash"
  assumes level: "step key (nodes, cur, path) (Suc h) = (nodes', cur', path') \<Longrightarrow>
      path' = zero_lower_bits key (Suc h) \<and>
      cur' = join_at H key h cur (node_or_empty H nodes h (flip_bit_at path (255 - h))) \<and>
      node_or_empty H nodes' (Suc h) path' = cur' \<and>
      (\<forall>x. x \<noteq> (Suc h, path') \<longrightarrow> nodes' x = nodes x)"
begin

lemma levels:
  assumes key: "key_ok key" and n: "n \<le> 256"
    and L': "L' = L(flip_bit_at key 255 := None, key := v)" and leaf: "leaf = sub_hash H L' 0 key"
    and start: "\<And>k h. key_ok k \<Longrightarrow> 0 < h \<Longrightarrow> h \<le> 256 \<Longrightarrow> node_or_empty H nodes h (zero_lower_bits k h) = sub_hash H L h (zero_lower_bits k h)"
    and zero: "\<And>p. nodes (0, p) = None"
    and run: "fold (\<lambda>h st. step key st h) [1..<Suc n] (nodes, leaf, key) = (nodes', cur, path)"
  shows "path = zero_lower_bits key n \<and> cur = sub_hash H L' n (zero_lower_bits key n) \<and> (\<forall>p. nodes' (0, p) = None) \<and>
    (\<forall>k h. key_ok k \<longrightarrow> 0 < h \<longrightarrow> h \<le> 256 \<longrightarrow>
       node_or_empty H nodes' h (zero_lower_bits k h) = sub_hash H (if h \<le> n then L' else L) h (zero_lower_bits k h))"
  using n run
proof (induction n arbitrary: nodes' cur path)
  case 0
  then show ?case using start zero leaf by auto
next
  case (Suc n)
  obtain nodes1 cur1 path1 where r: "fold (\<lambda>h st. step key st h) [1..<Suc n] (nodes, leaf, key) = (nodes1, cur1, path1)"
    by (metis prod_cases3)
  with Suc.prems(2) have s: "step key (nodes1, cur1, path1) (Suc n) = (nodes', cur, path)" by simp
  from Suc.IH [OF _ r] Suc.prems(1) have ih: "path1 = zero_lower_bits key n" "cur1 = sub_hash H L' n (zero_lower_bits key n)"
    "\<forall>p. nodes1 (0, p) = None"
    "\<And>k h. key_ok k \<Longrightarrow> 0 < h \<Longrightarrow> h \<le> 256 \<Longrightarrow>
       node_or_empty H nodes1 h (zero_lower_bits k h) = sub_hash H (if h \<le> n then L' else L) h (zero_lower_bits k h)"
    by auto
  note l = level [OF s]
  have "node_or_empty H nodes1 n (flip_bit_at path1 (255 - n)) = sub_hash H L' n (flip_bit_at path1 (255 - n))"
  proof (cases "n = 0")
    case True
    with ih(1,3) twin_neq [OF key] show ?thesis by (simp add: node_or_empty_def L')
  next
    case False
    with ih(4) [of "flip_bit_at key (255 - n)" n] Suc.prems(1) key show ?thesis by (simp add: ih(1) flip_zero)
  qed
  with l ih(1,2) Suc.prems(1) key have cur: "cur = sub_hash H L' (Suc n) (zero_lower_bits key (Suc n))"
    by (simp only: sub_hash_path)
  have "node_or_empty H nodes' h (zero_lower_bits k h) = sub_hash H (if h \<le> Suc n then L' else L) h (zero_lower_bits k h)"
    if k: "key_ok k" "0 < h" "h \<le> 256" for k h
  proof (cases "(h, zero_lower_bits k h) = (Suc n, path)")
    case True
    with l cur show ?thesis by auto
  next
    case False
    then have "node_or_empty H nodes' h (zero_lower_bits k h) = node_or_empty H nodes1 h (zero_lower_bits k h)"
      using l by (simp add: node_or_empty_def)
    also have "\<dots> = sub_hash H (if h \<le> n then L' else L) h (zero_lower_bits k h)" by (rule ih(4) [OF k])
    also have "\<dots> = sub_hash H (if h \<le> Suc n then L' else L) h (zero_lower_bits k h)"
    proof (cases "h = Suc n")
      case True
      with False l have "zero_lower_bits key h \<noteq> zero_lower_bits (zero_lower_bits k h) h" using k by (simp add: zero_zero)
      moreover have "zero_lower_bits (flip_bit_at key 255) h = zero_lower_bits key h"
        using key k(2,3) by (intro zero_flip) auto
      ultimately show ?thesis
        using key sub_hash_other [OF _ zero_ok [OF k(1)] k(3)] by (simp add: L' True del: sub_hash.simps)
    qed auto
    finally show ?thesis .
  qed
  moreover have "\<forall>p. nodes' (0, p) = None" using l ih(3) by simp
  ultimately show ?case using l cur by blast
qed

end

interpretation path_levels: level_step H "path_step H" for H
  by unfold_locales (auto simp: path_step_def Let_def TREE_DEPTH_def get_bit_kbit join_at_def node_or_empty_def split: if_splits)

interpretation remove_levels: level_step H "remove_step H" for H
  by unfold_locales (auto simp: remove_step_def Let_def TREE_DEPTH_def get_bit_kbit join_at_def node_or_empty_def split: if_splits)

text \<open>
  \<open>commits_to H t L\<close>: the cache and the root of \<open>t\<close> are those of the complete tree over \<open>L\<close>. The
  map a tree commits to need not be its map of leaves.
\<close>

definition commits_to :: "(bytes \<Rightarrow> hash) \<Rightarrow> smt \<Rightarrow> (hash \<rightharpoonup> hash) \<Rightarrow> bool" where
  "commits_to H t L \<longleftrightarrow> (\<forall>p. smt_nodes t (0, p) = None) \<and> smt_root t = reference_root H L \<and>
     (\<forall>k h. key_ok k \<longrightarrow> 0 < h \<longrightarrow> h \<le> 256 \<longrightarrow>
        node_or_empty H (smt_nodes t) h (zero_lower_bits k h) = sub_hash H L h (zero_lower_bits k h))"

text \<open>What an update of \<open>key\<close> does to the committed map: the key that differs in the last bit is lost.\<close>

definition committed_update :: "hash \<Rightarrow> hash option \<Rightarrow> (hash \<rightharpoonup> hash) \<Rightarrow> (hash \<rightharpoonup> hash)" where
  "committed_update key v L = L(flip_bit_at key 255 := None, key := v)"

lemma zero_all: "key_ok k \<Longrightarrow> zero_lower_bits k 256 = replicate 32 0"
  by (simp add: zero_lower_bits_def)

lemma commits_new: "commits_to H (smt_new H) Map.empty"
  by (simp add: commits_to_def smt_new_def reference_root_def TREE_DEPTH_def node_or_empty_def empty_at_sub del: sub_hash.simps)

lemma nodes_of_leaves: "smt_nodes (t\<lparr>smt_leaves := L\<rparr>) = smt_nodes t"
  by simp

lemma upto_depth: "[1..<TREE_DEPTH + 1] = [1..<Suc 256]"
  by (simp add: TREE_DEPTH_def)

lemma commits_upsert:
  assumes "commits_to H t L" "key_ok key"
  shows "commits_to H (upsert H key val t) (committed_update key (Some (leaf_hash H key val)) L)"
proof -
  let ?L = "committed_update key (Some (leaf_hash H key val)) L"
  obtain nodes cur path where r: "fold (\<lambda>h st. path_step H key st h) [1..<TREE_DEPTH + 1] (smt_nodes t, leaf_hash H key val, key) = (nodes, cur, path)"
    by (metis prod_cases3)
  from path_levels.levels [OF assms(2) order.refl committed_update_def [of key "Some (leaf_hash H key val)" L] _ _ _ r [unfolded upto_depth]] assms(1)
  have "cur = sub_hash H ?L 256 (zero_lower_bits key 256) \<and> (\<forall>p. nodes (0, p) = None) \<and>
    (\<forall>k h. key_ok k \<longrightarrow> 0 < h \<longrightarrow> h \<le> 256 \<longrightarrow>
       node_or_empty H nodes h (zero_lower_bits k h) = sub_hash H (if h \<le> 256 then ?L else L) h (zero_lower_bits k h))"
    by (simp add: commits_to_def committed_update_def)
  moreover have "upsert H key val t =
      t\<lparr>smt_leaves := (smt_leaves t)(key \<mapsto> leaf_hash H key val), smt_nodes := nodes, smt_root := cur\<rparr>"
    by (simp only: upsert_def recompute_path_def nodes_of_leaves r prod.case)
  ultimately show ?thesis
    using assms(2) by (simp add: commits_to_def reference_root_def zero_all)
qed

lemma commits_remove:
  assumes "commits_to H t L" "key_ok key"
  shows "commits_to H (smt_remove H key t) (committed_update key None L)"
proof -
  let ?L = "committed_update key None L"
  obtain nodes cur path where r: "fold (\<lambda>h st. remove_step H key st h) [1..<TREE_DEPTH + 1] (smt_nodes t, empty_at H 0, key) = (nodes, cur, path)"
    by (metis prod_cases3)
  from remove_levels.levels [OF assms(2) order.refl committed_update_def [of key None L] _ _ _ r [unfolded upto_depth]] assms(1)
  have "cur = sub_hash H ?L 256 (zero_lower_bits key 256) \<and> (\<forall>p. nodes (0, p) = None) \<and>
    (\<forall>k h. key_ok k \<longrightarrow> 0 < h \<longrightarrow> h \<le> 256 \<longrightarrow>
       node_or_empty H nodes h (zero_lower_bits k h) = sub_hash H (if h \<le> 256 then ?L else L) h (zero_lower_bits k h))"
    by (simp add: commits_to_def committed_update_def)
  moreover have "smt_remove H key t = t\<lparr>smt_leaves := (smt_leaves t)(key := None), smt_nodes := nodes, smt_root := cur\<rparr>"
    by (simp only: smt_remove_def recompute_path_remove_def nodes_of_leaves r prod.case)
  ultimately show ?thesis
    using assms(2) by (simp add: commits_to_def reference_root_def zero_all)
qed

section \<open>Histories of updates\<close>

datatype smt_op = Upsert hash bytes | Remove hash

fun op_key :: "smt_op \<Rightarrow> hash" where
  "op_key (Upsert k v) = k"
| "op_key (Remove k) = k"

fun op_value :: "smt_op \<Rightarrow> bytes option" where
  "op_value (Upsert k v) = Some v"
| "op_value (Remove k) = None"

fun smt_apply :: "(bytes \<Rightarrow> hash) \<Rightarrow> smt_op \<Rightarrow> smt \<Rightarrow> smt" where
  "smt_apply H (Upsert k v) t = upsert H k v t"
| "smt_apply H (Remove k) t = smt_remove H k t"

definition smt_run :: "(bytes \<Rightarrow> hash) \<Rightarrow> smt_op list \<Rightarrow> smt" where
  "smt_run H ops = fold (smt_apply H) ops (smt_new H)"

text \<open>The contents the history means, as a map of values, and the leaves of a map of values.\<close>

definition smt_contents :: "smt_op list \<Rightarrow> hash \<rightharpoonup> bytes" where
  "smt_contents ops = fold (\<lambda>x m. m(op_key x := op_value x)) ops Map.empty"

definition leaves_of :: "(bytes \<Rightarrow> hash) \<Rightarrow> (hash \<rightharpoonup> bytes) \<Rightarrow> (hash \<rightharpoonup> hash)" where
  "leaves_of H m = (\<lambda>k. map_option (leaf_hash H k) (m k))"

text \<open>The contents the root commits to: every update also forgets the last-bit twin of its key.\<close>

definition committed_contents :: "smt_op list \<Rightarrow> hash \<rightharpoonup> bytes" where
  "committed_contents ops = fold (\<lambda>x m. m(flip_bit_at (op_key x) 255 := None, op_key x := op_value x)) ops Map.empty"

lemma commits_apply:
  "commits_to H t (leaves_of H m) \<Longrightarrow> key_ok (op_key x) \<Longrightarrow>
   commits_to H (smt_apply H x t) (leaves_of H (m(flip_bit_at (op_key x) 255 := None, op_key x := op_value x)))"
proof -
  assume a: "commits_to H t (leaves_of H m)" "key_ok (op_key x)"
  have "leaves_of H (m(flip_bit_at (op_key x) 255 := None, op_key x := op_value x)) =
      committed_update (op_key x) (map_option (leaf_hash H (op_key x)) (op_value x)) (leaves_of H m)"
    by (auto simp: leaves_of_def committed_update_def)
  with a show ?thesis by (cases x) (auto intro: commits_upsert commits_remove)
qed

lemma commits_run:
  assumes "\<forall>x\<in>set ops. key_ok (op_key x)"
  shows "commits_to H (smt_run H ops) (leaves_of H (committed_contents ops))"
proof -
  have "commits_to H (fold (smt_apply H) ops t)
      (leaves_of H (fold (\<lambda>x m. m(flip_bit_at (op_key x) 255 := None, op_key x := op_value x)) ops m))"
    if "commits_to H t (leaves_of H m)" for t m
    using assms that by (induction ops arbitrary: t m) (auto dest: commits_apply)
  moreover have "commits_to H (smt_new H) (leaves_of H Map.empty)"
    using commits_new by (simp add: leaves_of_def)
  ultimately show ?thesis by (simp add: smt_run_def committed_contents_def)
qed

lemma leaves_run: "smt_leaves (smt_run H ops) = leaves_of H (smt_contents ops)"
proof -
  have step: "smt_leaves (smt_apply H x t) = (smt_leaves t)(op_key x := map_option (leaf_hash H (op_key x)) (op_value x))" for x t
    by (cases x) (auto simp: upsert_def smt_remove_def recompute_path_def recompute_path_remove_def split: prod.splits)
  have upd: "leaves_of H (m(op_key x := op_value x)) = (leaves_of H m)(op_key x := map_option (leaf_hash H (op_key x)) (op_value x))" for x m
    by (auto simp: leaves_of_def)
  have "smt_leaves t = leaves_of H m \<Longrightarrow> smt_leaves (fold (smt_apply H) ops t) = leaves_of H (fold (\<lambda>x m. m(op_key x := op_value x)) ops m)" for t m
    by (induction ops arbitrary: t m) (auto simp: step upd)
  then show ?thesis by (simp add: smt_run_def smt_contents_def leaves_of_def smt_new_def)
qed

text \<open>Without twins among the keys of a history, both contents agree.\<close>

definition no_twins :: "smt_op list \<Rightarrow> bool" where
  "no_twins ops \<longleftrightarrow> (\<forall>x\<in>set ops. key_ok (op_key x) \<and> (\<forall>y\<in>set ops. op_key y \<noteq> flip_bit_at (op_key x) 255))"

lemma contents_committed:
  assumes "no_twins ops"
  shows "committed_contents ops = smt_contents ops"
proof -
  let ?c = "\<lambda>x m. m(flip_bit_at (op_key x) 255 := None, op_key x := op_value x)"
  have "fold ?c xs m = fold (\<lambda>x m. m(op_key x := op_value x)) xs m"
    if "set xs \<subseteq> set ops" "dom m \<subseteq> op_key ` set ops" for xs m
    using that
  proof (induction xs arbitrary: m)
    case (Cons x xs)
    then have "x \<in> set ops" by simp
    then have "flip_bit_at (op_key x) 255 \<notin> op_key ` set ops" using assms unfolding no_twins_def by force
    then have "m (flip_bit_at (op_key x) 255) = None" using Cons.prems(2) by blast
    then have "m(flip_bit_at (op_key x) 255 := None) = m" by (simp add: fun_upd_idem)
    then have c: "?c x m = m(op_key x := op_value x)" by (simp only:)
    have "set xs \<subseteq> set ops" "dom (m(op_key x := op_value x)) \<subseteq> op_key ` set ops"
      using Cons.prems by (auto split: if_splits)
    then show ?case unfolding fold_Cons comp_apply c by (rule Cons.IH)
  qed simp
  then show ?thesis by (simp add: committed_contents_def smt_contents_def)
qed

section \<open>What proofs show\<close>

lemma climb_join:
  "h < 256 \<Longrightarrow> climb H key sibs cur (Suc h) = join_at H key h cur (sibs ! h)"
  by (simp add: climb_def TREE_DEPTH_def get_bit_kbit join_at_def)

lemma prove_climbs:
  assumes "commits_to H t L" "key_ok key" "L (flip_bit_at key 255) = None" "n \<le> 256"
  shows "fold (\<lambda>h cur. climb H key (mp_siblings (smt_prove H t key)) cur h) [1..<Suc n] (sub_hash H L 0 key) =
    sub_hash H L n (zero_lower_bits key n)"
  using assms(4)
proof (induction n)
  case (Suc n)
  have "mp_siblings (smt_prove H t key) ! n = node_or_empty H (smt_nodes t) n (flip_bit_at (zero_lower_bits key n) (255 - n))"
    using Suc.prems by (simp add: smt_prove_def TREE_DEPTH_def del: upt_Suc)
  also have "\<dots> = sub_hash H L n (flip_bit_at (zero_lower_bits key n) (255 - n))"
  proof (cases "n = 0")
    case True
    with assms(1,3) show ?thesis by (simp add: commits_to_def node_or_empty_def)
  next
    case False
    with Suc.prems have "0 < n" "n \<le> 256" by simp_all
    with assms(1,2) Suc.prems show ?thesis unfolding commits_to_def by (metis flip_zero flip_ok Suc_le_lessD)
  qed
  finally have "climb H key (mp_siblings (smt_prove H t key)) (sub_hash H L n (zero_lower_bits key n)) (Suc n) =
      sub_hash H L (Suc n) (zero_lower_bits key (Suc n))"
    using Suc.prems assms(2) by (simp only: climb_join sub_hash_path Suc_le_eq)
  moreover have "[1..<Suc (Suc n)] = [1..<Suc n] @ [Suc n]" by simp
  ultimately show ?case using Suc by (simp only: fold_append comp_apply fold_simps id_apply)
qed simp

text \<open>
  Two accepted proofs about one key under one root hash along the same positions. The messages the
  verifier hashes are collected level by level; where the hash does not collide on them, the
  opened leaves are the same.
\<close>

definition leaf_message :: "hash \<Rightarrow> bytes option \<Rightarrow> bytes" where
  "leaf_message key val = (case val of Some v \<Rightarrow> 0 # key @ v | None \<Rightarrow> [0])"

definition climb_message :: "hash \<Rightarrow> hash list \<Rightarrow> hash \<Rightarrow> nat \<Rightarrow> bytes" where
  "climb_message key sibs cur h =
     (if get_bit key (TREE_DEPTH - h) = 0 then 1 # cur @ sibs ! (h - 1) else 1 # sibs ! (h - 1) @ cur)"

definition climb_to :: "(bytes \<Rightarrow> hash) \<Rightarrow> hash \<Rightarrow> bytes option \<Rightarrow> merkle_path \<Rightarrow> nat \<Rightarrow> hash" where
  "climb_to H key val path n = fold (\<lambda>h cur. climb H key (mp_siblings path) cur h) [1..<Suc n] (H (leaf_message key val))"

definition proof_messages :: "(bytes \<Rightarrow> hash) \<Rightarrow> hash \<Rightarrow> bytes option \<Rightarrow> merkle_path \<Rightarrow> bytes list" where
  "proof_messages H key val path = leaf_message key val #
     map (\<lambda>n. climb_message key (mp_siblings path) (climb_to H key val path n) (Suc n)) [0..<256]"

definition hashes_ok :: "merkle_path \<Rightarrow> bool" where
  "hashes_ok path \<longleftrightarrow> (\<forall>x\<in>set (mp_siblings path). length x = 32)"

lemma climb_hash: "climb H key sibs cur h = H (climb_message key sibs cur h)"
  by (simp add: climb_def climb_message_def internal_hash_def)

lemma climb_to_Suc: "climb_to H key val path (Suc n) = H (climb_message key (mp_siblings path) (climb_to H key val path n) (Suc n))"
  by (simp add: climb_to_def climb_hash)

lemma climb_to_length: "(\<And>m. length (H m) = 32) \<Longrightarrow> length (climb_to H key val path n) = 32"
  by (cases n) (simp_all add: climb_to_Suc, simp add: climb_to_def)

lemma verify_climbs:
  "smt_verify H root key val path \<longleftrightarrow>
     length (mp_siblings path) = 256 \<and> mp_is_empty_leaf path = (val = None) \<and> climb_to H key val path 256 = root"
  by (auto simp: smt_verify_def climb_to_def TREE_DEPTH_def leaf_message_def leaf_hash_def
      simp del: upt_Suc split: option.splits bool.splits)

lemma climb_message_inj:
  assumes "climb_message key s1 c1 (Suc n) = climb_message key s2 c2 (Suc n)"
    "length c1 = 32" "length c2 = 32" "length (s1 ! n) = 32" "length (s2 ! n) = 32"
  shows "c1 = c2"
  using assms by (auto simp: climb_message_def split: if_splits)

lemma climb_to_agree:
  assumes len: "\<And>m. length (H m) = 32"
    and p: "hashes_ok p1" "length (mp_siblings p1) = 256" and q: "hashes_ok p2" "length (mp_siblings p2) = 256"
    and inj: "inj_on H (set (proof_messages H key v1 p1) \<union> set (proof_messages H key v2 p2))"
    and n: "n \<le> 256" and e: "climb_to H key v1 p1 256 = climb_to H key v2 p2 256"
  shows "climb_to H key v1 p1 n = climb_to H key v2 p2 n"
  using n
proof (induction rule: inc_induct)
  case (step m)
  have mem: "climb_message key (mp_siblings p) (climb_to H key v p m) (Suc m) \<in> set (proof_messages H key v p)" for v p
    using step.hyps by (auto simp: proof_messages_def)
  have sib: "hashes_ok p \<Longrightarrow> length (mp_siblings p) = 256 \<Longrightarrow> length (mp_siblings p ! m) = 32" for p
    using step.hyps by (auto simp: hashes_ok_def)
  from step.IH have "climb_message key (mp_siblings p1) (climb_to H key v1 p1 m) (Suc m) =
      climb_message key (mp_siblings p2) (climb_to H key v2 p2 m) (Suc m)"
    unfolding climb_to_Suc by (rule inj_onD [OF inj]) (use mem in blast)+
  then show ?case by (rule climb_message_inj) (simp_all add: climb_to_length len sib p q)
qed (rule e)

section \<open>Properties of the tree\<close>

text \<open>
  C32. After any history of insertions and removals the root, computed along single paths with the
  cache of inner nodes, is the hash of the complete binary tree of 256 levels over the contents in
  which every update of a key also forgets the key that differs from it in the last bit.
\<close>

theorem smt_root_refines:
  assumes "\<forall>x\<in>set ops. key_ok (op_key x)"
  shows "smt_root (smt_run H ops) = reference_root H (leaves_of H (committed_contents ops))"
  using commits_run [OF assms] by (simp add: commits_to_def)

theorem smt_root_refines_witness:
  "smt_root (smt_run id [Upsert (replicate 32 5) [1], Remove (replicate 32 7)]) =
   reference_root id (leaves_of id (committed_contents [Upsert (replicate 32 5) [1], Remove (replicate 32 7)]))"
  by (rule smt_root_refines) simp

text \<open>
  C33. While no two keys of the history differ in their last bit alone, the tree proves its contents:
  for every key of 32 bytes whose twin was not used either, the proof it produces is accepted
  against its root for exactly the value the history left at the key, or its absence.
\<close>

theorem smt_proofs_accepted:
  assumes "no_twins ops" "key_ok key" "\<forall>x\<in>set ops. op_key x \<noteq> flip_bit_at key 255"
  shows "smt_verify H (smt_root (smt_run H ops)) key (smt_contents ops key) (smt_prove H (smt_run H ops) key)"
proof -
  let ?t = "smt_run H ops" and ?L = "leaves_of H (smt_contents ops)"
  have c: "commits_to H ?t ?L"
    using commits_run [of ops H] assms(1) by (simp add: contents_committed no_twins_def)
  have "m twin = None \<Longrightarrow> \<forall>x\<in>set ops. op_key x \<noteq> twin \<Longrightarrow> fold (\<lambda>x m. m(op_key x := op_value x)) ops m twin = None" for m twin
    by (induction ops arbitrary: m) auto
  then have "?L (flip_bit_at key 255) = None" using assms(3) by (simp add: smt_contents_def leaves_of_def)
  note climbs = prove_climbs [OF c assms(2) this order.refl]
  have leaf: "sub_hash H ?L 0 key = H (leaf_message key (smt_contents ops key))"
    by (simp add: leaves_of_def leaf_message_def leaf_hash_def split: option.split)
  have "climb_to H key (smt_contents ops key) (smt_prove H ?t key) 256 = smt_root ?t"
    unfolding climb_to_def leaf [symmetric] climbs using c assms(2) by (simp add: commits_to_def reference_root_def zero_all)
  then show ?thesis
    by (simp add: verify_climbs smt_prove_def TREE_DEPTH_def leaves_run leaves_of_def del: upt_Suc)
qed

theorem smt_proofs_accepted_witness:
  "smt_verify id (smt_root (smt_run id [Upsert (replicate 32 5) [1]])) (replicate 32 8)
     (smt_contents [Upsert (replicate 32 5) [1]] (replicate 32 8)) (smt_prove id (smt_run id [Upsert (replicate 32 5) [1]]) (replicate 32 8))"
  by (rule smt_proofs_accepted) (simp_all add: no_twins_def flip_other flip_self)

text \<open>
  C34. A root binds the value of every key: two proofs with 256 siblings of 32 bytes that are
  accepted for one key under one root are for the same value, or both for its absence, as long as
  the hash does not collide on the messages the two verifications hash.
\<close>

theorem smt_proofs_bind:
  assumes "smt_verify H root key v1 p1" "smt_verify H root key v2 p2" "hashes_ok p1" "hashes_ok p2" "key_ok key"
    and "\<And>m. length (H m) = 32" "inj_on H (set (proof_messages H key v1 p1) \<union> set (proof_messages H key v2 p2))"
  shows "v1 = v2"
proof -
  from assms(1,2) have a: "length (mp_siblings p1) = 256" "length (mp_siblings p2) = 256"
    "climb_to H key v1 p1 256 = climb_to H key v2 p2 256" by (simp_all add: verify_climbs)
  from climb_to_agree [OF assms(6,3) a(1) assms(4) a(2) assms(7) _ a(3), of 0]
  have "H (leaf_message key v1) = H (leaf_message key v2)" by (simp add: climb_to_def)
  then have "leaf_message key v1 = leaf_message key v2"
    by (rule inj_onD [OF assms(7)]) (simp_all add: proof_messages_def)
  with assms(5) show ?thesis by (auto simp: leaf_message_def split: option.splits)
qed

text \<open>A hash that counts the levels of a path of left turns collides on no message of the path.\<close>

definition level_count :: "bytes \<Rightarrow> hash" where
  "level_count m = (if m = [0] then int_bytes 32 0 else int_bytes 32 (Suc (int_value (take 32 (tl m)))))"

lemma int_value_small: "n \<le> 256 \<Longrightarrow> int_value (int_bytes 32 n) = n"
  by (simp add: int_value_bytes)

lemma level_count_length: "length (level_count m) = 32"
  by (simp add: level_count_def)

lemma level_count_climb:
  "n \<le> 256 \<Longrightarrow> climb_to level_count (replicate 32 0) None path n = int_bytes 32 n"
proof (induction n)
  case (Suc n)
  then show ?case
    by (simp only: climb_to_Suc) (simp add: level_count_def climb_message_def get_bit_def TREE_DEPTH_def less_mult_imp_div_less int_value_small)
qed (simp add: climb_to_def leaf_message_def level_count_def)

lemma level_count_inj: "inj_on level_count (set (proof_messages level_count (replicate 32 0) None path))"
proof -
  let ?m = "\<lambda>n. climb_message (replicate 32 0) (mp_siblings path) (climb_to level_count (replicate 32 0) None path n) (Suc n)"
  have hash: "level_count (?m n) = int_bytes 32 (Suc n)" if "n < 256" for n
    using level_count_climb [of "Suc n" path] that by (simp add: climb_to_Suc)
  have val: "int_value (level_count (?m n)) = Suc n" if "n < 256" for n
    using that by (simp add: hash int_value_small del: int_bytes.simps)
  have zero: "int_value (level_count [0]) = 0" by (simp add: level_count_def int_value_small)
  show ?thesis
  proof (rule inj_onI)
    fix x y assume x: "x \<in> set (proof_messages level_count (replicate 32 0) None path)"
      and y: "y \<in> set (proof_messages level_count (replicate 32 0) None path)" and e: "level_count x = level_count y"
    from x y e val zero show "x = y"
      by (auto simp: proof_messages_def leaf_message_def dest!: arg_cong [where f = int_value])
  qed
qed

theorem smt_proofs_bind_witness:
  "(None :: bytes option) = None \<and>
   smt_verify level_count (int_bytes 32 256) (replicate 32 0) None \<lparr>mp_siblings = replicate 256 (replicate 32 0), mp_is_empty_leaf = True\<rparr>"
proof -
  let ?p = "\<lparr>mp_siblings = replicate 256 (replicate 32 0), mp_is_empty_leaf = True\<rparr> :: merkle_path"
  have v: "smt_verify level_count (int_bytes 32 256) (replicate 32 0) None ?p" by (simp add: verify_climbs level_count_climb)
  have h: "hashes_ok ?p" by (simp add: hashes_ok_def)
  have "(None :: bytes option) = None"
    by (rule smt_proofs_bind [OF v v h h]) (simp_all add: level_count_length level_count_inj)
  with v show ?thesis by blast
qed

text \<open>
  The cache has no entries for leaves, so an update hashes its path against an empty sibling
  leaf: after inserting a key and then its last-bit twin, the tree lists both leaves, but its root
  is the root of the twin alone, whatever the first value was.
\<close>

theorem twin_leaf_lost:
  assumes "key_ok key"
  shows "smt_root (smt_run H [Upsert key v, Upsert (flip_bit_at key 255) w]) = smt_root (smt_run H [Upsert (flip_bit_at key 255) w]) \<and>
    smt_leaves (smt_run H [Upsert key v, Upsert (flip_bit_at key 255) w]) key = Some (leaf_hash H key v)"
proof -
  have "committed_contents [Upsert key v, Upsert (flip_bit_at key 255) w] = committed_contents [Upsert (flip_bit_at key 255) w]"
    using assms by (auto simp: committed_contents_def flip_flip)
  moreover have "flip_bit_at key 255 \<noteq> key" by (rule twin_neq [OF assms])
  ultimately show ?thesis
    using assms commits_run [of "[Upsert key v, Upsert (flip_bit_at key 255) w]" H]
      commits_run [of "[Upsert (flip_bit_at key 255) w]" H]
    by (simp add: commits_to_def leaves_run leaves_of_def smt_contents_def)
qed

theorem twin_leaf_lost_witness:
  "smt_root (smt_run id [Upsert (replicate 32 0) [1], Upsert (flip_bit_at (replicate 32 0) 255) [2]]) =
     smt_root (smt_run id [Upsert (flip_bit_at (replicate 32 0) 255) [2]]) \<and>
   smt_leaves (smt_run id [Upsert (replicate 32 0) [1], Upsert (flip_bit_at (replicate 32 0) 255) [2]]) (replicate 32 0) =
     Some (leaf_hash id (replicate 32 0) [1])"
  by (rule twin_leaf_lost) simp

end
