(* ===== verification/Poker_Codec.thy ===== *)
theory Poker_Codec
  imports Poker_Borsh Poker_Table
begin

text \<open>
  The byte encoding of a table's parts (\<^verbatim>\<open>poker_l1/.../core/types.rs\<close>, \<^verbatim>\<open>core/card.rs\<close>,
  \<^verbatim>\<open>core/betting.rs\<close>): the derived Borsh codecs of its structs and enums, and the two
  handwritten codecs, of a seat and of the hand phase, which are zero-padded records of a fixed
  width. The encodings of a curve point and of a ciphertext are the curve library's; they are
  arguments, gathered in \<open>point_codec\<close>.

  For each type \<open>ok_\<dots>\<close> is the range of the machine types of its fields.
\<close>

section \<open>Points, masks and cards\<close>

record 'pt point_codec =
  pc_put_point :: "'pt writer"
  pc_get_point :: "'pt reader"
  pc_put_ct :: "'pt ciphertext writer"
  pc_get_ct :: "'pt ciphertext reader"

text \<open>What the tables rely on: a written point or ciphertext reads back.\<close>

definition lawful_points :: "'pt point_codec \<Rightarrow> bool" where
  "lawful_points P \<longleftrightarrow> reads_back (\<lambda>_. True) (pc_put_point P) (pc_get_point P) \<and>
     reads_back (\<lambda>_. True) (pc_put_ct P) (pc_get_ct P)"

definition put_mask :: "seat_mask writer" where
  "put_mask m = put_u16 (unat m)"

definition get_mask :: "seat_mask reader" where
  "get_mask bs = rbind (get_u16 bs) (\<lambda>(n, bs). Inr (word_of_nat n, bs))"

definition put_address :: "address writer" where
  "put_address = put_array"

definition get_address :: "address reader" where
  "get_address = read_exact 20"

definition put_card :: "card writer" where
  "put_card c = put_u8 (to_index c)"

definition get_card :: "card reader" where
  "get_card bs = rbind (get_u8 bs) (\<lambda>(n, bs). Inr (Card n, bs))"

definition put_cards :: "fixed_cards writer" where
  "put_cards h = put_fields [put_u8 (fc_len h), put_many put_card (fc_cards h)]"

definition get_cards :: "nat \<Rightarrow> fixed_cards reader" where
  "get_cards capacity bs =
     rbind (get_u8 bs) (\<lambda>(n, bs).
     rbind (get_many get_card capacity bs) (\<lambda>(cs, bs). Inr (\<lparr>fc_len = n, fc_cards = cs\<rparr>, bs)))"

definition ok_cards :: "nat \<Rightarrow> fixed_cards \<Rightarrow> bool" where
  "ok_cards capacity h \<longleftrightarrow> fc_len h < 256 \<and> length (fc_cards h) = capacity \<and> (\<forall>c\<in>set (fc_cards h). to_index c < 256)"

section \<open>Keys, rules and rounds\<close>

definition put_tx_pk :: "stark_tx_pubkey writer" where
  "put_tx_pk k = put_fields [put_u8 (unat (stk_tag k)), put_array (stk_raw k)]"

definition get_tx_pk :: "stark_tx_pubkey reader" where
  "get_tx_pk bs =
     rbind (get_u8 bs) (\<lambda>(tag, bs).
     rbind (read_exact 32 bs) (\<lambda>(raw, bs). Inr (\<lparr>stk_tag = word_of_nat tag, stk_raw = raw\<rparr>, bs)))"

definition put_timeouts :: "timeout_config writer" where
  "put_timeouts c = put_fields [put_u32 (shuffle_timeout_ms c), put_u32 (reveal_timeout_ms c), put_u32 (betting_timeout_ms c),
     put_u32 (reconstruct_timeout_ms c), put_u32 (showdown_display_ms c)]"

definition get_timeouts :: "timeout_config reader" where
  "get_timeouts bs =
     rbind (get_u32 bs) (\<lambda>(a, bs). rbind (get_u32 bs) (\<lambda>(b, bs). rbind (get_u32 bs) (\<lambda>(c, bs).
     rbind (get_u32 bs) (\<lambda>(d, bs). rbind (get_u32 bs) (\<lambda>(e, bs).
       Inr (\<lparr>shuffle_timeout_ms = a, reveal_timeout_ms = b, betting_timeout_ms = c,
             reconstruct_timeout_ms = d, showdown_display_ms = e\<rparr>, bs))))))"

definition ok_timeouts :: "timeout_config \<Rightarrow> bool" where
  "ok_timeouts c \<longleftrightarrow> shuffle_timeout_ms c < u32_bound \<and> reveal_timeout_ms c < u32_bound \<and>
     betting_timeout_ms c < u32_bound \<and> reconstruct_timeout_ms c < u32_bound \<and> showdown_display_ms c < u32_bound"

definition put_rules :: "table_rules writer" where
  "put_rules r = put_fields [put_u8 (r_max_players r), put_u64 (r_small_blind r), put_u64 (r_big_blind r),
     put_timeouts (r_timeout_config r), put_u8 (r_ante_mode r), put_u64 (r_ante_amount r), put_u8 (r_rake_mode r),
     put_u16 (r_rake_bps r), put_u64 (r_rake_cap r), put_u8 (r_rit_mode r)]"

definition get_rules :: "table_rules reader" where
  "get_rules bs =
     rbind (get_u8 bs) (\<lambda>(mp, bs). rbind (get_u64 bs) (\<lambda>(sb, bs). rbind (get_u64 bs) (\<lambda>(bb, bs).
     rbind (get_timeouts bs) (\<lambda>(tc, bs). rbind (get_u8 bs) (\<lambda>(am, bs). rbind (get_u64 bs) (\<lambda>(aa, bs).
     rbind (get_u8 bs) (\<lambda>(rm, bs). rbind (get_u16 bs) (\<lambda>(rb, bs). rbind (get_u64 bs) (\<lambda>(rc, bs).
     rbind (get_u8 bs) (\<lambda>(rit, bs).
       Inr (\<lparr>r_max_players = mp, r_small_blind = sb, r_big_blind = bb, r_timeout_config = tc, r_ante_mode = am,
             r_ante_amount = aa, r_rake_mode = rm, r_rake_bps = rb, r_rake_cap = rc, r_rit_mode = rit\<rparr>, bs)))))))))))"

definition ok_rules :: "table_rules \<Rightarrow> bool" where
  "ok_rules r \<longleftrightarrow> r_max_players r < 256 \<and> r_small_blind r < u64_bound \<and> r_big_blind r < u64_bound \<and>
     ok_timeouts (r_timeout_config r) \<and> r_ante_mode r < 256 \<and> r_ante_amount r < u64_bound \<and> r_rake_mode r < 256 \<and>
     r_rake_bps r < 65536 \<and> r_rake_cap r < u64_bound \<and> r_rit_mode r < 256"

definition put_round :: "betting_round writer" where
  "put_round r = put_fields [put_u64 (current_bet r), put_u64 (min_raise r)]"

definition get_round :: "betting_round reader" where
  "get_round bs =
     rbind (get_u64 bs) (\<lambda>(cb, bs). rbind (get_u64 bs) (\<lambda>(mr, bs). Inr (\<lparr>current_bet = cb, min_raise = mr\<rparr>, bs)))"

definition ok_round :: "betting_round \<Rightarrow> bool" where
  "ok_round r \<longleftrightarrow> current_bet r < u64_bound \<and> min_raise r < u64_bound"

section \<open>Zero-padded records\<close>

text \<open>
  A record is the length of tag and payload, the tag, the payload, and zeros up to the width.
  The reader indexes the buffer at 0 for the tag: with a length of 0 that is out of range.
\<close>

definition write_padded_record :: "nat \<Rightarrow> bytes \<Rightarrow> nat \<Rightarrow> bytes res" where
  "write_padded_record tag payload width =
     (let body_len = length payload + 1 + 4 in
      if body_len > width then Inl (Serialization ''fixed-width record payload exceeds record width'')
      else if length payload + 1 \<ge> u32_bound then Inl (Serialization ''record too large'')
      else put_fields [put_u32 (length payload + 1), put_u8 tag, Inr payload, Inr (replicate (width - body_len) 0)])"

definition read_padded_record :: "nat \<Rightarrow> (nat \<times> bytes) reader" where
  "read_padded_record width bs =
     rbind (get_u32 bs) (\<lambda>(len, bs).
     if len + 4 > width then Inl (Serialization ''fixed-width record length exceeds record width'')
     else rbind (read_exact len bs) (\<lambda>(buf, bs).
     rbind (read_exact (width - (len + 4)) bs) (\<lambda>(padding, bs).
     if list_ex (\<lambda>b. b \<noteq> 0) padding
     then Inl (Serialization ''non-canonical fixed-width record: padding must be zero'')
     else case buf of
         [] \<Rightarrow> Inl (Panic ''index out of bounds: the len is 0 but the index is 0'')
       | tag # payload \<Rightarrow> Inr ((unat tag, payload), bs))))"

text \<open>The reader of a variant works on the payload alone and drops what it leaves.\<close>

definition payload_of :: "'a reader \<Rightarrow> bytes \<Rightarrow> 'a res" where
  "payload_of g payload = rbind (g payload) (\<lambda>(x, _). Inr x)"

section \<open>Seats\<close>

definition put_occupied :: "'pt point_codec \<Rightarrow> 'pt occupied_seat writer" where
  "put_occupied P oc = put_fields [put_address (oc_player oc), put_u64 (oc_stack oc), pc_put_point P (oc_pk oc),
     put_tx_pk (oc_tx_pk oc), put_u64 (oc_pending_addon oc), put_u32 (oc_time_bank_ms oc)]"

definition get_occupied :: "'pt point_codec \<Rightarrow> 'pt occupied_seat reader" where
  "get_occupied P bs =
     rbind (get_address bs) (\<lambda>(player, bs). rbind (get_u64 bs) (\<lambda>(stack, bs).
     rbind (pc_get_point P bs) (\<lambda>(pk, bs). rbind (get_tx_pk bs) (\<lambda>(tx, bs).
     rbind (get_u64 bs) (\<lambda>(addon, bs). rbind (get_u32 bs) (\<lambda>(bank, bs).
       Inr (\<lparr>oc_player = player, oc_stack = stack, oc_pk = pk, oc_tx_pk = tx, oc_pending_addon = addon,
             oc_time_bank_ms = bank\<rparr>, bs)))))))"

definition ok_tx_pk :: "stark_tx_pubkey \<Rightarrow> bool" where
  "ok_tx_pk k \<longleftrightarrow> length (stk_raw k) = 32"

definition ok_occupied :: "'pt occupied_seat \<Rightarrow> bool" where
  "ok_occupied oc \<longleftrightarrow> length (oc_player oc) = 20 \<and> oc_stack oc < u64_bound \<and> ok_tx_pk (oc_tx_pk oc) \<and>
     oc_pending_addon oc < u64_bound \<and> oc_time_bank_ms oc < u32_bound"

fun playing_status_index :: "playing_seat_status \<Rightarrow> nat" where
  "playing_status_index PActive = 0" | "playing_status_index PFolded = 1" | "playing_status_index PAllIn = 2"

definition put_playing_status :: "playing_seat_status writer" where
  "put_playing_status s = put_u8 (playing_status_index s)"

definition get_playing_status :: "playing_seat_status reader" where
  "get_playing_status bs = rbind (get_u8 bs) (\<lambda>(n, bs).
     if n = 0 then Inr (PActive, bs) else if n = 1 then Inr (PFolded, bs) else if n = 2 then Inr (PAllIn, bs)
     else Inl (Serialization ''borsh: unexpected variant index''))"

definition put_playing :: "'pt point_codec \<Rightarrow> 'pt playing_seat writer" where
  "put_playing P p = put_fields [put_occupied P (pl_occupied p), put_cards (pl_hand p), put_u64 (pl_bet p),
     put_u64 (pl_total_bet p), put_playing_status (pl_status p)]"

definition get_playing :: "'pt point_codec \<Rightarrow> 'pt playing_seat reader" where
  "get_playing P bs =
     rbind (get_occupied P bs) (\<lambda>(oc, bs). rbind (get_cards 2 bs) (\<lambda>(hand, bs).
     rbind (get_u64 bs) (\<lambda>(bet, bs). rbind (get_u64 bs) (\<lambda>(total_bet, bs).
     rbind (get_playing_status bs) (\<lambda>(st, bs).
       Inr (\<lparr>pl_occupied = oc, pl_hand = hand, pl_bet = bet, pl_total_bet = total_bet, pl_status = st\<rparr>, bs))))))"

definition ok_playing :: "'pt playing_seat \<Rightarrow> bool" where
  "ok_playing p \<longleftrightarrow> ok_occupied (pl_occupied p) \<and> ok_cards 2 (pl_hand p) \<and> pl_bet p < u64_bound \<and> pl_total_bet p < u64_bound"

definition SEAT_RECORD_WIDTH :: nat where "SEAT_RECORD_WIDTH = 512"

fun seat_payload :: "'pt point_codec \<Rightarrow> 'pt seat \<Rightarrow> nat \<times> bytes res" where
  "seat_payload P (SeatVacant bank) = (0, put_u32 bank)"
| "seat_payload P (SeatWaiting oc) = (1, put_occupied P oc)"
| "seat_payload P (SeatPlaying p) = (2, put_playing P p)"
| "seat_payload P (SeatDeparted player total_bet bank) =
     (3, put_fields [put_address player, put_u64 total_bet, put_u32 bank])"

definition put_seat :: "'pt point_codec \<Rightarrow> 'pt seat writer" where
  "put_seat P s = (case seat_payload P s of (tag, payload) \<Rightarrow>
     rbind payload (\<lambda>payload. write_padded_record tag payload SEAT_RECORD_WIDTH))"

definition get_departed :: "bytes \<Rightarrow> ('pt seat \<times> bytes) res" where
  "get_departed bs =
     rbind (get_address bs) (\<lambda>(player, bs). rbind (get_u64 bs) (\<lambda>(total_bet, bs).
     rbind (get_u32 bs) (\<lambda>(bank, bs). Inr (SeatDeparted player total_bet bank, bs))))"

definition get_seat :: "'pt point_codec \<Rightarrow> 'pt seat reader" where
  "get_seat P bs =
     rbind (read_padded_record SEAT_RECORD_WIDTH bs) (\<lambda>((tag, payload), bs).
     rbind (if tag = 0 then rbind (payload_of get_u32 payload) (\<lambda>bank. Inr (SeatVacant bank))
            else if tag = 1 then rbind (payload_of (get_occupied P) payload) (\<lambda>oc. Inr (SeatWaiting oc))
            else if tag = 2 then rbind (payload_of (get_playing P) payload) (\<lambda>p. Inr (SeatPlaying p))
            else if tag = 3 then payload_of get_departed payload
            else Inl (Serialization ''unknown Seat record tag'')) (\<lambda>s. Inr (s, bs)))"

fun ok_seat :: "'pt seat \<Rightarrow> bool" where
  "ok_seat (SeatVacant bank) = (bank < u32_bound)"
| "ok_seat (SeatWaiting oc) = ok_occupied oc"
| "ok_seat (SeatPlaying p) = ok_playing p"
| "ok_seat (SeatDeparted player total_bet bank) = (length player = 20 \<and> total_bet < u64_bound \<and> bank < u32_bound)"

section \<open>The phase\<close>

definition put_shuffle :: "shuffle_progress writer" where
  "put_shuffle s = put_fields [put_mask (sh_pending_mask s), put_mask (sh_completed_mask s)]"

definition get_shuffle :: "shuffle_progress reader" where
  "get_shuffle bs =
     rbind (get_mask bs) (\<lambda>(p, bs). rbind (get_mask bs) (\<lambda>(c, bs).
       Inr (\<lparr>sh_pending_mask = p, sh_completed_mask = c\<rparr>, bs)))"

fun put_target :: "reveal_target writer" where
  "put_target (Hole seat slot) = put_fields [put_u8 0, put_u8 seat, put_u8 slot]"
| "put_target (Board run pos) = put_fields [put_u8 1, put_u8 run, put_u8 pos]"

definition get_target :: "reveal_target reader" where
  "get_target bs = rbind (get_u8 bs) (\<lambda>(tag, bs).
     if tag = 0 then rbind (get_u8 bs) (\<lambda>(seat, bs). rbind (get_u8 bs) (\<lambda>(slot, bs). Inr (Hole seat slot, bs)))
     else if tag = 1 then rbind (get_u8 bs) (\<lambda>(run, bs). rbind (get_u8 bs) (\<lambda>(pos, bs). Inr (Board run pos, bs)))
     else Inl (Serialization ''borsh: unexpected variant index''))"

fun ok_target :: "reveal_target \<Rightarrow> bool" where
  "ok_target (Hole seat slot) = (seat < 256 \<and> slot < 256)"
| "ok_target (Board run pos) = (run < 256 \<and> pos < 256)"

definition put_assignment :: "'pt point_codec \<Rightarrow> 'pt reveal_assignment writer" where
  "put_assignment P a = put_fields [put_u8 (ra_index a), put_target (ra_target a), put_mask (ra_pending_mask a),
     put_mask (ra_submitted_mask a), put_vec (pc_put_point P) (ra_tokens a)]"

definition get_assignment :: "'pt point_codec \<Rightarrow> 'pt reveal_assignment reader" where
  "get_assignment P bs =
     rbind (get_u8 bs) (\<lambda>(i, bs). rbind (get_target bs) (\<lambda>(target, bs). rbind (get_mask bs) (\<lambda>(p, bs).
     rbind (get_mask bs) (\<lambda>(s, bs). rbind (get_vec (pc_get_point P) bs) (\<lambda>(tokens, bs).
       Inr (\<lparr>ra_index = i, ra_target = target, ra_pending_mask = p, ra_submitted_mask = s, ra_tokens = tokens\<rparr>, bs))))))"

definition ok_assignment :: "'pt reveal_assignment \<Rightarrow> bool" where
  "ok_assignment a \<longleftrightarrow> ra_index a < 256 \<and> ok_target (ra_target a)"

text \<open>This enum is written with its discriminants 1, 2 and 3.\<close>

fun reveal_purpose_value :: "reveal_purpose \<Rightarrow> nat" where
  "reveal_purpose_value DealHole = 1" | "reveal_purpose_value RevealBoard = 2" | "reveal_purpose_value ShowdownOwner = 3"

definition get_purpose :: "reveal_purpose reader" where
  "get_purpose bs = rbind (get_u8 bs) (\<lambda>(n, bs).
     if n = 1 then Inr (DealHole, bs) else if n = 2 then Inr (RevealBoard, bs) else if n = 3 then Inr (ShowdownOwner, bs)
     else Inl (Serialization ''borsh: unexpected variant index''))"

definition put_reveal :: "'pt point_codec \<Rightarrow> 'pt reveal_token_state writer" where
  "put_reveal P r = put_fields [put_u8 (reveal_purpose_value (rt_purpose r)), put_vec (put_assignment P) (rt_assignments r)]"

definition get_reveal :: "'pt point_codec \<Rightarrow> 'pt reveal_token_state reader" where
  "get_reveal P bs =
     rbind (get_purpose bs) (\<lambda>(p, bs). rbind (get_vec (get_assignment P) bs) (\<lambda>(as, bs).
       Inr (\<lparr>rt_purpose = p, rt_assignments = as\<rparr>, bs)))"

definition ok_reveal :: "'pt reveal_token_state \<Rightarrow> bool" where
  "ok_reveal r \<longleftrightarrow> (\<forall>a\<in>set (rt_assignments r). ok_assignment a)"

fun put_shuffling :: "'pt point_codec \<Rightarrow> 'pt shuffling_phase writer" where
  "put_shuffling P (ShufflingInitial st d) = put_fields [put_u8 0, put_shuffle st, put_u64 d]"
| "put_shuffling P (ShufflingReconstruct street st susp d) =
     put_fields [put_u8 1, put_u8 street, put_shuffle st, put_reveal P susp, put_u64 d]"

definition get_shuffling :: "'pt point_codec \<Rightarrow> 'pt shuffling_phase reader" where
  "get_shuffling P bs = rbind (get_u8 bs) (\<lambda>(tag, bs).
     if tag = 0 then rbind (get_shuffle bs) (\<lambda>(st, bs). rbind (get_u64 bs) (\<lambda>(d, bs). Inr (ShufflingInitial st d, bs)))
     else if tag = 1 then
       rbind (get_u8 bs) (\<lambda>(street, bs). rbind (get_shuffle bs) (\<lambda>(st, bs). rbind (get_reveal P bs) (\<lambda>(susp, bs).
       rbind (get_u64 bs) (\<lambda>(d, bs). Inr (ShufflingReconstruct street st susp d, bs)))))
     else Inl (Serialization ''borsh: unexpected variant index''))"

fun ok_shuffling :: "'pt shuffling_phase \<Rightarrow> bool" where
  "ok_shuffling (ShufflingInitial st d) = (d < u64_bound)"
| "ok_shuffling (ShufflingReconstruct street st susp d) = (street < 256 \<and> ok_reveal susp \<and> d < u64_bound)"

definition HAND_PHASE_RECORD_WIDTH :: nat where "HAND_PHASE_RECORD_WIDTH = 4096"

fun phase_payload :: "'pt point_codec \<Rightarrow> 'pt hand_phase \<Rightarrow> nat \<times> bytes res" where
  "phase_payload P PhaseWaiting = (0, Inr [])"
| "phase_payload P (PhaseShuffling ph) = (1, put_shuffling P ph)"
| "phase_payload P (PhaseRevealing street st d) = (2, put_fields [put_u8 street, put_reveal P st, put_u64 d])"
| "phase_payload P (PhaseReconstructing street pending susp ep d) =
     (3, put_fields [put_u8 street, put_mask pending, put_reveal P susp, put_u64 ep, put_u64 d])"
| "phase_payload P (PhaseBetting street r turn d) =
     (4, put_fields [put_u8 street, put_round r, put_u8 turn, put_u64 d])"
| "phase_payload P (PhaseShowdownDisplay d) = (5, put_u64 d)"

definition put_phase :: "'pt point_codec \<Rightarrow> 'pt hand_phase writer" where
  "put_phase P ph = (case phase_payload P ph of (tag, payload) \<Rightarrow>
     rbind payload (\<lambda>payload. write_padded_record tag payload HAND_PHASE_RECORD_WIDTH))"

definition get_revealing :: "'pt point_codec \<Rightarrow> 'pt hand_phase reader" where
  "get_revealing P bs =
     rbind (get_u8 bs) (\<lambda>(street, bs). rbind (get_reveal P bs) (\<lambda>(st, bs).
     rbind (get_u64 bs) (\<lambda>(d, bs). Inr (PhaseRevealing street st d, bs))))"

definition get_reconstructing :: "'pt point_codec \<Rightarrow> 'pt hand_phase reader" where
  "get_reconstructing P bs =
     rbind (get_u8 bs) (\<lambda>(street, bs). rbind (get_mask bs) (\<lambda>(pending, bs).
     rbind (get_reveal P bs) (\<lambda>(susp, bs). rbind (get_u64 bs) (\<lambda>(ep, bs).
     rbind (get_u64 bs) (\<lambda>(d, bs). Inr (PhaseReconstructing street pending susp ep d, bs))))))"

definition get_betting :: "'pt hand_phase reader" where
  "get_betting bs =
     rbind (get_u8 bs) (\<lambda>(street, bs). rbind (get_round bs) (\<lambda>(r, bs).
     rbind (get_u8 bs) (\<lambda>(turn, bs). rbind (get_u64 bs) (\<lambda>(d, bs). Inr (PhaseBetting street r turn d, bs)))))"

definition get_phase :: "'pt point_codec \<Rightarrow> 'pt hand_phase reader" where
  "get_phase P bs =
     rbind (read_padded_record HAND_PHASE_RECORD_WIDTH bs) (\<lambda>((tag, payload), bs).
     rbind (if tag = 0 then Inr PhaseWaiting
            else if tag = 1 then rbind (payload_of (get_shuffling P) payload) (\<lambda>ph. Inr (PhaseShuffling ph))
            else if tag = 2 then payload_of (get_revealing P) payload
            else if tag = 3 then payload_of (get_reconstructing P) payload
            else if tag = 4 then payload_of get_betting payload
            else if tag = 5 then rbind (payload_of get_u64 payload) (\<lambda>d. Inr (PhaseShowdownDisplay d))
            else Inl (Serialization ''unknown HandPhase record tag'')) (\<lambda>ph. Inr (ph, bs)))"

fun ok_phase :: "'pt hand_phase \<Rightarrow> bool" where
  "ok_phase PhaseWaiting = True"
| "ok_phase (PhaseShuffling ph) = ok_shuffling ph"
| "ok_phase (PhaseRevealing street st d) = (street < 256 \<and> ok_reveal st \<and> d < u64_bound)"
| "ok_phase (PhaseReconstructing street pending susp ep d) =
     (street < 256 \<and> ok_reveal susp \<and> ep < u64_bound \<and> d < u64_bound)"
| "ok_phase (PhaseBetting street r turn d) = (street < 256 \<and> ok_round r \<and> turn < 256 \<and> d < u64_bound)"
| "ok_phase (PhaseShowdownDisplay d) = (d < u64_bound)"

section \<open>Deck and run-it-twice\<close>

definition put_partial :: "'pt point_codec \<Rightarrow> 'pt partial_hole_card writer" where
  "put_partial P h = put_fields [put_u8 (ph_index h), pc_put_ct P (ph_ciphertext h), pc_put_ct P (ph_full_ciphertext h)]"

definition get_partial :: "'pt point_codec \<Rightarrow> 'pt partial_hole_card reader" where
  "get_partial P bs =
     rbind (get_u8 bs) (\<lambda>(i, bs). rbind (pc_get_ct P bs) (\<lambda>(c, bs). rbind (pc_get_ct P bs) (\<lambda>(f, bs).
       Inr (\<lparr>ph_index = i, ph_ciphertext = c, ph_full_ciphertext = f\<rparr>, bs))))"

definition put_ledger :: "'pt point_codec \<Rightarrow> 'pt ledger writer" where
  "put_ledger P = put_many (put_many (put_option (put_partial P)))"

definition get_ledger :: "'pt point_codec \<Rightarrow> 'pt ledger reader" where
  "get_ledger P = get_many (get_many (get_option (get_partial P)) HOLE_CARD_SLOTS) MAX_SEATS"

definition ok_ledger :: "'pt ledger \<Rightarrow> bool" where
  "ok_ledger l \<longleftrightarrow> length l = MAX_SEATS \<and>
     (\<forall>slots\<in>set l. length slots = HOLE_CARD_SLOTS \<and> (\<forall>h. Some h \<in> set slots \<longrightarrow> ph_index h < 256))"

fun put_cipher_deck :: "'pt point_codec \<Rightarrow> 'pt cipher_deck writer" where
  "put_cipher_deck P DeckAbsent = put_u8 0"
| "put_cipher_deck P (DeckActive cs) = put_fields [put_u8 1, put_many (pc_put_ct P) cs]"

definition get_cipher_deck :: "'pt point_codec \<Rightarrow> 'pt cipher_deck reader" where
  "get_cipher_deck P bs = rbind (get_u8 bs) (\<lambda>(tag, bs).
     if tag = 0 then Inr (DeckAbsent, bs)
     else if tag = 1 then rbind (get_many (pc_get_ct P) CIPHER_DECK_SIZE bs) (\<lambda>(cs, bs). Inr (DeckActive cs, bs))
     else Inl (Serialization ''borsh: unexpected variant index''))"

fun ok_cipher_deck :: "'pt cipher_deck \<Rightarrow> bool" where
  "ok_cipher_deck DeckAbsent = True"
| "ok_cipher_deck (DeckActive cs) = (length cs = CIPHER_DECK_SIZE)"

definition put_deck :: "'pt point_codec \<Rightarrow> 'pt deck_state writer" where
  "put_deck P d = put_fields [put_cipher_deck P (ds_encrypted d), put_mask (ds_contributor_mask d), put_u8 (ds_cards_dealt d),
     put_ledger P (ds_ledger d), put_option (put_vec (pc_put_ct P)) (ds_reconstruct_accumulated d)]"

definition get_deck :: "'pt point_codec \<Rightarrow> 'pt deck_state reader" where
  "get_deck P bs =
     rbind (get_cipher_deck P bs) (\<lambda>(e, bs). rbind (get_mask bs) (\<lambda>(m, bs). rbind (get_u8 bs) (\<lambda>(n, bs).
     rbind (get_ledger P bs) (\<lambda>(l, bs). rbind (get_option (get_vec (pc_get_ct P)) bs) (\<lambda>(acc, bs).
       Inr (\<lparr>ds_encrypted = e, ds_contributor_mask = m, ds_cards_dealt = n, ds_ledger = l,
             ds_reconstruct_accumulated = acc\<rparr>, bs))))))"

definition ok_deck :: "'pt deck_state \<Rightarrow> bool" where
  "ok_deck d \<longleftrightarrow> ok_cipher_deck (ds_encrypted d) \<and> ds_cards_dealt d < 256 \<and> ok_ledger (ds_ledger d)"

fun rit_street_index :: "rit_start_street \<Rightarrow> nat" where
  "rit_street_index RitPreflop = 0" | "rit_street_index RitFlop = 1" | "rit_street_index RitTurn = 2"

fun put_rit :: "run_it_twice_state writer" where
  "put_rit Single = put_u8 0"
| "put_rit (Twice start suffix_cards) = put_fields [put_u8 1, put_u8 (rit_street_index start), put_cards suffix_cards]"

definition get_rit_street :: "rit_start_street reader" where
  "get_rit_street bs = rbind (get_u8 bs) (\<lambda>(n, bs).
     if n = 0 then Inr (RitPreflop, bs) else if n = 1 then Inr (RitFlop, bs) else if n = 2 then Inr (RitTurn, bs)
     else Inl (Serialization ''borsh: unexpected variant index''))"

definition get_rit :: "run_it_twice_state reader" where
  "get_rit bs = rbind (get_u8 bs) (\<lambda>(tag, bs).
     if tag = 0 then Inr (Single, bs)
     else if tag = 1 then rbind (get_rit_street bs) (\<lambda>(start, bs). rbind (get_cards 5 bs) (\<lambda>(cs, bs). Inr (Twice start cs, bs)))
     else Inl (Serialization ''borsh: unexpected variant index''))"

fun ok_rit :: "run_it_twice_state \<Rightarrow> bool" where
  "ok_rit Single = True"
| "ok_rit (Twice start cs) = ok_cards 5 cs"

section \<open>What is written reads back\<close>

text \<open>
  A reader recognises a written prefix whatever follows it. Sequencing of readers follows the
  sequence of the fields, so the proof for a struct is one step per field.
\<close>

definition reads :: "'a reader \<Rightarrow> bytes \<Rightarrow> 'a \<Rightarrow> bool" where
  "reads g b x \<longleftrightarrow> (\<forall>rest. g (b @ rest) = Inr (x, rest))"

named_theorems reads_intros \<open>readers that recognise what was written\<close>

lemma reads_rbind:
  assumes "reads g b x" "reads (k x) c y"
  shows "reads (\<lambda>bs. rbind (g bs) (\<lambda>(x, bs). k x bs)) (b @ c) y"
  using assms by (simp add: reads_def)

lemma reads_done: "reads (\<lambda>bs. Inr (x, bs)) [] x"
  by (simp add: reads_def)

lemma reads_last: "reads g b x \<Longrightarrow> R x = y \<Longrightarrow> reads (\<lambda>bs. rbind (g bs) (\<lambda>(x, bs). Inr (R x, bs))) b y"
  by (simp add: reads_def)

lemma reads_law: "reads_back ok p g \<Longrightarrow> p x = Inr b \<Longrightarrow> ok x \<Longrightarrow> reads g b x"
  using reads_back.get_put [of ok p g x b] by (simp add: reads_def)

lemma lawI: "(\<And>x b. ok x \<Longrightarrow> p x = Inr b \<Longrightarrow> reads g b x) \<Longrightarrow> reads_back ok p g"
  by unfold_locales (simp add: reads_def)

lemma reads_uint [reads_intros]: "put_uint k n = Inr b \<Longrightarrow> n < 256 ^ k \<Longrightarrow> reads (get_uint k) b n"
  by (auto simp: put_uint_def reads_def)

lemma mask_range: "unat m < 65536" for m :: seat_mask
  using unsigned_less [of m, where 'a = nat] by simp

lemma byte_of_nat: "n < 256 \<Longrightarrow> unat (word_of_nat n :: 8 word) = n"
  by (simp add: unat_of_nat)

lemma reads_mask [reads_intros]: "put_mask m = Inr b \<Longrightarrow> reads get_mask b m"
  by (auto simp: mask_range put_mask_def put_uint_def get_mask_def reads_def)

lemma reads_address [reads_intros]: "put_address a = Inr b \<Longrightarrow> length a = 20 \<Longrightarrow> reads get_address b a"
  by (simp add: put_address_def put_array_def get_address_def reads_def read_exact_length)

lemma reads_array [reads_intros]: "put_array a = Inr b \<Longrightarrow> length a = n \<Longrightarrow> reads (read_exact n) b a"
  by (simp add: put_array_def reads_def read_exact_length)

lemma reads_many [reads_intros]:
  assumes "put_many p xs = Inr b" "length xs = n" "\<And>x c. x \<in> set xs \<Longrightarrow> p x = Inr c \<Longrightarrow> reads g c x"
  shows "reads (get_many g n) b xs"
proof -
  have "get_many g (length xs) (b @ rest) = Inr (xs, rest)" for rest
    using assms(1,3)
  proof (induction xs arbitrary: b)
    case Nil
    then show ?case by (simp add: put_many_def)
  next
    case (Cons x xs)
    then obtain c d where "p x = Inr c" "put_many p xs = Inr d" "b = c @ d" by (auto simp: put_many_def result_simps)
    moreover have "g (c @ d @ rest) = Inr (x, d @ rest)" using Cons.prems(2) [OF _ \<open>p x = Inr c\<close>] by (simp add: reads_def)
    moreover have "get_many g (length xs) (d @ rest) = Inr (xs, rest)"
      by (rule Cons.IH [OF \<open>put_many p xs = Inr d\<close>]) (simp add: Cons.prems(2))
    ultimately show ?case by simp
  qed
  then show ?thesis using assms(2) by (simp add: reads_def)
qed

lemma reads_vec [reads_intros]:
  assumes "put_vec p xs = Inr b" "\<And>x c. x \<in> set xs \<Longrightarrow> p x = Inr c \<Longrightarrow> reads g c x"
  shows "reads (get_vec g) b xs"
proof -
  from assms(1) have n: "length xs < 256 ^ 4" by (simp add: put_vec_def split: if_splits)
  from assms(1) obtain c where c: "b = int_bytes 4 (length xs) @ c" "put_many p xs = Inr c"
    unfolding put_vec_def if_Inl_Inr_iff put_uint_def put_fields_Inr by auto
  have "reads (get_many g (length xs)) c xs" by (rule reads_many [OF c(2) refl assms(2)])
  with n c(1) show ?thesis by (simp add: reads_def get_vec_def)
qed

lemma reads_option [reads_intros]:
  assumes "put_option p x = Inr b" "\<And>y c. x = Some y \<Longrightarrow> p y = Inr c \<Longrightarrow> reads g c y"
  shows "reads (get_option g) b x"
proof (cases x)
  case None
  with assms(1) show ?thesis by (auto simp: put_option_def put_uint_def get_option_def reads_def)
next
  case (Some y)
  with assms(1) obtain c where "b = 1 # c" "p y = Inr c"
    by (auto simp: put_option_def put_uint_def simp del: put_fields.simps)
  with assms(2) [OF Some] show ?thesis by (simp add: get_option_def Some reads_def)
qed

lemma reads_point [reads_intros]: "pc_put_point P p = Inr b \<Longrightarrow> lawful_points P \<Longrightarrow> reads (pc_get_point P) b p"
  unfolding lawful_points_def by (blast intro: reads_law)

lemma reads_ct [reads_intros]: "pc_put_ct P p = Inr b \<Longrightarrow> lawful_points P \<Longrightarrow> reads (pc_get_ct P) b p"
  unfolding lawful_points_def by (blast intro: reads_law)

lemma reads_card [reads_intros]: "put_card c = Inr b \<Longrightarrow> to_index c < 256 \<Longrightarrow> reads get_card b c"
  by (auto simp: put_card_def put_uint_def get_card_def reads_def byte_of_nat)

lemma playing_status_law: "reads_back (\<lambda>_. True) put_playing_status get_playing_status"
  by (rule lawI, case_tac x) (auto simp: put_playing_status_def put_uint_def get_playing_status_def reads_def)
lemmas reads_playing_status [reads_intros] = reads_law [OF playing_status_law]

lemma tag_range: "unat t < 256" for t :: "8 word"
  using unsigned_less [of t, where 'a = nat] by simp

lemma cards_law: "reads_back (ok_cards n) put_cards (get_cards n)"
  by (rule lawI, unfold put_cards_def get_cards_def ok_cards_def put_fields_Inr put_fields_Nil, clarify, unfold append_Nil2,
    rule reads_rbind, rule reads_uint, assumption, simp, rule reads_last, rule reads_many, assumption) (auto intro: reads_card)
lemmas reads_cards [reads_intros] = reads_law [OF cards_law]

lemma tx_pk_law: "reads_back ok_tx_pk put_tx_pk get_tx_pk"
  by (rule lawI, unfold put_tx_pk_def get_tx_pk_def ok_tx_pk_def put_fields_Inr put_fields_Nil, clarify, unfold append_Nil2,
    rule reads_rbind, rule reads_uint, assumption, simp add: tag_range, rule reads_last, rule reads_array, assumption, simp_all)
lemmas reads_tx_pk [reads_intros] = reads_law [OF tx_pk_law]

lemma timeouts_law: "reads_back ok_timeouts put_timeouts get_timeouts"
  by (rule lawI, unfold put_timeouts_def get_timeouts_def ok_timeouts_def put_fields_Inr put_fields_Nil, clarify, unfold append_Nil2,
    (rule reads_rbind, rule reads_intros, assumption, (simp; fail)?, (simp; fail)?)+, rule reads_last, rule reads_intros, assumption, simp_all)
lemmas reads_timeouts [reads_intros] = reads_law [OF timeouts_law]

lemma rules_law: "reads_back ok_rules put_rules get_rules"
  by (rule lawI, unfold put_rules_def get_rules_def ok_rules_def put_fields_Inr put_fields_Nil, clarify, unfold append_Nil2,
    (rule reads_rbind, rule reads_intros, assumption, (simp; fail)?, (simp; fail)?)+, rule reads_last, rule reads_intros, assumption, simp_all)
lemmas reads_rules [reads_intros] = reads_law [OF rules_law]

lemma round_law: "reads_back ok_round put_round get_round"
  by (rule lawI, unfold put_round_def get_round_def ok_round_def put_fields_Inr put_fields_Nil, clarify, unfold append_Nil2,
    (rule reads_rbind, rule reads_intros, assumption, (simp; fail)?, (simp; fail)?)+, rule reads_last, rule reads_intros, assumption, simp_all)
lemmas reads_round [reads_intros] = reads_law [OF round_law]

lemma occupied_law: "lawful_points P \<Longrightarrow> reads_back ok_occupied (put_occupied P) (get_occupied P)"
  by (rule lawI, unfold put_occupied_def get_occupied_def ok_occupied_def put_fields_Inr put_fields_Nil, clarify, unfold append_Nil2,
    (rule reads_rbind, rule reads_intros, assumption, (simp; fail)?, (simp; fail)?)+, rule reads_last, rule reads_intros, assumption, simp_all)
lemmas reads_occupied [reads_intros] = reads_law [OF occupied_law]

lemma playing_law: "lawful_points P \<Longrightarrow> reads_back ok_playing (put_playing P) (get_playing P)"
  by (rule lawI, unfold put_playing_def get_playing_def ok_playing_def put_fields_Inr put_fields_Nil, clarify, unfold append_Nil2,
    (rule reads_rbind, rule reads_intros, assumption, (simp; fail)?, (simp; fail)?)+, rule reads_last, rule reads_intros, assumption, simp_all)
lemmas reads_playing [reads_intros] = reads_law [OF playing_law]

lemma shuffle_law: "reads_back (\<lambda>_. True) put_shuffle get_shuffle"
  by (rule lawI, unfold put_shuffle_def get_shuffle_def put_fields_Inr put_fields_Nil, clarify, unfold append_Nil2,
    (rule reads_rbind, rule reads_intros, assumption, (simp; fail)?, (simp; fail)?)+, rule reads_last, rule reads_intros, assumption, simp_all)
lemmas reads_shuffle [reads_intros] = reads_law [OF shuffle_law]

text \<open>An enum or a tagged variant: the reader branches on the tag it has just read.\<close>

lemma reads_tag:
  assumes "put_u8 n = Inr b" "n < 256" "reads (k n) c y"
  shows "reads (\<lambda>bs. rbind (get_u8 bs) (\<lambda>(n, bs). k n bs)) (b @ c) y"
  by (rule reads_rbind [OF reads_uint]) (use assms in simp_all)

lemma target_law: "reads_back ok_target put_target get_target"
proof (rule lawI)
  fix x b
  assume "ok_target x" "put_target x = Inr b"
  then show "reads get_target b x"
    by (cases x) (auto simp: put_uint_def get_target_def reads_def byte_of_nat)
qed
lemmas reads_target [reads_intros] = reads_law [OF target_law]

lemma purpose_law: "put_u8 (reveal_purpose_value p) = Inr b \<Longrightarrow> reads get_purpose b p"
  by (cases p) (auto simp: put_uint_def get_purpose_def reads_def)

lemma assignment_law: "lawful_points P \<Longrightarrow> reads_back ok_assignment (put_assignment P) (get_assignment P)"
  by (rule lawI, unfold put_assignment_def get_assignment_def ok_assignment_def put_fields_Inr put_fields_Nil, clarify, unfold append_Nil2,
    (rule reads_rbind, rule reads_intros, assumption, (simp; fail)?, (simp; fail)?)+, rule reads_last, rule reads_vec, assumption)
   (simp_all add: reads_point)
lemmas reads_assignment [reads_intros] = reads_law [OF assignment_law]

lemma reveal_law: "lawful_points P \<Longrightarrow> reads_back ok_reveal (put_reveal P) (get_reveal P)"
  by (rule lawI, unfold put_reveal_def get_reveal_def ok_reveal_def put_fields_Inr put_fields_Nil, clarify, unfold append_Nil2,
    rule reads_rbind, rule purpose_law, assumption, rule reads_last, rule reads_vec, assumption)
   (auto intro: reads_assignment)
lemmas reads_reveal [reads_intros] = reads_law [OF reveal_law]

lemma shuffling_law:
  assumes P: "lawful_points P"
  shows "reads_back ok_shuffling (put_shuffling P) (get_shuffling P)"
proof (rule lawI)
  fix x b
  assume x: "ok_shuffling x" "put_shuffling P x = Inr b"
  show "reads (get_shuffling P) b x"
  proof (cases x)
    case (ShufflingInitial st d)
    with x(2) obtain b1 b2 where b: "put_shuffle st = Inr b1" "put_u64 d = Inr b2" "b = 0 # b1 @ b2"
      unfolding put_shuffling.simps put_fields_Inr put_fields_Nil by auto
    have "reads get_shuffle b1 st" "reads get_u64 b2 d"
      using reads_shuffle [OF b(1)] reads_uint [OF b(2)] x(1) ShufflingInitial by simp_all
    then show ?thesis by (simp add: reads_def get_shuffling_def b(3) ShufflingInitial)
  next
    case (ShufflingReconstruct street st susp d)
    with x(2) obtain b0 b1 b2 b3 where b: "put_u8 street = Inr b0" "put_shuffle st = Inr b1" "put_reveal P susp = Inr b2"
        "put_u64 d = Inr b3" and e: "b = 1 # b0 @ b1 @ b2 @ b3"
      unfolding put_shuffling.simps put_fields_Inr put_fields_Nil by auto
    have "reads get_u8 b0 street" "reads get_shuffle b1 st" "reads (get_reveal P) b2 susp" "reads get_u64 b3 d"
      using reads_uint [OF b(1)] reads_shuffle [OF b(2)] reads_reveal [OF P b(3)] reads_uint [OF b(4)] x(1) ShufflingReconstruct
      by simp_all
    then show ?thesis by (simp add: reads_def get_shuffling_def e ShufflingReconstruct)
  qed
qed
lemmas reads_shuffling [reads_intros] = reads_law [OF shuffling_law]

section \<open>Padded records read back\<close>

lemma write_padded_Inr:
  "write_padded_record tag payload width = Inr b \<longleftrightarrow> length payload + 5 \<le> width \<and> length payload + 1 < u32_bound \<and>
     b = int_bytes 4 (length payload + 1) @ word_of_nat (tag mod 256) # payload @ replicate (width - (length payload + 5)) 0"
  by (auto simp: write_padded_record_def Let_def put_uint_def [of 4] not_le)

lemma read_written_record:
  assumes "write_padded_record tag payload width = Inr b" "tag < 256"
  shows "read_padded_record width (b @ rest) = Inr ((tag, payload), rest)"
proof -
  let ?n = "length payload + 1" and ?pad = "replicate (width - (length payload + 5)) (0 :: 8 word)"
  from assms(1) have w: "length payload + 5 \<le> width" "?n < 256 ^ 4"
    and b: "b = int_bytes 4 ?n @ (word_of_nat (tag mod 256) # payload) @ ?pad"
    by (simp_all add: write_padded_Inr)
  have "get_u32 (b @ rest) = Inr (?n, (word_of_nat (tag mod 256) # payload) @ ?pad @ rest)"
    unfolding b append_assoc by (rule get_uint_append [OF w(2)])
  moreover have "read_exact ?n ((word_of_nat (tag mod 256) # payload) @ ?pad @ rest) =
      Inr (word_of_nat (tag mod 256) # payload, ?pad @ rest)"
    by (rule read_exact_length) simp
  moreover have "read_exact (width - (?n + 4)) (?pad @ rest) = Inr (?pad, rest)"
    by (rule read_exact_length) simp
  moreover have "\<not> list_ex (\<lambda>b. b \<noteq> 0) ?pad" by (simp add: list_ex_iff)
  ultimately show ?thesis using w(1) assms(2) by (simp add: read_padded_record_def byte_of_nat)
qed

lemma payload_of_reads: "reads g b x \<Longrightarrow> payload_of g b = Inr x"
  unfolding payload_of_def reads_def by (drule spec [of _ "[]"]) simp

text \<open>A record has its width, whatever it holds.\<close>

lemma padded_record_width: "write_padded_record tag payload width = Inr b \<Longrightarrow> length b = width"
  by (auto simp: write_padded_Inr)

lemma departed_reads:
  assumes "put_fields [put_address player, put_u64 n, put_u32 bank] = Inr b" "length player = 20" "n < u64_bound" "bank < u32_bound"
  shows "reads get_departed b (SeatDeparted player n bank)"
  using assms unfolding get_departed_def put_fields_Inr put_fields_Nil
  by (elim exE conjE, simp only: append_Nil2)
    (rule reads_rbind, rule reads_intros, assumption, simp, rule reads_rbind, rule reads_intros, assumption, simp,
      rule reads_last, rule reads_intros, assumption, simp_all)

lemma seat_law:
  assumes P: "lawful_points P"
  shows "reads_back ok_seat (put_seat P) (get_seat P)"
proof (rule lawI)
  fix x b
  assume ok: "ok_seat x" and "put_seat P x = Inr b"
  then obtain tag payload where t: "seat_payload P x = (tag, Inr payload)"
    and w: "write_padded_record tag payload SEAT_RECORD_WIDTH = Inr b"
    by (auto simp: put_seat_def result_simps split: prod.splits)
  from t have "tag < 256" by (cases x) auto
  note r = read_written_record [OF w this]
  show "reads (get_seat P) b x"
  proof (cases x)
    case (SeatVacant bank)
    with t ok have "payload_of get_u32 payload = Inr bank" by (intro payload_of_reads reads_uint) simp_all
    with SeatVacant t show ?thesis by (simp add: reads_def get_seat_def r)
  next
    case (SeatWaiting oc)
    with t ok payload_of_reads [OF reads_occupied [OF P]] show ?thesis by (auto simp: reads_def get_seat_def r)
  next
    case (SeatPlaying p)
    with t ok payload_of_reads [OF reads_playing [OF P]] show ?thesis by (auto simp: reads_def get_seat_def r)
  next
    case (SeatDeparted player n bank)
    have "payload_of get_departed payload = Inr x" unfolding SeatDeparted
      using t ok SeatDeparted by (intro payload_of_reads departed_reads) simp_all
    with t SeatDeparted show ?thesis by (simp add: reads_def get_seat_def r del: put_fields_Inr)
  qed
qed
lemmas reads_seat [reads_intros] = reads_law [OF seat_law]

lemma revealing_reads:
  assumes "put_fields [put_u8 street, put_reveal P st, put_u64 d] = Inr b" "lawful_points P" "street < 256" "ok_reveal st" "d < u64_bound"
  shows "reads (get_revealing P) b (PhaseRevealing street st d)"
  using assms unfolding get_revealing_def put_fields_Inr put_fields_Nil
  by (elim exE conjE, simp only: append_Nil2)
    (rule reads_rbind, rule reads_uint, assumption, simp, rule reads_rbind, rule reads_reveal, assumption, assumption, assumption,
      rule reads_last, rule reads_uint, assumption, simp_all)

lemma reconstructing_reads:
  assumes "put_fields [put_u8 street, put_mask m, put_reveal P st, put_u64 ep, put_u64 d] = Inr b" "lawful_points P"
    "street < 256" "ok_reveal st" "ep < u64_bound" "d < u64_bound"
  shows "reads (get_reconstructing P) b (PhaseReconstructing street m st ep d)"
  using assms unfolding get_reconstructing_def put_fields_Inr put_fields_Nil
  by (elim exE conjE, simp only: append_Nil2)
    (rule reads_rbind, rule reads_uint, assumption, simp, rule reads_rbind, rule reads_mask, assumption,
      rule reads_rbind, rule reads_reveal, assumption, assumption, assumption, rule reads_rbind, rule reads_uint, assumption, simp,
      rule reads_last, rule reads_uint, assumption, simp_all)

lemma betting_reads:
  assumes "put_fields [put_u8 street, put_round r, put_u8 turn, put_u64 d] = Inr b" "street < 256" "ok_round r" "turn < 256" "d < u64_bound"
  shows "reads get_betting b (PhaseBetting street r turn d)"
  using assms unfolding get_betting_def put_fields_Inr put_fields_Nil
  by (elim exE conjE, simp only: append_Nil2)
    (rule reads_rbind, rule reads_uint, assumption, simp, rule reads_rbind, rule reads_round, assumption, assumption,
      rule reads_rbind, rule reads_uint, assumption, simp, rule reads_last, rule reads_uint, assumption, simp_all)

lemma phase_law:
  assumes P: "lawful_points P"
  shows "reads_back ok_phase (put_phase P) (get_phase P)"
proof (rule lawI)
  fix x b
  assume ok: "ok_phase x" and "put_phase P x = Inr b"
  then obtain tag payload where t: "phase_payload P x = (tag, Inr payload)"
    and w: "write_padded_record tag payload HAND_PHASE_RECORD_WIDTH = Inr b"
    by (auto simp: put_phase_def result_simps split: prod.splits)
  from t have "tag < 256" by (cases x) auto
  note r = read_written_record [OF w this]
  note s = reads_def get_phase_def r
  show "reads (get_phase P) b x"
  proof (cases x)
    case PhaseWaiting
    with t show ?thesis by (simp add: s)
  next
    case (PhaseShuffling ph)
    with t ok payload_of_reads [OF reads_shuffling [OF P]] show ?thesis by (auto simp: s)
  next
    case (PhaseRevealing street st d)
    have "payload_of (get_revealing P) payload = Inr (PhaseRevealing street st d)"
      using t ok P PhaseRevealing by (intro payload_of_reads revealing_reads) simp_all
    with t PhaseRevealing show ?thesis by (simp add: s del: put_fields_Inr)
  next
    case (PhaseReconstructing street m st ep d)
    have "payload_of (get_reconstructing P) payload = Inr (PhaseReconstructing street m st ep d)"
      using t ok P PhaseReconstructing by (intro payload_of_reads reconstructing_reads) simp_all
    with t PhaseReconstructing show ?thesis by (simp add: s del: put_fields_Inr)
  next
    case (PhaseBetting street rd turn d)
    have "payload_of get_betting payload = Inr x" unfolding PhaseBetting
      using t ok PhaseBetting by (intro payload_of_reads betting_reads) simp_all
    with t PhaseBetting show ?thesis by (simp add: s del: put_fields_Inr)
  next
    case (PhaseShowdownDisplay d)
    with t ok have "payload_of get_u64 payload = Inr d" by (intro payload_of_reads reads_uint) simp_all
    with t PhaseShowdownDisplay show ?thesis by (simp add: s)
  qed
qed
lemmas reads_phase [reads_intros] = reads_law [OF phase_law]

lemma partial_law: "lawful_points P \<Longrightarrow> reads_back (\<lambda>h. ph_index h < 256) (put_partial P) (get_partial P)"
  by (rule lawI, unfold put_partial_def get_partial_def put_fields_Inr put_fields_Nil, clarify, unfold append_Nil2,
    (rule reads_rbind, rule reads_intros, assumption, (simp; fail)?, (simp; fail)?)+, rule reads_last, rule reads_intros, assumption, simp_all)
lemmas reads_partial [reads_intros] = reads_law [OF partial_law]

lemma ledger_law:
  assumes P: "lawful_points P"
  shows "reads_back ok_ledger (put_ledger P) (get_ledger P)"
proof (rule lawI)
  fix l b
  assume l: "ok_ledger l" "put_ledger P l = Inr b"
  have slots: "reads (get_many (get_option (get_partial P)) HOLE_CARD_SLOTS) c slots"
    if s: "slots \<in> set l" "put_many (put_option (put_partial P)) slots = Inr c" for slots c
    using l(1) s(1)
    by (intro reads_many [OF s(2)] reads_option reads_partial [OF P]) (auto simp: ok_ledger_def)
  show "reads (get_ledger P) b l"
    unfolding get_ledger_def using l(1)
    by (intro reads_many [OF l(2) [unfolded put_ledger_def] _ slots]) (auto simp: ok_ledger_def)
qed
lemmas reads_ledger [reads_intros] = reads_law [OF ledger_law]

lemma cipher_deck_law:
  assumes P: "lawful_points P"
  shows "reads_back ok_cipher_deck (put_cipher_deck P) (get_cipher_deck P)"
proof (rule lawI)
  fix x b
  assume x: "ok_cipher_deck x" "put_cipher_deck P x = Inr b"
  show "reads (get_cipher_deck P) b x"
  proof (cases x)
    case DeckAbsent
    with x show ?thesis by (auto simp: reads_def get_cipher_deck_def)
  next
    case (DeckActive cs)
    with x(2) obtain c where c: "b = 1 # c" "put_many (pc_put_ct P) cs = Inr c" by auto
    have "reads (get_many (pc_get_ct P) CIPHER_DECK_SIZE) c cs"
      using x(1) DeckActive by (intro reads_many [OF c(2)] reads_ct P) simp_all
    then show ?thesis by (simp add: reads_def get_cipher_deck_def c(1) DeckActive)
  qed
qed
lemmas reads_cipher_deck [reads_intros] = reads_law [OF cipher_deck_law]

lemma deck_law: "lawful_points P \<Longrightarrow> reads_back ok_deck (put_deck P) (get_deck P)"
  by (rule lawI, unfold put_deck_def get_deck_def ok_deck_def put_fields_Inr put_fields_Nil, clarify, unfold append_Nil2,
    (rule reads_rbind, rule reads_intros, assumption, (simp; fail)?, (simp; fail)?)+, rule reads_last, rule reads_option, assumption)
   (auto intro: reads_vec reads_ct)
lemmas reads_deck [reads_intros] = reads_law [OF deck_law]

lemma rit_law: "reads_back ok_rit put_rit get_rit"
proof (rule lawI)
  fix x b
  assume x: "ok_rit x" "put_rit x = Inr b"
  show "reads get_rit b x"
  proof (cases x)
    case Single
    with x show ?thesis by (auto simp: reads_def get_rit_def)
  next
    case (Twice start cs)
    with x(2) obtain c where c: "b = 1 # word_of_nat (rit_street_index start) # c" "put_cards cs = Inr c"
      by (cases start) auto
    have "reads (get_cards 5) c cs" using reads_cards [OF c(2)] x(1) Twice by simp
    then show ?thesis by (cases start) (simp_all add: reads_def get_rit_def get_rit_street_def c(1) Twice)
  qed
qed
lemmas reads_rit [reads_intros] = reads_law [OF rit_law]

section \<open>What the record readers let through\<close>

text \<open>
  The variant's reader stops when its fields are complete, and what the payload holds beyond
  them is dropped. So a record with room left has a second encoding, and the reader of a record
  of length 0 indexes an empty buffer.
\<close>

lemma record_with_slack:
  assumes "write_padded_record tag payload width = Inr b" "length payload + 6 \<le> width" "length payload + 2 < u32_bound"
  obtains b' where "write_padded_record tag (payload @ [0]) width = Inr b'" "b' \<noteq> b" "length b' = length b"
proof -
  let ?b = "int_bytes 4 (length payload + 2) @ word_of_nat (tag mod 256) # (payload @ [0]) @ replicate (width - (length payload + 6)) 0"
  have w: "write_padded_record tag (payload @ [0]) width = Inr ?b" using assms(2,3) by (simp add: write_padded_Inr)
  have "int_bytes 4 (length payload + 2) \<noteq> int_bytes 4 (length payload + 1)"
    using int_value_bytes [of 4 "length payload + 2"] int_value_bytes [of 4 "length payload + 1"] assms(3) by auto
  then have "?b \<noteq> b" using assms(1) by (auto simp: write_padded_Inr append_eq_append_conv)
  moreover have "length ?b = length b" using padded_record_width [OF assms(1)] padded_record_width [OF w] by simp
  ultimately show ?thesis using that w by blast
qed

lemma payload_of_slack: "reads g b x \<Longrightarrow> payload_of g (b @ c) = Inr x"
  by (simp add: payload_of_def reads_def)

end
