(* ===== verification/Poker_StateCodec.thy ===== *)
theory Poker_StateCodec
  imports Poker_Codec
begin

text \<open>
  Persisted tables (\<^verbatim>\<open>poker_l1/.../runtime/state_codec.rs\<close>): the resolved snapshot, and the hot
  layout, which leaves out the rules and the creator and commits to them by digest. The hash
  function (Blake2b with 32 bytes of output) is an argument.
\<close>

section \<open>The persisted layouts\<close>

definition TABLE_STATE_SCHEMA_VERSION :: nat where "TABLE_STATE_SCHEMA_VERSION = 36"
definition HOT_STATE_SCHEMA_VERSION :: nat where "HOT_STATE_SCHEMA_VERSION = 37"

definition text_bytes :: "string \<Rightarrow> bytes" where
  "text_bytes s = map of_char s"

record 'pt persisted_table =
  pt_id :: bytes
  pt_version :: nat
  pt_creator :: address
  pt_rules :: table_rules
  pt_seats :: "'pt seat list"
  pt_acted_mask :: seat_mask
  pt_leave_mask :: seat_mask
  pt_button :: nat
  pt_last_bb_seat :: nat
  pt_pot :: nat
  pt_community_cards :: board_cards
  pt_hand_phase :: "'pt hand_phase"
  pt_deck_state :: "'pt deck_state"
  pt_chip_pool :: nat
  pt_rit :: run_it_twice_state
  pt_hand_id :: nat
  pt_call_seq :: nat

definition persisted_seats :: "('pt \<Rightarrow> bool) \<Rightarrow> 'pt seat list \<Rightarrow> nat \<Rightarrow> 'pt seat list res" where
  "persisted_seats is_identity seats mp =
     (if mp > length seats then Inl (Panic ''range end index out of range for slice'')
      else rbind (try_fold (\<lambda>_ s. seat_validate_canonical is_identity s) () (take mp seats)) (\<lambda>_. Inr (take mp seats)))"

definition restore_seats :: "('pt \<Rightarrow> bool) \<Rightarrow> 'pt seat list \<Rightarrow> nat \<Rightarrow> 'pt seat list res" where
  "restore_seats is_identity seats mp =
     (if length seats > 9 then Inl (Serialization ''Texas persisted seat count exceeds MAX_PLAYERS'')
      else if length seats \<noteq> mp then Inl (Serialization ''Texas persisted seat layout mismatch'')
      else rbind (try_fold (\<lambda>_ s. seat_validate_canonical is_identity s) () seats) (\<lambda>_.
        Inr (seats @ replicate (9 - length seats) seat_empty)))"

definition to_persisted :: "'pt group_ops \<Rightarrow> 'pt table \<Rightarrow> 'pt persisted_table res" where
  "to_persisted G t =
     rbind (validate_state_schema G t) (\<lambda>_.
     rbind (persisted_seats (g1_is_identity G) (t_seats t) (max_players t)) (\<lambda>seats.
     rbind (canonical_hand_phase t) (\<lambda>phase.
       Inr \<lparr>pt_id = t_id t, pt_version = TABLE_STATE_SCHEMA_VERSION, pt_creator = t_creator t, pt_rules = t_rules t,
            pt_seats = seats, pt_acted_mask = t_acted_mask t, pt_leave_mask = t_leave_after_hand_mask t,
            pt_button = t_button t, pt_last_bb_seat = t_last_bb_seat t, pt_pot = t_pot t,
            pt_community_cards = t_community_cards t, pt_hand_phase = phase, pt_deck_state = t_deck_state t,
            pt_chip_pool = t_chip_pool t, pt_rit = t_run_it_twice_state t, pt_hand_id = t_hand_id t,
            pt_call_seq = t_call_seq t\<rparr>)))"

text \<open>\<^verbatim>\<open>restore_table\<close>: rules and creator come from the caller, the rest from the persisted value.\<close>

definition restore_table ::
    "'pt group_ops \<Rightarrow> table_rules \<Rightarrow> address \<Rightarrow> 'pt persisted_table \<Rightarrow> 'pt table res" where
  "restore_table G rules creator p =
     rbind (restore_seats (g1_is_identity G) (pt_seats p) (r_max_players rules)) (\<lambda>seats.
     let t = \<lparr>t_id = pt_id p, t_creator = creator, t_rules = rules, t_seats = seats, t_acted_mask = pt_acted_mask p,
           t_leave_after_hand_mask = pt_leave_mask p, t_button = pt_button p, t_last_bb_seat = pt_last_bb_seat p,
           t_pot = pt_pot p, t_community_cards = pt_community_cards p, t_hand_phase = pt_hand_phase p,
           t_deck_state = pt_deck_state p, t_chip_pool = pt_chip_pool p, t_run_it_twice_state = pt_rit p,
           t_hand_id = pt_hand_id p, t_call_seq = pt_call_seq p\<rparr>
     in rbind (validate_state_schema G t) (\<lambda>_. Inr t))"

definition from_persisted :: "'pt group_ops \<Rightarrow> 'pt persisted_table \<Rightarrow> 'pt table res" where
  "from_persisted G p =
     (if pt_version p \<noteq> TABLE_STATE_SCHEMA_VERSION then Inl (Serialization ''unsupported canonical Texas schema'')
      else restore_table G (pt_rules p) (pt_creator p) p)"

section \<open>The resolved snapshot as bytes\<close>

text \<open>The fields that both layouts share, from the seats on.\<close>

definition tail_fields :: "'pt point_codec \<Rightarrow> 'pt persisted_table \<Rightarrow> bytes res list" where
  "tail_fields P p = [put_vec (put_seat P) (pt_seats p), put_mask (pt_acted_mask p), put_mask (pt_leave_mask p),
     put_u8 (pt_button p), put_u8 (pt_last_bb_seat p), put_u64 (pt_pot p), put_cards (pt_community_cards p),
     put_phase P (pt_hand_phase p), put_deck P (pt_deck_state p), put_u64 (pt_chip_pool p), put_rit (pt_rit p),
     put_u32 (pt_hand_id p), put_u32 (pt_call_seq p)]"

definition get_tail :: "'pt point_codec \<Rightarrow> bytes \<Rightarrow> nat \<Rightarrow> address \<Rightarrow> table_rules \<Rightarrow> 'pt persisted_table reader" where
  "get_tail P i v creator rules bs =
     rbind (get_vec (get_seat P) bs) (\<lambda>(seats, bs). rbind (get_mask bs) (\<lambda>(acted, bs). rbind (get_mask bs) (\<lambda>(leave, bs).
     rbind (get_u8 bs) (\<lambda>(button, bs). rbind (get_u8 bs) (\<lambda>(bb, bs). rbind (get_u64 bs) (\<lambda>(pot, bs).
     rbind (get_cards 5 bs) (\<lambda>(board, bs). rbind (get_phase P bs) (\<lambda>(phase, bs). rbind (get_deck P bs) (\<lambda>(deck, bs).
     rbind (get_u64 bs) (\<lambda>(pool, bs). rbind (get_rit bs) (\<lambda>(rit, bs). rbind (get_u32 bs) (\<lambda>(hand, bs).
     rbind (get_u32 bs) (\<lambda>(seq, bs).
       Inr (\<lparr>pt_id = i, pt_version = v, pt_creator = creator, pt_rules = rules, pt_seats = seats, pt_acted_mask = acted,
             pt_leave_mask = leave, pt_button = button, pt_last_bb_seat = bb, pt_pot = pot, pt_community_cards = board,
             pt_hand_phase = phase, pt_deck_state = deck, pt_chip_pool = pool, pt_rit = rit, pt_hand_id = hand,
             pt_call_seq = seq\<rparr>, bs))))))))))))))"

definition put_persisted :: "'pt point_codec \<Rightarrow> 'pt persisted_table writer" where
  "put_persisted P p = put_fields ([put_array (pt_id p), put_u8 (pt_version p), put_address (pt_creator p),
     put_rules (pt_rules p)] @ tail_fields P p)"

definition get_persisted :: "'pt point_codec \<Rightarrow> 'pt persisted_table reader" where
  "get_persisted P bs =
     rbind (read_exact 28 bs) (\<lambda>(i, bs). rbind (get_u8 bs) (\<lambda>(v, bs). rbind (get_address bs) (\<lambda>(creator, bs).
     rbind (get_rules bs) (\<lambda>(rules, bs). get_tail P i v creator rules bs))))"

definition put_table :: "'pt group_ops \<Rightarrow> 'pt point_codec \<Rightarrow> 'pt table writer" where
  "put_table G P t = rbind (to_persisted G t) (put_persisted P)"

text \<open>The schema byte is looked at first; then the whole value is read again from the start.\<close>

definition get_table :: "'pt group_ops \<Rightarrow> 'pt point_codec \<Rightarrow> 'pt table reader" where
  "get_table G P bs =
     rbind (read_exact 28 bs) (\<lambda>(_, r). rbind (get_u8 r) (\<lambda>(schema, _).
     if schema \<noteq> TABLE_STATE_SCHEMA_VERSION then Inl (Serialization ''unsupported Texas table schema'')
     else rbind (get_persisted P bs) (\<lambda>(p, bs). rbind (from_persisted G p) (\<lambda>t. Inr (t, bs)))))"

definition encode_table_state :: "'pt group_ops \<Rightarrow> 'pt point_codec \<Rightarrow> 'pt table \<Rightarrow> bytes res" where
  "encode_table_state G P t = rbind (validate_state_schema G t) (\<lambda>_. put_table G P t)"

definition decode_table_state :: "'pt group_ops \<Rightarrow> 'pt point_codec \<Rightarrow> bytes \<Rightarrow> 'pt table res" where
  "decode_table_state G P bs =
     rbind (from_slice (get_table G P) bs) (\<lambda>t. rbind (validate_state_schema G t) (\<lambda>_. Inr t))"

section \<open>The hot layout\<close>

record context_openings =
  op_rules :: table_rules
  op_creator :: address

definition openings_of :: "'pt table \<Rightarrow> context_openings" where
  "openings_of t = \<lparr>op_rules = t_rules t, op_creator = t_creator t\<rparr>"

definition governance_validate :: "address \<Rightarrow> unit res" where
  "governance_validate creator =
     (if creator = EMPTY_PLAYER then Inl (Serialization ''Texas governance creator is empty'') else Inr ())"

definition openings_validate :: "context_openings \<Rightarrow> unit res" where
  "openings_validate o' = rbind (rules_validate (op_rules o')) (\<lambda>_. governance_validate (op_creator o'))"

definition RULES_CONTEXT_DOMAIN :: bytes where "RULES_CONTEXT_DOMAIN = text_bytes ''zchain.texas_poker.rules.v1''"
definition GOVERNANCE_CONTEXT_DOMAIN :: bytes where "GOVERNANCE_CONTEXT_DOMAIN = text_bytes ''zchain.texas_poker.governance.v1''"
definition METADATA_CONTEXT_DOMAIN :: bytes where "METADATA_CONTEXT_DOMAIN = text_bytes ''zchain.texas_poker.metadata.v1''"

definition derive_context_object_id :: "(bytes \<Rightarrow> bytes) \<Rightarrow> bytes \<Rightarrow> bytes \<Rightarrow> bytes" where
  "derive_context_object_id H table_id domain =
     take 20 (H (text_bytes ''zchain.texas_poker.context_object_id.v1'' @ table_id @ domain)) @ int_bytes 8 0"

definition context_digest :: "(bytes \<Rightarrow> bytes) \<Rightarrow> bytes \<Rightarrow> bytes \<Rightarrow> bytes res \<Rightarrow> bytes res" where
  "context_digest H table_id domain encoded = rbind encoded (\<lambda>encoded. Inr (H (domain @ table_id @ encoded)))"

record context_binding =
  cb_object_id :: bytes
  cb_digest :: bytes

record context_bindings =
  cb_rules :: context_binding
  cb_governance :: context_binding

definition table_context_bindings :: "(bytes \<Rightarrow> bytes) \<Rightarrow> bytes \<Rightarrow> context_openings \<Rightarrow> context_bindings res" where
  "table_context_bindings H table_id o' =
     rbind (openings_validate o') (\<lambda>_.
     rbind (context_digest H table_id RULES_CONTEXT_DOMAIN (put_rules (op_rules o'))) (\<lambda>rules.
     rbind (context_digest H table_id GOVERNANCE_CONTEXT_DOMAIN (put_address (op_creator o'))) (\<lambda>governance.
       Inr \<lparr>cb_rules = \<lparr>cb_object_id = derive_context_object_id H table_id RULES_CONTEXT_DOMAIN, cb_digest = rules\<rparr>,
            cb_governance = \<lparr>cb_object_id = derive_context_object_id H table_id GOVERNANCE_CONTEXT_DOMAIN,
              cb_digest = governance\<rparr>\<rparr>)))"

definition put_binding :: "context_binding writer" where
  "put_binding b = put_fields [put_array (cb_object_id b), put_array (cb_digest b)]"

definition get_binding :: "context_binding reader" where
  "get_binding bs =
     rbind (read_exact 28 bs) (\<lambda>(i, bs). rbind (read_exact 32 bs) (\<lambda>(d, bs).
       Inr (\<lparr>cb_object_id = i, cb_digest = d\<rparr>, bs)))"

definition is_hot_table_state :: "bytes \<Rightarrow> bool" where
  "is_hot_table_state bs \<longleftrightarrow> length bs > 28 \<and> unat (bs ! 28) = HOT_STATE_SCHEMA_VERSION"

definition encode_hot_table_state :: "(bytes \<Rightarrow> bytes) \<Rightarrow> 'pt group_ops \<Rightarrow> 'pt point_codec \<Rightarrow> 'pt table \<Rightarrow> bytes res" where
  "encode_hot_table_state H G P t =
     rbind (validate_state_schema G t) (\<lambda>_.
     rbind (table_context_bindings H (t_id t) (openings_of t)) (\<lambda>b.
     rbind (to_persisted G t) (\<lambda>p.
       put_fields ([put_array (t_id t), put_u8 HOT_STATE_SCHEMA_VERSION, put_binding (cb_rules b), put_binding (cb_governance b)]
         @ tail_fields P p))))"

definition get_hot :: "'pt point_codec \<Rightarrow> context_openings \<Rightarrow> (context_bindings \<times> 'pt persisted_table) reader" where
  "get_hot P o' bs =
     rbind (read_exact 28 bs) (\<lambda>(i, bs). rbind (get_u8 bs) (\<lambda>(v, bs).
     rbind (get_binding bs) (\<lambda>(r, bs). rbind (get_binding bs) (\<lambda>(g, bs).
     rbind (get_tail P i v (op_creator o') (op_rules o') bs) (\<lambda>(p, bs). Inr ((\<lparr>cb_rules = r, cb_governance = g\<rparr>, p), bs))))))"

definition decode_hot_table_state ::
    "(bytes \<Rightarrow> bytes) \<Rightarrow> 'pt group_ops \<Rightarrow> 'pt point_codec \<Rightarrow> bytes \<Rightarrow> context_openings \<Rightarrow> 'pt table res" where
  "decode_hot_table_state H G P bs o' =
     rbind (from_slice (get_hot P o') bs) (\<lambda>(b, p).
     if pt_version p \<noteq> HOT_STATE_SCHEMA_VERSION then Inl (Serialization ''unsupported Texas hot table schema'')
     else rbind (table_context_bindings H (pt_id p) o') (\<lambda>b'.
       if b \<noteq> b' then Inl (Serialization ''Texas hot table context binding/opening mismatch'')
       else restore_table G (op_rules o') (op_creator o') p))"

section \<open>Snapshots read back\<close>

text \<open>The ranges of the machine types of a table, and seats beyond the last player as restored.\<close>

definition machine_typed :: "'pt table \<Rightarrow> bool" where
  "machine_typed t \<longleftrightarrow> length (t_id t) = 28 \<and> length (t_creator t) = 20 \<and> ok_rules (t_rules t) \<and>
     length (t_seats t) = 9 \<and> list_all ok_seat (t_seats t) \<and> t_button t < 256 \<and> t_last_bb_seat t < 256 \<and>
     t_pot t < u64_bound \<and> ok_cards 5 (t_community_cards t) \<and> ok_phase (t_hand_phase t) \<and> ok_deck (t_deck_state t) \<and>
     t_chip_pool t < u64_bound \<and> ok_rit (t_run_it_twice_state t) \<and> t_hand_id t < u32_bound \<and> t_call_seq t < u32_bound"

definition fresh_padding :: "'pt table \<Rightarrow> bool" where
  "fresh_padding t \<longleftrightarrow> list_all (\<lambda>s. s = seat_empty) (drop (max_players t) (t_seats t))"

lemma tail_reads:
  assumes "put_fields (tail_fields P p) = Inr b" "lawful_points P"
    and "list_all ok_seat (pt_seats p)" "pt_button p < 256" "pt_last_bb_seat p < 256" "pt_pot p < u64_bound"
    "ok_cards 5 (pt_community_cards p)" "ok_phase (pt_hand_phase p)" "ok_deck (pt_deck_state p)" "pt_chip_pool p < u64_bound"
    "ok_rit (pt_rit p)" "pt_hand_id p < u32_bound" "pt_call_seq p < u32_bound"
  shows "reads (get_tail P i v creator rules) b (p\<lparr>pt_id := i, pt_version := v, pt_creator := creator, pt_rules := rules\<rparr>)"
proof -
  obtain b1 b2 b3 b4 b5 b6 b7 b8 b9 b10 b11 b12 b13 where
    p: "put_vec (put_seat P) (pt_seats p) = Inr b1" "put_mask (pt_acted_mask p) = Inr b2" "put_mask (pt_leave_mask p) = Inr b3"
     "put_u8 (pt_button p) = Inr b4" "put_u8 (pt_last_bb_seat p) = Inr b5" "put_u64 (pt_pot p) = Inr b6"
     "put_cards (pt_community_cards p) = Inr b7" "put_phase P (pt_hand_phase p) = Inr b8" "put_deck P (pt_deck_state p) = Inr b9"
     "put_u64 (pt_chip_pool p) = Inr b10" "put_rit (pt_rit p) = Inr b11" "put_u32 (pt_hand_id p) = Inr b12" "put_u32 (pt_call_seq p) = Inr b13"
    and b: "b = b1 @ b2 @ b3 @ b4 @ b5 @ b6 @ b7 @ b8 @ b9 @ b10 @ b11 @ b12 @ b13"
    using assms(1) unfolding tail_fields_def put_fields_Inr put_fields_Nil by (elim exE conjE) (simp only: append_Nil2)
  have r: "reads (get_vec (get_seat P)) b1 (pt_seats p)"
    using assms(2,3) by (intro reads_vec [OF p(1)]) (auto simp: list_all_iff intro: reads_seat)
  have u: "reads get_u8 b4 (pt_button p)" "reads get_u8 b5 (pt_last_bb_seat p)" "reads get_u64 b6 (pt_pot p)"
    "reads get_u64 b10 (pt_chip_pool p)" "reads get_u32 b12 (pt_hand_id p)" "reads get_u32 b13 (pt_call_seq p)"
    using reads_uint [OF p(4)] reads_uint [OF p(5)] reads_uint [OF p(6)] reads_uint [OF p(10)]
      reads_uint [OF p(12)] reads_uint [OF p(13)] assms(4,5,6,10,12,13) by simp_all
  show ?thesis
    using r u reads_mask [OF p(2)] reads_mask [OF p(3)] reads_cards [OF p(7) assms(7)] reads_phase [OF assms(2) p(8) assms(8)]
      reads_deck [OF assms(2) p(9) assms(9)] reads_rit [OF p(11) assms(11)]
    by (simp add: reads_def get_tail_def b)
qed

lemma to_persisted_Inr:
  assumes "to_persisted G t = Inr p"
  shows "pt_id p = t_id t" "pt_version p = TABLE_STATE_SCHEMA_VERSION" "pt_creator p = t_creator t" "pt_rules p = t_rules t"
    "pt_seats p = take (max_players t) (t_seats t)" "validate_state_schema G t = Inr ()"
    "pt_acted_mask p = t_acted_mask t" "pt_leave_mask p = t_leave_after_hand_mask t" "pt_button p = t_button t"
    "pt_last_bb_seat p = t_last_bb_seat t" "pt_pot p = t_pot t" "pt_community_cards p = t_community_cards t"
    "pt_hand_phase p = t_hand_phase t" "pt_deck_state p = t_deck_state t" "pt_chip_pool p = t_chip_pool t"
    "pt_rit p = t_run_it_twice_state t" "pt_hand_id p = t_hand_id t" "pt_call_seq p = t_call_seq t"
  using assms by (auto simp: to_persisted_def persisted_seats_def canonical_hand_phase_def result_simps split: if_splits)

lemma persisted_typed:
  assumes "to_persisted G t = Inr p" "machine_typed t"
  shows "list_all ok_seat (pt_seats p)" "pt_button p < 256" "pt_last_bb_seat p < 256" "pt_pot p < u64_bound"
    "ok_cards 5 (pt_community_cards p)" "ok_phase (pt_hand_phase p)" "ok_deck (pt_deck_state p)" "pt_chip_pool p < u64_bound"
    "ok_rit (pt_rit p)" "pt_hand_id p < u32_bound" "pt_call_seq p < u32_bound"
  using assms(2) by (simp_all add: machine_typed_def to_persisted_Inr [OF assms(1)] list_all_iff, blast dest: in_set_takeD)

lemma restore_persisted:
  assumes p: "to_persisted G t = Inr p" and t: "length (t_seats t) = 9" "fresh_padding t"
  shows "restore_table G (t_rules t) (t_creator t) p = Inr t"
proof -
  note v = to_persisted_Inr [OF p]
  have mp: "max_players t \<le> 9" using validate_state_schema_Inr(1) [OF v(6)] by (simp add: rules_validate_def MAX_SEATS_def split: if_splits)
  have ok: "try_fold (\<lambda>_ s. seat_validate_canonical (g1_is_identity G) s) () (take (max_players t) (t_seats t)) = Inr ()"
    using p by (auto simp: to_persisted_def persisted_seats_def result_simps split: if_splits)
  have "drop (max_players t) (t_seats t) = replicate (9 - max_players t) seat_empty"
    using t replicate_length_same [of "drop (max_players t) (t_seats t)" seat_empty] by (simp add: fresh_padding_def list_all_iff)
  then have "take (max_players t) (t_seats t) @ replicate (9 - max_players t) seat_empty = t_seats t"
    by (metis append_take_drop_id)
  with v ok mp t(1) have r: "restore_seats (g1_is_identity G) (pt_seats p) (max_players t) = Inr (t_seats t)"
    by (simp add: restore_seats_def min_def)
  have eq: "\<lparr>t_id = t_id t, t_creator = t_creator t, t_rules = t_rules t, t_seats = t_seats t, t_acted_mask = t_acted_mask t,
      t_leave_after_hand_mask = t_leave_after_hand_mask t, t_button = t_button t, t_last_bb_seat = t_last_bb_seat t,
      t_pot = t_pot t, t_community_cards = t_community_cards t, t_hand_phase = t_hand_phase t, t_deck_state = t_deck_state t,
      t_chip_pool = t_chip_pool t, t_run_it_twice_state = t_run_it_twice_state t, t_hand_id = t_hand_id t,
      t_call_seq = t_call_seq t\<rparr> = t" by simp
  show ?thesis unfolding restore_table_def v(5) r [unfolded v(5)] Let_def rbind_simps v eq ..
qed

lemma table_law: "lawful_points P \<Longrightarrow> reads_back (\<lambda>t. machine_typed t \<and> fresh_padding t) (put_table G P) (get_table G P)"
proof (rule lawI)
  fix t b
  assume P: "lawful_points P" and t: "machine_typed t \<and> fresh_padding t" and "put_table G P t = Inr b"
  then obtain p where p: "to_persisted G t = Inr p" and "put_persisted P p = Inr b" by (auto simp: put_table_def result_simps)
  then obtain b1 b2 b3 b4 b5 where f: "put_array (t_id t) = Inr b1" "put_u8 TABLE_STATE_SCHEMA_VERSION = Inr b2"
      "put_address (t_creator t) = Inr b3" "put_rules (t_rules t) = Inr b4" "put_fields (tail_fields P p) = Inr b5"
    and b: "b = b1 @ b2 @ b3 @ b4 @ b5"
    unfolding put_persisted_def append.simps put_fields_Inr to_persisted_Inr(1-4) [OF p] by (elim exE conjE) blast
  have l: "length (t_id t) = 28" "length (t_creator t) = 20" "ok_rules (t_rules t)" "length (t_seats t) = 9"
    using t by (simp_all add: machine_typed_def)
  note typed = persisted_typed [OF p conjunct1 [OF t]]
  have r: "reads (read_exact 28) b1 (t_id t)" "reads get_u8 b2 TABLE_STATE_SCHEMA_VERSION" "reads get_address b3 (t_creator t)"
    "reads get_rules b4 (t_rules t)"
    using reads_array [OF f(1) l(1)] reads_address [OF f(3) l(2)] reads_rules [OF f(4) l(3)] reads_uint [OF f(2)]
    by (simp_all add: TABLE_STATE_SCHEMA_VERSION_def)
  have "reads (get_tail P (t_id t) TABLE_STATE_SCHEMA_VERSION (t_creator t) (t_rules t)) b5 p"
    using tail_reads [OF f(5) P typed, of "t_id t" TABLE_STATE_SCHEMA_VERSION "t_creator t" "t_rules t"]
    by (simp flip: to_persisted_Inr(1-4) [OF p])
  moreover have "from_persisted G p = Inr t"
    using restore_persisted [OF p l(4) conjunct2 [OF t]] by (simp add: from_persisted_def to_persisted_Inr(2-4) [OF p])
  ultimately show "reads (get_table G P) b t"
    using r by (simp add: reads_def get_table_def get_persisted_def b)
qed

lemma binding_reads:
  "put_binding b = Inr c \<Longrightarrow> length (cb_object_id b) = 28 \<Longrightarrow> length (cb_digest b) = 32 \<Longrightarrow> reads get_binding c b"
  by (auto simp: put_binding_def put_array_def get_binding_def reads_def read_exact_length)

lemma bindings_Inr:
  assumes "table_context_bindings H i o' = Inr b" "\<And>x. length (H x) = 32"
  obtains r where "put_rules (op_rules o') = Inr r"
    "cb_digest (cb_rules b) = H (RULES_CONTEXT_DOMAIN @ i @ r)"
    "cb_digest (cb_governance b) = H (GOVERNANCE_CONTEXT_DOMAIN @ i @ op_creator o')"
    "length (cb_object_id (cb_rules b)) = 28" "length (cb_object_id (cb_governance b)) = 28"
    "length (cb_digest (cb_rules b)) = 32" "length (cb_digest (cb_governance b)) = 32"
  using assms
  by (auto simp: table_context_bindings_def context_digest_def derive_context_object_id_def put_address_def put_array_def result_simps)

text \<open>What a reader of a hot encoding sees, whatever openings it is given.\<close>

lemma hot_reads:
  assumes e: "encode_hot_table_state H G P t = Inr bs" and P: "lawful_points P" and t: "machine_typed t"
    and H: "\<And>x. length (H x) = 32"
  obtains b p where "table_context_bindings H (t_id t) (openings_of t) = Inr b" "to_persisted G t = Inr p"
    "\<And>o'. from_slice (get_hot P o') bs = Inr (b, p\<lparr>pt_version := HOT_STATE_SCHEMA_VERSION, pt_creator := op_creator o', pt_rules := op_rules o'\<rparr>)"
proof -
  from e obtain b p where b: "table_context_bindings H (t_id t) (openings_of t) = Inr b" and p: "to_persisted G t = Inr p"
    and w: "put_fields ([put_array (t_id t), put_u8 HOT_STATE_SCHEMA_VERSION, put_binding (cb_rules b), put_binding (cb_governance b)]
         @ tail_fields P p) = Inr bs"
    by (auto simp: encode_hot_table_state_def result_simps)
  from w obtain b1 b2 b3 b4 b5 where f: "put_array (t_id t) = Inr b1" "put_u8 HOT_STATE_SCHEMA_VERSION = Inr b2"
      "put_binding (cb_rules b) = Inr b3" "put_binding (cb_governance b) = Inr b4" "put_fields (tail_fields P p) = Inr b5"
    and bs: "bs = b1 @ b2 @ b3 @ b4 @ b5"
    unfolding append.simps put_fields_Inr by (elim exE conjE) blast
  have l: "length (t_id t) = 28" using t by (simp add: machine_typed_def)
  have k: "length (cb_object_id (cb_rules b)) = 28" "length (cb_object_id (cb_governance b)) = 28"
    "length (cb_digest (cb_rules b)) = 32" "length (cb_digest (cb_governance b)) = 32"
    by (rule bindings_Inr [OF b H]; assumption)+
  have r: "reads (read_exact 28) b1 (t_id t)" "reads get_u8 b2 HOT_STATE_SCHEMA_VERSION"
    "reads get_binding b3 (cb_rules b)" "reads get_binding b4 (cb_governance b)"
    using reads_array [OF f(1) l] reads_uint [OF f(2)] binding_reads [OF f(3) k(1,3)] binding_reads [OF f(4) k(2,4)]
    by (simp_all add: HOT_STATE_SCHEMA_VERSION_def)
  have "from_slice (get_hot P o') bs = Inr (b, p\<lparr>pt_version := HOT_STATE_SCHEMA_VERSION, pt_creator := op_creator o', pt_rules := op_rules o'\<rparr>)" for o'
  proof -
    have "reads (get_tail P (t_id t) HOT_STATE_SCHEMA_VERSION (op_creator o') (op_rules o')) b5
        (p\<lparr>pt_version := HOT_STATE_SCHEMA_VERSION, pt_creator := op_creator o', pt_rules := op_rules o'\<rparr>)"
      using tail_reads [OF f(5) P persisted_typed [OF p t], of "t_id t" HOT_STATE_SCHEMA_VERSION "op_creator o'" "op_rules o'"]
      by (simp flip: to_persisted_Inr(1) [OF p])
    then have "get_hot P o' (bs @ []) = Inr ((b, p\<lparr>pt_version := HOT_STATE_SCHEMA_VERSION, pt_creator := op_creator o', pt_rules := op_rules o'\<rparr>), [])"
      using r by (simp add: get_hot_def bs reads_def del: append_Nil2)
    then show ?thesis by (simp add: from_slice_def)
  qed
  then show ?thesis using that b p by blast
qed

lemma decode_hot_own:
  assumes "encode_hot_table_state H G P t = Inr bs" "lawful_points P" "machine_typed t" "fresh_padding t" "\<And>x. length (H x) = 32"
  shows "decode_hot_table_state H G P bs (openings_of t) = Inr t"
proof -
  from hot_reads [OF assms(1-3,5)] obtain b p where b: "table_context_bindings H (t_id t) (openings_of t) = Inr b"
    and p: "to_persisted G t = Inr p"
    and s: "\<And>o'. from_slice (get_hot P o') bs = Inr (b, p\<lparr>pt_version := HOT_STATE_SCHEMA_VERSION, pt_creator := op_creator o', pt_rules := op_rules o'\<rparr>)"
    by blast
  let ?p = "p\<lparr>pt_version := HOT_STATE_SCHEMA_VERSION, pt_creator := t_creator t, pt_rules := t_rules t\<rparr>"
  have "restore_table G (t_rules t) (t_creator t) ?p = restore_table G (t_rules t) (t_creator t) p"
    by (simp add: restore_table_def)
  with restore_persisted [OF p _ assms(4)] assms(3) b show ?thesis
    by (simp add: decode_hot_table_state_def s openings_of_def to_persisted_Inr(1) [OF p] machine_typed_def)
qed

text \<open>
  Openings that match the digests are the table's own, unless two of the four messages that are
  hashed collide.
\<close>

definition context_messages :: "bytes \<Rightarrow> context_openings \<Rightarrow> bytes set" where
  "context_messages i a = {RULES_CONTEXT_DOMAIN @ i @ r |r. put_rules (op_rules a) = Inr r} \<union>
     {GOVERNANCE_CONTEXT_DOMAIN @ i @ op_creator a}"

lemma openings_bound:
  assumes "table_context_bindings H i a = Inr b" "table_context_bindings H i a' = Inr b"
    and "\<And>x. length (H x) = 32" "inj_on H (context_messages i a \<union> context_messages i a')"
    and "ok_rules (op_rules a)" "ok_rules (op_rules a')"
  shows "a = a'"
proof -
  from bindings_Inr [OF assms(1,3)] bindings_Inr [OF assms(2,3)] obtain r r' where
    r: "put_rules (op_rules a) = Inr r" "put_rules (op_rules a') = Inr r'"
    and h: "H (RULES_CONTEXT_DOMAIN @ i @ r) = H (RULES_CONTEXT_DOMAIN @ i @ r')"
    "H (GOVERNANCE_CONTEXT_DOMAIN @ i @ op_creator a) = H (GOVERNANCE_CONTEXT_DOMAIN @ i @ op_creator a')"
    by metis
  from inj_onD [OF assms(4) h(1)] r have "r = r'" by (auto simp: context_messages_def)
  moreover from inj_onD [OF assms(4) h(2)] have "op_creator a = op_creator a'" by (auto simp: context_messages_def)
  ultimately show ?thesis using r assms(5,6) reads_back.put_inj [OF rules_law, of "op_rules a" "op_rules a'"] by simp
qed

lemma decode_hot_bound:
  assumes e: "encode_hot_table_state H G P t = Inr bs" and d: "decode_hot_table_state H G P bs a = Inr t'"
    and P: "lawful_points P" and t: "machine_typed t" and H: "\<And>x. length (H x) = 32" "inj_on H (context_messages (t_id t) a \<union> context_messages (t_id t) (openings_of t))" and a: "ok_rules (op_rules a)"
  shows "a = openings_of t"
proof -
  from hot_reads [OF e P t H(1)] obtain b p where b: "table_context_bindings H (t_id t) (openings_of t) = Inr b"
    and p: "to_persisted G t = Inr p"
    and s: "\<And>o'. from_slice (get_hot P o') bs = Inr (b, p\<lparr>pt_version := HOT_STATE_SCHEMA_VERSION, pt_creator := op_creator o', pt_rules := op_rules o'\<rparr>)"
    by blast
  from d have "table_context_bindings H (t_id t) a = Inr b"
    by (auto simp: decode_hot_table_state_def s to_persisted_Inr(1) [OF p] result_simps split: if_splits)
  from openings_bound [OF this b H] a t show ?thesis by (simp add: openings_of_def machine_typed_def)
qed

text \<open>The byte after the identifier tells the two layouts apart.\<close>

lemma put_table_schema_byte:
  assumes "put_table G P t = Inr bs" "length (t_id t) = 28"
  shows "\<not> is_hot_table_state bs"
proof -
  from assms(1) obtain p rest where p: "to_persisted G t = Inr p" and "bs = pt_id p @ word_of_nat (pt_version p mod 256) # rest"
    by (auto simp: put_table_def put_persisted_def put_array_def result_simps)
  with assms(2) show ?thesis
    by (simp add: is_hot_table_state_def to_persisted_Inr(1,2) [OF p] nth_append TABLE_STATE_SCHEMA_VERSION_def HOT_STATE_SCHEMA_VERSION_def)
qed

lemma encode_hot_schema_byte:
  assumes "encode_hot_table_state H G P t = Inr bs" "length (t_id t) = 28"
  shows "is_hot_table_state bs" "decode_table_state G P bs = Inl (Serialization ''unsupported Texas table schema'')"
proof -
  from assms(1) obtain rest where bs: "bs = t_id t @ word_of_nat (HOT_STATE_SCHEMA_VERSION mod 256) # rest"
    by (auto simp: encode_hot_table_state_def put_array_def result_simps)
  with assms(2) show "is_hot_table_state bs" by (simp add: is_hot_table_state_def nth_append HOT_STATE_SCHEMA_VERSION_def)
  show "decode_table_state G P bs = Inl (Serialization ''unsupported Texas table schema'')"
    using read_exact_length [OF assms(2)]
    by (simp add: decode_table_state_def from_slice_def get_table_def bs HOT_STATE_SCHEMA_VERSION_def TABLE_STATE_SCHEMA_VERSION_def)
qed

text \<open>A snapshot stores one fixed-width record per configured seat, so its length depends on their number.\<close>

lemma put_seat_width: "put_seat P s = Inr b \<Longrightarrow> length b = SEAT_RECORD_WIDTH"
  by (auto simp: put_seat_def result_simps padded_record_width split: prod.splits)

lemma seats_width: "put_vec (put_seat P) ss = Inr b \<Longrightarrow> length b = 4 + SEAT_RECORD_WIDTH * length ss"
proof -
  assume "put_vec (put_seat P) ss = Inr b"
  then obtain c where c: "put_many (put_seat P) ss = Inr c" and b: "length b = 4 + length c"
    unfolding put_vec_def if_Inl_Inr_iff put_uint_def put_fields_Inr put_fields_Nil by auto
  from c have "length c = SEAT_RECORD_WIDTH * length ss"
    unfolding put_many_def by (induction ss arbitrary: c) (auto simp: put_seat_width)
  with b show ?thesis by simp
qed

end
