(* ===== verification/Poker_Args.thy ===== *)
theory Poker_Args
  imports Poker_StateCodec Poker_Dispatch
begin

text \<open>
  The argument structs of the dispatcher (\<^verbatim>\<open>poker_l1/.../runtime/dispatch.rs\<close>): the wire form of
  each command, its canonical form without the actor, and how the wire form becomes a call of the
  state machine. A struct is the tuple of its fields in order. The encodings of curve points and of
  proofs, and the verification of proofs, are the curve library's; they are fields of \<open>wire_lib\<close>.
\<close>

section \<open>Codecs that can write what they read\<close>

locale codec = reads_back +
  assumes written: "ok x \<Longrightarrow> \<exists>bs. put x = Inr bs"
    and ranged: "get bs = Inr (x, rest) \<Longrightarrow> ok x"
begin

lemma rewrite:
  assumes "from_slice get bs = Inr x"
  obtains cs where "put x = Inr cs" "from_slice get cs = Inr x"
proof -
  from assms have "ok x" by (auto simp: from_slice_def result_simps intro: ranged split: if_splits)
  with written obtain cs where "put x = Inr cs" by blast
  moreover from \<open>ok x\<close> this have "from_slice get cs = Inr x" by (rule from_slice_put)
  ultimately show ?thesis by (rule that)
qed

lemma get_many_ranged: "get_many get n bs = Inr (xs, rest) \<Longrightarrow> length xs = n \<and> (\<forall>x\<in>set xs. ok x)"
  by (induction n arbitrary: bs xs) (auto simp: result_simps dest: ranged)

lemma vec_codec: "codec (\<lambda>xs. length xs < u32_bound \<and> (\<forall>x\<in>set xs. ok x)) (put_vec put) (get_vec get)"
proof unfold_locales
  fix xs and bs :: bytes and rest
  assume "length xs < u32_bound \<and> (\<forall>x\<in>set xs. ok x)" "put_vec put xs = Inr bs"
  then show "get_vec get (bs @ rest) = Inr (xs, rest)" by (intro vec_get_put) auto
next
  fix xs assume a: "length xs < u32_bound \<and> (\<forall>x\<in>set xs. ok x)"
  then have "\<forall>x\<in>set xs. ok x" by blast
  then have "\<exists>bs. put_many put xs = Inr bs"
    by (induction xs) (auto simp: put_many_def dest: written)
  with a show "\<exists>bs. put_vec put xs = Inr bs" by (auto simp: put_vec_def put_uint_def)
next
  fix bs xs rest assume "get_vec get bs = Inr (xs, rest)"
  then obtain n r where "get_u32 bs = Inr (n, r)" "get_many get n r = Inr (xs, rest)" by (auto simp: get_vec_def result_simps)
  then show "length xs < u32_bound \<and> (\<forall>x\<in>set xs. ok x)" by (auto simp: get_uint_Inr dest: get_many_ranged)
qed

end

lemma one_encoding_codec: "one_encoding ok put get \<Longrightarrow> (\<And>x. ok x \<Longrightarrow> \<exists>bs. put x = Inr bs) \<Longrightarrow> codec ok put get"
  by (simp add: codec_def codec_axioms_def one_encoding_def one_encoding_axioms_def)

lemma uint_codec: "codec (\<lambda>n. n < 256 ^ k) (put_uint k) (get_uint k)"
  by (rule one_encoding_codec [OF uint.one_encoding_axioms]) (simp add: put_uint_def)

lemma bool_codec: "codec (\<lambda>_. True) put_bool get_bool"
  by (rule one_encoding_codec [OF boolean.one_encoding_axioms]) (simp add: put_bool_def)

lemma array_codec: "codec (\<lambda>bs. length bs = k) put_array (read_exact k)"
  by (rule one_encoding_codec [OF byte_array.one_encoding_axioms]) (simp add: put_array_def)

lemma bytes_codec: "codec (\<lambda>bs. length bs < u32_bound) put_bytes get_bytes"
proof unfold_locales
  fix x bs rest :: bytes assume "put_bytes x = Inr bs"
  then show "get_bytes (bs @ rest) = Inr (x, rest)" by (rule byte_string.get_put [OF TrueI])
next
  fix x :: bytes assume "length x < u32_bound"
  then show "\<exists>bs. put_bytes x = Inr bs" by (simp add: put_bytes_def put_uint_def)
next
  fix bs x rest :: bytes assume "get_bytes bs = Inr (x, rest)"
  then show "length x < u32_bound" by (auto simp: get_bytes_def result_simps get_uint_Inr read_exact_Inr)
qed

text \<open>Two fields in order.\<close>

definition put_pair :: "'a writer \<Rightarrow> 'b writer \<Rightarrow> ('a \<times> 'b) writer" where
  "put_pair p q x = put_fields [p (fst x), q (snd x)]"

definition get_pair :: "'a reader \<Rightarrow> 'b reader \<Rightarrow> ('a \<times> 'b) reader" where
  "get_pair g h bs = rbind (g bs) (\<lambda>(x, bs). rbind (h bs) (\<lambda>(y, bs). Inr ((x, y), bs)))"

lemma pair_codec:
  assumes "codec ok1 p g" "codec ok2 q h"
  shows "codec (\<lambda>(x, y). ok1 x \<and> ok2 y) (put_pair p q) (get_pair g h)"
proof -
  from assms have c1: "reads_back ok1 p g" "\<And>x. ok1 x \<Longrightarrow> \<exists>bs. p x = Inr bs" "\<And>bs x r. g bs = Inr (x, r) \<Longrightarrow> ok1 x"
    and c2: "reads_back ok2 q h" "\<And>x. ok2 x \<Longrightarrow> \<exists>bs. q x = Inr bs" "\<And>bs x r. h bs = Inr (x, r) \<Longrightarrow> ok2 x"
    unfolding codec_def codec_axioms_def by blast+
  show ?thesis
  proof unfold_locales
    fix x bs rest assume "case x of (x, y) \<Rightarrow> ok1 x \<and> ok2 y" "put_pair p q x = Inr bs"
    then obtain b c where "ok1 (fst x)" "ok2 (snd x)" "p (fst x) = Inr b" "q (snd x) = Inr c" "bs = b @ c"
      by (auto simp: put_pair_def split: prod.splits)
    with reads_back.get_put [OF c1(1)] reads_back.get_put [OF c2(1)]
    show "get_pair g h (bs @ rest) = Inr (x, rest)" by (simp add: get_pair_def)
  next
    fix x assume "case x of (x, y) \<Rightarrow> ok1 x \<and> ok2 y"
    then obtain b c where "p (fst x) = Inr b" "q (snd x) = Inr c"
      using c1(2) [of "fst x"] c2(2) [of "snd x"] by (auto split: prod.splits)
    then show "\<exists>bs. put_pair p q x = Inr bs" by (simp add: put_pair_def)
  next
    fix bs x rest assume "get_pair g h bs = Inr (x, rest)"
    with c1(3) c2(3) show "case x of (x, y) \<Rightarrow> ok1 x \<and> ok2 y" by (auto simp: get_pair_def result_simps)
  qed
qed

section \<open>The proof library\<close>

record ('pt, 'pf) wire_lib =
  wl_hash :: "bytes \<Rightarrow> bytes"
  wl_points :: "'pt point_codec"
  wl_put_shuffle :: "'pf writer"
  wl_get_shuffle :: "'pf reader"
  wl_put_leave :: "'pf writer"
  wl_get_leave :: "'pf reader"
  wl_put_reveal :: "'pf writer"
  wl_get_reveal :: "'pf reader"
  wl_put_statement :: "'pt reconstruction_statement writer"
  wl_get_statement :: "'pt reconstruction_statement reader"
  wl_put_reconstruct :: "'pf writer"
  wl_get_reconstruct :: "'pf reader"
  wl_owns :: "bytes \<Rightarrow> 'pt \<Rightarrow> bool"
  wl_verify_shuffle :: "'pf \<Rightarrow> 'pt ciphertext list \<Rightarrow> 'pt ciphertext list \<Rightarrow> 'pt \<Rightarrow> bool"
  wl_verify_leave :: "'pf \<Rightarrow> 'pt ciphertext list \<Rightarrow> 'pt ciphertext list \<Rightarrow> 'pt \<Rightarrow> bool"
  wl_verify_reveal :: "'pf \<Rightarrow> 'pt token_proof"
  wl_verify_reconstruct :: "'pf \<Rightarrow> 'pt reconstruction_statement \<Rightarrow> bool"

text \<open>What the dispatcher relies on: what the library decodes it can encode again, with the same meaning.\<close>

definition rewritable :: "'a writer \<Rightarrow> 'a reader \<Rightarrow> bool" where
  "rewritable p g \<longleftrightarrow> (\<exists>ok. codec ok p g)"

definition lawful_wire :: "('pt, 'pf) wire_lib \<Rightarrow> bool" where
  "lawful_wire W \<longleftrightarrow>
     rewritable (pc_put_point (wl_points W)) (pc_get_point (wl_points W)) \<and>
     rewritable (pc_put_ct (wl_points W)) (pc_get_ct (wl_points W)) \<and>
     rewritable (wl_put_shuffle W) (wl_get_shuffle W) \<and> rewritable (wl_put_leave W) (wl_get_leave W) \<and>
     rewritable (wl_put_reveal W) (wl_get_reveal W) \<and> rewritable (wl_put_statement W) (wl_get_statement W) \<and>
     rewritable (wl_put_reconstruct W) (wl_get_reconstruct W)"

section \<open>Argument structs\<close>

definition put_tagged :: "tagged_pubkey writer" where
  "put_tagged k = put_fields [put_u8 (unat (tp_tag k)), put_bytes (tp_raw k)]"

definition get_tagged :: "tagged_pubkey reader" where
  "get_tagged bs = rbind (get_u8 bs) (\<lambda>(tag, bs). rbind (get_bytes bs) (\<lambda>(raw, bs).
     Inr (\<lparr>tp_tag = word_of_nat tag, tp_raw = raw\<rparr>, bs)))"

definition get_create_table_args :: "(nat \<times> nat \<times> nat \<times> nat) reader" where
  "get_create_table_args = get_pair get_u8 (get_pair get_u64 (get_pair get_u64 get_u8))"

text \<open>The payloads without the actor.\<close>

definition put_canonical_join :: "('pt, 'pf) wire_lib \<Rightarrow> (nat \<times> 'pt \<times> tagged_pubkey \<times> bytes) writer" where
  "put_canonical_join W = put_pair put_u64 (put_pair (pc_put_point (wl_points W)) (put_pair put_tagged put_bytes))"

definition get_canonical_join :: "('pt, 'pf) wire_lib \<Rightarrow> (nat \<times> 'pt \<times> tagged_pubkey \<times> bytes) reader" where
  "get_canonical_join W = get_pair get_u64 (get_pair (pc_get_point (wl_points W)) (get_pair get_tagged get_bytes))"

definition put_canonical_set_leave :: "bool writer" where "put_canonical_set_leave = put_bool"
definition get_canonical_set_leave :: "bool reader" where "get_canonical_set_leave = get_bool"

definition put_canonical_fold_with_proof :: "('pt, 'pf) wire_lib \<Rightarrow> ('pt ciphertext list \<times> 'pf) writer" where
  "put_canonical_fold_with_proof W = put_pair (put_vec (pc_put_ct (wl_points W))) (wl_put_leave W)"
definition get_canonical_fold_with_proof :: "('pt, 'pf) wire_lib \<Rightarrow> ('pt ciphertext list \<times> 'pf) reader" where
  "get_canonical_fold_with_proof W = get_pair (get_vec (pc_get_ct (wl_points W))) (wl_get_leave W)"

definition put_canonical_shuffle :: "('pt, 'pf) wire_lib \<Rightarrow> ('pt ciphertext list \<times> 'pf) writer" where
  "put_canonical_shuffle W = put_pair (put_vec (pc_put_ct (wl_points W))) (wl_put_shuffle W)"
definition get_canonical_shuffle :: "('pt, 'pf) wire_lib \<Rightarrow> ('pt ciphertext list \<times> 'pf) reader" where
  "get_canonical_shuffle W = get_pair (get_vec (pc_get_ct (wl_points W))) (wl_get_shuffle W)"

definition put_canonical_reveal :: "('pt, 'pf) wire_lib \<Rightarrow> ('pt list \<times> 'pf list) writer" where
  "put_canonical_reveal W = put_pair (put_vec (pc_put_point (wl_points W))) (put_vec (wl_put_reveal W))"
definition get_canonical_reveal :: "('pt, 'pf) wire_lib \<Rightarrow> ('pt list \<times> 'pf list) reader" where
  "get_canonical_reveal W = get_pair (get_vec (pc_get_point (wl_points W))) (get_vec (wl_get_reveal W))"

definition put_canonical_reconstruct :: "('pt, 'pf) wire_lib \<Rightarrow> ('pt reconstruction_statement \<times> 'pf) writer" where
  "put_canonical_reconstruct W = put_pair (wl_put_statement W) (wl_put_reconstruct W)"
definition get_canonical_reconstruct :: "('pt, 'pf) wire_lib \<Rightarrow> ('pt reconstruction_statement \<times> 'pf) reader" where
  "get_canonical_reconstruct W = get_pair (wl_get_statement W) (wl_get_reconstruct W)"

definition put_canonical_raise :: "nat writer" where "put_canonical_raise = put_u64"
definition get_canonical_raise :: "nat reader" where "get_canonical_raise = get_u64"
definition put_canonical_amount :: "nat writer" where "put_canonical_amount = put_u64"
definition get_canonical_amount :: "nat reader" where "get_canonical_amount = get_u64"

text \<open>The wire structs: the claimed seat, or the claimed player of a join, in front.\<close>

definition put_seat_args :: "nat writer" where "put_seat_args = put_u8"
definition get_seat_args :: "nat reader" where "get_seat_args = get_u8"

definition put_join_args :: "('pt, 'pf) wire_lib \<Rightarrow> (address \<times> nat \<times> 'pt \<times> tagged_pubkey \<times> bytes) writer" where
  "put_join_args W = put_pair put_address (put_canonical_join W)"
definition get_join_args :: "('pt, 'pf) wire_lib \<Rightarrow> (address \<times> nat \<times> 'pt \<times> tagged_pubkey \<times> bytes) reader" where
  "get_join_args W = get_pair get_address (get_canonical_join W)"

definition put_set_leave_args :: "(nat \<times> bool) writer" where "put_set_leave_args = put_pair put_u8 put_canonical_set_leave"
definition get_set_leave_args :: "(nat \<times> bool) reader" where "get_set_leave_args = get_pair get_u8 get_canonical_set_leave"

definition put_fold_with_proof_args :: "('pt, 'pf) wire_lib \<Rightarrow> (nat \<times> 'pt ciphertext list \<times> 'pf) writer" where
  "put_fold_with_proof_args W = put_pair put_u8 (put_canonical_fold_with_proof W)"
definition get_fold_with_proof_args :: "('pt, 'pf) wire_lib \<Rightarrow> (nat \<times> 'pt ciphertext list \<times> 'pf) reader" where
  "get_fold_with_proof_args W = get_pair get_u8 (get_canonical_fold_with_proof W)"

definition put_shuffle_args :: "('pt, 'pf) wire_lib \<Rightarrow> (nat \<times> 'pt ciphertext list \<times> 'pf) writer" where
  "put_shuffle_args W = put_pair put_u8 (put_canonical_shuffle W)"
definition get_shuffle_args :: "('pt, 'pf) wire_lib \<Rightarrow> (nat \<times> 'pt ciphertext list \<times> 'pf) reader" where
  "get_shuffle_args W = get_pair get_u8 (get_canonical_shuffle W)"

definition put_reveal_args :: "('pt, 'pf) wire_lib \<Rightarrow> (nat \<times> 'pt list \<times> 'pf list) writer" where
  "put_reveal_args W = put_pair put_u8 (put_canonical_reveal W)"
definition get_reveal_args :: "('pt, 'pf) wire_lib \<Rightarrow> (nat \<times> 'pt list \<times> 'pf list) reader" where
  "get_reveal_args W = get_pair get_u8 (get_canonical_reveal W)"

definition put_reconstruct_args :: "('pt, 'pf) wire_lib \<Rightarrow> (nat \<times> 'pt reconstruction_statement \<times> 'pf) writer" where
  "put_reconstruct_args W = put_pair put_u8 (put_canonical_reconstruct W)"
definition get_reconstruct_args :: "('pt, 'pf) wire_lib \<Rightarrow> (nat \<times> 'pt reconstruction_statement \<times> 'pf) reader" where
  "get_reconstruct_args W = get_pair get_u8 (get_canonical_reconstruct W)"

definition put_raise_args :: "(nat \<times> nat) writer" where "put_raise_args = put_pair put_u8 put_canonical_raise"
definition get_raise_args :: "(nat \<times> nat) reader" where "get_raise_args = get_pair get_u8 get_canonical_raise"

text \<open>The same two fields for \<^verbatim>\<open>bet\<close>, \<^verbatim>\<open>addon\<close> and \<^verbatim>\<open>rebuy\<close>.\<close>

definition put_amount_args :: "(nat \<times> nat) writer" where "put_amount_args = put_pair put_u8 put_canonical_amount"
definition get_amount_args :: "(nat \<times> nat) reader" where "get_amount_args = get_pair get_u8 get_canonical_amount"

section \<open>From bytes to a call\<close>

text \<open>
  The first lines of the \<^verbatim>\<open>dispatch_*\<close> functions: decode the arguments, or insist that there are
  none. What a proof shows is the predicate its verification computes.
\<close>

definition decode_args :: "'a reader \<Rightarrow> bytes \<Rightarrow> 'a res" where
  "decode_args g args = (case from_slice g args of
      Inl (Panic m) \<Rightarrow> Inl (Panic m)
    | Inl _ \<Rightarrow> Inl (Serialization ''args borsh'')
    | Inr x \<Rightarrow> Inr x)"

definition no_args :: "bytes \<Rightarrow> unit res" where
  "no_args args = (if args \<noteq> [] then Inl (Serialization ''does not accept arguments'') else Inr ())"

fun decode_call :: "('pt, 'pf) wire_lib \<Rightarrow> canonical_command \<Rightarrow> bytes \<Rightarrow> 'pt call res" where
  "decode_call W CreateTable args =
     rbind (decode_args get_create_table_args args) (\<lambda>(mp, sb, bb, rit). Inr (CallCreateTable mp sb bb rit))"
| "decode_call W JoinTable args =
     rbind (decode_args (get_join_args W) args) (\<lambda>(player, buy_in, pk, tx_pk, proof).
       Inr (CallJoinTable player buy_in pk tx_pk (wl_owns W proof)))"
| "decode_call W LeaveTable args = rbind (decode_args get_seat_args args) (\<lambda>i. Inr (CallLeaveTable i))"
| "decode_call W StartHand args = rbind (no_args args) (\<lambda>_. Inr CallStartHand)"
| "decode_call W AdvanceDeadline args = rbind (no_args args) (\<lambda>_. Inr CallAdvanceDeadline)"
| "decode_call W ForceFold args = rbind (decode_args get_seat_args args) (\<lambda>i. Inr (CallForceFold i))"
| "decode_call W KickPlayer args = rbind (decode_args get_seat_args args) (\<lambda>i. Inr (CallKickPlayer i))"
| "decode_call W SubmitShuffleV2 args =
     rbind (decode_args (get_shuffle_args W) args) (\<lambda>(i, cards, proof).
       Inr (CallSubmitShuffleV2 i cards (wl_verify_shuffle W proof)))"
| "decode_call W SubmitPlayerRevealTokens args =
     rbind (decode_args (get_reveal_args W) args) (\<lambda>(i, tokens, proofs).
       Inr (CallSubmitPlayerRevealTokens i tokens (map (wl_verify_reveal W) proofs)))"
| "decode_call W SubmitReconstructDeck args =
     rbind (decode_args (get_reconstruct_args W) args) (\<lambda>(i, st, proof).
       Inr (CallSubmitReconstructDeck i st (wl_verify_reconstruct W proof)))"
| "decode_call W CFold args = rbind (decode_args get_seat_args args) (\<lambda>i. Inr (CallFold i))"
| "decode_call W CCheck args = rbind (decode_args get_seat_args args) (\<lambda>i. Inr (CallCheck i))"
| "decode_call W CCall args = rbind (decode_args get_seat_args args) (\<lambda>i. Inr (CallCall i))"
| "decode_call W CRaise args = rbind (decode_args get_raise_args args) (\<lambda>(i, n). Inr (CallRaise i n))"
| "decode_call W CBet args = rbind (decode_args get_amount_args args) (\<lambda>(i, n). Inr (CallBet i n))"
| "decode_call W Addon args = rbind (decode_args get_amount_args args) (\<lambda>(i, n). Inr (CallAddon i n))"
| "decode_call W Rebuy args = rbind (decode_args get_amount_args args) (\<lambda>(i, n). Inr (CallRebuy i n))"
| "decode_call W SetLeaveAfterHand args =
     rbind (decode_args get_set_leave_args args) (\<lambda>(i, want). Inr (CallSetLeaveAfterHand i want))"
| "decode_call W FoldWithProof args =
     rbind (decode_args (get_fold_with_proof_args W) args) (\<lambda>(i, cards, proof).
       Inr (CallFoldWithProof i cards (wl_verify_leave W proof)))"

section \<open>Every struct has a lawful codec\<close>

lemma tagged_codec: "codec (\<lambda>k. length (tp_raw k) < u32_bound) put_tagged get_tagged"
proof unfold_locales
  fix k bs rest assume k: "length (tp_raw k) < u32_bound" and "put_tagged k = Inr bs"
  then obtain b where "put_bytes (tp_raw k) = Inr b" "bs = word_of_nat (unat (tp_tag k) mod 256) # b"
    by (auto simp: put_tagged_def)
  with byte_string.get_put [OF TrueI this(1)] show "get_tagged (bs @ rest) = Inr (k, rest)"
    using tag_range [of "tp_tag k"] by (simp add: get_tagged_def)
next
  fix k :: tagged_pubkey assume "length (tp_raw k) < u32_bound"
  then show "\<exists>bs. put_tagged k = Inr bs" by (simp add: put_tagged_def put_bytes_def put_uint_def)
next
  fix bs k rest assume "get_tagged bs = Inr (k, rest)"
  then show "length (tp_raw k) < u32_bound"
    using codec.ranged [OF bytes_codec] by (auto simp: get_tagged_def result_simps)
qed

lemma address_codec: "codec (\<lambda>a. length a = 20) put_address get_address"
  unfolding put_address_def get_address_def by (rule array_codec)

text \<open>The laws at work on the scalars and on keys.\<close>

interpretation uint: codec "\<lambda>n. n < 256 ^ k" "put_uint k" "get_uint k" for k
  by (rule uint_codec)

interpretation tagged: codec "\<lambda>k. length (tp_raw k) < u32_bound" put_tagged get_tagged
  by (rule tagged_codec)

end
