(* ===== verification/Poker_Wire.thy ===== *)
theory Poker_Wire
  imports Poker_Args
begin

text \<open>
  The dispatcher on bytes (\<^verbatim>\<open>poker_l1/.../runtime/dispatch.rs\<close>, \<^verbatim>\<open>prove_task.rs\<close>): selectors,
  the canonical payload a proof task keeps of a call, its replay from the authenticated context,
  the message a player signs, and the dispatch of raw arguments with its return value.

  The central fact is that nothing is lost: the payload of a task, replayed against the table the
  call ran on, decodes to the call that ran.
\<close>

section \<open>Selectors\<close>

definition commands :: "canonical_command list" where
  "commands = [CreateTable, JoinTable, LeaveTable, StartHand, AdvanceDeadline, CFold, CCheck, CCall, CRaise, ForceFold,
     KickPlayer, Addon, Rebuy, SubmitShuffleV2, SubmitPlayerRevealTokens, SubmitReconstructDeck, CBet,
     SetLeaveAfterHand, FoldWithProof]"

fun method_name :: "canonical_command \<Rightarrow> string" where
  "method_name CreateTable = ''create_table''" | "method_name JoinTable = ''join_table''"
| "method_name LeaveTable = ''leave_table''" | "method_name StartHand = ''start_hand''"
| "method_name AdvanceDeadline = ''advance_deadline''" | "method_name CFold = ''fold''"
| "method_name CCheck = ''check''" | "method_name CCall = ''call''" | "method_name CRaise = ''raise''"
| "method_name ForceFold = ''force_fold''" | "method_name KickPlayer = ''kick_player''"
| "method_name Addon = ''addon''" | "method_name Rebuy = ''rebuy''"
| "method_name SubmitShuffleV2 = ''submit_shuffle_v2''"
| "method_name SubmitPlayerRevealTokens = ''submit_player_reveal_tokens''"
| "method_name SubmitReconstructDeck = ''submit_reconstruct_deck''" | "method_name CBet = ''bet''"
| "method_name SetLeaveAfterHand = ''set_leave_after_hand''" | "method_name FoldWithProof = ''fold_with_proof''"

text \<open>The selector of a removal hashes another name than the diagnostic one.\<close>

definition selector_name :: "canonical_command \<Rightarrow> string" where
  "selector_name c = (if c = KickPlayer then ''kick_player_v2'' else method_name c)"

definition compute_method_selector :: "(bytes \<Rightarrow> bytes) \<Rightarrow> string \<Rightarrow> bytes" where
  "compute_method_selector H name = H (text_bytes name)"

definition selector :: "(bytes \<Rightarrow> bytes) \<Rightarrow> canonical_command \<Rightarrow> bytes" where
  "selector H c = compute_method_selector H (selector_name c)"

text \<open>The chains of comparisons are searches in the order of the source, which differs between the two.\<close>

definition from_selector :: "(bytes \<Rightarrow> bytes) \<Rightarrow> bytes \<Rightarrow> canonical_command option" where
  "from_selector H s = find (\<lambda>c. s = selector H c) commands"

definition build_order :: "canonical_command list" where
  "build_order = [CreateTable, JoinTable, LeaveTable, StartHand, AdvanceDeadline, ForceFold, KickPlayer, SubmitShuffleV2,
     SubmitPlayerRevealTokens, SubmitReconstructDeck, CFold, CCheck, CCall, CRaise, CBet, Addon, Rebuy,
     SetLeaveAfterHand, FoldWithProof]"

section \<open>The typed view of a command\<close>

datatype method_input =
    SeatOnly nat
  | InRaise nat nat
  | InBet nat nat
  | Funds nat nat
  | Kick nat
  | Join address nat
  | InCreateTable nat nat nat nat
  | InShuffle nat
  | InReveal nat
  | InReconstruct nat
  | InSetLeave nat bool
  | InFoldWithProof nat
  | Empty

fun method_input_of :: "('pt, 'pf) wire_lib \<Rightarrow> canonical_command \<Rightarrow> bytes \<Rightarrow> method_input res" where
  "method_input_of W CreateTable args =
     rbind (decode_args get_create_table_args args) (\<lambda>(mp, sb, bb, rit). Inr (InCreateTable mp sb bb rit))"
| "method_input_of W JoinTable args = rbind (decode_args (get_join_args W) args) (\<lambda>(player, buy_in, _). Inr (Join player buy_in))"
| "method_input_of W LeaveTable args = rbind (decode_args get_seat_args args) (\<lambda>i. Inr (SeatOnly i))"
| "method_input_of W StartHand args = Inr Empty"
| "method_input_of W AdvanceDeadline args = rbind (no_args args) (\<lambda>_. Inr Empty)"
| "method_input_of W ForceFold args = rbind (decode_args get_seat_args args) (\<lambda>i. Inr (SeatOnly i))"
| "method_input_of W KickPlayer args = rbind (decode_args get_seat_args args) (\<lambda>i. Inr (Kick i))"
| "method_input_of W SubmitShuffleV2 args = rbind (decode_args (get_shuffle_args W) args) (\<lambda>(i, _). Inr (InShuffle i))"
| "method_input_of W SubmitPlayerRevealTokens args = rbind (decode_args (get_reveal_args W) args) (\<lambda>(i, _). Inr (InReveal i))"
| "method_input_of W SubmitReconstructDeck args = rbind (decode_args (get_reconstruct_args W) args) (\<lambda>(i, _). Inr (InReconstruct i))"
| "method_input_of W CFold args = rbind (decode_args get_seat_args args) (\<lambda>i. Inr (SeatOnly i))"
| "method_input_of W CCheck args = rbind (decode_args get_seat_args args) (\<lambda>i. Inr (SeatOnly i))"
| "method_input_of W CCall args = rbind (decode_args get_seat_args args) (\<lambda>i. Inr (SeatOnly i))"
| "method_input_of W CRaise args = rbind (decode_args get_raise_args args) (\<lambda>(i, n). Inr (InRaise i n))"
| "method_input_of W CBet args = rbind (decode_args get_amount_args args) (\<lambda>(i, n). Inr (InBet i n))"
| "method_input_of W Addon args = rbind (decode_args get_amount_args args) (\<lambda>(i, n). Inr (Funds i n))"
| "method_input_of W Rebuy args = rbind (decode_args get_amount_args args) (\<lambda>(i, n). Inr (Funds i n))"
| "method_input_of W SetLeaveAfterHand args = rbind (decode_args get_set_leave_args args) (\<lambda>(i, want). Inr (InSetLeave i want))"
| "method_input_of W FoldWithProof args = rbind (decode_args (get_fold_with_proof_args W) args) (\<lambda>(i, _). Inr (InFoldWithProof i))"

definition build_method_input :: "('pt, 'pf) wire_lib \<Rightarrow> bytes \<Rightarrow> bytes \<Rightarrow> (nat \<times> method_input) res" where
  "build_method_input W s args = (case find (\<lambda>c. s = selector (wl_hash W) c) build_order of
      None \<Rightarrow> Inl (UnknownContractMethod s)
    | Some c \<Rightarrow> rbind (method_input_of W c args) (\<lambda>input. Inr (command_to_u8 c, input)))"

definition actor_less :: "canonical_command list" where
  "actor_less = [JoinTable, LeaveTable, CFold, CCheck, CCall, CRaise, CBet, Addon, Rebuy, SetLeaveAfterHand]"

definition derive_method_input :: "('pt, 'pf) wire_lib \<Rightarrow> nat \<Rightarrow> bytes \<Rightarrow> method_input res" where
  "derive_method_input W tag canonical_args =
     rbind (ok_or (command_from_u8 tag) (Serialization ''unknown canonical Texas command tag'')) (\<lambda>command.
     if command \<in> set actor_less
     then Inl (Serialization ''canonical input requires authenticated context and pre-state'')
     else rbind (build_method_input W (selector (wl_hash W) command) canonical_args) (\<lambda>(derived_tag, input).
       if derived_tag \<noteq> tag then Inl (Serialization ''canonical Texas command tag mismatch'') else Inr input))"

definition require_empty_canonical_payload :: "bytes \<Rightarrow> unit res" where
  "require_empty_canonical_payload payload =
     (if payload = [] then Inr () else Inl (Serialization ''canonical payload must be empty''))"

definition derive_authenticated_method_input ::
    "('pt, 'pf) wire_lib \<Rightarrow> nat \<Rightarrow> bytes \<Rightarrow> dispatch_context \<Rightarrow> 'pt table \<Rightarrow> method_input res" where
  "derive_authenticated_method_input W tag canonical_args ctx pre =
     rbind (ok_or (command_from_u8 tag) (Serialization ''unknown canonical Texas command tag'')) (\<lambda>command.
     let caller_seat = authenticated_caller_seat ctx pre in
     (case command of
        JoinTable \<Rightarrow> rbind (decode_args (get_canonical_join W) canonical_args) (\<lambda>(buy_in, _). Inr (Join (dc_caller ctx) buy_in))
      | LeaveTable \<Rightarrow> rbind (require_empty_canonical_payload canonical_args) (\<lambda>_. rbind caller_seat (\<lambda>i. Inr (SeatOnly i)))
      | CFold \<Rightarrow> rbind (require_empty_canonical_payload canonical_args) (\<lambda>_. rbind caller_seat (\<lambda>i. Inr (SeatOnly i)))
      | CCheck \<Rightarrow> rbind (require_empty_canonical_payload canonical_args) (\<lambda>_. rbind caller_seat (\<lambda>i. Inr (SeatOnly i)))
      | CCall \<Rightarrow> rbind (require_empty_canonical_payload canonical_args) (\<lambda>_. rbind caller_seat (\<lambda>i. Inr (SeatOnly i)))
      | CRaise \<Rightarrow> rbind (decode_args get_canonical_raise canonical_args) (\<lambda>n. rbind caller_seat (\<lambda>i. Inr (InRaise i n)))
      | CBet \<Rightarrow> rbind (decode_args get_canonical_amount canonical_args) (\<lambda>n. rbind caller_seat (\<lambda>i. Inr (InBet i n)))
      | Addon \<Rightarrow> rbind (decode_args get_canonical_amount canonical_args) (\<lambda>n. rbind caller_seat (\<lambda>i. Inr (Funds i n)))
      | Rebuy \<Rightarrow> rbind (decode_args get_canonical_amount canonical_args) (\<lambda>n. rbind caller_seat (\<lambda>i. Inr (Funds i n)))
      | SetLeaveAfterHand \<Rightarrow>
          rbind (decode_args get_canonical_set_leave canonical_args) (\<lambda>want. rbind caller_seat (\<lambda>i. Inr (InSetLeave i want)))
      | KickPlayer \<Rightarrow> rbind (decode_args get_seat_args canonical_args) (\<lambda>i. Inr (Kick i))
      | FoldWithProof \<Rightarrow>
          rbind (decode_args (get_canonical_fold_with_proof W) canonical_args) (\<lambda>_. rbind caller_seat (\<lambda>i. Inr (InFoldWithProof i)))
      | SubmitShuffleV2 \<Rightarrow>
          rbind (decode_args (get_canonical_shuffle W) canonical_args) (\<lambda>_. rbind caller_seat (\<lambda>i. Inr (InShuffle i)))
      | SubmitPlayerRevealTokens \<Rightarrow>
          rbind (decode_args (get_canonical_reveal W) canonical_args) (\<lambda>_. rbind caller_seat (\<lambda>i. Inr (InReveal i)))
      | SubmitReconstructDeck \<Rightarrow>
          rbind (decode_args (get_canonical_reconstruct W) canonical_args) (\<lambda>_. rbind caller_seat (\<lambda>i. Inr (InReconstruct i)))
      | _ \<Rightarrow> derive_method_input W tag canonical_args))"

section \<open>The canonical payload and its replay\<close>

fun canonical_payload :: "('pt, 'pf) wire_lib \<Rightarrow> canonical_command \<Rightarrow> bytes \<Rightarrow> bytes res" where
  "canonical_payload W AdvanceDeadline args = Inr []"
| "canonical_payload W JoinTable args = rbind (decode_args (get_join_args W) args) (\<lambda>(_, x). put_canonical_join W x)"
| "canonical_payload W FoldWithProof args =
     rbind (decode_args (get_fold_with_proof_args W) args) (\<lambda>(_, x). put_canonical_fold_with_proof W x)"
| "canonical_payload W SubmitShuffleV2 args = rbind (decode_args (get_shuffle_args W) args) (\<lambda>(_, x). put_canonical_shuffle W x)"
| "canonical_payload W SubmitPlayerRevealTokens args =
     rbind (decode_args (get_reveal_args W) args) (\<lambda>(_, x). put_canonical_reveal W x)"
| "canonical_payload W SubmitReconstructDeck args =
     rbind (decode_args (get_reconstruct_args W) args) (\<lambda>(_, x). put_canonical_reconstruct W x)"
| "canonical_payload W LeaveTable args = rbind (decode_args get_seat_args args) (\<lambda>_. Inr [])"
| "canonical_payload W CFold args = rbind (decode_args get_seat_args args) (\<lambda>_. Inr [])"
| "canonical_payload W CCheck args = rbind (decode_args get_seat_args args) (\<lambda>_. Inr [])"
| "canonical_payload W CCall args = rbind (decode_args get_seat_args args) (\<lambda>_. Inr [])"
| "canonical_payload W SetLeaveAfterHand args = rbind (decode_args get_set_leave_args args) (\<lambda>(_, x). put_canonical_set_leave x)"
| "canonical_payload W CRaise args = rbind (decode_args get_raise_args args) (\<lambda>(_, x). put_canonical_raise x)"
| "canonical_payload W CBet args = rbind (decode_args get_amount_args args) (\<lambda>(_, x). put_canonical_amount x)"
| "canonical_payload W Addon args = rbind (decode_args get_amount_args args) (\<lambda>(_, x). put_canonical_amount x)"
| "canonical_payload W Rebuy args = rbind (decode_args get_amount_args args) (\<lambda>(_, x). put_canonical_amount x)"
| "canonical_payload W KickPlayer args = rbind (decode_args get_seat_args args) put_seat_args"
| "canonical_payload W _ args = Inr args"

definition canonical_command_parts :: "('pt, 'pf) wire_lib \<Rightarrow> bytes \<Rightarrow> bytes \<Rightarrow> (nat \<times> bytes) res" where
  "canonical_command_parts W s args =
     rbind (ok_or (from_selector (wl_hash W) s) (UnknownContractMethod s)) (\<lambda>command.
     rbind (build_method_input W s args) (\<lambda>(derived_tag, _).
     if derived_tag \<noteq> command_to_u8 command then Inl (Serialization ''Texas command selector/tag mismatch'')
     else rbind (canonical_payload W command args) (\<lambda>payload. Inr (derived_tag, payload))))"

definition replay_args ::
    "('pt, 'pf) wire_lib \<Rightarrow> canonical_command \<Rightarrow> method_input \<Rightarrow> bytes \<Rightarrow> bytes res" where
  "replay_args W command input payload = (case (command, input) of
      (JoinTable, Join player buy_in) \<Rightarrow>
        rbind (decode_args (get_canonical_join W) payload) (\<lambda>(_, x). put_join_args W (player, buy_in, x))
    | (KickPlayer, Kick i) \<Rightarrow> put_seat_args i
    | (FoldWithProof, InFoldWithProof i) \<Rightarrow>
        rbind (decode_args (get_canonical_fold_with_proof W) payload) (\<lambda>x. put_fold_with_proof_args W (i, x))
    | (SubmitShuffleV2, InShuffle i) \<Rightarrow>
        rbind (decode_args (get_canonical_shuffle W) payload) (\<lambda>x. put_shuffle_args W (i, x))
    | (SubmitPlayerRevealTokens, InReveal i) \<Rightarrow>
        rbind (decode_args (get_canonical_reveal W) payload) (\<lambda>x. put_reveal_args W (i, x))
    | (SubmitReconstructDeck, InReconstruct i) \<Rightarrow>
        rbind (decode_args (get_canonical_reconstruct W) payload) (\<lambda>x. put_reconstruct_args W (i, x))
    | (LeaveTable, SeatOnly i) \<Rightarrow> put_seat_args i
    | (CFold, SeatOnly i) \<Rightarrow> put_seat_args i
    | (CCheck, SeatOnly i) \<Rightarrow> put_seat_args i
    | (CCall, SeatOnly i) \<Rightarrow> put_seat_args i
    | (CRaise, InRaise i n) \<Rightarrow> put_raise_args (i, n)
    | (CBet, InBet i n) \<Rightarrow> put_amount_args (i, n)
    | (Addon, Funds i n) \<Rightarrow> put_amount_args (i, n)
    | (Rebuy, Funds i n) \<Rightarrow> put_amount_args (i, n)
    | (SetLeaveAfterHand, InSetLeave i want) \<Rightarrow> put_set_leave_args (i, want)
    | _ \<Rightarrow> Inr payload)"

definition replay_dispatch_args ::
    "('pt, 'pf) wire_lib \<Rightarrow> nat \<Rightarrow> bytes \<Rightarrow> dispatch_context \<Rightarrow> 'pt table \<Rightarrow> bytes res" where
  "replay_dispatch_args W tag payload ctx pre =
     rbind (ok_or (command_from_u8 tag) (Serialization ''unknown canonical Texas command tag'')) (\<lambda>command.
     rbind (derive_authenticated_method_input W tag payload ctx pre) (\<lambda>input. replay_args W command input payload))"

section \<open>Selectors name commands\<close>

lemma commands_all: "c \<in> set commands" "c \<in> set build_order"
  by (cases c; simp add: commands_def build_order_def)+

lemma distinct_names: "inj selector_name"
proof (rule injI)
  fix a b assume "selector_name a = selector_name b"
  then show "a = b" by (cases a; cases b) (simp_all add: selector_name_def)
qed

lemma byte_of_char_inj: "(of_char a :: 8 word) = of_char b \<Longrightarrow> a = b"
proof -
  assume "(of_char a :: 8 word) = of_char b"
  then have "unat (of_nat (of_char a) :: 8 word) = unat (of_nat (of_char b) :: 8 word)" by (simp add: of_nat_of_char)
  then have "(of_char a :: nat) = of_char b" using nat_of_char_less_256 [of a] nat_of_char_less_256 [of b] by (simp add: unat_of_nat)
  then show "a = b" by simp
qed

lemma text_bytes_inj: "text_bytes a = text_bytes b \<Longrightarrow> a = b"
  unfolding text_bytes_def by (rule map_injective) (auto intro!: injI byte_of_char_inj)

definition selectors_apart :: "(bytes \<Rightarrow> bytes) \<Rightarrow> bool" where
  "selectors_apart H \<longleftrightarrow> inj_on H (text_bytes ` selector_name ` UNIV)"

lemma selector_inj: "selectors_apart H \<Longrightarrow> selector H a = selector H b \<longleftrightarrow> a = b"
  unfolding selectors_apart_def selector_def compute_method_selector_def
  using inj_onD text_bytes_inj injD [OF distinct_names] by (metis imageI UNIV_I)

lemma find_selector:
  assumes "selectors_apart H" "c \<in> set cs"
  shows "find (\<lambda>d. selector H c = selector H d) cs = Some c"
  using assms(2) by (induction cs) (auto simp: selector_inj [OF assms(1)])

lemma from_selector_selector: "selectors_apart H \<Longrightarrow> from_selector H (selector H c) = Some c"
  by (simp add: from_selector_def find_selector commands_all)

lemma build_selector:
  "selectors_apart (wl_hash W) \<Longrightarrow> build_method_input W (selector (wl_hash W) c) args =
     rbind (method_input_of W c args) (\<lambda>input. Inr (command_to_u8 c, input))"
  by (simp add: build_method_input_def find_selector commands_all)

lemma from_selector_Some: "from_selector H s = Some c \<Longrightarrow> s = selector H c"
  by (auto simp: from_selector_def find_Some_iff)

lemma tag_of_command: "command_from_u8 (command_to_u8 c) = Some c"
  by (cases c) (simp_all add: command_from_u8_def)

section \<open>The replay\<close>

lemma decode_args_Inr: "decode_args g args = Inr x \<longleftrightarrow> from_slice g args = Inr x"
  by (auto simp: decode_args_def split: sum.split poker_error.split)

text \<open>A struct with the actor in front splits into the actor and the canonical payload, and back.\<close>

lemma struct_split:
  assumes "codec ok1 p g" "codec ok2 q h" "decode_args (get_pair g h) args = Inr (i, x)"
  shows "(\<exists>b. q x = Inr b \<and> decode_args h b = Inr x) \<and>
    (\<exists>b. put_pair p q (i, x) = Inr b \<and> decode_args (get_pair g h) b = Inr (i, x))"
proof -
  note pc = pair_codec [OF assms(1,2)]
  from assms(3) obtain r where "get_pair g h args = Inr ((i, x), r)"
    by (auto simp: decode_args_Inr from_slice_def result_simps split: if_splits)
  then obtain r1 r2 where "h r1 = Inr (x, r2)" by (auto simp: get_pair_def result_simps)
  then have "ok2 x" by (rule codec.ranged [OF assms(2)])
  moreover from codec.written [OF assms(2) this] obtain b where "q x = Inr b" by blast
  ultimately have "q x = Inr b \<and> decode_args h b = Inr x"
    using reads_back.from_slice_put [OF codec.axioms(1) [OF assms(2)]] by (simp add: decode_args_Inr)
  moreover obtain c where "put_pair p q (i, x) = Inr c" "decode_args (get_pair g h) c = Inr (i, x)"
    using codec.rewrite [OF pc] assms(3) unfolding decode_args_Inr by blast
  ultimately show ?thesis by blast
qed

lemma one_split:
  assumes "codec ok p g" "decode_args g args = Inr x"
  shows "\<exists>b. p x = Inr b \<and> decode_args g b = Inr x"
  using codec.rewrite [OF assms(1)] assms(2) unfolding decode_args_Inr by blast

lemma u8_codec: "codec (\<lambda>n. n < 256) put_u8 get_u8"
  using uint_codec [of 1] by simp

lemmas u64_codec = uint_codec [of 8]

lemma rewritable_pair: "rewritable p g \<Longrightarrow> rewritable q h \<Longrightarrow> rewritable (put_pair p q) (get_pair g h)"
  unfolding rewritable_def by (blast intro: pair_codec)

lemma rewritable_vec: "rewritable p g \<Longrightarrow> rewritable (put_vec p) (get_vec g)"
  unfolding rewritable_def by (blast intro: codec.vec_codec)

lemma rewritable_known:
  "rewritable put_u8 get_u8" "rewritable put_u64 get_u64" "rewritable put_bool get_bool" "rewritable put_bytes get_bytes"
  "rewritable put_tagged get_tagged" "rewritable put_address get_address"
  unfolding rewritable_def by (blast intro: u8_codec u64_codec bool_codec bytes_codec tagged_codec address_codec)+

lemma rewritable_library:
  assumes "lawful_wire W"
  shows "rewritable (pc_put_point (wl_points W)) (pc_get_point (wl_points W))" "rewritable (pc_put_ct (wl_points W)) (pc_get_ct (wl_points W))"
    "rewritable (wl_put_shuffle W) (wl_get_shuffle W)" "rewritable (wl_put_leave W) (wl_get_leave W)"
    "rewritable (wl_put_reveal W) (wl_get_reveal W)" "rewritable (wl_put_statement W) (wl_get_statement W)"
    "rewritable (wl_put_reconstruct W) (wl_get_reconstruct W)"
  using assms unfolding lawful_wire_def by blast+

lemmas rewritable_intros = rewritable_pair rewritable_vec rewritable_known rewritable_library

lemma split_struct:
  assumes "rewritable p g" "rewritable q h" "decode_args (get_pair g h) args = Inr (i, x)"
  obtains b b' where "q x = Inr b" "decode_args h b = Inr x" "put_pair p q (i, x) = Inr b'" "decode_args (get_pair g h) b' = Inr (i, x)"
proof -
  from assms(1,2) obtain ok1 ok2 where "codec ok1 p g" "codec ok2 q h" unfolding rewritable_def by blast
  from struct_split [OF this assms(3)] show ?thesis using that by blast
qed

lemma canonical_rewritable:
  assumes "lawful_wire W"
  shows "rewritable (put_canonical_join W) (get_canonical_join W)"
    "rewritable (put_canonical_fold_with_proof W) (get_canonical_fold_with_proof W)"
    "rewritable (put_canonical_shuffle W) (get_canonical_shuffle W)"
    "rewritable (put_canonical_reveal W) (get_canonical_reveal W)"
    "rewritable (put_canonical_reconstruct W) (get_canonical_reconstruct W)"
  unfolding put_canonical_join_def get_canonical_join_def put_canonical_fold_with_proof_def get_canonical_fold_with_proof_def
    put_canonical_shuffle_def get_canonical_shuffle_def put_canonical_reveal_def get_canonical_reveal_def
    put_canonical_reconstruct_def get_canonical_reconstruct_def
  using assms by (intro rewritable_intros; assumption)+

text \<open>Who a call claims to act for, and that a call that runs has claimed it rightly.\<close>

fun rightly_claimed :: "dispatch_context \<Rightarrow> 'pt table \<Rightarrow> 'pt call \<Rightarrow> bool" where
  "rightly_claimed ctx t (CallCreateTable mp sb bb rit) = True"
| "rightly_claimed ctx t CallStartHand = True"
| "rightly_claimed ctx t CallAdvanceDeadline = True"
| "rightly_claimed ctx t (CallForceFold i) = True"
| "rightly_claimed ctx t (CallKickPlayer i) = True"
| "rightly_claimed ctx t (CallJoinTable player buy_in pk tx_pk owns) = (player = dc_caller ctx)"
| "rightly_claimed ctx t (CallLeaveTable i) = (authenticated_caller_seat ctx t = Inr i)"
| "rightly_claimed ctx t (CallSubmitShuffleV2 i cts v) = (authenticated_caller_seat ctx t = Inr i)"
| "rightly_claimed ctx t (CallSubmitPlayerRevealTokens i ts ps) = (authenticated_caller_seat ctx t = Inr i)"
| "rightly_claimed ctx t (CallSubmitReconstructDeck i st v) = (authenticated_caller_seat ctx t = Inr i)"
| "rightly_claimed ctx t (CallFold i) = (authenticated_caller_seat ctx t = Inr i)"
| "rightly_claimed ctx t (CallCheck i) = (authenticated_caller_seat ctx t = Inr i)"
| "rightly_claimed ctx t (CallCall i) = (authenticated_caller_seat ctx t = Inr i)"
| "rightly_claimed ctx t (CallRaise i n) = (authenticated_caller_seat ctx t = Inr i)"
| "rightly_claimed ctx t (CallBet i n) = (authenticated_caller_seat ctx t = Inr i)"
| "rightly_claimed ctx t (CallAddon i n) = (authenticated_caller_seat ctx t = Inr i)"
| "rightly_claimed ctx t (CallRebuy i n) = (authenticated_caller_seat ctx t = Inr i)"
| "rightly_claimed ctx t (CallSetLeaveAfterHand i b) = (authenticated_caller_seat ctx t = Inr i)"
| "rightly_claimed ctx t (CallFoldWithProof i cts v) = (authenticated_caller_seat ctx t = Inr i)"

lemma as_player_claim: "as_player ctx i f t es = Inr r \<Longrightarrow> authenticated_caller_seat ctx t = Inr i"
  by (auto simp: as_player_def resolve_caller_seat_def result_simps split: if_splits)

lemma run_call_claim: "run_call C L ctx c t es = Inr r \<Longrightarrow> rightly_claimed ctx t c"
  by (cases c) (auto dest: as_player_claim split: if_splits)

text \<open>Command by command: the payload is written, replayed, and decodes to the same call.\<close>

definition replays :: "('pt, 'pf) wire_lib \<Rightarrow> dispatch_context \<Rightarrow> 'pt table \<Rightarrow> canonical_command \<Rightarrow> bytes \<Rightarrow> 'pt call \<Rightarrow> bool" where
  "replays W ctx t command args c \<longleftrightarrow>
     (\<exists>payload input. canonical_payload W command args = Inr payload \<and>
        derive_authenticated_method_input W (command_to_u8 command) payload ctx t = Inr input \<and>
        (\<exists>args'. replay_args W command input payload = Inr args' \<and> decode_call W command args' = Inr c \<and>
          canonical_payload W command args' = Inr payload))"

lemmas replay_defs = replays_def derive_authenticated_method_input_def replay_args_def ok_or_def Let_def

lemma replays_seat:
  assumes "command \<in> {LeaveTable, CFold, CCheck, CCall}" "decode_call W command args = Inr c" "rightly_claimed ctx t c"
  shows "replays W ctx t command args c"
proof -
  from assms(1,2) obtain i where "decode_args get_seat_args args = Inr i" by (auto simp: result_simps)
  with assms show ?thesis
    using one_split [OF u8_codec, folded put_seat_args_def get_seat_args_def, of args i]
    by (auto simp: replay_defs command_from_u8_def require_empty_canonical_payload_def result_simps)
qed

text \<open>A command whose struct is the actor and a canonical payload.\<close>

lemma replays_struct:
  assumes "rewritable p g" "rewritable q h" "decode_args (get_pair g h) args = Inr (i, x)"
    and "\<And>b. decode_args (get_pair g h) b = Inr (i, x) \<Longrightarrow> canonical_payload W command b = q x"
    and "\<And>b. decode_args h b = Inr x \<Longrightarrow> \<exists>input.
      derive_authenticated_method_input W (command_to_u8 command) b ctx t = Inr input \<and>
      replay_args W command input b = put_pair p q (i, x)"
    and "\<And>b. decode_args (get_pair g h) b = Inr (i, x) \<Longrightarrow> decode_call W command b = Inr c"
  shows "replays W ctx t command args c"
proof -
  from split_struct [OF assms(1-3)] obtain b b' where
    b: "q x = Inr b" "decode_args h b = Inr x" and b': "put_pair p q (i, x) = Inr b'" "decode_args (get_pair g h) b' = Inr (i, x)"
    by blast
  with assms(4) [OF assms(3)] assms(4) [OF b'(2)] assms(5) [OF b(2)] assms(6) [OF b'(2)] show ?thesis unfolding replays_def by auto
qed

lemmas scalar_rewritable = rewritable_known(2) [folded put_canonical_raise_def get_canonical_raise_def]
  rewritable_known(2) [folded put_canonical_amount_def get_canonical_amount_def]
  rewritable_known(3) [folded put_canonical_set_leave_def get_canonical_set_leave_def]

lemma replays_amount:
  assumes "command \<in> {CBet, Addon, Rebuy}" "decode_call W command args = Inr c" "rightly_claimed ctx t c"
  shows "replays W ctx t command args c"
proof -
  from assms(1,2) obtain i x where d: "decode_args get_amount_args args = Inr (i, x)" by (auto simp: result_simps)
  show ?thesis
    by (rule replays_struct [OF rewritable_known(1) scalar_rewritable(2) d [unfolded get_amount_args_def]])
      (use d assms in \<open>auto simp: replay_defs command_from_u8_def put_amount_args_def get_amount_args_def\<close>)
qed

lemma replays_raise:
  assumes "decode_call W CRaise args = Inr c" "rightly_claimed ctx t c"
  shows "replays W ctx t CRaise args c"
proof -
  from assms(1) obtain i x where d: "decode_args (get_raise_args) args = Inr (i, x)" by (auto simp: result_simps)
  show ?thesis
    by (rule replays_struct [OF rewritable_known(1) scalar_rewritable(1) d [unfolded get_raise_args_def]])
      (use d assms in \<open>auto simp: replay_defs command_from_u8_def put_raise_args_def get_raise_args_def split: prod.splits\<close>)
qed

lemma replays_set_leave:
  assumes "decode_call W SetLeaveAfterHand args = Inr c" "rightly_claimed ctx t c"
  shows "replays W ctx t SetLeaveAfterHand args c"
proof -
  from assms(1) obtain i x where d: "decode_args (get_set_leave_args) args = Inr (i, x)" by (auto simp: result_simps)
  show ?thesis
    by (rule replays_struct [OF rewritable_known(1) scalar_rewritable(3) d [unfolded get_set_leave_args_def]])
      (use d assms in \<open>auto simp: replay_defs command_from_u8_def put_set_leave_args_def get_set_leave_args_def split: prod.splits\<close>)
qed

lemma replays_fold_with_proof:
  assumes "lawful_wire W" "decode_call W FoldWithProof args = Inr c" "rightly_claimed ctx t c"
  shows "replays W ctx t FoldWithProof args c"
proof -
  from assms(2) obtain i x where d: "decode_args (get_fold_with_proof_args W) args = Inr (i, x)" by (auto simp: result_simps)
  show ?thesis
    by (rule replays_struct [OF rewritable_known(1) canonical_rewritable(2) [OF assms(1)] d [unfolded get_fold_with_proof_args_def]])
      (use d assms in \<open>auto simp: replay_defs command_from_u8_def put_fold_with_proof_args_def get_fold_with_proof_args_def split: prod.splits\<close>)
qed

lemma replays_shuffle:
  assumes "lawful_wire W" "decode_call W SubmitShuffleV2 args = Inr c" "rightly_claimed ctx t c"
  shows "replays W ctx t SubmitShuffleV2 args c"
proof -
  from assms(2) obtain i x where d: "decode_args (get_shuffle_args W) args = Inr (i, x)" by (auto simp: result_simps)
  show ?thesis
    by (rule replays_struct [OF rewritable_known(1) canonical_rewritable(3) [OF assms(1)] d [unfolded get_shuffle_args_def]])
      (use d assms in \<open>auto simp: replay_defs command_from_u8_def put_shuffle_args_def get_shuffle_args_def split: prod.splits\<close>)
qed

lemma replays_reveal:
  assumes "lawful_wire W" "decode_call W SubmitPlayerRevealTokens args = Inr c" "rightly_claimed ctx t c"
  shows "replays W ctx t SubmitPlayerRevealTokens args c"
proof -
  from assms(2) obtain i x where d: "decode_args (get_reveal_args W) args = Inr (i, x)" by (auto simp: result_simps)
  show ?thesis
    by (rule replays_struct [OF rewritable_known(1) canonical_rewritable(4) [OF assms(1)] d [unfolded get_reveal_args_def]])
      (use d assms in \<open>auto simp: replay_defs command_from_u8_def put_reveal_args_def get_reveal_args_def split: prod.splits\<close>)
qed

lemma replays_reconstruct:
  assumes "lawful_wire W" "decode_call W SubmitReconstructDeck args = Inr c" "rightly_claimed ctx t c"
  shows "replays W ctx t SubmitReconstructDeck args c"
proof -
  from assms(2) obtain i x where d: "decode_args (get_reconstruct_args W) args = Inr (i, x)" by (auto simp: result_simps)
  show ?thesis
    by (rule replays_struct [OF rewritable_known(1) canonical_rewritable(5) [OF assms(1)] d [unfolded get_reconstruct_args_def]])
      (use d assms in \<open>auto simp: replay_defs command_from_u8_def put_reconstruct_args_def get_reconstruct_args_def split: prod.splits\<close>)
qed

lemma replays_join:
  assumes "lawful_wire W" "decode_call W JoinTable args = Inr c" "rightly_claimed ctx t c"
  shows "replays W ctx t JoinTable args c"
proof -
  from assms(2) obtain i x where d: "decode_args (get_join_args W) args = Inr (i, x)" by (auto simp: result_simps)
  show ?thesis
    by (rule replays_struct [OF rewritable_known(6) canonical_rewritable(1) [OF assms(1)] d [unfolded get_join_args_def]])
      (use d assms in \<open>auto simp: replay_defs command_from_u8_def put_join_args_def get_join_args_def split: prod.splits\<close>)
qed

lemma replays_other:
  assumes "command \<in> {CreateTable, StartHand, AdvanceDeadline, ForceFold, KickPlayer}" "selectors_apart (wl_hash W)"
    "decode_call W command args = Inr c"
  shows "replays W ctx t command args c"
proof -
  have "replays W ctx t KickPlayer args c" if "decode_call W KickPlayer args = Inr c"
  proof -
    from that obtain i where d: "decode_args get_seat_args args = Inr i" "c = CallKickPlayer i" by (auto simp: result_simps)
    with one_split [OF u8_codec, folded put_seat_args_def get_seat_args_def, of args i] show ?thesis
      by (auto simp: replay_defs command_from_u8_def)
  qed
  moreover have "replays W ctx t command args c" if "command \<in> {CreateTable, StartHand, AdvanceDeadline, ForceFold}"
    using that assms(2,3)
    by (auto simp: replay_defs command_from_u8_def derive_method_input_def build_selector actor_less_def no_args_def result_simps split: if_splits)
  ultimately show ?thesis using assms(1,3) by auto
qed

lemma replays_all:
  assumes "lawful_wire W" "selectors_apart (wl_hash W)" "decode_call W command args = Inr c" "rightly_claimed ctx t c"
  shows "replays W ctx t command args c"
  using assms replays_seat [of command W args c] replays_amount [of command W args c] replays_raise [of W args c] replays_set_leave [of W args c]
    replays_fold_with_proof [of W args c] replays_shuffle [of W args c] replays_reveal [of W args c] replays_reconstruct [of W args c]
    replays_join [of W args c] replays_other [of command W args c]
  by (cases command) simp_all

section \<open>Proof tasks and the dispatch of bytes\<close>

text \<open>
  The context a runtime hands to the dispatcher, of which the state machine uses the caller and the
  time. The tables of a task travel as bytes; of the return value the model keeps the structure and
  leaves out the concatenation of its fields.
\<close>

record runtime_context = dispatch_context +
  rc_caller_pubkey :: tagged_pubkey
  rc_chain_id :: nat
  rc_block_height :: nat

abbreviation plain :: "runtime_context \<Rightarrow> dispatch_context" where
  "plain ctx \<equiv> dispatch_context.truncate ctx"

record 'tab prove_task =
  pk_method_kind :: nat
  pk_context :: runtime_context
  pk_raw_args :: bytes
  pk_pre_table :: 'tab
  pk_post_table :: 'tab
  pk_table_id :: nat
  pk_hand_id :: nat
  pk_call_seq :: nat

record 'tab dispatch_output =
  out_events :: events
  out_prove_task :: "'tab prove_task option"

definition creation_nonce :: "bytes \<Rightarrow> nat" where
  "creation_nonce i = int_value (drop 20 i)"

definition prove_task_new ::
    "('pt, 'pf) wire_lib \<Rightarrow> nat \<Rightarrow> runtime_context \<Rightarrow> bytes \<Rightarrow> 'pt table \<Rightarrow> 'pt table \<Rightarrow> nat \<Rightarrow> nat \<Rightarrow> nat \<Rightarrow> 'pt table prove_task res" where
  "prove_task_new W kind ctx raw_args pre post table_id hand_id call_seq =
     (case derive_authenticated_method_input W kind raw_args (plain ctx) pre of
        Inl _ \<Rightarrow> Inl (Panic ''ProveTask requires a validated canonical command'')
      | Inr _ \<Rightarrow>
          (case command_from_u8 kind of
             None \<Rightarrow> Inl (Panic ''ProveTask requires a known canonical command tag'')
           | Some _ \<Rightarrow> Inr \<lparr>pk_method_kind = kind, pk_context = ctx, pk_raw_args = raw_args, pk_pre_table = pre, pk_post_table = post,
               pk_table_id = table_id, pk_hand_id = hand_id, pk_call_seq = call_seq\<rparr>))"

definition put_task :: "'pt group_ops \<Rightarrow> ('pt, 'pf) wire_lib \<Rightarrow> 'pt table prove_task \<Rightarrow> bytes prove_task res" where
  "put_task G W task =
     rbind (put_table G (wl_points W) (pk_pre_table task)) (\<lambda>pre.
     rbind (put_table G (wl_points W) (pk_post_table task)) (\<lambda>post.
       Inr \<lparr>pk_method_kind = pk_method_kind task, pk_context = pk_context task, pk_raw_args = pk_raw_args task,
            pk_pre_table = pre, pk_post_table = post, pk_table_id = pk_table_id task, pk_hand_id = pk_hand_id task,
            pk_call_seq = pk_call_seq task\<rparr>))"

definition get_task :: "'pt group_ops \<Rightarrow> ('pt, 'pf) wire_lib \<Rightarrow> bytes prove_task \<Rightarrow> 'pt table prove_task res" where
  "get_task G W task =
     rbind (from_slice (get_table G (wl_points W)) (pk_pre_table task)) (\<lambda>pre.
     rbind (from_slice (get_table G (wl_points W)) (pk_post_table task)) (\<lambda>post.
     rbind (derive_authenticated_method_input W (pk_method_kind task) (pk_raw_args task) (plain (pk_context task)) pre) (\<lambda>_.
     rbind (ok_or (command_from_u8 (pk_method_kind task)) (Serialization ''unknown canonical Texas command tag'')) (\<lambda>_.
       Inr \<lparr>pk_method_kind = pk_method_kind task, pk_context = pk_context task, pk_raw_args = pk_raw_args task,
            pk_pre_table = pre, pk_post_table = post, pk_table_id = pk_table_id task, pk_hand_id = pk_hand_id task,
            pk_call_seq = pk_call_seq task\<rparr>))))"

definition build_dispatch_output ::
    "'pt group_ops \<Rightarrow> ('pt, 'pf) wire_lib \<Rightarrow> runtime_context \<Rightarrow> events \<Rightarrow> bytes \<Rightarrow> bytes \<Rightarrow> 'pt table \<Rightarrow> 'pt table \<Rightarrow> bytes dispatch_output res" where
  "build_dispatch_output G W ctx es s args pre post =
     (if pre = post then Inr \<lparr>out_events = es, out_prove_task = None\<rparr>
      else rbind (canonical_command_parts W s args) (\<lambda>(kind, canonical_args).
      rbind (prove_task_new W kind ctx canonical_args pre post (creation_nonce (t_id post)) (t_hand_id post) (t_call_seq post)) (\<lambda>task.
      rbind (put_task G W task) (\<lambda>task. Inr \<lparr>out_events = es, out_prove_task = Some task\<rparr>))))"

definition dispatch_bytes ::
    "'pt crypto \<Rightarrow> 'pt reconstruction_lib \<Rightarrow> ('pt, 'pf) wire_lib \<Rightarrow> runtime_context \<Rightarrow> bytes \<Rightarrow> bytes \<Rightarrow> 'pt table \<Rightarrow>
     'pt table \<times> bytes dispatch_output res" where
  "dispatch_bytes C L W ctx s args pre = (case from_selector (wl_hash W) s of
      None \<Rightarrow> (pre, Inl (UnknownContractMethod s))
    | Some command \<Rightarrow>
        (case decode_call W command args of
           Inl e \<Rightarrow> (pre, Inl e)
         | Inr c \<Rightarrow>
             (case dispatch C L (plain ctx) c pre of
                (t, Inl e) \<Rightarrow> (t, Inl e)
              | (t, Inr es) \<Rightarrow> (t, build_dispatch_output (cr_group C) W ctx es s args pre t))))"

section \<open>The message a player signs\<close>

definition be_bytes :: "nat \<Rightarrow> nat \<Rightarrow> bytes" where
  "be_bytes k n = rev (int_bytes k n)"

definition TX_SIGNING_DOMAIN :: bytes where "TX_SIGNING_DOMAIN = text_bytes ''zchain.tx.v1''"

definition tx_message :: "nat \<Rightarrow> bytes \<Rightarrow> address \<Rightarrow> bytes \<Rightarrow> bytes \<Rightarrow> nat \<Rightarrow> bytes" where
  "tx_message chain_id table_id caller s args nonce =
     TX_SIGNING_DOMAIN @ be_bytes 8 chain_id @ table_id @ caller @ s @ args @ be_bytes 8 nonce"

definition tx_message_hash :: "(bytes \<Rightarrow> bytes) \<Rightarrow> nat \<Rightarrow> bytes \<Rightarrow> address \<Rightarrow> bytes \<Rightarrow> bytes \<Rightarrow> nat \<Rightarrow> bytes" where
  "tx_message_hash H chain_id table_id caller s args nonce = H (tx_message chain_id table_id caller s args nonce)"

lemma be_bytes_inj:
  assumes "n < 256 ^ k" "m < 256 ^ k" "be_bytes k n = be_bytes k m"
  shows "n = m"
proof -
  from assms(3) have "int_value (int_bytes k n) = int_value (int_bytes k m)" by (simp add: be_bytes_def)
  with assms(1,2) show ?thesis unfolding int_value_bytes by (metis mod_less)
qed

lemma same_prefix: "xs @ us = ys @ vs \<Longrightarrow> length xs = length ys \<Longrightarrow> xs = ys \<and> us = vs"
  by simp

lemma length_be_bytes [simp]: "length (be_bytes k n) = k"
  by (simp add: be_bytes_def)

lemma tx_message_inj:
  assumes "tx_message ch i a s args n = tx_message ch' i' a' s' args' n'"
    and "ch < u64_bound" "ch' < u64_bound" "n < u64_bound" "n' < u64_bound" "length i = 28" "length i' = 28" "length a = 20" "length a' = 20"
      "length s = 32" "length s' = 32"
  shows "ch = ch' \<and> i = i' \<and> a = a' \<and> s = s' \<and> args = args' \<and> n = n'"
proof -
  from assms(1) have "be_bytes 8 ch @ i @ a @ s @ args @ be_bytes 8 n = be_bytes 8 ch' @ i' @ a' @ s' @ args' @ be_bytes 8 n'"
    by (simp add: tx_message_def)
  from same_prefix [OF this] have 1: "be_bytes 8 ch = be_bytes 8 ch'"
    and "i @ a @ s @ args @ be_bytes 8 n = i' @ a' @ s' @ args' @ be_bytes 8 n'" by simp_all
  from same_prefix [OF this(2)] assms(6,7) have 2: "i = i'"
    and "a @ s @ args @ be_bytes 8 n = a' @ s' @ args' @ be_bytes 8 n'" by simp_all
  from same_prefix [OF this(2)] assms(8,9) have 3: "a = a'" and "s @ args @ be_bytes 8 n = s' @ args' @ be_bytes 8 n'" by simp_all
  from same_prefix [OF this(2)] assms(10,11) have 4: "s = s'" and e: "args @ be_bytes 8 n = args' @ be_bytes 8 n'" by simp_all
  from e have "length args = length args'" using arg_cong [OF e, of length] by simp
  from same_prefix [OF e this] have "args = args'" "be_bytes 8 n = be_bytes 8 n'" by simp_all
  with 1 2 3 4 assms(2-5) be_bytes_inj [of ch 8 ch'] be_bytes_inj [of n 8 n'] show ?thesis by simp
qed

end
