(* ===== verification/Poker_Persistence.thy ===== *)
theory Poker_Persistence
  imports Poker_StateCodec Poker_Scenario
begin

text \<open>
  What the persisted layouts of a table promise, and where the records of seats fall short of the
  promise: the properties of \<^verbatim>\<open>runtime/state_codec.rs\<close> and of the padded records of
  \<^verbatim>\<open>core/types.rs\<close>, with a concrete codec of points for evaluation.
\<close>

section \<open>A concrete instance\<close>

definition demo_put_point :: "int writer" where
  "demo_put_point x = (if 0 \<le> x \<and> x < 256 then put_u8 (nat x) else Inl (Serialization ''point''))"

definition demo_get_point :: "int reader" where
  "demo_get_point bs = rbind (get_u8 bs) (\<lambda>(n, bs). Inr (int n, bs))"

definition demo_points :: "int point_codec" where
  "demo_points = \<lparr>pc_put_point = demo_put_point, pc_get_point = demo_get_point,
     pc_put_ct = (\<lambda>c. put_fields [demo_put_point (ct_c1 c), demo_put_point (ct_c2 c)]),
     pc_get_ct = (\<lambda>bs. rbind (demo_get_point bs) (\<lambda>(a, bs). rbind (demo_get_point bs) (\<lambda>(b, bs). Inr (\<lparr>ct_c1 = a, ct_c2 = b\<rparr>, bs))))\<rparr>"

lemma demo_point_law: "reads_back (\<lambda>_. True) demo_put_point demo_get_point"
  by (rule lawI) (auto simp: demo_put_point_def demo_get_point_def reads_def put_uint_def uint_word_of_int split: if_splits)

lemma demo_points_lawful: "lawful_points demo_points"
  unfolding lawful_points_def demo_points_def point_codec.simps
proof (intro conjI demo_point_law, rule lawI)
  fix c :: "int ciphertext" and b assume "put_fields [demo_put_point (ct_c1 c), demo_put_point (ct_c2 c)] = Inr b"
  then obtain b1 b2 where "demo_put_point (ct_c1 c) = Inr b1" "demo_put_point (ct_c2 c) = Inr b2" "b = b1 @ b2"
    by (auto simp: put_fields_Inr)
  then show "reads (\<lambda>bs. rbind (demo_get_point bs) (\<lambda>(a, bs). rbind (demo_get_point bs) (\<lambda>(b, bs). Inr (\<lparr>ct_c1 = a, ct_c2 = b\<rparr>, bs)))) b c"
    using reads_law [OF demo_point_law] by (simp add: reads_def)
qed

text \<open>A table between hands, with an identifier and a creator of the right widths.\<close>

definition stored_table :: "int table" where
  "stored_table = (empty_table 2)\<lparr>t_id := replicate 28 1, t_creator := replicate 20 7\<rparr>"

definition demo_digest :: "bytes \<Rightarrow> bytes" where
  "demo_digest m = take 32 (m @ replicate 32 0)"

lemma demo_digest_length: "length (demo_digest m) = 32"
  by (simp add: demo_digest_def)

text \<open>When every field of a value is written, so is the value.\<close>

definition writes :: "'a res \<Rightarrow> bool" where
  "writes x \<longleftrightarrow> (\<exists>b. x = Inr b)"

lemma writes_Inr [simp]: "writes (Inr b)" and writes_Inl [simp]: "\<not> writes (Inl e)"
  by (simp_all add: writes_def)

lemma writes_fields [simp]:
  "writes (put_fields [])" "writes (put_fields (x # xs)) \<longleftrightarrow> writes x \<and> writes (put_fields xs)"
  by (auto simp: writes_def)

lemma writes_uint [simp]: "writes (put_uint k n)"
  by (simp add: put_uint_def)

lemma writes_array [simp]: "writes (put_array a)"
  by (simp add: put_array_def)

lemma writes_padded [simp]: "writes (write_padded_record tag payload width) \<longleftrightarrow> length payload + 5 \<le> width \<and> length payload + 1 < u32_bound"
  by (simp add: writes_def write_padded_Inr)

lemma writes_many [simp]: "writes (put_many p xs) \<longleftrightarrow> (\<forall>x\<in>set xs. writes (p x))"
  by (induction xs) (simp_all add: put_many_def)

lemma writes_vec [simp]: "writes (put_vec p xs) \<longleftrightarrow> length xs < u32_bound \<and> (\<forall>x\<in>set xs. writes (p x))"
  by (simp add: put_vec_def)

lemma writes_rules [simp]: "writes (put_rules r)"
  by (simp add: put_rules_def put_timeouts_def)

lemma writes_cards [simp]: "writes (put_cards h)"
  by (simp add: put_cards_def put_card_def)

lemma stored_table_new: "table_new (replicate 28 1) (replicate 20 7) 2 5 10 = Inr stored_table"
  by (simp add: table_new_def stored_table_def empty_table_def)

lemma stored_valid: "validate_state_schema G stored_table = Inr ()"
  by (rule table_new_valid [OF stored_table_new])

lemma stored_typed: "machine_typed stored_table"
  by (simp add: machine_typed_def stored_table_def empty_table_def ok_rules_def rules_new_def ok_cards_def board_empty_def
      PADDING_def seat_empty_def DEFAULT_TIME_BANK_MS_def NO_SEAT_def deck_default_def ok_deck_def ok_ledger_def
      ledger_default_def list_all_iff timeout_default_def ok_timeouts_def ANTE_MODE_NONE_def RAKE_MODE_NONE_def
      DEFAULT_RAKE_BPS_def DEFAULT_RAKE_CAP_def RIT_MODE_DISABLED_def)

lemma stored_padding: "fresh_padding stored_table"
  by (simp add: fresh_padding_def stored_table_def empty_table_def rules_new_def list_all_iff)

text \<open>A valid table between hands with nobody seated can be written, whatever the codec of points.\<close>

definition vacant_table :: "'pt table \<Rightarrow> bool" where
  "vacant_table t \<longleftrightarrow> length (t_seats t) = 9 \<and> list_all seat_is_vacant (t_seats t) \<and> t_hand_phase t = PhaseWaiting \<and>
     t_deck_state t = deck_default \<and> t_run_it_twice_state t = Single"

lemma vacant_persisted:
  assumes "validate_state_schema G t = Inr ()" "vacant_table t"
  shows "\<exists>p. to_persisted G t = Inr p"
proof -
  have "seat_validate_canonical (g1_is_identity G) s = Inr ()" if "s \<in> set (take (max_players t) (t_seats t))" for s
  proof -
    from that have "s \<in> set (t_seats t)" by (rule in_set_takeD)
    then have "seat_is_vacant s" using assms(2) by (simp add: vacant_table_def list_all_iff)
    then show ?thesis by (cases s) simp_all
  qed
  then have "try_fold (\<lambda>_ s. seat_validate_canonical (g1_is_identity G) s) () (take (max_players t) (t_seats t)) = Inr ()"
    by (simp add: try_fold_unit_Inr)
  moreover have "max_players t \<le> 9" using validate_state_schema_Inr(1) [OF assms(1)] by (simp add: rules_validate_def MAX_SEATS_def split: if_splits)
  ultimately show ?thesis
    using assms validate_state_schema_Inr(3) [OF assms(1)]
    by (simp add: to_persisted_def persisted_seats_def canonical_hand_phase_def vacant_table_def)
qed

lemma vacant_tail:
  assumes "to_persisted G t = Inr p" "vacant_table t"
  shows "writes (put_fields (tail_fields P p))"
proof -
  have "writes (put_seat P s)" if "s \<in> set (t_seats t)" for s
  proof -
    from that have "seat_is_vacant s" using assms(2) by (simp add: vacant_table_def list_all_iff)
    then show ?thesis by (cases s) (simp_all add: put_seat_def put_uint_def SEAT_RECORD_WIDTH_def)
  qed
  then have "\<forall>s\<in>set (take n (t_seats t)). writes (put_seat P s)" for n by (blast dest: in_set_takeD)
  moreover have "writes (put_deck P deck_default)"
    by (simp add: put_deck_def deck_default_def put_ledger_def ledger_default_def put_option_def put_mask_def)
  ultimately show ?thesis
    using to_persisted_Inr [OF assms(1)] assms(2)
    by (simp add: tail_fields_def vacant_table_def put_mask_def put_phase_def HAND_PHASE_RECORD_WIDTH_def)
qed

lemma vacant_writes:
  assumes "validate_state_schema G t = Inr ()" "vacant_table t"
  shows "writes (put_table G P t)"
proof -
  obtain p where p: "to_persisted G t = Inr p" using vacant_persisted [OF assms] by blast
  with vacant_tail [OF p assms(2), of P] show ?thesis by (simp add: put_table_def put_persisted_def put_address_def)
qed

lemma stored_vacant: "vacant_table stored_table"
  by (simp add: vacant_table_def stored_table_def empty_table_def seat_empty_def list_all_iff)

lemmas stored_persisted = vacant_persisted [OF stored_valid stored_vacant]
lemmas stored_tail = vacant_tail [OF _ stored_vacant]

lemma stored_encodes: "writes (encode_table_state G demo_points stored_table)"
  using vacant_writes [OF stored_valid stored_vacant] by (simp add: encode_table_state_def stored_valid)

lemma stored_encodes_hot: "writes (encode_hot_table_state demo_digest G demo_points stored_table)"
proof -
  obtain p where p: "to_persisted G stored_table = Inr p" using stored_persisted by blast
  have "rules_validate (t_rules stored_table) = Inr ()" by (rule validate_state_schema_Inr(1) [OF stored_valid])
  moreover have "t_creator stored_table \<noteq> EMPTY_PLAYER" by (simp add: stored_table_def EMPTY_PLAYER_def)
  moreover obtain r where "put_rules (t_rules stored_table) = Inr r" using writes_rules by (auto simp: writes_def)
  ultimately show ?thesis
    using p stored_tail [OF p]
    by (auto simp: encode_hot_table_state_def stored_valid table_context_bindings_def openings_validate_def openings_of_def
        governance_validate_def context_digest_def put_address_def put_array_def put_binding_def)
qed

section \<open>Properties of the snapshots\<close>

text \<open>
  C35. Snapshot round trip: a table whose fields are in the range of their machine types and whose
  unused seats are fresh is read back exactly from its encoding, for every lawful codec of curve
  points.
\<close>

theorem snapshot_roundtrip:
  assumes "encode_table_state G P t = Inr bs" "lawful_points P" "machine_typed t" "fresh_padding t"
  shows "decode_table_state G P bs = Inr t"
proof -
  from assms(1) have v: "validate_state_schema G t = Inr ()" and "put_table G P t = Inr bs"
    by (simp_all add: encode_table_state_def result_simps)
  with reads_back.from_slice_put [OF table_law [OF assms(2)], of t] assms(3,4) show ?thesis
    by (simp add: decode_table_state_def)
qed

theorem snapshot_roundtrip_witness:
  "\<exists>bs. encode_table_state (cr_group demo_crypto) demo_points stored_table = Inr bs \<and>
     decode_table_state (cr_group demo_crypto) demo_points bs = Inr stored_table"
  using snapshot_roundtrip [OF _ demo_points_lawful stored_typed stored_padding] stored_encodes
  unfolding writes_def by blast

text \<open>
  Hot round trip: the layout that leaves out rules and creator and commits to them by digest
  gives back the whole table when it is opened with the table's own rules and creator.
\<close>

theorem hot_roundtrip:
  assumes "encode_hot_table_state H G P t = Inr bs" "lawful_points P" "machine_typed t" "fresh_padding t" "\<And>x. length (H x) = 32"
  shows "decode_hot_table_state H G P bs (openings_of t) = Inr t"
  by (rule decode_hot_own [OF assms])

theorem hot_roundtrip_witness:
  "\<exists>bs. encode_hot_table_state demo_digest (cr_group demo_crypto) demo_points stored_table = Inr bs \<and>
     decode_hot_table_state demo_digest (cr_group demo_crypto) demo_points bs (openings_of stored_table) = Inr stored_table"
proof -
  obtain bs where e: "encode_hot_table_state demo_digest (cr_group demo_crypto) demo_points stored_table = Inr bs"
    using stored_encodes_hot unfolding writes_def by blast
  from hot_roundtrip [OF e demo_points_lawful stored_typed stored_padding demo_digest_length] e show ?thesis by blast
qed

text \<open>
  The digests bind: whatever rules and creator a hot encoding is opened with, if it decodes
  they are the ones of the encoded table, as long as the hash does not collide on the four messages
  that commit to the two pairs.
\<close>

theorem hot_openings_bind:
  assumes "encode_hot_table_state H G P t = Inr bs" "decode_hot_table_state H G P bs a = Inr t'"
    and "lawful_points P" "machine_typed t" "ok_rules (op_rules a)" "\<And>x. length (H x) = 32"
    and "inj_on H (context_messages (t_id t) a \<union> context_messages (t_id t) (openings_of t))"
  shows "op_rules a = t_rules t \<and> op_creator a = t_creator t"
  using decode_hot_bound [OF assms(1-4,6,7,5)] by (simp add: openings_of_def)

lemma stored_digest_inj:
  "inj_on demo_digest (context_messages (t_id stored_table) (openings_of stored_table) \<union> context_messages (t_id stored_table) (openings_of stored_table))"
proof -
  obtain r where r: "put_rules (t_rules stored_table) = Inr r" using writes_rules by (auto simp: writes_def)
  let ?r = "RULES_CONTEXT_DOMAIN @ t_id stored_table @ r" and ?g = "GOVERNANCE_CONTEXT_DOMAIN @ t_id stored_table @ t_creator stored_table"
  have "context_messages (t_id stored_table) (openings_of stored_table) = {?r, ?g}"
    using r by (auto simp: context_messages_def openings_of_def)
  moreover have "demo_digest ?r ! 19 \<noteq> demo_digest ?g ! 19"
    by (simp add: demo_digest_def RULES_CONTEXT_DOMAIN_def GOVERNANCE_CONTEXT_DOMAIN_def text_bytes_def)
  then have "demo_digest ?r \<noteq> demo_digest ?g" by auto
  ultimately show ?thesis by (simp add: inj_on_def)
qed

theorem hot_openings_bind_witness:
  "\<exists>bs. encode_hot_table_state demo_digest (cr_group demo_crypto) demo_points stored_table = Inr bs \<and>
     op_rules (openings_of stored_table) = t_rules stored_table \<and> op_creator (openings_of stored_table) = t_creator stored_table"
proof -
  obtain bs where e: "encode_hot_table_state demo_digest (cr_group demo_crypto) demo_points stored_table = Inr bs"
    using stored_encodes_hot unfolding writes_def by blast
  have d: "decode_hot_table_state demo_digest (cr_group demo_crypto) demo_points bs (openings_of stored_table) = Inr stored_table"
    by (rule decode_hot_own [OF e demo_points_lawful stored_typed stored_padding demo_digest_length])
  have "ok_rules (op_rules (openings_of stored_table))" using stored_typed by (simp add: machine_typed_def openings_of_def)
  from hot_openings_bind [OF e d demo_points_lawful stored_typed this demo_digest_length stored_digest_inj] e show ?thesis by blast
qed

text \<open>
  The two layouts cannot be confused: the schema byte of a snapshot is never the hot one, and
  the snapshot decoder rejects every hot encoding.
\<close>

theorem layouts_apart:
  assumes "length (t_id t) = 28" "encode_table_state G P t = Inr bs" "encode_hot_table_state H G P t = Inr hs"
  shows "\<not> is_hot_table_state bs \<and> is_hot_table_state hs \<and>
    decode_table_state G P hs = Inl (Serialization ''unsupported Texas table schema'')"
  using put_table_schema_byte [of G P t bs] encode_hot_schema_byte [of H G P t hs] assms
  by (simp add: encode_table_state_def result_simps)

theorem layouts_apart_witness:
  "\<exists>bs hs. encode_table_state (cr_group demo_crypto) demo_points stored_table = Inr bs \<and>
     encode_hot_table_state demo_digest (cr_group demo_crypto) demo_points stored_table = Inr hs \<and>
     \<not> is_hot_table_state bs \<and> is_hot_table_state hs \<and>
     decode_table_state (cr_group demo_crypto) demo_points hs = Inl (Serialization ''unsupported Texas table schema'')"
proof -
  obtain bs hs where e: "encode_table_state (cr_group demo_crypto) demo_points stored_table = Inr bs"
    "encode_hot_table_state demo_digest (cr_group demo_crypto) demo_points stored_table = Inr hs"
    using stored_encodes stored_encodes_hot unfolding writes_def by blast
  have "length (t_id stored_table) = 28" by (simp add: stored_table_def)
  from layouts_apart [OF this e] e show ?thesis by blast
qed

section \<open>Where seat records are not canonical\<close>

lemma slack_read:
  assumes "seat_payload P s = (tag, Inr payload)" "ok_seat s" "lawful_points P"
    and "read_padded_record SEAT_RECORD_WIDTH b = Inr ((tag, payload @ c), [])"
  shows "get_seat P b = Inr (s, [])"
proof (cases s)
  case (SeatVacant bank)
  with assms(1,2) have "reads get_u32 payload bank" by (intro reads_uint) simp_all
  with SeatVacant assms(1,4) show ?thesis by (simp add: get_seat_def payload_of_slack)
next
  case (SeatWaiting oc)
  with assms(1-3) have "reads (get_occupied P) payload oc" by (intro reads_occupied) simp_all
  with SeatWaiting assms(1,4) show ?thesis by (auto simp: get_seat_def payload_of_slack)
next
  case (SeatPlaying p)
  with assms(1-3) have "reads (get_playing P) payload p" by (intro reads_playing) simp_all
  with SeatPlaying assms(1,4) show ?thesis by (auto simp: get_seat_def payload_of_slack)
next
  case (SeatDeparted player n bank)
  with assms(1,2) have "reads get_departed payload s" unfolding SeatDeparted by (intro departed_reads) simp_all
  with SeatDeparted assms(1,4) show ?thesis by (simp add: get_seat_def payload_of_slack del: put_fields_Inr)
qed

text \<open>
  A seat has more than one encoding: the reader of a seat record ignores what follows the
  fields inside the payload, so wherever the record leaves room there is a second record of the
  same width with the same meaning, although unused bytes were meant to be rejected.
\<close>

theorem seat_record_malleable:
  assumes "seat_payload P s = (tag, Inr payload)" "length payload \<le> 506" "ok_seat s" "lawful_points P"
  shows "\<exists>b b'. put_seat P s = Inr b \<and> b' \<noteq> b \<and> length b' = length b \<and>
    from_slice (get_seat P) b = Inr s \<and> from_slice (get_seat P) b' = Inr s"
proof -
  obtain b where b: "write_padded_record tag payload SEAT_RECORD_WIDTH = Inr b"
    using assms(2) by (simp add: write_padded_Inr SEAT_RECORD_WIDTH_def)
  have room: "length payload + 6 \<le> SEAT_RECORD_WIDTH" "length payload + 2 < u32_bound"
    using assms(2) by (simp_all add: SEAT_RECORD_WIDTH_def)
  from record_with_slack [OF b room] obtain b' where
    b': "write_padded_record tag (payload @ [0]) SEAT_RECORD_WIDTH = Inr b'" "b' \<noteq> b" "length b' = length b"
    by blast
  have put: "put_seat P s = Inr b" using b assms(1) by (simp add: put_seat_def)
  have tag: "tag < 256" using assms(1) by (cases s) auto
  have "from_slice (get_seat P) b' = Inr s"
    using slack_read [OF assms(1,3,4), of b' "[0]"] read_written_record [OF b'(1) tag, of "[]"] by (simp add: from_slice_def)
  moreover have "from_slice (get_seat P) b = Inr s"
    by (rule reads_back.from_slice_put [OF seat_law [OF assms(4)] assms(3) put])
  ultimately show ?thesis using put b'(2,3) by blast
qed

theorem seat_record_malleable_witness:
  "\<exists>b b'. put_seat demo_points (SeatVacant 7) = Inr b \<and> b' \<noteq> b \<and> length b' = length b \<and>
    from_slice (get_seat demo_points) b = Inr (SeatVacant 7) \<and> from_slice (get_seat demo_points) b' = Inr (SeatVacant 7)"
proof -
  have "seat_payload demo_points (SeatVacant 7) = (0, Inr (int_bytes 4 7))" by (simp add: put_uint_def)
  from seat_record_malleable [OF this _ _ demo_points_lawful] show ?thesis by simp
qed

text \<open>
  A record of declared length 0 crashes the decoder: reading a seat from 512 zero bytes, or from
  any input that starts with four zero bytes and has 508 zero bytes after them, indexes an empty
  buffer instead of returning an error.
\<close>

theorem empty_record_panics:
  "get_seat P (replicate 512 0 @ rest) = Inl (Panic ''index out of bounds: the len is 0 but the index is 0'')"
proof -
  have "int_bytes k 0 = replicate k (0 :: 8 word)" for k by (induction k) simp_all
  with replicate_add [of 4 508 "0 :: 8 word"]
  have split: "replicate 512 (0 :: 8 word) @ rest = int_bytes 4 0 @ replicate 508 0 @ rest" by simp
  have len: "get_u32 (replicate 512 (0 :: 8 word) @ rest) = Inr (0, replicate 508 0 @ rest)"
    unfolding split by (rule get_uint_append) simp
  moreover have "read_exact 508 (replicate 508 (0 :: 8 word) @ rest) = Inr (replicate 508 0, rest)"
    by (rule read_exact_length) simp
  moreover have "read_exact 0 (replicate 508 (0 :: 8 word) @ rest) = Inr ([], replicate 508 0 @ rest)"
    using read_exact_length [of "[]" 0 "replicate 508 0 @ rest"] by simp
  ultimately show ?thesis
    by (simp add: get_seat_def read_padded_record_def SEAT_RECORD_WIDTH_def list_ex_iff)
qed

text \<open>
  The bytes of a snapshot's seats are four for their number and 512 for each seat of the
  configuration, so the length of a snapshot follows the size of the table, not a fixed maximum.
\<close>

theorem snapshot_seats_width:
  assumes "to_persisted G t = Inr p" "put_vec (put_seat P) (pt_seats p) = Inr b" "length (t_seats t) = 9" "max_players t \<le> 9"
  shows "length b = 4 + 512 * max_players t"
  using seats_width [OF assms(2)] to_persisted_Inr(5) [OF assms(1)] assms(3,4) by (simp add: SEAT_RECORD_WIDTH_def)

theorem snapshot_seats_width_witness:
  "\<exists>p b. to_persisted (cr_group demo_crypto) stored_table = Inr p \<and> put_vec (put_seat demo_points) (pt_seats p) = Inr b \<and> length b = 4 + 512 * max_players stored_table"
proof -
  obtain p where p: "to_persisted (cr_group demo_crypto) stored_table = Inr p" using stored_persisted by blast
  with stored_tail [OF p] obtain b where b: "put_vec (put_seat demo_points) (pt_seats p) = Inr b"
    unfolding tail_fields_def writes_fields by (auto simp: writes_def)
  have "length (t_seats stored_table) = 9" "max_players stored_table \<le> 9" by (simp_all add: stored_table_def empty_table_def rules_new_def)
  from snapshot_seats_width [OF p b this] p b show ?thesis by blast
qed

end
