(* ===== verification/Poker_Replay.thy ===== *)
theory Poker_Replay
  imports Poker_Wire Poker_Ledger Poker_Persistence
begin

text \<open>
  What the dispatch of bytes promises to the prover: the task of a call replays to the same
  transition, building the task cannot crash, a signature binds every part of the message, and the
  treasury receipt derived from the events balances.
\<close>

section \<open>Replaying a task\<close>

lemma decoded_input: "decode_call W c args = Inr call \<Longrightarrow> \<exists>input. method_input_of W c args = Inr input"
  by (cases c) (auto simp: result_simps)

lemma parts_of_selector:
  assumes "selectors_apart (wl_hash W)" "decode_call W c args = Inr call" "canonical_payload W c args = Inr payload"
  shows "canonical_command_parts W (selector (wl_hash W) c) args = Inr (command_to_u8 c, payload)"
  using decoded_input [OF assms(2)] assms(1,3)
  by (auto simp: canonical_command_parts_def from_selector_selector build_selector ok_or_def)

lemma dispatch_bytes_steps:
  assumes "dispatch_bytes C L W ctx s args pre = (t, Inr out)"
  obtains c call es t1 es1 where "s = selector (wl_hash W) c" "decode_call W c args = Inr call"
    "run_call C L (plain ctx) call pre [] = Inr (t1, es1)"
    "dispatch C L (plain ctx) call pre = (t, Inr es)" "build_dispatch_output (cr_group C) W ctx es s args pre t = Inr out"
  using assms
  by (auto simp: dispatch_bytes_def split: option.splits sum.splits prod.splits dest!: from_selector_Some)
    (metis dispatch_commits)

lemma executed_replays:
  assumes "lawful_wire W" "selectors_apart (wl_hash W)" "decode_call W c args = Inr call"
    "run_call C L (plain ctx) call pre [] = Inr r"
  shows "replays W (plain ctx) pre c args call"
  by (rule replays_all [OF assms(1-3) run_call_claim [OF assms(4)]])

text \<open>The output of an executed call depends on its arguments through the canonical payload only.\<close>

lemma output_of_payload:
  assumes "lawful_wire W" "selectors_apart (wl_hash W)" "decode_call W c args = Inr call" "decode_call W c args' = Inr call"
    "canonical_payload W c args = Inr payload" "canonical_payload W c args' = Inr payload"
  shows "build_dispatch_output G W ctx es (selector (wl_hash W) c) args pre t =
    build_dispatch_output G W ctx es (selector (wl_hash W) c) args' pre t"
  using parts_of_selector [OF assms(2,3,5)] parts_of_selector [OF assms(2,4,6)] by (simp add: build_dispatch_output_def)

lemma output_built:
  assumes "lawful_wire W" "selectors_apart (wl_hash W)" "decode_call W c args = Inr call"
    and "run_call C L (plain ctx) call pre [] = Inr (t1, es1)" "pre \<noteq> t"
    and "put_table G (wl_points W) pre = Inr b" "put_table G (wl_points W) t = Inr b'"
  shows "\<exists>task. build_dispatch_output G W ctx es (selector (wl_hash W) c) args pre t =
      Inr \<lparr>out_events = es, out_prove_task = Some task\<rparr> \<and>
    pk_method_kind task = command_to_u8 c \<and> pk_pre_table task = b \<and> pk_post_table task = b'"
proof -
  from executed_replays [OF assms(1-4)] obtain payload input where
    p: "canonical_payload W c args = Inr payload"
    and i: "derive_authenticated_method_input W (command_to_u8 c) payload (plain ctx) pre = Inr input"
    unfolding replays_def by blast
  show ?thesis
    using assms(5-7) parts_of_selector [OF assms(2,3) p] i
    by (simp add: build_dispatch_output_def prove_task_new_def put_task_def tag_of_command)
qed

text \<open>A concrete library: trivial proofs, the identity as hash, and a call that re-creates a table.\<close>

definition demo_statement :: "int reconstruction_statement" where
  "demo_statement = \<lparr>rs_aggregate_pk = 0, rs_owner_pk = 0, rs_cards = [], rs_residual_carriers = [], rs_context_digest = [],
     rs_prior_state_digest = [], rs_epoch = 0, rs_contributions = []\<rparr>"

definition demo_wire :: "(int, unit) wire_lib" where
  "demo_wire = \<lparr>wl_hash = id, wl_points = demo_points,
     wl_put_shuffle = (\<lambda>_. Inr []), wl_get_shuffle = (\<lambda>bs. Inr ((), bs)), wl_put_leave = (\<lambda>_. Inr []), wl_get_leave = (\<lambda>bs. Inr ((), bs)),
     wl_put_reveal = (\<lambda>_. Inr []), wl_get_reveal = (\<lambda>bs. Inr ((), bs)),
     wl_put_statement = (\<lambda>_. Inr []), wl_get_statement = (\<lambda>bs. Inr (demo_statement, bs)),
     wl_put_reconstruct = (\<lambda>_. Inr []), wl_get_reconstruct = (\<lambda>bs. Inr ((), bs)),
     wl_owns = (\<lambda>_ _. True), wl_verify_shuffle = (\<lambda>_ _ _ _. True), wl_verify_leave = (\<lambda>_ _ _ _. True),
     wl_verify_reveal = (\<lambda>_ _ _ _. True), wl_verify_reconstruct = (\<lambda>_ _. True)\<rparr>"

lemma demo_wire_lawful: "lawful_wire demo_wire"
proof -
  have fixed: "rewritable (\<lambda>_. Inr []) (\<lambda>bs. Inr (c, bs))" for c :: 'a
    unfolding rewritable_def by (rule exI [of _ "\<lambda>x. x = c"], unfold_locales) simp_all
  have range: "codec (\<lambda>x. 0 \<le> x \<and> x < 256) demo_put_point demo_get_point"
  proof unfold_locales
    fix x :: int and bs rest assume "demo_put_point x = Inr bs"
    then show "demo_get_point (bs @ rest) = Inr (x, rest)" by (rule reads_back.get_put [OF demo_point_law TrueI])
  next
    fix x :: int assume "0 \<le> x \<and> x < 256"
    then show "\<exists>bs. demo_put_point x = Inr bs" by (simp add: demo_put_point_def)
  next
    fix bs x rest assume "demo_get_point bs = Inr (x, rest)"
    then show "0 \<le> x \<and> x < 256" by (auto simp: demo_get_point_def result_simps get_uint_Inr)
  qed
  have "codec (\<lambda>c. (0 \<le> ct_c1 c \<and> ct_c1 c < 256) \<and> 0 \<le> ct_c2 c \<and> ct_c2 c < 256) (pc_put_ct demo_points) (pc_get_ct demo_points)"
  proof unfold_locales
    fix c bs rest assume "pc_put_ct demo_points c = Inr bs"
    then show "pc_get_ct demo_points (bs @ rest) = Inr (c, rest)"
      using demo_points_lawful unfolding lawful_points_def by (blast intro: reads_back.get_put)
  next
    fix c :: "int ciphertext" assume "(0 \<le> ct_c1 c \<and> ct_c1 c < 256) \<and> 0 \<le> ct_c2 c \<and> ct_c2 c < 256"
    then show "\<exists>bs. pc_put_ct demo_points c = Inr bs" by (simp add: demo_points_def demo_put_point_def)
  next
    fix bs c rest assume "pc_get_ct demo_points bs = Inr (c, rest)"
    with codec.ranged [OF range] show "(0 \<le> ct_c1 c \<and> ct_c1 c < 256) \<and> 0 \<le> ct_c2 c \<and> ct_c2 c < 256"
      by (auto simp: demo_points_def result_simps)
  qed
  then have ct: "rewritable (pc_put_ct demo_points) (pc_get_ct demo_points)" unfolding rewritable_def by blast
  have point: "rewritable (pc_put_point demo_points) (pc_get_point demo_points)"
    using range unfolding rewritable_def by (auto simp: demo_points_def)
  show ?thesis unfolding lawful_wire_def by (simp add: demo_wire_def ct point fixed)
qed

lemma demo_wire_selectors: "selectors_apart (wl_hash demo_wire)"
  by (simp add: demo_wire_def selectors_apart_def)

definition demo_create_args :: bytes where
  "demo_create_args = [3, 5, 0, 0, 0, 0, 0, 0, 0, 10, 0, 0, 0, 0, 0, 0, 0, 0]"

lemma demo_create_decodes: "decode_call demo_wire CreateTable demo_create_args = Inr (CallCreateTable 3 5 10 0)"
proof -
  have "from_slice get_create_table_args demo_create_args = Inr (3, 5, 10, 0)" by code_simp
  then show ?thesis by (simp add: decode_args_Inr [THEN iffD2])
qed

definition demo_runtime_ctx :: runtime_context where
  "demo_runtime_ctx = \<lparr>dc_caller = replicate 20 7, dc_block_timestamp = 1000,
     rc_caller_pubkey = \<lparr>tp_tag = 0, tp_raw = []\<rparr>, rc_chain_id = 1, rc_block_height = 1\<rparr>"

lemma demo_plain: "plain demo_runtime_ctx = \<lparr>dc_caller = replicate 20 7, dc_block_timestamp = 1000\<rparr>"
  by (simp add: demo_runtime_ctx_def dispatch_context.truncate_def)

lemma demo_create_runs:
  obtains t t1 where "run_call demo_crypto demo_lib (plain demo_runtime_ctx) (CallCreateTable 3 5 10 0) stored_table [] = Inr (t1, [])"
    "dispatch demo_crypto demo_lib (plain demo_runtime_ctx) (CallCreateTable 3 5 10 0) stored_table = (t, Inr [])"
    "stored_table \<noteq> t" "writes (put_table (cr_group demo_crypto) demo_points t)"
proof -
  have p: "2 \<le> (3 :: nat)" "3 \<le> (9 :: nat)" "0 < (10 :: nat)" "5 \<le> (10 :: nat)" "0 = RIT_MODE_DISABLED \<or> 0 = RIT_MODE_TWICE"
    "dc_block_timestamp (plain demo_runtime_ctx) \<noteq> 0" "t_call_seq stored_table < 2 ^ 32 - 1"
    by (simp_all add: demo_plain RIT_MODE_DISABLED_def stored_table_def empty_table_def)
  obtain t0 t n h where d: "dispatch demo_crypto demo_lib (plain demo_runtime_ctx) (CallCreateTable 3 5 10 0) stored_table = (t, Inr [])"
    and t0: "table_new (t_id stored_table) (dc_caller (plain demo_runtime_ctx)) 3 5 10 = Inr t0"
    and t: "t = t0\<lparr>t_rules := (t_rules t0)\<lparr>r_rit_mode := 0\<rparr>, t_call_seq := n, t_hand_id := h\<rparr>"
    and c: "apply_create_table (dc_caller (plain demo_runtime_ctx)) 3 5 10 0 stored_table = Inr (t0\<lparr>t_rules := (t_rules t0)\<lparr>r_rit_mode := 0\<rparr>\<rparr>)"
    by (rule create_exact [OF p, of demo_crypto demo_lib])
  have e: "t0 = empty_table 3\<lparr>t_id := replicate 28 1, t_creator := replicate 20 7\<rparr>"
    using t0 by (simp add: table_new_def empty_table_def stored_table_def demo_plain)
  have "(t_rules t0)\<lparr>r_rit_mode := 0\<rparr> = t_rules t0" by (simp add: e empty_table_def rules_new_def RIT_MODE_DISABLED_def)
  then have t': "t = t0\<lparr>t_call_seq := n, t_hand_id := h\<rparr>" by (simp add: t)
  have "validate_state_schema (cr_group demo_crypto) t = Inr ()" by (simp add: t' validate_counters table_new_valid [OF t0])
  moreover have "vacant_table t" by (simp add: t' e vacant_table_def empty_table_def seat_empty_def list_all_iff)
  ultimately have "writes (put_table (cr_group demo_crypto) demo_points t)" by (rule vacant_writes)
  moreover have "max_players stored_table \<noteq> max_players t" by (simp add: t' e stored_table_def empty_table_def rules_new_def)
  moreover have "run_call demo_crypto demo_lib (plain demo_runtime_ctx) (CallCreateTable 3 5 10 0) stored_table [] =
      Inr (t0\<lparr>t_rules := (t_rules t0)\<lparr>r_rit_mode := 0\<rparr>\<rparr>, [])" using c by simp
  ultimately show ?thesis using d that by blast
qed

text \<open>
  C27. Nothing a call did depends on what its proof task leaves out: whenever the dispatch of raw
  bytes succeeds with a task, replaying the canonical payload of the task, with the actor taken from
  the authenticated context and the table before the call, gives bytes whose dispatch from that
  table has exactly the same outcome, in table, events and task.
\<close>

theorem task_replays_identically:
  assumes "lawful_wire W" "selectors_apart (wl_hash W)"
    and "dispatch_bytes C L W ctx s args pre = (t, Inr out)" "out_prove_task out = Some task"
  shows "\<exists>args'. replay_dispatch_args W (pk_method_kind task) (pk_raw_args task) (plain ctx) pre = Inr args' \<and>
    dispatch_bytes C L W ctx s args' pre = dispatch_bytes C L W ctx s args pre"
proof -
  from assms(3) obtain c call es t1 es1 where s: "s = selector (wl_hash W) c" and d: "decode_call W c args = Inr call"
    and r: "run_call C L (plain ctx) call pre [] = Inr (t1, es1)"
    and x: "dispatch C L (plain ctx) call pre = (t, Inr es)" and b: "build_dispatch_output (cr_group C) W ctx es s args pre t = Inr out"
    by (rule dispatch_bytes_steps)
  from executed_replays [OF assms(1,2) d r] obtain payload input args' where
    p: "canonical_payload W c args = Inr payload" "canonical_payload W c args' = Inr payload"
    and i: "derive_authenticated_method_input W (command_to_u8 c) payload (plain ctx) pre = Inr input"
    and a: "replay_args W c input payload = Inr args'" "decode_call W c args' = Inr call"
    unfolding replays_def by blast
  from b assms(4) have "pk_method_kind task = command_to_u8 c" "pk_raw_args task = payload"
    by (auto simp: build_dispatch_output_def s parts_of_selector [OF assms(2) d p(1)] prove_task_new_def put_task_def result_simps
        split: if_splits sum.splits option.splits)
  with i a have "replay_dispatch_args W (pk_method_kind task) (pk_raw_args task) (plain ctx) pre = Inr args'"
    by (simp add: replay_dispatch_args_def tag_of_command ok_or_def)
  moreover have "dispatch_bytes C L W ctx s args' pre = dispatch_bytes C L W ctx s args pre"
    using output_of_payload [OF assms(1,2) d a(2) p]
    by (simp add: dispatch_bytes_def s from_selector_selector [OF assms(2)] d a(2) x)
  ultimately show ?thesis by blast
qed

text \<open>
  C29. Building the task of an executed call never crashes and never rejects its arguments: for a
  call that ran from the given table and changed it, the return value is built unless the table
  before or after the call cannot be serialised.
\<close>

theorem executed_calls_yield_tasks:
  assumes "lawful_wire W" "selectors_apart (wl_hash W)" "decode_call W c args = Inr call"
    and "run_call C L (plain ctx) call pre [] = Inr (t1, es1)" "pre \<noteq> t"
    and "put_table G (wl_points W) pre = Inr b" "put_table G (wl_points W) t = Inr b'"
  shows "\<exists>task. build_dispatch_output G W ctx es (selector (wl_hash W) c) args pre t =
      Inr \<lparr>out_events = es, out_prove_task = Some task\<rparr> \<and>
    pk_method_kind task = command_to_u8 c \<and> pk_pre_table task = b \<and> pk_post_table task = b'"
  by (rule output_built [OF assms])

lemma demo_task:
  obtains t task where "dispatch_bytes demo_crypto demo_lib demo_wire demo_runtime_ctx (selector id CreateTable) demo_create_args stored_table =
      (t, Inr \<lparr>out_events = [], out_prove_task = Some task\<rparr>)"
proof -
  obtain t t1 where r: "run_call demo_crypto demo_lib (plain demo_runtime_ctx) (CallCreateTable 3 5 10 0) stored_table [] = Inr (t1, [])"
    and d: "dispatch demo_crypto demo_lib (plain demo_runtime_ctx) (CallCreateTable 3 5 10 0) stored_table = (t, Inr [])"
    and n: "stored_table \<noteq> t" and w: "writes (put_table (cr_group demo_crypto) demo_points t)"
    by (rule demo_create_runs)
  obtain b b' where b: "put_table (cr_group demo_crypto) (wl_points demo_wire) stored_table = Inr b"
    "put_table (cr_group demo_crypto) (wl_points demo_wire) t = Inr b'"
    using w vacant_writes [OF stored_valid stored_vacant, of "cr_group demo_crypto" demo_points] by (auto simp: writes_def demo_wire_def)
  have id: "wl_hash demo_wire = id" by (simp add: demo_wire_def)
  obtain task where "build_dispatch_output (cr_group demo_crypto) demo_wire demo_runtime_ctx [] (selector id CreateTable) demo_create_args stored_table t =
      Inr \<lparr>out_events = [], out_prove_task = Some task\<rparr>"
    using output_built [OF demo_wire_lawful demo_wire_selectors demo_create_decodes r n b, of "[]"] unfolding id by blast
  with d demo_create_decodes from_selector_selector [OF demo_wire_selectors, of CreateTable] that show ?thesis
    by (simp add: dispatch_bytes_def id)
qed

theorem task_replays_identically_witness:
  "\<exists>t out task args'. dispatch_bytes demo_crypto demo_lib demo_wire demo_runtime_ctx (selector id CreateTable) demo_create_args stored_table = (t, Inr out) \<and>
     out_prove_task out = Some task \<and>
     replay_dispatch_args demo_wire (pk_method_kind task) (pk_raw_args task) (plain demo_runtime_ctx) stored_table = Inr args' \<and>
     dispatch_bytes demo_crypto demo_lib demo_wire demo_runtime_ctx (selector id CreateTable) args' stored_table = (t, Inr out)"
proof -
  obtain t task where d: "dispatch_bytes demo_crypto demo_lib demo_wire demo_runtime_ctx (selector id CreateTable) demo_create_args stored_table =
      (t, Inr \<lparr>out_events = [], out_prove_task = Some task\<rparr>)" by (rule demo_task)
  from task_replays_identically [OF demo_wire_lawful demo_wire_selectors d] d show ?thesis by auto
qed

theorem executed_calls_yield_tasks_witness:
  "\<exists>t task. dispatch demo_crypto demo_lib (plain demo_runtime_ctx) (CallCreateTable 3 5 10 0) stored_table = (t, Inr []) \<and>
     build_dispatch_output (cr_group demo_crypto) demo_wire demo_runtime_ctx [] (selector (wl_hash demo_wire) CreateTable) demo_create_args stored_table t =
       Inr \<lparr>out_events = [], out_prove_task = Some task\<rparr> \<and> pk_method_kind task = 0"
proof -
  obtain t t1 where r: "run_call demo_crypto demo_lib (plain demo_runtime_ctx) (CallCreateTable 3 5 10 0) stored_table [] = Inr (t1, [])"
    and d: "dispatch demo_crypto demo_lib (plain demo_runtime_ctx) (CallCreateTable 3 5 10 0) stored_table = (t, Inr [])"
    and n: "stored_table \<noteq> t" and w: "writes (put_table (cr_group demo_crypto) demo_points t)"
    by (rule demo_create_runs)
  obtain b b' where b: "put_table (cr_group demo_crypto) (wl_points demo_wire) stored_table = Inr b"
    "put_table (cr_group demo_crypto) (wl_points demo_wire) t = Inr b'"
    using w vacant_writes [OF stored_valid stored_vacant, of "cr_group demo_crypto" demo_points] by (auto simp: writes_def demo_wire_def)
  from executed_calls_yield_tasks [OF demo_wire_lawful demo_wire_selectors demo_create_decodes r n b, of "[]"] d show ?thesis by auto
qed

section \<open>Signatures\<close>

text \<open>
  A signed message binds all its parts: two submissions with the same message hash agree in
  chain, table, caller, method, arguments and nonce, as long as the hash does not collide on the two
  messages; so a signature cannot be moved to another table, caller, method or sequence slot.
\<close>

theorem signed_message_binds:
  assumes "tx_message_hash H ch i a s args n = tx_message_hash H ch' i' a' s' args' n'"
    and "inj_on H {tx_message ch i a s args n, tx_message ch' i' a' s' args' n'}"
    and "ch < u64_bound" "ch' < u64_bound" "n < u64_bound" "n' < u64_bound" "length i = 28" "length i' = 28" "length a = 20"
      "length a' = 20" "length s = 32" "length s' = 32"
  shows "(ch, i, a, s, args, n) = (ch', i', a', s', args', n')"
proof -
  from assms(1,2) have "tx_message ch i a s args n = tx_message ch' i' a' s' args' n'"
    unfolding tx_message_hash_def by (auto dest: inj_onD)
  from tx_message_inj [OF this assms(3-)] show ?thesis by simp
qed

theorem signed_message_binds_witness:
  "tx_message_hash id 1 (replicate 28 2) (replicate 20 3) (replicate 32 4) [5] 6 =
     tx_message_hash id 1 (replicate 28 2) (replicate 20 3) (replicate 32 4) [5] 6 \<and>
   (1, replicate 28 2, replicate 20 3, replicate 32 4, [5], 6) = (1 :: nat, replicate 28 2, replicate 20 3, replicate 32 4, [5], 6 :: nat)"
  using signed_message_binds [of id 1 "replicate 28 2" "replicate 20 3" "replicate 32 4" "[5]" 6 1 "replicate 28 2" "replicate 20 3" "replicate 32 4" "[5]" 6]
  by simp

section \<open>The treasury receipt\<close>

record treasury_receipt =
  tr_table_id :: table_id
  tr_plan_digest :: "bytes option"
  tr_gross_pot :: nat
  tr_amount :: nat
  tr_post_rake_pot :: nat

text \<open>The anchors found so far: the settlement plan, the uncontested award and the rake event.\<close>

record anchors =
  an_plan :: "(table_id \<times> bytes \<times> nat \<times> nat \<times> nat) option"
  an_award :: "(table_id \<times> nat) option"
  an_rake :: "(table_id \<times> nat \<times> nat \<times> nat) option"

fun note_anchor :: "anchors \<Rightarrow> texas_event \<Rightarrow> anchors res" where
  "note_anchor a (SettlementPlanCommitted i digest runouts gross rake awards) =
     (if an_plan a \<noteq> None then Inl (Other ''Texas dispatch contains multiple settlement plans'')
      else Inr (a\<lparr>an_plan := Some (i, digest, gross, rake, awards)\<rparr>))"
| "note_anchor a (RakeCollected i before amount after mode) =
     (if an_rake a \<noteq> None then Inl (Other ''Texas dispatch contains multiple rake receipts'')
      else Inr (a\<lparr>an_rake := Some (i, before, amount, after)\<rparr>))"
| "note_anchor a (HandEndedWithoutShowdown i seat player pot) =
     (if an_award a \<noteq> None then Inl (Other ''Texas dispatch contains multiple uncontested settlements'')
      else Inr (a\<lparr>an_award := Some (i, pot)\<rparr>))"
| "note_anchor a _ = Inr a"

definition uncontested_receipt :: "table_id \<times> nat \<Rightarrow> (table_id \<times> nat \<times> nat \<times> nat) option \<Rightarrow> treasury_receipt option res" where
  "uncontested_receipt award rake_event = (case (award, rake_event) of
      (_, None) \<Rightarrow> Inr None
    | ((i, award), Some (ri, gross, rake, after)) \<Rightarrow>
        if ri \<noteq> i \<or> after \<noteq> award \<or> checked_add award rake \<noteq> Some gross
        then Inl (Other ''Texas rake receipt does not match its uncontested settlement'')
        else Inr (Some \<lparr>tr_table_id = i, tr_plan_digest = None, tr_gross_pot = gross, tr_amount = rake, tr_post_rake_pot = after\<rparr>))"

definition plan_receipt ::
    "(table_id \<times> bytes \<times> nat \<times> nat \<times> nat) option \<Rightarrow> (table_id \<times> nat \<times> nat \<times> nat) option \<Rightarrow> treasury_receipt option res" where
  "plan_receipt plan rake_event = (case (plan, rake_event) of
      (None, None) \<Rightarrow> Inr None
    | (None, Some _) \<Rightarrow> Inl (Other ''Texas rake receipt is detached from a settlement anchor'')
    | (Some (i, digest, gross, rake, awards), _) \<Rightarrow>
        if checked_add awards rake \<noteq> Some gross then Inl (Other ''Texas settlement plan violates gross = awards + rake'')
        else (case rake_event of
            None \<Rightarrow> if rake = 0 then Inr None
                    else Inl (Other ''Texas positive-rake settlement is missing its Treasury receipt'')
          | Some (ri, before, amount, after) \<Rightarrow>
              if rake = 0 then Inl (Other ''Texas zero-rake settlement contains a rake receipt'')
              else if ri \<noteq> i \<or> before \<noteq> gross \<or> amount \<noteq> rake \<or> after \<noteq> awards
              then Inl (Other ''Texas rake receipt does not match its settlement plan'')
              else Inr (Some \<lparr>tr_table_id = i, tr_plan_digest = Some digest, tr_gross_pot = gross, tr_amount = rake,
                     tr_post_rake_pot = awards\<rparr>)))"

definition settlement_treasury_receipt :: "events \<Rightarrow> treasury_receipt option res" where
  "settlement_treasury_receipt es =
     rbind (try_fold note_anchor \<lparr>an_plan = None, an_award = None, an_rake = None\<rparr> es) (\<lambda>a.
     if an_plan a \<noteq> None \<and> an_award a \<noteq> None then Inl (Other ''Texas dispatch mixes showdown and uncontested settlement anchors'')
     else case an_award a of
         Some award \<Rightarrow> uncontested_receipt award (an_rake a)
       | None \<Rightarrow> plan_receipt (an_plan a) (an_rake a))"

text \<open>What the events of a dispatch anchor, and that the scan finds exactly that.\<close>

fun rake_of :: "texas_event \<Rightarrow> (table_id \<times> nat \<times> nat \<times> nat) list" where
  "rake_of (RakeCollected i before amount after mode) = [(i, before, amount, after)]"
| "rake_of _ = []"

fun plan_of :: "texas_event \<Rightarrow> (table_id \<times> bytes \<times> nat \<times> nat \<times> nat) list" where
  "plan_of (SettlementPlanCommitted i digest runouts gross rake awards) = [(i, digest, gross, rake, awards)]"
| "plan_of _ = []"

fun award_of :: "texas_event \<Rightarrow> (table_id \<times> nat) list" where
  "award_of (HandEndedWithoutShowdown i seat player pot) = [(i, pot)]"
| "award_of _ = []"

definition at_most_one :: "'a option \<Rightarrow> 'a list" where
  "at_most_one x = (case x of None \<Rightarrow> [] | Some y \<Rightarrow> [y])"

lemma at_most_one_simps [simp]: "at_most_one None = []" "at_most_one (Some y) = [y]"
  by (simp_all add: at_most_one_def)

lemma note_anchor_finds:
  "note_anchor a e = Inr a' \<Longrightarrow> at_most_one (an_rake a') = at_most_one (an_rake a) @ rake_of e \<and>
     at_most_one (an_plan a') = at_most_one (an_plan a) @ plan_of e \<and> at_most_one (an_award a') = at_most_one (an_award a) @ award_of e"
  by (cases e) (auto simp del: not_None_eq split: if_splits)

lemma anchors_found:
  "try_fold note_anchor a es = Inr a' \<Longrightarrow> at_most_one (an_rake a') = at_most_one (an_rake a) @ concat (map rake_of es) \<and>
     at_most_one (an_plan a') = at_most_one (an_plan a) @ concat (map plan_of es) \<and>
     at_most_one (an_award a') = at_most_one (an_award a) @ concat (map award_of es)"
  by (induction es arbitrary: a) (auto simp: result_simps dest!: note_anchor_finds)

lemma at_most_one_eq: "at_most_one x = [y] \<longleftrightarrow> x = Some y" "at_most_one x = [] \<longleftrightarrow> x = None"
  by (cases x; simp)+

text \<open>
  The treasury receipt of a dispatch is backed by its events: when one is derived, the events
  contain exactly one rake event, for the table, the pot before, the amount and the pot after of the
  receipt; the pot before is the amount plus what was awarded, without wrapping; and the anchor of
  the receipt, a settlement plan with exactly this rake or an uncontested award, is the only one.
\<close>

theorem treasury_receipt_backed:
  assumes "settlement_treasury_receipt es = Inr (Some r)"
  shows "concat (map rake_of es) = [(tr_table_id r, tr_gross_pot r, tr_amount r, tr_post_rake_pot r)] \<and>
    tr_gross_pot r = tr_post_rake_pot r + tr_amount r \<and> tr_gross_pot r < u64_bound \<and>
    (case tr_plan_digest r of
       Some d \<Rightarrow> concat (map plan_of es) = [(tr_table_id r, d, tr_gross_pot r, tr_amount r, tr_post_rake_pot r)] \<and> concat (map award_of es) = []
     | None \<Rightarrow> concat (map award_of es) = [(tr_table_id r, tr_post_rake_pot r)] \<and> concat (map plan_of es) = [])"
proof -
  from assms obtain a where a: "try_fold note_anchor \<lparr>an_plan = None, an_award = None, an_rake = None\<rparr> es = Inr a"
    and r: "(case an_award a of Some award \<Rightarrow> uncontested_receipt award (an_rake a) | None \<Rightarrow> plan_receipt (an_plan a) (an_rake a)) = Inr (Some r)"
    and one: "an_plan a = None \<or> an_award a = None"
    by (auto simp: settlement_treasury_receipt_def result_simps simp del: not_None_eq split: if_splits)
  from anchors_found [OF a] have f: "concat (map rake_of es) = at_most_one (an_rake a)" "concat (map plan_of es) = at_most_one (an_plan a)"
    "concat (map award_of es) = at_most_one (an_award a)" by simp_all
  show ?thesis
  proof (cases "an_award a")
    case None
    with r obtain i d gross rake awards where "an_plan a = Some (i, d, gross, rake, awards)" "an_rake a = Some (i, gross, rake, awards)"
      "checked_add awards rake = Some gross"
      "r = \<lparr>tr_table_id = i, tr_plan_digest = Some d, tr_gross_pot = gross, tr_amount = rake, tr_post_rake_pot = awards\<rparr>"
      by (auto simp: plan_receipt_def split: option.splits prod.splits if_splits)
    with None show ?thesis by (auto simp: f checked_add_Some_iff)
  next
    case (Some award)
    with r obtain i n gross rake where "award = (i, n)" "an_rake a = Some (i, gross, rake, n)" "checked_add n rake = Some gross"
      "r = \<lparr>tr_table_id = i, tr_plan_digest = None, tr_gross_pot = gross, tr_amount = rake, tr_post_rake_pot = n\<rparr>"
      by (auto simp: uncontested_receipt_def split: option.splits prod.splits if_splits)
    with Some one show ?thesis by (auto simp: f checked_add_Some_iff)
  qed
qed

theorem treasury_receipt_backed_witness:
  "settlement_treasury_receipt [RakeCollected [1] 100 5 95 1, HandEndedWithoutShowdown [1] 0 [7] 95] =
     Inr (Some \<lparr>tr_table_id = [1], tr_plan_digest = None, tr_gross_pot = 100, tr_amount = 5, tr_post_rake_pot = 95\<rparr>) \<and>
   (100 :: nat) = 95 + 5"
proof -
  have e: "settlement_treasury_receipt [RakeCollected [1] 100 5 95 1, HandEndedWithoutShowdown [1] 0 [7] 95] =
     Inr (Some \<lparr>tr_table_id = [1], tr_plan_digest = None, tr_gross_pot = 100, tr_amount = 5, tr_post_rake_pot = 95\<rparr>)"
    by (simp add: settlement_treasury_receipt_def uncontested_receipt_def checked_add_def)
  from treasury_receipt_backed [OF e] e show ?thesis by simp
qed

end
