(* ===== verification/Poker_Pending.thy ===== *)
theory Poker_Pending
  imports Poker_Borsh "HOL-Library.Sublist"
begin

text \<open>
  The queue of commands that came too early (\<^verbatim>\<open>poker_l1/.../runtime/pending.rs\<close>): a purely
  mechanical part that keeps, replays and buries entries as the holder of the table decides. The
  decision is a function on the holder's state, an argument of every operation; entries are generic
  in their envelope.
\<close>

section \<open>The queue\<close>

definition MAX_DEAD :: nat where "MAX_DEAD = 128"
definition MAX_HOLDS :: nat where "MAX_HOLDS = 64"

datatype apply_outcome = Applied | Hold | Reject poker_error

type_synonym ('e, 's) apply_fn = "'e \<Rightarrow> bytes \<Rightarrow> bytes \<Rightarrow> 's \<Rightarrow> 's \<times> apply_outcome"

record 'e pending_entry =
  pe_envelope :: 'e
  pe_selector :: bytes
  pe_args :: bytes
  pe_hold_count :: nat
  pe_last_reject :: "poker_error option"

record 'e pending_queue =
  pq_entries :: "'e pending_entry list"
  pq_dead :: "'e pending_entry list"
  pq_max_entries :: nat
  pq_held_total :: nat
  pq_flushed_total :: nat
  pq_dead_dropped :: nat

definition pending_new :: "nat \<Rightarrow> 'e pending_queue" where
  "pending_new max_entries = \<lparr>pq_entries = [], pq_dead = [], pq_max_entries = max_entries, pq_held_total = 0,
     pq_flushed_total = 0, pq_dead_dropped = 0\<rparr>"

definition dead_letter :: "'e pending_entry \<Rightarrow> 'e pending_queue \<Rightarrow> 'e pending_queue" where
  "dead_letter e q =
     (if length (pq_dead q) \<ge> MAX_DEAD then q\<lparr>pq_dead_dropped := pq_dead_dropped q + 1\<rparr>
      else q\<lparr>pq_dead := pq_dead q @ [e]\<rparr>)"

definition pending_submit ::
    "('e, 's) apply_fn \<Rightarrow> 'e \<Rightarrow> bytes \<Rightarrow> bytes \<Rightarrow> 'e pending_queue \<Rightarrow> 's \<Rightarrow> 'e pending_queue \<times> 's \<times> unit res" where
  "pending_submit ap envelope sel args q s = (case ap envelope sel args s of
      (s, Applied) \<Rightarrow> (q, s, Inr ())
    | (s, Hold) \<Rightarrow>
        if length (pq_entries q) \<ge> pq_max_entries q then (q, s, Inl (Other ''pending queue full''))
        else (q\<lparr>pq_entries := pq_entries q @ [\<lparr>pe_envelope = envelope, pe_selector = sel, pe_args = args, pe_hold_count = 0,
                 pe_last_reject = None\<rparr>],
               pq_held_total := pq_held_total q + 1\<rparr>, s, Inr ())
    | (s, Reject e) \<Rightarrow> (q, s, Inl e))"

text \<open>
  One pass over the entries. The entries before the index have been kept, the ones from the index
  on are still to be tried; the queue is \<open>kept @ rest\<close> throughout.
\<close>

fun flush_pass ::
    "('e, 's) apply_fn \<Rightarrow> 'e pending_entry list \<Rightarrow> 'e pending_entry list \<Rightarrow> 'e pending_queue \<Rightarrow> 's \<Rightarrow>
     'e pending_queue \<times> 's \<times> nat" where
  "flush_pass ap kept [] q s = (q\<lparr>pq_entries := kept\<rparr>, s, 0)"
| "flush_pass ap kept (e # rest) q s = (case ap (pe_envelope e) (pe_selector e) (pe_args e) s of
      (s, Applied) \<Rightarrow>
        (case flush_pass ap kept rest (q\<lparr>pq_flushed_total := pq_flushed_total q + 1\<rparr>) s of (q, s, n) \<Rightarrow> (q, s, n + 1))
    | (s, Reject err) \<Rightarrow> flush_pass ap kept rest (dead_letter (e\<lparr>pe_last_reject := Some err\<rparr>) q) s
    | (s, Hold) \<Rightarrow>
        let e = e\<lparr>pe_hold_count := pe_hold_count e + 1\<rparr> in
        if pe_hold_count e \<ge> MAX_HOLDS then flush_pass ap kept rest (dead_letter e q) s
        else flush_pass ap (kept @ [e]) rest q s)"

lemma flush_pass_shrinks:
  "flush_pass ap kept rest q s = (q', s', n) \<Longrightarrow> length (pq_entries q') + n \<le> length kept + length rest"
proof (induction rest arbitrary: kept q s q' s' n)
  case (Cons e rest)
  obtain s1 r where a: "ap (pe_envelope e) (pe_selector e) (pe_args e) s = (s1, r)" by fastforce
  show ?case
  proof (cases r)
    case Applied
    obtain q2 s2 m where f: "flush_pass ap kept rest (q\<lparr>pq_flushed_total := pq_flushed_total q + 1\<rparr>) s1 = (q2, s2, m)"
      using prod_cases3 by blast
    from Cons.IH [OF f] Cons.prems a Applied f show ?thesis by simp
  next
    case Hold
    then show ?thesis
      using Cons.prems a Cons.IH by (fastforce simp: Let_def split: if_splits)
  next
    case (Reject err)
    then show ?thesis using Cons.prems a Cons.IH by fastforce
  qed
qed simp

text \<open>Passes are repeated while one of them applied an entry.\<close>

function flush_loop :: "('e, 's) apply_fn \<Rightarrow> 'e pending_queue \<Rightarrow> 's \<Rightarrow> 'e pending_queue \<times> 's \<times> nat" where
  "flush_loop ap q s = (case flush_pass ap [] (pq_entries q) q s of (q', s', n) \<Rightarrow>
     if n > 0 then (case flush_loop ap q' s' of (q'', s'', m) \<Rightarrow> (q'', s'', n + m)) else (q', s', n))"
  by pat_completeness auto
termination
  by (relation "measure (\<lambda>(ap, q, s). length (pq_entries q))", simp, clarsimp)
    (drule flush_pass_shrinks [OF sym], simp)

declare flush_loop.simps [simp del]

definition pending_flush :: "('e, 's) apply_fn \<Rightarrow> 'e pending_queue \<Rightarrow> 's \<Rightarrow> 'e pending_queue \<times> 's \<times> nat" where
  "pending_flush ap q s = flush_loop ap q s"

definition deny_unmatched :: "'e pending_queue \<Rightarrow> unit res" where
  "deny_unmatched q =
     (if pq_entries q = [] then Inr ()
      else Inl (Serialization ''pending queue has unmatched command(s) at hand end -- fail-closed''))"

definition pending_clear :: "'e pending_queue \<Rightarrow> 'e pending_queue" where
  "pending_clear q = q\<lparr>pq_entries := [], pq_dead := []\<rparr>"

section \<open>Nothing vanishes, nothing overtakes\<close>

text \<open>
  An invariant of a queue that a pass keeps: \<open>I\<close> speaks of the queue with the entries \<open>kept @ rest\<close>.
\<close>

definition bounded :: "'e pending_queue \<Rightarrow> bool" where
  "bounded q \<longleftrightarrow> length (pq_entries q) \<le> pq_max_entries q \<and> length (pq_dead q) \<le> MAX_DEAD \<and>
     (\<forall>e\<in>set (pq_entries q). pe_hold_count e < MAX_HOLDS)"

definition accounted :: "'e pending_queue \<Rightarrow> nat \<Rightarrow> bool" where
  "accounted q cleared \<longleftrightarrow>
     pq_held_total q = pq_flushed_total q + length (pq_entries q) + length (pq_dead q) + pq_dead_dropped q + cleared"

definition command_of :: "'e pending_entry \<Rightarrow> 'e \<times> bytes \<times> bytes" where
  "command_of e = (pe_envelope e, pe_selector e, pe_args e)"

lemma dead_letter_fields [simp]:
  "pq_entries (dead_letter e q) = pq_entries q" "pq_max_entries (dead_letter e q) = pq_max_entries q"
  "pq_held_total (dead_letter e q) = pq_held_total q" "pq_flushed_total (dead_letter e q) = pq_flushed_total q"
  by (simp_all add: dead_letter_def)

lemma dead_letter_counts: "length (pq_dead (dead_letter e q)) + pq_dead_dropped (dead_letter e q) = length (pq_dead q) + pq_dead_dropped q + 1"
  by (simp add: dead_letter_def)

lemma dead_letter_bound: "length (pq_dead q) \<le> MAX_DEAD \<Longrightarrow> length (pq_dead (dead_letter e q)) \<le> MAX_DEAD"
  by (simp add: dead_letter_def)

text \<open>What one pass does, entry by entry.\<close>

lemma flush_pass_rule:
  assumes "flush_pass ap kept rest q s = (q', s', n)" "I kept rest q s 0"
    and "\<And>kept e rest q s s1 n. I kept (e # rest) q s n \<Longrightarrow> ap (pe_envelope e) (pe_selector e) (pe_args e) s = (s1, Applied) \<Longrightarrow>
      I kept rest (q\<lparr>pq_flushed_total := pq_flushed_total q + 1\<rparr>) s1 (n + 1)"
    and "\<And>kept e rest q s s1 n err. I kept (e # rest) q s n \<Longrightarrow> ap (pe_envelope e) (pe_selector e) (pe_args e) s = (s1, Reject err) \<Longrightarrow>
      I kept rest (dead_letter (e\<lparr>pe_last_reject := Some err\<rparr>) q) s1 n"
    and "\<And>kept e rest q s s1 n. I kept (e # rest) q s n \<Longrightarrow> ap (pe_envelope e) (pe_selector e) (pe_args e) s = (s1, Hold) \<Longrightarrow>
      pe_hold_count e + 1 \<ge> MAX_HOLDS \<Longrightarrow> I kept rest (dead_letter (e\<lparr>pe_hold_count := pe_hold_count e + 1\<rparr>) q) s1 n"
    and "\<And>kept e rest q s s1 n. I kept (e # rest) q s n \<Longrightarrow> ap (pe_envelope e) (pe_selector e) (pe_args e) s = (s1, Hold) \<Longrightarrow>
      pe_hold_count e + 1 < MAX_HOLDS \<Longrightarrow> I (kept @ [e\<lparr>pe_hold_count := pe_hold_count e + 1\<rparr>]) rest q s1 n"
  obtains kept' q1 where "I kept' [] q1 s' n" "q' = q1\<lparr>pq_entries := kept'\<rparr>"
proof -
  have "\<exists>kept' q1. I kept' [] q1 s' (m + n) \<and> q' = q1\<lparr>pq_entries := kept'\<rparr>"
    if "flush_pass ap kept rest q s = (q', s', n)" "I kept rest q s m" for kept rest q s n m
    using that
  proof (induction rest arbitrary: kept q s n m)
    case (Cons e rest)
    obtain s1 r where a: "ap (pe_envelope e) (pe_selector e) (pe_args e) s = (s1, r)" by fastforce
    show ?case
    proof (cases r)
      case Applied
      obtain q2 s2 k where f: "flush_pass ap kept rest (q\<lparr>pq_flushed_total := pq_flushed_total q + 1\<rparr>) s1 = (q2, s2, k)"
        using prod_cases3 by blast
      from Cons.prems(1) a Applied f have e: "q2 = q'" "s2 = s'" "n = k + 1" by simp_all
      have "I kept rest (q\<lparr>pq_flushed_total := pq_flushed_total q + 1\<rparr>) s1 (m + 1)"
        using assms(3) Cons.prems(2) a Applied by blast
      from Cons.IH [OF f [unfolded e(1,2)] this] e(3) show ?thesis by simp
    next
      case Hold
      show ?thesis
      proof (cases "pe_hold_count e + 1 \<ge> MAX_HOLDS")
        case True
        then show ?thesis
          using Cons.IH [OF _ assms(5) [OF Cons.prems(2) a [unfolded Hold] True]] Cons.prems(1) a Hold by (simp add: Let_def)
      next
        case False
        then have "pe_hold_count e + 1 < MAX_HOLDS" by simp
        then show ?thesis
          using Cons.IH [OF _ assms(6) [OF Cons.prems(2) a [unfolded Hold]]] Cons.prems(1) a Hold by (simp add: Let_def)
      qed
    next
      case (Reject err)
      then show ?thesis using Cons.IH [OF _ assms(4) [OF Cons.prems(2) a [unfolded Reject]]] Cons.prems(1) a by simp
    qed
  qed auto
  from this [OF assms(1,2)] show ?thesis using that by auto
qed

lemma pass_bounded:
  assumes "flush_pass ap [] (pq_entries q) q s = (q', s', n)" "bounded q"
  shows "bounded q' \<and> pq_max_entries q' = pq_max_entries q"
proof -
  let ?I = "\<lambda>kept rest q1 (s1 :: 's) (n :: nat). length kept + length rest \<le> pq_max_entries q \<and> length (pq_dead q1) \<le> MAX_DEAD \<and>
    (\<forall>e\<in>set kept. pe_hold_count e < MAX_HOLDS) \<and> pq_max_entries q1 = pq_max_entries q"
  have "?I [] (pq_entries q) q s 0" using assms(2) by (simp add: bounded_def)
  from assms(1) this obtain kept q1 where "?I kept [] q1 s' n" "q' = q1\<lparr>pq_entries := kept\<rparr>"
    by (rule flush_pass_rule [where I = ?I]) (auto intro: dead_letter_bound)
  then show ?thesis by (simp add: bounded_def)
qed

lemma pass_accounted:
  assumes "flush_pass ap [] (pq_entries q) q s = (q', s', n)" "accounted q c"
  shows "accounted q' c \<and> pq_flushed_total q' = pq_flushed_total q + n"
proof -
  let ?I = "\<lambda>kept rest q1 (s1 :: 's) n. pq_held_total q1 = pq_flushed_total q1 + length kept + length rest + length (pq_dead q1) + pq_dead_dropped q1 + c \<and>
    pq_flushed_total q1 = pq_flushed_total q + n"
  have "?I [] (pq_entries q) q s 0" using assms(2) by (simp add: accounted_def)
  from assms(1) this obtain kept q1 where "?I kept [] q1 s' n" "q' = q1\<lparr>pq_entries := kept\<rparr>"
    by (rule flush_pass_rule [where I = ?I]) (auto simp: dead_letter_def)
  then show ?thesis by (simp add: accounted_def)
qed

lemma pass_ordered:
  assumes "flush_pass ap [] (pq_entries q) q s = (q', s', n)"
  shows "subseq (map command_of (pq_entries q')) (map command_of (pq_entries q))"
proof -
  let ?I = "\<lambda>kept rest (q1 :: 'a pending_queue) (s1 :: 's) (n :: nat). subseq (map command_of kept @ map command_of rest) (map command_of (pq_entries q))"
  have drop: "subseq (xs @ ys) zs" if "subseq (xs @ y # ys) zs" for xs ys zs and y :: "'a \<times> bytes \<times> bytes"
    using that by (rule subseq_order.trans [rotated]) (intro list_emb_append_mono list_emb_Cons subseq_order.refl)
  have same: "command_of (e\<lparr>pe_hold_count := m\<rparr>) = command_of e" for e :: "'a pending_entry" and m by (simp add: command_of_def)
  have "?I [] (pq_entries q) q s 0" by simp
  from assms this obtain kept q1 where "?I kept [] q1 s' n" "q' = q1\<lparr>pq_entries := kept\<rparr>"
    by (rule flush_pass_rule [where I = ?I]) (auto dest: drop simp: same)
  then show ?thesis by simp
qed

lemma flush_loop_rule:
  assumes "flush_loop ap q s = (q', s', n)" "P q s"
    and "\<And>q s q' s' n. P q s \<Longrightarrow> flush_pass ap [] (pq_entries q) q s = (q', s', n) \<Longrightarrow> P q' s'"
  shows "P q' s'"
  using assms
proof (induction ap q s arbitrary: q' s' n rule: flush_loop.induct)
  case (1 ap q s)
  obtain q1 s1 k where p: "flush_pass ap [] (pq_entries q) q s = (q1, s1, k)" using prod_cases3 by blast
  have P1: "P q1 s1" by (rule 1(4) [OF 1(3) p])
  show ?case
  proof (cases "k > 0")
    case True
    obtain q2 s2 m where l: "flush_loop ap q1 s1 = (q2, s2, m)" using prod_cases3 by blast
    with 1(2) p True have e: "q2 = q'" "s2 = s'" by (auto simp: flush_loop.simps [of ap q])
    have "P q2 s2" by (rule 1(1) [OF p [symmetric] refl True l P1]) (rule 1(4))
    then show ?thesis by (simp add: e)
  next
    case False
    with 1(2) p P1 show ?thesis by (simp add: flush_loop.simps [of ap q])
  qed
qed

lemma submit_accounted:
  "pending_submit ap envelope sel args q s = (q', s', r) \<Longrightarrow> accounted q c \<Longrightarrow> accounted q' c"
  by (auto simp: pending_submit_def accounted_def split: prod.splits apply_outcome.splits if_splits)

lemma submit_bounded:
  "pending_submit ap envelope sel args q s = (q', s', r) \<Longrightarrow> bounded q \<Longrightarrow> bounded q' \<and> pq_max_entries q' = pq_max_entries q"
  by (auto simp: pending_submit_def bounded_def MAX_HOLDS_def split: prod.splits apply_outcome.splits if_splits)

lemma flush_accounted: "pending_flush ap q s = (q', s', n) \<Longrightarrow> accounted q c \<Longrightarrow> accounted q' c"
  unfolding pending_flush_def
  by (erule flush_loop_rule [where P = "\<lambda>q t. accounted q c"], assumption) (drule pass_accounted, assumption, erule conjunct1)

lemma flush_bounded:
  assumes "pending_flush ap q s = (q', s', n)" "bounded q"
  shows "bounded q' \<and> pq_max_entries q' = pq_max_entries q"
  by (rule flush_loop_rule [OF assms(1) [unfolded pending_flush_def], where P = "\<lambda>q1 t. bounded q1 \<and> pq_max_entries q1 = pq_max_entries q"])
    (simp add: assms(2), elim conjE, drule pass_bounded, assumption, simp)

lemma flush_ordered:
  assumes "pending_flush ap q s = (q', s', n)"
  shows "subseq (map command_of (pq_entries q')) (map command_of (pq_entries q))"
  by (rule flush_loop_rule [OF assms [unfolded pending_flush_def], where P = "\<lambda>q1 t. subseq (map command_of (pq_entries q1)) (map command_of (pq_entries q))"])
    (simp, drule pass_ordered, erule subseq_order.trans, assumption)

text \<open>A queue in use, with a count of the commands that clearing removed.\<close>

datatype 'e queue_op = QSubmit 'e bytes bytes | QFlush | QClear

fun queue_step :: "('e, 's) apply_fn \<Rightarrow> 'e queue_op \<Rightarrow> 'e pending_queue \<times> 's \<times> nat \<Rightarrow> 'e pending_queue \<times> 's \<times> nat" where
  "queue_step ap (QSubmit envelope sel args) (q, s, c) = (case pending_submit ap envelope sel args q s of (q, s, _) \<Rightarrow> (q, s, c))"
| "queue_step ap QFlush (q, s, c) = (case pending_flush ap q s of (q, s, _) \<Rightarrow> (q, s, c))"
| "queue_step ap QClear (q, s, c) = (pending_clear q, s, c + length (pq_entries q) + length (pq_dead q))"

definition queue_run :: "('e, 's) apply_fn \<Rightarrow> 'e queue_op list \<Rightarrow> nat \<Rightarrow> 's \<Rightarrow> 'e pending_queue \<times> 's \<times> nat" where
  "queue_run ap ops max_entries s = fold (queue_step ap) ops (pending_new max_entries, s, 0)"

definition queue_ok :: "nat \<Rightarrow> 'e pending_queue \<times> 's \<times> nat \<Rightarrow> bool" where
  "queue_ok m x = (case x of (q, s, c) \<Rightarrow> bounded q \<and> pq_max_entries q = m \<and> accounted q c)"

lemma queue_step_ok: "queue_ok m x \<Longrightarrow> queue_ok m (queue_step ap op x)"
proof -
  assume ok: "queue_ok m x"
  obtain q s c where x: "x = (q, s, c)" using prod_cases3 by blast
  with ok have o: "bounded q" "pq_max_entries q = m" "accounted q c" by (simp_all add: queue_ok_def)
  show ?thesis
  proof (cases op)
    case (QSubmit envelope sel args)
    obtain q1 s1 r where p: "pending_submit ap envelope sel args q s = (q1, s1, r)" using prod_cases3 by blast
    from submit_bounded [OF p o(1)] submit_accounted [OF p o(3)] o(2) p QSubmit show ?thesis by (simp add: x queue_ok_def)
  next
    case QFlush
    obtain q1 s1 n where p: "pending_flush ap q s = (q1, s1, n)" using prod_cases3 by blast
    from flush_bounded [OF p o(1)] flush_accounted [OF p o(3)] o(2) p QFlush show ?thesis by (simp add: x queue_ok_def)
  next
    case QClear
    with o show ?thesis by (simp add: x queue_ok_def pending_clear_def bounded_def accounted_def)
  qed
qed

text \<open>
  C36. The queue is bounded and loses nothing silently: after any sequence of submissions, flushes
  and clearings, whatever the holder decides, it holds at most its capacity of live entries, at most
  128 dead ones, every live entry has been held fewer than 64 times, and every command ever held
  back is accounted for exactly once, as flushed, live, dead, dropped or cleared.
\<close>

theorem queue_accounts_for_everything:
  "case queue_run ap ops m s of (q, _, cleared) \<Rightarrow>
     length (pq_entries q) \<le> m \<and> length (pq_dead q) \<le> 128 \<and> list_all (\<lambda>e. pe_hold_count e < 64) (pq_entries q) \<and>
     pq_held_total q = pq_flushed_total q + length (pq_entries q) + length (pq_dead q) + pq_dead_dropped q + cleared"
proof -
  have "queue_ok m x \<Longrightarrow> queue_ok m (fold (queue_step ap) ops x)" for x
    by (induction ops arbitrary: x) (simp_all del: split_paired_All queue_step.simps add: queue_step_ok)
  moreover have "queue_ok m (pending_new m, s, 0)" by (simp add: queue_ok_def pending_new_def bounded_def accounted_def)
  ultimately have "queue_ok m (queue_run ap ops m s)" unfolding queue_run_def by blast
  then show ?thesis by (auto simp: queue_ok_def bounded_def accounted_def MAX_DEAD_def MAX_HOLDS_def list_all_iff)
qed

text \<open>
  A flush never reorders: the commands that remain are a subsequence of the commands that were
  waiting, with their arguments and envelopes unchanged.
\<close>

theorem flush_keeps_order:
  "subseq (map command_of (pq_entries (fst (pending_flush ap q s)))) (map command_of (pq_entries q))"
  by (cases "pending_flush ap q s") (auto dest: flush_ordered)

section \<open>The contract with the holder of the table\<close>

text \<open>
  A holder moves its state along a preorder whatever the outcome, and holds back only commands it
  declares holdable. Then so do the operations of the queue, and the queue holds nothing else.
\<close>

definition admissible :: "(bytes \<Rightarrow> bool) \<Rightarrow> 'e pending_queue \<Rightarrow> bool" where
  "admissible holdable q \<longleftrightarrow> bounded q \<and> (\<forall>e\<in>set (pq_entries q). holdable (pe_selector e))"

locale queue_holder =
  fixes ap :: "('e, 's) apply_fn" and le :: "'s \<Rightarrow> 's \<Rightarrow> bool" and holdable :: "bytes \<Rightarrow> bool"
  assumes le_refl: "le s s"
    and le_trans: "le s t \<Longrightarrow> le t u \<Longrightarrow> le s u"
    and moves: "ap envelope sel args s = (s', r) \<Longrightarrow> le s s'"
    and held_back: "ap envelope sel args s = (s', Hold) \<Longrightarrow> holdable sel"
begin

lemma submit_moves:
  assumes "pending_submit ap envelope sel args q s = (q', s', r)"
  shows "le s s'"
  using assms by (auto simp: pending_submit_def dest: moves split: prod.splits apply_outcome.splits if_splits)

lemma submit_admissible:
  assumes "pending_submit ap envelope sel args q s = (q', s', r)" "admissible holdable q"
  shows "admissible holdable q' \<and> pq_max_entries q' = pq_max_entries q"
proof -
  obtain s1 out where a: "ap envelope sel args s = (s1, out)" by fastforce
  have "out = Hold \<Longrightarrow> holdable sel" using held_back a by blast
  with assms a show ?thesis
    by (cases out) (auto simp: pending_submit_def admissible_def bounded_def MAX_HOLDS_def split: if_splits)
qed

lemma pass_moves:
  assumes "flush_pass ap kept rest q s = (q', s', n)"
  shows "le s s'"
proof -
  from assms le_refl obtain kept' q1 where "le s s'"
    by (rule flush_pass_rule [where I = "\<lambda>kept rest q t n. le s t"]) (use moves le_trans in blast)+
  then show ?thesis .
qed

lemma flush_moves: "pending_flush ap q s = (q', s', n) \<Longrightarrow> le s s'"
  unfolding pending_flush_def
  by (rule flush_loop_rule [where P = "\<lambda>q t. le s t"]) (use le_refl pass_moves le_trans in blast)+

lemma pass_admissible:
  assumes "admissible holdable q" "flush_pass ap [] (pq_entries q) q s = (q', s', n)"
  shows "admissible holdable q' \<and> pq_max_entries q' = pq_max_entries q"
proof -
  have "set (map command_of (pq_entries q')) \<subseteq> set (map command_of (pq_entries q))"
    using pass_ordered [OF assms(2)] by (rule list_emb_set [THEN subsetI]) auto
  then show ?thesis using assms pass_bounded [OF assms(2)] by (force simp: admissible_def command_of_def)
qed

lemma flush_admissible:
  assumes "pending_flush ap q s = (q', s', n)" "admissible holdable q"
  shows "admissible holdable q' \<and> pq_max_entries q' = pq_max_entries q"
proof -
  have "admissible holdable q' \<and> pq_max_entries q' = pq_max_entries q"
    by (rule flush_loop_rule [OF assms(1) [unfolded pending_flush_def], where P = "\<lambda>q1 t. admissible holdable q1 \<and> pq_max_entries q1 = pq_max_entries q"])
      (use assms(2) pass_admissible in auto)
  then show ?thesis .
qed

end

end
