(* ===== verification/Poker_Runtime.thy ===== *)
theory Poker_Runtime
  imports Poker_Replay Poker_Pending
begin

text \<open>
  The runtime in front of the dispatcher (\<^verbatim>\<open>poker_l1/.../runtime/table_runtime.rs\<close>,
  \<^verbatim>\<open>caller_id.rs\<close>, \<^verbatim>\<open>signature/unified.rs\<close>): addresses of wallets, verification of a
  submission against the key registered at its seat, the nonce watermark of every account, the
  queue of early reveal submissions, and the collection of tasks and events.

  Hex decoding, the derived identity key and the three signature schemes belong to libraries and
  curves; they are arguments. The height of the chain is a 64-bit counter that wraps.
\<close>

section \<open>Callers\<close>

record ('pt, 'pf) runtime_lib =
  ul_crypto :: "'pt crypto"
  ul_reconstruction :: "'pt reconstruction_lib"
  ul_wire :: "('pt, 'pf) wire_lib"
  ul_hex :: "string \<Rightarrow> bytes option"
  ul_identity :: "string \<Rightarrow> bytes"
  ul_secp256k1 :: "tagged_pubkey \<Rightarrow> bytes \<Rightarrow> bytes \<Rightarrow> unit res"
  ul_ed25519 :: "tagged_pubkey \<Rightarrow> bytes \<Rightarrow> bytes \<Rightarrow> unit res"
  ul_stark :: "tagged_pubkey \<Rightarrow> bytes \<Rightarrow> bytes \<Rightarrow> unit res"

definition strip_0x :: "string \<Rightarrow> string" where
  "strip_0x s = (if take 2 s = ''0x'' \<or> take 2 s = ''0X'' then drop 2 s else s)"

definition wallet_to_address :: "(string \<Rightarrow> bytes option) \<Rightarrow> string \<Rightarrow> address res" where
  "wallet_to_address hex_decode felt_hex =
     (let hex = strip_0x felt_hex in
      if hex = [] \<or> length hex > 64 then Inl (Serialization ''wallet felt hex malformed'')
      else let padded = (if odd (length hex) then CHR ''0'' # hex else hex) in
      rbind (ok_or (hex_decode padded) (Serialization ''wallet felt hex decode'')) (\<lambda>raw.
      if length raw > 32 then Inl (Serialization ''wallet felt exceeds 32 bytes'')
      else Inr (drop 12 (replicate (32 - length raw) 0 @ raw))))"

definition identity_tagged_pk :: "(string \<Rightarrow> bytes) \<Rightarrow> string \<Rightarrow> tagged_pubkey res" where
  "identity_tagged_pk identity felt_hex = (case tagged_new Stark CURRENT_VERSION (identity felt_hex) of
      Inl _ \<Rightarrow> Inl (Panic ''compressed stark point is 32 bytes'')
    | Inr pk \<Rightarrow> Inr pk)"

record caller_identity =
  ci_wallet :: string
  ci_address :: address
  ci_pubkey :: tagged_pubkey

definition caller_from_wallet :: "('pt, 'pf) runtime_lib \<Rightarrow> string \<Rightarrow> caller_identity res" where
  "caller_from_wallet U wallet =
     rbind (wallet_to_address (ul_hex U) wallet) (\<lambda>address.
     rbind (identity_tagged_pk (ul_identity U) wallet) (\<lambda>pubkey.
       Inr \<lparr>ci_wallet = wallet, ci_address = address, ci_pubkey = pubkey\<rparr>))"

definition verify_signature :: "('pt, 'pf) runtime_lib \<Rightarrow> tagged_pubkey \<Rightarrow> bytes \<Rightarrow> bytes \<Rightarrow> unit res" where
  "verify_signature U pk sig msg_hash =
     rbind (parse_tag (tp_tag pk)) (\<lambda>(scheme, _). case scheme of
         Secp256k1 \<Rightarrow> ul_secp256k1 U pk sig msg_hash
       | Ed25519 \<Rightarrow> ul_ed25519 U pk sig msg_hash
       | Stark \<Rightarrow> ul_stark U pk sig msg_hash)"

section \<open>The runtime\<close>

record submission =
  sb_wallet :: string
  sb_block_timestamp :: nat
  sb_selector :: bytes
  sb_args :: bytes
  sb_signature :: bytes
  sb_nonce :: nat

text \<open>The part the queue's decisions work on, and the runtime with its queue.\<close>

record 'pt host =
  h_table :: "'pt table"
  h_chain_id :: nat
  h_block_height :: nat
  h_account_nonces :: "address \<rightharpoonup> nat"
  h_tasks :: "'pt table prove_task list"
  h_events :: events

record 'pt table_runtime =
  rt_host :: "'pt host"
  rt_pending :: "submission pending_queue"

definition runtime_new :: "'pt table \<Rightarrow> nat \<Rightarrow> 'pt table_runtime" where
  "runtime_new t chain_id = \<lparr>rt_host = \<lparr>h_table = t, h_chain_id = chain_id, h_block_height = 0, h_account_nonces = Map.empty,
      h_tasks = [], h_events = []\<rparr>,
     rt_pending = pending_new 64\<rparr>"

definition verify_submission ::
    "('pt, 'pf) runtime_lib \<Rightarrow> nat \<Rightarrow> 'pt table \<Rightarrow> string \<Rightarrow> bytes \<Rightarrow> bytes \<Rightarrow> nat \<Rightarrow> bytes \<Rightarrow> unit res" where
  "verify_submission U chain_id t wallet sel args nonce sig =
     rbind (wallet_to_address (ul_hex U) wallet) (\<lambda>address.
     rbind (ok_or (registered_tx_pk_of t address) (Serialization ''no registered session tx public key for wallet at this table'')) (\<lambda>tx_pk.
       verify_signature U (stark_to_tagged tx_pk) sig
         (tx_message_hash (wl_hash (ul_wire U)) chain_id (t_id t) address sel args nonce)))"

definition holdable_command :: "(bytes \<Rightarrow> bytes) \<Rightarrow> bytes \<Rightarrow> bool" where
  "holdable_command H sel \<longleftrightarrow> sel = selector H SubmitPlayerRevealTokens"

definition is_window_error :: "poker_error \<Rightarrow> bool" where
  "is_window_error e = (case e of PhaseWindowClosed _ \<Rightarrow> True | _ \<Rightarrow> False)"

definition classify_dispatch_error :: "(bytes \<Rightarrow> bytes) \<Rightarrow> bytes \<Rightarrow> poker_error \<Rightarrow> apply_outcome" where
  "classify_dispatch_error H sel e = (if is_window_error e \<and> holdable_command H sel then Hold else Reject e)"

definition collect_into :: "('pt, 'pf) runtime_lib \<Rightarrow> bytes dispatch_output \<Rightarrow> 'pt host \<Rightarrow> 'pt host \<times> unit res" where
  "collect_into U out h = (case out_prove_task out of
      None \<Rightarrow> (h\<lparr>h_events := h_events h @ out_events out\<rparr>, Inr ())
    | Some task \<Rightarrow>
        (case get_task (cr_group (ul_crypto U)) (ul_wire U) task of
           Inl e \<Rightarrow> (h, Inl (Serialization ''dispatch output decode''))
         | Inr task \<Rightarrow> (h\<lparr>h_tasks := h_tasks h @ [task], h_events := h_events h @ out_events out\<rparr>, Inr ())))"

definition next_height :: "nat \<Rightarrow> nat" where
  "next_height h = (h + 1) mod u64_bound"

definition context_of :: "caller_identity \<Rightarrow> nat \<Rightarrow> 'pt host \<Rightarrow> runtime_context" where
  "context_of caller timestamp h = \<lparr>dc_caller = ci_address caller, dc_block_timestamp = timestamp, rc_caller_pubkey = ci_pubkey caller,
     rc_chain_id = h_chain_id h, rc_block_height = h_block_height h\<rparr>"

definition raise_watermark :: "address \<Rightarrow> nat \<Rightarrow> (address \<rightharpoonup> nat) \<Rightarrow> (address \<rightharpoonup> nat)" where
  "raise_watermark address nonce m = m(address \<mapsto> (case m address of None \<Rightarrow> nonce | Some w \<Rightarrow> max w nonce))"

definition is_stale :: "'pt host \<Rightarrow> address \<Rightarrow> nat \<Rightarrow> bool" where
  "is_stale h address nonce = (case h_account_nonces h address of None \<Rightarrow> False | Some w \<Rightarrow> nonce \<le> w)"

definition apply_submission :: "('pt, 'pf) runtime_lib \<Rightarrow> (submission, 'pt host) apply_fn" where
  "apply_submission U sub sel args h = (case wallet_to_address (ul_hex U) (sb_wallet sub) of
      Inl e \<Rightarrow> (h, Reject e)
    | Inr address \<Rightarrow>
        if is_stale h address (sb_nonce sub) then (h, Reject (StaleTxNonce (sb_nonce sub)))
        else (case verify_submission U (h_chain_id h) (h_table h) (sb_wallet sub) sel args (sb_nonce sub) (sb_signature sub) of
            Inl e \<Rightarrow> (h, Reject e)
          | Inr _ \<Rightarrow>
              (case caller_from_wallet U (sb_wallet sub) of
                 Inl e \<Rightarrow> (h, Reject (Serialization ''caller identity derivation failed''))
               | Inr caller \<Rightarrow>
                   let h = h\<lparr>h_block_height := next_height (h_block_height h)\<rparr>;
                       ctx = context_of caller (sb_block_timestamp sub) h
                   in (case dispatch_bytes (ul_crypto U) (ul_reconstruction U) (ul_wire U) ctx sel args (h_table h) of
                        (t, Inl e) \<Rightarrow> (h\<lparr>h_table := t\<rparr>, classify_dispatch_error (wl_hash (ul_wire U)) sel e)
                      | (t, Inr out) \<Rightarrow>
                          let h = h\<lparr>h_table := t, h_account_nonces := raise_watermark address (sb_nonce sub) (h_account_nonces h)\<rparr>
                          in (case collect_into U out h of
                               (h, Inr _) \<Rightarrow> (h, Applied)
                             | (h, Inl e) \<Rightarrow> (h, Reject e))))))"

definition submit_signed :: "('pt, 'pf) runtime_lib \<Rightarrow> submission \<Rightarrow> 'pt table_runtime \<Rightarrow> 'pt table_runtime \<times> unit res" where
  "submit_signed U sub rt = (case wallet_to_address (ul_hex U) (sb_wallet sub) of
      Inl e \<Rightarrow> (rt, Inl e)
    | Inr address \<Rightarrow>
        if is_stale (rt_host rt) address (sb_nonce sub) then (rt, Inl (StaleTxNonce (sb_nonce sub)))
        else (case verify_submission U (h_chain_id (rt_host rt)) (h_table (rt_host rt)) (sb_wallet sub) (sb_selector sub) (sb_args sub)
                     (sb_nonce sub) (sb_signature sub) of
            Inl e \<Rightarrow> (rt, Inl e)
          | Inr _ \<Rightarrow>
              (case pending_submit (apply_submission U) sub (sb_selector sub) (sb_args sub) (rt_pending rt) (rt_host rt) of
                 (q, h, r) \<Rightarrow> (\<lparr>rt_host = h, rt_pending = q\<rparr>, r))))"

definition submit_unsigned ::
    "('pt, 'pf) runtime_lib \<Rightarrow> caller_identity \<Rightarrow> nat \<Rightarrow> bytes \<Rightarrow> bytes \<Rightarrow> 'pt table_runtime \<Rightarrow> 'pt table_runtime \<times> unit res" where
  "submit_unsigned U caller timestamp sel args rt =
     (let h = (rt_host rt)\<lparr>h_block_height := next_height (h_block_height (rt_host rt))\<rparr>;
          ctx = context_of caller timestamp h
      in (case dispatch_bytes (ul_crypto U) (ul_reconstruction U) (ul_wire U) ctx sel args (h_table h) of
           (t, Inl e) \<Rightarrow> (rt\<lparr>rt_host := h\<lparr>h_table := t\<rparr>\<rparr>, Inl e)
         | (t, Inr out) \<Rightarrow>
             (case collect_into U out (h\<lparr>h_table := t\<rparr>) of (h, r) \<Rightarrow> (rt\<lparr>rt_host := h\<rparr>, r))))"

definition runtime_flush :: "('pt, 'pf) runtime_lib \<Rightarrow> 'pt table_runtime \<Rightarrow> 'pt table_runtime \<times> nat" where
  "runtime_flush U rt = (case pending_flush (apply_submission U) (rt_pending rt) (rt_host rt) of
      (q, h, n) \<Rightarrow> (\<lparr>rt_host = h, rt_pending = q\<rparr>, n))"

definition runtime_finish :: "'pt table_runtime \<Rightarrow> unit res" where
  "runtime_finish rt = deny_unmatched (rt_pending rt)"

definition runtime_reset :: "'pt table_runtime \<Rightarrow> 'pt table_runtime \<times> unit res" where
  "runtime_reset rt =
     (let check = deny_unmatched (rt_pending rt) in
      (rt\<lparr>rt_pending := pending_clear (rt_pending rt), rt_host := (rt_host rt)\<lparr>h_tasks := [], h_events := []\<rparr>\<rparr>, check))"

section \<open>One submission\<close>

lemma apply_cases:
  assumes "apply_submission U sub sel args h = (h', r)"
  obtains (refused) e where "h' = h" "r = Reject e"
  | (failed) address caller t e where "wallet_to_address (ul_hex U) (sb_wallet sub) = Inr address" "\<not> is_stale h address (sb_nonce sub)"
      "verify_submission U (h_chain_id h) (h_table h) (sb_wallet sub) sel args (sb_nonce sub) (sb_signature sub) = Inr ()"
      "caller_from_wallet U (sb_wallet sub) = Inr caller"
      "dispatch_bytes (ul_crypto U) (ul_reconstruction U) (ul_wire U)
         (context_of caller (sb_block_timestamp sub) (h\<lparr>h_block_height := next_height (h_block_height h)\<rparr>)) sel args (h_table h) = (t, Inl e)"
      "h' = h\<lparr>h_block_height := next_height (h_block_height h), h_table := t\<rparr>"
      "r = classify_dispatch_error (wl_hash (ul_wire U)) sel e"
  | (dispatched) address caller t out where "wallet_to_address (ul_hex U) (sb_wallet sub) = Inr address" "\<not> is_stale h address (sb_nonce sub)"
      "verify_submission U (h_chain_id h) (h_table h) (sb_wallet sub) sel args (sb_nonce sub) (sb_signature sub) = Inr ()"
      "caller_from_wallet U (sb_wallet sub) = Inr caller"
      "dispatch_bytes (ul_crypto U) (ul_reconstruction U) (ul_wire U)
         (context_of caller (sb_block_timestamp sub) (h\<lparr>h_block_height := next_height (h_block_height h)\<rparr>)) sel args (h_table h) = (t, Inr out)"
      "h_table h' = t" "h_chain_id h' = h_chain_id h"
      "h_account_nonces h' = raise_watermark address (sb_nonce sub) (h_account_nonces h)"
      "r \<noteq> Hold"
proof -
  show ?thesis
  proof (cases "wallet_to_address (ul_hex U) (sb_wallet sub)")
    case (Inl e)
    with assms show ?thesis by (intro refused [of e]) (simp_all add: apply_submission_def)
  next
    case a: (Inr address)
    show ?thesis
    proof (cases "is_stale h address (sb_nonce sub)")
      case True
      with assms a show ?thesis by (intro refused [of "StaleTxNonce (sb_nonce sub)"]) (simp_all add: apply_submission_def)
    next
      case stale: False
      show ?thesis
      proof (cases "verify_submission U (h_chain_id h) (h_table h) (sb_wallet sub) sel args (sb_nonce sub) (sb_signature sub)")
        case (Inl e)
        with assms a stale show ?thesis by (intro refused [of e]) (simp_all add: apply_submission_def)
      next
        case v: (Inr u)
        show ?thesis
        proof (cases "caller_from_wallet U (sb_wallet sub)")
          case (Inl e)
          with assms a stale v show ?thesis
            by (intro refused [of "Serialization ''caller identity derivation failed''"]) (simp_all add: apply_submission_def)
        next
          case c: (Inr caller)
          obtain t d where d: "dispatch_bytes (ul_crypto U) (ul_reconstruction U) (ul_wire U)
              (context_of caller (sb_block_timestamp sub) (h\<lparr>h_block_height := next_height (h_block_height h)\<rparr>)) sel args (h_table h) = (t, d)"
            by fastforce
          show ?thesis
          proof (cases d)
            case (Inl e)
            show ?thesis
              by (rule failed [OF a stale _ c d [unfolded Inl]])
                (use assms a stale v c d Inl in \<open>simp_all add: apply_submission_def Let_def\<close>)
          next
            case (Inr out)
            have f: "h_table h' = t \<and> h_chain_id h' = h_chain_id h \<and>
                h_account_nonces h' = raise_watermark address (sb_nonce sub) (h_account_nonces h) \<and> r \<noteq> Hold"
              using assms a stale v c d Inr
              by (auto simp: apply_submission_def collect_into_def Let_def split: prod.splits sum.splits option.splits)
            show ?thesis
              by (rule dispatched [OF a stale _ c d [unfolded Inr]]) (use f v in simp_all)
          qed
        qed
      qed
    qed
  qed
qed

text \<open>Watermarks only rise, and only reveal submissions are held back.\<close>

definition no_lower :: "'pt host \<Rightarrow> 'pt host \<Rightarrow> bool" where
  "no_lower h h' \<longleftrightarrow> h_chain_id h' = h_chain_id h \<and>
     (\<forall>a n. h_account_nonces h a = Some n \<longrightarrow> (\<exists>m\<ge>n. h_account_nonces h' a = Some m))"

lemma no_lower_trans: "no_lower a b \<Longrightarrow> no_lower b c \<Longrightarrow> no_lower a c"
  unfolding no_lower_def by (metis order.trans)

lemma raise_no_lower: "m a = Some n \<Longrightarrow> \<exists>k\<ge>n. raise_watermark address nonce m a = Some k"
  by (auto simp: raise_watermark_def split: option.splits)

interpretation runtime: queue_holder "apply_submission U" no_lower "holdable_command (wl_hash (ul_wire U))" for U
proof unfold_locales
  fix envelope sel args and s s' :: "'a host" and r
  assume "apply_submission U envelope sel args s = (s', r)"
  then show "no_lower s s'"
  proof (cases rule: apply_cases)
    case (dispatched address caller t out)
    then show ?thesis by (auto simp: no_lower_def intro: raise_no_lower)
  qed (auto simp: no_lower_def)
next
  fix envelope sel args and s s' :: "'a host"
  assume "apply_submission U envelope sel args s = (s', Hold)"
  then show "holdable_command (wl_hash (ul_wire U)) sel"
    by (cases rule: apply_cases) (auto simp: classify_dispatch_error_def split: if_splits)
next
  show "no_lower s s" for s :: "'a host" by (auto simp: no_lower_def)
  show "no_lower s u" if "no_lower s t" "no_lower t u" for s t u :: "'a host" using that by (rule no_lower_trans)
qed

section \<open>The life of a runtime\<close>

datatype runtime_op = OpSigned submission | OpUnsigned caller_identity nat bytes bytes | OpFlush | OpReset

fun runtime_step :: "('pt, 'pf) runtime_lib \<Rightarrow> runtime_op \<Rightarrow> 'pt table_runtime \<Rightarrow> 'pt table_runtime" where
  "runtime_step U (OpSigned sub) rt = fst (submit_signed U sub rt)"
| "runtime_step U (OpUnsigned caller timestamp sel args) rt = fst (submit_unsigned U caller timestamp sel args rt)"
| "runtime_step U OpFlush rt = fst (runtime_flush U rt)"
| "runtime_step U OpReset rt = fst (runtime_reset rt)"

definition runtime_run :: "('pt, 'pf) runtime_lib \<Rightarrow> runtime_op list \<Rightarrow> 'pt table_runtime \<Rightarrow> 'pt table_runtime" where
  "runtime_run U ops rt = fold (runtime_step U) ops rt"

definition runtime_ok :: "('pt, 'pf) runtime_lib \<Rightarrow> 'pt table_runtime \<Rightarrow> 'pt table_runtime \<Rightarrow> bool" where
  "runtime_ok U rt0 rt \<longleftrightarrow> no_lower (rt_host rt0) (rt_host rt) \<and>
     (admissible (holdable_command (wl_hash (ul_wire U))) (rt_pending rt0) \<longrightarrow>
      admissible (holdable_command (wl_hash (ul_wire U))) (rt_pending rt) \<and>
      pq_max_entries (rt_pending rt) = pq_max_entries (rt_pending rt0))"

lemma collect_frame: "collect_into U out h = (h', r) \<Longrightarrow> h_chain_id h' = h_chain_id h \<and> h_account_nonces h' = h_account_nonces h"
  by (auto simp: collect_into_def split: option.splits sum.splits)

lemma runtime_step_ok: "runtime_ok U rt (runtime_step U op rt)"
proof (cases op)
  case (OpSigned sub)
  obtain q h r where p: "pending_submit (apply_submission U) sub (sb_selector sub) (sb_args sub) (rt_pending rt) (rt_host rt) = (q, h, r)"
    using prod_cases3 by blast
  have "runtime_step U op rt = rt \<or> runtime_step U op rt = \<lparr>rt_host = h, rt_pending = q\<rparr>"
    using p by (auto simp: OpSigned submit_signed_def split: sum.splits)
  with runtime.submit_moves [OF p] runtime.submit_admissible [OF p] runtime.le_refl show ?thesis
    by (auto simp: runtime_ok_def)
next
  case (OpUnsigned caller timestamp sel args)
  then show ?thesis
    by (auto simp: runtime_ok_def submit_unsigned_def Let_def no_lower_def split: prod.splits sum.splits dest!: collect_frame)
next
  case OpFlush
  obtain q h n where p: "pending_flush (apply_submission U) (rt_pending rt) (rt_host rt) = (q, h, n)" using prod_cases3 by blast
  from runtime.flush_moves [OF p] runtime.flush_admissible [OF p] show ?thesis
    by (simp add: OpFlush runtime_flush_def p runtime_ok_def)
next
  case OpReset
  then show ?thesis
    by (auto simp: runtime_ok_def runtime_reset_def no_lower_def pending_clear_def admissible_def bounded_def)
qed

lemma runtime_ok_trans: "runtime_ok U a b \<Longrightarrow> runtime_ok U b c \<Longrightarrow> runtime_ok U a c"
  unfolding runtime_ok_def by (auto intro: no_lower_trans)

lemma runtime_run_ok: "runtime_ok U rt (runtime_run U ops rt)"
proof (induction ops arbitrary: rt)
  case Nil
  show ?case by (simp add: runtime_run_def runtime_ok_def runtime.le_refl)
next
  case (Cons op ops)
  from runtime_ok_trans [OF runtime_step_ok Cons.IH] show ?case by (simp add: runtime_run_def)
qed

end
