(* ===== verification/Poker_Admission.thy ===== *)
theory Poker_Admission
  imports Poker_Runtime
begin

text \<open>
  What the runtime promises to the players of its table: replay protection, authorisation of every
  change, what the queue can hold, the money on the table, and the tasks it collects; with a
  concrete runtime for evaluation.
\<close>

section \<open>A concrete runtime\<close>

definition demo_address :: address where
  "demo_address = replicate 19 0 @ [5]"

definition demo_key :: stark_tx_pubkey where
  "demo_key = \<lparr>stk_tag = encode_tag Stark CURRENT_VERSION, stk_raw = replicate 32 9\<rparr>"

text \<open>Between hands, with one player seated.\<close>

definition lobby_table :: "int table" where
  "lobby_table = stored_table\<lparr>t_seats := SeatWaiting \<lparr>oc_player = demo_address, oc_stack = 100, oc_pk = 3, oc_tx_pk = demo_key,
       oc_pending_addon = 0, oc_time_bank_ms = 30000\<rparr> # replicate 8 seat_empty, t_chip_pool := 100,
     t_deck_state := (t_deck_state stored_table)\<rparr>"

text \<open>A signature is the hash of the message, which is the message; wallets other than one are not numbers.\<close>

definition demo_runtime :: "(int, unit) runtime_lib" where
  "demo_runtime = \<lparr>ul_crypto = demo_crypto, ul_reconstruction = demo_lib, ul_wire = demo_wire,
     ul_hex = (\<lambda>s. if s = ''05'' then Some [5] else None), ul_identity = (\<lambda>s. replicate 32 1),
     ul_secp256k1 = (\<lambda>pk sig m. Inl InvalidSignature), ul_ed25519 = (\<lambda>pk sig m. Inl InvalidSignature),
     ul_stark = (\<lambda>pk sig m. if sig = m then Inr () else Inl InvalidSignature)\<rparr>"

definition demo_submission :: "canonical_command \<Rightarrow> bytes \<Rightarrow> nat \<Rightarrow> submission" where
  "demo_submission c args n = \<lparr>sb_wallet = ''05'', sb_block_timestamp = 1000, sb_selector = selector id c, sb_args = args,
     sb_signature = tx_message_hash id 1 (replicate 28 1) demo_address (selector id c) args n, sb_nonce = n\<rparr>"

definition demo_host :: "int host" where
  "demo_host = rt_host (runtime_new lobby_table 1)"

lemma lobby_fields:
  "t_rules lobby_table = rules_new 2 5 10" "t_acted_mask lobby_table = 0" "t_leave_after_hand_mask lobby_table = 0"
  "t_button lobby_table = 0" "t_last_bb_seat lobby_table = NO_SEAT" "t_hand_phase lobby_table = PhaseWaiting"
  "t_run_it_twice_state lobby_table = Single" "t_deck_state lobby_table = deck_default" "t_community_cards lobby_table = board_empty"
  "t_id lobby_table = replicate 28 1" "t_creator lobby_table = replicate 20 7" "t_pot lobby_table = 0" "t_chip_pool lobby_table = 100"
  "t_seats lobby_table = SeatWaiting \<lparr>oc_player = demo_address, oc_stack = 100, oc_pk = 3, oc_tx_pk = demo_key,
     oc_pending_addon = 0, oc_time_bank_ms = 30000\<rparr> # replicate 8 seat_empty"
  by (simp_all add: lobby_table_def stored_table_def empty_table_def)

lemma lobby_width: "max_players lobby_table = 2"
  by (simp add: lobby_fields rules_new_def)

lemma lobby_valid: "validate_state_schema (cr_group demo_crypto) lobby_table = Inr ()"
proof -
  have zero: "seat_mask_is_canonical 0 (max_players lobby_table)" by (simp add: lobby_fields rules_new_def seat_mask_is_canonical_iff)
  have rules: "rules_validate (t_rules lobby_table) = Inr ()"
    by (simp add: lobby_fields rules_validate_def rules_new_def MAX_SEATS_def ANTE_MODE_NONE_def RAKE_MODE_NONE_def
        RIT_MODE_DISABLED_def DEFAULT_RAKE_BPS_def)
  have "demo_address \<noteq> EMPTY_PLAYER" by code_simp
  then have "validate_seat_at (cr_group demo_crypto) lobby_table k = Inr ()" if "k < 9" for k
    using that by (cases k) (auto simp: lobby_fields validate_seat_at_def Let_def seat_empty_def mask_simps demo_crypto_def validate_occupied_seat_def)
  then have "\<forall>k\<in>set [0..<length (t_seats lobby_table)]. validate_seat_at (cr_group demo_crypto) lobby_table k = Inr ()"
    by (simp add: lobby_fields)
  then have seats: "try_fold (\<lambda>_ k. validate_seat_at (cr_group demo_crypto) lobby_table k) () [0..<length (t_seats lobby_table)] = Inr ()"
    by (simp only: try_fold_unit_Inr)
  have "try_fold (\<lambda>agg k. if \<not> seat_mask_contains 0 k then Inr agg else h agg k) None ks = Inr None"
    for h :: "int option \<Rightarrow> nat \<Rightarrow> int option res" and ks
    by (induction ks) (auto simp: mask_simps)
  then have agg: "derived_aggregated_pk (cr_group demo_crypto) lobby_table = Inr None"
    using zero by (simp add: derived_aggregated_pk_def aggregated_pk_for_contributor_mask_def lobby_fields deck_default_def)
  have board: "board_validate board_empty = Inr ()"
    by (simp add: board_validate_def fixed_of_empty cards_validate_fixed_of)
  have cards: "table_cards lobby_table = []" by (simp add: lobby_fields table_cards_def seat_empty_def)
  have ledger: "validate_ledger lobby_table = Inr ()"
    by (simp add: validate_ledger_def lobby_fields deck_default_def ledger_iter_default)
  have padding: "padding_seats_are_vacant lobby_table"
    by (simp add: padding_seats_are_vacant_def lobby_fields rules_new_def list_all_iff)
  show ?thesis
    unfolding validate_state_schema_def using rules zero agg board ledger seats padding
    by (simp add: lobby_width lobby_fields(2-) cards validate_cards_def validate_hand_phase_def table_shuffle_state_def shuffle_default_def
        validate_mask_def reveal_assignments_def reveal_token_state_def reconstruct_pending_def deck_default_def)
qed

lemma lobby_normal: "normalize_until_blocked demo_crypto 1000 lobby_table [] = Inr (lobby_table, [], [])"
  by (rule waiting_normal [OF _ lobby_valid]) (simp_all add: lobby_fields)

lemma lobby_seat: "seats_where P (t_seats lobby_table) = [0]" if "P (t_seats lobby_table ! 0)" "\<not> P seat_empty"
proof -
  have "[0..<9] = [0, 1, 2, 3, 4, 5, 6, 7, 8 :: nat]" by (simp add: upt_rec)
  then show ?thesis using that by (simp add: seats_where_def lobby_fields nth_Cons')
qed

lemma lobby_caller:
  assumes "dc_caller ctx = demo_address"
  shows "resolve_caller_seat ctx lobby_table 0 = Inr 0"
proof -
  have "padding_seats_are_vacant lobby_table"
    by (simp add: padding_seats_are_vacant_def lobby_fields rules_new_def list_all_iff)
  moreover have "seats_where (\<lambda>s. seat_is_occupied s \<and> seat_player s = dc_caller ctx) (t_seats lobby_table) = [0]"
    by (rule lobby_seat) (simp_all add: lobby_fields assms seat_empty_def)
  ultimately show ?thesis by (simp add: resolve_caller_seat_def authenticated_caller_seat_def lobby_width)
qed

lemma demo_wallet: "wallet_to_address (ul_hex demo_runtime) ''05'' = Inr demo_address"
  by code_simp

lemma demo_caller:
  "\<exists>caller. caller_from_wallet demo_runtime ''05'' = Inr caller \<and> ci_address caller = demo_address"
  using demo_wallet by (simp add: caller_from_wallet_def identity_tagged_pk_def tagged_new_def) (simp add: demo_runtime_def)

lemma demo_verified:
  "verify_submission demo_runtime 1 lobby_table ''05'' s args n (tx_message_hash id 1 (replicate 28 1) demo_address s args n) = Inr ()"
proof -
  have "is_registered_tx_pk demo_key" "parse_tag (stk_tag demo_key) = Inr (Stark, CURRENT_VERSION)" by code_simp+
  then show ?thesis
    using demo_wallet
    by (simp add: verify_submission_def registered_tx_pk_of_def find_seat_def lobby_fields verify_signature_def ok_or_def stark_to_tagged_def)
      (simp add: demo_runtime_def demo_wire_def)
qed

text \<open>Asking to stay, while staying: a call that changes nothing. And reveal tokens between hands: too early.\<close>

lemma demo_stays:
  assumes "dc_caller ctx = demo_address" "dc_block_timestamp ctx = 1000"
  shows "dispatch demo_crypto demo_lib ctx (CallSetLeaveAfterHand 0 False) lobby_table = (lobby_table, Inr [])"
proof -
  have "run_call demo_crypto demo_lib ctx (CallSetLeaveAfterHand 0 False) lobby_table [] = Inr (lobby_table, [])"
    using lobby_caller [OF assms(1)]
    by (simp add: as_player_def apply_set_leave_after_hand_def lobby_width lobby_fields(2-) seat_wants_leave_def mask_simps)
  then show ?thesis
    using lobby_normal assms(2) valid_rearm [OF lobby_valid] by (simp add: dispatch_def advance_counters_def)
qed

lemma demo_dispatch_stays:
  assumes "dc_caller ctx = demo_address" "dc_block_timestamp ctx = 1000"
  shows "dispatch_bytes demo_crypto demo_lib demo_wire ctx (selector id SetLeaveAfterHand) [0, 0] lobby_table =
    (lobby_table, Inr \<lparr>out_events = [], out_prove_task = None\<rparr>)"
proof -
  have id: "wl_hash demo_wire = id" by (simp add: demo_wire_def)
  have "from_slice get_set_leave_args [0, 0] = Inr (0, False)" by code_simp
  then have d: "decode_call demo_wire SetLeaveAfterHand [0, 0] = Inr (CallSetLeaveAfterHand 0 False)"
    by (simp add: decode_args_Inr [THEN iffD2])
  have "dc_caller (plain ctx) = demo_address" "dc_block_timestamp (plain ctx) = 1000"
    using assms by (simp_all add: dispatch_context.truncate_def)
  from demo_stays [OF this] d from_selector_selector [OF demo_wire_selectors, of SetLeaveAfterHand]
  show ?thesis by (simp add: dispatch_bytes_def build_dispatch_output_def id)
qed

lemma demo_applied:
  "\<exists>h. apply_submission demo_runtime (demo_submission SetLeaveAfterHand [0, 0] 1) (selector id SetLeaveAfterHand) [0, 0] demo_host = (h, Applied)"
proof -
  obtain caller where c: "caller_from_wallet demo_runtime ''05'' = Inr caller" "ci_address caller = demo_address" using demo_caller by blast
  let ?ctx = "context_of caller 1000 (demo_host\<lparr>h_block_height := next_height (h_block_height demo_host)\<rparr>)"
  have parts: "ul_crypto demo_runtime = demo_crypto" "ul_reconstruction demo_runtime = demo_lib" "ul_wire demo_runtime = demo_wire"
    by (simp_all add: demo_runtime_def)
  have "dc_caller ?ctx = demo_address" "dc_block_timestamp ?ctx = 1000" using c(2) by (simp_all add: context_of_def)
  from demo_dispatch_stays [OF this] c(1) demo_wallet demo_verified show ?thesis
    by (simp add: apply_submission_def demo_submission_def is_stale_def demo_host_def runtime_new_def parts Let_def collect_into_def)
qed

section \<open>Replay protection\<close>

lemma applied_watermark:
  assumes "apply_submission U sub s args h = (h', Applied)"
  obtains address m where "wallet_to_address (ul_hex U) (sb_wallet sub) = Inr address"
    "h_account_nonces h' address = Some m" "sb_nonce sub \<le> m"
  using assms
proof (cases rule: apply_cases)
  case (failed address caller t e)
  then show ?thesis by (auto simp: classify_dispatch_error_def split: if_splits)
next
  case (dispatched address caller t out)
  then show ?thesis using that [of address] by (auto simp: raise_watermark_def split: option.splits)
qed simp

text \<open>
  C26. A command is applied once: after a signed submission has been applied, whatever the runtime
  does afterwards, through any number of commands, flushes and hands, no submission of the same
  account with the same or a lower nonce is applied or queued again; it is refused as stale and
  changes nothing.
\<close>

theorem applied_never_again:
  assumes "apply_submission U sub s args (rt_host before) = (rt_host rt, Applied)"
    and "wallet_to_address (ul_hex U) (sb_wallet again) = wallet_to_address (ul_hex U) (sb_wallet sub)" "sb_nonce again \<le> sb_nonce sub"
  shows "apply_submission U again s' args' (rt_host (runtime_run U ops rt)) =
      (rt_host (runtime_run U ops rt), Reject (StaleTxNonce (sb_nonce again))) \<and>
    submit_signed U again (runtime_run U ops rt) = (runtime_run U ops rt, Inl (StaleTxNonce (sb_nonce again)))"
proof -
  from applied_watermark [OF assms(1)] obtain address m where a: "wallet_to_address (ul_hex U) (sb_wallet again) = Inr address"
    and m: "h_account_nonces (rt_host rt) address = Some m" "sb_nonce sub \<le> m" using assms(2) by metis
  from runtime_run_ok [of U rt ops] m(1) obtain k where "h_account_nonces (rt_host (runtime_run U ops rt)) address = Some k" "m \<le> k"
    unfolding runtime_ok_def no_lower_def by blast
  then have "is_stale (rt_host (runtime_run U ops rt)) address (sb_nonce again)" using assms(3) m(2) by (simp add: is_stale_def)
  with a show ?thesis by (simp add: apply_submission_def submit_signed_def)
qed

theorem applied_never_again_witness:
  "\<exists>rt. apply_submission demo_runtime (demo_submission SetLeaveAfterHand [0, 0] 1) (selector id SetLeaveAfterHand) [0, 0] demo_host = (rt_host rt, Applied) \<and>
     submit_signed demo_runtime (demo_submission CFold [0] 1) (runtime_run demo_runtime [OpReset, OpFlush] rt) =
       (runtime_run demo_runtime [OpReset, OpFlush] rt, Inl (StaleTxNonce 1))"
proof -
  obtain h where h: "apply_submission demo_runtime (demo_submission SetLeaveAfterHand [0, 0] 1) (selector id SetLeaveAfterHand) [0, 0] demo_host = (h, Applied)"
    using demo_applied by blast
  let ?rt = "(runtime_new lobby_table 1)\<lparr>rt_host := h\<rparr>"
  from h have a: "apply_submission demo_runtime (demo_submission SetLeaveAfterHand [0, 0] 1) (selector id SetLeaveAfterHand) [0, 0]
      (rt_host (runtime_new lobby_table 1)) = (rt_host ?rt, Applied)" by (simp add: demo_host_def)
  from applied_never_again [OF a, of "demo_submission CFold [0] 1" _ _ "[OpReset, OpFlush]"] h
  show ?thesis by (intro exI [of _ ?rt]) (simp add: demo_submission_def)
qed

section \<open>What the queue can hold\<close>

text \<open>
  C37. Nothing but early reveal tokens waits: whatever is submitted, signed or not, in any order and
  across any number of hands, the queue of a runtime holds at most 64 commands, buries at most 128,
  and every command that waits has the selector of the reveal tokens; so no bet, shuffle or
  administrative command is ever applied later than it was submitted.
\<close>

theorem queue_holds_only_reveals:
  "let q = rt_pending (runtime_run U ops (runtime_new t chain_id)) in
     length (pq_entries q) \<le> 64 \<and> length (pq_dead q) \<le> 128 \<and>
     list_all (\<lambda>e. pe_selector e = selector (wl_hash (ul_wire U)) SubmitPlayerRevealTokens \<and> pe_hold_count e < 64) (pq_entries q)"
proof -
  let ?rt = "runtime_new t chain_id"
  have "admissible (holdable_command (wl_hash (ul_wire U))) (rt_pending ?rt)" "pq_max_entries (rt_pending ?rt) = 64"
    by (simp_all add: admissible_def bounded_def runtime_new_def pending_new_def)
  then have "admissible (holdable_command (wl_hash (ul_wire U))) (rt_pending (runtime_run U ops ?rt))"
    "pq_max_entries (rt_pending (runtime_run U ops ?rt)) = 64"
    using runtime_run_ok [of U ?rt ops] unfolding runtime_ok_def by (blast, metis)
  then show ?thesis
    by (simp add: admissible_def bounded_def holdable_command_def MAX_DEAD_def MAX_HOLDS_def Let_def list_all_iff)
qed

section \<open>Authorisation\<close>

text \<open>
  C25. Every change a signed command makes is authorised: when a submission changes the table, its
  nonce was fresh for the account its wallet addresses, that account sat at the table with a
  registered session key, and the signature was accepted under this key for exactly this chain,
  table, account, method, arguments and nonce.
\<close>

theorem signed_changes_are_authorised:
  assumes "apply_submission U sub s args h = (h', r)" "h_table h' \<noteq> h_table h"
  shows "\<exists>address key. wallet_to_address (ul_hex U) (sb_wallet sub) = Inr address \<and>
    (\<forall>n. h_account_nonces h address \<noteq> Some n \<or> n < sb_nonce sub) \<and>
    registered_tx_pk_of (h_table h) address = Some key \<and>
    verify_signature U (stark_to_tagged key) (sb_signature sub)
      (tx_message_hash (wl_hash (ul_wire U)) (h_chain_id h) (t_id (h_table h)) address s args (sb_nonce sub)) = Inr ()"
proof -
  have "\<exists>address. wallet_to_address (ul_hex U) (sb_wallet sub) = Inr address \<and> \<not> is_stale h address (sb_nonce sub) \<and>
     verify_submission U (h_chain_id h) (h_table h) (sb_wallet sub) s args (sb_nonce sub) (sb_signature sub) = Inr ()"
    using assms(1)
  proof (cases rule: apply_cases)
    case (refused e)
    with assms(2) show ?thesis by simp
  qed auto
  then show ?thesis
    by (auto simp: verify_submission_def is_stale_def ok_or_def result_simps not_le split: option.splits)
qed

lemma demo_leaves:
  assumes "dc_caller ctx = demo_address" "dc_block_timestamp ctx = 1000"
    and "dispatch demo_crypto demo_lib ctx (CallSetLeaveAfterHand 0 True) lobby_table = (t, r)"
  shows "t \<noteq> lobby_table"
proof -
  let ?t = "lobby_table\<lparr>t_leave_after_hand_mask := 1\<rparr>"
  have run: "\<exists>es. run_call demo_crypto demo_lib ctx (CallSetLeaveAfterHand 0 True) lobby_table [] = Inr (?t, es)"
    using lobby_caller [OF assms(1)]
    by (simp add: as_player_def apply_set_leave_after_hand_def lobby_width lobby_fields(2-) seat_wants_leave_def set_seat_wants_leave_def mask_simps seat_mask_bit_def)
  then obtain es where r: "run_call demo_crypto demo_lib ctx (CallSetLeaveAfterHand 0 True) lobby_table [] = Inr (?t, es)" by blast
  have waiting: "t_hand_phase ?t = PhaseWaiting" by (simp add: lobby_fields)
  have n: "normalize_until_blocked demo_crypto 1000 ?t es = Inr y \<Longrightarrow> fst y = ?t" for y
    by (auto simp: normalize_until_blocked_def normalize_until_blocked_in_place_def arm_active_deadline_if_needed_def waiting result_simps
      MAX_NORMALIZATION_STEPS_def next_normalization_step_def is_reconstructing_def shuffle_phase_def table_shuffling_purpose_def
      reveal_token_state_def is_betting_round_def table_betting_round_def round_state_def numeral_eq_Suc
      ROUND_WAITING_def ROUND_SHOWDOWN_def ROUND_PREFLOP_def ROUND_FLOP_def ROUND_TURN_def ROUND_RIVER_def
      SHUFFLE_PHASE_NONE_def SHUFFLE_PHASE_RECONSTRUCT_def SHUFFLE_PHASE_BEFORE_PREFLOP_def)
  have c: "advance_counters lobby_table ?t es' = Inr t' \<Longrightarrow> t_leave_after_hand_mask t' = 1" for es' t'
    by (auto simp: advance_counters_def result_simps lobby_fields split: if_splits) (auto simp: lobby_fields dest: arg_cong [of _ _ t_leave_after_hand_mask])
  have "t_leave_after_hand_mask t = 1"
    using assms(2,3) r c n by (auto simp: dispatch_def rearm_betting_def waiting split: sum.splits)
  then show ?thesis by (auto simp: lobby_fields)
qed

lemma demo_dispatch_leaves:
  assumes "dc_caller ctx = demo_address" "dc_block_timestamp ctx = 1000"
    and "dispatch_bytes demo_crypto demo_lib demo_wire ctx (selector id SetLeaveAfterHand) [0, 1] lobby_table = (t, r)"
  shows "t \<noteq> lobby_table"
proof -
  have id: "wl_hash demo_wire = id" by (simp add: demo_wire_def)
  have "from_slice get_set_leave_args [0, 1] = Inr (0, True)" by code_simp
  then have d: "decode_call demo_wire SetLeaveAfterHand [0, 1] = Inr (CallSetLeaveAfterHand 0 True)"
    by (simp add: decode_args_Inr [THEN iffD2])
  obtain t1 r1 where x: "dispatch demo_crypto demo_lib (plain ctx) (CallSetLeaveAfterHand 0 True) lobby_table = (t1, r1)" by fastforce
  have "dc_caller (plain ctx) = demo_address" "dc_block_timestamp (plain ctx) = 1000"
    using assms(1,2) by (simp_all add: dispatch_context.truncate_def)
  from demo_leaves [OF this x] x d assms(3) from_selector_selector [OF demo_wire_selectors, of SetLeaveAfterHand]
  show ?thesis by (cases r1) (simp_all add: dispatch_bytes_def id)
qed

lemma demo_runtime_parts:
  "ul_crypto demo_runtime = demo_crypto" "ul_reconstruction demo_runtime = demo_lib" "ul_wire demo_runtime = demo_wire"
  "wl_hash demo_wire = id"
  by (simp_all add: demo_runtime_def demo_wire_def)

theorem signed_changes_are_authorised_witness:
  "\<exists>h r. apply_submission demo_runtime (demo_submission SetLeaveAfterHand [0, 1] 1) (selector id SetLeaveAfterHand) [0, 1] demo_host = (h, r) \<and>
     h_table h \<noteq> lobby_table \<and>
     (\<exists>key. registered_tx_pk_of lobby_table demo_address = Some key \<and>
       verify_signature demo_runtime (stark_to_tagged key) (sb_signature (demo_submission SetLeaveAfterHand [0, 1] 1))
         (tx_message_hash id 1 (replicate 28 1) demo_address (selector id SetLeaveAfterHand) [0, 1] 1) = Inr ())"
proof -
  let ?sub = "demo_submission SetLeaveAfterHand [0, 1] 1"
  obtain h r where a: "apply_submission demo_runtime ?sub (selector id SetLeaveAfterHand) [0, 1] demo_host = (h, r)" by fastforce
  have host: "h_table demo_host = lobby_table" "h_chain_id demo_host = 1" "t_id lobby_table = replicate 28 1"
    by (simp_all add: demo_host_def runtime_new_def lobby_fields)
  obtain caller where c: "caller_from_wallet demo_runtime ''05'' = Inr caller" "ci_address caller = demo_address" using demo_caller by blast
  let ?ctx = "context_of caller 1000 (demo_host\<lparr>h_block_height := next_height (h_block_height demo_host)\<rparr>)"
  have "dc_caller ?ctx = demo_address" "dc_block_timestamp ?ctx = 1000" using c(2) by (simp_all add: context_of_def)
  note changed = demo_dispatch_leaves [OF this]
  have sub: "sb_wallet (demo_submission x y n) = ''05''" "sb_block_timestamp (demo_submission x y n) = 1000" "sb_nonce (demo_submission x y n) = n" for x y n
    by (simp_all add: demo_submission_def)
  have n: "h_table h \<noteq> h_table demo_host"
    using a
  proof (cases rule: apply_cases)
    case (refused e)
    then show ?thesis
      using a c(1) demo_wallet demo_verified [of "selector id SetLeaveAfterHand" "[0, 1]" 1] changed
      by (auto simp: apply_submission_def demo_submission_def is_stale_def host demo_host_def runtime_new_def demo_runtime_parts Let_def
          collect_into_def split: prod.splits sum.splits option.splits)
  next
    case (failed address caller' t e)
    then show ?thesis using changed c(1) by (simp add: host demo_runtime_parts sub)
  next
    case (dispatched address caller' t out)
    then show ?thesis using changed c(1) by (simp add: host demo_runtime_parts sub)
  qed
  from signed_changes_are_authorised [OF a n] a n demo_wallet show ?thesis by (auto simp: host demo_runtime_parts sub)
qed

section \<open>The money on the table\<close>

lemma dispatch_keeps:
  assumes "dispatch C L ctx c pre = (t, r)" "sound C pre"
  shows "books t \<and> solvent t"
proof (cases r)
  case (Inr es)
  with dispatch_sound [of C L ctx c pre t es] assms show ?thesis by (simp add: sound_def)
next
  case (Inl e)
  show ?thesis
  proof (cases "run_call C L ctx c pre []")
    case (Inl e1)
    with assms show ?thesis by (simp add: dispatch_def sound_def)
  next
    case run: (Inr x)
    obtain t1 es1 where x: "x = (t1, es1)" by fastforce
    note k = run_call_sound [OF run [unfolded x] disjI1 [OF assms(2)]]
    show ?thesis
    proof (cases "normalize_until_blocked C (dc_block_timestamp ctx) t1 es1")
      case (Inl e2)
      with assms run x k show ?thesis by (simp add: dispatch_def)
    next
      case n: (Inr y)
      obtain t2 es2 st where y: "y = (t2, es2, st)" using prod_cases3 by blast
      with n obtain es3 where "normalize_until_blocked_in_place C (dc_block_timestamp ctx) t1 [] = Inr (t2, es3, st)"
        by (auto simp: normalize_until_blocked_def result_simps)
      note e = normalize_effect [OF this conjunct1 [OF k]]
      have "books t2 \<and> solvent t2" using e k no_gain_solvent by blast
      then show ?thesis
        using assms run x n y valid_rearm [OF e(3)] Inl by (auto simp: dispatch_def sound_def split: sum.splits)
    qed
  qed
qed

lemma dispatch_bytes_keeps:
  assumes "dispatch_bytes C L W ctx s args pre = (t, r)" "sound C pre"
  shows "books t \<and> solvent t \<and> (\<forall>out. r = Inr out \<longrightarrow> sound C t)"
proof (cases "from_selector (wl_hash W) s")
  case None
  with assms show ?thesis by (auto simp: dispatch_bytes_def sound_def)
next
  case c: (Some c)
  show ?thesis
  proof (cases "decode_call W c args")
    case (Inl e)
    with assms c show ?thesis by (auto simp: dispatch_bytes_def sound_def)
  next
    case (Inr call)
    obtain t1 d where d: "dispatch C L (plain ctx) call pre = (t1, d)" by fastforce
    from dispatch_keeps [OF d assms(2)] dispatch_sound [of C L "plain ctx" call pre t1] d assms c Inr
    show ?thesis by (cases d) (auto simp: dispatch_bytes_def)
  qed
qed

lemma lobby_owed: "owed lobby_table = 100"
  by (simp add: account_defs lobby_fields seat_empty_def)

lemma lobby_sound: "sound demo_crypto lobby_table"
proof -
  have "books lobby_table" by (simp add: books_def account_defs lobby_fields seat_empty_def MAX_SEATS_def)
  then show ?thesis using lobby_valid lobby_owed by (simp add: sound_def solvent_def lobby_fields)
qed

text \<open>
  C2. No submission can overdraw the vault, not even one that fails half way: from a sound table,
  whatever a signed submission asks for and however it ends, the vault still covers everything owed
  and the pot and bets are still what the seats put in; and if it is applied the table is sound
  again.
\<close>

theorem submissions_keep_the_vault_solvent:
  assumes "apply_submission U sub s args h = (h', r)" "sound (ul_crypto U) (h_table h)"
  shows "books (h_table h') \<and> owed (h_table h') \<le> t_chip_pool (h_table h') \<and>
    (r = Applied \<longrightarrow> validate_state_schema (cr_group (ul_crypto U)) (h_table h') = Inr ())"
  using assms(1)
proof (cases rule: apply_cases)
  case (refused e)
  with assms(2) show ?thesis by (simp add: sound_def solvent_def)
next
  case (failed address caller t e)
  from dispatch_bytes_keeps [OF failed(5) assms(2)] failed(6,7) show ?thesis
    by (auto simp: solvent_def classify_dispatch_error_def split: if_splits)
next
  case (dispatched address caller t out)
  from dispatch_bytes_keeps [OF dispatched(5) assms(2)] dispatched(6) show ?thesis by (auto simp: solvent_def sound_def)
qed

theorem submissions_keep_the_vault_solvent_witness:
  "\<exists>h. apply_submission demo_runtime (demo_submission SetLeaveAfterHand [0, 0] 1) (selector id SetLeaveAfterHand) [0, 0] demo_host = (h, Applied) \<and>
     sound demo_crypto lobby_table \<and> owed lobby_table = 100 \<and> owed (h_table h) \<le> t_chip_pool (h_table h)"
proof -
  obtain h where h: "apply_submission demo_runtime (demo_submission SetLeaveAfterHand [0, 0] 1) (selector id SetLeaveAfterHand) [0, 0] demo_host = (h, Applied)"
    using demo_applied by blast
  note o = lobby_owed and s = lobby_sound
  then have "sound (ul_crypto demo_runtime) (h_table demo_host)" by (simp add: demo_runtime_parts demo_host_def runtime_new_def)
  from submissions_keep_the_vault_solvent [OF h this] h s o show ?thesis by blast
qed

section \<open>The tasks it collects\<close>

lemma output_task:
  assumes "build_dispatch_output G W ctx es s args pre post = Inr out" "out_prove_task out = Some task"
  shows "\<exists>kind canonical b b' input c.
    derive_authenticated_method_input W kind canonical (plain ctx) pre = Inr input \<and> command_from_u8 kind = Some c \<and>
    put_table G (wl_points W) pre = Inr b \<and> put_table G (wl_points W) post = Inr b' \<and>
    task = \<lparr>pk_method_kind = kind, pk_context = ctx, pk_raw_args = canonical, pk_pre_table = b, pk_post_table = b',
       pk_table_id = creation_nonce (t_id post), pk_hand_id = t_hand_id post, pk_call_seq = t_call_seq post\<rparr>"
proof -
  have "pre \<noteq> post" using assms by (auto simp: build_dispatch_output_def)
  with assms(1) obtain kind canonical full written where
    n: "prove_task_new W kind ctx canonical pre post (creation_nonce (t_id post)) (t_hand_id post) (t_call_seq post) = Inr full"
    and w: "put_task G W full = Inr written" and out: "out = \<lparr>out_events = es, out_prove_task = Some written\<rparr>"
    by (auto simp: build_dispatch_output_def result_simps)
  from n obtain input c where i: "derive_authenticated_method_input W kind canonical (plain ctx) pre = Inr input" "command_from_u8 kind = Some c"
    and full: "full = \<lparr>pk_method_kind = kind, pk_context = ctx, pk_raw_args = canonical, pk_pre_table = pre, pk_post_table = post,
       pk_table_id = creation_nonce (t_id post), pk_hand_id = t_hand_id post, pk_call_seq = t_call_seq post\<rparr>"
    by (auto simp: prove_task_new_def split: sum.splits option.splits)
  from w obtain b b' where "put_table G (wl_points W) pre = Inr b" "put_table G (wl_points W) post = Inr b'"
    "written = \<lparr>pk_method_kind = kind, pk_context = ctx, pk_raw_args = canonical, pk_pre_table = b, pk_post_table = b',
       pk_table_id = creation_nonce (t_id post), pk_hand_id = t_hand_id post, pk_call_seq = t_call_seq post\<rparr>"
    by (auto simp: put_task_def full result_simps)
  with i out assms(2) show ?thesis by auto
qed

text \<open>
  C28. What the prover is handed is what happened: when a dispatch yields a task, collecting it
  succeeds, and the collected task carries the table before the call, the table the runtime now
  holds, the context of the call, and the call counters of the new table; nothing is lost or altered
  in the bytes between them.
\<close>

theorem collected_task_is_the_transition:
  assumes "dispatch_bytes C L W ctx s args pre = (post, Inr out)" "out_prove_task out = Some bytes"
    and "C = ul_crypto U" "W = ul_wire U" "lawful_points (wl_points W)"
    and "machine_typed pre \<and> fresh_padding pre" "machine_typed post \<and> fresh_padding post"
  shows "\<exists>task. collect_into U out h = (h\<lparr>h_tasks := h_tasks h @ [task], h_events := h_events h @ out_events out\<rparr>, Inr ()) \<and>
    pk_pre_table task = pre \<and> pk_post_table task = post \<and> pk_context task = ctx \<and>
    pk_call_seq task = t_call_seq post \<and> pk_hand_id task = t_hand_id post \<and> pk_method_kind task = pk_method_kind bytes"
proof -
  obtain es where "build_dispatch_output (cr_group C) W ctx es s args pre post = Inr out"
    using assms(1) by (auto simp: dispatch_bytes_def split: option.splits sum.splits prod.splits)
  from output_task [OF this assms(2)] obtain kind canonical b b' input c where
    i: "derive_authenticated_method_input W kind canonical (plain ctx) pre = Inr input" "command_from_u8 kind = Some c"
    and p: "put_table (cr_group C) (wl_points W) pre = Inr b" "put_table (cr_group C) (wl_points W) post = Inr b'"
    and task: "bytes = \<lparr>pk_method_kind = kind, pk_context = ctx, pk_raw_args = canonical, pk_pre_table = b, pk_post_table = b',
       pk_table_id = creation_nonce (t_id post), pk_hand_id = t_hand_id post, pk_call_seq = t_call_seq post\<rparr>" by blast
  note law = table_law [OF assms(5), of "cr_group C"]
  have "from_slice (get_table (cr_group C) (wl_points W)) b = Inr pre" "from_slice (get_table (cr_group C) (wl_points W)) b' = Inr post"
    by (rule reads_back.from_slice_put [OF law assms(6) p(1)], rule reads_back.from_slice_put [OF law assms(7) p(2)])
  then show ?thesis
    using i assms(2)
    by (intro exI [of _ "\<lparr>pk_method_kind = kind, pk_context = ctx, pk_raw_args = canonical, pk_pre_table = pre, pk_post_table = post,
       pk_table_id = creation_nonce (t_id post), pk_hand_id = t_hand_id post, pk_call_seq = t_call_seq post\<rparr>"])
      (simp add: collect_into_def get_task_def task ok_or_def assms(3,4) [symmetric])
qed

lemma committed_counters:
  assumes "dispatch C L ctx c pre = (t, Inr es)" "t_call_seq pre < u32_bound \<and> t_hand_id pre < u32_bound"
  shows "t_call_seq t < u32_bound \<and> t_hand_id t < u32_bound"
  using assms(1)
proof (rule dispatch_commits)
  fix t2 assume "advance_counters pre t2 es = Inr t"
  with assms(2) show ?thesis
    by (auto simp: advance_counters_def result_simps checked_add_u32_def split: if_splits)
qed

lemma demo_created_typed:
  assumes "dispatch demo_crypto demo_lib (plain demo_runtime_ctx) (CallCreateTable 3 5 10 0) stored_table = (t, Inr [])"
  shows "machine_typed t \<and> fresh_padding t"
proof -
  have p: "2 \<le> (3 :: nat)" "3 \<le> (9 :: nat)" "0 < (10 :: nat)" "5 \<le> (10 :: nat)" "0 = RIT_MODE_DISABLED \<or> 0 = RIT_MODE_TWICE"
    "dc_block_timestamp (plain demo_runtime_ctx) \<noteq> 0" "t_call_seq stored_table < 2 ^ 32 - 1"
    by (simp_all add: demo_plain RIT_MODE_DISABLED_def stored_table_def empty_table_def)
  obtain t0 t1 n h where d: "dispatch demo_crypto demo_lib (plain demo_runtime_ctx) (CallCreateTable 3 5 10 0) stored_table = (t1, Inr [])"
    and t0: "table_new (t_id stored_table) (dc_caller (plain demo_runtime_ctx)) 3 5 10 = Inr t0"
    and t: "t1 = t0\<lparr>t_rules := (t_rules t0)\<lparr>r_rit_mode := 0\<rparr>, t_call_seq := n, t_hand_id := h\<rparr>"
    by (rule create_exact [OF p, of demo_crypto demo_lib])
  have e: "t0 = empty_table 3\<lparr>t_id := replicate 28 1, t_creator := replicate 20 7\<rparr>"
    using t0 by (simp add: table_new_def empty_table_def stored_table_def demo_plain)
  have "t_call_seq t < u32_bound \<and> t_hand_id t < u32_bound"
    by (rule committed_counters [OF assms]) (simp add: stored_table_def empty_table_def)
  with d assms t e show ?thesis
    by (simp add: machine_typed_def fresh_padding_def empty_table_def ok_rules_def rules_new_def ok_cards_def board_empty_def
      PADDING_def seat_empty_def DEFAULT_TIME_BANK_MS_def NO_SEAT_def deck_default_def ok_deck_def ok_ledger_def
      ledger_default_def list_all_iff timeout_default_def ok_timeouts_def ANTE_MODE_NONE_def RAKE_MODE_NONE_def
      DEFAULT_RAKE_BPS_def DEFAULT_RAKE_CAP_def RIT_MODE_DISABLED_def)
qed

theorem collected_task_is_the_transition_witness:
  "\<exists>t out task h. dispatch_bytes demo_crypto demo_lib demo_wire demo_runtime_ctx (selector id CreateTable) demo_create_args stored_table = (t, Inr out) \<and>
     collect_into demo_runtime out demo_host = (h, Inr ()) \<and> h_tasks h = [task] \<and> pk_pre_table task = stored_table \<and> pk_post_table task = t"
proof -
  obtain t task where d: "dispatch_bytes demo_crypto demo_lib demo_wire demo_runtime_ctx (selector id CreateTable) demo_create_args stored_table =
      (t, Inr \<lparr>out_events = [], out_prove_task = Some task\<rparr>)" by (rule demo_task)
  have id: "wl_hash demo_wire = id" by (simp add: demo_wire_def)
  from d have "dispatch demo_crypto demo_lib (plain demo_runtime_ctx) (CallCreateTable 3 5 10 0) stored_table = (t, Inr [])"
    using demo_create_decodes from_selector_selector [OF demo_wire_selectors, of CreateTable]
    by (auto simp: dispatch_bytes_def id build_dispatch_output_def result_simps split: sum.splits prod.splits if_splits)
  note typed = demo_created_typed [OF this]
  have parts: "demo_crypto = ul_crypto demo_runtime" "demo_wire = ul_wire demo_runtime" "lawful_points (wl_points demo_wire)"
    using demo_points_lawful by (simp_all add: demo_runtime_def demo_wire_def)
  from collected_task_is_the_transition [OF d _ parts conjI [OF stored_typed stored_padding] typed, of task demo_host] d
  show ?thesis by (auto simp: demo_host_def runtime_new_def)
qed

section \<open>Commands that come too early\<close>

text \<open>
  A submission of reveal tokens passes every check at the gate, but its window is closed, whatever
  the height of the chain.
\<close>

definition too_early :: "('pt, 'pf) runtime_lib \<Rightarrow> 'pt host \<Rightarrow> submission \<Rightarrow> bool" where
  "too_early U h sub \<longleftrightarrow> (\<exists>address caller m.
     wallet_to_address (ul_hex U) (sb_wallet sub) = Inr address \<and> \<not> is_stale h address (sb_nonce sub) \<and>
     verify_submission U (h_chain_id h) (h_table h) (sb_wallet sub) (sb_selector sub) (sb_args sub) (sb_nonce sub) (sb_signature sub) = Inr () \<and>
     caller_from_wallet U (sb_wallet sub) = Inr caller \<and> holdable_command (wl_hash (ul_wire U)) (sb_selector sub) \<and>
     (\<forall>height. dispatch_bytes (ul_crypto U) (ul_reconstruction U) (ul_wire U)
        (context_of caller (sb_block_timestamp sub) (h\<lparr>h_block_height := height\<rparr>)) (sb_selector sub) (sb_args sub) (h_table h) =
        (h_table h, Inl (PhaseWindowClosed m))))"

definition at_height :: "nat \<Rightarrow> 'pt host \<Rightarrow> 'pt host" where
  "at_height n h = h\<lparr>h_block_height := n\<rparr>"

lemma at_height_simps [simp]:
  "at_height n (at_height m h) = at_height n h" "too_early U (at_height n h) sub = too_early U h sub"
  by (simp_all add: at_height_def too_early_def is_stale_def context_of_def)

definition waiting_entry :: "submission \<Rightarrow> submission pending_entry" where
  "waiting_entry sub = \<lparr>pe_envelope = sub, pe_selector = sb_selector sub, pe_args = sb_args sub, pe_hold_count = 0, pe_last_reject = None\<rparr>"

lemma early_apply:
  "too_early U h sub \<Longrightarrow> apply_submission U sub (sb_selector sub) (sb_args sub) h = (at_height (next_height (h_block_height h)) h, Hold)"
  by (auto simp: too_early_def apply_submission_def Let_def at_height_def classify_dispatch_error_def is_window_error_def)

lemma early_submit:
  assumes "too_early U (rt_host rt) sub"
  shows "submit_signed U sub rt =
    (let h = at_height (next_height (h_block_height (rt_host rt))) (rt_host rt); q = rt_pending rt in
     if length (pq_entries q) \<ge> pq_max_entries q then (\<lparr>rt_host = h, rt_pending = q\<rparr>, Inl (Other ''pending queue full''))
     else (\<lparr>rt_host = h, rt_pending = q\<lparr>pq_entries := pq_entries q @ [waiting_entry sub], pq_held_total := pq_held_total q + 1\<rparr>\<rparr>, Inr ()))"
proof -
  note a = early_apply [OF assms]
  from assms obtain address where "wallet_to_address (ul_hex U) (sb_wallet sub) = Inr address" "\<not> is_stale (rt_host rt) address (sb_nonce sub)"
    "verify_submission U (h_chain_id (rt_host rt)) (h_table (rt_host rt)) (sb_wallet sub) (sb_selector sub) (sb_args sub) (sb_nonce sub) (sb_signature sub) = Inr ()"
    unfolding too_early_def by blast
  then show ?thesis by (simp add: submit_signed_def pending_submit_def a Let_def waiting_entry_def)
qed

lemma copies_wait:
  assumes "too_early U (rt_host rt) sub" "n + length (pq_entries (rt_pending rt)) \<le> pq_max_entries (rt_pending rt)"
  shows "let rt' = runtime_run U (replicate n (OpSigned sub)) rt in
    pq_entries (rt_pending rt') = pq_entries (rt_pending rt) @ replicate n (waiting_entry sub) \<and>
    pq_max_entries (rt_pending rt') = pq_max_entries (rt_pending rt) \<and> (\<exists>k. rt_host rt' = at_height k (rt_host rt))"
  using assms
proof (induction n arbitrary: rt)
  case 0
  have "rt_host rt = at_height (h_block_height (rt_host rt)) (rt_host rt)" by (simp add: at_height_def)
  then show ?case by (auto simp: runtime_run_def Let_def)
next
  case (Suc n)
  let ?rt = "fst (submit_signed U sub rt)"
  have s: "rt_host ?rt = at_height (next_height (h_block_height (rt_host rt))) (rt_host rt)"
    "pq_entries (rt_pending ?rt) = pq_entries (rt_pending rt) @ [waiting_entry sub]" "pq_max_entries (rt_pending ?rt) = pq_max_entries (rt_pending rt)"
    using Suc.prems early_submit [OF Suc.prems(1)] by (simp_all add: Let_def)
  have "too_early U (rt_host ?rt) sub" "n + length (pq_entries (rt_pending ?rt)) \<le> pq_max_entries (rt_pending ?rt)"
    using Suc.prems s by simp_all
  from Suc.IH [OF this] show ?case by (auto simp: runtime_run_def Let_def s)
qed

text \<open>
  One early message can fill the queue: holding a command back raises no watermark and queued
  commands are not compared, so the very same signed message, sent 64 times, fills the queue with 64
  copies of itself; after that the early reveal tokens of every other player are refused, although
  they would have been queued before.
\<close>

theorem one_message_fills_the_queue:
  assumes "too_early U (rt_host rt) sub" "too_early U (rt_host rt) another" "rt_pending rt = pending_new 64"
  shows "pq_entries (rt_pending (runtime_run U (replicate 64 (OpSigned sub)) rt)) = replicate 64 (waiting_entry sub) \<and>
    snd (submit_signed U another (runtime_run U (replicate 64 (OpSigned sub)) rt)) = Inl (Other ''pending queue full'') \<and>
    snd (submit_signed U another rt) = Inr ()"
proof -
  let ?rt = "runtime_run U (replicate 64 (OpSigned sub)) rt"
  have c: "pq_entries (rt_pending ?rt) = replicate 64 (waiting_entry sub)" "pq_max_entries (rt_pending ?rt) = 64"
    "\<exists>k. rt_host ?rt = at_height k (rt_host rt)"
    using copies_wait [OF assms(1), of 64] assms(3) by (simp_all add: pending_new_def Let_def)
  then have "too_early U (rt_host ?rt) another" using assms(2) by auto
  from early_submit [OF this] early_submit [OF assms(2)] c show ?thesis by (simp add: assms(3) pending_new_def Let_def)
qed

lemma demo_early:
  assumes "n > 0"
  shows "too_early demo_runtime demo_host (demo_submission SubmitPlayerRevealTokens (replicate 9 0) n)"
proof -
  obtain caller where c: "caller_from_wallet demo_runtime ''05'' = Inr caller" "ci_address caller = demo_address" using demo_caller by blast
  have "from_slice (get_reveal_args demo_wire) (replicate 9 0) = Inr (0, [], [])" by code_simp
  then have d: "decode_call demo_wire SubmitPlayerRevealTokens (replicate 9 0) = Inr (CallSubmitPlayerRevealTokens 0 [] [])"
    by (simp add: decode_args_Inr [THEN iffD2])
  have "dispatch_bytes demo_crypto demo_lib demo_wire ctx (selector id SubmitPlayerRevealTokens) (replicate 9 0) lobby_table =
      (lobby_table, Inl (PhaseWindowClosed ''reveal phase is NONE''))" if "dc_caller ctx = demo_address" for ctx
  proof -
    have "dc_caller (plain ctx) = demo_address" using that by (simp add: dispatch_context.truncate_def)
    from lobby_caller [OF this] have "run_call demo_crypto demo_lib (plain ctx) (CallSubmitPlayerRevealTokens 0 [] []) lobby_table [] =
        Inl (PhaseWindowClosed ''reveal phase is NONE'')"
      by (simp add: as_player_def apply_submit_player_reveal_tokens_def reveal_token_state_def lobby_fields)
    with d from_selector_selector [OF demo_wire_selectors, of SubmitPlayerRevealTokens] show ?thesis
      by (simp add: dispatch_bytes_def dispatch_def demo_runtime_parts)
  qed
  with c demo_wallet demo_verified [of "selector id SubmitPlayerRevealTokens" "replicate 9 0" n] show ?thesis
    unfolding too_early_def
    by (intro exI [of _ demo_address] exI [of _ caller] exI [of _ "''reveal phase is NONE''"])
      (simp add: demo_submission_def demo_host_def runtime_new_def demo_runtime_parts is_stale_def holdable_command_def context_of_def)
qed

theorem one_message_fills_the_queue_witness:
  "let rt = runtime_run demo_runtime (replicate 64 (OpSigned (demo_submission SubmitPlayerRevealTokens (replicate 9 0) 1))) (runtime_new lobby_table 1) in
     length (pq_entries (rt_pending rt)) = 64 \<and>
     snd (submit_signed demo_runtime (demo_submission SubmitPlayerRevealTokens (replicate 9 0) 2) rt) = Inl (Other ''pending queue full'')"
proof -
  have "too_early demo_runtime (rt_host (runtime_new lobby_table 1)) (demo_submission SubmitPlayerRevealTokens (replicate 9 0) n)" if "n > 0" for n
    using demo_early [OF that] by (simp only: demo_host_def)
  then have e: "too_early demo_runtime (rt_host (runtime_new lobby_table 1)) (demo_submission SubmitPlayerRevealTokens (replicate 9 0) 1)"
    "too_early demo_runtime (rt_host (runtime_new lobby_table 1)) (demo_submission SubmitPlayerRevealTokens (replicate 9 0) 2)" by simp_all
  have "rt_pending (runtime_new lobby_table 1) = pending_new 64" by (simp add: runtime_new_def)
  from one_message_fills_the_queue [OF e this] show ?thesis by (simp add: Let_def)
qed

end
