(* ===== verification/Canon_State.thy ===== *)
theory Canon_State
  imports Poker_Borsh Poker_Masks
begin

text \<open>
  The canonical image of a table (\<^verbatim>\<open>src/src/texas_canonical.rs\<close>): the fixed-width state the
  direct proofs talk about, its well-formedness check, and the bytes its commitment covers.
  Nothing here replays the virtual machine.

  Names carry the prefix \<open>ci_\<close> for the fields of the state image and \<open>cs_\<close> for those of a
  seat image; the constructors of the source's enumerations carry a \<open>C\<close> or \<open>CS\<close>. A
  commitment is its 32 bytes. Errors of this module are strings in the source; they are
  \<open>Other\<close> here, and a panic is \<open>Panic\<close>.
\<close>

section \<open>A list of checks\<close>

text \<open>A validator is a list of checks that run in order; the first error is the result.\<close>

definition fail_if :: "bool \<Rightarrow> string \<Rightarrow> unit res" where
  "fail_if b msg = (if b then Inl (Other msg) else Inr ())"

fun checks :: "unit res list \<Rightarrow> unit res" where
  "checks [] = Inr ()"
| "checks (c # cs) = rbind c (\<lambda>_. checks cs)"

lemma fail_if_Inr_iff [simp]: "fail_if b msg = Inr u \<longleftrightarrow> \<not> b"
  by (simp add: fail_if_def)

lemma fail_if_False [simp]: "fail_if False msg = Inr ()"
  by (simp add: fail_if_def)

lemma fail_if_True [simp]: "fail_if True msg = Inl (Other msg)"
  by (simp add: fail_if_def)

lemma rbind_unit_Inr_iff [simp]:
  "rbind (m :: unit res) f = Inr y \<longleftrightarrow> m = Inr () \<and> f () = Inr y"
  by (cases m) auto

lemma checks_Cons_iff [simp]: "checks (c # cs) = Inr u \<longleftrightarrow> c = Inr () \<and> checks cs = Inr ()"
  by simp

lemma checks_append: "checks (xs @ ys) = rbind (checks xs) (\<lambda>_. checks ys)"
proof (induction xs)
  case Nil
  then show ?case by simp
next
  case (Cons x xs)
  then show ?case by (cases x) auto
qed

lemma checks_Inr_iff: "checks cs = Inr u \<longleftrightarrow> (\<forall>c\<in>set cs. c = Inr ())"
  by (induction cs) auto

section \<open>Constants\<close>

definition CANONICAL_ABI_VERSION :: nat where "CANONICAL_ABI_VERSION = 7"
definition MAX_CANONICAL_SEATS :: nat where "MAX_CANONICAL_SEATS = 9"
definition MAX_CANONICAL_BOARD_REVEAL_ASSIGNMENTS :: nat where
  "MAX_CANONICAL_BOARD_REVEAL_ASSIGNMENTS = 6"
definition NO_CANONICAL_SEAT :: nat where "NO_CANONICAL_SEAT = 15"
definition CANONICAL_RECONSTRUCT_COLLECTING_SUBTAG :: nat where
  "CANONICAL_RECONSTRUCT_COLLECTING_SUBTAG = 1"
definition CANONICAL_SHUFFLE_RECONSTRUCT_SUBTAG :: nat where
  "CANONICAL_SHUFFLE_RECONSTRUCT_SUBTAG = 2"

definition zero32 :: bytes where "zero32 = replicate 32 0"

section \<open>Phases and seats\<close>

datatype canonical_phase =
    CWaiting | CShuffling | CRevealing | CReconstructing | CBetting | CShowdownDisplay

datatype canonical_seat_status =
    CSEmpty | CSWaiting | CSActive | CSFolded | CSAllIn | CSOut

record canonical_seat =
  cs_status :: canonical_seat_status
  cs_acted :: bool
  cs_stack :: nat
  cs_bet :: nat
  cs_total_bet :: nat
  cs_pending_addon :: nat
  cs_time_bank_ms :: nat
  cs_identity_commitment :: bytes
  cs_key_commitment :: bytes
  cs_hole_cards_commitment :: bytes

definition EMPTY_SEAT :: canonical_seat where
  "EMPTY_SEAT = \<lparr>cs_status = CSEmpty, cs_acted = False, cs_stack = 0, cs_bet = 0,
     cs_total_bet = 0, cs_pending_addon = 0, cs_time_bank_ms = 0,
     cs_identity_commitment = zero32, cs_key_commitment = zero32,
     cs_hole_cards_commitment = zero32\<rparr>"

text \<open>
  \<^verbatim>\<open>CanonicalSeat::validate\<close>. The arms of the source's match are tried in order, so an active
  seat with chips and an all-in seat without chips fall through to the last arm.
\<close>

definition validate_seat :: "canonical_seat \<Rightarrow> unit res" where
  "validate_seat s = checks
    [fail_if (cs_total_bet s < cs_bet s) ''seat total_bet is below current bet'',
     if cs_status s = CSEmpty then
       fail_if (cs_acted s \<or> cs_stack s \<noteq> 0 \<or> cs_bet s \<noteq> 0 \<or> cs_total_bet s \<noteq> 0
           \<or> cs_pending_addon s \<noteq> 0 \<or> cs_identity_commitment s \<noteq> zero32
           \<or> cs_key_commitment s \<noteq> zero32 \<or> cs_hole_cards_commitment s \<noteq> zero32)
         ''empty seat carries lifecycle, custody, or commitment data''
     else if cs_status s = CSOut then
       fail_if (cs_identity_commitment s = zero32 \<or> cs_key_commitment s \<noteq> zero32
           \<or> cs_hole_cards_commitment s \<noteq> zero32 \<or> cs_stack s \<noteq> 0
           \<or> cs_pending_addon s \<noteq> 0)
         ''departed seat has an invalid retained custody image''
     else if cs_status s = CSActive \<and> cs_stack s = 0 then
       Inl (Other ''active seat has zero stack; it must be all-in'')
     else if cs_status s = CSAllIn \<and> cs_stack s \<noteq> 0 then
       Inl (Other ''all-in seat retains a non-zero stack'')
     else
       fail_if (cs_identity_commitment s = zero32 \<or> cs_key_commitment s = zero32)
         ''occupied seat is missing identity/key commitment'']"

section \<open>The state image\<close>

record canonical_state =
  ci_abi_version :: nat
  ci_table_id :: nat
  ci_hand_id :: nat
  ci_call_seq :: nat
  ci_phase :: canonical_phase
  ci_phase_subtag :: nat
  ci_street :: nat
  ci_current_turn :: nat
  ci_deadline_ms :: nat
  ci_shuffle_timeout_ms :: nat
  ci_reveal_timeout_ms :: nat
  ci_betting_timeout_ms :: nat
  ci_reconstruct_timeout_ms :: nat
  ci_showdown_display_ms :: nat
  ci_current_bet :: nat
  ci_min_raise :: nat
  ci_chip_pool :: nat
  ci_pot :: nat
  ci_button :: nat
  ci_last_bb_seat :: nat
  ci_max_players :: nat
  ci_acted_mask :: "16 word"
  ci_leave_after_hand_mask :: "16 word"
  ci_protocol_pending_mask :: "16 word"
  ci_board_cards_commitment :: bytes
  ci_deck_commitment :: bytes
  ci_reveal_commitment :: bytes
  ci_reconstruction_commitment :: bytes
  ci_run_it_twice_commitment :: bytes
  ci_rules_commitment :: bytes
  ci_governance_commitment :: bytes
  ci_settlement_commitment :: bytes
  ci_custody_commitment :: bytes
  ci_lifecycle_root :: bytes
  ci_overlay_root :: bytes
  ci_state_root :: bytes
  ci_seats :: "canonical_seat list"

definition canonical_occupancy :: "canonical_seat_status \<Rightarrow> bool" where
  "canonical_occupancy st \<longleftrightarrow> st = CSActive \<or> st = CSFolded \<or> st = CSAllIn"

definition image_seat_mask :: "canonical_state \<Rightarrow> 16 word" where
  "image_seat_mask st =
     (if ci_max_players st = MAX_CANONICAL_SEATS then drop_bit (16 - MAX_CANONICAL_SEATS) (- 1)
      else push_bit (ci_max_players st) 1 - 1)"

definition seat_domain_check :: "canonical_state \<Rightarrow> string \<times> nat \<Rightarrow> unit res" where
  "seat_domain_check st nv =
     fail_if (snd nv \<noteq> NO_CANONICAL_SEAT \<and> ci_max_players st \<le> snd nv)
       (fst nv @ '' is outside the seat domain'')"

definition non_zero_check :: "string \<times> bytes \<Rightarrow> unit res" where
  "non_zero_check nv =
     fail_if (snd nv = zero32) (fst nv @ '' must be bound to a non-zero commitment'')"

text \<open>The checks of the source's loop over the nine seats, for one of them.\<close>

definition image_seat_checks :: "canonical_state \<Rightarrow> nat \<Rightarrow> canonical_seat \<Rightarrow> unit res" where
  "image_seat_checks st i s = checks
    [validate_seat s,
     fail_if (ci_max_players st \<le> i \<and> cs_status s \<noteq> CSEmpty)
       ''seat outside table capacity is not empty'',
     fail_if (ci_current_bet st < cs_bet s) ''seat bet exceeds current bet'',
     fail_if (ci_protocol_pending_mask st AND seat_mask_bit i \<noteq> 0
         \<and> \<not> canonical_occupancy (cs_status s))
       ''protocol pending mask addresses an ineligible seat'',
     fail_if (cs_acted s \<noteq> (ci_acted_mask st AND seat_mask_bit i \<noteq> 0))
       ''acted mask is not the fixed-width seat projection'',
     fail_if (ci_phase st = CBetting \<and> ci_current_turn st \<noteq> NO_CANONICAL_SEAT
         \<and> i = ci_current_turn st \<and> cs_status s \<noteq> CSActive)
       ''current turn does not point at an active seat'',
     fail_if ((cs_status s = CSFolded \<or> cs_status s = CSAllIn) \<and> \<not> cs_acted s)
       ''folded/all-in seat must be marked acted'']"

text \<open>
  The custody identity: the pot and the stack, pending addon and live bet of every seat, added
  with overflow checks.
\<close>

definition accounted_step :: "nat option \<Rightarrow> canonical_seat \<Rightarrow> nat option" where
  "accounted_step acc s = Option.bind acc (\<lambda>v. Option.bind (checked_add v (cs_stack s))
     (\<lambda>v. Option.bind (checked_add v (cs_pending_addon s)) (\<lambda>v. checked_add v (cs_bet s))))"

definition accounted_chips :: "canonical_state \<Rightarrow> nat option" where
  "accounted_chips st = foldl accounted_step (Some (ci_pot st)) (ci_seats st)"

text \<open>\<^verbatim>\<open>CanonicalStateImage::validate\<close>.\<close>

definition validate_state :: "canonical_state \<Rightarrow> unit res" where
  "validate_state st = checks
    [fail_if (ci_abi_version st \<noteq> CANONICAL_ABI_VERSION) ''unsupported canonical Texas ABI version'',
     fail_if (\<not> (2 \<le> ci_max_players st \<and> ci_max_players st \<le> MAX_CANONICAL_SEATS))
       ''max_players must be within 2..=9'',
     checks (map (seat_domain_check st)
       [(''button'', ci_button st), (''last_bb_seat'', ci_last_bb_seat st),
        (''current_turn'', ci_current_turn st)]),
     fail_if (ci_acted_mask st AND NOT (image_seat_mask st) \<noteq> 0
         \<or> ci_leave_after_hand_mask st AND NOT (image_seat_mask st) \<noteq> 0
         \<or> ci_protocol_pending_mask st AND NOT (image_seat_mask st) \<noteq> 0)
       ''seat mask exceeds table capacity'',
     checks (map non_zero_check
       [(''rules_commitment'', ci_rules_commitment st),
        (''governance_commitment'', ci_governance_commitment st),
        (''settlement_commitment'', ci_settlement_commitment st),
        (''custody_commitment'', ci_custody_commitment st),
        (''lifecycle_root'', ci_lifecycle_root st),
        (''overlay_root'', ci_overlay_root st),
        (''state_root'', ci_state_root st)]),
     if ci_phase st = CWaiting then
       fail_if (ci_phase_subtag st \<noteq> 0 \<or> ci_street st \<noteq> 0 \<or> ci_acted_mask st \<noteq> 0
           \<or> ci_protocol_pending_mask st \<noteq> 0)
         ''waiting phase carries active hand progress''
     else checks
       [fail_if (ci_deadline_ms st = 0) ''active phase must carry an absolute deadline'',
        fail_if (ci_phase_subtag st = 0) ''active phase is missing its protocol subtag''],
     fail_if (ci_phase st = CBetting \<and> \<not> (1 \<le> ci_street st \<and> ci_street st \<le> 4))
       ''betting phase street is outside preflop..river'',
     if ci_phase st = CShuffling \<or> ci_phase st = CRevealing \<or> ci_phase st = CReconstructing then
       fail_if (ci_protocol_pending_mask st = 0) ''active protocol phase has no pending participant''
     else fail_if (ci_protocol_pending_mask st \<noteq> 0)
       ''non-protocol phase carries a pending participant mask'',
     if ci_phase st = CWaiting then
       fail_if (ci_current_turn st \<noteq> NO_CANONICAL_SEAT \<or> ci_deadline_ms st \<noteq> 0)
         ''waiting phase must have no actor or deadline''
     else fail_if (ci_deadline_ms st = 0) ''active phase must carry an absolute deadline'',
     checks (map (\<lambda>i. image_seat_checks st i (ci_seats st ! i)) [0..<length (ci_seats st)]),
     fail_if (accounted_chips st \<noteq> Some (ci_chip_pool st))
       ''TableVault chip_pool does not match canonical custody buckets'']"

section \<open>What a valid image satisfies\<close>

text \<open>The chips of one seat, and of all seats.\<close>

definition seat_chips :: "canonical_seat \<Rightarrow> nat" where
  "seat_chips s = cs_stack s + cs_pending_addon s + cs_bet s"

definition held_chips :: "canonical_state \<Rightarrow> nat" where
  "held_chips st = sum_list (map seat_chips (ci_seats st))"

lemma accounted_step_Some:
  "v < u64_bound \<Longrightarrow>
   accounted_step (Some v) s =
     (if v + seat_chips s < u64_bound then Some (v + seat_chips s) else None)"
  by (auto simp: accounted_step_def checked_add_def seat_chips_def bind_eq_None_conv)

lemma foldl_accounted_None: "foldl accounted_step None xs = None"
  by (induction xs) (auto simp: accounted_step_def)

lemma foldl_accounted:
  "v < u64_bound \<Longrightarrow>
   foldl accounted_step (Some v) xs =
     (if v + sum_list (map seat_chips xs) < u64_bound
      then Some (v + sum_list (map seat_chips xs)) else None)"
proof (induction xs arbitrary: v)
  case Nil
  then show ?case by simp
next
  case (Cons s xs)
  show ?case
  proof (cases "v + seat_chips s < u64_bound")
    case True
    with Cons.IH [OF True] Cons.prems show ?thesis by (simp add: accounted_step_Some add.assoc)
  next
    case False
    with Cons.prems show ?thesis by (simp add: accounted_step_Some foldl_accounted_None)
  qed
qed

lemma accounted_Some_iff:
  "ci_pot st < u64_bound \<Longrightarrow>
   accounted_chips st = Some c \<longleftrightarrow> c = ci_pot st + held_chips st \<and> c < u64_bound"
  by (auto simp: accounted_chips_def foldl_accounted held_chips_def)

text \<open>The values Rust's types admit: widths of the integers, 32-byte commitments, nine seats.\<close>

definition typed_seat :: "canonical_seat \<Rightarrow> bool" where
  "typed_seat s \<longleftrightarrow> cs_stack s < u64_bound \<and> cs_bet s < u64_bound \<and> cs_total_bet s < u64_bound
     \<and> cs_pending_addon s < u64_bound \<and> cs_time_bank_ms s < u32_bound
     \<and> length (cs_identity_commitment s) = 32 \<and> length (cs_key_commitment s) = 32
     \<and> length (cs_hole_cards_commitment s) = 32"

definition typed_header :: "canonical_state \<Rightarrow> bool" where
  "typed_header st \<longleftrightarrow> ci_abi_version st < 2 ^ 16 \<and> ci_table_id st < u64_bound
     \<and> ci_hand_id st < u32_bound \<and> ci_call_seq st < u32_bound \<and> ci_phase_subtag st < 2 ^ 8
     \<and> ci_street st < 2 ^ 8 \<and> ci_current_turn st < 2 ^ 8 \<and> ci_deadline_ms st < u64_bound
     \<and> ci_shuffle_timeout_ms st < u32_bound \<and> ci_reveal_timeout_ms st < u32_bound
     \<and> ci_betting_timeout_ms st < u32_bound \<and> ci_reconstruct_timeout_ms st < u32_bound
     \<and> ci_showdown_display_ms st < u32_bound \<and> ci_current_bet st < u64_bound
     \<and> ci_min_raise st < u64_bound \<and> ci_chip_pool st < u64_bound \<and> ci_pot st < u64_bound
     \<and> ci_button st < 2 ^ 8 \<and> ci_last_bb_seat st < 2 ^ 8 \<and> ci_max_players st < 2 ^ 8"

definition image_commitments :: "canonical_state \<Rightarrow> bytes list" where
  "image_commitments st =
     [ci_board_cards_commitment st, ci_deck_commitment st, ci_reveal_commitment st,
      ci_reconstruction_commitment st, ci_run_it_twice_commitment st, ci_rules_commitment st,
      ci_governance_commitment st, ci_settlement_commitment st, ci_custody_commitment st,
      ci_lifecycle_root st, ci_overlay_root st, ci_state_root st]"

definition typed_state :: "canonical_state \<Rightarrow> bool" where
  "typed_state st \<longleftrightarrow> typed_header st \<and> (\<forall>c\<in>set (image_commitments st). length c = 32)
     \<and> length (ci_seats st) = 9 \<and> (\<forall>s\<in>set (ci_seats st). typed_seat s)"

section \<open>The bytes of an image and its commitment\<close>

fun canonical_phase_tag :: "canonical_phase \<Rightarrow> nat" where
  "canonical_phase_tag CWaiting = 0"
| "canonical_phase_tag CShuffling = 1"
| "canonical_phase_tag CRevealing = 2"
| "canonical_phase_tag CReconstructing = 3"
| "canonical_phase_tag CBetting = 4"
| "canonical_phase_tag CShowdownDisplay = 5"

fun seat_status_tag :: "canonical_seat_status \<Rightarrow> nat" where
  "seat_status_tag CSEmpty = 0"
| "seat_status_tag CSWaiting = 1"
| "seat_status_tag CSActive = 2"
| "seat_status_tag CSFolded = 3"
| "seat_status_tag CSAllIn = 4"
| "seat_status_tag CSOut = 5"

definition seat_pieces :: "canonical_seat \<Rightarrow> bytes list" where
  "seat_pieces s =
     [int_bytes 1 (seat_status_tag (cs_status s)), int_bytes 1 (of_bool (cs_acted s)),
      int_bytes 8 (cs_stack s), int_bytes 8 (cs_bet s), int_bytes 8 (cs_total_bet s),
      int_bytes 8 (cs_pending_addon s), int_bytes 4 (cs_time_bank_ms s),
      cs_identity_commitment s, cs_key_commitment s, cs_hole_cards_commitment s]"

definition seat_bytes :: "canonical_seat \<Rightarrow> bytes" where
  "seat_bytes s = concat (seat_pieces s)"

definition header_bytes :: "canonical_state \<Rightarrow> bytes list" where
  "header_bytes st =
     [int_bytes 2 (ci_abi_version st), int_bytes 8 (ci_table_id st), int_bytes 4 (ci_hand_id st),
      int_bytes 4 (ci_call_seq st), int_bytes 1 (canonical_phase_tag (ci_phase st)),
      int_bytes 1 (ci_phase_subtag st), int_bytes 1 (ci_street st),
      int_bytes 1 (ci_current_turn st), int_bytes 8 (ci_deadline_ms st),
      int_bytes 4 (ci_shuffle_timeout_ms st), int_bytes 4 (ci_reveal_timeout_ms st),
      int_bytes 4 (ci_betting_timeout_ms st), int_bytes 4 (ci_reconstruct_timeout_ms st),
      int_bytes 4 (ci_showdown_display_ms st), int_bytes 8 (ci_current_bet st),
      int_bytes 8 (ci_min_raise st), int_bytes 8 (ci_chip_pool st), int_bytes 8 (ci_pot st),
      int_bytes 1 (ci_button st), int_bytes 1 (ci_last_bb_seat st),
      int_bytes 1 (ci_max_players st), int_bytes 2 (unat (ci_acted_mask st)),
      int_bytes 2 (unat (ci_leave_after_hand_mask st)),
      int_bytes 2 (unat (ci_protocol_pending_mask st))]"

text \<open>\<^verbatim>\<open>borsh::to_vec\<close> of an image: its fields in order, every one of a fixed width.\<close>

definition state_bytes :: "canonical_state \<Rightarrow> bytes" where
  "state_bytes st = concat (header_bytes st @ image_commitments st @ map seat_bytes (ci_seats st))"

definition ascii :: "string \<Rightarrow> bytes" where
  "ascii s = map of_char s"

definition CANONICAL_STATE_DOMAIN :: bytes where
  "CANONICAL_STATE_DOMAIN = ascii ''zchain.texas.canonical-state.v3''"

text \<open>\<^verbatim>\<open>CanonicalStateImage::commitment\<close>; the BLAKE3 chain digest is a parameter.\<close>

definition state_commitment :: "(bytes \<Rightarrow> bytes) \<Rightarrow> canonical_state \<Rightarrow> bytes" where
  "state_commitment hash st = hash (CANONICAL_STATE_DOMAIN @ state_bytes st)"

section \<open>An image has one encoding\<close>

lemma int_bytes_inj: "n < 256 ^ k \<Longrightarrow> m < 256 ^ k \<Longrightarrow> int_bytes k n = int_bytes k m \<longleftrightarrow> n = m"
  by (metis int_value_bytes mod_less)

text \<open>Pieces of the same widths are determined by their concatenation.\<close>

lemma concat_same_widths:
  "map length xs = map length ys \<Longrightarrow> concat xs = concat ys \<longleftrightarrow> xs = ys"
proof (induction xs arbitrary: ys)
  case Nil
  then show ?case by simp
next
  case (Cons x xs)
  then obtain y ys' where "ys = y # ys'" by (cases ys) auto
  with Cons show ?case by auto
qed

lemma canonical_phase_tag_inj [simp]: "canonical_phase_tag p = canonical_phase_tag q \<longleftrightarrow> p = q"
  by (cases p; cases q) auto

lemma seat_status_tag_inj [simp]: "seat_status_tag p = seat_status_tag q \<longleftrightarrow> p = q"
  by (cases p; cases q) auto

lemma canonical_phase_tag_bound [simp]: "canonical_phase_tag p < 256"
  by (cases p) auto

lemma seat_status_tag_bound [simp]: "seat_status_tag q < 256"
  by (cases q) auto

lemma length_seat_bytes: "typed_seat s \<Longrightarrow> length (seat_bytes s) = 134"
  by (simp add: seat_bytes_def seat_pieces_def typed_seat_def)

lemma seat_piece_widths:
  "typed_seat s \<Longrightarrow> map length (seat_pieces s) = [1, 1, 8, 8, 8, 8, 4, 32, 32, 32]"
  by (simp add: seat_pieces_def typed_seat_def)

lemma of_bool_byte: "int_bytes 1 (of_bool a) = int_bytes 1 (of_bool b) \<longleftrightarrow> a = b"
  by (subst int_bytes_inj) auto

lemma byte_tag_inj:
  "int_bytes 1 (seat_status_tag p) = int_bytes 1 (seat_status_tag q) \<longleftrightarrow> p = q"
  "int_bytes 1 (canonical_phase_tag ph) = int_bytes 1 (canonical_phase_tag ph') \<longleftrightarrow> ph = ph'"
  by (subst int_bytes_inj; simp)+

lemma seat_pieces_inj:
  assumes "typed_seat s" "typed_seat t" "seat_pieces s = seat_pieces t"
  shows "s = t"
proof (rule canonical_seat.equality)
  note eq = assms(3) [unfolded seat_pieces_def list.inject]
  from assms(1,2) eq show "cs_stack s = cs_stack t" "cs_bet s = cs_bet t"
    "cs_total_bet s = cs_total_bet t" "cs_pending_addon s = cs_pending_addon t"
    "cs_time_bank_ms s = cs_time_bank_ms t"
    by (simp_all only: typed_seat_def) (simp_all add: int_bytes_inj del: int_bytes.simps)
  from eq show "cs_status s = cs_status t" "cs_acted s = cs_acted t"
    by (simp_all only: byte_tag_inj of_bool_byte)
qed (use assms(3) in \<open>simp_all only: seat_pieces_def list.inject\<close>, simp)

lemma seat_bytes_inj:
  assumes "typed_seat s" "typed_seat t" "seat_bytes s = seat_bytes t"
  shows "s = t"
proof -
  have "seat_pieces s = seat_pieces t"
    using assms(3) concat_same_widths [of "seat_pieces s" "seat_pieces t"]
      seat_piece_widths [OF assms(1)] seat_piece_widths [OF assms(2)]
    by (simp add: seat_bytes_def)
  then show ?thesis by (rule seat_pieces_inj [OF assms(1,2)])
qed

lemma header_widths: "map length (header_bytes st) = map length (header_bytes st')"
  by (simp add: header_bytes_def)

lemma commitment_widths:
  "typed_state st \<Longrightarrow> map length (image_commitments st) = replicate 12 32"
  by (simp add: typed_state_def image_commitments_def numeral_eq_Suc)

lemma seat_widths:
  assumes "typed_state st"
  shows "map length (map seat_bytes (ci_seats st)) = replicate 9 134"
proof -
  have "map (length \<circ> seat_bytes) (ci_seats st) = map (\<lambda>_. 134) (ci_seats st)"
    using assms by (auto simp: typed_state_def length_seat_bytes intro: map_cong)
  then show ?thesis using assms by (simp add: typed_state_def map_replicate_const)
qed

lemma mask_bytes_inj: "int_bytes 2 (unat m) = int_bytes 2 (unat n) \<longleftrightarrow> m = n" for m n :: "16 word"
proof -
  have "unat m < 256 ^ 2" "unat n < 256 ^ 2"
    using unsigned_less [of m] unsigned_less [of n] by simp_all
  then show ?thesis by (simp only: int_bytes_inj) (simp add: word_unat_eq_iff)
qed

lemma header_bytes_inj:
  assumes t: "typed_header st" "typed_header st'" and h: "header_bytes st = header_bytes st'"
    and "image_commitments st = image_commitments st'" "ci_seats st = ci_seats st'"
  shows "st = st'"
proof -
  note h' = h [unfolded header_bytes_def list.inject byte_tag_inj mask_bytes_inj]
  show ?thesis
    using t h' assms(4,5)
    by (simp add: typed_header_def image_commitments_def int_bytes_inj canonical_state.equality
        del: int_bytes.simps)
qed

lemma seats_bytes_inj:
  assumes "\<forall>s\<in>set xs. typed_seat s" "\<forall>s\<in>set ys. typed_seat s"
    and "map seat_bytes xs = map seat_bytes ys"
  shows "xs = ys"
  using assms
proof (induction xs arbitrary: ys)
  case Nil
  then show ?case by simp
next
  case (Cons x xs)
  then obtain y ys' where "ys = y # ys'" by (cases ys) auto
  with Cons show ?case by (auto intro: seat_bytes_inj)
qed

theorem state_bytes_inj:
  assumes "typed_state st" "typed_state st'" "state_bytes st = state_bytes st'"
  shows "st = st'"
proof -
  have "map length (header_bytes st @ image_commitments st @ map seat_bytes (ci_seats st))
      = map length (header_bytes st' @ image_commitments st' @ map seat_bytes (ci_seats st'))"
    by (simp add: header_widths [of st st'] commitment_widths [OF assms(1)] commitment_widths [OF assms(2)]
        seat_widths [OF assms(1), simplified] seat_widths [OF assms(2), simplified])
  from concat_same_widths [OF this] assms(3)
  have "header_bytes st @ image_commitments st @ map seat_bytes (ci_seats st)
      = header_bytes st' @ image_commitments st' @ map seat_bytes (ci_seats st')"
    by (simp add: state_bytes_def)
  moreover have "length (header_bytes st) = length (header_bytes st')"
    "length (image_commitments st) = length (image_commitments st')"
    by (simp_all add: header_bytes_def image_commitments_def)
  ultimately have "header_bytes st = header_bytes st'"
    "image_commitments st = image_commitments st'"
    "map seat_bytes (ci_seats st) = map seat_bytes (ci_seats st')"
    by simp_all
  then show ?thesis
    using assms(1,2) by (auto simp: typed_state_def intro!: header_bytes_inj seats_bytes_inj)
qed

end
