(* ===== verification/Canon_Witness.thy ===== *)
theory Canon_Witness
  imports Canon_State
begin

text \<open>
  Transition witnesses of the canonical ABI (\<^verbatim>\<open>src/src/texas_canonical.rs\<close>): the selector
  families, the action payload, the fixed-width openings a witness carries, its commitments
  and nullifier, and the frame checks every relation uses.
\<close>

section \<open>Transition kinds\<close>

datatype transition_kind =
    KCreateTable | KJoinTable | KLeaveTable | KStartHand | KAdvanceDeadline | KForceFold
  | KKickPlayer | KSubmitShuffle | KSubmitReveal | KSubmitReconstruct | KFold | KCheck | KCall
  | KRaise | KBet | KAddon | KRebuy | KSetLeaveAfterHand | KFoldWithProof | KAdvanceRound
  | KAutoFold | KEndWithoutShowdown | KResetOnly | KReconstructTimeoutReset
  | KRevealTimeoutReset | KRevealTimeoutKick | KRevealTimeoutReconstruct | KRevealTimeoutAward
  | KRevealTimeoutRakedAward

fun kind_tag :: "transition_kind \<Rightarrow> nat" where
  "kind_tag KCreateTable = 0" | "kind_tag KJoinTable = 1" | "kind_tag KLeaveTable = 2"
| "kind_tag KStartHand = 3" | "kind_tag KAdvanceDeadline = 4" | "kind_tag KForceFold = 5"
| "kind_tag KKickPlayer = 6" | "kind_tag KSubmitShuffle = 7" | "kind_tag KSubmitReveal = 8"
| "kind_tag KSubmitReconstruct = 9" | "kind_tag KFold = 10" | "kind_tag KCheck = 11"
| "kind_tag KCall = 12" | "kind_tag KRaise = 13" | "kind_tag KBet = 14" | "kind_tag KAddon = 15"
| "kind_tag KRebuy = 16" | "kind_tag KSetLeaveAfterHand = 17" | "kind_tag KFoldWithProof = 18"
| "kind_tag KAdvanceRound = 19" | "kind_tag KAutoFold = 20" | "kind_tag KEndWithoutShowdown = 21"
| "kind_tag KResetOnly = 22" | "kind_tag KReconstructTimeoutReset = 23"
| "kind_tag KRevealTimeoutReset = 24" | "kind_tag KRevealTimeoutKick = 25"
| "kind_tag KRevealTimeoutReconstruct = 26" | "kind_tag KRevealTimeoutAward = 27"
| "kind_tag KRevealTimeoutRakedAward = 28"

definition requires_seat :: "transition_kind \<Rightarrow> bool" where
  "requires_seat k \<longleftrightarrow> k \<in> {KAdvanceDeadline, KAutoFold, KJoinTable, KLeaveTable, KForceFold,
     KKickPlayer, KSubmitShuffle, KSubmitReveal, KSubmitReconstruct, KFold, KCheck, KCall, KRaise,
     KBet, KAddon, KRebuy, KSetLeaveAfterHand, KFoldWithProof, KEndWithoutShowdown,
     KReconstructTimeoutReset, KRevealTimeoutReset, KRevealTimeoutKick,
     KRevealTimeoutReconstruct, KRevealTimeoutAward, KRevealTimeoutRakedAward}"

definition permissionless :: "transition_kind \<Rightarrow> bool" where
  "permissionless k \<longleftrightarrow> k \<in> {KAdvanceDeadline, KAdvanceRound, KAutoFold, KEndWithoutShowdown,
     KResetOnly, KReconstructTimeoutReset, KRevealTimeoutReset, KRevealTimeoutKick,
     KRevealTimeoutReconstruct, KRevealTimeoutAward, KRevealTimeoutRakedAward}"

definition carries_crypto_proof :: "transition_kind \<Rightarrow> bool" where
  "carries_crypto_proof k \<longleftrightarrow>
     k \<in> {KSubmitShuffle, KSubmitReveal, KSubmitReconstruct, KFoldWithProof}"

section \<open>The payload and the openings\<close>

record action_payload =
  ap_seat :: nat
  ap_amount :: nat
  ap_auxiliary :: nat
  ap_flag :: bool
  ap_proof_commitment :: bytes

record board_reveal_assignment =
  ba_present :: bool
  ba_encrypted_card_index :: nat
  ba_runout_index :: nat
  ba_board_position :: nat
  ba_pending_mask :: "16 word"
  ba_submitted_mask :: "16 word"

definition EMPTY_ASSIGNMENT :: board_reveal_assignment where
  "EMPTY_ASSIGNMENT = \<lparr>ba_present = False, ba_encrypted_card_index = 0, ba_runout_index = 0,
     ba_board_position = 0, ba_pending_mask = 0, ba_submitted_mask = 0\<rparr>"

record round_advance_opening =
  ra_pre_cards_dealt :: nat
  ra_post_cards_dealt :: nat
  ra_pre_board_len :: nat
  ra_post_board_len :: nat
  ra_pre_second_board_len :: nat
  ra_post_second_board_len :: nat
  ra_run_it_twice :: bool
  ra_reveal_purpose :: nat
  ra_assignment_count :: nat
  ra_assignments :: "board_reveal_assignment list"

definition round_advance_default :: round_advance_opening where
  "round_advance_default = \<lparr>ra_pre_cards_dealt = 0, ra_post_cards_dealt = 0, ra_pre_board_len = 0,
     ra_post_board_len = 0, ra_pre_second_board_len = 0, ra_post_second_board_len = 0,
     ra_run_it_twice = False, ra_reveal_purpose = 0, ra_assignment_count = 0,
     ra_assignments = replicate MAX_CANONICAL_BOARD_REVEAL_ASSIGNMENTS EMPTY_ASSIGNMENT\<rparr>"

datatype completion_kind =
    CompletionNone | CompletionReconstruct | CompletionRevealStreet | CompletionShowdown
  | CompletionShuffle | CompletionReveal

fun completion_tag :: "completion_kind \<Rightarrow> nat" where
  "completion_tag CompletionNone = 0"
| "completion_tag CompletionReconstruct = 1"
| "completion_tag CompletionRevealStreet = 4"
| "completion_tag CompletionShowdown = 5"
| "completion_tag CompletionShuffle = 2"
| "completion_tag CompletionReveal = 3"

record completion_opening =
  pc_kind :: completion_kind
  pc_completion_timestamp_ms :: nat
  pc_pre_cards_dealt :: nat
  pc_post_cards_dealt :: nat
  pc_suspended_reveal_commitment :: bytes
  pc_post_shuffle_pending_mask :: "16 word"
  pc_post_shuffle_completed_mask :: "16 word"
  pc_post_current_turn :: nat
  pc_sb_seat :: nat
  pc_bb_seat :: nat
  pc_sb_amount :: nat
  pc_bb_amount :: nat
  pc_is_heads_up :: bool
  pc_pre_reveal_commitment :: bytes
  pc_post_reveal_commitment :: bytes
  pc_pre_deck_commitment :: bytes
  pc_post_deck_commitment :: bytes
  pc_pre_reconstruction_commitment :: bytes
  pc_post_reconstruction_commitment :: bytes

definition completion_default :: completion_opening where
  "completion_default = \<lparr>pc_kind = CompletionNone, pc_completion_timestamp_ms = 0,
     pc_pre_cards_dealt = 0, pc_post_cards_dealt = 0, pc_suspended_reveal_commitment = zero32,
     pc_post_shuffle_pending_mask = 0, pc_post_shuffle_completed_mask = 0,
     pc_post_current_turn = 0, pc_sb_seat = 0, pc_bb_seat = 0, pc_sb_amount = 0,
     pc_bb_amount = 0, pc_is_heads_up = False, pc_pre_reveal_commitment = zero32,
     pc_post_reveal_commitment = zero32, pc_pre_deck_commitment = zero32,
     pc_post_deck_commitment = zero32, pc_pre_reconstruction_commitment = zero32,
     pc_post_reconstruction_commitment = zero32\<rparr>"

text \<open>The rules openings (\<^verbatim>\<open>src/src/canonical_rake_opening.rs\<close>).\<close>

record rake_opening =
  ro_mode :: nat
  ro_bps :: nat
  ro_cap :: nat

definition RAKE_ZERO :: rake_opening where
  "RAKE_ZERO = \<lparr>ro_mode = 0, ro_bps = 0, ro_cap = 0\<rparr>"

definition PERCENTAGE_MODE :: nat where "PERCENTAGE_MODE = 1"
definition FIXED_RAKE_BURN_MODE :: nat where "FIXED_RAKE_BURN_MODE = 2"

record blind_opening =
  bo_small_blind :: nat
  bo_big_blind :: nat
  bo_ante_mode :: nat
  bo_ante_amount :: nat

definition BLIND_ZERO :: blind_opening where
  "BLIND_ZERO = \<lparr>bo_small_blind = 0, bo_big_blind = 0, bo_ante_mode = 0, bo_ante_amount = 0\<rparr>"

text \<open>The product is taken in 128 bits, where it cannot wrap.\<close>

definition canonical_settlement_rake :: "nat \<Rightarrow> rake_opening \<Rightarrow> nat" where
  "canonical_settlement_rake pot ro =
     (if ro_mode ro = 0 then 0 else min (min (pot * ro_bps ro div 10000) (ro_cap ro)) pot)"

record transition_witness =
  w_pre :: canonical_state
  w_post :: canonical_state
  w_kind :: transition_kind
  w_actor :: bytes
  w_action :: action_payload
  w_round_advance :: round_advance_opening
  w_protocol_completion :: completion_opening
  w_rake_opening :: rake_opening
  w_blind_opening :: blind_opening
  w_transition_commitment :: bytes
  w_nullifier :: bytes
  w_deadline_height :: nat

section \<open>Commitments of a witness\<close>

definition action_bytes :: "action_payload \<Rightarrow> bytes" where
  "action_bytes a = concat [int_bytes 1 (ap_seat a), int_bytes 8 (ap_amount a),
     int_bytes 8 (ap_auxiliary a), int_bytes 1 (of_bool (ap_flag a)), ap_proof_commitment a]"

definition assignment_bytes :: "board_reveal_assignment \<Rightarrow> bytes" where
  "assignment_bytes a = concat [int_bytes 1 (of_bool (ba_present a)),
     int_bytes 1 (ba_encrypted_card_index a), int_bytes 1 (ba_runout_index a),
     int_bytes 1 (ba_board_position a), int_bytes 2 (unat (ba_pending_mask a)),
     int_bytes 2 (unat (ba_submitted_mask a))]"

definition round_advance_bytes :: "round_advance_opening \<Rightarrow> bytes" where
  "round_advance_bytes r = concat
     ([int_bytes 1 (ra_pre_cards_dealt r), int_bytes 1 (ra_post_cards_dealt r),
       int_bytes 1 (ra_pre_board_len r), int_bytes 1 (ra_post_board_len r),
       int_bytes 1 (ra_pre_second_board_len r), int_bytes 1 (ra_post_second_board_len r),
       int_bytes 1 (of_bool (ra_run_it_twice r)), int_bytes 1 (ra_reveal_purpose r),
       int_bytes 1 (ra_assignment_count r)] @ map assignment_bytes (ra_assignments r))"

definition completion_bytes :: "completion_opening \<Rightarrow> bytes" where
  "completion_bytes c = concat
     [int_bytes 1 (completion_tag (pc_kind c)), int_bytes 8 (pc_completion_timestamp_ms c),
      int_bytes 1 (pc_pre_cards_dealt c), int_bytes 1 (pc_post_cards_dealt c),
      pc_suspended_reveal_commitment c, int_bytes 2 (unat (pc_post_shuffle_pending_mask c)),
      int_bytes 2 (unat (pc_post_shuffle_completed_mask c)), int_bytes 1 (pc_post_current_turn c),
      int_bytes 1 (pc_sb_seat c), int_bytes 1 (pc_bb_seat c), int_bytes 8 (pc_sb_amount c),
      int_bytes 8 (pc_bb_amount c), int_bytes 1 (of_bool (pc_is_heads_up c)),
      pc_pre_reveal_commitment c, pc_post_reveal_commitment c, pc_pre_deck_commitment c,
      pc_post_deck_commitment c, pc_pre_reconstruction_commitment c,
      pc_post_reconstruction_commitment c]"

definition rake_bytes :: "rake_opening \<Rightarrow> bytes" where
  "rake_bytes r = concat [int_bytes 1 (ro_mode r), int_bytes 2 (ro_bps r), int_bytes 8 (ro_cap r)]"

definition blind_bytes :: "blind_opening \<Rightarrow> bytes" where
  "blind_bytes b = concat [int_bytes 8 (bo_small_blind b), int_bytes 8 (bo_big_blind b),
     int_bytes 1 (bo_ante_mode b), int_bytes 8 (bo_ante_amount b)]"

definition witness_bytes :: "transition_witness \<Rightarrow> bytes" where
  "witness_bytes w = concat
     [state_bytes (w_pre w), state_bytes (w_post w), int_bytes 1 (kind_tag (w_kind w)), w_actor w,
      action_bytes (w_action w), round_advance_bytes (w_round_advance w),
      completion_bytes (w_protocol_completion w), rake_bytes (w_rake_opening w),
      blind_bytes (w_blind_opening w), w_transition_commitment w, w_nullifier w,
      int_bytes 8 (w_deadline_height w)]"

text \<open>The BLAKE2b digest of the source's \<^verbatim>\<open>digest\<close> and \<^verbatim>\<open>digest_bytes\<close> is the parameter \<open>blake\<close>.\<close>

definition witness_digest :: "(bytes \<Rightarrow> bytes) \<Rightarrow> string \<Rightarrow> transition_witness \<Rightarrow> bytes" where
  "witness_digest blake domain w = blake (ascii domain @ witness_bytes w)"

definition witness_commitment :: "(bytes \<Rightarrow> bytes) \<Rightarrow> transition_witness \<Rightarrow> bytes" where
  "witness_commitment blake w = witness_digest blake ''zchain.texas.canonical-transition.v2'' w"

definition content_commitment :: "(bytes \<Rightarrow> bytes) \<Rightarrow> transition_witness \<Rightarrow> bytes" where
  "content_commitment blake w = witness_digest blake ''zchain.texas.canonical-transition-content.v2''
     (w\<lparr>w_transition_commitment := zero32, w_nullifier := zero32\<rparr>)"

definition crypto_scope_commitment :: "(bytes \<Rightarrow> bytes) \<Rightarrow> transition_witness \<Rightarrow> bytes" where
  "crypto_scope_commitment blake w = witness_digest blake ''zchain.texas.canonical-crypto-scope.v1''
     (w\<lparr>w_action := (w_action w)\<lparr>ap_proof_commitment := zero32\<rparr>,
        w_transition_commitment := zero32, w_nullifier := zero32\<rparr>)"

definition transition_nullifier :: "(bytes \<Rightarrow> bytes) \<Rightarrow> transition_witness \<Rightarrow> bytes" where
  "transition_nullifier blake w = blake (ascii ''zchain.texas.nullifier.v2'' @
     w_transition_commitment w @ w_actor w @ ci_state_root (w_pre w) @ ci_state_root (w_post w))"

definition seal :: "(bytes \<Rightarrow> bytes) \<Rightarrow> transition_witness \<Rightarrow> transition_witness" where
  "seal blake w = (let w = w\<lparr>w_transition_commitment := content_commitment blake w\<rparr>
     in w\<lparr>w_nullifier := transition_nullifier blake w\<rparr>)"

section \<open>Frame checks\<close>

text \<open>The three roots that every transition may change.\<close>

definition without_roots :: "canonical_state \<Rightarrow> canonical_state" where
  "without_roots st =
     st\<lparr>ci_state_root := zero32, ci_lifecycle_root := zero32, ci_overlay_root := zero32\<rparr>"

definition frame_error :: string where
  "frame_error = ''transition changed a field outside its canonical relation''"

definition same_except :: "canonical_state \<Rightarrow> canonical_state \<Rightarrow> nat option \<Rightarrow>
    (canonical_state \<Rightarrow> canonical_state \<Rightarrow> bool) \<Rightarrow> unit res" where
  "same_except pre post changed allow = (let left = without_roots pre; right = without_roots post in
     case changed of
       None \<Rightarrow> fail_if (left \<noteq> right \<and> \<not> allow left right) frame_error
     | Some i \<Rightarrow>
         (let left = left\<lparr>ci_seats := (ci_seats left)[i := EMPTY_SEAT]\<rparr>;
              right = right\<lparr>ci_seats := (ci_seats right)[i := EMPTY_SEAT]\<rparr>
          in fail_if (left \<noteq> right \<and> \<not> allow left right) frame_error))"

text \<open>
  \<open>allow\<close> copies the fields a family may change from the endpoint into the expected image; the
  changed seat, if any, is taken from the endpoint as a whole.
\<close>

definition only_allowed_changes :: "canonical_state \<Rightarrow> canonical_state \<Rightarrow> nat option \<Rightarrow>
    (canonical_state \<Rightarrow> canonical_state \<Rightarrow> canonical_state) \<Rightarrow> unit res" where
  "only_allowed_changes pre post changed allow =
     (let expected = without_roots pre; actual = without_roots post in
      case changed of
        None \<Rightarrow> fail_if (allow expected post \<noteq> actual) frame_error
      | Some i \<Rightarrow>
          (let expected = expected\<lparr>ci_seats := (ci_seats expected)[i := EMPTY_SEAT]\<rparr>;
               expected = allow expected post;
               expected = expected\<lparr>ci_seats := (ci_seats expected)[i := ci_seats post ! i]\<rparr>
           in fail_if (expected \<noteq> actual) frame_error))"

section \<open>Masks and scans over the seats\<close>

definition seats_mask :: "(canonical_seat \<Rightarrow> bool) \<Rightarrow> canonical_seat list \<Rightarrow> 16 word" where
  "seats_mask P seats =
     foldl (\<lambda>m i. if P (seats ! i) then m OR seat_mask_bit i else m) 0 [0..<length seats]"

definition folded_or_all_in_mask :: "canonical_seat list \<Rightarrow> 16 word" where
  "folded_or_all_in_mask seats =
     seats_mask (\<lambda>s. cs_status s = CSFolded \<or> cs_status s = CSAllIn) seats"

definition active_reveal_mask :: "canonical_seat list \<Rightarrow> 16 word" where
  "active_reveal_mask seats =
     seats_mask (\<lambda>s. cs_status s = CSActive \<or> cs_status s = CSFolded \<or> cs_status s = CSAllIn) seats"

definition count_status :: "(canonical_seat_status \<Rightarrow> bool) \<Rightarrow> canonical_seat list \<Rightarrow> nat" where
  "count_status P seats = length (filter (\<lambda>s. P (cs_status s)) seats)"

definition expected_betting_successor :: "canonical_state \<Rightarrow> nat \<Rightarrow> nat" where
  "expected_betting_successor post actor =
     (case find (\<lambda>c. let s = ci_seats post ! c in
                   cs_status s = CSActive \<and> (\<not> cs_acted s \<or> cs_bet s < ci_current_bet post))
              (map (\<lambda>k. (actor + k) mod ci_max_players post) [1..<MAX_CANONICAL_SEATS + 1]) of
        Some c \<Rightarrow> c | None \<Rightarrow> NO_CANONICAL_SEAT)"

definition next_active_seat :: "canonical_seat list \<Rightarrow> nat \<Rightarrow> nat \<Rightarrow> nat option" where
  "next_active_seat seats start m =
     find (\<lambda>i. cs_status (seats ! i) = CSActive) (map (\<lambda>k. (start + k) mod m) [1..<m + 1])"

definition next_participating_seat :: "canonical_seat list \<Rightarrow> nat \<Rightarrow> nat \<Rightarrow> nat option" where
  "next_participating_seat seats start m =
     find (\<lambda>i. \<not> (cs_status (seats ! i) = CSEmpty \<or> cs_status (seats ! i) = CSOut))
       (map (\<lambda>k. (start + k) mod m) [1..<m + 1])"

section \<open>What the frame checks and the scans say\<close>

lemma bit_seats_mask:
  "length seats \<le> 16 \<Longrightarrow> bit (seats_mask P seats) i \<longleftrightarrow> i < length seats \<and> P (seats ! i)"
proof -
  assume l: "length seats \<le> 16"
  have "bit (foldl (\<lambda>m i. if P (seats ! i) then m OR seat_mask_bit i else m) (0 :: 16 word) [0..<n]) i
      \<longleftrightarrow> i < n \<and> P (seats ! i)" if "n \<le> length seats" for n
    using that
  proof (induction n)
    case 0
    then show ?case by simp
  next
    case (Suc n)
    with l show ?case by (auto simp: mask_simps less_Suc_eq)
  qed
  from this [OF order_refl] show ?thesis by (simp add: seats_mask_def)
qed

lemma without_roots_seats [simp]: "ci_seats (without_roots st) = ci_seats st"
  by (simp add: without_roots_def)

lemma only_allowed_None:
  "only_allowed_changes pre post None allow = Inr u \<longleftrightarrow> allow (without_roots pre) post = without_roots post"
  by (simp add: only_allowed_changes_def)

lemma only_allowed_Some:
  "only_allowed_changes pre post (Some i) allow = Inr u \<longleftrightarrow>
   (let expected = allow ((without_roots pre)\<lparr>ci_seats := (ci_seats pre)[i := EMPTY_SEAT]\<rparr>) post
    in expected\<lparr>ci_seats := (ci_seats expected)[i := ci_seats post ! i]\<rparr> = without_roots post)"
  by (simp add: only_allowed_changes_def Let_def)

end
