(* ===== verification/Canon_Openings.thy ===== *)
theory Canon_Openings
  imports Canon_Witness
begin

text \<open>
  The protocol-completion openings and the board-reveal schedule of
  \<^verbatim>\<open>src/src/texas_canonical.rs\<close>: what the final shuffle, reveal and reconstruction
  submissions and the end of a betting round must show. Errors come in the order of the code.
\<close>

definition checked_add_u8 :: "nat \<Rightarrow> nat \<Rightarrow> nat option" where
  "checked_add_u8 a b = (if a + b < 2 ^ 8 then Some (a + b) else None)"

definition checked_mul_u8 :: "nat \<Rightarrow> nat \<Rightarrow> nat option" where
  "checked_mul_u8 a b = (if a * b < 2 ^ 8 then Some (a * b) else None)"

section \<open>The final shuffle contribution\<close>

definition validate_shuffle_completion_opening ::
  "canonical_state \<Rightarrow> canonical_state \<Rightarrow> completion_opening \<Rightarrow> unit res" where
  "validate_shuffle_completion_opening pre post op =
     (let active_mask = active_reveal_mask (ci_seats post) in checks
      [fail_if (pc_kind op \<noteq> CompletionShuffle \<or> pc_completion_timestamp_ms op = 0
           \<or> pc_pre_cards_dealt op \<noteq> 0 \<or> 52 < pc_post_cards_dealt op
           \<or> pc_post_cards_dealt op mod 2 \<noteq> 0)
         ''final shuffle completion has invalid kind/time/deck cursor'',
       fail_if (active_mask = 0 \<or> pc_post_shuffle_pending_mask op \<noteq> active_mask
           \<or> pc_post_shuffle_pending_mask op \<noteq> ci_protocol_pending_mask post
           \<or> pc_post_shuffle_completed_mask op \<noteq> active_mask)
         ''final shuffle completion has invalid protocol progress'',
       fail_if (pc_suspended_reveal_commitment op \<noteq> zero32
           \<or> pc_pre_deck_commitment op \<noteq> ci_deck_commitment pre
           \<or> pc_post_deck_commitment op \<noteq> ci_deck_commitment post
           \<or> pc_pre_reconstruction_commitment op \<noteq> ci_reconstruction_commitment pre
           \<or> pc_post_reconstruction_commitment op \<noteq> ci_reconstruction_commitment post)
         ''final shuffle completion is detached from endpoint commitments'',
       rbind (ok_or (checked_add (pc_completion_timestamp_ms op) (ci_reveal_timeout_ms pre))
           (Other ''final shuffle reveal deadline overflow'')) (\<lambda>deadline_ms.
         fail_if (ci_phase pre \<noteq> CShuffling \<or> ci_phase_subtag pre \<noteq> 1
             \<or> ci_current_turn pre \<noteq> NO_CANONICAL_SEAT \<or> ci_phase post \<noteq> CRevealing
             \<or> ci_phase_subtag post \<noteq> 1 \<or> ci_street post \<noteq> ci_street pre
             \<or> ci_current_turn post \<noteq> NO_CANONICAL_SEAT \<or> ci_deadline_ms post \<noteq> deadline_ms)
           ''final shuffle completion has invalid VM normalization header'')])"

section \<open>The final reveal of the hole deal\<close>

text \<open>Seats whose blind took the whole stack: the only ones that may be marked acted.\<close>

definition blind_posted :: "completion_opening \<Rightarrow> nat \<Rightarrow> bool" where
  "blind_posted op i \<longleftrightarrow> pc_sb_seat op = i \<and> 0 < pc_sb_amount op \<or> pc_bb_seat op = i"

definition capped_mask :: "canonical_state \<Rightarrow> completion_opening \<Rightarrow> 16 word" where
  "capped_mask post op = foldl (\<lambda>acc i. acc OR seat_mask_bit i) 0
     (filter (\<lambda>i. blind_posted op i \<and> cs_stack (ci_seats post ! i) = 0) [0..<MAX_CANONICAL_SEATS])"

definition reveal_status_checks ::
  "canonical_state \<Rightarrow> canonical_state \<Rightarrow> completion_opening \<Rightarrow> nat \<Rightarrow> unit res" where
  "reveal_status_checks pre post op i =
     (let sp = ci_seats pre ! i; sq = ci_seats post ! i;
          capped_flip = blind_posted op i \<and> cs_status sp = CSActive \<and> cs_status sq = CSAllIn
      in checks
       [fail_if (cs_status sp \<noteq> cs_status sq \<and> \<not> capped_flip)
          ''final reveal completion changed a seat status'',
        fail_if (cs_bet sp \<noteq> 0) ''final reveal completion has a pre-existing seat bet''])"

text \<open>
  The dead-button blind rule of the source. Away from heads-up play the code indexes the seats
  with the rotation base, which panics when the base is the no-seat sentinel.
\<close>

definition rotation_base :: "canonical_state \<Rightarrow> nat" where
  "rotation_base pre =
     (if ci_last_bb_seat pre \<noteq> NO_CANONICAL_SEAT then ci_last_bb_seat pre else ci_button pre)"

definition canonical_blind_seats :: "canonical_state \<Rightarrow> bool \<Rightarrow> (nat \<times> nat) res" where
  "canonical_blind_seats pre is_heads_up =
     (let base = rotation_base pre;
          seats = ci_seats pre;
          bb = (case next_participating_seat seats base (ci_max_players pre) of
                  Some i \<Rightarrow> i | None \<Rightarrow> base)
      in if is_heads_up then
           Inr (case next_participating_seat seats bb (ci_max_players pre) of
                  Some i \<Rightarrow> i | None \<Rightarrow> bb, bb)
         else if length seats \<le> base then Inl (Panic ''index out of bounds'')
         else
           (let b = seats ! base in
            Inr (if base \<noteq> bb \<and> cs_status b \<noteq> CSEmpty \<and> cs_status b \<noteq> CSOut
                 then base else NO_CANONICAL_SEAT, bb)))"

definition reveal_seat_checks ::
  "canonical_state \<Rightarrow> canonical_state \<Rightarrow> completion_opening \<Rightarrow> nat \<Rightarrow> nat \<Rightarrow> nat \<Rightarrow> unit res" where
  "reveal_seat_checks pre post op sb_seat bb_seat i =
     (let posted = (if i = sb_seat then pc_sb_amount op else if i = bb_seat then pc_bb_amount op
                    else 0);
          sp = ci_seats pre ! i; sq = ci_seats post ! i;
          capped = 0 < posted \<and> cs_stack sq = 0;
          acted_flip_allowed = capped \<and> \<not> cs_acted sp \<and> cs_acted sq
      in checks
       [fail_if (cs_bet sq \<noteq> posted) ''final reveal completion has an invalid seat bet'',
        rbind (ok_or (checked_sub (cs_stack sp) posted)
            (Other ''final reveal completion blinds exceed the seat stack'')) (\<lambda>stack.
          fail_if (cs_stack sq \<noteq> stack) ''final reveal completion has an invalid seat stack''),
        fail_if (capped \<and> cs_status sq \<noteq> CSAllIn)
          ''final reveal completion capped the seat stack without the all-in flip'',
        rbind (ok_or (checked_add (cs_total_bet sp) posted)
            (Other ''final reveal completion total bet overflow'')) (\<lambda>total_bet.
          fail_if (cs_total_bet sq \<noteq> total_bet)
            ''final reveal completion has an invalid seat total bet''),
        fail_if (cs_acted sq \<noteq> cs_acted sp \<and> \<not> acted_flip_allowed
            \<or> cs_pending_addon sq \<noteq> cs_pending_addon sp
            \<or> cs_time_bank_ms sq \<noteq> cs_time_bank_ms sp
            \<or> cs_identity_commitment sq \<noteq> cs_identity_commitment sp
            \<or> cs_key_commitment sq \<noteq> cs_key_commitment sp
            \<or> cs_hole_cards_commitment sq \<noteq> cs_hole_cards_commitment sp)
          ''final reveal completion changed unrelated seat material''])"

definition opening_detached :: "canonical_state \<Rightarrow> canonical_state \<Rightarrow> completion_opening \<Rightarrow> bool" where
  "opening_detached pre post op \<longleftrightarrow>
     pc_pre_deck_commitment op \<noteq> ci_deck_commitment pre
     \<or> pc_post_deck_commitment op \<noteq> ci_deck_commitment post
     \<or> pc_pre_reconstruction_commitment op \<noteq> ci_reconstruction_commitment pre
     \<or> pc_post_reconstruction_commitment op \<noteq> ci_reconstruction_commitment post"

text \<open>The checks before and after the blind seats are located.\<close>

definition reveal_header_checks ::
  "canonical_state \<Rightarrow> canonical_state \<Rightarrow> completion_opening \<Rightarrow> unit res" where
  "reveal_header_checks pre post op =
     (let participants = seats_mask (\<lambda>s. cs_status s = CSActive) (ci_seats pre) in checks
      [fail_if (pc_kind op \<noteq> CompletionReveal \<or> pc_completion_timestamp_ms op = 0
           \<or> pc_pre_cards_dealt op \<noteq> 0 \<or> pc_post_cards_dealt op \<noteq> 0
           \<or> pc_post_shuffle_pending_mask op \<noteq> 0 \<or> pc_post_shuffle_completed_mask op \<noteq> 0
           \<or> pc_suspended_reveal_commitment op \<noteq> zero32)
         ''final reveal completion has invalid kind/time/legacy fields'',
       fail_if (pc_pre_reveal_commitment op \<noteq> ci_reveal_commitment pre
           \<or> pc_post_reveal_commitment op \<noteq> ci_reveal_commitment post
           \<or> opening_detached pre post op)
         ''final reveal completion is detached from endpoint commitments'',
       fail_if (ci_phase pre \<noteq> CRevealing \<or> ci_phase_subtag pre \<noteq> 1 \<or> ci_street pre \<noteq> 1
           \<or> ci_current_turn pre \<noteq> NO_CANONICAL_SEAT \<or> ci_acted_mask pre \<noteq> 0
           \<or> ci_phase post \<noteq> CBetting \<or> ci_phase_subtag post \<noteq> 1 \<or> ci_street post \<noteq> 1
           \<or> ci_acted_mask post AND NOT (capped_mask post op) \<noteq> 0
           \<or> ci_protocol_pending_mask post \<noteq> 0)
         ''final reveal completion has an invalid VM normalization header'',
       rbind (ok_or (checked_add (pc_completion_timestamp_ms op) (ci_betting_timeout_ms pre))
           (Other ''final reveal betting deadline overflow'')) (\<lambda>deadline_ms.
         fail_if (ci_deadline_ms post \<noteq> deadline_ms)
           ''final reveal completion has an invalid betting deadline''),
       fail_if (participants = 0) ''final reveal completion has no participants'',
       checks (map (reveal_status_checks pre post op) [0..<MAX_CANONICAL_SEATS]),
       fail_if (pc_is_heads_up op \<noteq> (count_ones participants = 2))
         ''final reveal completion has an invalid heads-up flag''])"

definition reveal_blind_checks ::
  "canonical_state \<Rightarrow> canonical_state \<Rightarrow> completion_opening \<Rightarrow> nat \<Rightarrow> nat \<Rightarrow> unit res" where
  "reveal_blind_checks pre post op sb_seat bb_seat =
     (let expected_turn = next_active_seat (ci_seats post) bb_seat (ci_max_players post) in checks
      [fail_if (pc_sb_seat op \<noteq> sb_seat \<or> pc_bb_seat op \<noteq> bb_seat)
         ''final reveal completion has invalid blind seats'',
       fail_if (ci_last_bb_seat post \<noteq> bb_seat)
         ''final reveal completion has an invalid blind rotation track'',
       fail_if (pc_bb_amount op = 0 \<or> pc_bb_amount op < pc_sb_amount op)
         ''final reveal completion has invalid blind amounts'',
       fail_if ((sb_seat = NO_CANONICAL_SEAT) \<noteq> (pc_sb_amount op = 0))
         ''final reveal completion has an inconsistent dead small blind'',
       fail_if (ci_current_turn post \<noteq> (case expected_turn of Some i \<Rightarrow> i | None \<Rightarrow> NO_CANONICAL_SEAT)
           \<or> pc_post_current_turn op \<noteq> ci_current_turn post)
         ''final reveal completion has an invalid first-to-act seat'',
       fail_if (ci_current_bet post \<noteq> pc_bb_amount op \<or> ci_min_raise post \<noteq> pc_bb_amount op)
         ''final reveal completion has an invalid betting price'',
       checks (map (reveal_seat_checks pre post op sb_seat bb_seat) [0..<MAX_CANONICAL_SEATS]),
       fail_if (ci_pot post \<noteq> ci_pot pre \<or> ci_chip_pool post \<noteq> ci_chip_pool pre)
         ''final reveal completion moved custody buckets''])"

definition validate_reveal_completion_opening ::
  "canonical_state \<Rightarrow> canonical_state \<Rightarrow> completion_opening \<Rightarrow> unit res" where
  "validate_reveal_completion_opening pre post op =
     rbind (reveal_header_checks pre post op) (\<lambda>_.
       rbind (canonical_blind_seats pre
           (count_ones (seats_mask (\<lambda>s. cs_status s = CSActive) (ci_seats pre)) = 2))
         (\<lambda>(sb_seat, bb_seat). reveal_blind_checks pre post op sb_seat bb_seat))"

section \<open>The last reveal of a street, and of the showdown\<close>

definition street_seat_moved :: "canonical_seat \<Rightarrow> canonical_seat \<Rightarrow> bool" where
  "street_seat_moved a b \<longleftrightarrow> cs_status a \<noteq> cs_status b \<or> cs_stack a \<noteq> cs_stack b
     \<or> cs_bet a \<noteq> cs_bet b \<or> cs_total_bet a \<noteq> cs_total_bet b
     \<or> cs_pending_addon a \<noteq> cs_pending_addon b \<or> cs_time_bank_ms a \<noteq> cs_time_bank_ms b
     \<or> cs_identity_commitment a \<noteq> cs_identity_commitment b
     \<or> cs_key_commitment a \<noteq> cs_key_commitment b
     \<or> cs_hole_cards_commitment a \<noteq> cs_hole_cards_commitment b"

definition street_heads_up :: "canonical_state \<Rightarrow> bool" where
  "street_heads_up pre \<longleftrightarrow> count_ones (active_reveal_mask (ci_seats pre)) = 2
     \<and> count_status (\<lambda>st. st = CSActive) (ci_seats pre) = 2"

definition street_turn_base :: "canonical_state \<Rightarrow> nat" where
  "street_turn_base pre = (if street_heads_up pre then rotation_base pre else ci_button pre)"

definition validate_reveal_street_completion_opening ::
  "canonical_state \<Rightarrow> canonical_state \<Rightarrow> completion_opening \<Rightarrow> unit res" where
  "validate_reveal_street_completion_opening pre post op =
     (let expected_turn = next_active_seat (ci_seats post) (street_turn_base pre) (ci_max_players post)
      in checks
      [fail_if (pc_kind op \<noteq> CompletionRevealStreet \<or> pc_completion_timestamp_ms op = 0
           \<or> pc_pre_cards_dealt op \<noteq> 0 \<or> pc_post_cards_dealt op \<noteq> 0
           \<or> pc_post_shuffle_pending_mask op \<noteq> 0 \<or> pc_post_shuffle_completed_mask op \<noteq> 0
           \<or> pc_suspended_reveal_commitment op \<noteq> zero32
           \<or> pc_post_current_turn op \<noteq> ci_current_turn post
           \<or> pc_sb_seat op \<noteq> NO_CANONICAL_SEAT \<or> pc_bb_seat op \<noteq> NO_CANONICAL_SEAT
           \<or> pc_sb_amount op \<noteq> 0 \<or> pc_bb_amount op = 0 \<or> pc_is_heads_up op)
         ''street reveal completion has invalid kind/legacy/blind fields'',
       fail_if (opening_detached pre post op)
         ''street reveal completion is detached from endpoint commitments'',
       fail_if (ci_phase pre \<noteq> CRevealing \<or> ci_phase_subtag pre \<noteq> 2
           \<or> \<not> (2 \<le> ci_street pre \<and> ci_street pre \<le> 4)
           \<or> ci_current_turn pre \<noteq> NO_CANONICAL_SEAT \<or> ci_phase post \<noteq> CBetting
           \<or> ci_phase_subtag post \<noteq> 1 \<or> ci_street post \<noteq> ci_street pre
           \<or> ci_acted_mask post \<noteq> folded_or_all_in_mask (ci_seats post)
           \<or> ci_protocol_pending_mask post \<noteq> 0)
         ''street reveal completion has an invalid VM normalization header'',
       rbind (ok_or (checked_add (pc_completion_timestamp_ms op) (ci_betting_timeout_ms pre))
           (Other ''street reveal betting deadline overflow'')) (\<lambda>deadline_ms.
         fail_if (ci_deadline_ms post \<noteq> deadline_ms)
           ''street reveal completion has an invalid betting deadline''),
       fail_if (ci_protocol_pending_mask post \<noteq> 0)
         ''street reveal completion has an invalid pending mask'',
       fail_if (list_ex (\<lambda>i. street_seat_moved (ci_seats pre ! i) (ci_seats post ! i))
           [0..<length (ci_seats pre)])
         ''street reveal completion moved seat material'',
       fail_if (ci_pot post \<noteq> ci_pot pre \<or> ci_chip_pool post \<noteq> ci_chip_pool pre)
         ''street reveal completion moved custody buckets'',
       fail_if (ci_current_bet post \<noteq> 0 \<or> ci_min_raise post \<noteq> pc_bb_amount op)
         ''street reveal completion has an invalid betting price'',
       fail_if (ci_current_turn post \<noteq> (case expected_turn of Some i \<Rightarrow> i | None \<Rightarrow> NO_CANONICAL_SEAT))
         ''street reveal completion has an invalid first-to-act seat''])"

definition showdown_seat_moved :: "canonical_seat \<Rightarrow> canonical_seat \<Rightarrow> bool" where
  "showdown_seat_moved a b \<longleftrightarrow> cs_status a \<noteq> cs_status b \<or> cs_acted a \<noteq> cs_acted b
     \<or> cs_stack a \<noteq> cs_stack b \<or> cs_bet a \<noteq> cs_bet b \<or> cs_total_bet a \<noteq> cs_total_bet b
     \<or> cs_pending_addon a \<noteq> cs_pending_addon b \<or> cs_time_bank_ms a \<noteq> cs_time_bank_ms b
     \<or> cs_identity_commitment a \<noteq> cs_identity_commitment b
     \<or> cs_key_commitment a \<noteq> cs_key_commitment b"

definition validate_showdown_completion_opening ::
  "canonical_state \<Rightarrow> canonical_state \<Rightarrow> completion_opening \<Rightarrow> unit res" where
  "validate_showdown_completion_opening pre post op = checks
      [fail_if (pc_kind op \<noteq> CompletionShowdown \<or> pc_completion_timestamp_ms op = 0
           \<or> pc_pre_cards_dealt op \<noteq> 0 \<or> pc_post_cards_dealt op \<noteq> 0
           \<or> pc_post_shuffle_pending_mask op \<noteq> 0 \<or> pc_post_shuffle_completed_mask op \<noteq> 0
           \<or> pc_suspended_reveal_commitment op \<noteq> zero32
           \<or> pc_post_current_turn op \<noteq> NO_CANONICAL_SEAT
           \<or> pc_sb_seat op \<noteq> NO_CANONICAL_SEAT \<or> pc_bb_seat op \<noteq> NO_CANONICAL_SEAT
           \<or> pc_sb_amount op \<noteq> 0 \<or> pc_bb_amount op \<noteq> 0 \<or> pc_is_heads_up op
           \<or> opening_detached pre post op
           \<or> pc_pre_reveal_commitment op \<noteq> ci_reveal_commitment pre
           \<or> pc_post_reveal_commitment op \<noteq> ci_reveal_commitment post)
         ''showdown completion has invalid opening fields'',
       fail_if (ci_phase pre \<noteq> CRevealing \<or> ci_phase_subtag pre \<noteq> 3 \<or> ci_street pre \<noteq> 5
           \<or> ci_current_turn pre \<noteq> NO_CANONICAL_SEAT \<or> ci_phase post \<noteq> CShowdownDisplay
           \<or> ci_phase_subtag post \<noteq> 1 \<or> ci_street post \<noteq> 5
           \<or> ci_current_turn post \<noteq> NO_CANONICAL_SEAT \<or> ci_protocol_pending_mask post \<noteq> 0)
         ''showdown completion has an invalid VM normalization header'',
       rbind (ok_or (checked_add (pc_completion_timestamp_ms op) (ci_showdown_display_ms pre))
           (Other ''showdown display deadline overflow'')) (\<lambda>deadline_ms.
         fail_if (ci_deadline_ms post \<noteq> deadline_ms)
           ''showdown completion has an invalid display deadline''),
       fail_if (list_ex (\<lambda>(a, b). showdown_seat_moved a b) (zip (ci_seats pre) (ci_seats post))
           \<or> ci_pot pre \<noteq> ci_pot post \<or> ci_chip_pool pre \<noteq> ci_chip_pool post
           \<or> ci_acted_mask pre \<noteq> ci_acted_mask post)
         ''showdown completion moved seat or custody material'']"

section \<open>The final reconstruction contribution\<close>

definition validate_reconstruct_completion_opening ::
  "canonical_state \<Rightarrow> canonical_state \<Rightarrow> completion_opening \<Rightarrow> unit res" where
  "validate_reconstruct_completion_opening pre post op =
     (let active_mask = active_reveal_mask (ci_seats post) in checks
      [fail_if (pc_kind op \<noteq> CompletionReconstruct \<or> pc_completion_timestamp_ms op = 0
           \<or> 52 < pc_pre_cards_dealt op \<or> pc_post_cards_dealt op \<noteq> 0)
         ''final reconstruct completion has invalid kind/time/deck cursor'',
       fail_if (active_mask = 0 \<or> pc_post_shuffle_pending_mask op \<noteq> active_mask
           \<or> pc_post_shuffle_pending_mask op \<noteq> ci_protocol_pending_mask post
           \<or> pc_post_shuffle_completed_mask op \<noteq> 0)
         ''final reconstruct completion has invalid shuffle progress'',
       fail_if (pc_suspended_reveal_commitment op \<noteq> ci_reveal_commitment pre
           \<or> pc_suspended_reveal_commitment op \<noteq> ci_reveal_commitment post
           \<or> opening_detached pre post op)
         ''final reconstruct completion is detached from endpoint commitments'',
       rbind (ok_or (checked_add (pc_completion_timestamp_ms op) (ci_shuffle_timeout_ms pre))
           (Other ''final reconstruct shuffle deadline overflow'')) (\<lambda>deadline_ms.
         fail_if (ci_phase_subtag pre \<noteq> CANONICAL_RECONSTRUCT_COLLECTING_SUBTAG
             \<or> ci_current_turn pre \<noteq> NO_CANONICAL_SEAT \<or> ci_phase post \<noteq> CShuffling
             \<or> ci_phase_subtag post \<noteq> CANONICAL_SHUFFLE_RECONSTRUCT_SUBTAG
             \<or> ci_street post \<noteq> ci_street pre \<or> ci_current_turn post \<noteq> NO_CANONICAL_SEAT
             \<or> ci_deadline_ms post \<noteq> deadline_ms)
           ''final reconstruct completion has invalid VM normalization header'')])"

section \<open>The board-reveal schedule of a finished betting round\<close>

definition board_assignment_checks ::
  "canonical_state \<Rightarrow> round_advance_opening \<Rightarrow> nat \<Rightarrow> nat \<Rightarrow> 16 word \<Rightarrow> nat \<Rightarrow> unit res" where
  "board_assignment_checks pre op cards_per_runout expected_assignments pending_mask i =
     (let a = ra_assignments op ! i;
          bad = ''advance_round board assignment is not the canonical VM schedule'';
          runout_index = i div cards_per_runout;
          offset = i mod cards_per_runout;
          board_len = (if runout_index = 0 then ra_pre_board_len op else ra_pre_second_board_len op)
      in if expected_assignments \<le> i then
           fail_if (a \<noteq> EMPTY_ASSIGNMENT) ''advance_round board opening has non-zero assignment padding''
         else checks
           [fail_if (\<not> ba_present a) bad,
            rbind (ok_or (checked_add_u8 (ra_pre_cards_dealt op) i)
                (Other ''advance_round encrypted card index overflow'')) (\<lambda>index.
              fail_if (ba_encrypted_card_index a \<noteq> index \<or> ba_runout_index a \<noteq> runout_index) bad),
            rbind (ok_or (checked_add_u8 board_len offset)
                (Other ''advance_round board position overflow'')) (\<lambda>position.
              fail_if (ba_board_position a \<noteq> position \<or> 5 \<le> ba_board_position a
                  \<or> ba_pending_mask a \<noteq> pending_mask \<or> ba_submitted_mask a \<noteq> 0) bad)])"

text \<open>Cards per runout and board length of the street that ended.\<close>

definition street_schedule :: "nat \<Rightarrow> (nat \<times> nat) res" where
  "street_schedule street =
     (if street = 1 then Inr (3, 0) else if street = 2 then Inr (1, 3)
      else if street = 3 then Inr (1, 4)
      else Inl (Other
        ''advance_round showdown requires the owner-hole-card opening, which is not enabled''))"

definition showdown_opening_checks :: "canonical_state \<Rightarrow> round_advance_opening \<Rightarrow> unit res" where
  "showdown_opening_checks pre op = checks
     [fail_if (ra_reveal_purpose op \<noteq> 3 \<or> ra_run_it_twice op
          \<or> ra_pre_cards_dealt op \<noteq> ra_post_cards_dealt op \<or> 52 < ra_pre_cards_dealt op
          \<or> ra_pre_board_len op \<noteq> 5 \<or> ra_post_board_len op \<noteq> 5
          \<or> ra_pre_second_board_len op \<noteq> 0 \<or> ra_post_second_board_len op \<noteq> 0
          \<or> ra_assignment_count op \<noteq> 0
          \<or> list_ex (\<lambda>a. a \<noteq> EMPTY_ASSIGNMENT) (ra_assignments op))
        ''advance_round showdown opening has invalid deck/board metadata'',
      fail_if (active_reveal_mask (ci_seats pre) = 0)
        ''advance_round showdown opening has no reveal participants'']"

definition validate_board_reveal_opening ::
  "canonical_state \<Rightarrow> canonical_state \<Rightarrow> round_advance_opening \<Rightarrow> unit res" where
  "validate_board_reveal_opening pre post op =
     (if ci_street pre = 4 then showdown_opening_checks pre op
      else rbind (street_schedule (ci_street pre)) (\<lambda>(cards_per_runout, expected_board_len).
        rbind (fail_if (52 < ra_pre_cards_dealt op \<or> 52 < ra_post_cards_dealt op
            \<or> 5 < ra_pre_board_len op \<or> 5 < ra_post_board_len op
            \<or> 5 < ra_pre_second_board_len op \<or> 5 < ra_post_second_board_len op
            \<or> ra_pre_board_len op \<noteq> expected_board_len
            \<or> ra_post_board_len op \<noteq> ra_pre_board_len op
            \<or> ra_post_second_board_len op \<noteq> ra_pre_second_board_len op
            \<or> (ra_run_it_twice op \<and> ra_pre_second_board_len op \<noteq> ra_pre_board_len op)
            \<or> ra_reveal_purpose op \<noteq> 2)
          ''advance_round board opening has invalid deck/board metadata'') (\<lambda>_.
        rbind (ok_or (checked_mul_u8 cards_per_runout (if ra_run_it_twice op then 2 else 1))
            (Other ''advance_round assignment count overflow'')) (\<lambda>expected_assignments.
        let pending_mask = active_reveal_mask (ci_seats pre);
            bad = ''advance_round board opening has an invalid assignment count''
        in checks
          [fail_if (ra_assignment_count op \<noteq> expected_assignments
               \<or> MAX_CANONICAL_BOARD_REVEAL_ASSIGNMENTS < ra_assignment_count op) bad,
           rbind (ok_or (checked_add_u8 (ra_pre_cards_dealt op) expected_assignments)
               (Other ''advance_round deck cursor overflow'')) (\<lambda>cursor.
             fail_if (ra_post_cards_dealt op \<noteq> cursor) bad),
           fail_if (pending_mask = 0) ''advance_round board opening has no reveal participants'',
           checks (map (board_assignment_checks pre op cards_per_runout expected_assignments pending_mask)
             [0..<MAX_CANONICAL_BOARD_REVEAL_ASSIGNMENTS])]))))"

end
