(* ===== verification/Canon_Terminal.thy ===== *)
theory Canon_Terminal
  imports Canon_Openings
begin

text \<open>
  The terminal and timeout rows of the canonical relation
  (\<^verbatim>\<open>src/src/texas_canonical.rs\<close>): the reset projection, last-player-standing settlement,
  and the reveal- and reconstruct-timeout branches with their refunds and awards.
\<close>

definition TERMINAL_TIME_BANK_MS :: nat where "TERMINAL_TIME_BANK_MS = 30000"

text \<open>The conditions that every row ending in the waiting phase repeats.\<close>

definition cleared_header :: "canonical_state \<Rightarrow> bool" where
  "cleared_header post \<longleftrightarrow> ci_phase post = CWaiting \<and> ci_phase_subtag post = 0
     \<and> ci_street post = 0 \<and> ci_current_turn post = NO_CANONICAL_SEAT \<and> ci_deadline_ms post = 0
     \<and> ci_current_bet post = 0 \<and> ci_min_raise post = 0 \<and> ci_pot post = 0
     \<and> ci_acted_mask post = 0 \<and> ci_leave_after_hand_mask post = 0
     \<and> ci_protocol_pending_mask post = 0"

definition cleared_commitments :: "canonical_state \<Rightarrow> bool" where
  "cleared_commitments post \<longleftrightarrow> ci_board_cards_commitment post = zero32
     \<and> ci_reveal_commitment post = zero32 \<and> ci_reconstruction_commitment post = zero32
     \<and> ci_run_it_twice_commitment post = zero32"

definition terminal_time_bank :: "canonical_seat_status \<Rightarrow> nat" where
  "terminal_time_bank st = (if st = CSEmpty then 0 else TERMINAL_TIME_BANK_MS)"

section \<open>The reset projection\<close>

definition reset_status :: "canonical_seat_status \<Rightarrow> canonical_seat_status res" where
  "reset_status st =
     (if st = CSEmpty then Inr CSEmpty
      else if st = CSActive \<or> st = CSFolded then Inr CSActive
      else Inl (Other ''terminal reset only supports retained active/folded seats''))"

definition reset_seat_checks ::
  "nat option \<Rightarrow> nat \<Rightarrow> canonical_state \<Rightarrow> canonical_state \<Rightarrow> nat \<Rightarrow> unit res" where
  "reset_seat_checks winner award pre post i =
     (let before = ci_seats pre ! i; after = ci_seats post ! i in
      rbind (reset_status (cs_status before)) (\<lambda>expected_status.
      rbind (if winner = Some i
             then ok_or (checked_add (cs_stack before) award) (Other ''terminal winner stack overflow'')
             else Inr (cs_stack before)) (\<lambda>expected_stack.
      fail_if (cs_pending_addon before \<noteq> 0
          \<or> cs_time_bank_ms before \<noteq> terminal_time_bank (cs_status before)
          \<or> cs_status after \<noteq> expected_status \<or> cs_acted after
          \<or> cs_stack after \<noteq> expected_stack \<or> cs_bet after \<noteq> 0 \<or> cs_total_bet after \<noteq> 0
          \<or> cs_pending_addon after \<noteq> 0
          \<or> cs_time_bank_ms after \<noteq> terminal_time_bank expected_status
          \<or> cs_identity_commitment after \<noteq> cs_identity_commitment before
          \<or> cs_key_commitment after \<noteq> cs_key_commitment before
          \<or> cs_hole_cards_commitment after \<noteq> zero32)
        ''terminal reset seat projection is not canonical'')))"

text \<open>The fields a reset may change; the award rows add the custody balance.\<close>

definition reset_frame :: "canonical_state \<Rightarrow> canonical_state \<Rightarrow> canonical_state" where
  "reset_frame expected actual = expected
     \<lparr>ci_call_seq := ci_call_seq actual, ci_phase := ci_phase actual,
      ci_phase_subtag := ci_phase_subtag actual, ci_street := ci_street actual,
      ci_current_turn := ci_current_turn actual, ci_deadline_ms := ci_deadline_ms actual,
      ci_current_bet := ci_current_bet actual, ci_min_raise := ci_min_raise actual,
      ci_pot := ci_pot actual, ci_acted_mask := ci_acted_mask actual,
      ci_leave_after_hand_mask := ci_leave_after_hand_mask actual,
      ci_protocol_pending_mask := ci_protocol_pending_mask actual,
      ci_board_cards_commitment := ci_board_cards_commitment actual,
      ci_deck_commitment := ci_deck_commitment actual,
      ci_reveal_commitment := ci_reveal_commitment actual,
      ci_reconstruction_commitment := ci_reconstruction_commitment actual,
      ci_run_it_twice_commitment := ci_run_it_twice_commitment actual,
      ci_custody_commitment := ci_custody_commitment actual, ci_seats := ci_seats actual\<rparr>"

definition validate_simple_reset_projection ::
  "canonical_state \<Rightarrow> canonical_state \<Rightarrow> nat option \<Rightarrow> nat \<Rightarrow> unit res" where
  "validate_simple_reset_projection pre post winner award = checks
     [fail_if (\<not> cleared_header post \<or> ci_leave_after_hand_mask pre \<noteq> 0
          \<or> ci_protocol_pending_mask pre \<noteq> 0 \<or> ci_deck_commitment post = zero32)
        ''terminal reset has an invalid cleared lifecycle header'',
      fail_if (\<not> cleared_commitments post)
        ''terminal reset must clear hand-local protocol commitments'',
      checks (map (reset_seat_checks winner award pre post) [0..<length (ci_seats pre)]),
      only_allowed_changes pre post None reset_frame]"

section \<open>Settlement without a showdown, and the reset without a pot\<close>

definition custody_sum :: "nat \<Rightarrow> nat list \<Rightarrow> poker_error \<Rightarrow> nat res" where
  "custody_sum start xs e = try_fold (\<lambda>acc x. ok_or (checked_add acc x) e) start xs"

definition validate_terminal_without_showdown :: "transition_witness \<Rightarrow> unit res" where
  "validate_terminal_without_showdown w =
     (let pre = w_pre w; post = w_post w; a = w_action w; winner = ap_seat a in
      rbind (fail_if (ci_phase pre \<noteq> CBetting \<or> ci_max_players pre \<le> winner \<or> ap_auxiliary a \<noteq> 0
          \<or> ap_flag a \<or> ap_proof_commitment a \<noteq> ci_deck_commitment post
          \<or> cs_status (ci_seats pre ! winner) \<noteq> CSActive
          \<or> count_status (\<lambda>st. st = CSActive) (ci_seats pre) \<noteq> 1)
        ''end_without_showdown has an invalid winner/header'') (\<lambda>_.
      rbind (custody_sum (ci_pot pre) (map cs_bet (ci_seats pre))
          (Other ''terminal collected-bet sum overflow'')) (\<lambda>gross_pot.
      checks
        [fail_if (gross_pot = 0 \<or> ap_amount a \<noteq> gross_pot \<or> ci_chip_pool post \<noteq> ci_chip_pool pre)
           ''end_without_showdown has an invalid zero-rake award/custody relation'',
         validate_simple_reset_projection pre post (Some winner) gross_pot])))"

definition validate_reset_only :: "transition_witness \<Rightarrow> unit res" where
  "validate_reset_only w =
     (let pre = w_pre w; post = w_post w; a = w_action w in checks
      [fail_if (ci_phase pre = CWaiting \<or> ap_seat a \<noteq> NO_CANONICAL_SEAT \<or> ap_amount a \<noteq> 0
           \<or> ap_auxiliary a \<noteq> 0 \<or> ap_flag a \<or> ap_proof_commitment a \<noteq> ci_deck_commitment post
           \<or> ci_pot pre \<noteq> 0 \<or> ci_current_bet pre \<noteq> 0 \<or> ci_min_raise pre \<noteq> 0
           \<or> list_ex (\<lambda>s. cs_bet s \<noteq> 0 \<or> cs_total_bet s \<noteq> 0) (ci_seats pre)
           \<or> ci_chip_pool post \<noteq> ci_chip_pool pre)
         ''reset_only has an unproved monetary or action payload'',
       validate_simple_reset_projection pre post None 0])"

section \<open>Timeouts that reset the hand\<close>

text \<open>
  The two reset rows share every condition but the phase header, the population and the words
  of their errors; \<open>name\<close> is the word that differs.
\<close>

definition timed_out_header :: "transition_witness \<Rightarrow> bool" where
  "timed_out_header w \<longleftrightarrow> (let pre = w_pre w; a = w_action w; s = ci_seats pre ! ap_seat a in
     ap_flag a \<or> ap_auxiliary a \<noteq> 0 \<or> ap_proof_commitment a \<noteq> ci_deck_commitment (w_post w)
     \<or> w_deadline_height w < ci_deadline_ms pre \<or> ci_max_players pre \<le> ap_seat a
     \<or> ci_protocol_pending_mask pre \<noteq> seat_mask_bit (ap_seat a) \<or> cs_status s \<noteq> CSActive
     \<or> cs_bet s \<noteq> 0 \<or> cs_total_bet s \<noteq> 0 \<or> cs_pending_addon s \<noteq> 0 \<or> ci_pot pre \<noteq> 0
     \<or> ci_current_bet pre \<noteq> 0 \<or> ci_min_raise pre \<noteq> 0)"

definition timeout_seat_checks ::
  "string \<Rightarrow> canonical_state \<Rightarrow> canonical_state \<Rightarrow> nat \<Rightarrow> nat \<Rightarrow> unit res" where
  "timeout_seat_checks name pre post seat i =
     (let before = ci_seats pre ! i; after = ci_seats post ! i in
      if i = seat then
        fail_if (after \<noteq> EMPTY_SEAT) (''timed-out '' @ name @ '' seat was not vacated'')
      else if cs_status before = CSEmpty \<or> cs_status before = CSOut then
        fail_if (after \<noteq> before) (''unoccupied '' @ name @ '' seat changed during reset'')
      else if cs_status before = CSActive \<or> cs_status before = CSFolded then
        fail_if (cs_bet before \<noteq> 0 \<or> cs_total_bet before \<noteq> 0 \<or> cs_pending_addon before \<noteq> 0
            \<or> cs_time_bank_ms before \<noteq> TERMINAL_TIME_BANK_MS \<or> cs_status after \<noteq> CSActive
            \<or> cs_acted after \<or> cs_stack after \<noteq> cs_stack before \<or> cs_bet after \<noteq> 0
            \<or> cs_total_bet after \<noteq> 0 \<or> cs_pending_addon after \<noteq> 0
            \<or> cs_time_bank_ms after \<noteq> TERMINAL_TIME_BANK_MS
            \<or> cs_identity_commitment after \<noteq> cs_identity_commitment before
            \<or> cs_key_commitment after \<noteq> cs_key_commitment before
            \<or> cs_hole_cards_commitment after \<noteq> zero32)
          (''retained '' @ name @ '' seat has an invalid reset image'')
      else Inl (Other (''unsupported seat status in '' @ name @ '' timeout reset'')))"

definition timeout_endpoint_checks :: "string \<Rightarrow> transition_witness \<Rightarrow> nat \<Rightarrow> unit res" where
  "timeout_endpoint_checks name w refund =
     (let pre = w_pre w; post = w_post w; seat = ap_seat (w_action w);
          bad = name @ '' timeout reset has an invalid waiting endpoint''
      in checks
      [fail_if (\<not> cleared_header post) bad,
       rbind (ok_or (checked_sub (ci_chip_pool pre) refund) (Other ''refund underflow'')) (\<lambda>pool.
         fail_if (ci_chip_pool post \<noteq> pool \<or> ci_deck_commitment post = zero32
             \<or> \<not> cleared_commitments post) bad),
       checks (map (timeout_seat_checks name pre post seat) [0..<length (ci_seats pre)])])"

definition validate_reconstruct_timeout_reset :: "transition_witness \<Rightarrow> unit res" where
  "validate_reconstruct_timeout_reset w =
     (let pre = w_pre w; a = w_action w; refund = cs_stack (ci_seats pre ! ap_seat a);
          active_count = count_status (\<lambda>st. st = CSActive) (ci_seats pre)
      in checks
      [fail_if (ci_phase pre \<noteq> CReconstructing
           \<or> ci_phase_subtag pre \<noteq> CANONICAL_RECONSTRUCT_COLLECTING_SUBTAG
           \<or> ci_street pre = 0 \<or> timed_out_header w)
         ''reconstruct timeout reset has an invalid pending/wager header'',
       fail_if (refund = 0 \<or> ap_amount a \<noteq> refund)
         ''reconstruct timeout reset has an invalid refund amount'',
       fail_if (\<not> (1 \<le> active_count \<and> active_count \<le> 2))
         ''reconstruct timeout reset must have one or two active seats'',
       timeout_endpoint_checks ''reconstruct'' w refund])"

definition validate_reveal_timeout_reset :: "transition_witness \<Rightarrow> unit res" where
  "validate_reveal_timeout_reset w =
     (let pre = w_pre w; a = w_action w; refund = cs_stack (ci_seats pre ! ap_seat a) in checks
      [fail_if (ci_phase pre \<noteq> CRevealing \<or> ci_phase_subtag pre \<noteq> 1 \<or> ci_street pre \<noteq> 1
           \<or> timed_out_header w)
         ''reveal timeout reset has an invalid pending/wager header'',
       fail_if (refund = 0 \<or> ap_amount a \<noteq> refund)
         ''reveal timeout reset has an invalid refund amount'',
       timeout_endpoint_checks ''reveal'' w refund])"

section \<open>Timeouts that kick\<close>

definition clear_bit :: "16 word \<Rightarrow> nat \<Rightarrow> 16 word" where
  "clear_bit m i = m AND NOT (seat_mask_bit i)"

text \<open>The image a kicked seat keeps: identity and accounting view, no key, no chips.\<close>

definition bad_departed_seat :: "canonical_seat \<Rightarrow> canonical_seat \<Rightarrow> bool" where
  "bad_departed_seat before after \<longleftrightarrow> cs_stack after \<noteq> 0 \<or> cs_pending_addon after \<noteq> 0
     \<or> cs_bet after \<noteq> 0 \<or> cs_total_bet after \<noteq> cs_total_bet before
     \<or> cs_time_bank_ms after \<noteq> cs_time_bank_ms before
     \<or> cs_identity_commitment after \<noteq> cs_identity_commitment before
     \<or> cs_key_commitment after \<noteq> zero32 \<or> cs_hole_cards_commitment after \<noteq> zero32"

definition kick_frame :: "nat \<Rightarrow> canonical_state \<Rightarrow> canonical_state \<Rightarrow> canonical_state" where
  "kick_frame seat expected actual = expected
     \<lparr>ci_call_seq := ci_call_seq actual, ci_acted_mask := ci_acted_mask actual,
      ci_leave_after_hand_mask := ci_leave_after_hand_mask actual,
      ci_protocol_pending_mask := ci_protocol_pending_mask actual, ci_pot := ci_pot actual,
      ci_chip_pool := ci_chip_pool actual, ci_reveal_commitment := ci_reveal_commitment actual,
      ci_custody_commitment := ci_custody_commitment actual,
      ci_seats := (ci_seats expected)[seat := ci_seats actual ! seat]\<rparr>"

definition validate_reveal_timeout_kick :: "transition_witness \<Rightarrow> unit res" where
  "validate_reveal_timeout_kick w =
     (let pre = w_pre w; post = w_post w; a = w_action w; seat = ap_seat a;
          before = ci_seats pre ! seat; after = ci_seats post ! seat;
          bad = ''reveal timeout kick has an invalid custody/lifecycle delta''
      in checks
      [fail_if (ci_phase pre \<noteq> CRevealing \<or> ci_phase_subtag pre = 0 \<or> ci_street pre = 0
           \<or> ci_current_turn pre \<noteq> NO_CANONICAL_SEAT \<or> ci_phase post \<noteq> ci_phase pre
           \<or> ci_phase_subtag post \<noteq> ci_phase_subtag pre \<or> ci_street post \<noteq> ci_street pre
           \<or> ci_current_turn post \<noteq> NO_CANONICAL_SEAT \<or> ci_deadline_ms post \<noteq> ci_deadline_ms pre
           \<or> w_deadline_height w < ci_deadline_ms pre \<or> ap_auxiliary a \<noteq> 0 \<or> ap_flag a
           \<or> ci_max_players pre \<le> seat
           \<or> ci_protocol_pending_mask pre AND seat_mask_bit seat = 0
           \<or> ci_protocol_pending_mask post \<noteq> clear_bit (ci_protocol_pending_mask pre) seat
           \<or> ci_protocol_pending_mask post = 0 \<or> cs_status before \<noteq> CSActive
           \<or> cs_status after \<noteq> CSOut \<or> ci_reveal_commitment post = ci_reveal_commitment pre
           \<or> ap_proof_commitment a \<noteq> ci_reveal_commitment post)
         ''reveal timeout kick has an invalid protocol header'',
       rbind (ok_or (checked_add (cs_stack before) (cs_pending_addon before))
           (Other ''reveal timeout kick refund overflow'')) (\<lambda>refund. checks
         [fail_if (refund = 0 \<or> ap_amount a \<noteq> refund) bad,
          rbind (ok_or (checked_add (ci_pot pre) (cs_bet before))
              (Other ''reveal timeout kick pot overflow'')) (\<lambda>pot. fail_if (ci_pot post \<noteq> pot) bad),
          rbind (ok_or (checked_sub (ci_chip_pool pre) refund)
              (Other ''reveal timeout kick chip_pool underflow'')) (\<lambda>pool.
            fail_if (ci_chip_pool post \<noteq> pool) bad),
          fail_if (bad_departed_seat before after
              \<or> ci_acted_mask post \<noteq> clear_bit (ci_acted_mask pre) seat
              \<or> ci_leave_after_hand_mask post \<noteq> clear_bit (ci_leave_after_hand_mask pre) seat) bad]),
       fail_if (count_status (\<lambda>st. st = CSActive) (ci_seats post) < 2)
         ''reveal timeout kick must leave a non-terminal population'',
       only_allowed_changes pre post (Some seat) (kick_frame seat)])"

definition reconstruct_frame :: "nat \<Rightarrow> canonical_state \<Rightarrow> canonical_state \<Rightarrow> canonical_state" where
  "reconstruct_frame seat expected actual = expected
     \<lparr>ci_call_seq := ci_call_seq actual, ci_phase := ci_phase actual,
      ci_phase_subtag := ci_phase_subtag actual, ci_deadline_ms := ci_deadline_ms actual,
      ci_acted_mask := ci_acted_mask actual,
      ci_leave_after_hand_mask := ci_leave_after_hand_mask actual,
      ci_protocol_pending_mask := ci_protocol_pending_mask actual, ci_pot := ci_pot actual,
      ci_chip_pool := ci_chip_pool actual,
      ci_reconstruction_commitment := ci_reconstruction_commitment actual,
      ci_custody_commitment := ci_custody_commitment actual,
      ci_seats := (ci_seats expected)[seat := ci_seats actual ! seat]\<rparr>"

definition validate_reveal_timeout_reconstruct :: "transition_witness \<Rightarrow> unit res" where
  "validate_reveal_timeout_reconstruct w =
     (let pre = w_pre w; post = w_post w; a = w_action w; seat = ap_seat a;
          before = ci_seats pre ! seat; after = ci_seats post ! seat;
          bad_header = ''reveal timeout reconstruct has an invalid phase/header'';
          bad = ''reveal timeout reconstruct has an invalid terminal kick delta''
      in checks
      [fail_if (ci_phase pre \<noteq> CRevealing \<or> ci_phase_subtag pre = 1 \<or> ci_street pre \<le> 1
           \<or> ci_current_turn pre \<noteq> NO_CANONICAL_SEAT \<or> ci_phase post \<noteq> CReconstructing
           \<or> ci_phase_subtag post \<noteq> CANONICAL_RECONSTRUCT_COLLECTING_SUBTAG
           \<or> ci_street post \<noteq> ci_street pre \<or> ci_current_turn post \<noteq> NO_CANONICAL_SEAT
           \<or> ap_flag a \<or> ap_auxiliary a \<noteq> 0
           \<or> ap_proof_commitment a \<noteq> ci_reconstruction_commitment post
           \<or> ci_reconstruction_commitment post = zero32
           \<or> ci_reconstruction_commitment post = ci_reconstruction_commitment pre
           \<or> ci_reveal_commitment post \<noteq> ci_reveal_commitment pre
           \<or> w_deadline_height w < ci_deadline_ms pre) bad_header,
       rbind (ok_or (checked_add (w_deadline_height w) (ci_reconstruct_timeout_ms pre))
           (Other ''reveal timeout reconstruct deadline overflow'')) (\<lambda>deadline.
         fail_if (ci_deadline_ms post \<noteq> deadline \<or> ci_max_players pre \<le> seat
             \<or> ci_protocol_pending_mask pre \<noteq> seat_mask_bit seat
             \<or> cs_status before \<noteq> CSActive) bad_header),
       rbind (ok_or (checked_add (cs_stack before) (cs_pending_addon before))
           (Other ''reveal timeout reconstruct refund overflow'')) (\<lambda>refund. checks
         [fail_if (refund = 0 \<or> ap_amount a \<noteq> refund \<or> cs_status after \<noteq> CSOut
              \<or> bad_departed_seat before after) bad,
          rbind (ok_or (checked_add (ci_pot pre) (cs_bet before))
              (Other ''reveal timeout reconstruct pot overflow'')) (\<lambda>pot.
            fail_if (ci_pot post \<noteq> pot) bad),
          rbind (ok_or (checked_sub (ci_chip_pool pre) refund)
              (Other ''reveal timeout reconstruct chip_pool underflow'')) (\<lambda>pool.
            fail_if (ci_chip_pool post \<noteq> pool) bad),
          fail_if (ci_acted_mask post \<noteq> clear_bit (ci_acted_mask pre) seat
              \<or> ci_leave_after_hand_mask post \<noteq> clear_bit (ci_leave_after_hand_mask pre) seat
              \<or> ci_current_bet post \<noteq> ci_current_bet pre
              \<or> ci_min_raise post \<noteq> ci_min_raise pre) bad]),
       fail_if (ci_protocol_pending_mask post \<noteq> active_reveal_mask (ci_seats post)
           \<or> count_status (\<lambda>st. st = CSActive \<or> st = CSAllIn) (ci_seats post) < 2)
         ''reveal timeout reconstruct has an invalid active pending mask'',
       only_allowed_changes pre post (Some seat) (reconstruct_frame seat)])"

section \<open>The sole survivor's award\<close>

definition live_seats :: "canonical_state \<Rightarrow> nat list" where
  "live_seats st = filter (\<lambda>i. cs_status (ci_seats st ! i) = CSActive
     \<or> cs_status (ci_seats st ! i) = CSAllIn) [0..<length (ci_seats st)]"

definition award_status :: "canonical_seat_status \<Rightarrow> canonical_seat_status res" where
  "award_status st =
     (if st = CSEmpty then Inr CSEmpty
      else if st = CSActive \<or> st = CSFolded then Inr CSActive
      else if st = CSOut then Inr CSEmpty
      else Inl (Other ''reveal timeout award only supports retained active/folded/kicked seats''))"

definition award_credit_checks ::
  "canonical_state \<Rightarrow> canonical_state \<Rightarrow> nat \<Rightarrow> nat \<Rightarrow> unit res" where
  "award_credit_checks pre post winner i =
     (let before = ci_seats pre ! i; after = ci_seats post ! i;
          bad = ''reveal timeout award did not credit the survivor'' in
      if i = winner then checks
        [fail_if (cs_status after \<noteq> CSActive) bad,
         rbind (ok_or (checked_add (cs_stack before) (ci_pot pre))
             (Other ''reveal timeout award winner stack overflow'')) (\<lambda>stack.
           fail_if (cs_stack after \<noteq> stack) bad)]
      else rbind (award_status (cs_status before)) (\<lambda>expected_status.
        fail_if (cs_status after \<noteq> expected_status
            \<or> (cs_status before \<noteq> CSOut \<and> cs_stack after \<noteq> cs_stack before)
            \<or> (cs_status before = CSOut \<and> after \<noteq> EMPTY_SEAT))
          ''reveal timeout award changed an unrelated seat''))"

definition award_seat_checks ::
  "canonical_state \<Rightarrow> canonical_state \<Rightarrow> nat \<Rightarrow> nat \<Rightarrow> nat \<Rightarrow> unit res" where
  "award_seat_checks pre post seat winner i =
     (let before = ci_seats pre ! i; after = ci_seats post ! i;
          time_bank = terminal_time_bank (cs_status before) in
      if i = seat then
        fail_if (after \<noteq> EMPTY_SEAT) ''reveal timeout award did not vacate the kicked seat''
      else if cs_status before = CSOut then
        fail_if (after \<noteq> EMPTY_SEAT) ''reveal timeout award did not vacate an earlier kicked seat''
      else checks
        [award_credit_checks pre post winner i,
         fail_if (cs_pending_addon before \<noteq> 0 \<or> cs_time_bank_ms before \<noteq> time_bank
             \<or> cs_acted after \<or> cs_bet after \<noteq> 0 \<or> cs_total_bet after \<noteq> 0
             \<or> cs_pending_addon after \<noteq> 0 \<or> cs_time_bank_ms after \<noteq> time_bank
             \<or> cs_identity_commitment after \<noteq> cs_identity_commitment before
             \<or> cs_key_commitment after \<noteq> cs_key_commitment before
             \<or> cs_hole_cards_commitment after \<noteq> zero32)
           ''reveal timeout award seat projection is not canonical''])"

definition award_frame :: "canonical_state \<Rightarrow> canonical_state \<Rightarrow> canonical_state" where
  "award_frame expected actual =
     (reset_frame expected actual)\<lparr>ci_chip_pool := ci_chip_pool actual\<rparr>"

definition validate_reveal_timeout_award :: "transition_witness \<Rightarrow> unit res" where
  "validate_reveal_timeout_award w =
     (let pre = w_pre w; post = w_post w; a = w_action w; seat = ap_seat a;
          before = ci_seats pre ! seat; live = live_seats pre;
          bad = ''reveal timeout award has an invalid waiting endpoint''
      in rbind (fail_if (ci_phase pre \<noteq> CRevealing \<or> ci_phase_subtag pre = 0
           \<or> ci_phase_subtag pre \<noteq> ci_street pre \<or> ci_street pre = 0
           \<or> ci_current_turn pre \<noteq> NO_CANONICAL_SEAT \<or> ap_flag a \<or> ap_auxiliary a \<noteq> 0
           \<or> ap_proof_commitment a \<noteq> ci_deck_commitment post \<or> ci_deck_commitment post = zero32
           \<or> w_deadline_height w < ci_deadline_ms pre \<or> ci_max_players pre \<le> seat
           \<or> ci_protocol_pending_mask pre \<noteq> seat_mask_bit seat \<or> cs_status before \<noteq> CSActive
           \<or> ci_leave_after_hand_mask pre \<noteq> 0 \<or> list_ex (\<lambda>s. cs_bet s \<noteq> 0) (ci_seats pre))
         ''reveal timeout award has an invalid phase/wager header'') (\<lambda>_.
       rbind (ok_or (checked_add (cs_stack before) (cs_pending_addon before))
           (Other ''reveal timeout award refund overflow'')) (\<lambda>refund.
       rbind (fail_if (refund = 0 \<or> ap_amount a \<noteq> refund \<or> ci_pot pre = 0)
         ''reveal timeout award has an invalid refund/award payload'') (\<lambda>_.
       rbind (fail_if (length live \<noteq> 2 \<or> seat \<notin> set live)
         ''reveal timeout award must retain exactly one survivor'') (\<lambda>_.
       rbind (ok_or (find (\<lambda>i. i \<noteq> seat) live)
           (Panic ''two distinct live seats contain a survivor'')) (\<lambda>winner. checks
       [fail_if (\<not> cleared_header post \<or> \<not> cleared_commitments post) bad,
        rbind (ok_or (checked_sub (ci_chip_pool pre) refund)
            (Other ''reveal timeout award chip_pool underflow'')) (\<lambda>pool.
          fail_if (ci_chip_pool post \<noteq> pool) bad),
        checks (map (award_seat_checks pre post seat winner) [0..<length (ci_seats pre)]),
        only_allowed_changes pre post None award_frame]))))))"

definition winner_of :: "transition_witness \<Rightarrow> nat res" where
  "winner_of w = ok_or (find (\<lambda>i. i \<noteq> ap_seat (w_action w)) (live_seats (w_pre w)))
     (Other ''reveal timeout award has no live survivor'')"

text \<open>
  The raked award is checked against the zero-rake row with the rake added back. The addition
  to the winner's stack in the adjusted row is unchecked in the source: it panics in a debug
  build and wraps in a release build, and the zero-rake check then reports the overflow; the
  model wraps.
\<close>

definition adjusted_award :: "transition_witness \<Rightarrow> nat \<Rightarrow> nat \<Rightarrow> transition_witness" where
  "adjusted_award w winner pool =
     (let pre = w_pre w; post = w_post w;
          credited = (ci_seats post ! winner)
            \<lparr>cs_stack := u64_add (cs_stack (ci_seats pre ! winner)) (ci_pot pre)\<rparr>
      in w\<lparr>w_kind := KRevealTimeoutAward,
           w_post := post\<lparr>ci_seats := (ci_seats post)[winner := credited], ci_chip_pool := pool\<rparr>,
           w_rake_opening := RAKE_ZERO\<rparr>)"

definition validate_reveal_timeout_raked_award :: "transition_witness \<Rightarrow> unit res" where
  "validate_reveal_timeout_raked_award w =
     (let op = w_rake_opening w; pre = w_pre w; post = w_post w; seat = ap_seat (w_action w);
          rake = canonical_settlement_rake (ci_pot pre) op
      in rbind (fail_if (\<not> (ro_mode op = PERCENTAGE_MODE \<or> ro_mode op = FIXED_RAKE_BURN_MODE)
           \<or> ro_bps op = 0 \<or> 10000 < ro_bps op \<or> u32_bound - 1 < ci_pot pre)
         ''raked award has an invalid rake configuration'') (\<lambda>_.
       rbind (winner_of w) (\<lambda>winner.
       rbind (if seat < length (ci_seats pre) then Inr (ci_seats pre ! seat)
              else Inl (Panic ''index out of bounds'')) (\<lambda>before.
       rbind (ok_or (checked_add (cs_stack before) (cs_pending_addon before))
           (Other ''raked award refund overflow'')) (\<lambda>refund.
       rbind (ok_or (checked_sub (ci_chip_pool pre) refund) (Other ''chip underflow'')) (\<lambda>pool.
       let adjusted = adjusted_award w winner pool in checks
       [validate_reveal_timeout_award adjusted,
        fail_if (checked_add (cs_stack (ci_seats post ! winner)) rake
              \<noteq> Some (cs_stack (ci_seats (w_post adjusted) ! winner))
            \<or> checked_add (ci_chip_pool post) rake \<noteq> Some (ci_chip_pool (w_post adjusted)))
          ''raked award does not remove the exact rake from the credit'']))))))"

end
