(* ===== verification/Canon_Relation.thy ===== *)
theory Canon_Relation
  imports Canon_Terminal
begin

text \<open>
  \<^verbatim>\<open>validate_transition_relation\<close> of \<^verbatim>\<open>src/src/texas_canonical.rs\<close>, one definition per
  selector family, and the shape and batch validators built on it.

  In every definition \<open>i\<close> is the seat of the action and \<open>before\<close> and \<open>after\<close> are its images at
  the two endpoints; a seat outside the nine is the empty image with the mask bit 0, as in the
  source.
\<close>

definition seat_image :: "canonical_state \<Rightarrow> nat \<Rightarrow> canonical_seat" where
  "seat_image st i = (if i < MAX_CANONICAL_SEATS then ci_seats st ! i else EMPTY_SEAT)"

definition seat_bit :: "nat \<Rightarrow> 16 word" where
  "seat_bit i = (if i < MAX_CANONICAL_SEATS then seat_mask_bit i else 0)"

definition seat_option :: "nat \<Rightarrow> nat option" where
  "seat_option i = (if i < MAX_CANONICAL_SEATS then Some i else None)"

text \<open>Funds, clock and commitments of a seat; several families freeze all of them.\<close>

definition seat_material_changed :: "canonical_seat \<Rightarrow> canonical_seat \<Rightarrow> bool" where
  "seat_material_changed before after \<longleftrightarrow>
     cs_pending_addon after \<noteq> cs_pending_addon before
     \<or> cs_time_bank_ms after \<noteq> cs_time_bank_ms before
     \<or> cs_identity_commitment after \<noteq> cs_identity_commitment before
     \<or> cs_key_commitment after \<noteq> cs_key_commitment before
     \<or> cs_hole_cards_commitment after \<noteq> cs_hole_cards_commitment before"

definition seat_funds_changed :: "canonical_seat \<Rightarrow> canonical_seat \<Rightarrow> bool" where
  "seat_funds_changed before after \<longleftrightarrow>
     cs_stack after \<noteq> cs_stack before \<or> cs_bet after \<noteq> cs_bet before
     \<or> cs_total_bet after \<noteq> cs_total_bet before"

section \<open>Seating\<close>

definition custody_frame :: "canonical_state \<Rightarrow> canonical_state \<Rightarrow> canonical_state" where
  "custody_frame expected actual = expected
     \<lparr>ci_call_seq := ci_call_seq actual, ci_acted_mask := ci_acted_mask actual,
      ci_leave_after_hand_mask := ci_leave_after_hand_mask actual,
      ci_custody_commitment := ci_custody_commitment actual,
      ci_chip_pool := ci_chip_pool actual\<rparr>"

definition relate_create_table :: "transition_witness \<Rightarrow> unit res" where
  "relate_create_table w = (let pre = w_pre w; post = w_post w in checks
     [fail_if (ci_phase pre \<noteq> CWaiting \<or> ci_phase post \<noteq> CWaiting)
        ''create_table must start and end in waiting phase'',
      fail_if (ci_table_id pre \<noteq> ci_table_id post
          \<or> list_ex (\<lambda>s. cs_status s \<noteq> CSEmpty) (ci_seats post))
        ''create_table has an invalid empty-table boundary'',
      only_allowed_changes pre post None (\<lambda>e a. e\<lparr>ci_call_seq := ci_call_seq a\<rparr>),
      same_except pre post None (\<lambda>a b. checked_add_u32 (ci_call_seq a) 1 = Some (ci_call_seq b))])"

definition relate_join_table :: "transition_witness \<Rightarrow> unit res" where
  "relate_join_table w = (let pre = w_pre w; post = w_post w; a = w_action w; i = ap_seat a;
      before = seat_image pre i; after = seat_image post i in checks
     [fail_if (ci_phase pre \<noteq> CWaiting \<or> cs_status before \<noteq> CSEmpty)
        ''join_table requires an empty seat in waiting phase'',
      fail_if (cs_status after \<noteq> CSWaiting \<or> ap_amount a = 0)
        ''join_table must create a funded waiting seat'',
      fail_if (list_ex (\<lambda>s. cs_status s = CSEmpty) (take i (ci_seats pre)))
        ''join_table must occupy the first empty seat'',
      fail_if (cs_stack after \<noteq> ap_amount a \<or> cs_bet after \<noteq> 0 \<or> cs_total_bet after \<noteq> 0
          \<or> cs_pending_addon after \<noteq> 0 \<or> cs_acted after
          \<or> ci_leave_after_hand_mask post AND seat_bit i \<noteq> 0)
        ''join_table custody transition is invalid'',
      rbind (ok_or (checked_add (ci_chip_pool pre) (ap_amount a))
          (Other ''join chip_pool overflow'')) (\<lambda>pool.
        fail_if (ci_chip_pool post \<noteq> pool) ''join_table custody transition is invalid''),
      only_allowed_changes pre post (seat_option i) custody_frame,
      same_except pre post (seat_option i) (\<lambda>a b. ci_acted_mask a = ci_acted_mask b
        \<and> ci_leave_after_hand_mask a = ci_leave_after_hand_mask b)])"

definition relate_leave_table :: "transition_witness \<Rightarrow> unit res" where
  "relate_leave_table w = (let pre = w_pre w; post = w_post w; a = w_action w; i = ap_seat a;
      before = seat_image pre i; after = seat_image post i;
      bad = ''leave_table custody/lifecycle transition is invalid'' in checks
     [fail_if (ci_phase pre \<noteq> CWaiting
          \<or> \<not> (cs_status before = CSWaiting \<or> cs_status before = CSOut)
          \<or> \<not> (cs_status after = CSEmpty \<or> cs_status after = CSOut))
        ''leave_table is only valid for a waiting/out seat'',
      rbind (ok_or (checked_add (cs_stack before) (cs_pending_addon before))
          (Other ''leave refund overflow'')) (\<lambda>refund. checks
        [fail_if (cs_status before \<noteq> CSWaiting \<or> cs_status after \<noteq> CSEmpty
             \<or> ap_amount a \<noteq> refund) bad,
         rbind (ok_or (checked_sub (ci_chip_pool pre) refund)
             (Other ''leave chip_pool underflow'')) (\<lambda>pool.
           fail_if (ci_chip_pool post \<noteq> pool \<or> after \<noteq> EMPTY_SEAT) bad)]),
      only_allowed_changes pre post (seat_option i) custody_frame,
      same_except pre post (seat_option i) (\<lambda>_ _. True)])"

definition relate_kick_player :: "transition_witness \<Rightarrow> unit res" where
  "relate_kick_player w = (let pre = w_pre w; post = w_post w; a = w_action w; i = ap_seat a;
      before = seat_image pre i; after = seat_image post i in
     rbind (ok_or (checked_add (cs_stack before) (cs_pending_addon before))
         (Other ''kick refund overflows'')) (\<lambda>refund.
     rbind (ok_or (checked_add (ci_pot pre) (cs_bet before))
         (Other ''kick pot overflow'')) (\<lambda>post_pot.
     rbind (ok_or (checked_sub (ci_chip_pool pre) refund)
         (Other ''kick chip_pool underflow'')) (\<lambda>post_chip_pool. checks
     [fail_if (\<not> (cs_status before = CSActive \<or> cs_status before = CSWaiting)
          \<or> cs_status after \<noteq> CSOut \<or> ap_amount a \<noteq> refund \<or> ci_pot post \<noteq> post_pot
          \<or> ci_chip_pool post \<noteq> post_chip_pool \<or> bad_departed_seat before after)
        ''kick player custody/lifecycle transition is invalid'',
      only_allowed_changes pre post (seat_option i) (\<lambda>e a. (custody_frame e a)
        \<lparr>ci_current_turn := ci_current_turn a, ci_pot := ci_pot a\<rparr>),
      same_except pre post (seat_option i) (\<lambda>_ _. True)]))))"

definition relate_set_leave_after_hand :: "transition_witness \<Rightarrow> unit res" where
  "relate_set_leave_after_hand w = (let pre = w_pre w; post = w_post w; a = w_action w;
      i = ap_seat a; before = seat_image pre i; bit = seat_bit i in checks
     [fail_if (cs_status before = CSEmpty \<or> ap_amount a \<noteq> 0 \<or> ap_auxiliary a \<noteq> 0
          \<or> (ci_leave_after_hand_mask pre AND bit \<noteq> 0) = ap_flag a
          \<or> ci_leave_after_hand_mask post \<noteq>
              (if ap_flag a then ci_leave_after_hand_mask pre OR bit
               else ci_leave_after_hand_mask pre AND NOT bit))
        ''leave-after-hand transition is not a single bit flip'',
      only_allowed_changes pre post None (\<lambda>e a. e\<lparr>ci_call_seq := ci_call_seq a,
        ci_leave_after_hand_mask := ci_leave_after_hand_mask a\<rparr>),
      same_except pre post None (\<lambda>_ _. True)])"

text \<open>Addon and rebuy. Only the columns named here are checked on the funded seat.\<close>

definition relate_funding :: "bool \<Rightarrow> transition_witness \<Rightarrow> unit res" where
  "relate_funding addon w = (let pre = w_pre w; post = w_post w; a = w_action w; i = ap_seat a;
      before = seat_image pre i; after = seat_image post i in checks
     [fail_if (ci_phase pre = CWaiting \<and> cs_status before = CSEmpty)
        ''funding requires an occupied seat'',
      fail_if (ap_amount a = 0 \<or> cs_status after \<noteq> cs_status before)
        ''funding transition has an invalid amount or lifecycle'',
      fail_if (checked_add (ci_chip_pool pre) (ap_amount a) \<noteq> Some (ci_chip_pool post))
        ''funding must credit TableVault chip_pool by exactly the action amount'',
      if addon then
        fail_if (checked_add (cs_pending_addon before) (ap_amount a) \<noteq> Some (cs_pending_addon after)
            \<or> cs_stack after \<noteq> cs_stack before)
          ''addon must only increase pending_addon''
      else
        fail_if (checked_add (cs_stack before) (ap_amount a) \<noteq> Some (cs_stack after)
            \<or> cs_pending_addon after \<noteq> cs_pending_addon before)
          ''rebuy must only increase stack'',
      only_allowed_changes pre post (seat_option i) (\<lambda>e a. e\<lparr>ci_call_seq := ci_call_seq a,
        ci_pot := ci_pot a, ci_chip_pool := ci_chip_pool a,
        ci_custody_commitment := ci_custody_commitment a\<rparr>),
      same_except pre post (seat_option i) (\<lambda>_ _. True)])"

section \<open>The start of a hand and the deadlines\<close>

definition promote_waiting_seat :: "canonical_seat \<Rightarrow> canonical_seat \<Rightarrow> canonical_seat" where
  "promote_waiting_seat e a =
     (if cs_status e = CSWaiting \<and> cs_status a = CSActive then e\<lparr>cs_status := CSActive\<rparr> else e)"

definition start_hand_frame :: "canonical_state \<Rightarrow> canonical_state \<Rightarrow> canonical_state" where
  "start_hand_frame expected actual = expected
     \<lparr>ci_hand_id := ci_hand_id actual, ci_button := ci_button actual, ci_phase := ci_phase actual,
      ci_phase_subtag := ci_phase_subtag actual, ci_deadline_ms := ci_deadline_ms actual,
      ci_call_seq := ci_call_seq actual,
      ci_protocol_pending_mask := ci_protocol_pending_mask actual,
      ci_seats := map (\<lambda>(e, a). promote_waiting_seat e a) (zip (ci_seats expected) (ci_seats actual))\<rparr>"

definition relate_start_hand :: "transition_witness \<Rightarrow> unit res" where
  "relate_start_hand w = (let pre = w_pre w; post = w_post w in checks
     [fail_if (ci_phase pre \<noteq> CWaiting \<or> ci_phase post \<noteq> CShuffling)
        ''start_hand must enter shuffling from waiting'',
      fail_if (ci_deadline_ms post = 0 \<or> ci_current_turn post \<noteq> NO_CANONICAL_SEAT)
        ''start_hand must arm the shuffle deadline'',
      fail_if (count_status (\<lambda>st. st = CSActive \<or> st = CSFolded \<or> st = CSAllIn) (ci_seats post) < 2)
        ''start_hand requires at least two participating seats'',
      fail_if (ci_button post \<noteq> (ci_button pre + 1) mod ci_max_players pre
          \<or> ci_last_bb_seat post \<noteq> ci_last_bb_seat pre \<or> ci_phase_subtag post \<noteq> 1
          \<or> ci_street post \<noteq> 0 \<or> ci_acted_mask post \<noteq> 0
          \<or> ci_protocol_pending_mask post \<noteq> active_reveal_mask (ci_seats post))
        ''start_hand header/button initialization is invalid'',
      only_allowed_changes pre post None start_hand_frame])"

definition time_bank_frame :: "nat \<Rightarrow> canonical_state \<Rightarrow> canonical_state \<Rightarrow> canonical_state" where
  "time_bank_frame i expected actual = expected
     \<lparr>ci_call_seq := ci_call_seq actual, ci_deadline_ms := ci_deadline_ms actual,
      ci_seats := (ci_seats expected)[i := ci_seats actual ! i]\<rparr>"

definition saturating_add_u64 :: "nat \<Rightarrow> nat \<Rightarrow> nat" where
  "saturating_add_u64 a b = min (a + b) u64_max"

definition relate_time_bank :: "transition_witness \<Rightarrow> unit res" where
  "relate_time_bank w = (let pre = w_pre w; post = w_post w; a = w_action w; i = ap_seat a;
      sp = ci_seats pre ! i; sq = ci_seats post ! i;
      consume = min (cs_time_bank_ms sp) (ci_betting_timeout_ms pre) in checks
     [fail_if (ci_phase pre \<noteq> CBetting \<or> ci_current_turn pre = NO_CANONICAL_SEAT
          \<or> MAX_CANONICAL_SEATS \<le> i \<or> i \<noteq> ci_current_turn pre
          \<or> cs_status sp \<noteq> CSActive \<or> ap_auxiliary a \<noteq> 1)
        ''advance_deadline has an invalid betting extension selector'',
      fail_if (consume = 0 \<or> ap_amount a \<noteq> consume
          \<or> ci_deadline_ms post \<noteq> saturating_add_u64 (ci_deadline_ms pre) consume
          \<or> cs_time_bank_ms sq \<noteq> cs_time_bank_ms sp - consume
          \<or> ci_acted_mask post \<noteq> ci_acted_mask pre
          \<or> list_ex (\<lambda>(q, p). cs_acted q \<noteq> cs_acted p) (zip (ci_seats post) (ci_seats pre)))
        ''advance_deadline has an invalid time-bank extension'',
      only_allowed_changes pre post (Some i) (time_bank_frame i)])"

definition shuffle_timeout_frame :: "canonical_state \<Rightarrow> canonical_state \<Rightarrow> canonical_state" where
  "shuffle_timeout_frame expected actual = expected
     \<lparr>ci_call_seq := ci_call_seq actual, ci_deadline_ms := ci_deadline_ms actual,
      ci_acted_mask := ci_acted_mask actual,
      ci_leave_after_hand_mask := ci_leave_after_hand_mask actual,
      ci_protocol_pending_mask := ci_protocol_pending_mask actual, ci_pot := ci_pot actual,
      ci_chip_pool := ci_chip_pool actual, ci_deck_commitment := ci_deck_commitment actual,
      ci_custody_commitment := ci_custody_commitment actual\<rparr>"

definition relate_shuffle_timeout :: "transition_witness \<Rightarrow> unit res" where
  "relate_shuffle_timeout w = (let pre = w_pre w; post = w_post w; a = w_action w; i = ap_seat a;
      before = ci_seats pre ! i; after = ci_seats post ! i;
      bad = ''shuffle timeout transition is invalid'' in
     rbind (fail_if (ci_phase pre \<noteq> CShuffling \<or> ci_current_turn pre \<noteq> NO_CANONICAL_SEAT
          \<or> ap_auxiliary a \<noteq> 2 \<or> ci_shuffle_timeout_ms pre = 0 \<or> MAX_CANONICAL_SEATS \<le> i
          \<or> ci_protocol_pending_mask pre \<noteq> active_reveal_mask (ci_seats pre)
          \<or> ci_protocol_pending_mask pre AND seat_mask_bit i = 0
          \<or> trailing_zeros (ci_protocol_pending_mask pre AND seat_mask_bit i) \<noteq> i
          \<or> cs_status before \<noteq> CSActive)
        ''advance_deadline has an invalid shuffle-timeout selector'') (\<lambda>_.
     rbind (ok_or (checked_add (cs_stack before) (cs_pending_addon before))
         (Other ''shuffle timeout refund overflow'')) (\<lambda>refund. checks
     [fail_if (ap_amount a \<noteq> refund \<or> cs_status after \<noteq> CSOut \<or> bad_departed_seat before after) bad,
      rbind (ok_or (checked_add (ci_pot pre) (cs_bet before))
          (Other ''shuffle timeout pot overflow'')) (\<lambda>pot. fail_if (ci_pot post \<noteq> pot) bad),
      rbind (ok_or (checked_sub (ci_chip_pool pre) refund)
          (Other ''shuffle timeout chip_pool underflow'')) (\<lambda>pool.
        fail_if (ci_chip_pool post \<noteq> pool
          \<or> ci_acted_mask post \<noteq> clear_bit (ci_acted_mask pre) i
          \<or> ci_leave_after_hand_mask post \<noteq> clear_bit (ci_leave_after_hand_mask pre) i
          \<or> ci_protocol_pending_mask post \<noteq> active_reveal_mask (ci_seats post)
          \<or> count_ones (ci_protocol_pending_mask post) < 2 \<or> ci_phase_subtag post = 0
          \<or> ci_current_turn post \<noteq> NO_CANONICAL_SEAT) bad),
      rbind (ok_or (checked_add (w_deadline_height w) (ci_shuffle_timeout_ms pre))
          (Other ''shuffle timeout deadline overflow'')) (\<lambda>deadline.
        fail_if (ci_deadline_ms post \<noteq> deadline \<or> ci_deck_commitment post = zero32
          \<or> ci_deck_commitment post = ci_deck_commitment pre
          \<or> ci_board_cards_commitment post \<noteq> ci_board_cards_commitment pre
          \<or> ci_reveal_commitment post \<noteq> ci_reveal_commitment pre
          \<or> ci_reconstruction_commitment post \<noteq> ci_reconstruction_commitment pre
          \<or> ci_run_it_twice_commitment post \<noteq> ci_run_it_twice_commitment pre) bad),
      only_allowed_changes pre post (Some i) shuffle_timeout_frame])))"

definition relate_advance_deadline :: "transition_witness \<Rightarrow> unit res" where
  "relate_advance_deadline w = checks
     [fail_if (w_deadline_height w = 0 \<or> w_deadline_height w < ci_deadline_ms (w_pre w))
        ''advance_deadline is before the committed deadline'',
      if \<not> ap_flag (w_action w) then relate_time_bank w else relate_shuffle_timeout w]"

section \<open>Betting\<close>

definition bet_lifecycle :: "nat \<Rightarrow> canonical_seat_status" where
  "bet_lifecycle stack = (if stack = 0 then CSAllIn else CSActive)"

text \<open>The economics of each action on the acting seat; unchecked additions wrap.\<close>

definition relate_fold_seat :: "canonical_seat \<Rightarrow> canonical_seat \<Rightarrow> unit res" where
  "relate_fold_seat before after =
     fail_if (seat_funds_changed before after \<or> seat_material_changed before after)
       ''fold changed selected-seat custody or identity data''"

definition relate_check_seat ::
  "canonical_state \<Rightarrow> canonical_state \<Rightarrow> canonical_seat \<Rightarrow> canonical_seat \<Rightarrow> unit res" where
  "relate_check_seat pre post before after =
     fail_if (cs_status after \<noteq> CSActive \<or> seat_funds_changed before after
         \<or> seat_material_changed before after \<or> ci_current_bet post \<noteq> ci_current_bet pre
         \<or> ci_min_raise post \<noteq> ci_min_raise pre)
       ''check changed selected-seat or betting economics''"

definition relate_call_seat ::
  "canonical_state \<Rightarrow> canonical_state \<Rightarrow> nat \<Rightarrow> canonical_seat \<Rightarrow> canonical_seat \<Rightarrow> unit res" where
  "relate_call_seat pre post amount before after =
     rbind (ok_or (checked_sub (ci_current_bet pre) (cs_bet before))
         (Other ''call seat bet exceeds current bet'')) (\<lambda>owed.
       let delta = min owed (cs_stack before) in
       fail_if (delta = 0 \<or> amount \<noteq> delta \<or> cs_stack after \<noteq> cs_stack before - delta
           \<or> cs_bet after \<noteq> u64_add (cs_bet before) delta
           \<or> cs_total_bet after \<noteq> u64_add (cs_total_bet before) delta
           \<or> seat_material_changed before after
           \<or> cs_status after \<noteq> bet_lifecycle (cs_stack after)
           \<or> ci_current_bet post \<noteq> ci_current_bet pre \<or> ci_min_raise post \<noteq> ci_min_raise pre)
         ''call amount/custody/lifecycle transition is invalid'')"

definition relate_raise_seat ::
  "canonical_state \<Rightarrow> canonical_state \<Rightarrow> nat \<Rightarrow> canonical_seat \<Rightarrow> canonical_seat \<Rightarrow> unit res" where
  "relate_raise_seat pre post raise_to before after =
     rbind (ok_or (checked_sub raise_to (cs_bet before))
         (Other ''raise target is below the seat bet'')) (\<lambda>needed.
     rbind (ok_or (checked_sub raise_to (ci_current_bet pre))
         (Other ''raise target is below the current bet'')) (\<lambda>increment.
       fail_if (increment = 0 \<or> cs_stack before < needed
           \<or> (increment < ci_min_raise pre \<and> needed \<noteq> cs_stack before)
           \<or> cs_stack after \<noteq> cs_stack before - needed \<or> cs_bet after \<noteq> raise_to
           \<or> cs_total_bet after \<noteq> u64_add (cs_total_bet before) needed
           \<or> seat_material_changed before after
           \<or> cs_status after \<noteq> bet_lifecycle (cs_stack after) \<or> ci_current_bet post \<noteq> raise_to
           \<or> ci_min_raise post \<noteq> (if ci_min_raise pre \<le> increment then increment
                                  else ci_min_raise pre))
         ''raise amount/custody/lifecycle transition is invalid''))"

definition relate_bet_seat ::
  "canonical_state \<Rightarrow> canonical_state \<Rightarrow> nat \<Rightarrow> canonical_seat \<Rightarrow> canonical_seat \<Rightarrow> unit res" where
  "relate_bet_seat pre post amount before after =
     rbind (fail_if (amount = 0 \<or> ci_current_bet pre \<noteq> cs_bet before)
         ''bet requires a positive unopened-round amount'') (\<lambda>_.
     rbind (ok_or (checked_add (cs_bet before) amount) (Other ''bet target overflows'')) (\<lambda>raise_to.
       fail_if (cs_stack before < amount \<or> cs_stack after \<noteq> cs_stack before - amount
           \<or> cs_bet after \<noteq> raise_to
           \<or> cs_total_bet after \<noteq> u64_add (cs_total_bet before) amount
           \<or> seat_material_changed before after
           \<or> cs_status after \<noteq> bet_lifecycle (cs_stack after) \<or> ci_current_bet post \<noteq> raise_to
           \<or> ci_min_raise post \<noteq> amount)
         ''bet amount/custody/lifecycle transition is invalid''))"

definition relate_betting_seat :: "transition_witness \<Rightarrow> canonical_seat \<Rightarrow> canonical_seat \<Rightarrow> unit res" where
  "relate_betting_seat w before after = (let pre = w_pre w; post = w_post w;
      amount = ap_amount (w_action w) in
     case w_kind w of
       KFold \<Rightarrow> relate_fold_seat before after
     | KCheck \<Rightarrow> relate_check_seat pre post before after
     | KCall \<Rightarrow> relate_call_seat pre post amount before after
     | KRaise \<Rightarrow> relate_raise_seat pre post amount before after
     | KBet \<Rightarrow> relate_bet_seat pre post amount before after
     | _ \<Rightarrow> Inl (Panic ''only betting actions reach the canonical betting branch''))"

definition raise_reopens :: "transition_witness \<Rightarrow> bool" where
  "raise_reopens w \<longleftrightarrow> w_kind w = KRaise
     \<and> ci_min_raise (w_pre w) \<le> saturating_sub (ap_amount (w_action w)) (ci_current_bet (w_pre w))"

text \<open>The acting seat has acted; a full raise clears every other active seat.\<close>

definition expected_acted :: "transition_witness \<Rightarrow> nat \<Rightarrow> bool" where
  "expected_acted w j = (if j = ap_seat (w_action w) then True
     else if raise_reopens w \<and> cs_status (ci_seats (w_pre w) ! j) = CSActive then False
     else cs_acted (ci_seats (w_pre w) ! j))"

definition copy_acted :: "nat \<Rightarrow> canonical_seat list \<Rightarrow> canonical_seat list \<Rightarrow> canonical_seat list" where
  "copy_acted i expected actual =
     map (\<lambda>j. if j \<noteq> i then (expected ! j)\<lparr>cs_acted := cs_acted (actual ! j)\<rparr> else expected ! j)
       [0..<length expected]"

definition betting_frame :: "nat \<Rightarrow> canonical_state \<Rightarrow> canonical_state \<Rightarrow> canonical_state" where
  "betting_frame i expected actual = expected
     \<lparr>ci_call_seq := ci_call_seq actual, ci_current_turn := ci_current_turn actual,
      ci_acted_mask := ci_acted_mask actual, ci_current_bet := ci_current_bet actual,
      ci_min_raise := ci_min_raise actual, ci_pot := ci_pot actual,
      ci_deadline_ms := ci_deadline_ms actual,
      ci_custody_commitment := ci_custody_commitment actual,
      ci_seats := copy_acted i (ci_seats expected) (ci_seats actual)\<rparr>"

definition relate_betting :: "transition_witness \<Rightarrow> unit res" where
  "relate_betting w = (let pre = w_pre w; post = w_post w; i = ap_seat (w_action w);
      before = seat_image pre i; after = seat_image post i in checks
     [fail_if (ci_phase pre \<noteq> CBetting \<or> ci_current_turn pre \<noteq> i \<or> cs_status before \<noteq> CSActive)
        ''betting action is not authorized by the pre-state turn'',
      if w_kind w = KFold then
        fail_if (cs_status after \<noteq> CSFolded \<or> \<not> cs_acted after)
          ''fold must mark the selected seat folded and acted''
      else
        fail_if (\<not> cs_acted after \<or> cs_status after \<noteq> bet_lifecycle (cs_stack after))
          ''betting action must mark the selected seat acted and preserve its active/all-in lifecycle'',
      fail_if (ci_current_turn post = i) ''betting action did not advance the turn'',
      fail_if (ci_current_turn post \<noteq> expected_betting_successor post i)
        ''betting action did not select the first actionable successor'',
      fail_if (w_kind w = KCheck \<and> cs_bet before \<noteq> ci_current_bet pre)
        ''check requires a matched current bet'',
      relate_betting_seat w before after,
      checks (map (\<lambda>j. fail_if (cs_acted (ci_seats post ! j) \<noteq> expected_acted w j)
          ''betting action has an invalid acted-seat projection'') [0..<MAX_CANONICAL_SEATS]),
      only_allowed_changes pre post (Some i) (betting_frame i),
      same_except pre post (Some i) (\<lambda>a b. ci_acted_mask a XOR ci_acted_mask b = seat_bit i
        \<or> ci_current_turn a \<noteq> ci_current_turn b)])"

section \<open>Folds by others\<close>

definition auto_fold_frame :: "nat \<Rightarrow> canonical_state \<Rightarrow> canonical_state \<Rightarrow> canonical_state" where
  "auto_fold_frame i expected actual = expected
     \<lparr>ci_call_seq := ci_call_seq actual, ci_current_turn := ci_current_turn actual,
      ci_deadline_ms := ci_deadline_ms actual, ci_acted_mask := ci_acted_mask actual,
      ci_seats := (ci_seats expected)[i := ci_seats actual ! i]\<rparr>"

definition relate_auto_fold :: "transition_witness \<Rightarrow> unit res" where
  "relate_auto_fold w = (let pre = w_pre w; post = w_post w; a = w_action w; i = ap_seat a;
      before = seat_image pre i; after = seat_image post i;
      bad = ''auto-fold timeout transition is invalid'' in checks
     [fail_if (ci_phase pre \<noteq> CBetting \<or> ci_current_turn pre \<noteq> i \<or> cs_status before \<noteq> CSActive
          \<or> ci_phase post \<noteq> CBetting \<or> ci_current_turn post = NO_CANONICAL_SEAT
          \<or> ci_current_turn post = i \<or> w_deadline_height w < ci_deadline_ms pre
          \<or> ap_amount a \<noteq> 0 \<or> ap_auxiliary a \<noteq> 0 \<or> ap_flag a) bad,
      rbind (ok_or (checked_add (w_deadline_height w) (ci_betting_timeout_ms pre))
          (Other ''auto-fold deadline overflow'')) (\<lambda>deadline.
        fail_if (ci_deadline_ms post \<noteq> deadline \<or> cs_status after \<noteq> CSFolded \<or> \<not> cs_acted after
          \<or> seat_funds_changed before after \<or> seat_material_changed before after) bad),
      fail_if (ci_phase_subtag post \<noteq> ci_phase_subtag pre \<or> ci_street post \<noteq> ci_street pre
          \<or> ci_current_bet post \<noteq> ci_current_bet pre \<or> ci_min_raise post \<noteq> ci_min_raise pre
          \<or> ci_pot post \<noteq> ci_pot pre \<or> ci_chip_pool post \<noteq> ci_chip_pool pre
          \<or> ci_leave_after_hand_mask post \<noteq> ci_leave_after_hand_mask pre
          \<or> ci_board_cards_commitment post \<noteq> ci_board_cards_commitment pre
          \<or> ci_deck_commitment post \<noteq> ci_deck_commitment pre
          \<or> ci_reveal_commitment post \<noteq> ci_reveal_commitment pre
          \<or> ci_reconstruction_commitment post \<noteq> ci_reconstruction_commitment pre
          \<or> ci_run_it_twice_commitment post \<noteq> ci_run_it_twice_commitment pre)
        ''auto-fold changed unrelated betting state'',
      rbind (ok_or (find (\<lambda>c. let s = ci_seats post ! c in cs_status s = CSActive \<and> \<not> cs_acted s)
            (map (\<lambda>k. (i + k) mod ci_max_players pre) [1..<MAX_CANONICAL_SEATS + 1]))
          (Other ''auto-fold requires a remaining active successor'')) (\<lambda>successor.
        fail_if (ci_current_turn post \<noteq> successor)
          ''auto-fold did not select the first active successor''),
      checks (map (\<lambda>j. let source = ci_seats pre ! j; target = ci_seats post ! j in
          fail_if (cs_acted target \<noteq> (if j = i then True else cs_acted source)
            \<or> (j \<noteq> i \<and> (cs_status source \<noteq> cs_status target \<or> seat_funds_changed source target
                 \<or> seat_material_changed source target)))
          ''auto-fold changed an unrelated seat image'') [0..<length (ci_seats pre)]),
      only_allowed_changes pre post (seat_option i) (auto_fold_frame i)])"

definition relate_force_fold :: "transition_witness \<Rightarrow> unit res" where
  "relate_force_fold w = (let pre = w_pre w; post = w_post w; i = ap_seat (w_action w);
      before = seat_image pre i; after = seat_image post i in checks
     [fail_if (ci_phase pre \<noteq> CBetting \<or> ci_current_turn pre \<noteq> i \<or> cs_status before \<noteq> CSActive
          \<or> cs_status after \<noteq> CSFolded \<or> \<not> cs_acted after \<or> seat_funds_changed before after
          \<or> seat_material_changed before after)
        ''force-fold lifecycle transition is invalid'',
      checks (map (\<lambda>j.
          fail_if (cs_acted (ci_seats post ! j) \<noteq> (if j = i then True else cs_acted (ci_seats pre ! j))
            \<or> (ci_leave_after_hand_mask post AND seat_mask_bit j \<noteq> 0)
                \<noteq> (ci_leave_after_hand_mask pre AND seat_mask_bit j \<noteq> 0))
          ''force-fold mask transition is invalid'') [0..<length (ci_seats pre)]),
      only_allowed_changes pre post (seat_option i) (\<lambda>e a. e
        \<lparr>ci_call_seq := ci_call_seq a, ci_acted_mask := ci_acted_mask a,
         ci_leave_after_hand_mask := ci_leave_after_hand_mask a,
         ci_current_turn := ci_current_turn a, ci_pot := ci_pot a,
         ci_custody_commitment := ci_custody_commitment a\<rparr>),
      same_except pre post (seat_option i) (\<lambda>_ _. True)])"

definition relate_fold_with_proof :: "transition_witness \<Rightarrow> unit res" where
  "relate_fold_with_proof w = (let pre = w_pre w; post = w_post w; i = ap_seat (w_action w);
      before = seat_image pre i; after = seat_image post i in checks
     [fail_if (ap_proof_commitment (w_action w) = zero32)
        ''fold_with_proof is missing its leave DLEQ commitment'',
      fail_if (ci_phase pre \<noteq> CBetting \<or> ci_phase post \<noteq> CBetting \<or> ci_current_turn pre \<noteq> i
          \<or> cs_status before \<noteq> CSActive)
        ''fold_with_proof must be an active betting-turn transition'',
      fail_if (ci_phase_subtag post \<noteq> ci_phase_subtag pre \<or> ci_street post \<noteq> ci_street pre)
        ''fold_with_proof may not change the betting-round identity'',
      fail_if (cs_status after \<noteq> CSFolded \<or> \<not> cs_acted after)
        ''fold_with_proof must mark the selected seat folded and acted'',
      fail_if (ci_current_turn post = i) ''fold_with_proof did not advance the betting turn'',
      fail_if (ci_deck_commitment pre = ci_deck_commitment post)
        ''fold_with_proof must replace the encrypted deck commitment'',
      fail_if (ci_board_cards_commitment pre \<noteq> ci_board_cards_commitment post
          \<or> ci_reveal_commitment pre \<noteq> ci_reveal_commitment post
          \<or> ci_reconstruction_commitment pre \<noteq> ci_reconstruction_commitment post
          \<or> ci_run_it_twice_commitment pre \<noteq> ci_run_it_twice_commitment post)
        ''fold_with_proof changed an unrelated protocol commitment'',
      fail_if (seat_funds_changed before after \<or> seat_material_changed before after)
        ''fold_with_proof changed selected-seat funds or identity material'',
      checks (map (\<lambda>j.
          fail_if (cs_acted (ci_seats post ! j) \<noteq> (if j = i then True else cs_acted (ci_seats pre ! j)))
          ''fold_with_proof has an invalid acted-seat projection'') [0..<MAX_CANONICAL_SEATS]),
      only_allowed_changes pre post (seat_option i) (\<lambda>e a. e
        \<lparr>ci_call_seq := ci_call_seq a, ci_current_turn := ci_current_turn a,
         ci_acted_mask := ci_acted_mask a, ci_deadline_ms := ci_deadline_ms a,
         ci_deck_commitment := ci_deck_commitment a,
         ci_custody_commitment := ci_custody_commitment a\<rparr>)])"

section \<open>The end of a betting round\<close>

definition advance_round_frame :: "canonical_state \<Rightarrow> canonical_state \<Rightarrow> canonical_state" where
  "advance_round_frame expected actual = expected
     \<lparr>ci_call_seq := ci_call_seq actual, ci_phase := ci_phase actual,
      ci_phase_subtag := ci_phase_subtag actual, ci_street := ci_street actual,
      ci_current_turn := ci_current_turn actual, ci_deadline_ms := ci_deadline_ms actual,
      ci_current_bet := ci_current_bet actual, ci_min_raise := ci_min_raise actual,
      ci_pot := ci_pot actual, ci_deck_commitment := ci_deck_commitment actual,
      ci_reveal_commitment := ci_reveal_commitment actual,
      ci_reconstruction_commitment := ci_reconstruction_commitment actual,
      ci_run_it_twice_commitment := ci_run_it_twice_commitment actual,
      ci_custody_commitment := ci_custody_commitment actual,
      ci_protocol_pending_mask := ci_protocol_pending_mask actual,
      ci_seats := map (\<lambda>s. s\<lparr>cs_bet := 0\<rparr>) (ci_seats expected)\<rparr>"

definition collection_changed :: "canonical_seat \<Rightarrow> canonical_seat \<Rightarrow> bool" where
  "collection_changed before after \<longleftrightarrow> cs_status before \<noteq> cs_status after
     \<or> cs_acted before \<noteq> cs_acted after \<or> cs_stack before \<noteq> cs_stack after
     \<or> cs_total_bet before \<noteq> cs_total_bet after \<or> seat_material_changed before after
     \<or> cs_bet after \<noteq> 0"

definition relate_advance_round :: "transition_witness \<Rightarrow> unit res" where
  "relate_advance_round w = (let pre = w_pre w; post = w_post w in checks
     [fail_if (ci_phase pre \<noteq> CBetting \<or> ci_current_turn pre \<noteq> NO_CANONICAL_SEAT
          \<or> ci_phase post \<noteq> CRevealing \<or> ci_current_turn post \<noteq> NO_CANONICAL_SEAT
          \<or> ci_street post \<noteq> min (ci_street pre + 1) 255)
        ''advance_round has an invalid betting/reveal boundary'',
      fail_if (list_ex (\<lambda>s. cs_status s = CSActive
            \<and> (\<not> cs_acted s \<or> cs_bet s \<noteq> ci_current_bet pre)) (ci_seats pre))
        ''advance_round requires every actionable seat to have matched and acted'',
      validate_board_reveal_opening pre post (w_round_advance w),
      fail_if (ci_protocol_pending_mask post \<noteq> active_reveal_mask (ci_seats post))
        ''advance_round did not open the canonical reveal participant mask'',
      rbind (custody_sum 0 (map cs_bet (ci_seats pre))
          (Other ''advance_round seat-bet sum overflow'')) (\<lambda>collected.
        fail_if (checked_add (ci_pot pre) collected \<noteq> Some (ci_pot post))
          ''advance_round did not collect every seat bet into the pot''),
      fail_if (ci_current_bet post \<noteq> 0 \<or> ci_min_raise post \<noteq> 0)
        ''advance_round must clear the completed betting round'',
      fail_if (list_ex (\<lambda>(b, a). collection_changed b a) (zip (ci_seats pre) (ci_seats post)))
        ''advance_round changed a seat outside wager collection'',
      only_allowed_changes pre post None advance_round_frame])"

section \<open>Protocol submissions\<close>

definition submit_phase :: "transition_kind \<Rightarrow> canonical_phase res" where
  "submit_phase k =
     (if k = KSubmitShuffle then Inr CShuffling else if k = KSubmitReveal then Inr CRevealing
      else if k = KSubmitReconstruct then Inr CReconstructing
      else Inl (Panic ''only the three protocol submit tags reach this branch''))"

definition final_submission_opening :: "transition_witness \<Rightarrow> unit res" where
  "final_submission_opening w = (let pre = w_pre w; post = w_post w; op = w_protocol_completion w in
     if w_kind w = KSubmitReconstruct then validate_reconstruct_completion_opening pre post op
     else if w_kind w = KSubmitShuffle then validate_shuffle_completion_opening pre post op
     else if w_kind w = KSubmitReveal then
       (if pc_kind op = CompletionReveal then validate_reveal_completion_opening pre post op
        else if pc_kind op = CompletionRevealStreet then
          validate_reveal_street_completion_opening pre post op
        else if pc_kind op = CompletionShowdown then validate_showdown_completion_opening pre post op
        else Inl (Other ''final reveal submission requires a reveal-completion opening''))
     else Inl (Other ''final reveal submission requires the reveal-completion opening, whose betting-state turn rule is not enabled yet''))"

definition completion_frame :: "bool \<Rightarrow> canonical_state \<Rightarrow> canonical_state \<Rightarrow> canonical_state" where
  "completion_frame is_reveal expected actual =
     (let e = expected
        \<lparr>ci_call_seq := ci_call_seq actual, ci_phase := ci_phase actual,
         ci_phase_subtag := ci_phase_subtag actual, ci_deadline_ms := ci_deadline_ms actual,
         ci_protocol_pending_mask := ci_protocol_pending_mask actual,
         ci_deck_commitment := ci_deck_commitment actual,
         ci_reconstruction_commitment := ci_reconstruction_commitment actual\<rparr>
      in if is_reveal then e
        \<lparr>ci_reveal_commitment := ci_reveal_commitment actual,
         ci_board_cards_commitment := ci_board_cards_commitment actual,
         ci_current_turn := ci_current_turn actual, ci_current_bet := ci_current_bet actual,
         ci_min_raise := ci_min_raise actual, ci_acted_mask := ci_acted_mask actual,
         ci_last_bb_seat := ci_last_bb_seat actual, ci_seats := ci_seats actual\<rparr>
      else e)"

definition copy_hole_commitments :: "canonical_seat list \<Rightarrow> canonical_seat list \<Rightarrow> canonical_seat list" where
  "copy_hole_commitments expected actual =
     map (\<lambda>(e, a). e\<lparr>cs_hole_cards_commitment := cs_hole_cards_commitment a\<rparr>) (zip expected actual)"

definition submission_frame :: "transition_kind \<Rightarrow> canonical_state \<Rightarrow> canonical_state \<Rightarrow> canonical_state" where
  "submission_frame k expected actual =
     (let e = expected\<lparr>ci_call_seq := ci_call_seq actual,
                ci_protocol_pending_mask := ci_protocol_pending_mask actual\<rparr>
      in if k = KSubmitShuffle then e\<lparr>ci_deck_commitment := ci_deck_commitment actual\<rparr>
         else if k = KSubmitReveal then e
           \<lparr>ci_reveal_commitment := ci_reveal_commitment actual,
            ci_seats := copy_hole_commitments (ci_seats e) (ci_seats actual)\<rparr>
         else e\<lparr>ci_reconstruction_commitment := ci_reconstruction_commitment actual\<rparr>)"

definition relate_submit :: "transition_witness \<Rightarrow> unit res" where
  "relate_submit w = (let pre = w_pre w; post = w_post w; a = w_action w; i = ap_seat a;
      before = seat_image pre i; remaining = clear_bit (ci_protocol_pending_mask pre) i in checks
     [fail_if (ap_proof_commitment a = zero32) ''crypto transition is missing its proof commitment'',
      rbind (submit_phase (w_kind w)) (\<lambda>expected_phase.
        fail_if (ci_phase pre \<noteq> expected_phase) ''crypto transition is outside its protocol phase''),
      fail_if (ci_current_turn pre \<noteq> NO_CANONICAL_SEAT)
        ''protocol transition must use the no-seat turn sentinel'',
      fail_if (ap_amount a \<noteq> 0 \<or> ap_auxiliary a \<noteq> 0)
        ''protocol transition carries non-zero economic action fields'',
      fail_if (cs_status before = CSEmpty) ''crypto transition requires an occupied submitting seat'',
      fail_if (ci_protocol_pending_mask pre AND seat_mask_bit i = 0)
        ''crypto transition seat is not pending'',
      if remaining = 0 then checks
        [final_submission_opening w,
         only_allowed_changes pre post None (completion_frame (w_kind w = KSubmitReveal))]
      else checks
        [fail_if (w_protocol_completion w \<noteq> completion_default)
           ''non-final reconstruct submission carries a completion opening'',
         fail_if (ci_phase post \<noteq> ci_phase pre \<or> ci_phase_subtag post \<noteq> ci_phase_subtag pre
             \<or> ci_street post \<noteq> ci_street pre \<or> ci_deadline_ms post \<noteq> ci_deadline_ms pre
             \<or> ci_protocol_pending_mask post \<noteq> remaining
             \<or> ci_current_turn post \<noteq> NO_CANONICAL_SEAT)
           ''non-final protocol submission has an invalid progress transition'',
         only_allowed_changes pre post None (submission_frame (w_kind w))]])"

section \<open>The relation\<close>

fun relate_kind :: "transition_kind \<Rightarrow> transition_witness \<Rightarrow> unit res" where
  "relate_kind KCreateTable w = relate_create_table w"
| "relate_kind KJoinTable w = relate_join_table w"
| "relate_kind KLeaveTable w = relate_leave_table w"
| "relate_kind KStartHand w = relate_start_hand w"
| "relate_kind KAdvanceDeadline w = relate_advance_deadline w"
| "relate_kind KForceFold w = relate_force_fold w"
| "relate_kind KKickPlayer w = relate_kick_player w"
| "relate_kind KSubmitShuffle w = relate_submit w"
| "relate_kind KSubmitReveal w = relate_submit w"
| "relate_kind KSubmitReconstruct w = relate_submit w"
| "relate_kind KFold w = relate_betting w"
| "relate_kind KCheck w = relate_betting w"
| "relate_kind KCall w = relate_betting w"
| "relate_kind KRaise w = relate_betting w"
| "relate_kind KBet w = relate_betting w"
| "relate_kind KAddon w = relate_funding True w"
| "relate_kind KRebuy w = relate_funding False w"
| "relate_kind KSetLeaveAfterHand w = relate_set_leave_after_hand w"
| "relate_kind KFoldWithProof w = relate_fold_with_proof w"
| "relate_kind KAdvanceRound w = relate_advance_round w"
| "relate_kind KAutoFold w = relate_auto_fold w"
| "relate_kind KEndWithoutShowdown w = validate_terminal_without_showdown w"
| "relate_kind KResetOnly w = validate_reset_only w"
| "relate_kind KReconstructTimeoutReset w = validate_reconstruct_timeout_reset w"
| "relate_kind KRevealTimeoutReset w = validate_reveal_timeout_reset w"
| "relate_kind KRevealTimeoutKick w = validate_reveal_timeout_kick w"
| "relate_kind KRevealTimeoutReconstruct w = validate_reveal_timeout_reconstruct w"
| "relate_kind KRevealTimeoutAward w = validate_reveal_timeout_award w"
| "relate_kind KRevealTimeoutRakedAward w = validate_reveal_timeout_raked_award w"

definition validate_transition_relation :: "transition_witness \<Rightarrow> unit res" where
  "validate_transition_relation w = (let pre = w_pre w; post = w_post w in checks
     [fail_if (ci_rules_commitment pre \<noteq> ci_rules_commitment post
          \<or> ci_governance_commitment pre \<noteq> ci_governance_commitment post
          \<or> ci_settlement_commitment pre \<noteq> ci_settlement_commitment post)
        ''transition changed an immutable protocol commitment'',
      fail_if (w_kind w \<notin> {KSubmitReconstruct, KSubmitShuffle, KSubmitReveal}
          \<and> w_protocol_completion w \<noteq> completion_default)
        ''only submit_reconstruct/submit_shuffle/submit_reveal may carry a protocol completion opening'',
      fail_if (w_kind w \<noteq> KRevealTimeoutRakedAward \<and> w_rake_opening w \<noteq> RAKE_ZERO)
        ''only the raked award may carry a rake opening'',
      fail_if (w_kind w \<noteq> KAdvanceRound \<and> w_round_advance w \<noteq> round_advance_default)
        ''only advance_round may carry a board-reveal opening'',
      relate_kind (w_kind w) w])"

section \<open>Shape of a witness, and batches\<close>

definition proof_reserved :: "transition_kind \<Rightarrow> bool" where
  "proof_reserved k \<longleftrightarrow> \<not> carries_crypto_proof k \<and> k \<notin> {KEndWithoutShowdown, KResetOnly,
     KReconstructTimeoutReset, KRevealTimeoutReset, KRevealTimeoutKick, KRevealTimeoutReconstruct,
     KRevealTimeoutAward, KRevealTimeoutRakedAward}"

definition uses_deadline_height :: "transition_kind \<Rightarrow> bool" where
  "uses_deadline_height k \<longleftrightarrow> k \<in> {KAdvanceDeadline, KAutoFold, KReconstructTimeoutReset,
     KRevealTimeoutReset, KRevealTimeoutKick, KRevealTimeoutReconstruct, KRevealTimeoutAward,
     KRevealTimeoutRakedAward}"

definition uses_auxiliary :: "transition_kind \<Rightarrow> bool" where
  "uses_auxiliary k \<longleftrightarrow> k \<in> {KAdvanceDeadline, KEndWithoutShowdown, KReconstructTimeoutReset,
     KRevealTimeoutReset, KRevealTimeoutKick, KRevealTimeoutReconstruct}"

definition seatless :: "transition_kind \<Rightarrow> bool" where
  "seatless k \<longleftrightarrow> k \<in> {KCreateTable, KStartHand, KAdvanceRound, KResetOnly}"

definition amountless :: "transition_kind \<Rightarrow> bool" where
  "amountless k \<longleftrightarrow> k \<in> {KCreateTable, KStartHand, KForceFold, KSubmitShuffle, KSubmitReveal,
     KSubmitReconstruct, KFold, KCheck, KSetLeaveAfterHand, KFoldWithProof, KAdvanceRound,
     KAutoFold, KResetOnly}"

definition sequence_check :: "transition_witness \<Rightarrow> unit res" where
  "sequence_check w = (let pre = w_pre w; post = w_post w in
     if w_kind w = KStartHand then
       rbind (ok_or (checked_add_u32 (ci_hand_id pre) 1) (Other ''hand overflow'')) (\<lambda>hand.
         fail_if (ci_hand_id post \<noteq> hand \<or> ci_call_seq post \<noteq> 0)
           ''start-hand transition must increment hand and reset sequence'')
     else
       rbind (ok_or (checked_add_u32 (ci_call_seq pre) 1) (Other ''sequence overflow'')) (\<lambda>n.
         fail_if (ci_call_seq post \<noteq> n) ''transition sequence is not contiguous''))"

definition payload_checks :: "transition_witness \<Rightarrow> unit res" where
  "payload_checks w = (let k = w_kind w; a = w_action w in checks
     [if permissionless k then
        fail_if (w_actor w \<noteq> zero32) ''permissionless transition must have zero actor''
      else fail_if (w_actor w = zero32) ''actor transition must bind a non-zero actor'',
      fail_if (requires_seat k \<and> ci_max_players (w_pre w) \<le> ap_seat a)
        ''transition seat is outside table capacity'',
      fail_if (proof_reserved k \<and> ap_proof_commitment a \<noteq> zero32)
        ''non-crypto transition carries a reserved proof commitment'',
      fail_if (\<not> uses_deadline_height k \<and> w_deadline_height w \<noteq> 0)
        ''transition carries an unused consensus deadline height'',
      fail_if (\<not> uses_auxiliary k \<and> ap_auxiliary a \<noteq> 0)
        ''transition carries an unused auxiliary action field'',
      fail_if (k \<noteq> KSetLeaveAfterHand \<and> k \<noteq> KAdvanceDeadline \<and> ap_flag a)
        ''transition carries an unused action flag'',
      fail_if (seatless k \<and> ap_seat a \<noteq> NO_CANONICAL_SEAT)
        ''seatless transition does not use the canonical no-seat sentinel'',
      fail_if (amountless k \<and> ap_amount a \<noteq> 0) ''transition carries an unused action amount''])"

definition validate_shape :: "(bytes \<Rightarrow> bytes) \<Rightarrow> transition_witness \<Rightarrow> unit res" where
  "validate_shape blake w = checks
     [validate_state (w_pre w), validate_state (w_post w),
      fail_if (ci_table_id (w_pre w) \<noteq> ci_table_id (w_post w)) ''transition changes table scope'',
      fail_if (w_transition_commitment w = zero32 \<or> w_nullifier w = zero32)
        ''transition commitment and nullifier must be non-zero'',
      fail_if (w_transition_commitment w \<noteq> content_commitment blake w)
        ''transition commitment does not commit to the complete witness'',
      fail_if (w_nullifier w \<noteq> transition_nullifier blake w)
        ''nullifier is not domain-separated from the complete transition'',
      payload_checks w, sequence_check w, validate_transition_relation w]"

text \<open>The two loops of \<^verbatim>\<open>validate_batch\<close> after the witnesses have been checked one by one.\<close>

fun boundaries :: "(bytes \<Rightarrow> bytes) \<Rightarrow> transition_witness list \<Rightarrow> unit res" where
  "boundaries chain (v # w # ws) =
     rbind (fail_if (state_commitment chain (w_post v) \<noteq> state_commitment chain (w_pre w))
       ''canonical transition batch has a non-contiguous state boundary'')
       (\<lambda>_. boundaries chain (w # ws))"
| "boundaries chain ws = Inr ()"

fun batch_scope :: "nat \<Rightarrow> nat \<Rightarrow> transition_witness list \<Rightarrow> unit res" where
  "batch_scope table hand [] = Inr ()"
| "batch_scope table hand (w # ws) = checks
     [fail_if (ci_table_id (w_pre w) \<noteq> table) ''canonical transition batch changes table scope'',
      fail_if (ci_hand_id (w_pre w) \<noteq> hand)
        ''canonical transition batch changes hand without a contiguous start_hand'',
      batch_scope table (if w_kind w = KStartHand then ci_hand_id (w_post w) else hand) ws]"

definition validate_batch :: "(bytes \<Rightarrow> bytes) \<Rightarrow> (bytes \<Rightarrow> bytes) \<Rightarrow> transition_witness list \<Rightarrow> unit res" where
  "validate_batch blake chain ws =
     (case ws of
        [] \<Rightarrow> Inl (Other ''canonical transition batch must not be empty'')
      | w # _ \<Rightarrow> checks
          [checks (map (validate_shape blake) ws), boundaries chain ws,
           batch_scope (ci_table_id (w_pre w)) (ci_hand_id (w_pre w)) ws])"

definition validate_direct_batch ::
  "(bytes \<Rightarrow> bytes) \<Rightarrow> (bytes \<Rightarrow> bytes) \<Rightarrow> transition_witness list \<Rightarrow> unit res" where
  "validate_direct_batch blake chain ws = checks
     [validate_batch blake chain ws,
      fail_if (list_ex (\<lambda>w. carries_crypto_proof (w_kind w) \<and> w_kind w \<noteq> KSubmitShuffle
          \<and> w_kind w \<noteq> KSubmitReconstruct \<and> w_kind w \<noteq> KSubmitReveal) ws)
        ''canonical crypto transition is unavailable until its dedicated crypto AIR is composed'']"

end
