(* ===== verification/Canon_Custody.thy ===== *)
theory Canon_Custody
  imports Canon_Relation
begin

text \<open>
  What an accepted transition does to the custody balance. \<open>custody_delta\<close> is the
  specification: the chips that enter or leave the table with each selector family. The lemmas
  of the first section read single fields off the frame checks.
\<close>

section \<open>Reading a field off a frame check\<close>

lemma frame_field:
  assumes "only_allowed_changes pre post c allow = Inr u"
    and "\<And>s. f (without_roots s) = f s" and "\<And>s x. f (s\<lparr>ci_seats := x\<rparr>) = f s"
    and "\<And>e. f (allow e post) = f e"
  shows "f post = f pre"
proof (cases c)
  case None
  with assms(1) have "allow (without_roots pre) post = without_roots post"
    by (simp add: only_allowed_None)
  from arg_cong [OF this, of f] assms(2,4) show ?thesis by simp
next
  case (Some i)
  with assms(1) show ?thesis
    unfolding only_allowed_Some Let_def Some
    by (metis assms(2,3,4))
qed

text \<open>The instances the accounting and the later invariants use.\<close>

lemma frame_chip_pool:
  "only_allowed_changes pre post c allow = Inr u \<Longrightarrow>
   (\<And>e. ci_chip_pool (allow e post) = ci_chip_pool e) \<Longrightarrow> ci_chip_pool post = ci_chip_pool pre"
  by (rule frame_field [where f = ci_chip_pool], assumption) (simp_all add: without_roots_def)

lemma frame_street:
  "only_allowed_changes pre post c allow = Inr u \<Longrightarrow>
   (\<And>e. ci_street (allow e post) = ci_street e) \<Longrightarrow> ci_street post = ci_street pre"
  by (rule frame_field [where f = ci_street], assumption) (simp_all add: without_roots_def)

lemma frame_phase:
  "only_allowed_changes pre post c allow = Inr u \<Longrightarrow>
   (\<And>e. ci_phase (allow e post) = ci_phase e) \<Longrightarrow> ci_phase post = ci_phase pre"
  by (rule frame_field [where f = ci_phase], assumption) (simp_all add: without_roots_def)

lemma frame_pot:
  "only_allowed_changes pre post c allow = Inr u \<Longrightarrow>
   (\<And>e. ci_pot (allow e post) = ci_pot e) \<Longrightarrow> ci_pot post = ci_pot pre"
  by (rule frame_field [where f = ci_pot], assumption) (simp_all add: without_roots_def)

section \<open>The custody specification\<close>

definition custody_in :: "transition_witness \<Rightarrow> nat" where
  "custody_in w =
     (if w_kind w \<in> {KJoinTable, KAddon, KRebuy} then ap_amount (w_action w) else 0)"

definition custody_out :: "transition_witness \<Rightarrow> nat" where
  "custody_out w =
     (if w_kind w \<in> {KLeaveTable, KKickPlayer, KReconstructTimeoutReset, KRevealTimeoutReset,
          KRevealTimeoutKick, KRevealTimeoutReconstruct, KRevealTimeoutAward}
         \<or> w_kind w = KAdvanceDeadline \<and> ap_flag (w_action w)
      then ap_amount (w_action w)
      else if w_kind w = KRevealTimeoutRakedAward
      then ap_amount (w_action w) + canonical_settlement_rake (ci_pot (w_pre w)) (w_rake_opening w)
      else 0)"

lemma relate_frozen_pool:
  "relate_create_table w = Inr u \<Longrightarrow> ci_chip_pool (w_post w) = ci_chip_pool (w_pre w)"
  "relate_start_hand w = Inr u \<Longrightarrow> ci_chip_pool (w_post w) = ci_chip_pool (w_pre w)"
  "relate_set_leave_after_hand w = Inr u \<Longrightarrow> ci_chip_pool (w_post w) = ci_chip_pool (w_pre w)"
  "relate_time_bank w = Inr u \<Longrightarrow> ci_chip_pool (w_post w) = ci_chip_pool (w_pre w)"
  "relate_betting w = Inr u \<Longrightarrow> ci_chip_pool (w_post w) = ci_chip_pool (w_pre w)"
  "relate_auto_fold w = Inr u \<Longrightarrow> ci_chip_pool (w_post w) = ci_chip_pool (w_pre w)"
  "relate_force_fold w = Inr u \<Longrightarrow> ci_chip_pool (w_post w) = ci_chip_pool (w_pre w)"
  "relate_fold_with_proof w = Inr u \<Longrightarrow> ci_chip_pool (w_post w) = ci_chip_pool (w_pre w)"
  "relate_advance_round w = Inr u \<Longrightarrow> ci_chip_pool (w_post w) = ci_chip_pool (w_pre w)"
  unfolding relate_create_table_def relate_start_hand_def relate_set_leave_after_hand_def
    relate_time_bank_def relate_betting_def relate_auto_fold_def relate_force_fold_def
    relate_fold_with_proof_def relate_advance_round_def Let_def checks_Cons_iff
  by (elim conjE, rule frame_chip_pool, assumption,
      simp add: start_hand_frame_def time_bank_frame_def betting_frame_def auto_fold_frame_def
        advance_round_frame_def)+

lemma reset_projection_frame:
  "validate_simple_reset_projection pre post winner award = Inr u \<Longrightarrow>
   ci_chip_pool post = ci_chip_pool pre"
  unfolding validate_simple_reset_projection_def checks_Cons_iff
  by (elim conjE, rule frame_chip_pool, assumption) (simp add: reset_frame_def)

lemma relate_submit_frame:
  assumes "relate_submit w = Inr u"
  shows "clear_bit (ci_protocol_pending_mask (w_pre w)) (ap_seat (w_action w)) = 0 \<and>
           final_submission_opening w = Inr () \<and>
           only_allowed_changes (w_pre w) (w_post w) None (completion_frame (w_kind w = KSubmitReveal)) = Inr ()
         \<or> only_allowed_changes (w_pre w) (w_post w) None (submission_frame (w_kind w)) = Inr ()"
  using assms unfolding relate_submit_def Let_def checks_Cons_iff by (simp split: if_splits)

lemma relate_submit_pool:
  assumes "relate_submit w = Inr u"
  shows "ci_chip_pool (w_post w) = ci_chip_pool (w_pre w)"
  using relate_submit_frame [OF assms]
proof (elim disjE conjE)
  assume "only_allowed_changes (w_pre w) (w_post w) None (completion_frame (w_kind w = KSubmitReveal)) = Inr ()"
  then show ?thesis by (rule frame_chip_pool) (simp add: completion_frame_def Let_def)
next
  assume "only_allowed_changes (w_pre w) (w_post w) None (submission_frame (w_kind w)) = Inr ()"
  then show ?thesis by (rule frame_chip_pool) (simp add: submission_frame_def Let_def)
qed

lemma relate_credit_pool:
  "relate_join_table w = Inr u \<Longrightarrow>
     ci_chip_pool (w_post w) = ci_chip_pool (w_pre w) + ap_amount (w_action w)"
  "relate_funding b w = Inr u \<Longrightarrow>
     ci_chip_pool (w_post w) = ci_chip_pool (w_pre w) + ap_amount (w_action w)"
  unfolding relate_join_table_def relate_funding_def Let_def checks_Cons_iff
  by (auto simp: result_simps)

text \<open>A refund leaves the custody balance in full, and it was there.\<close>

lemma relate_debit_pool:
  "relate_leave_table w = Inr u \<Longrightarrow>
     ci_chip_pool (w_post w) + ap_amount (w_action w) = ci_chip_pool (w_pre w)"
  "relate_kick_player w = Inr u \<Longrightarrow>
     ci_chip_pool (w_post w) + ap_amount (w_action w) = ci_chip_pool (w_pre w)"
  "relate_shuffle_timeout w = Inr u \<Longrightarrow>
     ci_chip_pool (w_post w) + ap_amount (w_action w) = ci_chip_pool (w_pre w)"
  "validate_reveal_timeout_kick w = Inr u \<Longrightarrow>
     ci_chip_pool (w_post w) + ap_amount (w_action w) = ci_chip_pool (w_pre w)"
  "validate_reveal_timeout_reconstruct w = Inr u \<Longrightarrow>
     ci_chip_pool (w_post w) + ap_amount (w_action w) = ci_chip_pool (w_pre w)"
  unfolding relate_leave_table_def relate_kick_player_def relate_shuffle_timeout_def
    validate_reveal_timeout_kick_def validate_reveal_timeout_reconstruct_def Let_def checks_Cons_iff
  by (auto simp: result_simps)

lemma timeout_reset_pool:
  "validate_reconstruct_timeout_reset w = Inr u \<Longrightarrow>
     ci_chip_pool (w_post w) + ap_amount (w_action w) = ci_chip_pool (w_pre w)"
  "validate_reveal_timeout_reset w = Inr u \<Longrightarrow>
     ci_chip_pool (w_post w) + ap_amount (w_action w) = ci_chip_pool (w_pre w)"
  unfolding validate_reconstruct_timeout_reset_def validate_reveal_timeout_reset_def
    timeout_endpoint_checks_def Let_def checks_Cons_iff
  by (auto simp: result_simps)

lemma award_pool:
  "validate_reveal_timeout_award w = Inr u \<Longrightarrow>
     ci_chip_pool (w_post w) + ap_amount (w_action w) = ci_chip_pool (w_pre w)"
  unfolding validate_reveal_timeout_award_def Let_def checks_Cons_iff
  by (auto simp: result_simps)

lemma terminal_pool:
  "validate_terminal_without_showdown w = Inr u \<Longrightarrow> ci_chip_pool (w_post w) = ci_chip_pool (w_pre w)"
  "validate_reset_only w = Inr u \<Longrightarrow> ci_chip_pool (w_post w) = ci_chip_pool (w_pre w)"
  unfolding validate_terminal_without_showdown_def validate_reset_only_def Let_def checks_Cons_iff
  by (auto simp: result_simps)

text \<open>The raked row is the zero-rake row with the rake taken out of the credit and the pool.\<close>

lemma raked_awardE:
  assumes "validate_reveal_timeout_raked_award w = Inr u"
  obtains winner pool rake where
    "winner_of w = Inr winner"
    "rake = canonical_settlement_rake (ci_pot (w_pre w)) (w_rake_opening w)"
    "validate_reveal_timeout_award (adjusted_award w winner pool) = Inr ()"
    "ci_chip_pool (w_post w) + rake = pool"
    "cs_stack (ci_seats (w_post w) ! winner) + rake
       = cs_stack (ci_seats (w_post (adjusted_award w winner pool)) ! winner)"
  using assms unfolding validate_reveal_timeout_raked_award_def Let_def
  by (auto simp: result_simps adjusted_award_def Let_def intro: that)

lemma raked_award_pool:
  assumes "validate_reveal_timeout_raked_award w = Inr u"
  shows "ci_chip_pool (w_post w) + (ap_amount (w_action w)
           + canonical_settlement_rake (ci_pot (w_pre w)) (w_rake_opening w)) = ci_chip_pool (w_pre w)"
proof -
  from assms obtain winner pool rake where
    "rake = canonical_settlement_rake (ci_pot (w_pre w)) (w_rake_opening w)"
    "validate_reveal_timeout_award (adjusted_award w winner pool) = Inr ()"
    "ci_chip_pool (w_post w) + rake = pool" by (rule raked_awardE)
  moreover from award_pool [OF this(2)] have "pool + ap_amount (w_action w) = ci_chip_pool (w_pre w)"
    by (simp add: adjusted_award_def Let_def)
  ultimately show ?thesis by simp
qed

lemma advance_deadline_pool:
  "relate_advance_deadline w = Inr u \<Longrightarrow> ap_flag (w_action w) \<Longrightarrow>
   ci_chip_pool (w_post w) + ap_amount (w_action w) = ci_chip_pool (w_pre w)"
  "relate_advance_deadline w = Inr u \<Longrightarrow> \<not> ap_flag (w_action w) \<Longrightarrow>
   ci_chip_pool (w_post w) = ci_chip_pool (w_pre w)"
  unfolding relate_advance_deadline_def checks_Cons_iff
  by (auto simp: relate_frozen_pool relate_debit_pool)

lemma relate_kind_pool:
  "relate_kind (w_kind w) w = Inr u \<Longrightarrow>
   ci_chip_pool (w_post w) + custody_out w = ci_chip_pool (w_pre w) + custody_in w"
  by (cases "w_kind w")
    (simp_all add: custody_in_def custody_out_def relate_frozen_pool relate_credit_pool
      relate_debit_pool timeout_reset_pool award_pool raked_award_pool terminal_pool
      relate_submit_pool advance_deadline_pool)

lemma shapeD:
  assumes "validate_shape blake w = Inr u"
  shows "validate_state (w_pre w) = Inr ()" "validate_state (w_post w) = Inr ()"
    "ci_table_id (w_post w) = ci_table_id (w_pre w)"
    "w_transition_commitment w = content_commitment blake w"
    "w_nullifier w = transition_nullifier blake w"
    "payload_checks w = Inr ()" "sequence_check w = Inr ()"
    "validate_transition_relation w = Inr ()"
  using assms unfolding validate_shape_def checks_Cons_iff by simp_all

lemma relationD:
  assumes "validate_transition_relation w = Inr u"
  shows "ci_rules_commitment (w_post w) = ci_rules_commitment (w_pre w)"
    "ci_governance_commitment (w_post w) = ci_governance_commitment (w_pre w)"
    "ci_settlement_commitment (w_post w) = ci_settlement_commitment (w_pre w)"
    "relate_kind (w_kind w) w = Inr ()"
  using assms unfolding validate_transition_relation_def Let_def checks_Cons_iff by simp_all

lemma shape_pool:
  "validate_shape blake w = Inr u \<Longrightarrow>
   ci_chip_pool (w_post w) + custody_out w = ci_chip_pool (w_pre w) + custody_in w"
  by (rule relate_kind_pool) (rule relationD(4) [OF shapeD(8)])

section \<open>Chains of witnesses\<close>

text \<open>A chain in which every endpoint is the next starting image.\<close>

fun chained :: "canonical_state \<Rightarrow> transition_witness list \<Rightarrow> canonical_state \<Rightarrow> bool" where
  "chained st [] st' \<longleftrightarrow> st = st'"
| "chained st (w # ws) st' \<longleftrightarrow> st = w_pre w \<and> chained (w_post w) ws st'"

definition witness_states :: "transition_witness list \<Rightarrow> canonical_state set" where
  "witness_states ws = w_pre ` set ws \<union> w_post ` set ws"

text \<open>What every accepted row keeps holds at every endpoint of a chain of accepted rows.\<close>

locale row_invariant =
  fixes accepted :: "transition_witness \<Rightarrow> bool" and inv :: "canonical_state \<Rightarrow> bool"
  assumes step: "accepted w \<Longrightarrow> inv (w_pre w) \<Longrightarrow> inv (w_post w)"
begin

lemma along_chain:
  "chained st ws st' \<Longrightarrow> inv st \<Longrightarrow> (\<And>w. w \<in> set ws \<Longrightarrow> accepted w) \<Longrightarrow> x \<in> witness_states ws \<Longrightarrow> inv x"
proof (induction ws arbitrary: st)
  case Nil
  then show ?case by (simp add: witness_states_def)
next
  case (Cons w ws)
  have w: "inv (w_pre w)" "inv (w_post w)" using Cons.prems(1-3) step [of w] by auto
  show ?case
  proof (cases "x \<in> witness_states ws")
    case True
    with Cons w(2) show ?thesis by auto
  next
    case False
    with Cons.prems(4) w show ?thesis by (auto simp: witness_states_def)
  qed
qed

end

text \<open>
  The images of a batch are well typed and the chain digest has no collision among their
  preimages.
\<close>

definition collision_free :: "(bytes \<Rightarrow> bytes) \<Rightarrow> canonical_state set \<Rightarrow> bool" where
  "collision_free chain S \<longleftrightarrow> (\<forall>st\<in>S. typed_state st)
     \<and> inj_on chain ((\<lambda>st. CANONICAL_STATE_DOMAIN @ state_bytes st) ` S)"

lemma commitment_inj:
  assumes "collision_free chain S" "st \<in> S" "st' \<in> S"
    and "state_commitment chain st = state_commitment chain st'"
  shows "st = st'"
  using assms by (auto simp: collision_free_def state_commitment_def dest!: inj_onD intro: state_bytes_inj)

lemma boundaries_chained:
  assumes "collision_free chain (witness_states ws)" "boundaries chain ws = Inr u" "ws \<noteq> []"
  shows "chained (w_pre (hd ws)) ws (w_post (last ws))"
  using assms
proof (induction chain ws rule: boundaries.induct)
  case (1 chain v w ws)
  then have "state_commitment chain (w_post v) = state_commitment chain (w_pre w)" by auto
  with 1 have "w_post v = w_pre w"
    by (auto intro!: commitment_inj [OF 1(2)] simp: witness_states_def)
  moreover have "collision_free chain (witness_states (w # ws))"
    using 1(2) by (auto simp: collision_free_def witness_states_def intro: inj_on_subset)
  ultimately show ?case using 1 by auto
qed auto

lemma batchD:
  assumes "validate_batch blake chain ws = Inr u"
  shows "ws \<noteq> []" "w \<in> set ws \<Longrightarrow> validate_shape blake w = Inr ()" "boundaries chain ws = Inr ()"
    "batch_scope (ci_table_id (w_pre (hd ws))) (ci_hand_id (w_pre (hd ws))) ws = Inr ()"
  using assms by (auto simp: validate_batch_def checks_Inr_iff split: list.splits)

lemma chained_pool:
  assumes "chained st ws st'" "\<And>w. w \<in> set ws \<Longrightarrow> validate_shape blake w = Inr ()"
  shows "ci_chip_pool st' + sum_list (map custody_out ws) = ci_chip_pool st + sum_list (map custody_in ws)"
  using assms
proof (induction ws arbitrary: st)
  case Nil
  then show ?case by simp
next
  case (Cons w ws)
  then have "ci_chip_pool st' + sum_list (map custody_out ws)
      = ci_chip_pool (w_post w) + sum_list (map custody_in ws)" by auto
  moreover have "ci_chip_pool (w_post w) + custody_out w = ci_chip_pool st + custody_in w"
    using shape_pool [of blake w "()"] Cons.prems by auto
  ultimately show ?case by simp
qed

end
