(* ===== verification/Canon_Lifecycle.thy ===== *)
theory Canon_Lifecycle
  imports Canon_Custody
begin

text \<open>
  The lifecycle of hands in accepted batches: what a chain of witnesses keeps from row to row,
  and an invariant of every hand that begins with \<open>KStartHand\<close>.
\<close>

section \<open>A hand that starts at street 0\<close>

definition before_preflop :: "canonical_state \<Rightarrow> bool" where
  "before_preflop st \<longleftrightarrow> ci_street st = 0 \<and> ci_phase st \<in> {CWaiting, CShuffling, CRevealing}"

text \<open>Rows that keep phase and street.\<close>

lemma relate_same_phase:
  "relate_create_table w = Inr u \<Longrightarrow> ci_phase (w_post w) = ci_phase (w_pre w)"
  "relate_join_table w = Inr u \<Longrightarrow> ci_phase (w_post w) = ci_phase (w_pre w)"
  "relate_leave_table w = Inr u \<Longrightarrow> ci_phase (w_post w) = ci_phase (w_pre w)"
  "relate_kick_player w = Inr u \<Longrightarrow> ci_phase (w_post w) = ci_phase (w_pre w)"
  "relate_set_leave_after_hand w = Inr u \<Longrightarrow> ci_phase (w_post w) = ci_phase (w_pre w)"
  "relate_funding b w = Inr u \<Longrightarrow> ci_phase (w_post w) = ci_phase (w_pre w)"
  "relate_shuffle_timeout w = Inr u \<Longrightarrow> ci_phase (w_post w) = ci_phase (w_pre w)"
  "relate_time_bank w = Inr u \<Longrightarrow> ci_phase (w_post w) = ci_phase (w_pre w)"
  unfolding relate_create_table_def relate_join_table_def relate_leave_table_def
    relate_kick_player_def relate_set_leave_after_hand_def relate_funding_def
    relate_shuffle_timeout_def relate_time_bank_def Let_def checks_Cons_iff rbind_unit_Inr_iff
    rbind_Inr_iff
  by ((elim conjE exE, rule frame_phase, assumption,
      simp add: custody_frame_def shuffle_timeout_frame_def time_bank_frame_def)+)

lemma relate_same_street:
  "relate_create_table w = Inr u \<Longrightarrow> ci_street (w_post w) = ci_street (w_pre w)"
  "relate_join_table w = Inr u \<Longrightarrow> ci_street (w_post w) = ci_street (w_pre w)"
  "relate_leave_table w = Inr u \<Longrightarrow> ci_street (w_post w) = ci_street (w_pre w)"
  "relate_kick_player w = Inr u \<Longrightarrow> ci_street (w_post w) = ci_street (w_pre w)"
  "relate_set_leave_after_hand w = Inr u \<Longrightarrow> ci_street (w_post w) = ci_street (w_pre w)"
  "relate_funding b w = Inr u \<Longrightarrow> ci_street (w_post w) = ci_street (w_pre w)"
  "relate_shuffle_timeout w = Inr u \<Longrightarrow> ci_street (w_post w) = ci_street (w_pre w)"
  "relate_time_bank w = Inr u \<Longrightarrow> ci_street (w_post w) = ci_street (w_pre w)"
  unfolding relate_create_table_def relate_join_table_def relate_leave_table_def
    relate_kick_player_def relate_set_leave_after_hand_def relate_funding_def
    relate_shuffle_timeout_def relate_time_bank_def Let_def checks_Cons_iff rbind_unit_Inr_iff
    rbind_Inr_iff
  by ((elim conjE exE, rule frame_street, assumption,
      simp add: custody_frame_def shuffle_timeout_frame_def time_bank_frame_def)+)

text \<open>Rows that need a later street or the betting phase.\<close>

lemma relate_betting_phase:
  "relate_betting w = Inr u \<Longrightarrow> ci_phase (w_pre w) = CBetting"
  "relate_auto_fold w = Inr u \<Longrightarrow> ci_phase (w_pre w) = CBetting"
  "relate_force_fold w = Inr u \<Longrightarrow> ci_phase (w_pre w) = CBetting"
  "relate_fold_with_proof w = Inr u \<Longrightarrow> ci_phase (w_pre w) = CBetting"
  "relate_advance_round w = Inr u \<Longrightarrow> ci_phase (w_pre w) = CBetting"
  "validate_terminal_without_showdown w = Inr u \<Longrightarrow> ci_phase (w_pre w) = CBetting"
  unfolding relate_betting_def relate_auto_fold_def relate_force_fold_def
    relate_fold_with_proof_def relate_advance_round_def validate_terminal_without_showdown_def
    Let_def checks_Cons_iff
  by simp_all

lemma relate_later_street:
  "validate_reveal_timeout_kick w = Inr u \<Longrightarrow> 0 < ci_street (w_pre w)"
  "validate_reveal_timeout_reconstruct w = Inr u \<Longrightarrow> 0 < ci_street (w_pre w)"
  "validate_reveal_timeout_award w = Inr u \<Longrightarrow> 0 < ci_street (w_pre w)"
  "validate_reveal_timeout_reset w = Inr u \<Longrightarrow> 0 < ci_street (w_pre w)"
  "validate_reconstruct_timeout_reset w = Inr u \<Longrightarrow> 0 < ci_street (w_pre w)"
  unfolding validate_reveal_timeout_kick_def validate_reveal_timeout_reconstruct_def
    validate_reveal_timeout_award_def validate_reveal_timeout_reset_def
    validate_reconstruct_timeout_reset_def Let_def checks_Cons_iff
  by auto

lemma raked_later_street:
  assumes "validate_reveal_timeout_raked_award w = Inr u"
  shows "0 < ci_street (w_pre w)"
proof -
  from assms obtain winner pool where
    "validate_reveal_timeout_award (adjusted_award w winner pool) = Inr ()" by (rule raked_awardE)
  from relate_later_street(3) [OF this] show ?thesis by (simp add: adjusted_award_def Let_def)
qed

lemma reset_only_waiting:
  "validate_reset_only w = Inr u \<Longrightarrow> ci_phase (w_post w) = CWaiting \<and> ci_street (w_post w) = 0"
  unfolding validate_reset_only_def validate_simple_reset_projection_def cleared_header_def
    Let_def checks_Cons_iff
  by simp

lemma start_hand_street:
  "relate_start_hand w = Inr u \<Longrightarrow> ci_phase (w_post w) = CShuffling \<and> ci_street (w_post w) = 0"
  unfolding relate_start_hand_def Let_def checks_Cons_iff by simp


lemma final_submission_street:
  assumes "final_submission_opening w = Inr u" "ci_street (w_pre w) = 0"
  shows "w_kind w = KSubmitReconstruct
         \<or> w_kind w = KSubmitShuffle \<and> ci_phase (w_post w) = CRevealing \<and> ci_street (w_post w) = 0"
proof -
  consider "w_kind w = KSubmitReconstruct"
    | "w_kind w = KSubmitShuffle"
        "validate_shuffle_completion_opening (w_pre w) (w_post w) (w_protocol_completion w) = Inr ()"
    | "reveal_header_checks (w_pre w) (w_post w) (w_protocol_completion w) = Inr ()"
    | "validate_reveal_street_completion_opening (w_pre w) (w_post w) (w_protocol_completion w) = Inr ()"
    | "validate_showdown_completion_opening (w_pre w) (w_post w) (w_protocol_completion w) = Inr ()"
    using assms(1)
    by (auto simp: final_submission_opening_def validate_reveal_completion_opening_def Let_def split: if_splits)
  then show ?thesis
  proof cases
    case 1
    then show ?thesis by simp
  next
    case 2
    then show ?thesis
      using assms(2) unfolding validate_shuffle_completion_opening_def Let_def checks_Cons_iff
      by (auto simp: result_simps)
  next
    case 3
    then show ?thesis
      using assms(2) unfolding reveal_header_checks_def Let_def checks_Cons_iff by simp
  next
    case 4
    then show ?thesis
      using assms(2) unfolding validate_reveal_street_completion_opening_def Let_def checks_Cons_iff by simp
  next
    case 5
    then show ?thesis
      using assms(2) unfolding validate_showdown_completion_opening_def Let_def checks_Cons_iff by simp
  qed
qed

lemma submit_pre_phase:
  "relate_submit w = Inr u \<Longrightarrow> w_kind w = KSubmitReconstruct \<Longrightarrow> ci_phase (w_pre w) = CReconstructing"
  unfolding relate_submit_def Let_def checks_Cons_iff by (simp add: submit_phase_def)

lemma submit_before_preflop:
  assumes "relate_submit w = Inr u" "before_preflop (w_pre w)"
  shows "before_preflop (w_post w)"
  using relate_submit_frame [OF assms(1)]
proof (elim disjE conjE)
  assume "final_submission_opening w = Inr ()"
  from final_submission_street [OF this] assms submit_pre_phase [OF assms(1)] show ?thesis
    by (auto simp: before_preflop_def)
next
  assume *: "only_allowed_changes (w_pre w) (w_post w) None (submission_frame (w_kind w)) = Inr ()"
  have "ci_phase (w_post w) = ci_phase (w_pre w)"
    by (rule frame_phase [OF *]) (simp add: submission_frame_def Let_def)
  moreover have "ci_street (w_post w) = ci_street (w_pre w)"
    by (rule frame_street [OF *]) (simp add: submission_frame_def Let_def)
  ultimately show ?thesis using assms(2) by (simp add: before_preflop_def)
qed

text \<open>No selector family leaves the part of the lifecycle before the flop deal.\<close>

lemma relate_before_preflop:
  assumes "relate_kind (w_kind w) w = Inr u" "before_preflop (w_pre w)"
  shows "before_preflop (w_post w)"
proof (cases "ci_phase (w_post w) = ci_phase (w_pre w) \<and> ci_street (w_post w) = ci_street (w_pre w)")
  case True
  with assms(2) show ?thesis by (simp add: before_preflop_def)
next
  case changed: False
  have pre: "ci_street (w_pre w) = 0" "ci_phase (w_pre w) \<noteq> CBetting"
    using assms(2) by (auto simp: before_preflop_def)
  show ?thesis
  proof (cases "w_kind w \<in> {KSubmitShuffle, KSubmitReveal, KSubmitReconstruct}")
    case True
    with assms show ?thesis by (auto intro: submit_before_preflop)
  next
    case False
    with assms(1) pre changed show ?thesis
      by (cases "w_kind w")
        (auto simp: relate_same_phase relate_same_street relate_advance_deadline_def before_preflop_def
          split: if_splits
          dest: relate_betting_phase relate_later_street raked_later_street reset_only_waiting start_hand_street)
  qed
qed

interpretation preflop: row_invariant "\<lambda>w. validate_shape blake w = Inr ()" before_preflop for blake
proof unfold_locales
  fix w assume "validate_shape blake w = Inr ()" "before_preflop (w_pre w)"
  then show "before_preflop (w_post w)"
    by (blast intro: relate_before_preflop relationD(4) shapeD(8))
qed

end
