(* ===== verification/Canon_Demo.thy ===== *)
theory Canon_Demo
  imports Canon_Lifecycle
begin

text \<open>Concrete images and witnesses of the canonical relation, for the witnesses of its properties.\<close>

definition one32 :: bytes where "one32 = replicate 32 1"

text \<open>A digest with one value: enough to seal a single row.\<close>

definition flat_digest :: "bytes \<Rightarrow> bytes" where "flat_digest bs = one32"

definition demo_image_seat :: "canonical_seat_status \<Rightarrow> bool \<Rightarrow> nat \<Rightarrow> nat \<Rightarrow> canonical_seat" where
  "demo_image_seat st acted stack bet = \<lparr>cs_status = st, cs_acted = acted, cs_stack = stack,
     cs_bet = bet, cs_total_bet = bet, cs_pending_addon = 0, cs_time_bank_ms = 30000,
     cs_identity_commitment = one32, cs_key_commitment = one32, cs_hole_cards_commitment = one32\<rparr>"

definition demo_seats :: "canonical_seat \<Rightarrow> canonical_seat \<Rightarrow> canonical_seat \<Rightarrow> canonical_seat list" where
  "demo_seats a b c = [a, b, c, EMPTY_SEAT, EMPTY_SEAT, EMPTY_SEAT, EMPTY_SEAT, EMPTY_SEAT, EMPTY_SEAT]"

text \<open>Three players before the flop, blinds 100 and 200, the third to act.\<close>

definition demo_image :: canonical_state where
  "demo_image = \<lparr>ci_abi_version = 7, ci_table_id = 5, ci_hand_id = 1, ci_call_seq = 10,
     ci_phase = CBetting, ci_phase_subtag = 1, ci_street = 1, ci_current_turn = 2,
     ci_deadline_ms = 1000, ci_shuffle_timeout_ms = 500, ci_reveal_timeout_ms = 500,
     ci_betting_timeout_ms = 500, ci_reconstruct_timeout_ms = 500, ci_showdown_display_ms = 500,
     ci_current_bet = 200, ci_min_raise = 200, ci_chip_pool = 3000, ci_pot = 0, ci_button = 2,
     ci_last_bb_seat = 1, ci_max_players = 3, ci_acted_mask = 0, ci_leave_after_hand_mask = 0,
     ci_protocol_pending_mask = 0, ci_board_cards_commitment = zero32, ci_deck_commitment = one32,
     ci_reveal_commitment = one32, ci_reconstruction_commitment = zero32,
     ci_run_it_twice_commitment = zero32, ci_rules_commitment = one32,
     ci_governance_commitment = one32, ci_settlement_commitment = one32,
     ci_custody_commitment = one32, ci_lifecycle_root = one32, ci_overlay_root = one32,
     ci_state_root = one32,
     ci_seats = demo_seats (demo_image_seat CSActive False 900 100) (demo_image_seat CSActive False 800 200)
       (demo_image_seat CSActive False 1000 0)\<rparr>"

definition demo_action :: "nat \<Rightarrow> nat \<Rightarrow> action_payload" where
  "demo_action seat amount = \<lparr>ap_seat = seat, ap_amount = amount, ap_auxiliary = 0,
     ap_flag = False, ap_proof_commitment = zero32\<rparr>"

definition demo_row :: "canonical_state \<Rightarrow> canonical_state \<Rightarrow> transition_kind \<Rightarrow> action_payload
    \<Rightarrow> bytes \<Rightarrow> nat \<Rightarrow> transition_witness" where
  "demo_row pre post k a actor height = \<lparr>w_pre = pre, w_post = post\<lparr>ci_call_seq :=
        (if k = KStartHand then 0 else ci_call_seq pre + 1)\<rparr>,
     w_kind = k, w_actor = actor, w_action = a, w_round_advance = round_advance_default,
     w_protocol_completion = completion_default, w_rake_opening = RAKE_ZERO,
     w_blind_opening = BLIND_ZERO, w_transition_commitment = one32, w_nullifier = one32,
     w_deadline_height = height\<rparr>"

definition demo_raise :: transition_witness where
  "demo_raise = demo_row demo_image
     (demo_image\<lparr>ci_current_turn := 0, ci_current_bet := 500, ci_min_raise := 300,
        ci_acted_mask := 4,
        ci_seats := (ci_seats demo_image)[2 := demo_image_seat CSActive True 500 500]\<rparr>)
     KRaise (demo_action 2 500) one32 0"

lemma flat_commitments [simp]:
  "content_commitment flat_digest w = one32" "transition_nullifier flat_digest w = one32"
  by (simp_all add: content_commitment_def witness_digest_def transition_nullifier_def flat_digest_def)

lemma one32_nonzero [simp]: "one32 \<noteq> zero32" "zero32 \<noteq> one32"
  by (simp_all add: one32_def zero32_def)

lemma demo_row_shape:
  assumes "w = demo_row pre post k a actor height"
    and "validate_state (w_pre w) = Inr ()" "validate_state (w_post w) = Inr ()"
    and "ci_table_id (w_pre w) = ci_table_id (w_post w)" "payload_checks w = Inr ()"
    and "sequence_check w = Inr ()" "validate_transition_relation w = Inr ()"
  shows "validate_shape flat_digest w = Inr ()"
  using assms(2-) by (simp add: validate_shape_def assms(1)) (simp add: demo_row_def)

lemma seats9: "[0..<9] = [0, 1, 2, 3, 4, 5, 6, 7, 8 :: nat]"
  by (simp add: upt_rec)

lemmas demo_simps = demo_row_def demo_action_def demo_image_def demo_seats_def demo_image_seat_def

lemmas state_eval = validate_state_def seat_domain_check_def non_zero_check_def
  image_seat_checks_def validate_seat_def accounted_chips_def accounted_step_def checked_add_def
  image_seat_mask_def canonical_occupancy_def seat_mask_bit_def EMPTY_SEAT_def seats9
  CANONICAL_ABI_VERSION_def MAX_CANONICAL_SEATS_def NO_CANONICAL_SEAT_def nth_Cons'

lemma demo_image_ok: "validate_state demo_image = Inr ()"
  by (simp add: demo_simps state_eval)

lemmas payload_eval = payload_checks_def sequence_check_def permissionless_def requires_seat_def
  proof_reserved_def carries_crypto_proof_def uses_deadline_height_def uses_auxiliary_def
  seatless_def amountless_def checked_add_u32_def MAX_CANONICAL_SEATS_def NO_CANONICAL_SEAT_def

lemmas row_eval = validate_transition_relation_def seat_image_def seat_option_def seat_bit_def
  seat_mask_bit_def seat_material_changed_def seat_funds_changed_def only_allowed_changes_def
  same_except_def without_roots_def EMPTY_SEAT_def seats9 nth_Cons' checked_add_def
  checked_sub_def MAX_CANONICAL_SEATS_def NO_CANONICAL_SEAT_def u64_add_def Let_def upt_rec

lemmas betting_eval = relate_betting_def relate_betting_seat_def relate_fold_seat_def
  relate_check_seat_def relate_call_seat_def relate_raise_seat_def relate_bet_seat_def
  bet_lifecycle_def expected_betting_successor_def expected_acted_def raise_reopens_def
  saturating_sub_def betting_frame_def copy_acted_def

lemma demo_raise_ok: "validate_shape flat_digest demo_raise = Inr ()"
proof (rule demo_row_shape [OF demo_raise_def])
  show "validate_state (w_pre demo_raise) = Inr ()"
    by (simp add: demo_raise_def demo_row_def demo_image_ok)
  show "validate_state (w_post demo_raise) = Inr ()"
    by (simp add: demo_raise_def demo_simps state_eval)
  show "ci_table_id (w_pre demo_raise) = ci_table_id (w_post demo_raise)"
    by (simp add: demo_raise_def demo_simps)
  show "payload_checks demo_raise = Inr ()"
    by (simp add: demo_raise_def demo_simps payload_eval)
  show "sequence_check demo_raise = Inr ()"
    by (simp add: demo_raise_def demo_simps payload_eval)
  show "validate_transition_relation demo_raise = Inr ()"
    by (simp add: demo_raise_def demo_simps row_eval betting_eval)
qed

end
