(* ===== verification/Canon_Batches.thy ===== *)
theory Canon_Batches
  imports Canon_Demo
begin

text \<open>
  Properties of accepted canonical transitions and batches. Their witnesses apply them to the
  concrete rows of \<open>Canon_Demo\<close> and of this theory.
\<close>

section \<open>A batch of two rows\<close>

definition demo_waiting :: canonical_state where
  "demo_waiting = demo_image
     \<lparr>ci_phase := CWaiting, ci_phase_subtag := 0, ci_street := 0, ci_current_turn := 15,
      ci_deadline_ms := 0, ci_current_bet := 0, ci_min_raise := 0,
      ci_seats := demo_seats (demo_image_seat CSActive False 1000 0) (demo_image_seat CSActive False 1000 0)
        (demo_image_seat CSWaiting False 1000 0)\<rparr>"

definition demo_start :: transition_witness where
  "demo_start = demo_row demo_waiting
     (demo_waiting\<lparr>ci_phase := CShuffling, ci_phase_subtag := 1, ci_deadline_ms := 5000,
        ci_hand_id := 2, ci_button := 0, ci_protocol_pending_mask := 7,
        ci_seats := demo_seats (demo_image_seat CSActive False 1000 0) (demo_image_seat CSActive False 1000 0)
          (demo_image_seat CSActive False 1000 0)\<rparr>)
     KStartHand (demo_action 15 0) one32 0"

definition demo_leaving :: transition_witness where
  "demo_leaving = demo_row (w_post demo_start)
     ((w_post demo_start)\<lparr>ci_leave_after_hand_mask := 2\<rparr>)
     KSetLeaveAfterHand ((demo_action 1 0)\<lparr>ap_flag := True\<rparr>) one32 0"

lemma demo_start_ok: "validate_shape flat_digest demo_start = Inr ()"
proof (rule demo_row_shape [OF demo_start_def])
  show "validate_state (w_pre demo_start) = Inr ()"
    by (simp add: demo_start_def demo_waiting_def demo_simps state_eval)
  show "validate_state (w_post demo_start) = Inr ()"
    by (simp add: demo_start_def demo_waiting_def demo_simps state_eval)
  show "ci_table_id (w_pre demo_start) = ci_table_id (w_post demo_start)"
    by (simp add: demo_start_def demo_waiting_def demo_simps)
  show "payload_checks demo_start = Inr ()" "sequence_check demo_start = Inr ()"
    by (simp_all add: demo_start_def demo_waiting_def demo_simps payload_eval)
  show "validate_transition_relation demo_start = Inr ()"
    by (simp add: demo_start_def demo_waiting_def demo_simps row_eval relate_start_hand_def
        count_status_def active_reveal_mask_def seats_mask_def start_hand_frame_def promote_waiting_seat_def)
qed

lemma demo_leaving_ok: "validate_shape flat_digest demo_leaving = Inr ()"
proof (rule demo_row_shape [OF demo_leaving_def])
  show "validate_state (w_pre demo_leaving) = Inr ()"
    using shapeD(2) [OF demo_start_ok] by (simp add: demo_leaving_def demo_row_def)
  show "validate_state (w_post demo_leaving) = Inr ()"
    by (simp add: demo_leaving_def demo_start_def demo_waiting_def demo_simps state_eval)
  show "ci_table_id (w_pre demo_leaving) = ci_table_id (w_post demo_leaving)"
    by (simp add: demo_leaving_def demo_row_def)
  show "payload_checks demo_leaving = Inr ()" "sequence_check demo_leaving = Inr ()"
    by (simp_all add: demo_leaving_def demo_start_def demo_waiting_def demo_simps payload_eval)
  show "validate_transition_relation demo_leaving = Inr ()"
    by (simp add: demo_leaving_def demo_start_def demo_waiting_def demo_simps row_eval
        relate_set_leave_after_hand_def)
qed

definition demo_batch :: "transition_witness list" where
  "demo_batch = [demo_start, demo_leaving]"

lemma demo_batch_ok: "validate_batch flat_digest id demo_batch = Inr ()"
proof -
  have "w_pre demo_leaving = w_post demo_start" by (simp add: demo_leaving_def demo_row_def)
  moreover have "ci_table_id (w_post demo_start) = ci_table_id (w_pre demo_start)"
    "ci_hand_id (w_post demo_start) = 2" "w_kind demo_start = KStartHand"
    by (simp_all add: demo_start_def demo_waiting_def demo_simps)
  ultimately show ?thesis
    by (simp add: validate_batch_def demo_batch_def demo_start_ok demo_leaving_ok)
qed

lemma demo_batch_free: "collision_free id (witness_states demo_batch)"
  by (simp add: collision_free_def witness_states_def demo_batch_def demo_leaving_def demo_start_def
      demo_waiting_def demo_simps typed_state_def typed_header_def image_commitments_def
      typed_seat_def EMPTY_SEAT_def one32_def zero32_def)

section \<open>Batches\<close>

lemma batch_states_valid:
  assumes "validate_batch blake chain ws = Inr u" "st \<in> witness_states ws"
  shows "validate_state st = Inr ()"
  using assms(2) shapeD(1,2) [OF batchD(2) [OF assms(1)]] by (auto simp: witness_states_def)

lemma custody_identity:
  assumes "validate_state st = Inr u" "typed_state st"
  shows "ci_chip_pool st = ci_pot st + held_chips st"
proof -
  have "accounted_chips st = Some (ci_chip_pool st)"
    using assms(1) unfolding validate_state_def checks_Cons_iff by simp
  with assms(2) show ?thesis
    by (simp add: accounted_Some_iff typed_state_def typed_header_def)
qed

text \<open>
  C8. In an accepted batch the vault changes by exactly the deposits, the refunds and the rake of
  its rows, and at every endpoint every chip in the vault is in the pot or at a seat, provided the
  state digest does not collide on the images of the batch.
\<close>

theorem canonical_custody_exact:
  assumes "validate_batch blake chain ws = Inr ()" "collision_free chain (witness_states ws)"
  shows "ci_chip_pool (w_post (last ws)) + sum_list (map custody_out ws)
           = ci_chip_pool (w_pre (hd ws)) + sum_list (map custody_in ws) \<and>
         (\<forall>st\<in>witness_states ws. ci_chip_pool st = ci_pot st + held_chips st)"
proof
  have "chained (w_pre (hd ws)) ws (w_post (last ws))"
    by (rule boundaries_chained [OF assms(2) batchD(3) [OF assms(1)] batchD(1) [OF assms(1)]])
  then show "ci_chip_pool (w_post (last ws)) + sum_list (map custody_out ws)
      = ci_chip_pool (w_pre (hd ws)) + sum_list (map custody_in ws)"
    by (rule chained_pool) (rule batchD(2) [OF assms(1)])
  show "\<forall>st\<in>witness_states ws. ci_chip_pool st = ci_pot st + held_chips st"
    using batch_states_valid [OF assms(1)] assms(2)
    by (auto intro!: custody_identity simp: collision_free_def)
qed

lemma demo_batch_parts: "w_post demo_leaving \<in> witness_states demo_batch"
  "length demo_batch = 2" "demo_batch ! 1 = demo_leaving" "take 1 demo_batch = [demo_start]"
  "w_kind demo_start = KStartHand" "last demo_batch = demo_leaving" "hd demo_batch = demo_start"
  by (simp_all add: witness_states_def demo_batch_def demo_start_def demo_row_def)

theorem canonical_custody_exact_witness:
  "ci_chip_pool (w_post demo_leaving) + sum_list (map custody_out demo_batch)
     = ci_chip_pool (w_pre demo_start) + sum_list (map custody_in demo_batch) \<and>
   ci_chip_pool (w_post demo_leaving) = ci_pot (w_post demo_leaving) + held_chips (w_post demo_leaving)"
  using canonical_custody_exact [OF demo_batch_ok demo_batch_free] demo_batch_parts by metis

lemma shape_scope:
  assumes "validate_shape blake w = Inr u"
  shows "ci_table_id (w_post w) = ci_table_id (w_pre w)"
    "ci_rules_commitment (w_post w) = ci_rules_commitment (w_pre w)"
    "ci_governance_commitment (w_post w) = ci_governance_commitment (w_pre w)"
    "ci_settlement_commitment (w_post w) = ci_settlement_commitment (w_pre w)"
  using shapeD(3) [OF assms] relationD [OF shapeD(8) [OF assms]] by simp_all

definition same_scope :: "canonical_state \<Rightarrow> canonical_state \<Rightarrow> bool" where
  "same_scope a b \<longleftrightarrow> ci_table_id a = ci_table_id b
     \<and> ci_rules_commitment a = ci_rules_commitment b
     \<and> ci_governance_commitment a = ci_governance_commitment b
     \<and> ci_settlement_commitment a = ci_settlement_commitment b"

interpretation scope: row_invariant "\<lambda>w. validate_shape blake w = Inr ()" "\<lambda>st. same_scope st st0" for blake st0
proof unfold_locales
  fix w assume "validate_shape blake w = Inr ()" "same_scope (w_pre w) st0"
  then show "same_scope (w_post w) st0" using shape_scope [of blake w "()"] by (simp add: same_scope_def)
qed

lemma batch_scope_hands:
  assumes "batch_scope table hand ws = Inr u" "k < length ws"
    and "\<And>w. w \<in> set ws \<Longrightarrow> sequence_check w = Inr ()"
  shows "ci_hand_id (w_pre (ws ! k)) = hand + length (filter (\<lambda>w. w_kind w = KStartHand) (take k ws))"
  using assms
proof (induction ws arbitrary: hand k)
  case Nil
  then show ?case by simp
next
  case (Cons w ws)
  have w: "ci_hand_id (w_pre w) = hand" using Cons.prems(1) by simp
  show ?case
  proof (cases k)
    case 0
    with w show ?thesis by simp
  next
    case (Suc j)
    have "w_kind w = KStartHand \<Longrightarrow> ci_hand_id (w_post w) = Suc hand"
      using Cons.prems(3) [of w] w by (auto simp: sequence_check_def Let_def result_simps)
    with Cons.IH [of "if w_kind w = KStartHand then ci_hand_id (w_post w) else hand" j] Cons.prems Suc
    show ?thesis by auto
  qed
qed

text \<open>
  C9. An accepted batch is one run of one table: every row starts where the previous one ended,
  table, rules, governance and settlement stay the same, and the hand number of a row is that
  of the first row plus the hands started before it, provided the state digest does not collide on the
  images of the batch.
\<close>

theorem canonical_batch_is_one_run:
  assumes "validate_batch blake chain ws = Inr ()" "collision_free chain (witness_states ws)"
  shows "chained (w_pre (hd ws)) ws (w_post (last ws)) \<and>
         (\<forall>st\<in>witness_states ws. same_scope st (w_pre (hd ws))) \<and>
         (\<forall>k<length ws. ci_hand_id (w_pre (ws ! k)) = ci_hand_id (w_pre (hd ws))
            + length (filter (\<lambda>w. w_kind w = KStartHand) (take k ws)))"
proof (intro conjI ballI allI impI)
  show c: "chained (w_pre (hd ws)) ws (w_post (last ws))"
    by (rule boundaries_chained [OF assms(2) batchD(3) [OF assms(1)] batchD(1) [OF assms(1)]])
  fix st assume "st \<in> witness_states ws"
  then show "same_scope st (w_pre (hd ws))"
    by (rule scope.along_chain [OF c _ batchD(2) [OF assms(1)], rotated -1]) (simp_all add: same_scope_def)
next
  fix k assume "k < length ws"
  then show "ci_hand_id (w_pre (ws ! k)) = ci_hand_id (w_pre (hd ws))
      + length (filter (\<lambda>w. w_kind w = KStartHand) (take k ws))"
    by (rule batch_scope_hands [OF batchD(4) [OF assms(1)]])
      (rule shapeD(7) [OF batchD(2) [OF assms(1)]])
qed

theorem canonical_batch_is_one_run_witness:
  "chained (w_pre demo_start) demo_batch (w_post demo_leaving) \<and>
   same_scope (w_post demo_leaving) (w_pre demo_start) \<and>
   ci_hand_id (w_pre demo_leaving) = ci_hand_id (w_pre demo_start) + 1"
proof -
  note run = canonical_batch_is_one_run [OF demo_batch_ok demo_batch_free]
  have "ci_hand_id (w_pre (demo_batch ! 1)) = ci_hand_id (w_pre (hd demo_batch))
      + length (filter (\<lambda>w. w_kind w = KStartHand) (take 1 demo_batch))"
    using run demo_batch_parts(2) by (metis one_less_numeral_iff semiring_norm(76))
  moreover have "same_scope (w_post demo_leaving) (w_pre (hd demo_batch))"
    using run demo_batch_parts(1) by blast
  moreover have "chained (w_pre (hd demo_batch)) demo_batch (w_post (last demo_batch))"
    using run by blast
  ultimately show ?thesis using demo_batch_parts(3-7) by simp
qed

text \<open>
  C23. A batch that starts between hands never gets past the reveal of the hole cards: no row of it
  ends in a betting phase or on a later street. The shuffle keeps street 0 and the completing
  reveal asks for street 1. The state digest must not collide on the images of the batch.
\<close>

theorem started_hands_never_bet:
  assumes "validate_batch blake chain ws = Inr ()" "collision_free chain (witness_states ws)"
    and "ci_phase (w_pre (hd ws)) = CWaiting" "w \<in> set ws"
  shows "ci_street (w_post w) = 0 \<and> ci_phase (w_post w) \<in> {CWaiting, CShuffling, CRevealing}"
proof -
  have "hd ws \<in> set ws" using batchD(1) [OF assms(1)] by simp
  from shapeD(1) [OF batchD(2) [OF assms(1) this]] assms(3)
  have "before_preflop (w_pre (hd ws))"
    unfolding validate_state_def checks_Cons_iff before_preflop_def by simp
  from preflop.along_chain [OF boundaries_chained [OF assms(2) batchD(3) [OF assms(1)]
      batchD(1) [OF assms(1)]] this batchD(2) [OF assms(1)], of "w_post w"] assms(4)
  show ?thesis by (simp add: before_preflop_def witness_states_def)
qed

theorem started_hands_never_bet_witness:
  "ci_street (w_post demo_leaving) = 0 \<and>
   ci_phase (w_post demo_leaving) \<in> {CWaiting, CShuffling, CRevealing}"
  by (rule started_hands_never_bet [OF demo_batch_ok demo_batch_free])
    (simp_all add: demo_batch_def demo_start_def demo_waiting_def demo_simps)

end
