(* ===== verification/Canon_Actions.thy ===== *)
theory Canon_Actions
  imports Canon_Batches Poker_Betting
begin

text \<open>
  What an accepted betting row, settlement row or award row does to the seats, and how the
  betting rows relate to the betting rules of the virtual machine (\<open>Poker_Betting\<close>).
\<close>

section \<open>Betting rows\<close>

lemma frame_seats:
  assumes "only_allowed_changes pre post (Some i) allow = Inr u"
  shows "ci_seats post = (ci_seats (allow ((without_roots pre)\<lparr>ci_seats := (ci_seats pre)[i := EMPTY_SEAT]\<rparr>) post))
           [i := ci_seats post ! i]"
  using arg_cong [OF assms [unfolded only_allowed_Some Let_def], of ci_seats] by simp

lemma betting_frameD:
  assumes "only_allowed_changes pre post (Some i) (betting_frame i) = Inr u"
  shows "length (ci_seats post) = length (ci_seats pre)"
    "j \<noteq> i \<Longrightarrow> j < length (ci_seats pre) \<Longrightarrow>
       ci_seats post ! j = (ci_seats pre ! j)\<lparr>cs_acted := cs_acted (ci_seats post ! j)\<rparr>"
proof -
  have eq: "ci_seats post = (copy_acted i ((ci_seats pre)[i := EMPTY_SEAT]) (ci_seats post))[i := ci_seats post ! i]"
    using frame_seats [OF assms] by (simp add: betting_frame_def)
  have len: "length (copy_acted i ((ci_seats pre)[i := EMPTY_SEAT]) (ci_seats post)) = length (ci_seats pre)"
    by (simp add: copy_acted_def)
  show "length (ci_seats post) = length (ci_seats pre)"
    using arg_cong [OF eq, of length] len by simp
  assume j: "j \<noteq> i" "j < length (ci_seats pre)"
  have "ci_seats post ! j = copy_acted i ((ci_seats pre)[i := EMPTY_SEAT]) (ci_seats post) ! j"
    using arg_cong [OF eq, of "\<lambda>xs. xs ! j"] j by simp
  also have "\<dots> = (ci_seats pre ! j)\<lparr>cs_acted := cs_acted (ci_seats post ! j)\<rparr>"
    using j by (simp add: copy_acted_def)
  finally show "ci_seats post ! j = (ci_seats pre ! j)\<lparr>cs_acted := cs_acted (ci_seats post ! j)\<rparr>" .
qed

lemma betting_rowD:
  assumes "relate_betting w = Inr u"
  shows "relate_betting_seat w (seat_image (w_pre w) (ap_seat (w_action w)))
           (seat_image (w_post w) (ap_seat (w_action w))) = Inr ()"
    "ap_seat (w_action w) < 9"
    "ci_current_turn (w_pre w) = ap_seat (w_action w)"
    "ci_current_turn (w_post w) = expected_betting_successor (w_post w) (ap_seat (w_action w))"
    "only_allowed_changes (w_pre w) (w_post w) (Some (ap_seat (w_action w)))
       (betting_frame (ap_seat (w_action w))) = Inr ()"
  using assms unfolding relate_betting_def Let_def checks_Cons_iff
  by (auto simp: seat_image_def EMPTY_SEAT_def MAX_CANONICAL_SEATS_def split: if_splits)

lemma betting_statusD:
  assumes "relate_betting w = Inr u"
  shows "cs_acted (ci_seats (w_post w) ! ap_seat (w_action w))"
    "cs_status (ci_seats (w_post w) ! ap_seat (w_action w)) =
       (if w_kind w = KFold then CSFolded else bet_lifecycle (cs_stack (ci_seats (w_post w) ! ap_seat (w_action w))))"
  using assms betting_rowD(2) [OF assms] unfolding relate_betting_def Let_def checks_Cons_iff
  by (auto simp: seat_image_def MAX_CANONICAL_SEATS_def split: if_splits)

lemma betting_actedD:
  assumes "relate_betting w = Inr u" "j < 9"
  shows "cs_acted (ci_seats (w_post w) ! j) = expected_acted w j"
  using assms unfolding relate_betting_def Let_def checks_Cons_iff
  by (simp add: checks_Inr_iff MAX_CANONICAL_SEATS_def)

lemma valid_image_seat:
  assumes "validate_state st = Inr u" "i < length (ci_seats st)"
  shows "cs_bet (ci_seats st ! i) \<le> ci_current_bet st"
proof -
  have "image_seat_checks st i (ci_seats st ! i) = Inr ()"
    using assms unfolding validate_state_def checks_Cons_iff by (simp add: checks_Inr_iff)
  then show ?thesis by (simp add: image_seat_checks_def)
qed

lemma held_chips_pointwise:
  assumes "length (ci_seats a) = length (ci_seats b)"
    and "\<And>j. j < length (ci_seats b) \<Longrightarrow> seat_chips (ci_seats a ! j) = seat_chips (ci_seats b ! j)"
  shows "held_chips a = held_chips b"
proof -
  have "map seat_chips (ci_seats a) = map seat_chips (ci_seats b)"
    using assms by (auto intro: nth_equalityI)
  then show ?thesis by (simp add: held_chips_def)
qed

text \<open>
  The acting seat after a row: \<open>d\<close> chips go from the stack to the bet and to what was bet in the hand,
  nothing for a fold or a check; the seat has acted, and folds or stays in with or without chips.
\<close>

definition acted_seat :: "transition_kind \<Rightarrow> nat \<Rightarrow> canonical_seat \<Rightarrow> canonical_seat" where
  "acted_seat k d s = s\<lparr>cs_status := if k = KFold then CSFolded else bet_lifecycle (cs_stack s - d), cs_acted := True,
     cs_stack := cs_stack s - d, cs_bet := cs_bet s + d, cs_total_bet := u64_add (cs_total_bet s) d\<rparr>"

lemma acting_seat:
  assumes "relate_betting_seat w before after = Inr u" "cs_acted after"
    and "cs_status after = (if w_kind w = KFold then CSFolded else bet_lifecycle (cs_stack after))"
    and "cs_bet before \<le> ci_current_bet (w_pre w)" "ci_current_bet (w_pre w) < u64_bound" "cs_total_bet before < u64_bound"
  shows "\<exists>d\<le>cs_stack before. (d = 0 \<longleftrightarrow> w_kind w = KFold \<or> w_kind w = KCheck) \<and> after = acted_seat (w_kind w) d before"
proof -
  have still: "after = acted_seat (w_kind w) 0 before"
    if "\<not> seat_funds_changed before after" "\<not> seat_material_changed before after"
    using that assms(2,3,6) by (cases after; cases before)
      (simp add: acted_seat_def seat_funds_changed_def seat_material_changed_def u64_add_def)
  have moved: "after = acted_seat (w_kind w) d before"
    if "w_kind w \<noteq> KFold" "cs_stack after = cs_stack before - d" "cs_bet after = cs_bet before + d"
      "cs_total_bet after = u64_add (cs_total_bet before) d" "\<not> seat_material_changed before after" for d
    using that assms(2,3) by (cases after; cases before)
      (simp add: acted_seat_def seat_material_changed_def)
  show ?thesis
  proof (cases "w_kind w")
    case KFold
    with assms(1) still show ?thesis
      by (intro exI [of _ 0]) (simp add: relate_betting_seat_def relate_fold_seat_def Let_def)
  next
    case KCheck
    with assms(1) still show ?thesis
      by (intro exI [of _ 0]) (simp add: relate_betting_seat_def relate_check_seat_def Let_def)
  next
    case KCall
    let ?d = "min (ci_current_bet (w_pre w) - cs_bet before) (cs_stack before)"
    have "cs_bet before + ?d < u64_bound" using assms(4,5) by simp
    with KCall assms(1) moved [of ?d] show ?thesis
      by (intro exI [of _ ?d]) (auto simp: relate_betting_seat_def relate_call_seat_def Let_def result_simps u64_add_def)
  next
    case KRaise
    let ?d = "ap_amount (w_action w) - cs_bet before"
    from KRaise assms(1,4) moved [of ?d] show ?thesis
      by (intro exI [of _ ?d]) (auto simp: relate_betting_seat_def relate_raise_seat_def Let_def result_simps)
  next
    case KBet
    with assms(1) moved [of "ap_amount (w_action w)"] show ?thesis
      by (intro exI [of _ "ap_amount (w_action w)"]) (auto simp: relate_betting_seat_def relate_bet_seat_def Let_def result_simps)
  qed (use assms(1) in \<open>simp_all add: relate_betting_seat_def Let_def\<close>)
qed

definition betting_kind :: "transition_kind \<Rightarrow> bool" where
  "betting_kind k \<longleftrightarrow> k = KFold \<or> k = KCheck \<or> k = KCall \<or> k = KRaise \<or> k = KBet"

lemma betting_shapeD:
  assumes "validate_shape blake w = Inr u" "betting_kind (w_kind w)"
  shows "relate_betting w = Inr ()"
  using relationD(4) [OF shapeD(8) [OF assms(1)]] assms(2) by (auto simp: betting_kind_def)

text \<open>
  C16. A betting row is the action of one seat. Pot and vault stay. The acting seat moves some chips from
  its stack to its bet, none exactly for a fold or a check, is marked as acted and folded or still in,
  and keeps its pending addon, clock, player, key and cards. Every other seat keeps everything but its acted
  flag, which only a full raise clears, at the active seats. The turn goes to the next seat clockwise that
  still has to act.
\<close>

theorem betting_rows_touch_only_the_actor:
  assumes "validate_shape blake w = Inr ()" "betting_kind (w_kind w)"
    and "typed_state (w_pre w)" "typed_state (w_post w)"
  shows "ci_pot (w_post w) = ci_pot (w_pre w) \<and> ci_chip_pool (w_post w) = ci_chip_pool (w_pre w) \<and>
    (\<exists>d\<le>cs_stack (ci_seats (w_pre w) ! ap_seat (w_action w)). (d = 0 \<longleftrightarrow> w_kind w = KFold \<or> w_kind w = KCheck) \<and>
      ci_seats (w_post w) ! ap_seat (w_action w) = acted_seat (w_kind w) d (ci_seats (w_pre w) ! ap_seat (w_action w))) \<and>
    (\<forall>j<9. j \<noteq> ap_seat (w_action w) \<longrightarrow> ci_seats (w_post w) ! j = (ci_seats (w_pre w) ! j)
       \<lparr>cs_acted := cs_acted (ci_seats (w_pre w) ! j) \<and> \<not> (raise_reopens w \<and> cs_status (ci_seats (w_pre w) ! j) = CSActive)\<rparr>) \<and>
    ci_current_turn (w_post w) = expected_betting_successor (w_post w) (ap_seat (w_action w))"
proof -
  let ?i = "ap_seat (w_action w)" and ?pre = "ci_seats (w_pre w)" and ?post = "ci_seats (w_post w)"
  note row = betting_rowD [OF betting_shapeD [OF assms(1,2)]]
  have l: "length ?pre = 9" using assms(3) by (simp add: typed_state_def)
  have acted: "cs_acted (?post ! j) = expected_acted w j" if "j < 9" for j
    using betting_actedD [OF betting_shapeD [OF assms(1,2)] that] .
  have others: "?post ! j = (?pre ! j)
       \<lparr>cs_acted := cs_acted (?pre ! j) \<and> \<not> (raise_reopens w \<and> cs_status (?pre ! j) = CSActive)\<rparr>"
    if "j < 9" "j \<noteq> ?i" for j
    using betting_frameD(2) [OF row(5), of j] acted [of j] that l by (auto simp: expected_acted_def)
  have seat: "cs_bet (?pre ! ?i) \<le> ci_current_bet (w_pre w)"
    using row(2) valid_image_seat [OF shapeD(1) [OF assms(1)], of ?i] l by simp
  have typed: "ci_current_bet (w_pre w) < u64_bound" "cs_total_bet (?pre ! ?i) < u64_bound"
    using assms(3) row(2) by (auto simp: typed_state_def typed_header_def typed_seat_def)
  have image: "relate_betting_seat w (?pre ! ?i) (?post ! ?i) = Inr ()"
    using row(1,2) by (simp add: seat_image_def MAX_CANONICAL_SEATS_def)
  note status = betting_statusD [OF betting_shapeD [OF assms(1,2)]]
  note actor = acting_seat [OF image status(1,2) seat typed]
  have "held_chips (w_post w) = held_chips (w_pre w)"
  proof (rule held_chips_pointwise)
    show "length ?post = length ?pre" by (rule betting_frameD(1) [OF row(5)])
    show "seat_chips (?post ! j) = seat_chips (?pre ! j)" if "j < length ?pre" for j
    proof (cases "j = ?i")
      case True
      then show ?thesis using actor by (auto simp: acted_seat_def seat_chips_def)
    next
      case False
      then show ?thesis using others [of j] that l by (simp add: seat_chips_def)
    qed
  qed
  moreover have pool: "ci_chip_pool (w_post w) = ci_chip_pool (w_pre w)"
    by (rule relate_frozen_pool(5) [OF betting_shapeD [OF assms(1,2)]])
  ultimately have "ci_pot (w_post w) = ci_pot (w_pre w)"
    using custody_identity [OF shapeD(1) [OF assms(1)] assms(3)]
      custody_identity [OF shapeD(2) [OF assms(1)] assms(4)] by simp
  with pool actor others row(4) show ?thesis by blast
qed

lemmas typed_eval = typed_state_def typed_header_def image_commitments_def typed_seat_def
  EMPTY_SEAT_def one32_def zero32_def

lemma demo_raise_typed: "typed_state (w_pre demo_raise)" "typed_state (w_post demo_raise)"
  by (simp_all add: demo_raise_def demo_simps typed_eval)

theorem betting_rows_touch_only_the_actor_witness:
  "ci_pot (w_post demo_raise) = ci_pot (w_pre demo_raise) \<and>
   ci_chip_pool (w_post demo_raise) = ci_chip_pool (w_pre demo_raise) \<and>
   cs_key_commitment (ci_seats (w_post demo_raise) ! 2) = cs_key_commitment (ci_seats (w_pre demo_raise) ! 2) \<and>
   cs_acted (ci_seats (w_post demo_raise) ! 2) \<and> ci_current_turn (w_post demo_raise) = 0"
proof -
  have "betting_kind (w_kind demo_raise)" "ap_seat (w_action demo_raise) = 2"
    "ci_current_turn (w_post demo_raise) = 0"
    by (simp_all add: demo_raise_def demo_simps betting_kind_def)
  with betting_rows_touch_only_the_actor [OF demo_raise_ok _ demo_raise_typed] show ?thesis
    by (auto simp: acted_seat_def)
qed

text \<open>The round of the virtual machine that an image shows.\<close>

definition image_round :: "canonical_state \<Rightarrow> betting_round" where
  "image_round st = \<lparr>current_bet = ci_current_bet st, min_raise = ci_min_raise st\<rparr>"

text \<open>
  C17. Accepted calls and raises are exactly what the betting rules of the virtual machine compute:
  a call pays what the rules charge, and a raise is accepted by the rules with the same cost
  and leads to the same round.
\<close>

theorem call_and_raise_rows_follow_the_rules:
  assumes "validate_shape blake w = Inr ()" "typed_state (w_pre w)"
  defines "before \<equiv> ci_seats (w_pre w) ! ap_seat (w_action w)"
    and "after \<equiv> ci_seats (w_post w) ! ap_seat (w_action w)"
  shows "(w_kind w = KCall \<longrightarrow>
       cs_stack after + process_call (image_round (w_pre w)) (cs_bet before) (cs_stack before) = cs_stack before
       \<and> ap_amount (w_action w) = process_call (image_round (w_pre w)) (cs_bet before) (cs_stack before)
       \<and> image_round (w_post w) = image_round (w_pre w)) \<and>
     (w_kind w = KRaise \<longrightarrow>
       process_raise (image_round (w_pre w)) (ap_amount (w_action w)) (cs_bet before) (cs_stack before)
         = Inr (cs_stack before - cs_stack after, image_round (w_post w))
       \<and> cs_bet after = ap_amount (w_action w) \<and> cs_stack after \<le> cs_stack before)"
proof (intro conjI impI)
  assume k: "w_kind w = KCall"
  with betting_rowD [OF betting_shapeD [OF assms(1)]]
  have "relate_betting_seat w (seat_image (w_pre w) (ap_seat (w_action w)))
      (seat_image (w_post w) (ap_seat (w_action w))) = Inr ()" "ap_seat (w_action w) < 9"
    by (simp_all add: betting_kind_def)
  then have "relate_call_seat (w_pre w) (w_post w) (ap_amount (w_action w)) before after = Inr ()"
    by (simp add: relate_betting_seat_def k seat_image_def MAX_CANONICAL_SEATS_def before_def after_def Let_def)
  then show "cs_stack after + process_call (image_round (w_pre w)) (cs_bet before) (cs_stack before) = cs_stack before"
    "ap_amount (w_action w) = process_call (image_round (w_pre w)) (cs_bet before) (cs_stack before)"
    "image_round (w_post w) = image_round (w_pre w)"
    by (auto simp: relate_call_seat_def Let_def result_simps image_round_def betting_defs)
next
  assume k: "w_kind w = KRaise"
  with betting_rowD [OF betting_shapeD [OF assms(1)]]
  have row: "relate_betting_seat w (seat_image (w_pre w) (ap_seat (w_action w)))
      (seat_image (w_post w) (ap_seat (w_action w))) = Inr ()" "ap_seat (w_action w) < 9"
    by (simp_all add: betting_kind_def)
  then have r: "relate_raise_seat (w_pre w) (w_post w) (ap_amount (w_action w)) before after = Inr ()"
    by (simp add: relate_betting_seat_def k seat_image_def MAX_CANONICAL_SEATS_def before_def after_def Let_def)
  have "cs_bet before \<le> ci_current_bet (w_pre w)"
    using valid_image_seat [OF shapeD(1) [OF assms(1)]] assms(2) row(2)
    by (simp add: before_def typed_state_def)
  with r show "process_raise (image_round (w_pre w)) (ap_amount (w_action w)) (cs_bet before) (cs_stack before)
      = Inr (cs_stack before - cs_stack after, image_round (w_post w))"
    by (auto simp: relate_raise_seat_def Let_def result_simps image_round_def process_raise_def)
  from r show "cs_bet after = ap_amount (w_action w)" "cs_stack after \<le> cs_stack before"
    by (auto simp: relate_raise_seat_def Let_def result_simps)
qed

theorem call_and_raise_rows_follow_the_rules_witness:
  "process_raise (image_round (w_pre demo_raise)) 500 0 1000 = Inr (500, image_round (w_post demo_raise))"
proof -
  have "w_kind demo_raise = KRaise" "ap_seat (w_action demo_raise) = 2" "ap_amount (w_action demo_raise) = 500"
    "ci_seats (w_pre demo_raise) ! 2 = demo_image_seat CSActive False 1000 0"
    "ci_seats (w_post demo_raise) ! 2 = demo_image_seat CSActive True 500 500"
    by (simp_all add: demo_raise_def demo_simps)
  with call_and_raise_rows_follow_the_rules [OF demo_raise_ok demo_raise_typed(1)] show ?thesis
    by (simp add: demo_image_seat_def)
qed

section \<open>Settlement rows\<close>

lemma reset_projectionD:
  assumes "validate_simple_reset_projection pre post winner award = Inr u" "j < length (ci_seats pre)"
  shows "cs_stack (ci_seats post ! j) = cs_stack (ci_seats pre ! j) + (if winner = Some j then award else 0)"
    "cs_bet (ci_seats post ! j) = 0" "cs_pending_addon (ci_seats post ! j) = 0"
    "cs_identity_commitment (ci_seats post ! j) = cs_identity_commitment (ci_seats pre ! j)"
    "cs_key_commitment (ci_seats post ! j) = cs_key_commitment (ci_seats pre ! j)"
proof -
  have "reset_seat_checks winner award pre post j = Inr ()"
    using assms unfolding validate_simple_reset_projection_def checks_Cons_iff
    by (simp add: checks_Inr_iff)
  then show "cs_stack (ci_seats post ! j) = cs_stack (ci_seats pre ! j) + (if winner = Some j then award else 0)"
    "cs_bet (ci_seats post ! j) = 0" "cs_pending_addon (ci_seats post ! j) = 0"
    "cs_identity_commitment (ci_seats post ! j) = cs_identity_commitment (ci_seats pre ! j)"
    "cs_key_commitment (ci_seats post ! j) = cs_key_commitment (ci_seats pre ! j)"
    by (auto simp: reset_seat_checks_def Let_def result_simps split: if_splits)
qed

lemma custody_sum_Inr:
  "start < u64_bound \<Longrightarrow> custody_sum start xs e = Inr r \<longleftrightarrow>
   r = start + sum_list xs \<and> start + sum_list xs < u64_bound"
  using try_fold_checked_sum [of start "\<lambda>x. x" e xs] by (auto simp: custody_sum_def)

text \<open>
  C18. The last player standing receives the pot and every live bet, and nobody else's stack moves:
  an accepted settlement row without showdown has one possible outcome for every stack.
\<close>

theorem settlement_rows_pay_the_last_player:
  assumes "validate_shape blake w = Inr ()" "w_kind w = KEndWithoutShowdown" "typed_state (w_pre w)"
  shows "(\<forall>j<9. cs_stack (ci_seats (w_post w) ! j) = cs_stack (ci_seats (w_pre w) ! j)
       + (if j = ap_seat (w_action w) then ci_pot (w_pre w) + sum_list (map cs_bet (ci_seats (w_pre w))) else 0))
     \<and> cs_status (ci_seats (w_pre w) ! ap_seat (w_action w)) = CSActive
     \<and> count_status (\<lambda>st. st = CSActive) (ci_seats (w_pre w)) = 1
     \<and> ci_pot (w_post w) = 0 \<and> ci_phase (w_post w) = CWaiting"
proof -
  have "validate_terminal_without_showdown w = Inr ()"
    using relationD(4) [OF shapeD(8) [OF assms(1)]] assms(2) by simp
  then obtain gross where g:
    "custody_sum (ci_pot (w_pre w)) (map cs_bet (ci_seats (w_pre w)))
       (Other ''terminal collected-bet sum overflow'') = Inr gross"
    "validate_simple_reset_projection (w_pre w) (w_post w) (Some (ap_seat (w_action w))) gross = Inr ()"
    "cs_status (ci_seats (w_pre w) ! ap_seat (w_action w)) = CSActive"
    "count_status (\<lambda>st. st = CSActive) (ci_seats (w_pre w)) = 1"
    unfolding validate_terminal_without_showdown_def Let_def
    by (auto simp: result_simps)
  have "gross = ci_pot (w_pre w) + sum_list (map cs_bet (ci_seats (w_pre w)))"
    using g(1) assms(3) by (simp add: custody_sum_Inr typed_state_def typed_header_def)
  moreover have "ci_pot (w_post w) = 0" "ci_phase (w_post w) = CWaiting"
    using g(2) unfolding validate_simple_reset_projection_def checks_Cons_iff by (simp_all add: cleared_header_def)
  ultimately show ?thesis
    using reset_projectionD(1) [OF g(2)] g(3,4) assms(3) by (simp add: typed_state_def)
qed

text \<open>A settlement row: two players have folded to the third.\<close>

definition demo_folded_round :: canonical_state where
  "demo_folded_round = demo_image\<lparr>ci_acted_mask := 3,
     ci_seats := demo_seats (demo_image_seat CSFolded True 900 100) (demo_image_seat CSFolded True 800 200)
       (demo_image_seat CSActive False 1000 0)\<rparr>"

definition demo_reset_seat :: "nat \<Rightarrow> canonical_seat" where
  "demo_reset_seat stack = (demo_image_seat CSActive False stack 0)\<lparr>cs_hole_cards_commitment := zero32\<rparr>"

definition demo_between_hands :: "nat \<Rightarrow> canonical_seat list \<Rightarrow> canonical_state" where
  "demo_between_hands pool seats = demo_image
     \<lparr>ci_phase := CWaiting, ci_phase_subtag := 0, ci_street := 0, ci_current_turn := 15,
      ci_deadline_ms := 0, ci_current_bet := 0, ci_min_raise := 0, ci_chip_pool := pool,
      ci_reveal_commitment := zero32, ci_seats := seats\<rparr>"

definition demo_settle :: transition_witness where
  "demo_settle = demo_row demo_folded_round
     (demo_between_hands 3000 (demo_seats (demo_reset_seat 900) (demo_reset_seat 800) (demo_reset_seat 1300)))
     KEndWithoutShowdown ((demo_action 2 300)\<lparr>ap_proof_commitment := one32\<rparr>) zero32 0"

lemmas settle_simps = demo_simps demo_folded_round_def demo_reset_seat_def demo_between_hands_def

lemmas reset_eval = validate_simple_reset_projection_def cleared_header_def cleared_commitments_def
  reset_seat_checks_def reset_status_def reset_frame_def terminal_time_bank_def
  TERMINAL_TIME_BANK_MS_def count_status_def custody_sum_def

lemma demo_settle_ok: "validate_shape flat_digest demo_settle = Inr ()"
proof (rule demo_row_shape [OF demo_settle_def])
  show "validate_state (w_pre demo_settle) = Inr ()" "validate_state (w_post demo_settle) = Inr ()"
    by (simp_all add: demo_settle_def settle_simps state_eval)
  show "ci_table_id (w_pre demo_settle) = ci_table_id (w_post demo_settle)"
    "payload_checks demo_settle = Inr ()" "sequence_check demo_settle = Inr ()"
    by (simp_all add: demo_settle_def settle_simps payload_eval)
  show "validate_transition_relation demo_settle = Inr ()"
    by (simp add: demo_settle_def settle_simps row_eval validate_terminal_without_showdown_def reset_eval)
qed

theorem settlement_rows_pay_the_last_player_witness:
  "cs_stack (ci_seats (w_post demo_settle) ! 2) = cs_stack (ci_seats (w_pre demo_settle) ! 2) + 300
   \<and> cs_stack (ci_seats (w_post demo_settle) ! 0) = cs_stack (ci_seats (w_pre demo_settle) ! 0)"
proof -
  have "w_kind demo_settle = KEndWithoutShowdown" "typed_state (w_pre demo_settle)"
    "ap_seat (w_action demo_settle) = 2"
    "ci_pot (w_pre demo_settle) + sum_list (map cs_bet (ci_seats (w_pre demo_settle))) = 300"
    by (simp_all add: demo_settle_def settle_simps typed_eval)
  with settlement_rows_pay_the_last_player [OF demo_settle_ok] show ?thesis by simp
qed

section \<open>Raked awards\<close>

lemma awardD:
  assumes "validate_reveal_timeout_award w = Inr u" "winner_of w = Inr winner"
    and "j < length (ci_seats (w_pre w))" "j \<noteq> ap_seat (w_action w)"
    and "cs_status (ci_seats (w_pre w) ! j) \<noteq> CSOut"
  shows "if j = winner
         then checked_add (cs_stack (ci_seats (w_pre w) ! j)) (ci_pot (w_pre w)) = Some (cs_stack (ci_seats (w_post w) ! j))
         else cs_stack (ci_seats (w_post w) ! j) = cs_stack (ci_seats (w_pre w) ! j)"
proof -
  have "award_seat_checks (w_pre w) (w_post w) (ap_seat (w_action w)) winner j = Inr ()"
    using assms(1-3) unfolding validate_reveal_timeout_award_def Let_def
    by (auto simp: result_simps winner_of_def checks_Inr_iff)
  with assms(4,5) have "award_credit_checks (w_pre w) (w_post w) winner j = Inr ()"
    by (simp add: award_seat_checks_def Let_def)
  with assms(5) show ?thesis
    by (auto simp: award_credit_checks_def Let_def result_simps award_status_def split: if_splits)
qed

lemma winner_ofD:
  assumes "winner_of w = Inr winner"
  shows "winner < length (ci_seats (w_pre w))" "winner \<noteq> ap_seat (w_action w)"
    "cs_status (ci_seats (w_pre w) ! winner) = CSActive \<or> cs_status (ci_seats (w_pre w) ! winner) = CSAllIn"
  using assms by (auto simp: winner_of_def result_simps live_seats_def find_Some_iff dest!: nth_mem)

lemma settlement_rake_bounds:
  "canonical_settlement_rake pot op \<le> pot"
  "canonical_settlement_rake pot op \<le> ro_cap op"
  "canonical_settlement_rake pot op \<le> pot * ro_bps op div 10000"
  by (auto simp: canonical_settlement_rake_def)

text \<open>
  C19. A raked award pays the survivor the pot less the rake, takes from the vault exactly the kicked
  player's refund and the rake, and moves no other stack; the rake is within the pot, the cap
  and the rate of the opening.
\<close>

theorem raked_awards_are_exact:
  assumes "validate_shape blake w = Inr ()" "w_kind w = KRevealTimeoutRakedAward"
  defines "rake \<equiv> canonical_settlement_rake (ci_pot (w_pre w)) (w_rake_opening w)"
  shows "\<exists>winner. winner_of w = Inr winner \<and>
     cs_stack (ci_seats (w_post w) ! winner) + rake
       = cs_stack (ci_seats (w_pre w) ! winner) + ci_pot (w_pre w) \<and>
     ci_chip_pool (w_post w) + (ap_amount (w_action w) + rake) = ci_chip_pool (w_pre w) \<and>
     rake \<le> ci_pot (w_pre w) \<and> rake \<le> ro_cap (w_rake_opening w) \<and>
     rake \<le> ci_pot (w_pre w) * ro_bps (w_rake_opening w) div 10000 \<and>
     (\<forall>j<length (ci_seats (w_pre w)). j \<noteq> winner \<longrightarrow> j \<noteq> ap_seat (w_action w) \<longrightarrow>
        cs_status (ci_seats (w_pre w) ! j) \<noteq> CSOut \<longrightarrow>
        cs_stack (ci_seats (w_post w) ! j) = cs_stack (ci_seats (w_pre w) ! j))"
proof -
  have rel: "validate_reveal_timeout_raked_award w = Inr ()"
    using relationD(4) [OF shapeD(8) [OF assms(1)]] assms(2) by simp
  from raked_awardE [OF rel] obtain winner pool where r:
    "winner_of w = Inr winner"
    "validate_reveal_timeout_award (adjusted_award w winner pool) = Inr ()"
    "cs_stack (ci_seats (w_post w) ! winner) + rake
       = cs_stack (ci_seats (w_post (adjusted_award w winner pool)) ! winner)"
    by (metis rake_def)
  let ?a = "adjusted_award w winner pool"
  have a: "w_pre ?a = w_pre w" "w_action ?a = w_action w" "winner_of ?a = Inr winner"
    using r(1) by (simp_all add: adjusted_award_def Let_def winner_of_def)
  note wd = winner_ofD [OF r(1)]
  have "checked_add (cs_stack (ci_seats (w_pre w) ! winner)) (ci_pot (w_pre w))
      = Some (cs_stack (ci_seats (w_post ?a) ! winner))"
    using awardD [OF r(2) a(3), of winner] wd a by auto
  with r(3) have credit: "cs_stack (ci_seats (w_post w) ! winner) + rake
      = cs_stack (ci_seats (w_pre w) ! winner) + ci_pot (w_pre w)"
    by (simp add: result_simps)
  have others: "cs_stack (ci_seats (w_post w) ! j) = cs_stack (ci_seats (w_pre w) ! j)"
    if "j < length (ci_seats (w_pre w))" "j \<noteq> winner" "j \<noteq> ap_seat (w_action w)"
      "cs_status (ci_seats (w_pre w) ! j) \<noteq> CSOut" for j
    using awardD [OF r(2) a(3), of j] that a by (simp add: adjusted_award_def Let_def)
  show ?thesis
    using r(1) credit others raked_award_pool [OF rel]
      settlement_rake_bounds [of "ci_pot (w_pre w)" "w_rake_opening w"]
    unfolding rake_def by blast
qed

definition demo_raked :: transition_witness where
  "demo_raked = (demo_row
     (demo_image\<lparr>ci_phase := CRevealing, ci_phase_subtag := 2, ci_street := 2, ci_current_turn := 15,
        ci_current_bet := 0, ci_pot := 800, ci_acted_mask := 2, ci_protocol_pending_mask := 4,
        ci_seats := demo_seats (demo_image_seat CSActive False 900 0) (demo_image_seat CSFolded True 800 0)
          (demo_image_seat CSActive False 500 0)\<rparr>)
     (demo_between_hands 2470 (demo_seats (demo_reset_seat 1670) (demo_reset_seat 800) EMPTY_SEAT))
     KRevealTimeoutRakedAward ((demo_action 2 500)\<lparr>ap_proof_commitment := one32\<rparr>) zero32 1000)
     \<lparr>w_rake_opening := \<lparr>ro_mode = 1, ro_bps = 500, ro_cap = 30\<rparr>\<rparr>"

lemmas award_eval = validate_reveal_timeout_award_def live_seats_def award_seat_checks_def
  award_credit_checks_def award_status_def award_frame_def

text \<open>The same row without a rake.\<close>

definition demo_award :: transition_witness where
  "demo_award = demo_raked\<lparr>w_kind := KRevealTimeoutAward,
     w_post := (w_post demo_raked)\<lparr>ci_chip_pool := 2500,
       ci_seats := demo_seats (demo_reset_seat 1700) (demo_reset_seat 800) EMPTY_SEAT\<rparr>,
     w_rake_opening := RAKE_ZERO\<rparr>"

lemma demo_award_adjusted: "adjusted_award demo_raked 0 2500 = demo_award"
  by (simp add: adjusted_award_def demo_award_def demo_raked_def settle_simps u64_add_def Let_def)

lemma demo_award_frame: "only_allowed_changes (w_pre demo_award) (w_post demo_award) None award_frame = Inr ()"
  by (simp add: demo_award_def demo_raked_def settle_simps row_eval award_frame_def reset_frame_def)

lemma demo_award_seats:
  "checks (map (award_seat_checks (w_pre demo_award) (w_post demo_award) 2 0) [0..<9]) = Inr ()"
  by (simp add: demo_award_def demo_raked_def settle_simps seats9 award_eval EMPTY_SEAT_def
      checked_add_def terminal_time_bank_def TERMINAL_TIME_BANK_MS_def Let_def)

lemma demo_award_relation: "validate_reveal_timeout_award demo_award = Inr ()"
proof -
  have "length (ci_seats (w_pre demo_award)) = 9" "live_seats (w_pre demo_award) = [0, 2]"
    "ap_seat (w_action demo_award) = 2" "ap_amount (w_action demo_award) = 500"
    "ci_seats (w_pre demo_award) ! 2 = demo_image_seat CSActive False 500 0"
    by (simp_all add: demo_award_def demo_raked_def settle_simps live_seats_def seats9 EMPTY_SEAT_def)
  moreover have "cleared_header (w_post demo_award)" "cleared_commitments (w_post demo_award)"
    "ci_chip_pool (w_post demo_award) = 2500" "ci_chip_pool (w_pre demo_award) = 3000"
    "ci_pot (w_pre demo_award) = 800" "\<not> list_ex (\<lambda>s. cs_bet s \<noteq> 0) (ci_seats (w_pre demo_award))"
    by (simp_all add: demo_award_def demo_raked_def settle_simps cleared_header_def
        cleared_commitments_def NO_CANONICAL_SEAT_def EMPTY_SEAT_def)
  moreover have "ci_phase (w_pre demo_award) = CRevealing" "ci_phase_subtag (w_pre demo_award) = 2"
    "ci_street (w_pre demo_award) = 2" "ci_current_turn (w_pre demo_award) = 15"
    "\<not> ap_flag (w_action demo_award)" "ap_auxiliary (w_action demo_award) = 0"
    "ap_proof_commitment (w_action demo_award) = one32" "ci_deck_commitment (w_post demo_award) = one32"
    "w_deadline_height demo_award = 1000" "ci_deadline_ms (w_pre demo_award) = 1000"
    "ci_max_players (w_pre demo_award) = 3" "ci_protocol_pending_mask (w_pre demo_award) = 4"
    "ci_leave_after_hand_mask (w_pre demo_award) = 0"
    by (simp_all add: demo_award_def demo_raked_def settle_simps)
  ultimately show ?thesis
    using demo_award_frame demo_award_seats
    by (simp add: validate_reveal_timeout_award_def NO_CANONICAL_SEAT_def seat_mask_bit_def
        demo_image_seat_def checked_add_def checked_sub_def Let_def)
qed

lemma demo_raked_relation: "validate_reveal_timeout_raked_award demo_raked = Inr ()"
proof -
  have "winner_of demo_raked = Inr 0" "ap_seat (w_action demo_raked) = 2"
    "length (ci_seats (w_pre demo_raked)) = 9"
    "ci_seats (w_pre demo_raked) ! 2 = demo_image_seat CSActive False 500 0"
    by (simp_all add: winner_of_def live_seats_def demo_raked_def settle_simps seats9 EMPTY_SEAT_def)
  moreover have "canonical_settlement_rake (ci_pot (w_pre demo_raked)) (w_rake_opening demo_raked) = 30"
    "ci_chip_pool (w_pre demo_raked) = 3000" "ci_chip_pool (w_post demo_raked) = 2470"
    "ci_chip_pool (w_post demo_award) = 2500" "ci_pot (w_pre demo_raked) = 800"
    "ro_mode (w_rake_opening demo_raked) = 1" "ro_bps (w_rake_opening demo_raked) = 500"
    "cs_stack (ci_seats (w_post demo_raked) ! 0) = 1670"
    "cs_stack (ci_seats (w_post demo_award) ! 0) = 1700"
    by (simp_all add: demo_award_def demo_raked_def settle_simps canonical_settlement_rake_def)
  ultimately show ?thesis
    using demo_award_relation demo_award_adjusted
    by (simp add: validate_reveal_timeout_raked_award_def PERCENTAGE_MODE_def demo_image_seat_def
        checked_add_def checked_sub_def Let_def)
qed

lemma demo_raked_ok: "validate_shape flat_digest demo_raked = Inr ()"
proof -
  have "validate_state (w_pre demo_raked) = Inr ()" "validate_state (w_post demo_raked) = Inr ()"
    by (simp_all add: demo_raked_def settle_simps state_eval)
  moreover have "ci_table_id (w_pre demo_raked) = ci_table_id (w_post demo_raked)"
    "payload_checks demo_raked = Inr ()" "sequence_check demo_raked = Inr ()"
    "w_transition_commitment demo_raked = one32" "w_nullifier demo_raked = one32"
    by (simp_all add: demo_raked_def settle_simps payload_eval)
  moreover have "validate_transition_relation demo_raked = Inr ()"
    using demo_raked_relation
    by (simp add: validate_transition_relation_def) (simp add: demo_raked_def settle_simps)
  ultimately show ?thesis by (simp add: validate_shape_def)
qed

theorem raked_awards_are_exact_witness:
  "\<exists>winner. winner_of demo_raked = Inr winner \<and>
     ci_chip_pool (w_post demo_raked) + (ap_amount (w_action demo_raked)
       + canonical_settlement_rake (ci_pot (w_pre demo_raked)) (w_rake_opening demo_raked))
       = ci_chip_pool (w_pre demo_raked)"
  using raked_awards_are_exact [OF demo_raked_ok] by (auto simp: demo_raked_def demo_row_def)

end
