(* ===== verification/Canon_Gaps.thy ===== *)
theory Canon_Gaps
  imports Canon_Actions
begin

text \<open>
  Rows the canonical relation accepts although the virtual machine would not produce them, rows
  it refuses although the machine does, and one input on which the validator panics. Each is a
  concrete row.
\<close>

section \<open>A fold that sets the price\<close>

definition demo_fold :: transition_witness where
  "demo_fold = demo_row demo_image
     (demo_image\<lparr>ci_current_turn := 0, ci_current_bet := 777, ci_min_raise := 0,
        ci_acted_mask := 4, ci_deadline_ms := 1,
        ci_seats := (ci_seats demo_image)[2 := demo_image_seat CSFolded True 1000 0]\<rparr>)
     KFold (demo_action 2 0) one32 0"

text \<open>
  Nothing in a fold row ties the price, the minimum raise or the deadline to the image before:
  a fold that raises the price from 200 to 777, abolishes the minimum raise and sets the
  deadline into the past is accepted.
\<close>

theorem fold_rows_may_set_the_price:
  "validate_shape flat_digest demo_fold = Inr () \<and> w_kind demo_fold = KFold \<and>
   ci_current_bet (w_pre demo_fold) = 200 \<and> ci_current_bet (w_post demo_fold) = 777 \<and>
   ci_min_raise (w_pre demo_fold) = 200 \<and> ci_min_raise (w_post demo_fold) = 0 \<and>
   ci_deadline_ms (w_post demo_fold) < ci_deadline_ms (w_pre demo_fold)"
proof (intro conjI)
  show "validate_shape flat_digest demo_fold = Inr ()"
  proof (rule demo_row_shape [OF demo_fold_def])
    show "validate_state (w_pre demo_fold) = Inr ()" "validate_state (w_post demo_fold) = Inr ()"
      by (simp_all add: demo_fold_def demo_simps state_eval)
    show "ci_table_id (w_pre demo_fold) = ci_table_id (w_post demo_fold)"
      "payload_checks demo_fold = Inr ()" "sequence_check demo_fold = Inr ()"
      by (simp_all add: demo_fold_def demo_simps payload_eval)
    show "validate_transition_relation demo_fold = Inr ()"
      by (simp add: demo_fold_def demo_simps row_eval betting_eval)
  qed
qed (simp_all add: demo_fold_def demo_simps)

section \<open>A time extension that moves chips\<close>

definition demo_extension :: transition_witness where
  "demo_extension = demo_row (demo_image\<lparr>ci_current_turn := 1\<rparr>)
     (demo_image\<lparr>ci_current_turn := 1, ci_deadline_ms := 1500,
        ci_seats := (ci_seats demo_image)[1 := (demo_image_seat CSActive False 1000 0)
          \<lparr>cs_time_bank_ms := 29500, cs_key_commitment := replicate 32 2\<rparr>]\<rparr>)
     KAdvanceDeadline ((demo_action 1 500)\<lparr>ap_auxiliary := 1\<rparr>) zero32 1000"

text \<open>
  A time-bank extension, which anybody may submit, checks the clock of the acting seat and
  nothing else of it: a row in which the big blind takes its 200 chips back from the bet into
  the stack, forgets its contribution and gets another key is accepted.
\<close>

theorem extension_rows_may_move_chips:
  "validate_shape flat_digest demo_extension = Inr () \<and> permissionless (w_kind demo_extension) \<and>
   cs_bet (ci_seats (w_pre demo_extension) ! 1) = 200 \<and> cs_bet (ci_seats (w_post demo_extension) ! 1) = 0 \<and>
   cs_stack (ci_seats (w_post demo_extension) ! 1) = cs_stack (ci_seats (w_pre demo_extension) ! 1) + 200 \<and>
   cs_total_bet (ci_seats (w_post demo_extension) ! 1) = 0 \<and>
   cs_key_commitment (ci_seats (w_post demo_extension) ! 1)
     \<noteq> cs_key_commitment (ci_seats (w_pre demo_extension) ! 1)"
proof (intro conjI)
  show "validate_shape flat_digest demo_extension = Inr ()"
  proof (rule demo_row_shape [OF demo_extension_def])
    show "validate_state (w_pre demo_extension) = Inr ()" "validate_state (w_post demo_extension) = Inr ()"
      by (simp_all add: demo_extension_def demo_simps state_eval)
        (simp add: zero32_def numeral_eq_Suc)
    show "ci_table_id (w_pre demo_extension) = ci_table_id (w_post demo_extension)"
      "payload_checks demo_extension = Inr ()" "sequence_check demo_extension = Inr ()"
      by (simp_all add: demo_extension_def demo_simps payload_eval)
    show "validate_transition_relation demo_extension = Inr ()"
      by (simp add: demo_extension_def demo_simps row_eval relate_advance_deadline_def
          relate_time_bank_def time_bank_frame_def saturating_add_u64_def u64_max_def)
  qed
qed (simp_all add: demo_extension_def demo_simps permissionless_def one32_def)

section \<open>A timeout that rewrites the table\<close>

definition demo_reveal_timeout :: transition_witness where
  "demo_reveal_timeout = demo_row
     (demo_image\<lparr>ci_phase := CRevealing, ci_phase_subtag := 1, ci_current_turn := 15,
        ci_current_bet := 0, ci_min_raise := 0, ci_protocol_pending_mask := 4,
        ci_seats := demo_seats (demo_image_seat CSActive False 1000 0) (demo_image_seat CSActive False 1000 0)
          (demo_image_seat CSActive False 1000 0)\<rparr>)
     ((demo_between_hands 2000 (demo_seats (demo_reset_seat 1000) (demo_reset_seat 1000) EMPTY_SEAT))
        \<lparr>ci_hand_id := 99, ci_max_players := 9, ci_button := 15, ci_last_bb_seat := 15,
         ci_betting_timeout_ms := 0, ci_shuffle_timeout_ms := 0\<rparr>)
     KRevealTimeoutReset ((demo_action 2 1000)\<lparr>ap_proof_commitment := one32\<rparr>) zero32 1000"

text \<open>
  The two timeout rows that reset a hand have no frame check: a row that anybody may submit and
  that sets the hand number, the size of the table, the button, the blind track and the
  timeouts anew is accepted.
\<close>

theorem timeout_rows_may_rewrite_the_table:
  "validate_shape flat_digest demo_reveal_timeout = Inr () \<and>
   permissionless (w_kind demo_reveal_timeout) \<and>
   ci_hand_id (w_pre demo_reveal_timeout) = 1 \<and> ci_hand_id (w_post demo_reveal_timeout) = 99 \<and>
   ci_max_players (w_pre demo_reveal_timeout) = 3 \<and> ci_max_players (w_post demo_reveal_timeout) = 9 \<and>
   ci_button (w_post demo_reveal_timeout) = NO_CANONICAL_SEAT \<and>
   ci_betting_timeout_ms (w_pre demo_reveal_timeout) = 500 \<and>
   ci_betting_timeout_ms (w_post demo_reveal_timeout) = 0"
proof (intro conjI)
  show "validate_shape flat_digest demo_reveal_timeout = Inr ()"
  proof (rule demo_row_shape [OF demo_reveal_timeout_def])
    show "validate_state (w_pre demo_reveal_timeout) = Inr ()"
      "validate_state (w_post demo_reveal_timeout) = Inr ()"
      by (simp_all add: demo_reveal_timeout_def settle_simps state_eval)
    show "ci_table_id (w_pre demo_reveal_timeout) = ci_table_id (w_post demo_reveal_timeout)"
      "payload_checks demo_reveal_timeout = Inr ()" "sequence_check demo_reveal_timeout = Inr ()"
      by (simp_all add: demo_reveal_timeout_def settle_simps payload_eval)
    show "validate_transition_relation demo_reveal_timeout = Inr ()"
      by (simp add: demo_reveal_timeout_def settle_simps row_eval validate_reveal_timeout_reset_def
          timed_out_header_def timeout_endpoint_checks_def timeout_seat_checks_def reset_eval)
  qed
qed (simp_all add: demo_reveal_timeout_def settle_simps permissionless_def NO_CANONICAL_SEAT_def)

section \<open>A bet below the minimum\<close>

definition demo_bet :: transition_witness where
  "demo_bet = demo_row
     (demo_image\<lparr>ci_street := 2, ci_current_turn := 1, ci_current_bet := 0, ci_pot := 600,
        ci_acted_mask := 1,
        ci_seats := demo_seats (demo_image_seat CSActive True 800 0) (demo_image_seat CSActive False 800 0)
          (demo_image_seat CSActive False 800 0)\<rparr>)
     (demo_image\<lparr>ci_street := 2, ci_current_turn := 2, ci_current_bet := 1, ci_min_raise := 1,
        ci_pot := 600, ci_acted_mask := 3,
        ci_seats := demo_seats (demo_image_seat CSActive True 800 0) (demo_image_seat CSActive True 799 1)
          (demo_image_seat CSActive False 800 0)\<rparr>)
     KBet (demo_action 1 1) one32 0"

text \<open>
  A bet row has no minimum: a bet of one chip on the flop, with 800 behind and a minimum raise of
  200, is accepted and lowers the minimum raise to 1; the betting rules refuse it.
\<close>

theorem bet_rows_have_no_minimum:
  "validate_shape flat_digest demo_bet = Inr () \<and>
   process_raise (image_round (w_pre demo_bet)) 1 0 800 = Inl InvalidRaiseAmount \<and>
   min_raise (image_round (w_pre demo_bet)) = 200 \<and> min_raise (image_round (w_post demo_bet)) = 1"
proof (intro conjI)
  show "validate_shape flat_digest demo_bet = Inr ()"
  proof (rule demo_row_shape [OF demo_bet_def])
    show "validate_state (w_pre demo_bet) = Inr ()" "validate_state (w_post demo_bet) = Inr ()"
      by (simp_all add: demo_bet_def demo_simps state_eval)
    show "ci_table_id (w_pre demo_bet) = ci_table_id (w_post demo_bet)"
      "payload_checks demo_bet = Inr ()" "sequence_check demo_bet = Inr ()"
      by (simp_all add: demo_bet_def demo_simps payload_eval)
    show "validate_transition_relation demo_bet = Inr ()"
      by (simp add: demo_bet_def demo_simps row_eval betting_eval)
  qed
qed (simp_all add: demo_bet_def demo_simps image_round_def process_raise_def)

text \<open>
  A bet row keeps every other seat's acted flag, whatever its size, while the machine's bet goes
  through the raise rule and reopens the action on a full raise.
\<close>

lemma bet_rows_never_reopen:
  assumes "relate_betting w = Inr u" "w_kind w = KBet" "j < 9" "j \<noteq> ap_seat (w_action w)"
  shows "cs_acted (ci_seats (w_post w) ! j) = cs_acted (ci_seats (w_pre w) ! j)"
proof -
  have "cs_acted (ci_seats (w_post w) ! j) = expected_acted w j"
    using assms(1,3) unfolding relate_betting_def Let_def checks_Cons_iff
    by (simp add: checks_Inr_iff MAX_CANONICAL_SEATS_def)
  with assms(2,4) show ?thesis by (simp add: expected_acted_def raise_reopens_def)
qed

section \<open>A reveal that panics\<close>

definition demo_no_button :: transition_witness where
  "demo_no_button = (demo_row
     (demo_image\<lparr>ci_phase := CRevealing, ci_current_turn := 15, ci_current_bet := 0,
        ci_button := 15, ci_last_bb_seat := 15, ci_protocol_pending_mask := 4,
        ci_seats := demo_seats (demo_image_seat CSActive False 1000 0) (demo_image_seat CSActive False 1000 0)
          (demo_image_seat CSActive False 1000 0)\<rparr>)
     (demo_image\<lparr>ci_current_turn := 0, ci_deadline_ms := 1500, ci_button := 15,
        ci_last_bb_seat := 15,
        ci_seats := demo_seats (demo_image_seat CSActive False 1000 0) (demo_image_seat CSActive False 1000 0)
          (demo_image_seat CSActive False 1000 0)\<rparr>)
     KSubmitReveal ((demo_action 2 0)\<lparr>ap_proof_commitment := one32\<rparr>) one32 0)
     \<lparr>w_protocol_completion := completion_default
        \<lparr>pc_kind := CompletionReveal, pc_completion_timestamp_ms := 1000,
         pc_pre_reveal_commitment := one32, pc_post_reveal_commitment := one32,
         pc_pre_deck_commitment := one32, pc_post_deck_commitment := one32\<rparr>\<rparr>"

lemma demo_no_button_header:
  "reveal_header_checks (w_pre demo_no_button) (w_post demo_no_button)
     (w_protocol_completion demo_no_button) = Inr ()"
  by (simp add: demo_no_button_def demo_simps completion_default_def reveal_header_checks_def
      opening_detached_def capped_mask_def blind_posted_def seats_mask_def reveal_status_checks_def
      EMPTY_SEAT_def seats9 nth_Cons' checked_add_def seat_mask_bit_def MAX_CANONICAL_SEATS_def
      NO_CANONICAL_SEAT_def count_ones_def upt_rec Let_def bit_iff_odd)

lemma demo_no_button_blinds:
  "canonical_blind_seats (w_pre demo_no_button) False = Inl (Panic ''index out of bounds'')"
  "count_ones (seats_mask (\<lambda>s. cs_status s = CSActive) (ci_seats (w_pre demo_no_button))) = 3"
  by (simp_all add: demo_no_button_def demo_simps canonical_blind_seats_def rotation_base_def
      NO_CANONICAL_SEAT_def seats_mask_def EMPTY_SEAT_def seats9 nth_Cons' seat_mask_bit_def
      count_ones_def upt_rec bit_iff_odd Let_def)

lemma demo_no_button_relation:
  "relate_submit demo_no_button = Inl (Panic ''index out of bounds'')"
proof -
  have "final_submission_opening demo_no_button = Inl (Panic ''index out of bounds'')"
    using demo_no_button_header demo_no_button_blinds
    by (simp add: final_submission_opening_def validate_reveal_completion_opening_def Let_def)
      (simp add: demo_no_button_def demo_simps)
  then show ?thesis
    by (simp add: relate_submit_def Let_def)
      (simp add: demo_no_button_def demo_simps submit_phase_def seat_image_def clear_bit_def
        seat_mask_bit_def MAX_CANONICAL_SEATS_def NO_CANONICAL_SEAT_def)
qed

text \<open>
  Both images of this row are valid, and so is everything about it up to the blinds; with no
  button and no blind history the validator then indexes the seats with the no-seat sentinel
  and panics instead of refusing the row.
\<close>

theorem reveal_completion_may_panic:
  "validate_state (w_pre demo_no_button) = Inr () \<and> validate_state (w_post demo_no_button) = Inr () \<and>
   validate_shape flat_digest demo_no_button = Inl (Panic ''index out of bounds'')"
proof -
  have v: "validate_state (w_pre demo_no_button) = Inr ()" "validate_state (w_post demo_no_button) = Inr ()"
    by (simp_all add: demo_no_button_def demo_simps state_eval)
  moreover have "ci_table_id (w_pre demo_no_button) = ci_table_id (w_post demo_no_button)"
    "payload_checks demo_no_button = Inr ()" "sequence_check demo_no_button = Inr ()"
    "w_transition_commitment demo_no_button = one32" "w_nullifier demo_no_button = one32"
    by (simp_all add: demo_no_button_def demo_simps payload_eval)
  moreover have "validate_transition_relation demo_no_button = Inl (Panic ''index out of bounds'')"
    using demo_no_button_relation
    by (simp add: validate_transition_relation_def Let_def) (simp add: demo_no_button_def demo_simps)
  ultimately show ?thesis by (simp add: validate_shape_def)
qed

end
