(* ===== verification/Canon_Trace.thy ===== *)
theory Canon_Trace
  imports Canon_Gaps Poker_Replay
begin

text \<open>
  From the virtual machine to the canonical relation
  (\<^verbatim>\<open>src/src/canonical_dispatch_trace.rs\<close>, and the commitments of the deck and of the rules it
  uses): the projection of a table to its canonical image, and the rows a traced call becomes.

  Parameters: the BLAKE3 chain digest, the BLAKE2b digest of witnesses, the Poseidon commitment
  of a sequence of curve points, and the validity test of a ciphertext. Selectors and arguments
  are the bytes of the wire (\<open>Poker_Wire\<close>, \<open>Poker_Args\<close>).
\<close>

record 'pt trace_lib =
  tl_chain :: "bytes \<Rightarrow> bytes"
  tl_blake :: "bytes \<Rightarrow> bytes"
  tl_points :: "'pt list \<Rightarrow> bytes"
  tl_ct_valid :: "'pt ciphertext \<Rightarrow> bool"

section \<open>Digests\<close>

definition TRACE_DOMAIN :: bytes where "TRACE_DOMAIN = ascii ''zchain.texas.canonical-dispatch.v1''"

definition trace_digest :: "'pt trace_lib \<Rightarrow> bytes list \<Rightarrow> bytes" where
  "trace_digest L parts =
     tl_chain L (TRACE_DOMAIN @ concat (map (\<lambda>p. be_bytes 8 (length p) @ p) parts))"

text \<open>\<^verbatim>\<open>to_vec(..).unwrap_or_default()\<close>.\<close>

definition bytes_or_empty :: "bytes res \<Rightarrow> bytes" where
  "bytes_or_empty r = (case r of Inl _ \<Rightarrow> [] | Inr b \<Rightarrow> b)"

definition MAX_DECK_LEN :: nat where "MAX_DECK_LEN = 52"

definition canonical_deck_commitment :: "'pt trace_lib \<Rightarrow> 'pt ciphertext list \<Rightarrow> bytes res" where
  "canonical_deck_commitment L deck =
     (if deck = [] \<or> MAX_DECK_LEN < length deck
      then Inl (Other ''deck commitment needs 1..=52 cards'')
      else if list_ex (\<lambda>c. \<not> tl_ct_valid L c) deck
      then Inl (Other ''deck commitment rejects placeholder/identity ciphertexts'')
      else Inr (tl_points L (concat (map (\<lambda>c. [ct_c1 c, ct_c2 c]) deck))))"

definition CANONICAL_RULES_DOMAIN :: bytes where "CANONICAL_RULES_DOMAIN = ascii ''zchain.texas.rules.v2''"

definition canonical_rules_preimage :: "table_rules \<Rightarrow> bytes res" where
  "canonical_rules_preimage r = rbind (put_rules r) (\<lambda>b. Inr (CANONICAL_RULES_DOMAIN @ b))"

definition canonical_rules_commitment :: "'pt trace_lib \<Rightarrow> table_rules \<Rightarrow> bytes res" where
  "canonical_rules_commitment L r = rbind (canonical_rules_preimage r) (\<lambda>p. Inr (tl_chain L p))"

definition blind_opening_of :: "table_rules \<Rightarrow> blind_opening" where
  "blind_opening_of r = \<lparr>bo_small_blind = r_small_blind r, bo_big_blind = r_big_blind r,
     bo_ante_mode = r_ante_mode r, bo_ante_amount = r_ante_amount r\<rparr>"

definition rake_opening_of :: "table_rules \<Rightarrow> rake_opening" where
  "rake_opening_of r = \<lparr>ro_mode = r_rake_mode r, ro_bps = r_rake_bps r, ro_cap = r_rake_cap r\<rparr>"

text \<open>The check of a rules value opened from its commitment, and the decoding of the statement.\<close>

definition validate_rules_opening :: "table_rules \<Rightarrow> unit res" where
  "validate_rules_opening r = checks
     [fail_if (\<not> (r_rake_mode r = 0 \<or> r_rake_mode r = 1 \<or> r_rake_mode r = 2) \<or> 10000 < r_rake_bps r)
        ''canonical rules opening carries an out-of-range rake configuration'',
      fail_if (r_big_blind r = 0 \<or> r_big_blind r < r_small_blind r)
        ''canonical rules opening carries an out-of-range blind configuration'',
      fail_if (\<not> (r_ante_mode r = 0 \<or> r_ante_mode r = 1 \<or> r_ante_mode r = 2))
        ''canonical rules opening carries an unknown ante mode'',
      fail_if (r_ante_mode r = 0 \<and> r_ante_amount r \<noteq> 0)
        ''canonical rules opening carries ante amount without ante mode'']"

definition decode_rules_statement :: "bytes \<Rightarrow> table_rules res" where
  "decode_rules_statement message =
     (if take (length CANONICAL_RULES_DOMAIN) message \<noteq> CANONICAL_RULES_DOMAIN
      then Inl (Other ''canonical rules statement is missing its domain prefix'')
      else rbind (case from_slice get_rules (drop (length CANONICAL_RULES_DOMAIN) message) of
             Inl _ \<Rightarrow> Inl (Other ''canonical rules statement is malformed'') | Inr r \<Rightarrow> Inr r) (\<lambda>r.
           rbind (validate_rules_opening r) (\<lambda>_. Inr r)))"

section \<open>The image of a table\<close>

fun project_status :: "playing_seat_status \<Rightarrow> canonical_seat_status" where
  "project_status PActive = CSActive"
| "project_status PFolded = CSFolded"
| "project_status PAllIn = CSAllIn"

definition occupied_image :: "'pt trace_lib \<Rightarrow> canonical_seat_status \<Rightarrow> bool \<Rightarrow> nat \<Rightarrow> nat \<Rightarrow> nat \<Rightarrow> nat
    \<Rightarrow> nat \<Rightarrow> address \<Rightarrow> bytes \<Rightarrow> canonical_seat" where
  "occupied_image L st acted stack bet total_bet addon bank player hole =
     \<lparr>cs_status = st, cs_acted = acted, cs_stack = stack, cs_bet = bet, cs_total_bet = total_bet,
      cs_pending_addon = addon, cs_time_bank_ms = min bank (u32_bound - 1),
      cs_identity_commitment = trace_digest L [ascii ''identity'', player],
      cs_key_commitment = trace_digest L [ascii ''key'', player],
      cs_hole_cards_commitment = (if hole = [] then zero32 else trace_digest L [ascii ''hole'', hole])\<rparr>"

fun project_seat :: "'pt trace_lib \<Rightarrow> 'pt seat \<Rightarrow> bool \<Rightarrow> canonical_seat" where
  "project_seat L (SeatVacant bank) acted = EMPTY_SEAT\<lparr>cs_time_bank_ms := bank\<rparr>"
| "project_seat L (SeatWaiting oc) acted =
     occupied_image L CSWaiting acted (oc_stack oc) 0 0 (oc_pending_addon oc) (oc_time_bank_ms oc)
       (oc_player oc) []"
| "project_seat L (SeatDeparted player total_bet bank) acted =
     occupied_image L CSOut acted 0 0 total_bet 0 bank player []"
| "project_seat L (SeatPlaying p) acted =
     occupied_image L (project_status (pl_status p)) acted (oc_stack (pl_occupied p)) (pl_bet p)
       (pl_total_bet p) (oc_pending_addon (pl_occupied p)) (oc_time_bank_ms (pl_occupied p))
       (oc_player (pl_occupied p)) (bytes_or_empty (put_cards (pl_hand p)))"

definition protocol_pending_mask :: "'pt table \<Rightarrow> 16 word" where
  "protocol_pending_mask t = (case t_hand_phase t of
      PhaseShuffling ph \<Rightarrow> sh_pending_mask (shuffling_state ph)
    | PhaseRevealing _ st _ \<Rightarrow> foldl (\<lambda>acc a. acc OR ra_pending_mask a) 0 (rt_assignments st)
    | PhaseReconstructing _ m _ _ _ \<Rightarrow> m
    | _ \<Rightarrow> 0)"

fun reveal_purpose_tag :: "reveal_purpose \<Rightarrow> nat" where
  "reveal_purpose_tag DealHole = 1"
| "reveal_purpose_tag RevealBoard = 2"
| "reveal_purpose_tag ShowdownOwner = 3"

text \<open>Phase, subtag, street, seat to act and deadline.\<close>

fun project_phase :: "'pt hand_phase \<Rightarrow> canonical_phase \<times> nat \<times> nat \<times> nat \<times> nat" where
  "project_phase PhaseWaiting = (CWaiting, 0, 0, NO_CANONICAL_SEAT, 0)"
| "project_phase (PhaseShuffling (ShufflingInitial _ d)) = (CShuffling, 1, 0, NO_CANONICAL_SEAT, d)"
| "project_phase (PhaseShuffling (ShufflingReconstruct street _ _ d)) =
     (CShuffling, 2, street - 1, NO_CANONICAL_SEAT, d)"
| "project_phase (PhaseRevealing street st d) =
     (CRevealing, reveal_purpose_tag (rt_purpose st), street - 1, NO_CANONICAL_SEAT, d)"
| "project_phase (PhaseReconstructing street _ _ _ d) =
     (CReconstructing, 1, street - 1, NO_CANONICAL_SEAT, d)"
| "project_phase (PhaseBetting street _ turn d) = (CBetting, 1, street - 1, turn, d)"
| "project_phase (PhaseShowdownDisplay d) = (CShowdownDisplay, 1, 5, NO_CANONICAL_SEAT, d)"

definition hand_scope :: "nat \<Rightarrow> 'pt table \<Rightarrow> bytes" where
  "hand_scope table_id t = be_bytes 8 table_id @ be_bytes 8 (t_hand_id t)"

definition project_seats :: "'pt trace_lib \<Rightarrow> 'pt table \<Rightarrow> canonical_seat list" where
  "project_seats L t = map (\<lambda>i. if i < length (t_seats t)
       then project_seat L (t_seats t ! i) (t_acted_mask t AND seat_mask_bit i \<noteq> 0)
       else EMPTY_SEAT) [0..<MAX_CANONICAL_SEATS]"

definition project_state_image :: "'pt trace_lib \<Rightarrow> 'pt table \<Rightarrow> nat \<Rightarrow> canonical_state res" where
  "project_state_image L t table_id =
     (let (phase, subtag, street, turn, deadline) = project_phase (t_hand_phase t);
          timeouts = r_timeout_config (t_rules t);
          scope = hand_scope table_id t;
          board = bytes_or_empty (put_cards (t_community_cards t));
          price = (case table_betting_round t of None \<Rightarrow> (0, 0) | Some r \<Rightarrow> (current_bet r, min_raise r))
      in rbind (case ds_encrypted (t_deck_state t) of
                  DeckActive cards \<Rightarrow> canonical_deck_commitment L cards
                | DeckAbsent \<Rightarrow> Inr zero32) (\<lambda>deck.
         rbind (canonical_rules_commitment L (t_rules t)) (\<lambda>rules. Inr
         \<lparr>ci_abi_version = CANONICAL_ABI_VERSION, ci_table_id = table_id, ci_hand_id = t_hand_id t,
          ci_call_seq = t_call_seq t, ci_phase = phase, ci_phase_subtag = subtag,
          ci_street = street, ci_current_turn = turn, ci_deadline_ms = deadline,
          ci_shuffle_timeout_ms = shuffle_timeout_ms timeouts,
          ci_reveal_timeout_ms = reveal_timeout_ms timeouts,
          ci_betting_timeout_ms = betting_timeout_ms timeouts,
          ci_reconstruct_timeout_ms = reconstruct_timeout_ms timeouts,
          ci_showdown_display_ms = showdown_display_ms timeouts,
          ci_current_bet = fst price, ci_min_raise = snd price, ci_chip_pool = t_chip_pool t,
          ci_pot = t_pot t, ci_button = t_button t, ci_last_bb_seat = t_last_bb_seat t,
          ci_max_players = max_players t, ci_acted_mask = t_acted_mask t,
          ci_leave_after_hand_mask = t_leave_after_hand_mask t,
          ci_protocol_pending_mask = protocol_pending_mask t,
          ci_board_cards_commitment = trace_digest L [ascii ''board'', board],
          ci_deck_commitment = deck,
          ci_reveal_commitment = trace_digest L [ascii ''reveal'', scope, board],
          ci_reconstruction_commitment = trace_digest L [ascii ''reconstruct'', scope],
          ci_run_it_twice_commitment = trace_digest L [ascii ''rit'', scope],
          ci_rules_commitment = rules,
          ci_governance_commitment = trace_digest L [ascii ''governance'', scope],
          ci_settlement_commitment = trace_digest L [ascii ''settlement'', scope],
          ci_custody_commitment = trace_digest L [ascii ''custody'', scope, be_bytes 8 (t_chip_pool t)],
          ci_lifecycle_root = trace_digest L [ascii ''lifecycle'', scope],
          ci_overlay_root = trace_digest L [ascii ''overlay'', scope],
          ci_state_root = trace_digest L [ascii ''state-root'', scope],
          ci_seats = project_seats L t\<rparr>)))"

definition repair_deadline :: "nat \<Rightarrow> canonical_state \<Rightarrow> canonical_state" where
  "repair_deadline fallback st =
     (if ci_phase st \<noteq> CWaiting \<and> ci_deadline_ms st = 0 then st\<lparr>ci_deadline_ms := fallback\<rparr> else st)"

section \<open>Openings of a traced call\<close>

fun seat_is_playing :: "'pt seat \<Rightarrow> bool" where
  "seat_is_playing (SeatPlaying _) = True"
| "seat_is_playing _ = False"

definition participating_seats :: "'pt table \<Rightarrow> nat list" where
  "participating_seats t =
     filter (\<lambda>i. seat_is_playing (t_seats t ! i) \<and> i < max_players t) [0..<length (t_seats t)]"

definition next_participant :: "nat list \<Rightarrow> nat \<Rightarrow> nat \<Rightarrow> nat option" where
  "next_participant participants m start =
     find (\<lambda>i. i \<in> set participants) (map (\<lambda>k. (start + k) mod m) [1..<m + 1])"

definition trace_blind_seats :: "'pt table \<Rightarrow> bool \<times> nat \<times> nat" where
  "trace_blind_seats pre =
     (let participants = participating_seats pre;
          heads_up = (length participants = 2);
          base = (if t_last_bb_seat pre \<noteq> NO_CANONICAL_SEAT then t_last_bb_seat pre else t_button pre);
          next_seat = next_participant participants (max_players pre);
          bb = (case next_seat base of Some i \<Rightarrow> i | None \<Rightarrow> base)
      in if participants = [] then (heads_up, NO_CANONICAL_SEAT, NO_CANONICAL_SEAT)
         else if heads_up then (heads_up, (case next_seat bb of Some i \<Rightarrow> i | None \<Rightarrow> bb), bb)
         else (heads_up, if base \<noteq> bb \<and> base \<in> set participants then base else NO_CANONICAL_SEAT, bb))"

definition blind_amount :: "'pt table \<Rightarrow> nat \<Rightarrow> nat" where
  "blind_amount post i = (if i = NO_CANONICAL_SEAT then 0 else seat_bet (t_seats post ! i))"

definition reveal_completion_opening ::
  "canonical_state \<Rightarrow> canonical_state \<Rightarrow> 'pt table \<Rightarrow> 'pt table \<Rightarrow> nat \<Rightarrow> completion_opening" where
  "reveal_completion_opening pre_image post_image pre post timestamp_ms =
     (let op = completion_default
            \<lparr>pc_kind := CompletionReveal, pc_completion_timestamp_ms := timestamp_ms,
             pc_post_current_turn := ci_current_turn post_image, pc_sb_seat := NO_CANONICAL_SEAT,
             pc_bb_seat := NO_CANONICAL_SEAT,
             pc_pre_reveal_commitment := ci_reveal_commitment pre_image,
             pc_post_reveal_commitment := ci_reveal_commitment post_image,
             pc_pre_deck_commitment := ci_deck_commitment pre_image,
             pc_post_deck_commitment := ci_deck_commitment post_image,
             pc_pre_reconstruction_commitment := ci_reconstruction_commitment pre_image,
             pc_post_reconstruction_commitment := ci_reconstruction_commitment post_image\<rparr>;
          purpose = (case t_hand_phase pre of PhaseRevealing _ st _ \<Rightarrow> Some (rt_purpose st) | _ \<Rightarrow> None);
          (heads_up, sb, bb) = trace_blind_seats pre
      in if purpose = Some RevealBoard then
           op\<lparr>pc_kind := CompletionRevealStreet, pc_bb_amount := ci_min_raise post_image\<rparr>
         else if purpose = Some ShowdownOwner then op\<lparr>pc_kind := CompletionShowdown\<rparr>
         else op\<lparr>pc_sb_seat := sb, pc_bb_seat := bb, pc_sb_amount := blind_amount post sb,
                 pc_bb_amount := blind_amount post bb, pc_is_heads_up := heads_up\<rparr>)"

text \<open>One assignment of an opened board window; a hole-card target is skipped.\<close>

definition open_assignment ::
  "round_advance_opening \<Rightarrow> nat \<times> 'pt reveal_assignment \<Rightarrow> round_advance_opening" where
  "open_assignment op sa = (case ra_target (snd sa) of
      Hole _ _ \<Rightarrow> op
    | Board _ pos \<Rightarrow> op
        \<lparr>ra_assignments := (ra_assignments op)[fst sa :=
            \<lparr>ba_present = True, ba_encrypted_card_index = ra_index (snd sa), ba_runout_index = 0,
             ba_board_position = pos, ba_pending_mask = ra_pending_mask (snd sa),
             ba_submitted_mask = ra_submitted_mask (snd sa)\<rparr>],
         ra_assignment_count := ra_assignment_count op + 1\<rparr>)"

definition round_advance_of :: "'pt table \<Rightarrow> 'pt table \<Rightarrow> round_advance_opening" where
  "round_advance_of pre post =
     (let op = round_advance_default
            \<lparr>ra_pre_cards_dealt := ds_cards_dealt (t_deck_state pre),
             ra_post_cards_dealt := ds_cards_dealt (t_deck_state post),
             ra_pre_board_len := length (as_slice (t_community_cards pre)),
             ra_post_board_len := length (as_slice (t_community_cards post))\<rparr>
      in case t_hand_phase post of
           PhaseRevealing _ st _ \<Rightarrow>
             (if rt_purpose st = RevealBoard then
                foldl open_assignment (op\<lparr>ra_reveal_purpose := 2\<rparr>)
                  (take MAX_CANONICAL_BOARD_REVEAL_ASSIGNMENTS
                    (zip [0..<length (rt_assignments st)] (rt_assignments st)))
              else if rt_purpose st = ShowdownOwner then op\<lparr>ra_reveal_purpose := 3\<rparr>
              else op)
         | _ \<Rightarrow> op)"

section \<open>The action of a traced call\<close>

record 'pt step_record =
  sr_step :: normalization_step
  sr_pre :: "'pt table"
  sr_post :: "'pt table"

record 'pt dispatch_record =
  dr_selector :: bytes
  dr_args :: bytes
  dr_timestamp_ms :: nat
  dr_pre :: "'pt table"
  dr_post :: "'pt table"
  dr_steps :: "'pt step_record list"

definition kind_of_selector :: "('pt, 'pf) wire_lib \<Rightarrow> bytes \<Rightarrow> transition_kind option" where
  "kind_of_selector W s =
     (if s = selector (wl_hash W) CFold then Some KFold
      else if s = selector (wl_hash W) CCheck then Some KCheck
      else if s = selector (wl_hash W) CCall then Some KCall
      else if s = selector (wl_hash W) CRaise then Some KRaise
      else if s = selector (wl_hash W) CBet then Some KBet
      else if s = selector (wl_hash W) SubmitPlayerRevealTokens then Some KSubmitReveal
      else None)"

definition command_seat :: "('pt, 'pf) wire_lib \<Rightarrow> 'pt dispatch_record \<Rightarrow> nat" where
  "command_seat W r = (case from_slice get_seat_args (dr_args r) of
      Inr i \<Rightarrow> i
    | Inl _ \<Rightarrow> (case from_slice get_raise_args (dr_args r) of
        Inr (i, _) \<Rightarrow> i
      | Inl _ \<Rightarrow> (case from_slice (get_reveal_args W) (dr_args r) of
          Inr (i, _) \<Rightarrow> i
        | Inl _ \<Rightarrow> 0)))"

definition actor_bytes :: "('pt, 'pf) wire_lib \<Rightarrow> 'pt dispatch_record \<Rightarrow> transition_kind \<Rightarrow> bytes" where
  "actor_bytes W r k =
     (let i = command_seat W r; seats = t_seats (dr_pre r) in
      if permissionless k then zero32
      else if i < length seats \<and> seat_player (seats ! i) \<noteq> EMPTY_PLAYER
      then replicate 12 0 @ seat_player (seats ! i) else zero32)"

definition call_amount :: "'pt table \<Rightarrow> nat \<Rightarrow> nat" where
  "call_amount t i = (case table_betting_round t of
      None \<Rightarrow> 0
    | Some r \<Rightarrow>
        (if i < length (t_seats t) \<and> seat_is_playing (t_seats t ! i)
         then min (saturating_sub (current_bet r) (seat_bet (t_seats t ! i))) (seat_stack (t_seats t ! i))
         else 0))"

definition command_amount :: "('pt, 'pf) wire_lib \<Rightarrow> 'pt dispatch_record \<Rightarrow> transition_kind \<Rightarrow> nat" where
  "command_amount W r k =
     (if k = KRaise then
        (case from_slice get_raise_args (dr_args r) of Inr (_, n) \<Rightarrow> n | Inl _ \<Rightarrow> 0)
      else if k = KCall then call_amount (dr_pre r) (command_seat W r)
      else 0)"

definition command_proof ::
  "'pt trace_lib \<Rightarrow> ('pt, 'pf) wire_lib \<Rightarrow> 'pt dispatch_record \<Rightarrow> transition_kind \<Rightarrow> bytes" where
  "command_proof L W r k =
     (if k = KSubmitReveal then
        (case from_slice (get_reveal_args W) (dr_args r) of
           Inr (_, tokens, _) \<Rightarrow> trace_digest L [ascii ''proof'',
             bytes_or_empty (put_vec (pc_put_point (wl_points W)) tokens)]
         | Inl _ \<Rightarrow> zero32)
      else if carries_crypto_proof k then trace_digest L [ascii ''args'', dr_args r]
      else zero32)"

definition command_action ::
  "'pt trace_lib \<Rightarrow> ('pt, 'pf) wire_lib \<Rightarrow> 'pt dispatch_record \<Rightarrow> transition_kind \<Rightarrow> action_payload" where
  "command_action L W r k = \<lparr>ap_seat = command_seat W r, ap_amount = command_amount W r k,
     ap_auxiliary = 0, ap_flag = False, ap_proof_commitment = command_proof L W r k\<rparr>"

section \<open>The rows of a traced call\<close>

definition completion_index :: "transition_kind \<Rightarrow> 'pt step_record list \<Rightarrow> nat option res" where
  "completion_index k steps =
     (if k = KSubmitReveal then
        (case position (\<lambda>s. sr_step s = NCompleteReveal) steps of
           None \<Rightarrow> Inr None
         | Some n \<Rightarrow>
             (if n = 0 \<or> n = 1 \<and> sr_step (steps ! 0) = NAdvanceBettingRound then Inr (Some n)
              else Inl (Other ''unsupported completion cascade shape'')))
      else Inr None)"

text \<open>The table after the command itself: before the first row of its own, or at the end.\<close>

definition command_post :: "'pt dispatch_record \<Rightarrow> nat option \<Rightarrow> 'pt table" where
  "command_post r idx = (case idx of
      Some n \<Rightarrow> (if n = 1 then sr_pre (dr_steps r ! 0) else dr_post r)
    | None \<Rightarrow> (case dr_steps r of s # _ \<Rightarrow> sr_pre s | [] \<Rightarrow> dr_post r))"

definition or_else :: "nat option \<Rightarrow> nat \<Rightarrow> nat" where
  "or_else x d = (case x of Some y \<Rightarrow> y | None \<Rightarrow> d)"

definition next_seq :: "nat \<Rightarrow> nat" where
  "next_seq n = (n + 1) mod u32_bound"

definition trace_row :: "'pt trace_lib \<Rightarrow> canonical_state \<Rightarrow> canonical_state \<Rightarrow> nat \<Rightarrow> transition_kind
    \<Rightarrow> bytes \<Rightarrow> action_payload \<Rightarrow> round_advance_opening \<Rightarrow> completion_opening \<Rightarrow> blind_opening
    \<Rightarrow> transition_witness" where
  "trace_row L pre post seq k actor action advance completion blinds = seal (tl_blake L)
     \<lparr>w_pre = pre\<lparr>ci_call_seq := seq\<rparr>, w_post = post\<lparr>ci_call_seq := next_seq seq\<rparr>, w_kind = k,
      w_actor = actor, w_action = action, w_round_advance = advance,
      w_protocol_completion = completion, w_rake_opening = RAKE_ZERO, w_blind_opening = blinds,
      w_transition_commitment = zero32, w_nullifier = zero32, w_deadline_height = 0\<rparr>"

text \<open>
  The row of the command: its images, with repaired deadlines, and the completion opening if the
  call completed a reveal window. \<open>last_deadline\<close> is the deadline the previous row ended with.
\<close>

definition command_row :: "'pt trace_lib \<Rightarrow> ('pt, 'pf) wire_lib \<Rightarrow> nat \<Rightarrow> 'pt dispatch_record
    \<Rightarrow> transition_kind \<Rightarrow> nat option \<Rightarrow> nat \<Rightarrow> nat option \<Rightarrow> transition_witness res" where
  "command_row L W table_id r k idx seq last_deadline =
     rbind (project_state_image L (dr_pre r) table_id) (\<lambda>pre0.
     rbind (if idx \<noteq> None then project_state_image L (command_post r idx) table_id else Inr pre0) (\<lambda>_.
     rbind (project_state_image L (dr_post r) table_id) (\<lambda>end0.
     rbind (project_state_image L (command_post r idx) table_id) (\<lambda>post0.
       let pre = repair_deadline (or_else last_deadline (ci_deadline_ms pre0)) pre0;
           opening = reveal_completion_opening pre0 post0 (dr_pre r) (command_post r idx) (dr_timestamp_ms r);
           timeout = (if pc_kind opening = CompletionShowdown then ci_showdown_display_ms pre
                      else ci_betting_timeout_ms pre);
           post = (if idx \<noteq> None
                   then post0\<lparr>ci_deadline_ms := saturating_add_u64 (dr_timestamp_ms r) timeout\<rparr>
                   else repair_deadline (ci_deadline_ms end0) post0)
       in Inr (trace_row L pre post seq k (actor_bytes W r k) (command_action L W r k)
            round_advance_default (if idx \<noteq> None then opening else completion_default)
            (if idx \<noteq> None then blind_opening_of (t_rules (dr_pre r)) else BLIND_ZERO))))))"

definition step_kind :: "'pt step_record \<Rightarrow> (transition_kind \<times> round_advance_opening) res" where
  "step_kind s = (case sr_step s of
      NAdvanceBettingRound \<Rightarrow> Inr (KAdvanceRound, round_advance_of (sr_pre s) (sr_post s))
    | NEndWithoutShowdown \<Rightarrow> Inr (KEndWithoutShowdown, round_advance_default)
    | _ \<Rightarrow> Inl (Other ''unmodeled normalization step after the command row''))"

definition NO_SEAT_ACTION :: action_payload where
  "NO_SEAT_ACTION = \<lparr>ap_seat = NO_CANONICAL_SEAT, ap_amount = 0, ap_auxiliary = 0, ap_flag = False,
     ap_proof_commitment = zero32\<rparr>"

definition step_row :: "'pt trace_lib \<Rightarrow> nat \<Rightarrow> 'pt step_record \<Rightarrow> nat \<Rightarrow> nat \<Rightarrow> nat \<Rightarrow> transition_witness res" where
  "step_row L table_id s seq last_deadline end_deadline =
     rbind (step_kind s) (\<lambda>(k, advance).
     rbind (project_state_image L (sr_pre s) table_id) (\<lambda>pre.
     rbind (project_state_image L (sr_post s) table_id) (\<lambda>post.
       Inr (trace_row L (repair_deadline last_deadline pre) (repair_deadline end_deadline post) seq k
         zero32 NO_SEAT_ACTION advance completion_default BLIND_ZERO))))"

text \<open>The state of the loop: the rows so far, the next sequence number, the last deadline.\<close>

type_synonym trace_state = "transition_witness list \<times> nat \<times> nat option"

definition push_row :: "trace_state \<Rightarrow> transition_witness \<Rightarrow> trace_state" where
  "push_row st w = (fst st @ [w], next_seq (fst (snd st)), Some (ci_deadline_ms (w_post w)))"

definition step_rows :: "'pt trace_lib \<Rightarrow> nat \<Rightarrow> nat option \<Rightarrow> nat \<Rightarrow> nat \<Rightarrow> trace_state
    \<Rightarrow> nat \<times> 'pt step_record \<Rightarrow> trace_state res" where
  "step_rows L table_id idx armed end_deadline st ns =
     (if Some (fst ns) = idx then Inr st
      else rbind (step_row L table_id (snd ns) (fst (snd st)) (or_else (snd (snd st)) armed) end_deadline)
        (\<lambda>w. Inr (push_row st w)))"

definition record_rows :: "'pt trace_lib \<Rightarrow> ('pt, 'pf) wire_lib \<Rightarrow> nat \<Rightarrow> trace_state
    \<Rightarrow> 'pt dispatch_record \<Rightarrow> trace_state res" where
  "record_rows L W table_id st r =
     rbind (ok_or (kind_of_selector W (dr_selector r))
       (Other ''dispatch trace contains a selector outside the supported row families'')) (\<lambda>k.
     rbind (completion_index k (dr_steps r)) (\<lambda>idx.
     rbind (command_row L W table_id r k idx (fst (snd st)) (snd (snd st))) (\<lambda>w.
     rbind (project_state_image L (dr_pre r) table_id) (\<lambda>pre.
     rbind (project_state_image L (dr_post r) table_id) (\<lambda>post.
       try_fold (step_rows L table_id idx (ci_deadline_ms pre) (ci_deadline_ms post)) (push_row st w)
         (zip [0..<length (dr_steps r)] (dr_steps r)))))))"

definition witnesses_from_dispatch_records ::
  "'pt trace_lib \<Rightarrow> ('pt, 'pf) wire_lib \<Rightarrow> 'pt dispatch_record list \<Rightarrow> nat \<Rightarrow> transition_witness list res" where
  "witnesses_from_dispatch_records L W records table_id =
     (let seq = (case records of [] \<Rightarrow> 0 | r # _ \<Rightarrow> t_call_seq (dr_pre r))
      in rbind (try_fold (record_rows L W table_id) ([], seq, None) records) (\<lambda>st. Inr (fst st)))"

section \<open>The projection and the vault\<close>

lemma project_state_imageD:
  assumes "project_state_image L t table_id = Inr st"
  shows "ci_seats st = project_seats L t" "ci_pot st = t_pot t" "ci_chip_pool st = t_chip_pool t"
    "ci_max_players st = max_players t"
  using assms by (auto simp: project_state_image_def result_simps Let_def split: prod.splits)

definition table_seat_chips :: "'pt seat \<Rightarrow> nat" where
  "table_seat_chips s = seat_stack s + seat_pending_addon s + seat_bet s"

lemma project_seat_chips: "seat_chips (project_seat L s acted) = table_seat_chips s"
  by (cases s) (simp_all add: occupied_image_def seat_chips_def EMPTY_SEAT_def table_seat_chips_def)

lemma project_seats_chips:
  assumes "length (t_seats t) = 9"
  shows "sum_list (map seat_chips (project_seats L t)) = sum_list (map table_seat_chips (t_seats t))"
proof -
  have "map seat_chips (project_seats L t) = map table_seat_chips (t_seats t)"
    using assms by (auto simp: project_seats_def project_seat_chips MAX_CANONICAL_SEATS_def intro: nth_equalityI)
  then show ?thesis by simp
qed

text \<open>
  C20. The image of a table shows the same chips: its custody check succeeds exactly when the vault of
  the table is the pot and everything its seats hold, added without overflow.
\<close>

theorem projection_keeps_the_custody:
  assumes "project_state_image L t table_id = Inr st" "length (t_seats t) = 9" "t_pot t < u64_bound"
  shows "accounted_chips st = Some (ci_chip_pool st) \<longleftrightarrow>
     t_chip_pool t = t_pot t + sum_list (map table_seat_chips (t_seats t)) \<and> t_chip_pool t < u64_bound"
  using project_state_imageD [OF assms(1)] project_seats_chips [OF assms(2), of L] assms(3)
  by (auto simp: accounted_Some_iff held_chips_def)

section \<open>Rules openings\<close>

text \<open>
  The preimage of a rules commitment decodes to the rules it was made from, so an opening that
  is checked against the commitment shows the rules of the table.
\<close>

theorem rules_statement_roundtrip:
  assumes "ok_rules r" "canonical_rules_preimage r = Inr message" "validate_rules_opening r = Inr ()"
  shows "decode_rules_statement message = Inr r"
proof -
  obtain b where b: "put_rules r = Inr b" "message = CANONICAL_RULES_DOMAIN @ b"
    using assms(2) by (auto simp: canonical_rules_preimage_def result_simps)
  have "from_slice get_rules b = Inr r"
    by (rule reads_back.from_slice_put [OF rules_law assms(1) b(1)])
  with b(2) assms(3) show ?thesis by (simp add: decode_rules_statement_def)
qed

definition trace_rules :: table_rules where
  "trace_rules = rules_new 6 5 10"

theorem rules_statement_roundtrip_witness:
  "\<exists>message. canonical_rules_preimage trace_rules = Inr message \<and>
     decode_rules_statement message = Inr trace_rules"
proof -
  have "ok_rules trace_rules" "validate_rules_opening trace_rules = Inr ()"
    "\<exists>message. canonical_rules_preimage trace_rules = Inr message"
    by (simp_all add: trace_rules_def rules_new_def ok_rules_def ok_timeouts_def timeout_default_def
        result_simps validate_rules_opening_def canonical_rules_preimage_def put_rules_def put_timeouts_def
        put_uint_def RAKE_MODE_NONE_def ANTE_MODE_NONE_def DEFAULT_RAKE_BPS_def DEFAULT_RAKE_CAP_def
        RIT_MODE_DISABLED_def)
  then show ?thesis using rules_statement_roundtrip by blast
qed

text \<open>
  The check is not the table's own: rules with an ante amount and no ante mode are valid for the
  table and refused as an opening, rules with the burning rake mode are the other way round.
\<close>

lemma rules_opening_differs:
  "rules_validate (trace_rules\<lparr>r_ante_amount := 1\<rparr>) = Inr ()"
  "validate_rules_opening (trace_rules\<lparr>r_ante_amount := 1\<rparr>) \<noteq> Inr ()"
  "rules_validate (trace_rules\<lparr>r_rake_mode := 2\<rparr>) \<noteq> Inr ()"
  "validate_rules_opening (trace_rules\<lparr>r_rake_mode := 2\<rparr>) = Inr ()"
  by (simp_all add: trace_rules_def rules_new_def rules_validate_def validate_rules_opening_def
      timeout_default_def MAX_SEATS_def ANTE_MODE_NONE_def ANTE_MODE_NORMAL_def ANTE_MODE_BBA_def
      RAKE_MODE_NONE_def RAKE_MODE_PERCENTAGE_def DEFAULT_RAKE_BPS_def DEFAULT_RAKE_CAP_def
      RIT_MODE_DISABLED_def RIT_MODE_TWICE_def)

section \<open>Rows the relation refuses\<close>

text \<open>What every produced settlement or bet row carries.\<close>

definition row_payload :: "transition_witness \<Rightarrow> bool" where
  "row_payload w \<longleftrightarrow> (w_kind w = KEndWithoutShowdown \<longrightarrow> ap_seat (w_action w) = NO_CANONICAL_SEAT)
     \<and> (w_kind w = KBet \<longrightarrow> ap_amount (w_action w) = 0)"

lemma trace_row_simps [simp]:
  "w_kind (trace_row L pre post seq k actor action advance completion blinds) = k"
  "w_action (trace_row L pre post seq k actor action advance completion blinds) = action"
  by (simp_all add: trace_row_def seal_def Let_def)

lemma kind_of_selector_cases:
  "kind_of_selector W s = Some k \<Longrightarrow> k \<noteq> KEndWithoutShowdown"
  by (auto simp: kind_of_selector_def split: if_splits)

lemma command_row_payload:
  assumes "command_row L W table_id r k idx seq last_deadline = Inr w" "k \<noteq> KEndWithoutShowdown"
  shows "row_payload w"
  using assms by (auto simp: command_row_def result_simps Let_def row_payload_def command_action_def
      command_amount_def)

lemma step_row_payload: "step_row L table_id s seq last_deadline end_deadline = Inr w \<Longrightarrow> row_payload w"
  by (auto simp: step_row_def result_simps row_payload_def NO_SEAT_ACTION_def step_kind_def
      split: normalization_step.splits)

lemma record_rows_payload:
  assumes "record_rows L W table_id st r = Inr st'" "\<forall>w\<in>set (fst st). row_payload w"
  shows "\<forall>w\<in>set (fst st'). row_payload w"
proof -
  from assms(1) obtain k idx w and pre post :: canonical_state where
    k: "kind_of_selector W (dr_selector r) = Some k" and
    w: "command_row L W table_id r k idx (fst (snd st)) (snd (snd st)) = Inr w" and
    f: "try_fold (step_rows L table_id idx (ci_deadline_ms pre) (ci_deadline_ms post)) (push_row st w)
          (zip [0..<length (dr_steps r)] (dr_steps r)) = Inr st'"
    unfolding record_rows_def rbind_Inr_iff ok_or_Inr_iff by blast
  show ?thesis
  proof (rule try_fold_invariant [OF f, where P = "\<lambda>st. \<forall>w\<in>set (fst st). row_payload w"])
    show "\<forall>v\<in>set (fst (push_row st w)). row_payload v"
      using command_row_payload [OF w kind_of_selector_cases [OF k]] assms(2) by (auto simp: push_row_def)
    fix s x s' assume "\<forall>w\<in>set (fst s). row_payload w"
      "step_rows L table_id idx (ci_deadline_ms pre) (ci_deadline_ms post) s x = Inr s'"
    then show "\<forall>w\<in>set (fst s'). row_payload w"
      by (auto simp: step_rows_def result_simps push_row_def step_row_payload split: if_splits)
  qed
qed

lemma traced_rows_payload:
  assumes "witnesses_from_dispatch_records L W records table_id = Inr ws" "w \<in> set ws"
  shows "row_payload w"
proof -
  from assms(1) obtain st where
    "try_fold (record_rows L W table_id)
       ([], (case records of [] \<Rightarrow> 0 | r # _ \<Rightarrow> t_call_seq (dr_pre r)), None) records = Inr st" "ws = fst st"
    by (auto simp: witnesses_from_dispatch_records_def result_simps Let_def)
  note st = this
  have "\<forall>w\<in>set (fst st). row_payload w"
    by (rule try_fold_invariant [OF st(1), where P = "\<lambda>st. \<forall>w\<in>set (fst st). row_payload w"])
      (auto dest: record_rows_payload)
  with \<open>ws = fst st\<close> assms(2) show ?thesis by simp
qed

text \<open>
  C21. The rows produced for a settlement without showdown name no seat, and those produced for a bet
  carry no amount; the relation asks for the winner's seat and for a positive amount. So no
  produced row of these two kinds is ever accepted, whatever the trace.
\<close>

theorem traced_bets_and_settlements_are_refused:
  assumes "witnesses_from_dispatch_records L W records table_id = Inr ws" "w \<in> set ws"
    and "w_kind w = KEndWithoutShowdown \<or> w_kind w = KBet"
  shows "validate_shape blake w \<noteq> Inr ()"
proof
  assume shape: "validate_shape blake w = Inr ()"
  note payload = traced_rows_payload [OF assms(1,2), unfolded row_payload_def]
  show False
  proof (cases "w_kind w = KBet")
    case True
    then have "relate_betting w = Inr ()" by (intro betting_shapeD [OF shape]) (simp add: betting_kind_def)
    from betting_rowD(1) [OF this] True payload show False
      by (simp add: relate_betting_seat_def relate_bet_seat_def Let_def)
  next
    case False
    with assms(3) payload have "w_kind w = KEndWithoutShowdown" "ap_seat (w_action w) = 15"
      by (simp_all add: NO_CANONICAL_SEAT_def)
    moreover have "ci_max_players (w_pre w) \<le> 9"
      using shapeD(1) [OF shape] unfolding validate_state_def checks_Cons_iff
      by (simp add: MAX_CANONICAL_SEATS_def)
    ultimately show False
      using shapeD(6) [OF shape] unfolding payload_checks_def Let_def checks_Cons_iff
      by (simp add: requires_seat_def)
  qed
qed

text \<open>
  C22. A table with a player who left during the hand has no valid image: the projection keeps a key
  commitment for the departed seat and the validator demands that it is zero.
\<close>

theorem departed_seats_have_no_valid_image:
  assumes "project_state_image L t table_id = Inr st" "i < 9" "i < length (t_seats t)"
    and "t_seats t ! i = SeatDeparted player total_bet bank"
    and "trace_digest L [ascii ''key'', player] \<noteq> zero32"
  shows "validate_state st \<noteq> Inr ()"
proof
  assume v: "validate_state st = Inr ()"
  have seat: "cs_status (ci_seats st ! i) = CSOut" "cs_key_commitment (ci_seats st ! i) \<noteq> zero32"
    "i < length (ci_seats st)"
    using project_state_imageD(1) [OF assms(1)] assms(2-)
    by (simp_all add: project_seats_def MAX_CANONICAL_SEATS_def occupied_image_def)
  have "image_seat_checks st i (ci_seats st ! i) = Inr ()"
    using v seat(3) unfolding validate_state_def checks_Cons_iff by (simp add: checks_Inr_iff)
  with seat(1,2) show False by (simp add: image_seat_checks_def validate_seat_def)
qed

section \<open>A concrete trace\<close>

definition flat_lib :: "int trace_lib" where
  "flat_lib = \<lparr>tl_chain = flat_digest, tl_blake = flat_digest, tl_points = (\<lambda>_. one32),
     tl_ct_valid = (\<lambda>_. True)\<rparr>"

text \<open>A table between hands with one player waiting and one who left.\<close>

definition trace_table :: "int table" where
  "trace_table = stored_table\<lparr>t_seats := [SeatWaiting \<lparr>oc_player = replicate 20 5, oc_stack = 100, oc_pk = 3,
       oc_tx_pk = \<lparr>stk_tag = encode_tag Stark CURRENT_VERSION, stk_raw = replicate 32 9\<rparr>,
       oc_pending_addon = 0, oc_time_bank_ms = 30000\<rparr>, SeatDeparted (replicate 20 7) 50 30000]
       @ replicate 7 seat_empty,
     t_pot := 20, t_chip_pool := 120, t_deck_state := deck_default\<rparr>"

lemma trace_table_seats: "length (t_seats trace_table) = 9" "t_seats trace_table ! 1 = SeatDeparted (replicate 20 7) 50 30000"
  "t_pot trace_table = 20" "t_chip_pool trace_table = 120"
  by (simp_all add: trace_table_def)

lemma trace_table_image: "\<exists>st. project_state_image flat_lib trace_table 5 = Inr st"
proof -
  obtain b where "put_rules (t_rules trace_table) = Inr b"
    by (simp add: put_rules_def put_timeouts_def put_uint_def)
  then show ?thesis
    by (simp add: project_state_image_def canonical_rules_commitment_def canonical_rules_preimage_def
        trace_table_def deck_default_def Let_def split: prod.splits)
qed

theorem projection_keeps_the_custody_witness:
  "\<exists>st. project_state_image flat_lib trace_table 5 = Inr st \<and> accounted_chips st = Some (ci_chip_pool st)"
proof -
  obtain st where st: "project_state_image flat_lib trace_table 5 = Inr st" using trace_table_image by blast
  have "sum_list (map table_seat_chips (t_seats trace_table)) = 100"
    by (simp add: trace_table_def table_seat_chips_def seat_empty_def sum_list_replicate)
  with projection_keeps_the_custody [OF st] st show ?thesis by (auto simp: trace_table_seats)
qed

theorem departed_seats_have_no_valid_image_witness:
  "\<exists>st. project_state_image flat_lib trace_table 5 = Inr st \<and> validate_state st \<noteq> Inr ()"
proof -
  obtain st where st: "project_state_image flat_lib trace_table 5 = Inr st" using trace_table_image by blast
  have "trace_digest flat_lib [ascii ''key'', replicate 20 7] \<noteq> zero32"
    by (simp add: trace_digest_def flat_lib_def flat_digest_def)
  from departed_seats_have_no_valid_image [OF st _ _ trace_table_seats(2) this] st show ?thesis
    by (auto simp: trace_table_seats)
qed

definition trace_bet :: "int dispatch_record" where
  "trace_bet = \<lparr>dr_selector = selector id CBet, dr_args = [0, 100, 0, 0, 0, 0, 0, 0, 0],
     dr_timestamp_ms = 1000, dr_pre = trace_table, dr_post = trace_table, dr_steps = []\<rparr>"

text \<open>A call without normalisation steps becomes one row.\<close>

lemma record_rows_plain:
  assumes "kind_of_selector W (dr_selector r) = Some k" "k \<noteq> KSubmitReveal" "dr_steps r = []"
    and "project_state_image L (dr_pre r) table_id = Inr a" "project_state_image L (dr_post r) table_id = Inr b"
  shows "\<exists>w. record_rows L W table_id s r = Inr (push_row s w) \<and> w_kind w = k"
proof -
  have "\<exists>w. command_row L W table_id r k None (fst (snd s)) (snd (snd s)) = Inr w \<and> w_kind w = k"
    using assms(3-5) by (simp add: command_row_def command_post_def Let_def)
  then obtain w where "command_row L W table_id r k None (fst (snd s)) (snd (snd s)) = Inr w" "w_kind w = k"
    by blast
  with assms show ?thesis by (auto simp: record_rows_def completion_index_def)
qed

lemma trace_bet_rows:
  "\<exists>w. witnesses_from_dispatch_records flat_lib demo_wire [trace_bet] 5 = Inr [w] \<and> w_kind w = KBet"
proof -
  obtain st where st: "project_state_image flat_lib trace_table 5 = Inr st" using trace_table_image by blast
  have k: "kind_of_selector demo_wire (selector id CBet) = Some KBet"
    by (simp add: kind_of_selector_def demo_wire_def selector_def compute_method_selector_def
        selector_name_def text_bytes_def)
  obtain w where w: "record_rows flat_lib demo_wire 5 ([], t_call_seq trace_table, None) trace_bet
      = Inr (push_row ([], t_call_seq trace_table, None) w)" "w_kind w = KBet"
    using record_rows_plain [of demo_wire trace_bet KBet flat_lib 5 st st "([], t_call_seq trace_table, None)"] st k
    by (auto simp: trace_bet_def)
  have "dr_pre trace_bet = trace_table" by (simp add: trace_bet_def)
  with w show ?thesis
    by (simp add: witnesses_from_dispatch_records_def push_row_def)
qed

theorem traced_bets_and_settlements_are_refused_witness:
  "\<exists>w. witnesses_from_dispatch_records flat_lib demo_wire [trace_bet] 5 = Inr [w] \<and>
     validate_shape flat_digest w \<noteq> Inr ()"
proof -
  obtain w where w: "witnesses_from_dispatch_records flat_lib demo_wire [trace_bet] 5 = Inr [w]" "w_kind w = KBet"
    using trace_bet_rows by blast
  from traced_bets_and_settlements_are_refused [OF w(1)] w show ?thesis by auto
qed

end
