(* ===== verification/Canon_Binding.thy ===== *)
theory Canon_Binding
  imports Canon_Batches
begin

text \<open>
  The transition commitment of a witness binds its content: the encoding of a witness is
  injective on the values Rust's types admit, so two accepted rows with the same commitment are
  the same row unless the digest collides.
\<close>

section \<open>The values of the types\<close>

definition typed_action :: "action_payload \<Rightarrow> bool" where
  "typed_action a \<longleftrightarrow> ap_seat a < 2 ^ 8 \<and> ap_amount a < u64_bound \<and> ap_auxiliary a < u64_bound
     \<and> length (ap_proof_commitment a) = 32"

definition typed_assignment :: "board_reveal_assignment \<Rightarrow> bool" where
  "typed_assignment a \<longleftrightarrow> ba_encrypted_card_index a < 2 ^ 8 \<and> ba_runout_index a < 2 ^ 8
     \<and> ba_board_position a < 2 ^ 8"

definition typed_round_advance :: "round_advance_opening \<Rightarrow> bool" where
  "typed_round_advance r \<longleftrightarrow> ra_pre_cards_dealt r < 2 ^ 8 \<and> ra_post_cards_dealt r < 2 ^ 8
     \<and> ra_pre_board_len r < 2 ^ 8 \<and> ra_post_board_len r < 2 ^ 8
     \<and> ra_pre_second_board_len r < 2 ^ 8 \<and> ra_post_second_board_len r < 2 ^ 8
     \<and> ra_reveal_purpose r < 2 ^ 8 \<and> ra_assignment_count r < 2 ^ 8
     \<and> length (ra_assignments r) = 6 \<and> (\<forall>a\<in>set (ra_assignments r). typed_assignment a)"

definition typed_completion :: "completion_opening \<Rightarrow> bool" where
  "typed_completion c \<longleftrightarrow> pc_completion_timestamp_ms c < u64_bound \<and> pc_pre_cards_dealt c < 2 ^ 8
     \<and> pc_post_cards_dealt c < 2 ^ 8 \<and> pc_post_current_turn c < 2 ^ 8 \<and> pc_sb_seat c < 2 ^ 8
     \<and> pc_bb_seat c < 2 ^ 8 \<and> pc_sb_amount c < u64_bound \<and> pc_bb_amount c < u64_bound
     \<and> length (pc_suspended_reveal_commitment c) = 32 \<and> length (pc_pre_reveal_commitment c) = 32
     \<and> length (pc_post_reveal_commitment c) = 32 \<and> length (pc_pre_deck_commitment c) = 32
     \<and> length (pc_post_deck_commitment c) = 32 \<and> length (pc_pre_reconstruction_commitment c) = 32
     \<and> length (pc_post_reconstruction_commitment c) = 32"

definition typed_rake :: "rake_opening \<Rightarrow> bool" where
  "typed_rake r \<longleftrightarrow> ro_mode r < 2 ^ 8 \<and> ro_bps r < 2 ^ 16 \<and> ro_cap r < u64_bound"

definition typed_blind :: "blind_opening \<Rightarrow> bool" where
  "typed_blind b \<longleftrightarrow> bo_small_blind b < u64_bound \<and> bo_big_blind b < u64_bound
     \<and> bo_ante_mode b < 2 ^ 8 \<and> bo_ante_amount b < u64_bound"

definition typed_witness :: "transition_witness \<Rightarrow> bool" where
  "typed_witness w \<longleftrightarrow> typed_state (w_pre w) \<and> typed_state (w_post w) \<and> length (w_actor w) = 32
     \<and> typed_action (w_action w) \<and> typed_round_advance (w_round_advance w)
     \<and> typed_completion (w_protocol_completion w) \<and> typed_rake (w_rake_opening w)
     \<and> typed_blind (w_blind_opening w) \<and> length (w_transition_commitment w) = 32
     \<and> length (w_nullifier w) = 32 \<and> w_deadline_height w < u64_bound"

section \<open>Every part has one encoding\<close>

text \<open>Two concatenations of pieces of the same widths are equal piece by piece.\<close>

lemma pieces_eq: "concat xs = concat ys \<Longrightarrow> map length xs = map length ys \<Longrightarrow> xs = ys"
  by (simp add: concat_same_widths)

lemma kind_tag_inj [simp]: "kind_tag k = kind_tag k' \<longleftrightarrow> k = k'"
  by (cases k; cases k'; simp)

lemma kind_tag_bound [simp]: "kind_tag k < 256"
  by (cases k) simp_all

lemma completion_tag_inj [simp]: "completion_tag k = completion_tag k' \<longleftrightarrow> k = k'"
  by (cases k; cases k') simp_all

lemma completion_tag_bound [simp]: "completion_tag k < 256"
  by (cases k) simp_all

lemma tag_bytes_inj:
  "int_bytes 1 (kind_tag k) = int_bytes 1 (kind_tag k') \<longleftrightarrow> k = k'"
  "int_bytes 1 (completion_tag c) = int_bytes 1 (completion_tag c') \<longleftrightarrow> c = c'"
  by (subst int_bytes_inj; simp)+

lemmas piece_simps = int_bytes_inj of_bool_byte mask_bytes_inj tag_bytes_inj

lemma action_bytes_inj:
  assumes "typed_action a" "typed_action b" "action_bytes a = action_bytes b"
  shows "a = b"
proof -
  note eq = pieces_eq [OF assms(3) [unfolded action_bytes_def]]
  show ?thesis
    using eq assms(1,2) unfolding typed_action_def
    by (cases a; cases b) (simp add: piece_simps del: int_bytes.simps One_nat_def)
qed

lemma assignment_bytes_inj:
  assumes "typed_assignment a" "typed_assignment b" "assignment_bytes a = assignment_bytes b"
  shows "a = b"
proof -
  note eq = pieces_eq [OF assms(3) [unfolded assignment_bytes_def]]
  show ?thesis
    using eq assms(1,2) unfolding typed_assignment_def
    by (cases a; cases b) (simp add: piece_simps del: int_bytes.simps One_nat_def)
qed

lemma rake_bytes_inj:
  assumes "typed_rake a" "typed_rake b" "rake_bytes a = rake_bytes b"
  shows "a = b"
proof -
  note eq = pieces_eq [OF assms(3) [unfolded rake_bytes_def]]
  show ?thesis
    using eq assms(1,2) unfolding typed_rake_def
    by (cases a; cases b) (simp add: piece_simps del: int_bytes.simps One_nat_def)
qed

lemma blind_bytes_inj:
  assumes "typed_blind a" "typed_blind b" "blind_bytes a = blind_bytes b"
  shows "a = b"
proof -
  note eq = pieces_eq [OF assms(3) [unfolded blind_bytes_def]]
  show ?thesis
    using eq assms(1,2) unfolding typed_blind_def
    by (cases a; cases b) (simp add: piece_simps del: int_bytes.simps One_nat_def)
qed

lemma completion_bytes_inj:
  assumes "typed_completion a" "typed_completion b" "completion_bytes a = completion_bytes b"
  shows "a = b"
proof -
  note eq = pieces_eq [OF assms(3) [unfolded completion_bytes_def]]
  show ?thesis
    using eq assms(1,2) unfolding typed_completion_def
    by (cases a; cases b) (simp add: piece_simps del: int_bytes.simps One_nat_def)
qed

definition round_header :: "round_advance_opening \<Rightarrow> bytes list" where
  "round_header r =
     [int_bytes 1 (ra_pre_cards_dealt r), int_bytes 1 (ra_post_cards_dealt r),
      int_bytes 1 (ra_pre_board_len r), int_bytes 1 (ra_post_board_len r),
      int_bytes 1 (ra_pre_second_board_len r), int_bytes 1 (ra_post_second_board_len r),
      int_bytes 1 (of_bool (ra_run_it_twice r)), int_bytes 1 (ra_reveal_purpose r),
      int_bytes 1 (ra_assignment_count r)]"

lemma assignment_widths:
  "map length (map assignment_bytes xs) = replicate (length xs) 8"
  by (induction xs) (simp_all add: assignment_bytes_def)

lemma round_pieces:
  "round_advance_bytes r = concat (round_header r @ map assignment_bytes (ra_assignments r))"
  by (simp add: round_advance_bytes_def round_header_def)

lemma round_advance_bytes_inj:
  assumes t: "typed_round_advance a" "typed_round_advance b"
    and "round_advance_bytes a = round_advance_bytes b"
  shows "a = b"
proof -
  have l: "length (ra_assignments a) = 6" "length (ra_assignments b) = 6"
    using t by (simp_all add: typed_round_advance_def)
  have "round_header a @ map assignment_bytes (ra_assignments a)
      = round_header b @ map assignment_bytes (ra_assignments b)"
    using assms(3) unfolding round_pieces
    by (rule pieces_eq) (simp only: map_append assignment_widths l, simp add: round_header_def)
  then have h: "round_header a = round_header b"
    and m: "map assignment_bytes (ra_assignments a) = map assignment_bytes (ra_assignments b)"
    by (simp_all add: round_header_def)
  have "ra_assignments a = ra_assignments b"
    by (rule map_inj_on [OF m])
      (use t in \<open>auto simp: inj_on_def typed_round_advance_def intro!: assignment_bytes_inj\<close>)
  then show ?thesis
    using h t unfolding typed_round_advance_def round_header_def
    by (cases a; cases b) (simp add: piece_simps del: int_bytes.simps One_nat_def)
qed

section \<open>A witness has one encoding\<close>

lemma length_header: "length (concat (header_bytes st)) = length (concat (header_bytes st'))"
  using header_widths [of st st'] by (simp only: length_concat)

lemma length_state_bytes:
  assumes "typed_state st" "typed_state st'"
  shows "length (state_bytes st) = length (state_bytes st')"
  using length_header [of st st'] commitment_widths [OF assms(1)] commitment_widths [OF assms(2)]
    seat_widths [OF assms(1)] seat_widths [OF assms(2)]
  by (simp add: state_bytes_def length_concat)

lemma length_round_advance_bytes:
  "typed_round_advance r \<Longrightarrow> length (round_advance_bytes r) = 57"
  by (simp only: round_pieces round_header_def length_concat map_append assignment_widths
      typed_round_advance_def list.map length_int_bytes) (simp add: sum_list_replicate)

lemma part_widths:
  "length (action_bytes a) = 18 + length (ap_proof_commitment a)"
  "length (rake_bytes r) = 11" "length (blind_bytes b) = 25"
  "typed_completion c \<Longrightarrow> length (completion_bytes c) = 259"
  by (simp_all add: action_bytes_def rake_bytes_def blind_bytes_def completion_bytes_def typed_completion_def)

lemma witness_bytes_inj:
  assumes v: "typed_witness v" and w: "typed_witness w" and eq: "witness_bytes v = witness_bytes w"
  shows "v = w"
proof -
  have st: "typed_state (w_pre v)" "typed_state (w_pre w)" "typed_state (w_post v)" "typed_state (w_post w)"
    using v w by (simp_all add: typed_witness_def)
  have widths:
    "length (w_actor v) = length (w_actor w)"
    "length (action_bytes (w_action v)) = length (action_bytes (w_action w))"
    "length (round_advance_bytes (w_round_advance v)) = length (round_advance_bytes (w_round_advance w))"
    "length (completion_bytes (w_protocol_completion v)) = length (completion_bytes (w_protocol_completion w))"
    "length (rake_bytes (w_rake_opening v)) = length (rake_bytes (w_rake_opening w))"
    "length (blind_bytes (w_blind_opening v)) = length (blind_bytes (w_blind_opening w))"
    "length (w_transition_commitment v) = length (w_transition_commitment w)"
    "length (w_nullifier v) = length (w_nullifier w)"
    using v w unfolding typed_witness_def typed_action_def
    by (simp_all add: part_widths length_round_advance_bytes)
  note parts = pieces_eq [OF eq [unfolded witness_bytes_def]]
  have "map length
     [state_bytes (w_pre v), state_bytes (w_post v), int_bytes 1 (kind_tag (w_kind v)), w_actor v,
      action_bytes (w_action v), round_advance_bytes (w_round_advance v),
      completion_bytes (w_protocol_completion v), rake_bytes (w_rake_opening v),
      blind_bytes (w_blind_opening v), w_transition_commitment v, w_nullifier v,
      int_bytes 8 (w_deadline_height v)]
    = map length
     [state_bytes (w_pre w), state_bytes (w_post w), int_bytes 1 (kind_tag (w_kind w)), w_actor w,
      action_bytes (w_action w), round_advance_bytes (w_round_advance w),
      completion_bytes (w_protocol_completion w), rake_bytes (w_rake_opening w),
      blind_bytes (w_blind_opening w), w_transition_commitment w, w_nullifier w,
      int_bytes 8 (w_deadline_height w)]"
    using widths length_state_bytes [OF st(1,2)] length_state_bytes [OF st(3,4)]
    by (simp only: list.map length_int_bytes)
  note eqs = parts [OF this, unfolded list.inject]
  show ?thesis
  proof (rule transition_witness.equality)
    show "w_pre v = w_pre w" "w_post v = w_post w"
      using eqs st by (blast intro: state_bytes_inj)+
    show "w_kind v = w_kind w"
      using eqs by (simp only: tag_bytes_inj)
    show "w_action v = w_action w" "w_round_advance v = w_round_advance w"
      "w_protocol_completion v = w_protocol_completion w" "w_rake_opening v = w_rake_opening w"
      "w_blind_opening v = w_blind_opening w"
      using eqs v w unfolding typed_witness_def
      by (blast intro: action_bytes_inj round_advance_bytes_inj completion_bytes_inj
          rake_bytes_inj blind_bytes_inj)+
    show "w_deadline_height v = w_deadline_height w"
      using eqs v w int_bytes_inj [of "w_deadline_height v" 8 "w_deadline_height w"]
      unfolding typed_witness_def by simp
  qed (use eqs in simp_all)
qed

section \<open>What a transition commitment binds\<close>

definition content_preimage :: "transition_witness \<Rightarrow> bytes" where
  "content_preimage w = ascii ''zchain.texas.canonical-transition-content.v2''
     @ witness_bytes (w\<lparr>w_transition_commitment := zero32, w_nullifier := zero32\<rparr>)"

lemma content_commitment_preimage: "content_commitment blake w = blake (content_preimage w)"
  by (simp add: content_commitment_def witness_digest_def content_preimage_def)

lemma typed_blank:
  "typed_witness w \<Longrightarrow> typed_witness (w\<lparr>w_transition_commitment := zero32, w_nullifier := zero32\<rparr>)"
  by (simp add: typed_witness_def zero32_def)

lemma content_preimage_inj:
  assumes "typed_witness v" "typed_witness w" "content_preimage v = content_preimage w"
  shows "v\<lparr>w_transition_commitment := zero32, w_nullifier := zero32\<rparr>
    = w\<lparr>w_transition_commitment := zero32, w_nullifier := zero32\<rparr>"
  using witness_bytes_inj [OF typed_blank [OF assms(1)] typed_blank [OF assms(2)]] assms(3)
  by (simp add: content_preimage_def)

lemma blank_eq:
  assumes b: "v\<lparr>w_transition_commitment := zero32, w_nullifier := zero32\<rparr>
      = w\<lparr>w_transition_commitment := zero32, w_nullifier := zero32\<rparr>"
    and c: "w_transition_commitment v = w_transition_commitment w" "w_nullifier v = w_nullifier w"
  shows "v = w"
  using b c by (cases v; cases w) simp

lemma nullifier_blank:
  assumes b: "v\<lparr>w_transition_commitment := zero32, w_nullifier := zero32\<rparr>
      = w\<lparr>w_transition_commitment := zero32, w_nullifier := zero32\<rparr>"
    and c: "w_transition_commitment v = w_transition_commitment w"
  shows "transition_nullifier blake v = transition_nullifier blake w"
  using b c by (cases v; cases w) (simp add: transition_nullifier_def)

lemma shape_seals:
  assumes "validate_shape blake w = Inr ()"
  shows "w_transition_commitment w = blake (content_preimage w)"
    and "w_nullifier w = transition_nullifier blake w"
  using shapeD(4,5) [OF assms] by (simp_all add: content_commitment_preimage)

text \<open>
  C10. Two accepted rows with the same transition commitment are the same row, in every field, their
  nullifiers and both images included, unless the digest collides on their two preimages.
\<close>

theorem transition_commitment_binds:
  assumes ok: "validate_shape blake v = Inr ()" "validate_shape blake w = Inr ()"
    and t: "typed_witness v" "typed_witness w"
    and same: "w_transition_commitment v = w_transition_commitment w"
  shows "v = w \<or> (content_preimage v \<noteq> content_preimage w
    \<and> blake (content_preimage v) = blake (content_preimage w))"
proof (cases "content_preimage v = content_preimage w")
  case True
  note b = content_preimage_inj [OF t True]
  show ?thesis
    using blank_eq [OF b same] nullifier_blank [OF b same] shape_seals(2) [OF ok(1)]
      shape_seals(2) [OF ok(2)] by simp
next
  case False
  then show ?thesis using same shape_seals(1) [OF ok(1)] shape_seals(1) [OF ok(2)] by simp
qed

lemma typed_demo: "typed_witness demo_raise" "typed_witness demo_start"
  by (simp_all add: typed_witness_def demo_raise_def demo_start_def demo_waiting_def demo_simps
      typed_state_def typed_header_def image_commitments_def typed_seat_def EMPTY_SEAT_def
      typed_action_def typed_round_advance_def round_advance_default_def typed_assignment_def
      EMPTY_ASSIGNMENT_def MAX_CANONICAL_BOARD_REVEAL_ASSIGNMENTS_def typed_completion_def
      completion_default_def typed_rake_def RAKE_ZERO_def typed_blind_def BLIND_ZERO_def
      one32_def zero32_def)

theorem transition_commitment_binds_witness:
  "demo_raise \<noteq> demo_start \<and> content_preimage demo_raise \<noteq> content_preimage demo_start"
proof -
  have "w_kind demo_raise \<noteq> w_kind demo_start" and
    same: "w_transition_commitment demo_raise = w_transition_commitment demo_start"
    by (simp_all add: demo_raise_def demo_start_def demo_row_def)
  then have "demo_raise \<noteq> demo_start" by auto
  then show ?thesis
    using transition_commitment_binds [OF demo_raise_ok demo_start_ok typed_demo same] by simp
qed

end
