(* ===== verification/Canon_Bundle.thy ===== *)
theory Canon_Bundle
  imports Canon_State
begin

text \<open>
  The transport envelope of one proved method call (\<^verbatim>\<open>src/src/method_precompile_dual.rs\<close>): a
  serialised proof, the canonical request of the poker precompile, and the binding of the state
  roots, with the method and precompile it claims (\<^verbatim>\<open>method_kind.rs\<close>, \<^verbatim>\<open>precompile_binding.rs\<close>).
  The two request versions defined in the verifier crates outside the repository are parameters.
\<close>

section \<open>Methods and precompiles\<close>

datatype method_kind =
    MCreateTable | MJoinTable | MLeaveTable | MStartHand | MAdvanceDeadline | MFold | MCheck | MCall
  | MRaise | MForceFold | MKickPlayer | MAddon | MRebuy | MSubmitShuffleV2
  | MSubmitPlayerRevealTokens | MSubmitReconstructDeck | MBet | MSetLeaveAfterHand | MFoldWithProof

fun method_tag :: "method_kind \<Rightarrow> nat" where
  "method_tag MCreateTable = 0" | "method_tag MJoinTable = 1" | "method_tag MLeaveTable = 2"
| "method_tag MStartHand = 3" | "method_tag MAdvanceDeadline = 4" | "method_tag MFold = 6"
| "method_tag MCheck = 7" | "method_tag MCall = 8" | "method_tag MRaise = 9"
| "method_tag MForceFold = 11" | "method_tag MKickPlayer = 12" | "method_tag MAddon = 13"
| "method_tag MRebuy = 14" | "method_tag MSubmitShuffleV2 = 17"
| "method_tag MSubmitPlayerRevealTokens = 18" | "method_tag MSubmitReconstructDeck = 19"
| "method_tag MBet = 20" | "method_tag MSetLeaveAfterHand = 21" | "method_tag MFoldWithProof = 22"

definition method_from_u8 :: "nat \<Rightarrow> method_kind option" where
  "method_from_u8 v =
     (if v = 0 then Some MCreateTable else if v = 1 then Some MJoinTable
      else if v = 2 then Some MLeaveTable else if v = 3 then Some MStartHand
      else if v = 4 then Some MAdvanceDeadline else if v = 5 then None
      else if v = 6 then Some MFold else if v = 7 then Some MCheck else if v = 8 then Some MCall
      else if v = 9 then Some MRaise else if v = 10 then None
      else if v = 11 then Some MForceFold else if v = 12 then Some MKickPlayer
      else if v = 13 then Some MAddon else if v = 14 then Some MRebuy
      else if v = 15 \<or> v = 16 then None
      else if v = 17 then Some MSubmitShuffleV2 else if v = 18 then Some MSubmitPlayerRevealTokens
      else if v = 19 then Some MSubmitReconstructDeck else if v = 20 then Some MBet
      else if v = 21 then Some MSetLeaveAfterHand else if v = 22 then Some MFoldWithProof
      else None)"

datatype precompile_id = PreShuffle | PreDleqLeave | PreReconstructionV3 | PreRevealToken

fun precompile_tag :: "precompile_id \<Rightarrow> nat" where
  "precompile_tag PreShuffle = 1"
| "precompile_tag PreDleqLeave = 2"
| "precompile_tag PreReconstructionV3 = 3"
| "precompile_tag PreRevealToken = 4"

text \<open>The match of \<^verbatim>\<open>DualProofBundle::decode\<close> on the precompile byte.\<close>

definition precompile_from_u8 :: "nat \<Rightarrow> precompile_id option" where
  "precompile_from_u8 v =
     (if v = 1 then Some PreShuffle else if v = 2 then Some PreDleqLeave
      else if v = 3 then Some PreReconstructionV3 else if v = 4 then Some PreRevealToken else None)"

definition LEAVE_DLEQ_ABI_VERSION :: nat where "LEAVE_DLEQ_ABI_VERSION = 1"
definition REVEAL_TOKEN_ABI_VERSION :: nat where "REVEAL_TOKEN_ABI_VERSION = 1"

record abi_versions =
  av_shuffle :: nat
  av_reconstruction :: nat

definition validate_route :: "abi_versions \<Rightarrow> method_kind \<Rightarrow> precompile_id \<Rightarrow> nat \<Rightarrow> unit res" where
  "validate_route A m p abi = fail_if
     (\<not> (m = MSubmitShuffleV2 \<and> p = PreShuffle \<and> abi = av_shuffle A
        \<or> m = MSubmitReconstructDeck \<and> p = PreReconstructionV3 \<and> abi = av_reconstruction A
        \<or> m = MFoldWithProof \<and> p = PreDleqLeave \<and> abi = LEAVE_DLEQ_ABI_VERSION
        \<or> m = MSubmitPlayerRevealTokens \<and> p = PreRevealToken \<and> abi = REVEAL_TOKEN_ABI_VERSION))
     ''dual proof method/precompile/ABI route is not supported''"

section \<open>The envelope\<close>

record dual_bundle =
  db_version :: nat
  db_method_kind :: method_kind
  db_precompile_id :: precompile_id
  db_abi_version :: nat
  db_stark_proof_bytes :: bytes
  db_crypto_request_bytes :: bytes
  db_root_binding_bytes :: bytes

definition DUAL_PROOF_MAGIC :: bytes where "DUAL_PROOF_MAGIC = ascii ''ZPDUAL03''"
definition DUAL_PROOF_VERSION :: nat where "DUAL_PROOF_VERSION = 2"
definition MAX_STARK_PROOF_BYTES :: nat where "MAX_STARK_PROOF_BYTES = 64 * 1024 * 1024"
definition MAX_CRYPTO_REQUEST_BYTES :: nat where "MAX_CRYPTO_REQUEST_BYTES = 4 * 1024 * 1024"
definition MAX_ROOT_BINDING_BYTES :: nat where "MAX_ROOT_BINDING_BYTES = 4 * 1024 * 1024"
definition DUAL_HEADER_LEN :: nat where "DUAL_HEADER_LEN = 8 + 4 + 4 + 4 + 4"

definition validate_lengths :: "nat \<Rightarrow> nat \<Rightarrow> unit res" where
  "validate_lengths proof_len request_len = checks
     [fail_if (proof_len = 0 \<or> MAX_STARK_PROOF_BYTES < proof_len) ''Stwo proof length is outside its range'',
      fail_if (request_len = 0 \<or> MAX_CRYPTO_REQUEST_BYTES < request_len)
        ''crypto request length is outside its range'']"

text \<open>\<^verbatim>\<open>u32::try_from\<close>.\<close>

definition to_u32 :: "string \<Rightarrow> nat \<Rightarrow> nat res" where
  "to_u32 e n = (if n < u32_bound then Inr n else Inl (Other e))"

text \<open>
  The bytes of an envelope. \<^verbatim>\<open>encode\<close>, \<^verbatim>\<open>encode_into\<close> and \<^verbatim>\<open>update_hasher\<close> write the same bytes; the
  checks of the lengths are those of \<^verbatim>\<open>encoded_len\<close>.
\<close>

definition bundle_bytes :: "dual_bundle \<Rightarrow> bytes" where
  "bundle_bytes b = concat
     [DUAL_PROOF_MAGIC, int_bytes 1 (db_version b), int_bytes 1 (method_tag (db_method_kind b)),
      int_bytes 1 (precompile_tag (db_precompile_id b)), int_bytes 1 (db_abi_version b),
      int_bytes 4 (length (db_stark_proof_bytes b)), int_bytes 4 (length (db_crypto_request_bytes b)),
      int_bytes 4 (length (db_root_binding_bytes b)), db_stark_proof_bytes b,
      db_crypto_request_bytes b, db_root_binding_bytes b]"

definition encoded_len :: "dual_bundle \<Rightarrow> nat res" where
  "encoded_len b =
     rbind (validate_lengths (length (db_stark_proof_bytes b)) (length (db_crypto_request_bytes b))) (\<lambda>_.
     rbind (to_u32 ''dual proof length exceeds u32'' (length (db_stark_proof_bytes b))) (\<lambda>proof_len.
     rbind (to_u32 ''crypto request length exceeds u32'' (length (db_crypto_request_bytes b))) (\<lambda>request_len.
     rbind (to_u32 ''root binding length exceeds u32'' (length (db_root_binding_bytes b))) (\<lambda>binding_len.
       Inr (DUAL_HEADER_LEN + proof_len + request_len + binding_len)))))"

definition bundle_encode :: "dual_bundle \<Rightarrow> bytes res" where
  "bundle_encode b = rbind (encoded_len b) (\<lambda>_. Inr (bundle_bytes b))"

text \<open>\<^verbatim>\<open>bytes[a..b]\<close>, and the little-endian number in it.\<close>

definition byte_slice :: "nat \<Rightarrow> nat \<Rightarrow> bytes \<Rightarrow> bytes" where
  "byte_slice a b bs = take (b - a) (drop a bs)"

definition le_at :: "nat \<Rightarrow> nat \<Rightarrow> bytes \<Rightarrow> nat" where
  "le_at a b bs = int_value (byte_slice a b bs)"

definition bundle_decode :: "abi_versions \<Rightarrow> bytes \<Rightarrow> dual_bundle res" where
  "bundle_decode A bs =
     rbind (checks
       [fail_if (length bs < DUAL_HEADER_LEN) ''dual proof header is truncated'',
        fail_if (take 8 bs \<noteq> DUAL_PROOF_MAGIC) ''dual proof magic mismatch'',
        fail_if (le_at 8 9 bs \<noteq> DUAL_PROOF_VERSION) ''unsupported dual proof version'']) (\<lambda>_.
     rbind (ok_or (method_from_u8 (le_at 9 10 bs)) (Other ''unknown dual proof method kind'')) (\<lambda>method_kind.
     rbind (ok_or (precompile_from_u8 (le_at 10 11 bs)) (Other ''unknown poker precompile id'')) (\<lambda>pid.
     let abi_version = le_at 11 12 bs; proof_len = le_at 12 16 bs; request_len = le_at 16 20 bs;
         binding_len = le_at 20 24 bs; proof_end = DUAL_HEADER_LEN + proof_len;
         request_end = proof_end + request_len in
     rbind (checks
       [validate_route A method_kind pid abi_version, validate_lengths proof_len request_len,
        fail_if (MAX_ROOT_BINDING_BYTES < binding_len) ''dual proof root binding length is invalid'']) (\<lambda>_.
     rbind (fail_if (length bs \<noteq> request_end + binding_len) ''dual proof length mismatch'') (\<lambda>_.
       Inr \<lparr>db_version = le_at 8 9 bs, db_method_kind = method_kind, db_precompile_id = pid,
            db_abi_version = abi_version, db_stark_proof_bytes = byte_slice DUAL_HEADER_LEN proof_end bs,
            db_crypto_request_bytes = byte_slice proof_end request_end bs,
            db_root_binding_bytes = drop request_end bs\<rparr>)))))"

section \<open>What a strict wire format promises\<close>

text \<open>
  A reader that takes a whole message: it accepts exactly the bytes of the well-formed values, so a
  message has one reading and a value one message.
\<close>

locale exact_codec =
  fixes ok :: "'a \<Rightarrow> bool" and enc :: "'a \<Rightarrow> bytes" and dec :: "bytes \<Rightarrow> 'a res"
  assumes dec_iff: "dec bs = Inr x \<longleftrightarrow> ok x \<and> bs = enc x"
begin

lemma dec_enc: "ok x \<Longrightarrow> dec (enc x) = Inr x"
  by (simp add: dec_iff)

lemma enc_inj: "ok x \<Longrightarrow> ok y \<Longrightarrow> enc x = enc y \<Longrightarrow> x = y"
  by (metis dec_enc sum.inject(2))

lemma dec_unique: "dec bs = Inr x \<Longrightarrow> dec cs = Inr x \<Longrightarrow> bs = cs"
  unfolding dec_iff by simp

end

section \<open>Reading the envelope back\<close>

lemma drop_slice: "a \<le> b \<Longrightarrow> drop a bs = byte_slice a b bs @ drop b bs"
  using append_take_drop_id [of "b - a" "drop a bs"] by (simp add: byte_slice_def)

lemma length_slice [simp]: "b \<le> length bs \<Longrightarrow> length (byte_slice a b bs) = b - a"
  by (simp add: byte_slice_def)

lemma int_bytes_le_at: "b \<le> length bs \<Longrightarrow> k = b - a \<Longrightarrow> int_bytes k (le_at a b bs) = byte_slice a b bs"
  using int_bytes_value [of "byte_slice a b bs"] by (simp add: le_at_def)

lemma le_at_bound: "b \<le> length bs \<Longrightarrow> k = b - a \<Longrightarrow> le_at a b bs < 256 ^ k"
  using int_value_bound [of "byte_slice a b bs"] by (simp add: le_at_def)

lemma method_from_u8_iff: "method_from_u8 v = Some m \<longleftrightarrow> v = method_tag m"
  by (cases m) (auto simp: method_from_u8_def)

lemma precompile_from_u8_iff: "precompile_from_u8 v = Some p \<longleftrightarrow> v = precompile_tag p"
  by (cases p) (auto simp: precompile_from_u8_def)

lemma method_from_tag [simp]: "method_from_u8 (method_tag m) = Some m"
  by (simp add: method_from_u8_iff)

lemma precompile_from_tag [simp]: "precompile_from_u8 (precompile_tag p) = Some p"
  by (simp add: precompile_from_u8_iff)

lemma method_tag_bound: "method_tag m < 256"
  by (cases m) simp_all

lemma precompile_tag_bound: "precompile_tag p < 256"
  by (cases p) simp_all

lemma to_u32_Inr [result_simps]: "to_u32 e n = Inr k \<longleftrightarrow> k = n \<and> n < u32_bound"
  by (auto simp: to_u32_def)

definition bundle_ok :: "abi_versions \<Rightarrow> dual_bundle \<Rightarrow> bool" where
  "bundle_ok A b \<longleftrightarrow> db_version b = DUAL_PROOF_VERSION \<and> db_abi_version b < 256
     \<and> validate_route A (db_method_kind b) (db_precompile_id b) (db_abi_version b) = Inr ()
     \<and> validate_lengths (length (db_stark_proof_bytes b)) (length (db_crypto_request_bytes b)) = Inr ()
     \<and> length (db_root_binding_bytes b) \<le> MAX_ROOT_BINDING_BYTES"

lemma validate_lengths_Inr [result_simps]:
  "validate_lengths p r = Inr u \<longleftrightarrow>
     0 < p \<and> p \<le> MAX_STARK_PROOF_BYTES \<and> 0 < r \<and> r \<le> MAX_CRYPTO_REQUEST_BYTES"
  by (auto simp: validate_lengths_def)

lemma encoded_len_Inr:
  "encoded_len b = Inr n \<longleftrightarrow>
     validate_lengths (length (db_stark_proof_bytes b)) (length (db_crypto_request_bytes b)) = Inr ()
     \<and> length (db_root_binding_bytes b) < u32_bound \<and> n = length (bundle_bytes b)"
  by (auto simp: encoded_len_def result_simps bundle_bytes_def DUAL_HEADER_LEN_def DUAL_PROOF_MAGIC_def
        MAX_STARK_PROOF_BYTES_def MAX_CRYPTO_REQUEST_BYTES_def ascii_def)

lemma bundle_ok_encodes: "bundle_ok A b \<Longrightarrow> bundle_encode b = Inr (bundle_bytes b)"
  by (auto simp: bundle_encode_def bundle_ok_def encoded_len_Inr result_simps MAX_ROOT_BINDING_BYTES_def)

lemma bundle_decode_encode:
  assumes "bundle_ok A b"
  shows "bundle_decode A (bundle_bytes b) = Inr b"
proof -
  let ?p = "db_stark_proof_bytes b" and ?r = "db_crypto_request_bytes b" and ?g = "db_root_binding_bytes b"
  define v where "v = word_of_nat (db_version b) # word_of_nat (method_tag (db_method_kind b))
    # word_of_nat (precompile_tag (db_precompile_id b)) # [word_of_nat (db_abi_version b) :: 8 word]"
  have ok: "db_version b = DUAL_PROOF_VERSION" "db_abi_version b < 256"
    "validate_route A (db_method_kind b) (db_precompile_id b) (db_abi_version b) = Inr ()"
    "validate_lengths (length ?p) (length ?r) = Inr ()" "length ?g \<le> MAX_ROOT_BINDING_BYTES"
    using assms by (auto simp: bundle_ok_def)
  have len: "length ?p < 256 ^ 4" "length ?r < 256 ^ 4" "length ?g < 256 ^ 4"
    using ok(4,5) by (auto simp: result_simps MAX_STARK_PROOF_BYTES_def MAX_CRYPTO_REQUEST_BYTES_def
        MAX_ROOT_BINDING_BYTES_def)
  have bb: "bundle_bytes b = DUAL_PROOF_MAGIC @ v @ int_bytes 4 (length ?p) @ int_bytes 4 (length ?r)
      @ int_bytes 4 (length ?g) @ ?p @ ?r @ ?g"
    using ok(1,2) method_tag_bound [of "db_method_kind b"] precompile_tag_bound [of "db_precompile_id b"]
    by (simp add: bundle_bytes_def v_def DUAL_PROOF_VERSION_def)
  have lm: "length DUAL_PROOF_MAGIC = 8" "length v = 4"
    by (simp_all add: DUAL_PROOF_MAGIC_def ascii_def v_def)
  have hd: "le_at 8 9 (bundle_bytes b) = db_version b"
    "le_at 9 10 (bundle_bytes b) = method_tag (db_method_kind b)"
    "le_at 10 11 (bundle_bytes b) = precompile_tag (db_precompile_id b)"
    "le_at 11 12 (bundle_bytes b) = db_abi_version b"
    using ok(1,2) method_tag_bound [of "db_method_kind b"] precompile_tag_bound [of "db_precompile_id b"]
    by (simp_all add: le_at_def byte_slice_def bb lm v_def unat_of_nat DUAL_PROOF_VERSION_def)
  have ln: "le_at 12 16 (bundle_bytes b) = length ?p" "le_at 16 20 (bundle_bytes b) = length ?r"
    "le_at 20 24 (bundle_bytes b) = length ?g"
    using len by (simp_all add: le_at_def byte_slice_def bb lm int_value_bytes)
  have pay: "byte_slice DUAL_HEADER_LEN (DUAL_HEADER_LEN + length ?p) (bundle_bytes b) = ?p"
    "byte_slice (DUAL_HEADER_LEN + length ?p) (DUAL_HEADER_LEN + length ?p + length ?r) (bundle_bytes b) = ?r"
    "drop (DUAL_HEADER_LEN + length ?p + length ?r) (bundle_bytes b) = ?g"
    "length (bundle_bytes b) = DUAL_HEADER_LEN + length ?p + length ?r + length ?g"
    by (simp_all add: byte_slice_def bb lm DUAL_HEADER_LEN_def)
  have "take 8 (bundle_bytes b) = DUAL_PROOF_MAGIC" by (simp add: bb lm)
  then show ?thesis
    using ok by (simp add: bundle_decode_def hd ln pay Let_def)
qed

lemma bundle_bytes_sliced:
  assumes "DUAL_HEADER_LEN + np + nr + ng = length bs" and "take 8 bs = DUAL_PROOF_MAGIC"
    and "np = le_at 12 16 bs" "nr = le_at 16 20 bs" "ng = le_at 20 24 bs"
  shows "bs = DUAL_PROOF_MAGIC @ int_bytes 1 (le_at 8 9 bs) @ int_bytes 1 (le_at 9 10 bs)
    @ int_bytes 1 (le_at 10 11 bs) @ int_bytes 1 (le_at 11 12 bs) @ int_bytes 4 np @ int_bytes 4 nr
    @ int_bytes 4 ng @ byte_slice DUAL_HEADER_LEN (DUAL_HEADER_LEN + np) bs
    @ byte_slice (DUAL_HEADER_LEN + np) (DUAL_HEADER_LEN + np + nr) bs @ drop (DUAL_HEADER_LEN + np + nr) bs"
proof -
  have l: "24 \<le> length bs" using assms(1) by (simp add: DUAL_HEADER_LEN_def)
  have "bs = take 8 bs @ byte_slice 8 9 bs @ byte_slice 9 10 bs @ byte_slice 10 11 bs @ byte_slice 11 12 bs @ byte_slice 12 16 bs
      @ byte_slice 16 20 bs @ byte_slice 20 24 bs @ drop 24 bs"
    using append_take_drop_id [of 8 bs] drop_slice [of 8 9 bs] drop_slice [of 9 10 bs]
      drop_slice [of 10 11 bs] drop_slice [of 11 12 bs] drop_slice [of 12 16 bs]
      drop_slice [of 16 20 bs] drop_slice [of 20 24 bs] by simp
  moreover have "drop 24 bs = byte_slice DUAL_HEADER_LEN (DUAL_HEADER_LEN + np) bs
      @ byte_slice (DUAL_HEADER_LEN + np) (DUAL_HEADER_LEN + np + nr) bs @ drop (DUAL_HEADER_LEN + np + nr) bs"
    using drop_slice [of DUAL_HEADER_LEN "DUAL_HEADER_LEN + np" bs]
      drop_slice [of "DUAL_HEADER_LEN + np" "DUAL_HEADER_LEN + np + nr" bs]
    by (simp add: DUAL_HEADER_LEN_def)
  ultimately show ?thesis using l assms(2-5) by (simp only: int_bytes_le_at)
qed

lemma bundle_decode_Inr:
  assumes "bundle_decode A bs = Inr b"
  shows "bundle_ok A b \<and> bs = bundle_bytes b"
proof -
  define np nr ng where n: "np = le_at 12 16 bs" "nr = le_at 16 20 bs" "ng = le_at 20 24 bs"
  from assms obtain m p where d: "24 \<le> length bs" "take 8 bs = DUAL_PROOF_MAGIC"
      "le_at 8 9 bs = DUAL_PROOF_VERSION" "le_at 9 10 bs = method_tag m" "le_at 10 11 bs = precompile_tag p"
      "validate_route A m p (le_at 11 12 bs) = Inr ()" "validate_lengths np nr = Inr ()"
      "ng \<le> MAX_ROOT_BINDING_BYTES" "DUAL_HEADER_LEN + np + nr + ng = length bs"
    and b: "b = \<lparr>db_version = le_at 8 9 bs, db_method_kind = m, db_precompile_id = p,
      db_abi_version = le_at 11 12 bs, db_stark_proof_bytes = byte_slice DUAL_HEADER_LEN (DUAL_HEADER_LEN + np) bs,
      db_crypto_request_bytes = byte_slice (DUAL_HEADER_LEN + np) (DUAL_HEADER_LEN + np + nr) bs,
      db_root_binding_bytes = drop (DUAL_HEADER_LEN + np + nr) bs\<rparr>"
    by (auto simp: bundle_decode_def Let_def n result_simps method_from_u8_iff precompile_from_u8_iff
        DUAL_HEADER_LEN_def)
  have l: "length (db_stark_proof_bytes b) = np" "length (db_crypto_request_bytes b) = nr"
    "length (db_root_binding_bytes b) = ng"
    using d(9) by (auto simp: b)
  have "le_at 11 12 bs < 256" using le_at_bound [of 12 bs 1 11] d(1) by simp
  then have "bundle_ok A b" using d by (simp add: bundle_ok_def l) (simp add: b)
  moreover have "bundle_bytes b = bs"
  proof -
    have "bundle_bytes b = DUAL_PROOF_MAGIC @ int_bytes 1 (le_at 8 9 bs) @ int_bytes 1 (le_at 9 10 bs)
      @ int_bytes 1 (le_at 10 11 bs) @ int_bytes 1 (le_at 11 12 bs) @ int_bytes 4 np @ int_bytes 4 nr
      @ int_bytes 4 ng @ byte_slice DUAL_HEADER_LEN (DUAL_HEADER_LEN + np) bs
      @ byte_slice (DUAL_HEADER_LEN + np) (DUAL_HEADER_LEN + np + nr) bs @ drop (DUAL_HEADER_LEN + np + nr) bs"
      using l by (simp add: bundle_bytes_def b d(4,5) del: int_bytes.simps)
    then show ?thesis using bundle_bytes_sliced [OF d(9,2) n] by simp
  qed
  ultimately show ?thesis by simp
qed

lemma bundle_decode_iff: "bundle_decode A bs = Inr b \<longleftrightarrow> bundle_ok A b \<and> bs = bundle_bytes b"
  using bundle_decode_encode bundle_decode_Inr by blast

interpretation bundle_codec: exact_codec "bundle_ok A" bundle_bytes "bundle_decode A" for A
  by unfold_locales (rule bundle_decode_iff)

lemma bundle_length_bound:
  "bundle_ok A b \<Longrightarrow> length (bundle_bytes b) \<le> DUAL_HEADER_LEN + MAX_STARK_PROOF_BYTES
     + MAX_CRYPTO_REQUEST_BYTES + MAX_ROOT_BINDING_BYTES"
  by (auto simp: bundle_ok_def result_simps bundle_bytes_def DUAL_HEADER_LEN_def DUAL_PROOF_MAGIC_def ascii_def)

lemma bundle_bytes_nonempty [simp]: "bundle_bytes b \<noteq> []"
  by (simp add: bundle_bytes_def DUAL_PROOF_MAGIC_def ascii_def)

end
