(* ===== verification/Canon_Chain.thy ===== *)
theory Canon_Chain
  imports Canon_Bundle
begin

text \<open>
  Chains of verified method proofs (\<^verbatim>\<open>src/src/verified_chain.rs\<close>): the receipt the host keeps of
  every proof it accepted, the checks that make a list of receipts one run of one hand, the builder
  that collects receipts one at a time, and the anchor that ties a chain to an authenticated range
  of calls.

  A commitment root of a proof is a field element of the \<^verbatim>\<open>starknet_crypto\<close> crate, a type
  parameter. Every error of the source's module is a \<^verbatim>\<open>RecursionError\<close>; the model keeps the text.
\<close>

section \<open>Receipts\<close>

record 'f receipt =
  vr_kind :: method_kind
  vr_pre_state_root :: bytes
  vr_post_state_root :: bytes
  vr_table_id :: nat
  vr_hand_id :: nat
  vr_call_seq :: nat
  vr_pre_version :: nat
  vr_post_version :: nat
  vr_dispatch_call_digest :: bytes
  vr_proof_commitments :: "'f list"
  vr_log_size :: nat
  vr_num_columns :: nat

definition validate_adjacent_receipts :: "'f receipt \<Rightarrow> 'f receipt \<Rightarrow> unit res" where
  "validate_adjacent_receipts left right = checks
     [fail_if (vr_table_id left \<noteq> vr_table_id right) ''verified chain crosses tables'',
      fail_if (vr_hand_id left \<noteq> vr_hand_id right) ''verified chain crosses hands'',
      rbind (ok_or (checked_add_u32 (vr_call_seq left) 1) (Other ''verified chain call_seq overflow''))
        (\<lambda>expected_seq. fail_if (vr_call_seq right \<noteq> expected_seq)
          ''verified chain call_seq is not consecutive''),
      fail_if (vr_post_state_root left \<noteq> vr_pre_state_root right)
        ''verified chain state root is discontinuous'',
      fail_if (vr_post_version left \<noteq> vr_pre_version right)
        ''verified chain state version is discontinuous'']"

text \<open>\<^verbatim>\<open>windows(2)\<close>: every two neighbours, in order.\<close>

definition windows2 :: "'a list \<Rightarrow> ('a \<times> 'a) list" where
  "windows2 xs = zip xs (tl xs)"

definition validate_receipt_chain :: "'f receipt list \<Rightarrow> unit res" where
  "validate_receipt_chain rs =
     rbind (fail_if (rs = []) ''verified chain must contain at least one method proof'') (\<lambda>_.
       checks (map (\<lambda>(l, r). validate_adjacent_receipts l r) (windows2 rs)))"

text \<open>A chain is the list of its receipts; only this constructor makes one.\<close>

definition try_from_receipts :: "'f receipt list \<Rightarrow> 'f receipt list res" where
  "try_from_receipts rs = rbind (validate_receipt_chain rs) (\<lambda>_. Inr rs)"

section \<open>The builder\<close>

definition push_receipt :: "'f receipt list \<Rightarrow> 'f receipt \<Rightarrow> 'f receipt list res" where
  "push_receipt rs r =
     rbind (if rs = [] then Inr () else validate_adjacent_receipts (last rs) r) (\<lambda>_. Inr (rs @ [r]))"

definition clear_receipts :: "'f receipt list \<Rightarrow> 'f receipt list" where
  "clear_receipts rs = []"

definition snapshot :: "'f receipt list \<Rightarrow> 'f receipt list res" where
  "snapshot rs = try_from_receipts rs"

section \<open>The anchor\<close>

record anchor =
  ea_table_id :: nat
  ea_hand_id :: nat
  ea_first_call_seq :: nat
  ea_pre_state_root :: bytes
  ea_post_state_root :: bytes
  ea_pre_version :: nat
  ea_post_version :: nat
  ea_dispatch_call_digests :: "bytes list"

definition anchor_new ::
  "nat \<Rightarrow> nat \<Rightarrow> nat \<Rightarrow> bytes \<Rightarrow> bytes \<Rightarrow> nat \<Rightarrow> nat \<Rightarrow> bytes list \<Rightarrow> anchor res"
where
  "anchor_new table_id hand_id first_call_seq pre_root post_root pre_version post_version digests =
     rbind (fail_if (digests = []) ''expected chain anchor must contain at least one dispatch digest'') (\<lambda>_.
     rbind (to_u32 ''expected chain range does not fit u32'' (length digests - 1)) (\<lambda>offset.
     rbind (ok_or (checked_add_u32 first_call_seq offset)
       (Other ''expected chain call_seq range overflow'')) (\<lambda>_.
       Inr \<lparr>ea_table_id = table_id, ea_hand_id = hand_id, ea_first_call_seq = first_call_seq,
            ea_pre_state_root = pre_root, ea_post_state_root = post_root,
            ea_pre_version = pre_version, ea_post_version = post_version,
            ea_dispatch_call_digests = digests\<rparr>)))"

text \<open>The constructor has checked the subtraction, the conversion and the addition.\<close>

definition last_call_seq :: "anchor \<Rightarrow> nat res" where
  "last_call_seq a =
     rbind (ok_or (checked_sub (length (ea_dispatch_call_digests a)) 1) (Panic ''subtract with overflow'')) (\<lambda>n.
     rbind (if n < u32_bound then Inr n else Inl (Panic ''constructor checked digest count'')) (\<lambda>offset.
       ok_or (checked_add_u32 (ea_first_call_seq a) offset) (Panic ''add with overflow'')))"

definition verify_against_anchor :: "'f receipt list \<Rightarrow> anchor \<Rightarrow> unit res" where
  "verify_against_anchor rs a =
     rbind (validate_receipt_chain rs) (\<lambda>_.
     rbind (fail_if (length rs \<noteq> length (ea_dispatch_call_digests a))
       ''receipt count does not match expected'') (\<lambda>_.
     let first = hd rs; last = last rs in
     rbind (fail_if (vr_table_id first \<noteq> ea_table_id a \<or> vr_table_id last \<noteq> ea_table_id a)
       ''table_id differs from expected anchor'') (\<lambda>_.
     rbind (fail_if (vr_hand_id first \<noteq> ea_hand_id a \<or> vr_hand_id last \<noteq> ea_hand_id a)
       ''hand_id differs from expected anchor'') (\<lambda>_.
     rbind (fail_if (vr_call_seq first \<noteq> ea_first_call_seq a)
       ''call_seq range does not match expected'') (\<lambda>_.
     rbind (last_call_seq a) (\<lambda>last_seq. checks
       ([fail_if (vr_call_seq last \<noteq> last_seq) ''call_seq range does not match expected'',
         fail_if (vr_pre_state_root first \<noteq> ea_pre_state_root a
             \<or> vr_post_state_root last \<noteq> ea_post_state_root a)
           ''full-width state-root endpoints differ from expected anchor'',
         fail_if (vr_pre_version first \<noteq> ea_pre_version a \<or> vr_post_version last \<noteq> ea_post_version a)
           ''state-version endpoints differ from expected anchor'']
        @ map (\<lambda>(r, d). fail_if (vr_dispatch_call_digest r \<noteq> d) ''dispatch digest differs at receipt index'')
            (zip rs (ea_dispatch_call_digests a)))))))))"

section \<open>One run of one hand\<close>

lemma validate_adjacent_Inr [result_simps]:
  "validate_adjacent_receipts l r = Inr u \<longleftrightarrow> vr_table_id r = vr_table_id l \<and> vr_hand_id r = vr_hand_id l
     \<and> vr_call_seq r = vr_call_seq l + 1 \<and> vr_call_seq l + 1 < u32_bound
     \<and> vr_pre_state_root r = vr_post_state_root l \<and> vr_pre_version r = vr_post_version l"
  by (auto simp: validate_adjacent_receipts_def result_simps)

lemma windows2_nth: "(\<forall>p\<in>set (windows2 xs). P p) \<longleftrightarrow> (\<forall>i. Suc i < length xs \<longrightarrow> P (xs ! i, xs ! Suc i))"
  by (auto simp: windows2_def all_set_conv_all_nth nth_tl)

text \<open>The receipts of one hand of one table, with consecutive numbers and linked states.\<close>

definition linked :: "'f receipt list \<Rightarrow> bool" where
  "linked rs \<longleftrightarrow> (\<forall>i. Suc i < length rs \<longrightarrow>
     vr_pre_state_root (rs ! Suc i) = vr_post_state_root (rs ! i)
     \<and> vr_pre_version (rs ! Suc i) = vr_post_version (rs ! i))"

definition numbered :: "nat \<Rightarrow> nat \<Rightarrow> nat \<Rightarrow> 'f receipt list \<Rightarrow> bool" where
  "numbered table hand first rs \<longleftrightarrow> (\<forall>i<length rs. vr_table_id (rs ! i) = table
     \<and> vr_hand_id (rs ! i) = hand \<and> vr_call_seq (rs ! i) = first + i)"

lemma validate_receipt_chain_Inr:
  "validate_receipt_chain rs = Inr u \<longleftrightarrow> rs \<noteq> [] \<and> (\<forall>i. Suc i < length rs \<longrightarrow>
     validate_adjacent_receipts (rs ! i) (rs ! Suc i) = Inr ())"
  using windows2_nth [of rs "\<lambda>(l, r). validate_adjacent_receipts l r = Inr ()"]
  by (auto simp: validate_receipt_chain_def checks_Inr_iff)

lemma chain_numbered:
  assumes "\<forall>i. Suc i < length rs \<longrightarrow> validate_adjacent_receipts (rs ! i) (rs ! Suc i) = Inr ()"
    and "vr_table_id (rs ! 0) = table" "vr_hand_id (rs ! 0) = hand" "vr_call_seq (rs ! 0) = first"
  shows "numbered table hand first rs"
proof -
  have "i < length rs \<longrightarrow> vr_table_id (rs ! i) = table \<and> vr_hand_id (rs ! i) = hand
      \<and> vr_call_seq (rs ! i) = first + i" for i
  proof (induction i)
    case 0
    then show ?case using assms(2-) by simp
  next
    case (Suc i)
    then show ?case using assms(1) by (auto simp: result_simps dest: spec [of _ i])
  qed
  then show ?thesis by (simp add: numbered_def)
qed

lemma chain_iff:
  "validate_receipt_chain rs = Inr u \<longleftrightarrow> rs \<noteq> [] \<and> linked rs
     \<and> numbered (vr_table_id (hd rs)) (vr_hand_id (hd rs)) (vr_call_seq (hd rs)) rs
     \<and> (1 < length rs \<longrightarrow> vr_call_seq (hd rs) + length rs \<le> u32_bound)"
  (is "?L \<longleftrightarrow> ?R")
proof
  assume L: ?L
  then have ne: "rs \<noteq> []" and adj: "\<forall>i. Suc i < length rs \<longrightarrow>
      validate_adjacent_receipts (rs ! i) (rs ! Suc i) = Inr ()"
    by (simp_all add: validate_receipt_chain_Inr)
  have num: "numbered (vr_table_id (hd rs)) (vr_hand_id (hd rs)) (vr_call_seq (hd rs)) rs"
    using chain_numbered [OF adj] ne by (simp add: hd_conv_nth)
  have "vr_call_seq (hd rs) + length rs \<le> u32_bound" if two: "1 < length rs"
  proof -
    obtain i where i: "length rs = Suc (Suc i)" using less_imp_Suc_add [OF two] by auto
    then have "vr_call_seq (rs ! i) + 1 < u32_bound" using adj [rule_format, of i] i by (simp add: result_simps)
    then show ?thesis using num i by (simp add: numbered_def)
  qed
  moreover have "linked rs" using adj unfolding linked_def validate_adjacent_Inr by blast
  ultimately show ?R using ne num by blast
next
  assume R: ?R
  have "validate_adjacent_receipts (rs ! i) (rs ! Suc i) = Inr ()" if i: "Suc i < length rs" for i
  proof -
    have "vr_call_seq (hd rs) + length rs \<le> u32_bound" using R i by auto
    moreover have "vr_pre_state_root (rs ! Suc i) = vr_post_state_root (rs ! i)"
      "vr_pre_version (rs ! Suc i) = vr_post_version (rs ! i)"
      using R i by (simp_all add: linked_def)
    moreover have "vr_table_id (rs ! j) = vr_table_id (hd rs)" "vr_hand_id (rs ! j) = vr_hand_id (hd rs)"
      "vr_call_seq (rs ! j) = vr_call_seq (hd rs) + j" if "j < length rs" for j
      using R that by (auto simp: numbered_def)
    ultimately show ?thesis using i by (simp add: result_simps)
  qed
  then show ?L using R by (simp add: validate_receipt_chain_Inr)
qed

text \<open>The builder accepts the receipts one at a time exactly when it accepts them together.\<close>

lemma push_receipt_Inr [result_simps]:
  "push_receipt rs r = Inr x \<longleftrightarrow>
     x = rs @ [r] \<and> (rs = [] \<or> validate_adjacent_receipts (last rs) r = Inr ())"
  by (auto simp: push_receipt_def)

lemma chain_snoc:
  "rs \<noteq> [] \<Longrightarrow> validate_receipt_chain (rs @ [r]) = Inr u \<longleftrightarrow>
     validate_receipt_chain rs = Inr () \<and> validate_adjacent_receipts (last rs) r = Inr ()"
proof -
  assume ne: "rs \<noteq> []"
  have "(\<forall>i. Suc i < length (rs @ [r]) \<longrightarrow>
       validate_adjacent_receipts ((rs @ [r]) ! i) ((rs @ [r]) ! Suc i) = Inr ()) \<longleftrightarrow>
     (\<forall>i. Suc i < length rs \<longrightarrow> validate_adjacent_receipts (rs ! i) (rs ! Suc i) = Inr ()) \<and>
     validate_adjacent_receipts (last rs) r = Inr ()" (is "?L \<longleftrightarrow> ?R")
  proof
    assume L: ?L
    then have "validate_adjacent_receipts ((rs @ [r]) ! (length rs - 1)) ((rs @ [r]) ! Suc (length rs - 1)) = Inr ()"
      using ne by (intro L [rule_format]) simp
    then have "validate_adjacent_receipts (last rs) r = Inr ()"
      using ne by (simp add: nth_append last_conv_nth)
    moreover have "validate_adjacent_receipts (rs ! i) (rs ! Suc i) = Inr ()" if "Suc i < length rs" for i
      using L [rule_format, of i] that by (simp add: nth_append)
    ultimately show ?R by blast
  next
    assume R: ?R
    show ?L
    proof (intro allI impI)
      fix i
      assume i: "Suc i < length (rs @ [r])"
      show "validate_adjacent_receipts ((rs @ [r]) ! i) ((rs @ [r]) ! Suc i) = Inr ()"
      proof (cases "Suc i < length rs")
        case True
        then show ?thesis using R by (simp add: nth_append)
      next
        case False
        then have "i = length rs - 1" using i by simp
        then show ?thesis using R ne by (simp add: nth_append last_conv_nth)
      qed
    qed
  qed
  then show ?thesis using ne by (simp add: validate_receipt_chain_Inr)
qed

lemma builder_collects:
  "try_fold push_receipt [] rs = Inr x \<longleftrightarrow> x = rs \<and> (rs = [] \<or> validate_receipt_chain rs = Inr ())"
proof (induction rs arbitrary: x rule: rev_induct)
  case Nil
  then show ?case by auto
next
  case (snoc r rs)
  show ?case
  proof (cases "rs = []")
    case True
    then show ?thesis by (auto simp: result_simps validate_receipt_chain_Inr)
  next
    case False
    then show ?thesis using snoc chain_snoc [OF False, of r] by (auto simp: try_fold_append result_simps)
  qed
qed

section \<open>The anchored range\<close>

definition anchored_range :: "anchor \<Rightarrow> 'f receipt list \<Rightarrow> bool" where
  "anchored_range a rs \<longleftrightarrow>
     map vr_dispatch_call_digest rs = ea_dispatch_call_digests a
     \<and> numbered (ea_table_id a) (ea_hand_id a) (ea_first_call_seq a) rs \<and> linked rs
     \<and> vr_pre_state_root (hd rs) = ea_pre_state_root a \<and> vr_post_state_root (last rs) = ea_post_state_root a
     \<and> vr_pre_version (hd rs) = ea_pre_version a \<and> vr_post_version (last rs) = ea_post_version a"

lemma anchor_new_Inr:
  "anchor_new table_id hand_id first pre post pre_version post_version digests = Inr a \<longleftrightarrow>
     digests \<noteq> [] \<and> first + (length digests - 1) < u32_bound \<and>
     a = \<lparr>ea_table_id = table_id, ea_hand_id = hand_id, ea_first_call_seq = first,
          ea_pre_state_root = pre, ea_post_state_root = post, ea_pre_version = pre_version,
          ea_post_version = post_version, ea_dispatch_call_digests = digests\<rparr>"
  by (auto simp: anchor_new_def result_simps)

lemma last_call_seq_ok:
  "ea_dispatch_call_digests a \<noteq> [] \<Longrightarrow> ea_first_call_seq a + (length (ea_dispatch_call_digests a) - 1) < u32_bound \<Longrightarrow>
   last_call_seq a = Inr (ea_first_call_seq a + (length (ea_dispatch_call_digests a) - 1))"
  by (auto simp: last_call_seq_def checked_sub_def checked_add_u32_def Suc_le_eq)

lemma digests_checked:
  "length xs = length ds \<Longrightarrow>
     checks (map (\<lambda>(r, d). fail_if (g r \<noteq> d) e) (zip xs ds)) = Inr u \<longleftrightarrow> map g xs = ds"
  by (induction xs ds rule: list_induct2) auto

lemma anchor_iff:
  assumes "ea_dispatch_call_digests a \<noteq> []"
    and "ea_first_call_seq a + (length (ea_dispatch_call_digests a) - 1) < u32_bound"
  shows "verify_against_anchor rs a = Inr u \<longleftrightarrow> anchored_range a rs"
proof (cases "length rs = length (ea_dispatch_call_digests a)")
  case False
  then have "\<not> anchored_range a rs" by (metis anchored_range_def length_map)
  then show ?thesis using False by (simp add: verify_against_anchor_def)
next
  case True
  then have ne: "rs \<noteq> []" using assms(1) by auto
  note seq = last_call_seq_ok [OF assms]
  let ?n = "length rs - 1"
  have last: "last rs = rs ! ?n" and n: "?n < length rs" using ne by (simp_all add: last_conv_nth)
  have iff: "verify_against_anchor rs a = Inr u \<longleftrightarrow> validate_receipt_chain rs = Inr ()
      \<and> vr_table_id (hd rs) = ea_table_id a \<and> vr_table_id (last rs) = ea_table_id a
      \<and> vr_hand_id (hd rs) = ea_hand_id a \<and> vr_hand_id (last rs) = ea_hand_id a
      \<and> vr_call_seq (hd rs) = ea_first_call_seq a \<and> vr_call_seq (last rs) = ea_first_call_seq a + ?n
      \<and> vr_pre_state_root (hd rs) = ea_pre_state_root a \<and> vr_post_state_root (last rs) = ea_post_state_root a
      \<and> vr_pre_version (hd rs) = ea_pre_version a \<and> vr_post_version (last rs) = ea_post_version a
      \<and> map vr_dispatch_call_digest rs = ea_dispatch_call_digests a"
    by (simp only: verify_against_anchor_def Let_def rbind_unit_Inr_iff seq rbind_simps checks_append
        checks_Cons_iff checks.simps fail_if_Inr_iff digests_checked [OF True] True de_Morgan_disj not_not simp_thms
        conj_assoc)
  show ?thesis
  proof
    assume "verify_against_anchor rs a = Inr u"
    then show "anchored_range a rs" using iff ne by (auto simp: anchored_range_def chain_iff)
  next
    assume R: "anchored_range a rs"
    then have num: "numbered (ea_table_id a) (ea_hand_id a) (ea_first_call_seq a) rs"
      by (simp add: anchored_range_def)
    then have hd: "vr_table_id (hd rs) = ea_table_id a" "vr_hand_id (hd rs) = ea_hand_id a"
        "vr_call_seq (hd rs) = ea_first_call_seq a"
      and la: "vr_table_id (last rs) = ea_table_id a" "vr_hand_id (last rs) = ea_hand_id a"
        "vr_call_seq (last rs) = ea_first_call_seq a + ?n"
      using ne n by (auto simp: numbered_def hd_conv_nth last)
    have "ea_first_call_seq a + length rs \<le> u32_bound" using assms True ne by (cases rs) auto
    then have "validate_receipt_chain rs = Inr ()"
      using R ne num by (simp add: chain_iff hd anchored_range_def)
    then show "verify_against_anchor rs a = Inr u" using iff R hd la by (simp add: anchored_range_def)
  qed
qed

section \<open>Properties\<close>

text \<open>
  C14. What an anchor accepts: against the anchor of an authenticated range, a list of receipts verifies
  exactly when it is that range: as many receipts as digests, each with the digest of its place, all
  of the table and the hand, numbered from the first call without a gap, each starting from the state
  root and version the one before ended with, and the endpoints those of the anchor.
\<close>

theorem anchored_chain_is_the_range:
  assumes "anchor_new table_id hand_id first pre_root post_root pre_version post_version digests = Inr a"
  shows "verify_against_anchor rs a = Inr () \<longleftrightarrow>
    map vr_dispatch_call_digest rs = digests \<and> numbered table_id hand_id first rs \<and> linked rs
    \<and> vr_pre_state_root (hd rs) = pre_root \<and> vr_post_state_root (last rs) = post_root
    \<and> vr_pre_version (hd rs) = pre_version \<and> vr_post_version (last rs) = post_version"
  using assms anchor_iff [of a rs] by (auto simp: anchor_new_Inr anchored_range_def)

text \<open>Two receipts of one hand for the witnesses.\<close>

definition demo_root :: "nat \<Rightarrow> bytes" where
  "demo_root n = replicate 32 (word_of_nat n)"

definition demo_receipt :: "nat \<Rightarrow> nat \<Rightarrow> nat receipt" where
  "demo_receipt hand n = \<lparr>vr_kind = MFoldWithProof, vr_pre_state_root = demo_root n,
     vr_post_state_root = demo_root (n + 1), vr_table_id = 7, vr_hand_id = hand, vr_call_seq = n,
     vr_pre_version = n, vr_post_version = n + 1, vr_dispatch_call_digest = demo_root n,
     vr_proof_commitments = [n], vr_log_size = 10, vr_num_columns = 1\<rparr>"

theorem anchored_chain_is_the_range_witness:
  "\<exists>a. anchor_new 7 3 10 (demo_root 10) (demo_root 12) 10 12 [demo_root 10, demo_root 11] = Inr a
     \<and> verify_against_anchor [demo_receipt 3 10, demo_receipt 3 11] a = Inr ()"
proof -
  obtain a where a: "anchor_new 7 3 10 (demo_root 10) (demo_root 12) 10 12 [demo_root 10, demo_root 11] = Inr a"
    by (auto simp: anchor_new_Inr)
  have "numbered 7 3 10 [demo_receipt 3 10, demo_receipt 3 11]" "linked [demo_receipt 3 10, demo_receipt 3 11]"
    by (auto simp: numbered_def linked_def demo_receipt_def less_Suc_eq)
  then show ?thesis
    using a anchored_chain_is_the_range [OF a, of "[demo_receipt 3 10, demo_receipt 3 11]"]
    by (simp add: demo_receipt_def)
qed

end
