(* ===== verification/Canon_Outer.thy ===== *)
theory Canon_Outer
  imports Canon_Chain
begin

text \<open>
  The outer aggregate (\<^verbatim>\<open>src/src/outer_aggregate.rs\<close>): the ordered envelopes of one hand's calls
  with their endpoints, its wire format, its verification against a list of tasks, and the digest
  over the exact children and everything the host accepted about them.

  Parameters: the Blake2b digest, the bytes of a field element, and the verification of one child
  envelope against its task (\<^verbatim>\<open>verify_dual_proof\<close>, which runs the proof system). The source checks
  the children in parallel and reports the first error in their order. The errors of the wire format
  are \<^verbatim>\<open>SerializationError\<close>, the others \<^verbatim>\<open>RecursionError\<close>; the model keeps the text.
\<close>

section \<open>The aggregate\<close>

definition OUTER_AGGREGATE_MAGIC :: bytes where "OUTER_AGGREGATE_MAGIC = ascii ''ZPOUTR04''"
definition OUTER_AGGREGATE_VERSION :: nat where "OUTER_AGGREGATE_VERSION = 1"
definition MIN_OUTER_CHILDREN :: nat where "MIN_OUTER_CHILDREN = 2"
definition MAX_OUTER_CHILDREN :: nat where "MAX_OUTER_CHILDREN = 64"
definition MAX_OUTER_AGGREGATE_BYTES :: nat where "MAX_OUTER_AGGREGATE_BYTES = 256 * 1024 * 1024"
definition OUTER_HEADER_LEN :: nat where "OUTER_HEADER_LEN = 144"
definition MAX_OUTER_CHILD_BYTES :: nat where
  "MAX_OUTER_CHILD_BYTES = 20 + MAX_STARK_PROOF_BYTES + MAX_CRYPTO_REQUEST_BYTES"

record outer_aggregate =
  oa_version :: nat
  oa_table_id :: nat
  oa_hand_id :: nat
  oa_first_call_seq :: nat
  oa_pre_version :: nat
  oa_post_version :: nat
  oa_pre_state_root :: bytes
  oa_post_state_root :: bytes
  oa_aggregate_digest :: bytes
  oa_children :: "dual_bundle list"

definition validate_child_count :: "nat \<Rightarrow> unit res" where
  "validate_child_count n = fail_if (\<not> (MIN_OUTER_CHILDREN \<le> n \<and> n \<le> MAX_OUTER_CHILDREN))
     ''outer child count is outside its range''"

text \<open>The loop over the children that \<^verbatim>\<open>encode\<close> and \<^verbatim>\<open>build_bundle\<close> share, and its final check.\<close>

definition add_child_len :: "nat \<Rightarrow> dual_bundle \<Rightarrow> nat res" where
  "add_child_len len child =
     rbind (encoded_len child) (\<lambda>child_len.
     rbind (fail_if (MAX_OUTER_CHILD_BYTES < child_len) ''encoded child exceeds outer child limit'') (\<lambda>_.
     rbind (ok_or (checked_add len 4) (Other ''outer aggregate length overflow'')) (\<lambda>n.
       ok_or (checked_add n child_len) (Other ''outer aggregate length overflow''))))"

definition check_total_len :: "dual_bundle list \<Rightarrow> nat res" where
  "check_total_len children =
     rbind (try_fold add_child_len OUTER_HEADER_LEN children) (\<lambda>total.
     rbind (fail_if (MAX_OUTER_AGGREGATE_BYTES < total) ''outer aggregate exceeds total size limit'') (\<lambda>_.
       Inr total))"

definition outer_header :: "outer_aggregate \<Rightarrow> bytes" where
  "outer_header oa = concat
     [OUTER_AGGREGATE_MAGIC, int_bytes 1 (oa_version oa), int_bytes 1 0, int_bytes 2 0,
      int_bytes 4 (length (oa_children oa)), int_bytes 8 (oa_table_id oa), int_bytes 4 (oa_hand_id oa),
      int_bytes 4 (oa_first_call_seq oa), int_bytes 8 (oa_pre_version oa), int_bytes 8 (oa_post_version oa),
      oa_pre_state_root oa, oa_post_state_root oa, oa_aggregate_digest oa]"

definition child_frame :: "dual_bundle \<Rightarrow> bytes" where
  "child_frame c = int_bytes 4 (length (bundle_bytes c)) @ bundle_bytes c"

definition put_child :: "bytes \<Rightarrow> dual_bundle \<Rightarrow> bytes res" where
  "put_child out child =
     rbind (encoded_len child) (\<lambda>len.
     rbind (to_u32 ''outer child length exceeds u32'' len) (\<lambda>len.
     rbind (bundle_encode child) (\<lambda>b. Inr (out @ int_bytes 4 len @ b))))"

definition outer_encode :: "outer_aggregate \<Rightarrow> bytes res" where
  "outer_encode oa =
     rbind (validate_child_count (length (oa_children oa))) (\<lambda>_.
     rbind (check_total_len (oa_children oa)) (\<lambda>_.
     rbind (to_u32 ''outer child count exceeds u32'' (length (oa_children oa))) (\<lambda>_.
       try_fold put_child (outer_header oa) (oa_children oa))))"

text \<open>The children from a cursor on; the source's loop counts them with an index.\<close>

fun decode_children :: "abi_versions \<Rightarrow> bytes \<Rightarrow> nat \<Rightarrow> nat \<Rightarrow> (dual_bundle list \<times> nat) res" where
  "decode_children A bs 0 cursor = Inr ([], cursor)"
| "decode_children A bs (Suc n) cursor =
     (let length_end = cursor + 4 in
      rbind (fail_if (length bs < length_end) ''outer child length prefix is truncated'') (\<lambda>_.
      let child_len = le_at cursor length_end bs; child_end = length_end + child_len in
      rbind (fail_if (child_len = 0 \<or> MAX_OUTER_CHILD_BYTES < child_len)
        ''outer child length is outside the accepted range'') (\<lambda>_.
      rbind (fail_if (length bs < child_end) ''outer child payload is truncated'') (\<lambda>_.
      rbind (bundle_decode A (byte_slice length_end child_end bs)) (\<lambda>child.
      rbind (decode_children A bs n child_end) (\<lambda>(children, cursor).
        Inr (child # children, cursor)))))))"

definition outer_decode :: "abi_versions \<Rightarrow> bytes \<Rightarrow> outer_aggregate res" where
  "outer_decode A bs =
     rbind (checks
       [fail_if (length bs < OUTER_HEADER_LEN) ''outer aggregate header is truncated'',
        fail_if (MAX_OUTER_AGGREGATE_BYTES < length bs) ''outer aggregate exceeds total size limit'',
        fail_if (take 8 bs \<noteq> OUTER_AGGREGATE_MAGIC) ''outer aggregate magic mismatch'',
        fail_if (le_at 8 9 bs \<noteq> OUTER_AGGREGATE_VERSION) ''unsupported outer aggregate version'',
        fail_if (le_at 9 10 bs \<noteq> 0 \<or> byte_slice 10 12 bs \<noteq> [0, 0])
          ''outer aggregate flags/reserved bytes are non-zero'',
        validate_child_count (le_at 12 16 bs)]) (\<lambda>_.
     rbind (decode_children A bs (le_at 12 16 bs) OUTER_HEADER_LEN) (\<lambda>(children, cursor).
     rbind (fail_if (cursor \<noteq> length bs) ''outer aggregate contains trailing bytes'') (\<lambda>_.
       Inr \<lparr>oa_version = le_at 8 9 bs, oa_table_id = le_at 16 24 bs, oa_hand_id = le_at 24 28 bs,
            oa_first_call_seq = le_at 28 32 bs, oa_pre_version = le_at 32 40 bs,
            oa_post_version = le_at 40 48 bs, oa_pre_state_root = byte_slice 48 80 bs,
            oa_post_state_root = byte_slice 80 112 bs, oa_aggregate_digest = byte_slice 112 144 bs,
            oa_children = children\<rparr>)))"

section \<open>Verification\<close>

text \<open>The binding of a precompile call (\<^verbatim>\<open>PrecompileCallBinding\<close>); there is one backend.\<close>

definition NATIVE_BLS12381_V1 :: nat where "NATIVE_BLS12381_V1 = 1"

record call_binding =
  pb_precompile_id :: precompile_id
  pb_abi_version :: nat
  pb_request_bytes :: bytes
  pb_request_digest :: bytes
  pb_receipt_digest :: bytes

record ('f, 'task) outer_lib =
  ol_blake :: "bytes \<Rightarrow> bytes"
  ol_felt_bytes :: "'f \<Rightarrow> bytes"
  ol_verify :: "'task \<Rightarrow> dual_bundle \<Rightarrow> ('f receipt \<times> call_binding) res"

definition hash256 :: "(bytes \<Rightarrow> bytes) \<Rightarrow> bytes \<Rightarrow> bytes \<Rightarrow> bytes" where
  "hash256 blake domain payload = blake (domain @ int_bytes 8 (length payload) @ payload)"

definition receipt_bytes :: "('f \<Rightarrow> bytes) \<Rightarrow> 'f receipt \<Rightarrow> bytes" where
  "receipt_bytes fb r = concat
     [int_bytes 1 (method_tag (vr_kind r)), int_bytes 8 (vr_table_id r), int_bytes 4 (vr_hand_id r),
      int_bytes 4 (vr_call_seq r), int_bytes 8 (vr_pre_version r), int_bytes 8 (vr_post_version r),
      vr_pre_state_root r, vr_post_state_root r, vr_dispatch_call_digest r, int_bytes 4 (vr_log_size r),
      int_bytes 8 (vr_num_columns r), int_bytes 4 (length (vr_proof_commitments r)),
      concat (map fb (vr_proof_commitments r))]"

definition child_digest :: "(bytes \<Rightarrow> bytes) \<Rightarrow> dual_bundle \<Rightarrow> (nat \<times> bytes) res" where
  "child_digest blake child =
     rbind (encoded_len child) (\<lambda>payload_len.
       Inr (payload_len, blake (ascii ''zchain.poker.outer_aggregate.child_bytes.v1''
         @ int_bytes 8 payload_len @ bundle_bytes child)))"

text \<open>\<^verbatim>\<open>collect\<close> of results: the first error in order.\<close>

fun collect_res :: "('a \<Rightarrow> 'b res) \<Rightarrow> 'a list \<Rightarrow> 'b list res" where
  "collect_res f [] = Inr []"
| "collect_res f (x # xs) = rbind (f x) (\<lambda>y. rbind (collect_res f xs) (\<lambda>ys. Inr (y # ys)))"

definition header_material :: "outer_aggregate \<Rightarrow> bytes" where
  "header_material oa = concat
     [int_bytes 1 (oa_version oa), int_bytes 4 (length (oa_children oa)), int_bytes 8 (oa_table_id oa),
      int_bytes 4 (oa_hand_id oa), int_bytes 4 (oa_first_call_seq oa), int_bytes 8 (oa_pre_version oa),
      int_bytes 8 (oa_post_version oa), oa_pre_state_root oa, oa_post_state_root oa]"

definition child_material ::
  "('f \<Rightarrow> bytes) \<Rightarrow> nat \<Rightarrow> (nat \<times> bytes) \<times> 'f receipt \<times> call_binding \<Rightarrow> bytes"
where
  "child_material fb index = (\<lambda>((child_len, digest), r, b). concat
     [int_bytes 4 index, int_bytes 4 child_len, digest, receipt_bytes fb r,
      int_bytes 1 (precompile_tag (pb_precompile_id b)), int_bytes 1 (pb_abi_version b),
      int_bytes 1 NATIVE_BLS12381_V1, pb_request_digest b, pb_receipt_digest b])"

definition OUTER_DOMAIN :: bytes where "OUTER_DOMAIN = ascii ''zchain.poker.outer_aggregate.semantic.v1''"

definition aggregate_digest ::
  "('f, 'task) outer_lib \<Rightarrow> outer_aggregate \<Rightarrow> 'f receipt list \<Rightarrow> call_binding list \<Rightarrow> bytes res"
where
  "aggregate_digest L bundle rs bindings =
     rbind (fail_if (length rs \<noteq> length (oa_children bundle) \<or> length bindings \<noteq> length (oa_children bundle))
       ''outer aggregate digest input count mismatch'') (\<lambda>_.
     rbind (collect_res (child_digest (ol_blake L)) (oa_children bundle)) (\<lambda>digests.
       Inr (hash256 (ol_blake L) OUTER_DOMAIN (header_material bundle
         @ concat (map2 (child_material (ol_felt_bytes L)) [0..<length digests]
             (zip digests (zip rs bindings)))))))"

definition build_bundle ::
  "('f, 'task) outer_lib \<Rightarrow> dual_bundle list \<Rightarrow> 'f receipt list \<Rightarrow> call_binding list \<Rightarrow> outer_aggregate res"
where
  "build_bundle L children rs bindings =
     rbind (fail_if (rs = []) ''outer chain is empty'') (\<lambda>_.
     let first = hd rs; last = last rs;
         bundle = \<lparr>oa_version = OUTER_AGGREGATE_VERSION, oa_table_id = vr_table_id first,
           oa_hand_id = vr_hand_id first, oa_first_call_seq = vr_call_seq first,
           oa_pre_version = vr_pre_version first, oa_post_version = vr_post_version last,
           oa_pre_state_root = vr_pre_state_root first, oa_post_state_root = vr_post_state_root last,
           oa_aggregate_digest = zero32, oa_children = children\<rparr> in
     rbind (aggregate_digest L bundle rs bindings) (\<lambda>digest.
     rbind (check_total_len children) (\<lambda>_. Inr (bundle\<lparr>oa_aggregate_digest := digest\<rparr>))))"

definition validate_bundle_metadata :: "outer_aggregate \<Rightarrow> 'f receipt list \<Rightarrow> unit res" where
  "validate_bundle_metadata bundle rs =
     rbind (fail_if (rs = []) ''outer chain is empty'') (\<lambda>_.
     let first = hd rs; last = last rs in
     fail_if (\<not> (oa_table_id bundle = vr_table_id first \<and> oa_hand_id bundle = vr_hand_id first
         \<and> oa_first_call_seq bundle = vr_call_seq first \<and> oa_pre_version bundle = vr_pre_version first
         \<and> oa_post_version bundle = vr_post_version last \<and> oa_pre_state_root bundle = vr_pre_state_root first
         \<and> oa_post_state_root bundle = vr_post_state_root last))
       ''outer aggregate endpoint metadata does not match verified child receipts'')"

definition verify_children ::
  "('f, 'task) outer_lib \<Rightarrow> 'task list \<Rightarrow> dual_bundle list \<Rightarrow> ('f receipt list \<times> call_binding list) res"
where
  "verify_children L tasks children =
     rbind (validate_child_count (length children)) (\<lambda>_.
     rbind (fail_if (length tasks \<noteq> length children) ''outer aggregate task/child count mismatch'') (\<lambda>_.
     rbind (collect_res (\<lambda>(task, child). ol_verify L task child) (zip tasks children)) (\<lambda>verified.
     rbind (try_from_receipts (map fst verified)) (\<lambda>chain. Inr (chain, map snd verified)))))"

definition aggregate_dual_proofs ::
  "('f, 'task) outer_lib \<Rightarrow> 'task list \<Rightarrow> dual_bundle list \<Rightarrow> outer_aggregate res"
where
  "aggregate_dual_proofs L tasks children =
     rbind (verify_children L tasks children) (\<lambda>(chain, bindings). build_bundle L children chain bindings)"

record 'f verified_outer =
  vo_chain :: "'f receipt list"
  vo_precompile_bindings :: "call_binding list"
  vo_aggregate_digest :: bytes

definition verify_outer_aggregate ::
  "('f, 'task) outer_lib \<Rightarrow> 'task list \<Rightarrow> outer_aggregate \<Rightarrow> 'f verified_outer res"
where
  "verify_outer_aggregate L tasks bundle =
     rbind (fail_if (oa_version bundle \<noteq> OUTER_AGGREGATE_VERSION)
       ''unsupported in-memory outer aggregate version'') (\<lambda>_.
     rbind (verify_children L tasks (oa_children bundle)) (\<lambda>(chain, bindings).
     rbind (validate_bundle_metadata bundle chain) (\<lambda>_.
     rbind (aggregate_digest L bundle chain bindings) (\<lambda>expected_digest.
     rbind (fail_if (oa_aggregate_digest bundle \<noteq> expected_digest)
       ''outer aggregate semantic commitment mismatch'') (\<lambda>_.
       Inr \<lparr>vo_chain = chain, vo_precompile_bindings = bindings,
            vo_aggregate_digest = expected_digest\<rparr>)))))"

section \<open>The wire format reads back\<close>

definition outer_bytes :: "outer_aggregate \<Rightarrow> bytes" where
  "outer_bytes oa = outer_header oa @ concat (map child_frame (oa_children oa))"

definition child_ok :: "abi_versions \<Rightarrow> dual_bundle \<Rightarrow> bool" where
  "child_ok A c \<longleftrightarrow> bundle_ok A c \<and> length (bundle_bytes c) \<le> MAX_OUTER_CHILD_BYTES"

definition header_ok :: "outer_aggregate \<Rightarrow> bool" where
  "header_ok oa \<longleftrightarrow> oa_version oa = OUTER_AGGREGATE_VERSION \<and> oa_table_id oa < u64_bound
     \<and> oa_hand_id oa < u32_bound \<and> oa_first_call_seq oa < u32_bound \<and> oa_pre_version oa < u64_bound
     \<and> oa_post_version oa < u64_bound \<and> length (oa_pre_state_root oa) = 32
     \<and> length (oa_post_state_root oa) = 32 \<and> length (oa_aggregate_digest oa) = 32"

definition outer_ok :: "abi_versions \<Rightarrow> outer_aggregate \<Rightarrow> bool" where
  "outer_ok A oa \<longleftrightarrow> header_ok oa \<and> validate_child_count (length (oa_children oa)) = Inr ()
     \<and> (\<forall>c\<in>set (oa_children oa). child_ok A c) \<and> length (outer_bytes oa) \<le> MAX_OUTER_AGGREGATE_BYTES"

lemma child_len_bound: "child_ok A c \<Longrightarrow> length (bundle_bytes c) < 256 ^ 4"
  by (simp add: child_ok_def MAX_OUTER_CHILD_BYTES_def MAX_STARK_PROOF_BYTES_def MAX_CRYPTO_REQUEST_BYTES_def)

lemma child_frame_length: "length (child_frame c) = 4 + length (bundle_bytes c)"
  by (simp add: child_frame_def)

lemma decode_children_frames:
  assumes "\<forall>c\<in>set cs. child_ok A c" and "length pre = cursor"
  shows "decode_children A (pre @ concat (map child_frame cs) @ post) (length cs) cursor
    = Inr (cs, cursor + length (concat (map child_frame cs)))"
  using assms
proof (induction cs arbitrary: pre cursor)
  case Nil
  then show ?case by simp
next
  case (Cons c cs)
  let ?bs = "pre @ child_frame c @ concat (map child_frame cs) @ post"
  have c: "child_ok A c" "length (bundle_bytes c) < 256 ^ 4" using Cons.prems child_len_bound by auto
  have len: "le_at cursor (cursor + 4) ?bs = length (bundle_bytes c)"
    using c(2) Cons.prems(2) by (simp add: le_at_def byte_slice_def child_frame_def int_value_bytes)
  have pay: "byte_slice (cursor + 4) (cursor + 4 + length (bundle_bytes c)) ?bs = bundle_bytes c"
    using Cons.prems(2) by (simp add: byte_slice_def child_frame_def)
  have rest: "decode_children A ?bs (length cs) (cursor + 4 + length (bundle_bytes c))
      = Inr (cs, cursor + length (child_frame c) + length (concat (map child_frame cs)))"
    using Cons.IH [of "pre @ child_frame c"] Cons.prems by (simp add: child_frame_length add.assoc)
  show ?case
    using c(1) len pay rest Cons.prems(2) bundle_codec.dec_enc [of A c]
    by (simp add: Let_def child_ok_def child_frame_length)
qed

lemma decode_children_Inr:
  assumes "decode_children A bs n cursor = Inr (cs, e)" and "cursor \<le> length bs"
  shows "length cs = n \<and> (\<forall>c\<in>set cs. child_ok A c) \<and> e \<le> length bs
    \<and> drop cursor bs = concat (map child_frame cs) @ drop e bs"
  using assms
proof (induction n arbitrary: cursor cs)
  case 0
  then show ?case by simp
next
  case (Suc n)
  let ?l = "le_at cursor (cursor + 4) bs"
  from Suc.prems obtain c cs' where cs: "cs = c # cs'" and l: "0 < ?l" "?l \<le> MAX_OUTER_CHILD_BYTES"
      "cursor + 4 + ?l \<le> length bs"
    and c: "bundle_decode A (byte_slice (cursor + 4) (cursor + 4 + ?l) bs) = Inr c"
    and rest: "decode_children A bs n (cursor + 4 + ?l) = Inr (cs', e)"
    by (auto simp: Let_def result_simps split: prod.splits)
  note IH = Suc.IH [OF rest l(3)]
  have b: "bundle_bytes c = byte_slice (cursor + 4) (cursor + 4 + ?l) bs" and ok: "bundle_ok A c"
    using c bundle_decode_iff by auto
  then have len: "length (bundle_bytes c) = ?l" using l by simp
  have "drop cursor bs = byte_slice cursor (cursor + 4) bs @ byte_slice (cursor + 4) (cursor + 4 + ?l) bs
      @ drop (cursor + 4 + ?l) bs"
    using drop_slice [of cursor "cursor + 4" bs] drop_slice [of "cursor + 4" "cursor + 4 + ?l" bs] by simp
  also have "\<dots> = child_frame c @ drop (cursor + 4 + ?l) bs"
    using l(3) int_bytes_le_at [of "cursor + 4" bs 4 cursor] by (simp add: child_frame_def b [symmetric] len)
  finally show ?case using IH ok len l by (simp add: cs child_ok_def)
qed

lemma outer_header_length: "header_ok oa \<Longrightarrow> length (outer_header oa) = OUTER_HEADER_LEN"
  by (simp add: outer_header_def header_ok_def OUTER_HEADER_LEN_def OUTER_AGGREGATE_MAGIC_def ascii_def)

lemma child_count_Inr [result_simps]:
  "validate_child_count n = Inr u \<longleftrightarrow> MIN_OUTER_CHILDREN \<le> n \<and> n \<le> MAX_OUTER_CHILDREN"
  by (auto simp: validate_child_count_def)

lemma outer_decode_encode:
  assumes "outer_ok A oa"
  shows "outer_decode A (outer_bytes oa) = Inr oa"
proof -
  have h: "header_ok oa" and n: "validate_child_count (length (oa_children oa)) = Inr ()"
    and cs: "\<forall>c\<in>set (oa_children oa). child_ok A c" and len: "length (outer_bytes oa) \<le> MAX_OUTER_AGGREGATE_BYTES"
    using assms by (auto simp: outer_ok_def)
  have m: "length OUTER_AGGREGATE_MAGIC = 8" by (simp add: OUTER_AGGREGATE_MAGIC_def ascii_def)
  have n4: "length (oa_children oa) < 256 ^ 4" using n by (auto simp: result_simps MAX_OUTER_CHILDREN_def)
  note w = h [unfolded header_ok_def]
  have b: "outer_bytes oa = OUTER_AGGREGATE_MAGIC @ int_bytes 1 (oa_version oa) @ int_bytes 1 0 @ int_bytes 2 0
     @ int_bytes 4 (length (oa_children oa)) @ int_bytes 8 (oa_table_id oa) @ int_bytes 4 (oa_hand_id oa)
     @ int_bytes 4 (oa_first_call_seq oa) @ int_bytes 8 (oa_pre_version oa) @ int_bytes 8 (oa_post_version oa)
     @ oa_pre_state_root oa @ oa_post_state_root oa @ oa_aggregate_digest oa
     @ concat (map child_frame (oa_children oa))"
    by (simp add: outer_bytes_def outer_header_def)
  have f: "take 8 (outer_bytes oa) = OUTER_AGGREGATE_MAGIC" "byte_slice 10 12 (outer_bytes oa) = [0, 0]"
      "byte_slice 48 80 (outer_bytes oa) = oa_pre_state_root oa"
      "byte_slice 80 112 (outer_bytes oa) = oa_post_state_root oa"
      "byte_slice 112 144 (outer_bytes oa) = oa_aggregate_digest oa"
    using w by (simp_all add: b m byte_slice_def numeral_2_eq_2)
  have g: "le_at 8 9 (outer_bytes oa) = oa_version oa" "le_at 9 10 (outer_bytes oa) = 0"
      "le_at 12 16 (outer_bytes oa) = length (oa_children oa)" "le_at 16 24 (outer_bytes oa) = oa_table_id oa"
      "le_at 24 28 (outer_bytes oa) = oa_hand_id oa" "le_at 28 32 (outer_bytes oa) = oa_first_call_seq oa"
      "le_at 32 40 (outer_bytes oa) = oa_pre_version oa" "le_at 40 48 (outer_bytes oa) = oa_post_version oa"
    using w n4 by (simp_all add: b m le_at_def byte_slice_def int_value_bytes OUTER_AGGREGATE_VERSION_def
        del: int_bytes.simps)
  have d: "decode_children A (outer_bytes oa) (length (oa_children oa)) OUTER_HEADER_LEN
      = Inr (oa_children oa, length (outer_bytes oa))"
    using decode_children_frames [OF cs outer_header_length [OF h], of "[]"] outer_header_length [OF h]
    by (simp add: outer_bytes_def)
  have "OUTER_HEADER_LEN \<le> length (outer_bytes oa)"
    using outer_header_length [OF h] by (simp add: outer_bytes_def)
  then show ?thesis using len w n by (simp add: outer_decode_def f g d)
qed

lemma outer_decode_Inr:
  assumes "outer_decode A bs = Inr oa"
  shows "outer_ok A oa \<and> bs = outer_bytes oa"
proof -
  from assms obtain cs where d: "OUTER_HEADER_LEN \<le> length bs" "length bs \<le> MAX_OUTER_AGGREGATE_BYTES"
      "take 8 bs = OUTER_AGGREGATE_MAGIC" "le_at 8 9 bs = OUTER_AGGREGATE_VERSION" "le_at 9 10 bs = 0"
      "byte_slice 10 12 bs = [0, 0]" "validate_child_count (le_at 12 16 bs) = Inr ()"
    and cs: "decode_children A bs (le_at 12 16 bs) OUTER_HEADER_LEN = Inr (cs, length bs)"
    and oa: "oa = \<lparr>oa_version = le_at 8 9 bs, oa_table_id = le_at 16 24 bs, oa_hand_id = le_at 24 28 bs,
            oa_first_call_seq = le_at 28 32 bs, oa_pre_version = le_at 32 40 bs,
            oa_post_version = le_at 40 48 bs, oa_pre_state_root = byte_slice 48 80 bs,
            oa_post_state_root = byte_slice 80 112 bs, oa_aggregate_digest = byte_slice 112 144 bs,
            oa_children = cs\<rparr>"
    by (auto simp: outer_decode_def result_simps split: prod.splits)
  have l: "144 \<le> length bs" using d(1) by (simp add: OUTER_HEADER_LEN_def)
  note kids = decode_children_Inr [OF cs d(1)]
  have "bs = take 8 bs @ byte_slice 8 9 bs @ byte_slice 9 10 bs @ byte_slice 10 12 bs @ byte_slice 12 16 bs
      @ byte_slice 16 24 bs @ byte_slice 24 28 bs @ byte_slice 28 32 bs @ byte_slice 32 40 bs
      @ byte_slice 40 48 bs @ byte_slice 48 80 bs @ byte_slice 80 112 bs @ byte_slice 112 144 bs @ drop 144 bs"
    by (simp add: drop_slice [symmetric])
  also have "\<dots> = OUTER_AGGREGATE_MAGIC @ int_bytes 1 (oa_version oa) @ int_bytes 1 0 @ int_bytes 2 0
     @ int_bytes 4 (length (oa_children oa)) @ int_bytes 8 (oa_table_id oa) @ int_bytes 4 (oa_hand_id oa)
     @ int_bytes 4 (oa_first_call_seq oa) @ int_bytes 8 (oa_pre_version oa) @ int_bytes 8 (oa_post_version oa)
     @ oa_pre_state_root oa @ oa_post_state_root oa @ oa_aggregate_digest oa
     @ concat (map child_frame (oa_children oa))"
  proof -
    have "byte_slice 9 10 bs = int_bytes 1 0" using int_bytes_le_at [of 10 bs 1 9] d(5) l by simp
    moreover have "byte_slice 10 12 bs = int_bytes 2 0" using d(6) by (simp add: numeral_2_eq_2)
    ultimately show ?thesis using l kids d(3)
      by (simp add: oa int_bytes_le_at OUTER_HEADER_LEN_def del: int_bytes.simps)
  qed
  also have "\<dots> = outer_bytes oa" by (simp add: outer_bytes_def outer_header_def)
  finally have b: "bs = outer_bytes oa" .
  have bound: "le_at i (i + k) bs < 256 ^ k" if "i + k \<le> 144" for i k
    using le_at_bound [of "i + k" bs k i] that l by simp
  have "header_ok oa"
    using l d(4) bound [of 16 8] bound [of 24 4] bound [of 28 4] bound [of 32 8] bound [of 40 8]
    by (simp add: header_ok_def oa)
  moreover have "oa_children oa = cs" by (simp add: oa)
  moreover have "length (outer_bytes oa) \<le> MAX_OUTER_AGGREGATE_BYTES" using d(2) b by argo
  ultimately show ?thesis using b d(7) kids by (simp only: outer_ok_def) simp
qed

lemma outer_decode_iff: "outer_decode A bs = Inr oa \<longleftrightarrow> outer_ok A oa \<and> bs = outer_bytes oa"
  using outer_decode_encode outer_decode_Inr by blast

interpretation outer_codec: exact_codec "outer_ok A" outer_bytes "outer_decode A" for A
  by unfold_locales (rule outer_decode_iff)

section \<open>What the constructors accept\<close>

lemma child_lens:
  "try_fold add_child_len n cs = Inr r \<longleftrightarrow>
     (\<forall>c\<in>set cs. encoded_len c = Inr (length (bundle_bytes c)) \<and> length (bundle_bytes c) \<le> MAX_OUTER_CHILD_BYTES)
     \<and> r = n + length (concat (map child_frame cs)) \<and> (cs = [] \<or> r < u64_bound)"
proof (induction cs arbitrary: n)
  case Nil
  then show ?case by auto
next
  case (Cons c cs)
  have step: "add_child_len n c = Inr m \<longleftrightarrow> encoded_len c = Inr (length (bundle_bytes c))
      \<and> length (bundle_bytes c) \<le> MAX_OUTER_CHILD_BYTES \<and> m = n + length (child_frame c) \<and> m < u64_bound" for m
  proof (cases "encoded_len c")
    case (Inl e)
    then show ?thesis by (simp add: add_child_len_def)
  next
    case (Inr k)
    then have "k = length (bundle_bytes c)" by (simp add: encoded_len_Inr)
    then show ?thesis using Inr by (auto simp: add_child_len_def result_simps child_frame_length)
  qed
  have "try_fold add_child_len n (c # cs) = Inr r \<longleftrightarrow>
      (\<exists>m. add_child_len n c = Inr m \<and> try_fold add_child_len m cs = Inr r)"
    by (simp add: rbind_Inr_iff)
  also have "\<dots> \<longleftrightarrow> encoded_len c = Inr (length (bundle_bytes c)) \<and> length (bundle_bytes c) \<le> MAX_OUTER_CHILD_BYTES
      \<and> n + length (child_frame c) < u64_bound \<and> try_fold add_child_len (n + length (child_frame c)) cs = Inr r"
    unfolding step by blast
  finally show ?case unfolding Cons.IH by (cases "cs = []") auto
qed

lemma check_total_len_Inr:
  "check_total_len cs = Inr r \<longleftrightarrow>
     (\<forall>c\<in>set cs. encoded_len c = Inr (length (bundle_bytes c)) \<and> length (bundle_bytes c) \<le> MAX_OUTER_CHILD_BYTES)
     \<and> r = OUTER_HEADER_LEN + length (concat (map child_frame cs)) \<and> r \<le> MAX_OUTER_AGGREGATE_BYTES"
  by (auto simp: check_total_len_def result_simps child_lens MAX_OUTER_AGGREGATE_BYTES_def)

lemma put_children:
  "\<forall>c\<in>set cs. encoded_len c = Inr (length (bundle_bytes c)) \<and> length (bundle_bytes c) \<le> MAX_OUTER_CHILD_BYTES \<Longrightarrow>
   try_fold put_child out cs = Inr (out @ concat (map child_frame cs))"
proof (induction cs arbitrary: out)
  case Nil
  then show ?case by simp
next
  case (Cons c cs)
  have "length (bundle_bytes c) < u32_bound"
    using Cons.prems by (simp add: MAX_OUTER_CHILD_BYTES_def MAX_STARK_PROOF_BYTES_def MAX_CRYPTO_REQUEST_BYTES_def)
  then have "put_child out c = Inr (out @ child_frame c)"
    using Cons.prems by (simp add: put_child_def bundle_encode_def to_u32_def child_frame_def)
  then show ?case using Cons by simp
qed

lemma outer_encode_Inr:
  assumes "header_ok oa"
  shows "outer_encode oa = Inr bs \<longleftrightarrow> bs = outer_bytes oa
    \<and> validate_child_count (length (oa_children oa)) = Inr () \<and> length (outer_bytes oa) \<le> MAX_OUTER_AGGREGATE_BYTES
    \<and> (\<forall>c\<in>set (oa_children oa). encoded_len c = Inr (length (bundle_bytes c))
        \<and> length (bundle_bytes c) \<le> MAX_OUTER_CHILD_BYTES)"
proof -
  have "length (outer_bytes oa) = OUTER_HEADER_LEN + length (concat (map child_frame (oa_children oa)))"
    using outer_header_length [OF assms] by (simp add: outer_bytes_def)
  then show ?thesis
    using put_children [of "oa_children oa" "outer_header oa"]
    by (auto simp: outer_encode_def result_simps check_total_len_Inr outer_bytes_def MAX_OUTER_CHILDREN_def)
qed

lemma outer_ok_encodes: "outer_ok A oa \<Longrightarrow> outer_encode oa = Inr (outer_bytes oa)"
  using outer_encode_Inr [of oa] bundle_ok_encodes [of A]
  by (auto simp: outer_ok_def child_ok_def bundle_encode_def result_simps encoded_len_Inr)

section \<open>The digest covers the children and what was accepted about them\<close>

definition collides :: "(bytes \<Rightarrow> bytes) \<Rightarrow> bytes \<Rightarrow> bytes \<Rightarrow> bool" where
  "collides h x y \<longleftrightarrow> x \<noteq> y \<and> h x = h y"

definition child_message :: "dual_bundle \<Rightarrow> bytes" where
  "child_message c = ascii ''zchain.poker.outer_aggregate.child_bytes.v1''
     @ int_bytes 8 (length (bundle_bytes c)) @ bundle_bytes c"

definition outer_items ::
  "('f, 'task) outer_lib \<Rightarrow> dual_bundle list \<Rightarrow> 'f receipt list \<Rightarrow> call_binding list
   \<Rightarrow> ((nat \<times> bytes) \<times> 'f receipt \<times> call_binding) list"
where
  "outer_items L cs rs bindings =
     zip (map (\<lambda>c. (length (bundle_bytes c), ol_blake L (child_message c))) cs) (zip rs bindings)"

definition outer_material ::
  "('f, 'task) outer_lib \<Rightarrow> outer_aggregate \<Rightarrow> 'f receipt list \<Rightarrow> call_binding list \<Rightarrow> bytes"
where
  "outer_material L oa rs bindings = header_material oa
     @ concat (map2 (child_material (ol_felt_bytes L)) [0..<length (oa_children oa)]
         (outer_items L (oa_children oa) rs bindings))"

definition outer_message ::
  "('f, 'task) outer_lib \<Rightarrow> outer_aggregate \<Rightarrow> 'f receipt list \<Rightarrow> call_binding list \<Rightarrow> bytes"
where
  "outer_message L oa rs bindings = OUTER_DOMAIN
     @ int_bytes 8 (length (outer_material L oa rs bindings)) @ outer_material L oa rs bindings"

lemma collect_res_list_all2: "collect_res f xs = Inr ys \<longleftrightarrow> list_all2 (\<lambda>x y. f x = Inr y) xs ys"
proof (induction xs arbitrary: ys)
  case Nil
  then show ?case by auto
next
  case (Cons x xs)
  then show ?case by (auto simp: result_simps list_all2_Cons1)
qed

lemma child_digests_Inr:
  "collect_res (child_digest blake) cs = Inr ds \<Longrightarrow>
   ds = map (\<lambda>c. (length (bundle_bytes c), blake (child_message c))) cs"
proof (induction cs arbitrary: ds)
  case Nil
  then show ?case by simp
next
  case (Cons c cs)
  then show ?case by (auto simp: result_simps child_digest_def child_message_def encoded_len_Inr)
qed

lemma aggregate_digest_Inr:
  assumes "aggregate_digest L oa rs bindings = Inr d"
  shows "length rs = length (oa_children oa)" "length bindings = length (oa_children oa)"
    and "d = ol_blake L (outer_message L oa rs bindings)"
proof -
  from assms show "length rs = length (oa_children oa)" "length bindings = length (oa_children oa)"
    by (auto simp: aggregate_digest_def)
  from assms show "d = ol_blake L (outer_message L oa rs bindings)"
    by (auto simp: aggregate_digest_def rbind_Inr_iff hash256_def outer_message_def outer_material_def
        outer_items_def dest: child_digests_Inr)
qed

text \<open>The widths the source's types give.\<close>

definition typed_receipt :: "'f receipt \<Rightarrow> bool" where
  "typed_receipt r \<longleftrightarrow> length (vr_pre_state_root r) = 32 \<and> length (vr_post_state_root r) = 32
     \<and> length (vr_dispatch_call_digest r) = 32 \<and> length (vr_proof_commitments r) < u32_bound"

definition typed_binding :: "call_binding \<Rightarrow> bool" where
  "typed_binding b \<longleftrightarrow> length (pb_request_digest b) = 32 \<and> length (pb_receipt_digest b) = 32"

definition lawful_outer :: "('f, 'task) outer_lib \<Rightarrow> bool" where
  "lawful_outer L \<longleftrightarrow> (\<forall>x. length (ol_blake L x) = 32) \<and> (\<forall>f. length (ol_felt_bytes L f) = 32)
     \<and> (\<forall>t c r b. ol_verify L t c = Inr (r, b) \<longrightarrow> typed_receipt r \<and> typed_binding b)"

lemma concat_same_length:
  "\<forall>x\<in>set xs. length (f x) = k \<Longrightarrow> length (concat (map f xs)) = k * length xs"
  by (induction xs) auto

lemma receipt_bytes_split:
  assumes "\<forall>f. length (fb f) = 32" and "typed_receipt r" "typed_receipt r'"
    and "receipt_bytes fb r @ x = receipt_bytes fb r' @ x'"
  shows "vr_dispatch_call_digest r = vr_dispatch_call_digest r' \<and> x = x'"
proof -
  have n: "length (concat (map fb (vr_proof_commitments r))) = 32 * length (vr_proof_commitments r)" for r
    using assms(1) by (simp add: concat_same_length)
  have "int_bytes 4 (length (vr_proof_commitments r)) = int_bytes 4 (length (vr_proof_commitments r'))
      \<and> vr_dispatch_call_digest r = vr_dispatch_call_digest r'
      \<and> concat (map fb (vr_proof_commitments r)) @ x = concat (map fb (vr_proof_commitments r')) @ x'"
    using assms(2-4) by (simp add: receipt_bytes_def typed_receipt_def append_eq_append_conv del: int_bytes.simps)
  then show ?thesis using assms(2,3) n [of r] n [of r']
    by (simp add: typed_receipt_def int_bytes_inj append_eq_append_conv del: int_bytes.simps)
qed

lemma child_material_split:
  assumes "\<forall>f. length (fb f) = 32" and "typed_receipt r" "typed_receipt r'" "typed_binding b" "typed_binding b'"
    and "length d = 32" "length d' = 32"
    and "child_material fb i ((n, d), r, b) @ x = child_material fb i ((n', d'), r', b') @ x'"
  shows "d = d' \<and> vr_dispatch_call_digest r = vr_dispatch_call_digest r' \<and> x = x'"
proof -
  have "d = d'" and e: "receipt_bytes fb r @ (int_bytes 1 (precompile_tag (pb_precompile_id b))
      @ int_bytes 1 (pb_abi_version b) @ int_bytes 1 NATIVE_BLS12381_V1 @ pb_request_digest b @ pb_receipt_digest b @ x)
    = receipt_bytes fb r' @ (int_bytes 1 (precompile_tag (pb_precompile_id b'))
      @ int_bytes 1 (pb_abi_version b') @ int_bytes 1 NATIVE_BLS12381_V1 @ pb_request_digest b' @ pb_receipt_digest b' @ x')"
    using assms(6-8) by (simp_all add: child_material_def append_eq_append_conv del: int_bytes.simps)
  with receipt_bytes_split [OF assms(1-3) e] show ?thesis
    using assms(4,5) by (simp add: typed_binding_def append_eq_append_conv del: int_bytes.simps)
qed

definition typed_item :: "(nat \<times> bytes) \<times> 'f receipt \<times> call_binding \<Rightarrow> bool" where
  "typed_item = (\<lambda>((n, d), r, b). length d = 32 \<and> typed_receipt r \<and> typed_binding b)"

lemma items_split:
  assumes "\<forall>f. length (fb f) = 32" and "length xs = length ys"
    and "\<forall>x\<in>set xs. typed_item x" "\<forall>y\<in>set ys. typed_item y"
    and "concat (map2 (child_material fb) [k..<k + length xs] xs)
       = concat (map2 (child_material fb) [k..<k + length ys] ys)"
  shows "map (snd \<circ> fst) xs = map (snd \<circ> fst) ys
    \<and> map (vr_dispatch_call_digest \<circ> fst \<circ> snd) xs = map (vr_dispatch_call_digest \<circ> fst \<circ> snd) ys"
  using assms(2-)
proof (induction xs ys arbitrary: k rule: list_induct2)
  case Nil
  then show ?case by simp
next
  case (Cons x xs y ys)
  obtain n d r b n' d' r' b' where xy: "x = ((n, d), r, b)" "y = ((n', d'), r', b')"
    by (metis surj_pair)
  have upt: "[k..<Suc (k + m)] = k # [Suc k..<Suc (k + m)]" for m
    by (simp add: upt_conv_Cons del: upt_Suc)
  have "child_material fb k ((n, d), r, b) @ concat (map2 (child_material fb) [Suc k..<Suc k + length xs] xs)
      = child_material fb k ((n', d'), r', b') @ concat (map2 (child_material fb) [Suc k..<Suc k + length ys] ys)"
    using Cons.prems(3) by (simp add: xy upt del: upt_Suc)
  moreover have "typed_receipt r" "typed_receipt r'" "typed_binding b" "typed_binding b'"
      "length d = 32" "length d' = 32"
    using Cons.prems(1,2) by (simp_all add: xy typed_item_def)
  ultimately have "d = d'" "vr_dispatch_call_digest r = vr_dispatch_call_digest r'"
      "concat (map2 (child_material fb) [Suc k..<Suc k + length xs] xs)
       = concat (map2 (child_material fb) [Suc k..<Suc k + length ys] ys)"
    using child_material_split [OF assms(1)] by blast+
  with Cons.IH [of "Suc k"] Cons.prems show ?case by (simp add: xy)
qed

lemma header_material_length: "header_ok oa \<Longrightarrow> length (header_material oa) = 101"
  by (simp add: header_material_def header_ok_def)

lemma header_material_inj:
  assumes "header_ok p" "header_ok q" and n: "length (oa_children p) < u32_bound" "length (oa_children q) < u32_bound"
    and "header_material p = header_material q"
  shows "oa_version p = oa_version q \<and> length (oa_children p) = length (oa_children q)
    \<and> oa_table_id p = oa_table_id q \<and> oa_hand_id p = oa_hand_id q \<and> oa_first_call_seq p = oa_first_call_seq q
    \<and> oa_pre_version p = oa_pre_version q \<and> oa_post_version p = oa_post_version q
    \<and> oa_pre_state_root p = oa_pre_state_root q \<and> oa_post_state_root p = oa_post_state_root q"
  using assms by (simp add: header_material_def header_ok_def append_eq_append_conv int_bytes_inj
      OUTER_AGGREGATE_VERSION_def del: int_bytes.simps)

lemma verify_children_Inr:
  assumes "verify_children L tasks cs = Inr (chain, bindings)"
  shows "validate_child_count (length cs) = Inr ()" "length tasks = length cs" "validate_receipt_chain chain = Inr ()"
    and "list_all2 (\<lambda>(t, c) (r, b). ol_verify L t c = Inr (r, b)) (zip tasks cs) (zip chain bindings)"
    and "length chain = length cs" "length bindings = length cs"
proof -
  from assms obtain vs where vs: "collect_res (\<lambda>(t, c). ol_verify L t c) (zip tasks cs) = Inr vs"
    and c: "chain = map fst vs" "bindings = map snd vs" "validate_receipt_chain chain = Inr ()"
    and n: "validate_child_count (length cs) = Inr ()" "length tasks = length cs"
    by (auto simp: verify_children_def result_simps try_from_receipts_def)
  have z: "zip chain bindings = vs" by (simp add: c zip_map_fst_snd)
  have l: "list_all2 (\<lambda>x y. (case x of (t, c) \<Rightarrow> ol_verify L t c) = Inr y) (zip tasks cs) vs"
    using vs by (simp add: collect_res_list_all2)
  from list_all2_lengthD [OF l] n show "length chain = length cs" "length bindings = length cs"
    by (simp_all add: c)
  show "list_all2 (\<lambda>(t, c) (r, b). ol_verify L t c = Inr (r, b)) (zip tasks cs) (zip chain bindings)"
    using l by (simp add: z case_prod_beta')
  show "validate_child_count (length cs) = Inr ()" "length tasks = length cs" "validate_receipt_chain chain = Inr ()"
    using n c(3) by simp_all
qed

lemma verify_outer_Inr:
  assumes "verify_outer_aggregate L tasks oa = Inr v"
  shows "verify_children L tasks (oa_children oa) = Inr (vo_chain v, vo_precompile_bindings v)"
    and "validate_bundle_metadata oa (vo_chain v) = Inr ()"
    and "vo_aggregate_digest v = ol_blake L (outer_message L oa (vo_chain v) (vo_precompile_bindings v))"
    and "oa_aggregate_digest oa = vo_aggregate_digest v" "oa_version oa = OUTER_AGGREGATE_VERSION"
  using assms by (auto simp: verify_outer_aggregate_def rbind_Inr_iff dest: aggregate_digest_Inr(3) split: prod.splits)

lemma typed_items:
  assumes "lawful_outer L" and "verify_children L tasks cs = Inr (chain, bindings)"
  shows "\<forall>x\<in>set (outer_items L cs chain bindings). typed_item x" "length (outer_items L cs chain bindings) = length cs"
proof -
  note v = verify_children_Inr [OF assms(2)]
  have "typed_receipt r \<and> typed_binding b" if rb: "(r, b) \<in> set (zip chain bindings)" for r b
  proof -
    obtain i where i: "i < length (zip chain bindings)" "zip chain bindings ! i = (r, b)"
      using rb unfolding in_set_conv_nth by blast
    obtain t c where "zip tasks cs ! i = (t, c)" by (cases "zip tasks cs ! i")
    then have "ol_verify L t c = Inr (r, b)" using list_all2_nthD2 [OF v(4) i(1)] i(2) by simp
    then show ?thesis using assms(1) unfolding lawful_outer_def by blast
  qed
  note rb = this
  have d: "length (ol_blake L m) = 32" for m
    using assms(1) by (simp add: lawful_outer_def)
  have "typed_item x" if x: "x \<in> set (outer_items L cs chain bindings)" for x
  proof -
    obtain n m r b where xx: "x = ((n, m), r, b)" by (metis surj_pair)
    have "(r, b) \<in> set (zip chain bindings)"
      using set_zip_rightD x unfolding xx outer_items_def by fast
    moreover have "(n, m) \<in> set (map (\<lambda>c. (length (bundle_bytes c), ol_blake L (child_message c))) cs)"
      using set_zip_leftD x unfolding xx outer_items_def by fast
    ultimately show ?thesis using rb d by (auto simp: xx typed_item_def)
  qed
  then show "\<forall>x\<in>set (outer_items L cs chain bindings). typed_item x" by blast
  show "length (outer_items L cs chain bindings) = length cs" by (simp add: outer_items_def v)
qed

section \<open>A built aggregate verifies\<close>

lemma aggregate_digest_blank:
  "aggregate_digest L (oa\<lparr>oa_aggregate_digest := d\<rparr>) rs bindings = aggregate_digest L oa rs bindings"
  by (simp add: aggregate_digest_def header_material_def)

lemma built_aggregate_verifies:
  assumes "aggregate_dual_proofs L tasks cs = Inr oa"
  shows "\<exists>v. verify_outer_aggregate L tasks oa = Inr v \<and> vo_aggregate_digest v = oa_aggregate_digest oa"
    and "oa_children oa = cs" "length (outer_header oa) = OUTER_HEADER_LEN \<Longrightarrow> length (outer_bytes oa) \<le> MAX_OUTER_AGGREGATE_BYTES"
proof -
  from assms obtain chain bindings where v: "verify_children L tasks cs = Inr (chain, bindings)"
    and b: "build_bundle L cs chain bindings = Inr oa"
    by (auto simp: aggregate_dual_proofs_def rbind_Inr_iff)
  define blank where "blank = \<lparr>oa_version = OUTER_AGGREGATE_VERSION, oa_table_id = vr_table_id (hd chain),
           oa_hand_id = vr_hand_id (hd chain), oa_first_call_seq = vr_call_seq (hd chain),
           oa_pre_version = vr_pre_version (hd chain), oa_post_version = vr_post_version (last chain),
           oa_pre_state_root = vr_pre_state_root (hd chain), oa_post_state_root = vr_post_state_root (last chain),
           oa_aggregate_digest = zero32, oa_children = cs\<rparr>"
  from b obtain d k where d: "aggregate_digest L blank chain bindings = Inr d" and ne: "chain \<noteq> []"
    and k: "check_total_len cs = Inr k" and oa: "oa = blank\<lparr>oa_aggregate_digest := d\<rparr>"
    by (auto simp: build_bundle_def Let_def rbind_Inr_iff blank_def)
  show kids: "oa_children oa = cs" by (simp add: oa blank_def)
  have m: "validate_bundle_metadata oa chain = Inr ()"
    using ne by (simp add: validate_bundle_metadata_def Let_def oa blank_def)
  have "aggregate_digest L oa chain bindings = Inr d" using d by (simp only: oa aggregate_digest_blank)
  moreover have "oa_version oa = OUTER_AGGREGATE_VERSION" "oa_aggregate_digest oa = d"
    by (simp_all add: oa blank_def)
  ultimately show "\<exists>v. verify_outer_aggregate L tasks oa = Inr v \<and> vo_aggregate_digest v = oa_aggregate_digest oa"
    using v m kids by (simp add: verify_outer_aggregate_def)
  show "length (outer_header oa) = OUTER_HEADER_LEN \<Longrightarrow> length (outer_bytes oa) \<le> MAX_OUTER_AGGREGATE_BYTES"
    using k kids by (simp add: outer_bytes_def check_total_len_Inr)
qed

text \<open>
  The limit of a child counts the two payloads and twenty bytes, four fewer than the header of an
  envelope: an envelope with both payloads at their limits is valid alone and fits no aggregate.
\<close>

lemma largest_child_refused:
  assumes "length (db_stark_proof_bytes c) = MAX_STARK_PROOF_BYTES"
    and "length (db_crypto_request_bytes c) = MAX_CRYPTO_REQUEST_BYTES"
  shows "\<not> child_ok A c" "c \<in> set (oa_children oa) \<Longrightarrow> header_ok oa \<Longrightarrow> outer_encode oa \<noteq> Inr bs"
proof -
  have "MAX_OUTER_CHILD_BYTES < length (bundle_bytes c)"
    using assms by (simp add: bundle_bytes_def MAX_OUTER_CHILD_BYTES_def DUAL_PROOF_MAGIC_def ascii_def)
  then show "\<not> child_ok A c" "c \<in> set (oa_children oa) \<Longrightarrow> header_ok oa \<Longrightarrow> outer_encode oa \<noteq> Inr bs"
    using outer_encode_Inr [of oa bs] by (auto simp: child_ok_def)
qed

section \<open>Properties\<close>

text \<open>
  C13. The aggregate digest binds what was accepted: two verified aggregates that were read from the wire
  and have one digest are the same aggregate, with the same envelopes in the same order and the same
  dispatched calls, unless the hash collides on the two messages of the digest or on those of two
  children at the same place.
\<close>

theorem aggregate_digest_binds:
  assumes L: "lawful_outer L" and ok: "outer_ok A p" "outer_ok A q"
    and v: "verify_outer_aggregate L ts p = Inr v" "verify_outer_aggregate L us q = Inr w"
    and same: "vo_aggregate_digest v = vo_aggregate_digest w"
  shows "p = q \<and> map vr_dispatch_call_digest (vo_chain v) = map vr_dispatch_call_digest (vo_chain w)
    \<or> collides (ol_blake L) (outer_message L p (vo_chain v) (vo_precompile_bindings v))
        (outer_message L q (vo_chain w) (vo_precompile_bindings w))
    \<or> (\<exists>i<length (oa_children p). collides (ol_blake L) (child_message (oa_children p ! i)) (child_message (oa_children q ! i)))"
  (is "?same \<or> ?top \<or> ?child")
proof (rule ccontr)
  assume no: "\<not> (?same \<or> ?top \<or> ?child)"
  let ?P = "outer_items L (oa_children p) (vo_chain v) (vo_precompile_bindings v)"
  let ?Q = "outer_items L (oa_children q) (vo_chain w) (vo_precompile_bindings w)"
  note vp = verify_outer_Inr [OF v(1)] and vq = verify_outer_Inr [OF v(2)]
  note cp = verify_children_Inr [OF vp(1)] and cq = verify_children_Inr [OF vq(1)]
  note ip = typed_items [OF L vp(1)] and iq = typed_items [OF L vq(1)]
  have h: "header_ok p" "header_ok q" using ok by (simp_all add: outer_ok_def)
  have n: "length (oa_children p) < u32_bound" "length (oa_children q) < u32_bound"
    using ok by (auto simp: outer_ok_def result_simps MAX_OUTER_CHILDREN_def)
  have "outer_message L p (vo_chain v) (vo_precompile_bindings v) = outer_message L q (vo_chain w) (vo_precompile_bindings w)"
    using no same vp(3) vq(3) by (auto simp: collides_def)
  then have "outer_material L p (vo_chain v) (vo_precompile_bindings v) = outer_material L q (vo_chain w) (vo_precompile_bindings w)"
    by (simp add: outer_message_def append_eq_append_conv del: int_bytes.simps)
  then have hm: "header_material p = header_material q"
    and im: "concat (map2 (child_material (ol_felt_bytes L)) [0..<length (oa_children p)] ?P)
      = concat (map2 (child_material (ol_felt_bytes L)) [0..<length (oa_children q)] ?Q)"
    using header_material_length [OF h(1)] header_material_length [OF h(2)]
    by (simp_all add: outer_material_def append_eq_append_conv)
  note hd = header_material_inj [OF h n hm]
  then have len: "length (oa_children p) = length (oa_children q)" by simp
  have "map (snd \<circ> fst) ?P = map (snd \<circ> fst) ?Q
      \<and> map (vr_dispatch_call_digest \<circ> fst \<circ> snd) ?P = map (vr_dispatch_call_digest \<circ> fst \<circ> snd) ?Q"
    using items_split [of "ol_felt_bytes L" ?P ?Q 0] L len ip iq im by (simp add: lawful_outer_def)
  then have d: "map (\<lambda>c. ol_blake L (child_message c)) (oa_children p) = map (\<lambda>c. ol_blake L (child_message c)) (oa_children q)"
    and r: "map vr_dispatch_call_digest (vo_chain v) = map vr_dispatch_call_digest (vo_chain w)"
    using cp(5,6) cq(5,6) by (simp_all add: outer_items_def map_map [symmetric] del: map_map)
       (simp_all add: comp_def)
  have "oa_children p ! i = oa_children q ! i" if i: "i < length (oa_children p)" for i
  proof -
    have "ol_blake L (child_message (oa_children p ! i)) = ol_blake L (child_message (oa_children q ! i))"
      using arg_cong [OF d, of "\<lambda>xs. xs ! i"] i len by simp
    then have "child_message (oa_children p ! i) = child_message (oa_children q ! i)"
      using no i by (auto simp: collides_def)
    then have "bundle_bytes (oa_children p ! i) = bundle_bytes (oa_children q ! i)"
      by (simp add: child_message_def append_eq_append_conv del: int_bytes.simps)
    moreover have "bundle_ok A (oa_children p ! i)" "bundle_ok A (oa_children q ! i)"
      using ok i len by (simp_all add: outer_ok_def child_ok_def)
    ultimately show ?thesis by (blast intro: bundle_codec.enc_inj)
  qed
  then have "oa_children p = oa_children q" using len by (intro nth_equalityI) auto
  then have "p = q" using hd same vp(4) vq(4) by simp
  then show False using no r by blast
qed

text \<open>Two aggregates of two envelopes each, with a verifier that takes the receipt for the task.\<close>

definition demo_bundle :: "nat \<Rightarrow> dual_bundle" where
  "demo_bundle n = \<lparr>db_version = 2, db_method_kind = MFoldWithProof, db_precompile_id = PreDleqLeave,
     db_abi_version = 1, db_stark_proof_bytes = [word_of_nat n], db_crypto_request_bytes = [2],
     db_root_binding_bytes = []\<rparr>"

definition demo_call_binding :: call_binding where
  "demo_call_binding = \<lparr>pb_precompile_id = PreDleqLeave, pb_abi_version = 1, pb_request_bytes = [2],
     pb_request_digest = zero32, pb_receipt_digest = zero32\<rparr>"

definition demo_outer_lib :: "(nat, nat receipt) outer_lib" where
  "demo_outer_lib = \<lparr>ol_blake = (\<lambda>x. zero32), ol_felt_bytes = (\<lambda>f. zero32),
     ol_verify = (\<lambda>t c. if typed_receipt t then Inr (t, demo_call_binding) else Inl (Other ''rejected''))\<rparr>"

definition demo_tasks :: "nat \<Rightarrow> nat \<Rightarrow> nat receipt list" where
  "demo_tasks hand n = [demo_receipt hand n, demo_receipt hand (n + 1)]"

definition demo_outer :: "nat \<Rightarrow> nat \<Rightarrow> outer_aggregate" where
  "demo_outer hand n = \<lparr>oa_version = 1, oa_table_id = 7, oa_hand_id = hand, oa_first_call_seq = n,
     oa_pre_version = n, oa_post_version = n + 2, oa_pre_state_root = demo_root n,
     oa_post_state_root = demo_root (n + 2), oa_aggregate_digest = zero32,
     oa_children = [demo_bundle n, demo_bundle (n + 1)]\<rparr>"

definition demo_verified :: "nat \<Rightarrow> nat \<Rightarrow> nat verified_outer" where
  "demo_verified hand n = \<lparr>vo_chain = demo_tasks hand n,
     vo_precompile_bindings = [demo_call_binding, demo_call_binding], vo_aggregate_digest = zero32\<rparr>"

definition demo_abi :: abi_versions where
  "demo_abi = \<lparr>av_shuffle = 1, av_reconstruction = 3\<rparr>"

lemma demo_receipt_typed: "typed_receipt (demo_receipt hand n)"
  by (simp add: typed_receipt_def demo_receipt_def demo_root_def)

lemma demo_outer_lawful: "lawful_outer demo_outer_lib"
  by (auto simp: lawful_outer_def demo_outer_lib_def zero32_def typed_binding_def demo_call_binding_def
      split: if_splits)

lemma demo_bundle_ok: "bundle_ok A (demo_bundle n)"
  by (simp add: bundle_ok_def demo_bundle_def DUAL_PROOF_VERSION_def validate_route_def LEAVE_DLEQ_ABI_VERSION_def
      result_simps MAX_STARK_PROOF_BYTES_def MAX_CRYPTO_REQUEST_BYTES_def)

lemma demo_bundle_length: "length (bundle_bytes (demo_bundle n)) = 26"
  by (simp add: bundle_bytes_def demo_bundle_def DUAL_PROOF_MAGIC_def ascii_def)

lemma demo_outer_verifies:
  assumes "n + 2 < u32_bound"
  shows "verify_outer_aggregate demo_outer_lib (demo_tasks hand n) (demo_outer hand n) = Inr (demo_verified hand n)"
proof -
  have chain: "validate_receipt_chain (demo_tasks hand n) = Inr ()"
    using assms by (auto simp: validate_receipt_chain_Inr demo_tasks_def result_simps demo_receipt_def less_Suc_eq)
  have "verify_children demo_outer_lib (demo_tasks hand n) (oa_children (demo_outer hand n))
      = Inr (demo_tasks hand n, [demo_call_binding, demo_call_binding])"
    using chain by (simp add: verify_children_def demo_outer_def demo_tasks_def demo_outer_lib_def demo_receipt_typed
        validate_child_count_def MIN_OUTER_CHILDREN_def MAX_OUTER_CHILDREN_def try_from_receipts_def)
  moreover have "validate_bundle_metadata (demo_outer hand n) (demo_tasks hand n) = Inr ()"
    by (simp add: validate_bundle_metadata_def Let_def demo_outer_def demo_tasks_def demo_receipt_def)
  moreover have "encoded_len (demo_bundle k) = Inr 26" for k
    using demo_bundle_ok [of demo_abi k] demo_bundle_length [of k]
    by (auto simp: encoded_len_Inr bundle_ok_def MAX_ROOT_BINDING_BYTES_def)
  then have "aggregate_digest demo_outer_lib (demo_outer hand n) (demo_tasks hand n) [demo_call_binding, demo_call_binding]
      = Inr zero32"
    by (simp add: aggregate_digest_def demo_outer_def demo_tasks_def child_digest_def hash256_def demo_outer_lib_def)
  ultimately show ?thesis
    by (simp add: verify_outer_aggregate_def demo_outer_def demo_verified_def OUTER_AGGREGATE_VERSION_def)
qed

lemma demo_outer_ok:
  assumes "n + 2 < u32_bound" "hand < u32_bound"
  shows "outer_ok A (demo_outer hand n)"
proof -
  have h: "header_ok (demo_outer hand n)"
    using assms by (simp add: header_ok_def demo_outer_def OUTER_AGGREGATE_VERSION_def demo_root_def zero32_def)
  then have "length (outer_bytes (demo_outer hand n)) = 204"
    using outer_header_length [OF h]
    by (simp add: outer_bytes_def child_frame_length OUTER_HEADER_LEN_def demo_bundle_length) (simp add: demo_outer_def child_frame_length demo_bundle_length)
  then show ?thesis using h demo_bundle_ok
    by (simp add: outer_ok_def MAX_OUTER_AGGREGATE_BYTES_def)
       (simp add: demo_outer_def child_ok_def demo_bundle_length result_simps MIN_OUTER_CHILDREN_def MAX_OUTER_CHILDREN_def
         MAX_OUTER_CHILD_BYTES_def MAX_STARK_PROOF_BYTES_def)
qed

theorem aggregate_digest_binds_witness:
  "verify_outer_aggregate demo_outer_lib (demo_tasks 3 10) (demo_outer 3 10) = Inr (demo_verified 3 10)
   \<and> demo_outer 3 10 \<noteq> demo_outer 4 12
   \<and> (collides (ol_blake demo_outer_lib)
        (outer_message demo_outer_lib (demo_outer 3 10) (vo_chain (demo_verified 3 10)) (vo_precompile_bindings (demo_verified 3 10)))
        (outer_message demo_outer_lib (demo_outer 4 12) (vo_chain (demo_verified 4 12)) (vo_precompile_bindings (demo_verified 4 12)))
      \<or> (\<exists>i<length (oa_children (demo_outer 3 10)). collides (ol_blake demo_outer_lib)
           (child_message (oa_children (demo_outer 3 10) ! i)) (child_message (oa_children (demo_outer 4 12) ! i))))"
proof -
  have v: "verify_outer_aggregate demo_outer_lib (demo_tasks 3 10) (demo_outer 3 10) = Inr (demo_verified 3 10)"
      "verify_outer_aggregate demo_outer_lib (demo_tasks 4 12) (demo_outer 4 12) = Inr (demo_verified 4 12)"
    by (rule demo_outer_verifies; simp)+
  have ok: "outer_ok demo_abi (demo_outer 3 10)" "outer_ok demo_abi (demo_outer 4 12)"
    by (rule demo_outer_ok; simp)+
  have ne: "demo_outer 3 10 \<noteq> demo_outer 4 12" by (simp add: demo_outer_def)
  have "vo_aggregate_digest (demo_verified 3 10) = vo_aggregate_digest (demo_verified 4 12)"
    by (simp add: demo_verified_def)
  from aggregate_digest_binds [OF demo_outer_lawful ok v this] show ?thesis using v(1) ne by blast
qed

end
