(* ===== verification/Canon_Calldata.thy ===== *)
theory Canon_Calldata
  imports Canon_Outer Poker_Payout "HOL-Library.List_Lexorder"
begin

text \<open>
  The calls to the settlement contract (\<^verbatim>\<open>src/src/starknet_settlement.rs\<close>): a digest as two field
  elements, the registration of the aggregates of a range of hands, and the signed balance of one
  hand, made from the plan of its settlement and the table before it.

  Field elements and the Poseidon hash belong to the \<^verbatim>\<open>starknet_crypto\<close> crate and are parameters.
  An \<^verbatim>\<open>i128\<close> is an \<open>int\<close> with its bounds written out where the source checks them; addresses are
  compared as byte lists. Every error of the source's module is a \<^verbatim>\<open>SpecViolation\<close>.
\<close>

section \<open>Digests as field elements\<close>

record 'f felt_ops =
  fl_from_bytes :: "bytes \<Rightarrow> 'f"
  fl_to_bytes :: "'f \<Rightarrow> bytes"
  fl_of_nat :: "nat \<Rightarrow> 'f"
  fl_neg :: "'f \<Rightarrow> 'f"
  fl_poseidon :: "'f list \<Rightarrow> 'f"

definition MAX_SETTLE_PARTICIPANTS :: nat where "MAX_SETTLE_PARTICIPANTS = 10"

definition bytes16_to_felt :: "'f felt_ops \<Rightarrow> bytes \<Rightarrow> 'f" where
  "bytes16_to_felt F bs = fl_from_bytes F bs"

definition felt_to_bytes16 :: "'f felt_ops \<Rightarrow> 'f \<Rightarrow> bytes res" where
  "felt_to_bytes16 F f =
     (let bs = fl_to_bytes F f in
      rbind (fail_if (list_ex (\<lambda>b. b \<noteq> 0) (take 16 bs))
        ''felt_to_bytes16: felt exceeds canonical 128-bit range'') (\<lambda>_. Inr (drop 16 bs)))"

record 'f digest_felts =
  df_hi :: 'f
  df_lo :: 'f

definition digest_split :: "'f felt_ops \<Rightarrow> bytes \<Rightarrow> 'f digest_felts res" where
  "digest_split F bs = Inr \<lparr>df_hi = bytes16_to_felt F (take 16 bs), df_lo = bytes16_to_felt F (drop 16 bs)\<rparr>"

definition digest_merge :: "'f felt_ops \<Rightarrow> 'f \<Rightarrow> 'f \<Rightarrow> bytes res" where
  "digest_merge F hi lo =
     rbind (felt_to_bytes16 F hi) (\<lambda>hi_bytes. rbind (felt_to_bytes16 F lo) (\<lambda>lo_bytes.
       Inr (hi_bytes @ lo_bytes)))"

definition settle_abi_single_felt :: "'f digest_felts \<Rightarrow> 'f" where
  "settle_abi_single_felt d = df_lo d"

section \<open>Registering the aggregates of a range of hands\<close>

record 'f register_calldata =
  rc_aggregate_hi :: 'f
  rc_aggregate_lo :: 'f
  rc_first_hand_id :: nat
  rc_last_hand_id :: nat
  rc_pre_state_hi :: 'f
  rc_pre_state_lo :: 'f
  rc_post_state_hi :: 'f
  rc_post_state_lo :: 'f
  rc_settlement_roots :: "'f list"

record register_state =
  rg_expected_hand :: nat
  rg_expected_post_root :: "bytes option"
  rg_first_pre_root :: "bytes option"
  rg_last_post_root :: "bytes option"
  rg_last_table_id :: "nat option"
  rg_shared_digest :: "bytes option"

definition register_start :: "nat \<Rightarrow> register_state" where
  "register_start first_hand_id = \<lparr>rg_expected_hand = first_hand_id, rg_expected_post_root = None,
     rg_first_pre_root = None, rg_last_post_root = None, rg_last_table_id = None, rg_shared_digest = None\<rparr>"

text \<open>A value that, when it is known already, must be the same.\<close>

definition drifts :: "'a option \<Rightarrow> 'a \<Rightarrow> bool" where
  "drifts known x = (case known of None \<Rightarrow> False | Some y \<Rightarrow> x \<noteq> y)"

definition register_step :: "register_state \<Rightarrow> nat \<times> 'f verified_outer \<Rightarrow> register_state res" where
  "register_step s = (\<lambda>(idx, agg).
     let rs = vo_chain agg in
     rbind (fail_if (rs = []) ''register_aggregate: empty receipt chain'') (\<lambda>_.
     let first = hd rs; last = last rs in
     rbind (checks
       [fail_if (vr_table_id first \<noteq> vr_table_id last) ''register_aggregate: chain crosses tables'',
        fail_if (drifts (rg_last_table_id s) (vr_table_id first)) ''register_aggregate: table_id drift'',
        fail_if (vr_hand_id first \<noteq> rg_expected_hand s) ''register_aggregate: hand mismatch'',
        fail_if (drifts (rg_expected_post_root s) (vr_pre_state_root first))
          ''register_aggregate: state-root discontinuity'',
        fail_if (drifts (rg_shared_digest s) (vo_aggregate_digest agg))
          ''register_aggregate: aggregate digest mismatch across hand range'']) (\<lambda>_.
     rbind (ok_or (checked_add_u32 (rg_expected_hand s) 1) (Other ''hand id overflow'')) (\<lambda>next_hand.
       Inr \<lparr>rg_expected_hand = next_hand, rg_expected_post_root = Some (vr_post_state_root last),
            rg_first_pre_root = (if idx = 0 then Some (vr_pre_state_root first) else rg_first_pre_root s),
            rg_last_post_root = Some (vr_post_state_root last),
            rg_last_table_id = Some (vr_table_id first),
            rg_shared_digest = Some (vo_aggregate_digest agg)\<rparr>))))"

definition register_new ::
  "'f felt_ops \<Rightarrow> 'f verified_outer list \<Rightarrow> nat \<Rightarrow> nat \<Rightarrow> 'f list \<Rightarrow> 'f register_calldata res"
where
  "register_new F aggregates first_hand_id last_hand_id settlement_roots =
     rbind (fail_if (last_hand_id < first_hand_id) ''register_aggregate: first_hand_id > last_hand_id'') (\<lambda>_.
     let span = last_hand_id - first_hand_id + 1 in
     rbind (checks
       [fail_if (length settlement_roots \<noteq> span) ''register_aggregate: settlement_roots count does not match range'',
        fail_if (aggregates = []) ''register_aggregate: no verified aggregates supplied'',
        fail_if (length aggregates \<noteq> span) ''register_aggregate: aggregate count does not match range'']) (\<lambda>_.
     rbind (try_fold register_step (register_start first_hand_id) (enumerate 0 aggregates)) (\<lambda>s.
     rbind (ok_or (rg_shared_digest s) (Panic ''non-empty validated above'')) (\<lambda>digest.
     rbind (ok_or (rg_first_pre_root s) (Panic ''non-empty validated above'')) (\<lambda>first_pre.
     rbind (ok_or (rg_last_post_root s) (Panic ''non-empty validated above'')) (\<lambda>last_post.
     rbind (digest_split F digest) (\<lambda>agg. rbind (digest_split F first_pre) (\<lambda>pre.
     rbind (digest_split F last_post) (\<lambda>post.
       Inr \<lparr>rc_aggregate_hi = df_hi agg, rc_aggregate_lo = df_lo agg, rc_first_hand_id = first_hand_id,
            rc_last_hand_id = last_hand_id, rc_pre_state_hi = df_hi pre, rc_pre_state_lo = df_lo pre,
            rc_post_state_hi = df_hi post, rc_post_state_lo = df_lo post,
            rc_settlement_roots = settlement_roots\<rparr>)))))))))"

definition register_to_felts :: "'f felt_ops \<Rightarrow> 'f register_calldata \<Rightarrow> 'f list" where
  "register_to_felts F c =
     [rc_aggregate_hi c, rc_aggregate_lo c, fl_of_nat F (rc_first_hand_id c), fl_of_nat F (rc_last_hand_id c),
      rc_pre_state_hi c, rc_pre_state_lo c, rc_post_state_hi c, rc_post_state_lo c,
      fl_of_nat F (length (rc_settlement_roots c))] @ rc_settlement_roots c"

section \<open>The balance of one hand\<close>

record player_delta =
  pd_address :: address
  pd_delta :: int

record 'f settle_calldata =
  sc_aggregate_digest :: 'f
  sc_hand_id :: nat
  sc_action_log_digest :: 'f
  sc_players :: "'f list"
  sc_deltas :: "int list"
  sc_settlement_digest :: 'f

fun seat_player_for_settlement :: "'pt seat \<Rightarrow> address option" where
  "seat_player_for_settlement (SeatPlaying p) = Some (oc_player (pl_occupied p))"
| "seat_player_for_settlement (SeatWaiting oc) = Some (oc_player oc)"
| "seat_player_for_settlement (SeatDeparted a _ _) = Some a"
| "seat_player_for_settlement (SeatVacant _) = None"

definition signed_delta :: "nat \<Rightarrow> nat \<Rightarrow> int res" where
  "signed_delta award total_bet =
     (if total_bet \<le> award then Inr (int (award - total_bet)) else Inr (- int (total_bet - award)))"

definition i128_checked_add :: "int \<Rightarrow> int \<Rightarrow> int option" where
  "i128_checked_add a b = (if - (2 ^ 127) \<le> a + b \<and> a + b < 2 ^ 127 then Some (a + b) else None)"

definition validate_i128_abi :: "int \<Rightarrow> unit res" where
  "validate_i128_abi d = fail_if (u64_max < nat \<bar>d\<bar>) ''settle_hand: delta magnitude exceeds u64 ABI bound''"

definition address_to_felt :: "'f felt_ops \<Rightarrow> address \<Rightarrow> 'f res" where
  "address_to_felt F a =
     rbind (fail_if (a = EMPTY_PLAYER) ''settle_hand: empty player address in participant set'') (\<lambda>_.
       Inr (fl_from_bytes F a))"

text \<open>\<^verbatim>\<open>u64::try_from(..).expect(..)\<close>.\<close>

definition u64_magnitude :: "int \<Rightarrow> nat res" where
  "u64_magnitude d =
     (if nat \<bar>d\<bar> < u64_bound then Inr (nat \<bar>d\<bar>) else Inl (Panic ''delta fits in u64 after validate_i128_abi''))"

definition i128_to_felt :: "'f felt_ops \<Rightarrow> int \<Rightarrow> 'f res" where
  "i128_to_felt F d =
     rbind (u64_magnitude d) (\<lambda>magnitude.
       Inr (if 0 \<le> d then fl_of_nat F magnitude else fl_neg F (fl_of_nat F magnitude)))"

definition participant_fields :: "'f felt_ops \<Rightarrow> player_delta \<Rightarrow> 'f list res" where
  "participant_fields F p =
     rbind (address_to_felt F (pd_address p)) (\<lambda>a. rbind (u64_magnitude (pd_delta p)) (\<lambda>magnitude.
       Inr [a, fl_of_nat F (if 0 \<le> pd_delta p then 1 else 0), fl_of_nat F magnitude]))"

definition compute_settlement_digest :: "'f felt_ops \<Rightarrow> nat \<Rightarrow> player_delta list \<Rightarrow> 'f \<Rightarrow> 'f res" where
  "compute_settlement_digest F hand_id participants action_log_digest =
     rbind (collect_res (participant_fields F) participants) (\<lambda>fields.
       Inr (fl_poseidon F ([fl_of_nat F hand_id] @ concat fields @ [action_log_digest])))"

definition seat_participant ::
  "settlement_plan \<Rightarrow> player_delta list \<Rightarrow> nat \<times> 'pt seat \<Rightarrow> player_delta list res"
where
  "seat_participant plan ps = (\<lambda>(i, seat).
     case seat_player_for_settlement seat of None \<Rightarrow> Inr ps
     | Some a \<Rightarrow>
         rbind (signed_delta (if i < length (sp_awards plan) then sp_awards plan ! i else 0) (seat_total_bet seat))
           (\<lambda>d. if d = 0 then Inr ps else Inr (ps @ [\<lparr>pd_address = a, pd_delta = d\<rparr>])))"

text \<open>\<^verbatim>\<open>iter_mut().find\<close>: the first participant with the address of the treasury gets the rake.\<close>

fun merge_treasury :: "address \<Rightarrow> int \<Rightarrow> player_delta list \<Rightarrow> player_delta list res" where
  "merge_treasury a d [] = Inr [\<lparr>pd_address = a, pd_delta = d\<rparr>]"
| "merge_treasury a d (p # ps) =
     (if pd_address p = a then
        rbind (ok_or (i128_checked_add (pd_delta p) d)
          (Other ''settle_hand: merging treasury delta overflows i128'')) (\<lambda>merged.
          Inr (p\<lparr>pd_delta := merged\<rparr> # ps))
      else rbind (merge_treasury a d ps) (\<lambda>ps. Inr (p # ps)))"

definition add_rake :: "settlement_plan \<Rightarrow> address option \<Rightarrow> player_delta list \<Rightarrow> player_delta list res" where
  "add_rake plan rake_recipient ps =
     (if sp_rake plan = 0 then Inr ps else
      rbind (ok_or rake_recipient
        (Other ''settle_hand: plan has non-zero rake but no rake recipient provided'')) (\<lambda>treasury.
      rbind (fail_if (treasury = EMPTY_PLAYER) ''settle_hand: rake recipient is the empty player address'') (\<lambda>_.
        merge_treasury treasury (int (sp_rake plan)) ps)))"

definition check_participants :: "player_delta list \<Rightarrow> unit res" where
  "check_participants ps = checks
     [fail_if (ps = []) ''settle_hand: participant set is empty (no settled players)'',
      fail_if (MAX_SETTLE_PARTICIPANTS < length ps) ''settle_hand: participants exceed cap'']"

definition check_balance :: "player_delta list \<Rightarrow> unit res" where
  "check_balance ps =
     rbind (checks (map (\<lambda>(p, q). fail_if (pd_address p = pd_address q)
       ''settle_hand: duplicate participant address after treasury merge'') (windows2 ps))) (\<lambda>_.
     rbind (try_fold (\<lambda>acc p. ok_or (i128_checked_add acc (pd_delta p))
       (Other ''settle_hand: delta sum overflowed i128'')) 0 ps) (\<lambda>total_delta.
       fail_if (total_delta \<noteq> 0) ''settle_hand: delta sum is not zero-sum''))"

definition encode_participant :: "'f felt_ops \<Rightarrow> player_delta \<Rightarrow> ('f \<times> int) res" where
  "encode_participant F p =
     rbind (address_to_felt F (pd_address p)) (\<lambda>a. rbind (validate_i128_abi (pd_delta p)) (\<lambda>_.
       Inr (a, pd_delta p)))"

definition settle_new ::
  "'f felt_ops \<Rightarrow> bytes \<Rightarrow> nat \<Rightarrow> 'pt table \<Rightarrow> settlement_plan \<Rightarrow> address option \<Rightarrow> 'f \<Rightarrow> 'f settle_calldata res"
where
  "settle_new F digest hand_id pre_table plan rake_recipient action_log_digest =
     rbind (fail_if (t_hand_id pre_table \<noteq> hand_id) ''settle_hand: pre_table.hand_id != requested'') (\<lambda>_.
     rbind (digest_split F digest) (\<lambda>digests.
     rbind (try_fold (seat_participant plan) [] (enumerate 0 (t_seats pre_table))) (\<lambda>seated.
     rbind (add_rake plan rake_recipient seated) (\<lambda>merged.
     rbind (check_participants merged) (\<lambda>_.
     let participants = sort_key pd_address merged in
     rbind (check_balance participants) (\<lambda>_.
     rbind (collect_res (encode_participant F) participants) (\<lambda>encoded.
     rbind (compute_settlement_digest F hand_id participants action_log_digest) (\<lambda>settlement_digest.
       Inr \<lparr>sc_aggregate_digest = settle_abi_single_felt digests, sc_hand_id = hand_id,
            sc_action_log_digest = action_log_digest, sc_players = map fst encoded,
            sc_deltas = map snd encoded, sc_settlement_digest = settlement_digest\<rparr>))))))))"

definition settle_to_felts :: "'f felt_ops \<Rightarrow> 'f settle_calldata \<Rightarrow> 'f list res" where
  "settle_to_felts F c =
     rbind (collect_res (i128_to_felt F) (sc_deltas c)) (\<lambda>deltas.
       Inr ([sc_aggregate_digest c, fl_of_nat F (sc_hand_id c), sc_action_log_digest c,
             fl_of_nat F (length (sc_players c))] @ sc_players c
            @ [fl_of_nat F (length (sc_deltas c))] @ deltas))"

section \<open>A digest and its two halves\<close>

definition lawful_felts :: "'f felt_ops \<Rightarrow> bool" where
  "lawful_felts F \<longleftrightarrow>
     (\<forall>bs. length bs \<le> 20 \<longrightarrow> fl_to_bytes F (fl_from_bytes F bs) = replicate (32 - length bs) 0 @ bs)
     \<and> (\<forall>f. length (fl_to_bytes F f) = 32)
     \<and> (\<forall>f n. take n (fl_to_bytes F f) = replicate n 0 \<longrightarrow> fl_from_bytes F (drop n (fl_to_bytes F f)) = f)"

lemma list_ex_nonzero: "\<not> list_ex (\<lambda>b. b \<noteq> 0) bs \<longleftrightarrow> bs = replicate (length bs) 0"
  by (induction bs) auto

lemma felt_to_bytes16_Inr:
  assumes "lawful_felts F"
  shows "felt_to_bytes16 F f = Inr bs \<longleftrightarrow> length bs = 16 \<and> f = bytes16_to_felt F bs"
proof
  have l: "length (fl_to_bytes F f) = 32" using assms by (simp add: lawful_felts_def)
  assume "felt_to_bytes16 F f = Inr bs"
  then have t: "take 16 (fl_to_bytes F f) = replicate 16 0" and bs: "bs = drop 16 (fl_to_bytes F f)"
    using l by (auto simp: felt_to_bytes16_def Let_def list_ex_nonzero)
  have "fl_from_bytes F (drop 16 (fl_to_bytes F f)) = f" using assms t by (simp only: lawful_felts_def)
  then show "length bs = 16 \<and> f = bytes16_to_felt F bs" using l by (simp add: bs bytes16_to_felt_def)
next
  assume "length bs = 16 \<and> f = bytes16_to_felt F bs"
  then have "fl_to_bytes F f = replicate 16 0 @ bs" using assms by (simp add: lawful_felts_def bytes16_to_felt_def)
  then show "felt_to_bytes16 F f = Inr bs" by (simp add: felt_to_bytes16_def Let_def list_ex_nonzero)
qed

lemma digest_halves:
  assumes "lawful_felts F" and "length bs = 32"
  shows "digest_merge F hi lo = Inr bs \<longleftrightarrow> digest_split F bs = Inr \<lparr>df_hi = hi, df_lo = lo\<rparr>"
proof
  assume "digest_merge F hi lo = Inr bs"
  then obtain h l where "felt_to_bytes16 F hi = Inr h" "felt_to_bytes16 F lo = Inr l" "bs = h @ l"
    by (auto simp: digest_merge_def result_simps)
  then show "digest_split F bs = Inr \<lparr>df_hi = hi, df_lo = lo\<rparr>"
    using felt_to_bytes16_Inr [OF assms(1)] by (simp add: digest_split_def)
next
  assume "digest_split F bs = Inr \<lparr>df_hi = hi, df_lo = lo\<rparr>"
  then have "felt_to_bytes16 F hi = Inr (take 16 bs)" "felt_to_bytes16 F lo = Inr (drop 16 bs)"
    using felt_to_bytes16_Inr [OF assms(1)] assms(2) by (auto simp: digest_split_def)
  then show "digest_merge F hi lo = Inr bs" by (simp add: digest_merge_def)
qed

section \<open>A range of several hands needs a collision\<close>

lemma register_fold:
  assumes "try_fold register_step s (enumerate k aggs) = Inr s'" and "i < length aggs"
  shows "vr_hand_id (hd (vo_chain (aggs ! i))) = rg_expected_hand s + i \<and> rg_expected_hand s + i + 1 < u32_bound
    \<and> \<not> drifts (rg_shared_digest s) (vo_aggregate_digest (aggs ! i))"
  using assms
proof (induction aggs arbitrary: s k i)
  case Nil
  then show ?case by simp
next
  case (Cons a aggs)
  from Cons.prems(1) obtain t where t: "register_step s (k, a) = Inr t"
      "try_fold register_step t (enumerate (Suc k) aggs) = Inr s'"
    by (auto simp: rbind_Inr_iff)
  from t(1) have a: "vr_hand_id (hd (vo_chain a)) = rg_expected_hand s" "rg_expected_hand s + 1 < u32_bound"
      "\<not> drifts (rg_shared_digest s) (vo_aggregate_digest a)" "rg_expected_hand t = rg_expected_hand s + 1"
      "rg_shared_digest t = Some (vo_aggregate_digest a)"
    by (auto simp: register_step_def Let_def rbind_Inr_iff ok_or_Inr_iff checked_add_u32_Some_iff)
  show ?case
  proof (cases i)
    case 0
    then show ?thesis using a by simp
  next
    case (Suc j)
    then have "vr_hand_id (hd (vo_chain (aggs ! j))) = rg_expected_hand t + j" "rg_expected_hand t + j + 1 < u32_bound"
        "\<not> drifts (rg_shared_digest t) (vo_aggregate_digest (aggs ! j))"
      using Cons.IH [OF t(2), of j] Cons.prems(2) by auto
    then show ?thesis using Suc a by (auto simp: drifts_def split: option.splits)
  qed
qed

lemma register_digests:
  assumes "try_fold register_step s (enumerate k aggs) = Inr s'" and "i < length aggs"
  shows "vo_aggregate_digest (aggs ! i) = vo_aggregate_digest (aggs ! 0)"
proof (cases aggs)
  case Nil
  then show ?thesis using assms(2) by simp
next
  case (Cons a as)
  from assms(1) obtain t where t: "register_step s (k, a) = Inr t"
      "try_fold register_step t (enumerate (Suc k) as) = Inr s'"
    by (auto simp: Cons rbind_Inr_iff)
  have d: "rg_shared_digest t = Some (vo_aggregate_digest a)"
    using t(1) by (auto simp: register_step_def Let_def rbind_Inr_iff)
  show ?thesis
  proof (cases i)
    case 0
    then show ?thesis by simp
  next
    case (Suc j)
    then show ?thesis using register_fold [OF t(2), of j] assms(2) d by (simp add: Cons drifts_def)
  qed
qed

text \<open>The header of the material starts with version, count, table and hand.\<close>

lemma outer_message_hand:
  assumes "outer_message L p rs bs = outer_message L q rs' bs'"
    and "oa_hand_id p < u32_bound" "oa_hand_id q < u32_bound"
  shows "oa_hand_id p = oa_hand_id q"
proof -
  have "outer_material L p rs bs = outer_material L q rs' bs'"
    using assms(1) by (simp add: outer_message_def append_eq_append_conv del: int_bytes.simps)
  then have "int_bytes 4 (oa_hand_id p) = int_bytes 4 (oa_hand_id q)"
    by (simp add: outer_material_def header_material_def append_eq_append_conv del: int_bytes.simps)
  then show ?thesis using assms(2,3) by (simp add: int_bytes_inj del: int_bytes.simps)
qed

lemma register_new_hands:
  assumes "register_new F aggs lo hi roots = Inr cd" and "i < length aggs"
  shows "vr_hand_id (hd (vo_chain (aggs ! i))) = lo + i" "lo + i + 1 < u32_bound"
    and "vo_aggregate_digest (aggs ! i) = vo_aggregate_digest (aggs ! 0)" "length aggs = hi - lo + 1"
proof -
  from assms(1) obtain s where "try_fold register_step (register_start lo) (enumerate 0 aggs) = Inr s"
      "length aggs = hi - lo + 1"
    by (auto simp: register_new_def Let_def rbind_Inr_iff)
  with register_fold [OF this(1) assms(2)] register_digests [OF this(1) assms(2)]
  show "vr_hand_id (hd (vo_chain (aggs ! i))) = lo + i" "lo + i + 1 < u32_bound"
    and "vo_aggregate_digest (aggs ! i) = vo_aggregate_digest (aggs ! 0)" "length aggs = hi - lo + 1"
    by (simp_all add: register_start_def)
qed

section \<open>The balances of a hand\<close>

definition award_at :: "settlement_plan \<Rightarrow> nat \<Rightarrow> nat" where
  "award_at plan i = (if i < length (sp_awards plan) then sp_awards plan ! i else 0)"

definition seat_balance :: "settlement_plan \<Rightarrow> nat \<times> 'pt seat \<Rightarrow> int" where
  "seat_balance plan = (\<lambda>(i, s). int (award_at plan i) - int (seat_total_bet s))"

definition seat_entries :: "settlement_plan \<Rightarrow> nat \<times> 'pt seat \<Rightarrow> player_delta list" where
  "seat_entries plan x = (case seat_player_for_settlement (snd x) of None \<Rightarrow> []
     | Some a \<Rightarrow> if seat_balance plan x = 0 then [] else [\<lparr>pd_address = a, pd_delta = seat_balance plan x\<rparr>])"

lemma signed_delta_eq: "signed_delta a b = Inr (int a - int b)"
  by (simp add: signed_delta_def)

lemma seat_participants:
  "try_fold (seat_participant plan) ps xs = Inr (ps @ concat (map (seat_entries plan) xs))"
proof (induction xs arbitrary: ps)
  case Nil
  then show ?case by simp
next
  case (Cons x xs)
  have "seat_participant plan ps x = Inr (ps @ seat_entries plan x)"
    by (auto simp: seat_participant_def seat_entries_def seat_balance_def award_at_def signed_delta_eq
        split: prod.splits option.splits)
  then show ?case by (simp add: Cons.IH)
qed

definition net :: "address \<Rightarrow> player_delta list \<Rightarrow> int" where
  "net a ps = (\<Sum>p\<leftarrow>ps. if pd_address p = a then pd_delta p else 0)"

definition total_of :: "player_delta list \<Rightarrow> int" where
  "total_of ps = (\<Sum>p\<leftarrow>ps. pd_delta p)"

lemma net_simps [simp]:
  "net a [] = 0" "net a (p # ps) = (if pd_address p = a then pd_delta p else 0) + net a ps"
  "net a (ps @ qs) = net a ps + net a qs"
  "total_of [] = 0" "total_of (p # ps) = pd_delta p + total_of ps" "total_of (ps @ qs) = total_of ps + total_of qs"
  by (simp_all add: net_def total_of_def)

lemma net_entries:
  "net a (concat (map (seat_entries plan) xs)) =
     (\<Sum>x\<leftarrow>xs. if seat_player_for_settlement (snd x) = Some a then seat_balance plan x else 0)"
  by (induction xs) (auto simp: seat_entries_def split: option.splits)

lemma total_entries:
  "total_of (concat (map (seat_entries plan) xs)) =
     (\<Sum>x\<leftarrow>xs. if seat_player_for_settlement (snd x) = None then 0 else seat_balance plan x)"
  by (induction xs) (auto simp: seat_entries_def split: option.splits)

lemma sum_list_perm: "mset ps = mset qs \<Longrightarrow> sum_list (map f ps) = (sum_list (map f qs) :: int)"
proof -
  assume "mset ps = mset qs"
  then have "mset (map f ps) = mset (map f qs)" by simp
  then show ?thesis by (simp only: sum_mset_sum_list [symmetric])
qed

lemma net_perm: "mset ps = mset qs \<Longrightarrow> net a ps = net a qs \<and> total_of ps = total_of qs"
  unfolding net_def total_of_def by (blast intro: sum_list_perm)

lemma i128_checked_add_Some [result_simps]:
  "i128_checked_add a b = Some c \<longleftrightarrow> c = a + b \<and> - (2 ^ 127) \<le> a + b \<and> a + b < 2 ^ 127"
  by (auto simp: i128_checked_add_def)

lemma net_absent: "a \<notin> set (map pd_address ps) \<Longrightarrow> net a ps = 0"
  by (induction ps) auto

lemma net_entry: "distinct (map pd_address ps) \<Longrightarrow> p \<in> set ps \<Longrightarrow> net (pd_address p) ps = pd_delta p"
  by (induction ps) (auto simp: net_absent)

lemma net_found:
  "distinct (map pd_address ps) \<Longrightarrow>
   net a ps = (if a \<in> set (map pd_address ps) then pd_delta (the (List.find (\<lambda>p. pd_address p = a) ps)) else 0)"
  by (induction ps) (auto simp: net_absent)

lemma merge_treasury_Inr:
  "merge_treasury t d ps = Inr qs \<Longrightarrow>
   net a qs = net a ps + (if a = t then d else 0) \<and> total_of qs = total_of ps + d
   \<and> length qs \<le> length ps + 1 \<and> set (map pd_address qs) = insert t (set (map pd_address ps))"
proof (induction ps arbitrary: qs)
  case Nil
  then show ?case by auto
next
  case (Cons p ps)
  show ?case
  proof (cases "pd_address p = t")
    case True
    then show ?thesis using Cons.prems by (auto simp: rbind_Inr_iff ok_or_Inr_iff i128_checked_add_Some)
  next
    case False
    then obtain rs where "merge_treasury t d ps = Inr rs" "qs = p # rs"
      using Cons.prems by (auto simp: rbind_Inr_iff)
    then show ?thesis using Cons.IH by auto
  qed
qed

text \<open>What an address is owed: the balance of its seats, and the rake if it is the treasury.\<close>

definition due_to :: "'pt table \<Rightarrow> settlement_plan \<Rightarrow> address option \<Rightarrow> address \<Rightarrow> int" where
  "due_to t plan rake_recipient a =
     (\<Sum>x\<leftarrow>enumerate 0 (t_seats t). if seat_player_for_settlement (snd x) = Some a then seat_balance plan x else 0)
     + (if sp_rake plan \<noteq> 0 \<and> rake_recipient = Some a then int (sp_rake plan) else 0)"

lemma add_rake_Inr:
  assumes "add_rake plan r ps = Inr qs"
  shows "net a qs = net a ps + (if sp_rake plan \<noteq> 0 \<and> r = Some a then int (sp_rake plan) else 0)"
    and "total_of qs = total_of ps + int (sp_rake plan)"
  using assms merge_treasury_Inr [of _ "int (sp_rake plan)" ps qs a]
  by (auto simp: add_rake_def rbind_Inr_iff ok_or_Inr_iff split: if_splits)

lemma sorted_neighbours_distinct:
  "sorted (map f xs) \<Longrightarrow> \<forall>p\<in>set (windows2 xs). f (fst p) \<noteq> f (snd p) \<Longrightarrow> distinct (map f xs)"
  for f :: "'a \<Rightarrow> 'b :: linorder"
proof (induction xs)
  case Nil
  then show ?case by simp
next
  case (Cons x xs)
  show ?case
  proof (cases xs)
    case Nil
    then show ?thesis by simp
  next
    case (Cons y ys)
    have d: "distinct (map f xs)" using Cons.IH Cons.prems by (auto simp: Cons windows2_def)
    have "f x < f y" using Cons.prems by (auto simp: Cons windows2_def order_less_le)
    then have "f x \<notin> f ` set xs" using Cons.prems(1) by (fastforce simp: Cons)
    then show ?thesis using d by simp
  qed
qed

lemma balance_fold:
  "try_fold (\<lambda>acc p. ok_or (i128_checked_add acc (pd_delta p)) e) s ps = Inr r \<Longrightarrow> r = s + total_of ps"
proof (induction ps arbitrary: s)
  case Nil
  then show ?case by simp
next
  case (Cons p ps)
  then have "try_fold (\<lambda>acc p. ok_or (i128_checked_add acc (pd_delta p)) e) (s + pd_delta p) ps = Inr r"
    by (auto simp: rbind_Inr_iff ok_or_Inr_iff i128_checked_add_Some)
  then show ?case using Cons.IH by fastforce
qed

lemma check_balance_Inr:
  assumes "check_balance ps = Inr u" and "sorted (map pd_address ps)"
  shows "distinct (map pd_address ps)" "total_of ps = 0"
proof -
  have "\<forall>p\<in>set (windows2 ps). pd_address (fst p) \<noteq> pd_address (snd p)"
    using assms(1) by (auto simp: check_balance_def checks_Inr_iff)
  then show "distinct (map pd_address ps)" using sorted_neighbours_distinct assms(2) by blast
  show "total_of ps = 0" using assms(1) balance_fold
    by (fastforce simp: check_balance_def rbind_Inr_iff)
qed

lemma encoded_participants:
  "collect_res (encode_participant F) ps = Inr es \<Longrightarrow>
   es = map (\<lambda>p. (fl_from_bytes F (pd_address p), pd_delta p)) ps
   \<and> (\<forall>p\<in>set ps. pd_address p \<noteq> EMPTY_PLAYER \<and> \<bar>pd_delta p\<bar> \<le> int u64_max)"
  by (induction ps arbitrary: es)
     (auto simp: encode_participant_def address_to_felt_def validate_i128_abi_def rbind_Inr_iff)

lemma settle_new_Inr:
  assumes "settle_new F d hand t plan r log = Inr c"
  obtains ps where "sc_players c = map (\<lambda>p. fl_from_bytes F (pd_address p)) ps" "sc_deltas c = map pd_delta ps"
    "sorted (map pd_address ps)" "distinct (map pd_address ps)" "total_of ps = 0" "ps \<noteq> []"
    "length ps \<le> MAX_SETTLE_PARTICIPANTS" "\<And>a. net a ps = due_to t plan r a"
    "EMPTY_PLAYER \<notin> set (map pd_address ps)" "\<And>p. p \<in> set ps \<Longrightarrow> \<bar>pd_delta p\<bar> \<le> int u64_max"
    "sc_hand_id c = hand" "t_hand_id t = hand"
proof -
  from assms obtain merged es where m: "add_rake plan r (concat (map (seat_entries plan) (enumerate 0 (t_seats t)))) = Inr merged"
      "check_participants merged = Inr ()" "check_balance (sort_key pd_address merged) = Inr ()"
    and es: "collect_res (encode_participant F) (sort_key pd_address merged) = Inr es"
    and c: "sc_players c = map fst es" "sc_deltas c = map snd es" "sc_hand_id c = hand" "t_hand_id t = hand"
    by (auto simp: settle_new_def Let_def rbind_Inr_iff seat_participants)
  let ?ps = "sort_key pd_address merged"
  have so: "sorted (map pd_address ?ps)" by simp
  note b = check_balance_Inr [OF m(3) so] and e = encoded_participants [OF es]
  have "net a ?ps = due_to t plan r a" for a
    using net_perm [of ?ps merged a] add_rake_Inr(1) [OF m(1), of a] by (simp add: due_to_def net_entries)
  moreover have "length ?ps \<le> MAX_SETTLE_PARTICIPANTS" "?ps \<noteq> []"
    using m(2) length_sort [of pd_address merged] by (auto simp: check_participants_def simp del: length_sort)
  ultimately show thesis
    by (intro that [of ?ps]) (use b e c so in \<open>auto simp: comp_def\<close>)
qed

section \<open>A derived plan can be settled\<close>

text \<open>A plan pays only seats that are eligible for one of its pots.\<close>

lemma plan_winners_eligible:
  assumes "plan_validate plan n = Inr ()" and "bit (sp_winner_mask plan) i"
  shows "\<exists>k<length (active_pots plan). bit (pp_eligible (active_pots plan ! k)) i"
proof -
  let ?E = "\<lambda>w. bit w i \<longrightarrow> (\<exists>k<length (active_pots plan). bit (pp_eligible (active_pots plan ! k)) i)"
  from assms(1) obtain v where
    fold: "try_fold (validate_pot plan n) \<lparr>va_gross = 0, va_rake = 0, va_awards = replicate SETTLEMENT_SEATS 0, va_winners = 0\<rparr>
       [0..<length (active_pots plan)] = Inr v" and w: "va_winners v = sp_winner_mask plan"
    by (auto simp: plan_validate_def result_simps simp del: set_upt split: if_splits)
  have "?E (va_winners v)"
  proof (rule try_fold_invariant [where P = "\<lambda>s. ?E (va_winners s)", OF fold])
    fix s k s'
    assume k: "k \<in> set [0..<length (active_pots plan)]" and E: "?E (va_winners s)"
      and st: "validate_pot plan n s k = Inr s'"
    let ?pot = "active_pots plan ! k"
    from st obtain m s0 tot where f: "try_fold (validate_runout ?pot m) (s0, 0) [0..<length (pp_runouts ?pot)] = Inr (s', tot)"
        and s0: "va_winners s0 = va_winners s"
      by (auto simp: validate_pot_def Let_def rbind_Inr_iff split: if_splits)
    have "?E (va_winners (fst (s', tot)))"
    proof (rule try_fold_invariant [where P = "\<lambda>x. ?E (va_winners (fst x))", OF f])
      show "?E (va_winners (fst (s0, 0)))" using E s0 by simp
      fix x j x' assume E': "?E (va_winners (fst x))" and r: "validate_runout ?pot m x j = Inr x'"
      obtain y t where x: "x = (y, t)" by (cases x)
      from r have "x' = (y, t) \<or> (\<exists>aw t'. rp_winner_mask (pp_runouts ?pot ! j) AND NOT (pp_eligible ?pot) = 0
          \<and> x' = (y\<lparr>va_winners := va_winners y OR rp_winner_mask (pp_runouts ?pot ! j), va_awards := aw\<rparr>, t'))"
        by (auto simp: validate_runout_def x Let_def rbind_Inr_iff split: if_splits)
      moreover have "bit (pp_eligible ?pot) i"
        if "bit (rp_winner_mask (pp_runouts ?pot ! j)) i" "rp_winner_mask (pp_runouts ?pot ! j) AND NOT (pp_eligible ?pot) = 0"
        using that by (auto simp: bits_outside_0)
      ultimately show "?E (va_winners (fst x'))" using E' k by (auto simp: x bit_or_iff)
    qed
    then show "?E (va_winners s')" by simp
  qed simp
  then show ?thesis using assms(2) w by simp
qed

lemma showdown_award_seated:
  assumes "derive_settlement_plan_for_boards t bs = Inr plan" and "0 < award_at plan i"
  shows "i < length (t_seats t) \<and> seat_player_for_settlement (t_seats t ! i) \<noteq> None
    \<and> \<not> seat_is_folded (t_seats t ! i)"
proof -
  note ok = derived_pots_ok [OF assms(1)]
  from derive_boards_Inr [OF assms(1)] have pv: "plan_validate plan (max_players t) = Inr ()" by blast
  have l: "length (sp_awards plan) = 9" using ok(2) by (simp add: plan_shaped_def)
  then have i: "i < 9" "0 < sp_awards plan ! i" using assms(2) by (auto simp: award_at_def split: if_splits)
  have "bit (sp_winner_mask plan) i" using plan_validate_Inr(3) [OF pv ok(2,1) i] by simp
  then obtain k where k: "k < length (active_pots plan)" "bit (pp_eligible (active_pots plan ! k)) i"
    using plan_winners_eligible [OF pv] by blast
  then have kc: "k < sp_pot_count plan" by (simp add: active_pots_def)
  have e: "bit (sp_eligible (spr_active (derived_side_pots t) ! k)) i"
    using k ok(3) [OF kc] by (simp add: active_pots_def pot_ok_def)
  have m: "spr_active (derived_side_pots t) ! k \<in> set (spr_active (derived_side_pots t))"
    using kc ok(4) by simp
  have "i < length (map seat_total_bet (t_seats t)) \<and> 0 < map seat_total_bet (t_seats t) ! i
      \<and> \<not> map (\<lambda>s. seat_is_folded s \<or> seat_has_left_hand s) (t_seats t) ! i"
    using calculate_eligibility [OF ok(5)] m e unfolding is_eligible_iff by blast
  then have "i < length (t_seats t)" "0 < seat_total_bet (t_seats t ! i)" "\<not> seat_is_folded (t_seats t ! i)" by auto
  then show ?thesis by (cases "t_seats t ! i") auto
qed

lemma showdown_totals:
  assumes "derive_settlement_plan_for_boards t bs = Inr plan"
  shows "sum_list (sp_awards plan) + sp_rake plan = t_pot t" "t_pot t = sum_list (map seat_total_bet (t_seats t))"
    "t_pot t \<le> MAX_TOTAL_BET" "length (sp_awards plan) = 9"
proof -
  from derive_boards_Inr [OF assms] obtain result where d:
    "calculate_side_pots (map seat_total_bet (t_seats t))
       (map (\<lambda>s. seat_is_folded s \<or> seat_has_left_hand s) (t_seats t)) (map seat_is_all_in (t_seats t)) = Inr result"
    "sp_gross_pot plan = t_pot t" "spr_total result = t_pot t" "plan_validate plan (max_players t) = Inr ()" by blast
  note v = plan_validate_Inr [OF d(4) derived_pots_ok(2,1) [OF assms]]
  show "sum_list (sp_awards plan) + sp_rake plan = t_pot t" "t_pot t = sum_list (map seat_total_bet (t_seats t))"
    using v(1,2) d(2,3) calculate_totals [OF d(1)] by simp_all
  show "length (sp_awards plan) = 9" using derived_pots_ok(2) [OF assms] by (simp add: plan_shaped_def)
  show "t_pot t \<le> MAX_TOTAL_BET"
    using assms unfolding derive_settlement_plan_for_boards_def Let_def
    by (auto simp: rbind_Inr_iff split: if_splits sum.splits)
qed

text \<open>The plans of the contract: of a showdown, on boards dealt or given, and of a hand everybody else folded.
  A table has nine seats.\<close>

definition derived_plan :: "'pt table \<Rightarrow> settlement_plan \<Rightarrow> bool" where
  "derived_plan t plan \<longleftrightarrow> length (t_seats t) \<le> 9 \<and> ((\<exists>bs. derive_settlement_plan_for_boards t bs = Inr plan) \<or>
     derive_settlement_plan t = Inr plan \<or> derive_fold_win_plan t = Inr plan)"

lemma derived_plan_cases:
  assumes "derived_plan t plan"
  obtains bs where "derive_settlement_plan_for_boards t bs = Inr plan" | "derive_fold_win_plan t = Inr plan" "length (t_seats t) \<le> 9"
  using assms by (auto simp: derived_plan_def derive_settlement_plan_def rbind_Inr_iff)

lemma fold_win_facts:
  assumes "derive_fold_win_plan t = Inr plan" "length (t_seats t) \<le> 9"
  obtains w where "w < length (t_seats t)" "seat_is_occupied (t_seats t ! w)" "\<not> seat_is_folded (t_seats t ! w)"
    "\<not> seat_has_left_hand (t_seats t ! w)" "sp_awards plan = (replicate 9 0)[w := t_pot t - sp_rake plan]"
    "sp_rake plan \<le> t_pot t" "sum_list (map seat_total_bet (t_seats t)) = t_pot t" "t_pot t \<le> MAX_TOTAL_BET" "w < 9"
proof (rule fold_win_Inr [OF assms(1)])
  fix w rake
  let ?P = "\<lambda>i. seat_is_occupied (t_seats t ! i) \<and> \<not> seat_is_folded (t_seats t ! i) \<and> \<not> seat_has_left_hand (t_seats t ! i)"
  assume w: "filter ?P [0..<length (t_seats t)] = [w]" and f: "sum_list (map seat_total_bet (t_seats t)) = t_pot t"
    "t_pot t \<le> MAX_TOTAL_BET" "rake \<le> t_pot t" "sp_rake plan = rake" "sp_awards plan = (replicate 9 0)[w := t_pot t - rake]"
  have "w \<in> set (filter ?P [0..<length (t_seats t)])" unfolding w by simp
  then show thesis using f that [of w] assms(2) by simp
qed

lemma award_seated:
  assumes "derived_plan t plan" and "0 < award_at plan i"
  shows "i < length (t_seats t) \<and> seat_player_for_settlement (t_seats t ! i) \<noteq> None
    \<and> \<not> seat_is_folded (t_seats t ! i)"
  using assms(1)
proof (cases rule: derived_plan_cases)
  case (1 bs)
  then show ?thesis by (rule showdown_award_seated [OF _ assms(2)])
next
  case 2
  then show ?thesis
  proof (rule fold_win_facts)
    fix w assume w: "w < length (t_seats t)" "seat_is_occupied (t_seats t ! w)" "\<not> seat_is_folded (t_seats t ! w)"
      and a: "sp_awards plan = (replicate 9 0)[w := t_pot t - sp_rake plan]"
    have "i = w" using assms(2) by (cases "i = w") (auto simp: award_at_def a split: if_splits)
    moreover have "seat_player_for_settlement (t_seats t ! w) \<noteq> None" using w(2) by (cases "t_seats t ! w") auto
    ultimately show ?thesis using w by simp
  qed
qed

lemma derived_totals:
  assumes "derived_plan t plan"
  shows "sum_list (sp_awards plan) + sp_rake plan = t_pot t" "t_pot t = sum_list (map seat_total_bet (t_seats t))"
    "t_pot t \<le> MAX_TOTAL_BET"
proof -
  have "sum_list (sp_awards plan) + sp_rake plan = t_pot t \<and> t_pot t = sum_list (map seat_total_bet (t_seats t)) \<and>
    t_pot t \<le> MAX_TOTAL_BET"
    using assms
  proof (cases rule: derived_plan_cases)
    case (1 bs)
    then show ?thesis using showdown_totals by blast
  next
    case 2
    then show ?thesis by (rule fold_win_facts) (simp add: sum_list_single)
  qed
  then show "sum_list (sp_awards plan) + sp_rake plan = t_pot t" "t_pot t = sum_list (map seat_total_bet (t_seats t))"
    "t_pot t \<le> MAX_TOTAL_BET" by simp_all
qed

lemma sum_awards_seated:
  assumes "\<And>i. 0 < award_at plan i \<Longrightarrow> i < n"
  shows "(\<Sum>i<n. award_at plan i) = sum_list (sp_awards plan)"
proof -
  let ?m = "length (sp_awards plan)"
  have "award_at plan i = 0" if "n \<le> i" for i using assms [of i] that by fastforce
  moreover have "award_at plan i = 0" if "?m \<le> i" for i using that by (simp add: award_at_def)
  ultimately have "(\<Sum>i<n. award_at plan i) = (\<Sum>i<?m. award_at plan i)"
    by (intro sum.mono_neutral_cong) auto
  also have "\<dots> = (\<Sum>i<?m. sp_awards plan ! i)" by (intro sum.cong) (auto simp: award_at_def)
  also have "\<dots> = sum_list (sp_awards plan)" by (simp add: sum_list_sum_nth atLeast0LessThan)
  finally show ?thesis .
qed

lemma sum_enumerate: "(\<Sum>x\<leftarrow>enumerate 0 xs. f x) = (\<Sum>i<length xs. f (i, xs ! i))"
  unfolding sum_list_sum_nth by (rule sum.cong) (auto simp: nth_enumerate_eq)

lemma entries_total:
  assumes d: "derived_plan t plan"
  shows "total_of (concat (map (seat_entries plan) (enumerate 0 (t_seats t)))) = - int (sp_rake plan)"
proof -
  let ?n = "length (t_seats t)"
  have z: "seat_balance plan (i, t_seats t ! i) = 0"
    if "i < ?n" "seat_player_for_settlement (t_seats t ! i) = None" for i
  proof -
    have "award_at plan i = 0" using award_seated [OF d, of i] that by auto
    moreover have "seat_total_bet (t_seats t ! i) = 0" using that(2) by (cases "t_seats t ! i") auto
    ultimately show ?thesis by (simp add: seat_balance_def)
  qed
  have "total_of (concat (map (seat_entries plan) (enumerate 0 (t_seats t)))) =
      (\<Sum>i<?n. if seat_player_for_settlement (t_seats t ! i) = None then 0 else seat_balance plan (i, t_seats t ! i))"
    by (simp add: total_entries sum_enumerate cong: if_cong)
  also have "\<dots> = (\<Sum>i<?n. int (award_at plan i) - int (seat_total_bet (t_seats t ! i)))"
    using z by (intro sum.cong) (auto simp: seat_balance_def)
  also have "\<dots> = int (sum_list (sp_awards plan)) - int (sum_list (map seat_total_bet (t_seats t)))"
    using sum_awards_seated [of plan ?n] award_seated [OF d]
    by (simp add: sum_subtractf sum_list_sum_nth [of "map seat_total_bet (t_seats t)"] atLeast0LessThan
        flip: of_nat_sum)
  finally show ?thesis using derived_totals(1,2) [OF d] by linarith
qed

definition players_of :: "'pt table \<Rightarrow> address list" where
  "players_of t = List.map_filter seat_player_for_settlement (t_seats t)"

definition hand_entries :: "settlement_plan \<Rightarrow> nat \<Rightarrow> 'pt seat list \<Rightarrow> player_delta list" where
  "hand_entries plan k seats = concat (map (seat_entries plan) (enumerate k seats))"

lemma entries_addresses:
  "set (map pd_address (hand_entries plan k seats)) \<subseteq> set (List.map_filter seat_player_for_settlement seats)
    \<and> (distinct (List.map_filter seat_player_for_settlement seats) \<longrightarrow> distinct (map pd_address (hand_entries plan k seats)))
    \<and> length (hand_entries plan k seats) \<le> length seats"
proof (induction seats arbitrary: k)
  case Nil
  then show ?case by (simp add: hand_entries_def)
next
  case (Cons s seats)
  have e: "hand_entries plan k (s # seats) = seat_entries plan (k, s) @ hand_entries plan (Suc k) seats"
    by (simp add: hand_entries_def)
  show ?case unfolding e using Cons.IH [of "Suc k"]
    by (auto simp: seat_entries_def map_filter_simps split: option.splits)
qed

text \<open>No entry moves more than the pot, the rake included.\<close>

lemma award_bound:
  assumes "derived_plan t plan"
  shows "award_at plan i + sp_rake plan \<le> t_pot t"
proof -
  have "award_at plan i \<le> sum_list (sp_awards plan)"
    by (auto simp: award_at_def intro: member_le_sum_list)
  then show ?thesis using derived_totals(1) [OF assms] by simp
qed

lemma bet_bound:
  assumes "derived_plan t plan" and "s \<in> set (t_seats t)"
  shows "seat_total_bet s \<le> t_pot t"
  using derived_totals(2) [OF assms(1)] assms(2) by (auto intro: member_le_sum_list)

lemma entry_bounds:
  assumes d: "derived_plan t plan"
    and p: "p \<in> set (concat (map (seat_entries plan) (enumerate 0 (t_seats t))))"
  shows "- int (t_pot t) \<le> pd_delta p" "pd_delta p + int (sp_rake plan) \<le> int (t_pot t)"
proof -
  from p obtain x where x: "x \<in> set (enumerate 0 (t_seats t))" "p \<in> set (seat_entries plan x)" by auto
  have "snd x \<in> set (t_seats t)" using x(1) nth_mem [of "fst x" "t_seats t"] by (auto simp: in_set_enumerate_eq)
  moreover have "pd_delta p = seat_balance plan x"
    using x(2) by (auto simp: seat_entries_def split: option.splits if_splits)
  ultimately show "- int (t_pot t) \<le> pd_delta p" "pd_delta p + int (sp_rake plan) \<le> int (t_pot t)"
    using award_bound [OF d, of "fst x"] bet_bound [OF d, of "snd x"]
    by (auto simp: seat_balance_def split: prod.splits)
qed

lemma merge_treasury_ok:
  assumes "\<forall>p\<in>set ps. - B \<le> pd_delta p \<and> pd_delta p + r \<le> B" "0 \<le> r" "r \<le> B" "B < 2 ^ 127"
    and "distinct (map pd_address ps)"
  shows "\<exists>qs. merge_treasury t r ps = Inr qs \<and> distinct (map pd_address qs)
    \<and> (\<forall>q\<in>set qs. \<bar>pd_delta q\<bar> \<le> B) \<and> qs \<noteq> []"
  using assms
proof (induction ps)
  case Nil
  then show ?case by auto
next
  case (Cons p ps)
  show ?case
  proof (cases "pd_address p = t")
    case True
    have "i128_checked_add (pd_delta p) r = Some (pd_delta p + r)"
      using Cons.prems by (auto simp: i128_checked_add_Some)
    then show ?thesis using True Cons.prems by (fastforce simp: abs_le_iff)
  next
    case False
    with Cons obtain qs where q: "merge_treasury t r ps = Inr qs" "distinct (map pd_address qs)"
        "\<forall>q\<in>set qs. \<bar>pd_delta q\<bar> \<le> B"
      by auto
    have "pd_address p \<notin> set (map pd_address qs)"
      using merge_treasury_Inr [OF q(1)] Cons.prems(5) False by auto
    moreover have "\<bar>pd_delta p\<bar> \<le> B" using Cons.prems(1,2) by auto
    ultimately show ?thesis using q False by auto
  qed
qed

lemma balance_fold_ok:
  assumes "\<forall>p\<in>set ps. \<bar>pd_delta p\<bar> \<le> B" and "\<bar>s\<bar> + int (length ps) * B < 2 ^ 127"
  shows "try_fold (\<lambda>acc p. ok_or (i128_checked_add acc (pd_delta p)) e) s ps = Inr (s + total_of ps)"
  using assms
proof (induction ps arbitrary: s)
  case Nil
  then show ?case by simp
next
  case (Cons p ps)
  have B: "0 \<le> B" "\<bar>pd_delta p\<bar> \<le> B" using Cons.prems(1) by auto
  then have n: "0 \<le> int (length ps) * B" by simp
  have b: "\<bar>s\<bar> + B + int (length ps) * B < 2 ^ 127" using Cons.prems(2) by (simp add: algebra_simps)
  then have "\<bar>s + pd_delta p\<bar> < 2 ^ 127" using B n by linarith
  then have "i128_checked_add s (pd_delta p) = Some (s + pd_delta p)"
    by (auto simp: i128_checked_add_Some)
  moreover have "\<bar>s + pd_delta p\<bar> + int (length ps) * B < 2 ^ 127" using b B by linarith
  ultimately show ?case using Cons.IH [of "s + pd_delta p"] Cons.prems(1) by (simp add: add.assoc)
qed

lemma collect_res_ok: "\<forall>x\<in>set xs. f x = Inr (g x) \<Longrightarrow> collect_res f xs = Inr (map g xs)"
  by (induction xs) auto

lemma distinct_windows: "distinct (map f xs) \<Longrightarrow> \<forall>p\<in>set (windows2 xs). f (fst p) \<noteq> f (snd p)"
  by (simp add: windows2_nth distinct_conv_nth)

lemma check_balance_ok:
  assumes "distinct (map pd_address ps)" "total_of ps = 0" "\<forall>p\<in>set ps. \<bar>pd_delta p\<bar> \<le> B"
    and "int (length ps) * B < 2 ^ 127"
  shows "check_balance ps = Inr ()"
proof -
  have "checks (map (\<lambda>(p, q). fail_if (pd_address p = pd_address q) e) (windows2 ps)) = Inr ()" for e
    using distinct_windows [OF assms(1)] by (auto simp: checks_Inr_iff)
  moreover have "try_fold (\<lambda>acc p. ok_or (i128_checked_add acc (pd_delta p)) e) 0 ps = Inr 0" for e :: poker_error
    using balance_fold_ok [OF assms(3), of 0] assms(2,4) by simp
  ultimately show ?thesis by (simp add: check_balance_def)
qed

lemma u64_max_less: "u64_max < n \<longleftrightarrow> \<not> n < u64_bound"
  by (auto simp: u64_max_def)

lemma participants_encode:
  assumes "EMPTY_PLAYER \<notin> set (map pd_address ps)" "\<forall>p\<in>set ps. \<bar>pd_delta p\<bar> \<le> B" "B < int u64_bound"
  shows "\<exists>es. collect_res (encode_participant F) ps = Inr es"
    and "\<exists>h. compute_settlement_digest F hand ps log = Inr h"
proof -
  have p: "pd_address p \<noteq> EMPTY_PLAYER \<and> nat \<bar>pd_delta p\<bar> < u64_bound" if "p \<in> set ps" for p
  proof -
    have "\<bar>pd_delta p\<bar> < int u64_bound" using assms(2,3) that by fastforce
    moreover have "pd_address p \<in> set (map pd_address ps)" using that by simp
    ultimately show ?thesis using assms(1) by (simp only: nat_less_iff) fastforce
  qed
  then have "\<forall>p\<in>set ps. encode_participant F p = Inr (fl_from_bytes F (pd_address p), pd_delta p)"
    unfolding encode_participant_def address_to_felt_def validate_i128_abi_def u64_max_less by fastforce
  from collect_res_ok [OF this] show "\<exists>es. collect_res (encode_participant F) ps = Inr es" by blast
  have "\<forall>p\<in>set ps. participant_fields F p = Inr [fl_from_bytes F (pd_address p),
      fl_of_nat F (if 0 \<le> pd_delta p then 1 else 0), fl_of_nat F (nat \<bar>pd_delta p\<bar>)]"
    using p by (auto simp: participant_fields_def address_to_felt_def u64_magnitude_def)
  from collect_res_ok [OF this] show "\<exists>h. compute_settlement_digest F hand ps log = Inr h"
    by (simp add: compute_settlement_digest_def)
qed

lemma merged_ok:
  assumes d: "derived_plan t plan"
    and "length (t_seats t) \<le> 9" "distinct (players_of t)" "EMPTY_PLAYER \<notin> set (players_of t)"
    and r: "sp_rake plan \<noteq> 0 \<longrightarrow> (\<exists>a. r = Some a \<and> a \<noteq> EMPTY_PLAYER)"
  shows "\<exists>ps. add_rake plan r (hand_entries plan 0 (t_seats t)) = Inr ps \<and> distinct (map pd_address ps)
    \<and> (\<forall>p\<in>set ps. \<bar>pd_delta p\<bar> \<le> int (t_pot t)) \<and> EMPTY_PLAYER \<notin> set (map pd_address ps) \<and> length ps \<le> 10"
proof -
  let ?E = "hand_entries plan 0 (t_seats t)" and ?B = "int (t_pot t)"
  note a = entries_addresses [of plan 0 "t_seats t"]
  have dist: "distinct (map pd_address ?E)" and out: "EMPTY_PLAYER \<notin> set (map pd_address ?E)" and len: "length ?E \<le> 9"
    using a assms(2-4) by (auto simp: players_of_def)
  have b: "\<forall>p\<in>set ?E. - ?B \<le> pd_delta p \<and> pd_delta p + int (sp_rake plan) \<le> ?B"
    using entry_bounds [OF d] unfolding hand_entries_def by blast
  have pot: "int (sp_rake plan) \<le> ?B" "?B < 2 ^ 127"
    using derived_totals(1,3) [OF d] by (simp_all add: MAX_TOTAL_BET_def)
  show ?thesis
  proof (cases "sp_rake plan = 0")
    case True
    have "\<forall>p\<in>set ?E. \<bar>pd_delta p\<bar> \<le> ?B" using b True by (auto simp: abs_le_iff)
    then show ?thesis using dist out len True by (simp add: add_rake_def)
  next
    case False
    then obtain tr where tr: "r = Some tr" "tr \<noteq> EMPTY_PLAYER" using r by blast
    obtain qs where q: "merge_treasury tr (int (sp_rake plan)) ?E = Inr qs" "distinct (map pd_address qs)"
        "\<forall>q\<in>set qs. \<bar>pd_delta q\<bar> \<le> ?B"
      using merge_treasury_ok [OF b _ pot dist, of tr] by auto
    then show ?thesis
      using merge_treasury_Inr [OF q(1), of tr] out len tr False by (auto simp: add_rake_def)
  qed
qed

lemma derived_plan_settles:
  assumes d: "derived_plan t plan"
    and s: "length (t_seats t) \<le> 9" "distinct (players_of t)" "EMPTY_PLAYER \<notin> set (players_of t)"
    and r: "sp_rake plan \<noteq> 0 \<longrightarrow> (\<exists>a. r = Some a \<and> a \<noteq> EMPTY_PLAYER)" and x: "due_to t plan r x \<noteq> 0"
  shows "\<exists>c. settle_new F dg (t_hand_id t) t plan r log = Inr c"
proof -
  obtain ps where ps: "add_rake plan r (hand_entries plan 0 (t_seats t)) = Inr ps" "distinct (map pd_address ps)"
      "\<forall>p\<in>set ps. \<bar>pd_delta p\<bar> \<le> int (t_pot t)" "EMPTY_PLAYER \<notin> set (map pd_address ps)" "length ps \<le> 10"
    using merged_ok [OF d s r] by blast
  let ?qs = "sort_key pd_address ps" and ?B = "int (t_pot t)"
  have ms: "mset ?qs = mset ps" by simp
  have "net x ps = due_to t plan r x"
    using add_rake_Inr(1) [OF ps(1), of x] by (simp add: due_to_def hand_entries_def net_entries)
  then have ne: "ps \<noteq> []" using x by auto
  have "total_of ps = 0" using add_rake_Inr(2) [OF ps(1)] entries_total [OF d] by (simp add: hand_entries_def)
  then have tot: "total_of ?qs = 0" using net_perm [OF ms] by simp
  have B: "0 \<le> ?B" "?B < int u64_bound" using derived_totals(3) [OF d] by (simp_all add: MAX_TOTAL_BET_def)
  have "mset (map pd_address ?qs) = mset (map pd_address ps)" using ms by simp
  then have dist: "distinct (map pd_address ?qs)" using ps(2) mset_eq_imp_distinct_iff by blast
  have bound: "\<forall>p\<in>set ?qs. \<bar>pd_delta p\<bar> \<le> ?B" "EMPTY_PLAYER \<notin> set (map pd_address ?qs)" "length ?qs \<le> 10"
    using ps(3-5) by simp_all
  have "int (length ?qs) * ?B \<le> 10 * ?B" using bound(3) B(1) by (intro mult_right_mono) simp_all
  then have "int (length ?qs) * ?B < 2 ^ 127" using B(2) by simp
  then have bal: "check_balance ?qs = Inr ()" using check_balance_ok [OF dist tot bound(1)] by simp
  obtain es where "collect_res (encode_participant F) ?qs = Inr es"
    using participants_encode(1) [OF bound(2,1) B(2), of F] ..
  moreover obtain h where "compute_settlement_digest F (t_hand_id t) ?qs log = Inr h"
    using participants_encode(2) [OF bound(2,1) B(2), of F "t_hand_id t" log] ..
  ultimately show ?thesis
    using ps(1,5) ne bal
    by (simp add: settle_new_def seat_participants hand_entries_def [symmetric] digest_split_def
        check_participants_def MAX_SETTLE_PARTICIPANTS_def Let_def)
qed

section \<open>Properties\<close>

text \<open>
  C15. Registering several hands at once needs a hash collision: the call demands the same aggregate
  digest of every hand of the range, but the digest of a verified aggregate covers its hand number,
  so an accepted range of two or more hands exhibits two different messages with one digest.
\<close>

theorem several_hands_need_a_collision:
  assumes r: "register_new F aggs lo hi roots = Inr cd" "lo < hi"
    and v: "verify_outer_aggregate L ts p = Inr (aggs ! 0)" "verify_outer_aggregate L us q = Inr (aggs ! 1)"
  shows "collides (ol_blake L) (outer_message L p (vo_chain (aggs ! 0)) (vo_precompile_bindings (aggs ! 0)))
    (outer_message L q (vo_chain (aggs ! 1)) (vo_precompile_bindings (aggs ! 1)))"
proof -
  have len: "0 < length aggs" "1 < length aggs"
    using r by (auto simp: register_new_def Let_def rbind_Inr_iff)
  note h0 = register_new_hands [OF r(1) len(1)] and h1 = register_new_hands [OF r(1) len(2)]
  have hp: "oa_hand_id p = lo" "oa_hand_id q = lo + 1"
    using verify_outer_Inr(2) [OF v(1)] verify_outer_Inr(2) [OF v(2)] h0(1) h1(1)
    by (simp_all add: validate_bundle_metadata_def Let_def)
  have "outer_message L p (vo_chain (aggs ! 0)) (vo_precompile_bindings (aggs ! 0))
      \<noteq> outer_message L q (vo_chain (aggs ! 1)) (vo_precompile_bindings (aggs ! 1))"
    using outer_message_hand [of L p _ _ q] h1(2) hp by fastforce
  then show ?thesis
    using h1(3) verify_outer_Inr(3) [OF v(1)] verify_outer_Inr(3) [OF v(2)] by (simp add: collides_def)
qed

text \<open>A range of hands 3 and 4 is accepted under a hash that maps everything to zero.\<close>

definition demo_felts :: "nat felt_ops" where
  "demo_felts = \<lparr>fl_from_bytes = (\<lambda>bs. int_value (rev bs)), fl_to_bytes = (\<lambda>f. rev (int_bytes 32 f)),
     fl_of_nat = id, fl_neg = id, fl_poseidon = sum_list\<rparr>"

theorem several_hands_need_a_collision_witness:
  "\<exists>cd. register_new demo_felts [demo_verified 3 10, demo_verified 4 12] 3 4 [0, 0] = Inr cd
     \<and> collides (ol_blake demo_outer_lib)
         (outer_message demo_outer_lib (demo_outer 3 10) (vo_chain (demo_verified 3 10)) (vo_precompile_bindings (demo_verified 3 10)))
         (outer_message demo_outer_lib (demo_outer 4 12) (vo_chain (demo_verified 4 12)) (vo_precompile_bindings (demo_verified 4 12)))"
proof -
  have v: "verify_outer_aggregate demo_outer_lib (demo_tasks 3 10) (demo_outer 3 10)
        = Inr ([demo_verified 3 10, demo_verified 4 12] ! 0)"
      "verify_outer_aggregate demo_outer_lib (demo_tasks 4 12) (demo_outer 4 12)
        = Inr ([demo_verified 3 10, demo_verified 4 12] ! 1)"
    using demo_outer_verifies [of 10 3] demo_outer_verifies [of 12 4] by simp_all
  have "\<exists>cd. register_new demo_felts [demo_verified 3 10, demo_verified 4 12] 3 4 [0, 0] = Inr cd"
    by (simp add: register_new_def register_step_def register_start_def demo_verified_def demo_tasks_def
        demo_receipt_def drifts_def checked_add_u32_def digest_split_def Let_def)
  then obtain cd where cd: "register_new demo_felts [demo_verified 3 10, demo_verified 4 12] 3 4 [0, 0] = Inr cd" ..
  from several_hands_need_a_collision [OF cd _ v] cd show ?thesis by simp
qed

text \<open>
  C11. The calldata of a hand is exact: the players are listed once each, in the order of their addresses,
  none of them the empty address; every address gets what it is owed, the award of its seats less what
  they put in, with the rake added for the treasury; addresses not listed are owed nothing; and the
  deltas cancel.
\<close>

theorem settlement_calldata_is_exact:
  assumes "settle_new F digest hand_id t plan r log = Inr c"
  shows "\<exists>ps :: player_delta list. sc_players c = map (\<lambda>p. fl_from_bytes F (pd_address p)) ps \<and> sc_deltas c = map pd_delta ps
    \<and> sorted (map pd_address ps) \<and> distinct (map pd_address ps) \<and> EMPTY_PLAYER \<notin> set (map pd_address ps)
    \<and> (\<forall>a. due_to t plan r a = (if a \<in> set (map pd_address ps)
          then pd_delta (the (List.find (\<lambda>p. pd_address p = a) ps)) else 0))
    \<and> sum_list (sc_deltas c) = 0 \<and> sc_deltas c \<noteq> [] \<and> length ps \<le> MAX_SETTLE_PARTICIPANTS"
proof -
  obtain ps where ps: "sc_players c = map (\<lambda>p. fl_from_bytes F (pd_address p)) ps" "sc_deltas c = map pd_delta ps"
    "sorted (map pd_address ps)" "distinct (map pd_address ps)" "total_of ps = 0" "ps \<noteq> []"
    "length ps \<le> MAX_SETTLE_PARTICIPANTS" "\<And>a. net a ps = due_to t plan r a"
    "EMPTY_PLAYER \<notin> set (map pd_address ps)"
    using settle_new_Inr [OF assms] by metis
  have all: "\<forall>a. due_to t plan r a = (if a \<in> set (map pd_address ps)
      then pd_delta (the (List.find (\<lambda>p. pd_address p = a) ps)) else 0)"
    using net_found [OF ps(4)] ps(8) by metis
  have sum: "sum_list (sc_deltas c) = 0" using ps(2,5) by (simp add: total_of_def)
  have ne: "sc_deltas c \<noteq> []" using ps(2,6) by simp
  show ?thesis by (rule exI [of _ ps]) (intro conjI ps(1-4) all sum ne ps(7,9))
qed

text \<open>A showdown of two seats, a third player having folded after a bet of fifty.\<close>

definition demo_player :: "nat \<Rightarrow> unit seat \<Rightarrow> unit seat" where
  "demo_player n s = (case s of SeatPlaying p \<Rightarrow>
     SeatPlaying (p\<lparr>pl_occupied := (pl_occupied p)\<lparr>oc_player := replicate 20 (word_of_nat n)\<rparr>\<rparr>) | _ \<Rightarrow> s)"

definition demo_three :: "unit table" where
  "demo_three = (demo_table ([demo_player 1 (demo_seat 12 25 100 PActive), demo_player 2 (demo_seat 11 24 100 PActive),
     demo_player 3 (demo_seat 2 3 50 PFolded)] @ replicate 6 seat_empty) 250 [0, 14, 28, 42, 7])
     \<lparr>t_rules := (rules_new 3 1 2)\<lparr>r_rake_mode := RAKE_MODE_PERCENTAGE\<rparr>\<rparr>"

abbreviation demo_board :: settlement_boards where
  "demo_board \<equiv> BoardsSingle (map Card [0, 14, 28, 42, 7])"

lemma replicate_6: "replicate 6 x = [x, x, x, x, x, x]"
  by (simp add: numeral_eq_Suc)

lemmas demo_three_simps = demo_three_def demo_player_def demo_table_def demo_seat_def rules_new_def
  RAKE_MODE_PERCENTAGE_def RAKE_MODE_NONE_def DEFAULT_RAKE_BPS_def DEFAULT_RAKE_CAP_def replicate_6

lemma demo_three_plan: "\<exists>plan. derive_settlement_plan_for_boards demo_three demo_board = Inr plan"
proof (rule derive_showdown_total [where s = "demo_player 1 (demo_seat 12 25 100 PActive)"])
  show "boards_validate demo_board = Inr ()" by (rule demo_showdown_ok)
  show "validate_exposed_cards demo_three demo_board = Inr ()"
    by (simp add: demo_three_simps validate_exposed_cards_def insert_ids_def card_is_valid_def seat_is_folded_def)
  show "rules_validate (t_rules demo_three) = Inr ()"
    by (simp add: demo_three_simps rules_validate_def MAX_SEATS_def ANTE_MODE_NONE_def RIT_MODE_DISABLED_def)
qed (simp_all add: demo_three_simps padding_seats_are_vacant_def MAX_TOTAL_BET_def seat_is_folded_def)

text \<open>
  C12. Every derived settlement reaches the chain: from a plan derived for a table of nine seats, be it of a showdown or
  of a hand that everybody else folded, with the players of the seats distinct and not the empty address, a
  treasury whenever there is rake, and something owed to somebody, the calldata is built; none of its checks
  refuses the plan.
\<close>

theorem derived_settlements_reach_the_chain:
  assumes d: "derive_settlement_plan_for_boards t bs = Inr plan \<or> derive_settlement_plan t = Inr plan \<or>
      derive_fold_win_plan t = Inr plan"
    and s: "length (t_seats t) \<le> 9" "distinct (players_of t)" "EMPTY_PLAYER \<notin> set (players_of t)"
    and r: "sp_rake plan \<noteq> 0 \<longrightarrow> (\<exists>a. r = Some a \<and> a \<noteq> EMPTY_PLAYER)" and x: "due_to t plan r x \<noteq> 0"
  shows "\<exists>c. settle_new F dg (t_hand_id t) t plan r log = Inr c"
proof -
  have "derived_plan t plan" using d s(1) by (auto simp: derived_plan_def)
  then show ?thesis by (rule derived_plan_settles [OF _ s r x])
qed

text \<open>The player who folded is owed minus fifty, whatever the plan awards the others.\<close>

lemma demo_three_due:
  assumes "derived_plan demo_three plan"
  shows "due_to demo_three plan (Some (replicate 20 9)) (replicate 20 3) = - 50"
proof -
  have "seat_is_folded (t_seats demo_three ! 2)" by (simp add: demo_three_simps seat_is_folded_def)
  then have "award_at plan 2 = 0" using award_seated [OF assms, of 2] by auto
  then have "award_at plan (Suc (Suc 0)) = 0" by (simp add: numeral_2_eq_2)
  then show ?thesis
    by (simp add: due_to_def demo_three_simps seat_empty_def seat_balance_def replicate_eq_replicate)
qed

lemma demo_three_settles:
  "sp_rake plan \<noteq> 0 \<longrightarrow> (\<exists>a. Some (replicate 20 (9 :: 8 word)) = Some a \<and> a \<noteq> EMPTY_PLAYER)"
  "length (t_seats demo_three) \<le> 9" "distinct (players_of demo_three)" "EMPTY_PLAYER \<notin> set (players_of demo_three)"
  by (simp_all add: demo_three_simps seat_empty_def players_of_def map_filter_simps EMPTY_PLAYER_def replicate_eq_replicate)

text \<open>The same hand when the second player folds as well.\<close>

definition demo_folded :: "unit table" where
  "demo_folded = demo_three\<lparr>t_seats := (t_seats demo_three)[1 := demo_player 2 (demo_seat 11 24 100 PFolded)]\<rparr>"

lemma demo_folded_plan: "\<exists>plan. derive_fold_win_plan demo_folded = Inr plan"
proof (rule fold_win_total [where w = 0])
  show "filter (\<lambda>i. seat_is_occupied (t_seats demo_folded ! i) \<and> \<not> seat_is_folded (t_seats demo_folded ! i) \<and>
      \<not> seat_has_left_hand (t_seats demo_folded ! i)) [0..<length (t_seats demo_folded)] = [0]"
    by (simp add: demo_folded_def demo_three_simps seat_is_folded_def seat_empty_def upt_rec)
qed (simp_all add: demo_folded_def demo_three_simps MAX_TOTAL_BET_def seat_empty_def)

lemma demo_folded_due:
  assumes "derived_plan demo_folded plan"
  shows "due_to demo_folded plan (Some (replicate 20 9)) (replicate 20 3) = - 50"
proof -
  have "seat_is_folded (t_seats demo_folded ! 2)" by (simp add: demo_folded_def demo_three_simps seat_is_folded_def)
  then have "award_at plan 2 = 0" using award_seated [OF assms, of 2] by auto
  then have "award_at plan (Suc (Suc 0)) = 0" by (simp add: numeral_2_eq_2)
  then show ?thesis
    by (simp add: due_to_def demo_folded_def demo_three_simps seat_empty_def seat_balance_def replicate_eq_replicate)
qed

lemma demo_folded_settles:
  "length (t_seats demo_folded) \<le> 9" "distinct (players_of demo_folded)" "EMPTY_PLAYER \<notin> set (players_of demo_folded)"
  by (simp_all add: demo_folded_def demo_three_simps seat_empty_def players_of_def map_filter_simps EMPTY_PLAYER_def
      replicate_eq_replicate)

theorem derived_settlements_reach_the_chain_witness:
  "(\<exists>plan c. derive_settlement_plan_for_boards demo_three demo_board = Inr plan
     \<and> settle_new demo_felts zero32 (t_hand_id demo_three) demo_three plan (Some (replicate 20 9)) 5 = Inr c)
   \<and> (\<exists>plan c. derive_fold_win_plan demo_folded = Inr plan
     \<and> settle_new demo_felts zero32 (t_hand_id demo_folded) demo_folded plan (Some (replicate 20 9)) 5 = Inr c)"
proof (intro conjI)
  obtain plan where p: "derive_settlement_plan_for_boards demo_three demo_board = Inr plan"
    using demo_three_plan by blast
  then have "derived_plan demo_three plan" using demo_three_settles(2) by (auto simp: derived_plan_def)
  then have "due_to demo_three plan (Some (replicate 20 9)) (replicate 20 3) \<noteq> 0" by (simp add: demo_three_due)
  from derived_settlements_reach_the_chain [OF disjI1 [OF p] demo_three_settles(2-4,1) this, of demo_felts zero32 5] p
  show "\<exists>plan c. derive_settlement_plan_for_boards demo_three demo_board = Inr plan
     \<and> settle_new demo_felts zero32 (t_hand_id demo_three) demo_three plan (Some (replicate 20 9)) 5 = Inr c" by blast
next
  obtain plan where p: "derive_fold_win_plan demo_folded = Inr plan" using demo_folded_plan by blast
  then have "derived_plan demo_folded plan" using demo_folded_settles(1) by (auto simp: derived_plan_def)
  then have "due_to demo_folded plan (Some (replicate 20 9)) (replicate 20 3) \<noteq> 0" by (simp add: demo_folded_due)
  from derived_settlements_reach_the_chain [OF disjI2 [OF disjI2 [OF p]] demo_folded_settles demo_three_settles(1) this,
      of demo_felts zero32 5] p
  show "\<exists>plan c. derive_fold_win_plan demo_folded = Inr plan
     \<and> settle_new demo_felts zero32 (t_hand_id demo_folded) demo_folded plan (Some (replicate 20 9)) 5 = Inr c" by blast
qed

theorem settlement_calldata_is_exact_witness:
  "\<exists>plan c. settle_new demo_felts zero32 (t_hand_id demo_three) demo_three plan (Some (replicate 20 9)) 5 = Inr c
     \<and> sum_list (sc_deltas c) = 0 \<and> sc_deltas c \<noteq> []"
proof -
  obtain plan where p: "derive_settlement_plan_for_boards demo_three demo_board = Inr plan"
    using demo_three_plan by blast
  then have dp: "derived_plan demo_three plan" using demo_three_settles(2) by (auto simp: derived_plan_def)
  then have "due_to demo_three plan (Some (replicate 20 9)) (replicate 20 3) \<noteq> 0" by (simp add: demo_three_due)
  from derived_plan_settles [OF dp demo_three_settles(2-4,1) this, of demo_felts zero32 5]
  obtain c where c: "settle_new demo_felts zero32 (t_hand_id demo_three) demo_three plan (Some (replicate 20 9)) 5 = Inr c"
    by blast
  from settlement_calldata_is_exact [OF c] c show ?thesis by blast
qed

end
