(* ===== verification/Spec2Isabelle.thy ===== *)
theory Spec2Isabelle
  imports Poker_Scenario Poker_Payout Poker_Betting Poker_Keys Poker_Smt Poker_Admission Canon_Trace Canon_Binding Canon_Calldata
begin

text \<open>
  \<^bold>\<open>Verification of the Texas hold'em contract of the repository\<close>
  (\<^verbatim>\<open>poker_l1/src/contracts/texas_poker\<close>), of the canonical transition relation its proofs rest on
  (\<^verbatim>\<open>src/src/texas_canonical.rs\<close>), and of the way of an accepted proof to the settlement contract.

  The contract keeps one table: its rules, nine seat slots, the pot, the vault of chips
  (\<^verbatim>\<open>chip_pool\<close>), the phase of the hand, the encrypted deck and the board. Calls arrive at the
  dispatcher, which authenticates the caller, runs one command of the state machine, normalises
  the table until it is blocked on a player or a deadline, and numbers the change. Cards are
  ElGamal ciphertexts that all players shuffle; revealing a card takes a token of every player;
  when players vanish the deck is reconstructed. At showdown the settlement derives a plan from
  side pots and hand ranks and applies it.

  \<^bold>\<open>Theories and the code they model.\<close>
  \<^item> \<open>Poker_Prelude\<close>: results and errors (\<^verbatim>\<open>PokerL1Error\<close>), checked 64- and 32-bit arithmetic, loops
    with early return (\<open>try_fold\<close>), and the collections of simplification rules.
  \<^item> \<open>Poker_Betting\<close> (\<^verbatim>\<open>core/betting.rs\<close>), \<open>Poker_SidePot\<close> (\<^verbatim>\<open>core/side_pot.rs\<close>), \<open>Poker_Cards\<close>
    (\<^verbatim>\<open>core/card.rs\<close>), \<open>Poker_Networks\<close> and \<open>Poker_HandEval\<close> (\<^verbatim>\<open>core/hand_evaluator.rs\<close>),
    \<open>Poker_Keys\<close> (\<^verbatim>\<open>signature/tagged_pubkey.rs\<close>).
  \<^item> \<open>Poker_Masks\<close>, \<open>Poker_Seats\<close>, \<open>Poker_Phases\<close>, \<open>Poker_Table\<close> (\<^verbatim>\<open>core/types.rs\<close>): seat masks as 16-bit
    words, the seat life cycle, the phases and their payloads, the table record with its phase
    operations and \<open>validate_state_schema\<close>.
  \<^item> \<open>Poker_Settlement\<close> and \<open>Poker_Payout\<close> (\<^verbatim>\<open>core/settlement.rs\<close>): rake, winners, odd chips, plans,
    their validation and derivation.
  \<^item> \<open>Poker_Events\<close> (\<^verbatim>\<open>core/events.rs\<close>), \<open>Poker_Engine\<close>, \<open>Poker_Protocol\<close>, \<open>Poker_Commands\<close>
    (\<^verbatim>\<open>core/state_machine.rs\<close>, with the digests of \<^verbatim>\<open>core/utils.rs\<close>): one definition per function, the
    table passed explicitly and returned, events appended, every error a value. Loops over seats
    that return early are \<open>try_fold\<close> or \<open>each_seat\<close>; the body of a long function is split into named
    parts, each mapped to its lines.
  \<^item> \<open>Poker_Dispatch\<close> (\<^verbatim>\<open>runtime/dispatch.rs\<close>): tags, authentication, one branch per command, and the
    transaction around them. The table is a mutable argument of the source, so \<open>dispatch\<close> returns the
    table the caller sees also when the result is an error.
  \<^item> \<open>Poker_Vault\<close>, \<open>Poker_Custody\<close>, \<open>Poker_Removal\<close>, \<open>Poker_Ledger\<close>: the accounts of a table (\<open>owed\<close>, \<open>books\<close>,
    \<open>solvent\<close>, \<open>conserves\<close>) and the effect of every operation on them, up to sequences of calls.
  \<^item> \<open>Poker_Borsh\<close>, \<open>Poker_Codec\<close>, \<open>Poker_StateCodec\<close>, \<open>Poker_Persistence\<close>: readers and writers of bytes, the codecs of
    the structs a table consists of, with the padded records of seats and phases (\<^verbatim>\<open>core/types.rs\<close>),
    and the persisted and the hot layout of a table with its context bindings (\<^verbatim>\<open>runtime/state_codec.rs\<close>).
  \<^item> \<open>Poker_Args\<close>, \<open>Poker_Wire\<close>, \<open>Poker_Replay\<close>: the argument structs, selectors, canonical payloads, replay
    arguments and the signed message of \<^verbatim>\<open>runtime/dispatch.rs\<close>, and the proof tasks and treasury receipt of
    \<^verbatim>\<open>runtime/prove_task.rs\<close>.
  \<^item> \<open>Poker_Pending\<close>, \<open>Poker_Runtime\<close>, \<open>Poker_Admission\<close>: the queue of early commands (\<^verbatim>\<open>runtime/pending.rs\<close>) and the
    runtime in front of the dispatcher (\<^verbatim>\<open>runtime/table_runtime.rs\<close>, \<^verbatim>\<open>caller_id.rs\<close>,
    \<^verbatim>\<open>signature/unified.rs\<close>), with what they promise to players and prover.
  \<^item> \<open>Poker_Smt\<close>: the sparse Merkle tree of \<^verbatim>\<open>object_model/smt.rs\<close>.
  \<^item> \<open>Canon_State\<close>, \<open>Canon_Witness\<close>, \<open>Canon_Openings\<close>, \<open>Canon_Terminal\<close>, \<open>Canon_Relation\<close>
    (\<^verbatim>\<open>src/src/texas_canonical.rs\<close>, \<^verbatim>\<open>canonical_rake_opening.rs\<close>): the fixed-width image of a table, its
    validation and commitment, the witness of a transition, and the native relation a proved row must
    satisfy, one definition per selector family (\<open>relate_kind\<close>), with the shape and batch validators
    (\<open>validate_shape\<close>, \<open>validate_batch\<close>).
  \<^item> \<open>Canon_Custody\<close>, \<open>Canon_Lifecycle\<close>, \<open>Canon_Batches\<close>, \<open>Canon_Actions\<close>, \<open>Canon_Binding\<close>: what accepted rows and
    batches guarantee; \<open>Canon_Gaps\<close>: accepted rows that they should not include; \<open>Canon_Demo\<close>: concrete
    images and rows for the witnesses.
  \<^item> \<open>Canon_Trace\<close> (\<^verbatim>\<open>src/src/canonical_dispatch_trace.rs\<close>): the projection of a table to its image and the
    rows a traced call becomes.
  \<^item> \<open>Canon_Bundle\<close> (\<^verbatim>\<open>src/src/method_precompile_dual.rs\<close>), \<open>Canon_Chain\<close> (\<^verbatim>\<open>verified_chain.rs\<close>) and
    \<open>Canon_Outer\<close> (\<^verbatim>\<open>outer_aggregate.rs\<close>): the envelope of one proved call, the chain of receipts of one
    hand with its anchor, and the aggregate of a hand with its wire format, verification and digest.
  \<^item> \<open>Canon_Calldata\<close> (\<^verbatim>\<open>src/src/starknet_settlement.rs\<close>): the calls to the settlement contract, the
    registration of aggregates and the signed balances of a hand.
  \<^item> \<open>Poker_Scenario\<close>: a concrete instance, used by the witnesses.

  \<^bold>\<open>Parameters.\<close> Curve arithmetic, the plaintext card points and the digest of a plan (record
  \<open>crypto\<close>) and the reconstruction library with its hash (record \<open>reconstruction_lib\<close>) are
  arguments. A proof submitted with a call is represented by the predicate its verification
  computes, so each property holds whatever proofs accept. The encodings of points, ciphertexts and
  proofs, the hash, hex decoding, the derived identity key and the three signature schemes belong to
  libraries and are arguments as well (records \<open>point_codec\<close>, \<open>wire_lib\<close>, \<open>runtime_lib\<close>), as are the chain
  digest, the BLAKE2b digest, the commitment of points and the validity of a ciphertext on the
  canonical side (record \<open>trace_lib\<close>, or a function argument). The verification of one proof envelope
  (record \<open>outer_lib\<close>) runs the proof system and is a parameter too, as are field elements and the
  Poseidon hash (record \<open>felt_ops\<close>) and two request versions of the verifier crates (record
  \<open>abi_versions\<close>). What the code relies on is a named hypothesis: that a decoded value can be written again
  (\<open>lawful_points\<close>, \<open>lawful_wire\<close>), that the nineteen selectors differ (\<open>selectors_apart\<close>), and that
  the hash does not collide on the messages at hand.

  \<^bold>\<open>What is shown.\<close> The abstract specification is an account book: what the vault owes is the sum of
  stacks, pending addons, open bets and pot. Every command refines it: it either conserves the
  difference between vault and debt or only lowers the debt, and keeps the books in order (pot
  and open bets are what the seats wagered; bets are open only while betting; before the deal
  nothing is wagered); only joining, addons and rebuys add to the vault. The locale \<open>step_system\<close> turns
  this into an invariant of every sequence of calls, and its extension \<open>account_system\<close> into the balance of
  what was paid in, paid out, owed and lost; both are interpreted on \<open>commit\<close>, the successful dispatch. Below this: atomicity,
  numbering and authentication of calls, bounded and idempotent normalisation, time banks,
  reopening of the action, settlement that always succeeds, conserves chips and pays the best
  hands, the equivalence of the optimised side-pot and hand-rank code with reference definitions,
  and round trips of the encodings of cards, masks, keys, commands, the card ledger and whole tables.
  Around the dispatcher: a signed submission changes the table only under the key of its seat and
  only once per nonce, the queue is bounded, ordered and loses nothing, a proof task replays to the
  transition it records, and the Merkle tree has the root of its contents. The locales
  \<open>queue_holder\<close>, \<open>codec\<close>, \<open>one_encoding\<close>, \<open>reads_back\<close> and \<open>level_step\<close> state these interfaces and are
  interpreted on the runtime, the codecs and the tree.
  For the rows that are proved instead of replayed: an accepted batch is one run of one table in which
  no chip appears or vanishes, calls and raises follow the same rules as the virtual machine, awards
  are exact, and a transition commitment binds its row. The locale \<open>row_invariant\<close> states what a
  relation has to keep from row to row; it is interpreted on the scope of a table and on the phases
  before betting.
  On the way to the chain: envelopes and aggregates have one encoding each (locale \<open>exact_codec\<close>,
  interpreted on both), an anchored chain of receipts is exactly the anchored range of calls, the
  aggregate digest binds the envelopes and calls it covers, and every settlement plan the contract
  derives becomes calldata that pays each address what it is owed.
  Several properties describe behaviour that the comments of the source do not intend; they say
  so in their text.

  \<^bold>\<open>Bounds and fuel.\<close> Normalisation runs at most 32 steps in the source; the model's counter is that
  bound, so running out is the source's own error value. All other loops are over finite
  lists. 64-bit amounts are natural numbers with the checked operations of the source written
  out; masks are words.

  \<^bold>\<open>Not modelled.\<close> The curve arithmetic and proof systems behind the parameters, storage objects and
  object metadata, logging, the STARK arithmetisation and the prover around the canonical
  relation (\<^verbatim>\<open>texas_canonical_air.rs\<close>, \<^verbatim>\<open>orchestrator.rs\<close> and the proof systems of \<^verbatim>\<open>src/src\<close>: polynomial
  constraints over a proof-system library, so that what is shown of the native relation is not
  shown of them), the game server,
  clients, on-chain contracts and vendored code. Events stay structured values and the return value
  of a dispatch is kept as a structure. The recording of normalisation steps for the prover copies
  tables and changes none, so it is left out; a recorded trace is an input of \<open>Canon_Trace\<close>.
\<close>

section \<open>Custody of chips\<close>

text \<open>
  C1. Solvency of every table a host can hold. Whatever calls were made, with whatever
  arguments, by whomever and at whatever time, after each accepted call the table is valid, the
  vault covers every stack, pending addon, open bet and the pot, the pot and the open bets are
  exactly what the seats have put into the hand, and bets are open only while betting.
\<close>

theorem reachable_tables_are_solvent:
  assumes "reachable C L t"
  shows "validate_state_schema (cr_group C) t = Inr () \<and>
    sum_list (map (\<lambda>s. seat_stack s + seat_pending_addon s + seat_bet s) (t_seats t)) + t_pot t \<le> t_chip_pool t \<and>
    t_pot t + sum_list (map seat_bet (t_seats t)) = sum_list (map seat_total_bet (t_seats t)) \<and>
    (\<not> in_betting (t_hand_phase t) \<longrightarrow> (\<forall>s\<in>set (t_seats t). seat_bet s = 0)) \<and> length (t_seats t) = MAX_SEATS"
  using reachable_sound [OF assms]
  by (auto simp: sound_def books_def solvent_def account_defs sum_list_addf)

theorem reachable_tables_are_solvent_witness:
  "\<exists>t. reachable demo_crypto demo_lib t \<and> t_creator t = [1] \<and> validate_state_schema (cr_group demo_crypto) t = Inr () \<and>
     sum_list (map (\<lambda>s. seat_stack s + seat_pending_addon s + seat_bet s) (t_seats t)) + t_pot t \<le> t_chip_pool t"
proof -
  obtain t where t: "dispatch demo_crypto demo_lib demo_ctx (CallCreateTable 2 5 10 0) (empty_table 2) = (t, Inr [])" "t_creator t = [1]"
    by (rule create_commits [of 2 10 5 0 demo_ctx "empty_table 2" demo_crypto demo_lib])
      (simp_all add: demo_ctx_def empty_table_def RIT_MODE_DISABLED_def)
  have "reachable demo_crypto demo_lib t" by (rule reachable.created [OF t(1)])
  with reachable_tables_are_solvent [OF this] t(2) show ?thesis by blast
qed

text \<open>
  C3. Chips are not created. From a sound table, over any accepted sequence of calls that does not create
  the table anew, the vault changes by what is paid in, by joining, addons and rebuys, and by what is paid out, to
  players or as rake; and what the vault owes is what it owed plus what was paid in, less what was paid
  out and less claims that were lost. So nothing is paid out that was not owed or paid in before, and
  no claim on the vault arises but from a deposit.
\<close>

theorem claims_come_from_deposits:
  assumes "sound C t" "run_steps (commit C L) cs t = Some t'" "\<forall>x\<in>set cs. \<not> creates (snd x)"
  shows "\<exists>out lost. t_chip_pool t' + out = t_chip_pool t + (\<Sum>x\<leftarrow>cs. paid_in (snd x)) \<and>
    owed t' + out + lost = owed t + (\<Sum>x\<leftarrow>cs. paid_in (snd x))"
proof -
  from accounts.run_balance [OF assms] obtain out lost where
    "t_chip_pool t' + out = t_chip_pool t + (\<Sum>x\<leftarrow>cs. paid_in (snd x))"
    "owed t' + out + lost = owed t + (\<Sum>x\<leftarrow>cs. paid_in (snd x))" .
  then show ?thesis by blast
qed

text \<open>The one player of the lobby leaves with the hundred chips of the stack.\<close>

abbreviation lobby_context :: dispatch_context where
  "lobby_context \<equiv> \<lparr>dc_caller = demo_address, dc_block_timestamp = 1000\<rparr>"

lemma lobby_leave:
  "\<exists>es. dispatch demo_crypto demo_lib lobby_context (CallLeaveTable 0) lobby_table = (stored_table\<lparr>t_call_seq := 1\<rparr>, Inr es)"
proof -
  have left: "lobby_table\<lparr>t_chip_pool := 0, t_seats := seat_empty # replicate 8 seat_empty,
      t_deck_state := \<lparr>ds_encrypted = DeckAbsent, ds_contributor_mask = 0, ds_cards_dealt = 0, ds_ledger = ledger_default,
        ds_reconstruct_accumulated = None\<rparr>\<rparr> = stored_table"
    by (simp add: lobby_table_def stored_table_def empty_table_def deck_default_def numeral_eq_Suc)
  have mask: "seat_mask_remove 0 0 = 0" "seat_mask_is_canonical 0 2" "[0..<2] = [0, 1 :: nat]"
      "\<not> seat_mask_contains 0 k" for k
    by (simp_all add: seat_mask_remove_def seat_mask_is_canonical_iff upt_rec mask_simps)
  have "\<exists>es. run_call demo_crypto demo_lib lobby_context (CallLeaveTable 0) lobby_table [] = Inr (stored_table, es) \<and>
      \<not> list_ex is_hand_started es"
    using lobby_caller [of lobby_context]
    by (simp add: left mask as_player_def apply_leave_table_def can_leave_state_def can_join_state_def round_state_def lobby_fields(2-)
        lobby_width seat_at_def checked_add_def checked_sub_def Let_def remove_deck_contributor_def set_contributor_mask_def
        aggregated_pk_for_contributor_mask_def deck_default_def ROUND_WAITING_def is_hand_started_def)
  then obtain es where "run_call demo_crypto demo_lib lobby_context (CallLeaveTable 0) lobby_table [] = Inr (stored_table, es)"
    "\<not> list_ex is_hand_started es" by blast
  moreover have new: "table_new (replicate 28 1) (replicate 20 7) 2 5 10 = Inr stored_table"
    by (simp add: table_new_def stored_table_def empty_table_def)
  moreover have "t_hand_phase stored_table = PhaseWaiting" by (simp add: stored_table_def empty_table_def)
  moreover have "stored_table \<noteq> lobby_table" "t_call_seq lobby_table = 0" "t_hand_id lobby_table = 0" "t_hand_id stored_table = 0"
    by (simp_all add: lobby_table_def stored_table_def empty_table_def)
  ultimately show ?thesis
    using valid_rearm [OF table_new_valid [OF new]] waiting_normal [of stored_table demo_crypto 1000 es] table_new_valid [OF new]
    by (simp add: dispatch_def advance_counters_def checked_add_u32_def)
qed

theorem claims_come_from_deposits_witness:
  "\<exists>t'. run_steps (commit demo_crypto demo_lib) [(lobby_context, CallLeaveTable 0)] lobby_table = Some t' \<and>
     t_chip_pool lobby_table = 100 \<and> t_chip_pool t' = 0 \<and>
     (\<exists>out lost. 0 + out = (100 :: nat) \<and> owed t' + out + lost = owed lobby_table)"
proof -
  obtain es where d: "dispatch demo_crypto demo_lib lobby_context (CallLeaveTable 0) lobby_table = (stored_table\<lparr>t_call_seq := 1\<rparr>, Inr es)"
    using lobby_leave by blast
  let ?t = "stored_table\<lparr>t_call_seq := 1\<rparr>"
  have r: "run_steps (commit demo_crypto demo_lib) [(lobby_context, CallLeaveTable 0)] lobby_table = Some ?t"
    using d by (simp add: commit_def)
  have "t_chip_pool ?t = 0" by (simp add: stored_table_def empty_table_def)
  moreover have "\<forall>x\<in>set [(lobby_context, CallLeaveTable 0)]. \<not> creates (snd x)" by (simp add: creates_def)
  ultimately show ?thesis
    using claims_come_from_deposits [OF lobby_sound r] r by (simp add: paid_in_def lobby_fields)
qed

text \<open>
  C7. Betting conserves chips exactly. Folding, checking, calling, betting and raising with at
  least two contenders left move chips between stacks, bets and pot, through every street and
  settlement the action triggers, without creating or losing one: the vault changes by exactly
  as much as what it owes.
\<close>

theorem betting_conserves_chips:
  assumes "apply_player_action C i action t es = Inr (t', es')" "books t" "max_players t \<le> MAX_SEATS"
    and "2 \<le> count_active_players (t_seats t)"
  shows "t_chip_pool t' + owed t = t_chip_pool t + owed t' \<and> books t'"
  using player_action_effect [OF assms(1-3)] assms(4) by (simp add: conserves_def)

lemma flop_table_check:
  "\<exists>t' es'. apply_player_action demo_crypto 0 (RaiseTo 20) flop_table [] = Inr (t', es')"
  by (simp add: apply_player_action_def flop_table_def empty_table_def rules_new_def is_betting_round_def table_betting_round_def
      round_state_def is_player_turn_def current_turn_def raise_to_def process_raise_def seat_acted_this_round_def mask_simps
      active_betting_round_mut_def update_seat_def seat_at_def raise_seat_def demo_seat_def checked_sub_def checked_add_def
      mark_acted_def set_seat_acted_this_round_def disarm_betting_deadline_def reopen_action_def can_act_def Let_def
      advance_turn_def is_betting_complete_def set_current_turn_def set_betting_turn_def upt_conv_Cons current_turn_option_def NO_SEAT_def find_next_active_seat_def clockwise_def seat_empty_def ROUND_FLOP_def seat_is_folded_def seat_is_all_in_def)

theorem betting_conserves_chips_witness:
  "\<exists>t' es'. apply_player_action demo_crypto 0 (RaiseTo 20) flop_table [] = Inr (t', es') \<and>
     t_chip_pool t' + owed flop_table = t_chip_pool flop_table + owed t' \<and> books t'"
proof -
  obtain t' es' where r: "apply_player_action demo_crypto 0 (RaiseTo 20) flop_table [] = Inr (t', es')"
    using flop_table_check by blast
  have "books flop_table" "max_players flop_table \<le> MAX_SEATS" "2 \<le> count_active_players (t_seats flop_table)"
    by (simp_all add: books_def account_defs flop_table_def empty_table_def demo_seat_def MAX_SEATS_def rules_new_def
        count_active_players_def contends_def seat_is_folded_def)
  with betting_conserves_chips [OF r] r show ?thesis by blast
qed

text \<open>
  What a kick does outside betting. When removing a player during a shuffle, a reveal, a
  reconstruction or the showdown display sends the table back to waiting, exactly the pot of
  the hand is no longer owed to anybody: the vault keeps the chips, no seat can claim them.
\<close>

theorem kick_outside_betting_drops_the_pot:
  assumes "kick_player_internal C i cause t es = Inr (t', es')" "books t" "in_protocol (t_hand_phase t)"
    and "t_hand_phase t' = PhaseWaiting"
  shows "t_chip_pool t' + owed t = t_chip_pool t + owed t' + t_pot t"
proof -
  from assms(1) obtain es2 where "kick_player_internal_in_place C i cause t [] = Inr (t', es2)"
    by (auto simp: kick_player_internal_def result_simps)
  then show ?thesis
  proof (rule kick_in_place_cases)
    fix t1 es1 t2 es2'
    assume t1: "kick_seat_in_place_raw i cause t [] = Inr (t1, es1)"
      and t2: "advance_shuffle t1 es1 = Inr (t2, es2') \<or> t2 = t1"
      and t': "is_betting_round t2 \<and> end_without_showdown C t2 es2' = Inr (t', es2) \<or> low_player_cascade C t2 es2' = Inr (t', es2) \<or>
        (\<exists>t3 es3. is_betting_round t2 \<and> advance_turn C t2 es2' = Inr (t3, es3) \<and> low_player_cascade C t3 es3 = Inr (t', es2))"
    note k = kick_raw_effect [OF t1]
    have p1: "in_protocol (t_hand_phase t1)" using assms(3) k(6) by (simp add: in_protocol_tag)
    then have p2: "frame t1 t2" "in_protocol (t_hand_phase t2)"
      using t2 advance_shuffle_frame [of t1 es1 t2 es2'] by (auto simp: enters_protocol_def)
    have b: "bets t = 0" "bets t1 = 0" "wagered t1 = t_pot t1" "wagered t = t_pot t"
      using assms(2,3) p1 k(2) in_protocol_facts by (auto simp: books_def)
    have "t_pot t1 = t_pot t" using b k(7) by simp
    have "\<not> is_betting_round t2" using p2(2) in_protocol_facts is_betting_in_betting by blast
    with t' have "low_player_cascade C t2 es2' = Inr (t', es2)" by blast
    moreover have "t' \<noteq> t2" using p2(2) assms(4) by auto
    ultimately have r: "reset_for_next_hand C t2 es2' = Inr (t', es2)"
      using \<open>\<not> is_betting_round t2\<close> by (auto simp: low_player_cascade_def Let_def split: if_splits)
    from reset_effect [OF r] frame_accounts [OF p2(1)] k(1) b \<open>t_pot t1 = t_pot t\<close>
    show ?thesis by (simp add: conserves_def owed_def)
  qed
qed

lemma display_table_kick:
  "\<exists>t' es'. kick_player_internal demo_crypto 0 KickAdmin display_table [] = Inr (t', es') \<and> t_hand_phase t' = PhaseWaiting"
  by (simp add: kick_player_internal_def kick_player_internal_in_place_def kick_seat_in_place_raw_def display_table_def empty_table_def
      rules_new_def demo_seat_def checked_add_def checked_sub_def Let_def update_seat_def seat_at_def
      set_seat_wants_leave_def set_seat_acted_this_round_def set_contributor_mask_def remove_seat_from_active_phase_def
      is_betting_round_def table_betting_round_def round_state_def shuffle_phase_def table_shuffling_purpose_def
      count_active_players_def contends_def seat_is_folded_def seat_empty_def MIN_PLAYERS_TO_START_def
      reset_for_next_hand_def reset_preflight_def upt_conv_Cons seat_wants_leave_def mask_simps merge_addon_def refill_time_bank_def
      mask_where_def demo_crypto_def seats_where_def reset_remove_def vacate_seat_def reset_clear_def enter_waiting_def
      set_initial_encrypted_deck_def deck_try_from_def CIPHER_DECK_SIZE_def)

theorem kick_outside_betting_drops_the_pot_witness:
  "\<exists>t' es'. kick_player_internal demo_crypto 0 KickAdmin display_table [] = Inr (t', es') \<and> t_pot display_table = 20 \<and>
     t_chip_pool t' + owed display_table = t_chip_pool display_table + owed t' + t_pot display_table"
proof -
  obtain t' es' where k: "kick_player_internal demo_crypto 0 KickAdmin display_table [] = Inr (t', es')" "t_hand_phase t' = PhaseWaiting"
    using display_table_kick by blast
  have "books display_table" "in_protocol (t_hand_phase display_table)"
    by (simp_all add: books_def account_defs display_table_def empty_table_def demo_seat_def MAX_SEATS_def)
  from kick_outside_betting_drops_the_pot [OF k(1) this k(2)] k(1) show ?thesis by (auto simp: display_table_def)
qed

text \<open>
  Creating a table never looks at the table it replaces: for every table, live or not, and
  for every caller, a well-formed creation call is accepted, makes the caller the creator, and
  leaves an empty table whose vault is empty.
\<close>

theorem create_table_replaces_any_table:
  assumes "2 \<le> mp" "mp \<le> 9" "0 < bb" "sb \<le> bb" "rit = RIT_MODE_DISABLED \<or> rit = RIT_MODE_TWICE"
    and "dc_block_timestamp ctx \<noteq> 0" "t_call_seq (pre :: 'pt table) < 2 ^ 32 - 1"
  shows "\<exists>t. dispatch C L ctx (CallCreateTable mp sb bb rit) pre = (t, Inr []) \<and> t_creator t = dc_caller ctx \<and>
    t_chip_pool t = 0 \<and> owed t = 0 \<and> t_hand_phase t = PhaseWaiting \<and> list_all seat_is_vacant (t_seats t)"
  by (rule create_commits [OF assms, of C L]) (auto simp: list_all_iff)

theorem create_table_replaces_any_table_witness:
  "t_chip_pool flop_table = 300 \<and> t_creator flop_table = [7] \<and>
   (\<exists>t. dispatch demo_crypto demo_lib demo_ctx (CallCreateTable 2 5 10 0) flop_table = (t, Inr []) \<and> t_creator t = [1] \<and>
      t_chip_pool t = 0 \<and> owed t = 0 \<and> t_hand_phase t = PhaseWaiting \<and> list_all seat_is_vacant (t_seats t))"
  using create_table_replaces_any_table [of 2 10 5 0 demo_ctx flop_table demo_crypto demo_lib]
  by (simp add: flop_table_def empty_table_def demo_ctx_def RIT_MODE_DISABLED_def)

section \<open>The dispatcher\<close>










text \<open>
  C30. Atomicity and numbering. A command that fails leaves the table as it was; an accepted call
  either changes nothing at all or advances the call number by one, and advances the hand number
  by one exactly when it started a hand; the numbers stay within 32 bits.
\<close>

theorem dispatch_is_atomic_and_sequenced:
  "(run_call C L ctx c pre [] = Inl e \<longrightarrow> dispatch C L ctx c pre = (pre, Inl e)) \<and>
   (dispatch C L ctx c pre = (t', Inr es) \<longrightarrow> t' = pre \<or>
      t_call_seq t' = t_call_seq pre + 1 \<and> t_hand_id t' = t_hand_id pre + of_bool (list_ex is_hand_started es) \<and>
      t_call_seq t' < 2 ^ 32 \<and> t_hand_id t' \<le> max (t_hand_id pre) (2 ^ 32 - 1))"
proof (intro conjI impI)
  show "dispatch C L ctx c pre = (pre, Inl e)" if "run_call C L ctx c pre [] = Inl e" using that by (simp add: dispatch_def)
  assume "dispatch C L ctx c pre = (t', Inr es)"
  then obtain t2 where "advance_counters pre t2 es = Inr t'" by (rule dispatch_commits)
  then show "t' = pre \<or>
      t_call_seq t' = t_call_seq pre + 1 \<and> t_hand_id t' = t_hand_id pre + of_bool (list_ex is_hand_started es) \<and>
      t_call_seq t' < 2 ^ 32 \<and> t_hand_id t' \<le> max (t_hand_id pre) (2 ^ 32 - 1)"
    by (auto simp: advance_counters_def result_simps split: if_splits)
qed

theorem dispatch_is_atomic_and_sequenced_witness:
  "dispatch demo_crypto demo_lib demo_ctx CallStartHand flop_table = (flop_table, Inl (Serialization ''caller is not table creator''))"
proof -
  have "run_call demo_crypto demo_lib demo_ctx CallStartHand flop_table [] = Inl (Serialization ''caller is not table creator'')"
    by (simp add: as_creator_def require_caller_is_creator_def flop_table_def empty_table_def demo_ctx_def)
  with dispatch_is_atomic_and_sequenced [of demo_crypto demo_lib demo_ctx CallStartHand flop_table] show ?thesis by blast
qed

text \<open>
  Command tags. Every command is recovered from its persisted tag, and a tag decodes to a
  command only when it is the tag of that command: retired tags decode to nothing.
\<close>

theorem command_tags_roundtrip:
  "command_from_u8 (command_to_u8 c) = Some c \<and> (command_from_u8 n = Some c \<longleftrightarrow> n = command_to_u8 c)"
proof -
  have "command_from_u8 (command_to_u8 c) = Some c" by (cases c) (simp_all add: command_from_u8_def)
  moreover have "n = command_to_u8 c" if "command_from_u8 n = Some c"
    using that by (auto simp: command_from_u8_def split: if_splits)
  ultimately show ?thesis by blast
qed

section \<open>Normalisation and deadlines\<close>



text \<open>
  C38. Timeouts of the player to act. Before the deadline nothing happens; at the deadline, while
  the player has time in the bank, the bank pays for an extension of exactly the time taken from
  it, and the player keeps the turn, the cards and the chips.
\<close>

theorem no_fold_before_the_time_bank:
  assumes "advance_betting_deadline C now pre t es = Inr (t', es', ex)" "betting_deadline_ms t = Some d"
    and "now < d \<or> 0 < seat_time_bank_ms (t_seats t ! current_turn t)"
  shows "if now < d then t' = t \<and> es' = es \<and> de_outcome ex = NotDue DeadBetting (current_turn t) d
    else let c = min (seat_time_bank_ms (t_seats t ! current_turn t)) (betting_timeout_ms (timeouts t)) in
      de_outcome ex = TimeBankExtended (current_turn t) (d + c) \<and> betting_deadline_ms t' = Some (d + c) \<and>
      current_turn t' = current_turn t \<and> d + c < 2 ^ 64 \<and>
      t_seats t' = (t_seats t)[current_turn t := set_time_bank_ms (seat_time_bank_ms (t_seats t ! current_turn t) - c) (t_seats t ! current_turn t)]"
proof (cases "now < d")
  case True
  with assms show ?thesis
    by (auto simp: advance_betting_deadline_def consume_deadline_def execution_def Let_def result_simps split: if_splits)
next
  case False
  with assms show ?thesis
    by (auto simp: advance_betting_deadline_def execution_def Let_def result_simps consume_time_bank_def extend_betting_deadline_def
        betting_deadline_ms_def current_turn_def split: if_splits hand_phase.splits)
qed

theorem no_fold_before_the_time_bank_witness:
  "\<exists>t' es' ex. advance_betting_deadline demo_crypto 9500 [] flop_table [] = Inr (t', es', ex) \<and>
     de_outcome ex = TimeBankExtended 0 39000 \<and> current_turn t' = 0 \<and> seat_stack (t_seats t' ! 0) = 90"
proof -
  have f: "betting_deadline_ms flop_table = Some 9000" "current_turn flop_table = 0" "seat_time_bank_ms (t_seats flop_table ! 0) = 30000"
    "betting_timeout_ms (timeouts flop_table) = 30000" "seat_stack (t_seats flop_table ! 0) = 90"
    by (simp_all add: flop_table_def empty_table_def betting_deadline_ms_def current_turn_def demo_seat_def rules_new_def timeout_default_def)
  obtain t' es' ex where r: "advance_betting_deadline demo_crypto 9500 [] flop_table [] = Inr (t', es', ex)"
    using f by (simp add: advance_betting_deadline_def NO_SEAT_def consume_time_bank_def extend_betting_deadline_def checked_add_def Let_def
        flop_table_def empty_table_def demo_seat_def rules_new_def)
  have "seat_stack (set_time_bank_ms v x) = seat_stack x" for v and x :: "int seat" by (cases x) simp_all
  with no_fold_before_the_time_bank [OF r f(1)] f r show ?thesis
    by (cases "0 < length (t_seats flop_table)") (auto simp: Let_def)
qed

section \<open>Betting, blinds and proofs at the table\<close>

text \<open>
  Reopening the action. After a raise the raiser has acted; every other player who can still
  wager must act again when the raise was at least the minimum raise, and keeps the acted flag
  after a short all-in raise.
\<close>

theorem full_raise_reopens_action:
  assumes "raise_to i total_bet t es = Inr (t', es')" "table_betting_round t = Some r" "length (t_seats t) = MAX_SEATS"
    and "k < MAX_SEATS" "k \<noteq> i" "can_act (t_seats t ! k)"
  shows "seat_acted_this_round t' i \<and>
    (seat_acted_this_round t' k \<longleftrightarrow> seat_acted_this_round t k \<and> total_bet - current_bet r < min_raise r)"
proof -
  from assms(1,2) obtain needed r' t1 t2 t3 where t1: "active_betting_round_mut (\<lambda>_. r') t = Inr t1"
    and t2: "update_seat i (with_playing (raise_seat total_bet needed)) t1 = Inr t2" and t3: "mark_acted i t2 = Inr t3"
    and t': "t' = (if total_bet - current_bet r \<ge> min_raise r then reopen_action i t3 else t3)"
    by (auto simp: raise_to_def result_simps Let_def split: if_splits sum.splits)
  have f1: "t_seats t1 = t_seats t" "t_acted_mask t1 = t_acted_mask t"
    using t1 by (auto simp: active_betting_round_mut_def split: hand_phase.splits)
  with t2 obtain s' where s': "i < length (t_seats t)" "t_seats t2 = (t_seats t)[i := s']" "t_acted_mask t2 = t_acted_mask t"
    by (auto simp: update_seat_Inr)
  from t3 have f3: "t_seats t3 = t_seats t2" "t_acted_mask t3 = t_acted_mask (set_seat_acted_this_round i True t2)"
    by (auto simp: mark_acted_def disarm_betting_deadline_def split: hand_phase.splits)
  have a3: "seat_acted_this_round t3 j \<longleftrightarrow> j = i \<or> seat_acted_this_round t j" if "j < MAX_SEATS" for j
    using set_acted [of i j t2] that s' f3 assms(3) by (simp add: seat_acted_this_round_def)
  show ?thesis
    using t' a3 [OF assms(4)] a3 [of i] s' f3 assms(3-6) reopen_acted [of t3 k i] reopen_acted [of t3 i i] by auto
qed

theorem full_raise_reopens_action_witness:
  "\<exists>t' es'. raise_to 0 20 (flop_table\<lparr>t_acted_mask := 2\<rparr>) [] = Inr (t', es') \<and> seat_acted_this_round t' 0 \<and>
     seat_acted_this_round (flop_table\<lparr>t_acted_mask := 2\<rparr>) 1 \<and> \<not> seat_acted_this_round t' 1"
proof -
  let ?t = "flop_table\<lparr>t_acted_mask := 2\<rparr>"
  obtain t' es' where r: "raise_to 0 20 ?t [] = Inr (t', es')"
    by (simp add: flop_table_def empty_table_def table_betting_round_def
      round_state_def raise_to_def process_raise_def seat_acted_this_round_def mask_simps
      active_betting_round_mut_def update_seat_def seat_at_def raise_seat_def demo_seat_def checked_sub_def checked_add_def
      mark_acted_def set_seat_acted_this_round_def disarm_betting_deadline_def Let_def bit_2_iff)
  have f: "table_betting_round ?t = Some \<lparr>current_bet = 0, min_raise = 10\<rparr>" "length (t_seats ?t) = MAX_SEATS" "can_act (t_seats ?t ! 1)"
    "seat_acted_this_round ?t 1"
    by (simp_all add: flop_table_def empty_table_def table_betting_round_def MAX_SEATS_def demo_seat_def can_act_def seat_is_folded_def
        seat_is_all_in_def seat_acted_this_round_def seat_mask_contains_def seat_mask_bit_def)
  from full_raise_reopens_action [OF r f(1,2) _ _ f(3)] r f(4) show ?thesis by (simp add: MAX_SEATS_def)
qed

text \<open>
  The blinds are posted by two different seats, unless the small blind is dead.
\<close>

theorem blinds_are_posted_by_different_seats:
  assumes "blind_seats t = Inr (sb, bb)" "padding_seats_are_vacant t"
  shows "sb \<noteq> bb \<or> sb = NO_SEAT"
  by (rule blind_seats_distinct [OF assms])

theorem blinds_are_posted_by_different_seats_witness:
  "blind_seats flop_table = Inr (0, 1) \<and> (0 :: nat) \<noteq> 1"
proof -
  have "blind_seats flop_table = Inr (0, 1)" "padding_seats_are_vacant flop_table"
    by (simp_all add: blind_seats_def flop_table_def empty_table_def rules_new_def demo_seat_def seat_empty_def NO_SEAT_def
        count_active_occupied_def participates_def find_next_participating_seat_def clockwise_def upt_conv_Cons Let_def
        padding_seats_are_vacant_def seat_at_def)
  from blinds_are_posted_by_different_seats [OF this] this(1) show ?thesis by simp
qed

text \<open>
  When seats may change. On a valid table joining and leaving are possible between hands and
  also during the shuffle that opens a hand, because that shuffle still counts as waiting.
\<close>

theorem joining_is_open_until_the_deal:
  assumes "validate_state_schema G t = Inr ()"
  shows "can_join_state t \<longleftrightarrow> t_hand_phase t = PhaseWaiting \<or> (\<exists>st d. t_hand_phase t = PhaseShuffling (ShufflingInitial st d))"
proof -
  have "before_deal ph \<longleftrightarrow> ph = PhaseWaiting \<or> (\<exists>st d. ph = PhaseShuffling (ShufflingInitial st d))" for ph :: "'a hand_phase"
    by (cases ph rule: before_deal.cases) auto
  moreover have "can_join_state t" if "before_deal (t_hand_phase t)"
    using that by (cases "t_hand_phase t" rule: before_deal.cases) (auto simp: can_join_state_def round_state_def)
  ultimately show ?thesis using valid_facts(4) [OF assms] by (auto simp: can_join_state_def)
qed

theorem joining_is_open_until_the_deal_witness:
  "can_join_state (empty_table 2)"
  using joining_is_open_until_the_deal [OF table_new_valid [OF empty_table_new, of 2]] by (simp add: empty_table_def)

text \<open>
  Folding with a proof. While betting there are no reveal assignments, so the list of the
  folding player's own card slots is always empty: the rule that those slots must stay
  unchanged restricts nothing, and the proof ranges over the whole deck.
\<close>

theorem fold_proof_protects_no_slot:
  assumes "is_betting_round t"
  shows "excluded_slots i t = [] \<and> drop_slots (excluded_slots i t) xs = xs"
proof -
  have "reveal_assignments t = []"
    using is_betting_in_betting [OF assms]
    by (cases "t_hand_phase t") (auto simp: reveal_assignments_def reveal_token_state_def)
  then show ?thesis by (simp add: excluded_slots_def drop_slots_def map_nth)
qed

theorem fold_proof_protects_no_slot_witness:
  "is_betting_round flop_table \<and> excluded_slots 0 flop_table = [] \<and> drop_slots (excluded_slots 0 flop_table) [1, 2, 3] = [1, 2, 3 :: nat]"
proof -
  have b: "is_betting_round flop_table" by (simp add: flop_table_def is_betting_round_def table_betting_round_def round_state_def)
  with fold_proof_protects_no_slot [OF b, of 0 "[1, 2, 3 :: nat]"] show ?thesis by blast
qed

end
